(* ===== verification/Prelude.thy ===== *)
theory Prelude
  imports Complex_Main "HOL-Library.Multiset" "HOL-Library.List_Lexorder"
    "HOL-Library.Product_Lexorder" "HOL-Library.Char_ord"
begin

text \<open>
  What every component of the development shares.

  \<^item> Python's numbers: an \<open>int\<close> of the source is \<open>int\<close> (or \<open>nat\<close> where it is a
    count), a \<open>float\<close> is an exact rational \<open>pyfloat\<close>. Rounding is not modelled;
    where the code only compares floats the rationals are exact.
  \<^item> Instants: a time-zone aware \<open>datetime\<close> is the number of microseconds since the
    UNIX epoch in UTC, the resolution Python itself stores.
  \<^item> Exceptions: a call that may raise returns \<open>py_error + 'a\<close>, \<open>Inl\<close> for the raise;
    \<open>and_then\<close> sequences two such calls and \<open>fold_res\<close> is a \<open>for\<close> loop whose
    body may raise.
  \<^item> \<open>ordered_unique\<close> is \<open>dict.fromkeys\<close> read back as a list.
  The locales state the two shapes of loop argument that the components share: an
  invariant of a loop whose body may raise, and an invariant of a state machine.
\<close>

section \<open>Types\<close>

type_synonym pyfloat = rat
type_synonym instant = int

datatype py_error =
    ValueError
  | TypeError
  | KeyError
  | OverflowError
  | RuntimeError
  | IndexError
  | ImportError
  | ZeroDivisionError
  | NotImplementedError

named_theorems wf_intro \<open>introduction rules of the components' invariants\<close>
named_theorems res_simps \<open>how results are sequenced\<close>

section \<open>Results\<close>

fun and_then :: "'e + 'a \<Rightarrow> ('a \<Rightarrow> 'e + 'b) \<Rightarrow> 'e + 'b" where
  "and_then (Inl e) f = Inl e"
| "and_then (Inr a) f = f a"

declare and_then.simps [res_simps]

lemma and_then_Inr_iff [res_simps]:
  "and_then r f = Inr b \<longleftrightarrow> (\<exists>a. r = Inr a \<and> f a = Inr b)"
  by (cases r) auto

lemma and_then_Inl_iff [res_simps]:
  "and_then r f = Inl e \<longleftrightarrow> r = Inl e \<or> (\<exists>a. r = Inr a \<and> f a = Inl e)"
  by (cases r) auto

fun fold_res :: "('s \<Rightarrow> 'x \<Rightarrow> 'e + 's) \<Rightarrow> 's \<Rightarrow> 'x list \<Rightarrow> 'e + 's" where
  "fold_res step s [] = Inr s"
| "fold_res step s (x # xs) = and_then (step s x) (\<lambda>t. fold_res step t xs)"

lemma fold_res_append:
  "fold_res step s (xs @ ys) = and_then (fold_res step s xs) (\<lambda>t. fold_res step t ys)"
proof (induction xs arbitrary: s)
  case Nil
  then show ?case by simp
next
  case (Cons x xs)
  then show ?case by (cases "step s x") simp_all
qed

text \<open>
  A loop invariant relates the inputs already consumed, the state, and the inputs still
  to come. Where the body keeps it without raising, the loop returns and keeps it.
\<close>

locale result_loop =
  fixes step :: "'s \<Rightarrow> 'x \<Rightarrow> 'e + 's"
    and inv :: "'x list \<Rightarrow> 's \<Rightarrow> 'x list \<Rightarrow> bool"
  assumes step_keeps:
    "inv done s (x # rest) \<Longrightarrow> \<exists>t. step s x = Inr t \<and> inv (done @ [x]) t rest"
begin

lemma loop_returns:
  "inv done s xs \<Longrightarrow> \<exists>t. fold_res step s xs = Inr t \<and> inv (done @ xs) t []"
proof (induction xs arbitrary: "done" s)
  case Nil
  then show ?case by simp
next
  case (Cons x xs)
  from step_keeps [OF Cons.prems] obtain t where
    t: "step s x = Inr t" "inv (done @ [x]) t xs" by blast
  from Cons.IH [OF t(2)] t(1) show ?case by simp
qed

end

text \<open>A state machine whose every step keeps an invariant keeps it over every run.\<close>

locale machine =
  fixes step :: "'s \<Rightarrow> 'e \<Rightarrow> 's"
    and inv :: "'s \<Rightarrow> bool"
  assumes step_inv: "inv s \<Longrightarrow> inv (step s e)"
begin

lemma run_inv: "inv s \<Longrightarrow> inv (foldl step s es)"
  by (induction es arbitrary: s) (auto intro: step_inv)

end

section \<open>Dictionaries read back as lists\<close>

text \<open>\<open>list(dict.fromkeys(xs))\<close>: the first occurrence of each element, in order.\<close>

fun add_unique :: "'a list \<Rightarrow> 'a list \<Rightarrow> 'a list" where
  "add_unique acc [] = acc"
| "add_unique acc (x # xs) = add_unique (if x \<in> set acc then acc else acc @ [x]) xs"

definition ordered_unique :: "'a list \<Rightarrow> 'a list" where
  "ordered_unique xs = add_unique [] xs"

lemma set_add_unique [simp]: "set (add_unique acc xs) = set acc \<union> set xs"
  by (induction acc xs rule: add_unique.induct) auto

lemma distinct_add_unique [simp]: "distinct acc \<Longrightarrow> distinct (add_unique acc xs)"
  by (induction acc xs rule: add_unique.induct) auto

lemma add_unique_subset: "set xs \<subseteq> set acc \<Longrightarrow> add_unique acc xs = acc"
  by (induction acc xs rule: add_unique.induct) auto

lemma set_ordered_unique [simp]: "set (ordered_unique xs) = set xs"
  by (simp add: ordered_unique_def)

lemma distinct_ordered_unique [simp]: "distinct (ordered_unique xs)"
  by (simp add: ordered_unique_def)

lemma add_unique_distinct:
  "distinct (acc @ xs) \<Longrightarrow> add_unique acc xs = acc @ xs"
  by (induction acc xs rule: add_unique.induct) auto

lemma ordered_unique_id: "distinct xs \<Longrightarrow> ordered_unique xs = xs"
  by (simp add: ordered_unique_def add_unique_distinct)

section \<open>Strings\<close>

definition is_space :: "char \<Rightarrow> bool" where
  "is_space c \<longleftrightarrow> of_char c \<in> ({9, 10, 11, 12, 13, 28, 29, 30, 31, 32} :: nat set)"

text \<open>\<open>str.strip()\<close> on the ASCII range.\<close>

definition py_strip :: "string \<Rightarrow> string" where
  "py_strip s = rev (dropWhile is_space (rev (dropWhile is_space s)))"

text \<open>\<open>str.lower()\<close> on the ASCII range.\<close>

definition lower_char :: "char \<Rightarrow> char" where
  "lower_char c = (if 65 \<le> (of_char c :: nat) \<and> (of_char c :: nat) \<le> 90
     then char_of ((of_char c :: nat) + 32) else c)"

definition py_lower :: "string \<Rightarrow> string" where
  "py_lower s = map lower_char s"

section \<open>Sorting by a key\<close>

lemma sort_key_perm:
  assumes "mset xs = mset ys" and "inj_on f (set xs)"
  shows "sort_key f xs = sort_key f ys"
  by (rule sort_key_inj_key_eq) (use assms in simp_all)

text \<open>Each element twice in a row: what sorting makes of a batch delivered twice.\<close>

definition doubled :: "'a list \<Rightarrow> 'a list" where
  "doubled xs = concat (map (\<lambda>x. [x, x]) xs)"

lemma doubled_simps [simp]:
  "doubled [] = []"
  "doubled (x # xs) = x # x # doubled xs"
  by (simp_all add: doubled_def)

lemma mset_doubled: "mset (doubled xs) = mset xs + mset xs"
  by (induction xs) auto

lemma set_doubled [simp]: "set (doubled xs) = set xs"
  by (induction xs) auto

lemma sorted_map_doubled: "sorted (map f xs) \<Longrightarrow> sorted (map f (doubled xs))"
  by (induction xs) auto

lemma sort_key_replay:
  assumes "inj_on f (set xs)"
  shows "sort_key f (xs @ xs) = doubled (sort_key f xs)"
  by (rule sort_key_inj_key_eq) (use assms in \<open>simp_all add: mset_doubled sorted_map_doubled\<close>)

end
