(* ===== verification/Validity.thy ===== *)
theory Validity
  imports Prelude
begin

text \<open>
  \<open>graph/temporal/validity.py\<close>, first half: instants, the half-open interval
  \<open>[valid_from, valid_to)\<close>, its predicates and \<open>close\<close>, and the as-of predicate over
  the three shapes an edge may have. The merge of assertions is in \<open>Merge\<close>.

  An instant is a number of microseconds (\<open>Prelude\<close>), so the year checks of
  \<open>coerce_instant\<close> become comparisons with the first instant of a year. The
  ISO-8601 parser of the standard library is the parameter \<open>fromiso\<close> of the functions that
  accept text; every lemma holds for any parser.
\<close>

section \<open>Instants\<close>

text \<open>
  A Python \<open>datetime\<close>: a wall clock in microseconds, aware (with its offset from UTC)
  or naive. \<open>PyNone\<close> is \<open>None\<close>; \<open>Native\<close> is an object with \<open>to_native()\<close>
  (a driver's \<open>DateTime\<close>) and what that call returns, \<open>None\<close> when it is not a
  \<open>datetime\<close>; \<open>OtherObject\<close> is anything else.
\<close>

datatype py_datetime = Naive int | Aware int int

datatype raw_instant =
    PyNone
  | Text string
  | Datetime py_datetime
  | Native "py_datetime option"
  | OtherObject

definition microseconds_per_day :: int where
  "microseconds_per_day = 86400000000"

text \<open>The first instant of a year of the proleptic Gregorian calendar.\<close>

definition year_start :: "int \<Rightarrow> instant" where
  "year_start y =
     (365 * (y - 1) + (y - 1) div 4 - (y - 1) div 100 + (y - 1) div 400 - 719162)
       * microseconds_per_day"

definition MAX_REASONABLE_YEAR :: int where
  "MAX_REASONABLE_YEAR = 2200"

definition MIN_REASONABLE_YEAR :: int where
  "MIN_REASONABLE_YEAR = 1900"

text \<open>
  The tail of \<open>coerce_instant\<close>, over a moment already in UTC. \<open>astimezone\<close> itself
  raises \<open>OverflowError\<close> when the result leaves the years 1 to 9999 of the type.
\<close>

definition check_instant :: "int \<Rightarrow> py_error + instant" where
  "check_instant m =
     (if m < year_start 1 \<or> year_start 10000 \<le> m then Inl OverflowError
      else if year_start (MAX_REASONABLE_YEAR + 1) \<le> m then Inl ValueError
      else if m < year_start MIN_REASONABLE_YEAR then Inl ValueError
      else Inr m)"

fun coerce_datetime :: "py_datetime \<Rightarrow> py_error + instant" where
  "coerce_datetime (Naive w) = Inl ValueError"
| "coerce_datetime (Aware w off) = check_instant (w - off)"

definition coerce_instant ::
  "(string \<Rightarrow> py_datetime option) \<Rightarrow> raw_instant \<Rightarrow> py_error + instant" where
  "coerce_instant fromiso value =
     (case value of
        Text s \<Rightarrow>
          (let text = py_strip s in
           if text = [] then Inl ValueError
           else (case fromiso text of None \<Rightarrow> Inl ValueError | Some d \<Rightarrow> coerce_datetime d))
      | Native r \<Rightarrow> (case r of None \<Rightarrow> Inl TypeError | Some d \<Rightarrow> coerce_datetime d)
      | Datetime d \<Rightarrow> coerce_datetime d
      | PyNone \<Rightarrow> Inl TypeError
      | OtherObject \<Rightarrow> Inl TypeError)"

text \<open>The instants every function below hands around.\<close>

definition valid_instant :: "instant \<Rightarrow> bool" where
  "valid_instant m \<longleftrightarrow>
     year_start MIN_REASONABLE_YEAR \<le> m \<and> m < year_start (MAX_REASONABLE_YEAR + 1)"

lemma year_start_values [simp]:
  "year_start 1 = -62135596800000000"
  "year_start 1900 = -2208988800000000"
  "year_start 1970 = 0"
  "year_start 2201 = 7289654400000000"
  "year_start 10000 = 253402300800000000"
  by (simp_all add: year_start_def microseconds_per_day_def)

lemma valid_instant_iff:
  "valid_instant m \<longleftrightarrow> -2208988800000000 \<le> m \<and> m < 7289654400000000"
  by (simp add: valid_instant_def MAX_REASONABLE_YEAR_def MIN_REASONABLE_YEAR_def)

lemma check_instant_iff [simp]: "check_instant m = Inr t \<longleftrightarrow> t = m \<and> valid_instant m"
  by (auto simp: check_instant_def valid_instant_def MAX_REASONABLE_YEAR_def
      MIN_REASONABLE_YEAR_def)

lemma check_instant_valid [simp]: "valid_instant m \<Longrightarrow> check_instant m = Inr m"
  by simp

lemma coerce_datetime_valid: "coerce_datetime d = Inr t \<Longrightarrow> valid_instant t"
  by (cases d) auto

text \<open>
  Normalisation of instants (\<open>coerce_instant\<close>). Whatever \<open>coerce_instant\<close>
  accepts lies between the years 1900 and 2200, it is never a naive datetime, and
  normalising its result again changes nothing, whatever the ISO parser does.
\<close>

theorem coerce_instant_normalises:
  "coerce_instant fromiso v = Inr t \<Longrightarrow>
     valid_instant t \<and> (\<forall>w. v \<noteq> Datetime (Naive w) \<and> v \<noteq> Native (Some (Naive w))) \<and>
     coerce_instant fromiso (Datetime (Aware t 0)) = Inr t"
  by (auto simp: coerce_instant_def Let_def dest: coerce_datetime_valid
      split: raw_instant.splits option.splits if_splits)

theorem coerce_instant_normalises_witness:
  "coerce_instant (\<lambda>s. Some (Aware 7200000000 7200000000)) (Text '' 1970-01-01T02:00+02:00 '')
     = Inr 0 \<and> valid_instant 0"
proof -
  have h: "coerce_instant (\<lambda>s. Some (Aware 7200000000 7200000000))
      (Text '' 1970-01-01T02:00+02:00 '') = Inr 0"
    by (simp add: coerce_instant_def py_strip_def is_space_def valid_instant_iff)
  show ?thesis using coerce_instant_normalises [OF h] h by blast
qed

section \<open>Precision\<close>

datatype precision = EXACT | DAY | MONTH | QUARTER | YEAR

fun precision_rank :: "precision \<Rightarrow> nat" where
  "precision_rank EXACT = 0"
| "precision_rank DAY = 1"
| "precision_rank MONTH = 2"
| "precision_rank QUARTER = 3"
| "precision_rank YEAR = 4"

fun precision_window :: "precision \<Rightarrow> int" where
  "precision_window EXACT = 0"
| "precision_window DAY = 1 * microseconds_per_day"
| "precision_window MONTH = 31 * microseconds_per_day"
| "precision_window QUARTER = 92 * microseconds_per_day"
| "precision_window YEAR = 366 * microseconds_per_day"

text \<open>\<open>max(a, b, key=lambda p: p.rank)\<close>: the first of two equally coarse arguments.\<close>

definition coarser :: "precision \<Rightarrow> precision \<Rightarrow> precision" where
  "coarser a b = (if precision_rank b > precision_rank a then b else a)"

lemma precision_rank_inj: "precision_rank a = precision_rank b \<Longrightarrow> a = b"
  by (cases a; cases b) simp_all

lemma coarser_comm: "coarser a b = coarser b a"
  by (auto simp: coarser_def dest: precision_rank_inj)

lemma coarser_assoc: "coarser (coarser a b) c = coarser a (coarser b c)"
  by (auto simp: coarser_def)

lemma coarser_idem [simp]: "coarser a a = a"
  by (simp add: coarser_def)

section \<open>The interval\<close>

record interval =
  valid_from :: instant
  valid_to :: "instant option"
  precision :: precision

text \<open>\<open>Interval.__post_init__\<close>, over datetimes that are already in UTC.\<close>

definition new_interval :: "int \<Rightarrow> int option \<Rightarrow> precision \<Rightarrow> py_error + interval" where
  "new_interval f t p =
     and_then (check_instant f) (\<lambda>f'.
       case t of
         None \<Rightarrow> Inr \<lparr>valid_from = f', valid_to = None, precision = p\<rparr>
       | Some e \<Rightarrow> and_then (check_instant e) (\<lambda>e'.
           if e' \<le> f' then Inl ValueError
           else Inr \<lparr>valid_from = f', valid_to = Some e', precision = p\<rparr>))"

text \<open>The same constructor over whatever a caller passes: a driver record, a string.\<close>

definition make_interval ::
  "(string \<Rightarrow> py_datetime option) \<Rightarrow> raw_instant \<Rightarrow> raw_instant \<Rightarrow> precision
     \<Rightarrow> py_error + interval" where
  "make_interval fromiso f t p =
     and_then (coerce_instant fromiso f) (\<lambda>f'.
       if t = PyNone then Inr \<lparr>valid_from = f', valid_to = None, precision = p\<rparr>
       else and_then (coerce_instant fromiso t) (\<lambda>e'.
         if e' \<le> f' then Inl ValueError
         else Inr \<lparr>valid_from = f', valid_to = Some e', precision = p\<rparr>))"

definition wf_interval :: "interval \<Rightarrow> bool" where
  "wf_interval i \<longleftrightarrow> valid_instant (valid_from i) \<and>
     (\<forall>e. valid_to i = Some e \<longrightarrow> valid_instant e \<and> valid_from i < e)"

definition is_open :: "interval \<Rightarrow> bool" where
  "is_open i \<longleftrightarrow> valid_to i = None"

definition covers :: "instant \<Rightarrow> instant option \<Rightarrow> instant \<Rightarrow> bool" where
  "covers f t m =
     (if f > m then False else (case t of None \<Rightarrow> True | Some e \<Rightarrow> e > m))"

definition contains :: "interval \<Rightarrow> instant \<Rightarrow> bool" where
  "contains i m = covers (valid_from i) (valid_to i) m"

text \<open>\<open>a.valid_to is not None and a.valid_to <= b\<close>: the interval ends by \<open>b\<close>.\<close>

definition ends_by :: "interval \<Rightarrow> instant \<Rightarrow> bool" where
  "ends_by i b \<longleftrightarrow> (case valid_to i of None \<Rightarrow> False | Some e \<Rightarrow> e \<le> b)"

definition overlaps :: "interval \<Rightarrow> interval \<Rightarrow> bool" where
  "overlaps i j =
     (if ends_by j (valid_from i) then False else \<not> ends_by i (valid_from j))"

definition meets :: "interval \<Rightarrow> interval \<Rightarrow> bool" where
  "meets i j \<longleftrightarrow> valid_to i = Some (valid_from j)"

definition boundary_is_uncertain :: "interval \<Rightarrow> instant \<Rightarrow> bool" where
  "boundary_is_uncertain i m =
     (let window = precision_window (precision i) in
      if window \<le> 0 then False
      else if \<bar>m - valid_from i\<bar> < window then True
      else (case valid_to i of None \<Rightarrow> False | Some e \<Rightarrow> \<bar>m - e\<bar> < window))"

definition close :: "interval \<Rightarrow> instant \<Rightarrow> precision option \<Rightarrow> py_error + interval" where
  "close i moment p =
     and_then (check_instant moment) (\<lambda>m.
       if m \<le> valid_from i then Inl ValueError
       else if (case valid_to i of None \<Rightarrow> False | Some e \<Rightarrow> m > e) then Inl ValueError
       else new_interval (valid_from i) (Some m)
              (case p of None \<Rightarrow> precision i | Some q \<Rightarrow> q))"

definition open_interval :: "instant \<Rightarrow> precision \<Rightarrow> py_error + interval" where
  "open_interval f p = new_interval f None p"

section \<open>Laws of the interval\<close>

lemma new_interval_iff:
  "new_interval f t p = Inr i \<longleftrightarrow>
     i = \<lparr>valid_from = f, valid_to = t, precision = p\<rparr> \<and> wf_interval i"
  by (cases t) (auto simp: new_interval_def wf_interval_def res_simps)

lemma make_interval_utc:
  "make_interval fromiso (Datetime (Aware f 0))
     (case t of None \<Rightarrow> PyNone | Some e \<Rightarrow> Datetime (Aware e 0)) p = new_interval f t p"
  by (auto simp: make_interval_def new_interval_def coerce_instant_def split: option.splits)

lemma contains_iff:
  "contains i m \<longleftrightarrow> valid_from i \<le> m \<and> (\<forall>e. valid_to i = Some e \<longrightarrow> m < e)"
  by (auto simp: contains_def covers_def split: option.splits)

lemma ends_by_iff: "ends_by i b \<longleftrightarrow> (\<exists>e. valid_to i = Some e \<and> e \<le> b)"
  by (auto simp: ends_by_def split: option.splits)

lemma overlaps_iff_ends: "overlaps i j \<longleftrightarrow> \<not> ends_by j (valid_from i) \<and> \<not> ends_by i (valid_from j)"
  by (simp add: overlaps_def)

lemma contains_start [simp]: "wf_interval i \<Longrightarrow> contains i (valid_from i)"
  by (simp add: contains_iff wf_interval_def)

lemma overlaps_shares_instant_law: "contains i m \<and> contains j m \<Longrightarrow> overlaps i j"
  by (auto simp: overlaps_iff_ends ends_by_iff contains_iff)

lemma ends_by_disjoint: "ends_by i b \<Longrightarrow> contains i m \<Longrightarrow> m < b"
  by (auto simp: ends_by_iff contains_iff)

text \<open>
  Overlap is sharing an instant (\<open>Interval.overlaps\<close>). Two well-formed intervals
  overlap exactly when some instant lies in both; in particular the relation is
  symmetric, and intervals that meet, \<open>[a, b)\<close> and \<open>[b, c)\<close>, do not overlap.
\<close>

theorem overlaps_shares_instant:
  assumes "wf_interval i" and "wf_interval j"
  shows "(overlaps i j \<longleftrightarrow> (\<exists>m. contains i m \<and> contains j m))
    \<and> overlaps i j = overlaps j i \<and> (meets i j \<longrightarrow> \<not> overlaps i j)"
proof -
  have "overlaps i j \<Longrightarrow>
      contains i (max (valid_from i) (valid_from j)) \<and>
      contains j (max (valid_from i) (valid_from j))"
    using assms by (auto simp: overlaps_iff_ends ends_by_iff contains_iff wf_interval_def)
  moreover have "contains i m \<Longrightarrow> contains j m \<Longrightarrow> overlaps i j" for m
    by (auto simp: overlaps_iff_ends ends_by_iff contains_iff)
  ultimately show ?thesis
    by (auto simp: overlaps_iff_ends ends_by_iff meets_def)
qed

theorem overlaps_shares_instant_witness:
  "wf_interval \<lparr>valid_from = 0, valid_to = Some 10, precision = DAY\<rparr> \<and>
   wf_interval \<lparr>valid_from = 10, valid_to = None, precision = EXACT\<rparr> \<and>
   \<not> overlaps \<lparr>valid_from = 0, valid_to = Some 10, precision = DAY\<rparr>
      \<lparr>valid_from = 10, valid_to = None, precision = EXACT\<rparr>"
proof -
  have i: "wf_interval \<lparr>valid_from = 0, valid_to = Some 10, precision = DAY\<rparr>"
    and j: "wf_interval \<lparr>valid_from = 10, valid_to = None, precision = EXACT\<rparr>"
    by (simp_all add: wf_interval_def valid_instant_iff)
  show ?thesis
    using i j overlaps_shares_instant [OF i j, THEN conjunct2, THEN conjunct2]
    by (simp add: meets_def)
qed

lemma close_iff:
  assumes "wf_interval i"
  shows "close i m p = Inr j \<longleftrightarrow>
    valid_instant m \<and> valid_from i < m \<and> (\<forall>e. valid_to i = Some e \<longrightarrow> m \<le> e) \<and>
    j = \<lparr>valid_from = valid_from i, valid_to = Some m,
         precision = (case p of None \<Rightarrow> precision i | Some q \<Rightarrow> q)\<rparr>"
  using assms
  by (auto simp: close_def res_simps new_interval_iff wf_interval_def split: option.splits)

text \<open>
  Closing only ever shortens (\<open>Interval.close\<close>). A successful close leaves exactly
  the instants of the interval before the closing moment, and the call succeeds exactly
  when that moment is a valid instant, after the start and not after an existing end.
\<close>

theorem close_shortens:
  assumes "wf_interval i"
  shows "(\<forall>j. close i m p = Inr j \<longrightarrow>
            wf_interval j \<and> (\<forall>x. contains j x \<longleftrightarrow> contains i x \<and> x < m))
       \<and> ((\<exists>j. close i m p = Inr j) \<longleftrightarrow>
            valid_instant m \<and> valid_from i < m \<and> (\<forall>e. valid_to i = Some e \<longrightarrow> m \<le> e))"
  using assms by (auto simp: close_iff contains_iff wf_interval_def)

theorem close_shortens_witness:
  "close \<lparr>valid_from = 0, valid_to = Some 10, precision = DAY\<rparr> 5 None
     = Inr \<lparr>valid_from = 0, valid_to = Some 5, precision = DAY\<rparr> \<and>
   close \<lparr>valid_from = 0, valid_to = Some 10, precision = DAY\<rparr> 11 None = Inl ValueError \<and>
   (\<exists>j. close \<lparr>valid_from = 0, valid_to = Some 10, precision = DAY\<rparr> 5 None = Inr j)"
proof -
  have i: "wf_interval \<lparr>valid_from = 0, valid_to = Some 10, precision = DAY\<rparr>"
    by (simp add: wf_interval_def valid_instant_iff)
  show ?thesis
    using close_shortens [OF i, of 5 None]
    by (simp add: close_def new_interval_def valid_instant_iff)
qed

section \<open>The as-of predicate\<close>

text \<open>
  What the predicate accepts: a row of a driver (a mapping from column names) or any
  object with the two attributes.
\<close>

datatype edge_view =
    RowView "string \<rightharpoonup> raw_instant"
  | ObjectView raw_instant raw_instant

fun raw_validity :: "edge_view \<Rightarrow> py_error + (raw_instant \<times> raw_instant)" where
  "raw_validity (RowView row) =
     (case row ''valid_from'' of
        None \<Rightarrow> Inl KeyError
      | Some f \<Rightarrow> Inr (f, (case row ''valid_to'' of None \<Rightarrow> PyNone | Some t \<Rightarrow> t)))"
| "raw_validity (ObjectView f t) = Inr (f, t)"

definition validity_of ::
  "(string \<Rightarrow> py_datetime option) \<Rightarrow> edge_view \<Rightarrow> py_error + (instant \<times> instant option)" where
  "validity_of fromiso edge =
     and_then (raw_validity edge) (\<lambda>(f, t).
       and_then (coerce_instant fromiso f) (\<lambda>f'.
         if t = PyNone then Inr (f', None)
         else and_then (coerce_instant fromiso t) (\<lambda>t'. Inr (f', Some t'))))"

text \<open>
  \<open>as_of(moment)\<close> resolves its instant once, to the clock's \<open>now\<close> for \<open>None\<close>, and
  returns the predicate.
\<close>

definition as_of_instant ::
  "(string \<Rightarrow> py_datetime option) \<Rightarrow> instant \<Rightarrow> raw_instant \<Rightarrow> py_error + instant" where
  "as_of_instant fromiso now moment =
     (if moment = PyNone then Inr now else coerce_instant fromiso moment)"

definition as_of_predicate ::
  "(string \<Rightarrow> py_datetime option) \<Rightarrow> instant \<Rightarrow> edge_view \<Rightarrow> py_error + bool" where
  "as_of_predicate fromiso moment edge =
     and_then (validity_of fromiso edge) (\<lambda>(f, t). Inr (covers f t moment))"

definition view_of_interval :: "interval \<Rightarrow> edge_view" where
  "view_of_interval i =
     ObjectView (Datetime (Aware (valid_from i) 0))
       (case valid_to i of None \<Rightarrow> PyNone | Some e \<Rightarrow> Datetime (Aware e 0))"

definition row_of_interval :: "interval \<Rightarrow> edge_view" where
  "row_of_interval i =
     RowView (case valid_to i of
        None \<Rightarrow> [''valid_from'' \<mapsto> Datetime (Aware (valid_from i) 0)]
      | Some e \<Rightarrow> [''valid_from'' \<mapsto> Datetime (Aware (valid_from i) 0),
                    ''valid_to'' \<mapsto> Datetime (Aware e 0)])"

text \<open>
  The as-of predicate does not depend on the shape of the edge (\<open>as_of\<close>,
  \<open>_validity_of\<close>). Asked about an \<open>Interval\<close>, about an object with its two
  attributes or about a driver row that carries the same columns, with \<open>valid_to\<close>
  omitted when it is null, the predicate answers what \<open>Interval.contains\<close> answers and
  raises nothing.
\<close>

theorem as_of_shape_independent:
  assumes "wf_interval i"
  shows "as_of_predicate fromiso m (view_of_interval i) = Inr (contains i m) \<and>
         as_of_predicate fromiso m (row_of_interval i) = Inr (contains i m)"
  using assms
  by (auto simp: as_of_predicate_def validity_of_def view_of_interval_def row_of_interval_def
      coerce_instant_def wf_interval_def contains_def split: option.splits)

theorem as_of_shape_independent_witness:
  "as_of_predicate (\<lambda>_. None) 9
     (row_of_interval \<lparr>valid_from = 0, valid_to = Some 10, precision = DAY\<rparr>) = Inr True"
proof -
  have i: "wf_interval \<lparr>valid_from = 0, valid_to = Some 10, precision = DAY\<rparr>"
    by (simp add: wf_interval_def valid_instant_iff)
  show ?thesis
    using as_of_shape_independent [OF i, of "\<lambda>_. None" 9] by (simp add: contains_iff)
qed

end
