(* ===== verification/Merge_Laws.thy ===== *)
theory Merge_Laws
  imports Merge
begin

text \<open>
  The laws of \<open>merge_assertions\<close>. \<open>merge_move\<close> is the abstract specification of one
  turn of the loop over interval histories: a new interval is appended, the newest one
  is extended to the union, it is cut where the new one starts, or one of two
  simultaneous claims is kept. \<open>merge_step_refines\<close> shows that the code makes one of
  these moves and never raises; the invariants are then proved on the moves.
\<close>

section \<open>Well-formed inputs and accumulators\<close>

definition wf_assertion :: "assertion \<Rightarrow> bool" where
  "wf_assertion a \<longleftrightarrow> source a \<noteq> [] \<and> wf_interval (claimed a) \<and> valid_instant (observed_at a) \<and>
     0 \<le> confidence a \<and> confidence a \<le> 1"

definition wf_acc :: "accumulator \<Rightarrow> bool" where
  "wf_acc acc \<longleftrightarrow> wf_interval (acc_interval acc) \<and>
     (\<exists>s ss. acc_sources acc = s # ss \<and> s \<noteq> []) \<and> valid_instant (acc_observed_first acc) \<and>
     0 \<le> acc_confidence acc \<and> acc_confidence acc \<le> 1 \<and>
     acc_fingerprint acc = fingerprint_of (acc_properties acc)"

lemma new_assertion_wf:
  "wf_interval i \<Longrightarrow> new_assertion s i m c ps sg = Inr a \<Longrightarrow> wf_assertion a"
  by (auto simp: new_assertion_def wf_assertion_def res_simps split: if_splits)

lemma wf_acc_of [wf_intro]: "wf_assertion a \<Longrightarrow> wf_acc (acc_of a)"
  by (simp add: wf_acc_def wf_assertion_def acc_of_def fingerprint_def)

lemma acc_of_sel [simp]:
  "acc_interval (acc_of a) = claimed a" "acc_fingerprint (acc_of a) = fingerprint a"
  "acc_properties (acc_of a) = properties a"
  by (simp_all add: acc_of_def)

lemma add_unique_keeps_hd: "\<exists>ts. add_unique (s # ss) xs = s # ts"
  by (induction "s # ss" xs arbitrary: ss rule: add_unique.induct) (auto split: if_splits)

lemma as_assertion_returns: "wf_acc acc \<Longrightarrow> \<exists>b. as_assertion acc = Inr b"
  by (auto simp: wf_acc_def as_assertion_def new_assertion_def)

lemma union_contains:
  assumes "wf_interval i" and "wf_interval j" and "valid_from i \<le> valid_from j"
    and "overlaps i j \<or> meets i j"
  shows "(valid_from i \<le> m \<and>
      (\<forall>e. (case (valid_to i, valid_to j) of (Some e, Some e') \<Rightarrow> Some (max e e') | _ \<Rightarrow> None) = Some e
         \<longrightarrow> m < e))
    \<longleftrightarrow> contains i m \<or> contains j m"
  using assms
  by (cases "valid_to i"; cases "valid_to j")
    (auto simp: contains_iff overlaps_iff_ends ends_by_iff meets_def wf_interval_def max_def)

lemma absorb_union:
  assumes acc: "wf_acc acc" and a: "wf_assertion a"
    and start: "valid_from (acc_interval acc) \<le> valid_from (claimed a)"
    and touch: "overlaps (acc_interval acc) (claimed a) \<or> meets (acc_interval acc) (claimed a)"
  shows "\<exists>l. absorb acc a = Inr l \<and> wf_acc l \<and> acc_fingerprint l = acc_fingerprint acc \<and>
    acc_properties l = acc_properties acc \<and>
    valid_from (acc_interval l) = valid_from (acc_interval acc) \<and>
    (\<forall>m. contains (acc_interval l) m \<longleftrightarrow> contains (acc_interval acc) m \<or> contains (claimed a) m)"
proof -
  let ?i = "acc_interval acc" and ?j = "claimed a"
  let ?e = "case (valid_to ?i, valid_to ?j) of (Some e, Some e') \<Rightarrow> Some (max e e') | _ \<Rightarrow> None"
  let ?u = "\<lparr>valid_from = valid_from ?i, valid_to = ?e,
    precision = coarser (precision ?i) (precision ?j)\<rparr>"
  let ?l = "acc\<lparr>acc_interval := ?u,
    acc_sources := add_unique (acc_sources acc) [source a],
    acc_signal_ids := add_unique (acc_signal_ids acc) (signal_ids a),
    acc_confidence := max (acc_confidence acc) (confidence a),
    acc_observed_first := min (acc_observed_first acc) (observed_at a),
    acc_observed_last := max (acc_observed_last acc) (observed_at a)\<rparr>"
  have wi: "wf_interval ?i" and wj: "wf_interval ?j"
    using acc a by (simp_all add: wf_acc_def wf_assertion_def)
  then have wu: "wf_interval ?u"
    by (auto simp: wf_interval_def max_def split: option.splits)
  have mem: "contains ?u m \<longleftrightarrow> contains ?i m \<or> contains ?j m" for m
    using union_contains [OF wi wj start touch] by (simp add: contains_iff)
  have "new_interval (min (valid_from ?i) (valid_from ?j)) ?e
      (coarser (precision ?i) (precision ?j)) = Inr ?u"
    using wu start by (simp add: new_interval_iff min_absorb1)
  then have l: "absorb acc a = Inr ?l" by (simp add: absorb_def Let_def)
  have "wf_acc ?l"
    using acc a wu add_unique_keeps_hd [of _ _ "[source a]"]
    by (fastforce simp: wf_acc_def wf_assertion_def min_def max_def)
  with l mem show ?thesis by (intro exI [of _ ?l]) simp
qed

lemma truncate_cuts:
  assumes acc: "wf_acc acc" and a: "wf_assertion a"
    and start: "valid_from (acc_interval acc) < valid_from (claimed a)"
    and ov: "overlaps (acc_interval acc) (claimed a)"
  shows "\<exists>l. truncate_at acc (valid_from (claimed a)) s = Inr l \<and> wf_acc l \<and>
    acc_fingerprint l = acc_fingerprint acc \<and> acc_properties l = acc_properties acc \<and>
    valid_from (acc_interval l) = valid_from (acc_interval acc) \<and>
    acc_superseded_by l = Some s \<and>
    valid_to (acc_interval l) = Some (valid_from (claimed a)) \<and>
    (\<forall>m. contains (acc_interval l) m \<longleftrightarrow>
       contains (acc_interval acc) m \<and> m < valid_from (claimed a))"
proof -
  let ?i = "acc_interval acc" and ?m = "valid_from (claimed a)"
  let ?j = "\<lparr>valid_from = valid_from ?i, valid_to = Some ?m, precision = precision ?i\<rparr>"
  have wi: "wf_interval ?i" using acc by (simp add: wf_acc_def)
  have c: "close ?i ?m None = Inr ?j"
    using close_iff [OF wi, of ?m None] start ov a
    by (auto simp: overlaps_iff_ends ends_by_iff wf_assertion_def wf_interval_def)
  moreover from c have "wf_interval ?j \<and> (\<forall>x. contains ?j x \<longleftrightarrow> contains ?i x \<and> x < ?m)"
    using close_iff [OF wi, of ?m None ?j] wi by (auto simp: wf_interval_def contains_iff)
  ultimately show ?thesis using acc by (auto simp: truncate_at_def wf_acc_def)
qed

lemma disjoint_ends_by:
  "\<lbrakk>\<not> overlaps i j; wf_interval j; valid_from i \<le> valid_from j\<rbrakk> \<Longrightarrow> ends_by i (valid_from j)"
  by (auto simp: overlaps_iff_ends ends_by_iff wf_interval_def)

section \<open>The abstract moves\<close>

inductive merge_move :: "merge_state \<Rightarrow> assertion \<Rightarrow> merge_state \<Rightarrow> bool" where
  first: "resolved st = [] \<Longrightarrow> merge_move st a (st\<lparr>resolved := [acc_of a]\<rparr>)"
| extend: "\<lbrakk>resolved st = prev # rest; acc_fingerprint prev = fingerprint a; wf_acc l;
     acc_fingerprint l = fingerprint a;
     valid_from (acc_interval l) = valid_from (acc_interval prev);
     \<forall>m. contains (acc_interval l) m \<longleftrightarrow> contains (acc_interval prev) m \<or> contains (claimed a) m\<rbrakk>
   \<Longrightarrow> merge_move st a (st\<lparr>resolved := l # rest\<rparr>)"
| append: "\<lbrakk>resolved st = prev # rest; ends_by (acc_interval prev) (valid_from (claimed a))\<rbrakk>
   \<Longrightarrow> merge_move st a (st\<lparr>resolved := acc_of a # prev # rest\<rparr>)"
| cut: "\<lbrakk>resolved st = prev # rest; wf_acc l; acc_fingerprint l = acc_fingerprint prev;
     valid_from (acc_interval l) = valid_from (acc_interval prev);
     valid_to (acc_interval l) = Some (valid_from (claimed a));
     \<forall>m. contains (acc_interval l) m \<longleftrightarrow> contains (acc_interval prev) m \<and> m < valid_from (claimed a);
     resolution c = CLOSED_EARLIER\<rbrakk>
   \<Longrightarrow> merge_move st a (st\<lparr>resolved := acc_of a # l # rest, conflicts := conflicts st @ [c]\<rparr>)"
| keep: "\<lbrakk>resolved st = prev # rest; valid_from (claimed a) = valid_from (acc_interval prev);
     h = acc_of a \<or> h = prev; resolution c = KEPT_HIGHER_CONFIDENCE\<rbrakk>
   \<Longrightarrow> merge_move st a (st\<lparr>resolved := h # rest, conflicts := conflicts st @ [c]\<rparr>)"

inductive_cases merge_moveE: "merge_move st a t"

definition ready :: "merge_state \<Rightarrow> assertion \<Rightarrow> bool" where
  "ready st a \<longleftrightarrow> wf_assertion a \<and> (\<forall>acc \<in> set (resolved st). wf_acc acc) \<and>
     (\<forall>l r. resolved st = l # r \<longrightarrow> valid_from (acc_interval l) \<le> valid_from (claimed a))"

lemma merge_step_refines:
  assumes "ready st a"
  shows "\<exists>t. merge_step st a = Inr t \<and> merge_move st a t"
proof (cases "resolved st")
  case Nil
  then show ?thesis by (auto simp: merge_step_def intro: merge_move.first)
next
  case (Cons prev rest)
  let ?i = "acc_interval prev" and ?j = "claimed a"
  from assms Cons have p: "wf_acc prev" and a: "wf_assertion a"
    and le: "valid_from ?i \<le> valid_from ?j" by (auto simp: ready_def)
  have wj: "wf_interval ?j" using a by (simp add: wf_assertion_def)
  show ?thesis
  proof (cases "acc_fingerprint prev = fingerprint a")
    case same: True
    show ?thesis
    proof (cases "overlaps ?i ?j \<or> meets ?i ?j")
      case True
      from absorb_union [OF p a le True] obtain l where l: "absorb prev a = Inr l" "wf_acc l"
        "acc_fingerprint l = acc_fingerprint prev"
        "valid_from (acc_interval l) = valid_from (acc_interval prev)"
        "\<forall>m. contains (acc_interval l) m \<longleftrightarrow> contains (acc_interval prev) m \<or> contains (claimed a) m"
        by blast
      have "merge_step st a = Inr (st\<lparr>resolved := l # rest\<rparr>)"
        using Cons same True l(1) by (simp add: merge_step_def)
      moreover have "merge_move st a (st\<lparr>resolved := l # rest\<rparr>)"
        using l(3) same by (intro merge_move.extend [OF Cons same l(2) _ l(4,5)]) simp
      ultimately show ?thesis by blast
    next
      case False
      with Cons same show ?thesis
        using merge_move.append [OF Cons disjoint_ends_by [OF _ wj le]]
        by (simp add: merge_step_def)
    qed
  next
    case diff: False
    obtain b where b: "as_assertion prev = Inr b" using as_assertion_returns [OF p] by blast
    consider "\<not> overlaps ?i ?j" | "overlaps ?i ?j" "valid_from ?i < valid_from ?j"
      | "overlaps ?i ?j" "valid_from ?i = valid_from ?j" using le by force
    then show ?thesis
    proof cases
      case 1
      with Cons diff show ?thesis
        using merge_move.append [OF Cons disjoint_ends_by [OF 1 wj le]]
        by (simp add: merge_step_def)
    next
      case 2
      have r: "resolution (overlap_contradiction ?i b a) = CLOSED_EARLIER"
        by (simp add: overlap_contradiction_def Let_def)
      from truncate_cuts [OF p a 2(2,1), of "source a"] obtain l where
        l: "truncate_at prev (valid_from ?j) (source a) = Inr l" "wf_acc l"
        "acc_fingerprint l = acc_fingerprint prev"
        "valid_from (acc_interval l) = valid_from (acc_interval prev)"
        "valid_to (acc_interval l) = Some (valid_from (claimed a))"
        "\<forall>m. contains (acc_interval l) m \<longleftrightarrow>
           contains (acc_interval prev) m \<and> m < valid_from (claimed a)"
        by blast
      show ?thesis
        using merge_move.cut [OF Cons l(2-6) r] Cons diff 2 b l(1) by (simp add: merge_step_def)
    next
      case 3
      have r: "resolution (simultaneous_contradiction b a) = KEPT_HIGHER_CONFIDENCE"
        by (simp add: simultaneous_contradiction_def split: prod.splits)
      show ?thesis
        using merge_move.keep [OF Cons 3(2) [symmetric] _ r, of "if right_wins b a then acc_of a else prev"]
          Cons diff 3 b by (simp add: merge_step_def)
    qed
  qed
qed

section \<open>Histories\<close>

text \<open>Newest first: every interval is well-formed and starts after the one before it ended.\<close>

fun tiled :: "interval list \<Rightarrow> bool" where
  "tiled [] = True"
| "tiled [i] = wf_interval i"
| "tiled (i # j # js) = (wf_interval i \<and> ends_by j (valid_from i) \<and> tiled (j # js))"

lemma tiled_wf: "tiled is \<Longrightarrow> i \<in> set is \<Longrightarrow> wf_interval i"
  by (induction "is" rule: tiled.induct) auto

lemma tiled_tl: "tiled (i # is) \<Longrightarrow> tiled is"
  by (cases "is") auto

lemma tiled_replace:
  "\<lbrakk>tiled (i # is); wf_interval j; valid_from j = valid_from i\<rbrakk> \<Longrightarrow> tiled (j # is)"
  by (cases "is") auto

lemma tiled_older_end:
  "tiled (i # is) \<Longrightarrow> j \<in> set is \<Longrightarrow> ends_by j (valid_from i)"
proof (induction "is" arbitrary: i)
  case Nil
  then show ?case by simp
next
  case (Cons k ks)
  then show ?case
  proof (cases "j = k")
    case False
    with Cons have "ends_by j (valid_from k)" by auto
    moreover from Cons.prems(1) have "valid_from k < valid_from i"
      by (auto simp: ends_by_iff dest!: tiled_wf [of _ k] simp: wf_interval_def)
    ultimately show ?thesis by (auto simp: ends_by_iff)
  qed auto
qed

lemma tiled_unique:
  "\<lbrakk>tiled is; k < length is; l < length is; contains (is ! k) m; contains (is ! l) m\<rbrakk> \<Longrightarrow> k = l"
proof (induction "is" arbitrary: k l)
  case (Cons i js)
  have older: "j \<in> set js \<Longrightarrow> contains j m \<Longrightarrow> \<not> contains i m" for j
    using tiled_older_end [OF Cons.prems(1), of j] by (auto simp: ends_by_iff contains_iff)
  show ?case
  proof (cases k; cases l)
    fix k' assume "k = Suc k'" "l = 0"
    with Cons.prems older [of "js ! k'"] show ?thesis by auto
  next
    fix l' assume "k = 0" "l = Suc l'"
    with Cons.prems older [of "js ! l'"] show ?thesis by auto
  next
    fix k' l' assume "k = Suc k'" "l = Suc l'"
    with Cons tiled_tl [OF Cons.prems(1)] show ?thesis by auto
  qed simp
qed simp

lemma tiled_unique_rev:
  assumes "tiled is" and "k < length is" and "l < length is"
    and "contains (rev is ! k) m" and "contains (rev is ! l) m"
  shows "k = l"
proof -
  have "length is - Suc k = length is - Suc l"
    by (rule tiled_unique [OF assms(1), of _ _ m]) (use assms in \<open>simp_all add: rev_nth\<close>)
  with assms(2,3) show ?thesis by arith
qed

lemma tiled_open_newest: "tiled (i # is) \<Longrightarrow> j \<in> set is \<Longrightarrow> \<not> is_open j"
  using tiled_older_end by (fastforce simp: ends_by_iff is_open_def)

lemma rev_nth_older:
  assumes "Suc k < length (x # xs)"
  shows "rev (x # xs) ! k \<in> set xs"
proof -
  have "rev (x # xs) ! k = rev xs ! k" using assms by (simp add: nth_append)
  moreover have "rev xs ! k \<in> set (rev xs)" using assms by (intro nth_mem) simp
  ultimately show ?thesis by simp
qed

section \<open>The loop invariant\<close>

definition shape_inv :: "merge_state \<Rightarrow> assertion list \<Rightarrow> bool" where
  "shape_inv st rest \<longleftrightarrow>
     (\<forall>a \<in> set rest. wf_assertion a) \<and> sorted (map (\<lambda>a. valid_from (claimed a)) rest) \<and>
     (\<forall>acc \<in> set (resolved st). wf_acc acc) \<and> tiled (map acc_interval (resolved st)) \<and>
     (\<forall>l r. resolved st = l # r \<longrightarrow>
        (\<forall>a \<in> set rest. valid_from (acc_interval l) \<le> valid_from (claimed a)))"

definition supported :: "assertion list \<Rightarrow> merge_state \<Rightarrow> bool" where
  "supported seen st \<longleftrightarrow>
     (\<forall>acc \<in> set (resolved st). \<forall>m. contains (acc_interval acc) m \<longrightarrow>
        (\<exists>a \<in> set seen. fingerprint a = acc_fingerprint acc \<and> contains (claimed a) m))"

definition exact :: "assertion list \<Rightarrow> merge_state \<Rightarrow> bool" where
  "exact seen st \<longleftrightarrow>
     (conflicts st = [] \<longrightarrow>
        (\<forall>a \<in> set seen. \<forall>m. contains (claimed a) m \<longrightarrow>
           (\<exists>acc \<in> set (resolved st). contains (acc_interval acc) m)))"

definition settled :: "merge_state \<Rightarrow> bool" where
  "settled st \<longleftrightarrow> (\<forall>c \<in> set (conflicts st). resolution c \<noteq> UNRESOLVED)"

definition merge_inv :: "assertion list \<Rightarrow> merge_state \<Rightarrow> assertion list \<Rightarrow> bool" where
  "merge_inv seen st rest \<longleftrightarrow>
     shape_inv st rest \<and> supported seen st \<and> exact seen st \<and> settled st"

lemma shape_ready: "shape_inv st (a # rest) \<Longrightarrow> ready st a"
  by (auto simp: shape_inv_def ready_def)

lemma merge_move_shape:
  assumes "merge_move st a t" and "shape_inv st (a # rest)"
  shows "shape_inv t rest"
proof -
  have a: "wf_assertion a" "wf_interval (claimed a)" "wf_acc (acc_of a)"
    using assms(2) by (auto simp: shape_inv_def wf_assertion_def intro: wf_intro)
  show ?thesis
    using assms
  proof (cases rule: merge_move.cases)
    case first
    with assms(2) a show ?thesis by (auto simp: shape_inv_def)
  next
    case (extend prev older l)
    then have "wf_interval (acc_interval l)" by (simp add: wf_acc_def)
    with extend assms(2) show ?thesis by (auto simp: shape_inv_def intro: tiled_replace)
  next
    case (append prev older)
    with assms(2) a show ?thesis by (auto simp: shape_inv_def)
  next
    case (cut prev older l c)
    then have "wf_interval (acc_interval l)" "ends_by (acc_interval l) (valid_from (claimed a))"
      by (simp_all add: wf_acc_def ends_by_iff)
    with cut assms(2) a show ?thesis by (auto simp: shape_inv_def intro: tiled_replace)
  next
    case (keep prev older h c)
    with assms(2) a show ?thesis by (auto simp: shape_inv_def intro: tiled_replace)
  qed
qed

lemma merge_move_supported:
  assumes "merge_move st a t" and "supported seen st"
  shows "supported (seen @ [a]) t"
  using assms by (cases rule: merge_move.cases) (auto simp: supported_def; blast)+

lemma merge_move_exact:
  assumes "merge_move st a t" and "exact seen st"
  shows "exact (seen @ [a]) t"
  using assms by (cases rule: merge_move.cases) (auto simp: exact_def)

lemma merge_move_settled: "merge_move st a t \<Longrightarrow> settled st \<Longrightarrow> settled t"
  by (cases rule: merge_move.cases) (auto simp: settled_def)

interpretation merge_loop: result_loop merge_step merge_inv
proof
  fix seen st a rest
  assume inv: "merge_inv seen st (a # rest)"
  then have "ready st a" by (auto simp: merge_inv_def intro: shape_ready)
  then obtain t where "merge_step st a = Inr t" "merge_move st a t"
    using merge_step_refines by blast
  with inv show "\<exists>t. merge_step st a = Inr t \<and> merge_inv (seen @ [a]) t rest"
    by (auto simp: merge_inv_def intro: merge_move_shape merge_move_supported
        merge_move_exact merge_move_settled)
qed

lemma merge_key_start: "merge_key a \<le> merge_key b \<Longrightarrow> valid_from (claimed a) \<le> valid_from (claimed b)"
  by (auto simp: merge_key_def Let_def less_eq_prod_def split: if_splits)

lemma sorted_starts:
  "sorted (map merge_key xs) \<Longrightarrow> sorted (map (\<lambda>a. valid_from (claimed a)) xs)"
  by (induction xs) (auto dest: merge_key_start)

definition wf_batch :: "assertion list \<Rightarrow> bool" where
  "wf_batch xs \<longleftrightarrow> (\<forall>a \<in> set xs. wf_assertion a)"

lemma merge_returns:
  assumes "wf_batch xs"
  shows "\<exists>st. merge_assertions xs = Inr (set_of_state st) \<and>
    fold_res merge_step \<lparr>resolved = [], conflicts = []\<rparr> (sort_key merge_key xs) = Inr st \<and>
    merge_inv (sort_key merge_key xs) st []"
proof -
  have "merge_inv [] \<lparr>resolved = [], conflicts = []\<rparr> (sort_key merge_key xs)"
    using assms
    by (auto simp: merge_inv_def shape_inv_def supported_def exact_def settled_def wf_batch_def
        intro: sorted_starts)
  from merge_loop.loop_returns [OF this] show ?thesis
    by (auto simp: merge_assertions_def merge_sorted_def)
qed

lemma merge_stateE:
  assumes "wf_batch xs" and "merge_assertions xs = Inr s"
  obtains st where "s = set_of_state st" "merge_inv (sort_key merge_key xs) st []"
  using merge_returns [OF assms(1)] assms(2) by auto

section \<open>What the merge guarantees\<close>

lemma set_of_state_sel [simp]:
  "intervals (set_of_state st) = map finish (rev (resolved st))"
  "contradictions (set_of_state st) = conflicts st"
  by (simp_all add: set_of_state_def)

lemma finish_sel [simp]:
  "res_interval (finish acc) = acc_interval acc"
  "res_properties (finish acc) = acc_properties acc"
  by (simp_all add: finish_def)

lemma spans_of_state: "spans (set_of_state st) = rev (map acc_interval (resolved st))"
  by (simp add: spans_def rev_map comp_def)

lemma find_None_conv: "find P xs \<noteq> None \<longleftrightarrow> (\<exists>x \<in> set xs. P x)"
  by (auto simp: find_None_iff)

lemma is_true_at_iff: "is_true_at s m \<longleftrightarrow> (\<exists>r \<in> set (intervals s). contains (res_interval r) m)"
  unfolding is_true_at_def by (rule find_None_conv)

text \<open>
  The merge never raises (\<open>merge_assertions\<close>). Every constructor it calls on the
  way, \<open>Interval\<close> when intervals are joined, \<open>Interval.close\<close> when one is cut and
  \<open>Assertion\<close> for the snapshot in a contradiction, is called on arguments it accepts,
  for every batch of well-formed assertions.
\<close>

theorem merge_never_raises:
  assumes "wf_batch xs"
  shows "\<exists>s. merge_assertions xs = Inr s"
  using merge_returns [OF assms] by blast

text \<open>
  C40. The merged history is disjoint (\<open>IntervalSet\<close>). Every interval of the result is
  well-formed, no instant lies in two of them, and only the last one can be open.
\<close>

theorem merge_disjoint:
  assumes "wf_batch xs" and "merge_assertions xs = Inr s"
  shows "(\<forall>i \<in> set (spans s). wf_interval i)
    \<and> (\<forall>k < length (spans s). \<forall>l < length (spans s). \<forall>m.
          contains (spans s ! k) m \<and> contains (spans s ! l) m \<longrightarrow> k = l)
    \<and> (\<forall>k. Suc k < length (spans s) \<longrightarrow> \<not> is_open (spans s ! k))"
proof -
  obtain st where s: "s = set_of_state st" and inv: "merge_inv (sort_key merge_key xs) st []"
    using merge_stateE [OF assms] .
  let ?is = "map acc_interval (resolved st)"
  have t: "tiled ?is" using inv by (simp add: merge_inv_def shape_inv_def)
  have sp: "spans s = rev ?is" by (simp add: s spans_of_state)
  have "\<not> is_open (rev ?is ! k)" if k: "Suc k < length ?is" for k
  proof -
    obtain i js where c: "?is = i # js" using k by (cases ?is) auto
    have "rev (i # js) ! k \<in> set js" using k unfolding c by (rule rev_nth_older)
    with t c show ?thesis using tiled_open_newest by simp
  qed
  moreover have "k = l" if "k < length ?is" "l < length ?is"
    "contains (rev ?is ! k) m" "contains (rev ?is ! l) m" for k l m
    by (rule tiled_unique_rev [OF t that])
  ultimately show ?thesis using tiled_wf [OF t] unfolding sp by auto
qed

text \<open>
  The merge invents nothing (\<open>merge_assertions\<close>). Whatever the result states at an
  instant, some input assertion with the same properties states at that instant; joining
  intervals never bridges a gap and cutting one never extends another.
\<close>

theorem merge_invents_nothing:
  assumes "wf_batch xs" and "merge_assertions xs = Inr s"
    and "r \<in> set (intervals s)" and "contains (res_interval r) m"
  shows "\<exists>a \<in> set xs. contains (claimed a) m \<and>
           fingerprint a = fingerprint_of (res_properties r)"
proof -
  obtain st where s: "s = set_of_state st" and inv: "merge_inv (sort_key merge_key xs) st []"
    using merge_stateE [OF assms(1,2)] .
  from assms(3) s obtain acc where acc: "acc \<in> set (resolved st)" "r = finish acc" by auto
  with inv have "acc_fingerprint acc = fingerprint_of (acc_properties acc)"
    by (auto simp: merge_inv_def shape_inv_def wf_acc_def)
  with inv acc assms(4) show ?thesis
    by (fastforce simp: merge_inv_def supported_def)
qed

text \<open>
  Nothing is lost without a record (\<open>merge_assertions\<close>). Where the merge reports no
  contradiction, the history holds at exactly the instants some assertion claimed.
\<close>

theorem merge_exact_without_conflict:
  assumes "wf_batch xs" and "merge_assertions xs = Inr s" and "\<not> has_contradictions s"
  shows "is_true_at s m \<longleftrightarrow> (\<exists>a \<in> set xs. contains (claimed a) m)"
proof -
  obtain st where s: "s = set_of_state st" and inv: "merge_inv (sort_key merge_key xs) st []"
    using merge_stateE [OF assms(1,2)] .
  have "conflicts st = []" using assms(3) s by (simp add: has_contradictions_def)
  with inv show ?thesis
    by (auto simp: s is_true_at_iff merge_inv_def exact_def supported_def) blast+
qed

text \<open>
  Nothing the merge records is marked unresolved (\<open>has_unresolved\<close>). Claims that
  start at the same instant are settled by \<open>KEPT_HIGHER_CONFIDENCE\<close>, so the flag a
  writer is told to check is false for every batch.
\<close>

theorem merge_leaves_nothing_unresolved:
  assumes "wf_batch xs" and "merge_assertions xs = Inr s"
  shows "\<not> has_unresolved s"
proof -
  obtain st where "s = set_of_state st" "merge_inv (sort_key merge_key xs) st []"
    using merge_stateE [OF assms] .
  then show ?thesis by (simp add: has_unresolved_def merge_inv_def settled_def)
qed

end
