(* ===== verification/Merge_Order.thy ===== *)
theory Merge_Order
  imports Merge_Laws
begin

text \<open>
  The merge and the order of arrival: independence of it, the effect of delivering a
  batch twice, where independence ends, and worked examples for the properties of
  \<open>Merge_Laws\<close>.
\<close>

section \<open>Delivering a batch twice\<close>

lemma absorb_idem:
  assumes "absorb acc a = Inr l"
  shows "absorb l a = Inr l"
proof -
  have c: "coarser (coarser p q) q = coarser p q" for p q
    by (auto simp: coarser_def)
  show ?thesis
    using assms
    by (cases "valid_to (acc_interval acc)"; cases "valid_to (claimed a)")
      (auto simp: absorb_def Let_def res_simps new_interval_iff c max.assoc
        add_unique_subset)
qed

lemma overlaps_self: "wf_interval i \<Longrightarrow> overlaps i i"
  by (auto simp: overlaps_iff_ends ends_by_iff wf_interval_def)

lemma absorb_own: "wf_assertion a \<Longrightarrow> absorb (acc_of a) a = Inr (acc_of a)"
  by (cases "valid_to (claimed a)")
    (auto simp: absorb_def Let_def acc_of_def new_interval_iff res_simps wf_assertion_def
      add_unique_subset wf_interval_def)

lemma merge_step_own:
  assumes "wf_assertion a" and "resolved st = acc_of a # rest"
  shows "merge_step st a = Inr st"
  using assms overlaps_self [of "claimed a"]
  by (simp add: merge_step_def absorb_own wf_assertion_def)

text \<open>The accumulators after a step depend on the accumulators before it alone.\<close>

definition resolved_step :: "accumulator list \<Rightarrow> assertion \<Rightarrow> py_error + accumulator list" where
  "resolved_step rs a =
     (case rs of
        [] \<Rightarrow> Inr [acc_of a]
      | prev # rest \<Rightarrow>
          if acc_fingerprint prev = fingerprint a then
            (if overlaps (acc_interval prev) (claimed a) \<or> meets (acc_interval prev) (claimed a)
             then and_then (absorb prev a) (\<lambda>l. Inr (l # rest))
             else Inr (acc_of a # prev # rest))
          else if \<not> overlaps (acc_interval prev) (claimed a) then Inr (acc_of a # prev # rest)
          else if valid_from (claimed a) > valid_from (acc_interval prev) then
            and_then (as_assertion prev) (\<lambda>_.
              and_then (truncate_at prev (valid_from (claimed a)) (source a)) (\<lambda>l.
                Inr (acc_of a # l # rest)))
          else and_then (as_assertion prev) (\<lambda>left.
            Inr ((if right_wins left a then acc_of a else prev) # rest)))"

lemma resolved_step_project:
  "resolved_step (resolved st) a = map_sum id resolved (merge_step st a)"
proof (cases "resolved st")
  case Nil
  then show ?thesis by (simp add: resolved_step_def merge_step_def)
next
  case (Cons prev rest)
  then show ?thesis
    by (cases "absorb prev a"; cases "as_assertion prev";
        cases "truncate_at prev (valid_from (claimed a)) (source a)")
      (simp_all add: resolved_step_def merge_step_def)
qed

lemma merge_step_resolved:
  "merge_step st a = Inr t \<Longrightarrow> resolved_step (resolved st) a = Inr (resolved t)"
  by (simp add: resolved_step_project)

lemma resolved_step_merge:
  "resolved_step (resolved st) a = Inr r \<Longrightarrow> \<exists>t. merge_step st a = Inr t \<and> resolved t = r"
  by (cases "merge_step st a") (simp_all add: resolved_step_project)

lemma merge_step_frame:
  assumes "resolved st = resolved st'" and "merge_step st a = Inr t"
  shows "\<exists>t'. merge_step st' a = Inr t' \<and> resolved t' = resolved t"
  using merge_step_resolved [OF assms(2)] assms(1) by (simp add: resolved_step_merge)

lemma merge_step_twice:
  assumes "ready st a" and "merge_step st a = Inr t"
  shows "\<exists>u. merge_step t a = Inr u \<and> resolved u = resolved t"
proof (cases "resolved st")
  case Nil
  with assms have "resolved t = [acc_of a]" "wf_assertion a"
    by (auto simp: merge_step_def ready_def)
  then show ?thesis by (simp add: merge_step_own)
next
  case (Cons prev rest)
  let ?i = "acc_interval prev" and ?j = "claimed a"
  have a: "wf_assertion a" and p: "wf_acc prev" and le: "valid_from ?i \<le> valid_from ?j"
    using assms(1) Cons by (auto simp: ready_def)
  obtain r where r: "resolved_step (resolved st) a = Inr r" and t: "resolved t = r"
    using merge_step_resolved [OF assms(2)] by blast
  consider (own) older where "r = acc_of a # older"
    | (joined) l where "absorb prev a = Inr l" "r = l # rest"
        "acc_fingerprint prev = fingerprint a" "overlaps ?i ?j \<or> meets ?i ?j"
    | (lost) b where "as_assertion prev = Inr b" "r = prev # rest" "\<not> right_wins b a"
        "acc_fingerprint prev \<noteq> fingerprint a" "overlaps ?i ?j"
        "\<not> valid_from ?i < valid_from ?j"
    using r Cons by (auto simp: resolved_step_def res_simps split: if_splits)
  then show ?thesis
  proof cases
    case own
    with a t show ?thesis by (simp add: merge_step_own)
  next
    case joined
    obtain l' where l': "absorb prev a = Inr l'" "wf_acc l'" "acc_fingerprint l' = acc_fingerprint prev"
      "\<forall>m. contains (acc_interval l') m \<longleftrightarrow> contains ?i m \<or> contains ?j m"
      using absorb_union [OF p a le joined(4)] by blast
    then have l: "l = l'" using joined(1) by simp
    have "contains (acc_interval l) (valid_from ?j)" "contains ?j (valid_from ?j)"
      using l' l a by (simp_all add: wf_assertion_def)
    then have "overlaps (acc_interval l) ?j"
      using overlaps_shares_instant_law [of "acc_interval l" "valid_from ?j" ?j] by blast
    with joined t l l'(3) absorb_idem [OF joined(1)] show ?thesis by (simp add: merge_step_def)
  next
    case lost
    with t have "resolved_step (resolved t) a = Inr (resolved t)"
      by (simp add: resolved_step_def)
    then show ?thesis by (rule resolved_step_merge)
  qed
qed

lemma fold_doubled:
  "\<lbrakk>shape_inv st xs; resolved st' = resolved st; fold_res merge_step st xs = Inr t\<rbrakk>
   \<Longrightarrow> \<exists>t'. fold_res merge_step st' (doubled xs) = Inr t' \<and> resolved t' = resolved t"
proof (induction xs arbitrary: st st')
  case Nil
  then show ?case by simp
next
  case (Cons a xs)
  have r: "ready st a" using Cons.prems(1) by (rule shape_ready)
  obtain s1 where s1: "merge_step st a = Inr s1" "fold_res merge_step s1 xs = Inr t"
    "merge_move st a s1"
    using Cons.prems(3) merge_step_refines [OF r] by (auto simp: res_simps)
  obtain s1' where s1': "merge_step st' a = Inr s1'" "resolved s1' = resolved s1"
    using merge_step_frame [OF Cons.prems(2) [symmetric] s1(1)] by blast
  obtain u where u: "merge_step s1 a = Inr u" "resolved u = resolved s1"
    using merge_step_twice [OF r s1(1)] by blast
  obtain u' where u': "merge_step s1' a = Inr u'" "resolved u' = resolved s1"
    using merge_step_frame [OF s1'(2) [symmetric] u(1)] u(2) by auto
  show ?case
    using Cons.IH [OF merge_move_shape [OF s1(3) Cons.prems(1)] u'(2) s1(2)] s1'(1) u'(1)
    by simp
qed

section \<open>Properties\<close>

text \<open>
  Arrival order does not matter (\<open>merge_assertions\<close>, \<open>Assertion._sort_key\<close>). Two
  deliveries of the same assertions in any order merge to the same interval set,
  intervals and contradictions alike, provided no two different assertions of the batch
  agree on the whole sort key.
\<close>

theorem merge_order_independent:
  assumes "mset xs = mset ys" and "inj_on merge_key (set xs)"
  shows "merge_assertions xs = merge_assertions ys"
  by (simp add: merge_assertions_def sort_key_perm [OF assms])

text \<open>
  A replayed batch changes no interval (\<open>merge_assertions\<close>). Delivering a batch
  twice, as an at-least-once queue does, yields the same merged intervals, with the same
  sources, signals, confidence and supersession, as delivering it once.
\<close>

theorem merge_replay_idempotent:
  assumes "wf_batch xs" and "inj_on merge_key (set xs)" and "merge_assertions xs = Inr s"
  shows "\<exists>s'. merge_assertions (xs @ xs) = Inr s' \<and> intervals s' = intervals s"
proof -
  let ?ini = "\<lparr>resolved = [], conflicts = []\<rparr>" and ?ord = "sort_key merge_key xs"
  obtain st where st: "s = set_of_state st" "fold_res merge_step ?ini ?ord = Inr st"
    using merge_returns [OF assms(1)] assms(3) by auto
  have "shape_inv ?ini ?ord"
    using assms(1) by (auto simp: shape_inv_def wf_batch_def intro: sorted_starts)
  from fold_doubled [OF this refl st(2)] obtain st' where
    "fold_res merge_step ?ini (doubled ?ord) = Inr st'" "resolved st' = resolved st" by blast
  with st(1) show ?thesis
    by (simp add: merge_assertions_def merge_sorted_def sort_key_replay [OF assms(2)])
qed

section \<open>Examples\<close>

definition claim ::
  "string \<Rightarrow> instant \<Rightarrow> instant option \<Rightarrow> instant \<Rightarrow> pyfloat \<Rightarrow> string \<Rightarrow> string \<Rightarrow> assertion" where
  "claim src f t obs conf status sig =
     \<lparr>source = src, claimed = \<lparr>valid_from = f, valid_to = t, precision = DAY\<rparr>,
      observed_at = obs, confidence = conf, properties = [(''status'', status)],
      signal_ids = [sig]\<rparr>"

definition batch_agree :: "assertion list" where
  "batch_agree = [claim ''b'' 50 None 6 (1/2) ''open'' ''s2'', claim ''a'' 0 (Some 60) 5 (1/2) ''open'' ''s1'']"

definition batch_dispute :: "assertion list" where
  "batch_dispute = [claim ''b'' 50 (Some 70) 6 (1/2) ''shut'' ''s2'', claim ''a'' 0 None 5 (1/2) ''open'' ''s1'']"

lemma batch_agree_wf: "wf_batch batch_agree"
  by (simp add: wf_batch_def batch_agree_def claim_def wf_assertion_def wf_interval_def valid_instant_iff)

lemma batch_dispute_wf: "wf_batch batch_dispute"
  by (simp add: wf_batch_def batch_dispute_def claim_def wf_assertion_def wf_interval_def valid_instant_iff)

lemma batch_agree_inj: "inj_on merge_key (set batch_agree)"
  by (simp add: batch_agree_def claim_def merge_key_def)

lemma batch_agree_spans:
  "map_sum id (\<lambda>s. (spans s, has_contradictions s)) (merge_assertions batch_agree) =
     Inr ([\<lparr>valid_from = 0, valid_to = None, precision = DAY\<rparr>], False)"
  by code_simp

lemma batch_dispute_spans:
  "map_sum id (\<lambda>s. (spans s, has_contradictions s)) (merge_assertions batch_dispute) =
     Inr ([\<lparr>valid_from = 0, valid_to = Some 50, precision = DAY\<rparr>,
           \<lparr>valid_from = 50, valid_to = Some 70, precision = DAY\<rparr>], True)"
  by code_simp

lemma map_sum_InrE:
  assumes "map_sum id f r = Inr b"
  obtains a where "r = Inr a" "f a = b"
  using assms by (cases r) auto

theorem merge_never_raises_witness:
  "wf_batch batch_dispute \<and> (\<exists>s. merge_assertions batch_dispute = Inr s)"
  using merge_never_raises [OF batch_dispute_wf] batch_dispute_wf by blast

theorem merge_disjoint_witness:
  "\<exists>s. merge_assertions batch_dispute = Inr s \<and> length (spans s) = 2 \<and>
     (\<forall>k < 2. \<forall>l < 2. \<forall>m. contains (spans s ! k) m \<and> contains (spans s ! l) m \<longrightarrow> k = l)"
proof -
  obtain s where s: "merge_assertions batch_dispute = Inr s"
    "spans s = [\<lparr>valid_from = 0, valid_to = Some 50, precision = DAY\<rparr>,
           \<lparr>valid_from = 50, valid_to = Some 70, precision = DAY\<rparr>]"
    using batch_dispute_spans by (elim map_sum_InrE) simp
  have len: "length (spans s) = 2" using s(2) by simp
  show ?thesis
    using merge_disjoint [OF batch_dispute_wf s(1), THEN conjunct2, THEN conjunct1] s(1) len
    by (intro exI [of _ s]) simp
qed

theorem merge_invents_nothing_witness:
  "\<exists>s r. merge_assertions batch_dispute = Inr s \<and> r \<in> set (intervals s) \<and>
     contains (res_interval r) 10 \<and>
     (\<exists>a \<in> set batch_dispute. contains (claimed a) 10 \<and>
        fingerprint a = fingerprint_of (res_properties r))"
proof -
  obtain s where s: "merge_assertions batch_dispute = Inr s"
    "spans s = [\<lparr>valid_from = 0, valid_to = Some 50, precision = DAY\<rparr>,
           \<lparr>valid_from = 50, valid_to = Some 70, precision = DAY\<rparr>]"
    using batch_dispute_spans by (elim map_sum_InrE) simp
  then have r: "hd (intervals s) \<in> set (intervals s)"
    "contains (res_interval (hd (intervals s))) 10"
    by (cases "intervals s"; simp add: spans_def contains_iff)+
  from merge_invents_nothing [OF batch_dispute_wf s(1) r] s(1) r show ?thesis by blast
qed

theorem merge_exact_without_conflict_witness:
  "\<exists>s. merge_assertions batch_agree = Inr s \<and> is_true_at s 55 \<and> \<not> is_true_at s (-1)"
proof -
  obtain s where s: "merge_assertions batch_agree = Inr s" "\<not> has_contradictions s"
    using batch_agree_spans by (elim map_sum_InrE) simp
  have "is_true_at s 55" "\<not> is_true_at s (-1)"
    unfolding merge_exact_without_conflict [OF batch_agree_wf s]
    by (simp_all add: batch_agree_def claim_def contains_iff)
  with s(1) show ?thesis by blast
qed

theorem merge_leaves_nothing_unresolved_witness:
  "\<exists>s. merge_assertions batch_dispute = Inr s \<and> has_contradictions s \<and> \<not> has_unresolved s"
proof -
  obtain s where s: "merge_assertions batch_dispute = Inr s" "has_contradictions s"
    using batch_dispute_spans by (elim map_sum_InrE) simp
  with merge_leaves_nothing_unresolved [OF batch_dispute_wf s(1)] show ?thesis by blast
qed

theorem merge_order_independent_witness:
  "mset batch_agree = mset (rev batch_agree) \<and> inj_on merge_key (set batch_agree) \<and>
   merge_assertions batch_agree = merge_assertions (rev batch_agree)"
  using merge_order_independent [OF _ batch_agree_inj, of "rev batch_agree"] batch_agree_inj
  by simp

theorem merge_replay_idempotent_witness:
  "\<exists>s s'. merge_assertions batch_agree = Inr s \<and>
     merge_assertions (batch_agree @ batch_agree) = Inr s' \<and> intervals s' = intervals s"
proof -
  obtain s where s: "merge_assertions batch_agree = Inr s"
    using batch_agree_spans by (elim map_sum_InrE) simp
  from merge_replay_idempotent [OF batch_agree_wf batch_agree_inj s] s show ?thesis by blast
qed

section \<open>Where independence ends\<close>

text \<open>
  Two assertions of one extractor that agree on interval, observation time and properties
  but not on confidence and signals share their whole sort key, so the stable sort leaves
  them in arrival order.
\<close>

definition rival :: assertion where
  "rival = claim ''a'' 0 None 5 (1/2) ''open'' ''s0''"

definition weak_twin :: assertion where
  "weak_twin = claim ''x'' 0 None 5 (2/5) ''shut'' ''s1''"

definition strong_twin :: assertion where
  "strong_twin = claim ''x'' 0 None 5 (9/10) ''shut'' ''s2''"

text \<open>
  Arrival order matters between assertions with equal sort keys
  (\<open>merge_assertions\<close>). Of the two orders of the same three well-formed assertions one
  yields an interval with one supporting signal and two contradictions, the other an
  interval with two supporting signals and one contradiction.
\<close>

theorem merge_order_dependent_on_equal_keys:
  "wf_batch [rival, weak_twin, strong_twin] \<and>
   mset [rival, weak_twin, strong_twin] = mset [rival, strong_twin, weak_twin] \<and>
   map_sum id (\<lambda>s. (map evidence_count (intervals s), length (contradictions s)))
     (merge_assertions [rival, weak_twin, strong_twin]) = Inr ([1], 2) \<and>
   map_sum id (\<lambda>s. (map evidence_count (intervals s), length (contradictions s)))
     (merge_assertions [rival, strong_twin, weak_twin]) = Inr ([2], 1)"
proof (intro conjI)
  show "wf_batch [rival, weak_twin, strong_twin]"
    by (simp add: wf_batch_def rival_def weak_twin_def strong_twin_def claim_def
        wf_assertion_def wf_interval_def valid_instant_iff)
  show "mset [rival, weak_twin, strong_twin] = mset [rival, strong_twin, weak_twin]"
    by simp
qed code_simp+

end
