(* ===== verification/Router.thy ===== *)
theory Router
  imports Prelude
begin

text \<open>
  \<open>agents/router.py\<close>, with the parts of \<open>agents/state.py\<close> and \<open>agents/errors.py\<close> it
  reads: the nodes of the investigation graph, the global guard, the edges, the brakes of
  the critic loop and the status a run ends with.

  The state is a record of the keys some predicate of the router or the wrapper reads;
  a key that is absent has the default its reader supplies. Keys that are only carried
  along (evidence, insights, the objective) and the texts of errors are left out. A
  critique is the dictionary a Critic wrote, with each value it is asked for as an
  optional \<open>str()\<close> of that value.
\<close>

section \<open>Names\<close>

datatype agent_name =
    Planner_Agent | Collector_Agent | Retriever_Agent | Insight_Agent
  | Strategy_Agent | Critic_Agent | Report_Agent | Unknown_Agent

datatype node_name =
    Planner | Collector | Retriever | Graph_Expansion | Insight | Strategy
  | Critic | Report | Critic_Final

datatype destination = Node node_name | END

datatype investigation_status =
    Queued | Planning | Running | Reflecting | Completed | Completed_With_Findings
  | Failed | Cancelled | Unknown_Status

fun is_terminal :: "investigation_status \<Rightarrow> bool" where
  "is_terminal Completed = True"
| "is_terminal Completed_With_Findings = True"
| "is_terminal Failed = True"
| "is_terminal Cancelled = True"
| "is_terminal _ = False"

fun status_value :: "investigation_status \<Rightarrow> string" where
  "status_value Queued = ''queued''"
| "status_value Planning = ''planning''"
| "status_value Running = ''running''"
| "status_value Reflecting = ''reflecting''"
| "status_value Completed = ''completed''"
| "status_value Completed_With_Findings = ''completed_with_findings''"
| "status_value Failed = ''failed''"
| "status_value Cancelled = ''cancelled''"
| "status_value Unknown_Status = ''unknown''"

definition all_statuses :: "investigation_status list" where
  "all_statuses =
     [Queued, Planning, Running, Reflecting, Completed, Completed_With_Findings,
      Failed, Cancelled, Unknown_Status]"

text \<open>\<open>TolerantStrEnum\<close>: an exact value, a value up to case and blanks, or \<open>UNKNOWN\<close>.\<close>

definition parse_status :: "string \<Rightarrow> investigation_status" where
  "parse_status v =
     (case find (\<lambda>m. status_value m = v) all_statuses of
        Some m \<Rightarrow> m
      | None \<Rightarrow>
          (let folded = py_lower (py_strip v) in
           case find (\<lambda>m. py_lower (status_value m) = folded) all_statuses of
             Some m \<Rightarrow> m
           | None \<Rightarrow> Unknown_Status))"

definition NODE_AGENT :: "node_name \<Rightarrow> agent_name" where
  "NODE_AGENT n =
     (case n of
        Planner \<Rightarrow> Planner_Agent | Collector \<Rightarrow> Collector_Agent | Retriever \<Rightarrow> Retriever_Agent
      | Graph_Expansion \<Rightarrow> Unknown_Agent | Insight \<Rightarrow> Insight_Agent
      | Strategy \<Rightarrow> Strategy_Agent | Critic \<Rightarrow> Critic_Agent | Report \<Rightarrow> Report_Agent
      | Critic_Final \<Rightarrow> Critic_Agent)"

definition ANALYSIS_BRANCHES :: "(agent_name \<times> node_name) list" where
  "ANALYSIS_BRANCHES = []"

definition FIXED_TAIL_STEPS :: int where
  "FIXED_TAIL_STEPS = 5"

definition TERMINAL_NODES :: "node_name list" where
  "TERMINAL_NODES = [Report, Critic_Final]"

definition REENTRY_TARGETS :: "(string \<times> node_name) list" where
  "REENTRY_TARGETS =
     [(''retriever'', Retriever), (''insight'', Insight), (''strategy'', Strategy),
      (''report'', Insight)]"

section \<open>The state\<close>

record plan_step =
  step_agent :: agent_name
  requires_fresh_data :: bool
  depends_on :: "string list"

record agent_error =
  err_agent :: agent_name
  error_type :: string
  recoverable :: bool

record token_ledger =
  input_tokens :: int
  output_tokens :: int
  cached_tokens :: int
  calls :: int
  cost_usd :: pyfloat

definition empty_ledger :: token_ledger where
  "empty_ledger =
     \<lparr>input_tokens = 0, output_tokens = 0, cached_tokens = 0, calls = 0, cost_usd = 0\<rparr>"

definition total_tokens :: "token_ledger \<Rightarrow> int" where
  "total_tokens l = input_tokens l + output_tokens l"

definition ledger_plus :: "token_ledger \<Rightarrow> token_ledger \<Rightarrow> token_ledger" where
  "ledger_plus a b =
     \<lparr>input_tokens = input_tokens a + input_tokens b,
      output_tokens = output_tokens a + output_tokens b,
      cached_tokens = cached_tokens a + cached_tokens b,
      calls = calls a + calls b, cost_usd = cost_usd a + cost_usd b\<rparr>"

text \<open>A finding is a dictionary, or something else a model returned in its place.\<close>

datatype finding = Opaque_Finding | Finding bool "string option"

record critique =
  verdict :: "string option"
  target_stage :: "string option"
  findings :: "finding list"
  artifact_sha256 :: "string option"

record investigation_state =
  status_text :: "string option"
  plan :: "plan_step list"
  errors :: "agent_error list"
  step_count :: int
  deadline_at :: "instant option"
  tokens_spent :: token_ledger
  critique :: "critique option"
  critique_history :: "critique list"
  revision_count :: int
  report :: "string option"

record agent_settings =
  max_steps :: int
  timeout_seconds :: int
  max_critic_revisions :: int
  token_budget :: int

definition status_of :: "investigation_state \<Rightarrow> investigation_status" where
  "status_of s =
     (case status_text s of
        None \<Rightarrow> Queued
      | Some v \<Rightarrow> if v = [] then Queued else parse_status v)"

definition first_blocking_error :: "investigation_state \<Rightarrow> agent_error option" where
  "first_blocking_error s = find (\<lambda>e. \<not> recoverable e) (errors s)"

section \<open>Errors of a node\<close>

text \<open>
  The exceptions \<open>agents/errors.py\<close> tells apart. \<open>Agent_Exn\<close> is \<open>AgentExecutionError\<close>
  and its subclasses with the attributes the functions read.
\<close>

datatype node_exn =
    Agent_Exn string bool bool
  | Token_Budget_Exceeded
  | LLM_Schema_Error
  | LLM_Rate_Limited
  | LLM_Timeout
  | LLM_Error "int option"
  | Rate_Limited_Error
  | Builtin_Timeout
  | Not_Implemented
  | External_Service_Error
  | Other_Exn

definition TRANSIENT_STATUSES :: "int list" where
  "TRANSIENT_STATUSES = [408, 425, 429, 500, 502, 503, 504, 529]"

fun is_transient :: "node_exn \<Rightarrow> bool" where
  "is_transient Token_Budget_Exceeded = False"
| "is_transient LLM_Schema_Error = False"
| "is_transient (Agent_Exn ty transient blocking) = transient"
| "is_transient LLM_Rate_Limited = True"
| "is_transient LLM_Timeout = True"
| "is_transient Rate_Limited_Error = True"
| "is_transient Builtin_Timeout = True"
| "is_transient (LLM_Error provider_status) =
     (case provider_status of None \<Rightarrow> False | Some c \<Rightarrow> c \<in> set TRANSIENT_STATUSES)"
| "is_transient External_Service_Error = True"
| "is_transient Not_Implemented = False"
| "is_transient Other_Exn = False"

fun classify :: "node_exn \<Rightarrow> string" where
  "classify Token_Budget_Exceeded = ''budget_exhausted''"
| "classify (Agent_Exn ty transient blocking) = ty"
| "classify LLM_Schema_Error = ''schema_violation''"
| "classify LLM_Rate_Limited = ''rate_limited''"
| "classify Rate_Limited_Error = ''rate_limited''"
| "classify LLM_Timeout = ''timeout''"
| "classify Builtin_Timeout = ''timeout''"
| "classify Not_Implemented = ''dependency_missing''"
| "classify (LLM_Error provider_status) = ''provider_error''"
| "classify External_Service_Error = ''provider_error''"
| "classify Other_Exn = ''unexpected''"

fun is_blocking :: "node_exn \<Rightarrow> bool" where
  "is_blocking (Agent_Exn ty transient blocking) = blocking"
| "is_blocking _ = False"

definition to_state_error :: "node_exn \<Rightarrow> agent_name \<Rightarrow> agent_error" where
  "to_state_error e agent =
     \<lparr>err_agent = agent, error_type = classify e, recoverable = \<not> is_blocking e\<rparr>"

section \<open>The guard\<close>

datatype halt_reason =
    MAX_STEPS | DEADLINE | TOKEN_BUDGET | PLAN_TOO_LARGE | BLOCKING_ERROR | CANCELLED

fun halt_reason_value :: "halt_reason \<Rightarrow> string" where
  "halt_reason_value MAX_STEPS = ''max_steps_exceeded''"
| "halt_reason_value DEADLINE = ''deadline_exceeded''"
| "halt_reason_value TOKEN_BUDGET = ''token_budget_exhausted''"
| "halt_reason_value PLAN_TOO_LARGE = ''plan_exceeds_step_budget''"
| "halt_reason_value BLOCKING_ERROR = ''blocking_error''"
| "halt_reason_value CANCELLED = ''cancelled''"

record halt =
  reason :: halt_reason
  route :: destination
  halt_status :: investigation_status

definition check_guards :: "agent_settings \<Rightarrow> instant \<Rightarrow> investigation_state \<Rightarrow> halt option" where
  "check_guards cfg now s =
     (let status = status_of s in
      if status = Cancelled then
        Some \<lparr>reason = CANCELLED, route = END, halt_status = Cancelled\<rparr>
      else if is_terminal status then
        Some \<lparr>reason = CANCELLED, route = END, halt_status = status\<rparr>
      else if first_blocking_error s \<noteq> None then
        Some \<lparr>reason = BLOCKING_ERROR, route = END, halt_status = Failed\<rparr>
      else if step_count s \<ge> max_steps cfg then
        Some \<lparr>reason = MAX_STEPS, route = Node Report, halt_status = Completed_With_Findings\<rparr>
      else if (case deadline_at s of None \<Rightarrow> False | Some d \<Rightarrow> now \<ge> d) then
        Some \<lparr>reason = DEADLINE, route = Node Report, halt_status = Completed_With_Findings\<rparr>
      else if total_tokens (tokens_spent s) \<ge> token_budget cfg then
        Some \<lparr>reason = TOKEN_BUDGET, route = Node Report, halt_status = Completed_With_Findings\<rparr>
      else None)"

definition halt_error :: "halt \<Rightarrow> agent_name \<Rightarrow> agent_error" where
  "halt_error h agent =
     \<lparr>err_agent = agent, error_type = halt_reason_value (reason h),
      recoverable = (halt_status h \<noteq> Failed)\<rparr>"

section \<open>The plan\<close>

definition estimated_steps_remaining :: "investigation_state \<Rightarrow> int" where
  "estimated_steps_remaining s = int (length (plan s)) + FIXED_TAIL_STEPS"

definition plan_exceeds_budget :: "agent_settings \<Rightarrow> investigation_state \<Rightarrow> bool" where
  "plan_exceeds_budget cfg s \<longleftrightarrow> step_count s + estimated_steps_remaining s > max_steps cfg"

definition needs_fresh_data :: "investigation_state \<Rightarrow> bool" where
  "needs_fresh_data s \<longleftrightarrow> (\<exists>p \<in> set (plan s). requires_fresh_data p)"

definition planned_branches :: "investigation_state \<Rightarrow> node_name list" where
  "planned_branches s =
     (let named = map step_agent (plan s) in
      map snd (filter (\<lambda>(agent, node). agent \<in> set named) ANALYSIS_BRANCHES))"

section \<open>The brakes of the critic loop\<close>

fun is_resolved :: "finding \<Rightarrow> bool" where
  "is_resolved Opaque_Finding = False"
| "is_resolved (Finding r stage) = r"

definition unresolved_count :: "critique \<Rightarrow> nat" where
  "unresolved_count c = length (filter (\<lambda>f. \<not> is_resolved f) (findings c))"

text \<open>\<open>history[-1]\<close> and \<open>history[-2]\<close>, when there are two.\<close>

definition last_two :: "critique list \<Rightarrow> (critique \<times> critique) option" where
  "last_two hist =
     (case rev hist of latest # previous # _ \<Rightarrow> Some (latest, previous) | _ \<Rightarrow> None)"

definition artifact_unchanged :: "investigation_state \<Rightarrow> bool" where
  "artifact_unchanged s =
     (case last_two (critique_history s) of
        None \<Rightarrow> False
      | Some (latest, previous) \<Rightarrow>
          (case artifact_sha256 latest of
             None \<Rightarrow> False
           | Some h \<Rightarrow> h \<noteq> [] \<and> artifact_sha256 previous = Some h))"

definition progress_stalled :: "investigation_state \<Rightarrow> bool" where
  "progress_stalled s =
     (case last_two (critique_history s) of
        None \<Rightarrow> False
      | Some (latest, previous) \<Rightarrow> unresolved_count latest \<ge> unresolved_count previous)"

fun finding_stage :: "finding \<Rightarrow> string option" where
  "finding_stage Opaque_Finding = None"
| "finding_stage (Finding r stage) =
     (case stage of None \<Rightarrow> None | Some v \<Rightarrow> if v = [] then None else Some v)"

definition reentry_target :: "critique \<Rightarrow> node_name" where
  "reentry_target c =
     (let stage = (case target_stage c of
            Some v \<Rightarrow> Some v
          | None \<Rightarrow> (case filter (\<lambda>x. x \<noteq> None) (map finding_stage (findings c)) of
               [] \<Rightarrow> None | v # _ \<Rightarrow> v))
      in case map_of REENTRY_TARGETS
           (py_lower (case stage of None \<Rightarrow> ''None'' | Some v \<Rightarrow> v)) of
           None \<Rightarrow> Insight | Some n \<Rightarrow> n)"

section \<open>The edges\<close>

definition route_after_planner ::
  "agent_settings \<Rightarrow> instant \<Rightarrow> investigation_state \<Rightarrow> destination" where
  "route_after_planner cfg now s =
     (case check_guards cfg now s of
        Some h \<Rightarrow> route h
      | None \<Rightarrow>
          if plan_exceeds_budget cfg s then Node Report
          else if needs_fresh_data s then Node Collector
          else Node Retriever)"

definition route_after_collector ::
  "agent_settings \<Rightarrow> instant \<Rightarrow> investigation_state \<Rightarrow> destination" where
  "route_after_collector cfg now s =
     (case check_guards cfg now s of Some h \<Rightarrow> route h | None \<Rightarrow> Node Retriever)"

definition route_after_retriever ::
  "agent_settings \<Rightarrow> instant \<Rightarrow> investigation_state \<Rightarrow> destination" where
  "route_after_retriever cfg now s =
     (case check_guards cfg now s of Some h \<Rightarrow> route h | None \<Rightarrow> Node Graph_Expansion)"

definition dispatch_analysis ::
  "agent_settings \<Rightarrow> instant \<Rightarrow> investigation_state \<Rightarrow> destination list" where
  "dispatch_analysis cfg now s =
     (case check_guards cfg now s of
        Some h \<Rightarrow> [route h]
      | None \<Rightarrow> (case planned_branches s of
            [] \<Rightarrow> [Node Insight]
          | branches \<Rightarrow> map Node branches))"

definition route_after_insight ::
  "agent_settings \<Rightarrow> instant \<Rightarrow> investigation_state \<Rightarrow> destination" where
  "route_after_insight cfg now s =
     (case check_guards cfg now s of Some h \<Rightarrow> route h | None \<Rightarrow> Node Strategy)"

definition route_after_strategy ::
  "agent_settings \<Rightarrow> instant \<Rightarrow> investigation_state \<Rightarrow> destination" where
  "route_after_strategy cfg now s =
     (case check_guards cfg now s of Some h \<Rightarrow> route h | None \<Rightarrow> Node Critic)"

definition verdict_or :: "string \<Rightarrow> critique option \<Rightarrow> string" where
  "verdict_or d c =
     py_lower (case c of None \<Rightarrow> d
       | Some c' \<Rightarrow> (case verdict c' of None \<Rightarrow> d | Some v \<Rightarrow> v))"

definition no_critique :: critique where
  "no_critique = \<lparr>verdict = None, target_stage = None, findings = [], artifact_sha256 = None\<rparr>"

definition critique_or_empty :: "investigation_state \<Rightarrow> critique" where
  "critique_or_empty s = (case critique s of None \<Rightarrow> no_critique | Some c \<Rightarrow> c)"

definition route_after_critic ::
  "agent_settings \<Rightarrow> instant \<Rightarrow> investigation_state \<Rightarrow> destination" where
  "route_after_critic cfg now s =
     (case check_guards cfg now s of
        Some h \<Rightarrow> route h
      | None \<Rightarrow>
          if verdict_or ''accept'' (critique s) \<noteq> ''revise'' then Node Report
          else if revision_count s \<ge> max_critic_revisions cfg then Node Report
          else if artifact_unchanged s then Node Report
          else if progress_stalled s then Node Report
          else Node (reentry_target (critique_or_empty s)))"

definition route_after_report ::
  "agent_settings \<Rightarrow> instant \<Rightarrow> investigation_state \<Rightarrow> destination" where
  "route_after_report cfg now s = Node Critic_Final"

definition route_after_final_critic ::
  "agent_settings \<Rightarrow> instant \<Rightarrow> investigation_state \<Rightarrow> destination" where
  "route_after_final_critic cfg now s = END"

section \<open>Status\<close>

definition phase_status :: "node_name \<Rightarrow> investigation_status" where
  "phase_status n =
     (if n = Planner then Planning
      else if n = Critic \<or> n = Critic_Final then Reflecting
      else Running)"

definition terminal_status ::
  "agent_settings \<Rightarrow> instant \<Rightarrow> investigation_state \<Rightarrow> investigation_status" where
  "terminal_status cfg now s =
     (if first_blocking_error s \<noteq> None then Failed
      else if status_of s = Cancelled \<or> status_of s = Failed then status_of s
      else if check_guards cfg now s \<noteq> None then Completed_With_Findings
      else if report s = None then Completed_With_Findings
      else if verdict_or '''' (critique s) = ''accept'' \<and>
              unresolved_count (critique_or_empty s) = 0 then Completed
      else Completed_With_Findings)"

end
