(* ===== verification/Investigation_Graph.thy ===== *)
theory Investigation_Graph
  imports Router
begin

text \<open>
  \<open>agents/graph.py\<close>: the wrapper around every node, the reducers it replays, and the
  wiring of \<open>build_investigation_graph\<close>.

  A node is any function of its time slice and the state that returns a delta, runs out
  of time or raises; nothing is assumed of it unless a lemma says so. A delta is a record
  of optional keys, \<open>None\<close> for an absent key. The clock is a function from the number of
  readings to instants: the visit number \<open>k\<close> of a run reads it four times, for the guard,
  the timeout, the stamped status and the outgoing edge. LangGraph applies the reducers
  of \<open>agents/state.py\<close> to a returned delta, which is what \<open>merged\<close> does, and then asks
  the edge of the node for the next one; \<open>run_graph\<close> is that loop, with fuel for the
  number of visits.
\<close>

section \<open>Deltas\<close>

record delta =
  d_status :: "investigation_status option"
  d_plan :: "plan_step list option"
  d_errors :: "agent_error list option"
  d_step_count :: "int option"
  d_tokens :: "token_ledger option"
  d_critique :: "critique option option"
  d_history :: "critique list option"
  d_revision :: "int option"
  d_report :: "string option option"

definition empty_delta :: delta where
  "empty_delta =
     \<lparr>d_status = None, d_plan = None, d_errors = None, d_step_count = None, d_tokens = None,
      d_critique = None, d_history = None, d_revision = None, d_report = None\<rparr>"

definition get_or :: "'a \<Rightarrow> 'a option \<Rightarrow> 'a" where
  "get_or d v = (case v of None \<Rightarrow> d | Some x \<Rightarrow> x)"

lemma get_or_simps [simp]: "get_or d None = d" "get_or d (Some x) = x"
  by (simp_all add: get_or_def)

text \<open>
  The append-reduced keys concatenate, the step count and the ledger add up, every other
  key of the delta replaces the one of the state.
\<close>

definition merged :: "investigation_state \<Rightarrow> delta \<Rightarrow> investigation_state" where
  "merged s d =
     s\<lparr>status_text := (case d_status d of None \<Rightarrow> status_text s | Some v \<Rightarrow> Some (status_value v)),
       plan := get_or (plan s) (d_plan d),
       errors := errors s @ get_or [] (d_errors d),
       step_count := step_count s + get_or 0 (d_step_count d),
       tokens_spent := (case d_tokens d of None \<Rightarrow> tokens_spent s
          | Some v \<Rightarrow> ledger_plus (tokens_spent s) v),
       critique := get_or (critique s) (d_critique d),
       critique_history := critique_history s @ get_or [] (d_history d),
       revision_count := get_or (revision_count s) (d_revision d),
       report := get_or (report s) (d_report d)\<rparr>"

section \<open>The wrapper's parts\<close>

definition CONCURRENT_NODES :: "node_name list" where
  "CONCURRENT_NODES = []"

definition MIN_NODE_TIMEOUT_SECONDS :: pyfloat where
  "MIN_NODE_TIMEOUT_SECONDS = 1"

definition EXIT_PATH_GRACE_FRACTION :: pyfloat where
  "EXIT_PATH_GRACE_FRACTION = 1 / 10"

definition is_exempt :: "node_name \<Rightarrow> halt \<Rightarrow> bool" where
  "is_exempt name h \<longleftrightarrow> name \<in> set TERMINAL_NODES \<and> route h \<noteq> END"

definition already_recorded :: "investigation_state \<Rightarrow> string \<Rightarrow> bool" where
  "already_recorded s ty \<longleftrightarrow> (\<exists>e \<in> set (errors s). error_type e = ty)"

definition halt_delta :: "node_name \<Rightarrow> halt \<Rightarrow> investigation_state \<Rightarrow> delta" where
  "halt_delta name h s =
     empty_delta
       \<lparr>d_errors := (if already_recorded s (halt_reason_value (reason h)) then None
           else Some [halt_error h (NODE_AGENT name)]),
        d_status := (if name \<notin> set CONCURRENT_NODES \<and> is_terminal (halt_status h) \<and> route h = END
           then Some (halt_status h) else None)\<rparr>"

definition record_halt :: "node_name \<Rightarrow> halt \<Rightarrow> delta \<Rightarrow> investigation_state \<Rightarrow> delta" where
  "record_halt name h d s =
     (if already_recorded s (halt_reason_value (reason h)) then d
      else d\<lparr>d_errors := Some (get_or [] (d_errors d) @ [halt_error h (NODE_AGENT name)])\<rparr>)"

definition exit_path_grace :: "agent_settings \<Rightarrow> pyfloat" where
  "exit_path_grace cfg =
     max MIN_NODE_TIMEOUT_SECONDS (of_int (timeout_seconds cfg) * EXIT_PATH_GRACE_FRACTION)"

definition node_timeout ::
  "node_name \<Rightarrow> investigation_state \<Rightarrow> agent_settings \<Rightarrow> instant \<Rightarrow> pyfloat" where
  "node_timeout name s cfg now =
     (let ceiling = of_int (timeout_seconds cfg);
          ceiling' = (case deadline_at s of
             None \<Rightarrow> ceiling
           | Some deadline \<Rightarrow>
               (let remaining = of_int (deadline - now) / 1000000;
                    remaining' = (if name \<in> set TERMINAL_NODES
                      then max remaining (exit_path_grace cfg) else remaining)
                in min ceiling remaining'))
      in max MIN_NODE_TIMEOUT_SECONDS ceiling')"

definition enforce_revision_progress :: "delta \<Rightarrow> investigation_state \<Rightarrow> delta" where
  "enforce_revision_progress d s =
     (let d1 = (case d_critique d of
            Some (Some c) \<Rightarrow> if d_history d = None then d\<lparr>d_history := Some [c]\<rparr> else d
          | _ \<Rightarrow> d)
      in if verdict_or '''' (critique s) = ''revise''
         then d1\<lparr>d_revision := Some (max (get_or 0 (d_revision d1)) (revision_count s + 1))\<rparr>
         else d1)"

definition annotate_only :: "delta \<Rightarrow> delta" where
  "annotate_only d = d\<lparr>d_revision := None, d_report := None\<rparr>"

definition stamp_status ::
  "node_name \<Rightarrow> delta \<Rightarrow> investigation_state \<Rightarrow> agent_settings \<Rightarrow> instant \<Rightarrow> delta" where
  "stamp_status name d s cfg now =
     (if name \<in> set CONCURRENT_NODES \<or> d_status d \<noteq> None then d
      else
        (let after = merged s d in
         if name = Critic_Final then d\<lparr>d_status := Some (terminal_status cfg now after)\<rparr>
         else (case check_guards cfg now after of
             Some h \<Rightarrow> if route h = END then d\<lparr>d_status := Some (halt_status h)\<rparr>
                       else d\<lparr>d_status := Some (phase_status name)\<rparr>
           | None \<Rightarrow> d\<lparr>d_status := Some (phase_status name)\<rparr>)))"

section \<open>The wrapper\<close>

datatype node_outcome = Returned delta | Timed_Out | Raised node_exn

type_synonym node_callable = "pyfloat \<Rightarrow> investigation_state \<Rightarrow> node_outcome"

definition outcome_delta :: "node_name \<Rightarrow> node_outcome \<Rightarrow> delta" where
  "outcome_delta name out =
     (case out of
        Returned d \<Rightarrow> d
      | Timed_Out \<Rightarrow> empty_delta
          \<lparr>d_errors := Some [to_state_error (Agent_Exn ''timeout'' True False) (NODE_AGENT name)],
           d_step_count := Some 1\<rparr>
      | Raised e \<Rightarrow> empty_delta
          \<lparr>d_errors := Some [to_state_error e (NODE_AGENT name)], d_step_count := Some 1\<rparr>)"

definition count_default :: "delta \<Rightarrow> delta" where
  "count_default d = (if d_step_count d = None then d\<lparr>d_step_count := Some 1\<rparr> else d)"

definition wrap_node ::
  "node_name \<Rightarrow> node_callable \<Rightarrow> agent_settings \<Rightarrow> (nat \<Rightarrow> instant) \<Rightarrow> nat
     \<Rightarrow> investigation_state \<Rightarrow> delta" where
  "wrap_node name node cfg clock k s =
     (let halted = check_guards cfg (clock (4 * k)) s in
      case halted of
        Some h \<Rightarrow>
          if \<not> is_exempt name h then halt_delta name h s
          else
            (let d = count_default
                   (outcome_delta name (node (node_timeout name s cfg (clock (4 * k + 1))) s));
                 d' = record_halt name h d s;
                 d'' = (if name = Critic then enforce_revision_progress d' s
                        else if name = Critic_Final then annotate_only d' else d')
             in stamp_status name d'' s cfg (clock (4 * k + 2)))
      | None \<Rightarrow>
          (let d = count_default
                 (outcome_delta name (node (node_timeout name s cfg (clock (4 * k + 1))) s));
               d' = (if name = Critic then enforce_revision_progress d s
                     else if name = Critic_Final then annotate_only d else d)
           in stamp_status name d' s cfg (clock (4 * k + 2))))"

section \<open>The wiring\<close>

text \<open>
  With no analysis branch declared, \<open>dispatch_analysis\<close> always names one destination.
\<close>

definition edge_after ::
  "node_name \<Rightarrow> agent_settings \<Rightarrow> instant \<Rightarrow> investigation_state \<Rightarrow> destination" where
  "edge_after name =
     (case name of
        Planner \<Rightarrow> route_after_planner
      | Collector \<Rightarrow> route_after_collector
      | Retriever \<Rightarrow> route_after_retriever
      | Graph_Expansion \<Rightarrow> (\<lambda>cfg now s. hd (dispatch_analysis cfg now s))
      | Insight \<Rightarrow> route_after_insight
      | Strategy \<Rightarrow> route_after_strategy
      | Critic \<Rightarrow> route_after_critic
      | Report \<Rightarrow> route_after_report
      | Critic_Final \<Rightarrow> route_after_final_critic)"

definition visit ::
  "agent_settings \<Rightarrow> (node_name \<Rightarrow> node_callable) \<Rightarrow> (nat \<Rightarrow> instant) \<Rightarrow> nat \<Rightarrow> node_name
     \<Rightarrow> investigation_state \<Rightarrow> destination \<times> investigation_state" where
  "visit cfg nodes clock k name s =
     (let s' = merged s (wrap_node name (nodes name) cfg clock k s)
      in (edge_after name cfg (clock (4 * k + 3)) s', s'))"

fun run_graph ::
  "agent_settings \<Rightarrow> (node_name \<Rightarrow> node_callable) \<Rightarrow> (nat \<Rightarrow> instant) \<Rightarrow> nat \<Rightarrow> nat
     \<Rightarrow> destination \<Rightarrow> investigation_state \<Rightarrow> (node_name list \<times> investigation_state) option" where
  "run_graph cfg nodes clock fuel k END s = Some ([], s)"
| "run_graph cfg nodes clock 0 k (Node n) s = None"
| "run_graph cfg nodes clock (Suc fuel) k (Node n) s =
     (case visit cfg nodes clock k n s of (dest, s') \<Rightarrow>
        map_option (\<lambda>(ns, u). (n # ns, u)) (run_graph cfg nodes clock fuel (Suc k) dest s'))"

text \<open>The run \<open>build_investigation_graph\<close> wires: it starts at the Planner.\<close>

definition investigate ::
  "agent_settings \<Rightarrow> (node_name \<Rightarrow> node_callable) \<Rightarrow> (nat \<Rightarrow> instant) \<Rightarrow> nat
     \<Rightarrow> investigation_state \<Rightarrow> (node_name list \<times> investigation_state) option" where
  "investigate cfg nodes clock fuel s = run_graph cfg nodes clock fuel 0 (Node Planner) s"

definition initial_status_delta :: delta where
  "initial_status_delta = empty_delta\<lparr>d_status := Some Running\<rparr>"

definition unavailable_branches :: "investigation_state \<Rightarrow> agent_error list" where
  "unavailable_branches s =
     filter (\<lambda>e. err_agent e \<in> set (map NODE_AGENT CONCURRENT_NODES)) (errors s)"

definition new_state :: "instant \<Rightarrow> investigation_state" where
  "new_state deadline =
     \<lparr>status_text = Some (status_value Queued), plan = [], errors = [], step_count = 0,
      deadline_at = Some deadline, tokens_spent = empty_ledger, critique = None,
      critique_history = [], revision_count = 0, report = None\<rparr>"

end
