(* ===== verification/Graph_Laws.thy ===== *)
theory Graph_Laws
  imports Investigation_Graph
begin

text \<open>
  The laws of the router and of the wrapped graph. The interface \<open>guarded_edge\<close> states
  what every edge but the last two owes the guard; its lemmas are proved once and
  interpreted on the seven edges. The run lemmas rest on what one visit does.
\<close>

section \<open>Statuses survive a checkpoint\<close>

lemma parse_status_value [simp]: "parse_status (status_value st) = st"
  by (cases st) (simp_all add: parse_status_def all_statuses_def)

lemma status_value_nonempty [simp]: "status_value st \<noteq> []"
  by (cases st) simp_all

lemma status_of_merged [simp]:
  "status_of (merged s d) = (case d_status d of None \<Rightarrow> status_of s | Some v \<Rightarrow> v)"
  by (simp add: status_of_def merged_def split: option.splits)

lemma merged_sel [simp]:
  "errors (merged s d) = errors s @ get_or [] (d_errors d)"
  "step_count (merged s d) = step_count s + get_or 0 (d_step_count d)"
  "deadline_at (merged s d) = deadline_at s"
  "critique (merged s d) = get_or (critique s) (d_critique d)"
  "revision_count (merged s d) = get_or (revision_count s) (d_revision d)"
  "report (merged s d) = get_or (report s) (d_report d)"
  by (simp_all add: merged_def)

section \<open>What the guard answers\<close>

definition ended :: "investigation_state \<Rightarrow> bool" where
  "ended s \<longleftrightarrow> is_terminal (status_of s) \<or> first_blocking_error s \<noteq> None"

definition exhausted :: "agent_settings \<Rightarrow> instant \<Rightarrow> investigation_state \<Rightarrow> bool" where
  "exhausted cfg now s \<longleftrightarrow> step_count s \<ge> max_steps cfg \<or>
     (\<exists>d. deadline_at s = Some d \<and> now \<ge> d) \<or> total_tokens (tokens_spent s) \<ge> token_budget cfg"

lemma guard_ended:
  "ended s \<Longrightarrow> \<exists>h. check_guards cfg now s = Some h \<and> route h = END \<and> is_terminal (halt_status h)"
  by (auto simp: ended_def check_guards_def Let_def)

lemma guard_exhausted:
  "\<lbrakk>\<not> ended s; exhausted cfg now s\<rbrakk> \<Longrightarrow>
   \<exists>h. check_guards cfg now s = Some h \<and> route h = Node Report \<and>
     halt_status h = Completed_With_Findings"
  by (auto simp: ended_def exhausted_def check_guards_def Let_def)

lemma guard_None:
  "check_guards cfg now s = None \<longleftrightarrow> \<not> ended s \<and> \<not> exhausted cfg now s"
  by (auto simp: ended_def exhausted_def check_guards_def Let_def split: option.splits)

lemma guardE:
  assumes "check_guards cfg now s = Some h"
  obtains (ended) "ended s" "route h = END" "is_terminal (halt_status h)"
    | (exhausted) "\<not> ended s" "exhausted cfg now s" "route h = Node Report"
        "halt_status h = Completed_With_Findings"
proof (cases "ended s")
  case True
  with guard_ended [OF True, of cfg now] assms that(1) show ?thesis by auto
next
  case False
  with assms have "exhausted cfg now s" using guard_None [of cfg now s] by auto
  with guard_exhausted [OF False this] assms that(2) False show ?thesis by auto
qed

lemma first_blocking_iff: "first_blocking_error s \<noteq> None \<longleftrightarrow> (\<exists>e \<in> set (errors s). \<not> recoverable e)"
  by (auto simp: first_blocking_error_def find_None_iff)

lemma exhausted_later: "\<lbrakk>exhausted cfg t s; t \<le> t'\<rbrakk> \<Longrightarrow> exhausted cfg t' s"
  by (auto simp: exhausted_def)

section \<open>The interface of a guarded edge\<close>

locale guarded_edge =
  fixes edge :: "agent_settings \<Rightarrow> instant \<Rightarrow> investigation_state \<Rightarrow> destination"
  assumes guard_first: "check_guards cfg now s = Some h \<Longrightarrow> edge cfg now s = route h"
    and no_other_end: "check_guards cfg now s = None \<Longrightarrow> edge cfg now s \<noteq> END"
begin

lemma ends_iff: "edge cfg now s = END \<longleftrightarrow> ended s"
proof (cases "check_guards cfg now s")
  case None
  with no_other_end [OF None] show ?thesis by (simp add: guard_None)
next
  case (Some h)
  from guard_first [OF Some] Some show ?thesis by (auto elim: guardE)
qed

lemma ships_when_exhausted:
  "\<lbrakk>\<not> ended s; exhausted cfg now s\<rbrakk> \<Longrightarrow> edge cfg now s = Node Report"
  using guard_exhausted guard_first by metis

end

lemma dispatch_hd:
  "hd (dispatch_analysis cfg now s) =
     (case check_guards cfg now s of Some h \<Rightarrow> route h | None \<Rightarrow> Node Insight)"
  by (simp add: dispatch_analysis_def planned_branches_def ANALYSIS_BRANCHES_def
      split: option.splits)

interpretation planner_edge: guarded_edge route_after_planner
  by unfold_locales (auto simp: route_after_planner_def split: option.splits)

interpretation collector_edge: guarded_edge route_after_collector
  by unfold_locales (auto simp: route_after_collector_def split: option.splits)

interpretation retriever_edge: guarded_edge route_after_retriever
  by unfold_locales (auto simp: route_after_retriever_def split: option.splits)

interpretation dispatch_edge: guarded_edge "\<lambda>cfg now s. hd (dispatch_analysis cfg now s)"
  by unfold_locales (auto simp: dispatch_hd split: option.splits)

interpretation insight_edge: guarded_edge route_after_insight
  by unfold_locales (auto simp: route_after_insight_def split: option.splits)

interpretation strategy_edge: guarded_edge route_after_strategy
  by unfold_locales (auto simp: route_after_strategy_def split: option.splits)

interpretation critic_edge: guarded_edge route_after_critic
  by unfold_locales (auto simp: route_after_critic_def split: option.splits)

lemmas edge_ends_iff =
  planner_edge.ends_iff collector_edge.ends_iff retriever_edge.ends_iff
  dispatch_edge.ends_iff insight_edge.ends_iff strategy_edge.ends_iff critic_edge.ends_iff

lemmas edge_ships =
  planner_edge.ships_when_exhausted collector_edge.ships_when_exhausted
  retriever_edge.ships_when_exhausted dispatch_edge.ships_when_exhausted
  insight_edge.ships_when_exhausted strategy_edge.ships_when_exhausted
  critic_edge.ships_when_exhausted

lemma edge_after_ends:
  "n \<notin> {Report, Critic_Final} \<Longrightarrow> edge_after n cfg now s = END \<longleftrightarrow> ended s"
  by (cases n) (simp_all add: edge_after_def edge_ends_iff)

lemma edge_after_ships:
  "\<lbrakk>n \<notin> {Report, Critic_Final}; \<not> ended s; exhausted cfg now s\<rbrakk>
   \<Longrightarrow> edge_after n cfg now s = Node Report"
  by (cases n) (simp_all add: edge_after_def edge_ships)

text \<open>
  Every transition before the report obeys the guard (\<open>agents/router.py\<close>). From each
  of the seven nodes before the Report the run leaves for \<open>END\<close> exactly when its status
  is terminal or a blocking error is recorded, and it is sent to the Report whenever it
  goes on with a step, time or token limit reached.
\<close>

theorem edges_obey_guard:
  assumes "n \<notin> {Report, Critic_Final}"
  shows "(edge_after n cfg now s = END \<longleftrightarrow>
            is_terminal (status_of s) \<or> (\<exists>e \<in> set (errors s). \<not> recoverable e))
       \<and> (edge_after n cfg now s \<noteq> END \<and> exhausted cfg now s \<longrightarrow>
            edge_after n cfg now s = Node Report)"
  using edge_after_ends [OF assms, of cfg now s] edge_after_ships [OF assms, of s cfg now]
    first_blocking_iff [of s]
  by (auto simp: ended_def)

text \<open>
  When the critic loop re-enters (\<open>route_after_critic\<close>). The Critic sends the run back
  to a working stage exactly when no guard fires, the verdict is \<open>revise\<close>, a revision is
  left, and neither brake holds; with two critiques on record this means that the last
  revision resolved at least one finding and changed the artifact.
\<close>

theorem critic_reenters_iff:
  "route_after_critic cfg now s \<in> {Node Retriever, Node Insight, Node Strategy} \<longleftrightarrow>
     \<not> ended s \<and> \<not> exhausted cfg now s \<and> verdict_or ''accept'' (critique s) = ''revise'' \<and>
     revision_count s < max_critic_revisions cfg \<and>
     (\<forall>latest previous. last_two (critique_history s) = Some (latest, previous) \<longrightarrow>
        unresolved_count latest < unresolved_count previous \<and>
        (artifact_sha256 latest = None \<or> artifact_sha256 latest = Some [] \<or>
         artifact_sha256 latest \<noteq> artifact_sha256 previous))"
proof -
  have t: "reentry_target c \<in> {Retriever, Insight, Strategy}" for c
    by (auto simp: reentry_target_def REENTRY_TARGETS_def Let_def split: option.splits if_splits)
  have b: "\<not> artifact_unchanged s \<and> \<not> progress_stalled s \<longleftrightarrow>
    (\<forall>latest previous. last_two (critique_history s) = Some (latest, previous) \<longrightarrow>
        unresolved_count latest < unresolved_count previous \<and>
        (artifact_sha256 latest = None \<or> artifact_sha256 latest = Some [] \<or>
         artifact_sha256 latest \<noteq> artifact_sha256 previous))"
    by (cases "last_two (critique_history s)")
      (auto simp: artifact_unchanged_def progress_stalled_def split: option.splits)
  show ?thesis
  proof (cases "check_guards cfg now s")
    case None
    then have "\<not> ended s" "\<not> exhausted cfg now s" by (simp_all add: guard_None)
    moreover have "route_after_critic cfg now s \<in> {Node Retriever, Node Insight, Node Strategy} \<longleftrightarrow>
      verdict_or ''accept'' (critique s) = ''revise'' \<and>
      revision_count s < max_critic_revisions cfg \<and>
      \<not> artifact_unchanged s \<and> \<not> progress_stalled s"
      using None t [of "critique_or_empty s"] by (auto simp: route_after_critic_def)
    ultimately show ?thesis using b by blast
  next
    case (Some h)
    then have g: "\<not> (\<not> ended s \<and> \<not> exhausted cfg now s)"
      using guard_None [of cfg now s] by simp
    have "route_after_critic cfg now s \<notin> {Node Retriever, Node Insight, Node Strategy}"
      using critic_edge.guard_first [OF Some] Some by (auto elim: guardE)
    with g show ?thesis by blast
  qed
qed

end
