(* ===== verification/Agent_Nodes.thy ===== *)
theory Agent_Nodes
  imports Investigation_Graph
begin

text \<open>
  The nodes the repository wires into the graph: \<open>BaseAgent.__call__\<close> of \<open>agents/base.py\<close>, the
  \<open>to_delta\<close> of the seven agents, Graph Expansion and \<open>build_nodes\<close> of \<open>agents/composition.py\<close>.
  What an agent does between the state and its validated output (\<open>build_input\<close>, the retried
  \<open>execute\<close>, the models and tools) is an argument, the attempt, and may depend on the time slice, the
  budget and the state. Keys of a delta that no predicate of the graph reads are left out.
\<close>

section \<open>The ledger of a node\<close>

record llm_usage =
  used_input :: int
  used_output :: int
  used_cached :: int

record mutable_ledger =
  ml_input :: int
  ml_output :: int
  ml_cached :: int
  ml_calls :: int
  ml_unmetered :: int

definition fresh_ledger :: mutable_ledger where
  "fresh_ledger = \<lparr>ml_input = 0, ml_output = 0, ml_cached = 0, ml_calls = 0, ml_unmetered = 0\<rparr>"

definition ledger_record :: "mutable_ledger \<Rightarrow> llm_usage \<times> bool \<Rightarrow> mutable_ledger" where
  "ledger_record l r =
     l\<lparr>ml_input := ml_input l + used_input (fst r), ml_output := ml_output l + used_output (fst r),
       ml_cached := ml_cached l + used_cached (fst r), ml_calls := ml_calls l + 1,
       ml_unmetered := ml_unmetered l + (if snd r then 1 else 0)\<rparr>"

definition ledger_snapshot :: "mutable_ledger \<Rightarrow> token_ledger" where
  "ledger_snapshot l =
     \<lparr>input_tokens = ml_input l, output_tokens = ml_output l, cached_tokens = ml_cached l, calls = ml_calls l, cost_usd = 0\<rparr>"

text \<open>The responses an attempt metered, each with whether it was unmetered.\<close>

definition spent_on :: "(llm_usage \<times> bool) list \<Rightarrow> token_ledger" where
  "spent_on rs = ledger_snapshot (foldl ledger_record fresh_ledger rs)"

section \<open>The budget a node is given\<close>

definition EXIT_PATH_AGENTS :: "agent_name list" where
  "EXIT_PATH_AGENTS = [Report_Agent, Critic_Agent]"

definition EXIT_PATH_OVERDRAFT :: pyfloat where
  "EXIT_PATH_OVERDRAFT = 5 / 4"

record node_budget =
  budget_limit :: int
  budget_spent :: int

definition node_budget_of :: "agent_name \<Rightarrow> agent_settings \<Rightarrow> investigation_state \<Rightarrow> node_budget" where
  "node_budget_of name cfg s =
     \<lparr>budget_limit = (if name \<in> set EXIT_PATH_AGENTS then \<lfloor>of_int (token_budget cfg) * EXIT_PATH_OVERDRAFT\<rfloor> else token_budget cfg),
      budget_spent = input_tokens (tokens_spent s) + output_tokens (tokens_spent s)\<rparr>"

section \<open>Outputs and what they write\<close>

datatype severity = Blocking | Major | Minor | Info

text \<open>Of a finding, its severity; of a report, its dump and its gaps.\<close>

record critic_output =
  co_findings :: "severity list"
  co_approved :: bool

record report_output =
  ro_dump :: string
  ro_gaps :: "string list"

text \<open>
  \<open>CriticOutput\<close> has no \<open>verdict\<close>, \<open>target_stage\<close> or \<open>artifact_sha256\<close>, and its findings have no
  \<open>resolved\<close> and no \<open>target_stage\<close>: those are the keys that the readers of the dumped dictionary ask for.
\<close>

definition critique_payload :: "critic_output \<Rightarrow> critique" where
  "critique_payload out =
     \<lparr>verdict = None, target_stage = None, findings = map (\<lambda>_. Finding False None) (co_findings out), artifact_sha256 = None\<rparr>"

definition planner_delta :: "plan_step list \<Rightarrow> investigation_state \<Rightarrow> delta" where
  "planner_delta steps s = empty_delta\<lparr>d_plan := Some steps, d_status := Some Running\<rparr>"

definition evidence_delta :: "unit \<Rightarrow> investigation_state \<Rightarrow> delta" where
  "evidence_delta out s = empty_delta"

definition critic_delta :: "critic_output \<Rightarrow> investigation_state \<Rightarrow> delta" where
  "critic_delta out s =
     empty_delta\<lparr>d_critique := Some (Some (critique_payload out)), d_history := Some [critique_payload out]\<rparr>"

definition report_delta :: "report_output \<Rightarrow> investigation_state \<Rightarrow> delta" where
  "report_delta out s =
     empty_delta\<lparr>d_report := Some (Some (ro_dump out)),
       d_status := Some (if ro_gaps out \<noteq> [] then Completed_With_Findings else Completed)\<rparr>"

section \<open>Running an agent as a node\<close>

text \<open>
  An attempt produces an output, raises inside the \<open>try\<close>, is cancelled by the time slice, or fails
  outside of it (building the context, the trace sink).
\<close>

datatype 'o attempt = Produced 'o | Failed_With node_exn | Cut_Off | Escaped node_exn

type_synonym 'o agent_run = "node_budget \<Rightarrow> pyfloat \<Rightarrow> investigation_state \<Rightarrow> 'o attempt \<times> (llm_usage \<times> bool) list"

definition agent_call ::
  "agent_name \<Rightarrow> ('o \<Rightarrow> investigation_state \<Rightarrow> delta) \<Rightarrow> 'o agent_run \<Rightarrow> agent_settings \<Rightarrow> node_callable" where
  "agent_call name to_delta run cfg \<tau> s =
     (case run (node_budget_of name cfg s) \<tau> s of
        (Produced out, rs) \<Rightarrow> Returned ((to_delta out s)\<lparr>d_step_count := Some 1, d_tokens := Some (spent_on rs)\<rparr>)
      | (Failed_With e, rs) \<Rightarrow>
          Returned (empty_delta\<lparr>d_errors := Some [to_state_error e name], d_step_count := Some 1, d_tokens := Some (spent_on rs)\<rparr>)
      | (Cut_Off, rs) \<Rightarrow> Timed_Out
      | (Escaped e, rs) \<Rightarrow> Raised e)"

text \<open>Graph Expansion writes a key the graph does not read, or is cut off, or raises.\<close>

definition graph_expansion_node :: "(pyfloat \<Rightarrow> investigation_state \<Rightarrow> unit attempt) \<Rightarrow> node_callable" where
  "graph_expansion_node run \<tau> s =
     (case run \<tau> s of
        Produced _ \<Rightarrow> Returned empty_delta
      | Failed_With e \<Rightarrow> Raised e
      | Cut_Off \<Rightarrow> Timed_Out
      | Escaped e \<Rightarrow> Raised e)"

record agent_bundle =
  run_planner :: "plan_step list agent_run"
  run_collector :: "unit agent_run"
  run_retriever :: "unit agent_run"
  run_expansion :: "pyfloat \<Rightarrow> investigation_state \<Rightarrow> unit attempt"
  run_insight :: "unit agent_run"
  run_strategy :: "unit agent_run"
  run_critic :: "critic_output agent_run"
  run_report :: "report_output agent_run"

text \<open>\<open>build_nodes\<close>: \<open>Critic_Final\<close> is the Critic under a second name.\<close>

definition build_nodes :: "agent_bundle \<Rightarrow> agent_settings \<Rightarrow> node_name \<Rightarrow> node_callable" where
  "build_nodes b cfg n =
     (case n of
        Planner \<Rightarrow> agent_call Planner_Agent planner_delta (run_planner b) cfg
      | Collector \<Rightarrow> agent_call Collector_Agent evidence_delta (run_collector b) cfg
      | Retriever \<Rightarrow> agent_call Retriever_Agent evidence_delta (run_retriever b) cfg
      | Graph_Expansion \<Rightarrow> graph_expansion_node (run_expansion b)
      | Insight \<Rightarrow> agent_call Insight_Agent evidence_delta (run_insight b) cfg
      | Strategy \<Rightarrow> agent_call Strategy_Agent evidence_delta (run_strategy b) cfg
      | Critic \<Rightarrow> agent_call Critic_Agent critic_delta (run_critic b) cfg
      | Report \<Rightarrow> agent_call Report_Agent report_delta (run_report b) cfg
      | Critic_Final \<Rightarrow> agent_call Critic_Agent critic_delta (run_critic b) cfg)"

section \<open>What every such node keeps to\<close>

definition node_law ::
  "(node_name \<Rightarrow> node_callable) \<Rightarrow> (node_name \<Rightarrow> investigation_state \<Rightarrow> delta \<Rightarrow> bool) \<Rightarrow> bool" where
  "node_law nodes ok \<longleftrightarrow> (\<forall>n \<tau> s d. nodes n \<tau> s = Returned d \<longrightarrow> ok n s d)"

text \<open>A delta that names a step count spends at least one step.\<close>

definition charges_a_step :: "node_name \<Rightarrow> investigation_state \<Rightarrow> delta \<Rightarrow> bool" where
  "charges_a_step n s d \<longleftrightarrow> (case d_step_count d of None \<Rightarrow> True | Some k \<Rightarrow> 1 \<le> k)"

text \<open>
  The Report writes how it completed, an earlier node only a status that is not terminal, both beside
  no error; the Critic leaves the status to the wrapper.
\<close>

definition writes_own_status :: "node_name \<Rightarrow> investigation_state \<Rightarrow> delta \<Rightarrow> bool" where
  "writes_own_status n s d \<longleftrightarrow>
     (case d_status d of
        None \<Rightarrow> True
      | Some v \<Rightarrow>
          d_errors d = None \<and> n \<noteq> Critic_Final \<and>
          (if n = Report then v \<in> {Completed, Completed_With_Findings} else \<not> is_terminal v))"

text \<open>Only a critic writes a critique, and no node takes revisions back.\<close>

definition keeps_the_loop :: "node_name \<Rightarrow> investigation_state \<Rightarrow> delta \<Rightarrow> bool" where
  "keeps_the_loop n s d \<longleftrightarrow>
     (n \<notin> {Critic, Critic_Final} \<longrightarrow> d_critique d = None) \<and>
     (case d_revision d of None \<Rightarrow> True | Some r \<Rightarrow> revision_count s \<le> r)"

lemmas agent_deltas = planner_delta_def evidence_delta_def critic_delta_def report_delta_def empty_delta_def

lemma agent_call_returned:
  "agent_call name to_delta run cfg \<tau> s = Returned d \<Longrightarrow>
   \<exists>rs. (\<exists>out. d = (to_delta out s)\<lparr>d_step_count := Some 1, d_tokens := Some (spent_on rs)\<rparr>) \<or>
        (\<exists>e. d = empty_delta\<lparr>d_errors := Some [to_state_error e name], d_step_count := Some 1, d_tokens := Some (spent_on rs)\<rparr>)"
  by (auto simp: agent_call_def split: prod.splits attempt.splits)

lemma expansion_returned: "graph_expansion_node run \<tau> s = Returned d \<Longrightarrow> d = empty_delta"
  by (auto simp: graph_expansion_node_def split: attempt.splits)

lemma build_nodes_laws:
  "node_law (build_nodes b cfg) charges_a_step"
  "node_law (build_nodes b cfg) writes_own_status"
  "node_law (build_nodes b cfg) keeps_the_loop"
proof -
  have "charges_a_step n s d \<and> writes_own_status n s d \<and> keeps_the_loop n s d"
    if r: "build_nodes b cfg n \<tau> s = Returned d" for n \<tau> s d
    using r by (cases n) (auto simp: build_nodes_def charges_a_step_def writes_own_status_def keeps_the_loop_def
      agent_deltas dest!: agent_call_returned expansion_returned)
  then show "node_law (build_nodes b cfg) charges_a_step"
    "node_law (build_nodes b cfg) writes_own_status"
    "node_law (build_nodes b cfg) keeps_the_loop"
    unfolding node_law_def by blast+
qed

end
