(* ===== verification/Graph_Run.thy ===== *)
theory Graph_Run
  imports Graph_Laws Agent_Nodes
begin

text \<open>
  Whole runs of the wrapped graph of \<open>agents/graph.py\<close>: what one visit leaves behind,
  that every run returns and within how many visits, where it ends and with which
  status, and how often the critic loop re-enters. The assumptions on the nodes are
  named predicates on the deltas they may return, and hold of the nodes \<open>build_nodes\<close> makes of
  any agents; the clock is any monotone one.
\<close>

section \<open>What one visit leaves behind\<close>

definition node_part ::
  "node_name \<Rightarrow> node_callable \<Rightarrow> agent_settings \<Rightarrow> (nat \<Rightarrow> instant) \<Rightarrow> nat
     \<Rightarrow> investigation_state \<Rightarrow> delta" where
  "node_part n node cfg clock k s =
     count_default (outcome_delta n (node (node_timeout n s cfg (clock (4 * k + 1))) s))"

lemma wrap_node_cases:
  obtains (halted) h where "check_guards cfg (clock (4 * k)) s = Some h" "\<not> is_exempt n h"
      "wrap_node n node cfg clock k s = halt_delta n h s"
    | (ran) d where "\<not> ended s"
      "check_guards cfg (clock (4 * k)) s = None \<or> n \<in> {Report, Critic_Final}"
      "d = node_part n node cfg clock k s \<or>
       (\<exists>h. check_guards cfg (clock (4 * k)) s = Some h \<and>
            d = record_halt n h (node_part n node cfg clock k s) s)"
      "wrap_node n node cfg clock k s =
         stamp_status n (if n = Critic then enforce_revision_progress d s
                         else if n = Critic_Final then annotate_only d else d)
           s cfg (clock (4 * k + 2))"
proof (cases "check_guards cfg (clock (4 * k)) s")
  case None
  then have "\<not> ended s" by (simp add: guard_None)
  with None show ?thesis
    by (intro ran [of "node_part n node cfg clock k s"])
      (simp_all add: wrap_node_def node_part_def Let_def)
next
  case (Some h)
  show ?thesis
  proof (cases "is_exempt n h")
    case True
    with Some have "\<not> ended s" using guard_ended [of s cfg "clock (4 * k)"]
      by (auto simp: is_exempt_def)
    with True Some show ?thesis
      by (intro ran [of "record_halt n h (node_part n node cfg clock k s) s"])
        (auto simp: wrap_node_def node_part_def Let_def is_exempt_def TERMINAL_NODES_def)
  next
    case False
    with Some show ?thesis
      by (intro halted [of h]) (simp_all add: wrap_node_def)
  qed
qed

lemma count_default_sel [simp]:
  "d_status (count_default d) = d_status d" "d_errors (count_default d) = d_errors d"
  "d_critique (count_default d) = d_critique d" "d_history (count_default d) = d_history d"
  "d_revision (count_default d) = d_revision d" "d_report (count_default d) = d_report d"
  by (simp_all add: count_default_def)

lemma record_halt_sel [simp]:
  "d_status (record_halt n h d s) = d_status d"
  "d_step_count (record_halt n h d s) = d_step_count d"
  "d_critique (record_halt n h d s) = d_critique d"
  "d_history (record_halt n h d s) = d_history d"
  "d_revision (record_halt n h d s) = d_revision d"
  "d_report (record_halt n h d s) = d_report d"
  by (simp_all add: record_halt_def)

lemma enforce_sel [simp]:
  "d_status (enforce_revision_progress d s) = d_status d"
  "d_errors (enforce_revision_progress d s) = d_errors d"
  "d_step_count (enforce_revision_progress d s) = d_step_count d"
  "d_critique (enforce_revision_progress d s) = d_critique d"
  by (simp_all add: enforce_revision_progress_def Let_def split: option.splits)

lemma annotate_only_sel [simp]:
  "d_status (annotate_only d) = d_status d" "d_errors (annotate_only d) = d_errors d"
  "d_step_count (annotate_only d) = d_step_count d" "d_critique (annotate_only d) = d_critique d"
  "d_revision (annotate_only d) = None" "d_report (annotate_only d) = None"
  by (simp_all add: annotate_only_def)

lemma stamp_status_sel [simp]:
  "d_errors (stamp_status n d s cfg t) = d_errors d"
  "d_step_count (stamp_status n d s cfg t) = d_step_count d"
  "d_critique (stamp_status n d s cfg t) = d_critique d"
  "d_history (stamp_status n d s cfg t) = d_history d"
  "d_revision (stamp_status n d s cfg t) = d_revision d"
  "d_report (stamp_status n d s cfg t) = d_report d"
  by (simp_all add: stamp_status_def Let_def split: option.splits)

lemma halt_delta_sel [simp]:
  "d_step_count (halt_delta n h s) = None" "d_critique (halt_delta n h s) = None"
  "d_revision (halt_delta n h s) = None" "d_report (halt_delta n h s) = None"
  by (simp_all add: halt_delta_def empty_delta_def)

lemma outcome_law:
  assumes "node_law nodes ok"
  shows "ok n s (outcome_delta n (nodes n \<tau> s)) \<or>
         (\<exists>e. outcome_delta n (nodes n \<tau> s) = empty_delta\<lparr>d_errors := Some [e], d_step_count := Some 1\<rparr>)"
  using assms by (cases "nodes n \<tau> s") (auto simp: node_law_def outcome_delta_def)


lemma node_part_step:
  assumes "node_law nodes charges_a_step"
  shows "1 \<le> get_or 0 (d_step_count (node_part n (nodes n) cfg clock k s))"
  using outcome_law [OF assms, of n s "node_timeout n s cfg (clock (4 * k + 1))"]
  by (auto simp: node_part_def count_default_def charges_a_step_def split: option.splits)

lemma own_status_sel [simp]:
  "writes_own_status n s (count_default d) = writes_own_status n s d"
  "writes_own_status n s (enforce_revision_progress d s') = writes_own_status n s d"
  by (cases "d_status d"; simp add: writes_own_status_def)+

lemma node_part_status:
  assumes "node_law nodes writes_own_status"
  shows "writes_own_status n s (node_part n (nodes n) cfg clock k s)"
  using outcome_law [OF assms, of n s "node_timeout n s cfg (clock (4 * k + 1))"]
  by (elim disjE exE) (simp add: node_part_def, simp add: node_part_def writes_own_status_def empty_delta_def)

lemma node_part_loop:
  assumes "node_law nodes keeps_the_loop"
  shows "keeps_the_loop n s (node_part n (nodes n) cfg clock k s)"
  using outcome_law [OF assms, of n s "node_timeout n s cfg (clock (4 * k + 1))"]
  by (auto simp: node_part_def keeps_the_loop_def empty_delta_def)

lemma halt_delta_keeps_ended:
  assumes "check_guards cfg t s = Some h" "n \<notin> {Report, Critic_Final}"
  shows "(ended s \<longrightarrow> ended (merged s (halt_delta n h s)) \<and>
            is_terminal (status_of (merged s (halt_delta n h s)))) \<and>
         (\<not> ended s \<longrightarrow> exhausted cfg t (merged s (halt_delta n h s)))"
proof (rule guardE [OF assms(1)])
  assume "ended s" "route h = END" "is_terminal (halt_status h)"
  then show ?thesis
    by (auto simp: ended_def halt_delta_def CONCURRENT_NODES_def empty_delta_def)
next
  assume "\<not> ended s" "exhausted cfg t s" "route h = Node Report"
  then show ?thesis
    by (auto simp: exhausted_def halt_delta_def empty_delta_def merged_def)
qed

lemma visit_eq:
  "visit cfg nodes clock k n s = (dest, s') \<longleftrightarrow>
     s' = merged s (wrap_node n (nodes n) cfg clock k s) \<and>
     dest = edge_after n cfg (clock (4 * k + 3)) s'"
  by (auto simp: visit_def Let_def)

lemma edge_not_final: "n \<noteq> Report \<Longrightarrow> edge_after n cfg now s \<noteq> Node Critic_Final"
proof (cases "check_guards cfg now s")
  case None
  have "reentry_target c \<noteq> Critic_Final" for c
    by (auto simp: reentry_target_def REENTRY_TARGETS_def Let_def split: option.splits if_splits)
  with None show "n \<noteq> Report \<Longrightarrow> ?thesis"
    by (cases n) (simp_all add: edge_after_def route_after_planner_def route_after_collector_def
      route_after_retriever_def dispatch_hd route_after_insight_def route_after_strategy_def
      route_after_critic_def route_after_final_critic_def)
next
  case (Some h)
  then have "route h \<noteq> Node Critic_Final" by (auto elim: guardE)
  with Some show "n \<noteq> Report \<Longrightarrow> ?thesis"
    by (cases n) (simp_all add: edge_after_def route_after_planner_def route_after_collector_def
      route_after_retriever_def dispatch_hd route_after_insight_def route_after_strategy_def
      route_after_critic_def route_after_final_critic_def)
qed

lemma visit_steps:
  assumes "node_law nodes charges_a_step" "visit cfg nodes clock k n s = (dest, s')"
    and "check_guards cfg (clock (4 * k)) s = None"
  shows "step_count s + 1 \<le> step_count s'"
proof (cases rule: wrap_node_cases [of cfg clock k s n "nodes n"])
  case (halted h)
  with assms(3) show ?thesis by simp
next
  case (ran d)
  with assms(3) have "d = node_part n (nodes n) cfg clock k s" by simp
  with node_part_step [OF assms(1), of n cfg clock k s] assms(2) ran(4) show ?thesis
    by (auto simp: visit_eq)
qed

lemma visit_after_halt:
  assumes "visit cfg nodes clock k n s = (dest, s')" "mono clock"
    and "check_guards cfg (clock (4 * k)) s = Some h" "n \<notin> {Report, Critic_Final}"
  shows "dest = END \<or> dest = Node Report"
proof -
  have s': "s' = merged s (halt_delta n h s)"
    using assms by (cases rule: wrap_node_cases [of cfg clock k s n "nodes n"]) (auto simp: visit_eq)
  show ?thesis
  proof (cases "ended s'")
    case True
    with assms show ?thesis by (simp add: visit_eq edge_after_ends)
  next
    case False
    with halt_delta_keeps_ended [OF assms(3,4)] s' have "exhausted cfg (clock (4 * k)) s'" by auto
    moreover have "clock (4 * k) \<le> clock (4 * k + 3)" using assms(2) by (simp add: monoD)
    ultimately have "exhausted cfg (clock (4 * k + 3)) s'" by (rule exhausted_later)
    with False assms show ?thesis by (simp add: visit_eq edge_after_ships)
  qed
qed

section \<open>Every run returns\<close>

text \<open>A bound on the visits still to come, from the node the run is about to enter.\<close>

definition visits_left :: "agent_settings \<Rightarrow> destination \<Rightarrow> investigation_state \<Rightarrow> nat" where
  "visits_left cfg dest s =
     (case dest of
        END \<Rightarrow> 0
      | Node n \<Rightarrow> if n = Critic_Final then 1 else if n = Report then 2
          else nat (max_steps cfg - step_count s) + 3)"

lemma visit_shortens:
  assumes "node_law nodes charges_a_step" "mono clock"
    and "visit cfg nodes clock k n s = (dest, s')"
  shows "visits_left cfg dest s' < visits_left cfg (Node n) s"
proof -
  consider "n = Critic_Final" | "n = Report" | (other) "n \<notin> {Report, Critic_Final}" by blast
  then show ?thesis
  proof cases
    case other
    have "dest \<noteq> Node Critic_Final" using assms(3) other edge_not_final by (auto simp: visit_eq)
    show ?thesis
    proof (cases "check_guards cfg (clock (4 * k)) s")
      case None
      then have "step_count s < max_steps cfg"
        by (auto simp: guard_None exhausted_def)
      with visit_steps [OF assms(1,3) None] other \<open>dest \<noteq> Node Critic_Final\<close> show ?thesis
        by (auto simp: visits_left_def split: destination.splits)
    next
      case (Some h)
      with visit_after_halt [OF assms(3,2) Some other] other show ?thesis
        by (auto simp: visits_left_def)
    qed
  qed (use assms(3) in \<open>auto simp: visits_left_def visit_eq edge_after_def
         route_after_report_def route_after_final_critic_def\<close>)
qed

lemma run_returns:
  assumes "node_law nodes charges_a_step" "mono clock" "visits_left cfg dest s \<le> fuel"
  shows "\<exists>ns u. run_graph cfg nodes clock fuel k dest s = Some (ns, u) \<and>
                length ns \<le> visits_left cfg dest s"
  using assms(3)
proof (induction fuel arbitrary: k dest s)
  case 0
  then show ?case by (cases dest) (auto simp: visits_left_def split: if_splits)
next
  case (Suc fuel)
  show ?case
  proof (cases dest)
    case (Node n)
    obtain dest' s' where v: "visit cfg nodes clock k n s = (dest', s')" by fastforce
    from visit_shortens [OF assms(1,2) v] Node
    have less: "visits_left cfg dest' s' < visits_left cfg dest s" by simp
    with Suc.prems have "visits_left cfg dest' s' \<le> fuel" by simp
    from Suc.IH [OF this, of "Suc k"] v Node less show ?thesis by fastforce
  qed simp
qed

text \<open>
  C3. Every investigation returns (\<open>agents/graph.py\<close>, \<open>agents/router.py\<close>, with the nodes of
  \<open>agents/composition.py\<close>). When the clock does not run backwards, the run ends after at most
  \<open>max_steps\<close> visits of working nodes, less the steps already counted, plus one halted visit and the
  two nodes of the exit path, whatever the agents produce, raise or leave hanging, and whatever the
  Critic finds: \<open>BaseAgent\<close> charges a step for every attempt and the wrapper for everything else.
\<close>

theorem investigate_returns:
  assumes "mono clock"
  shows "\<exists>ns u. investigate cfg (build_nodes b cfg) clock (nat (max_steps cfg - step_count s) + 3) s = Some (ns, u)
                \<and> length ns \<le> nat (max_steps cfg - step_count s) + 3"
  using run_returns [OF build_nodes_laws(1) assms, of cfg "Node Planner" s "nat (max_steps cfg - step_count s) + 3" b cfg 0]
  by (simp add: investigate_def visits_left_def)

section \<open>Where a run ends\<close>

definition blocked :: "investigation_state \<Rightarrow> bool" where
  "blocked s \<longleftrightarrow> (\<exists>e \<in> set (errors s). \<not> recoverable e)"

lemma ended_blocked: "ended s \<longleftrightarrow> is_terminal (status_of s) \<or> blocked s"
  using first_blocking_iff [of s] by (auto simp: ended_def blocked_def)

lemma first_blocking_blocked: "first_blocking_error s \<noteq> None \<longleftrightarrow> blocked s"
  using first_blocking_iff [of s] by (simp add: blocked_def)

text \<open>A terminal status is the \<open>FAILED\<close> of a blocking error.\<close>

definition sound_status :: "investigation_state \<Rightarrow> bool" where
  "sound_status s \<longleftrightarrow> (is_terminal (status_of s) \<longrightarrow> status_of s = Failed \<and> blocked s)"

lemma guard_blocked:
  "\<lbrakk>\<not> is_terminal (status_of s); blocked s\<rbrakk> \<Longrightarrow>
   \<exists>h. check_guards cfg now s = Some h \<and> route h = END \<and> halt_status h = Failed"
  using first_blocking_blocked [of s]
  by (cases "status_of s") (auto simp: check_guards_def Let_def)

lemma guard_sound:
  assumes "sound_status s" "check_guards cfg now s = Some h" "route h = END"
  shows "halt_status h = Failed \<and> blocked s"
proof (cases "is_terminal (status_of s)")
  case True
  with assms(1) have "status_of s = Failed" "blocked s" by (simp_all add: sound_status_def)
  with assms(2) show ?thesis by (auto simp: check_guards_def)
next
  case False
  have "ended s" using assms(2,3) by (auto elim: guardE)
  with False have "blocked s" by (simp add: ended_blocked)
  with guard_blocked [OF False this, of cfg now] assms(2) show ?thesis by simp
qed

lemma halted_sound:
  assumes "sound_status s" "check_guards cfg now s = Some h"
    and s': "s' = merged s (halt_delta n h s)"
  shows "sound_status s' \<and> (blocked s' \<longleftrightarrow> blocked s) \<and> (blocked s \<longrightarrow> status_of s' = Failed)"
proof (cases "route h = END")
  case True
  with guard_sound [OF assms(1,2)] have "halt_status h = Failed" "blocked s" by simp_all
  with True s' show ?thesis
    by (auto simp: sound_status_def blocked_def halt_delta_def empty_delta_def CONCURRENT_NODES_def)
next
  case False
  with assms(2) have "\<not> ended s" "halt_status h = Completed_With_Findings"
    by (auto elim: guardE)
  with False s' show ?thesis
    by (auto simp: sound_status_def ended_blocked blocked_def halt_delta_def empty_delta_def
        halt_error_def)
qed

lemma phase_not_terminal [simp]: "\<not> is_terminal (phase_status n)"
  by (simp add: phase_status_def)

lemma stamp_sound:
  assumes "n \<noteq> Critic_Final" "d_status d = None" "\<not> is_terminal (status_of s)"
    and s': "s' = merged s (stamp_status n d s cfg t)"
  shows "sound_status s' \<and> (blocked s' \<longrightarrow> status_of s' = Failed)"
proof -
  let ?after = "merged s d"
  have same: "blocked s' \<longleftrightarrow> blocked ?after" using s' by (simp add: blocked_def)
  have nt: "\<not> is_terminal (status_of ?after)" using assms(2,3) by simp
  show ?thesis
  proof (cases "blocked ?after")
    case True
    with guard_blocked [OF nt, of cfg t] obtain h where
      h: "check_guards cfg t ?after = Some h" "route h = END" "halt_status h = Failed" by auto
    then have "status_of s' = Failed"
      using assms by (simp add: stamp_status_def CONCURRENT_NODES_def)
    with True same show ?thesis by (simp add: sound_status_def)
  next
    case False
    then have "\<not> ended ?after" using nt by (simp add: ended_blocked)
    then have "\<And>h. check_guards cfg t ?after = Some h \<Longrightarrow> route h \<noteq> END" by (auto elim: guardE)
    then have "status_of s' = phase_status n"
      using assms by (auto simp: stamp_status_def CONCURRENT_NODES_def split: option.splits)
    with False same show ?thesis by (simp add: sound_status_def)
  qed
qed

lemma stamp_written: "d_status d \<noteq> None \<Longrightarrow> stamp_status n d s cfg t = d"
  by (simp add: stamp_status_def)

text \<open>After the Report the status may also be the one it completed with.\<close>

definition settled_status :: "investigation_state \<Rightarrow> bool" where
  "settled_status s \<longleftrightarrow>
     sound_status s \<or> status_of s \<in> {Completed, Completed_With_Findings} \<and> \<not> blocked s"

lemma visit_sound:
  assumes "node_law nodes writes_own_status" "sound_status s" "n \<notin> {Report, Critic_Final}"
    and v: "visit cfg nodes clock k n s = (dest, s')"
  shows "sound_status s' \<and> (blocked s' \<longrightarrow> status_of s' = Failed)"
proof (cases rule: wrap_node_cases [of cfg clock k s n "nodes n"])
  case (halted h)
  with halted_sound [OF assms(2) halted(1), of s' n] v show ?thesis by (simp add: visit_eq)
next
  case (ran d)
  let ?d = "if n = Critic then enforce_revision_progress d s else if n = Critic_Final then annotate_only d else d"
  have "d = node_part n (nodes n) cfg clock k s" using ran(2,3) assms(3) by auto
  with node_part_status [OF assms(1)] have w: "writes_own_status n s ?d"
    using assms(3) by auto
  have go: "\<not> is_terminal (status_of s)" "\<not> blocked s" using ran(1) by (simp_all add: ended_blocked)
  have s': "s' = merged s (stamp_status n ?d s cfg (clock (4 * k + 2)))" using v ran(4) by (simp add: visit_eq)
  show ?thesis
  proof (cases "d_status ?d")
    case None
    then show ?thesis using stamp_sound [OF _ None go(1) s'] assms(3) by simp
  next
    case (Some st)
    then have "stamp_status n ?d s cfg (clock (4 * k + 2)) = ?d" by (intro stamp_written) (simp only: not_None_eq, blast)
    then have "s' = merged s ?d" using s' by (simp only:)
    moreover have "\<not> is_terminal st" "d_errors ?d = None" using w Some assms(3) by (simp_all add: writes_own_status_def)
    ultimately show ?thesis using Some go by (simp add: sound_status_def blocked_def)
  qed
qed

lemma visit_report:
  assumes "node_law nodes writes_own_status" "sound_status s"
    and v: "visit cfg nodes clock k Report s = (dest, s')"
  shows "settled_status s'"
proof (cases rule: wrap_node_cases [of cfg clock k s Report "nodes Report"])
  case (halted h)
  with halted_sound [OF assms(2) halted(1), of s' Report] v show ?thesis by (simp add: visit_eq settled_status_def)
next
  case (ran d)
  let ?part = "node_part Report (nodes Report) cfg clock k s"
  have go: "\<not> is_terminal (status_of s)" "\<not> blocked s" using ran(1) by (simp_all add: ended_blocked)
  have s': "s' = merged s (stamp_status Report d s cfg (clock (4 * k + 2)))" using v ran(4) by (simp add: visit_eq)
  have w: "writes_own_status Report s ?part" by (rule node_part_status [OF assms(1)])
  show ?thesis
  proof (cases "d_status d")
    case None
    then show ?thesis using stamp_sound [OF _ None go(1) s'] by (simp add: settled_status_def)
  next
    case (Some st)
    then have e: "s' = merged s d" using s' by (simp add: stamp_written)
    have "d_status ?part = Some st" using Some ran(3) by auto
    then have st: "st \<in> {Completed, Completed_With_Findings}" "d_errors ?part = None"
      using w by (simp_all add: writes_own_status_def)
    have "\<forall>x \<in> set (get_or [] (d_errors d)). recoverable x"
      using ran(3)
    proof (elim disjE exE conjE)
      fix h
      assume h: "check_guards cfg (clock (4 * k)) s = Some h" "d = record_halt Report h ?part s"
      then have "halt_status h = Completed_With_Findings" using ran(1) by (auto elim: guardE)
      then show ?thesis using h(2) st(2) by (simp add: record_halt_def halt_error_def)
    qed (simp add: st(2))
    then have "\<not> blocked s'" using go(2) e by (auto simp: blocked_def)
    then show ?thesis using e Some st(1) by (simp add: settled_status_def)
  qed
qed

lemma terminal_status_cases:
  assumes "\<not> is_terminal (status_of s)"
  shows "terminal_status cfg t s \<in> {Completed, Completed_With_Findings, Failed} \<and>
         (terminal_status cfg t s = Failed \<longleftrightarrow> blocked s)"
proof -
  have "status_of s \<noteq> Cancelled" "status_of s \<noteq> Failed" using assms by auto
  then show ?thesis using first_blocking_blocked [of s] by (auto simp: terminal_status_def)
qed

lemma visit_final:
  assumes "node_law nodes writes_own_status" "settled_status s"
    and v: "visit cfg nodes clock k Critic_Final s = (dest, s')"
  shows "dest = END \<and> status_of s' \<in> {Completed, Completed_With_Findings, Failed} \<and>
         (status_of s' = Failed \<longleftrightarrow> blocked s')"
proof (cases rule: wrap_node_cases [of cfg clock k s Critic_Final "nodes Critic_Final"])
  case (halted h)
  have dest: "dest = END" using v by (simp add: visit_eq edge_after_def route_after_final_critic_def)
  have s': "s' = merged s (halt_delta Critic_Final h s)" using v halted(3) by (simp add: visit_eq)
  have "route h = END" using halted by (simp add: is_exempt_def TERMINAL_NODES_def)
  show ?thesis
  proof (cases "sound_status s")
    case True
    with guard_sound [OF True halted(1) \<open>route h = END\<close>] halted_sound [OF True halted(1) s'] dest
    show ?thesis by simp
  next
    case False
    with assms(2) have st: "status_of s \<in> {Completed, Completed_With_Findings}" "\<not> blocked s"
      by (auto simp: settled_status_def)
    then have "halt_status h = status_of s" using halted(1) by (auto simp: check_guards_def Let_def)
    then show ?thesis using st s' dest
      by (auto simp: halt_delta_def empty_delta_def CONCURRENT_NODES_def blocked_def halt_error_def)
  qed
next
  case (ran d)
  let ?d = "annotate_only d"
  have "writes_own_status Critic_Final s (node_part Critic_Final (nodes Critic_Final) cfg clock k s)"
    by (rule node_part_status [OF assms(1)])
  then have none: "d_status ?d = None" using ran(3) by (auto simp: writes_own_status_def split: option.splits)
  from ran(1) have "\<not> is_terminal (status_of s)" by (simp add: ended_blocked)
  with none have nt: "\<not> is_terminal (status_of (merged s ?d))" by simp
  have "s' = merged s (stamp_status Critic_Final ?d s cfg (clock (4 * k + 2)))"
    using v ran(4) by (simp add: visit_eq)
  then have "status_of s' = terminal_status cfg (clock (4 * k + 2)) (merged s ?d)"
    "blocked s' \<longleftrightarrow> blocked (merged s ?d)"
    using none by (simp_all add: stamp_status_def CONCURRENT_NODES_def blocked_def)
  moreover have "dest = END"
    using v by (simp add: visit_eq edge_after_def route_after_final_critic_def)
  ultimately show ?thesis using terminal_status_cases [OF nt, of cfg "clock (4 * k + 2)"]
    by auto
qed

text \<open>The visits of a run: working nodes, then the exit path if it got that far.\<close>

definition exit_shape :: "node_name list \<Rightarrow> bool" where
  "exit_shape ns \<longleftrightarrow>
     (\<exists>pre. ns = pre @ [Report, Critic_Final] \<and> Report \<notin> set pre \<and> Critic_Final \<notin> set pre)"

lemma exit_shape_Cons: "\<lbrakk>exit_shape ns; n \<notin> {Report, Critic_Final}\<rbrakk> \<Longrightarrow> exit_shape (n # ns)"
  unfolding exit_shape_def by (metis Cons_eq_append_conv insertCI set_ConsD)

lemma run_Suc:
  assumes "run_graph cfg nodes clock fuel k (Node n) s = Some (ns, u)"
  obtains fuel' dest s' ms where "fuel = Suc fuel'" "visit cfg nodes clock k n s = (dest, s')"
    "run_graph cfg nodes clock fuel' (Suc k) dest s' = Some (ms, u)" "ns = n # ms"
  using assms by (cases fuel) (auto split: prod.splits)

lemma run_from_final:
  assumes "node_law nodes writes_own_status" "settled_status s"
    and "run_graph cfg nodes clock fuel k (Node Critic_Final) s = Some (ns, u)"
  shows "ns = [Critic_Final] \<and> status_of u \<in> {Completed, Completed_With_Findings, Failed} \<and>
         (status_of u = Failed \<longleftrightarrow> blocked u)"
proof (rule run_Suc [OF assms(3)])
  fix fuel' dest s' ms
  assume v: "visit cfg nodes clock k Critic_Final s = (dest, s')"
    and r: "run_graph cfg nodes clock fuel' (Suc k) dest s' = Some (ms, u)"
    and ns: "ns = Critic_Final # ms"
  from visit_final [OF assms(1,2) v] r ns show ?thesis by auto
qed

lemma run_from_report:
  assumes "node_law nodes writes_own_status" "sound_status s"
    and "run_graph cfg nodes clock fuel k (Node Report) s = Some (ns, u)"
  shows "ns = [Report, Critic_Final] \<and>
         status_of u \<in> {Completed, Completed_With_Findings, Failed} \<and>
         (status_of u = Failed \<longleftrightarrow> blocked u)"
proof (rule run_Suc [OF assms(3)])
  fix fuel' dest s' ms
  assume v: "visit cfg nodes clock k Report s = (dest, s')"
    and r: "run_graph cfg nodes clock fuel' (Suc k) dest s' = Some (ms, u)"
    and ns: "ns = Report # ms"
  from v have "dest = Node Critic_Final"
    by (simp add: visit_eq edge_after_def route_after_report_def)
  moreover have "settled_status s'" by (rule visit_report [OF assms(1,2) v])
  ultimately show ?thesis
    using run_from_final [OF assms(1), of s' cfg clock fuel' "Suc k" ms u] r ns by auto
qed

lemma run_ends:
  assumes law: "node_law nodes writes_own_status"
    and "sound_status s" "dest \<noteq> Node Critic_Final" "dest = END \<longrightarrow> status_of s = Failed \<and> blocked s"
    and "run_graph cfg nodes clock fuel k dest s = Some (ns, u)"
  shows "status_of u \<in> {Completed, Completed_With_Findings, Failed} \<and>
         (status_of u = Failed \<longleftrightarrow> blocked u) \<and>
         (exit_shape ns \<or> status_of u = Failed \<and> Report \<notin> set ns \<and> Critic_Final \<notin> set ns)"
  using assms(2-)
proof (induction fuel arbitrary: k dest s ns)
  case 0
  then show ?case by (cases dest) auto
next
  case (Suc fuel)
  show ?case
  proof (cases dest)
    case END
    with Suc.prems show ?thesis by auto
  next
    case (Node n)
    show ?thesis
    proof (cases "n = Report")
      case True
      with run_from_report [OF law Suc.prems(1)] Suc.prems(4) Node
      show ?thesis unfolding exit_shape_def by fastforce
    next
      case False
      with Node Suc.prems(2) have n: "n \<notin> {Report, Critic_Final}" by auto
      obtain dest' s' ms where v: "visit cfg nodes clock k n s = (dest', s')"
        and r: "run_graph cfg nodes clock fuel (Suc k) dest' s' = Some (ms, u)"
        and ns: "ns = n # ms"
        using Suc.prems(4) Node by (auto split: prod.splits)
      have sound: "sound_status s'" "blocked s' \<longrightarrow> status_of s' = Failed"
        using visit_sound [OF law Suc.prems(1) n v] by auto
      have "dest' = END \<longrightarrow> ended s'" "dest' \<noteq> Node Critic_Final"
        using v n edge_after_ends [of n] edge_not_final [of n] by (auto simp: visit_eq)
      with sound have "dest' = END \<longrightarrow> status_of s' = Failed \<and> blocked s'"
        by (auto simp: ended_blocked sound_status_def)
      from Suc.IH [OF sound(1) \<open>dest' \<noteq> Node Critic_Final\<close> this r] n ns exit_shape_Cons
      show ?thesis by auto
    qed
  qed
qed

text \<open>
  C4. How an investigation ends (\<open>agents/graph.py\<close>, with the nodes of \<open>agents/composition.py\<close>: the
  Planner writes the status \<open>running\<close>, the Report one of the two completed ones). A run that starts in
  a non-terminal status and returns ends as completed, completed with findings or failed, and it is
  failed exactly when a blocking error is on record. Unless it failed, its visits are working nodes
  followed by one Report and one visit of the final critic pass: a run that was halted for steps,
  time or tokens still visits the Report.
\<close>

theorem investigate_ends:
  assumes "\<not> is_terminal (status_of s)"
    and "investigate cfg (build_nodes b cfg) clock fuel s = Some (ns, u)"
  shows "status_of u \<in> {Completed, Completed_With_Findings, Failed}
       \<and> (status_of u = Failed \<longleftrightarrow> (\<exists>e \<in> set (errors u). \<not> recoverable e))
       \<and> (status_of u \<noteq> Failed \<longrightarrow>
           (\<exists>pre. ns = pre @ [Report, Critic_Final] \<and> Report \<notin> set pre \<and> Critic_Final \<notin> set pre))"
  using run_ends [OF build_nodes_laws(2) _ _ _ assms(2) [unfolded investigate_def]] assms(1)
  by (auto simp: sound_status_def blocked_def exit_shape_def)

section \<open>The critic loop is bounded\<close>

text \<open>The re-entries of a run: visits of the Critic that are not followed by the Report.\<close>

fun reentries :: "node_name list \<Rightarrow> nat" where
  "reentries (n # m # ns) = (if n = Critic \<and> m \<noteq> Report then 1 else 0) + reentries (m # ns)"
| "reentries _ = 0"

definition wants_revision :: "investigation_state \<Rightarrow> bool" where
  "wants_revision s \<longleftrightarrow> verdict_or '''' (critique s) = ''revise''"

lemma verdict_default:
  "verdict_or ''accept'' (critique s) = ''revise'' \<longleftrightarrow> wants_revision s"
  by (auto simp: wants_revision_def verdict_or_def py_lower_def split: option.splits)

definition revisions_left :: "agent_settings \<Rightarrow> investigation_state \<Rightarrow> nat" where
  "revisions_left cfg s =
     nat (max_critic_revisions cfg - revision_count s - (if wants_revision s then 1 else 0))"

lemma enforce_revision:
  assumes "keeps_the_loop Critic s d"
  shows "revision_count s + (if wants_revision s then 1 else 0)
           \<le> get_or (revision_count s) (d_revision (enforce_revision_progress d s))"
  using assms
  by (auto simp: enforce_revision_progress_def keeps_the_loop_def wants_revision_def Let_def
      split: option.splits)

lemma loop_law_record [simp]: "keeps_the_loop n s (record_halt m h d s') = keeps_the_loop n s d"
  by (simp add: keeps_the_loop_def)

lemma visit_loop:
  assumes "node_law nodes keeps_the_loop" "n \<noteq> Critic_Final"
    and v: "visit cfg nodes clock k n s = (dest, s')"
  shows "(n \<noteq> Critic \<longrightarrow> critique s' = critique s \<and> revision_count s \<le> revision_count s') \<and>
         (n = Critic \<longrightarrow>
            revision_count s + (if wants_revision s then 1 else 0) \<le> revision_count s' \<or>
            critique s' = critique s \<and> revision_count s' = revision_count s \<and>
            check_guards cfg (clock (4 * k)) s \<noteq> None)"
proof (cases rule: wrap_node_cases [of cfg clock k s n "nodes n"])
  case (halted h)
  with v show ?thesis by (simp add: visit_eq)
next
  case (ran d)
  with node_part_loop [OF assms(1), of n s cfg clock k] have d: "keeps_the_loop n s d" by auto
  show ?thesis
  proof (cases "n = Critic")
    case True
    with enforce_revision [of s d] d v ran(4) show ?thesis by (simp add: visit_eq)
  next
    case False
    with d v ran(4) assms(2) show ?thesis
      by (auto simp: visit_eq keeps_the_loop_def split: option.splits)
  qed
qed

lemma reenter_needs:
  assumes "route_after_critic cfg now s = Node m" "m \<noteq> Report"
  shows "wants_revision s \<and> revision_count s < max_critic_revisions cfg"
  using assms
  by (auto simp: route_after_critic_def verdict_default split: option.splits if_splits elim: guardE)

lemma visit_revisions:
  assumes "node_law nodes keeps_the_loop" "mono clock" "n \<noteq> Critic_Final"
    and v: "visit cfg nodes clock k n s = (dest, s')"
  shows "revisions_left cfg s' +
           (if n = Critic \<and> dest \<noteq> END \<and> dest \<noteq> Node Report then 1 else 0) \<le> revisions_left cfg s"
proof (cases "n = Critic \<and> dest \<noteq> END \<and> dest \<noteq> Node Report")
  case True
  then obtain m where m: "dest = Node m" "m \<noteq> Report" by (cases dest) auto
  with v True have "route_after_critic cfg (clock (4 * k + 3)) s' = Node m"
    by (auto simp: visit_eq edge_after_def)
  from reenter_needs [OF this m(2)] have "wants_revision s'"
    "revision_count s' < max_critic_revisions cfg" by auto
  moreover have "check_guards cfg (clock (4 * k)) s = None"
    using visit_after_halt [OF v assms(2)] True by (cases "check_guards cfg (clock (4 * k)) s") auto
  with visit_loop [OF assms(1,3) v] True
  have "revision_count s + (if wants_revision s then 1 else 0) \<le> revision_count s'" by auto
  ultimately show ?thesis using True by (auto simp: revisions_left_def)
next
  case False
  with visit_loop [OF assms(1,3) v] show ?thesis
    by (cases "n = Critic") (auto simp: revisions_left_def wants_revision_def)
qed

lemma run_hd:
  "run_graph cfg nodes clock fuel k dest s = Some (ns, u) \<Longrightarrow>
   (dest = END \<and> ns = []) \<or> (\<exists>n ms. dest = Node n \<and> ns = n # ms)"
  by (cases fuel; cases dest) (auto split: prod.splits)

lemma run_revisions:
  assumes "node_law nodes keeps_the_loop" "mono clock"
    and "run_graph cfg nodes clock fuel k dest s = Some (ns, u)"
  shows "reentries ns \<le> revisions_left cfg s"
  using assms(3)
proof (induction fuel arbitrary: k dest s ns)
  case 0
  then show ?case by (cases dest) auto
next
  case (Suc fuel)
  show ?case
  proof (cases dest)
    case END
    with Suc.prems show ?thesis by simp
  next
    case (Node n)
    obtain dest' s' ms where v: "visit cfg nodes clock k n s = (dest', s')"
      and r: "run_graph cfg nodes clock fuel (Suc k) dest' s' = Some (ms, u)"
      and ns: "ns = n # ms"
      using Suc.prems Node by (auto split: prod.splits)
    show ?thesis
    proof (cases "n = Critic_Final")
      case True
      with v run_hd [OF r] ns show ?thesis
        by (auto simp: visit_eq edge_after_def route_after_final_critic_def)
    next
      case False
      have "reentries ns \<le> reentries ms +
        (if n = Critic \<and> dest' \<noteq> END \<and> dest' \<noteq> Node Report then 1 else 0)"
        using run_hd [OF r] ns by (auto split: if_splits)
      with Suc.IH [OF r] visit_revisions [OF assms(1,2) False v] show ?thesis by linarith
    qed
  qed
qed

text \<open>
  C5. The critic loop is bounded by its own counter (\<open>_enforce_revision_progress\<close>,
  \<open>route_after_critic\<close>). When only the critics write a critique and no node takes a
  revision back, a run re-enters the loop at most \<open>max_critic_revisions\<close> times, less the
  revisions already counted, also when the Critic itself fails on every pass.
\<close>

theorem revisions_bounded:
  assumes "node_law nodes keeps_the_loop" and "mono clock"
    and "investigate cfg nodes clock fuel s = Some (ns, u)"
  shows "int (reentries ns) \<le> max 0 (max_critic_revisions cfg - revision_count s)"
  using run_revisions [OF assms(1,2) assms(3) [unfolded investigate_def]]
  by (auto simp: revisions_left_def split: if_splits)

definition no_verdict :: "investigation_state \<Rightarrow> bool" where
  "no_verdict s \<longleftrightarrow> (\<forall>c. critique s = Some c \<longrightarrow> verdict c = None)"

definition writes_no_verdict :: "node_name \<Rightarrow> investigation_state \<Rightarrow> delta \<Rightarrow> bool" where
  "writes_no_verdict n s d \<longleftrightarrow> (\<forall>c. d_critique d = Some (Some c) \<longrightarrow> verdict c = None)"

lemma build_nodes_no_verdict: "node_law (build_nodes b cfg) writes_no_verdict"
proof -
  have "writes_no_verdict n s d" if r: "build_nodes b cfg n \<tau> s = Returned d" for n \<tau> s d
    using r by (cases n) (auto simp: build_nodes_def writes_no_verdict_def agent_deltas critique_payload_def
      dest!: agent_call_returned expansion_returned)
  then show ?thesis unfolding node_law_def by blast
qed

lemma visit_no_verdict:
  assumes "node_law nodes writes_no_verdict" "no_verdict s" and v: "visit cfg nodes clock k n s = (dest, s')"
  shows "no_verdict s'"
proof (cases rule: wrap_node_cases [of cfg clock k s n "nodes n"])
  case (halted h)
  with v assms(2) show ?thesis by (simp add: visit_eq no_verdict_def)
next
  case (ran d)
  have "writes_no_verdict n s (node_part n (nodes n) cfg clock k s)"
    using outcome_law [OF assms(1), of n s "node_timeout n s cfg (clock (4 * k + 1))"]
    by (auto simp: node_part_def writes_no_verdict_def empty_delta_def)
  then have "writes_no_verdict n s d" using ran(3) by (auto simp: writes_no_verdict_def)
  with v ran(4) assms(2) show ?thesis
    by (cases "d_critique d") (auto simp: visit_eq no_verdict_def writes_no_verdict_def)
qed

lemma no_verdict_goes_on: "no_verdict s \<Longrightarrow> route_after_critic cfg now s = Node m \<Longrightarrow> m = Report"
  using reenter_needs [of cfg now s m]
  by (cases "critique s") (auto simp: no_verdict_def wants_revision_def verdict_or_def py_lower_def)

lemma run_never_reenters:
  assumes "node_law nodes writes_no_verdict" "no_verdict s"
    and "run_graph cfg nodes clock fuel k dest s = Some (ns, u)"
  shows "reentries ns = 0"
  using assms(2,3)
proof (induction fuel arbitrary: k dest s ns)
  case 0
  then show ?case by (cases dest) auto
next
  case (Suc fuel)
  show ?case
  proof (cases dest)
    case END
    with Suc.prems show ?thesis by simp
  next
    case (Node n)
    obtain dest' s' ms where v: "visit cfg nodes clock k n s = (dest', s')"
      and r: "run_graph cfg nodes clock fuel (Suc k) dest' s' = Some (ms, u)" and ns: "ns = n # ms"
      using Suc.prems(2) Node by (auto split: prod.splits)
    have nv: "no_verdict s'" by (rule visit_no_verdict [OF assms(1) Suc.prems(1) v])
    have "n = Critic \<Longrightarrow> dest' = Node m \<Longrightarrow> m = Report" for m
      using no_verdict_goes_on [OF nv] v by (auto simp: visit_eq edge_after_def)
    then show ?thesis using Suc.IH [OF nv r] run_hd [OF r] ns by auto
  qed
qed

text \<open>
  The critic loop of the shipped graph is never entered: the output of the Critic has no verdict, and
  the router reads an absent verdict as \<open>accept\<close>.
\<close>

theorem shipped_critic_never_sends_back:
  assumes "critique s = None" and "investigate cfg (build_nodes b cfg) clock fuel s = Some (ns, u)"
  shows "reentries ns = 0"
  using run_never_reenters [OF build_nodes_no_verdict _ assms(2) [unfolded investigate_def]] assms(1)
  by (simp add: no_verdict_def)

text \<open>
  The final critic pass only annotates (\<open>_annotate_only\<close>). Whatever the Critic returns
  there, the report and the revision count stay as the Report left them, and the run
  leaves for \<open>END\<close>.
\<close>

theorem final_pass_annotates:
  assumes "visit cfg nodes clock k Critic_Final s = (dest, s')"
  shows "report s' = report s \<and> revision_count s' = revision_count s \<and> dest = END"
  using assms
  by (cases rule: wrap_node_cases [of cfg clock k s Critic_Final "nodes Critic_Final"])
    (auto simp: visit_eq edge_after_def route_after_final_critic_def)

text \<open>
  A halted working node spends nothing (\<open>_wrap_node\<close>). When the guard fires before a
  node outside the exit path, the node is not called: no step, no tokens, no plan, no
  critique and no report change, and the only error added is the record of the halt, once
  per reason.
\<close>

theorem halted_node_spends_nothing:
  assumes "check_guards cfg (clock (4 * k)) s = Some h" and "n \<notin> {Report, Critic_Final}"
    and "visit cfg nodes clock k n s = (dest, s')"
  shows "step_count s' = step_count s \<and> tokens_spent s' = tokens_spent s \<and> plan s' = plan s
       \<and> critique s' = critique s \<and> report s' = report s
       \<and> visit cfg nodes' clock k n s = (dest, s')
       \<and> errors s' = errors s @ (if already_recorded s (halt_reason_value (reason h)) then []
                                 else [halt_error h (NODE_AGENT n)])"
proof -
  have "\<not> is_exempt n h" using assms(2) by (simp add: is_exempt_def TERMINAL_NODES_def)
  then have "wrap_node n node cfg clock k s = halt_delta n h s" for node
    using assms(1) by (simp add: wrap_node_def)
  with assms(3) show ?thesis by (auto simp: visit_eq halt_delta_def empty_delta_def merged_def)
qed

text \<open>
  The time slice of a node (\<open>_node_timeout\<close>). It is at least one second and otherwise
  within the investigation's timeout; a working node gets no more than what is left to
  the deadline, a node of the exit path at least a tenth of the timeout even past the
  deadline.
\<close>

theorem node_timeout_bounds:
  assumes "0 \<le> timeout_seconds cfg"
  shows "1 \<le> node_timeout n s cfg now
   \<and> node_timeout n s cfg now \<le> max 1 (of_int (timeout_seconds cfg))
   \<and> (n \<notin> {Report, Critic_Final} \<and> deadline_at s = Some d \<longrightarrow>
        node_timeout n s cfg now \<le> max 1 (of_int (d - now) / 1000000))
   \<and> (n \<in> {Report, Critic_Final} \<longrightarrow> of_int (timeout_seconds cfg) / 10 \<le> node_timeout n s cfg now)"
  using assms
  by (auto simp: node_timeout_def exit_path_grace_def MIN_NODE_TIMEOUT_SECONDS_def
      EXIT_PATH_GRACE_FRACTION_def TERMINAL_NODES_def Let_def split: option.splits)

section \<open>Instances\<close>

text \<open>
  A concrete investigation: a clock that ticks once a second, a Critic that asks for one
  revision and then accepts, and the witnesses of the claims about the router and runs.
\<close>

definition demo_cfg :: agent_settings where
  "demo_cfg = \<lparr>max_steps = 20, timeout_seconds = 600, max_critic_revisions = 2, token_budget = 1000\<rparr>"

definition demo_clock :: "nat \<Rightarrow> instant" where
  "demo_clock k = int k * 1000000"

definition demo_start :: investigation_state where
  "demo_start = new_state 600000000"

definition demo_critique :: "string \<Rightarrow> finding list \<Rightarrow> critique" where
  "demo_critique v fs =
     \<lparr>verdict = Some v, target_stage = Some ''strategy'', findings = fs, artifact_sha256 = None\<rparr>"

definition demo_nodes :: "node_name \<Rightarrow> node_callable" where
  "demo_nodes n \<tau> s =
     (case n of
        Planner \<Rightarrow> Returned (empty_delta\<lparr>d_plan :=
          Some [\<lparr>step_agent = Insight_Agent, requires_fresh_data = False, depends_on = []\<rparr>]\<rparr>)
      | Critic \<Rightarrow> Returned (empty_delta\<lparr>d_critique := Some (Some
          (if critique s = None then demo_critique ''revise'' [Finding False (Some ''strategy'')]
           else demo_critique ''accept'' []))\<rparr>)
      | Report \<Rightarrow> Returned (empty_delta\<lparr>d_report := Some (Some ''report'')\<rparr>)
      | Graph_Expansion \<Rightarrow> Timed_Out
      | _ \<Rightarrow> Returned empty_delta)"

definition demo_trace :: "node_name list" where
  "demo_trace = [Planner, Retriever, Graph_Expansion, Insight, Strategy, Critic, Strategy,
     Critic, Report, Critic_Final]"

lemma demo_clock_mono: "mono demo_clock"
  by (auto simp: mono_def demo_clock_def)

lemma demo_laws:
  "node_law demo_nodes charges_a_step"
  "node_law demo_nodes keeps_the_loop"
  by (auto simp: node_law_def demo_nodes_def charges_a_step_def
      keeps_the_loop_def empty_delta_def split: node_name.splits)

definition demo_run :: "(node_name list \<times> investigation_state) option" where
  "demo_run = investigate demo_cfg demo_nodes demo_clock 23 demo_start"

lemma demo_run_result:
  "map_option (\<lambda>(ns, u). (ns, status_of u)) demo_run = Some (demo_trace, Completed)"
  by code_simp

definition demo_final :: investigation_state where
  "demo_final = snd (the demo_run)"

lemma demo_run_eq: "demo_run = Some (demo_trace, demo_final)"
  and demo_final_status: "status_of demo_final = Completed"
proof -
  obtain u where u: "demo_run = Some (demo_trace, u)" and c: "status_of u = Completed"
    using demo_run_result by auto
  have "demo_final = u" unfolding demo_final_def u by (simp only: option.sel snd_conv)
  with u c show "demo_run = Some (demo_trace, demo_final)" "status_of demo_final = Completed"
    by (simp_all only:)
qed

text \<open>The same with the nodes of the repository: agents that always produce an output.\<close>

definition demo_usage :: "(llm_usage \<times> bool) list" where
  "demo_usage = [(\<lparr>used_input = 10, used_output = 5, used_cached = 0\<rparr>, False)]"

definition demo_bundle :: agent_bundle where
  "demo_bundle =
     \<lparr>run_planner = (\<lambda>bud \<tau> s. (Produced [\<lparr>step_agent = Insight_Agent, requires_fresh_data = False, depends_on = []\<rparr>], demo_usage)),
      run_collector = (\<lambda>bud \<tau> s. (Produced (), demo_usage)), run_retriever = (\<lambda>bud \<tau> s. (Produced (), demo_usage)),
      run_expansion = (\<lambda>\<tau> s. Cut_Off), run_insight = (\<lambda>bud \<tau> s. (Produced (), demo_usage)),
      run_strategy = (\<lambda>bud \<tau> s. (Failed_With LLM_Timeout, demo_usage)),
      run_critic = (\<lambda>bud \<tau> s. (Produced \<lparr>co_findings = [Major], co_approved = False\<rparr>, demo_usage)),
      run_report = (\<lambda>bud \<tau> s. (Produced \<lparr>ro_dump = ''report'', ro_gaps = []\<rparr>, demo_usage))\<rparr>"

definition bundle_run :: "(node_name list \<times> investigation_state) option" where
  "bundle_run = investigate demo_cfg (build_nodes demo_bundle demo_cfg) demo_clock 23 demo_start"

definition bundle_trace :: "node_name list" where
  "bundle_trace = [Planner, Retriever, Graph_Expansion, Insight, Strategy, Critic, Report, Critic_Final]"

lemma bundle_run_result:
  "map_option (\<lambda>(ns, u). (ns, status_of u)) bundle_run = Some (bundle_trace, Completed)"
  by code_simp

definition bundle_final :: investigation_state where
  "bundle_final = snd (the bundle_run)"

lemma bundle_run_eq: "bundle_run = Some (bundle_trace, bundle_final)"
  and bundle_final_status: "status_of bundle_final = Completed"
proof -
  obtain u where u: "bundle_run = Some (bundle_trace, u)" and c: "status_of u = Completed"
    using bundle_run_result by auto
  have "bundle_final = u" unfolding bundle_final_def u by (simp only: option.sel snd_conv)
  with u c show "bundle_run = Some (bundle_trace, bundle_final)" "status_of bundle_final = Completed"
    by (simp_all only:)
qed

text \<open>
  The final critic pass does not run when the Report succeeded: the status the Report writes is
  terminal, the guard of the pass answers that the run has ended, and the run records that it was
  cancelled. One critique is on record, that of the Critic before the report.
\<close>

theorem final_pass_is_skipped:
  "map_option (\<lambda>(ns, u). (ns = bundle_trace, length (critique_history u), map error_type (errors u))) bundle_run
     = Some (True, 1, [''timeout'', ''timeout'', ''cancelled''])"
  by code_simp

section \<open>Witnesses\<close>

lemma edges_obey_guard_witness:
  "edge_after Strategy demo_cfg 600000000 demo_start = Node Report"
proof -
  have "exhausted demo_cfg 600000000 demo_start"
    by (simp add: exhausted_def demo_start_def new_state_def)
  moreover have "edge_after Strategy demo_cfg 600000000 demo_start \<noteq> END" by code_simp
  ultimately show ?thesis
    using edges_obey_guard [of Strategy demo_cfg 600000000 demo_start] by simp
qed

definition demo_revise :: investigation_state where
  "demo_revise =
     demo_start\<lparr>critique := Some (demo_critique ''Revise'' [Opaque_Finding]),
       critique_history :=
         [demo_critique ''revise'' [Opaque_Finding, Opaque_Finding],
          demo_critique ''revise'' [Opaque_Finding]], revision_count := 1\<rparr>"

lemma critic_reenters_iff_witness:
  "route_after_critic demo_cfg 0 demo_revise = Node Strategy
   \<and> unresolved_count (demo_critique ''revise'' [Opaque_Finding])
       < unresolved_count (demo_critique ''revise'' [Opaque_Finding, Opaque_Finding])"
proof -
  have r: "route_after_critic demo_cfg 0 demo_revise = Node Strategy" by code_simp
  have "last_two (critique_history demo_revise) =
      Some (demo_critique ''revise'' [Opaque_Finding],
            demo_critique ''revise'' [Opaque_Finding, Opaque_Finding])"
    by (simp add: last_two_def demo_revise_def)
  with r show ?thesis using critic_reenters_iff [of demo_cfg 0 demo_revise] by simp
qed

lemma investigate_returns_witness:
  "\<exists>ns u. investigate demo_cfg (build_nodes demo_bundle demo_cfg) demo_clock (nat (20 - 0) + 3) demo_start = Some (ns, u)
          \<and> length ns \<le> nat (20 - 0) + 3"
  using investigate_returns [OF demo_clock_mono, where b = demo_bundle and cfg = demo_cfg and s = demo_start]
  by (simp add: demo_cfg_def demo_start_def new_state_def)

lemma investigate_ends_witness:
  "status_of bundle_final = Completed \<and> (\<exists>pre. bundle_trace = pre @ [Report, Critic_Final])"
proof -
  have "\<not> is_terminal (status_of demo_start)" by code_simp
  from investigate_ends [OF this bundle_run_eq [unfolded bundle_run_def]]
  show ?thesis by (auto simp: bundle_final_status)
qed

lemma revisions_bounded_witness: "reentries demo_trace = 1 \<and> int (reentries demo_trace) \<le> 2"
proof -
  have "reentries demo_trace = 1" by (simp add: demo_trace_def)
  then show ?thesis
    using revisions_bounded [OF demo_laws(2) demo_clock_mono demo_run_eq [unfolded demo_run_def]]
    by (simp add: demo_cfg_def demo_start_def new_state_def)
qed

definition meddling_nodes :: "node_name \<Rightarrow> node_callable" where
  "meddling_nodes n \<tau> s =
     Returned (empty_delta\<lparr>d_report := Some (Some ''rewritten''), d_revision := Some 0\<rparr>)"

lemma final_pass_annotates_witness:
  "report (snd (visit demo_cfg meddling_nodes demo_clock 0 Critic_Final
      (demo_revise\<lparr>report := Some ''draft''\<rparr>))) = Some ''draft''"
  using final_pass_annotates [of demo_cfg meddling_nodes demo_clock 0
      "demo_revise\<lparr>report := Some ''draft''\<rparr>", OF prod.collapse [symmetric]]
  by simp

lemma halted_node_spends_nothing_witness:
  "step_count (snd (visit demo_cfg meddling_nodes demo_clock 150 Insight demo_start)) = 0"
proof -
  have "check_guards demo_cfg (demo_clock (4 * 150)) demo_start =
      Some \<lparr>reason = DEADLINE, route = Node Report, halt_status = Completed_With_Findings\<rparr>"
    by code_simp
  from halted_node_spends_nothing [of demo_cfg demo_clock 150, OF this _ prod.collapse [symmetric],
      of Insight meddling_nodes]
  show ?thesis by (simp add: demo_start_def new_state_def)
qed

lemma node_timeout_bounds_witness:
  "60 \<le> node_timeout Report demo_start demo_cfg 700000000
   \<and> node_timeout Insight demo_start demo_cfg 590000000 \<le> 10"
  using node_timeout_bounds [of demo_cfg Report demo_start 700000000 0]
    node_timeout_bounds [of demo_cfg Insight demo_start 590000000 600000000]
  by (simp add: demo_cfg_def demo_start_def new_state_def)

end
