(* ===== verification/Event_Consumer.thy ===== *)
theory Event_Consumer
  imports Prelude
begin

text \<open>
  \<open>services/events/consumer.py\<close>: one fetch, handle, commit cycle of \<open>EventConsumer\<close>.

  What leaves the process is a \<open>call\<close>: the handler, the retry sleep, the DLQ publisher and
  the methods of the Kafka client. The environment answers the calls that can fail; it
  sees the whole history, so it is any handler, any broker and any moment of
  cancellation. \<open>Broken\<close> is a \<open>KafkaError\<close> or \<open>OSError\<close>, \<open>Failing\<close> any other \<open>Exception\<close>,
  \<open>Stopped\<close> an \<open>asyncio.CancelledError\<close>, which no \<open>except Exception\<close> catches. The world
  is the history of answered calls and what the client keeps: the fetch position and the
  committed offset of each partition. Seeking and pausing an assigned partition always
  succeed.

  A record carries what \<open>EventEnvelope.from_bytes\<close> makes of its value: nothing, an
  envelope of a version this build cannot read, or a readable one. A batch is the
  dictionary \<open>getmany\<close> returned, as the list of its items. Log lines are left out.
\<close>

section \<open>Messages\<close>

datatype decoded = Undecodable | Unreadable_Version | Readable

type_synonym topic_partition = "string \<times> int"

record crec =
  rec_topic :: string
  rec_partition :: int
  rec_offset :: int
  rec_value :: decoded

type_synonym batch = "(topic_partition \<times> crec list) list"

datatype disposition = ADVANCE | BLOCK

record batch_outcome =
  fetched :: nat
  handled :: nat
  dlq_routed :: nat
  blocked_count :: nat
  committed_offsets :: "(topic_partition \<times> int) list"

definition is_empty :: "batch_outcome \<Rightarrow> bool" where
  "is_empty o' \<longleftrightarrow> fetched o' = 0"

definition empty_outcome :: batch_outcome where
  "empty_outcome =
     \<lparr>fetched = 0, handled = 0, dlq_routed = 0, blocked_count = 0, committed_offsets = []\<rparr>"

section \<open>Configuration\<close>

definition MAX_BACKOFF_SECONDS :: pyfloat where
  "MAX_BACKOFF_SECONDS = 5"

record consumer_config =
  dlq_enabled :: bool
  max_attempts :: nat
  backoff_seconds :: pyfloat
  dlq_topic :: string
  subscribed :: "string list"
  batch_limit :: int

text \<open>The constructor: at least one attempt and one topic, the smaller of two batch bounds.\<close>

definition new_consumer ::
  "string list \<Rightarrow> bool \<Rightarrow> int option \<Rightarrow> nat \<Rightarrow> pyfloat \<Rightarrow> string \<Rightarrow> int \<Rightarrow> int
     \<Rightarrow> py_error + consumer_config" where
  "new_consumer topics dlq limit attempts backoff dlq_name ingestion max_poll =
     (if attempts < 1 then Inl ValueError
      else if topics = [] then Inl ValueError
      else Inr \<lparr>dlq_enabled = dlq, max_attempts = attempts, backoff_seconds = backoff,
        dlq_topic = dlq_name, subscribed = topics,
        batch_limit = min (case limit of None \<Rightarrow> ingestion
          | Some b \<Rightarrow> if b = 0 then ingestion else b) max_poll\<rparr>)"

section \<open>The world\<close>

datatype call =
    Handle crec nat
  | Retry_Sleep pyfloat
  | Publish_Dlq crec nat
  | Commit "(topic_partition \<times> int) list"
  | Seek topic_partition int
  | Pause "topic_partition list"
  | Resume "topic_partition list"

datatype answer = Fine | Broken | Failing | Stopped

record world =
  history :: "(call \<times> answer) list"
  position :: "topic_partition \<Rightarrow> int"
  committed :: "topic_partition \<Rightarrow> int option"

type_synonym env = "(call \<times> answer) list \<Rightarrow> call \<Rightarrow> answer"

definition ask :: "env \<Rightarrow> call \<Rightarrow> world \<Rightarrow> answer \<times> world" where
  "ask env c w = (let a = env (history w) c in (a, w\<lparr>history := history w @ [(c, a)]\<rparr>))"

definition tell :: "call \<Rightarrow> world \<Rightarrow> world" where
  "tell c w = w\<lparr>history := history w @ [(c, Fine)]\<rparr>"

definition seek :: "topic_partition \<Rightarrow> int \<Rightarrow> world \<Rightarrow> world" where
  "seek tp k w = tell (Seek tp k) (w\<lparr>position := (position w)(tp := k)\<rparr>)"

section \<open>One message\<close>

definition retry_ceiling :: "consumer_config \<Rightarrow> nat \<Rightarrow> pyfloat" where
  "retry_ceiling cfg attempt = min MAX_BACKOFF_SECONDS (backoff_seconds cfg * 2 ^ (attempt - 1))"

datatype delivery = Delivered | Exhausted | Interrupted

fun deliver_attempts ::
  "consumer_config \<Rightarrow> env \<Rightarrow> crec \<Rightarrow> nat list \<Rightarrow> world \<Rightarrow> delivery \<times> world" where
  "deliver_attempts cfg env r [] w = (Exhausted, w)"
| "deliver_attempts cfg env r (attempt # later) w =
     (case ask env (Handle r attempt) w of
        (Fine, w1) \<Rightarrow> (Delivered, w1)
      | (Stopped, w1) \<Rightarrow> (Interrupted, w1)
      | (_, w1) \<Rightarrow>
          if attempt < max_attempts cfg then
            (case ask env (Retry_Sleep (retry_ceiling cfg attempt)) w1 of
               (Stopped, w2) \<Rightarrow> (Interrupted, w2)
             | (_, w2) \<Rightarrow> deliver_attempts cfg env r later w2)
          else deliver_attempts cfg env r later w1)"

definition deliver :: "consumer_config \<Rightarrow> env \<Rightarrow> crec \<Rightarrow> world \<Rightarrow> delivery \<times> world" where
  "deliver cfg env r w = deliver_attempts cfg env r [1..<Suc (max_attempts cfg)] w"

text \<open>\<open>None\<close> is an exception that leaves the method.\<close>

definition park ::
  "consumer_config \<Rightarrow> env \<Rightarrow> crec \<Rightarrow> nat \<Rightarrow> world \<Rightarrow> disposition option \<times> world" where
  "park cfg env r attempts w =
     (if \<not> dlq_enabled cfg then (Some BLOCK, w)
      else if rec_topic r = dlq_topic cfg then (Some ADVANCE, w)
      else (case ask env (Publish_Dlq r attempts) w of
          (Fine, w1) \<Rightarrow> (Some ADVANCE, w1)
        | (Stopped, w1) \<Rightarrow> (None, w1)
        | (_, w1) \<Rightarrow> (Some BLOCK, w1)))"

definition handle_record ::
  "consumer_config \<Rightarrow> env \<Rightarrow> crec \<Rightarrow> world \<Rightarrow> (disposition \<times> bool) option \<times> world" where
  "handle_record cfg env r w =
     (case rec_value r of
        Undecodable \<Rightarrow> (case park cfg env r 1 w of (d, w1) \<Rightarrow> (map_option (\<lambda>x. (x, True)) d, w1))
      | Unreadable_Version \<Rightarrow>
          (case park cfg env r 1 w of (d, w1) \<Rightarrow> (map_option (\<lambda>x. (x, True)) d, w1))
      | Readable \<Rightarrow>
          (case deliver cfg env r w of
             (Delivered, w1) \<Rightarrow> (Some (ADVANCE, False), w1)
           | (Interrupted, w1) \<Rightarrow> (None, w1)
           | (Exhausted, w1) \<Rightarrow>
               (case park cfg env r (max_attempts cfg) w1 of
                  (d, w2) \<Rightarrow> (map_option (\<lambda>x. (x, True)) d, w2))))"

section \<open>One batch\<close>

text \<open>The locals of \<open>run_once\<close>.\<close>

record tally =
  t_handled :: nat
  t_routed :: nat
  t_blocked :: nat
  t_commits :: "(topic_partition \<times> int) list"

text \<open>
  The inner loop over one partition: the offset to commit, if any, and the counters. The
  first result is \<open>None\<close> when an exception leaves the loop.
\<close>

fun handle_partition ::
  "consumer_config \<Rightarrow> env \<Rightarrow> topic_partition \<Rightarrow> crec list \<Rightarrow> int option \<Rightarrow> tally \<Rightarrow> world
     \<Rightarrow> (int option \<times> tally) option \<times> world" where
  "handle_partition cfg env tp [] next_offset t w = (Some (next_offset, t), w)"
| "handle_partition cfg env tp (r # rs) next_offset t w =
     (case handle_record cfg env r w of
        (None, w1) \<Rightarrow> (None, w1)
      | (Some (ADVANCE, routed), w1) \<Rightarrow>
          handle_partition cfg env tp rs (Some (rec_offset r + 1))
            (t\<lparr>t_handled := t_handled t + 1, t_routed := t_routed t + of_bool routed\<rparr>) w1
      | (Some (BLOCK, routed), w1) \<Rightarrow>
          (Some (next_offset, t\<lparr>t_blocked := t_blocked t + length (r # rs)\<rparr>),
           seek tp (rec_offset r) w1))"

text \<open>The outer loop. The commits collected so far are kept when an exception leaves it.\<close>

fun handle_batch ::
  "consumer_config \<Rightarrow> env \<Rightarrow> batch \<Rightarrow> tally \<Rightarrow> world \<Rightarrow> bool \<times> tally \<times> world" where
  "handle_batch cfg env [] t w = (True, t, w)"
| "handle_batch cfg env ((tp, rs) # rest) t w =
     (case handle_partition cfg env tp rs None t w of
        (None, w1) \<Rightarrow> (False, t, w1)
      | (Some (None, t1), w1) \<Rightarrow> handle_batch cfg env rest t1 w1
      | (Some (Some k, t1), w1) \<Rightarrow>
          handle_batch cfg env rest (t1\<lparr>t_commits := t_commits t1 @ [(tp, k)]\<rparr>) w1)"

fun rewind :: "batch \<Rightarrow> (topic_partition \<times> int) list \<Rightarrow> world \<Rightarrow> world" where
  "rewind [] commits w = w"
| "rewind ((tp, rs) # rest) commits w =
     (case rs of
        [] \<Rightarrow> rewind rest commits w
      | r # _ \<Rightarrow> rewind rest commits
          (seek tp (case map_of commits tp of None \<Rightarrow> rec_offset r | Some k \<Rightarrow> k) w))"

text \<open>
  \<open>_commit\<close>: whether it returned, and the commits left in the dictionary it was given. A
  commit the broker acknowledged sets the committed offsets.
\<close>

definition commit ::
  "env \<Rightarrow> (topic_partition \<times> int) list \<Rightarrow> batch \<Rightarrow> world
     \<Rightarrow> bool \<times> (topic_partition \<times> int) list \<times> world" where
  "commit env commits batch w =
     (case ask env (Commit commits) w of
        (Fine, w1) \<Rightarrow> (True, commits, w1\<lparr>committed := committed w1 ++ map_of commits\<rparr>)
      | (Broken, w1) \<Rightarrow> (True, [], rewind batch [] w1)
      | (_, w1) \<Rightarrow> (False, commits, w1))"

definition run_once ::
  "consumer_config \<Rightarrow> env \<Rightarrow> batch \<Rightarrow> world \<Rightarrow> batch_outcome option \<times> world" where
  "run_once cfg env batch w =
     (if batch = [] then (Some empty_outcome, w)
      else
        (let parts = map fst batch;
             w0 = tell (Pause parts) w;
             outcome = (\<lambda>t commits. \<lparr>fetched = sum_list (map (length \<circ> snd) batch),
               handled = t_handled t, dlq_routed = t_routed t, blocked_count = t_blocked t,
               committed_offsets = commits\<rparr>)
         in case handle_batch cfg env batch
               \<lparr>t_handled = 0, t_routed = 0, t_blocked = 0, t_commits = []\<rparr> w0 of
              (False, t, w1) \<Rightarrow> (None, tell (Resume parts) (rewind batch (t_commits t) w1))
            | (True, t, w1) \<Rightarrow>
                if t_commits t = [] then (Some (outcome t []), tell (Resume parts) w1)
                else (case commit env (t_commits t) batch w1 of
                    (True, commits, w2) \<Rightarrow> (Some (outcome t commits), tell (Resume parts) w2)
                  | (False, commits, w2) \<Rightarrow>
                      (None, tell (Resume parts) (rewind batch commits w2)))))"

end
