(* ===== verification/Consumer_Laws.thy ===== *)
theory Consumer_Laws
  imports Event_Consumer
begin

text \<open>
  What \<open>EventConsumer.run_once\<close> guarantees in every environment: no message falls behind a
  committed offset or the fetch position unless it was handled, parked in the DLQ or is a
  message of the DLQ itself; and the same over the life of a consumer, with batches the
  client fetches, restarts and rebalances in between.
\<close>

section \<open>Settled messages\<close>

definition settled :: "consumer_config \<Rightarrow> (call \<times> answer) list \<Rightarrow> crec \<Rightarrow> bool" where
  "settled cfg h r \<longleftrightarrow>
     (\<exists>a. (Handle r a, Fine) \<in> set h) \<or> (\<exists>a. (Publish_Dlq r a, Fine) \<in> set h) \<or>
     dlq_enabled cfg \<and> rec_topic r = dlq_topic cfg"

definition later :: "world \<Rightarrow> world \<Rightarrow> bool" where
  "later w w' \<longleftrightarrow> set (history w) \<subseteq> set (history w')"

lemma later_refl [simp, intro]: "later w w"
  by (simp add: later_def)

lemma later_trans [trans]: "\<lbrakk>later u v; later v w\<rbrakk> \<Longrightarrow> later u w"
  by (auto simp: later_def)

lemma settled_later: "\<lbrakk>settled cfg (history w) r; later w w'\<rbrakk> \<Longrightarrow> settled cfg (history w') r"
  by (auto simp: settled_def later_def)

section \<open>One message\<close>

text \<open>A step that only talks to the environment.\<close>

definition talks :: "world \<Rightarrow> world \<Rightarrow> bool" where
  "talks w w' \<longleftrightarrow> later w w' \<and> position w' = position w \<and> committed w' = committed w"

lemma talks_refl [simp, intro]: "talks w w"
  by (simp add: talks_def)

lemma talks_trans [trans]: "\<lbrakk>talks u v; talks v w\<rbrakk> \<Longrightarrow> talks u w"
  by (auto simp: talks_def intro: later_trans)

lemma ask_talks: "ask env c w = (a, w') \<Longrightarrow> talks w w' \<and> (c, a) \<in> set (history w')"
  by (auto simp: ask_def talks_def later_def Let_def)

lemma tell_sel [simp]:
  "later w (tell c w)" "position (tell c w) = position w" "committed (tell c w) = committed w"
  by (auto simp: tell_def later_def)

lemma seek_sel [simp]:
  "later w (seek tp k w)" "position (seek tp k w) = (position w)(tp := k)"
  "committed (seek tp k w) = committed w"
  by (auto simp: seek_def tell_def later_def)

lemma deliver_attempts_law:
  "deliver_attempts cfg env r as w = (d, w') \<Longrightarrow>
   talks w w' \<and> (d = Delivered \<longrightarrow> (\<exists>a. (Handle r a, Fine) \<in> set (history w')))"
proof (induction as arbitrary: w)
  case Nil
  then show ?case by auto
next
  case (Cons a as)
  obtain x w1 where h: "ask env (Handle r a) w = (x, w1)" by fastforce
  obtain y w2 where s: "ask env (Retry_Sleep (retry_ceiling cfg a)) w1 = (y, w2)" by fastforce
  from Cons.prems h s ask_talks [OF h] ask_talks [OF s] show ?case
    by (auto split: answer.splits if_splits dest!: Cons.IH intro: talks_trans)
qed

lemma park_law:
  "park cfg env r a w = (d, w') \<Longrightarrow>
   talks w w' \<and> (d = Some ADVANCE \<longrightarrow> settled cfg (history w') r)"
proof -
  assume p: "park cfg env r a w = (d, w')"
  obtain x w1 where "ask env (Publish_Dlq r a) w = (x, w1)" by fastforce
  with p ask_talks [OF this] show ?thesis
    by (auto simp: park_def settled_def split: if_splits answer.splits)
qed

lemma handle_record_law:
  assumes "handle_record cfg env r w = (d, w')"
  shows "talks w w' \<and> (\<forall>b. d = Some (ADVANCE, b) \<longrightarrow> settled cfg (history w') r)"
proof -
  obtain p1 w1 where p: "park cfg env r 1 w = (p1, w1)" by fastforce
  obtain d2 w2 where d: "deliver cfg env r w = (d2, w2)" by fastforce
  obtain p3 w3 where q: "park cfg env r (max_attempts cfg) w2 = (p3, w3)" by fastforce
  from assms p d q park_law [OF p] park_law [OF q] deliver_attempts_law [OF d [unfolded deliver_def]]
  show ?thesis
    by (auto simp: handle_record_def settled_def split: decoded.splits delivery.splits
        intro: talks_trans)
qed

section \<open>One partition\<close>

lemma handle_partition_law:
  "handle_partition cfg env tp rs next_offset t w = (Some (next', t'), w') \<Longrightarrow>
   \<exists>done todo. rs = done @ todo \<and> (\<forall>r \<in> set done. settled cfg (history w') r) \<and>
     next' = (if done = [] then next_offset else Some (rec_offset (last done) + 1)) \<and>
     position w' = (case todo of [] \<Rightarrow> position w | r # _ \<Rightarrow> (position w)(tp := rec_offset r)) \<and>
     t_handled t' = t_handled t + length done \<and> t_blocked t' = t_blocked t + length todo \<and>
     t_commits t' = t_commits t \<and> t_routed t' \<le> t_routed t + length done \<and>
     committed w' = committed w \<and> later w w'"
proof (induction rs arbitrary: next_offset t w)
  case Nil
  then show ?case by auto
next
  case (Cons r rs)
  obtain x w1 where h: "handle_record cfg env r w = (x, w1)" by fastforce
  note law = handle_record_law [OF h]
  from Cons.prems h obtain d b where x: "x = Some (d, b)"
    by (auto split: option.splits)
  show ?case
  proof (cases d)
    case ADVANCE
    let ?t = "t\<lparr>t_handled := t_handled t + 1, t_routed := t_routed t + of_bool b\<rparr>"
    from Cons.prems h x ADVANCE
    have "handle_partition cfg env tp rs (Some (rec_offset r + 1)) ?t w1 = (Some (next', t'), w')"
      by simp
    from Cons.IH [OF this] obtain "done" todo where ih:
      "rs = done @ todo" "\<forall>r \<in> set done. settled cfg (history w') r"
      "next' = (if done = [] then Some (rec_offset r + 1) else Some (rec_offset (last done) + 1))"
      "position w' = (case todo of [] \<Rightarrow> position w1 | r # _ \<Rightarrow> (position w1)(tp := rec_offset r))"
      "t_handled t' = t_handled ?t + length done" "t_blocked t' = t_blocked ?t + length todo"
      "t_commits t' = t_commits ?t" "t_routed t' \<le> t_routed ?t + length done"
      "committed w' = committed w1" "later w1 w'" by blast
    from law x ADVANCE have w1: "talks w w1" "settled cfg (history w1) r" by auto
    show ?thesis
      by (rule exI [of _ "r # done"], rule exI [of _ todo])
        (use ih w1 settled_later [OF w1(2) ih(10)] in
          \<open>auto simp: talks_def of_bool_def intro: later_trans split: list.splits if_splits\<close>)
  next
    case BLOCK
    with Cons.prems h x have "w' = seek tp (rec_offset r) w1" "next' = next_offset"
      "t' = t\<lparr>t_blocked := t_blocked t + length (r # rs)\<rparr>" by auto
    with law show ?thesis
      by (intro exI [of _ "[]"] exI [of _ "r # rs"])
        (auto simp: talks_def intro: later_trans)
  qed
qed

lemma handle_partition_interrupted:
  "handle_partition cfg env tp rs next_offset t w = (None, w') \<Longrightarrow>
   later w w' \<and> position w' = position w \<and> committed w' = committed w"
proof (induction rs arbitrary: next_offset t w)
  case Nil
  then show ?case by simp
next
  case (Cons r rs)
  obtain x w1 where h: "handle_record cfg env r w = (x, w1)" by fastforce
  from Cons.prems h handle_record_law [OF h] show ?case
    by (auto simp: talks_def split: option.splits disposition.splits dest!: Cons.IH
        intro: later_trans)
qed

section \<open>One batch\<close>

text \<open>A prefix of the partition is settled and the rest begins at a given offset.\<close>

definition prefix_settled ::
  "consumer_config \<Rightarrow> (call \<times> answer) list \<Rightarrow> crec list \<Rightarrow> crec list \<Rightarrow> crec list \<Rightarrow> bool" where
  "prefix_settled cfg h rs done todo \<longleftrightarrow> rs = done @ todo \<and> (\<forall>r \<in> set done. settled cfg h r)"

lemma prefix_settled_later:
  "\<lbrakk>prefix_settled cfg (history w) rs done todo; later w w'\<rbrakk> \<Longrightarrow>
   prefix_settled cfg (history w') rs done todo"
  by (auto simp: prefix_settled_def intro: settled_later)

text \<open>What a commit of \<open>k\<close> for a partition of the batch claims.\<close>

definition commit_ok ::
  "consumer_config \<Rightarrow> (call \<times> answer) list \<Rightarrow> batch \<Rightarrow> topic_partition \<Rightarrow> int \<Rightarrow> bool" where
  "commit_ok cfg h batch tp k \<longleftrightarrow>
     (\<exists>rs done todo. (tp, rs) \<in> set batch \<and> prefix_settled cfg h rs done todo \<and> done \<noteq> [] \<and>
        k = rec_offset (last done) + 1)"

text \<open>Where the position of a partition of the batch is left after the loop.\<close>

definition position_ok ::
  "consumer_config \<Rightarrow> world \<Rightarrow> int \<Rightarrow> topic_partition \<Rightarrow> crec list \<Rightarrow> bool" where
  "position_ok cfg w k tp rs \<longleftrightarrow>
     (\<exists>done todo. prefix_settled cfg (history w) rs done todo \<and>
        position w tp = (case todo of [] \<Rightarrow> k | r # _ \<Rightarrow> rec_offset r))"

lemma commit_ok_later:
  "\<lbrakk>commit_ok cfg (history w) b tp k; later w w'\<rbrakk> \<Longrightarrow> commit_ok cfg (history w') b tp k"
  unfolding commit_ok_def using prefix_settled_later by metis

lemma position_ok_later:
  "\<lbrakk>position_ok cfg w k tp rs; later w w'; position w' tp = position w tp\<rbrakk> \<Longrightarrow>
   position_ok cfg w' k tp rs"
  unfolding position_ok_def using prefix_settled_later by metis

lemma commit_ok_Cons: "commit_ok cfg h rest tp k \<Longrightarrow> commit_ok cfg h (x # rest) tp k"
  by (auto simp: commit_ok_def)

lemma handle_batch_law:
  "handle_batch cfg env batch t w = (ok, t', w') \<Longrightarrow> distinct (map fst batch) \<Longrightarrow>
   later w w' \<and> committed w' = committed w \<and>
   (\<forall>tp. tp \<notin> fst ` set batch \<longrightarrow> position w' tp = position w tp) \<and>
   (ok \<longrightarrow> (\<forall>(tp, rs) \<in> set batch. position_ok cfg w' (position w tp) tp rs)) \<and>
   (\<exists>new. t_commits t' = t_commits t @ new \<and>
      (\<forall>(tp, k) \<in> set new. commit_ok cfg (history w') batch tp k)) \<and>
   (ok \<longrightarrow> t_handled t' + t_blocked t' =
      t_handled t + t_blocked t + sum_list (map (length \<circ> snd) batch)) \<and>
   (t_routed t \<le> t_handled t \<longrightarrow> t_routed t' \<le> t_handled t')"
proof (induction batch arbitrary: t w)
  case Nil
  then show ?case by auto
next
  case (Cons item rest)
  obtain tp rs where item: "item = (tp, rs)" by fastforce
  from Cons.prems(2) item have dist: "distinct (map fst rest)" "tp \<notin> fst ` set rest" by auto
  obtain p w1 where hp: "handle_partition cfg env tp rs None t w = (p, w1)" by fastforce
  show ?case
  proof (cases p)
    case None
    with Cons.prems(1) hp item have "w' = w1" "t' = t" "\<not> ok" by auto
    with handle_partition_interrupted [OF hp [unfolded None]] show ?thesis by auto
  next
    case (Some q)
    then obtain nxt t1 where p: "p = Some (nxt, t1)" by (cases q) auto
    let ?t2 = "case nxt of None \<Rightarrow> t1 | Some k \<Rightarrow> t1\<lparr>t_commits := t_commits t1 @ [(tp, k)]\<rparr>"
    from handle_partition_law [OF hp [unfolded p]] obtain "done" todo where law:
      "rs = done @ todo" "\<forall>r \<in> set done. settled cfg (history w1) r"
      "nxt = (if done = [] then None else Some (rec_offset (last done) + 1))"
      "position w1 = (case todo of [] \<Rightarrow> position w | r # _ \<Rightarrow> (position w)(tp := rec_offset r))"
      "t_handled t1 = t_handled t + length done" "t_blocked t1 = t_blocked t + length todo"
      "t_commits t1 = t_commits t" "t_routed t1 \<le> t_routed t + length done"
      "committed w1 = committed w" "later w w1" by blast
    have hb: "handle_batch cfg env rest ?t2 w1 = (ok, t', w')"
      using Cons.prems(1) hp item p by (auto split: option.splits)
    note ih = Cons.IH [OF hb dist(1)]
    have others: "position w1 a = position w a" if "a \<noteq> tp" for a
      using law(4) that by (auto split: list.splits)
    have same: "position w' tp = position w1 tp" using ih dist(2) by blast
    have pre: "prefix_settled cfg (history w1) rs done todo"
      using law(1,2) by (simp add: prefix_settled_def)
    have "position_ok cfg w1 (position w tp) tp rs"
      unfolding position_ok_def using pre law(4) by (intro exI conjI) (auto split: list.splits)
    with ih same have pos: "position_ok cfg w' (position w tp) tp rs"
      by (blast intro: position_ok_later)
    have "commit_ok cfg (history w1) (item # rest) tp k" if "nxt = Some k" for k
      using that law(3) pre item by (auto simp: commit_ok_def split: if_splits)
    with ih have com: "commit_ok cfg (history w') (item # rest) tp k" if "nxt = Some k" for k
      using that by (blast intro: commit_ok_later)
    have posrest: "position_ok cfg w' (position w a) a x" if "ok" "(a, x) \<in> set rest" for a x
    proof -
      from that dist(2) have "a \<noteq> tp" by force
      from ih \<open>ok\<close> have "\<forall>(tp, rs) \<in> set rest. position_ok cfg w' (position w1 tp) tp rs" by blast
      with that(2) have "position_ok cfg w' (position w1 a) a x" by blast
      with others [OF \<open>a \<noteq> tp\<close>] show ?thesis by simp
    qed
    from ih obtain new where new: "t_commits t' = t_commits ?t2 @ new"
      "\<forall>(a, k) \<in> set new. commit_ok cfg (history w') rest a k" by blast
    have "\<exists>new. t_commits t' = t_commits t @ new \<and>
      (\<forall>(a, k) \<in> set new. commit_ok cfg (history w') (item # rest) a k)"
    proof (cases nxt)
      case None
      with new law(7) show ?thesis by (auto intro: commit_ok_Cons)
    next
      case (Some k)
      with new law(7) com show ?thesis by (intro exI [of _ "(tp, k) # new"]) (auto intro: commit_ok_Cons)
    qed
    moreover have "later w w'" "committed w' = committed w" using ih law(9,10) later_trans by auto
    moreover have "\<forall>a. a \<notin> fst ` set (item # rest) \<longrightarrow> position w' a = position w a"
      using ih others item by auto
    moreover have "ok \<longrightarrow> (\<forall>(a, x) \<in> set (item # rest). position_ok cfg w' (position w a) a x)"
      using pos posrest item by auto
    moreover have sel: "t_handled ?t2 = t_handled t1" "t_blocked ?t2 = t_blocked t1"
      "t_routed ?t2 = t_routed t1" by (simp_all split: option.splits)
    moreover have "ok \<longrightarrow> t_handled t' + t_blocked t' =
        t_handled t + t_blocked t + sum_list (map (length \<circ> snd) (item # rest))"
    proof -
      from ih have "ok \<longrightarrow> t_handled t' + t_blocked t' =
        t_handled ?t2 + t_blocked ?t2 + sum_list (map (length \<circ> snd) rest)" by blast
      with sel law(1,5,6) item show ?thesis by simp
    qed
    moreover have "t_routed t \<le> t_handled t \<longrightarrow> t_routed t' \<le> t_handled t'"
    proof -
      from ih have "t_routed ?t2 \<le> t_handled ?t2 \<longrightarrow> t_routed t' \<le> t_handled t'" by blast
      with sel law(5,8) show ?thesis by simp
    qed
    ultimately show ?thesis by blast
  qed
qed

lemma rewind_law:
  "distinct (map fst batch) \<Longrightarrow>
   later w (rewind batch commits w) \<and> committed (rewind batch commits w) = committed w \<and>
   (\<forall>tp. tp \<notin> fst ` set batch \<longrightarrow> position (rewind batch commits w) tp = position w tp) \<and>
   (\<forall>tp r rs. (tp, r # rs) \<in> set batch \<longrightarrow> position (rewind batch commits w) tp =
      (case map_of commits tp of None \<Rightarrow> rec_offset r | Some k \<Rightarrow> k))"
proof (induction batch arbitrary: w)
  case Nil
  then show ?case by simp
next
  case (Cons item rest)
  obtain tp rs where item: "item = (tp, rs)" by fastforce
  from Cons.prems item have d: "distinct (map fst rest)" "tp \<notin> fst ` set rest" by auto
  show ?case
  proof (cases rs)
    case Nil
    with Cons.IH [OF d(1), of w] item show ?thesis by simp
  next
    case (Cons r rs')
    let ?k = "case map_of commits tp of None \<Rightarrow> rec_offset r | Some k \<Rightarrow> k"
    have eq: "rewind (item # rest) commits w = rewind rest commits (seek tp ?k w)"
      using Cons item by simp
    note ih = Cons.IH [OF d(1), of "seek tp ?k w"]
    have "later w (rewind (item # rest) commits w)"
      using ih eq later_trans [OF seek_sel(1) [of w tp ?k]] by simp
    moreover have "position (rewind (item # rest) commits w) a =
        (case map_of commits a of None \<Rightarrow> rec_offset x | Some k \<Rightarrow> k)"
      if "(a, x # xs) \<in> set (item # rest)" for a x xs
    proof (cases "a = tp")
      case True
      with that d(2) item Cons have "x = r" by force
      moreover from ih d(2) have "position (rewind rest commits (seek tp ?k w)) tp =
          position (seek tp ?k w) tp" by blast
      ultimately show ?thesis using True eq by (simp split: option.splits)
    next
      case False
      with that item have "(a, x # xs) \<in> set rest" by simp
      with ih have "position (rewind rest commits (seek tp ?k w)) a =
          (case map_of commits a of None \<Rightarrow> rec_offset x | Some k \<Rightarrow> k)" by blast
      with eq show ?thesis by (simp only:)
    qed
    moreover have "committed (rewind (item # rest) commits w) = committed w"
      using ih eq by simp
    moreover have "position (rewind (item # rest) commits w) a = position w a"
      if "a \<notin> fst ` set (item # rest)" for a
    proof -
      from that item have "a \<notin> fst ` set rest" "a \<noteq> tp" by auto
      with ih have "position (rewind rest commits (seek tp ?k w)) a = position (seek tp ?k w) a"
        by blast
      with \<open>a \<noteq> tp\<close> eq show ?thesis by simp
    qed
    ultimately show ?thesis by blast
  qed
qed

text \<open>Offsets grow along the records of a partition.\<close>

definition in_order :: "crec list \<Rightarrow> bool" where
  "in_order rs \<longleftrightarrow> sorted_wrt (<) (map rec_offset rs)"

text \<open>Every record of \<open>rs\<close> below \<open>k\<close> is settled.\<close>

definition settled_below :: "consumer_config \<Rightarrow> (call \<times> answer) list \<Rightarrow> crec list \<Rightarrow> int \<Rightarrow> bool" where
  "settled_below cfg h rs k \<longleftrightarrow> (\<forall>r \<in> set rs. rec_offset r < k \<longrightarrow> settled cfg h r)"

lemma settled_below_prefix:
  assumes "in_order rs" "prefix_settled cfg h rs done (r # todo)"
  shows "settled_below cfg h rs (rec_offset r)"
  using assms by (fastforce simp: settled_below_def prefix_settled_def in_order_def sorted_wrt_append)

lemma settled_below_last:
  assumes "in_order rs" "prefix_settled cfg h rs done todo" "done \<noteq> []"
  shows "settled_below cfg h rs (rec_offset (last done) + 1)"
proof -
  from assms(3) have "last done \<in> set done" by simp
  with assms(1,2) have "\<forall>r \<in> set todo. rec_offset (last done) < rec_offset r"
    by (auto simp: prefix_settled_def in_order_def sorted_wrt_append)
  with assms(2) show ?thesis by (fastforce simp: settled_below_def prefix_settled_def)
qed

lemma settled_below_first: "in_order (r # rs) \<Longrightarrow> settled_below cfg h (r # rs) (rec_offset r)"
  by (fastforce simp: settled_below_def in_order_def)

lemma position_ok_below:
  assumes "in_order rs" "position_ok cfg w k tp rs"
  shows "settled_below cfg (history w) rs (position w tp)"
proof -
  obtain "done" todo where p: "prefix_settled cfg (history w) rs done todo"
    "position w tp = (case todo of [] \<Rightarrow> k | r # _ \<Rightarrow> rec_offset r)"
    using assms(2) unfolding position_ok_def by blast
  show ?thesis
  proof (cases todo)
    case Nil
    with p show ?thesis by (auto simp: prefix_settled_def settled_below_def)
  next
    case (Cons r rs')
    with p settled_below_prefix [OF assms(1), of cfg "history w" "done" r rs'] show ?thesis by simp
  qed
qed

lemma commit_ok_below:
  assumes "commit_ok cfg h batch tp k" "distinct (map fst batch)" "(tp, rs) \<in> set batch" "in_order rs"
  shows "settled_below cfg h rs k"
proof -
  obtain rs' "done" todo where c: "(tp, rs') \<in> set batch" "prefix_settled cfg h rs' done todo"
    "done \<noteq> []" "k = rec_offset (last done) + 1"
    using assms(1) unfolding commit_ok_def by blast
  from c(1) assms(2,3) have "rs' = rs" by (metis eq_key_imp_eq_value)
  with c settled_below_last [OF assms(4), of cfg h "done" todo] show ?thesis by simp
qed

lemma settled_below_later:
  "\<lbrakk>settled_below cfg (history w) rs k; later w w'\<rbrakk> \<Longrightarrow> settled_below cfg (history w') rs k"
  by (auto simp: settled_below_def intro: settled_later)

definition commits_ok ::
  "consumer_config \<Rightarrow> (call \<times> answer) list \<Rightarrow> batch \<Rightarrow> (topic_partition \<times> int) list \<Rightarrow> bool" where
  "commits_ok cfg h batch commits \<longleftrightarrow> (\<forall>(tp, k) \<in> set commits. commit_ok cfg h batch tp k)"

lemma commits_ok_later:
  "\<lbrakk>commits_ok cfg (history w) b commits; later w w'\<rbrakk> \<Longrightarrow> commits_ok cfg (history w') b commits"
  by (auto simp: commits_ok_def intro: commit_ok_later)

lemma rewind_below:
  assumes "distinct (map fst batch)" "commits_ok cfg (history w) batch commits"
    and "(tp, rs) \<in> set batch" "in_order rs"
  shows "settled_below cfg (history w) rs (position (rewind batch commits w) tp)"
proof (cases rs)
  case Nil
  then show ?thesis by (simp add: settled_below_def)
next
  case (Cons r rs')
  with rewind_law [OF assms(1), of w commits] assms(3)
  have pos: "position (rewind batch commits w) tp =
      (case map_of commits tp of None \<Rightarrow> rec_offset r | Some k \<Rightarrow> k)" by blast
  show ?thesis
  proof (cases "map_of commits tp")
    case None
    with pos Cons assms(4) settled_below_first show ?thesis by simp
  next
    case (Some k)
    then have "commit_ok cfg (history w) batch tp k"
      using assms(2) by (auto simp: commits_ok_def dest: map_of_SomeD)
    with commit_ok_below [OF this assms(1,3,4)] pos Some show ?thesis by simp
  qed
qed

section \<open>The cycle\<close>

definition start_tally :: tally where
  "start_tally = \<lparr>t_handled = 0, t_routed = 0, t_blocked = 0, t_commits = []\<rparr>"

text \<open>The five ways a cycle over a non-empty batch ends, before the partitions resume.\<close>

definition cycle_end ::
  "batch \<Rightarrow> bool \<Rightarrow> tally \<Rightarrow> world \<Rightarrow> batch_outcome option \<Rightarrow> world \<Rightarrow> bool" where
  "cycle_end batch ok t w1 out w3 \<longleftrightarrow>
     (\<not> ok \<and> out = None \<and> w3 = rewind batch (t_commits t) w1)
     \<or> (ok \<and> t_commits t = [] \<and> w3 = w1 \<and> out \<noteq> None)
     \<or> (\<exists>w2. ok \<and> talks w1 w2 \<and> out \<noteq> None \<and>
          w3 = w2\<lparr>committed := committed w2 ++ map_of (t_commits t)\<rparr>)
     \<or> (\<exists>w2. ok \<and> talks w1 w2 \<and> out \<noteq> None \<and> w3 = rewind batch [] w2)
     \<or> (\<exists>w2. ok \<and> talks w1 w2 \<and> out = None \<and> w3 = rewind batch (t_commits t) w2)"

lemma run_once_cases:
  assumes "run_once cfg env batch w = (out, w')" "batch \<noteq> []"
  obtains ok t w1 w3 where
    "handle_batch cfg env batch start_tally (tell (Pause (map fst batch)) w) = (ok, t, w1)"
    "w' = tell (Resume (map fst batch)) w3"
    "cycle_end batch ok t w1 out w3"
    "\<forall>o'. out = Some o' \<longrightarrow> ok \<and> fetched o' = sum_list (map (length \<circ> snd) batch) \<and>
       handled o' = t_handled t \<and> blocked_count o' = t_blocked t \<and> dlq_routed o' = t_routed t"
proof -
  obtain ok t w1 where
    hb: "handle_batch cfg env batch start_tally (tell (Pause (map fst batch)) w) = (ok, t, w1)"
    by (metis prod_cases3)
  obtain a w2 where cm: "ask env (Commit (t_commits t)) w1 = (a, w2)" by fastforce
  note tk = ask_talks [OF cm]
  show ?thesis
  proof (cases "ok \<and> t_commits t \<noteq> []")
    case False
    with assms hb show ?thesis
      by (cases ok)
        (auto simp: run_once_def Let_def start_tally_def cycle_end_def intro!: that [OF hb])
  next
    case True
    with assms hb cm tk show ?thesis
      by (cases a) (auto simp: run_once_def Let_def start_tally_def commit_def cycle_end_def
          intro!: that [OF hb])
  qed
qed

lemma run_once_law:
  assumes run: "run_once cfg env batch w = (out, w')" and dist: "distinct (map fst batch)"
  shows "later w w'"
    and "tp \<notin> fst ` set batch \<Longrightarrow> position w' tp = position w tp"
    and "committed w' tp = Some c \<Longrightarrow>
           committed w tp = Some c \<or> commit_ok cfg (history w') batch tp c"
    and "\<lbrakk>(tp, rs) \<in> set batch; in_order rs\<rbrakk> \<Longrightarrow>
           settled_below cfg (history w') rs (position w' tp)"
proof -
  have "later w w' \<and> (tp \<notin> fst ` set batch \<longrightarrow> position w' tp = position w tp) \<and>
    (committed w' tp = Some c \<longrightarrow> committed w tp = Some c \<or> commit_ok cfg (history w') batch tp c) \<and>
    ((tp, rs) \<in> set batch \<and> in_order rs \<longrightarrow> settled_below cfg (history w') rs (position w' tp))"
  proof (cases "batch = []")
    case True
    with run show ?thesis by (simp add: run_once_def)
  next
    case False
    let ?w0 = "tell (Pause (map fst batch)) w"
    obtain ok t w1 w3 where hb: "handle_batch cfg env batch start_tally ?w0 = (ok, t, w1)"
      and w': "w' = tell (Resume (map fst batch)) w3"
      and ways: "cycle_end batch ok t w1 out w3"
      by (rule run_once_cases [OF run False])
    note law = handle_batch_law [OF hb dist]
    from law have "\<forall>tp. tp \<notin> fst ` set batch \<longrightarrow> position w1 tp = position ?w0 tp" by blast
    then have base: "later w w1" "committed w1 = committed w"
      "tp \<notin> fst ` set batch \<Longrightarrow> position w1 tp = position w tp"
      using law later_trans [OF tell_sel(1), of "Pause (map fst batch)" w w1]
      by (simp, simp, metis tell_sel(2))
    have com: "commits_ok cfg (history w1) batch (t_commits t)"
      using law by (auto simp: commits_ok_def start_tally_def)
    have below: "settled_below cfg (history w1) rs (position w1 tp)"
      if ok "(tp, rs) \<in> set batch" "in_order rs"
    proof -
      from law \<open>ok\<close> have "\<forall>(tp, rs) \<in> set batch. position_ok cfg w1 (position ?w0 tp) tp rs" by blast
      with that(2) have "position_ok cfg w1 (position ?w0 tp) tp rs" by blast
      with position_ok_below [OF that(3)] show ?thesis by blast
    qed
    have rew: "later w (rewind batch cs v) \<and>
        (tp \<notin> fst ` set batch \<longrightarrow> position (rewind batch cs v) tp = position w tp) \<and>
        committed (rewind batch cs v) = committed w \<and>
        ((tp, rs) \<in> set batch \<and> in_order rs \<longrightarrow>
          settled_below cfg (history (rewind batch cs v)) rs (position (rewind batch cs v) tp))"
      if v: "talks w1 v" and cs: "commits_ok cfg (history v) batch cs" for v cs
    proof -
      note r = rewind_law [OF dist, of v cs]
      have "later w v" using base(1) v by (auto simp: talks_def intro: later_trans)
      with r have "later w (rewind batch cs v)" by (blast intro: later_trans)
      moreover have "settled_below cfg (history (rewind batch cs v)) rs (position (rewind batch cs v) tp)"
        if "(tp, rs) \<in> set batch" "in_order rs"
        using rewind_below [OF dist cs that] r by (blast intro: settled_below_later)
      moreover have "position v = position w1" "committed v = committed w1"
        using v by (simp_all add: talks_def)
      moreover from r have "tp \<notin> fst ` set batch \<longrightarrow> position (rewind batch cs v) tp = position v tp"
        "committed (rewind batch cs v) = committed v" by blast+
      ultimately show ?thesis using base(2,3) by auto
    qed
    have com2: "commits_ok cfg (history v) batch (t_commits t)" if "talks w1 v" for v
      using com that by (auto simp: talks_def intro: commits_ok_later)
    have nil: "commits_ok cfg h batch []" for h by (simp add: commits_ok_def)
    have fin: "?thesis" if s: "later w w3" "tp \<notin> fst ` set batch \<longrightarrow> position w3 tp = position w tp"
      "committed w3 tp = Some c \<longrightarrow> committed w tp = Some c \<or> commit_ok cfg (history w3) batch tp c"
      "(tp, rs) \<in> set batch \<and> in_order rs \<longrightarrow> settled_below cfg (history w3) rs (position w3 tp)"
      using s w' commit_ok_later [of cfg w3 batch tp c w'] settled_below_later [of cfg w3 rs _ w']
        later_trans [of w w3 w'] by auto
    from ways [unfolded cycle_end_def] show ?thesis
    proof (elim disjE exE conjE)
      assume "w3 = rewind batch (t_commits t) w1"
      with rew [OF talks_refl com] show ?thesis by (intro fin) auto
    next
      assume "ok" "w3 = w1"
      with base below show ?thesis by (intro fin) auto
    next
      fix w2 assume "ok" "talks w1 w2"
        and w3: "w3 = w2\<lparr>committed := committed w2 ++ map_of (t_commits t)\<rparr>"
      then have s: "position w3 = position w1" "history w3 = history w2" "later w1 w2"
        "committed w2 = committed w" using base(2) by (auto simp: talks_def)
      have "later w w3" using base(1) s(2,3) by (auto simp: later_def)
      moreover have "settled_below cfg (history w3) rs (position w3 tp)"
        if "(tp, rs) \<in> set batch" "in_order rs"
        using below [OF \<open>ok\<close> that] s by (auto intro: settled_below_later)
      moreover have "committed w tp = Some c \<or> commit_ok cfg (history w3) batch tp c"
        if "committed w3 tp = Some c"
        using that w3 s com2 [OF \<open>talks w1 w2\<close>]
        by (auto simp: commits_ok_def map_add_Some_iff dest!: map_of_SomeD)
      ultimately show ?thesis using base(3) s(1) by (intro fin) auto
    next
      fix w2 assume "talks w1 w2" "w3 = rewind batch [] w2"
      with rew [OF \<open>talks w1 w2\<close> nil] show ?thesis by (intro fin) auto
    next
      fix w2 assume "talks w1 w2" "w3 = rewind batch (t_commits t) w2"
      with rew [OF \<open>talks w1 w2\<close> com2] show ?thesis by (intro fin) auto
    qed
  qed
  then show "later w w'" "tp \<notin> fst ` set batch \<Longrightarrow> position w' tp = position w tp"
    "committed w' tp = Some c \<Longrightarrow> committed w tp = Some c \<or> commit_ok cfg (history w') batch tp c"
    "\<lbrakk>(tp, rs) \<in> set batch; in_order rs\<rbrakk> \<Longrightarrow> settled_below cfg (history w') rs (position w' tp)"
    by auto
qed

text \<open>A cycle never moves a position past what it fetched.\<close>

definition stays_within :: "world \<Rightarrow> int \<Rightarrow> topic_partition \<Rightarrow> crec list \<Rightarrow> bool" where
  "stays_within w k tp rs \<longleftrightarrow> position w tp = k \<or> (\<exists>r \<in> set rs. position w tp \<le> rec_offset r + 1)"

lemma position_ok_within:
  assumes "position_ok cfg w k tp rs"
  shows "stays_within w k tp rs"
proof -
  obtain "done" todo where p: "rs = done @ todo"
    "position w tp = (case todo of [] \<Rightarrow> k | r # _ \<Rightarrow> rec_offset r)"
    using assms unfolding position_ok_def prefix_settled_def by blast
  show ?thesis
  proof (cases todo)
    case (Cons r todo')
    with p have "r \<in> set rs" "position w tp \<le> rec_offset r + 1" by auto
    then show ?thesis by (auto simp: stays_within_def)
  qed (use p in \<open>simp add: stays_within_def\<close>)
qed

lemma rewind_stays:
  assumes "distinct (map fst batch)" "commits_ok cfg h batch cs" "(tp, rs) \<in> set batch" "rs \<noteq> []"
  shows "stays_within (rewind batch cs v) k tp rs"
proof -
  obtain r rs' where rs: "rs = r # rs'" using assms(4) by (cases rs) auto
  with rewind_law [OF assms(1), of v cs] assms(3)
  have pos: "position (rewind batch cs v) tp =
      (case map_of cs tp of None \<Rightarrow> rec_offset r | Some k \<Rightarrow> k)" by blast
  show ?thesis
  proof (cases "map_of cs tp")
    case None
    with pos rs show ?thesis by (auto simp: stays_within_def)
  next
    case (Some x)
    then have "commit_ok cfg h batch tp x" using assms(2) by (auto simp: commits_ok_def dest: map_of_SomeD)
    then obtain rs2 "done" todo where c: "(tp, rs2) \<in> set batch" "rs2 = done @ todo" "done \<noteq> []"
      "x = rec_offset (last done) + 1" unfolding commit_ok_def prefix_settled_def by blast
    then have "rs2 = rs" using assms(1,3) by (metis eq_key_imp_eq_value)
    with c have "last done \<in> set rs" by auto
    with c pos Some show ?thesis by (auto simp: stays_within_def)
  qed
qed

lemma run_once_within:
  assumes run: "run_once cfg env batch w = (out, w')" and dist: "distinct (map fst batch)"
    and mem: "(tp, rs) \<in> set batch" "rs \<noteq> []"
  shows "stays_within w' (position w tp) tp rs"
proof -
  from mem have False: "batch \<noteq> []" by auto
  let ?w0 = "tell (Pause (map fst batch)) w"
  obtain ok t w1 w3 where hb: "handle_batch cfg env batch start_tally ?w0 = (ok, t, w1)"
    and w': "w' = tell (Resume (map fst batch)) w3" and ways: "cycle_end batch ok t w1 out w3"
    by (rule run_once_cases [OF run False])
  note law = handle_batch_law [OF hb dist]
  have com: "commits_ok cfg (history w1) batch (t_commits t)"
    using law by (auto simp: commits_ok_def start_tally_def)
  have nil: "commits_ok cfg h batch []" for h by (simp add: commits_ok_def)
  have keep: "stays_within w1 (position w tp) tp rs" if ok
  proof -
    from law that have "\<forall>(tp, rs) \<in> set batch. position_ok cfg w1 (position ?w0 tp) tp rs" by blast
    with mem(1) have "position_ok cfg w1 (position ?w0 tp) tp rs" by blast
    with position_ok_within show ?thesis by fastforce
  qed
  have "stays_within w3 (position w tp) tp rs"
    using ways [unfolded cycle_end_def]
  proof (elim disjE exE conjE)
    fix w2 assume "ok" "talks w1 w2" "w3 = w2\<lparr>committed := committed w2 ++ map_of (t_commits t)\<rparr>"
    then show ?thesis using keep by (simp add: stays_within_def talks_def)
  qed (use keep rewind_stays [OF dist com mem] rewind_stays [OF dist nil mem] in auto)
  then show ?thesis using w' by (simp add: stays_within_def)
qed

section \<open>The claims\<close>

text \<open>
  C7. A cycle loses no message (\<open>EventConsumer.run_once\<close>). Whatever the handler, the DLQ
  and the broker do, and wherever a cancellation strikes, a message of the batch that was
  neither handled nor parked, and is not a message of the DLQ, stays at or above both the
  fetch position and the committed offset of its partition: it will be delivered again in
  this process and after a restart.
\<close>

theorem run_once_loses_nothing:
  assumes "run_once cfg env batch w = (out, w')" and "distinct (map fst batch)"
    and "(tp, rs) \<in> set batch" and "in_order rs" and "r \<in> set rs"
    and "\<And>c. committed w tp = Some c \<Longrightarrow> c \<le> rec_offset r"
    and "\<not> settled cfg (history w') r"
  shows "position w' tp \<le> rec_offset r
       \<and> (case committed w' tp of None \<Rightarrow> True | Some c \<Rightarrow> c \<le> rec_offset r)"
proof -
  note law = run_once_law [OF assms(1,2)]
  from law(4) [OF assms(3,4)] assms(5,7) have "position w' tp \<le> rec_offset r"
    by (force simp: settled_below_def)
  moreover have "c \<le> rec_offset r" if "committed w' tp = Some c" for c
    using law(3) [OF that] assms(6)
  proof
    assume "commit_ok cfg (history w') batch tp c"
    from commit_ok_below [OF this assms(2-4)] assms(5,7) show ?thesis
      by (force simp: settled_below_def)
  qed
  ultimately show ?thesis by (simp split: option.splits)
qed

text \<open>
  The counters of a batch add up (\<open>BatchOutcome\<close>). A cycle that returns has counted
  every fetched message once, as handled or as blocked, and no more were routed to the
  DLQ than handled.
\<close>

theorem batch_outcome_adds_up:
  assumes "run_once cfg env batch w = (Some o', w')" and "distinct (map fst batch)"
  shows "handled o' + blocked_count o' = fetched o' \<and> dlq_routed o' \<le> handled o'
       \<and> fetched o' = sum_list (map (length \<circ> snd) batch)"
proof (cases "batch = []")
  case True
  with assms show ?thesis by (auto simp: run_once_def empty_outcome_def)
next
  case False
  obtain ok t w1 w3 where
    hb: "handle_batch cfg env batch start_tally (tell (Pause (map fst batch)) w) = (ok, t, w1)"
    and "w' = tell (Resume (map fst batch)) w3" "cycle_end batch ok t w1 (Some o') w3"
    and o': "\<forall>x. Some o' = Some x \<longrightarrow> ok \<and> fetched x = sum_list (map (length \<circ> snd) batch) \<and>
       handled x = t_handled t \<and> blocked_count x = t_blocked t \<and> dlq_routed x = t_routed t"
    by (rule run_once_cases [OF assms(1) False])
  from handle_batch_law [OF hb assms(2)] o' show ?thesis by (simp add: start_tally_def)
qed

section \<open>The life of a consumer\<close>

text \<open>
  The records of each partition, in order. What the client documents of a fetch: for each
  partition a run of consecutive records from the position on, after which the position
  is behind the last of them. A restart or a rebalance puts a position back to the
  committed offset, or to the start of the log where nothing was committed.
\<close>

definition fetched_from :: "(topic_partition \<Rightarrow> crec list) \<Rightarrow> world \<Rightarrow> batch \<Rightarrow> bool" where
  "fetched_from plog w batch \<longleftrightarrow> distinct (map fst batch) \<and>
     (\<forall>(tp, rs) \<in> set batch. rs \<noteq> [] \<and>
        (\<exists>pre post. plog tp = pre @ rs @ post \<and> (\<forall>r \<in> set pre. rec_offset r < position w tp)))"

definition advance :: "batch \<Rightarrow> world \<Rightarrow> world" where
  "advance batch w = w\<lparr>position := (\<lambda>tp. case map_of batch tp of
       None \<Rightarrow> position w tp | Some rs \<Rightarrow> rec_offset (last rs) + 1)\<rparr>"

inductive consumer_life ::
  "consumer_config \<Rightarrow> (topic_partition \<Rightarrow> crec list) \<Rightarrow> world \<Rightarrow> world \<Rightarrow> bool"
  for cfg plog w0 where
  born: "consumer_life cfg plog w0 w0"
| cycle: "\<lbrakk>consumer_life cfg plog w0 w; fetched_from plog w batch;
     run_once cfg env batch (advance batch w) = (out, w')\<rbrakk> \<Longrightarrow> consumer_life cfg plog w0 w'"
| rebalance: "\<lbrakk>consumer_life cfg plog w0 w;
     k = (case committed w tp of Some c \<Rightarrow> c | None \<Rightarrow> 0)\<rbrakk> \<Longrightarrow>
     consumer_life cfg plog w0 (w\<lparr>position := (position w)(tp := k)\<rparr>)"

definition nothing_lost ::
  "consumer_config \<Rightarrow> (topic_partition \<Rightarrow> crec list) \<Rightarrow> world \<Rightarrow> bool" where
  "nothing_lost cfg plog w \<longleftrightarrow>
     (\<forall>tp. settled_below cfg (history w) (plog tp) (position w tp) \<and>
        (\<forall>c. committed w tp = Some c \<longrightarrow> settled_below cfg (history w) (plog tp) c))"

definition partition_log :: "(topic_partition \<Rightarrow> crec list) \<Rightarrow> bool" where
  "partition_log plog \<longleftrightarrow> (\<forall>tp. in_order (plog tp) \<and> (\<forall>r \<in> set (plog tp). 0 \<le> rec_offset r))"

lemma advance_sel [simp]:
  "history (advance batch w) = history w" "committed (advance batch w) = committed w"
  "later (advance batch w) w' = later w w'"
  by (simp_all add: advance_def later_def)

lemma advance_position:
  "\<lbrakk>distinct (map fst batch); (tp, rs) \<in> set batch\<rbrakk> \<Longrightarrow>
   position (advance batch w) tp = rec_offset (last rs) + 1"
  by (simp add: advance_def)

lemma in_order_append: "in_order (xs @ ys) \<Longrightarrow>
  in_order xs \<and> in_order ys \<and> (\<forall>x \<in> set xs. \<forall>y \<in> set ys. rec_offset x < rec_offset y)"
  by (auto simp: in_order_def sorted_wrt_append)

lemma in_order_last: "\<lbrakk>in_order rs; r \<in> set rs\<rbrakk> \<Longrightarrow> rec_offset r \<le> rec_offset (last rs)"
  by (induction rs) (auto simp: in_order_def less_imp_le)

lemma settled_below_segment:
  assumes "plog' = pre @ rs @ post" "in_order plog'" "rs \<noteq> []"
    and "settled_below cfg h rs k" "\<forall>r \<in> set pre. settled cfg h r" "k \<le> rec_offset (last rs) + 1"
  shows "settled_below cfg h plog' k"
proof -
  have "rec_offset (last rs) < rec_offset y" if "y \<in> set post" for y
    using in_order_append [of "pre @ rs" post] assms(1-3) that by auto
  with assms(4-6) show ?thesis by (fastforce simp: assms(1) settled_below_def)
qed

lemma cycle_loses_nothing:
  assumes inv: "nothing_lost cfg plog w" and plog: "partition_log plog"
    and f: "fetched_from plog w batch" and run: "run_once cfg env batch (advance batch w) = (out, w')"
  shows "nothing_lost cfg plog w'"
proof -
  from f have dist: "distinct (map fst batch)" by (simp add: fetched_from_def)
  note law = run_once_law [OF run dist]
  from law(1) have lw: "later w w'" by simp
  have old: "settled_below cfg (history w') (plog tp) (position w tp)"
    "committed w tp = Some c \<Longrightarrow> settled_below cfg (history w') (plog tp) c" for tp c
    using inv [unfolded nothing_lost_def, rule_format, of tp] lw by (blast intro: settled_below_later)+
  have seg: "\<exists>pre post. plog tp = pre @ rs @ post \<and> rs \<noteq> [] \<and> in_order (plog tp) \<and> in_order rs \<and>
      (\<forall>r \<in> set pre. settled cfg (history w') r)" if "(tp, rs) \<in> set batch" for tp rs
  proof -
    from f that obtain pre post where p: "plog tp = pre @ rs @ post" "rs \<noteq> []"
      "\<forall>r \<in> set pre. rec_offset r < position w tp" by (fastforce simp: fetched_from_def)
    have "in_order (plog tp)" using plog [unfolded partition_log_def] by blast
    with p(1) have "in_order rs" using in_order_append by metis
    with p \<open>in_order (plog tp)\<close> old(1) [of tp] show ?thesis
      by (intro exI [of _ pre] exI [of _ post]) (auto simp: settled_below_def)
  qed
  have "settled_below cfg (history w') (plog tp) (position w' tp)" for tp
  proof (cases "tp \<in> fst ` set batch")
    case False
    then have "position w' tp = position w tp"
      using law(2) by (simp add: advance_def map_of_eq_None_iff [THEN iffD2])
    with old(1) [of tp] show ?thesis by simp
  next
    case True
    then obtain rs where m: "(tp, rs) \<in> set batch" by force
    from seg [OF this] obtain pre post where s: "plog tp = pre @ rs @ post" "rs \<noteq> []"
      "in_order (plog tp)" "in_order rs" "\<forall>r \<in> set pre. settled cfg (history w') r" by blast
    have "rec_offset r \<le> rec_offset (last rs)" if "r \<in> set rs" for r
      using in_order_last [OF s(4) that] .
    moreover have "stays_within w' (rec_offset (last rs) + 1) tp rs"
      using run_once_within [OF run dist m s(2)] advance_position [OF dist m] by simp
    ultimately have "position w' tp \<le> rec_offset (last rs) + 1" by (fastforce simp: stays_within_def)
    with settled_below_segment [OF s(1,3,2) law(4) [OF m s(4)] s(5)] show ?thesis by simp
  qed
  moreover have "settled_below cfg (history w') (plog tp) c" if c: "committed w' tp = Some c" for tp c
    using law(3) [OF c]
  proof
    assume "committed (advance batch w) tp = Some c"
    with old(2) show ?thesis by simp
  next
    assume ok: "commit_ok cfg (history w') batch tp c"
    then obtain rs "done" todo where k: "(tp, rs) \<in> set batch" "rs = done @ todo" "done \<noteq> []"
      "c = rec_offset (last done) + 1" by (auto simp: commit_ok_def prefix_settled_def)
    from seg [OF k(1)] obtain pre post where s: "plog tp = pre @ rs @ post" "rs \<noteq> []"
      "in_order (plog tp)" "in_order rs" "\<forall>r \<in> set pre. settled cfg (history w') r" by blast
    have "rec_offset (last done) \<le> rec_offset (last rs)"
      using k(2,3) s(4) in_order_append [of "done" todo] by (cases "todo = []") (auto intro: less_imp_le)
    with settled_below_segment [OF s(1,3,2) commit_ok_below [OF ok dist k(1) s(4)] s(5)] k(4)
    show ?thesis by simp
  qed
  ultimately show ?thesis by (simp add: nothing_lost_def)
qed

text \<open>
  C6. No message is lost over the life of a consumer. Starting on empty partitions, or on
  any world where nothing was lost, after any number of fetches, cycles, cancellations,
  failed commits, restarts and rebalances, every record below the fetch position or the
  committed offset of its partition was handled, parked, or is a message of the DLQ.
\<close>

theorem consumer_life_loses_nothing:
  assumes "consumer_life cfg plog w0 w" and "partition_log plog" and "nothing_lost cfg plog w0"
  shows "nothing_lost cfg plog w"
  using assms(1)
proof (induction rule: consumer_life.induct)
  case born
  show ?case by (rule assms(3))
next
  case (cycle w batch out w')
  from cycle_loses_nothing [OF cycle(4) assms(2) cycle(2,3)] show ?case .
next
  case (rebalance w k tp)
  have "settled_below cfg (history w) (plog tp) k"
  proof (cases "committed w tp")
    case None
    have "\<forall>r \<in> set (plog tp). 0 \<le> rec_offset r"
      using assms(2) [unfolded partition_log_def] by blast
    with None rebalance(2) show ?thesis by (auto simp: settled_below_def)
  next
    case (Some c)
    with rebalance(3) [unfolded nothing_lost_def, rule_format, of tp] rebalance(2)
    show ?thesis by simp
  qed
  with rebalance(3) show ?case by (auto simp: nothing_lost_def)
qed

section \<open>What is asked of the environment\<close>

text \<open>A call the runtime may make.\<close>

fun legitimate :: "consumer_config \<Rightarrow> call \<Rightarrow> bool" where
  "legitimate cfg (Handle r a) \<longleftrightarrow> rec_value r = Readable \<and> 1 \<le> a \<and> a \<le> max_attempts cfg"
| "legitimate cfg (Retry_Sleep c) \<longleftrightarrow> c \<le> 5"
| "legitimate cfg (Publish_Dlq r a) \<longleftrightarrow> dlq_enabled cfg \<and> rec_topic r \<noteq> dlq_topic cfg"
| "legitimate cfg _ \<longleftrightarrow> True"

definition legitimate_so_far :: "consumer_config \<Rightarrow> world \<Rightarrow> bool" where
  "legitimate_so_far cfg w \<longleftrightarrow> (\<forall>(c, a) \<in> set (history w). legitimate cfg c)"

lemma ask_legitimate:
  "\<lbrakk>ask env c w = (a, w'); legitimate cfg c; legitimate_so_far cfg w\<rbrakk> \<Longrightarrow> legitimate_so_far cfg w'"
  by (auto simp: ask_def legitimate_so_far_def Let_def)

lemma seek_legitimate [simp]: "legitimate_so_far cfg (seek tp k w) = legitimate_so_far cfg w"
  by (auto simp: seek_def tell_def legitimate_so_far_def)

lemma tell_legitimate:
  "\<lbrakk>legitimate cfg c; legitimate_so_far cfg w\<rbrakk> \<Longrightarrow> legitimate_so_far cfg (tell c w)"
  by (auto simp: tell_def legitimate_so_far_def)

lemma deliver_attempts_legitimate:
  "\<lbrakk>deliver_attempts cfg env r as w = (d, w'); rec_value r = Readable;
    \<forall>a \<in> set as. 1 \<le> a \<and> a \<le> max_attempts cfg; legitimate_so_far cfg w\<rbrakk> \<Longrightarrow>
   legitimate_so_far cfg w'"
proof (induction as arbitrary: w)
  case Nil
  then show ?case by simp
next
  case (Cons a as)
  obtain x w1 where h: "ask env (Handle r a) w = (x, w1)" by fastforce
  obtain y w2 where s: "ask env (Retry_Sleep (retry_ceiling cfg a)) w1 = (y, w2)" by fastforce
  have "legitimate_so_far cfg w1" using ask_legitimate [OF h] Cons.prems by simp
  moreover from this have "legitimate_so_far cfg w2" using ask_legitimate [OF s]
    by (simp add: retry_ceiling_def MAX_BACKOFF_SECONDS_def)
  ultimately show ?case using Cons.prems h s Cons.IH [of w1] Cons.IH [of w2]
    by (auto split: answer.splits if_splits)
qed

lemma park_legitimate:
  "\<lbrakk>park cfg env r a w = (d, w'); legitimate_so_far cfg w\<rbrakk> \<Longrightarrow> legitimate_so_far cfg w'"
  by (cases "ask env (Publish_Dlq r a) w")
    (auto simp: park_def split: if_splits answer.splits dest: ask_legitimate)

lemma handle_record_legitimate:
  assumes "handle_record cfg env r w = (d, w')" "legitimate_so_far cfg w"
  shows "legitimate_so_far cfg w'"
proof -
  obtain d2 w2 where d: "deliver cfg env r w = (d2, w2)" by fastforce
  have "\<forall>a \<in> set [1..<Suc (max_attempts cfg)]. 1 \<le> a \<and> a \<le> max_attempts cfg" by auto
  from deliver_attempts_legitimate [OF d [unfolded deliver_def] _ this assms(2)]
  have "rec_value r = Readable \<Longrightarrow> legitimate_so_far cfg w2" .
  with assms d show ?thesis
    by (auto simp: handle_record_def split: decoded.splits delivery.splits prod.splits
        dest: park_legitimate)
qed

lemma handle_partition_legitimate:
  "\<lbrakk>handle_partition cfg env tp rs nxt t w = (res, w'); legitimate_so_far cfg w\<rbrakk> \<Longrightarrow>
   legitimate_so_far cfg w'"
  by (induction cfg env tp rs nxt t w rule: handle_partition.induct)
    (auto split: prod.splits option.splits disposition.splits dest: handle_record_legitimate)

lemma handle_batch_legitimate:
  "\<lbrakk>handle_batch cfg env batch t w = (ok, t', w'); legitimate_so_far cfg w\<rbrakk> \<Longrightarrow>
   legitimate_so_far cfg w'"
  by (induction cfg env batch t w rule: handle_batch.induct)
    (auto split: prod.splits option.splits dest: handle_partition_legitimate)

lemma rewind_legitimate [simp]:
  "legitimate_so_far cfg (rewind batch commits w) = legitimate_so_far cfg w"
  by (induction batch commits w rule: rewind.induct) (auto split: list.splits)

lemma committed_legitimate [simp]:
  "legitimate_so_far cfg (w\<lparr>committed := f\<rparr>) = legitimate_so_far cfg w"
  by (simp add: legitimate_so_far_def)

lemma commit_legitimate:
  assumes "commit env cs batch w = (ok, cs', w')" "legitimate_so_far cfg w"
  shows "legitimate_so_far cfg w'"
proof -
  obtain a w1 where a: "ask env (Commit cs) w = (a, w1)" by fastforce
  with assms(2) have "legitimate_so_far cfg w1" by (auto dest: ask_legitimate)
  with assms(1) a show ?thesis by (auto simp: commit_def split: answer.splits)
qed

text \<open>
  What a cycle may ask for. The handler only sees messages this build can read, on
  attempts from one to the configured maximum; a retry sleeps at most five seconds; and a
  message of the DLQ is never written back to the DLQ, nor anything when it is disabled.
\<close>

theorem run_once_calls:
  assumes "run_once cfg env batch w = (out, w')" and "history w = []"
    and "(c, a) \<in> set (history w')"
  shows "legitimate cfg c"
proof -
  have w0: "legitimate_so_far cfg w" using assms(2) by (simp add: legitimate_so_far_def)
  then have w0': "legitimate_so_far cfg (tell (Pause (map fst batch)) w)"
    by (simp add: tell_legitimate)
  obtain ok t w1 where hb: "handle_batch cfg env batch start_tally
      (tell (Pause (map fst batch)) w) = (ok, t, w1)" by (metis prod_cases3)
  obtain ok2 cs w2 where cm: "commit env (t_commits t) batch w1 = (ok2, cs, w2)"
    by (metis prod_cases3)
  note w1 = handle_batch_legitimate [OF hb w0']
  note w2 = commit_legitimate [OF cm w1]
  have "legitimate_so_far cfg w'"
    using assms(1) hb cm w0 w1 w2
    by (cases ok; cases ok2)
      (auto simp: run_once_def Let_def start_tally_def tell_legitimate split: if_splits)
  with assms(3) show ?thesis by (auto simp: legitimate_so_far_def)
qed

section \<open>Order within a partition\<close>

text \<open>The messages the handler was asked about.\<close>

definition asked :: "(call \<times> answer) list \<Rightarrow> crec set" where
  "asked h = {r. \<exists>a x. (Handle r a, x) \<in> set h}"

lemma asked_snoc [simp]:
  "asked (h @ [(c, x)]) = (case c of Handle r a \<Rightarrow> insert r (asked h) | _ \<Rightarrow> asked h)"
  by (auto simp: asked_def split: call.splits)

lemma ask_asked: "ask env c w = (a, w') \<Longrightarrow>
  asked (history w') = (case c of Handle r k \<Rightarrow> insert r (asked (history w)) | _ \<Rightarrow> asked (history w))"
  by (auto simp: ask_def Let_def)

lemma quiet_asked [simp]:
  "asked (history (seek tp k w)) = asked (history w)"
  "asked (history (tell (Pause ps) w)) = asked (history w)"
  "asked (history (tell (Resume ps) w)) = asked (history w)"
  by (simp_all add: seek_def tell_def)

lemma deliver_attempts_asked:
  "deliver_attempts cfg env r as w = (d, w') \<Longrightarrow> asked (history w') \<subseteq> insert r (asked (history w))"
proof (induction as arbitrary: w)
  case Nil
  then show ?case by auto
next
  case (Cons a as)
  obtain x w1 where h: "ask env (Handle r a) w = (x, w1)" by fastforce
  obtain y w2 where s: "ask env (Retry_Sleep (retry_ceiling cfg a)) w1 = (y, w2)" by fastforce
  from Cons.prems h s ask_asked [OF h] ask_asked [OF s] Cons.IH [of w1] Cons.IH [of w2] show ?case
    by (auto split: answer.splits if_splits)
qed

lemma park_asked: "park cfg env r a w = (d, w') \<Longrightarrow> asked (history w') = asked (history w)"
  by (cases "ask env (Publish_Dlq r a) w")
    (auto simp: park_def split: if_splits answer.splits dest: ask_asked)

lemma handle_record_asked:
  assumes "handle_record cfg env r w = (d, w')"
  shows "asked (history w') \<subseteq> insert r (asked (history w))"
proof -
  obtain p1 w1 where p: "park cfg env r 1 w = (p1, w1)" by fastforce
  obtain d2 w2 where d: "deliver cfg env r w = (d2, w2)" by fastforce
  obtain p3 w3 where q: "park cfg env r (max_attempts cfg) w2 = (p3, w3)" by fastforce
  from assms p d q park_asked [OF p] park_asked [OF q]
    deliver_attempts_asked [OF d [unfolded deliver_def]]
  show ?thesis by (auto simp: handle_record_def split: decoded.splits delivery.splits)
qed

lemma handle_partition_asked:
  "handle_partition cfg env tp rs nxt t w = (res, w') \<Longrightarrow>
   \<exists>done todo. prefix_settled cfg (history w') rs done todo \<and> later w w' \<and>
     asked (history w') \<subseteq> asked (history w) \<union> set done \<union> set (take 1 todo)"
proof (induction rs arbitrary: nxt t w)
  case Nil
  then show ?case by (auto simp: prefix_settled_def)
next
  case (Cons r rs)
  obtain x w1 where h: "handle_record cfg env r w = (x, w1)" by fastforce
  note law = handle_record_law [OF h] and as = handle_record_asked [OF h]
  show ?case
  proof (cases "\<exists>b. x = Some (ADVANCE, b)")
    case True
    then obtain b where b: "x = Some (ADVANCE, b)" by blast
    with law have s: "settled cfg (history w1) r" "later w w1" by (auto simp: talks_def)
    from Cons.prems h b Cons.IH obtain "done" todo where ih:
      "prefix_settled cfg (history w') rs done todo" "later w1 w'"
      "asked (history w') \<subseteq> asked (history w1) \<union> set done \<union> set (take 1 todo)" by fastforce
    with s settled_later [OF s(1) ih(2)] as show ?thesis
      by (intro exI [of _ "r # done"] exI [of _ todo])
        (auto simp: prefix_settled_def intro: later_trans)
  next
    case False
    with Cons.prems h have "w' = w1 \<or> w' = seek tp (rec_offset r) w1"
      by (auto split: option.splits disposition.splits)
    with law as show ?thesis
      by (intro exI [of _ "[]"] exI [of _ "r # rs"])
        (auto simp: prefix_settled_def talks_def intro: later_trans)
  qed
qed

text \<open>Every record of the batch lies in the partition it is listed under.\<close>

definition filed :: "batch \<Rightarrow> bool" where
  "filed batch \<longleftrightarrow> (\<forall>(tp, rs) \<in> set batch. \<forall>r \<in> set rs. (rec_topic r, rec_partition r) = tp)"

definition stops_at_first :: "consumer_config \<Rightarrow> world \<Rightarrow> world \<Rightarrow> crec list \<Rightarrow> bool" where
  "stops_at_first cfg w w' rs \<longleftrightarrow>
     (\<exists>done todo. prefix_settled cfg (history w') rs done todo \<and>
        asked (history w') \<inter> set rs \<subseteq> asked (history w) \<union> set done \<union> set (take 1 todo))"

lemma stops_at_first_mono:
  assumes "stops_at_first cfg w w1 rs" "later w1 w'"
    and "asked (history w') \<inter> set rs \<subseteq> asked (history w1)"
  shows "stops_at_first cfg w w' rs"
  using assms prefix_settled_later [OF _ assms(2)] unfolding stops_at_first_def by blast

lemma handle_batch_asked:
  "\<lbrakk>handle_batch cfg env batch t w = (ok, t', w'); distinct (map fst batch); filed batch\<rbrakk> \<Longrightarrow>
   later w w' \<and> asked (history w') \<subseteq> asked (history w) \<union> (\<Union>(tp, rs) \<in> set batch. set rs) \<and>
   (\<forall>(tp, rs) \<in> set batch. stops_at_first cfg w w' rs)"
proof (induction batch arbitrary: t w)
  case Nil
  then show ?case by simp
next
  case (Cons item rest)
  obtain tp rs where item: "item = (tp, rs)" by fastforce
  from Cons.prems(2,3) item have rest: "distinct (map fst rest)" "filed rest"
    and tp: "tp \<notin> fst ` set rest" by (auto simp: filed_def)
  have disj: "set rs \<inter> set xs = {}" if "(a, xs) \<in> set rest" for a xs
    using that tp Cons.prems(3) item by (force simp: filed_def)
  obtain p w1 where hp: "handle_partition cfg env tp rs None t w = (p, w1)" by fastforce
  from handle_partition_asked [OF hp] obtain "done" todo where h:
    "prefix_settled cfg (history w1) rs done todo" "later w w1"
    "asked (history w1) \<subseteq> asked (history w) \<union> set done \<union> set (take 1 todo)" by blast
  have sub: "set done \<union> set (take 1 todo) \<subseteq> set rs"
    using h(1) set_take_subset [of 1 todo] by (auto simp: prefix_settled_def)
  have here: "stops_at_first cfg w w1 rs"
    using h unfolding stops_at_first_def by blast
  have early: "stops_at_first cfg w w1 xs" if "(a, xs) \<in> set rest" for a xs
    unfolding stops_at_first_def
    by (rule exI [of _ "[]"], rule exI [of _ xs])
      (use disj [OF that] sub h(3) in \<open>auto simp: prefix_settled_def\<close>)
  show ?case
  proof (cases p)
    case None
    with Cons.prems(1) hp item have "w' = w1" by auto
    with h sub here early item show ?thesis by auto
  next
    case (Some q)
    obtain t2 where hb: "handle_batch cfg env rest t2 w1 = (ok, t', w')"
      using Cons.prems(1) hp item Some by (cases q) (auto split: option.splits)
    note ih = Cons.IH [OF hb rest]
    have "asked (history w') \<inter> set rs \<subseteq> asked (history w1)" using ih disj by fastforce
    with here ih have "stops_at_first cfg w w' rs" by (blast intro: stops_at_first_mono)
    moreover have "stops_at_first cfg w w' xs" if m: "(a, xs) \<in> set rest" for a xs
    proof -
      from ih m have "stops_at_first cfg w1 w' xs" by blast
      moreover have "asked (history w1) \<inter> set xs \<subseteq> asked (history w)"
        using h(3) sub disj [OF m] by blast
      ultimately show ?thesis unfolding stops_at_first_def by blast
    qed
    moreover have "later w w'" using h(2) ih by (blast intro: later_trans)
    moreover have "asked (history w') \<subseteq> asked (history w) \<union> (\<Union>(tp, rs) \<in> set (item # rest). set rs)"
      using ih h(3) sub item by fastforce
    ultimately show ?thesis using item by auto
  qed
qed

lemma rewind_asked [simp]: "asked (history (rewind batch commits w)) = asked (history w)"
  by (induction batch commits w rule: rewind.induct) (auto split: list.splits)

lemma commit_asked:
  assumes "commit env cs batch w = (ok, cs', w')"
  shows "asked (history w') = asked (history w)"
proof -
  obtain a w1 where a: "ask env (Commit cs) w = (a, w1)" by fastforce
  then have "history w' = history w1 \<or> w' = rewind batch [] w1"
    using assms by (cases a) (auto simp: commit_def)
  moreover have "asked (history w1) = asked (history w)" using ask_asked [OF a] by simp
  ultimately show ?thesis by (elim disjE) (simp_all only: rewind_asked)
qed

lemma run_once_asked:
  assumes "run_once cfg env batch w = (out, w')" "batch \<noteq> []"
  obtains ok t w1 where "handle_batch cfg env batch start_tally
      (tell (Pause (map fst batch)) w) = (ok, t, w1)" "asked (history w') = asked (history w1)"
proof -
  obtain ok t w1 where hb: "handle_batch cfg env batch start_tally
      (tell (Pause (map fst batch)) w) = (ok, t, w1)" by (metis prod_cases3)
  obtain ok2 cs w2 where cm: "commit env (t_commits t) batch w1 = (ok2, cs, w2)"
    by (metis prod_cases3)
  have "\<exists>v. w' = tell (Resume (map fst batch)) v \<and>
      (v \<in> {w1, w2} \<or> (\<exists>ks. v = rewind batch ks w1 \<or> v = rewind batch ks w2))"
    using assms hb cm
    by (cases ok; cases ok2) (auto simp: run_once_def Let_def start_tally_def split: if_splits)
  then have "asked (history w') = asked (history w1)"
    using commit_asked [OF cm] by (elim exE conjE disjE insertE) (simp_all only: quiet_asked rewind_asked empty_iff)
  with hb that show ?thesis by blast
qed

text \<open>
  C8. A partition stops at its first unsettled message (\<open>run_once\<close>). Within a partition
  the handler is not asked about a message behind one that was neither handled nor
  parked, so the order the partition key stands for is kept.
\<close>

theorem partition_stops_at_first_unsettled:
  assumes "run_once cfg env batch w = (out, w')" and "distinct (map fst batch)" and "filed batch"
    and "(tp, rs) \<in> set batch" and "in_order rs"
    and "r \<in> set rs" and "r' \<in> set rs" and "rec_offset r < rec_offset r'"
    and "\<not> settled cfg (history w') r" and "r' \<notin> asked (history w)"
  shows "r' \<notin> asked (history w')"
proof
  assume a: "r' \<in> asked (history w')"
  from assms(4) have ne: "batch \<noteq> []" by auto
  obtain ok t w1 where hb: "handle_batch cfg env batch start_tally
      (tell (Pause (map fst batch)) w) = (ok, t, w1)" and same: "asked (history w') = asked (history w1)"
    by (rule run_once_asked [OF assms(1) ne])
  from handle_batch_asked [OF hb assms(2,3)] assms(4)
  have "stops_at_first cfg (tell (Pause (map fst batch)) w) w1 rs" by blast
  then obtain "done" todo where s: "rs = done @ todo" "\<forall>x \<in> set done. settled cfg (history w1) x"
    "asked (history w1) \<inter> set rs \<subseteq> asked (history w) \<union> set done \<union> set (take 1 todo)"
    by (auto simp: stops_at_first_def prefix_settled_def)
  obtain ok' t' w1' w3 where hb': "handle_batch cfg env batch start_tally
      (tell (Pause (map fst batch)) w) = (ok', t', w1')"
    and w': "w' = tell (Resume (map fst batch)) w3" and ways: "cycle_end batch ok' t' w1' out w3"
    by (rule run_once_cases [OF assms(1) ne])
  from hb hb' have "w1' = w1" by simp
  have rew: "later w1 (rewind batch ks v)" if "later w1 v" for ks v
    using rewind_law [OF assms(2), of v ks] that by (blast intro: later_trans)
  have "later w1 w3" using ways [unfolded cycle_end_def \<open>w1' = w1\<close>]
  proof (elim disjE exE conjE)
    fix w2 assume "talks w1 w2" "w3 = w2\<lparr>committed := committed w2 ++ map_of (t_commits t')\<rparr>"
    then show ?thesis by (simp add: talks_def later_def)
  qed (use rew in \<open>auto simp: talks_def\<close>)
  with w' have lw: "later w1 w'" by (auto intro: later_trans)
  have "r \<notin> set done" using s(2) assms(9) settled_later [OF _ lw] by blast
  with s(1) assms(6) have "r \<in> set todo" by auto
  moreover have "r' \<in> set done \<or> r' \<in> set (take 1 todo)" using a same s(3) assms(7,10) by blast
  ultimately show False
    using s(1) assms(5,8) by (cases todo) (fastforce simp: in_order_def sorted_wrt_append)+
qed

end
