(* ===== verification/Consumer_Examples.thy ===== *)
theory Consumer_Examples
  imports Consumer_Laws
begin

text \<open>
  Concrete cycles of the consumer: the witnesses of its laws, and two behaviours its
  documentation describes differently.
\<close>

definition sample_cfg :: consumer_config where
  "sample_cfg = \<lparr>dlq_enabled = True, max_attempts = 2, backoff_seconds = 1/2,
     dlq_topic = ''dlq'', subscribed = [''signals''], batch_limit = 10\<rparr>"

definition sample_rec :: "string \<Rightarrow> int \<Rightarrow> int \<Rightarrow> decoded \<Rightarrow> crec" where
  "sample_rec t p k v = \<lparr>rec_topic = t, rec_partition = p, rec_offset = k, rec_value = v\<rparr>"

definition idle_world :: world where
  "idle_world = \<lparr>history = [], position = (\<lambda>_. 0), committed = (\<lambda>_. None)\<rparr>"

abbreviation "part0 \<equiv> (''signals'', 0 :: int)"
abbreviation "part1 \<equiv> (''signals'', 1 :: int)"

definition records0 :: "crec list" where
  "records0 = [sample_rec ''signals'' 0 0 Readable, sample_rec ''signals'' 0 1 Undecodable,
     sample_rec ''signals'' 0 2 Readable]"

text \<open>The DLQ is down; everything else works.\<close>

definition dlq_down :: env where
  "dlq_down h c = (case c of Publish_Dlq r a \<Rightarrow> Failing | _ \<Rightarrow> Fine)"

definition blocked_cycle :: "batch_outcome option \<times> world" where
  "blocked_cycle = run_once sample_cfg dlq_down [(part0, records0)]
     (advance [(part0, records0)] idle_world)"

lemma blocked_cycle_result:
  "fst blocked_cycle = Some \<lparr>fetched = 3, handled = 1, dlq_routed = 0, blocked_count = 2,
     committed_offsets = [(part0, 1)]\<rparr>"
  "position (snd blocked_cycle) part0 = 1" "committed (snd blocked_cycle) part0 = Some 1"
  "history (snd blocked_cycle) =
     [(Pause [part0], Fine), (Handle (sample_rec ''signals'' 0 0 Readable) 1, Fine),
      (Publish_Dlq (sample_rec ''signals'' 0 1 Undecodable) 1, Failing), (Seek part0 1, Fine),
      (Commit [(part0, 1)], Fine), (Resume [part0], Fine)]"
  by code_simp+

lemma blocked_cycle_eq:
  "run_once sample_cfg dlq_down [(part0, records0)] (advance [(part0, records0)] idle_world) =
     (fst blocked_cycle, snd blocked_cycle)"
  by (simp add: blocked_cycle_def)

lemma records0_in_order: "in_order records0"
  by (simp add: in_order_def records0_def sample_rec_def)

lemma run_once_loses_nothing_witness:
  "position (snd blocked_cycle) part0 \<le> 1 \<and> committed (snd blocked_cycle) part0 = Some 1"
proof -
  let ?r = "sample_rec ''signals'' 0 1 Undecodable"
  have "\<not> settled sample_cfg (history (snd blocked_cycle)) ?r"
    by (simp add: settled_def blocked_cycle_result sample_rec_def sample_cfg_def)
  from run_once_loses_nothing [OF blocked_cycle_eq, of part0 records0 ?r] this records0_in_order
  show ?thesis
    by (simp add: idle_world_def blocked_cycle_result sample_rec_def records0_def)
qed

lemma batch_outcome_adds_up_witness:
  "(\<exists>o'. fst blocked_cycle = Some o' \<and> handled o' + blocked_count o' = 3)"
proof -
  have "run_once sample_cfg dlq_down [(part0, records0)] (advance [(part0, records0)] idle_world) =
     (Some (the (fst blocked_cycle)), snd blocked_cycle)"
    using blocked_cycle_eq blocked_cycle_result(1) by simp
  from batch_outcome_adds_up [OF this] show ?thesis
    using blocked_cycle_result(1) by (simp add: records0_def)
qed

definition sample_log :: "topic_partition \<Rightarrow> crec list" where
  "sample_log tp = (if tp = part0 then records0 else [])"

lemma consumer_life_loses_nothing_witness:
  "consumer_life sample_cfg sample_log idle_world (snd blocked_cycle) \<and>
   nothing_lost sample_cfg sample_log (snd blocked_cycle)"
proof -
  have log: "partition_log sample_log"
    using records0_in_order
    by (auto simp: partition_log_def sample_log_def records0_def sample_rec_def in_order_def)
  have start: "nothing_lost sample_cfg sample_log idle_world"
    by (auto simp: nothing_lost_def idle_world_def settled_below_def sample_log_def records0_def
        sample_rec_def)
  have "fetched_from sample_log idle_world [(part0, records0)]"
    by (auto simp: fetched_from_def sample_log_def records0_def intro: exI [of _ "[]"])
  then have life: "consumer_life sample_cfg sample_log idle_world (snd blocked_cycle)"
    by (rule cycle [OF born _ blocked_cycle_eq])
  with consumer_life_loses_nothing [OF life log start] show ?thesis by simp
qed

lemma run_once_calls_witness:
  "legitimate sample_cfg (Publish_Dlq (sample_rec ''signals'' 0 1 Undecodable) 1)"
  by (rule run_once_calls [OF blocked_cycle_eq, of _ Failing])
    (simp_all add: blocked_cycle_result idle_world_def)

text \<open>
  A DLQ message that is skipped counts as routed to the DLQ (\<open>_handle_record\<close>,
  \<open>_park\<close>). An undecodable message of the DLQ topic is advanced past without being
  published anywhere, and the batch outcome reports one message routed to the DLQ.
\<close>

theorem skipped_dlq_message_counted:
  "case run_once sample_cfg (\<lambda>h c. Fine) [((''dlq'', 0), [sample_rec ''dlq'' 0 0 Undecodable])]
     idle_world of (out, w') \<Rightarrow>
   map_option dlq_routed out = Some 1 \<and>
   map fst (history w') = [Pause [(''dlq'', 0)], Commit [((''dlq'', 0), 1)], Resume [(''dlq'', 0)]]"
  by code_simp

text \<open>
  A cancelled cycle keeps uncommitted positions (\<open>run_once\<close>, \<open>_rewind\<close>). When the
  cycle is cancelled in its second partition, the first partition's position stays behind
  its handled message although nothing was committed for it: the rewind goes by the
  collected offsets, not by the committed ones.
\<close>

theorem cancelled_cycle_keeps_position:
  "case run_once sample_cfg (\<lambda>h c. case c of Handle r a \<Rightarrow>
       if rec_partition r = 1 then Stopped else Fine | _ \<Rightarrow> Fine)
     [(part0, [sample_rec ''signals'' 0 7 Readable]), (part1, [sample_rec ''signals'' 1 9 Readable])]
     (idle_world\<lparr>position := (\<lambda>_. 10)\<rparr>) of (out, w') \<Rightarrow>
   out = None \<and> position w' part0 = 8 \<and> committed w' part0 = None \<and> position w' part1 = 9"
  by code_simp

lemma partition_stops_at_first_unsettled_witness:
  "sample_rec ''signals'' 0 2 Readable \<notin> asked (history (snd blocked_cycle))"
proof -
  have "\<not> settled sample_cfg (history (snd blocked_cycle)) (sample_rec ''signals'' 0 1 Undecodable)"
    by (simp add: settled_def blocked_cycle_result sample_rec_def sample_cfg_def)
  from partition_stops_at_first_unsettled [OF blocked_cycle_eq _ _ _ records0_in_order _ _ _ this]
  show ?thesis
    by (simp add: filed_def records0_def sample_rec_def idle_world_def asked_def)
qed

end
