(* ===== verification/Backoff.thy ===== *)
theory Backoff
  imports Prelude
begin

text \<open>
  \<open>connectors/ratelimit/backoff.py\<close>: the delay before a retry, the budget of a page, the
  circuit breaker of an account and the loop that ties them together.

  Times and delays are rationals of seconds. Time is part of the state: an operation and a
  sleep move it on by what the environment says, so the budget is measured as the code
  measures it. A draw of \<open>random.uniform(0, c)\<close> is \<open>u * c\<close> for a number \<open>u\<close> of the
  environment. The exception classes are those of \<open>connectors/exceptions.py\<close> the module
  tells apart; an exception carries what \<open>retry_after_of\<close> looks for.
\<close>

section \<open>Policy\<close>

record backoff_policy =
  base_seconds :: pyfloat
  cap_seconds :: pyfloat
  bo_max_attempts :: int
  total_budget_seconds :: pyfloat
  quota_threshold_seconds :: pyfloat

definition DEFAULT_POLICY :: backoff_policy where
  "DEFAULT_POLICY = \<lparr>base_seconds = 1, cap_seconds = 60, bo_max_attempts = 5,
     total_budget_seconds = 300, quota_threshold_seconds = 900\<rparr>"

definition ceiling_for :: "backoff_policy \<Rightarrow> int \<Rightarrow> py_error + pyfloat" where
  "ceiling_for p attempt =
     (if attempt < 0 then Inl ValueError
      else if attempt > 32 then Inr (cap_seconds p)
      else Inr (min (cap_seconds p) (base_seconds p * 2 ^ nat attempt)))"

definition full_jitter :: "backoff_policy \<Rightarrow> pyfloat \<Rightarrow> int \<Rightarrow> py_error + pyfloat" where
  "full_jitter p u attempt = map_sum id (\<lambda>c. u * c) (ceiling_for p attempt)"

section \<open>Errors\<close>

text \<open>What an attribute or a dictionary entry holds where a number is expected.\<close>

datatype raw_number = Number pyfloat | Not_A_Number

datatype error_kind = Transient | Quota | Auth | Permanent | Circuit_Open

record connector_error =
  kind :: error_kind
  attr_retry_after :: "raw_number option"
  details_retry_after :: "raw_number option"

definition retry_after_of :: "connector_error \<Rightarrow> pyfloat option" where
  "retry_after_of e =
     (case (case attr_retry_after e of None \<Rightarrow> details_retry_after e | Some v \<Rightarrow> Some v) of
        None \<Rightarrow> None
      | Some Not_A_Number \<Rightarrow> None
      | Some (Number v) \<Rightarrow> Some (max 0 v))"

text \<open>A \<open>QuotaError\<close> keeps the pause as an attribute and among its details.\<close>

definition quota_error :: "pyfloat \<Rightarrow> connector_error" where
  "quota_error retry_after =
     \<lparr>kind = Quota, attr_retry_after = Some (Number retry_after),
      details_retry_after = Some (Number retry_after)\<rparr>"

datatype delay = Wait pyfloat | Give_Up connector_error | Bad_Attempt

definition next_delay :: "backoff_policy \<Rightarrow> pyfloat \<Rightarrow> pyfloat option \<Rightarrow> int \<Rightarrow> delay" where
  "next_delay p u retry_after attempt =
     (case retry_after of
        None \<Rightarrow> (case full_jitter p u attempt of Inl e \<Rightarrow> Bad_Attempt | Inr d \<Rightarrow> Wait d)
      | Some r \<Rightarrow>
          if r > quota_threshold_seconds p then Give_Up (quota_error r) else Wait (max 0 r))"

section \<open>The circuit breaker\<close>

datatype circuit_state = CLOSED | OPEN | HALF_OPEN

record circuit =
  consecutive_failures :: int
  opens_until :: "pyfloat option"
  probing :: bool

definition new_circuit :: circuit where
  "new_circuit = \<lparr>consecutive_failures = 0, opens_until = None, probing = False\<rparr>"

record breaker =
  failure_threshold :: int
  open_seconds :: pyfloat
  circuits :: "string \<Rightarrow> circuit option"

definition new_breaker :: "int \<Rightarrow> pyfloat \<Rightarrow> py_error + breaker" where
  "new_breaker threshold seconds =
     (if threshold < 1 then Inl ValueError
      else Inr \<lparr>failure_threshold = threshold, open_seconds = seconds, circuits = (\<lambda>_. None)\<rparr>)"

definition breaker_state :: "breaker \<Rightarrow> pyfloat \<Rightarrow> string \<Rightarrow> circuit_state" where
  "breaker_state b now key =
     (case circuits b key of
        None \<Rightarrow> CLOSED
      | Some c \<Rightarrow> (case opens_until c of
            None \<Rightarrow> CLOSED
          | Some t \<Rightarrow> if now < t then OPEN else HALF_OPEN))"

definition failures_in_a_row :: "breaker \<Rightarrow> string \<Rightarrow> int" where
  "failures_in_a_row b key = (case circuits b key of None \<Rightarrow> 0 | Some c \<Rightarrow> consecutive_failures c)"

definition circuit_open_error :: "pyfloat \<Rightarrow> connector_error" where
  "circuit_open_error pause =
     \<lparr>kind = Circuit_Open, attr_retry_after = None, details_retry_after = Some (Number pause)\<rparr>"

definition check :: "breaker \<Rightarrow> pyfloat \<Rightarrow> string \<Rightarrow> connector_error + breaker" where
  "check b now key =
     (case circuits b key of
        None \<Rightarrow> Inr b
      | Some c \<Rightarrow> (case opens_until c of
            None \<Rightarrow> Inr b
          | Some t \<Rightarrow>
              if now < t then Inl (circuit_open_error (t - now))
              else Inr (b\<lparr>circuits := (circuits b)(key \<mapsto>
                     c\<lparr>probing := True, consecutive_failures := 0\<rparr>)\<rparr>)))"

definition record_success :: "breaker \<Rightarrow> string \<Rightarrow> breaker" where
  "record_success b key = b\<lparr>circuits := (circuits b)(key := None)\<rparr>"

definition record_failure :: "breaker \<Rightarrow> pyfloat \<Rightarrow> string \<Rightarrow> pyfloat option \<times> breaker" where
  "record_failure b now key =
     (let c = (case circuits b key of None \<Rightarrow> new_circuit | Some c \<Rightarrow> c);
          c1 = c\<lparr>consecutive_failures := consecutive_failures c + 1\<rparr>;
          until = now + open_seconds b
      in if probing c1 then
           (Some until, b\<lparr>circuits := (circuits b)(key \<mapsto>
              c1\<lparr>probing := False, opens_until := Some until\<rparr>)\<rparr>)
         else if consecutive_failures c1 \<ge> failure_threshold b then
           (Some until, b\<lparr>circuits := (circuits b)(key \<mapsto> c1\<lparr>opens_until := Some until\<rparr>)\<rparr>)
         else (None, b\<lparr>circuits := (circuits b)(key \<mapsto> c1)\<rparr>))"

section \<open>One page\<close>

text \<open>
  The environment of a page: what the operation answers on each call and how long it
  takes, the draws, how far a sleep overshoots, and the wall clock of the breaker as a
  function of the monotonic clock of the page.
\<close>

datatype 'r op_result = Returned 'r | Raised connector_error | Crashed

record 'r page_env =
  operation :: "nat \<Rightarrow> 'r op_result"
  op_seconds :: "nat \<Rightarrow> pyfloat"
  draw :: "nat \<Rightarrow> pyfloat"
  overshoot :: "nat \<Rightarrow> pyfloat"
  wall_clock :: "pyfloat \<Rightarrow> pyfloat"

record pacing =
  started :: pyfloat
  now :: pyfloat
  attempts :: nat
  slept :: "pyfloat list"

text \<open>
  \<open>RetryController.sleep_before_retry\<close>: the error to raise, or the state after the sleep.
  The attempt is never negative here, so \<open>Bad_Attempt\<close> does not arise.
\<close>

definition sleep_before_retry ::
  "backoff_policy \<Rightarrow> 'r page_env \<Rightarrow> connector_error \<Rightarrow> pacing \<Rightarrow> connector_error option \<times> pacing" where
  "sleep_before_retry p env e c =
     (let c1 = c\<lparr>attempts := attempts c + 1\<rparr> in
      case next_delay p (draw env (attempts c)) (retry_after_of e) (int (attempts c1) - 1) of
        Give_Up q \<Rightarrow> (Some q, c1)
      | Bad_Attempt \<Rightarrow> (Some e, c1)
      | Wait d \<Rightarrow>
          if int (attempts c1) \<ge> bo_max_attempts p then (Some e, c1)
          else if d > total_budget_seconds p - (now c1 - started c1) then (Some e, c1)
          else (None, c1\<lparr>now := now c1 + d + overshoot env (attempts c), slept := slept c1 @ [d]\<rparr>))"

lemma sleep_before_retry_None:
  assumes "sleep_before_retry p env e c = (None, c')"
  shows "attempts c' = attempts c + 1 \<and> int (attempts c') < bo_max_attempts p \<and>
    (\<exists>d. next_delay p (draw env (attempts c)) (retry_after_of e) (int (attempts c)) = Wait d \<and>
       d \<le> total_budget_seconds p - (now c - started c) \<and> started c' = started c \<and>
       now c' = now c + d + overshoot env (attempts c) \<and> slept c' = slept c @ [d])"
  using assms
  by (auto simp: sleep_before_retry_def Let_def split: delay.splits if_splits)

datatype 'r page_result = Page 'r | Page_Error connector_error | Page_Crash

text \<open>
  The loop of \<open>retry_page\<close>, for an operation that reads and writes a state, and its instance for one
  whose answers are a function of the number of calls made so far, which is the number of failed
  attempts.
\<close>

function retry_with ::
  "backoff_policy \<Rightarrow> 'x page_env \<Rightarrow> (nat \<Rightarrow> 's \<Rightarrow> 'r op_result \<times> 's) \<Rightarrow> pacing \<Rightarrow> 's \<Rightarrow> 'r page_result \<times> pacing \<times> 's" where
  "retry_with p env op c s =
     (let c0 = c\<lparr>now := now c + op_seconds env (attempts c)\<rparr> in
      case op (attempts c) s of
        (Returned r, s1) \<Rightarrow> (Page r, c0, s1)
      | (Crashed, s1) \<Rightarrow> (Page_Crash, c0, s1)
      | (Raised e, s1) \<Rightarrow>
          if kind e = Transient then
            (case sleep_before_retry p env e c0 of
               (Some e', c1) \<Rightarrow> (Page_Error e', c1, s1)
             | (None, c1) \<Rightarrow> retry_with p env op c1 s1)
          else (Page_Error e, c0, s1))"
  by pat_completeness auto

termination
  by (relation "measure (\<lambda>(p, env, op, c, s). nat (bo_max_attempts p - int (attempts c)))")
    (auto dest!: sleep_before_retry_None [OF sym])

declare retry_with.simps [simp del]

definition retry_loop :: "backoff_policy \<Rightarrow> 'r page_env \<Rightarrow> pacing \<Rightarrow> 'r page_result \<times> pacing" where
  "retry_loop p env c = (case retry_with p env (\<lambda>k u. (operation env k, u)) c () of (res, c', u) \<Rightarrow> (res, c'))"

text \<open>\<open>retry_page\<close> without and with a breaker.\<close>

definition retry_page ::
  "backoff_policy \<Rightarrow> 'r page_env \<Rightarrow> (breaker \<times> string) option \<Rightarrow> pyfloat
     \<Rightarrow> 'r page_result \<times> pacing \<times> breaker option" where
  "retry_page p env guard start =
     (let c0 = \<lparr>started = start, now = start, attempts = 0, slept = []\<rparr> in
      case guard of
        None \<Rightarrow> (case retry_loop p env c0 of (res, c) \<Rightarrow> (res, c, None))
      | Some (b, key) \<Rightarrow>
          (case check b (wall_clock env start) key of
             Inl e \<Rightarrow> (Page_Error e, c0, Some b)
           | Inr b1 \<Rightarrow>
               (case retry_loop p env c0 of
                  (Page r, c) \<Rightarrow> (Page r, c, Some (record_success b1 key))
                | (Page_Error e, c) \<Rightarrow> (Page_Error e, c, Some (snd (record_failure b1 (wall_clock env (now c)) key)))
                | (Page_Crash, c) \<Rightarrow> (Page_Crash, c, Some b1))))"

text \<open>What \<open>tenacity_wait\<close> waits: its attempts count from one.\<close>

definition tenacity_delay :: "backoff_policy \<Rightarrow> pyfloat \<Rightarrow> int \<Rightarrow> py_error + pyfloat" where
  "tenacity_delay p u attempt_number = full_jitter p u (max 0 (attempt_number - 1))"

end
