(* ===== verification/Backoff_Laws.thy ===== *)
theory Backoff_Laws
  imports Backoff
begin

text \<open>
  The laws of retry pacing: how long a delay may be, how much a page may sleep and try,
  which answers end it, and when a circuit opens. The breaker is an instance of the
  \<open>machine\<close> interface of the prelude.
\<close>

section \<open>Delays\<close>

definition sensible :: "backoff_policy \<Rightarrow> bool" where
  "sensible p \<longleftrightarrow> 0 \<le> base_seconds p \<and> 0 \<le> cap_seconds p"

lemma ceiling_for_bounds:
  "\<lbrakk>sensible p; ceiling_for p k = Inr c\<rbrakk> \<Longrightarrow>
   0 \<le> c \<and> c \<le> cap_seconds p \<and> (k \<le> 32 \<longrightarrow> c \<le> base_seconds p * 2 ^ nat k)"
  by (auto simp: ceiling_for_def sensible_def split: if_splits)

lemma full_jitter_bounds:
  assumes "sensible p" "0 \<le> u" "u \<le> 1" "full_jitter p u k = Inr d"
  shows "0 \<le> d \<and> d \<le> cap_seconds p \<and> (k \<le> 32 \<longrightarrow> d \<le> base_seconds p * 2 ^ nat k)"
proof -
  from assms(4) obtain c where c: "ceiling_for p k = Inr c" "d = u * c"
    by (cases "ceiling_for p k") (auto simp: full_jitter_def)
  note b = ceiling_for_bounds [OF assms(1) c(1)]
  have "u * c \<le> c" using b assms(2,3) by (simp add: mult_left_le_one_le)
  with b c(2) assms(2) show ?thesis by auto
qed

text \<open>
  How long the runtime waits (\<open>next_delay\<close>). Without an instruction of the provider
  the wait lies under the exponential ceiling and the cap; with a \<open>Retry-After\<close> it is
  exactly what was asked for, unjittered and uncapped; and it gives up, as a quota error
  that carries the pause, exactly when that exceeds the hold threshold.
\<close>

theorem next_delay_bounds:
  assumes "sensible p" and "0 \<le> u" and "u \<le> 1" and "0 \<le> k"
  shows "(case next_delay p u retry_after k of
      Wait d \<Rightarrow> 0 \<le> d \<and> (case retry_after of
          None \<Rightarrow> d \<le> cap_seconds p \<and> (k \<le> 32 \<longrightarrow> d \<le> base_seconds p * 2 ^ nat k)
        | Some r \<Rightarrow> d = max 0 r \<and> r \<le> quota_threshold_seconds p)
    | Give_Up e \<Rightarrow> (\<exists>r. retry_after = Some r \<and> quota_threshold_seconds p < r \<and>
        kind e = Quota \<and> retry_after_of e = Some (max 0 r))
    | Bad_Attempt \<Rightarrow> False)"
proof (cases retry_after)
  case None
  obtain d where d: "full_jitter p u k = Inr d"
    using assms(4) by (cases "32 < k") (auto simp: full_jitter_def ceiling_for_def)
  with full_jitter_bounds [OF assms(1-3) d] None show ?thesis by (simp add: next_delay_def)
next
  case (Some r)
  then show ?thesis by (simp add: next_delay_def quota_error_def retry_after_of_def)
qed

section \<open>A page\<close>










text \<open>A relation every call respects is respected by the loop.\<close>

lemma retry_with_keeps:
  assumes step: "\<And>k s x s1. op k s = (x, s1) \<Longrightarrow> R s s1" and trans: "\<And>a b c. R a b \<Longrightarrow> R b c \<Longrightarrow> R a c"
  shows "retry_with p env op c s = (res, c', s') \<Longrightarrow> R s s'"
  using step
proof (induction p env op c s rule: retry_with.induct)
  case (1 p env op c s)
  let ?c0 = "c\<lparr>now := now c + op_seconds env (attempts c)\<rparr>"
  obtain x s1 where o: "op (attempts c) s = (x, s1)" by fastforce
  have r1: "R s s1" by (rule 1(3) [OF o])
  show ?case
  proof (cases "\<exists>e c1. x = Raised e \<and> kind e = Transient \<and> sleep_before_retry p env e ?c0 = (None, c1)")
    case True
    then obtain e c1 where e: "x = Raised e" "kind e = Transient" "sleep_before_retry p env e ?c0 = (None, c1)" by blast
    have "retry_with p env op c1 s1 = (res, c', s')"
      using 1(2) o e by (subst (asm) retry_with.simps) simp
    from 1(1) [OF refl o [symmetric] e(1) e(2) e(3) [symmetric] refl this 1(3)] r1 show ?thesis by (rule trans [rotated])
  next
    case False
    with 1(2) o have "s' = s1"
      by (subst (asm) retry_with.simps) (auto simp: Let_def split: op_result.splits if_splits prod.splits option.splits)
    with r1 show ?thesis by simp
  qed
qed




lemma retry_page_cases:
  assumes "retry_page p env guard t = (res, c, b')"
  obtains (refused) b key e where "guard = Some (b, key)" "check b (wall_clock env t) key = Inl e"
      "res = Page_Error e" "slept c = []" "b' = Some b"
    | (ran) "retry_loop p env \<lparr>started = t, now = t, attempts = 0, slept = []\<rparr> = (res, c)"
      "\<And>b key. guard = Some (b, key) \<Longrightarrow> \<exists>b1. check b (wall_clock env t) key = Inr b1 \<and>
         b' = Some (case res of Page r \<Rightarrow> record_success b1 key
            | Page_Error e \<Rightarrow> snd (record_failure b1 (wall_clock env (now c)) key)
            | Page_Crash \<Rightarrow> b1)"
proof (cases guard)
  case None
  with assms show ?thesis by (intro ran) (auto simp: retry_page_def Let_def split: prod.splits)
next
  case (Some g)
  obtain b key where g: "g = (b, key)" by fastforce
  show ?thesis
  proof (cases "check b (wall_clock env t) key")
    case (Inl e)
    with assms Some g show ?thesis by (intro refused) (auto simp: retry_page_def Let_def)
  next
    case (Inr b1)
    with assms Some g show ?thesis
      by (intro ran) (auto simp: retry_page_def Let_def split: prod.splits page_result.splits)
  qed
qed


text \<open>
  A long \<open>Retry-After\<close> wins over the attempt count (\<open>sleep_before_retry\<close>). When a
  transient error asks for a longer pause than the hold threshold, the page ends at once as
  a quota error that carries that pause, even on the last attempt.
\<close>

theorem long_pause_is_quota:
  assumes "kind e = Transient" and "retry_after_of e = Some r" and "quota_threshold_seconds p < r"
    and "operation env (attempts c) = Raised e"
  shows "\<exists>c'. retry_loop p env c = (Page_Error (quota_error r), c') \<and> slept c' = slept c"
  using assms
  by (simp add: retry_loop_def retry_with.simps [of p] sleep_before_retry_def next_delay_def Let_def)

section \<open>The breaker\<close>

datatype breaker_event =
    Checked pyfloat string
  | Succeeded string
  | Went_Wrong pyfloat string

fun breaker_step :: "breaker \<Rightarrow> breaker_event \<Rightarrow> breaker" where
  "breaker_step b (Checked t key) = (case check b t key of Inl e \<Rightarrow> b | Inr b' \<Rightarrow> b')"
| "breaker_step b (Succeeded key) = record_success b key"
| "breaker_step b (Went_Wrong t key) = snd (record_failure b t key)"

fun event_key :: "breaker_event \<Rightarrow> string" where
  "event_key (Checked t key) = key"
| "event_key (Succeeded key) = key"
| "event_key (Went_Wrong t key) = key"

text \<open>A circuit that never opened counts fewer failures than the threshold.\<close>

definition circuit_ok :: "int \<Rightarrow> circuit \<Rightarrow> bool" where
  "circuit_ok n c \<longleftrightarrow> 0 \<le> consecutive_failures c \<and>
     (opens_until c = None \<longrightarrow>
        \<not> probing c \<and> 1 \<le> consecutive_failures c \<and> consecutive_failures c < n)"

definition breaker_ok :: "breaker \<Rightarrow> bool" where
  "breaker_ok b \<longleftrightarrow> 1 \<le> failure_threshold b \<and>
     (\<forall>key c. circuits b key = Some c \<longrightarrow> circuit_ok (failure_threshold b) c)"

lemma step_constants [simp]:
  "failure_threshold (breaker_step b e) = failure_threshold b"
  "open_seconds (breaker_step b e) = open_seconds b"
  by (cases e; auto simp: check_def record_success_def record_failure_def Let_def
      split: option.splits sum.splits)+

lemma step_other_key:
  "event_key e \<noteq> key \<Longrightarrow> circuits (breaker_step b e) key = circuits b key"
  by (cases e) (auto simp: check_def record_success_def record_failure_def Let_def
      split: option.splits sum.splits)

lemma step_ok: "breaker_ok b \<Longrightarrow> breaker_ok (breaker_step b e)"
proof (cases e)
  case (Checked t key)
  then show "breaker_ok b \<Longrightarrow> ?thesis"
    by (auto simp: breaker_ok_def check_def circuit_ok_def split: option.splits)
next
  case (Succeeded key)
  then show "breaker_ok b \<Longrightarrow> ?thesis" by (auto simp: breaker_ok_def record_success_def)
next
  case (Went_Wrong t key)
  assume b: "breaker_ok b"
  then have "circuits b key = None \<or> (\<exists>c. circuits b key = Some c \<and> circuit_ok (failure_threshold b) c)"
    by (cases "circuits b key") (auto simp: breaker_ok_def)
  with b Went_Wrong show ?thesis
    by (auto simp: breaker_ok_def record_failure_def circuit_ok_def new_circuit_def Let_def
        split: if_splits)
qed

interpretation circuit_breaker: machine breaker_step breaker_ok
  by unfold_locales (rule step_ok)

text \<open>
  A closed circuit is below its threshold (\<open>CircuitBreaker\<close>). Whatever was checked,
  succeeded and failed since the breaker was built, on whatever accounts, an account whose
  circuit is closed has fewer consecutive failures than the threshold; and what happened
  on other accounts makes no difference to it.
\<close>

theorem closed_below_threshold:
  assumes "new_breaker n secs = Inr b" and "breaker_state (foldl breaker_step b es) t key = CLOSED"
  shows "0 \<le> failures_in_a_row (foldl breaker_step b es) key
    \<and> failures_in_a_row (foldl breaker_step b es) key < n
    \<and> circuits (foldl breaker_step b es) key =
        circuits (foldl breaker_step b (filter (\<lambda>e. event_key e = key) es)) key"
proof -
  let ?b = "foldl breaker_step b es"
  have ok: "breaker_ok b" and n: "failure_threshold b = n"
    using assms(1) by (auto simp: new_breaker_def breaker_ok_def split: if_splits)
  have const: "failure_threshold (foldl breaker_step b xs) = n" for xs
    by (induction xs rule: rev_induct) (simp_all add: n)
  from circuit_breaker.run_inv [OF ok] have fin: "breaker_ok ?b" .
  have count: "0 \<le> failures_in_a_row ?b key \<and> failures_in_a_row ?b key < n"
  proof (cases "circuits ?b key")
    case None
    with fin const [of es] show ?thesis by (simp add: failures_in_a_row_def breaker_ok_def)
  next
    case (Some c)
    with fin const [of es] have "circuit_ok n c" by (auto simp: breaker_ok_def)
    moreover have "opens_until c = None"
      using assms(2) Some by (auto simp: breaker_state_def split: option.splits if_splits)
    ultimately show ?thesis using Some by (simp add: failures_in_a_row_def circuit_ok_def)
  qed
  have same: "circuits b1 key = circuits b2 key \<Longrightarrow> failure_threshold b1 = failure_threshold b2 \<Longrightarrow>
      open_seconds b1 = open_seconds b2 \<Longrightarrow>
      circuits (breaker_step b1 e) key = circuits (breaker_step b2 e) key" for b1 b2 e
    by (cases "event_key e = key"; cases e)
      (auto simp: step_other_key check_def record_success_def record_failure_def Let_def
        split: option.splits sum.splits)
  have "circuits (foldl breaker_step b1 es) key =
      circuits (foldl breaker_step b2 (filter (\<lambda>e. event_key e = key) es)) key"
    if "circuits b1 key = circuits b2 key" "failure_threshold b1 = failure_threshold b2"
      "open_seconds b1 = open_seconds b2" for b1 b2
    using that
  proof (induction es arbitrary: b1 b2)
    case Nil
    then show ?case by simp
  next
    case (Cons e es)
    then show ?case using same [OF Cons.prems, of e]
      by (cases "event_key e = key") (simp_all add: step_other_key)
  qed
  from this [OF refl refl refl] count show ?thesis by blast
qed

text \<open>
  When a failure opens a circuit (\<open>record_failure\<close>). On a closed circuit the failed
  operation opens it exactly when it is the threshold-th in a row; it is then refused for
  \<open>open_seconds\<close> and half-open from then on. Below the threshold the circuit stays closed
  and the count goes up by one; a success sets it back to zero.
\<close>

theorem failure_opens_iff:
  assumes "breaker_ok b" and "breaker_state b t key = CLOSED"
    and "record_failure b t key = (opened, b')"
  shows "((opened = Some (t + open_seconds b) \<and>
             failure_threshold b \<le> failures_in_a_row b key + 1 \<and>
             (\<forall>u. breaker_state b' u key = (if u < t + open_seconds b then OPEN else HALF_OPEN) \<and>
                  (u < t + open_seconds b \<longleftrightarrow> (\<exists>e. check b' u key = Inl e))))
        \<or> (opened = None \<and> failures_in_a_row b key + 1 < failure_threshold b \<and>
             failures_in_a_row b' key = failures_in_a_row b key + 1 \<and>
             breaker_state b' t key = CLOSED))
     \<and> breaker_state (record_success b' key) t key = CLOSED
     \<and> failures_in_a_row (record_success b' key) key = 0"
proof -
  have "circuits b key = None \<or>
      (\<exists>c. circuits b key = Some c \<and> opens_until c = None \<and> \<not> probing c)"
    using assms(1,2)
    by (cases "circuits b key")
      (auto simp: breaker_state_def breaker_ok_def circuit_ok_def split: option.splits if_splits)
  with assms(3) show ?thesis
    by (auto simp: record_failure_def record_success_def new_circuit_def breaker_state_def
        failures_in_a_row_def check_def Let_def split: if_splits)
qed

text \<open>
  A probe decides (\<open>check\<close>, \<open>record_failure\<close>). On a half-open circuit the check passes;
  if the probe then fails the circuit is open again at once, for another \<open>open_seconds\<close>,
  however high the threshold; if it succeeds the circuit is closed.
\<close>

theorem probe_decides:
  assumes "breaker_state b t key = HALF_OPEN"
  shows "\<exists>b1. check b t key = Inr b1
    \<and> fst (record_failure b1 u key) = Some (u + open_seconds b)
    \<and> (v < u + open_seconds b \<longrightarrow> breaker_state (snd (record_failure b1 u key)) v key = OPEN)
    \<and> breaker_state (record_success b1 key) v key = CLOSED"
proof -
  obtain c x where c: "circuits b key = Some c" "opens_until c = Some x" "\<not> t < x"
    using assms by (auto simp: breaker_state_def split: option.splits if_splits)
  then have "check b t key = Inr (b\<lparr>circuits := (circuits b)(key \<mapsto>
      c\<lparr>probing := True, consecutive_failures := 0\<rparr>)\<rparr>)" by (simp add: check_def)
  then show ?thesis
    by (intro exI conjI, assumption)
      (simp_all add: breaker_state_def record_failure_def record_success_def Let_def)
qed

text \<open>
  A half-open circuit admits every caller (\<open>check\<close>). Until the first probe is
  recorded, each further check passes as well: nothing consults the flag that marks a
  probe in flight.
\<close>

theorem half_open_admits_all:
  assumes "breaker_state b t key = HALF_OPEN" and "check b t key = Inr b1" and "t \<le> u"
  shows "\<exists>b2. check b1 u key = Inr b2 \<and> breaker_state b2 u key = HALF_OPEN"
  using assms
  by (auto simp: breaker_state_def check_def split: option.splits if_splits)

text \<open>
  The breaker counts operations, not attempts (\<open>retry_page\<close>). However many attempts a
  page with a closed circuit burned, a page that fails adds one failure, a page that
  returns clears the count, and a crash of our own code leaves the breaker as it was.
\<close>

theorem page_counts_once:
  assumes "breaker_state b (wall_clock env t) key = CLOSED" and "breaker_ok b"
    and "retry_page p env (Some (b, key)) t = (res, c, b')"
  shows "\<exists>b2. b' = Some b2 \<and>
    failures_in_a_row b2 key =
      (case res of Page r \<Rightarrow> 0 | Page_Error e \<Rightarrow> failures_in_a_row b key + 1
        | Page_Crash \<Rightarrow> failures_in_a_row b key)"
proof -
  have pass: "check b (wall_clock env t) key = Inr b"
    using assms(1) by (auto simp: breaker_state_def check_def split: option.splits if_splits)
  have fail: "failures_in_a_row (snd (record_failure b u key)) key = failures_in_a_row b key + 1" for u
    by (auto simp: failures_in_a_row_def record_failure_def new_circuit_def Let_def
        split: option.splits)
  show ?thesis
    using assms(3)
  proof (cases rule: retry_page_cases)
    case (refused b' key' e)
    with pass show ?thesis by simp
  next
    case ran
    from ran(2) [of b key] pass obtain "b' = Some (case res of Page r \<Rightarrow> record_success b key
            | Page_Error e \<Rightarrow> snd (record_failure b (wall_clock env (now c)) key)
            | Page_Crash \<Rightarrow> b)" by auto
    then show ?thesis using fail
      by (cases res) (simp_all add: record_success_def failures_in_a_row_def)
  qed
qed

section \<open>Instances\<close>

text \<open>Concrete pages and circuits: the witnesses of the laws of retry pacing.\<close>

definition blip :: connector_error where
  "blip = \<lparr>kind = Transient, attr_retry_after = None, details_retry_after = None\<rparr>"

definition come_back_later :: connector_error where
  "come_back_later =
     \<lparr>kind = Transient, attr_retry_after = None, details_retry_after = Some (Number 3600)\<rparr>"

text \<open>Two blips, then a page of seven records; every call takes a second.\<close>

definition flaky :: "nat page_env" where
  "flaky = \<lparr>operation = (\<lambda>k. if k < 2 then Raised blip else Returned 7),
     op_seconds = (\<lambda>_. 1), draw = (\<lambda>_. 1/2), overshoot = (\<lambda>_. 0), wall_clock = (\<lambda>t. t)\<rparr>"

definition always_down :: "nat page_env" where
  "always_down = flaky\<lparr>operation := (\<lambda>_. Raised blip)\<rparr>"

definition told_to_wait :: "nat page_env" where
  "told_to_wait = flaky\<lparr>operation := (\<lambda>_. Raised come_back_later)\<rparr>"

definition fresh_breaker :: breaker where
  "fresh_breaker = \<lparr>failure_threshold = 2, open_seconds = 600, circuits = (\<lambda>_. None)\<rparr>"

lemma fresh_breaker_new: "new_breaker 2 600 = Inr fresh_breaker"
  by (simp add: new_breaker_def fresh_breaker_def)

lemma fresh_ok: "breaker_ok fresh_breaker"
  by (simp add: breaker_ok_def fresh_breaker_def)

lemma default_sensible: "sensible DEFAULT_POLICY"
  by (simp add: sensible_def DEFAULT_POLICY_def)

lemma next_delay_bounds_witness:
  "next_delay DEFAULT_POLICY (1/2) (Some 45) 4 = Wait 45 \<and>
   next_delay DEFAULT_POLICY (1/2) None 10 = Wait 30 \<and> (30 :: pyfloat) \<le> cap_seconds DEFAULT_POLICY"
proof -
  have w: "next_delay DEFAULT_POLICY (1/2) (Some 45) 4 = Wait 45"
    "next_delay DEFAULT_POLICY (1/2) None 10 = Wait 30" by code_simp+
  with next_delay_bounds [OF default_sensible, of "1/2" 10 None] show ?thesis by simp
qed





lemma long_pause_is_quota_witness:
  "\<exists>c'. retry_loop DEFAULT_POLICY told_to_wait
     \<lparr>started = 0, now = 100, attempts = 4, slept = [1, 1, 1, 1]\<rparr> =
     (Page_Error (quota_error 3600), c') \<and> slept c' = [1, 1, 1, 1]"
  using long_pause_is_quota [of come_back_later 3600 DEFAULT_POLICY told_to_wait
      "\<lparr>started = 0, now = 100, attempts = 4, slept = [1, 1, 1, 1]\<rparr>"]
  by (simp add: come_back_later_def retry_after_of_def DEFAULT_POLICY_def told_to_wait_def)

lemma closed_below_threshold_witness:
  "failures_in_a_row (foldl breaker_step fresh_breaker
     [Went_Wrong 1 ''a'', Went_Wrong 2 ''b'', Succeeded ''a'', Went_Wrong 3 ''a'']) ''a'' < 2"
proof -
  have "breaker_state (foldl breaker_step fresh_breaker
     [Went_Wrong 1 ''a'', Went_Wrong 2 ''b'', Succeeded ''a'', Went_Wrong 3 ''a'']) 4 ''a'' = CLOSED"
    by code_simp
  from closed_below_threshold [OF fresh_breaker_new this] show ?thesis by blast
qed

definition one_down :: breaker where
  "one_down = snd (record_failure fresh_breaker 5 ''a'')"

definition two_down :: breaker where
  "two_down = snd (record_failure one_down 7 ''a'')"

lemma one_down_ok: "breaker_ok one_down" "breaker_state one_down 7 ''a'' = CLOSED"
  "failures_in_a_row one_down ''a'' = 1" "failure_threshold one_down = 2" "open_seconds one_down = 600"
  by (auto simp: one_down_def breaker_ok_def circuit_ok_def record_failure_def fresh_breaker_def
      new_circuit_def Let_def breaker_state_def failures_in_a_row_def)

lemma failure_opens_iff_witness:
  "breaker_state two_down 606 ''a'' = OPEN \<and> breaker_state two_down 607 ''a'' = HALF_OPEN"
proof -
  have "record_failure one_down 7 ''a'' = (fst (record_failure one_down 7 ''a''), two_down)"
    by (simp add: two_down_def)
  from failure_opens_iff [OF one_down_ok(1,2) this] show ?thesis by (auto simp: one_down_ok)
qed

lemma two_down_half_open: "breaker_state two_down 700 ''a'' = HALF_OPEN"
  by code_simp

lemma probe_decides_witness:
  "\<exists>b1. check two_down 700 ''a'' = Inr b1 \<and>
     fst (record_failure b1 710 ''a'') = Some (710 + open_seconds two_down)"
  using probe_decides [OF two_down_half_open, of 710 711] by auto

lemma half_open_admits_all_witness:
  "\<exists>b1 b2. check two_down 700 ''a'' = Inr b1 \<and> check b1 700 ''a'' = Inr b2"
proof -
  obtain b1 where "check two_down 700 ''a'' = Inr b1"
    using two_down_half_open by (auto simp: breaker_state_def check_def split: option.splits if_splits)
  with half_open_admits_all [OF two_down_half_open this, of 700] show ?thesis by auto
qed

definition failed_page :: "nat page_result \<times> pacing \<times> breaker option" where
  "failed_page = retry_page DEFAULT_POLICY always_down (Some (one_down, ''a'')) 7"

lemma failed_page_result:
  "length (slept (fst (snd failed_page))) = 4"
  "(case fst failed_page of Page_Error e \<Rightarrow> kind e = Transient | _ \<Rightarrow> False)"
  by code_simp+

lemma page_counts_once_witness:
  "\<exists>b2. snd (snd failed_page) = Some b2 \<and> failures_in_a_row b2 ''a'' = 2"
proof -
  have eq: "retry_page DEFAULT_POLICY always_down (Some (one_down, ''a'')) 7 =
     (fst failed_page, fst (snd failed_page), snd (snd failed_page))" by (simp add: failed_page_def)
  have "wall_clock always_down 7 = 7" by (simp add: always_down_def flaky_def)
  with page_counts_once [of one_down always_down 7 "''a''", OF _ one_down_ok(1) eq]
    failed_page_result(2)
  show ?thesis by (auto simp: one_down_ok split: page_result.splits)
qed

end
