(* ===== verification/Rate_Limiter.thy ===== *)
theory Rate_Limiter
  imports Prelude
begin

text \<open>
  \<open>connectors/ratelimit/limiter.py\<close>: the three Lua scripts over one bucket, the limiter
  that runs them on a shared Redis, and the in-process limiter it falls back to.

  A Redis hash with its two fields is a \<open>bucket\<close>, a key that is absent or has expired is
  \<open>None\<close>; the expiry of keys is modelled for the scripts on one key, an acquire over several keys
  runs while none expires. Numbers of Lua and Python are rationals. The environment says which script calls
  reach Redis, how much time passes between two readings of the clock, and the jitter of a
  wait; the world is the clock, the shared buckets and the buckets of the fallback. The
  reload of a script after a \<open>NOSCRIPT\<close> answer, the callbacks and the texts of errors are
  left out.
\<close>

section \<open>Policies\<close>

definition MIN_WAIT_SECONDS :: pyfloat where
  "MIN_WAIT_SECONDS = 5 / 1000"

definition MAX_PARK_SECONDS :: pyfloat where
  "MAX_PARK_SECONDS = 3600"

definition EPOCH_THRESHOLD_SECONDS :: pyfloat where
  "EPOCH_THRESHOLD_SECONDS = 1000000000"

definition FAIL_OPEN_FRACTION :: pyfloat where
  "FAIL_OPEN_FRACTION = 1 / 2"

text \<open>\<open>int(x)\<close> cuts towards zero.\<close>

definition py_int :: "pyfloat \<Rightarrow> int" where
  "py_int x = (if x < 0 then \<lceil>x\<rceil> else \<lfloor>x\<rfloor>)"

record bucket_policy =
  capacity :: int
  refill_per_second :: pyfloat

definition new_bucket_policy :: "int \<Rightarrow> pyfloat \<Rightarrow> py_error + bucket_policy" where
  "new_bucket_policy cap refill =
     (if cap < 1 then Inl ValueError
      else if refill \<le> 0 then Inl ValueError
      else Inr \<lparr>capacity = cap, refill_per_second = refill\<rparr>)"

definition ttl_seconds :: "bucket_policy \<Rightarrow> pyfloat" where
  "ttl_seconds p = 2 * of_int (capacity p) / refill_per_second p"

definition scaled :: "bucket_policy \<Rightarrow> pyfloat \<Rightarrow> py_error + bucket_policy" where
  "scaled p fraction =
     new_bucket_policy (max 1 (py_int (of_int (capacity p) * fraction)))
       (max (refill_per_second p * fraction) (1 / 1000000))"

definition DEFAULT_BUCKET_POLICY :: bucket_policy where
  "DEFAULT_BUCKET_POLICY = \<lparr>capacity = 10, refill_per_second = 1\<rparr>"

record rate_limit_policy =
  requests_per_minute :: int
  burst :: int
  backfill_fraction :: pyfloat

definition for_mode :: "rate_limit_policy \<Rightarrow> bool \<Rightarrow> int" where
  "for_mode p backfill =
     (if backfill then max 1 (py_int (of_int (requests_per_minute p) * backfill_fraction p))
      else requests_per_minute p)"

definition from_rate_limit_policy :: "rate_limit_policy \<Rightarrow> bool \<Rightarrow> py_error + bucket_policy" where
  "from_rate_limit_policy p backfill =
     new_bucket_policy (max 1 (burst p)) (max (of_int (for_mode p backfill) / 60) (1 / 1000000))"

record limiter_config =
  default_policy :: bucket_policy
  policies :: "string \<Rightarrow> bucket_policy option"
  fallback_default :: bucket_policy
  fallback_policies :: "string \<Rightarrow> bucket_policy option"
  fail_open :: bool

definition policy_for :: "limiter_config \<Rightarrow> string \<Rightarrow> bucket_policy" where
  "policy_for cfg key = (case policies cfg key of None \<Rightarrow> default_policy cfg | Some p \<Rightarrow> p)"

definition fallback_policy_for :: "limiter_config \<Rightarrow> string \<Rightarrow> bucket_policy" where
  "fallback_policy_for cfg key =
     (case fallback_policies cfg key of None \<Rightarrow> fallback_default cfg | Some p \<Rightarrow> p)"

definition set_policy :: "limiter_config \<Rightarrow> string \<Rightarrow> bucket_policy \<Rightarrow> limiter_config" where
  "set_policy cfg key p = cfg\<lparr>policies := (policies cfg)(key \<mapsto> p)\<rparr>"

definition limiter_keys :: "string list \<Rightarrow> string list" where
  "limiter_keys keys = ordered_unique (filter (\<lambda>k. k \<noteq> []) keys)"

section \<open>The scripts\<close>

record bucket =
  tokens :: pyfloat
  last_refill_ms :: int

definition cold_start :: "int \<Rightarrow> int \<Rightarrow> bucket option \<Rightarrow> bucket" where
  "cold_start cap now_ms b =
     (case b of None \<Rightarrow> \<lparr>tokens = of_int cap, last_refill_ms = now_ms\<rparr> | Some x \<Rightarrow> x)"

definition refilled :: "int \<Rightarrow> pyfloat \<Rightarrow> int \<Rightarrow> bucket \<Rightarrow> pyfloat" where
  "refilled cap rate now_ms b =
     (let elapsed = now_ms - last_refill_ms b;
          elapsed' = (if elapsed < 0 then 0 else elapsed)
      in min (of_int cap) (tokens b + (of_int elapsed' / 1000) * rate))"

record grant =
  allowed :: bool
  tokens_after :: pyfloat
  retry_after_ms :: int

definition ACQUIRE_LUA :: "int \<Rightarrow> pyfloat \<Rightarrow> int \<Rightarrow> pyfloat \<Rightarrow> bucket option \<Rightarrow> grant \<times> bucket" where
  "ACQUIRE_LUA cap rate now_ms cost b =
     (let t = refilled cap rate now_ms (cold_start cap now_ms b) in
      if t \<ge> cost then
        (\<lparr>allowed = True, tokens_after = t - cost, retry_after_ms = 0\<rparr>,
         \<lparr>tokens = t - cost, last_refill_ms = now_ms\<rparr>)
      else
        (\<lparr>allowed = False, tokens_after = t,
          retry_after_ms = \<lceil>((cost - t) / rate) * 1000\<rceil>\<rparr>,
         \<lparr>tokens = t, last_refill_ms = now_ms\<rparr>))"

definition RELEASE_LUA :: "int \<Rightarrow> pyfloat \<Rightarrow> bucket option \<Rightarrow> bucket option" where
  "RELEASE_LUA cap amount b =
     (case b of None \<Rightarrow> None
      | Some x \<Rightarrow> Some (x\<lparr>tokens := min (of_int cap) (tokens x + amount)\<rparr>))"

text \<open>The arguments \<open>observed = -1\<close> and \<open>not_before = 0\<close> stand for no information.\<close>

definition OBSERVE_LUA ::
  "int \<Rightarrow> pyfloat \<Rightarrow> int \<Rightarrow> int \<Rightarrow> int \<Rightarrow> bucket option \<Rightarrow> bucket option" where
  "OBSERVE_LUA cap rate now_ms observed not_before_ms b =
     (let current = refilled cap rate now_ms (cold_start cap now_ms b);
          target = (if observed \<ge> 0 then
              (let clamped = min (of_int observed) (of_int cap)
               in if clamped < current then clamped else current)
            else current);
          park = (not_before_ms > now_ms \<and> target < 1)
      in if target \<ge> current \<and> \<not> park then b
         else Some \<lparr>tokens = target, last_refill_ms = (if park then not_before_ms else now_ms)\<rparr>)"

section \<open>Keys that expire\<close>

text \<open>
  A stored key is a bucket with the millisecond of Redis' clock after which it is gone. \<open>PEXPIRE\<close> with
  a time that is not positive deletes the key. Each script runs at a reading \<open>now\<close> of the caller's
  clock, in seconds, and a millisecond \<open>r\<close> of Redis' clock.
\<close>

type_synonym stored_key = "(bucket \<times> int) option"

definition live_bucket :: "int \<Rightarrow> stored_key \<Rightarrow> bucket option" where
  "live_bucket r k = (case k of None \<Rightarrow> None | Some (x, gone) \<Rightarrow> if r \<le> gone then Some x else None)"

definition pexpire :: "int \<Rightarrow> int \<Rightarrow> bucket \<Rightarrow> stored_key" where
  "pexpire r ttl_ms x = (if ttl_ms \<le> 0 then None else Some (x, r + ttl_ms))"

definition ttl_ms :: "bucket_policy \<Rightarrow> int" where
  "ttl_ms p = py_int (ttl_seconds p * 1000)"

definition acquire_key :: "bucket_policy \<Rightarrow> pyfloat \<Rightarrow> int \<Rightarrow> stored_key \<Rightarrow> grant \<times> stored_key" where
  "acquire_key p now r k =
     (case ACQUIRE_LUA (capacity p) (refill_per_second p) (py_int (now * 1000)) 1 (live_bucket r k) of
        (g, b) \<Rightarrow> (g, pexpire r (ttl_ms p) b))"

definition release_key :: "bucket_policy \<Rightarrow> int \<Rightarrow> stored_key \<Rightarrow> stored_key" where
  "release_key p r k =
     (case RELEASE_LUA (capacity p) 1 (live_bucket r k) of None \<Rightarrow> None | Some b \<Rightarrow> pexpire r (ttl_ms p) b)"

text \<open>Whether \<open>OBSERVE_LUA\<close> writes: it returns before \<open>HSET\<close> when there is nothing to tighten.\<close>

definition observe_writes :: "int \<Rightarrow> pyfloat \<Rightarrow> int \<Rightarrow> int \<Rightarrow> int \<Rightarrow> bucket option \<Rightarrow> bool" where
  "observe_writes cap rate now_ms observed not_before_ms b \<longleftrightarrow>
     (let current = refilled cap rate now_ms (cold_start cap now_ms b);
          target = (if observed \<ge> 0 then
              (let clamped = min (of_int observed) (of_int cap)
               in if clamped < current then clamped else current)
            else current)
      in \<not> (target \<ge> current \<and> \<not> (not_before_ms > now_ms \<and> target < 1)))"

definition observe_key ::
  "bucket_policy \<Rightarrow> pyfloat \<Rightarrow> int \<Rightarrow> int option \<Rightarrow> pyfloat option \<Rightarrow> stored_key \<Rightarrow> stored_key" where
  "observe_key p now r rem park k =
     (let now_ms = py_int (now * 1000);
          observed = (case rem of None \<Rightarrow> -1 | Some n \<Rightarrow> max 0 n);
          not_before_ms = (case park of None \<Rightarrow> 0 | Some b \<Rightarrow> py_int (b * 1000));
          ttl = ttl_seconds p + (case park of None \<Rightarrow> 0 | Some b \<Rightarrow> max 0 (b - now))
      in if observe_writes (capacity p) (refill_per_second p) now_ms observed not_before_ms (live_bucket r k) then
           (case OBSERVE_LUA (capacity p) (refill_per_second p) now_ms observed not_before_ms (live_bucket r k) of
              None \<Rightarrow> None | Some b \<Rightarrow> pexpire r (py_int (ttl * 1000)) b)
         else if live_bucket r k = None then None else k)"

section \<open>The world\<close>

record limiter_env =
  redis_up :: "nat \<Rightarrow> bool"
  lag :: "nat \<Rightarrow> pyfloat"
  jitter :: "nat \<Rightarrow> pyfloat"

record limiter_world =
  clock :: pyfloat
  ticks :: nat
  shared :: "string \<Rightarrow> bucket option"
  local_buckets :: "string \<Rightarrow> (pyfloat \<times> pyfloat) option"
  degraded_calls :: nat

definition read_clock :: "limiter_env \<Rightarrow> limiter_world \<Rightarrow> pyfloat \<times> limiter_world" where
  "read_clock env w = (clock w, w\<lparr>clock := clock w + lag env (ticks w), ticks := ticks w + 1\<rparr>)"

definition sleep :: "limiter_env \<Rightarrow> pyfloat \<Rightarrow> limiter_world \<Rightarrow> limiter_world" where
  "sleep env d w = w\<lparr>clock := clock w + d + lag env (ticks w), ticks := ticks w + 1\<rparr>"

definition degrade :: "limiter_world \<Rightarrow> limiter_world" where
  "degrade w = w\<lparr>degraded_calls := degraded_calls w + 1\<rparr>"

text \<open>\<open>None\<close> when Redis could not be reached.\<close>

definition acquire_one ::
  "limiter_config \<Rightarrow> limiter_env \<Rightarrow> string \<Rightarrow> limiter_world \<Rightarrow> grant option \<times> limiter_world" where
  "acquire_one cfg env key w =
     (let p = policy_for cfg key; (now, w1) = read_clock env w in
      if redis_up env (ticks w) then
        (case ACQUIRE_LUA (capacity p) (refill_per_second p) (py_int (now * 1000)) 1 (shared w1 key) of
           (g, b) \<Rightarrow> (Some g, w1\<lparr>shared := (shared w1)(key \<mapsto> b)\<rparr>))
      else (None, w1))"

fun release :: "limiter_config \<Rightarrow> limiter_env \<Rightarrow> string list \<Rightarrow> limiter_world \<Rightarrow> limiter_world" where
  "release cfg env [] w = w"
| "release cfg env (key # keys) w =
     release cfg env keys
       (if redis_up env (ticks w) then
          w\<lparr>ticks := ticks w + 1, shared := (shared w)(key :=
             RELEASE_LUA (capacity (policy_for cfg key)) 1 (shared w key))\<rparr>
        else degrade (w\<lparr>ticks := ticks w + 1\<rparr>))"

definition wait_for :: "limiter_env \<Rightarrow> pyfloat \<Rightarrow> limiter_world \<Rightarrow> pyfloat" where
  "wait_for env retry_after w =
     (let base = max retry_after MIN_WAIT_SECONDS in base + jitter env (ticks w) * base * (1 / 10))"

section \<open>The in-process limiter\<close>

definition mem_refilled ::
  "limiter_config \<Rightarrow> limiter_env \<Rightarrow> string \<Rightarrow> limiter_world \<Rightarrow> pyfloat \<times> limiter_world" where
  "mem_refilled cfg env key w =
     (let p = fallback_policy_for cfg key; (now, w1) = read_clock env w;
          (t, since) = (case local_buckets w1 key of None \<Rightarrow> (of_int (capacity p), now) | Some x \<Rightarrow> x)
      in (min (of_int (capacity p)) (t + max 0 (now - since) * refill_per_second p), w1))"

datatype pass = All_Taken | Blocked string pyfloat | Redis_Down string

fun mem_take ::
  "limiter_config \<Rightarrow> limiter_env \<Rightarrow> string list \<Rightarrow> string list \<Rightarrow> limiter_world
     \<Rightarrow> pass \<times> string list \<times> limiter_world" where
  "mem_take cfg env [] taken w = (All_Taken, taken, w)"
| "mem_take cfg env (key # keys) taken w =
     (case mem_refilled cfg env key w of
        (t, w1) \<Rightarrow>
          if t \<ge> 1 then
            (case read_clock env w1 of
               (now, w2) \<Rightarrow> mem_take cfg env keys (taken @ [key])
                 (w2\<lparr>local_buckets := (local_buckets w2)(key \<mapsto> (t - 1, now))\<rparr>))
          else (Blocked key ((1 - t) / refill_per_second (fallback_policy_for cfg key)), taken, w1))"

fun mem_give_back :: "limiter_config \<Rightarrow> string list \<Rightarrow> limiter_world \<Rightarrow> limiter_world" where
  "mem_give_back cfg [] w = w"
| "mem_give_back cfg (key # keys) w =
     mem_give_back cfg keys
       (case local_buckets w key of
          None \<Rightarrow> w
        | Some (t, since) \<Rightarrow> w\<lparr>local_buckets := (local_buckets w)(key \<mapsto>
            (min (of_int (capacity (fallback_policy_for cfg key))) (t + 1), since))\<rparr>)"

datatype acquire_result = Acquired | Quota_Exceeded string pyfloat | Redis_Error

text \<open>
  The loops of \<open>acquire\<close>, with fuel for the number of passes over the keys; \<open>None\<close> is
  running out of it. The shared limiter has fuel of its own for its fallback.
\<close>

fun mem_acquire ::
  "limiter_config \<Rightarrow> limiter_env \<Rightarrow> nat \<Rightarrow> string list \<Rightarrow> pyfloat option \<Rightarrow> limiter_world
     \<Rightarrow> (acquire_result \<times> limiter_world) option" where
  "mem_acquire cfg env 0 keys deadline w = None"
| "mem_acquire cfg env (Suc fuel) keys deadline w =
     (case mem_take cfg env keys [] w of
        (Blocked key retry_after, taken, w1) \<Rightarrow>
          (let w2 = mem_give_back cfg taken w1;
               (now, w3) = (case deadline of None \<Rightarrow> (0, w2) | Some d \<Rightarrow> read_clock env w2);
               wait = max retry_after MIN_WAIT_SECONDS
           in case deadline of
                None \<Rightarrow> Some (Quota_Exceeded key retry_after, w3)
              | Some d \<Rightarrow>
                  if d - now \<le> 0 \<or> wait > d - now then Some (Quota_Exceeded key retry_after, w3)
                  else mem_acquire cfg env fuel keys deadline (sleep env wait w3))
      | (_, taken, w1) \<Rightarrow> Some (Acquired, w1))"

section \<open>The shared limiter\<close>

fun take_each ::
  "limiter_config \<Rightarrow> limiter_env \<Rightarrow> string list \<Rightarrow> string list \<Rightarrow> limiter_world
     \<Rightarrow> pass \<times> string list \<times> limiter_world" where
  "take_each cfg env [] taken w = (All_Taken, taken, w)"
| "take_each cfg env (key # keys) taken w =
     (case acquire_one cfg env key w of
        (None, w1) \<Rightarrow> (Redis_Down key, taken, w1)
      | (Some g, w1) \<Rightarrow>
          if allowed g then take_each cfg env keys (taken @ [key]) w1
          else (Blocked key (of_int (retry_after_ms g) / 1000), taken, w1))"

fun acquire_loop ::
  "limiter_config \<Rightarrow> limiter_env \<Rightarrow> nat \<Rightarrow> nat \<Rightarrow> string list \<Rightarrow> pyfloat option
     \<Rightarrow> pyfloat option \<Rightarrow> limiter_world \<Rightarrow> (acquire_result \<times> limiter_world) option" where
  "acquire_loop cfg env fb 0 keys timeout deadline w = None"
| "acquire_loop cfg env fb (Suc fuel) keys timeout deadline w =
     (case take_each cfg env keys [] w of
        (All_Taken, taken, w1) \<Rightarrow> Some (Acquired, w1)
      | (Redis_Down key, taken, w1) \<Rightarrow>
          if \<not> fail_open cfg then Some (Redis_Error, release cfg env taken w1)
          else
            (case timeout of
               None \<Rightarrow> mem_acquire cfg env fb keys None (degrade w1)
             | Some s \<Rightarrow> (case read_clock env (degrade w1) of
                   (now, w2) \<Rightarrow> mem_acquire cfg env fb keys (Some (now + s)) w2))
      | (Blocked key retry_after, taken, w1) \<Rightarrow>
          (let w2 = release cfg env taken w1;
               wait = wait_for env retry_after w2
           in case deadline of
                None \<Rightarrow> Some (Quota_Exceeded key retry_after, w2)
              | Some d \<Rightarrow>
                  (case read_clock env w2 of
                     (now, w3) \<Rightarrow>
                       if d - now \<le> 0 \<or> wait > d - now
                       then Some (Quota_Exceeded key retry_after, w3)
                       else acquire_loop cfg env fb fuel keys timeout deadline (sleep env wait w3))))"

definition acquire ::
  "limiter_config \<Rightarrow> limiter_env \<Rightarrow> nat \<Rightarrow> string list \<Rightarrow> pyfloat option \<Rightarrow> limiter_world
     \<Rightarrow> (acquire_result \<times> limiter_world) option" where
  "acquire cfg env fuel keys timeout w =
     (let ordered = limiter_keys keys in
      if ordered = [] then Some (Acquired, w)
      else
        (case timeout of
           None \<Rightarrow> acquire_loop cfg env fuel fuel ordered None None w
         | Some s \<Rightarrow> (case read_clock env w of
             (now, w1) \<Rightarrow> acquire_loop cfg env fuel fuel ordered timeout (Some (now + s)) w1)))"

section \<open>What the provider says\<close>

record rate_limit_hint =
  remaining :: "int option"
  reset_at :: "pyfloat option"
  retry_after_seconds :: "pyfloat option"

text \<open>A missing value and a zero are both false.\<close>

definition truthy :: "pyfloat option \<Rightarrow> bool" where
  "truthy v \<longleftrightarrow> (case v of None \<Rightarrow> False | Some x \<Rightarrow> x \<noteq> 0)"

definition not_before :: "rate_limit_hint \<Rightarrow> pyfloat \<Rightarrow> pyfloat option" where
  "not_before h now =
     (if truthy (retry_after_seconds h)
      then Some (now + min (the (retry_after_seconds h)) MAX_PARK_SECONDS)
      else
        (case reset_at h of
           None \<Rightarrow> None
         | Some r \<Rightarrow>
             if r \<le> 0 then None
             else
               (let instant = (if r \<ge> EPOCH_THRESHOLD_SECONDS then r else now + r) in
                if instant \<le> now then None else Some (min instant (now + MAX_PARK_SECONDS)))))"

definition hint_remaining :: "rate_limit_hint \<Rightarrow> int option" where
  "hint_remaining h =
     (if remaining h = None \<and> truthy (retry_after_seconds h) then Some 0 else remaining h)"

fun observe_each ::
  "limiter_config \<Rightarrow> limiter_env \<Rightarrow> pyfloat \<Rightarrow> int option \<Rightarrow> pyfloat option \<Rightarrow> string list
     \<Rightarrow> limiter_world \<Rightarrow> py_error + limiter_world" where
  "observe_each cfg env now rem park [] w = Inr w"
| "observe_each cfg env now rem park (key # keys) w =
     (let p = policy_for cfg key; w1 = w\<lparr>ticks := ticks w + 1\<rparr> in
      if redis_up env (ticks w) then
        observe_each cfg env now rem park keys
          (w1\<lparr>shared := (shared w1)(key :=
             OBSERVE_LUA (capacity p) (refill_per_second p) (py_int (now * 1000))
               (case rem of None \<Rightarrow> -1 | Some r \<Rightarrow> max 0 r)
               (case park of None \<Rightarrow> 0 | Some t \<Rightarrow> py_int (t * 1000)) (shared w1 key))\<rparr>)
      else if \<not> fail_open cfg then Inl RuntimeError
      else Inr (degrade w1))"

definition observe ::
  "limiter_config \<Rightarrow> limiter_env \<Rightarrow> string list \<Rightarrow> rate_limit_hint \<Rightarrow> limiter_world
     \<Rightarrow> py_error + limiter_world" where
  "observe cfg env keys h w =
     (case read_clock env w of
        (now, w1) \<Rightarrow>
          if hint_remaining h = None \<and> not_before h now = None then Inr w1
          else observe_each cfg env now (hint_remaining h) (not_before h now) (limiter_keys keys) w1)"

fun mem_observe_each ::
  "limiter_config \<Rightarrow> limiter_env \<Rightarrow> int \<Rightarrow> string list \<Rightarrow> limiter_world \<Rightarrow> limiter_world" where
  "mem_observe_each cfg env rem [] w = w"
| "mem_observe_each cfg env rem (key # keys) w =
     (case mem_refilled cfg env key w of
        (current, w1) \<Rightarrow>
          (let target = min (of_int (max 0 rem)) (of_int (capacity (fallback_policy_for cfg key))) in
           mem_observe_each cfg env rem keys
             (if target < current then
                (case read_clock env w1 of
                   (now, w2) \<Rightarrow> w2\<lparr>local_buckets := (local_buckets w2)(key \<mapsto> (target, now))\<rparr>)
              else w1)))"

definition mem_observe ::
  "limiter_config \<Rightarrow> limiter_env \<Rightarrow> string list \<Rightarrow> rate_limit_hint \<Rightarrow> limiter_world \<Rightarrow> limiter_world" where
  "mem_observe cfg env keys h w =
     (case hint_remaining h of
        None \<Rightarrow> w
      | Some r \<Rightarrow> mem_observe_each cfg env r (limiter_keys keys) w)"

end
