(* ===== verification/Limiter_Laws.thy ===== *)
theory Limiter_Laws
  imports Rate_Limiter
begin

text \<open>
  The laws of the token bucket. \<open>paced_bucket\<close> states what a bucket owes its users, the
  rate bound is proved once for it, and the Lua scripts are its instance. The other laws
  are about a whole acquire over several buckets, and about clocks that disagree.
\<close>

section \<open>The interface of a bucket\<close>

text \<open>What a sequence of events takes out of a bucket.\<close>

fun total_gain :: "('b \<Rightarrow> 'e \<Rightarrow> 'b) \<Rightarrow> ('b \<Rightarrow> 'e \<Rightarrow> pyfloat) \<Rightarrow> 'b \<Rightarrow> 'e list \<Rightarrow> pyfloat" where
  "total_gain step gain b [] = 0"
| "total_gain step gain b (e # es) = gain b e + total_gain step gain (step b e) es"

locale paced_bucket =
  fixes step :: "'b \<Rightarrow> 'e \<Rightarrow> 'b" and gain :: "'b \<Rightarrow> 'e \<Rightarrow> pyfloat"
    and moment :: "'e \<Rightarrow> pyfloat" and level :: "'b \<Rightarrow> pyfloat \<Rightarrow> pyfloat"
    and ok :: "'b \<Rightarrow> bool" and fair :: "'e \<Rightarrow> bool" and cap :: pyfloat and rate :: pyfloat
  assumes rate_nonneg: "0 \<le> rate"
    and ok_step: "\<lbrakk>ok b; fair e\<rbrakk> \<Longrightarrow> ok (step b e)"
    and level_bounds: "ok b \<Longrightarrow> 0 \<le> level b t \<and> level b t \<le> cap"
    and level_slope: "\<lbrakk>ok b; t \<le> u\<rbrakk> \<Longrightarrow> level b u \<le> level b t + rate * (u - t)"
    and step_pays: "\<lbrakk>ok b; fair e\<rbrakk> \<Longrightarrow> level (step b e) (moment e) + gain b e \<le> level b (moment e)"
begin

lemma gain_below_level:
  "\<lbrakk>ok b; sorted (map moment es); \<forall>e \<in> set es. fair e \<and> t \<le> moment e \<and> moment e \<le> u; t \<le> u\<rbrakk> \<Longrightarrow>
   total_gain step gain b es \<le> level b t + rate * (u - t)"
proof (induction es arbitrary: b t)
  case Nil
  then show ?case using level_bounds [of b t] rate_nonneg by simp
next
  case (Cons e es)
  let ?m = "moment e"
  have "total_gain step gain (step b e) es \<le> level (step b e) ?m + rate * (u - ?m)"
    using Cons.prems by (intro Cons.IH ok_step) auto
  moreover have "level b ?m \<le> level b t + rate * (?m - t)"
    using Cons.prems by (intro level_slope) auto
  ultimately have "total_gain step gain b (e # es) \<le> level b t + rate * (?m - t) + rate * (u - ?m)"
    using step_pays [OF Cons.prems(1), of e] Cons.prems(3) by simp
  then show ?case by (simp add: algebra_simps)
qed

lemma rate_bound:
  assumes "ok b" "sorted (map moment es)" "\<forall>e \<in> set es. fair e \<and> t \<le> moment e \<and> moment e \<le> u" "t \<le> u"
  shows "total_gain step gain b es \<le> cap + rate * (u - t)"
  using gain_below_level [OF assms] level_bounds [OF assms(1), of t] by simp

end

section \<open>The scripts are a bucket\<close>

text \<open>The tokens a bucket holds at a time in seconds.\<close>

definition bucket_level :: "bucket_policy \<Rightarrow> bucket option \<Rightarrow> pyfloat \<Rightarrow> pyfloat" where
  "bucket_level p b t =
     (case b of None \<Rightarrow> of_int (capacity p)
      | Some x \<Rightarrow> min (of_int (capacity p))
          (tokens x + max 0 (t - of_int (last_refill_ms x) / 1000) * refill_per_second p))"

definition bucket_ok :: "bucket_policy \<Rightarrow> bucket option \<Rightarrow> bool" where
  "bucket_ok p b \<longleftrightarrow>
     (case b of None \<Rightarrow> True | Some x \<Rightarrow> 0 \<le> tokens x \<and> tokens x \<le> of_int (capacity p))"

definition policy_ok :: "bucket_policy \<Rightarrow> bool" where
  "policy_ok p \<longleftrightarrow> 1 \<le> capacity p \<and> 0 < refill_per_second p"

lemma new_bucket_policy_ok: "new_bucket_policy c r = Inr p \<Longrightarrow> policy_ok p"
  by (auto simp: new_bucket_policy_def policy_ok_def split: if_splits)

lemma refilled_level:
  "refilled (capacity p) (refill_per_second p) t (cold_start (capacity p) t b) =
   bucket_level p b (of_int t / 1000)"
proof (cases b)
  case None
  then show ?thesis by (simp add: refilled_def cold_start_def bucket_level_def)
next
  case (Some x)
  have "of_int (if t - last_refill_ms x < 0 then 0 else t - last_refill_ms x) / 1000 =
      max 0 (of_int t / 1000 - of_int (last_refill_ms x) / 1000 :: pyfloat)"
    by (auto simp: max_def diff_divide_distrib [symmetric])
  with Some show ?thesis by (simp add: refilled_def cold_start_def bucket_level_def Let_def)
qed

lemma level_bounds:
  assumes "policy_ok p" "bucket_ok p b"
  shows "0 \<le> bucket_level p b t \<and> bucket_level p b t \<le> of_int (capacity p)"
  using assms by (auto simp: bucket_level_def bucket_ok_def policy_ok_def split: option.splits)

lemma level_slope:
  assumes "policy_ok p" "bucket_ok p b" "t \<le> u"
  shows "bucket_level p b u \<le> bucket_level p b t + refill_per_second p * (u - t)"
proof (cases b)
  case None
  with assms show ?thesis by (simp add: bucket_level_def policy_ok_def)
next
  case (Some x)
  let ?m = "\<lambda>v. max 0 (v - of_int (last_refill_ms x) / 1000) :: pyfloat"
  have "?m u \<le> ?m t + (u - t)" using assms(3) by (auto simp: max_def)
  then have "?m u * refill_per_second p \<le> (?m t + (u - t)) * refill_per_second p"
    using assms(1) by (intro mult_right_mono) (auto simp: policy_ok_def)
  moreover have "0 \<le> refill_per_second p * (u - t)" using assms(1,3) by (simp add: policy_ok_def)
  ultimately show ?thesis using Some by (auto simp: bucket_level_def algebra_simps min_def)
qed

lemma level_written [simp]:
  "bucket_level p (Some \<lparr>tokens = x, last_refill_ms = t\<rparr>) (of_int t / 1000) = min (of_int (capacity p)) x"
  by (simp add: bucket_level_def)

lemma acquire_result_cases:
  "ACQUIRE_LUA (capacity p) (refill_per_second p) t 1 b =
     (let l = bucket_level p b (of_int t / 1000) in
      if 1 \<le> l then (\<lparr>allowed = True, tokens_after = l - 1, retry_after_ms = 0\<rparr>,
                      \<lparr>tokens = l - 1, last_refill_ms = t\<rparr>)
      else (\<lparr>allowed = False, tokens_after = l,
              retry_after_ms = \<lceil>((1 - l) / refill_per_second p) * 1000\<rceil>\<rparr>,
            \<lparr>tokens = l, last_refill_ms = t\<rparr>))"
  by (simp add: ACQUIRE_LUA_def refilled_level Let_def)

lemma observe_result:
  "OBSERVE_LUA (capacity p) (refill_per_second p) t obs nb b = b \<or>
   (\<exists>x m. OBSERVE_LUA (capacity p) (refill_per_second p) t obs nb b =
        Some \<lparr>tokens = x, last_refill_ms = m\<rparr> \<and>
      x \<le> bucket_level p b (of_int t / 1000) \<and> t \<le> m)"
  by (auto simp: OBSERVE_LUA_def refilled_level Let_def)

lemma level_parked:
  "t \<le> m \<Longrightarrow> bucket_level p (Some \<lparr>tokens = x, last_refill_ms = m\<rparr>) (of_int t / 1000) \<le> x"
  by (simp add: bucket_level_def)

text \<open>
  The calls of all workers on one key, each with the caller's clock and Redis' clock. A granted call
  takes one token out, a release gives one back.
\<close>

datatype script_call =
    Acquire_Call pyfloat int
  | Release_Call pyfloat int
  | Observe_Call pyfloat int "int option" "pyfloat option"

fun caller_ms :: "script_call \<Rightarrow> int" where
  "caller_ms (Acquire_Call now r) = py_int (now * 1000)"
| "caller_ms (Release_Call now r) = py_int (now * 1000)"
| "caller_ms (Observe_Call now r rem park) = py_int (now * 1000)"

fun redis_ms :: "script_call \<Rightarrow> int" where
  "redis_ms (Acquire_Call now r) = r"
| "redis_ms (Release_Call now r) = r"
| "redis_ms (Observe_Call now r rem park) = r"

fun script_step :: "bucket_policy \<Rightarrow> stored_key \<Rightarrow> script_call \<Rightarrow> stored_key" where
  "script_step p k (Acquire_Call now r) = snd (acquire_key p now r k)"
| "script_step p k (Release_Call now r) = release_key p r k"
| "script_step p k (Observe_Call now r rem park) = observe_key p now r rem park k"

fun script_gain :: "bucket_policy \<Rightarrow> stored_key \<Rightarrow> script_call \<Rightarrow> pyfloat" where
  "script_gain p k (Acquire_Call now r) = of_bool (allowed (fst (acquire_key p now r k)))"
| "script_gain p k (Release_Call now r) = -1"
| "script_gain p k (Observe_Call now r rem park) = 0"

definition script_moment :: "script_call \<Rightarrow> pyfloat" where
  "script_moment c = of_int (caller_ms c) / 1000"

text \<open>
  The callers' clocks are ahead of Redis' by \<open>least\<close> to \<open>least + spread\<close> milliseconds; a refill from
  empty takes \<open>refill_ms\<close>; the truncated time to live leaves room for both.
\<close>

definition clocks_within :: "int \<Rightarrow> int \<Rightarrow> script_call \<Rightarrow> bool" where
  "clocks_within least spread c \<longleftrightarrow>
     least \<le> caller_ms c - redis_ms c \<and> caller_ms c - redis_ms c \<le> least + spread"

definition refill_ms :: "bucket_policy \<Rightarrow> pyfloat" where
  "refill_ms p = of_int (capacity p) / refill_per_second p * 1000"

definition outlives_refill :: "bucket_policy \<Rightarrow> int \<Rightarrow> bool" where
  "outlives_refill p spread \<longleftrightarrow> 0 \<le> spread \<and> refill_ms p + of_int spread \<le> of_int (ttl_ms p)"

lemma slow_refill_outlives:
  assumes "policy_ok p" "0 \<le> spread" "1 + of_int spread \<le> refill_ms p"
  shows "outlives_refill p spread"
proof -
  have e: "ttl_seconds p * 1000 = 2 * refill_ms p" by (simp add: ttl_seconds_def refill_ms_def)
  have "0 \<le> ttl_seconds p * 1000" using assms(2,3) e by simp
  then have "ttl_ms p = \<lfloor>2 * refill_ms p\<rfloor>" unfolding ttl_ms_def py_int_def e by simp
  then have "2 * refill_ms p - 1 \<le> of_int (ttl_ms p)" by linarith
  then show ?thesis using assms by (simp add: outlives_refill_def)
qed

text \<open>
  What a stored key is worth: its bucket refills from its anchor, but no later than a refill before
  the key may be gone, so that a key is full when it expires.
\<close>

definition stored_level :: "bucket_policy \<Rightarrow> int \<Rightarrow> stored_key \<Rightarrow> pyfloat \<Rightarrow> pyfloat" where
  "stored_level p least k t =
     (case k of None \<Rightarrow> of_int (capacity p)
      | Some (x, gone) \<Rightarrow> min (of_int (capacity p))
          (tokens x + max 0 (t - min (of_int (last_refill_ms x)) (of_int (gone + least) - refill_ms p) / 1000)
             * refill_per_second p))"

definition stored_ok :: "bucket_policy \<Rightarrow> stored_key \<Rightarrow> bool" where
  "stored_ok p k \<longleftrightarrow> bucket_ok p (map_option fst k)"

lemma live_ok: "stored_ok p k \<Longrightarrow> bucket_ok p (live_bucket r k)"
  by (auto simp: stored_ok_def live_bucket_def bucket_ok_def split: option.splits prod.splits)

lemma stored_bounds:
  assumes "policy_ok p" "stored_ok p k"
  shows "0 \<le> stored_level p least k t \<and> stored_level p least k t \<le> of_int (capacity p)"
  using assms by (auto simp: stored_level_def stored_ok_def bucket_ok_def policy_ok_def split: option.splits prod.splits)

lemma refilling_mono:
  assumes "policy_ok p" "a \<le> a'"
  shows "max 0 (t - a' / 1000) * refill_per_second p \<le> max 0 (t - a / 1000 :: pyfloat) * refill_per_second p"
proof -
  have "a / 1000 \<le> a' / 1000" using assms(2) by simp
  then have "max 0 (t - a' / 1000) \<le> max 0 (t - a / 1000)" by (intro max.mono) simp_all
  then show ?thesis using assms(1) by (intro mult_right_mono) (simp_all add: policy_ok_def)
qed

lemma stored_slope:
  assumes "policy_ok p" "t \<le> u"
  shows "stored_level p least k u \<le> stored_level p least k t + refill_per_second p * (u - t)"
proof (cases k)
  case None
  with assms show ?thesis by (simp add: stored_level_def policy_ok_def)
next
  case (Some y)
  obtain x gone where y: "y = (x, gone)" by fastforce
  let ?a = "min (of_int (last_refill_ms x)) (of_int (gone + least) - refill_ms p) / 1000 :: pyfloat"
  have "max 0 (u - ?a) \<le> max 0 (t - ?a) + (u - t)" using assms(2) by (auto simp: max_def)
  then have "max 0 (u - ?a) * refill_per_second p \<le> (max 0 (t - ?a) + (u - t)) * refill_per_second p"
    using assms(1) by (intro mult_right_mono) (auto simp: policy_ok_def)
  moreover have "0 \<le> refill_per_second p * (u - t)" using assms by (simp add: policy_ok_def)
  ultimately show ?thesis using Some y by (auto simp: stored_level_def algebra_simps min_def)
qed

text \<open>The level a script sees is at most what the key is worth.\<close>

lemma live_level:
  assumes p: "policy_ok p" and k: "stored_ok p k" and near: "of_int r + of_int least \<le> (of_int t :: pyfloat)"
  shows "bucket_level p (live_bucket r k) (of_int t / 1000) \<le> stored_level p least k (of_int t / 1000)"
proof (cases k)
  case None
  then show ?thesis by (simp add: live_bucket_def bucket_level_def stored_level_def)
next
  case (Some y)
  obtain x gone where y: "y = (x, gone)" by fastforce
  let ?g = "of_int (gone + least) - refill_ms p" and ?t = "of_int t / 1000 :: pyfloat"
  let ?a = "min (of_int (last_refill_ms x)) ?g :: pyfloat"
  show ?thesis
  proof (cases "r \<le> gone")
    case True
    have "max 0 (?t - of_int (last_refill_ms x) / 1000) * refill_per_second p \<le> max 0 (?t - ?a / 1000) * refill_per_second p"
      by (rule refilling_mono [OF p]) simp
    then show ?thesis using True Some y by (auto simp: live_bucket_def bucket_level_def stored_level_def min_def)
  next
    case False
    then have "of_int gone \<le> (of_int r :: pyfloat)" by simp
    then have "refill_ms p \<le> of_int t - ?g" using near by simp
    then have "refill_ms p / 1000 \<le> (of_int t - ?g) / 1000" by (rule divide_right_mono) simp
    then have "refill_ms p / 1000 \<le> max 0 (?t - ?g / 1000)" by (simp only: diff_divide_distrib max.coboundedI2)
    moreover have "max 0 (?t - ?g / 1000) * refill_per_second p \<le> max 0 (?t - ?a / 1000) * refill_per_second p"
      by (rule refilling_mono [OF p]) simp
    moreover have "refill_ms p / 1000 * refill_per_second p = of_int (capacity p)"
      using p by (simp add: refill_ms_def policy_ok_def)
    moreover have "refill_ms p / 1000 * refill_per_second p \<le> max 0 (?t - ?g / 1000) * refill_per_second p"
      using calculation(1) p by (intro mult_right_mono) (simp_all add: policy_ok_def)
    ultimately have "of_int (capacity p) \<le> max 0 (?t - ?a / 1000) * refill_per_second p" by linarith
    moreover have "0 \<le> tokens x" using k Some y by (simp add: stored_ok_def bucket_ok_def)
    ultimately have "stored_level p least k ?t = of_int (capacity p)"
      using Some y by (simp add: stored_level_def)
    then show ?thesis using level_bounds [OF p live_ok [OF k], of r ?t] by simp
  qed
qed

text \<open>A bucket written now with at least the usual time to live is worth its tokens.\<close>

lemma written_worth:
  assumes "policy_ok p" "outlives_refill p spread" "of_int t - of_int (least + spread) \<le> (of_int r :: pyfloat)"
    and "ttl_ms p \<le> ttl" "t \<le> last_refill_ms x"
  shows "stored_level p least (pexpire r ttl x) (of_int t / 1000) = min (of_int (capacity p)) (tokens x)"
proof -
  have T: "refill_ms p + of_int spread \<le> of_int (ttl_ms p)" "0 < refill_ms p"
    using assms(1,2) by (simp_all add: outlives_refill_def refill_ms_def policy_ok_def)
  have "0 \<le> (of_int spread :: pyfloat)" using assms(2) by (simp add: outlives_refill_def)
  then have "(0 :: pyfloat) < of_int (ttl_ms p)" using T by linarith
  then have "0 < ttl_ms p" by simp
  then have "0 < ttl" using assms(4) by linarith
  moreover have "of_int (ttl_ms p) \<le> (of_int ttl :: pyfloat)" using assms(4) by simp
  then have "of_int t \<le> of_int (r + ttl + least) - refill_ms p" using T assms(3) by (simp add: algebra_simps)
  then have "max 0 (of_int t / 1000 - min (of_int (last_refill_ms x)) (of_int (r + ttl + least) - refill_ms p) / 1000) = (0 :: pyfloat)"
    using assms(5) by (simp add: min_def divide_right_mono)
  ultimately show ?thesis by (simp add: stored_level_def pexpire_def)
qed

lemma observe_written:
  "observe_writes (capacity p) (refill_per_second p) t obs nb b \<Longrightarrow>
   \<exists>x m. OBSERVE_LUA (capacity p) (refill_per_second p) t obs nb b = Some \<lparr>tokens = x, last_refill_ms = m\<rparr> \<and>
     x \<le> bucket_level p b (of_int t / 1000) \<and> t \<le> m"
  unfolding OBSERVE_LUA_def observe_writes_def refilled_level Let_def by (auto split: if_splits)

lemma py_int_mono:
  assumes "x \<le> y"
  shows "py_int x \<le> py_int y"
proof (cases "x < 0 \<and> 0 \<le> y")
  case True
  then have "\<lceil>x\<rceil> \<le> 0" "0 \<le> \<lfloor>y\<rfloor>" by (simp_all add: ceiling_le_iff)
  then have "\<lceil>x\<rceil> \<le> \<lfloor>y\<rfloor>" by (rule order_trans)
  then show ?thesis using True by (simp add: py_int_def)
qed (use assms in \<open>auto simp: py_int_def floor_mono ceiling_mono\<close>)

lemma capped_step: "a \<le> b \<Longrightarrow> min c (min c (x + 1) + a) \<le> min c (x + b) + (1 :: pyfloat)"
  by (auto simp: min_def)

lemma released_worth:
  assumes p: "policy_ok p" and out: "outlives_refill p spread"
    and near: "of_int t - of_int (least + spread) \<le> (of_int r :: pyfloat)" and x: "live_bucket r k = Some x"
  shows "stored_level p least (pexpire r (ttl_ms p) (x\<lparr>tokens := min (of_int (capacity p)) (tokens x + 1)\<rparr>)) (of_int t / 1000)
           \<le> stored_level p least k (of_int t / 1000) + 1"
proof -
  obtain gone where k: "k = Some (x, gone)" using x by (auto simp: live_bucket_def split: option.splits if_splits)
  let ?x = "x\<lparr>tokens := min (of_int (capacity p)) (tokens x + 1)\<rparr>" and ?t = "of_int t / 1000 :: pyfloat"
  let ?a = "min (of_int (last_refill_ms x)) (of_int (gone + least) - refill_ms p) :: pyfloat"
  have old: "stored_level p least k ?t = min (of_int (capacity p)) (tokens x + max 0 (?t - ?a / 1000) * refill_per_second p)"
    using k by (simp add: stored_level_def)
  have pos: "0 \<le> max 0 (?t - ?a / 1000) * refill_per_second p" using p by (simp add: policy_ok_def)
  show ?thesis
  proof (cases "t \<le> last_refill_ms x")
    case True
    then have "stored_level p least (pexpire r (ttl_ms p) ?x) ?t = min (of_int (capacity p)) (tokens ?x)"
      by (intro written_worth [OF p out near]) simp_all
    then show ?thesis using old pos by (simp add: min_def)
  next
    case False
    have T: "refill_ms p + of_int spread \<le> of_int (ttl_ms p)" "0 < refill_ms p" "(0 :: pyfloat) \<le> of_int spread"
      using p out by (simp_all add: outlives_refill_def refill_ms_def policy_ok_def)
    then have "(0 :: pyfloat) < of_int (ttl_ms p)" by linarith
    then have ttl: "\<not> ttl_ms p \<le> 0" by simp
    have "of_int (last_refill_ms x) < (of_int t :: pyfloat)" using False by simp
    then have "of_int (last_refill_ms x) \<le> of_int (r + ttl_ms p + least) - refill_ms p" using T near by simp
    then have "stored_level p least (pexpire r (ttl_ms p) ?x) ?t =
        min (of_int (capacity p)) (min (of_int (capacity p)) (tokens x + 1) + max 0 (?t - of_int (last_refill_ms x) / 1000) * refill_per_second p)"
      using ttl by (simp add: stored_level_def pexpire_def min_absorb1)
    moreover have "max 0 (?t - of_int (last_refill_ms x) / 1000) * refill_per_second p \<le> max 0 (?t - ?a / 1000) * refill_per_second p"
      by (rule refilling_mono [OF p]) simp
    ultimately show ?thesis unfolding old by (simp only: capped_step)
  qed
qed

lemma observe_lua_ok:
  assumes "policy_ok p" "bucket_ok p b"
  shows "bucket_ok p (OBSERVE_LUA (capacity p) (refill_per_second p) t obs nb b)"
  using assms level_bounds [OF assms, of "of_int t / 1000"]
  by (auto simp: OBSERVE_LUA_def refilled_level bucket_ok_def Let_def policy_ok_def)

lemma pexpire_ok: "bucket_ok p (Some x) \<Longrightarrow> stored_ok p (pexpire r ttl x)"
  by (simp add: stored_ok_def pexpire_def bucket_ok_def)

lemma expired_ok: "stored_ok p None"
  by (simp add: stored_ok_def bucket_ok_def)

lemma script_step_ok:
  assumes p: "policy_ok p" and k: "stored_ok p k"
  shows "stored_ok p (script_step p k e)"
proof (cases e)
  case (Acquire_Call now r)
  with level_bounds [OF p live_ok [OF k], of r "of_int (py_int (now * 1000)) / 1000"] show ?thesis
    by (auto simp: acquire_key_def acquire_result_cases stored_ok_def bucket_ok_def pexpire_def Let_def)
next
  case (Release_Call now r)
  with p live_ok [OF k, of r] show ?thesis
    by (auto simp: release_key_def RELEASE_LUA_def stored_ok_def bucket_ok_def pexpire_def policy_ok_def split: option.splits)
next
  case (Observe_Call now r rem park)
  let ?t = "py_int (now * 1000)" and ?b = "live_bucket r k"
  let ?obs = "case rem of None \<Rightarrow> -1 | Some n \<Rightarrow> max 0 n" and ?nb = "case park of None \<Rightarrow> 0 | Some b \<Rightarrow> py_int (b * 1000)"
  have o: "bucket_ok p (OBSERVE_LUA (capacity p) (refill_per_second p) ?t ?obs ?nb ?b)"
    by (rule observe_lua_ok [OF p live_ok [OF k]])
  show ?thesis
  proof (cases "observe_writes (capacity p) (refill_per_second p) ?t ?obs ?nb ?b")
    case True
    with o Observe_Call show ?thesis
      by (cases "OBSERVE_LUA (capacity p) (refill_per_second p) ?t ?obs ?nb ?b")
        (simp_all add: observe_key_def Let_def pexpire_ok expired_ok)
  qed (use k Observe_Call in \<open>simp add: observe_key_def Let_def expired_ok\<close>)
qed

lemma script_step_pays:
  assumes p: "policy_ok p" and k: "stored_ok p k" and out: "outlives_refill p spread" and near: "clocks_within least spread e"
  shows "stored_level p least (script_step p k e) (script_moment e) + script_gain p k e
           \<le> stored_level p least k (script_moment e)"
proof (cases e)
  case (Acquire_Call now r)
  let ?t = "py_int (now * 1000)"
  have n: "of_int ?t - of_int (least + spread) \<le> (of_int r :: pyfloat)" "of_int r + of_int least \<le> (of_int ?t :: pyfloat)"
    using near Acquire_Call by (simp_all add: clocks_within_def flip: of_int_add of_int_diff)
  let ?b = "snd (ACQUIRE_LUA (capacity p) (refill_per_second p) ?t 1 (live_bucket r k))"
  have "last_refill_ms ?b = ?t" by (simp add: acquire_result_cases Let_def)
  then have w: "stored_level p least (pexpire r (ttl_ms p) ?b) (of_int ?t / 1000) = min (of_int (capacity p)) (tokens ?b)"
    by (intro written_worth [OF p out n(1)]) simp_all
  show ?thesis using w live_level [OF p k n(2)] Acquire_Call
    by (auto simp: acquire_key_def script_moment_def acquire_result_cases Let_def split: prod.splits)
next
  case (Release_Call now r)
  let ?t = "py_int (now * 1000)"
  have n: "of_int ?t - of_int (least + spread) \<le> (of_int r :: pyfloat)" "of_int r + of_int least \<le> (of_int ?t :: pyfloat)"
    using near Release_Call by (simp_all add: clocks_within_def flip: of_int_add of_int_diff)
  show ?thesis
  proof (cases "live_bucket r k")
    case None
    then have "bucket_level p (live_bucket r k) (of_int ?t / 1000) = of_int (capacity p)" by (simp add: bucket_level_def)
    then show ?thesis using live_level [OF p k n(2)] Release_Call None
      by (simp add: release_key_def RELEASE_LUA_def script_moment_def stored_level_def [of p least None])
  next
    case (Some x)
    let ?x = "x\<lparr>tokens := min (of_int (capacity p)) (tokens x + 1)\<rparr>"
    have "stored_level p least (pexpire r (ttl_ms p) ?x) (of_int ?t / 1000) \<le> stored_level p least k (of_int ?t / 1000) + 1"
      by (rule released_worth [OF p out n(1) Some])
    then show ?thesis using Release_Call Some by (simp add: release_key_def RELEASE_LUA_def script_moment_def)
  qed
next
  case (Observe_Call now r rem park)
  let ?t = "py_int (now * 1000)"
  have n: "of_int ?t - of_int (least + spread) \<le> (of_int r :: pyfloat)" "of_int r + of_int least \<le> (of_int ?t :: pyfloat)"
    using near Observe_Call by (simp_all add: clocks_within_def flip: of_int_add of_int_diff)
  let ?obs = "case rem of None \<Rightarrow> -1 | Some n \<Rightarrow> max 0 n" and ?nb = "case park of None \<Rightarrow> 0 | Some b \<Rightarrow> py_int (b * 1000)"
  let ?ttl = "ttl_seconds p + (case park of None \<Rightarrow> 0 | Some b \<Rightarrow> max 0 (b - now))"
  have ttl: "ttl_ms p \<le> py_int (?ttl * 1000)" unfolding ttl_ms_def by (intro py_int_mono) (simp split: option.split)
  note l = live_level [OF p k n(2)]
  show ?thesis
  proof (cases "observe_writes (capacity p) (refill_per_second p) ?t ?obs ?nb (live_bucket r k)")
    case True
    then obtain x m where x: "OBSERVE_LUA (capacity p) (refill_per_second p) ?t ?obs ?nb (live_bucket r k) = Some \<lparr>tokens = x, last_refill_ms = m\<rparr>"
      "x \<le> bucket_level p (live_bucket r k) (of_int ?t / 1000)" "?t \<le> m" using observe_written by blast
    have "stored_level p least (pexpire r (py_int (?ttl * 1000)) \<lparr>tokens = x, last_refill_ms = m\<rparr>) (of_int ?t / 1000) = min (of_int (capacity p)) x"
      using written_worth [OF p out n(1) ttl, of "\<lparr>tokens = x, last_refill_ms = m\<rparr>"] x(3) by simp
    then show ?thesis using True x(1,2) l Observe_Call by (simp add: observe_key_def script_moment_def Let_def)
  next
    case False
    then have e: "observe_key p now r rem park k = (if live_bucket r k = None then None else k)"
      by (simp add: observe_key_def Let_def)
    show ?thesis
    proof (cases "live_bucket r k")
      case None
      with l e Observe_Call show ?thesis
        by (simp add: script_moment_def bucket_level_def stored_level_def [of p least None])
    qed (use e Observe_Call in \<open>simp add: script_moment_def\<close>)
  qed
qed

interpretation redis_bucket: paced_bucket "script_step p" "script_gain p" script_moment
  "stored_level p least" "\<lambda>k. policy_ok p \<and> outlives_refill p spread \<and> stored_ok p k"
  "clocks_within least spread" "of_int (capacity p)" "max 0 (refill_per_second p)" for p least spread
proof unfold_locales
  fix k t u assume "policy_ok p \<and> outlives_refill p spread \<and> stored_ok p k" "t \<le> (u :: pyfloat)"
  moreover then have "max 0 (refill_per_second p) = refill_per_second p" by (simp add: policy_ok_def)
  ultimately show "stored_level p least k u \<le> stored_level p least k t + max 0 (refill_per_second p) * (u - t)"
    using stored_slope by metis
qed (auto simp: script_step_ok script_step_pays stored_bounds)

text \<open>
  C9. The limit holds across processes (\<open>ACQUIRE_LUA\<close>, \<open>RELEASE_LUA\<close>, \<open>OBSERVE_LUA\<close>, and the time to
  live in milliseconds each of them is called with). However the calls of all workers on one key
  interleave, the tokens granted less the tokens given back in any window are at most the capacity
  plus what refills in it; keys that expire, provider headers and denied calls included. The clocks
  of the workers agree on the order of the calls and differ from Redis' clock by a constant up to a
  spread, and the truncated time to live covers a refill from empty and that spread, which it does
  when the refill takes a millisecond more than the spread (\<open>slow_refill_outlives\<close>); what happens
  without is \<open>tiny_ttl_grants_everything\<close>.
\<close>

theorem scripts_keep_the_rate:
  assumes "policy_ok p" and "stored_ok p k" and "outlives_refill p spread"
    and "\<forall>c \<in> set calls. clocks_within least spread c"
    and "sorted (map script_moment calls)"
    and "\<forall>c \<in> set calls. t \<le> script_moment c \<and> script_moment c \<le> u" and "t \<le> u"
  shows "total_gain (script_step p) (script_gain p) k calls
           \<le> of_int (capacity p) + refill_per_second p * (u - t)"
proof -
  have "max 0 (refill_per_second p) = refill_per_second p" using assms(1) by (simp add: policy_ok_def)
  with redis_bucket.rate_bound [of p spread k calls least t u] assms show ?thesis by simp
qed

text \<open>
  A refill that takes less than half a millisecond makes the time to live zero, and \<open>PEXPIRE\<close> deletes
  the bucket it has just been written to: every call is granted, at whatever moment.
\<close>

theorem tiny_ttl_grants_everything:
  assumes "policy_ok p" and "ttl_ms p \<le> 0"
  shows "total_gain (script_step p) (script_gain p) None (replicate n (Acquire_Call now r)) = of_nat n"
proof (induction n)
  case (Suc n)
  have "1 \<le> (of_int (capacity p) :: pyfloat)" using assms(1) by (simp add: policy_ok_def)
  then have "acquire_key p now r None =
      (\<lparr>allowed = True, tokens_after = of_int (capacity p) - 1, retry_after_ms = 0\<rparr>, None)"
    using assms(2) by (simp add: acquire_key_def acquire_result_cases live_bucket_def bucket_level_def pexpire_def Let_def)
  then show ?case using Suc by simp
qed simp

section \<open>Provider headers\<close>

text \<open>A bucket whose last refill does not lie in the caller's future.\<close>

definition anchored :: "bucket option \<Rightarrow> int \<Rightarrow> bool" where
  "anchored b t \<longleftrightarrow> (case b of None \<Rightarrow> True | Some x \<Rightarrow> last_refill_ms x \<le> t)"

lemma written_level:
  assumes "policy_ok p" "bucket_ok p b" "anchored b t" "of_int t / 1000 \<le> u"
  shows "bucket_level p (Some \<lparr>tokens = bucket_level p b (of_int t / 1000), last_refill_ms = t\<rparr>) u
           = bucket_level p b u"
proof (cases b)
  case None
  with assms show ?thesis by (simp add: bucket_level_def policy_ok_def)
next
  case (Some x)
  let ?r = "refill_per_second p" and ?l = "of_int (last_refill_ms x) / 1000 :: pyfloat"
  let ?t = "of_int t / 1000 :: pyfloat" and ?c = "of_int (capacity p) :: pyfloat"
  have "last_refill_ms x \<le> t" using assms(3) Some by (simp add: anchored_def)
  then have t: "?l \<le> ?t" by (simp add: divide_right_mono)
  have r: "0 \<le> (u - ?t) * ?r" using assms(1,4) by (simp add: policy_ok_def)
  have "min ?c (min ?c (tokens x + (?t - ?l) * ?r) + (u - ?t) * ?r) =
      min ?c (tokens x + (?t - ?l) * ?r + (u - ?t) * ?r)" using r by (auto simp: min_def)
  also have "tokens x + (?t - ?l) * ?r + (u - ?t) * ?r = tokens x + (u - ?l) * ?r"
    by (simp add: algebra_simps)
  finally show ?thesis using Some t assms(4) by (simp add: bucket_level_def max_def)
qed

text \<open>
  Provider truth only lowers a bucket (\<open>OBSERVE_LUA\<close>). After a reconciliation the
  bucket holds no more than before, at that moment and at any later one, and no more than
  the provider reported; and a bucket parked until the provider's reset holds less than a
  token until then.
\<close>

theorem observe_only_lowers:
  assumes "policy_ok p" and "bucket_ok p b" and "anchored b t" and "of_int t / 1000 \<le> u"
  shows "bucket_level p (OBSERVE_LUA (capacity p) (refill_per_second p) t obs nb b) u \<le> bucket_level p b u
    \<and> (0 \<le> obs \<longrightarrow>
         bucket_level p (OBSERVE_LUA (capacity p) (refill_per_second p) t obs nb b) (of_int t / 1000) \<le> of_int obs)
    \<and> (0 \<le> obs \<and> obs < 1 \<and> t < nb \<and> u \<le> of_int nb / 1000 \<longrightarrow>
         bucket_level p (OBSERVE_LUA (capacity p) (refill_per_second p) t obs nb b) u < 1)"
proof -
  let ?l = "bucket_level p b (of_int t / 1000)"
  have mono: "bucket_level p (Some \<lparr>tokens = x, last_refill_ms = m\<rparr>) u \<le> bucket_level p b u"
    if "x \<le> ?l" "t \<le> m" for x m
  proof -
    have "(of_int t :: pyfloat) / 1000 \<le> of_int m / 1000" using that(2) by (simp add: divide_right_mono)
    then have "max 0 (u - of_int m / 1000) * refill_per_second p
        \<le> max 0 (u - of_int t / 1000) * refill_per_second p"
      using assms(1) by (intro mult_right_mono) (auto simp: policy_ok_def)
    with that(1) have "bucket_level p (Some \<lparr>tokens = x, last_refill_ms = m\<rparr>) u
        \<le> bucket_level p (Some \<lparr>tokens = ?l, last_refill_ms = t\<rparr>) u"
      by (simp add: bucket_level_def min_def)
    with written_level [OF assms] show ?thesis by simp
  qed
  from observe_result [of p t obs nb b] mono
  have lower: "bucket_level p (OBSERVE_LUA (capacity p) (refill_per_second p) t obs nb b) u \<le> bucket_level p b u" by auto
  have cap: "bucket_level p (OBSERVE_LUA (capacity p) (refill_per_second p) t obs nb b) (of_int t / 1000) \<le> of_int obs"
    if "0 \<le> obs"
    using that by (auto simp: OBSERVE_LUA_def refilled_level Let_def intro: order_trans [OF level_parked])
  have park: "bucket_level p (OBSERVE_LUA (capacity p) (refill_per_second p) t obs nb b) u < 1"
    if "0 \<le> obs" "obs < 1" "t < nb" "u \<le> of_int nb / 1000"
  proof -
    have "obs = 0" using that by simp
    with that assms(1) have "OBSERVE_LUA (capacity p) (refill_per_second p) t obs nb b =
        Some \<lparr>tokens = min 0 ?l, last_refill_ms = nb\<rparr>"
      using level_bounds [OF assms(1,2), of "of_int t / 1000"]
      by (auto simp: OBSERVE_LUA_def refilled_level Let_def policy_ok_def)
    with that(4) show ?thesis by (simp add: bucket_level_def)
  qed
  show ?thesis using lower cap park by blast
qed

text \<open>
  One denied call lifts a park (\<open>ACQUIRE_LUA\<close>, \<open>OBSERVE_LUA\<close>). When the refill clock
  of a bucket lies in the caller's future, because a provider header parked it there or a
  host with a fast clock wrote it, a denied acquire moves it back to the caller's clock:
  as soon as a token's worth of time has passed from then on, the next acquire is granted,
  although the bucket left alone would still be empty.
\<close>

theorem denied_acquire_lifts_park:
  assumes "policy_ok p" and "tokens x < 1" and "0 \<le> tokens x"
    and "t1 < last_refill_ms x" and "t2 \<le> last_refill_ms x"
    and "1 \<le> tokens x + (of_int (t2 - t1) / 1000) * refill_per_second p"
  shows "case ACQUIRE_LUA (capacity p) (refill_per_second p) t1 1 (Some x) of (g, b) \<Rightarrow>
      \<not> allowed g
    \<and> bucket_level p (Some x) (of_int t2 / 1000) < 1
    \<and> allowed (fst (ACQUIRE_LUA (capacity p) (refill_per_second p) t2 1 (Some b)))"
proof -
  have c: "(1 :: pyfloat) \<le> of_int (capacity p)" using assms(1) by (simp add: policy_ok_def)
  have early: "bucket_level p (Some x) (of_int t / 1000) = tokens x" if "t \<le> last_refill_ms x" for t
    using that assms(2) c by (simp add: bucket_level_def divide_right_mono max_def)
  have l1: "bucket_level p (Some x) (of_int t1 / 1000) = tokens x"
    and l2: "bucket_level p (Some x) (of_int t2 / 1000) = tokens x"
    using early assms(4,5) by simp_all
  have b1: "snd (ACQUIRE_LUA (capacity p) (refill_per_second p) t1 1 (Some x)) = \<lparr>tokens = tokens x, last_refill_ms = t1\<rparr>"
    using assms(2) l1 by (simp add: acquire_result_cases Let_def)
  have "t1 \<le> t2"
  proof (rule ccontr)
    assume "\<not> t1 \<le> t2"
    then have "(of_int (t2 - t1) / 1000) * refill_per_second p \<le> 0"
      using assms(1) by (intro mult_nonpos_nonneg) (auto simp: policy_ok_def)
    with assms(2,6) show False by simp
  qed
  then have "(of_int t1 :: pyfloat) / 1000 \<le> of_int t2 / 1000" by (simp add: divide_right_mono)
  with assms(6) c have "1 \<le> bucket_level p (Some \<lparr>tokens = tokens x, last_refill_ms = t1\<rparr>) (of_int t2 / 1000)"
    by (simp add: bucket_level_def diff_divide_distrib)
  with b1 l1 l2 assms(2) show ?thesis by (simp add: acquire_result_cases Let_def)
qed

section \<open>All or nothing\<close>

text \<open>The millisecond a worker would write now, and that moment in seconds.\<close>

definition stamp_ms :: "limiter_world \<Rightarrow> int" where
  "stamp_ms w = py_int (clock w * 1000)"

definition stamp :: "limiter_world \<Rightarrow> pyfloat" where
  "stamp w = of_int (stamp_ms w) / 1000"

lemma stamp_mono: "clock w \<le> clock w' \<Longrightarrow> 0 \<le> clock w \<Longrightarrow> stamp_ms w \<le> stamp_ms w' \<and> stamp w \<le> stamp w'"
  by (auto simp: stamp_def stamp_ms_def py_int_def intro!: divide_right_mono floor_mono)

definition keys_level :: "limiter_config \<Rightarrow> limiter_world \<Rightarrow> string \<Rightarrow> pyfloat \<Rightarrow> pyfloat" where
  "keys_level cfg w key u = bucket_level (policy_for cfg key) (shared w key) u"

text \<open>Buckets within their capacities, written by no clock ahead of the worker's.\<close>

definition buckets_ok :: "limiter_config \<Rightarrow> limiter_world \<Rightarrow> bool" where
  "buckets_ok cfg w \<longleftrightarrow> 0 \<le> clock w \<and>
     (\<forall>key. policy_ok (policy_for cfg key) \<and> bucket_ok (policy_for cfg key) (shared w key) \<and>
        anchored (shared w key) (stamp_ms w))"

text \<open>A world in which every bucket holds, from now on, what it held in the other.\<close>

definition same_levels :: "limiter_config \<Rightarrow> limiter_world \<Rightarrow> limiter_world \<Rightarrow> bool" where
  "same_levels cfg w w' \<longleftrightarrow> clock w \<le> clock w' \<and>
     (\<forall>key u. stamp w' \<le> u \<longrightarrow> keys_level cfg w' key u = keys_level cfg w key u)"

lemma same_levels_refl: "same_levels cfg w w"
  by (simp add: same_levels_def)

lemma same_levels_trans:
  assumes "same_levels cfg u v" "same_levels cfg v w" "0 \<le> clock v"
  shows "same_levels cfg u w"
proof -
  have "stamp v \<le> stamp w" using assms(2,3) stamp_mono by (auto simp: same_levels_def)
  with assms(1,2) show ?thesis by (force simp: same_levels_def)
qed

lemma passing_time:
  assumes "shared w' = shared w" "clock w \<le> clock w'" "buckets_ok cfg w"
  shows "same_levels cfg w w' \<and> buckets_ok cfg w'"
proof -
  have "stamp_ms w \<le> stamp_ms w'" using assms(2,3) stamp_mono by (auto simp: buckets_ok_def)
  moreover have "anchored b t \<Longrightarrow> t \<le> t' \<Longrightarrow> anchored b t'" for b t t'
    by (auto simp: anchored_def split: option.splits)
  ultimately show ?thesis using assms by (auto simp: same_levels_def keys_level_def buckets_ok_def)
qed

text \<open>Redis answers every call and the clock moves forward.\<close>

definition healthy :: "limiter_env \<Rightarrow> bool" where
  "healthy env \<longleftrightarrow> (\<forall>k. redis_up env k \<and> 0 \<le> lag env k \<and> 0 \<le> jitter env k)"

lemma release_shared:
  "\<lbrakk>healthy env; distinct keys\<rbrakk> \<Longrightarrow>
   clock (release cfg env keys w) = clock w \<and>
   shared (release cfg env keys w) =
     (\<lambda>key. if key \<in> set keys
        then RELEASE_LUA (capacity (policy_for cfg key)) 1 (shared w key) else shared w key)"
  by (induction keys arbitrary: w) (auto simp: healthy_def fun_eq_iff)

text \<open>
  A bucket from which a pass took a token: the token was there, and putting it back leaves
  the level the bucket would have had.
\<close>

definition token_taken :: "bucket_policy \<Rightarrow> bucket option \<Rightarrow> bucket option \<Rightarrow> int \<Rightarrow> bool" where
  "token_taken p b b' t \<longleftrightarrow> 1 \<le> bucket_level p b (of_int t / 1000) \<and>
     b' = Some \<lparr>tokens = bucket_level p b (of_int t / 1000) - 1, last_refill_ms = t\<rparr>"

lemma released_level:
  assumes "policy_ok p" "bucket_ok p b" "anchored b t" "token_taken p b b' t" "of_int t / 1000 \<le> u"
  shows "bucket_level p (RELEASE_LUA (capacity p) 1 b') u = bucket_level p b u
    \<and> bucket_ok p (RELEASE_LUA (capacity p) 1 b') \<and> anchored (RELEASE_LUA (capacity p) 1 b') t"
proof -
  let ?l = "bucket_level p b (of_int t / 1000)"
  have "0 \<le> ?l" "?l \<le> of_int (capacity p)" using level_bounds [OF assms(1,2)] by simp_all
  with assms(4) have "RELEASE_LUA (capacity p) 1 b' = Some \<lparr>tokens = ?l, last_refill_ms = t\<rparr>"
    by (simp add: token_taken_def RELEASE_LUA_def)
  with written_level [OF assms(1,2,3,5)] \<open>0 \<le> ?l\<close> \<open>?l \<le> of_int (capacity p)\<close> show ?thesis
    by (simp add: bucket_ok_def anchored_def)
qed

lemma acquire_one_law:
  assumes "acquire_one cfg env key w = (g, w')" "healthy env" "buckets_ok cfg w"
  obtains x where "g = Some x" "clock w \<le> clock w'" "\<And>k. k \<noteq> key \<Longrightarrow> shared w' k = shared w k"
    "allowed x \<Longrightarrow> token_taken (policy_for cfg key) (shared w key) (shared w' key) (stamp_ms w)"
    "\<not> allowed x \<Longrightarrow> shared w' key = Some \<lparr>tokens = bucket_level (policy_for cfg key) (shared w key)
        (of_int (stamp_ms w) / 1000), last_refill_ms = stamp_ms w\<rparr>"
proof -
  have "0 \<le> lag env (ticks w)" "redis_up env (ticks w)" using assms(2) by (auto simp: healthy_def)
  with assms(1) show ?thesis
    by (intro that [of "fst (ACQUIRE_LUA (capacity (policy_for cfg key))
          (refill_per_second (policy_for cfg key)) (stamp_ms w) 1 (shared w key))"])
      (auto simp: acquire_one_def read_clock_def stamp_ms_def [symmetric] acquire_result_cases
        token_taken_def Let_def split: if_splits)
qed

text \<open>What a pass has done after some of the keys: \<open>w0\<close> is where it started.\<close>

definition pass_inv ::
  "limiter_config \<Rightarrow> limiter_world \<Rightarrow> string list \<Rightarrow> limiter_world \<Rightarrow> bool" where
  "pass_inv cfg w0 taken w \<longleftrightarrow> clock w0 \<le> clock w \<and>
     (\<forall>key. if key \<in> set taken
        then \<exists>t. stamp_ms w0 \<le> t \<and> t \<le> stamp_ms w \<and>
               token_taken (policy_for cfg key) (shared w0 key) (shared w key) t
        else shared w key = shared w0 key)"

lemma pass_invI:
  assumes "clock w0 \<le> clock w"
    and "\<And>key. key \<in> set taken \<Longrightarrow> \<exists>t. stamp_ms w0 \<le> t \<and> t \<le> stamp_ms w \<and>
               token_taken (policy_for cfg key) (shared w0 key) (shared w key) t"
    and "\<And>key. key \<notin> set taken \<Longrightarrow> shared w key = shared w0 key"
  shows "pass_inv cfg w0 taken w"
  using assms by (simp add: pass_inv_def)

lemma pass_invD:
  assumes "pass_inv cfg w0 taken w"
  shows "clock w0 \<le> clock w"
    and "key \<in> set taken \<Longrightarrow> \<exists>t. stamp_ms w0 \<le> t \<and> t \<le> stamp_ms w \<and>
               token_taken (policy_for cfg key) (shared w0 key) (shared w key) t"
    and "key \<notin> set taken \<Longrightarrow> shared w key = shared w0 key"
  using assms unfolding pass_inv_def by metis+

lemma pass_step_ok:
  assumes "pass_inv cfg w0 taken w" "buckets_ok cfg w0"
  shows "buckets_ok cfg w"
proof -
  have s: "stamp_ms w0 \<le> stamp_ms w" using assms stamp_mono by (auto simp: pass_inv_def buckets_ok_def)
  have "bucket_ok (policy_for cfg key) (shared w key) \<and> anchored (shared w key) (stamp_ms w)" for key
  proof (cases "key \<in> set taken")
    case True
    with pass_invD(2) [OF assms(1)] obtain t where "t \<le> stamp_ms w"
      "token_taken (policy_for cfg key) (shared w0 key) (shared w key) t" by blast
    moreover have "bucket_level (policy_for cfg key) (shared w0 key) v - 1
        \<le> of_int (capacity (policy_for cfg key))" for v
      using assms(2) level_bounds [of "policy_for cfg key" "shared w0 key" v]
      by (simp add: buckets_ok_def)
    ultimately show ?thesis
      by (auto simp: token_taken_def bucket_ok_def anchored_def intro: order_trans [rotated])
  next
    case False
    with assms s show ?thesis
      by (fastforce simp: pass_inv_def buckets_ok_def anchored_def split: option.splits)
  qed
  with assms show ?thesis by (force simp: buckets_ok_def pass_inv_def)
qed

lemma release_restores:
  assumes inv: "pass_inv cfg w0 taken w" and ok: "buckets_ok cfg w0" and env: "healthy env"
    and dist: "distinct taken"
  shows "same_levels cfg w0 (release cfg env taken w) \<and> buckets_ok cfg (release cfg env taken w)"
proof -
  let ?w = "release cfg env taken w"
  note sh = release_shared [OF env dist, of cfg w]
  have c: "clock w0 \<le> clock ?w" "stamp_ms ?w = stamp_ms w" "stamp ?w = stamp w" "0 \<le> clock w0"
    using inv ok sh by (auto simp: pass_inv_def stamp_ms_def stamp_def buckets_ok_def)
  have s: "stamp_ms w0 \<le> stamp_ms w" using stamp_mono [of w0 w] inv c(4) by (simp add: pass_inv_def)
  have "bucket_ok (policy_for cfg key) (shared ?w key) \<and> anchored (shared ?w key) (stamp_ms ?w) \<and>
      (stamp ?w \<le> u \<longrightarrow> keys_level cfg ?w key u = keys_level cfg w0 key u)" for key u
  proof (cases "key \<in> set taken")
    case True
    with pass_invD(2) [OF inv] obtain t where t: "stamp_ms w0 \<le> t" "t \<le> stamp_ms w"
      "token_taken (policy_for cfg key) (shared w0 key) (shared w key) t" by blast
    have p: "policy_ok (policy_for cfg key)" "bucket_ok (policy_for cfg key) (shared w0 key)"
      "anchored (shared w0 key) t"
      using ok t(1) by (auto simp: buckets_ok_def anchored_def split: option.splits intro: order_trans)
    have t': "(of_int t :: pyfloat) / 1000 \<le> stamp w" using t(2) by (simp add: stamp_def divide_right_mono)
    have "anchored b t \<Longrightarrow> anchored b (stamp_ms w)" for b
      using t(2) by (auto simp: anchored_def split: option.splits)
    with released_level [OF p t(3), of "of_int t / 1000"] released_level [OF p t(3), of u] True sh c t'
    show ?thesis by (auto simp: keys_level_def)
  next
    case False
    with inv have "shared w key = shared w0 key" by (auto simp: pass_inv_def)
    with False ok sh c s show ?thesis
      by (fastforce simp: keys_level_def buckets_ok_def anchored_def split: option.splits)
  qed
  with c ok show ?thesis by (auto simp: same_levels_def buckets_ok_def)
qed

lemma take_each_law:
  assumes "take_each cfg env keys taken w = (res, taken', w')" "healthy env" "buckets_ok cfg w0"
    and "pass_inv cfg w0 taken w" "distinct (taken @ keys)"
  shows "distinct taken' \<and>
    (res = All_Taken \<longrightarrow> set taken' = set taken \<union> set keys \<and> pass_inv cfg w0 taken' w') \<and>
    (\<forall>key r. res = Blocked key r \<longrightarrow> same_levels cfg w0 (release cfg env taken' w') \<and>
       buckets_ok cfg (release cfg env taken' w')) \<and> (\<forall>key. res \<noteq> Redis_Down key)"
  using assms(1,4,5)
proof (induction keys arbitrary: taken w)
  case Nil
  then show ?case by auto
next
  case (Cons key keys)
  have ok: "buckets_ok cfg w" using pass_step_ok [OF Cons.prems(2) assms(3)] .
  obtain g w1 where a: "acquire_one cfg env key w = (g, w1)" by fastforce
  obtain x where x: "g = Some x" "clock w \<le> clock w1" "\<And>k. k \<noteq> key \<Longrightarrow> shared w1 k = shared w k"
    "allowed x \<Longrightarrow> token_taken (policy_for cfg key) (shared w key) (shared w1 key) (stamp_ms w)"
    "\<not> allowed x \<Longrightarrow> shared w1 key = Some \<lparr>tokens = bucket_level (policy_for cfg key) (shared w key)
        (of_int (stamp_ms w) / 1000), last_refill_ms = stamp_ms w\<rparr>"
    using acquire_one_law [OF a assms(2) ok] by metis
  have k: "key \<notin> set taken" "shared w key = shared w0 key" and d: "distinct taken"
    using Cons.prems(2,3) by (auto simp: pass_inv_def)
  have s: "stamp_ms w0 \<le> stamp_ms w" "stamp_ms w \<le> stamp_ms w1" "clock w0 \<le> clock w1"
    using stamp_mono [of w0 w] stamp_mono [of w w1] Cons.prems(2) assms(3) x(2)
    by (auto simp: pass_inv_def buckets_ok_def)
  show ?case
  proof (cases "allowed x")
    case True
    have "pass_inv cfg w0 (taken @ [key]) w1"
    proof (rule pass_invI [OF s(3)])
      fix k' assume "k' \<in> set (taken @ [key])"
      then consider "k' = key" | "k' \<in> set taken" "k' \<noteq> key" using k(1) by auto
      then show "\<exists>t. stamp_ms w0 \<le> t \<and> t \<le> stamp_ms w1 \<and>
               token_taken (policy_for cfg k') (shared w0 k') (shared w1 k') t"
      proof cases
        case 1
        with x(4) [OF True] k(2) s show ?thesis by auto
      next
        case 2
        with pass_invD(2) [OF Cons.prems(2) 2(1)] x(3) [OF 2(2)] s(2) show ?thesis
          by (auto intro: order_trans)
      qed
    next
      fix k' assume "k' \<notin> set (taken @ [key])"
      with x(3) [of k'] pass_invD(3) [OF Cons.prems(2), of k'] show "shared w1 k' = shared w0 k'" by simp
    qed
    with Cons.IH [of "taken @ [key]" w1] Cons.prems(1,3) a x(1) True show ?thesis by auto
  next
    case False
    with Cons.prems(1) a x(1) have r: "res = Blocked key (of_int (retry_after_ms x) / 1000)"
      "taken' = taken" "w' = w1" by auto
    let ?v = "w1\<lparr>shared := (shared w1)(key := shared w0 key)\<rparr>"
    have inv: "pass_inv cfg w0 taken ?v"
    proof (rule pass_invI)
      fix k' assume k': "k' \<in> set taken"
      then have "k' \<noteq> key" "stamp_ms ?v = stamp_ms w1" using k(1) by (auto simp: stamp_ms_def)
      with pass_invD(2) [OF Cons.prems(2) k'] x(3) [of k'] s(2)
      show "\<exists>t. stamp_ms w0 \<le> t \<and> t \<le> stamp_ms ?v \<and>
               token_taken (policy_for cfg k') (shared w0 k') (shared ?v k') t"
        by (auto intro: order_trans)
    next
      fix k' assume "k' \<notin> set taken"
      with x(3) [of k'] pass_invD(3) [OF Cons.prems(2), of k'] show "shared ?v k' = shared w0 k'" by simp
    qed (simp add: s(3))
    note rel = release_restores [OF inv assms(3,2) d]
    have sh: "shared (release cfg env taken w1) k' =
        (if k' = key then shared w1 key else shared (release cfg env taken ?v) k')"
      "clock (release cfg env taken w1) = clock (release cfg env taken ?v)" for k'
      using release_shared [OF assms(2) d] k(1) by auto
    have t: "(of_int (stamp_ms w) :: pyfloat) / 1000 \<le> stamp w1" using s(2) by (simp add: stamp_def divide_right_mono)
    have p: "policy_ok (policy_for cfg key)" "bucket_ok (policy_for cfg key) (shared w key)"
      "anchored (shared w key) (stamp_ms w)" using ok by (auto simp: buckets_ok_def)
    have lvl: "stamp w1 \<le> u \<Longrightarrow> bucket_level (policy_for cfg key) (shared w1 key) u =
        bucket_level (policy_for cfg key) (shared w0 key) u" for u
      using written_level [OF p, of u] x(5) [OF False] t k(2) by simp
    have bk: "bucket_ok (policy_for cfg key) (shared w1 key)" "anchored (shared w1 key) (stamp_ms w1)"
      using level_bounds [OF p(1,2)] x(5) [OF False] s(2) by (simp_all add: bucket_ok_def anchored_def)
    have st: "stamp (release cfg env taken w1) = stamp w1" "stamp_ms (release cfg env taken w1) = stamp_ms w1"
      "stamp (release cfg env taken ?v) = stamp w1" "stamp_ms (release cfg env taken ?v) = stamp_ms w1"
      using release_shared [OF assms(2) d] by (simp_all add: stamp_def stamp_ms_def)
    have "same_levels cfg w0 (release cfg env taken w1)"
      unfolding same_levels_def
    proof (intro conjI allI impI)
      fix k' u assume "stamp (release cfg env taken w1) \<le> u"
      with rel lvl st sh(1) [of k'] show "keys_level cfg (release cfg env taken w1) k' u = keys_level cfg w0 k' u"
        by (cases "k' = key") (auto simp: keys_level_def same_levels_def)
    qed (use rel sh(2) in \<open>simp add: same_levels_def\<close>)
    moreover have "buckets_ok cfg (release cfg env taken w1)"
      unfolding buckets_ok_def
    proof (intro conjI allI)
      fix k'
      show "bucket_ok (policy_for cfg k') (shared (release cfg env taken w1) k')"
        "anchored (shared (release cfg env taken w1) k') (stamp_ms (release cfg env taken w1))"
        "policy_ok (policy_for cfg k')"
        using rel bk st sh(1) [of k'] by (cases "k' = key"; auto simp: buckets_ok_def)+
    qed (use rel sh(2) in \<open>simp add: buckets_ok_def\<close>)
    ultimately show ?thesis using r d by simp
  qed
qed

lemma wait_for_pos:
  assumes "0 \<le> jitter env (ticks w)"
  shows "MIN_WAIT_SECONDS \<le> wait_for env r w"
proof -
  let ?base = "max r MIN_WAIT_SECONDS"
  have "0 \<le> ?base" by (simp add: MIN_WAIT_SECONDS_def le_max_iff_disj)
  with assms have "0 \<le> jitter env (ticks w) * ?base * (1 / 10)" by simp
  then show ?thesis by (simp add: wait_for_def Let_def add_increasing2)
qed

lemma clock_moves:
  assumes "healthy env" "buckets_ok cfg w"
  shows "read_clock env w = (now, w') \<Longrightarrow> same_levels cfg w w' \<and> buckets_ok cfg w'"
    and "0 \<le> d \<Longrightarrow> same_levels cfg w (sleep env d w) \<and> buckets_ok cfg (sleep env d w)"
proof -
  have lag: "0 \<le> lag env (ticks w)" using assms(1) by (simp add: healthy_def)
  then show "read_clock env w = (now, w') \<Longrightarrow> same_levels cfg w w' \<and> buckets_ok cfg w'"
    by (intro passing_time assms(2)) (auto simp: read_clock_def)
  from lag show "0 \<le> d \<Longrightarrow> same_levels cfg w (sleep env d w) \<and> buckets_ok cfg (sleep env d w)"
    by (intro passing_time assms(2)) (auto simp: sleep_def)
qed

text \<open>How an acquire over a healthy Redis may end, seen from where it started.\<close>

definition fair_end ::
  "limiter_config \<Rightarrow> string list \<Rightarrow> limiter_world \<Rightarrow> acquire_result \<Rightarrow> limiter_world \<Rightarrow> bool" where
  "fair_end cfg keys w res w' \<longleftrightarrow>
     (case res of
        Acquired \<Rightarrow> \<exists>v taken. same_levels cfg w v \<and> buckets_ok cfg v \<and> set taken = set keys \<and>
          pass_inv cfg v taken w'
      | Quota_Exceeded key r \<Rightarrow> same_levels cfg w w'
      | Redis_Error \<Rightarrow> False)"

lemma fair_end_trans:
  "\<lbrakk>same_levels cfg w v; buckets_ok cfg v; fair_end cfg keys v res w'\<rbrakk> \<Longrightarrow> fair_end cfg keys w res w'"
  unfolding fair_end_def
  by (cases res) (auto simp: buckets_ok_def intro: same_levels_trans)

lemma acquire_loop_law:
  "\<lbrakk>acquire_loop cfg env fb fuel keys timeout deadline w = Some (res, w'); healthy env;
    buckets_ok cfg w; distinct keys\<rbrakk> \<Longrightarrow> fair_end cfg keys w res w'"
proof (induction fuel arbitrary: w)
  case 0
  then show ?case by simp
next
  case (Suc fuel)
  obtain p taken w1 where t: "take_each cfg env keys [] w = (p, taken, w1)" by (metis prod_cases3)
  have "pass_inv cfg w [] w" by (simp add: pass_inv_def)
  note law = take_each_law [OF t Suc.prems(2,3) this, simplified, OF Suc.prems(4)]
  show ?case
  proof (cases p)
    case All_Taken
    with Suc.prems(1) t have "res = Acquired" "w' = w1" by auto
    with law All_Taken Suc.prems(3) same_levels_refl show ?thesis by (auto simp: fair_end_def)
  next
    case (Redis_Down key)
    with law show ?thesis by simp
  next
    case (Blocked key r)
    let ?w2 = "release cfg env taken w1"
    obtain now w3 where c: "read_clock env ?w2 = (now, w3)" by fastforce
    let ?w4 = "sleep env (wait_for env r ?w2) w3"
    from law Blocked have w2: "same_levels cfg w ?w2" "buckets_ok cfg ?w2" by auto
    with clock_moves(1) [OF Suc.prems(2) w2(2) c]
    have w3: "same_levels cfg w w3" "buckets_ok cfg w3"
      by (auto simp: buckets_ok_def intro: same_levels_trans)
    have "MIN_WAIT_SECONDS \<le> wait_for env r ?w2"
      using Suc.prems(2) by (intro wait_for_pos) (simp add: healthy_def)
    then have "0 \<le> wait_for env r ?w2" by (simp add: MIN_WAIT_SECONDS_def)
    with clock_moves(2) [OF Suc.prems(2) w3(2)] w3(1)
    have w4: "same_levels cfg w ?w4" "buckets_ok cfg ?w4"
      using w3(2) by (auto simp: buckets_ok_def intro: same_levels_trans)
    have "(res = Quota_Exceeded key r \<and> (w' = ?w2 \<or> w' = w3)) \<or>
        acquire_loop cfg env fb fuel keys timeout deadline ?w4 = Some (res, w')"
      using Suc.prems(1) t Blocked c by (auto simp: Let_def split: option.splits if_splits)
    with Suc.IH [OF _ Suc.prems(2) w4(2) Suc.prems(4)] w2(1) w3(1) w4 show ?thesis
      by (auto simp: fair_end_def [of _ _ _ "Quota_Exceeded key r"] intro: fair_end_trans)
  qed
qed

lemma distinct_limiter_keys: "distinct (limiter_keys keys)"
  by (simp add: limiter_keys_def)

lemma acquire_fair:
  assumes "acquire cfg env fuel keys timeout w = Some (res, w')" "healthy env" "buckets_ok cfg w"
  shows "fair_end cfg (limiter_keys keys) w res w'"
proof (cases "limiter_keys keys = []")
  case True
  with assms have "res = Acquired" "w' = w" by (auto simp: acquire_def Let_def)
  with True assms(3) same_levels_refl show ?thesis
    by (auto simp: fair_end_def pass_inv_def intro!: exI [of _ w] exI [of _ "[]"])
next
  case False
  obtain now w1 where c: "read_clock env w = (now, w1)" by fastforce
  note w1 = clock_moves(1) [OF assms(2,3) c]
  show ?thesis
  proof (cases timeout)
    case None
    with assms(1) False have "acquire_loop cfg env fuel fuel (limiter_keys keys) None None w = Some (res, w')"
      by (simp add: acquire_def Let_def)
    from acquire_loop_law [OF this assms(2,3) distinct_limiter_keys] show ?thesis .
  next
    case (Some s)
    with assms(1) False c have
      "acquire_loop cfg env fuel fuel (limiter_keys keys) timeout (Some (now + s)) w1 = Some (res, w')"
      by (simp add: acquire_def Let_def)
    from acquire_loop_law [OF this assms(2) conjunct2 [OF w1] distinct_limiter_keys] w1
    show ?thesis by (blast intro: fair_end_trans)
  qed
qed

text \<open>
  C10. An acquire takes from every bucket or from none (\<open>TokenBucketLimiter.acquire\<close>), on a Redis that
  answers every call, for one worker at a time, on a clock that does not run backwards, while no key
  expires, from buckets that hold no more than their capacity and were last written at no moment ahead
  of the worker's clock, so none of them parked: an acquire that succeeds found a token in each of its
  buckets and left it with one less, at some moment of the call; one that raises the quota
  error leaves every bucket, from then on, at the level it would have had without the call,
  however many passes and waits it made. On a parked bucket a denied pass lifts the park
  (\<open>denied_acquire_lifts_park\<close>), and without Redis the limiter fails open or falls back.
\<close>

theorem acquire_all_or_nothing:
  assumes "acquire cfg env fuel keys timeout w = Some (res, w')" and "healthy env"
    and "buckets_ok cfg w"
  shows "case res of
      Acquired \<Rightarrow> (\<forall>key \<in> set (limiter_keys keys). \<exists>t. stamp w \<le> t \<and> t \<le> stamp w' \<and>
          1 \<le> keys_level cfg w key t \<and> keys_level cfg w' key t = keys_level cfg w key t - 1)
    | Quota_Exceeded key r \<Rightarrow> (\<forall>k u. stamp w' \<le> u \<longrightarrow> keys_level cfg w' k u = keys_level cfg w k u)
    | Redis_Error \<Rightarrow> False"
proof (cases res)
  case Acquired
  with acquire_fair [OF assms] obtain v taken where v: "same_levels cfg w v" "buckets_ok cfg v"
    "set taken = set (limiter_keys keys)" "pass_inv cfg v taken w'" by (auto simp: fair_end_def)
  have "\<exists>t. stamp w \<le> t \<and> t \<le> stamp w' \<and> 1 \<le> keys_level cfg w key t \<and>
      keys_level cfg w' key t = keys_level cfg w key t - 1" if "key \<in> set taken" for key
  proof -
    from pass_invD(2) [OF v(4) that] obtain t where t: "stamp_ms v \<le> t" "t \<le> stamp_ms w'"
      "token_taken (policy_for cfg key) (shared v key) (shared w' key) t" by blast
    let ?t = "of_int t / 1000 :: pyfloat"
    have le: "stamp v \<le> ?t" "?t \<le> stamp w'" using t by (simp_all add: stamp_def divide_right_mono)
    have "stamp w \<le> stamp v" using stamp_mono [of w v] v(1) assms(3)
      by (simp add: same_levels_def buckets_ok_def)
    moreover have "keys_level cfg v key ?t = keys_level cfg w key ?t"
      using v(1) le(1) by (simp add: same_levels_def)
    moreover have "keys_level cfg v key ?t \<le> of_int (capacity (policy_for cfg key))"
      using v(2) level_bounds by (simp add: keys_level_def buckets_ok_def)
    ultimately show ?thesis using t(3) le
      by (intro exI [of _ ?t]) (auto simp: token_taken_def keys_level_def)
  qed
  with v(3) Acquired show ?thesis by simp
next
  case (Quota_Exceeded key r)
  with acquire_fair [OF assms] show ?thesis by (simp add: fair_end_def same_levels_def)
next
  case Redis_Error
  with acquire_fair [OF assms] show ?thesis by (simp add: fair_end_def)
qed

section \<open>An acquire returns\<close>

text \<open>Time moves forward; Redis may answer or not.\<close>

definition forward_time :: "limiter_env \<Rightarrow> bool" where
  "forward_time env \<longleftrightarrow> (\<forall>k. 0 \<le> lag env k \<and> 0 \<le> jitter env k)"

lemma forward_clock:
  assumes "forward_time env"
  shows "read_clock env w = (now, w') \<Longrightarrow> now = clock w \<and> clock w \<le> clock w'"
    and "acquire_one cfg env key w = (g, w') \<Longrightarrow> clock w \<le> clock w'"
    and "mem_refilled cfg env key w = (x, w') \<Longrightarrow> clock w \<le> clock w'"
    and "clock w + d \<le> clock (sleep env d w)"
    and "clock (degrade w) = clock w"
  using assms
  by (auto simp: read_clock_def acquire_one_def mem_refilled_def sleep_def degrade_def
      forward_time_def Let_def split: prod.splits if_splits)

lemma take_each_clock:
  "\<lbrakk>take_each cfg env keys taken w = (p, taken', w'); forward_time env\<rbrakk> \<Longrightarrow> clock w \<le> clock w'"
proof (induction keys arbitrary: taken w)
  case Nil
  then show ?case by simp
next
  case (Cons key keys)
  obtain g w1 where a: "acquire_one cfg env key w = (g, w1)" by fastforce
  from forward_clock(2) [OF Cons.prems(2) a] Cons a show ?case
    by (auto split: option.splits if_splits intro: order_trans)
qed

lemma release_clock: "clock (release cfg env keys w) = clock w"
  by (induction keys arbitrary: w) (simp_all add: degrade_def)

lemma mem_take_clock:
  "\<lbrakk>mem_take cfg env keys taken w = (p, taken', w'); forward_time env\<rbrakk> \<Longrightarrow>
   clock w \<le> clock w' \<and> (\<forall>key. p \<noteq> Redis_Down key)"
proof (induction keys arbitrary: taken w)
  case Nil
  then show ?case by auto
next
  case (Cons key keys)
  obtain t w1 where m: "mem_refilled cfg env key w = (t, w1)" by fastforce
  obtain now w2 where r: "read_clock env w1 = (now, w2)" by fastforce
  from forward_clock(3) [OF Cons.prems(2) m] forward_clock(1) [OF Cons.prems(2) r] Cons m r
  show ?case by (auto split: if_splits dest!: Cons.IH)
qed

lemma mem_give_back_clock: "clock (mem_give_back cfg keys w) = clock w"
  by (induction keys arbitrary: w) (simp_all split: option.splits prod.splits)

text \<open>Each pass but the last waits at least the floor, a two-hundredth of a second.\<close>

definition enough_passes :: "nat \<Rightarrow> pyfloat option \<Rightarrow> limiter_world \<Rightarrow> bool" where
  "enough_passes fuel deadline w \<longleftrightarrow> 0 < fuel \<and>
     (case deadline of None \<Rightarrow> True | Some d \<Rightarrow> (d - clock w) * 200 < of_nat fuel)"

lemma enough_after_wait:
  assumes "enough_passes (Suc fuel) (Some d) w" "clock w \<le> now"
    and "MIN_WAIT_SECONDS \<le> wait" "wait \<le> d - now" "now + wait \<le> clock w'"
  shows "enough_passes fuel (Some d) w'"
proof -
  have w: "1 / 200 \<le> wait" using assms(3) by (simp add: MIN_WAIT_SECONDS_def)
  have "clock w + 1 / 200 \<le> clock w'" using add_mono [OF assms(2) w] assms(5) by (rule order_trans)
  then have "(d - clock w') * 200 \<le> (d - clock w) * 200 - 1" by (simp add: field_simps)
  moreover have "clock w + 1 / 200 \<le> d"
    using add_mono [OF assms(2) w] assms(4) by (simp add: le_diff_eq add.commute)
  then have "1 \<le> (d - clock w) * 200" by (simp add: field_simps)
  ultimately show ?thesis using assms(1) by (auto simp: enough_passes_def)
qed

lemma mem_acquire_returns:
  "\<lbrakk>forward_time env; enough_passes fuel deadline w\<rbrakk> \<Longrightarrow>
   \<exists>res w'. mem_acquire cfg env fuel keys deadline w = Some (res, w')"
proof (induction fuel arbitrary: w)
  case 0
  then show ?case by (simp add: enough_passes_def)
next
  case (Suc fuel)
  obtain p taken w1 where t: "mem_take cfg env keys [] w = (p, taken, w1)" by (metis prod_cases3)
  note tc = mem_take_clock [OF t Suc.prems(1)]
  let ?w2 = "mem_give_back cfg taken w1"
  obtain now w3 where r: "read_clock env ?w2 = (now, w3)" by fastforce
  note rc = forward_clock(1) [OF Suc.prems(1) r]
  show ?case
  proof (cases "\<exists>key retry d. p = Blocked key retry \<and> deadline = Some d \<and> 0 < d - now \<and>
      max retry MIN_WAIT_SECONDS \<le> d - now")
    case True
    then obtain key retry d where b: "p = Blocked key retry" "deadline = Some d" "0 < d - now"
      "max retry MIN_WAIT_SECONDS \<le> d - now" by blast
    let ?wait = "max retry MIN_WAIT_SECONDS"
    have "enough_passes fuel (Some d) (sleep env ?wait w3)"
      using Suc.prems(2) b(2,4) tc rc mem_give_back_clock [of cfg taken w1]
        forward_clock(4) [OF Suc.prems(1), of w3 ?wait]
      by (intro enough_after_wait [of fuel d w now ?wait]) auto
    from Suc.IH [OF Suc.prems(1)] this b t r show ?thesis by (auto simp: Let_def)
  next
    case False
    with t r tc show ?thesis
      by (cases p) (auto simp: Let_def not_less not_le split: option.splits)
  qed
qed

lemma acquire_loop_returns:
  assumes env: "forward_time env" and fb: "0 < fb" "\<And>s. timeout = Some s \<Longrightarrow> s * 200 < of_nat fb"
  shows "enough_passes fuel deadline w \<Longrightarrow>
    \<exists>res w'. acquire_loop cfg env fb fuel keys timeout deadline w = Some (res, w')"
proof (induction fuel arbitrary: w)
  case 0
  then show ?case by (simp add: enough_passes_def)
next
  case (Suc fuel)
  obtain p taken w1 where t: "take_each cfg env keys [] w = (p, taken, w1)" by (metis prod_cases3)
  note tc = take_each_clock [OF t env]
  let ?w2 = "release cfg env taken w1"
  show ?case
  proof (cases p)
    case All_Taken
    with t show ?thesis by auto
  next
    case (Redis_Down key)
    show ?thesis
    proof (cases timeout)
      case None
      have "enough_passes fb None (degrade w1)" using fb(1) by (simp add: enough_passes_def)
      from mem_acquire_returns [OF env this, of cfg keys] t Redis_Down None show ?thesis by auto
    next
      case (Some s)
      obtain now w2 where r: "read_clock env (degrade w1) = (now, w2)" by fastforce
      have "(now + s - clock w2) * 200 \<le> s * 200" using forward_clock(1) [OF env r] by simp
      with fb Some have "enough_passes fb (Some (now + s)) w2"
        by (auto simp: enough_passes_def intro: le_less_trans)
      from mem_acquire_returns [OF env this, of cfg keys] t Redis_Down Some r show ?thesis by auto
    qed
  next
    case (Blocked key retry)
    obtain now w3 where r: "read_clock env ?w2 = (now, w3)" by fastforce
    note rc = forward_clock(1) [OF env r]
    let ?wait = "wait_for env retry ?w2"
    have wait: "MIN_WAIT_SECONDS \<le> ?wait" using env by (intro wait_for_pos) (simp add: forward_time_def)
    show ?thesis
    proof (cases "\<exists>d. deadline = Some d \<and> 0 < d - now \<and> ?wait \<le> d - now")
      case True
      then obtain d where d: "deadline = Some d" "0 < d - now" "?wait \<le> d - now" by blast
      have "enough_passes fuel (Some d) (sleep env ?wait w3)"
        using Suc.prems d(1,3) tc rc release_clock [of cfg env taken w1] wait
          forward_clock(4) [OF env, of w3 ?wait]
        by (intro enough_after_wait [of fuel d w now ?wait]) auto
      from Suc.IH this d t r Blocked show ?thesis by (auto simp: Let_def)
    next
      case False
      with t r Blocked show ?thesis by (auto simp: Let_def not_less not_le split: option.splits)
    qed
  qed
qed

text \<open>
  C11. Every acquire returns (\<open>TokenBucketLimiter.acquire\<close>, \<open>InMemoryLimiter.acquire\<close>).
  Whether or not Redis answers, and also through the fallback, an acquire with a timeout
  comes back after at most two hundred passes for each second of it, and one without a
  timeout after a single pass.
\<close>

theorem acquire_returns:
  assumes "forward_time env"
    and "case timeout of None \<Rightarrow> 0 < fuel | Some s \<Rightarrow> max 0 (s * 200) < of_nat fuel"
  shows "\<exists>res w'. acquire cfg env fuel keys timeout w = Some (res, w')"
proof -
  obtain now w1 where r: "read_clock env w = (now, w1)" by fastforce
  note rc = forward_clock(1) [OF assms(1) r]
  have f: "0 < fuel" "\<And>s. timeout = Some s \<Longrightarrow> s * 200 < of_nat fuel"
    using assms(2) by (cases timeout; auto simp: le_less_trans of_nat_0_less_iff [symmetric])+
  have "enough_passes fuel None w" using f(1) by (simp add: enough_passes_def)
  moreover have "enough_passes fuel (Some (now + s)) w1" if "timeout = Some s" for s
  proof -
    have "(now + s - clock w1) * 200 \<le> s * 200" using rc by simp
    with f that show ?thesis by (auto simp: enough_passes_def intro: le_less_trans)
  qed
  ultimately show ?thesis
    using acquire_loop_returns [where env = env and fb = fuel and timeout = timeout, OF assms(1) f] r
    by (cases timeout) (auto simp: acquire_def Let_def)
qed

end
