(* ===== verification/Limiter_Examples.thy ===== *)
theory Limiter_Examples
  imports Limiter_Laws
begin

text \<open>Concrete buckets and acquires: the witnesses of the laws of the limiter.\<close>

definition two_burst :: bucket_policy where
  "two_burst = \<lparr>capacity = 2, refill_per_second = 1\<rparr>"

lemma two_burst_ok: "policy_ok two_burst"
  by (simp add: policy_ok_def two_burst_def)

definition empty_bucket :: "int \<Rightarrow> bucket option" where
  "empty_bucket t = Some \<lparr>tokens = 0, last_refill_ms = t\<rparr>"

lemma empty_bucket_ok: "bucket_ok two_burst (empty_bucket t)"
  by (simp add: bucket_ok_def two_burst_def empty_bucket_def)

definition burst_calls :: "script_call list" where
  "burst_calls = [Acquire_Call 0 5, Acquire_Call 0 7, Acquire_Call (1/2) 506, Acquire_Call 1 1005]"

lemma scripts_keep_the_rate_witness:
  "total_gain (script_step two_burst) (script_gain two_burst) None burst_calls = 3 \<and>
   total_gain (script_step two_burst) (script_gain two_burst) None burst_calls \<le> 2 + 1 * (1 - 0)"
proof -
  have g: "total_gain (script_step two_burst) (script_gain two_burst) None burst_calls = 3" by code_simp
  have o: "outlives_refill two_burst 2" by (rule slow_refill_outlives [OF two_burst_ok]) (simp_all add: refill_ms_def two_burst_def)
  have c: "\<forall>c \<in> set burst_calls. clocks_within (-7) 2 c" by (simp add: burst_calls_def clocks_within_def py_int_def)
  from scripts_keep_the_rate [OF two_burst_ok _ o c, of None 0 1] g show ?thesis
    by (simp add: stored_ok_def bucket_ok_def burst_calls_def script_moment_def two_burst_def py_int_def)
qed

text \<open>
  Releasing a token cuts a park short: it sets the plain time to live again, so the parked key is gone
  after four seconds and the next call finds a full bucket, an hour before the provider's reset.
\<close>

theorem release_cuts_the_park:
  "let parked = foldl (script_step two_burst) None [Acquire_Call 0 0, Observe_Call 0 0 (Some 0) (Some 3600)]
   in script_gain two_burst parked (Acquire_Call 5 5000) = 0
      \<and> script_gain two_burst (script_step two_burst parked (Release_Call 0 0)) (Acquire_Call 5 5000) = 1
      \<and> script_gain two_burst (script_step two_burst (script_step two_burst parked (Release_Call 0 0)) (Acquire_Call 5 5000))
          (Acquire_Call 5 5000) = 1"
  by code_simp

lemma observe_only_lowers_witness:
  "bucket_level two_burst (OBSERVE_LUA 2 1 1000 0 9000 None) 5 < 1"
  using observe_only_lowers [OF two_burst_ok, of None 1000 5 0 9000]
  by (simp add: bucket_ok_def anchored_def two_burst_def)

lemma denied_acquire_lifts_park_witness:
  "allowed (fst (ACQUIRE_LUA 2 1 2000 1 (Some (snd (ACQUIRE_LUA 2 1 1000 1 (empty_bucket 9000)))))) \<and>
   bucket_level two_burst (empty_bucket 9000) 2 < 1"
  using denied_acquire_lifts_park [OF two_burst_ok, of "\<lparr>tokens = 0, last_refill_ms = 9000\<rparr>" 1000 2000]
  by (simp add: two_burst_def empty_bucket_def split: prod.splits)

definition one_cfg :: limiter_config where
  "one_cfg = \<lparr>default_policy = two_burst, policies = (\<lambda>_. None), fallback_default = two_burst,
     fallback_policies = (\<lambda>_. None), fail_open = True\<rparr>"

definition steady :: limiter_env where
  "steady = \<lparr>redis_up = (\<lambda>_. True), lag = (\<lambda>_. 1 / 1000), jitter = (\<lambda>_. 0)\<rparr>"

definition outage :: limiter_env where
  "outage = steady\<lparr>redis_up := (\<lambda>k. k \<noteq> 2)\<rparr>"

definition busy_world :: limiter_world where
  "busy_world = \<lparr>clock = 10, ticks = 0,
     shared = (\<lambda>key. if key = ''host'' then empty_bucket 10000 else None),
     local_buckets = (\<lambda>_. None), degraded_calls = 0\<rparr>"

definition refused :: "(acquire_result \<times> limiter_world) option" where
  "refused = acquire one_cfg steady 1 [''account'', ''host''] None busy_world"

lemma refused_result: "map_option fst refused = Some (Quota_Exceeded ''host'' (999 / 1000))"
  by code_simp

lemma refused_eq:
  "acquire one_cfg steady 1 [''account'', ''host''] None busy_world =
     Some (Quota_Exceeded ''host'' (999 / 1000), snd (the refused))"
proof -
  obtain w where w: "refused = Some (Quota_Exceeded ''host'' (999 / 1000), w)"
    using refused_result by (cases refused) auto
  then show ?thesis unfolding refused_def by simp
qed

lemma busy_world_ok: "buckets_ok one_cfg busy_world"
  using two_burst_ok
  by (auto simp: buckets_ok_def busy_world_def one_cfg_def policy_for_def stamp_ms_def py_int_def
      empty_bucket_def bucket_ok_def anchored_def two_burst_def)

lemma acquire_all_or_nothing_witness:
  "keys_level one_cfg (snd (the refused)) ''account'' 20 = keys_level one_cfg busy_world ''account'' 20"
proof -
  have h: "healthy steady" by (simp add: healthy_def steady_def)
  have "clock (snd (the refused)) \<le> 11" by code_simp
  then have "clock (snd (the refused)) * 1000 \<le> 20000" by simp
  then have "stamp (snd (the refused)) \<le> 20"
    by (auto simp: stamp_def stamp_ms_def py_int_def floor_le_iff ceiling_le_iff)
  with acquire_all_or_nothing [OF refused_eq h busy_world_ok] show ?thesis by simp
qed

lemma acquire_returns_witness:
  "\<exists>res w'. acquire one_cfg outage 500 [''account'', ''host''] (Some 2) busy_world = Some (res, w')"
  by (rule acquire_returns) (simp_all add: forward_time_def outage_def steady_def)

end
