(* ===== verification/Fusion.thy ===== *)
theory Fusion
  imports Prelude
begin

text \<open>
  \<open>retrieval/rerank/fusion.py\<close>, with the candidates and passages of \<open>retrieval/types.py\<close>:
  reciprocal rank fusion over the lists of three backends, and the collapse of
  near-duplicate passages.

  The dictionaries of the fusion loop are one record of functions with the order in which
  chunks were first seen; the results are the items of the dictionary it is given. A
  passage keeps what the collapse reads and writes. Simhashes are natural numbers, and
  the distance of two is the number of bits in which they differ.
\<close>

section \<open>Candidates\<close>

datatype backend = KEYWORD | VECTOR | GRAPH

definition all_backends :: "backend list" where
  "all_backends = [KEYWORD, VECTOR, GRAPH]"

record candidate =
  chunk_id :: string
  cand_backend :: backend
  cand_rank :: int
  raw_score :: pyfloat
  signal_id :: string

record fused_candidate =
  fused_chunk :: string
  fused_signal :: string
  fused_score :: pyfloat
  fused_ranks :: "backend \<Rightarrow> int option"
  fused_raw :: "backend \<Rightarrow> pyfloat option"

definition found_by :: "fused_candidate \<Rightarrow> backend list" where
  "found_by c = filter (\<lambda>b. fused_ranks c b \<noteq> None) all_backends"

definition backend_count :: "fused_candidate \<Rightarrow> nat" where
  "backend_count c = length (found_by c)"

definition DEFAULT_RRF_K :: int where
  "DEFAULT_RRF_K = 60"

definition DEFAULT_BACKEND_WEIGHTS :: "backend \<Rightarrow> pyfloat option" where
  "DEFAULT_BACKEND_WEIGHTS b =
     (case b of KEYWORD \<Rightarrow> Some 1 | VECTOR \<Rightarrow> Some 1 | GRAPH \<Rightarrow> Some (8 / 10))"

section \<open>Reciprocal rank fusion\<close>

record fusion_state =
  seen_chunks :: "string list"
  accumulated :: "string \<Rightarrow> pyfloat"
  ranks_of :: "string \<Rightarrow> backend \<Rightarrow> int option"
  raw_of :: "string \<Rightarrow> backend \<Rightarrow> pyfloat option"
  signal_of :: "string \<Rightarrow> string option"

definition empty_fusion :: fusion_state where
  "empty_fusion = \<lparr>seen_chunks = [], accumulated = (\<lambda>_. 0), ranks_of = (\<lambda>_ _. None),
     raw_of = (\<lambda>_ _. None), signal_of = (\<lambda>_. None)\<rparr>"

definition add_candidate ::
  "int \<Rightarrow> backend \<Rightarrow> pyfloat \<Rightarrow> fusion_state \<Rightarrow> candidate \<Rightarrow> py_error + fusion_state" where
  "add_candidate k b weight st c =
     (let i = chunk_id c in
      if cand_backend c \<noteq> b then Inl ValueError
      else if k + cand_rank c = 0 then Inl ZeroDivisionError
      else
        (let better = (case ranks_of st i b of None \<Rightarrow> True | Some r \<Rightarrow> cand_rank c < r) in
         Inr \<lparr>seen_chunks = (if i \<in> set (seen_chunks st) then seen_chunks st
                             else seen_chunks st @ [i]),
              accumulated = (accumulated st)(i := accumulated st i + weight / of_int (k + cand_rank c)),
              ranks_of = (if better then (ranks_of st)(i := (ranks_of st i)(b \<mapsto> cand_rank c))
                          else ranks_of st),
              raw_of = (if better then (raw_of st)(i := (raw_of st i)(b \<mapsto> raw_score c))
                        else raw_of st),
              signal_of = (case signal_of st i of
                  None \<Rightarrow> (signal_of st)(i \<mapsto> signal_id c) | Some s \<Rightarrow> signal_of st)\<rparr>))"

definition weight_of :: "(backend \<Rightarrow> pyfloat option) \<Rightarrow> backend \<Rightarrow> pyfloat" where
  "weight_of table b = (case table b of None \<Rightarrow> 1 | Some w \<Rightarrow> w)"

definition add_backend ::
  "int \<Rightarrow> (backend \<Rightarrow> pyfloat option) \<Rightarrow> fusion_state \<Rightarrow> backend \<times> candidate list
     \<Rightarrow> py_error + fusion_state" where
  "add_backend k table st item =
     (let weight = weight_of table (fst item) in
      if weight = 0 then Inr st
      else fold_res (add_candidate k (fst item) weight) st (snd item))"

definition fused_of :: "fusion_state \<Rightarrow> string \<Rightarrow> fused_candidate" where
  "fused_of st i =
     \<lparr>fused_chunk = i, fused_signal = (case signal_of st i of None \<Rightarrow> [] | Some s \<Rightarrow> s),
      fused_score = accumulated st i, fused_ranks = ranks_of st i, fused_raw = raw_of st i\<rparr>"

definition best_rank :: "fused_candidate \<Rightarrow> int" where
  "best_rank c =
     (case found_by c of
        [] \<Rightarrow> 1073741824
      | bs \<Rightarrow> Min (set (map (\<lambda>b. the (fused_ranks c b)) bs)))"

definition fusion_key :: "fused_candidate \<Rightarrow> pyfloat \<times> int \<times> int \<times> string" where
  "fusion_key c = (- fused_score c, - int (backend_count c), best_rank c, fused_chunk c)"

definition reciprocal_rank_fusion ::
  "(backend \<times> candidate list) list \<Rightarrow> int \<Rightarrow> (backend \<Rightarrow> pyfloat option) option \<Rightarrow> nat option
     \<Rightarrow> py_error + fused_candidate list" where
  "reciprocal_rank_fusion results k weights pool_max =
     (let table = (case weights of None \<Rightarrow> DEFAULT_BACKEND_WEIGHTS | Some t \<Rightarrow> t) in
      map_sum id
        (\<lambda>st. (case pool_max of None \<Rightarrow> id | Some n \<Rightarrow> take n)
                (sort_key fusion_key (map (fused_of st) (seen_chunks st))))
        (fold_res (add_backend k table) empty_fusion results))"

section \<open>Near-duplicates\<close>

record passage =
  passage_chunk :: string
  passage_signal :: string
  duplicate_of_count :: nat
  collapsed_signal_ids :: "string list"
  passage_found_by :: "backend list"
  passage_score :: pyfloat
  passage_ranks :: "backend \<Rightarrow> int option"

fun bit_count :: "nat \<Rightarrow> nat" where
  "bit_count n = (if n = 0 then 0 else n mod 2 + bit_count (n div 2))"

declare bit_count.simps [simp del]

definition hamming :: "nat \<Rightarrow> nat \<Rightarrow> nat" where
  "hamming a b = bit_count (Bit_Operations.xor a b)"

definition absorb_passage :: "passage \<Rightarrow> passage \<Rightarrow> passage" where
  "absorb_passage keeper p =
     keeper\<lparr>duplicate_of_count := duplicate_of_count keeper + 1,
       collapsed_signal_ids :=
         (if passage_signal p \<noteq> passage_signal keeper \<and>
             passage_signal p \<notin> set (collapsed_signal_ids keeper)
          then collapsed_signal_ids keeper @ [passage_signal p] else collapsed_signal_ids keeper),
       passage_found_by := passage_found_by keeper @
         filter (\<lambda>b. b \<notin> set (passage_found_by keeper)) (passage_found_by p)\<rparr>"

text \<open>
  The survivors, each with the fingerprint the search compares against, or none for a
  passage without one. The first survivor within the distance absorbs the newcomer.
\<close>

fun absorb_into ::
  "nat \<Rightarrow> nat \<Rightarrow> passage \<Rightarrow> (passage \<times> nat option) list \<Rightarrow> (passage \<times> nat option) list option" where
  "absorb_into near f p [] = None"
| "absorb_into near f p ((q, h) # rest) =
     (if (case h of None \<Rightarrow> False | Some g \<Rightarrow> hamming f g \<le> near)
      then Some ((absorb_passage q p, h) # rest)
      else map_option (\<lambda>r. (q, h) # r) (absorb_into near f p rest))"

definition collapse_step ::
  "nat \<Rightarrow> (passage \<Rightarrow> nat option) \<Rightarrow> (passage \<times> nat option) list \<Rightarrow> passage
     \<Rightarrow> (passage \<times> nat option) list" where
  "collapse_step near simhash survivors p =
     (case simhash p of
        None \<Rightarrow> survivors @ [(p, None)]
      | Some f \<Rightarrow> (case absorb_into near f p survivors of
            None \<Rightarrow> survivors @ [(p, Some f)]
          | Some s \<Rightarrow> s))"

definition collapse_near_duplicates ::
  "passage list \<Rightarrow> (passage \<Rightarrow> nat option) \<Rightarrow> nat \<Rightarrow> passage list" where
  "collapse_near_duplicates passages simhash near =
     map fst (foldl (collapse_step near simhash) [] passages)"

end
