(* ===== verification/Fusion_Laws.thy ===== *)
theory Fusion_Laws
  imports Fusion "HOL-Library.Sublist"
begin

text \<open>
  What \<open>retrieval/rerank/fusion.py\<close> guarantees. The nested loops are one loop over the
  hits, the candidates of the backends with a weight, and after it every field of the
  state is a function of the hits: the score is a sum over them, a rank is the least one,
  the signal is the first. From there the ranking does not depend on the order of the
  backends. The collapse keeps every passage accounted for and leaves survivors that are
  pairwise far apart.
\<close>

section \<open>The hits of a fusion\<close>

type_synonym hit = "backend \<times> pyfloat \<times> candidate"

definition hit_id :: "hit \<Rightarrow> string" where
  "hit_id h = chunk_id (snd (snd h))"

definition item_hits ::
  "(backend \<Rightarrow> pyfloat option) \<Rightarrow> backend \<times> candidate list \<Rightarrow> hit list" where
  "item_hits table item =
     (if weight_of table (fst item) = 0 then []
      else map (\<lambda>c. (fst item, weight_of table (fst item), c)) (snd item))"

definition hits ::
  "(backend \<Rightarrow> pyfloat option) \<Rightarrow> (backend \<times> candidate list) list \<Rightarrow> hit list" where
  "hits table results = concat (map (item_hits table) results)"

definition add_hit :: "int \<Rightarrow> fusion_state \<Rightarrow> hit \<Rightarrow> py_error + fusion_state" where
  "add_hit k st h = add_candidate k (fst h) (fst (snd h)) st (snd (snd h))"

definition hit_gain :: "int \<Rightarrow> hit \<Rightarrow> pyfloat" where
  "hit_gain k h = fst (snd h) / of_int (k + cand_rank (snd (snd h)))"

lemma fold_res_map: "fold_res step st (map g xs) = fold_res (\<lambda>s x. step s (g x)) st xs"
  by (induction xs arbitrary: st) simp_all

lemma add_backend_hits:
  "add_backend k table st item = fold_res (add_hit k) st (item_hits table item)"
  by (simp add: add_backend_def item_hits_def fold_res_map add_hit_def Let_def)

lemma fusion_loop_hits:
  "fold_res (add_backend k table) st results = fold_res (add_hit k) st (hits table results)"
proof (induction results arbitrary: st)
  case Nil
  then show ?case by (simp add: hits_def)
next
  case (Cons item results)
  have "fold_res (add_backend k table) st (item # results)
      = and_then (fold_res (add_hit k) st (item_hits table item))
          (\<lambda>t. fold_res (add_hit k) t (hits table results))"
    by (simp only: fold_res.simps Cons.IH) (simp only: add_backend_hits)
  then show ?case
    by (simp only: hits_def list.map concat.simps fold_res_append)
qed

section \<open>The state after the loop\<close>

text \<open>What the loop keeps of the candidates of one backend for one chunk.\<close>

definition keep_better :: "candidate option \<Rightarrow> candidate \<Rightarrow> candidate option" where
  "keep_better best c =
     (case best of None \<Rightarrow> Some c | Some d \<Rightarrow> if cand_rank c < cand_rank d then Some c else best)"

definition best_hit :: "candidate list \<Rightarrow> candidate option" where
  "best_hit cs = foldl keep_better None cs"

definition hits_of :: "string \<Rightarrow> backend \<Rightarrow> hit list \<Rightarrow> candidate list" where
  "hits_of i b hs = map (snd \<circ> snd) (filter (\<lambda>h. fst h = b \<and> hit_id h = i) hs)"

definition first_signal :: "string \<Rightarrow> hit list \<Rightarrow> string option" where
  "first_signal i hs =
     (case filter (\<lambda>h. hit_id h = i) hs of [] \<Rightarrow> None | h # _ \<Rightarrow> Some (signal_id (snd (snd h))))"

definition score_of :: "int \<Rightarrow> string \<Rightarrow> hit list \<Rightarrow> pyfloat" where
  "score_of k i hs = sum_list (map (hit_gain k) (filter (\<lambda>h. hit_id h = i) hs))"

definition summary :: "int \<Rightarrow> hit list \<Rightarrow> fusion_state" where
  "summary k hs =
     \<lparr>seen_chunks = ordered_unique (map hit_id hs),
      accumulated = (\<lambda>i. score_of k i hs),
      ranks_of = (\<lambda>i b. map_option cand_rank (best_hit (hits_of i b hs))),
      raw_of = (\<lambda>i b. map_option raw_score (best_hit (hits_of i b hs))),
      signal_of = (\<lambda>i. first_signal i hs)\<rparr>"

lemma add_unique_append: "add_unique acc (xs @ ys) = add_unique (add_unique acc xs) ys"
  by (induction acc xs rule: add_unique.induct) auto

lemma ordered_unique_snoc:
  "ordered_unique (xs @ [x]) =
     (if x \<in> set xs then ordered_unique xs else ordered_unique xs @ [x])"
  by (simp add: ordered_unique_def add_unique_append)

lemma best_hit_snoc: "best_hit (cs @ [c]) = keep_better (best_hit cs) c"
  by (simp add: best_hit_def)

lemma hits_of_snoc:
  "hits_of i b (hs @ [h]) =
     (if fst h = b \<and> hit_id h = i then hits_of i b hs @ [snd (snd h)] else hits_of i b hs)"
  by (simp add: hits_of_def)

lemma score_of_snoc:
  "score_of k i (hs @ [h]) = score_of k i hs + (if hit_id h = i then hit_gain k h else 0)"
  by (simp add: score_of_def)

lemma first_signal_snoc:
  "first_signal i (hs @ [h]) =
     (case first_signal i hs of Some s \<Rightarrow> Some s
      | None \<Rightarrow> if hit_id h = i then Some (signal_id (snd (snd h))) else None)"
  by (cases "filter (\<lambda>h. hit_id h = i) hs") (simp_all add: first_signal_def)

definition fair_hit :: "int \<Rightarrow> hit \<Rightarrow> bool" where
  "fair_hit k h \<longleftrightarrow> cand_backend (snd (snd h)) = fst h \<and> k + cand_rank (snd (snd h)) \<noteq> 0"

lemma summary_step:
  assumes "fair_hit k h"
  shows "add_hit k (summary k hs) h = Inr (summary k (hs @ [h]))"
proof -
  obtain b w c where h: "h = (b, w, c)" by (cases h) auto
  let ?best = "best_hit (hits_of (chunk_id c) b hs)"
  have ranks: "ranks_of (summary k (hs @ [h])) =
      (if (case map_option cand_rank ?best of None \<Rightarrow> True | Some r \<Rightarrow> cand_rank c < r)
       then (ranks_of (summary k hs))(chunk_id c :=
              (ranks_of (summary k hs) (chunk_id c))(b \<mapsto> cand_rank c))
       else ranks_of (summary k hs))"
    by (rule ext, rule ext)
      (auto simp: summary_def h hits_of_snoc hit_id_def best_hit_snoc keep_better_def
            split: option.splits)
  have raws: "raw_of (summary k (hs @ [h])) =
      (if (case map_option cand_rank ?best of None \<Rightarrow> True | Some r \<Rightarrow> cand_rank c < r)
       then (raw_of (summary k hs))(chunk_id c :=
              (raw_of (summary k hs) (chunk_id c))(b \<mapsto> raw_score c))
       else raw_of (summary k hs))"
    by (rule ext, rule ext)
      (auto simp: summary_def h hits_of_snoc hit_id_def best_hit_snoc keep_better_def
            split: option.splits)
  have signals: "signal_of (summary k (hs @ [h])) =
      (case first_signal (chunk_id c) hs of
         None \<Rightarrow> (signal_of (summary k hs))(chunk_id c \<mapsto> signal_id c)
       | Some s \<Rightarrow> signal_of (summary k hs))"
    by (rule ext)
      (auto simp: summary_def h first_signal_snoc hit_id_def split: option.splits)
  have scores: "accumulated (summary k (hs @ [h])) =
      (accumulated (summary k hs))(chunk_id c :=
         accumulated (summary k hs) (chunk_id c) + w / of_int (k + cand_rank c))"
    by (rule ext) (simp add: summary_def h score_of_snoc hit_id_def hit_gain_def)
  have seen: "seen_chunks (summary k (hs @ [h])) =
      (if chunk_id c \<in> set (seen_chunks (summary k hs)) then seen_chunks (summary k hs)
       else seen_chunks (summary k hs) @ [chunk_id c])"
    by (simp add: summary_def h ordered_unique_snoc hit_id_def)
  show ?thesis
    using assms ranks raws signals scores seen
    by (simp add: add_hit_def add_candidate_def fair_hit_def h Let_def)
      (simp add: summary_def)
qed

lemma empty_is_summary: "empty_fusion = summary k []"
  by (simp add: empty_fusion_def summary_def ordered_unique_def score_of_def first_signal_def
      best_hit_def hits_of_def)

lemma unfair_raises:
  "\<not> fair_hit k h \<Longrightarrow> \<exists>e. add_hit k st h = Inl e"
  by (auto simp: fair_hit_def add_hit_def add_candidate_def Let_def)

lemma add_hits_summary:
  "fold_res (add_hit k) (summary k done) hs = Inr st \<longleftrightarrow>
     (\<forall>h \<in> set hs. fair_hit k h) \<and> st = summary k (done @ hs)"
proof (induction hs arbitrary: "done")
  case Nil
  then show ?case by auto
next
  case (Cons h hs)
  show ?case
  proof (cases "fair_hit k h")
    case True
    then show ?thesis by (simp add: summary_step Cons.IH)
  next
    case False
    with unfair_raises [OF False, of "summary k done"] show ?thesis by auto
  qed
qed

lemma fusion_loop_summary:
  "fold_res (add_backend k table) empty_fusion results = Inr st \<longleftrightarrow>
     (\<forall>h \<in> set (hits table results). fair_hit k h) \<and> st = summary k (hits table results)"
  by (simp add: fusion_loop_hits empty_is_summary [of k] add_hits_summary)

definition chosen_weights ::
  "(backend \<Rightarrow> pyfloat option) option \<Rightarrow> backend \<Rightarrow> pyfloat option" where
  "chosen_weights weights = (case weights of None \<Rightarrow> DEFAULT_BACKEND_WEIGHTS | Some t \<Rightarrow> t)"

definition ranking :: "int \<Rightarrow> hit list \<Rightarrow> fused_candidate list" where
  "ranking k hs = sort_key fusion_key (map (fused_of (summary k hs)) (ordered_unique (map hit_id hs)))"

lemma fusion_result:
  "reciprocal_rank_fusion results k weights pool_max = Inr out \<longleftrightarrow>
     (\<forall>h \<in> set (hits (chosen_weights weights) results). fair_hit k h) \<and>
     out = (case pool_max of None \<Rightarrow> id | Some n \<Rightarrow> take n)
             (ranking k (hits (chosen_weights weights) results))"
proof -
  let ?loop = "fold_res (add_backend k (chosen_weights weights)) empty_fusion results"
  have "reciprocal_rank_fusion results k weights pool_max = Inr out \<longleftrightarrow>
     (\<exists>st. ?loop = Inr st \<and> out = (case pool_max of None \<Rightarrow> id | Some n \<Rightarrow> take n)
        (sort_key fusion_key (map (fused_of st) (seen_chunks st))))"
    by (cases ?loop) (auto simp: reciprocal_rank_fusion_def chosen_weights_def)
  then show ?thesis
    by (auto simp: fusion_loop_summary ranking_def) (simp_all add: summary_def)
qed

lemma fused_chunk_of [simp]: "fused_chunk (fused_of st i) = i"
  by (simp add: fused_of_def)

lemma set_ranking: "set (ranking k hs) = fused_of (summary k hs) ` set (map hit_id hs)"
  by (simp add: ranking_def)

lemma set_pool: "set ((case p of None \<Rightarrow> id | Some n \<Rightarrow> take n) xs) \<subseteq> set xs"
  by (auto split: option.splits dest: in_set_takeD)

section \<open>Scores\<close>

definition rrf_score ::
  "int \<Rightarrow> (backend \<Rightarrow> pyfloat option) \<Rightarrow> (backend \<times> candidate list) list \<Rightarrow> string \<Rightarrow> pyfloat" where
  "rrf_score k table results i =
     (\<Sum>(b, cs) \<leftarrow> results. weight_of table b *
        (\<Sum>c \<leftarrow> filter (\<lambda>c. chunk_id c = i) cs. 1 / of_int (k + cand_rank c)))"

lemma score_of_append: "score_of k i (xs @ ys) = score_of k i xs + score_of k i ys"
  by (simp add: score_of_def)

lemma score_of_item:
  "score_of k i (item_hits table (b, cs)) =
     weight_of table b * (\<Sum>c \<leftarrow> filter (\<lambda>c. chunk_id c = i) cs. 1 / of_int (k + cand_rank c))"
proof -
  have "score_of k i (map (\<lambda>c. (b, w, c)) cs) =
      w * (\<Sum>c \<leftarrow> filter (\<lambda>c. chunk_id c = i) cs. 1 / of_int (k + cand_rank c))" for w
    by (induction cs) (simp_all add: score_of_def hit_id_def hit_gain_def algebra_simps)
  then show ?thesis by (simp add: item_hits_def score_of_def)
qed

lemma score_of_hits: "score_of k i (hits table results) = rrf_score k table results i"
proof (induction results)
  case Nil
  then show ?case by (simp add: hits_def rrf_score_def score_of_def)
next
  case (Cons item results)
  obtain b cs where item: "item = (b, cs)" by (cases item)
  have "hits table (item # results) = item_hits table (b, cs) @ hits table results"
    by (simp add: hits_def item)
  then show ?case
    by (simp add: score_of_append Cons.IH score_of_item) (simp add: rrf_score_def item)
qed

text \<open>
  The score of every fused candidate is the reciprocal rank fusion score of its
  chunk: over the backends, the weight of the backend times the sum of
  \<open>1 / (k + rank)\<close> over the chunk's positions in that backend's list. Backends with weight
  zero contribute nothing, whatever the cut of the pool.
\<close>

theorem fused_score_is_rrf:
  assumes "reciprocal_rank_fusion results k weights pool_max = Inr out" and "c \<in> set out"
  shows "fused_score c = rrf_score k (chosen_weights weights) results (fused_chunk c)"
proof -
  from assms set_pool obtain i where
    c: "c = fused_of (summary k (hits (chosen_weights weights) results)) i"
    unfolding fusion_result by (fastforce simp: set_ranking)
  show ?thesis by (simp add: c fused_of_def score_of_hits summary_def)
qed

text \<open>
  Without a cut the fusion returns each chunk of the weighted backends exactly once,
  the higher score first; equal scores are ordered by how many backends found the chunk,
  then by its best rank, then by its id.
\<close>

theorem fusion_ranks_each_chunk_once:
  assumes "reciprocal_rank_fusion results k weights None = Inr out"
  shows "distinct (map fused_chunk out) \<and> sorted (map fusion_key out) \<and>
    set (map fused_chunk out) =
      {chunk_id c |b cs c. (b, cs) \<in> set results \<and> weight_of (chosen_weights weights) b \<noteq> 0 \<and>
         c \<in> set cs}"
proof -
  let ?hs = "hits (chosen_weights weights) results"
  from assms have out: "out = ranking k ?hs" by (simp add: fusion_result)
  have "mset (map fused_chunk out) = mset (ordered_unique (map hit_id ?hs))"
    by (simp add: out ranking_def image_mset.compositionality comp_def)
  then have d: "distinct (map fused_chunk out)" and s: "set (map fused_chunk out) = hit_id ` set ?hs"
    using mset_eq_imp_distinct_iff [of "map fused_chunk out" "ordered_unique (map hit_id ?hs)"]
      mset_eq_setD [of "map fused_chunk out" "ordered_unique (map hit_id ?hs)"] by simp_all
  have "hit_id ` set ?hs =
      {chunk_id c |b cs c. (b, cs) \<in> set results \<and> weight_of (chosen_weights weights) b \<noteq> 0 \<and>
         c \<in> set cs}"
    by (force simp: hits_def item_hits_def hit_id_def split: if_splits)
  then show ?thesis using d s by (simp add: out ranking_def)
qed

section \<open>The order of the backends\<close>

lemma hits_of_append: "hits_of i b (xs @ ys) = hits_of i b xs @ hits_of i b ys"
  by (simp add: hits_of_def)

lemma hits_of_other: "b \<noteq> b' \<Longrightarrow> hits_of i b (item_hits table (b', cs)) = []"
  by (simp add: hits_of_def item_hits_def filter_empty_conv)

lemma hits_of_absent: "b \<notin> fst ` set results \<Longrightarrow> hits_of i b (hits table results) = []"
proof (induction results)
  case Nil
  then show ?case by (simp add: hits_def hits_of_def)
next
  case (Cons item results)
  then show ?case
    by (cases item) (auto simp: hits_def hits_of_append hits_of_other)
qed

lemma hits_of_present:
  assumes "distinct (map fst results)" and "(b, cs) \<in> set results"
  shows "hits_of i b (hits table results) = hits_of i b (item_hits table (b, cs))"
  using assms
proof (induction results)
  case Nil
  then show ?case by simp
next
  case (Cons item results)
  have split: "hits_of i b (hits table (item # results)) =
      hits_of i b (item_hits table item) @ hits_of i b (hits table results)"
    by (simp add: hits_def hits_of_append)
  show ?case
  proof (cases "item = (b, cs)")
    case True
    with Cons.prems have "b \<notin> fst ` set results" by auto
    with True split show ?thesis by (simp add: hits_of_absent)
  next
    case False
    with Cons.prems have present: "(b, cs) \<in> set results" by auto
    then have "b \<in> fst ` set results" by force
    with Cons.prems have "fst item \<noteq> b" by auto
    with present Cons split show ?thesis by (cases item) (auto simp: hits_of_other)
  qed
qed

lemma mset_hits:
  "mset results = mset results' \<Longrightarrow> mset (hits table results) = mset (hits table results')"
  unfolding hits_def mset_concat by (metis mset_map sum_mset_sum_list)

lemma score_of_mset: "mset hs = mset hs' \<Longrightarrow> score_of k i hs = score_of k i hs'"
proof -
  assume "mset hs = mset hs'"
  then have "mset (map (hit_gain k) (filter (\<lambda>h. hit_id h = i) hs)) =
      mset (map (hit_gain k) (filter (\<lambda>h. hit_id h = i) hs'))" by simp
  then show ?thesis unfolding score_of_def by (metis sum_mset_sum_list)
qed

definition one_signal_per_chunk :: "(backend \<times> candidate list) list \<Rightarrow> bool" where
  "one_signal_per_chunk results \<longleftrightarrow>
     (let cs = concat (map snd results) in
      list_all (\<lambda>c. list_all (\<lambda>d. chunk_id c = chunk_id d \<longrightarrow> signal_id c = signal_id d) cs) cs)"

lemma hits_candidates:
  "h \<in> set (hits table results) \<Longrightarrow> snd (snd h) \<in> set (concat (map snd results))"
  by (force simp: hits_def item_hits_def split: if_splits)

lemma one_signalD:
  assumes "one_signal_per_chunk results" and "c \<in> set (concat (map snd results))"
    and "d \<in> set (concat (map snd results))" and "chunk_id c = chunk_id d"
  shows "signal_id c = signal_id d"
proof -
  from assms(1) have "\<forall>x \<in> set (concat (map snd results)). \<forall>y \<in> set (concat (map snd results)).
      chunk_id x = chunk_id y \<longrightarrow> signal_id x = signal_id y"
    unfolding one_signal_per_chunk_def Let_def list_all_iff .
  with assms(2-4) show ?thesis by blast
qed

lemma filter_ConsD: "filter P xs = x # ys \<Longrightarrow> x \<in> set xs \<and> P x"
  by (auto simp: filter_eq_Cons_iff)

lemma first_signal_set:
  assumes "one_signal_per_chunk results" and "set hs = set hs'"
    and "set hs \<subseteq> set (hits table results)"
  shows "first_signal i hs = first_signal i hs'"
proof (cases "filter (\<lambda>h. hit_id h = i) hs")
  case Nil
  with assms(2) have "filter (\<lambda>h. hit_id h = i) hs' = []" by (simp add: filter_empty_conv)
  with Nil show ?thesis by (simp add: first_signal_def)
next
  case (Cons h rest)
  then have h: "h \<in> set hs" "hit_id h = i" using filter_ConsD [OF Cons] by simp_all
  with assms(2) have "filter (\<lambda>h. hit_id h = i) hs' \<noteq> []" by (auto simp: filter_empty_conv)
  then obtain h' rest' where f': "filter (\<lambda>h. hit_id h = i) hs' = h' # rest'"
    by (cases "filter (\<lambda>h. hit_id h = i) hs'") auto
  then have h': "h' \<in> set hs'" "hit_id h' = i" using filter_ConsD [OF f'] by simp_all
  let ?c = "snd (snd h)" and ?d = "snd (snd h')"
  from h(1) assms(3) have hc: "h \<in> set (hits table results)" by (rule set_rev_mp)
  from h'(1) assms(2,3) have hd: "h' \<in> set (hits table results)" by blast
  have "chunk_id ?c = chunk_id ?d" using h(2) h'(2) by (simp add: hit_id_def)
  with assms(1) hits_candidates [OF hc] hits_candidates [OF hd]
  have "signal_id ?c = signal_id ?d" by (rule one_signalD)
  with Cons f' show ?thesis by (simp add: first_signal_def)
qed

lemma inj_fusion_key: "inj_on fusion_key (fused_of st ` A)"
  by (auto simp: inj_on_def fusion_key_def)

text \<open>
  The order in which the backends' lists arrive does not matter: for the same lists
  under distinct backends, with every chunk belonging to one signal, the fusion returns
  the same candidates in the same order, with the same scores, ranks and raw scores, cut
  or not.
\<close>

theorem fusion_ignores_backend_order:
  assumes "mset results = mset results'" and "distinct (map fst results)"
    and "one_signal_per_chunk results"
    and "reciprocal_rank_fusion results k weights pool_max = Inr out"
  shows "reciprocal_rank_fusion results' k weights pool_max = Inr out"
proof -
  let ?t = "chosen_weights weights"
  let ?hs = "hits ?t results" and ?hs' = "hits ?t results'"
  have ms: "mset ?hs = mset ?hs'" by (rule mset_hits [OF assms(1)])
  then have same: "set ?hs = set ?hs'" by (rule mset_eq_setD)
  have d': "distinct (map fst results')"
    using assms(1,2) by (metis mset_eq_imp_distinct_iff mset_map)
  have per: "hits_of i b ?hs = hits_of i b ?hs'" for i b
  proof (cases "b \<in> fst ` set results")
    case True
    then obtain cs where cs: "(b, cs) \<in> set results" by force
    with assms(1) have "(b, cs) \<in> set results'" by (metis mset_eq_setD)
    with cs show ?thesis using assms(2) d' by (simp add: hits_of_present)
  next
    case False
    then have "b \<notin> fst ` set results'" using assms(1) by (metis mset_eq_setD)
    with False show ?thesis by (simp add: hits_of_absent)
  qed
  have signal: "first_signal i ?hs = first_signal i ?hs'" for i
    by (rule first_signal_set [OF assms(3) same]) (rule subset_refl)
  have state: "fused_of (summary k ?hs) = fused_of (summary k ?hs')"
    by (rule ext) (simp add: fused_of_def summary_def per score_of_mset [OF ms] signal)
  have ids: "mset (ordered_unique (map hit_id ?hs)) = mset (ordered_unique (map hit_id ?hs'))"
    by (rule set_eq_iff_mset_eq_distinct [THEN iffD1]) (simp_all add: same)
  have "ranking k ?hs = ranking k ?hs'"
    unfolding ranking_def state
  proof (rule sort_key_perm)
    show "mset (map (fused_of (summary k ?hs')) (ordered_unique (map hit_id ?hs))) =
        mset (map (fused_of (summary k ?hs')) (ordered_unique (map hit_id ?hs')))"
      by (simp add: ids)
    show "inj_on fusion_key (set (map (fused_of (summary k ?hs')) (ordered_unique (map hit_id ?hs))))"
      by (simp add: inj_fusion_key)
  qed
  with assms(4) same show ?thesis by (simp add: fusion_result)
qed

section \<open>Near-duplicates\<close>

definition clear_of :: "nat \<Rightarrow> nat \<Rightarrow> nat option \<Rightarrow> bool" where
  "clear_of near f h = (case h of None \<Rightarrow> True | Some g \<Rightarrow> near < hamming f g)"

definition apart :: "nat \<Rightarrow> nat option \<Rightarrow> nat option \<Rightarrow> bool" where
  "apart near h h' = (case h' of None \<Rightarrow> True | Some f \<Rightarrow> clear_of near f h)"

definition account :: "(passage \<times> nat option) list \<Rightarrow> nat" where
  "account survivors = (\<Sum>s \<leftarrow> survivors. Suc (duplicate_of_count (fst s)))"

lemma absorb_passage_fields [simp]:
  "passage_chunk (absorb_passage q p) = passage_chunk q"
  "duplicate_of_count (absorb_passage q p) = Suc (duplicate_of_count q)"
  by (simp_all add: absorb_passage_def)

lemma absorb_into_None:
  "absorb_into near f p survivors = None \<longleftrightarrow> list_all (\<lambda>s. clear_of near f (snd s)) survivors"
  by (induction survivors rule: absorb_into.induct) (auto simp: clear_of_def split: option.splits)

lemma absorb_into_Some:
  "absorb_into near f p survivors = Some out \<Longrightarrow>
     map (passage_chunk \<circ> fst) out = map (passage_chunk \<circ> fst) survivors \<and>
     map snd out = map snd survivors \<and> account out = Suc (account survivors)"
proof (induction survivors arbitrary: out)
  case Nil
  then show ?case by simp
next
  case (Cons s rest)
  obtain q h where s: "s = (q, h)" by (cases s)
  show ?case
  proof (cases "case h of None \<Rightarrow> False | Some g \<Rightarrow> hamming f g \<le> near")
    case True
    then have "out = (absorb_passage q p, h) # rest" using Cons.prems by (simp add: s)
    then show ?thesis by (simp add: s account_def)
  next
    case False
    with Cons.prems obtain r where r: "absorb_into near f p rest = Some r" "out = (q, h) # r"
      by (auto simp: s)
    from Cons.IH [OF r(1)] show ?thesis by (simp add: s r(2) account_def)
  qed
qed

definition collapsed ::
  "nat \<Rightarrow> (string \<Rightarrow> nat option) \<Rightarrow> passage list \<Rightarrow> (passage \<times> nat option) list" where
  "collapsed near fp ps = foldl (collapse_step near (\<lambda>p. fp (passage_chunk p))) [] ps"

lemma collapsed_snoc:
  "collapsed near fp (ps @ [p]) = collapse_step near (\<lambda>p. fp (passage_chunk p)) (collapsed near fp ps) p"
  by (simp add: collapsed_def)

text \<open>What the survivors look like after any number of passages.\<close>

definition collapse_inv ::
  "nat \<Rightarrow> (string \<Rightarrow> nat option) \<Rightarrow> passage list \<Rightarrow> (passage \<times> nat option) list \<Rightarrow> bool" where
  "collapse_inv near fp ps survivors \<longleftrightarrow>
     map snd survivors = map (fp \<circ> passage_chunk \<circ> fst) survivors \<and>
     sorted_wrt (apart near) (map snd survivors) \<and>
     subseq (map (passage_chunk \<circ> fst) survivors) (map passage_chunk ps) \<and>
     (list_all (\<lambda>p. duplicate_of_count p = 0) ps \<longrightarrow> account survivors = length ps)"

lemma collapse_inv_add:
  assumes "collapse_inv near fp ps survivors" and "h = fp (passage_chunk p)"
    and "list_all (\<lambda>s. apart near (snd s) h) survivors"
  shows "collapse_inv near fp (ps @ [p]) (survivors @ [(p, h)])"
  using assms
  by (auto simp: collapse_inv_def account_def sorted_wrt_append list_all_iff list_emb_append_mono)

lemma collapse_inv_step:
  assumes "collapse_inv near fp ps survivors"
  shows "collapse_inv near fp (ps @ [p])
    (collapse_step near (\<lambda>p. fp (passage_chunk p)) survivors p)"
proof (cases "fp (passage_chunk p)")
  case None
  then have "list_all (\<lambda>s. apart near (snd s) (fp (passage_chunk p))) survivors"
    by (simp add: apart_def list_all_iff)
  from collapse_inv_add [OF assms refl this] None show ?thesis by (simp add: collapse_step_def)
next
  case (Some f)
  show ?thesis
  proof (cases "absorb_into near f p survivors")
    case None
    then have "list_all (\<lambda>s. apart near (snd s) (fp (passage_chunk p))) survivors"
      by (simp add: apart_def Some absorb_into_None)
    from collapse_inv_add [OF assms refl this] None Some
    show ?thesis by (simp add: collapse_step_def)
  next
    case (Some out)
    from absorb_into_Some [OF this] have out:
      "map (passage_chunk \<circ> fst) out = map (passage_chunk \<circ> fst) survivors"
      "map snd out = map snd survivors" "account out = Suc (account survivors)" by simp_all
    have "map (fp \<circ> passage_chunk \<circ> fst) out = map (fp \<circ> passage_chunk \<circ> fst) survivors"
      using arg_cong [OF out(1), of "map fp"] by (simp add: comp_assoc)
    with assms out have "collapse_inv near fp (ps @ [p]) out"
      by (auto simp: collapse_inv_def intro: list_emb_append2 [of _ _ _ "[passage_chunk p]", simplified])
    with Some \<open>fp (passage_chunk p) = Some f\<close> show ?thesis by (simp add: collapse_step_def)
  qed
qed

lemma collapse_inv_collapsed: "collapse_inv near fp ps (collapsed near fp ps)"
proof (induction ps rule: rev_induct)
  case Nil
  then show ?case by (simp add: collapsed_def collapse_inv_def account_def)
next
  case (snoc p ps)
  then show ?case by (simp add: collapsed_snoc collapse_inv_step)
qed

lemma collapse_is_collapsed:
  "collapse_near_duplicates ps (\<lambda>p. fp (passage_chunk p)) near = map fst (collapsed near fp ps)"
  by (simp add: collapse_near_duplicates_def collapsed_def)

text \<open>
  After the collapse no two survivors with a fingerprint are within the distance of
  each other, where a passage's fingerprint is that of its chunk.
\<close>

theorem collapse_keeps_apart:
  "sorted_wrt (\<lambda>p q. apart near (fp (passage_chunk p)) (fp (passage_chunk q)))
     (collapse_near_duplicates ps (\<lambda>p. fp (passage_chunk p)) near)"
proof -
  let ?s = "collapsed near fp ps"
  from collapse_inv_collapsed have "sorted_wrt (apart near) (map (fp \<circ> passage_chunk \<circ> fst) ?s)"
    unfolding collapse_inv_def by metis
  then show ?thesis by (simp add: collapse_is_collapsed sorted_wrt_map)
qed

text \<open>
  The collapse accounts for every passage: the survivors keep the fused order, and
  from fresh passages the survivors and the duplicates recorded on them add up to the
  passages that came in.
\<close>

theorem collapse_accounts:
  assumes "list_all (\<lambda>p. duplicate_of_count p = 0) ps"
  shows "subseq (map passage_chunk (collapse_near_duplicates ps (\<lambda>p. fp (passage_chunk p)) near))
      (map passage_chunk ps) \<and>
    (\<Sum>p \<leftarrow> collapse_near_duplicates ps (\<lambda>p. fp (passage_chunk p)) near.
       Suc (duplicate_of_count p)) = length ps"
  using collapse_inv_collapsed [of near fp ps] assms
  by (simp add: collapse_inv_def collapse_is_collapsed account_def comp_def)

section \<open>Instances\<close>

text \<open>
  A fusion of two lists and a collapse of four passages, which witness the laws, and the
  chunk that one backend lists twice.
\<close>

definition seen_at :: "backend \<Rightarrow> string \<Rightarrow> int \<Rightarrow> candidate" where
  "seen_at b i r = \<lparr>chunk_id = i, cand_backend = b, cand_rank = r, raw_score = 1,
     signal_id = take 1 i\<rparr>"

definition two_lists :: "(backend \<times> candidate list) list" where
  "two_lists = [(KEYWORD, [seen_at KEYWORD ''a:0'' 1, seen_at KEYWORD ''b:0'' 2]),
     (VECTOR, [seen_at VECTOR ''b:0'' 1, seen_at VECTOR ''c:0'' 2])]"

definition two_lists_fused :: "fused_candidate list" where
  "two_lists_fused = (case reciprocal_rank_fusion two_lists DEFAULT_RRF_K None None of
     Inr out \<Rightarrow> out | Inl _ \<Rightarrow> [])"

lemma two_lists_run:
  "reciprocal_rank_fusion two_lists DEFAULT_RRF_K None None = Inr two_lists_fused"
proof -
  have "case reciprocal_rank_fusion two_lists DEFAULT_RRF_K None None of
      Inl _ \<Rightarrow> False | Inr _ \<Rightarrow> True"
    by code_simp
  then show ?thesis by (auto simp: two_lists_fused_def split: sum.splits)
qed

lemma two_lists_order: "map fused_chunk two_lists_fused = [''b:0'', ''a:0'', ''c:0'']"
  by code_simp

theorem fused_score_is_rrf_witness:
  "fused_score (hd two_lists_fused) = 1 / 62 + 1 / 61"
proof -
  have ne: "two_lists_fused \<noteq> []" using two_lists_order by auto
  then have "hd two_lists_fused \<in> set two_lists_fused" by simp
  from fused_score_is_rrf [OF two_lists_run this]
  have "fused_score (hd two_lists_fused) =
      rrf_score DEFAULT_RRF_K (chosen_weights None) two_lists (fused_chunk (hd two_lists_fused))" .
  also have "fused_chunk (hd two_lists_fused) = ''b:0''"
    using two_lists_order ne by (metis hd_map list.sel(1))
  also have "rrf_score DEFAULT_RRF_K (chosen_weights None) two_lists ''b:0'' = 1 / 62 + 1 / 61"
    by (simp add: rrf_score_def two_lists_def seen_at_def chosen_weights_def weight_of_def
        DEFAULT_BACKEND_WEIGHTS_def DEFAULT_RRF_K_def)
  finally show ?thesis .
qed

theorem fusion_ranks_each_chunk_once_witness:
  "distinct (map fused_chunk two_lists_fused) \<and> sorted (map fusion_key two_lists_fused)"
  using fusion_ranks_each_chunk_once [OF two_lists_run] by blast

theorem fusion_ignores_backend_order_witness:
  "reciprocal_rank_fusion (rev two_lists) DEFAULT_RRF_K None None = Inr two_lists_fused"
proof (rule fusion_ignores_backend_order [OF _ _ _ two_lists_run])
  show "mset two_lists = mset (rev two_lists)" by simp
  show "distinct (map fst two_lists)" by (simp add: two_lists_def)
  show "one_signal_per_chunk two_lists" by code_simp
qed

section \<open>A chunk listed twice\<close>

text \<open>
  A backend that returns a chunk twice does count twice: the score of the chunk is
  the sum over both positions, so one backend alone lifts a chunk at ranks two and three
  above the chunk it ranked first, although only the better rank is kept with it.
\<close>

theorem repeated_chunk_counts_twice:
  "case reciprocal_rank_fusion
      [(KEYWORD, [seen_at KEYWORD ''b:0'' 1, seen_at KEYWORD ''a:0'' 2, seen_at KEYWORD ''a:0'' 3])]
      DEFAULT_RRF_K None None of
     Inl _ \<Rightarrow> False
   | Inr out \<Rightarrow> map (\<lambda>c. (fused_chunk c, fused_ranks c KEYWORD, fused_score c)) out =
       [(''a:0'', Some 2, 1 / 62 + 1 / 63), (''b:0'', Some 1, 1 / 61)]"
  by code_simp

section \<open>A collapse\<close>

definition fresh :: "string \<Rightarrow> passage" where
  "fresh i = \<lparr>passage_chunk = i, passage_signal = take 1 i, duplicate_of_count = 0,
     collapsed_signal_ids = [], passage_found_by = [KEYWORD],
     passage_score = 0, passage_ranks = (\<lambda>_. None)\<rparr>"

definition print_of :: "string \<Rightarrow> nat option" where
  "print_of i = map_of [(''a:0'', 240), (''b:0'', 241), (''c:0'', 15)] i"

definition four_passages :: "passage list" where
  "four_passages = [fresh ''a:0'', fresh ''b:0'', fresh ''c:0'', fresh ''d:0'']"

theorem collapse_accounts_witness:
  "(\<Sum>p \<leftarrow> collapse_near_duplicates four_passages (\<lambda>p. print_of (passage_chunk p)) 3.
      Suc (duplicate_of_count p)) = 4"
proof -
  have "list_all (\<lambda>p. duplicate_of_count p = 0) four_passages"
    by (simp add: four_passages_def fresh_def)
  from collapse_accounts [OF this, of print_of 3] show ?thesis
    by (simp add: four_passages_def)
qed

lemma collapse_run:
  "map (\<lambda>p. (passage_chunk p, duplicate_of_count p, collapsed_signal_ids p))
      (collapse_near_duplicates four_passages (\<lambda>p. print_of (passage_chunk p)) 3) =
    [(''a:0'', 1, [''b'']), (''c:0'', 0, []), (''d:0'', 0, [])]"
  by code_simp

end
