(* ===== verification/Py_Text.thy ===== *)
theory Py_Text
  imports Prelude
begin

text \<open>
  The string functions of Python that the components below use, on the ASCII range:
  decimal digits, \<open>isdigit\<close> and \<open>int\<close>, \<open>rpartition\<close>, \<open>split\<close> and \<open>join\<close>,
  \<open>isalnum\<close>, and slices by offsets.
\<close>

section \<open>Decimal digits\<close>

definition digit_char :: "nat \<Rightarrow> char" where
  "digit_char d = char_of (48 + d)"

definition digit_value :: "char \<Rightarrow> nat" where
  "digit_value c = (of_char c :: nat) - 48"

definition is_digit :: "char \<Rightarrow> bool" where
  "is_digit c \<longleftrightarrow> 48 \<le> (of_char c :: nat) \<and> (of_char c :: nat) \<le> 57"

fun str_nat :: "nat \<Rightarrow> string" where
  "str_nat n = (if n < 10 then [digit_char n] else str_nat (n div 10) @ [digit_char (n mod 10)])"

declare str_nat.simps [simp del]

definition int_str :: "string \<Rightarrow> nat" where
  "int_str s = foldl (\<lambda>a c. 10 * a + digit_value c) 0 s"

definition all_digits :: "string \<Rightarrow> bool" where
  "all_digits s \<longleftrightarrow> s \<noteq> [] \<and> list_all is_digit s"

lemma of_char_digit: "d < 10 \<Longrightarrow> (of_char (digit_char d) :: nat) = 48 + d"
  unfolding digit_char_def by simp

lemma digit_value_char [simp]: "d < 10 \<Longrightarrow> digit_value (digit_char d) = d"
  by (simp add: digit_value_def of_char_digit)

lemma is_digit_char [simp]: "d < 10 \<Longrightarrow> is_digit (digit_char d)"
  by (simp add: is_digit_def of_char_digit)

lemma digit_char_value:
  assumes "is_digit c"
  shows "digit_char (digit_value c) = c"
proof -
  have "48 + digit_value c = (of_char c :: nat)"
    using assms by (simp add: is_digit_def digit_value_def)
  then show ?thesis by (simp add: digit_char_def)
qed

lemma digit_value_less: "is_digit c \<Longrightarrow> digit_value c < 10"
  by (auto simp: is_digit_def digit_value_def)

lemma int_str_snoc: "int_str (s @ [c]) = 10 * int_str s + digit_value c"
  by (simp add: int_str_def)

lemma int_str_nat [simp]: "int_str (str_nat n) = n"
proof (induction n rule: str_nat.induct)
  case (1 n)
  show ?case
  proof (cases "n < 10")
    case True
    then show ?thesis by (simp add: str_nat.simps [of n] int_str_def)
  next
    case False
    with 1 show ?thesis by (simp add: str_nat.simps [of n] int_str_snoc)
  qed
qed

lemma all_digits_str_nat [simp]: "all_digits (str_nat n)"
proof (induction n rule: str_nat.induct)
  case (1 n)
  then show ?case by (cases "n < 10") (simp_all add: str_nat.simps [of n] all_digits_def)
qed

text \<open>The numerals that \<open>str\<close> prints: digits without a leading zero, or the digit zero.\<close>

definition plain_numeral :: "string \<Rightarrow> bool" where
  "plain_numeral s \<longleftrightarrow> all_digits s \<and> (length s = 1 \<or> hd s \<noteq> CHR ''0'')"

lemma int_str_pos:
  assumes "all_digits s" and "hd s \<noteq> CHR ''0''"
  shows "0 < int_str s"
  using assms
proof (induction s rule: rev_induct)
  case Nil
  then show ?case by (simp add: all_digits_def)
next
  case (snoc c s)
  show ?case
  proof (cases "s = []")
    case True
    with snoc.prems have "is_digit c" "c \<noteq> CHR ''0''" by (simp_all add: all_digits_def)
    have "digit_char 0 = CHR ''0''" by code_simp
    with \<open>is_digit c\<close> \<open>c \<noteq> CHR ''0''\<close> have "digit_value c \<noteq> 0"
      using digit_char_value [of c] by metis
    with True show ?thesis by (simp add: int_str_def)
  next
    case False
    with snoc show ?thesis by (simp add: all_digits_def int_str_snoc)
  qed
qed

lemma str_int_plain:
  assumes "plain_numeral s"
  shows "str_nat (int_str s) = s"
  using assms
proof (induction s rule: rev_induct)
  case Nil
  then show ?case by (simp add: plain_numeral_def all_digits_def)
next
  case (snoc c s)
  then have c: "is_digit c" by (simp add: plain_numeral_def all_digits_def)
  show ?case
  proof (cases "s = []")
    case True
    with c show ?thesis
      by (simp add: int_str_def str_nat.simps [of "digit_value c"] digit_value_less digit_char_value)
  next
    case False
    with snoc.prems have s: "plain_numeral s" "all_digits s" "hd s \<noteq> CHR ''0''"
      by (auto simp: plain_numeral_def all_digits_def)
    have "(10 * int_str s + digit_value c) div 10 = int_str s"
      "(10 * int_str s + digit_value c) mod 10 = digit_value c"
      using digit_value_less [OF c] by simp_all
    with int_str_pos [OF s(2,3)] snoc.IH [OF s(1)] c show ?thesis
      by (simp add: int_str_snoc str_nat.simps [of "10 * int_str s + digit_value c"]
          digit_char_value)
  qed
qed

section \<open>Partition at the last separator\<close>

definition rpartition :: "char \<Rightarrow> string \<Rightarrow> string \<times> string" where
  "rpartition c s =
     (if c \<in> set s
      then (rev (tl (dropWhile (\<lambda>x. x \<noteq> c) (rev s))), rev (takeWhile (\<lambda>x. x \<noteq> c) (rev s)))
      else ([], s))"

lemma rpartition_join:
  assumes "c \<notin> set b"
  shows "rpartition c (a @ c # b) = (a, b)"
proof -
  have "takeWhile (\<lambda>x. x \<noteq> c) (rev b @ c # rev a) = rev b"
    using assms by (subst takeWhile_append2) auto
  moreover have "dropWhile (\<lambda>x. x \<noteq> c) (rev b @ c # rev a) = c # rev a"
    using assms by (subst dropWhile_append2) auto
  ultimately have "takeWhile (\<lambda>x. x \<noteq> c) (rev (a @ c # b)) = rev b"
    "dropWhile (\<lambda>x. x \<noteq> c) (rev (a @ c # b)) = c # rev a" by simp_all
  then show ?thesis by (simp add: rpartition_def)
qed

lemma rpartition_split:
  assumes "rpartition c s = (a, b)" and "a \<noteq> []"
  shows "s = a @ c # b \<and> c \<notin> set b"
proof -
  let ?p = "\<lambda>x. x \<noteq> c"
  from assms have c: "c \<in> set s" by (auto simp: rpartition_def split: if_splits)
  then have ne: "dropWhile ?p (rev s) \<noteq> []" by (auto simp: dropWhile_eq_Nil_conv)
  then have "hd (dropWhile ?p (rev s)) = c" using hd_dropWhile by blast
  then have "rev s = takeWhile ?p (rev s) @ c # tl (dropWhile ?p (rev s))"
    using ne by (metis hd_Cons_tl takeWhile_dropWhile_id)
  then have "s = rev (tl (dropWhile ?p (rev s))) @ c # rev (takeWhile ?p (rev s))"
    by (metis append.assoc append_Cons append_Nil rev.simps(2) rev_append rev_rev_ident)
  moreover have "c \<notin> set (takeWhile ?p (rev s))" using set_takeWhileD by fastforce
  moreover from assms c have "a = rev (tl (dropWhile ?p (rev s)))" "b = rev (takeWhile ?p (rev s))"
    by (simp_all add: rpartition_def)
  ultimately show ?thesis by simp
qed

section \<open>Words\<close>

definition is_alnum :: "char \<Rightarrow> bool" where
  "is_alnum c \<longleftrightarrow> is_digit c \<or> 65 \<le> (of_char c :: nat) \<and> (of_char c :: nat) \<le> 90 \<or>
     97 \<le> (of_char c :: nat) \<and> (of_char c :: nat) \<le> 122"

text \<open>\<open>str.split()\<close>: the maximal runs of characters that are not white space.\<close>

fun split_go :: "string \<Rightarrow> string \<Rightarrow> string list" where
  "split_go w [] = (if w = [] then [] else [w])"
| "split_go w (c # cs) =
     (if is_space c then (if w = [] then split_go [] cs else w # split_go [] cs)
      else split_go (w @ [c]) cs)"

definition py_split :: "string \<Rightarrow> string list" where
  "py_split s = split_go [] s"

fun py_join :: "string \<Rightarrow> string list \<Rightarrow> string" where
  "py_join sep [] = []"
| "py_join sep [w] = w"
| "py_join sep (w # v # ws) = w @ sep @ py_join sep (v # ws)"

definition is_word :: "string \<Rightarrow> bool" where
  "is_word w \<longleftrightarrow> w \<noteq> [] \<and> list_all (\<lambda>c. \<not> is_space c) w"

lemma split_go_words:
  "list_all (\<lambda>c. \<not> is_space c) w \<Longrightarrow> list_all is_word (split_go w cs)"
  by (induction w cs rule: split_go.induct) (auto simp: is_word_def)

lemma py_split_words: "list_all is_word (py_split s)"
  by (simp add: py_split_def split_go_words)

lemma split_go_word:
  "list_all (\<lambda>c. \<not> is_space c) v \<Longrightarrow> split_go w (v @ cs) = split_go (w @ v) cs"
  by (induction v arbitrary: w) auto

lemma split_join_aux:
  "list_all is_word (w # ws) \<Longrightarrow> split_go [] (py_join '' '' (w # ws)) = w # ws"
proof (induction ws arbitrary: w)
  case Nil
  then show ?case using split_go_word [of w "[]" "[]"] by (simp add: is_word_def)
next
  case (Cons v ws)
  have "is_space CHR '' ''" by (simp add: is_space_def)
  with Cons show ?case using split_go_word [of w "[]"] by (simp add: is_word_def)
qed

text \<open>Splitting what was joined with a blank gives the words back.\<close>

lemma split_join: "list_all is_word ws \<Longrightarrow> py_split (py_join '' '' ws) = ws"
proof (cases ws)
  case Nil
  then show ?thesis by (simp add: py_split_def)
next
  case (Cons w us)
  then show "list_all is_word ws \<Longrightarrow> ?thesis" by (simp only: py_split_def split_join_aux)
qed

section \<open>Slices\<close>

text \<open>\<open>text[start:end]\<close> for offsets in range.\<close>

definition slice :: "string \<Rightarrow> nat \<Rightarrow> nat \<Rightarrow> string" where
  "slice t a b = take (b - a) (drop a t)"

lemma length_slice: "b \<le> length t \<Longrightarrow> length (slice t a b) = b - a"
  by (simp add: slice_def)

lemma nth_slice: "b \<le> length t \<Longrightarrow> i < b - a \<Longrightarrow> slice t a b ! i = t ! (a + i)"
  by (simp add: slice_def)

end
