(* ===== verification/Chunk_Ids.thy ===== *)
theory Chunk_Ids
  imports Py_Text Fusion
begin

text \<open>
  The join key of the three retrieval backends: \<open>chunk_id_for\<close> and \<open>split_chunk_id\<close> of
  \<open>retrieval/types.py\<close>, \<open>chunk_id\<close> of \<open>retrieval/chunking/splitter.py\<close>, and the candidate
  that recovers its signal from it. An offset or an index of the source is an \<open>int\<close>.
\<close>

section \<open>Composing and splitting\<close>

definition chunk_id_for :: "string \<Rightarrow> int \<Rightarrow> py_error + string" where
  "chunk_id_for signal index =
     (if index < 0 then Inl ValueError
      else Inr (signal @ CHR '':'' # str_nat (nat index)))"

definition split_chunk_id :: "string \<Rightarrow> py_error + (string \<times> int)" where
  "split_chunk_id i =
     (case rpartition CHR '':'' i of (signal, index) \<Rightarrow>
        if signal = [] \<or> \<not> all_digits index then Inl ValueError
        else Inr (signal, int (int_str index)))"

definition splitter_chunk_id :: "string \<Rightarrow> int \<Rightarrow> py_error + string" where
  "splitter_chunk_id signal index =
     (if signal = [] then Inl ValueError
      else if index < 0 then Inl ValueError
      else Inr (signal @ CHR '':'' # str_nat (nat index)))"

text \<open>\<open>Candidate.__post_init__\<close>: ranks start at one, an empty signal is read off the chunk.\<close>

definition new_candidate :: "candidate \<Rightarrow> py_error + candidate" where
  "new_candidate c =
     (if cand_rank c < 1 then Inl ValueError
      else if signal_id c = []
      then map_sum id (\<lambda>p. c\<lparr>signal_id := fst p\<rparr>) (split_chunk_id (chunk_id c))
      else Inr c)"

section \<open>Round trips\<close>

lemma colon_not_digit: "list_all is_digit s \<Longrightarrow> CHR '':'' \<notin> set s"
proof
  assume "list_all is_digit s" and "CHR '':'' \<in> set s"
  then have "is_digit CHR '':''" by (auto simp: list_all_iff)
  then show False by (simp add: is_digit_def)
qed

lemma split_composed:
  "signal \<noteq> [] \<Longrightarrow> all_digits d \<Longrightarrow>
     split_chunk_id (signal @ CHR '':'' # d) = Inr (signal, int (int_str d))"
  by (simp add: split_chunk_id_def rpartition_join colon_not_digit all_digits_def)

text \<open>
  Splitting a composed chunk id gives back the signal and the index, whatever
  characters the signal id contains; the index must not be negative and the signal id not
  empty.
\<close>

theorem chunk_id_round_trip:
  assumes "signal \<noteq> []" and "0 \<le> index"
  shows "and_then (chunk_id_for signal index) split_chunk_id = Inr (signal, index)"
  using assms by (simp add: chunk_id_for_def split_composed)

theorem chunk_id_round_trip_witness:
  "and_then (chunk_id_for ''sig:a'' 12) split_chunk_id = Inr (''sig:a'', 12)"
  using chunk_id_round_trip [of "''sig:a''" 12] by simp

lemma split_chunk_idD:
  assumes "split_chunk_id i = Inr (signal, index)"
  obtains d where "i = signal @ CHR '':'' # d" "signal \<noteq> []" "all_digits d"
    "index = int (int_str d)"
proof -
  obtain a d where p: "rpartition CHR '':'' i = (a, d)" by (cases "rpartition CHR '':'' i")
  with assms have "a = signal" "signal \<noteq> []" "all_digits d" "index = int (int_str d)"
    by (auto simp: split_chunk_id_def split: if_splits)
  with rpartition_split [OF p] that show thesis by simp
qed

text \<open>Composing what was split gives the id back exactly when its index has no extra zeros.\<close>

theorem split_then_compose:
  assumes "split_chunk_id i = Inr (signal, index)"
  shows "chunk_id_for signal index = Inr i \<longleftrightarrow> plain_numeral (drop (length signal + 1) i)"
proof -
  from assms obtain d where d: "i = signal @ CHR '':'' # d" "all_digits d"
    "index = int (int_str d)" by (rule split_chunk_idD)
  have "str_nat (int_str d) = d \<longleftrightarrow> plain_numeral d"
  proof
    assume e: "str_nat (int_str d) = d"
    have "plain_numeral (str_nat n)" for n
    proof (cases "n < 10")
      case True
      then show ?thesis
        using all_digits_str_nat [of n] by (simp add: plain_numeral_def str_nat.simps [of n])
    next
      case False
      have "hd (str_nat m) \<noteq> CHR ''0''" if "0 < m" for m
        using that
      proof (induction m rule: str_nat.induct)
        case (1 m)
        have z: "digit_char m = CHR ''0'' \<Longrightarrow> m < 10 \<Longrightarrow> m = 0"
          using digit_value_char [of m] by (simp add: digit_value_def)
        from 1 z show ?case
          using all_digits_str_nat [of "m div 10"]
          by (cases "m < 10") (auto simp: str_nat.simps [of m] all_digits_def)
      qed
      with False show ?thesis
        using all_digits_str_nat [of n] by (simp add: plain_numeral_def)
    qed
    from this [of "int_str d"] e show "plain_numeral d" by simp
  next
    assume "plain_numeral d"
    then show "str_nat (int_str d) = d" by (rule str_int_plain)
  qed
  with d show ?thesis by (auto simp: chunk_id_for_def)
qed

text \<open>The two functions that compose the key agree on every signal that has an id.\<close>

lemma composers_agree: "signal \<noteq> [] \<Longrightarrow> splitter_chunk_id signal index = chunk_id_for signal index"
  by (simp add: splitter_chunk_id_def chunk_id_for_def)

lemma new_candidate_signal:
  assumes "new_candidate c = Inr c'" and "signal_id c = []"
  shows "\<exists>index. chunk_id c' = chunk_id c \<and> split_chunk_id (chunk_id c) = Inr (signal_id c', index)
    \<and> signal_id c' \<noteq> []"
proof -
  from assms obtain p where p: "split_chunk_id (chunk_id c) = Inr p" "c' = c\<lparr>signal_id := fst p\<rparr>"
    by (cases "split_chunk_id (chunk_id c)") (auto simp: new_candidate_def split: if_splits)
  moreover obtain s n where "p = (s, n)" by (cases p)
  ultimately show ?thesis by (auto elim: split_chunk_idD)
qed

lemma new_candidate_rank: "new_candidate c = Inr c' \<Longrightarrow> 1 \<le> cand_rank c'"
  by (cases "split_chunk_id (chunk_id c)") (auto simp: new_candidate_def split: if_splits)

end
