(* ===== verification/Splitter.thy ===== *)
theory Splitter
  imports Py_Text
begin

text \<open>
  \<open>retrieval/chunking/splitter.py\<close>: one body cut into spans over the original text. An
  offset is a natural number, a span a pair of offsets, and the three regular expressions
  are matchers that tell where a match beginning at an offset ends; their character
  classes are disjoint, so a greedy run decides each of them. Texts are ASCII, so the two
  typographic quotes of \<open>_TRAILING_CLOSERS\<close> do not occur.
\<close>

section \<open>Scanning\<close>

type_synonym span = "nat \<times> nat"

text \<open>The end of the longest run of characters with a property, from \<open>p\<close> and before \<open>hi\<close>.\<close>

function skip :: "(char \<Rightarrow> bool) \<Rightarrow> string \<Rightarrow> nat \<Rightarrow> nat \<Rightarrow> nat" where
  "skip P t p hi = (if p < hi \<and> P (t ! p) then skip P t (Suc p) hi else p)"
  by pat_completeness auto
termination by (relation "measure (\<lambda>(P, t, p, hi). hi - p)") auto

declare skip.simps [simp del]

text \<open>
  \<open>pattern.finditer(text, lo, hi)\<close> for a pattern given by the end of the match that begins
  at an offset: matches from left to right, the search going on behind each.
\<close>

function finditer :: "(nat \<Rightarrow> nat option) \<Rightarrow> nat \<Rightarrow> nat \<Rightarrow> span list" where
  "finditer m p hi =
     (if hi \<le> p then []
      else case m p of
          None \<Rightarrow> finditer m (Suc p) hi
        | Some e \<Rightarrow> (p, e) # finditer m (if p < e then e else Suc p) hi)"
  by pat_completeness auto
termination by (relation "measure (\<lambda>(m, p, hi). hi - p)") auto

declare finditer.simps [simp del]

definition is_blank :: "char \<Rightarrow> bool" where
  "is_blank c \<longleftrightarrow> c = CHR '' '' \<or> c = CHR 0x09"

definition NEWLINE :: char where
  "NEWLINE = CHR 0x0A"

definition TRAILING_CLOSERS :: "char list" where
  "TRAILING_CLOSERS = [CHR 0x22, CHR 0x27, CHR '')'', CHR '']'', CHR ''}'']"

definition is_closer :: "char \<Rightarrow> bool" where
  "is_closer c \<longleftrightarrow> c \<in> set TRAILING_CLOSERS"

definition paragraph_break :: "string \<Rightarrow> nat \<Rightarrow> nat \<Rightarrow> nat option" where
  "paragraph_break t hi p =
     (let q = skip is_blank t (Suc p) hi in
      if p < hi \<and> t ! p = NEWLINE \<and> q < hi \<and> t ! q = NEWLINE
      then Some (skip is_space t (Suc q) hi) else None)"

definition heading_line :: "string \<Rightarrow> nat \<Rightarrow> nat \<Rightarrow> nat option" where
  "heading_line t hi p =
     (let q = skip is_blank t p hi; r = skip (\<lambda>c. c = CHR ''#'') t q hi; s = skip is_blank t r hi in
      if (p = 0 \<or> t ! (p - 1) = NEWLINE) \<and> q - p \<le> 3 \<and> 1 \<le> r - q \<and> r - q \<le> 6 \<and> r < s
         \<and> s < hi \<and> \<not> is_space (t ! s)
      then Some (Suc s) else None)"

definition sentence_end :: "string \<Rightarrow> nat \<Rightarrow> nat \<Rightarrow> nat option" where
  "sentence_end t hi p =
     (let q = skip is_closer t p hi; r = skip is_space t q hi in
      if 0 < p \<and> t ! (p - 1) \<in> set ''.!?'' \<and> q < r then Some r else None)"

section \<open>Tight spans\<close>

function back_up :: "string \<Rightarrow> nat \<Rightarrow> nat \<Rightarrow> nat" where
  "back_up t start e = (if start < e \<and> is_space (t ! (e - 1)) then back_up t start (e - 1) else e)"
  by pat_completeness auto
termination by (relation "measure (\<lambda>(t, start, e). e)") auto

declare back_up.simps [simp del]

definition tighten :: "string \<Rightarrow> nat \<Rightarrow> nat \<Rightarrow> span option" where
  "tighten t a b =
     (let start = skip is_space t a b; e = back_up t start b in
      if start < e then Some (start, e) else None)"

definition add_tight :: "string \<Rightarrow> nat \<Rightarrow> nat \<Rightarrow> span list" where
  "add_tight t a b = (case tighten t a b of None \<Rightarrow> [] | Some s \<Rightarrow> [s])"

section \<open>Sections, paragraphs, sentences\<close>

text \<open>The sections between consecutive boundaries, the last ending at \<open>hi\<close>.\<close>

fun between :: "string \<Rightarrow> nat list \<Rightarrow> nat \<Rightarrow> span list" where
  "between t [] hi = []"
| "between t [s] hi = add_tight t s hi"
| "between t (s # s' # ss) hi = add_tight t s s' @ between t (s' # ss) hi"

definition section_spans :: "string \<Rightarrow> span \<Rightarrow> span list" where
  "section_spans t body =
     (let lo = fst body; hi = snd body; starts = map fst (finditer (heading_line t hi) lo hi) in
      case starts of
        [] \<Rightarrow> [body]
      | s # ss \<Rightarrow> between t (if s \<le> lo then starts else lo # starts) hi)"

text \<open>The pieces of \<open>[cursor, hi)\<close> that a list of matches leaves.\<close>

fun pieces :: "string \<Rightarrow> nat \<Rightarrow> span list \<Rightarrow> nat \<Rightarrow> span list" where
  "pieces t cursor [] hi = add_tight t cursor hi"
| "pieces t cursor ((a, b) # ms) hi = add_tight t cursor a @ pieces t b ms hi"

definition paragraph_spans :: "string \<Rightarrow> nat \<Rightarrow> nat \<Rightarrow> span list" where
  "paragraph_spans t lo hi = pieces t lo (finditer (paragraph_break t hi) lo hi) hi"

definition ABBREVIATIONS :: "string list" where
  "ABBREVIATIONS = [''mr'', ''mrs'', ''ms'', ''dr'', ''prof'', ''sr'', ''jr'', ''st'',
     ''e.g'', ''i.e'', ''etc'', ''vs'', ''cf'', ''al'', ''fig'', ''eq'', ''ref'', ''no'',
     ''inc'', ''ltd'', ''co'', ''corp'', ''dept'', ''est'', ''approx'', ''min'', ''max'',
     ''jan'', ''feb'', ''mar'', ''apr'', ''jun'', ''jul'', ''aug'', ''sep'', ''sept'', ''oct'',
     ''nov'', ''dec'']"

definition ends_with_abbreviation :: "string \<Rightarrow> nat \<Rightarrow> bool" where
  "ends_with_abbreviation t boundary =
     (let tail = rev (dropWhile is_closer (rev (slice t (boundary - 16) boundary))) in
      if tail = [] \<or> last tail \<noteq> CHR ''.'' then False
      else
        let words = py_split (butlast tail);
            token = (if words = [] then [] else last words);
            token = dropWhile (\<lambda>c. c \<in> {CHR ''('', CHR 0x22, CHR 0x27}) (py_lower token)
        in length token = 1 \<or> token \<in> set ABBREVIATIONS)"

text \<open>
  The loop of \<open>_sentence_spans\<close>: a match is taken when it is behind the cursor and does
  not end an abbreviation, and passed over otherwise.
\<close>

fun sentences_from :: "string \<Rightarrow> nat \<Rightarrow> span list \<Rightarrow> nat \<Rightarrow> span list" where
  "sentences_from t cursor [] hi = add_tight t cursor hi"
| "sentences_from t cursor ((a, b) # ms) hi =
     (if a \<le> cursor \<or> ends_with_abbreviation t a then sentences_from t cursor ms hi
      else add_tight t cursor a @ sentences_from t b ms hi)"

definition sentence_spans :: "string \<Rightarrow> nat \<Rightarrow> nat \<Rightarrow> span list" where
  "sentence_spans t lo hi = sentences_from t lo (finditer (sentence_end t hi) lo hi) hi"

text \<open>\<open>text.rfind(" ", a, b)\<close> and \<open>text.find(" ", a, b)\<close>.\<close>

definition spaces_in :: "string \<Rightarrow> nat \<Rightarrow> nat \<Rightarrow> nat list" where
  "spaces_in t a b = filter (\<lambda>i. t ! i = CHR '' '') [a ..< b]"

definition rfind_space :: "string \<Rightarrow> nat \<Rightarrow> nat \<Rightarrow> nat option" where
  "rfind_space t a b = (case spaces_in t a b of [] \<Rightarrow> None | is \<Rightarrow> Some (last is))"

definition find_space :: "string \<Rightarrow> nat \<Rightarrow> nat \<Rightarrow> nat option" where
  "find_space t a b = (case spaces_in t a b of [] \<Rightarrow> None | i # _ \<Rightarrow> Some i)"

definition cut_point :: "string \<Rightarrow> nat \<Rightarrow> nat \<Rightarrow> nat" where
  "cut_point t cursor n =
     (case rfind_space t (cursor + n * 4 div 5) (cursor + n) of
        Some p \<Rightarrow> if cursor < p then p else cursor + n
      | None \<Rightarrow> cursor + n)"

lemma cut_point_bounds: "0 < n \<Longrightarrow> cursor < cut_point t cursor n \<and> cut_point t cursor n \<le> cursor + n"
proof -
  assume "0 < n"
  have "p < cursor + n" if "rfind_space t (cursor + n * 4 div 5) (cursor + n) = Some p" for p
  proof -
    from that have "p \<in> set (spaces_in t (cursor + n * 4 div 5) (cursor + n))"
      by (auto simp: rfind_space_def split: list.splits)
    then show ?thesis by (simp add: spaces_in_def)
  qed
  with \<open>0 < n\<close> show ?thesis
    by (auto simp: cut_point_def split: option.splits intro: less_imp_le)
qed

function hard_cut :: "string \<Rightarrow> nat \<Rightarrow> nat \<Rightarrow> nat \<Rightarrow> span list" where
  "hard_cut t cursor hi n =
     (if n = 0 \<or> hi - cursor \<le> n then add_tight t cursor hi
      else add_tight t cursor (cut_point t cursor n) @ hard_cut t (cut_point t cursor n) hi n)"
  by pat_completeness auto
termination
  by (relation "measure (\<lambda>(t, cursor, hi, n). hi - cursor)") (auto intro!: diff_less_mono2 simp: cut_point_bounds)

declare hard_cut.simps [simp del]

definition sentence_units :: "string \<Rightarrow> nat \<Rightarrow> span \<Rightarrow> span list" where
  "sentence_units t n s =
     (if snd s - fst s \<le> 2 * n then [s] else hard_cut t (fst s) (snd s) n)"

definition block_units :: "string \<Rightarrow> nat \<Rightarrow> span \<Rightarrow> span list" where
  "block_units t n b =
     (if snd b - fst b \<le> n then [b]
      else concat (map (sentence_units t n) (sentence_spans t (fst b) (snd b))))"

definition unit_spans :: "string \<Rightarrow> span list \<Rightarrow> nat \<Rightarrow> span list" where
  "unit_spans t blocks n = concat (map (block_units t n) blocks)"

section \<open>Packing, runts, overlap\<close>

fun pack_from :: "nat \<Rightarrow> span \<Rightarrow> span list \<Rightarrow> span list" where
  "pack_from n cur [] = [cur]"
| "pack_from n cur (u # us) =
     (if snd u - fst cur \<le> n then pack_from n (fst cur, snd u) us
      else cur # pack_from n u us)"

fun pack :: "nat \<Rightarrow> span list \<Rightarrow> span list" where
  "pack n [] = []"
| "pack n (u # us) = pack_from n u us"

fun merge_from :: "nat \<Rightarrow> span \<Rightarrow> span list \<Rightarrow> span list" where
  "merge_from least cur [] = [cur]"
| "merge_from least cur (s # ss) =
     (if snd s - fst s < least then merge_from least (fst cur, snd s) ss
      else cur # merge_from least s ss)"

fun merge_runts :: "nat \<Rightarrow> span list \<Rightarrow> span list" where
  "merge_runts least [] = []"
| "merge_runts least (s # ss) = merge_from least s ss"

definition snap_to_boundary :: "string \<Rightarrow> nat \<Rightarrow> nat \<Rightarrow> nat" where
  "snap_to_boundary t window hard =
     (if hard \<le> window then hard
      else
        case map snd (filter (\<lambda>(a, b). b < hard \<and> \<not> ends_with_abbreviation t a)
               (finditer (sentence_end t hard) window hard)) of
          b # _ \<Rightarrow> b
        | [] \<Rightarrow> (case find_space t window hard of
              Some i \<Rightarrow> if Suc i < hard then Suc i else hard
            | None \<Rightarrow> hard))"

fun overlap_from :: "string \<Rightarrow> nat \<Rightarrow> span \<Rightarrow> span list \<Rightarrow> span list" where
  "overlap_from t v prev [] = []"
| "overlap_from t v prev (s # ss) =
     (snap_to_boundary t (max (fst prev) (fst s - v)) (fst s), snd s) # overlap_from t v s ss"

fun apply_overlap :: "string \<Rightarrow> nat \<Rightarrow> span list \<Rightarrow> span list" where
  "apply_overlap t v [] = []"
| "apply_overlap t v (s # ss) = s # overlap_from t v s ss"

section \<open>Chunks\<close>

datatype chunk_strategy = WHOLE | PARAGRAPH | HEADING | SPEAKER_TURN

record chunk =
  chunk_index :: nat
  chunk_text :: string
  char_start :: nat
  char_end :: nat

definition new_chunk :: "chunk \<Rightarrow> py_error + chunk" where
  "new_chunk c =
     (if char_end c \<le> char_start c then Inl ValueError
      else if py_strip (chunk_text c) = [] then Inl ValueError
      else Inr c)"

definition char_count :: "chunk \<Rightarrow> nat" where
  "char_count c = char_end c - char_start c"

definition MIN_CHUNK_DIVISOR :: nat where
  "MIN_CHUNK_DIVISOR = 4"

datatype source_category =
    SOCIAL | REVIEWS | ENTERPRISE | RESEARCH | NEWS | UNKNOWN_SOURCE

definition strategy_for :: "source_category \<Rightarrow> chunk_strategy" where
  "strategy_for source =
     (if source \<in> {SOCIAL, REVIEWS} then WHOLE
      else if source \<in> {RESEARCH, ENTERPRISE} then HEADING
      else PARAGRAPH)"

definition groups_for :: "string \<Rightarrow> chunk_strategy \<Rightarrow> nat \<Rightarrow> span list list" where
  "groups_for t strategy n =
     (case tighten t 0 (length t) of
        None \<Rightarrow> []
      | Some body \<Rightarrow>
          (case strategy of
             WHOLE \<Rightarrow> if snd body - fst body \<le> n then [[body]]
                      else [paragraph_spans t (fst body) (snd body)]
           | HEADING \<Rightarrow> map (\<lambda>s. paragraph_spans t (fst s) (snd s)) (section_spans t body)
           | _ \<Rightarrow> [paragraph_spans t (fst body) (snd body)]))"

definition group_spans :: "string \<Rightarrow> nat \<Rightarrow> nat \<Rightarrow> nat \<Rightarrow> span list \<Rightarrow> span list" where
  "group_spans t n v least blocks =
     (let units = unit_spans t blocks n in
      if units = [] then []
      else let spans = merge_runts least (pack n units) in
           if v = 0 then spans else apply_overlap t v spans)"

definition all_spans :: "string \<Rightarrow> chunk_strategy \<Rightarrow> nat \<Rightarrow> nat \<Rightarrow> nat \<Rightarrow> span list" where
  "all_spans t strategy n v least =
     concat (map (group_spans t n v least) (groups_for t strategy n))"

fun build_chunks :: "string \<Rightarrow> nat \<Rightarrow> span list \<Rightarrow> py_error + chunk list" where
  "build_chunks t i [] = Inr []"
| "build_chunks t i ((a, b) # ss) =
     and_then (new_chunk \<lparr>chunk_index = i, chunk_text = slice t a b, char_start = a, char_end = b\<rparr>)
       (\<lambda>c. map_sum id (\<lambda>cs. c # cs) (build_chunks t (Suc i) ss))"

definition split_text ::
  "string \<Rightarrow> chunk_strategy \<Rightarrow> int \<Rightarrow> int \<Rightarrow> int option \<Rightarrow> py_error + chunk list" where
  "split_text t strategy max_chars overlap_chars min_chars =
     (if max_chars < 1 then Inl ValueError
      else if overlap_chars < 0 then Inl ValueError
      else if max_chars \<le> overlap_chars then Inl ValueError
      else if strategy = SPEAKER_TURN then Inl NotImplementedError
      else
        let least = (case min_chars of None \<Rightarrow> max_chars div int MIN_CHUNK_DIVISOR | Some m \<Rightarrow> m) in
        if least < 0 then Inl ValueError
        else build_chunks t 0
               (all_spans t strategy (nat max_chars) (nat overlap_chars) (nat least)))"

end
