(* ===== verification/Splitter_Laws.thy ===== *)
theory Splitter_Laws
  imports Splitter
begin

text \<open>
  What \<open>retrieval/chunking/splitter.py\<close> guarantees. \<open>parts t lo ss hi\<close> says that the spans
  \<open>ss\<close> are tight, follow one another inside \<open>[lo, hi)\<close> and leave out nothing essential,
  that is, neither white space nor a closing quote or bracket. Every stage keeps it: the
  scanners between their matches, the refinement of a span into smaller ones, packing and
  the merging of runts. The overlap only moves starts backwards.
\<close>

section \<open>Scanners\<close>

lemma skip_step: "p < hi \<Longrightarrow> P (t ! p) \<Longrightarrow> skip P t p hi = skip P t (Suc p) hi"
  by (simp add: skip.simps [of P t p hi])

lemma skip_halt: "\<not> (p < hi \<and> P (t ! p)) \<Longrightarrow> skip P t p hi = p"
  unfolding skip.simps [of P t p hi] by (rule if_not_P)

lemma skip_ge: "p \<le> skip P t p hi"
proof (induction P t p hi rule: skip.induct)
  case (1 P t p hi)
  then show ?case
    by (cases "p < hi \<and> P (t ! p)") (simp_all add: skip_step skip_halt)
qed

lemma skip_le: "p \<le> hi \<Longrightarrow> skip P t p hi \<le> hi"
proof (induction P t p hi rule: skip.induct)
  case (1 P t p hi)
  then show ?case
    by (cases "p < hi \<and> P (t ! p)") (simp_all add: skip_step skip_halt)
qed

lemma skip_run: "p \<le> i \<Longrightarrow> i < skip P t p hi \<Longrightarrow> P (t ! i)"
proof (induction P t p hi rule: skip.induct)
  case (1 P t p hi)
  show ?case
  proof (cases "p < hi \<and> P (t ! p)")
    case True
    with 1 show ?thesis by (cases "i = p") (simp_all add: skip_step)
  next
    case False
    with 1 show ?thesis by (simp add: skip_halt)
  qed
qed

lemma skip_stop: "skip P t p hi < hi \<Longrightarrow> \<not> P (t ! skip P t p hi)"
proof (induction P t p hi rule: skip.induct)
  case (1 P t p hi)
  then show ?case
    by (cases "p < hi \<and> P (t ! p)") (simp_all add: skip_step skip_halt)
qed

lemma back_up_step:
  "start < e \<Longrightarrow> is_space (t ! (e - 1)) \<Longrightarrow> back_up t start e = back_up t start (e - 1)"
  by (simp add: back_up.simps [of t start e])

lemma back_up_halt: "\<not> (start < e \<and> is_space (t ! (e - 1))) \<Longrightarrow> back_up t start e = e"
  unfolding back_up.simps [of t start e] by (rule if_not_P)

lemma back_up_le: "back_up t start e \<le> e"
proof (induction t start e rule: back_up.induct)
  case (1 t start e)
  show ?case
  proof (cases "start < e \<and> is_space (t ! (e - 1))")
    case True
    with 1 have "back_up t start (e - 1) \<le> e - 1" by blast
    with True show ?thesis by (simp only: back_up_step)
  qed (simp add: back_up_halt)
qed

lemma back_up_ge: "start \<le> e \<Longrightarrow> start \<le> back_up t start e"
proof (induction t start e rule: back_up.induct)
  case (1 t start e)
  show ?case
  proof (cases "start < e \<and> is_space (t ! (e - 1))")
    case True
    with 1 have "start \<le> back_up t start (e - 1)" by auto
    with True show ?thesis by (simp only: back_up_step)
  qed (use 1 in \<open>simp add: back_up_halt\<close>)
qed

lemma back_up_run: "back_up t start e \<le> i \<Longrightarrow> i < e \<Longrightarrow> is_space (t ! i)"
proof (induction t start e rule: back_up.induct)
  case (1 t start e)
  show ?case
  proof (cases "start < e \<and> is_space (t ! (e - 1))")
    case True
    then have "back_up t start e = back_up t start (e - 1)" by (intro back_up_step) auto
    with 1 True have "i < e - 1 \<Longrightarrow> is_space (t ! i)" by auto
    moreover have "i = e - 1 \<or> i < e - 1" using 1 by arith
    ultimately show ?thesis using True by blast
  next
    case False
    then have "back_up t start e = e" by (rule back_up_halt)
    with 1 show ?thesis by simp
  qed
qed

lemma back_up_stop: "start < back_up t start e \<Longrightarrow> \<not> is_space (t ! (back_up t start e - 1))"
proof (induction t start e rule: back_up.induct)
  case (1 t start e)
  show ?case
  proof (cases "start < e \<and> is_space (t ! (e - 1))")
    case True
    then have "back_up t start e = back_up t start (e - 1)" by (intro back_up_step) auto
    with 1 True show ?thesis by metis
  next
    case False
    then have "back_up t start e = e" by (rule back_up_halt)
    with 1 False show ?thesis by auto
  qed
qed

section \<open>Tight spans that leave nothing out\<close>

definition essential :: "char \<Rightarrow> bool" where
  "essential c \<longleftrightarrow> \<not> is_space c \<and> \<not> is_closer c"

definition tight :: "string \<Rightarrow> span \<Rightarrow> bool" where
  "tight t s \<longleftrightarrow> fst s < snd s \<and> snd s \<le> length t \<and> \<not> is_space (t ! fst s) \<and>
     \<not> is_space (t ! (snd s - 1))"

fun chain :: "string \<Rightarrow> nat \<Rightarrow> span list \<Rightarrow> nat \<Rightarrow> bool" where
  "chain t lo [] hi = (lo \<le> hi)"
| "chain t lo (s # ss) hi = (lo \<le> fst s \<and> tight t s \<and> snd s \<le> hi \<and> chain t (snd s) ss hi)"

definition in_span :: "nat \<Rightarrow> span \<Rightarrow> bool" where
  "in_span i s \<longleftrightarrow> fst s \<le> i \<and> i < snd s"

definition nothing_in :: "string \<Rightarrow> nat \<Rightarrow> nat \<Rightarrow> bool" where
  "nothing_in t a b \<longleftrightarrow> (\<forall>i. a \<le> i \<and> i < b \<longrightarrow> \<not> essential (t ! i))"

definition parts :: "string \<Rightarrow> nat \<Rightarrow> span list \<Rightarrow> nat \<Rightarrow> bool" where
  "parts t lo ss hi \<longleftrightarrow> chain t lo ss hi \<and>
     (\<forall>i. lo \<le> i \<and> i < hi \<and> essential (t ! i) \<longrightarrow> (\<exists>s \<in> set ss. in_span i s))"

lemma chain_weaken: "chain t lo ss hi \<Longrightarrow> lo' \<le> lo \<Longrightarrow> hi \<le> hi' \<Longrightarrow> chain t lo' ss hi'"
  by (induction ss arbitrary: lo lo') (auto intro: order_trans)

lemma chain_le: "chain t lo ss hi \<Longrightarrow> lo \<le> hi"
proof (induction ss arbitrary: lo)
  case Nil
  then show ?case by simp
next
  case (Cons s ss)
  then have "snd s \<le> hi" "lo \<le> fst s" "fst s < snd s" by (simp_all add: tight_def)
  then show ?case by simp
qed

lemma chain_append:
  "chain t lo ss mid \<Longrightarrow> chain t mid' ss' hi \<Longrightarrow> mid \<le> mid' \<Longrightarrow> chain t lo (ss @ ss') hi"
proof (induction ss arbitrary: lo)
  case Nil
  then show ?case by (auto intro: chain_weaken)
next
  case (Cons s ss)
  then have "snd s \<le> hi" using chain_le [of t "mid'" ss' hi] by simp
  with Cons show ?case by simp
qed

lemma chain_bounds: "chain t lo ss hi \<Longrightarrow> s \<in> set ss \<Longrightarrow> lo \<le> fst s \<and> snd s \<le> hi \<and> tight t s"
proof (induction ss arbitrary: lo)
  case Nil
  then show ?case by simp
next
  case (Cons u us)
  then have u: "lo \<le> fst u" "tight t u" "snd u \<le> hi" "chain t (snd u) us hi" by simp_all
  show ?case
  proof (cases "s = u")
    case True
    with u show ?thesis by simp
  next
    case False
    with Cons.prems Cons.IH [OF u(4)] have "snd u \<le> fst s \<and> snd s \<le> hi \<and> tight t s" by simp
    moreover have "fst u < snd u" using u(2) by (simp add: tight_def)
    ultimately show ?thesis using u(1) by auto
  qed
qed

lemma nothing_refl [simp]: "nothing_in t a a"
  by (auto simp: nothing_in_def)

lemma parts_append:
  assumes "parts t lo ss mid" and "parts t mid' ss' hi" and "mid \<le> mid'" and "nothing_in t mid mid'"
  shows "parts t lo (ss @ ss') hi"
  unfolding parts_def
proof (intro conjI allI impI)
  from assms show "chain t lo (ss @ ss') hi" by (auto simp: parts_def intro: chain_append)
next
  fix i assume i: "lo \<le> i \<and> i < hi \<and> essential (t ! i)"
  consider "i < mid" | "mid \<le> i \<and> i < mid'" | "mid' \<le> i" by linarith
  then show "\<exists>s \<in> set (ss @ ss'). in_span i s"
  proof cases
    case 1
    with i assms(1) show ?thesis by (auto simp: parts_def)
  next
    case 2
    with i assms(4) show ?thesis by (auto simp: nothing_in_def)
  next
    case 3
    with i assms(2) show ?thesis by (auto simp: parts_def)
  qed
qed

lemma parts_single: "tight t s \<Longrightarrow> parts t (fst s) [s] (snd s)"
  by (auto simp: parts_def in_span_def tight_def)

text \<open>Replacing each span by parts of it gives parts again.\<close>

lemma parts_refine:
  assumes "parts t lo ss hi" and "\<And>s. s \<in> set ss \<Longrightarrow> tight t s \<Longrightarrow> parts t (fst s) (f s) (snd s)"
  shows "parts t lo (concat (map f ss)) hi"
  unfolding parts_def
proof (intro conjI allI impI)
  have "chain t lo ss hi" using assms(1) by (simp add: parts_def)
  then show "chain t lo (concat (map f ss)) hi"
    using assms(2)
  proof (induction ss arbitrary: lo)
    case Nil
    then show ?case by simp
  next
    case (Cons s ss)
    then have "chain t (fst s) (f s) (snd s)" "chain t (snd s) (concat (map f ss)) hi" "lo \<le> fst s"
      by (auto simp: parts_def)
    then have "chain t (fst s) (f s @ concat (map f ss)) hi" by (auto intro: chain_append)
    with \<open>lo \<le> fst s\<close> show ?case by (auto intro: chain_weaken)
  qed
next
  fix i assume i: "lo \<le> i \<and> i < hi \<and> essential (t ! i)"
  with assms(1) obtain s where s: "s \<in> set ss" "in_span i s" by (auto simp: parts_def)
  moreover from assms(1) have "chain t lo ss hi" by (simp add: parts_def)
  ultimately have "tight t s" using chain_bounds by blast
  with s(1) have "parts t (fst s) (f s) (snd s)" by (rule assms(2))
  with s(2) i have "\<exists>u \<in> set (f s). in_span i u" by (auto simp: parts_def in_span_def)
  with s(1) show "\<exists>s \<in> set (concat (map f ss)). in_span i s" by auto
qed

lemma space_nothing: "(\<And>i. a \<le> i \<Longrightarrow> i < b \<Longrightarrow> is_space (t ! i)) \<Longrightarrow> nothing_in t a b"
  by (auto simp: nothing_in_def essential_def)

lemma add_tight_parts:
  assumes "a \<le> b" and "b \<le> length t"
  shows "parts t a (add_tight t a b) b"
proof -
  let ?x = "skip is_space t a b"
  let ?y = "back_up t ?x b"
  have x: "a \<le> ?x" "?x \<le> b" using skip_ge skip_le [OF assms(1)] by simp_all
  have y: "?x \<le> ?y" "?y \<le> b" using back_up_ge [OF x(2)] back_up_le by simp_all
  have left: "nothing_in t a ?x" by (rule space_nothing) (rule skip_run)
  have right: "nothing_in t ?y b" by (rule space_nothing) (rule back_up_run)
  show ?thesis
  proof (cases "?x < ?y")
    case True
    then have "?x < b" using y(2) by linarith
    then have "tight t (?x, ?y)"
      using True y(2) assms(2) back_up_stop [OF True] skip_stop [of is_space t a b]
      by (simp add: tight_def)
    moreover have "in_span i (?x, ?y)" if "a \<le> i" "i < b" "essential (t ! i)" for i
    proof -
      have "\<not> i < ?x" using left that(1,3) unfolding nothing_in_def by blast
      moreover have "\<not> ?y \<le> i" using right that(2,3) unfolding nothing_in_def by blast
      ultimately show ?thesis by (simp add: in_span_def)
    qed
    ultimately show ?thesis
      using True x y by (auto simp: add_tight_def tighten_def Let_def parts_def)
  next
    case False
    then have "nothing_in t a b"
      using left right y(1) unfolding nothing_in_def by (metis linorder_not_less order_antisym_conv)
    with False assms(1) show ?thesis
      by (auto simp: add_tight_def tighten_def Let_def parts_def nothing_in_def)
  qed
qed

section \<open>Matches\<close>

fun matches :: "(nat \<Rightarrow> nat \<Rightarrow> bool) \<Rightarrow> nat \<Rightarrow> span list \<Rightarrow> nat \<Rightarrow> bool" where
  "matches Q p [] hi = True"
| "matches Q p (s # ms) hi =
     (p \<le> fst s \<and> fst s < snd s \<and> snd s \<le> hi \<and> Q (fst s) (snd s) \<and> matches Q (snd s) ms hi)"

lemma matches_weaken: "matches Q p ms hi \<Longrightarrow> p' \<le> p \<Longrightarrow> matches Q p' ms hi"
  by (cases ms) auto

lemma finditer_none: "hi \<le> p \<Longrightarrow> finditer m p hi = []"
  by (simp add: finditer.simps [of m p hi])

lemma finditer_miss: "p < hi \<Longrightarrow> m p = None \<Longrightarrow> finditer m p hi = finditer m (Suc p) hi"
  by (simp add: finditer.simps [of m p hi])

lemma finditer_hit: "p < hi \<Longrightarrow> m p = Some e \<Longrightarrow> p < e \<Longrightarrow> finditer m p hi = (p, e) # finditer m e hi"
  by (simp add: finditer.simps [of m p hi])

lemma finditer_matches:
  assumes "\<And>p e. p < hi \<Longrightarrow> m p = Some e \<Longrightarrow> p < e \<and> e \<le> hi \<and> Q p e"
  shows "matches Q p (finditer m p hi) hi"
  using assms
proof (induction m p hi rule: finditer.induct)
  case (1 m p hi)
  show ?case
  proof (cases "p < hi")
    case False
    then show ?thesis by (simp add: finditer_none)
  next
    case p: True
    show ?thesis
    proof (cases "m p")
      case None
      with 1 p have "matches Q (Suc p) (finditer m (Suc p) hi) hi" by auto
      with p None show ?thesis by (simp add: finditer_miss) (auto intro: matches_weaken)
    next
      case (Some e)
      with 1 p have e: "p < e \<and> e \<le> hi \<and> Q p e" by blast
      with 1 p Some have "matches Q e (finditer m e hi) hi" by auto
      with p Some e show ?thesis by (simp add: finditer_hit)
    qed
  qed
qed

lemma paragraph_break_match:
  assumes "p < hi" and "paragraph_break t hi p = Some e"
  shows "p < e \<and> e \<le> hi \<and> nothing_in t p e"
proof -
  let ?q = "skip is_blank t (Suc p) hi"
  from assms have m: "t ! p = NEWLINE" "?q < hi" "t ! ?q = NEWLINE" "e = skip is_space t (Suc ?q) hi"
    by (auto simp: paragraph_break_def Let_def split: if_splits)
  have q: "Suc p \<le> ?q" by (rule skip_ge)
  have e: "Suc ?q \<le> e" "e \<le> hi" using m skip_ge skip_le [of "Suc ?q" hi is_space t] by simp_all
  have nl: "is_space NEWLINE" by (simp add: NEWLINE_def is_space_def)
  have blank: "is_blank c \<Longrightarrow> is_space c" for c by (auto simp: is_blank_def is_space_def)
  have "is_space (t ! i)" if i: "p \<le> i" "i < e" for i
  proof -
    consider "i = p" | "Suc p \<le> i \<and> i < ?q" | "i = ?q" | "Suc ?q \<le> i" using i by linarith
    then show ?thesis
    proof cases
      case 1
      with m nl show ?thesis by simp
    next
      case 2
      then show ?thesis using skip_run [of "Suc p" i is_blank t hi] blank by blast
    next
      case 3
      with m nl show ?thesis by simp
    next
      case 4
      then show ?thesis using skip_run [of "Suc ?q" i is_space t hi] i m by blast
    qed
  qed
  then have "nothing_in t p e" by (rule space_nothing)
  with q e show ?thesis by linarith
qed

definition sentence_gap :: "string \<Rightarrow> nat \<Rightarrow> nat \<Rightarrow> nat \<Rightarrow> bool" where
  "sentence_gap t hi a b \<longleftrightarrow> nothing_in t a b \<and> (b < hi \<longrightarrow> \<not> is_space (t ! b))"

lemma sentence_end_match:
  assumes "p < hi" and "sentence_end t hi p = Some e"
  shows "p < e \<and> e \<le> hi \<and> sentence_gap t hi p e"
proof -
  let ?q = "skip is_closer t p hi"
  from assms have m: "?q < e" "e = skip is_space t ?q hi"
    by (auto simp: sentence_end_def Let_def split: if_splits)
  have q: "p \<le> ?q" "?q \<le> hi" using skip_ge skip_le [of p hi is_closer t] assms(1) by simp_all
  have e: "e \<le> hi" using m skip_le [OF q(2)] by simp
  have "\<not> essential (t ! i)" if i: "p \<le> i" "i < e" for i
  proof (cases "i < ?q")
    case True
    with i skip_run [of p i is_closer t hi] show ?thesis by (simp add: essential_def)
  next
    case False
    with i m skip_run [of ?q i is_space t hi] show ?thesis by (simp add: essential_def)
  qed
  then have "nothing_in t p e" by (simp add: nothing_in_def)
  moreover have "e < hi \<longrightarrow> \<not> is_space (t ! e)" using m skip_stop [of is_space t ?q hi] by simp
  ultimately show ?thesis using q m e by (simp add: sentence_gap_def)
qed

lemma heading_match: "heading_line t hi p = Some e \<Longrightarrow> p < e \<and> e \<le> hi"
proof -
  let ?q = "skip is_blank t p hi"
  let ?r = "skip (\<lambda>c. c = CHR ''#'') t ?q hi"
  let ?s = "skip is_blank t ?r hi"
  assume "heading_line t hi p = Some e"
  then have "?r < ?s" "?s < hi" "e = Suc ?s"
    by (auto simp: heading_line_def Let_def split: if_splits)
  moreover have "p \<le> ?q" "?q \<le> ?r" using skip_ge by simp_all
  ultimately show ?thesis by linarith
qed

section \<open>Sections, paragraphs, sentences\<close>

lemma pieces_parts:
  "matches Q cursor ms hi \<Longrightarrow> (\<And>a b. Q a b \<Longrightarrow> nothing_in t a b) \<Longrightarrow> cursor \<le> hi \<Longrightarrow>
     hi \<le> length t \<Longrightarrow> parts t cursor (pieces t cursor ms hi) hi"
proof (induction t cursor ms hi rule: pieces.induct)
  case (1 t cursor hi)
  then show ?case by (simp add: add_tight_parts)
next
  case (2 t cursor a b ms hi)
  then have "parts t cursor (add_tight t cursor a) a" "parts t b (pieces t b ms hi) hi"
    "a \<le> b" "nothing_in t a b" by (auto intro: add_tight_parts)
  then show ?case by (auto intro: parts_append)
qed

lemma paragraph_parts:
  "lo \<le> hi \<Longrightarrow> hi \<le> length t \<Longrightarrow> parts t lo (paragraph_spans t lo hi) hi"
  unfolding paragraph_spans_def
proof (rule pieces_parts [where Q = "nothing_in t"])
  show "matches (nothing_in t) lo (finditer (paragraph_break t hi) lo hi) hi"
    by (rule finditer_matches) (rule paragraph_break_match)
qed

lemma sentences_parts:
  "matches (sentence_gap t hi') p ms hi \<Longrightarrow> cursor \<le> p \<Longrightarrow> cursor \<le> hi \<Longrightarrow> hi \<le> length t \<Longrightarrow>
     parts t cursor (sentences_from t cursor ms hi) hi"
proof (induction t cursor ms hi arbitrary: p rule: sentences_from.induct)
  case (1 t cursor hi)
  then show ?case by (simp add: add_tight_parts)
next
  case (2 t cursor a b ms hi)
  show ?case
  proof (cases "a \<le> cursor \<or> ends_with_abbreviation t a")
    case True
    with 2 show ?thesis by auto
  next
    case False
    with 2 have "parts t cursor (add_tight t cursor a) a" "parts t b (sentences_from t b ms hi) hi"
      "a \<le> b" "nothing_in t a b" by (auto intro: add_tight_parts simp: sentence_gap_def)
    with False show ?thesis by (auto intro: parts_append)
  qed
qed

lemma sentence_parts:
  "lo \<le> hi \<Longrightarrow> hi \<le> length t \<Longrightarrow> parts t lo (sentence_spans t lo hi) hi"
  unfolding sentence_spans_def
proof (rule sentences_parts [where hi' = hi and p = lo])
  show "matches (sentence_gap t hi) lo (finditer (sentence_end t hi) lo hi) hi"
    by (rule finditer_matches) (rule sentence_end_match)
qed simp

lemma between_parts:
  "sorted (s # ss) \<Longrightarrow> (\<And>x. x \<in> set (s # ss) \<Longrightarrow> x \<le> hi) \<Longrightarrow> hi \<le> length t \<Longrightarrow>
     parts t s (between t (s # ss) hi) hi"
proof (induction ss arbitrary: s)
  case Nil
  then show ?case by (simp add: add_tight_parts)
next
  case (Cons s' ss)
  then have "parts t s (add_tight t s s') s'" "parts t s' (between t (s' # ss) hi) hi"
    by (auto intro!: add_tight_parts dest: order_trans)
  then show ?case by (auto intro: parts_append)
qed

lemma matches_starts:
  "matches Q p ms hi \<Longrightarrow> sorted (map fst ms) \<and> (\<forall>x \<in> set (map fst ms). p \<le> x \<and> x < hi)"
proof (induction ms arbitrary: p)
  case Nil
  then show ?case by simp
next
  case (Cons s ms)
  then have "\<forall>x \<in> set (map fst ms). snd s \<le> x \<and> x < hi" "sorted (map fst ms)"
    "p \<le> fst s" "fst s < snd s" "snd s \<le> hi" by auto
  then show ?case by force
qed

lemma section_parts:
  assumes "tight t body"
  shows "parts t (fst body) (section_spans t body) (snd body)"
proof -
  let ?lo = "fst body" and ?hi = "snd body"
  let ?starts = "map fst (finditer (heading_line t ?hi) ?lo ?hi)"
  have m: "matches (\<lambda>_ _. True) ?lo (finditer (heading_line t ?hi) ?lo ?hi) ?hi"
    by (rule finditer_matches) (simp add: heading_match)
  from matches_starts [OF m] have st: "sorted ?starts" "\<forall>x \<in> set ?starts. ?lo \<le> x \<and> x < ?hi"
    by auto
  have len: "?lo \<le> ?hi" "?hi \<le> length t" using assms by (auto simp: tight_def)
  show ?thesis
  proof (cases ?starts)
    case Nil
    with parts_single [OF assms] show ?thesis by (simp add: section_spans_def)
  next
    case (Cons s ss)
    show ?thesis
    proof (cases "s \<le> ?lo")
      case True
      with st Cons have "s = ?lo" by auto
      moreover have "parts t s (between t (s # ss) ?hi) ?hi"
        using st Cons len by (intro between_parts) auto
      ultimately show ?thesis using Cons True by (simp add: section_spans_def Let_def)
    next
      case False
      moreover have "parts t ?lo (between t (?lo # s # ss) ?hi) ?hi"
        using st Cons len by (intro between_parts) auto
      ultimately show ?thesis using Cons by (simp add: section_spans_def Let_def)
    qed
  qed
qed

section \<open>Units\<close>

lemma hard_cut_parts: "cursor \<le> hi \<Longrightarrow> hi \<le> length t \<Longrightarrow> parts t cursor (hard_cut t cursor hi n) hi"
proof (induction t cursor hi n rule: hard_cut.induct)
  case (1 t cursor hi n)
  show ?case
  proof (cases "n = 0 \<or> hi - cursor \<le> n")
    case True
    with 1 show ?thesis by (simp add: hard_cut.simps [of t cursor hi n] add_tight_parts)
  next
    case False
    let ?c = "cut_point t cursor n"
    have c: "cursor < ?c" "?c \<le> hi" using False cut_point_bounds [of n cursor t] by auto
    have "parts t cursor (add_tight t cursor ?c) ?c" using c 1 by (intro add_tight_parts) auto
    moreover have "parts t ?c (hard_cut t ?c hi n) hi" using 1 False c by blast
    ultimately have "parts t cursor (add_tight t cursor ?c @ hard_cut t ?c hi n) hi"
      by (rule parts_append) simp_all
    with False show ?thesis by (simp add: hard_cut.simps [of t cursor hi n])
  qed
qed

lemma sentence_units_parts: "tight t s \<Longrightarrow> parts t (fst s) (sentence_units t n s) (snd s)"
  using parts_single [of t s] hard_cut_parts [of "fst s" "snd s" t n]
  by (auto simp: sentence_units_def tight_def)

lemma block_units_parts: "tight t b \<Longrightarrow> parts t (fst b) (block_units t n b) (snd b)"
  using parts_single [of t b] sentence_parts [of "fst b" "snd b" t]
  by (auto simp: block_units_def tight_def intro: parts_refine sentence_units_parts)

lemma unit_parts: "parts t lo blocks hi \<Longrightarrow> parts t lo (unit_spans t blocks n) hi"
  unfolding unit_spans_def by (erule parts_refine) (rule block_units_parts)

section \<open>Packing and runts\<close>

lemma parts_cover:
  assumes "parts t lo ss hi" and "lo \<le> i" "i < hi" "essential (t ! i)"
  obtains s where "s \<in> set ss" "in_span i s"
  using assms unfolding parts_def by blast

text \<open>Joining two neighbours of a list of parts gives parts.\<close>

lemma parts_join:
  assumes "parts t lo (s # u # ss) hi"
  shows "parts t lo ((fst s, snd u) # ss) hi"
proof -
  from assms have c: "lo \<le> fst s" "tight t s" "snd s \<le> fst u" "tight t u" "snd u \<le> hi"
    "chain t (snd u) ss hi" by (auto simp: parts_def)
  then have "tight t (fst s, snd u)" by (auto simp: tight_def)
  moreover have "\<exists>x \<in> set ((fst s, snd u) # ss). in_span i x"
    if i: "lo \<le> i" "i < hi" "essential (t ! i)" for i
  proof -
    from parts_cover [OF assms i] obtain x where x: "x \<in> set (s # u # ss)" "in_span i x" .
    have "fst s < snd s" "fst u < snd u" using c by (simp_all add: tight_def)
    with x c have "in_span i (fst s, snd u) \<or> x \<in> set ss" by (auto simp: in_span_def)
    with x show ?thesis by auto
  qed
  ultimately show ?thesis using c by (simp add: parts_def)
qed

lemma parts_tail: "parts t lo (s # ss) hi \<Longrightarrow> parts t (snd s) ss hi"
proof -
  assume a: "parts t lo (s # ss) hi"
  then have c: "lo \<le> fst s" "tight t s" "chain t (snd s) ss hi" by (auto simp: parts_def)
  have "\<exists>x \<in> set ss. in_span i x" if i: "snd s \<le> i" "i < hi" "essential (t ! i)" for i
  proof -
    have "fst s < snd s" using c by (simp add: tight_def)
    with i c have "lo \<le> i" by linarith
    from parts_cover [OF a this i(2,3)] obtain x where "x \<in> set (s # ss)" "in_span i x" .
    with i show ?thesis by (auto simp: in_span_def)
  qed
  with c show ?thesis by (simp add: parts_def)
qed

lemma parts_cons:
  assumes "parts t lo (s # ss) hi" and "parts t (snd s) us hi"
  shows "parts t lo (s # us) hi"
proof -
  from assms have c: "lo \<le> fst s" "tight t s" "snd s \<le> hi" "chain t (snd s) us hi"
    by (auto simp: parts_def)
  moreover have "\<exists>x \<in> set (s # us). in_span i x" if i: "lo \<le> i" "i < hi" "essential (t ! i)" for i
  proof (cases "i < snd s")
    case True
    from parts_cover [OF assms(1) i] obtain x where x: "x \<in> set (s # ss)" "in_span i x" .
    have "x = s"
    proof (rule ccontr)
      assume "x \<noteq> s"
      with x assms(1) have "snd s \<le> fst x" using chain_bounds [of t "snd s" ss hi x]
        by (simp add: parts_def)
      with x True show False by (simp add: in_span_def)
    qed
    with x show ?thesis by simp
  next
    case False
    with assms(2) i show ?thesis by (auto simp: parts_def)
  qed
  ultimately show ?thesis by (simp add: parts_def)
qed

lemma pack_from_parts: "parts t lo (cur # us) hi \<Longrightarrow> parts t lo (pack_from n cur us) hi"
proof (induction us arbitrary: cur lo)
  case Nil
  then show ?case by simp
next
  case (Cons u us)
  show ?case
  proof (cases "snd u - fst cur \<le> n")
    case True
    with Cons.IH [OF parts_join [OF Cons.prems]] show ?thesis by simp
  next
    case False
    with parts_cons [OF Cons.prems Cons.IH [OF parts_tail [OF Cons.prems]]] show ?thesis by simp
  qed
qed

lemma merge_from_parts: "parts t lo (cur # ss) hi \<Longrightarrow> parts t lo (merge_from least cur ss) hi"
proof (induction ss arbitrary: cur lo)
  case Nil
  then show ?case by simp
next
  case (Cons s ss)
  show ?case
  proof (cases "snd s - fst s < least")
    case True
    with Cons.IH [OF parts_join [OF Cons.prems]] show ?thesis by simp
  next
    case False
    with parts_cons [OF Cons.prems Cons.IH [OF parts_tail [OF Cons.prems]]] show ?thesis by simp
  qed
qed

lemma pack_parts: "parts t lo us hi \<Longrightarrow> parts t lo (pack n us) hi"
  by (cases us) (auto intro: pack_from_parts)

lemma merge_parts: "parts t lo ss hi \<Longrightarrow> parts t lo (merge_runts least ss) hi"
  by (cases ss) (auto intro: merge_from_parts)

section \<open>Overlap\<close>

lemma finditer_sentences: "matches (sentence_gap t hi) lo (finditer (sentence_end t hi) lo hi) hi"
  by (rule finditer_matches) (rule sentence_end_match)

lemma matches_ends: "matches Q p ms hi \<Longrightarrow> (a, b) \<in> set ms \<Longrightarrow> p < b"
proof (induction ms arbitrary: p)
  case Nil
  then show ?case by simp
next
  case (Cons s ms)
  then have "p < snd s" "(a, b) = s \<or> (a, b) \<in> set ms" "matches Q (snd s) ms hi" by auto
  with Cons.IH [of "snd s"] show ?case by auto
qed

lemma snap_bounds:
  assumes "window \<le> hard"
  shows "snap_to_boundary t window hard \<le> hard \<and>
    (window < hard \<longrightarrow> window < snap_to_boundary t window hard)"
proof (cases "hard \<le> window")
  case True
  then show ?thesis by (simp add: snap_to_boundary_def)
next
  case False
  let ?ms = "finditer (sentence_end t hard) window hard"
  let ?bs = "map snd (filter (\<lambda>(a, b). b < hard \<and> \<not> ends_with_abbreviation t a) ?ms)"
  show ?thesis
  proof (cases ?bs)
    case (Cons b bs)
    then have "b \<in> set ?bs" by simp
    then obtain a where "(a, b) \<in> set ?ms" "b < hard" by auto
    moreover from this have "window < b" using matches_ends [OF finditer_sentences] by blast
    ultimately show ?thesis using False Cons by (simp add: snap_to_boundary_def)
  next
    case Nil
    have "window \<le> i" if "find_space t window hard = Some i" for i
    proof -
      from that have "i \<in> set (spaces_in t window hard)"
        by (auto simp: find_space_def split: list.splits)
      then show ?thesis by (simp add: spaces_in_def)
    qed
    with False Nil show ?thesis by (auto simp: snap_to_boundary_def split: option.splits)
  qed
qed

text \<open>A span whose start was moved back, by no more than a given length.\<close>

definition wider :: "nat \<Rightarrow> span \<Rightarrow> span \<Rightarrow> bool" where
  "wider v s w \<longleftrightarrow> fst w \<le> fst s \<and> fst s \<le> fst w + v \<and> snd w = snd s"

definition behind :: "span \<Rightarrow> span \<Rightarrow> bool" where
  "behind s s' \<longleftrightarrow> fst s < fst s' \<and> snd s < snd s'"

lemma overlap_from_wider:
  "chain t (snd prev) ss hi \<Longrightarrow> fst prev < snd prev \<Longrightarrow>
     list_all2 (wider v) ss (overlap_from t v prev ss) \<and>
     (\<forall>w \<in> set (overlap_from t v prev ss). behind prev w) \<and>
     sorted_wrt behind (overlap_from t v prev ss)"
proof (induction ss arbitrary: prev)
  case Nil
  then show ?case by simp
next
  case (Cons s ss)
  let ?window = "max (fst prev) (fst s - v)"
  let ?w = "(snap_to_boundary t ?window (fst s), snd s)"
  have c: "snd prev \<le> fst s" "fst s < snd s" "chain t (snd s) ss hi"
    using Cons.prems by (auto simp: tight_def)
  have win: "?window \<le> fst s" using c Cons.prems(2) by simp
  have snap: "fst ?w \<le> fst s" "?window < fst s \<longrightarrow> ?window < fst ?w"
    using snap_bounds [OF win] by simp_all
  have eq: "?window = fst s \<Longrightarrow> fst ?w = fst s" by (simp add: snap_to_boundary_def)
  have low: "?window \<le> fst ?w" using snap eq win by (cases "?window = fst s") auto
  then have "fst s - v \<le> fst ?w" by simp
  then have wide: "wider v s ?w" using snap(1) by (auto simp: wider_def)
  have "fst prev < fst ?w"
    using snap eq c Cons.prems(2) by (cases "?window = fst s") auto
  then have first: "behind prev ?w" using c by (simp add: behind_def)
  from Cons.IH [OF c(3,2)] have ih: "list_all2 (wider v) ss (overlap_from t v s ss)"
    "\<forall>w \<in> set (overlap_from t v s ss). behind s w"
    "sorted_wrt behind (overlap_from t v s ss)" by simp_all
  have "\<forall>w \<in> set (overlap_from t v s ss). behind ?w w"
    using ih(2) snap(1) by (auto simp: behind_def)
  moreover have "\<forall>w \<in> set (overlap_from t v s ss). behind prev w"
    using ih(2) c Cons.prems(2) by (auto simp: behind_def)
  ultimately show ?case using wide first ih(1,3) by simp
qed

lemma chain_behind: "chain t lo ss hi \<Longrightarrow> sorted_wrt behind ss"
proof (induction ss arbitrary: lo)
  case Nil
  then show ?case by simp
next
  case (Cons s ss)
  then have c: "fst s < snd s" "chain t (snd s) ss hi" by (auto simp: tight_def)
  have "behind s u" if "u \<in> set ss" for u
    using chain_bounds [OF c(2) that] c(1) by (auto simp: behind_def tight_def)
  with Cons.IH [OF c(2)] show ?case by simp
qed

lemma wider_refl: "list_all2 (wider v) ss ss"
  by (simp add: list_all2_refl wider_def)

lemma overlap_wider:
  assumes "chain t lo ss hi"
  shows "list_all2 (wider v) ss (apply_overlap t v ss) \<and> sorted_wrt behind (apply_overlap t v ss)"
proof (cases ss)
  case Nil
  then show ?thesis by simp
next
  case (Cons s us)
  with assms have "chain t (snd s) us hi" "fst s < snd s" by (auto simp: tight_def)
  from overlap_from_wider [OF this] Cons show ?thesis by (simp add: wider_def)
qed

section \<open>The spans of a text\<close>

text \<open>
  Spans inside \<open>[lo, hi)\<close> that widen parts of it and whose starts and ends both increase.
\<close>

definition spread :: "string \<Rightarrow> nat \<Rightarrow> nat \<Rightarrow> span list \<Rightarrow> nat \<Rightarrow> bool" where
  "spread t v lo ws hi \<longleftrightarrow> sorted_wrt behind ws \<and> list_all (\<lambda>w. lo \<le> fst w) ws \<and>
     (\<exists>ss. parts t lo ss hi \<and> list_all2 (wider v) ss ws)"

lemma spreadI:
  assumes "parts t lo ss hi" and "list_all2 (wider v) ss ws" and "sorted_wrt behind ws"
    and "list_all (\<lambda>w. lo \<le> fst w) ws"
  shows "spread t v lo ws hi"
  using assms unfolding spread_def by blast

lemma spread_within:
  assumes "spread t v lo ws hi" and "w \<in> set ws"
  shows "lo \<le> fst w \<and> fst w < snd w \<and> snd w \<le> hi \<and> snd w \<le> length t \<and>
    \<not> is_space (t ! (snd w - 1))"
proof -
  from assms obtain ss where ss: "parts t lo ss hi" "list_all2 (wider v) ss ws" "lo \<le> fst w"
    unfolding spread_def list_all_iff by blast
  from assms(2) ss(2) obtain s where s: "s \<in> set ss" "wider v s w"
    by (metis list_all2_conv_all_nth in_set_conv_nth)
  have "tight t s \<and> snd s \<le> hi"
    using ss(1) s(1) chain_bounds unfolding parts_def by blast
  with s(2) ss(3) show ?thesis by (auto simp: tight_def wider_def)
qed

lemma spread_append:
  assumes "spread t v lo ws mid" and "spread t v mid' ws' hi" and "mid \<le> mid'"
    and "nothing_in t mid mid'"
  shows "spread t v lo (ws @ ws') hi"
proof -
  from assms obtain ss ss' where ss: "parts t lo ss mid" "list_all2 (wider v) ss ws"
    "parts t mid' ss' hi" "list_all2 (wider v) ss' ws'" unfolding spread_def by blast
  have low: "lo \<le> mid" using ss(1) chain_le by (auto simp: parts_def)
  have far: "behind w w'" if "w \<in> set ws" "w' \<in> set ws'" for w w'
    using spread_within [OF assms(1) that(1)] spread_within [OF assms(2) that(2)] assms(3)
    by (auto simp: behind_def)
  show ?thesis
  proof (rule spreadI)
    show "parts t lo (ss @ ss') hi" using ss assms(3,4) by (auto intro: parts_append)
    show "list_all2 (wider v) (ss @ ss') (ws @ ws')" using ss by (auto intro: list_all2_appendI)
    show "sorted_wrt behind (ws @ ws')"
      using assms(1,2) far by (simp add: spread_def sorted_wrt_append)
    show "list_all (\<lambda>w. lo \<le> fst w) (ws @ ws')"
      using assms(1,2,3) low unfolding spread_def list_all_iff by fastforce
  qed
qed

lemma spread_empty: "lo \<le> hi \<Longrightarrow> nothing_in t lo hi \<Longrightarrow> spread t v lo [] hi"
  by (rule spreadI [of t lo "[]"]) (simp_all add: parts_def nothing_in_def)

lemma parts_front:
  assumes "parts t lo (s # ss) hi"
  shows "lo \<le> fst s \<and> tight t s \<and> nothing_in t lo (fst s)"
proof -
  from assms have c: "lo \<le> fst s" "tight t s" "snd s \<le> hi" "chain t (snd s) ss hi"
    by (auto simp: parts_def)
  have "\<not> essential (t ! i)" if "lo \<le> i" "i < fst s" for i
  proof
    assume e: "essential (t ! i)"
    have "i < hi" using c that by (auto simp: tight_def)
    from parts_cover [OF assms that(1) this e] obtain x where
      x: "x \<in> set (s # ss)" "in_span i x" .
    then show False
      using chain_bounds [OF c(4), of x] c(2) that(2) by (auto simp: in_span_def tight_def)
  qed
  with c show ?thesis by (simp add: nothing_in_def)
qed

lemma spread_concat:
  "parts t lo ss hi \<Longrightarrow> (\<And>s. s \<in> set ss \<Longrightarrow> tight t s \<Longrightarrow> spread t v (fst s) (f s) (snd s)) \<Longrightarrow>
     spread t v lo (concat (map f ss)) hi"
proof (induction ss arbitrary: lo)
  case Nil
  then show ?case by (auto intro!: spread_empty simp: parts_def nothing_in_def)
next
  case (Cons s ss)
  from parts_front [OF Cons.prems(1)] have s: "lo \<le> fst s" "tight t s" "nothing_in t lo (fst s)"
    by simp_all
  have "spread t v (fst s) (f s) (snd s)" using s(2) Cons.prems(2) by simp
  with s(1,3) have "spread t v lo ([] @ f s) (snd s)"
    by (intro spread_append [OF spread_empty [of lo lo]]) simp_all
  moreover have "spread t v (snd s) (concat (map f ss)) hi"
    using Cons.IH [OF parts_tail [OF Cons.prems(1)]] Cons.prems(2) by simp
  ultimately show ?case by (auto intro: spread_append)
qed

lemma group_spread:
  assumes "parts t lo blocks hi"
  shows "spread t v lo (group_spans t n v least blocks) hi"
proof -
  let ?units = "unit_spans t blocks n"
  let ?ss = "merge_runts least (pack n ?units)"
  have units: "parts t lo ?units hi" using assms by (rule unit_parts)
  then have ss: "parts t lo ?ss hi" by (intro merge_parts pack_parts)
  then have chain: "chain t lo ?ss hi" by (simp add: parts_def)
  have low: "list_all (\<lambda>w. lo \<le> fst w) ?ss"
    using chain_bounds [OF chain] by (auto simp: list_all_iff)
  have plain: "spread t v lo ?ss hi"
    using ss wider_refl chain_behind [OF chain] low by (rule spreadI)
  show ?thesis
  proof (cases "?units = [] \<or> v = 0")
    case True
    with plain show ?thesis by (auto simp: group_spans_def Let_def)
  next
    case False
    let ?ws = "apply_overlap t v ?ss"
    from overlap_wider [OF chain] have ws: "list_all2 (wider v) ?ss ?ws" "sorted_wrt behind ?ws"
      by simp_all
    have "list_all (\<lambda>w. lo \<le> fst w) ?ws"
    proof (cases ?ss)
      case Nil
      then show ?thesis by simp
    next
      case (Cons s rest)
      with low have "lo \<le> fst s" by simp
      with ws(2) Cons show ?thesis by (auto simp: list_all_iff behind_def)
    qed
    with ss ws have "spread t v lo ?ws hi" by (intro spreadI)
    with False show ?thesis by (simp add: group_spans_def Let_def)
  qed
qed

lemma all_spans_spread: "spread t v 0 (all_spans t strategy n v least) (length t)"
proof (cases "tighten t 0 (length t)")
  case None
  have "parts t 0 [] (length t)"
    using add_tight_parts [of 0 "length t" t] None by (simp add: add_tight_def)
  then have "nothing_in t 0 (length t)" by (auto simp: parts_def nothing_in_def)
  with None show ?thesis by (simp add: all_spans_def groups_for_def spread_empty)
next
  case (Some body)
  have body: "parts t 0 [body] (length t)"
    using add_tight_parts [of 0 "length t" t] Some by (simp add: add_tight_def)
  then have tight: "tight t body" by (simp add: parts_def)
  let ?g = "group_spans t n v least"
  let ?para = "\<lambda>s. ?g (paragraph_spans t (fst s) (snd s))"
  have para: "spread t v (fst s) (?para s) (snd s)" if "tight t s" for s
    using that by (intro group_spread paragraph_parts) (auto simp: tight_def)
  have sections: "spread t v (fst body) (concat (map ?para (section_spans t body))) (snd body)"
    using section_parts [OF tight] para by (rule spread_concat)
  have "spread t v (fst body) (concat (map ?g
      (case strategy of
         WHOLE \<Rightarrow> if snd body - fst body \<le> n then [[body]]
                  else [paragraph_spans t (fst body) (snd body)]
       | HEADING \<Rightarrow> map (\<lambda>s. paragraph_spans t (fst s) (snd s)) (section_spans t body)
       | _ \<Rightarrow> [paragraph_spans t (fst body) (snd body)]))) (snd body)"
    using para [OF tight] sections group_spread [OF parts_single [OF tight]]
    by (cases strategy) (simp_all add: comp_def)
  then have "spread t v 0 (concat (map (\<lambda>_. all_spans t strategy n v least) [body])) (length t)"
    using body by (intro spread_concat) (simp_all add: all_spans_def groups_for_def Some)
  then show ?thesis by simp
qed

section \<open>Chunks\<close>

fun chunks_from :: "string \<Rightarrow> nat \<Rightarrow> span list \<Rightarrow> chunk list" where
  "chunks_from t i [] = []"
| "chunks_from t i (s # ss) =
     \<lparr>chunk_index = i, chunk_text = slice t (fst s) (snd s), char_start = fst s, char_end = snd s\<rparr>
       # chunks_from t (Suc i) ss"

lemma strip_nonblank: "c \<in> set s \<Longrightarrow> \<not> is_space c \<Longrightarrow> py_strip s \<noteq> []"
proof -
  assume c: "c \<in> set s" "\<not> is_space c"
  then have ne: "dropWhile is_space s \<noteq> []" by (auto simp: dropWhile_eq_Nil_conv)
  let ?d = "hd (dropWhile is_space s)"
  have "?d \<in> set (dropWhile is_space s)" "\<not> is_space ?d"
    using ne hd_dropWhile [OF ne] by simp_all
  then have "dropWhile is_space (rev (dropWhile is_space s)) \<noteq> []"
    by (metis dropWhile_eq_Nil_conv set_rev)
  then show ?thesis by (simp add: py_strip_def)
qed

lemma build_chunks_ok:
  assumes "list_all (\<lambda>w. fst w < snd w \<and> snd w \<le> length t \<and> \<not> is_space (t ! (snd w - 1))) ws"
  shows "build_chunks t i ws = Inr (chunks_from t i ws)"
  using assms
proof (induction ws arbitrary: i)
  case Nil
  then show ?case by simp
next
  case (Cons w ws)
  obtain a b where w: "w = (a, b)" by (cases w)
  with Cons.prems have ab: "a < b" "b \<le> length t" "\<not> is_space (t ! (b - 1))" by simp_all
  have "slice t a b ! (b - 1 - a) = t ! (b - 1)" using ab by (simp add: nth_slice)
  moreover have "b - 1 - a < length (slice t a b)" using ab by (simp add: length_slice)
  ultimately have "t ! (b - 1) \<in> set (slice t a b)" by (metis nth_mem)
  then have "py_strip (slice t a b) \<noteq> []" using ab(3) by (rule strip_nonblank)
  with ab Cons show ?case by (simp add: w new_chunk_def)
qed

lemma chunks_from_simps [simp]:
  "map chunk_index (chunks_from t i ws) = [i ..< i + length ws]"
  "map (\<lambda>c. (char_start c, char_end c)) (chunks_from t i ws) = ws"
  by (induction ws arbitrary: i) (simp_all add: upt_rec)

lemma chunks_from_slice:
  "c \<in> set (chunks_from t i ws) \<Longrightarrow> chunk_text c = slice t (char_start c) (char_end c)"
  by (induction ws arbitrary: i) auto

definition good_geometry :: "chunk_strategy \<Rightarrow> int \<Rightarrow> int \<Rightarrow> int option \<Rightarrow> bool" where
  "good_geometry strategy max_chars overlap_chars min_chars \<longleftrightarrow>
     strategy \<noteq> SPEAKER_TURN \<and> 1 \<le> max_chars \<and> 0 \<le> overlap_chars \<and> overlap_chars < max_chars \<and>
     (case min_chars of None \<Rightarrow> True | Some m \<Rightarrow> 0 \<le> m)"

definition least_of :: "int \<Rightarrow> int option \<Rightarrow> nat" where
  "least_of max_chars min_chars =
     nat (case min_chars of None \<Rightarrow> max_chars div int MIN_CHUNK_DIVISOR | Some m \<Rightarrow> m)"

lemma split_text_spans:
  "split_text t strategy n v m =
     (if good_geometry strategy n v m
      then Inr (chunks_from t 0 (all_spans t strategy (nat n) (nat v) (least_of n m)))
      else Inl (if n < 1 \<or> v < 0 \<or> n \<le> v \<or> strategy \<noteq> SPEAKER_TURN then ValueError
                else NotImplementedError))"
proof -
  have "build_chunks t 0 (all_spans t strategy (nat n) (nat v) k) =
      Inr (chunks_from t 0 (all_spans t strategy (nat n) (nat v) k))" for k
    using spread_within [OF all_spans_spread [of t "nat v" strategy "nat n" k]]
    by (intro build_chunks_ok) (auto simp: list_all_iff)
  then show ?thesis
    by (auto simp: split_text_def good_geometry_def least_of_def MIN_CHUNK_DIVISOR_def Let_def
        split: option.splits)
qed

lemma split_text_Inr:
  assumes "split_text t strategy n v m = Inr cs"
  obtains ws where "cs = chunks_from t 0 ws" "spread t (nat v) 0 ws (length t)"
    "ws = all_spans t strategy (nat n) (nat v) (least_of n m)" "good_geometry strategy n v m"
  using assms all_spans_spread by (auto simp: split_text_spans split: if_splits)

lemma chunks_from_map: "chunks_from t i ws = cs \<Longrightarrow> w \<in> set ws \<longleftrightarrow> w \<in> (\<lambda>c. (char_start c, char_end c)) ` set cs"
  by (metis chunks_from_simps(2) list.set_map)

text \<open>
  Chunking never fails on a text: with a geometry that its checks admit, every chunk
  the splitter constructs is accepted; an inadmissible geometry raises \<open>ValueError\<close>, and
  only the strategy for speaker turns is left unimplemented.
\<close>

theorem split_text_raises_on_geometry_only:
  "(\<exists>cs. split_text t strategy n v m = Inr cs) \<longleftrightarrow> good_geometry strategy n v m"
  by (simp add: split_text_spans)

text \<open>
  The invariant of the splitter: the text of every chunk is exactly the slice of the
  source between its offsets, the slice is not empty and inside the text, and its last
  character is not white space.
\<close>

theorem chunk_is_source_slice:
  assumes "split_text t strategy n v m = Inr cs" and "c \<in> set cs"
  shows "chunk_text c = slice t (char_start c) (char_end c) \<and> char_start c < char_end c \<and>
    char_end c \<le> length t \<and> \<not> is_space (last (chunk_text c))"
proof -
  from assms(1) obtain ws where ws: "cs = chunks_from t 0 ws" "spread t (nat v) 0 ws (length t)"
    by (rule split_text_Inr)
  from assms(2) ws(1) have "(char_start c, char_end c) \<in> set ws" by (auto simp: chunks_from_map)
  from spread_within [OF ws(2) this] have c: "char_start c < char_end c" "char_end c \<le> length t"
    "\<not> is_space (t ! (char_end c - 1))" by simp_all
  have body: "chunk_text c = slice t (char_start c) (char_end c)"
    using assms(2) ws(1) by (simp add: chunks_from_slice)
  have len: "length (chunk_text c) = char_end c - char_start c"
    using c body by (simp add: length_slice)
  then have "chunk_text c \<noteq> []" using c by auto
  then have "last (chunk_text c) = chunk_text c ! (char_end c - char_start c - 1)"
    using len by (simp add: last_conv_nth)
  also have "\<dots> = t ! (char_end c - 1)" using c by (simp add: body nth_slice)
  finally show ?thesis using c body by simp
qed

text \<open>
  Chunks are numbered from zero without a gap, and both their starts and their ends
  increase: with an overlap a chunk reaches back into its predecessor but never to its
  start.
\<close>

theorem chunks_advance:
  assumes "split_text t strategy n v m = Inr cs"
  shows "map chunk_index cs = [0 ..< length cs] \<and>
    sorted_wrt (\<lambda>c d. char_start c < char_start d \<and> char_end c < char_end d) cs"
proof -
  from assms obtain ws where ws: "cs = chunks_from t 0 ws" "spread t (nat v) 0 ws (length t)"
    by (rule split_text_Inr)
  have "length cs = length ws" using chunks_from_simps(2) [of t 0 ws] ws(1) by (metis length_map)
  moreover have "map chunk_index cs = [0 ..< length ws]" by (simp add: ws(1))
  moreover have "sorted_wrt behind (map (\<lambda>c. (char_start c, char_end c)) cs)"
    using ws by (simp add: spread_def)
  ultimately show ?thesis by (simp add: sorted_wrt_map behind_def)
qed

text \<open>
  C39. Nothing of the text is lost: every character other than white space and closing
  quotes and brackets lies in some chunk, for every strategy, size, overlap and minimum.
\<close>

theorem chunks_cover_text:
  assumes "split_text t strategy n v m = Inr cs" and "i < length t" and "essential (t ! i)"
  shows "\<exists>c \<in> set cs. char_start c \<le> i \<and> i < char_end c"
proof -
  from assms(1) obtain ws where ws: "cs = chunks_from t 0 ws" "spread t (nat v) 0 ws (length t)"
    by (rule split_text_Inr)
  then obtain ss where ss: "parts t 0 ss (length t)" "list_all2 (wider (nat v)) ss ws"
    by (auto simp: spread_def)
  from parts_cover [OF ss(1) _ assms(2,3)] obtain s where s: "s \<in> set ss" "in_span i s" by auto
  from s(1) ss(2) obtain w where "w \<in> set ws" "wider (nat v) s w"
    by (metis list_all2_conv_all_nth in_set_conv_nth)
  moreover from this s(2) have "in_span i w" by (auto simp: wider_def in_span_def)
  ultimately show ?thesis using ws(1) by (force simp: chunks_from_map in_span_def)
qed

section \<open>Sizes\<close>

definition shorter :: "nat \<Rightarrow> span \<Rightarrow> bool" where
  "shorter n s \<longleftrightarrow> snd s - fst s \<le> n"

lemma add_tight_shorter: "b - a \<le> n \<Longrightarrow> list_all (shorter n) (add_tight t a b)"
proof -
  assume n: "b - a \<le> n"
  have "shorter n (x, y)" if "tighten t a b = Some (x, y)" for x y
  proof -
    from that have "a \<le> x" "y \<le> b"
      using skip_ge back_up_le by (auto simp: tighten_def Let_def split: if_splits)
    with n show ?thesis by (simp add: shorter_def)
  qed
  then show ?thesis by (auto simp: add_tight_def split: option.splits)
qed

lemma hard_cut_shorter: "0 < n \<Longrightarrow> list_all (shorter n) (hard_cut t cursor hi n)"
proof (induction t cursor hi n rule: hard_cut.induct)
  case (1 t cursor hi n)
  show ?case
  proof (cases "hi - cursor \<le> n")
    case True
    then show ?thesis by (simp add: hard_cut.simps [of t cursor hi n] add_tight_shorter)
  next
    case False
    with cut_point_bounds [of n cursor t] 1 have "cut_point t cursor n - cursor \<le> n" by linarith
    with 1 False show ?thesis
      by (simp add: hard_cut.simps [of t cursor hi n] add_tight_shorter)
  qed
qed

lemma shorter_mono: "list_all (shorter n) ss \<Longrightarrow> n \<le> n' \<Longrightarrow> list_all (shorter n') ss"
  by (auto simp: list_all_iff shorter_def)

lemma unit_shorter: "0 < n \<Longrightarrow> list_all (shorter (2 * n)) (unit_spans t blocks n)"
proof -
  assume "0 < n"
  then have "list_all (shorter (2 * n)) (hard_cut t a b n)" for a b
    by (intro shorter_mono [OF hard_cut_shorter]) simp_all
  then have "list_all (shorter (2 * n)) (sentence_units t n s)" for s
    by (simp add: sentence_units_def shorter_def)
  then have "list_all (shorter (2 * n)) (block_units t n b)" for b
    by (auto simp: block_units_def list_all_iff shorter_def)
  then show ?thesis by (auto simp: unit_spans_def list_all_iff)
qed

lemma pack_from_shorter:
  "list_all (shorter (2 * n)) (cur # us) \<Longrightarrow> list_all (shorter (2 * n)) (pack_from n cur us)"
  by (induction n cur us rule: pack_from.induct) (auto simp: shorter_def)

lemma pack_shorter: "list_all (shorter (2 * n)) us \<Longrightarrow> list_all (shorter (2 * n)) (pack n us)"
  using pack_from_shorter by (cases us) auto

lemma merge_from_zero: "merge_from 0 s ss = s # ss"
  by (induction ss arbitrary: s) simp_all

lemma merge_zero [simp]: "merge_runts 0 ss = ss"
  by (cases ss) (simp_all add: merge_from_zero)

lemma wider_shorter:
  "list_all2 (wider v) ss ws \<Longrightarrow> list_all (shorter n) ss \<Longrightarrow> list_all (shorter (n + v)) ws"
  by (induction rule: list_all2_induct) (auto simp: wider_def shorter_def)

lemma group_shorter:
  assumes "0 < n" and "parts t lo blocks hi"
  shows "list_all (shorter (2 * n + v)) (group_spans t n v 0 blocks)"
proof -
  let ?ss = "pack n (unit_spans t blocks n)"
  have short: "list_all (shorter (2 * n)) ?ss" using assms(1) by (intro pack_shorter unit_shorter)
  have "chain t lo ?ss hi" using pack_parts [OF unit_parts [OF assms(2)]] by (simp add: parts_def)
  from overlap_wider [OF this] short have "list_all (shorter (2 * n + v)) (apply_overlap t v ?ss)"
    by (blast intro: wider_shorter)
  with shorter_mono [OF short] show ?thesis by (simp add: group_spans_def Let_def)
qed

lemma groups_parts:
  assumes "g \<in> set (groups_for t strategy n)"
  shows "\<exists>lo hi. parts t lo g hi"
proof -
  from assms obtain body where body: "tighten t 0 (length t) = Some body"
    by (cases "tighten t 0 (length t)") (auto simp: groups_for_def)
  then have tight: "tight t body"
    using add_tight_parts [of 0 "length t" t] by (simp add: add_tight_def parts_def)
  have para: "\<exists>lo hi. parts t lo (paragraph_spans t (fst s) (snd s)) hi" if "tight t s" for s
    using that paragraph_parts [of "fst s" "snd s" t] by (auto simp: tight_def)
  have sec: "tight t s" if "s \<in> set (section_spans t body)" for s
    using section_parts [OF tight] chain_bounds that unfolding parts_def by blast
  from assms body para [OF tight] parts_single [OF tight] show ?thesis
    by (cases strategy) (auto simp: groups_for_def split: if_splits intro: para sec)
qed

text \<open>
  Without a minimum no chunk is longer than twice the target plus the overlap,
  whatever the text: a run without a sentence end is cut hard.
\<close>

theorem chunk_size_bounded:
  assumes "split_text t strategy n v (Some 0) = Inr cs" and "c \<in> set cs"
  shows "int (char_count c) \<le> 2 * n + v"
proof -
  from assms(1) obtain ws where ws: "cs = chunks_from t 0 ws"
    "ws = all_spans t strategy (nat n) (nat v) (least_of n (Some 0))"
    "good_geometry strategy n v (Some 0)" by (rule split_text_Inr)
  have n: "0 < nat n" "0 \<le> v" using ws(3) by (auto simp: good_geometry_def)
  have "list_all (shorter (2 * nat n + nat v)) ws"
    using groups_parts group_shorter [OF n(1)]
    by (fastforce simp: ws(2) all_spans_def least_of_def list_all_iff)
  moreover from assms(2) ws(1) have "(char_start c, char_end c) \<in> set ws"
    by (auto simp: chunks_from_map)
  ultimately have "char_count c \<le> 2 * nat n + nat v"
    by (auto simp: list_all_iff shorter_def char_count_def)
  with n show ?thesis by linarith
qed

section \<open>Instances\<close>

text \<open>
  Small texts through the splitter: the witnesses of its laws, and three things that the
  comments of the source rule out.
\<close>

section \<open>Witnesses\<close>

definition two_sentences :: string where
  "two_sentences = ''We tried it. It was slow.''"

definition sentence_chunks :: "chunk list" where
  "sentence_chunks =
     [\<lparr>chunk_index = 0, chunk_text = ''We tried it.'', char_start = 0, char_end = 12\<rparr>,
      \<lparr>chunk_index = 1, chunk_text = ''it. It was slow.'', char_start = 9, char_end = 25\<rparr>]"

lemma two_sentences_run: "split_text two_sentences PARAGRAPH 15 5 (Some 0) = Inr sentence_chunks"
  by code_simp

theorem chunk_is_source_slice_witness:
  "chunk_text (sentence_chunks ! 1) = slice two_sentences 9 25"
  using chunk_is_source_slice [OF two_sentences_run, of "sentence_chunks ! 1"]
  by (simp add: sentence_chunks_def)

theorem chunks_advance_witness:
  "sorted_wrt (\<lambda>c d. char_start c < char_start d \<and> char_end c < char_end d) sentence_chunks"
  using chunks_advance [OF two_sentences_run] by (rule conjunct2)

theorem chunks_cover_text_witness:
  "\<exists>c \<in> set sentence_chunks. char_start c \<le> 16 \<and> 16 < char_end c"
proof (rule chunks_cover_text [OF two_sentences_run])
  show "16 < length two_sentences" by (simp add: two_sentences_def)
  show "essential (two_sentences ! 16)" by code_simp
qed

theorem chunk_size_bounded_witness: "int (char_count (sentence_chunks ! 1)) \<le> 2 * 15 + 5"
  by (rule chunk_size_bounded [OF two_sentences_run]) (simp add: sentence_chunks_def)

section \<open>What the comments rule out\<close>

text \<open>
  A closing quote after the end of a sentence is in no chunk when the sentences fall
  into different chunks: the boundary lies before the closers, not behind them, although
  the closers are listed so that it should not be one character early.
\<close>

definition quoted_text :: string where
  "quoted_text = ''He said '' @ CHR 0x22 # ''stop.'' @ CHR 0x22 # '' Then he left.''"

theorem closing_quote_is_lost:
  "(case split_text quoted_text PARAGRAPH 15 0 (Some 0) of
      Inl _ \<Rightarrow> []
    | Inr cs \<Rightarrow> map (\<lambda>c. (char_start c, char_end c)) cs) = [(0, 14), (16, 29)] \<and>
    quoted_text ! 14 = CHR 0x22"
proof
  show "(case split_text quoted_text PARAGRAPH 15 0 (Some 0) of
      Inl _ \<Rightarrow> []
    | Inr cs \<Rightarrow> map (\<lambda>c. (char_start c, char_end c)) cs) = [(0, 14), (16, 29)]"
    by code_simp
  show "quoted_text ! 14 = CHR 0x22" by (simp add: quoted_text_def)
qed

text \<open>
  With two blanks in the overlap window the chunk begins with white space: the fallback
  starts behind the first blank, so not every span is tight.
\<close>

lemma overlap_may_start_with_space:
  "(case split_text ''aaaa bb  cc. dddd eeee'' PARAGRAPH 12 7 (Some 0) of
      Inl _ \<Rightarrow> []
    | Inr cs \<Rightarrow> map chunk_text cs) = [''aaaa bb  cc.'', '' cc. dddd eeee'']"
  by code_simp

text \<open>
  A runt merged into its predecessor brings the blank lines between them, so the chunk
  exceeds its target of ten by more than the minimum of two.
\<close>

lemma runt_merge_overshoots:
  "(case split_text (''abc'' @ replicate 30 NEWLINE @ ''d'') PARAGRAPH 10 0 (Some 2) of
      Inl _ \<Rightarrow> []
    | Inr cs \<Rightarrow> map char_count cs) = [34]"
  by code_simp

end
