(* ===== verification/Metrics.thy ===== *)
theory Metrics
  imports Prelude
begin

text \<open>
  \<open>retrieval/evaluation/metrics.py\<close>: the ranking metrics of one query and their average
  over a run. The judgements of a query are a dictionary read as the list of its items.
  All metrics are exact rationals but the discounted gain, whose logarithms are real.
\<close>

section \<open>Relevance\<close>

type_synonym grade_table = "(string \<times> int) list"

definition MAX_GRADE :: int where
  "MAX_GRADE = 3"

definition relevance :: "grade_table \<Rightarrow> string \<Rightarrow> int" where
  "relevance grades doc =
     max 0 (min MAX_GRADE (case map_of grades doc of None \<Rightarrow> 0 | Some g \<Rightarrow> g))"

definition is_relevant :: "int \<Rightarrow> int \<Rightarrow> bool" where
  "is_relevant grade threshold \<longleftrightarrow> threshold \<le> grade"

definition relevant_in :: "grade_table \<Rightarrow> int \<Rightarrow> string list \<Rightarrow> nat" where
  "relevant_in grades threshold docs =
     length (filter (\<lambda>d. is_relevant (relevance grades d) threshold) docs)"

definition relevant_available_in :: "grade_table \<Rightarrow> int \<Rightarrow> nat" where
  "relevant_available_in grades threshold =
     length (filter (\<lambda>p. is_relevant (snd p) threshold) grades)"

section \<open>Set metrics\<close>

definition precision_at_k :: "string list \<Rightarrow> grade_table \<Rightarrow> int \<Rightarrow> int \<Rightarrow> py_error + pyfloat" where
  "precision_at_k ranked grades k threshold =
     (if k \<le> 0 then Inl ValueError
      else Inr (of_nat (relevant_in grades threshold (take (nat k) ranked)) / of_int k))"

definition recall_at_k :: "string list \<Rightarrow> grade_table \<Rightarrow> int \<Rightarrow> int \<Rightarrow> py_error + pyfloat" where
  "recall_at_k ranked grades k threshold =
     (if k \<le> 0 then Inl ValueError
      else let total = relevant_available_in grades threshold in
        if total = 0 then Inr 1
        else Inr (of_nat (relevant_in grades threshold (take (nat k) ranked)) / of_nat total))"

definition f1 :: "pyfloat \<Rightarrow> pyfloat \<Rightarrow> pyfloat" where
  "f1 precision recall =
     (if precision + recall \<le> 0 then 0 else 2 * precision * recall / (precision + recall))"

definition hit_rate :: "string list \<Rightarrow> grade_table \<Rightarrow> int \<Rightarrow> int \<Rightarrow> py_error + pyfloat" where
  "hit_rate ranked grades k threshold =
     (if k \<le> 0 then Inl ValueError
      else Inr (if list_ex (\<lambda>d. is_relevant (relevance grades d) threshold) (take (nat k) ranked)
                then 1 else 0))"

section \<open>Rank-aware metrics\<close>

text \<open>The loops over \<open>enumerate(ranked_ids, start=1)\<close>, from a position on.\<close>

fun rr_from :: "nat \<Rightarrow> string list \<Rightarrow> grade_table \<Rightarrow> int \<Rightarrow> pyfloat" where
  "rr_from p [] grades threshold = 0"
| "rr_from p (d # ds) grades threshold =
     (if is_relevant (relevance grades d) threshold then 1 / of_nat p
      else rr_from (Suc p) ds grades threshold)"

definition reciprocal_rank :: "string list \<Rightarrow> grade_table \<Rightarrow> int \<Rightarrow> pyfloat" where
  "reciprocal_rank ranked grades threshold = rr_from 1 ranked grades threshold"

definition mean_reciprocal_rank :: "(string list \<times> grade_table) list \<Rightarrow> int \<Rightarrow> pyfloat" where
  "mean_reciprocal_rank runs threshold =
     (let values = map (\<lambda>(ranked, grades). reciprocal_rank ranked grades threshold) runs in
      if values = [] then 0 else sum_list values / of_nat (length values))"

fun ap_from :: "nat \<Rightarrow> nat \<Rightarrow> string list \<Rightarrow> grade_table \<Rightarrow> int \<Rightarrow> pyfloat" where
  "ap_from p hits [] grades threshold = 0"
| "ap_from p hits (d # ds) grades threshold =
     (if is_relevant (relevance grades d) threshold
      then of_nat (Suc hits) / of_nat p + ap_from (Suc p) (Suc hits) ds grades threshold
      else ap_from (Suc p) hits ds grades threshold)"

definition average_precision :: "string list \<Rightarrow> grade_table \<Rightarrow> int \<Rightarrow> pyfloat" where
  "average_precision ranked grades threshold =
     (let total = relevant_available_in grades threshold in
      if total = 0 then 1 else ap_from 1 0 ranked grades threshold / of_nat total)"

definition gain :: "int \<Rightarrow> real" where
  "gain grade = (if 0 < grade then 2 ^ nat grade - 1 else 0)"

fun dcg_from :: "nat \<Rightarrow> int list \<Rightarrow> real" where
  "dcg_from p [] = 0"
| "dcg_from p (g # gs) = gain g / log 2 (real p + 1) + dcg_from (Suc p) gs"

definition dcg :: "int list \<Rightarrow> real" where
  "dcg relevances = dcg_from 1 relevances"

definition ideal_grades :: "grade_table \<Rightarrow> nat \<Rightarrow> int list" where
  "ideal_grades grades k = take k (rev (sort (filter (\<lambda>g. 0 < g) (map snd grades))))"

definition ndcg_at_k :: "string list \<Rightarrow> grade_table \<Rightarrow> int \<Rightarrow> py_error + real" where
  "ndcg_at_k ranked grades k =
     (if k \<le> 0 then Inl ValueError
      else
        let actual = dcg (map (relevance grades) (take (nat k) ranked));
            ideal = dcg (ideal_grades grades (nat k))
        in if ideal \<le> 0 then Inr 1 else Inr (actual / ideal))"

section \<open>Groundedness\<close>

definition groundedness :: "string list \<Rightarrow> string list \<Rightarrow> pyfloat" where
  "groundedness cited supporting =
     (if cited = [] then 0
      else of_nat (length (filter (\<lambda>d. d \<in> set supporting) cited)) / of_nat (length cited))"

section \<open>One query, one run\<close>

record query_evaluation =
  query_id :: string
  retrieved :: nat
  relevant_available :: nat
  q_precision :: "(int \<times> pyfloat) list"
  q_recall :: "(int \<times> pyfloat) list"
  q_ndcg :: "(int \<times> real) list"
  q_hit :: "(int \<times> pyfloat) list"
  q_rr :: pyfloat
  q_ap :: pyfloat

definition found_nothing :: "query_evaluation \<Rightarrow> bool" where
  "found_nothing q \<longleftrightarrow> q_rr q = 0 \<and> 0 < relevant_available q"

text \<open>\<open>{k: metric(k) for k in ks}\<close>, where the metric may raise.\<close>

fun at_each :: "(int \<Rightarrow> py_error + 'v) \<Rightarrow> int list \<Rightarrow> py_error + (int \<times> 'v) list" where
  "at_each metric [] = Inr []"
| "at_each metric (k # ks) =
     and_then (metric k) (\<lambda>v. map_sum id (\<lambda>rest. (k, v) # rest) (at_each metric ks))"

definition evaluate_query ::
  "string \<Rightarrow> string list \<Rightarrow> grade_table \<Rightarrow> int list \<Rightarrow> int \<Rightarrow> py_error + query_evaluation" where
  "evaluate_query query ranked grades k_values threshold =
     (let deduped = ordered_unique ranked; ks = ordered_unique k_values in
      and_then (at_each (\<lambda>k. precision_at_k deduped grades k threshold) ks) (\<lambda>p.
      and_then (at_each (\<lambda>k. recall_at_k deduped grades k threshold) ks) (\<lambda>r.
      and_then (at_each (\<lambda>k. ndcg_at_k deduped grades k) ks) (\<lambda>n.
      and_then (at_each (\<lambda>k. hit_rate deduped grades k threshold) ks) (\<lambda>h.
        Inr \<lparr>query_id = query, retrieved = length deduped,
             relevant_available = relevant_available_in grades threshold,
             q_precision = p, q_recall = r, q_ndcg = n, q_hit = h,
             q_rr = reciprocal_rank deduped grades threshold,
             q_ap = average_precision deduped grades threshold\<rparr>)))))"

record evaluation_summary =
  query_count :: nat
  s_precision :: "(int \<times> pyfloat) list"
  s_recall :: "(int \<times> pyfloat) list"
  s_ndcg :: "(int \<times> real) list"
  s_hit :: "(int \<times> pyfloat) list"
  mrr :: pyfloat
  map_score :: pyfloat
  failed_query_ids :: "string list"

definition lookup_key :: "(int \<times> 'v) list \<Rightarrow> int \<Rightarrow> py_error + 'v" where
  "lookup_key d k = (case map_of d k of None \<Rightarrow> Inl KeyError | Some v \<Rightarrow> Inr v)"

definition mean_over ::
  "(query_evaluation \<Rightarrow> (int \<times> 'v::field_char_0) list) \<Rightarrow> query_evaluation list \<Rightarrow> int
     \<Rightarrow> py_error + 'v" where
  "mean_over field evaluations k =
     map_sum id (\<lambda>total. total / of_nat (length evaluations))
       (fold_res (\<lambda>acc q. map_sum id (\<lambda>v. acc + v) (lookup_key (field q) k)) 0 evaluations)"

definition evaluate_run :: "query_evaluation list \<Rightarrow> py_error + evaluation_summary" where
  "evaluate_run evaluations =
     (if evaluations = []
      then Inr \<lparr>query_count = 0, s_precision = [], s_recall = [], s_ndcg = [], s_hit = [],
                mrr = 0, map_score = 0, failed_query_ids = []\<rparr>
      else
        let ks = sort (map fst (q_ndcg (hd evaluations))); n = of_nat (length evaluations) in
        and_then (at_each (mean_over q_precision evaluations) ks) (\<lambda>p.
        and_then (at_each (mean_over q_recall evaluations) ks) (\<lambda>r.
        and_then (at_each (mean_over q_ndcg evaluations) ks) (\<lambda>g.
        and_then (at_each (mean_over q_hit evaluations) ks) (\<lambda>h.
          Inr \<lparr>query_count = length evaluations, s_precision = p, s_recall = r, s_ndcg = g,
               s_hit = h, mrr = sum_list (map q_rr evaluations) / n,
               map_score = sum_list (map q_ap evaluations) / n,
               failed_query_ids = map query_id (filter found_nothing evaluations)\<rparr>)))))"

end
