(* ===== verification/Metrics_Laws.thy ===== *)
theory Metrics_Laws
  imports Metrics
begin

text \<open>
  What the metrics of \<open>retrieval/evaluation/metrics.py\<close> guarantee: every metric of a
  query lies in the unit interval, the discounted gain because no ranking of judged
  documents beats the ideal one; the ideal ranking scores one. Ranked ids are distinct, as
  \<open>evaluate_query\<close> makes them, and a threshold is at least one.
\<close>

section \<open>Counting relevant documents\<close>

lemma relevance_bounds: "0 \<le> relevance grades d \<and> relevance grades d \<le> MAX_GRADE"
  by (simp add: relevance_def MAX_GRADE_def)

lemma relevance_judged:
  assumes "0 < relevance grades d"
  shows "\<exists>g. map_of grades d = Some g \<and> relevance grades d \<le> g"
  using assms by (auto simp: relevance_def split: option.splits)

lemma relevant_in_le: "relevant_in grades threshold ds \<le> length ds"
  by (simp add: relevant_in_def)

lemma relevant_in_le_available:
  assumes "distinct ds" and "1 \<le> threshold"
  shows "relevant_in grades threshold ds \<le> relevant_available_in grades threshold"
proof -
  let ?found = "filter (\<lambda>d. is_relevant (relevance grades d) threshold) ds"
  let ?judged = "filter (\<lambda>p. is_relevant (snd p) threshold) grades"
  have "set ?found \<subseteq> fst ` set ?judged"
  proof
    fix d assume "d \<in> set ?found"
    then have r: "threshold \<le> relevance grades d" by (simp add: is_relevant_def)
    with assms(2) have "0 < relevance grades d" by linarith
    then obtain g where g: "map_of grades d = Some g" "relevance grades d \<le> g"
      using relevance_judged by blast
    then have "(d, g) \<in> set grades" by (simp add: map_of_SomeD)
    with r g(2) have "(d, g) \<in> set ?judged" by (simp add: is_relevant_def)
    then show "d \<in> fst ` set ?judged" by force
  qed
  then have "card (set ?found) \<le> card (fst ` set ?judged)" by (intro card_mono) simp_all
  also have "\<dots> \<le> card (set ?judged)" by (rule card_image_le) simp
  also have "\<dots> \<le> length ?judged" by (rule card_length)
  finally have "card (set ?found) \<le> length ?judged" .
  moreover have "card (set ?found) = length ?found"
    using assms(1) by (intro distinct_card distinct_filter)
  ultimately show ?thesis by (simp only: relevant_in_def relevant_available_in_def)
qed

definition unit :: "'a::linordered_field \<Rightarrow> bool" where
  "unit x \<longleftrightarrow> 0 \<le> x \<and> x \<le> 1"

lemma unit_ratio: "0 \<le> a \<Longrightarrow> a \<le> b \<Longrightarrow> 0 < b \<Longrightarrow> unit (a / b)"
  by (simp add: unit_def)

lemma precision_unit: "precision_at_k ranked grades k threshold = Inr x \<Longrightarrow> unit x"
proof -
  assume a: "precision_at_k ranked grades k threshold = Inr x"
  then have k: "0 < k" by (auto simp: precision_at_k_def split: if_splits)
  have "relevant_in grades threshold (take (nat k) ranked) \<le> nat k"
    using relevant_in_le [of grades threshold "take (nat k) ranked"] by simp
  then have "(of_nat (relevant_in grades threshold (take (nat k) ranked)) :: rat) \<le> of_nat (nat k)"
    by (rule of_nat_mono)
  also have "(of_nat (nat k) :: rat) = of_int k" using k by simp
  finally show ?thesis using a k by (auto simp: precision_at_k_def intro!: unit_ratio)
qed

lemma recall_unit:
  assumes "distinct ranked" and "1 \<le> threshold"
    and "recall_at_k ranked grades k threshold = Inr x"
  shows "unit x"
proof (cases "relevant_available_in grades threshold = 0")
  case True
  with assms(3) show ?thesis by (auto simp: recall_at_k_def unit_def split: if_splits)
next
  case False
  have "relevant_in grades threshold (take (nat k) ranked) \<le> relevant_available_in grades threshold"
    using assms(1,2) by (intro relevant_in_le_available) simp_all
  then have "(of_nat (relevant_in grades threshold (take (nat k) ranked)) :: rat)
      \<le> of_nat (relevant_available_in grades threshold)" by (rule of_nat_mono)
  with False assms(3) show ?thesis
    by (auto simp: recall_at_k_def Let_def split: if_splits intro!: unit_ratio)
qed

lemma hit_unit: "hit_rate ranked grades k threshold = Inr x \<Longrightarrow> unit x"
  by (auto simp: hit_rate_def unit_def split: if_splits)

lemma rr_from_unit: "0 < p \<Longrightarrow> unit (rr_from p ds grades threshold)"
  by (induction p ds grades threshold rule: rr_from.induct) (auto simp: unit_def)

lemma ap_from_bounds:
  "hits < p \<Longrightarrow> 0 \<le> ap_from p hits ds grades threshold \<and>
     ap_from p hits ds grades threshold \<le> of_nat (relevant_in grades threshold ds)"
proof (induction p hits ds grades threshold rule: ap_from.induct)
  case (1 p hits grades threshold)
  then show ?case by (simp add: relevant_in_def)
next
  case (2 p hits d ds grades threshold)
  show ?case
  proof (cases "is_relevant (relevance grades d) threshold")
    case True
    have "(of_nat (Suc hits) :: rat) \<le> of_nat p" using 2 by (intro of_nat_mono) simp
    then have "of_nat (Suc hits) / of_nat p \<le> (1 :: rat)" using 2 by (simp add: divide_le_eq_1)
    moreover have "(0 :: rat) \<le> of_nat (Suc hits) / of_nat p" by simp
    moreover have ih: "0 \<le> ap_from (Suc p) (Suc hits) ds grades threshold"
      "ap_from (Suc p) (Suc hits) ds grades threshold \<le> of_nat (relevant_in grades threshold ds)"
      using 2 True by simp_all
    moreover have "relevant_in grades threshold (d # ds) = Suc (relevant_in grades threshold ds)"
      using True by (simp add: relevant_in_def)
    ultimately show ?thesis using True
      by (simp del: of_nat_Suc)
  next
    case False
    with 2 show ?thesis by (simp add: relevant_in_def)
  qed
qed

lemma average_precision_unit:
  assumes "distinct ranked" and "1 \<le> threshold"
  shows "unit (average_precision ranked grades threshold)"
proof (cases "relevant_available_in grades threshold = 0")
  case True
  then show ?thesis by (simp add: average_precision_def unit_def)
next
  case False
  have "ap_from 1 0 ranked grades threshold \<le> of_nat (relevant_in grades threshold ranked)"
    using ap_from_bounds [of 0 1] by simp
  also have "\<dots> \<le> (of_nat (relevant_available_in grades threshold) :: rat)"
    using relevant_in_le_available [OF assms] by (rule of_nat_mono)
  finally show ?thesis
    using False ap_from_bounds [of 0 1 ranked grades threshold]
    by (auto simp: average_precision_def Let_def intro!: unit_ratio)
qed

section \<open>Discounted gain\<close>

lemma gain_nonneg: "0 \<le> gain g"
  by (simp add: gain_def)

lemma gain_mono: "g \<le> h \<Longrightarrow> gain g \<le> gain h"
  by (auto simp: gain_def intro: power_increasing)

lemma discount_pos: "0 < p \<Longrightarrow> 0 < log 2 (real p + 1)"
  by simp

lemma discount_mono: "0 < p \<Longrightarrow> log 2 (real p + 1) \<le> log 2 (real (Suc p) + 1)"
  by simp

lemma dcg_nonneg: "0 < p \<Longrightarrow> 0 \<le> dcg_from p gs"
  by (induction p gs rule: dcg_from.induct) (auto intro!: add_nonneg_nonneg divide_nonneg_pos gain_nonneg)

text \<open>A list that is at least as long and nowhere smaller has at least the gain.\<close>

fun dominates :: "int list \<Rightarrow> int list \<Rightarrow> bool" where
  "dominates [] ys = True"
| "dominates (x # xs) [] = False"
| "dominates (x # xs) (y # ys) = (x \<le> y \<and> dominates xs ys)"

lemma dcg_dominates: "0 < p \<Longrightarrow> dominates xs ys \<Longrightarrow> dcg_from p xs \<le> dcg_from p ys"
proof (induction xs ys arbitrary: p rule: dominates.induct)
  case (1 ys)
  then show ?case by (simp add: dcg_nonneg)
next
  case (2 x xs)
  then show ?case by simp
next
  case (3 x xs y ys)
  then have "gain x / log 2 (real p + 1) \<le> gain y / log 2 (real p + 1)"
    by (intro divide_right_mono gain_mono) simp_all
  with 3 show ?case by (simp add: add_mono)
qed

lemma dominates_refl: "dominates xs xs"
  by (induction xs) simp_all

lemma dominates_trans: "dominates xs ys \<Longrightarrow> dominates ys zs \<Longrightarrow> dominates xs zs"
proof (induction xs ys arbitrary: zs rule: dominates.induct)
  case (1 ys)
  then show ?case by simp
next
  case (2 x xs)
  then show ?case by simp
next
  case (3 x xs y ys)
  then show ?case by (cases zs) auto
qed

text \<open>Descending lists: insertion, and sorting by it.\<close>

fun insert_desc :: "int \<Rightarrow> int list \<Rightarrow> int list" where
  "insert_desc x [] = [x]"
| "insert_desc x (y # ys) = (if y \<le> x then x # y # ys else y # insert_desc x ys)"

fun sort_desc :: "int list \<Rightarrow> int list" where
  "sort_desc [] = []"
| "sort_desc (x # xs) = insert_desc x (sort_desc xs)"

lemma mset_insert_desc [simp]: "mset (insert_desc x ys) = add_mset x (mset ys)"
  by (induction ys) auto

lemma mset_sort_desc [simp]: "mset (sort_desc xs) = mset xs"
  by (induction xs) auto

lemma set_insert_desc [simp]: "set (insert_desc x ys) = insert x (set ys)"
  by (induction ys) auto

lemma sorted_insert_desc: "sorted_wrt (\<ge>) ys \<Longrightarrow> sorted_wrt (\<ge>) (insert_desc x ys)"
  by (induction ys) auto

lemma sorted_sort_desc: "sorted_wrt (\<ge>) (sort_desc xs)"
  by (induction xs) (auto intro: sorted_insert_desc)

lemma rev_sort_desc: "rev (sort xs) = sort_desc xs"
proof -
  have "sorted (rev (sort_desc xs))" using sorted_sort_desc [of xs] by (simp add: sorted_wrt_rev)
  then have "sort xs = rev (sort_desc xs)" by (intro properties_for_sort) simp_all
  then show ?thesis by simp
qed

lemma sort_desc_mset: "mset xs = mset ys \<Longrightarrow> sort_desc xs = sort_desc ys"
proof -
  assume "mset xs = mset ys"
  then have "sort xs = sort ys" by (intro properties_for_sort) simp_all
  then show ?thesis using rev_sort_desc by metis
qed

lemma dcg_swap:
  assumes "0 < p" and "x \<le> y"
  shows "dcg_from p (x # y # ys) \<le> dcg_from p (y # x # ys)"
proof -
  let ?a = "log 2 (real p + 1)" and ?b = "log 2 (real (Suc p) + 1)"
  have ab: "0 < ?a" "?a \<le> ?b" using assms(1) by simp_all
  then have "(gain y - gain x) / ?b \<le> (gain y - gain x) / ?a"
    using gain_mono [OF assms(2)] by (intro divide_left_mono) auto
  then show ?thesis by (simp add: diff_divide_distrib)
qed

lemma dcg_insert: "0 < p \<Longrightarrow> dcg_from p (x # ys) \<le> dcg_from p (insert_desc x ys)"
proof (induction ys arbitrary: p)
  case Nil
  then show ?case by simp
next
  case (Cons y ys)
  show ?case
  proof (cases "y \<le> x")
    case True
    then show ?thesis by simp
  next
    case False
    then have "dcg_from p (x # y # ys) \<le> dcg_from p (y # x # ys)" using Cons.prems dcg_swap by simp
    also have "\<dots> \<le> dcg_from p (y # insert_desc x ys)" using Cons.IH [of "Suc p"] by simp
    finally show ?thesis using False by simp
  qed
qed

lemma dcg_sort: "0 < p \<Longrightarrow> dcg_from p xs \<le> dcg_from p (sort_desc xs)"
proof (induction xs arbitrary: p)
  case Nil
  then show ?case by simp
next
  case (Cons x xs)
  then have "dcg_from p (x # xs) \<le> dcg_from p (x # sort_desc xs)" by simp
  also have "\<dots> \<le> dcg_from p (sort_desc (x # xs))" using dcg_insert [OF Cons.prems] by simp
  finally show ?case .
qed

lemma insert_dominates: "sorted_wrt (\<ge>) ys \<Longrightarrow> dominates ys (insert_desc x ys)"
proof (induction ys)
  case Nil
  then show ?case by simp
next
  case (Cons y ys)
  show ?case
  proof (cases "y \<le> x")
    case True
    have "dominates zs (z # zs)" if "sorted_wrt (\<ge>) (z # zs)" for z :: int and zs
      using that by (induction zs arbitrary: z) auto
    with Cons.prems True show ?thesis by simp
  next
    case False
    with Cons show ?thesis by simp
  qed
qed

lemma insert_mono_dominates: "dominates xs ys \<Longrightarrow> x \<le> y \<Longrightarrow> sorted_wrt (\<ge>) xs \<Longrightarrow> sorted_wrt (\<ge>) ys \<Longrightarrow>
    dominates (insert_desc x xs) (insert_desc y ys)"
proof (induction xs ys arbitrary: x y rule: dominates.induct)
  case (1 ys)
  then show ?case by (cases ys) auto
next
  case (2 x xs)
  then show ?case by simp
next
  case (3 a xs b ys)
  from 3 have ih: "\<And>u v. u \<le> v \<Longrightarrow> dominates (insert_desc u xs) (insert_desc v ys)" by simp
  have a: "insert_desc a xs = a # xs" using 3 by (cases xs) auto
  have b: "insert_desc b ys = b # ys" using 3 by (cases ys) auto
  have "dominates (a # xs) (insert_desc y ys)" if "a \<le> y"
    using ih [OF that] a by simp
  moreover have "dominates (insert_desc x xs) (b # ys)" if "x \<le> b"
    using ih [OF that] b by simp
  ultimately show ?case using 3 ih by auto
qed

text \<open>
  The descending list of the grades of some of the documents is dominated by the
  descending list of the grades of all of them.
\<close>

lemma sub_dominates:
  assumes "list_all2 (\<le>) xs ys"
  shows "dominates (sort_desc xs) (sort_desc (ys @ zs))"
proof -
  have more: "dominates (sort_desc ys) (sort_desc (zs @ ys))" for zs ys
  proof (induction zs)
    case Nil
    then show ?case by (simp add: dominates_refl)
  next
    case (Cons z zs)
    from Cons insert_dominates [OF sorted_sort_desc] show ?case by (auto intro: dominates_trans)
  qed
  have "dominates (sort_desc xs) (sort_desc ys)"
    using assms
    by (induction rule: list_all2_induct) (auto intro: insert_mono_dominates sorted_sort_desc)
  moreover have "sort_desc (zs @ ys) = sort_desc (ys @ zs)"
    by (rule sort_desc_mset) simp
  ultimately show ?thesis using more [of ys zs] by (auto intro: dominates_trans)
qed

section \<open>The ideal ranking\<close>

definition positive_grades :: "grade_table \<Rightarrow> int list" where
  "positive_grades grades = filter (\<lambda>g. 0 < g) (map snd grades)"

lemma ideal_is_sort_desc: "ideal_grades grades k = take k (sort_desc (positive_grades grades))"
  by (simp add: ideal_grades_def positive_grades_def rev_sort_desc)

text \<open>Documents without gain can be dropped: the others only move up.\<close>

lemma dcg_shift: "0 < p \<Longrightarrow> dcg_from (Suc p) gs \<le> dcg_from p gs"
proof (induction gs arbitrary: p)
  case Nil
  then show ?case by simp
next
  case (Cons g gs)
  have "gain g / log 2 (real (Suc p) + 1) \<le> gain g / log 2 (real p + 1)"
    using Cons.prems by (intro divide_left_mono gain_nonneg) simp_all
  with Cons show ?case by (simp add: add_mono)
qed

lemma dcg_drop_zero: "0 < p \<Longrightarrow> dcg_from p gs \<le> dcg_from p (filter (\<lambda>g. 0 < g) gs)"
proof (induction gs arbitrary: p)
  case Nil
  then show ?case by simp
next
  case (Cons g gs)
  show ?case
  proof (cases "0 < g")
    case True
    with Cons show ?thesis by simp
  next
    case False
    then have "dcg_from p (g # gs) = dcg_from (Suc p) gs" by (simp add: gain_def)
    also have "\<dots> \<le> dcg_from p gs" using Cons.prems by (rule dcg_shift)
    also have "\<dots> \<le> dcg_from p (filter (\<lambda>g. 0 < g) gs)" using Cons.prems by (rule Cons.IH)
    finally show ?thesis using False by simp
  qed
qed

text \<open>The judged documents found, with the rest of the judgements.\<close>

lemma found_split:
  assumes "distinct ds" and "\<forall>d \<in> set ds. 0 < relevance grades d"
  shows "\<exists>hs zs. list_all2 (\<le>) (map (relevance grades) ds) hs \<and>
    mset (positive_grades grades) = mset (hs @ zs)"
  using assms
proof (induction grades arbitrary: ds)
  case Nil
  then have "ds = []" by (cases ds) (auto simp: relevance_def)
  then show ?case by (simp add: positive_grades_def)
next
  case (Cons p grades)
  obtain a g where p: "p = (a, g)" by (cases p)
  have other: "relevance (p # grades) d = relevance grades d" if "d \<noteq> a" for d
    using that by (simp add: relevance_def p)
  let ?es = "filter (\<lambda>d. d \<noteq> a) ds"
  have "\<forall>d \<in> set ?es. 0 < relevance grades d" using Cons.prems(2) other by fastforce
  with Cons.IH [of ?es] Cons.prems(1) obtain hs zs where
    ih: "list_all2 (\<le>) (map (relevance grades) ?es) hs"
      "mset (positive_grades grades) = mset (hs @ zs)" by auto
  have same: "map (relevance (p # grades)) ?es = map (relevance grades) ?es"
    using other by auto
  show ?case
  proof (cases "a \<in> set ds")
    case False
    then have "?es = ds" by (simp add: filter_id_conv) auto
    moreover have "mset (positive_grades (p # grades)) = mset (hs @ (if 0 < g then g # zs else zs))"
      using ih(2) by (simp add: positive_grades_def p)
    ultimately show ?thesis using ih(1) same by metis
  next
    case True
    with Cons.prems(2) have r: "0 < relevance (p # grades) a" by simp
    then have g: "0 < g" "relevance (p # grades) a \<le> g" by (auto simp: relevance_def p)
    from True obtain us vs where ds: "ds = us @ a # vs" by (auto simp: in_set_conv_decomp)
    with Cons.prems(1) have "\<forall>d \<in> set us. d \<noteq> a" "\<forall>d \<in> set vs. d \<noteq> a" by auto
    then have es: "?es = us @ vs" by (simp add: ds filter_True)
    from ih(1) es obtain hu hv where h: "hs = hu @ hv"
      "list_all2 (\<le>) (map (relevance grades) us) hu" "list_all2 (\<le>) (map (relevance grades) vs) hv"
      by (auto simp: list_all2_append1)
    have "map (relevance (p # grades)) us = map (relevance grades) us"
      "map (relevance (p # grades)) vs = map (relevance grades) vs"
      using same es by (simp_all add: map_eq_conv)
    with h(2,3) have "list_all2 (\<le>) (map (relevance (p # grades)) us) hu"
      "list_all2 (\<le>) (map (relevance (p # grades)) vs) hv" by (simp_all only:)
    then have "list_all2 (\<le>) (map (relevance (p # grades)) ds) (hu @ g # hv)"
      using g(2) by (simp only: ds map_append list.map list_all2_appendI list_all2_Cons)
    moreover have "mset (positive_grades (p # grades)) = mset ((hu @ g # hv) @ zs)"
      using ih(2) g(1) h(1) by (simp add: positive_grades_def p)
    ultimately show ?thesis by blast
  qed
qed

lemma dominates_take: "dominates xs ys \<Longrightarrow> length xs \<le> k \<Longrightarrow> dominates xs (take k ys)"
proof (induction xs ys arbitrary: k rule: dominates.induct)
  case (1 ys)
  then show ?case by simp
next
  case (2 x xs)
  then show ?case by simp
next
  case (3 x xs y ys)
  then show ?case by (cases k) auto
qed

lemma length_sort_desc [simp]: "length (sort_desc xs) = length xs"
  by (metis mset_sort_desc size_mset)

lemma dcg_le_ideal:
  assumes "distinct ranked"
  shows "dcg (map (relevance grades) (take k ranked)) \<le> dcg (ideal_grades grades k)"
proof -
  let ?top = "take k ranked"
  let ?ds = "filter (\<lambda>d. 0 < relevance grades d) ?top"
  have "distinct ?ds" "\<forall>d \<in> set ?ds. 0 < relevance grades d" using assms by simp_all
  from found_split [OF this] obtain hs zs where
    h: "list_all2 (\<le>) (map (relevance grades) ?ds) hs"
      "mset (positive_grades grades) = mset (hs @ zs)" by blast
  have sorted: "sort_desc (positive_grades grades) = sort_desc (hs @ zs)"
    by (rule sort_desc_mset) (rule h(2))
  have len: "length ?ds \<le> k"
    by (rule order_trans [OF length_filter_le]) simp
  have "filter (\<lambda>g. 0 < g) (map (relevance grades) ?top) = map (relevance grades) ?ds"
    by (simp add: filter_map comp_def)
  then have "dcg (map (relevance grades) ?top) \<le> dcg_from 1 (map (relevance grades) ?ds)"
    using dcg_drop_zero [of 1 "map (relevance grades) ?top"] by (simp add: dcg_def)
  also have "\<dots> \<le> dcg_from 1 (sort_desc (map (relevance grades) ?ds))" by (rule dcg_sort) simp
  also have "\<dots> \<le> dcg_from 1 (take k (sort_desc (positive_grades grades)))"
    using sub_dominates [OF h(1), of zs] len
    by (intro dcg_dominates dominates_take) (simp_all add: sorted)
  finally show ?thesis by (simp add: dcg_def ideal_is_sort_desc)
qed

lemma ndcg_unit:
  assumes "distinct ranked" and "ndcg_at_k ranked grades k = Inr x"
  shows "unit x"
proof -
  let ?actual = "dcg (map (relevance grades) (take (nat k) ranked))"
  let ?ideal = "dcg (ideal_grades grades (nat k))"
  have "0 \<le> ?actual" "?actual \<le> ?ideal"
    using dcg_nonneg dcg_le_ideal [OF assms(1)] by (simp_all add: dcg_def)
  with assms(2) show ?thesis
    by (auto simp: ndcg_at_k_def Let_def unit_def divide_le_eq_1 split: if_splits)
qed

text \<open>A ranking of all judged documents, the better grade first, scores one.\<close>

lemma ndcg_ideal:
  assumes "0 < k" and "map (relevance grades) (take (nat k) ranked) = ideal_grades grades (nat k)"
  shows "ndcg_at_k ranked grades k = Inr 1"
  using assms by (simp add: ndcg_at_k_def Let_def)

section \<open>One query\<close>

lemma at_each_Inr:
  "at_each metric ks = Inr d \<Longrightarrow>
     map fst d = ks \<and> (\<forall>(k, v) \<in> set d. metric k = Inr v)"
proof (induction ks arbitrary: d)
  case Nil
  then show ?case by simp
next
  case (Cons k ks)
  then obtain v rest where v: "metric k = Inr v" "at_each metric ks = Inr rest" "d = (k, v) # rest"
    by (cases "at_each metric ks") (auto simp: res_simps)
  with Cons.IH show ?case by auto
qed

lemma at_each_total:
  "(\<exists>d. at_each metric ks = Inr d) \<longleftrightarrow> (\<forall>k \<in> set ks. \<exists>v. metric k = Inr v)"
proof (induction ks)
  case Nil
  then show ?case by simp
next
  case (Cons k ks)
  then show ?case by (cases "at_each metric ks"; cases "metric k") auto
qed

definition all_unit :: "(int \<times> 'a::linordered_field) list \<Rightarrow> bool" where
  "all_unit d \<longleftrightarrow> list_all (\<lambda>p. unit (snd p)) d"

lemma at_each_unit:
  "at_each metric ks = Inr d \<Longrightarrow> (\<And>k x. metric k = Inr x \<Longrightarrow> unit x) \<Longrightarrow> all_unit d"
  by (drule at_each_Inr) (fastforce simp: all_unit_def list_all_iff)

definition evaluation_in_unit :: "query_evaluation \<Rightarrow> bool" where
  "evaluation_in_unit q \<longleftrightarrow> all_unit (q_precision q) \<and> all_unit (q_recall q) \<and>
     all_unit (q_ndcg q) \<and> all_unit (q_hit q) \<and> unit (q_rr q) \<and> unit (q_ap q)"

lemma evaluate_query_Inr:
  assumes "evaluate_query query ranked grades ks threshold = Inr e"
  obtains p r n h where
    "at_each (\<lambda>k. precision_at_k (ordered_unique ranked) grades k threshold) (ordered_unique ks) = Inr p"
    "at_each (\<lambda>k. recall_at_k (ordered_unique ranked) grades k threshold) (ordered_unique ks) = Inr r"
    "at_each (\<lambda>k. ndcg_at_k (ordered_unique ranked) grades k) (ordered_unique ks) = Inr n"
    "at_each (\<lambda>k. hit_rate (ordered_unique ranked) grades k threshold) (ordered_unique ks) = Inr h"
    "e = \<lparr>query_id = query, retrieved = length (ordered_unique ranked),
          relevant_available = relevant_available_in grades threshold,
          q_precision = p, q_recall = r, q_ndcg = n, q_hit = h,
          q_rr = reciprocal_rank (ordered_unique ranked) grades threshold,
          q_ap = average_precision (ordered_unique ranked) grades threshold\<rparr>"
  using assms by (auto simp: evaluate_query_def Let_def res_simps)

text \<open>
  Every metric of an evaluated query lies in the unit interval, nDCG included,
  whatever ids the run returned, duplicates too, and whatever grades the judgements hold;
  the threshold of relevance must be at least one.
\<close>

theorem evaluation_is_normalised:
  assumes "evaluate_query query ranked grades ks threshold = Inr e" and "1 \<le> threshold"
  shows "evaluation_in_unit e"
proof -
  let ?d = "ordered_unique ranked"
  from assms(1) obtain p r n h where e:
    "at_each (\<lambda>k. precision_at_k ?d grades k threshold) (ordered_unique ks) = Inr p"
    "at_each (\<lambda>k. recall_at_k ?d grades k threshold) (ordered_unique ks) = Inr r"
    "at_each (\<lambda>k. ndcg_at_k ?d grades k) (ordered_unique ks) = Inr n"
    "at_each (\<lambda>k. hit_rate ?d grades k threshold) (ordered_unique ks) = Inr h"
    "q_precision e = p" "q_recall e = r" "q_ndcg e = n" "q_hit e = h"
    "q_rr e = reciprocal_rank ?d grades threshold" "q_ap e = average_precision ?d grades threshold"
    by (rule evaluate_query_Inr) simp
  have "all_unit p" using e(1) precision_unit by (rule at_each_unit)
  moreover have "all_unit r" using e(2) recall_unit [OF distinct_ordered_unique assms(2)]
    by (rule at_each_unit)
  moreover have "all_unit n" using e(3) ndcg_unit [OF distinct_ordered_unique] by (rule at_each_unit)
  moreover have "all_unit h" using e(4) hit_unit by (rule at_each_unit)
  moreover have "unit (q_rr e)" by (simp add: e(9) reciprocal_rank_def rr_from_unit)
  moreover have "unit (q_ap e)" using assms(2) by (simp add: e(10) average_precision_unit)
  ultimately show ?thesis by (simp add: evaluation_in_unit_def e(5-8))
qed

lemma metrics_total:
  "(\<exists>d. at_each (\<lambda>k. precision_at_k ds grades k threshold) ks = Inr d) \<longleftrightarrow> (\<forall>k \<in> set ks. 0 < k)"
  "(\<exists>d. at_each (\<lambda>k. recall_at_k ds grades k threshold) ks = Inr d) \<longleftrightarrow> (\<forall>k \<in> set ks. 0 < k)"
  "(\<exists>d. at_each (\<lambda>k. ndcg_at_k ds grades k) ks = Inr d) \<longleftrightarrow> (\<forall>k \<in> set ks. 0 < k)"
  "(\<exists>d. at_each (\<lambda>k. hit_rate ds grades k threshold) ks = Inr d) \<longleftrightarrow> (\<forall>k \<in> set ks. 0 < k)"
  by (auto simp: at_each_total precision_at_k_def recall_at_k_def ndcg_at_k_def hit_rate_def Let_def)

text \<open>Evaluating a query fails on a cutoff that is not positive, and on nothing else.\<close>

lemma evaluate_query_returns:
  "(\<exists>e. evaluate_query query ranked grades ks threshold = Inr e) \<longleftrightarrow> (\<forall>k \<in> set ks. 0 < k)"
proof
  assume "\<exists>e. evaluate_query query ranked grades ks threshold = Inr e"
  then obtain p where
    "at_each (\<lambda>k. precision_at_k (ordered_unique ranked) grades k threshold) (ordered_unique ks) = Inr p"
    by (auto elim: evaluate_query_Inr)
  then have "\<forall>k \<in> set (ordered_unique ks). 0 < k" using metrics_total(1) by blast
  then show "\<forall>k \<in> set ks. 0 < k" by simp
next
  assume "\<forall>k \<in> set ks. 0 < k"
  then have "\<forall>k \<in> set (ordered_unique ks). 0 < k" by simp
  note total = metrics_total [THEN iffD2, OF this, of "ordered_unique ranked" grades]
  obtain p r n h where
    "at_each (\<lambda>k. precision_at_k (ordered_unique ranked) grades k threshold) (ordered_unique ks) = Inr p"
    "at_each (\<lambda>k. recall_at_k (ordered_unique ranked) grades k threshold) (ordered_unique ks) = Inr r"
    "at_each (\<lambda>k. ndcg_at_k (ordered_unique ranked) grades k) (ordered_unique ks) = Inr n"
    "at_each (\<lambda>k. hit_rate (ordered_unique ranked) grades k threshold) (ordered_unique ks) = Inr h"
    using total(1) [of threshold] total(2) [of threshold] total(3) total(4) [of threshold] by blast
  then show "\<exists>e. evaluate_query query ranked grades ks threshold = Inr e"
    by (simp add: evaluate_query_def Let_def)
qed

section \<open>One run\<close>

lemma mean_total:
  assumes "\<forall>q \<in> set qs. k \<in> set (map fst (field q))"
  shows "fold_res (\<lambda>acc q. map_sum id (\<lambda>v. acc + v) (lookup_key (field q) k)) acc qs =
    Inr (acc + (\<Sum>q \<leftarrow> qs. the (map_of (field q) k)))"
  using assms
proof (induction qs arbitrary: acc)
  case Nil
  then show ?case by simp
next
  case (Cons q qs)
  then obtain v where "map_of (field q) k = Some v"
    by (metis (no_types) list.set_intros(1) list.set_map map_of_eq_None_iff not_None_eq)
  with Cons show ?case by (simp add: lookup_key_def add.assoc)
qed

lemma sum_unit: "list_all unit xs \<Longrightarrow> unit (sum_list xs / of_nat (length xs)) \<or> xs = []"
proof -
  assume u: "list_all unit xs"
  have "0 \<le> sum_list xs \<and> sum_list xs \<le> of_nat (length xs)"
    using u by (induction xs) (auto simp: unit_def)
  then show ?thesis by (cases "xs = []") (auto intro: unit_ratio)
qed

lemma mean_unit:
  assumes "qs \<noteq> []" and "\<forall>q \<in> set qs. all_unit (field q)" and "\<forall>q \<in> set qs. k \<in> set (map fst (field q))"
    and "mean_over field qs k = Inr x"
  shows "unit x"
proof -
  let ?vs = "map (\<lambda>q. the (map_of (field q) k)) qs"
  have "unit (the (map_of (field q) k))" if q: "q \<in> set qs" for q
  proof -
    from assms(3) q obtain v where v: "map_of (field q) k = Some v"
      by (metis (no_types) list.set_map map_of_eq_None_iff not_None_eq)
    then have "(k, v) \<in> set (field q)" by (rule map_of_SomeD)
    with assms(2) q v show ?thesis by (fastforce simp: all_unit_def list_all_iff)
  qed
  then have "list_all unit ?vs" by (auto simp: list_all_iff)
  from sum_unit [OF this] assms(1) have "unit (sum_list ?vs / of_nat (length qs))" by auto
  moreover have "x = sum_list ?vs / of_nat (length qs)"
    using assms(3,4) mean_total [of qs k field 0] by (simp add: mean_over_def)
  ultimately show ?thesis by simp
qed

text \<open>The queries of a run that \<open>evaluate_run\<close> reports as failed found nothing relevant.\<close>

lemma run_reports_failures:
  "evaluate_run qs = Inr s \<Longrightarrow> failed_query_ids s = map query_id (filter found_nothing qs)"
  by (auto simp: evaluate_run_def Let_def res_simps split: if_splits)

section \<open>Grades above the scale\<close>

text \<open>
  A grade above the scale makes the ideal ranking imperfect: the ranking that returns
  exactly the one relevant document scores 7/15 at one, because the gain of the run is
  clamped to \<open>MAX_GRADE\<close> and the ideal gain is not.
\<close>

theorem perfect_ranking_below_one:
  "ndcg_at_k [''a''] [(''a'', MAX_GRADE + 1)] 1 = Inr (7 / 15)"
  by (simp add: ndcg_at_k_def dcg_def ideal_grades_def gain_def relevance_def MAX_GRADE_def)

section \<open>Witness\<close>

definition judged :: grade_table where
  "judged = [(''a'', 3), (''b'', 1), (''c'', 0)]"

theorem evaluation_is_normalised_witness:
  "\<exists>e. evaluate_query ''q'' [''b'', ''x'', ''b'', ''a''] judged [1, 3] 1 = Inr e \<and>
     evaluation_in_unit e"
proof -
  have "\<exists>e. evaluate_query ''q'' [''b'', ''x'', ''b'', ''a''] judged [1, 3] 1 = Inr e"
    by (simp add: evaluate_query_returns)
  then obtain e where e: "evaluate_query ''q'' [''b'', ''x'', ''b'', ''a''] judged [1, 3] 1 = Inr e" ..
  from evaluation_is_normalised [OF this] e show ?thesis by simp
qed

end
