(* ===== verification/Hybrid.thy ===== *)
theory Hybrid
  imports Fusion_Laws
begin

text \<open>
  \<open>retrieval/hybrid.py\<close>: the pipeline of a hybrid query. The backends, the resolver, the
  reranker and the graph expander are protocols of the source, so they are functions of
  the environment here, \<open>None\<close> for a call that raises. The backends are asked
  concurrently; their answers are gathered in the order of the configuration. Latencies
  are not modelled.
\<close>

section \<open>Requests, collaborators, results\<close>

record request =
  seed_entity_ids :: "string list"
  k_keyword :: nat
  k_vector :: nat
  k_graph :: nat
  rerank :: bool
  rerank_depth :: nat
  k_final :: nat
  pool_max :: nat
  wanted :: "backend set"

definition with_backends :: "request \<Rightarrow> backend set \<Rightarrow> request" where
  "with_backends req bs = req\<lparr>wanted := bs\<rparr>"

record retriever =
  backends :: "backend list"
  weights :: "backend \<Rightarrow> pyfloat option"
  rrf_k :: int
  simhash_of :: "(passage \<Rightarrow> nat option) option"

definition new_retriever ::
  "backend list \<Rightarrow> (backend \<Rightarrow> pyfloat option) option \<Rightarrow> int \<Rightarrow> (passage \<Rightarrow> nat option) option
     \<Rightarrow> py_error + retriever" where
  "new_retriever bs table k simhash =
     (if distinct bs
      then Inr \<lparr>backends = bs,
             weights = (case table of None \<Rightarrow> DEFAULT_BACKEND_WEIGHTS | Some t \<Rightarrow> t),
             rrf_k = k, simhash_of = simhash\<rparr>
      else Inl ValueError)"

record 'f world =
  search :: "backend \<Rightarrow> nat \<Rightarrow> candidate list option"
  resolver :: "string list \<Rightarrow> py_error + (string \<Rightarrow> passage option)"
  reranker :: "(passage list \<Rightarrow> nat \<Rightarrow> passage list option) option"
  expand_query :: "string list option"
  facts_for :: "string set \<Rightarrow> 'f list option"
  has_expander :: bool

datatype failure = Backend_Failed backend | Expansion_Failed | Rerank_Failed | Facts_Failed

record 'f retrieval =
  passages :: "passage list"
  graph_facts :: "'f list"
  counts :: "(backend \<times> nat) list"
  failed :: "failure list"
  fused_pool_size :: nat
  after_dedupe :: nat
  reranked :: nat

definition degraded :: "'f retrieval \<Rightarrow> bool" where
  "degraded r \<longleftrightarrow> failed r \<noteq> []"

section \<open>The stages\<close>

definition limit_of :: "request \<Rightarrow> backend \<Rightarrow> nat" where
  "limit_of req b = (case b of KEYWORD \<Rightarrow> k_keyword req | VECTOR \<Rightarrow> k_vector req | GRAPH \<Rightarrow> k_graph req)"

definition selected :: "retriever \<Rightarrow> request \<Rightarrow> backend list" where
  "selected cfg req = filter (\<lambda>b. b \<in> wanted req) (backends cfg)"

definition answers :: "retriever \<Rightarrow> 'f world \<Rightarrow> request \<Rightarrow> (backend \<times> candidate list option) list" where
  "answers cfg env req = map (\<lambda>b. (b, search env b (limit_of req b))) (selected cfg req)"

definition fan_out ::
  "retriever \<Rightarrow> 'f world \<Rightarrow> request
     \<Rightarrow> (backend \<times> candidate list) list \<times> (backend \<times> nat) list \<times> failure list" where
  "fan_out cfg env req =
     (let as = answers cfg env req in
      (concat (map (\<lambda>(b, a). case a of None \<Rightarrow> [] | Some cs \<Rightarrow> [(b, cs)]) as),
       map (\<lambda>(b, a). (b, case a of None \<Rightarrow> 0 | Some cs \<Rightarrow> length cs)) as,
       concat (map (\<lambda>(b, a). case a of None \<Rightarrow> [Backend_Failed b] | Some _ \<Rightarrow> []) as)))"

definition resolve_fused ::
  "'f world \<Rightarrow> fused_candidate list \<Rightarrow> py_error + passage list" where
  "resolve_fused env fused =
     (if fused = [] then Inr []
      else map_sum id
        (\<lambda>table. concat (map (\<lambda>c. case table (fused_chunk c) of
             None \<Rightarrow> []
           | Some p \<Rightarrow> [p\<lparr>passage_score := fused_score c, passage_found_by := found_by c,
                         passage_ranks := fused_ranks c\<rparr>]) fused))
        (resolver env (map fused_chunk fused)))"

definition dedupe :: "retriever \<Rightarrow> passage list \<Rightarrow> passage list" where
  "dedupe cfg ps =
     (case simhash_of cfg of None \<Rightarrow> ps | Some h \<Rightarrow> collapse_near_duplicates ps h 3)"

definition rerank_passages ::
  "'f world \<Rightarrow> request \<Rightarrow> passage list \<Rightarrow> passage list \<times> failure list" where
  "rerank_passages env req ps =
     (case reranker env of
        None \<Rightarrow> (ps, [])
      | Some score \<Rightarrow>
          if \<not> rerank req \<or> ps = [] then (ps, [])
          else (case score (take (rerank_depth req) ps) (k_final req) of
                  None \<Rightarrow> (ps, [Rerank_Failed])
                | Some scored \<Rightarrow> (scored @ drop (rerank_depth req) ps, [])))"

definition facts :: "'f world \<Rightarrow> passage list \<Rightarrow> 'f list \<times> failure list" where
  "facts env ps =
     (if \<not> has_expander env \<or> ps = [] then ([], [])
      else case facts_for env (set (map passage_signal ps)) of
          None \<Rightarrow> ([], [Facts_Failed])
        | Some fs \<Rightarrow> (fs, []))"

definition expansion :: "'f world \<Rightarrow> request \<Rightarrow> failure list" where
  "expansion env req =
     (if has_expander env \<and> seed_entity_ids req \<noteq> []
      then case expand_query env of None \<Rightarrow> [Expansion_Failed] | Some _ \<Rightarrow> []
      else [])"

definition report ::
  "retriever \<Rightarrow> 'f world \<Rightarrow> request \<Rightarrow> fused_candidate list \<Rightarrow> passage list \<Rightarrow> 'f retrieval" where
  "report cfg env req fused resolved =
     (let deduped = dedupe cfg resolved;
          ranked = rerank_passages env req deduped;
          fs = facts env (fst ranked) in
      \<lparr>passages = take (k_final req) (fst ranked), graph_facts = fst fs,
       counts = fst (snd (fan_out cfg env req)),
       failed = expansion env req @ snd (snd (fan_out cfg env req)) @ snd ranked @ snd fs,
       fused_pool_size = length fused, after_dedupe = length deduped,
       reranked = (if reranker env \<noteq> None \<and> rerank req then length (fst ranked) else 0)\<rparr>)"

definition retrieve :: "retriever \<Rightarrow> 'f world \<Rightarrow> request \<Rightarrow> py_error + 'f retrieval" where
  "retrieve cfg env req =
     and_then (reciprocal_rank_fusion (fst (fan_out cfg env req)) (rrf_k cfg) (Some (weights cfg))
         (Some (pool_max req))) (\<lambda>fused.
       and_then (resolve_fused env fused) (\<lambda>resolved. Inr (report cfg env req fused resolved)))"

section \<open>Degradation\<close>

definition answering :: "retriever \<Rightarrow> 'f world \<Rightarrow> request \<Rightarrow> backend set" where
  "answering cfg env req =
     {b \<in> set (selected cfg req). search env b (limit_of req b) \<noteq> None}"

lemma selected_restricted:
  "selected cfg (with_backends req (answering cfg env req)) =
     filter (\<lambda>b. search env b (limit_of req b) \<noteq> None) (selected cfg req)"
  by (auto simp: selected_def with_backends_def answering_def intro: filter_cong)

lemma limit_of_restricted [simp]: "limit_of (with_backends req bs) b = limit_of req b"
  by (simp add: limit_of_def with_backends_def split: backend.splits)

lemma fan_out_restricted:
  "fst (fan_out cfg env (with_backends req (answering cfg env req))) = fst (fan_out cfg env req)"
proof -
  have "concat (map (\<lambda>(b, a). case a of None \<Rightarrow> [] | Some cs \<Rightarrow> [(b, cs)])
          (map (\<lambda>b. (b, search env b (limit_of req b)))
             (filter (\<lambda>b. search env b (limit_of req b) \<noteq> None) bs))) =
        concat (map (\<lambda>(b, a). case a of None \<Rightarrow> [] | Some cs \<Rightarrow> [(b, cs)])
          (map (\<lambda>b. (b, search env b (limit_of req b))) bs))" for bs
    by (induction bs) auto
  then show ?thesis by (simp add: fan_out_def answers_def selected_restricted Let_def)
qed

lemma retrieve_Inr:
  assumes "retrieve cfg env req = Inr r"
  obtains fused resolved where
    "reciprocal_rank_fusion (fst (fan_out cfg env req)) (rrf_k cfg) (Some (weights cfg))
       (Some (pool_max req)) = Inr fused"
    "resolve_fused env fused = Inr resolved" "r = report cfg env req fused resolved"
  using assms by (auto simp: retrieve_def res_simps)

lemma rerank_restricted [simp]: "rerank_passages env (with_backends req bs) ps = rerank_passages env req ps"
  by (simp add: rerank_passages_def with_backends_def split: option.splits)

lemma restricted_fields [simp]:
  "k_final (with_backends req bs) = k_final req" "pool_max (with_backends req bs) = pool_max req"
  by (simp_all add: with_backends_def)

text \<open>
  A failing backend costs its candidates and nothing else: when some of the selected
  backends fail, the query returns the passages and facts it returns when only the
  backends that answer are asked for.
\<close>

theorem failed_backend_only_loses_candidates:
  assumes "retrieve cfg env req = Inr r"
  shows "map_sum id (\<lambda>r'. (passages r', graph_facts r'))
      (retrieve cfg env (with_backends req (answering cfg env req))) =
    Inr (passages r, graph_facts r)"
proof -
  from assms obtain fused resolved where
    "reciprocal_rank_fusion (fst (fan_out cfg env req)) (rrf_k cfg) (Some (weights cfg))
       (Some (pool_max req)) = Inr fused"
    "resolve_fused env fused = Inr resolved" "r = report cfg env req fused resolved"
    by (rule retrieve_Inr)
  then show ?thesis by (simp add: retrieve_def fan_out_restricted report_def Let_def)
qed

text \<open>
  Every backend that failed is reported, so a query with a failed backend is marked
  as degraded, and no other backend is reported.
\<close>

theorem failed_backends_are_reported:
  assumes "retrieve cfg env req = Inr r"
  shows "Backend_Failed b \<in> set (failed r) \<longleftrightarrow>
    b \<in> set (selected cfg req) \<and> search env b (limit_of req b) = None"
proof -
  have "Backend_Failed b \<notin> set (expansion env req)"
    by (auto simp: expansion_def split: option.splits)
  moreover have "Backend_Failed b \<notin> set (snd (rerank_passages env req ps))" for ps
    by (auto simp: rerank_passages_def split: option.splits)
  moreover have "Backend_Failed b \<notin> set (snd (facts env ps))" for ps
    by (auto simp: facts_def split: option.splits)
  moreover have "Backend_Failed b \<in> set (snd (snd (fan_out cfg env req))) \<longleftrightarrow>
      b \<in> set (selected cfg req) \<and> search env b (limit_of req b) = None"
    by (auto simp: fan_out_def answers_def Let_def split: option.splits)
  moreover from assms obtain ps qs where "failed r = expansion env req @ snd (snd (fan_out cfg env req)) @
      snd (rerank_passages env req ps) @ snd (facts env qs)"
    by (rule retrieve_Inr) (simp add: report_def Let_def)
  ultimately show ?thesis by simp
qed

text \<open>
  The query raises only for a mislabelled candidate, a rank that cancels \<open>k\<close>, or a
  resolver that raises.
\<close>

lemma retrieve_returns:
  assumes "\<forall>b cs c. search env b (limit_of req b) = Some cs \<and> c \<in> set cs \<longrightarrow>
      cand_backend c = b \<and> rrf_k cfg + cand_rank c \<noteq> 0"
    and "\<forall>ids. \<exists>table. resolver env ids = Inr table"
  shows "\<exists>r. retrieve cfg env req = Inr r"
proof -
  let ?results = "fst (fan_out cfg env req)"
  have "(b, cs) \<in> set ?results \<Longrightarrow> search env b (limit_of req b) = Some cs" for b cs
    by (auto simp: fan_out_def answers_def Let_def split: option.splits)
  with assms(1) have "\<forall>h \<in> set (hits (chosen_weights (Some (weights cfg))) ?results). fair_hit (rrf_k cfg) h"
    by (fastforce simp: hits_def item_hits_def fair_hit_def split: if_splits)
  then obtain fused where f: "reciprocal_rank_fusion ?results (rrf_k cfg) (Some (weights cfg))
      (Some (pool_max req)) = Inr fused" using fusion_result by blast
  from assms(2) obtain table where "resolver env (map fused_chunk fused) = Inr table" by blast
  then obtain resolved where "resolve_fused env fused = Inr resolved"
    by (cases "fused = []") (simp_all add: resolve_fused_def)
  with f show ?thesis by (simp add: retrieve_def)
qed

section \<open>Two stages without the effect they are for\<close>

text \<open>
  What the graph expansion returns is never used: two worlds that differ only in the
  expanded names give the same result, although the expansion is the first step of the
  pipeline and is there to widen the lexical match.
\<close>

theorem expansion_has_no_effect:
  "retrieve cfg (env\<lparr>expand_query := Some names\<rparr>) req =
     retrieve cfg (env\<lparr>expand_query := Some names'\<rparr>) req"
proof -
  have same: "fan_out cfg (env\<lparr>expand_query := e\<rparr>) req = fan_out cfg env req"
    "resolve_fused (env\<lparr>expand_query := e\<rparr>) fused = resolve_fused env fused"
    "rerank_passages (env\<lparr>expand_query := e\<rparr>) req ps = rerank_passages env req ps"
    "facts (env\<lparr>expand_query := e\<rparr>) ps = facts env ps" for e fused ps
    by (simp_all add: fan_out_def answers_def resolve_fused_def rerank_passages_def facts_def)
  have "expansion (env\<lparr>expand_query := Some names\<rparr>) req =
      expansion (env\<lparr>expand_query := Some names'\<rparr>) req"
    by (simp add: expansion_def)
  with same show ?thesis by (simp add: retrieve_def report_def)
qed

text \<open>
  After a reranker that raised, the diagnostics still count every passage as reranked.
\<close>

lemma failed_rerank_still_counted:
  assumes "retrieve cfg env req = Inr r" and "Rerank_Failed \<in> set (failed r)"
  shows "reranked r = after_dedupe r"
proof -
  have no: "Rerank_Failed \<notin> set (expansion env req)"
    "Rerank_Failed \<notin> set (snd (snd (fan_out cfg env req)))"
    "Rerank_Failed \<notin> set (snd (facts env ps))" for ps
    by (auto simp: expansion_def fan_out_def answers_def facts_def Let_def split: option.splits)
  have rr: "Rerank_Failed \<in> set (snd (rerank_passages env req ps)) \<Longrightarrow>
      fst (rerank_passages env req ps) = ps \<and> reranker env \<noteq> None \<and> rerank req" for ps
    by (auto simp: rerank_passages_def split: option.splits if_splits)
  from assms(1) obtain fused resolved where r: "r = report cfg env req fused resolved"
    by (rule retrieve_Inr)
  with assms(2) no have "Rerank_Failed \<in> set (snd (rerank_passages env req (dedupe cfg resolved)))"
    by (auto simp: report_def Let_def)
  from rr [OF this] show ?thesis by (simp add: r report_def Let_def)
qed

lemma retrieve_length: "retrieve cfg env req = Inr r \<Longrightarrow> length (passages r) \<le> k_final req"
  by (erule retrieve_Inr) (simp add: report_def Let_def)

section \<open>Witnesses\<close>

definition found_at :: "backend \<Rightarrow> string \<Rightarrow> int \<Rightarrow> candidate" where
  "found_at b i r = \<lparr>chunk_id = i, cand_backend = b, cand_rank = r, raw_score = 1, signal_id = ''s''\<rparr>"

definition plain_passage :: "string \<Rightarrow> passage" where
  "plain_passage i = \<lparr>passage_chunk = i, passage_signal = ''s'', duplicate_of_count = 0,
     collapsed_signal_ids = [], passage_found_by = [], passage_score = 0,
     passage_ranks = (\<lambda>_. None)\<rparr>"

definition vector_down :: "string world" where
  "vector_down = \<lparr>search = (\<lambda>b n. case b of KEYWORD \<Rightarrow> Some [found_at KEYWORD ''s:0'' 1]
       | VECTOR \<Rightarrow> None | GRAPH \<Rightarrow> Some []),
     resolver = (\<lambda>ids. Inr (\<lambda>i. Some (plain_passage i))), reranker = None,
     expand_query = None, facts_for = (\<lambda>_. None), has_expander = False\<rparr>"

definition plain_retriever :: retriever where
  "plain_retriever = \<lparr>backends = [KEYWORD, VECTOR, GRAPH], weights = DEFAULT_BACKEND_WEIGHTS,
     rrf_k = DEFAULT_RRF_K, simhash_of = None\<rparr>"

definition plain_request :: request where
  "plain_request = \<lparr>seed_entity_ids = [], k_keyword = 100, k_vector = 100, k_graph = 50,
     rerank = True, rerank_depth = 50, k_final = 12, pool_max = 150,
     wanted = {KEYWORD, VECTOR, GRAPH}\<rparr>"

lemma plain_run: "\<exists>r. retrieve plain_retriever vector_down plain_request = Inr r"
  by (rule retrieve_returns)
    (auto simp: vector_down_def found_at_def plain_retriever_def DEFAULT_RRF_K_def
       split: backend.splits)

theorem failed_backends_are_reported_witness:
  "\<exists>r. retrieve plain_retriever vector_down plain_request = Inr r \<and>
     Backend_Failed VECTOR \<in> set (failed r) \<and> Backend_Failed KEYWORD \<notin> set (failed r)"
proof -
  from plain_run obtain r where r: "retrieve plain_retriever vector_down plain_request = Inr r" ..
  have "VECTOR \<in> set (selected plain_retriever plain_request)"
    by (simp add: selected_def plain_retriever_def plain_request_def)
  with r failed_backends_are_reported [OF r] show ?thesis
    by (auto simp: vector_down_def)
qed

theorem failed_backend_only_loses_candidates_witness:
  "\<exists>r :: string retrieval. map_sum id (\<lambda>r'. (passages r', graph_facts r'))
      (retrieve plain_retriever vector_down
         (with_backends plain_request (answering plain_retriever vector_down plain_request))) =
    Inr (passages r, graph_facts r) \<and> length (passages r) \<le> 12"
proof -
  from plain_run obtain r where r: "retrieve plain_retriever vector_down plain_request = Inr r" ..
  from retrieve_length [OF r] have "length (passages r) \<le> 12" by (simp add: plain_request_def)
  with failed_backend_only_loses_candidates [OF r] show ?thesis
    by (intro exI [of _ r] conjI)
qed

end
