(* ===== verification/Union_Find.thy ===== *)
theory Union_Find
  imports Prelude
begin

text \<open>
  The disjoint sets of \<open>graph/resolution/entity_resolution.py\<close>, \<open>_UnionFind\<close>: union by size
  with path compression, over any ordered keys. The two dictionaries are functions, with
  the keys in the order of insertion. \<open>find\<close> is a loop that follows parents; it has fuel
  for the number of keys and \<open>None\<close> stands for a key that is missing or a loop that does
  not end, which the invariant rules out. The structure refines a partition: the interface
  \<open>partition\<close> says what uniting two elements does to the classes, and its client lemma is
  that the classes after any sequence of unions are the connected components.
\<close>

section \<open>The code\<close>

record 'k union_find =
  uf_ids :: "'k list"
  parent :: "'k \<Rightarrow> 'k option"
  set_size :: "'k \<Rightarrow> nat"

definition new_union_find :: "'k list \<Rightarrow> 'k union_find" where
  "new_union_find ids =
     \<lparr>uf_ids = ordered_unique ids, parent = (\<lambda>x. if x \<in> set ids then Some x else None),
      set_size = (\<lambda>_. 1)\<rparr>"

fun root_of :: "nat \<Rightarrow> ('k \<Rightarrow> 'k option) \<Rightarrow> 'k \<Rightarrow> 'k option" where
  "root_of 0 par x = None"
| "root_of (Suc n) par x =
     (case par x of None \<Rightarrow> None | Some p \<Rightarrow> if p = x then Some x else root_of n par p)"

fun compress :: "nat \<Rightarrow> 'k \<Rightarrow> ('k \<Rightarrow> 'k option) \<Rightarrow> 'k \<Rightarrow> ('k \<Rightarrow> 'k option)" where
  "compress 0 r par x = par"
| "compress (Suc n) r par x =
     (case par x of
        None \<Rightarrow> par
      | Some p \<Rightarrow> if p = r then par else compress n r (par(x \<mapsto> r)) p)"

definition find_root :: "'k union_find \<Rightarrow> 'k \<Rightarrow> ('k \<times> 'k union_find) option" where
  "find_root uf x =
     (case root_of (length (uf_ids uf)) (parent uf) x of
        None \<Rightarrow> None
      | Some r \<Rightarrow> Some (r, uf\<lparr>parent := compress (length (uf_ids uf)) r (parent uf) x\<rparr>))"

definition link :: "'k::linorder \<Rightarrow> 'k \<Rightarrow> 'k union_find \<Rightarrow> 'k union_find" where
  "link l r uf =
     (let swap = set_size uf l < set_size uf r \<or> set_size uf l = set_size uf r \<and> r < l;
          top = (if swap then r else l); below = (if swap then l else r) in
      uf\<lparr>parent := (parent uf)(below \<mapsto> top),
         set_size := (set_size uf)(top := set_size uf top + set_size uf below)\<rparr>)"

definition union :: "'k::linorder union_find \<Rightarrow> 'k \<times> 'k \<Rightarrow> 'k union_find option" where
  "union uf p =
     (case find_root uf (fst p) of
        None \<Rightarrow> None
      | Some (l, uf) \<Rightarrow>
          (case find_root uf (snd p) of
             None \<Rightarrow> None
           | Some (r, uf) \<Rightarrow> Some (if l = r then uf else link l r uf)))"

fun union_all :: "'k::linorder union_find \<Rightarrow> ('k \<times> 'k) list \<Rightarrow> 'k union_find option" where
  "union_all uf [] = Some uf"
| "union_all uf (p # ps) = (case union uf p of None \<Rightarrow> None | Some uf \<Rightarrow> union_all uf ps)"

text \<open>\<open>grouped.setdefault(root, []).append(x)\<close>.\<close>

fun add_member :: "'k \<Rightarrow> 'v \<Rightarrow> ('k \<times> 'v list) list \<Rightarrow> ('k \<times> 'v list) list" where
  "add_member r x [] = [(r, [x])]"
| "add_member r x ((q, xs) # groups) =
     (if q = r then (q, xs @ [x]) # groups else (q, xs) # add_member r x groups)"

fun group_by_root ::
  "'k union_find \<Rightarrow> ('k \<times> 'k list) list \<Rightarrow> 'k list \<Rightarrow> ('k \<times> 'k list) list option" where
  "group_by_root uf groups [] = Some groups"
| "group_by_root uf groups (x # xs) =
     (case find_root uf x of
        None \<Rightarrow> None
      | Some (r, uf) \<Rightarrow> group_by_root uf (add_member r x groups) xs)"

definition components :: "'k::linorder union_find \<Rightarrow> 'k list list option" where
  "components uf = map_option (\<lambda>groups. sort (map (\<lambda>g. sort (snd g)) groups))
     (group_by_root uf [] (uf_ids uf))"

section \<open>Following parents\<close>

inductive leads :: "('k \<Rightarrow> 'k option) \<Rightarrow> 'k \<Rightarrow> 'k \<Rightarrow> nat \<Rightarrow> bool" for par where
  here: "par r = Some r \<Longrightarrow> leads par r r 0"
| up: "par x = Some p \<Longrightarrow> p \<noteq> x \<Longrightarrow> leads par p r n \<Longrightarrow> leads par x r (Suc n)"

inductive_cases leads_zeroE: "leads par x r 0"
inductive_cases leads_sucE: "leads par x r (Suc n)"

definition roots :: "('k \<Rightarrow> 'k option) \<Rightarrow> 'k \<Rightarrow> 'k \<Rightarrow> bool" where
  "roots par x r \<longleftrightarrow> (\<exists>n. leads par x r n)"

lemma leads_root: "par x = Some x \<Longrightarrow> leads par x s m \<Longrightarrow> s = x \<and> m = 0"
  by (erule leads.cases) simp_all

lemma leads_parent:
  "par x = Some p \<Longrightarrow> p \<noteq> x \<Longrightarrow> leads par x s m \<Longrightarrow> \<exists>k. m = Suc k \<and> leads par p s k"
  by (erule leads.cases) auto

lemma leads_det: "leads par x r n \<Longrightarrow> leads par x s m \<Longrightarrow> r = s \<and> n = m"
proof (induction arbitrary: s m rule: leads.induct)
  case (here r)
  from leads_root [OF here] show ?case by simp
next
  case (up x p r n)
  from leads_parent [OF up.hyps(1,2) up.prems] obtain k where "m = Suc k" "leads par p s k" by blast
  with up.IH show ?case by blast
qed

lemma roots_parent: "par x = Some p \<Longrightarrow> p \<noteq> x \<Longrightarrow> roots par p r \<Longrightarrow> roots par x r"
  unfolding roots_def by (blast intro: leads.up)

lemma roots_det: "roots par x r \<Longrightarrow> roots par x s \<Longrightarrow> r = s"
  unfolding roots_def using leads_det by metis

lemma leads_end: "leads par x r n \<Longrightarrow> par r = Some r"
  by (induction rule: leads.induct) simp_all

lemma roots_end: "roots par x r \<Longrightarrow> par r = Some r"
  by (auto simp: roots_def dest: leads_end)

lemma roots_self: "par r = Some r \<Longrightarrow> roots par r r"
  by (auto simp: roots_def intro: leads.here)

lemma leads_dom: "leads par x r n \<Longrightarrow> x \<in> dom par"
  by (cases rule: leads.cases) auto

lemma leads_path:
  "leads par x r n \<Longrightarrow> \<exists>S. S \<subseteq> dom par \<and> finite S \<and> card S = Suc n \<and>
     (\<forall>y \<in> S. \<exists>m \<le> n. leads par y r m)"
proof (induction rule: leads.induct)
  case (here r)
  then show ?case by (intro exI [of _ "{r}"]) (auto intro: leads.here)
next
  case (up x p r n)
  then obtain S where S: "S \<subseteq> dom par" "finite S" "card S = Suc n" "\<forall>y \<in> S. \<exists>m \<le> n. leads par y r m"
    by blast
  have x: "leads par x r (Suc n)" using up.hyps by (rule leads.up)
  have "x \<notin> S"
  proof
    assume "x \<in> S"
    with S(4) obtain m where "m \<le> n" "leads par x r m" by blast
    with leads_det [OF x] have "Suc n = m" by blast
    with \<open>m \<le> n\<close> show False by simp
  qed
  moreover have "\<forall>y \<in> insert x S. \<exists>m \<le> Suc n. leads par y r m"
    using S(4) x by (blast intro: le_SucI)
  moreover have "insert x S \<subseteq> dom par" using S(1) up.hyps(1) by blast
  ultimately show ?case
    using S(2,3) by (intro exI [of _ "insert x S"]) simp
qed

lemma leads_short:
  assumes "leads par x r n" and "finite (dom par)"
  shows "n < card (dom par)"
proof -
  from leads_path [OF assms(1)] obtain S where "S \<subseteq> dom par" "card S = Suc n" by blast
  with card_mono [OF assms(2), of S] show ?thesis by simp
qed

lemma root_of_leads: "leads par x r n \<Longrightarrow> n < fuel \<Longrightarrow> root_of fuel par x = Some r"
proof (induction arbitrary: fuel rule: leads.induct)
  case (here r)
  then show ?case by (cases fuel) auto
next
  case (up x p r n)
  then show ?case by (cases fuel) auto
qed

lemma leads_root_of: "root_of fuel par x = Some r \<Longrightarrow> roots par x r"
proof (induction fuel par x rule: root_of.induct)
  case (1 par x)
  then show ?case by simp
next
  case (2 n par x)
  then obtain p where p: "par x = Some p" by (cases "par x") auto
  show ?case
  proof (cases "p = x")
    case True
    with 2 p show ?thesis by (simp add: roots_self)
  next
    case False
    with 2 p have "roots par p r" by simp
    with p False show ?thesis by (rule roots_parent)
  qed
qed

section \<open>Compression keeps the roots\<close>

lemma roots_shortcut:
  assumes "roots par x r" and "x \<noteq> r"
  shows "roots (par(x \<mapsto> r)) = roots par"
proof -
  let ?par = "par(x \<mapsto> r)"
  have r: "par r = Some r" using assms(1) by (rule roots_end)
  have xx: "par x \<noteq> Some x"
    using assms roots_det roots_self by fastforce
  have fwd: "roots ?par y s" if "leads par y s m" for y s m
    using that
  proof (induction rule: leads.induct)
    case (here s)
    then have "s \<noteq> x" using xx by auto
    with here show ?case by (intro roots_self) simp
  next
    case (up y p s n)
    show ?case
    proof (cases "y = x")
      case True
      have "leads par x s (Suc n)" using up.hyps True by (blast intro: leads.up)
      then have "s = r" using assms(1) roots_det unfolding roots_def by metis
      moreover have "roots ?par r r" using r assms(2) by (intro roots_self) simp
      then have "roots ?par x r" using assms(2) by (intro roots_parent [of ?par x r]) simp_all
      ultimately show ?thesis using True by blast
    next
      case False
      with up.hyps have "?par y = Some p" by simp
      then show ?thesis using up.hyps(2) up.IH by (rule roots_parent)
    qed
  qed
  have bwd: "roots par y s" if "leads ?par y s m" for y s m
    using that
  proof (induction rule: leads.induct)
    case (here s)
    then have "s \<noteq> x" using assms(2) by auto
    with here show ?case by (intro roots_self) simp
  next
    case (up y p s n)
    show ?case
    proof (cases "y = x")
      case True
      with up.hyps have "p = r" by simp
      with up.IH r have "s = r" using roots_det roots_self by metis
      with assms(1) True show ?thesis by simp
    next
      case False
      with up.hyps have "par y = Some p" by simp
      then show ?thesis using up.hyps(2) up.IH by (rule roots_parent)
    qed
  qed
  show ?thesis
    by (intro ext iffI) (use fwd bwd in \<open>unfold roots_def, blast+\<close>)
qed

lemma compress_roots:
  "roots par x r \<Longrightarrow> roots (compress fuel r par x) = roots par \<and> dom (compress fuel r par x) = dom par"
proof (induction fuel r par x rule: compress.induct)
  case (1 r par x)
  then show ?case by simp
next
  case (2 n r par x)
  show ?case
  proof (cases "par x")
    case None
    then show ?thesis by simp
  next
    case (Some p)
    show ?thesis
    proof (cases "p = r")
      case True
      with Some show ?thesis by simp
    next
      case False
      have "x \<noteq> r" using 2(2) False Some roots_end by fastforce
      with 2(2) have same: "roots (par(x \<mapsto> r)) = roots par" by (rule roots_shortcut)
      from 2(2) obtain m where "leads par x r m" by (auto simp: roots_def)
      moreover have "p \<noteq> x" using calculation Some \<open>x \<noteq> r\<close> leads_root by metis
      ultimately have "roots par p r" using Some leads_parent unfolding roots_def by metis
      with same have "roots (par(x \<mapsto> r)) p r" by simp
      moreover have "roots (par(x \<mapsto> r)) p r \<Longrightarrow>
          roots (compress n r (par(x \<mapsto> r)) p) = roots (par(x \<mapsto> r)) \<and>
          dom (compress n r (par(x \<mapsto> r)) p) = dom (par(x \<mapsto> r))"
        using 2(1) [OF Some False] by (simp only: fun_upd_def)
      ultimately have
        "roots (compress n r (par(x \<mapsto> r)) p) = roots par"
        "dom (compress n r (par(x \<mapsto> r)) p) = dom par" using same Some by auto
      moreover have "compress (Suc n) r par x = compress n r (par(x \<mapsto> r)) p"
        using Some False by simp
      ultimately show ?thesis by (simp only:)
    qed
  qed
qed

section \<open>The invariant and the operations\<close>

definition uf_inv :: "'k union_find \<Rightarrow> bool" where
  "uf_inv uf \<longleftrightarrow> distinct (uf_ids uf) \<and> dom (parent uf) = set (uf_ids uf) \<and>
     (\<forall>x \<in> set (uf_ids uf). \<exists>r. roots (parent uf) x r)"

definition same_set :: "'k union_find \<Rightarrow> 'k \<Rightarrow> 'k \<Rightarrow> bool" where
  "same_set uf x y \<longleftrightarrow> (\<exists>r. roots (parent uf) x r \<and> roots (parent uf) y r)"

lemma roots_member: "uf_inv uf \<Longrightarrow> roots (parent uf) x r \<Longrightarrow> x \<in> set (uf_ids uf)"
  unfolding uf_inv_def roots_def using leads_dom by fast

lemma roots_root_member: "uf_inv uf \<Longrightarrow> roots (parent uf) x r \<Longrightarrow> r \<in> set (uf_ids uf)"
  using roots_end roots_self roots_member by metis

lemma find_root_ok:
  assumes "uf_inv uf" and "x \<in> set (uf_ids uf)"
  shows "\<exists>r uf'. find_root uf x = Some (r, uf') \<and> roots (parent uf) x r \<and>
    roots (parent uf') = roots (parent uf) \<and> uf_ids uf' = uf_ids uf \<and>
    set_size uf' = set_size uf \<and> uf_inv uf'"
proof -
  from assms obtain r where r: "roots (parent uf) x r" by (auto simp: uf_inv_def)
  then obtain n where n: "leads (parent uf) x r n" by (auto simp: roots_def)
  have "n < card (dom (parent uf))"
    using n assms(1) by (intro leads_short) (simp_all add: uf_inv_def)
  then have "n < length (uf_ids uf)" using assms(1) by (simp add: uf_inv_def distinct_card)
  with n have "root_of (length (uf_ids uf)) (parent uf) x = Some r" by (rule root_of_leads)
  moreover from compress_roots [OF r] have
    "roots (compress (length (uf_ids uf)) r (parent uf) x) = roots (parent uf)"
    "dom (compress (length (uf_ids uf)) r (parent uf) x) = dom (parent uf)" by simp_all
  ultimately show ?thesis using r assms(1) by (simp add: find_root_def uf_inv_def)
qed

text \<open>\<open>find\<close> terminates with a key's representative, and no class changes.\<close>

lemma find_root_missing: "uf_inv uf \<Longrightarrow> x \<notin> set (uf_ids uf) \<Longrightarrow> find_root uf x = None"
proof -
  assume a: "uf_inv uf" "x \<notin> set (uf_ids uf)"
  have "root_of (length (uf_ids uf)) (parent uf) x = None"
  proof (cases "root_of (length (uf_ids uf)) (parent uf) x")
    case (Some r)
    with a roots_member [OF a(1) leads_root_of] show ?thesis by blast
  qed
  then show ?thesis by (simp add: find_root_def)
qed

lemma roots_link:
  assumes "par a = Some a" and "par b = Some b" and "a \<noteq> b"
  shows "roots (par(b \<mapsto> a)) x s \<longleftrightarrow> (roots par x b \<and> s = a) \<or> (roots par x s \<and> s \<noteq> b)"
proof -
  let ?par = "par(b \<mapsto> a)"
  have aa: "roots ?par a a" using assms by (intro roots_self) simp
  have ba: "roots ?par b a" using aa assms(3) by (intro roots_parent [of ?par b a]) simp_all
  have fwd: "(s = b \<longrightarrow> roots ?par x a) \<and> (s \<noteq> b \<longrightarrow> roots ?par x s)" if "leads par x s m" for x s m
    using that
  proof (induction rule: leads.induct)
    case (here s)
    then have "s \<noteq> b \<Longrightarrow> roots ?par s s" by (intro roots_self) simp
    with ba show ?case by blast
  next
    case (up x p s n)
    have "x \<noteq> b" using up.hyps assms(2) by auto
    then have "?par x = Some p" using up.hyps by simp
    with up.IH up.hyps(2) show ?case using roots_parent [of ?par x p] by blast
  qed
  have bwd: "(roots par x b \<and> s = a) \<or> (roots par x s \<and> s \<noteq> b)" if "leads ?par x s m" for x s m
    using that
  proof (induction rule: leads.induct)
    case (here s)
    then have "s \<noteq> b" using assms(3) by auto
    with here show ?case using roots_self [of par s] by simp
  next
    case (up x p s n)
    show ?case
    proof (cases "x = b")
      case True
      with up.hyps have "p = a" by simp
      with up.IH have "s = a"
        using roots_det [OF roots_self [of par a, OF assms(1)]] assms(3) by blast
      with True roots_self [of par b, OF assms(2)] show ?thesis by simp
    next
      case False
      with up.hyps have "par x = Some p" by simp
      with up.IH up.hyps(2) show ?thesis using roots_parent [of par x p] by blast
    qed
  qed
  have fwd': "roots par x b \<Longrightarrow> roots ?par x a" "roots par x s \<Longrightarrow> s \<noteq> b \<Longrightarrow> roots ?par x s" for s
    unfolding roots_def [of par] using fwd by blast+
  have bwd': "roots ?par x s \<Longrightarrow> (roots par x b \<and> s = a) \<or> (roots par x s \<and> s \<noteq> b)"
    unfolding roots_def [of ?par] using bwd by blast
  from fwd' bwd' show ?thesis by blast
qed

lemma link_ok:
  assumes "uf_inv uf" and "parent uf a = Some a" and "parent uf b = Some b" and "a \<noteq> b"
  shows "uf_inv (link a b uf) \<and> uf_ids (link a b uf) = uf_ids uf \<and>
    (\<forall>x y. same_set (link a b uf) x y \<longleftrightarrow> same_set uf x y \<or>
       (roots (parent uf) x a \<and> roots (parent uf) y b) \<or>
       (roots (parent uf) x b \<and> roots (parent uf) y a))"
proof -
  have "(parent (link a b uf) = (parent uf)(b \<mapsto> a) \<or> parent (link a b uf) = (parent uf)(a \<mapsto> b)) \<and>
      uf_ids (link a b uf) = uf_ids uf" by (simp add: link_def Let_def)
  then obtain top below where tb: "(top = a \<and> below = b) \<or> (top = b \<and> below = a)"
    "parent (link a b uf) = (parent uf)(below \<mapsto> top)" "uf_ids (link a b uf) = uf_ids uf"
    by blast
  then have t: "parent uf top = Some top" "parent uf below = Some below" "top \<noteq> below"
    using assms by auto
  note new = roots_link [OF t]
  have ids: "below \<in> set (uf_ids uf)" using assms(1) t(2) by (auto simp: uf_inv_def)
  have "\<exists>r. roots (parent (link a b uf)) x r" if x: "x \<in> set (uf_ids uf)" for x
  proof -
    from assms(1) x obtain r where "roots (parent uf) x r" by (auto simp: uf_inv_def)
    then have "roots (parent (link a b uf)) x (if r = below then top else r)"
      by (simp only: tb(2) new) auto
    then show ?thesis by blast
  qed
  then have inv: "uf_inv (link a b uf)"
    using assms(1) tb(2,3) ids by (auto simp: uf_inv_def)
  have "same_set (link a b uf) x y \<longleftrightarrow> same_set uf x y \<or>
       (roots (parent uf) x top \<and> roots (parent uf) y below) \<or>
       (roots (parent uf) x below \<and> roots (parent uf) y top)" for x y
    unfolding same_set_def tb(2) new using t(3) by blast
  with inv tb(1,3) show ?thesis by blast
qed

text \<open>Uniting two elements joins their two classes and leaves the others.\<close>

lemma union_ok:
  assumes "uf_inv uf" and "a \<in> set (uf_ids uf)" and "b \<in> set (uf_ids uf)"
  shows "\<exists>uf'. union uf (a, b) = Some uf' \<and> uf_inv uf' \<and> uf_ids uf' = uf_ids uf \<and>
    (\<forall>x y. same_set uf' x y \<longleftrightarrow> same_set uf x y \<or>
       (same_set uf x a \<and> same_set uf b y) \<or> (same_set uf x b \<and> same_set uf a y))"
proof -
  from find_root_ok [OF assms(1,2)] obtain ra uf1 where
    f1: "find_root uf a = Some (ra, uf1)" "roots (parent uf) a ra"
      "roots (parent uf1) = roots (parent uf)" "uf_ids uf1 = uf_ids uf" "uf_inv uf1" by blast
  have "b \<in> set (uf_ids uf1)" using assms(3) f1(4) by simp
  from find_root_ok [OF f1(5) this] obtain rb uf2 where
    f2: "find_root uf1 b = Some (rb, uf2)" "roots (parent uf1) b rb"
      "roots (parent uf2) = roots (parent uf1)" "uf_ids uf2 = uf_ids uf1" "uf_inv uf2" by blast
  have same: "roots (parent uf2) = roots (parent uf)" using f1 f2 by simp
  have b: "roots (parent uf) b rb" using f1 f2 by simp
  have cls: "same_set uf x a \<longleftrightarrow> roots (parent uf) x ra" "same_set uf b x \<longleftrightarrow> roots (parent uf) x rb"
    "same_set uf a x \<longleftrightarrow> roots (parent uf) x ra" "same_set uf x b \<longleftrightarrow> roots (parent uf) x rb" for x
    unfolding same_set_def using f1(2) b roots_det by metis+
  have old: "same_set uf2 = same_set uf" by (intro ext) (simp add: same_set_def same)
  show ?thesis
  proof (cases "ra = rb")
    case True
    then have "union uf (a, b) = Some uf2" by (simp add: union_def f1(1) f2(1))
    moreover have "same_set uf x y \<longleftrightarrow> same_set uf x y \<or> (same_set uf x a \<and> same_set uf b y) \<or>
        (same_set uf x b \<and> same_set uf a y)" for x y
      unfolding cls using True by (auto simp: same_set_def)
    ultimately show ?thesis using f1 f2 old by simp
  next
    case False
    then have u: "union uf (a, b) = Some (link ra rb uf2)" by (simp add: union_def f1(1) f2(1))
    have ra: "roots (parent uf2) a ra" and rb: "roots (parent uf2) b rb"
      using f1(2) b same by simp_all
    from link_ok [OF f2(5) roots_end [OF ra] roots_end [OF rb] False] have
      "uf_inv (link ra rb uf2)" "uf_ids (link ra rb uf2) = uf_ids uf2"
      "\<forall>x y. same_set (link ra rb uf2) x y \<longleftrightarrow> same_set uf x y \<or>
         (roots (parent uf) x ra \<and> roots (parent uf) y rb) \<or>
         (roots (parent uf) x rb \<and> roots (parent uf) y ra)"
      unfolding old same by simp_all
    with u f1(4) f2(4) show ?thesis by (simp add: cls)
  qed
qed

lemma new_union_find_ok:
  "uf_inv (new_union_find ids) \<and> uf_ids (new_union_find ids) = ordered_unique ids \<and>
   (\<forall>x y. same_set (new_union_find ids) x y \<longleftrightarrow> x = y \<and> x \<in> set ids)"
proof -
  let ?par = "\<lambda>x. if x \<in> set ids then Some x else None"
  have root: "roots ?par x r \<longleftrightarrow> x = r \<and> x \<in> set ids" for x r
  proof
    assume "roots ?par x r"
    then obtain n where "leads ?par x r n" by (auto simp: roots_def)
    then show "x = r \<and> x \<in> set ids" by (cases rule: leads.cases) (auto split: if_splits)
  next
    assume x: "x = r \<and> x \<in> set ids"
    then have "?par r = Some r" by auto
    then have "roots ?par r r" by (rule roots_self)
    with x show "roots ?par x r" by blast
  qed
  show ?thesis
    by (auto simp: uf_inv_def new_union_find_def same_set_def root split: if_splits)
qed

section \<open>The interface: a partition that classes can be joined in\<close>

locale partition =
  fixes ok :: "'s \<Rightarrow> bool"
    and elems :: "'s \<Rightarrow> 'k set"
    and same :: "'s \<Rightarrow> 'k \<Rightarrow> 'k \<Rightarrow> bool"
    and unite :: "'s \<Rightarrow> 'k \<times> 'k \<Rightarrow> 's option"
  assumes same_equiv: "ok s \<Longrightarrow> equiv (elems s) {(x, y). same s x y}"
    and unite_ok: "ok s \<Longrightarrow> a \<in> elems s \<Longrightarrow> b \<in> elems s \<Longrightarrow>
      \<exists>t. unite s (a, b) = Some t \<and> ok t \<and> elems t = elems s \<and>
        (\<forall>x y. same t x y \<longleftrightarrow> same s x y \<or> (same s x a \<and> same s b y) \<or> (same s x b \<and> same s a y))"
begin

abbreviation classes :: "'s \<Rightarrow> ('k \<times> 'k) set" where
  "classes s \<equiv> {(x, y). same s x y}"

primrec run :: "'s \<Rightarrow> ('k \<times> 'k) list \<Rightarrow> 's option" where
  "run s [] = Some s"
| "run s (p # ps) = (case unite s p of None \<Rightarrow> None | Some t \<Rightarrow> run t ps)"

lemma unite_closure:
  assumes "ok s" and "a \<in> elems s" and "b \<in> elems s" and "unite s (a, b) = Some t"
  shows "classes t = (classes s \<union> {(a, b), (b, a)})\<^sup>+"
proof -
  let ?R = "classes s \<union> {(a, b), (b, a)}"
  from unite_ok [OF assms(1-3)] assms(4) have t: "ok t"
    "\<And>x y. same t x y \<longleftrightarrow> same s x y \<or> (same s x a \<and> same s b y) \<or> (same s x b \<and> same s a y)"
    by auto
  from same_equiv [OF assms(1)] assms(2,3) have refl: "same s a a" "same s b b"
    by (auto simp: equiv_def refl_on_def)
  show ?thesis
  proof
    show "classes t \<subseteq> ?R\<^sup>+"
    proof (rule subrelI)
      fix x y assume "(x, y) \<in> classes t"
      with t(2) consider "(x, y) \<in> ?R" | "(x, a) \<in> ?R" "(a, b) \<in> ?R" "(b, y) \<in> ?R"
        | "(x, b) \<in> ?R" "(b, a) \<in> ?R" "(a, y) \<in> ?R" by auto
      then show "(x, y) \<in> ?R\<^sup>+" by cases (meson r_into_trancl trancl_trans)+
    qed
    have "trans (classes t)" using same_equiv [OF t(1)] by (simp add: equiv_def)
    moreover have "?R \<subseteq> classes t" using t(2) refl by auto
    ultimately show "?R\<^sup>+ \<subseteq> classes t" by (metis trancl_id trancl_mono_subset)
  qed
qed

lemma trancl_absorb: "((R\<^sup>+ \<union> S)\<^sup>+) = (R \<union> S)\<^sup>+"
proof
  have "R\<^sup>+ \<union> S \<subseteq> (R \<union> S)\<^sup>+"
    using trancl_mono_subset [of R "R \<union> S"] by auto
  then show "(R\<^sup>+ \<union> S)\<^sup>+ \<subseteq> (R \<union> S)\<^sup>+"
    by (metis trancl_id trancl_mono_subset trans_trancl)
  show "(R \<union> S)\<^sup>+ \<subseteq> (R\<^sup>+ \<union> S)\<^sup>+" by (rule trancl_mono_subset) auto
qed

text \<open>The classes after a sequence of unions: the closure of the old ones with the pairs.\<close>

lemma run_closure:
  "ok s \<Longrightarrow> set ps \<subseteq> elems s \<times> elems s \<Longrightarrow>
     \<exists>t. run s ps = Some t \<and> ok t \<and> elems t = elems s \<and>
       classes t = (classes s \<union> (set ps \<union> (set ps)\<inverse>))\<^sup>+"
proof (induction ps arbitrary: s)
  case Nil
  have "trans (classes s)" using same_equiv [OF Nil(1)] by (simp add: equiv_def)
  with Nil show ?case by (simp add: trancl_id)
next
  case (Cons p ps)
  obtain a b where p: "p = (a, b)" by (cases p)
  with Cons.prems have ab: "a \<in> elems s" "b \<in> elems s" by auto
  from unite_ok [OF Cons.prems(1) ab] obtain t where
    t: "unite s (a, b) = Some t" "ok t" "elems t = elems s" by blast
  from Cons.IH [OF t(2)] Cons.prems(2) t(3) obtain u where
    u: "run t ps = Some u" "ok u" "elems u = elems s"
      "classes u = (classes t \<union> (set ps \<union> (set ps)\<inverse>))\<^sup>+" by auto
  have "classes u = (classes s \<union> (set (p # ps) \<union> (set (p # ps))\<inverse>))\<^sup>+"
    unfolding u(4) unite_closure [OF Cons.prems(1) ab t(1)] trancl_absorb
    by (rule arg_cong [where f = trancl]) (auto simp: p)
  with u t show ?case by (simp add: p)
qed

end

lemma same_set_equiv: "uf_inv uf \<Longrightarrow> equiv (set (uf_ids uf)) {(x, y). same_set uf x y}"
proof (rule equivI)
  assume inv: "uf_inv uf"
  show "{(x, y). same_set uf x y} \<subseteq> set (uf_ids uf) \<times> set (uf_ids uf)"
    using roots_member [OF inv] by (auto simp: same_set_def)
  show "refl_on (set (uf_ids uf)) {(x, y). same_set uf x y}"
    using inv roots_member [OF inv] by (auto simp: refl_on_def same_set_def uf_inv_def)
  show "sym {(x, y). same_set uf x y}" by (auto simp: sym_def same_set_def)
  show "trans {(x, y). same_set uf x y}"
    unfolding trans_def same_set_def using roots_det by fast
qed

interpretation disjoint: partition uf_inv "\<lambda>uf. set (uf_ids uf)" same_set union
proof unfold_locales
  fix uf :: "'a::linorder union_find"
  assume "uf_inv uf"
  then show "equiv (set (uf_ids uf)) {(x, y). same_set uf x y}" by (rule same_set_equiv)
next
  fix uf :: "'a::linorder union_find" and a b
  assume "uf_inv uf" "a \<in> set (uf_ids uf)" "b \<in> set (uf_ids uf)"
  from union_ok [OF this] obtain t where
    "union uf (a, b) = Some t" "uf_inv t" "uf_ids t = uf_ids uf"
    "\<forall>x y. same_set t x y \<longleftrightarrow> same_set uf x y \<or>
       (same_set uf x a \<and> same_set uf b y) \<or> (same_set uf x b \<and> same_set uf a y)" by blast
  then show "\<exists>t. union uf (a, b) = Some t \<and> uf_inv t \<and> set (uf_ids t) = set (uf_ids uf) \<and>
      (\<forall>x y. same_set t x y \<longleftrightarrow> same_set uf x y \<or>
        (same_set uf x a \<and> same_set uf b y) \<or> (same_set uf x b \<and> same_set uf a y))"
    by (intro exI [of _ t]) simp
qed

lemma union_all_run: "union_all uf ps = disjoint.run uf ps"
  by (induction ps arbitrary: uf) (simp_all split: option.splits)

section \<open>Components\<close>

definition rep :: "'k union_find \<Rightarrow> 'k \<Rightarrow> 'k" where
  "rep uf x = (THE r. roots (parent uf) x r)"

lemma rep_eq: "roots (parent uf) x r \<Longrightarrow> rep uf x = r"
  unfolding rep_def using roots_det by (metis the_equality)

lemma rep_same:
  assumes "uf_inv uf" and "x \<in> set (uf_ids uf)" and "y \<in> set (uf_ids uf)"
  shows "rep uf x = rep uf y \<longleftrightarrow> same_set uf x y"
proof -
  from assms obtain r s where "roots (parent uf) x r" "roots (parent uf) y s"
    unfolding uf_inv_def by blast
  then show ?thesis unfolding same_set_def using rep_eq roots_det by metis
qed

lemma group_by_root_fold:
  "uf_inv uf \<Longrightarrow> set xs \<subseteq> set (uf_ids uf) \<Longrightarrow>
     group_by_root uf groups xs = Some (foldl (\<lambda>g x. add_member (rep uf x) x g) groups xs)"
proof (induction xs arbitrary: uf groups)
  case Nil
  then show ?case by simp
next
  case (Cons x xs)
  then have "x \<in> set (uf_ids uf)" by simp
  from find_root_ok [OF Cons.prems(1) this] obtain r uf' where
    f: "find_root uf x = Some (r, uf')" "roots (parent uf) x r"
      "roots (parent uf') = roots (parent uf)" "uf_ids uf' = uf_ids uf" "uf_inv uf'" by blast
  have "rep uf' = rep uf" by (rule ext) (simp add: rep_def f(3))
  with Cons f rep_eq [OF f(2)] show ?case by simp
qed

definition groups_inv :: "('v \<Rightarrow> 'k) \<Rightarrow> 'v list \<Rightarrow> ('k \<times> 'v list) list \<Rightarrow> bool" where
  "groups_inv f xs g \<longleftrightarrow> distinct (map fst g) \<and> mset (concat (map snd g)) = mset xs \<and>
     (\<forall>(r, ms) \<in> set g. ms \<noteq> [] \<and> (\<forall>x \<in> set ms. f x = r))"

lemma fst_add_member: "fst ` set (add_member r x g) = insert r (fst ` set g)"
  by (induction r x g rule: add_member.induct) auto

lemma distinct_add_member: "distinct (map fst g) \<Longrightarrow> distinct (map fst (add_member r x g))"
proof (induction r x g rule: add_member.induct)
  case (1 r x)
  then show ?case by simp
next
  case (2 r x q xs groups)
  have "set (map fst (add_member r x groups)) = insert r (fst ` set groups)"
    by (simp add: fst_add_member)
  with 2 show ?case by (cases "q = r") auto
qed

lemma mset_concat_sort: "mset (concat (sort xss)) = mset (concat xss)"
proof -
  have "mset (map mset (sort xss)) = mset (map mset xss)" by simp
  then have "sum_mset (mset (map mset (sort xss))) = sum_mset (mset (map mset xss))" by (rule arg_cong)
  then show ?thesis by (simp only: mset_concat sum_mset_sum_list)
qed

lemma mset_add_member:
  "mset (concat (map snd (add_member r x g))) = add_mset x (mset (concat (map snd g)))"
  by (induction r x g rule: add_member.induct) auto

lemma keys_add_member:
  "\<forall>(r, ms) \<in> set g. ms \<noteq> [] \<and> (\<forall>x \<in> set ms. f x = r) \<Longrightarrow>
     \<forall>(r, ms) \<in> set (add_member (f x) x g). ms \<noteq> [] \<and> (\<forall>x \<in> set ms. f x = r)"
  by (induction "f x" x g rule: add_member.induct) auto

lemma groups_inv_fold: "groups_inv f xs (foldl (\<lambda>g x. add_member (f x) x g) [] xs)"
proof (induction xs rule: rev_induct)
  case Nil
  then show ?case by (simp add: groups_inv_def)
next
  case (snoc x xs)
  let ?g = "foldl (\<lambda>g x. add_member (f x) x g) [] xs"
  from snoc have g: "distinct (map fst ?g)" "mset (concat (map snd ?g)) = mset xs"
    "\<forall>(r, ms) \<in> set ?g. ms \<noteq> [] \<and> (\<forall>x \<in> set ms. f x = r)"
    unfolding groups_inv_def by blast+
  from distinct_add_member [OF g(1)] keys_add_member [OF g(3)] g(2)
  show ?case unfolding groups_inv_def by (simp add: mset_add_member)
qed

definition is_partition_of :: "'k::linorder list list \<Rightarrow> 'k list \<Rightarrow> bool" where
  "is_partition_of cs ids \<longleftrightarrow> mset (concat cs) = mset ids \<and>
     list_all (\<lambda>c. c \<noteq> [] \<and> sorted c) cs \<and> sorted cs"

lemma in_concat_snd: "z \<in> set (concat (map snd g)) \<Longrightarrow> \<exists>p \<in> set g. z \<in> set (snd p)"
  by auto

lemma sort_nil_iff: "sort xs = [] \<longleftrightarrow> xs = []"
  by (metis length_0_conv length_sort)

lemma components_ok:
  assumes "uf_inv uf"
  shows "\<exists>cs. components uf = Some cs \<and> is_partition_of cs (uf_ids uf) \<and>
    (\<forall>x \<in> set (uf_ids uf). \<forall>y \<in> set (uf_ids uf).
       (\<exists>c \<in> set cs. x \<in> set c \<and> y \<in> set c) \<longleftrightarrow> same_set uf x y)"
proof -
  let ?g = "foldl (\<lambda>g x. add_member (rep uf x) x g) [] (uf_ids uf)"
  let ?cs = "sort (map (\<lambda>g. sort (snd g)) ?g)"
  have c: "components uf = Some ?cs" by (simp add: components_def group_by_root_fold [OF assms])
  have g: "distinct (map fst ?g)" "mset (concat (map snd ?g)) = mset (uf_ids uf)"
    "\<And>r ms. (r, ms) \<in> set ?g \<Longrightarrow> ms \<noteq> [] \<and> (\<forall>x \<in> set ms. rep uf x = r)"
    using groups_inv_fold [of "rep uf" "uf_ids uf"] by (auto simp: groups_inv_def)
  have "mset (concat ?cs) = mset (concat (map (\<lambda>g. sort (snd g)) ?g))"
    by (rule mset_concat_sort)
  also have "\<dots> = mset (concat (map snd ?g))" by (simp add: mset_concat comp_def)
  finally have part: "is_partition_of ?cs (uf_ids uf)"
    using g(2,3) by (auto simp: is_partition_of_def list_all_iff sort_nil_iff)
  have "(\<exists>c \<in> set ?cs. x \<in> set c \<and> y \<in> set c) \<longleftrightarrow> same_set uf x y"
    if xy: "x \<in> set (uf_ids uf)" "y \<in> set (uf_ids uf)" for x y
  proof
    assume "\<exists>c \<in> set ?cs. x \<in> set c \<and> y \<in> set c"
    then obtain r ms where m: "(r, ms) \<in> set ?g" "x \<in> set ms" "y \<in> set ms" by auto
    from g(3) [OF m(1)] m(2,3) have "rep uf x = rep uf y" by simp
    with rep_same [OF assms xy] show "same_set uf x y" by simp
  next
    assume "same_set uf x y"
    then have eq: "rep uf x = rep uf y" using rep_same [OF assms xy] by simp
    have "set (concat (map snd ?g)) = set (uf_ids uf)" using g(2) by (rule mset_eq_setD)
    then have "\<exists>p \<in> set ?g. z \<in> set (snd p)" if "z \<in> set (uf_ids uf)" for z
      using that by (intro in_concat_snd) (simp only:)
    with xy obtain p p' where m: "p \<in> set ?g" "x \<in> set (snd p)" "p' \<in> set ?g" "y \<in> set (snd p')"
      by blast
    from g(3) [of "fst p" "snd p"] g(3) [of "fst p'" "snd p'"] m eq have "fst p = fst p'" by simp
    moreover have "inj_on fst (set ?g)" using g(1) by (simp add: distinct_map)
    ultimately have "p = p'" using m(1,3) by (auto dest: inj_onD)
    moreover have "sort (snd p) \<in> set ?cs" using m(1) by auto
    ultimately show "\<exists>c \<in> set ?cs. x \<in> set c \<and> y \<in> set c"
      using m(2,4) by (intro bexI [of _ "sort (snd p)"]) simp_all
  qed
  with c part show ?thesis by blast
qed

definition connected :: "('k \<times> 'k) list \<Rightarrow> 'k \<Rightarrow> 'k \<Rightarrow> bool" where
  "connected pairs x y \<longleftrightarrow> (x, y) \<in> (set pairs \<union> (set pairs)\<inverse>)\<^sup>*"

definition provisional :: "'k::linorder list \<Rightarrow> ('k \<times> 'k) list \<Rightarrow> 'k list list option" where
  "provisional ids pairs =
     (case union_all (new_union_find ids) pairs of None \<Rightarrow> None | Some uf \<Rightarrow> components uf)"

lemma provisional_ok:
  assumes "distinct ids" and "set pairs \<subseteq> set ids \<times> set ids"
  shows "\<exists>cs. provisional ids pairs = Some cs \<and> is_partition_of cs ids \<and>
    (\<forall>x \<in> set ids. \<forall>y \<in> set ids. (\<exists>c \<in> set cs. x \<in> set c \<and> y \<in> set c) \<longleftrightarrow> connected pairs x y)"
proof -
  let ?s = "new_union_find ids"
  let ?E = "set pairs \<union> (set pairs)\<inverse>"
  from new_union_find_ok [of ids] have s: "uf_inv ?s" "uf_ids ?s = ids"
    "{(x, y). same_set ?s x y} = Id_on (set ids)"
    using ordered_unique_id [OF assms(1)] by auto
  have "set pairs \<subseteq> set (uf_ids ?s) \<times> set (uf_ids ?s)" using assms(2) s(2) by simp
  from disjoint.run_closure [OF s(1) this] obtain t where
    t: "union_all ?s pairs = Some t" "uf_inv t" "set (uf_ids t) = set ids"
      "{(x, y). same_set t x y} = (Id_on (set ids) \<union> ?E)\<^sup>+"
    unfolding union_all_run s(2,3) by blast
  have ids: "uf_ids t = ids"
  proof -
    have "uf_ids u = uf_ids v" if "uf_inv v" "union_all v ps = Some u" "set ps \<subseteq> set (uf_ids v) \<times> set (uf_ids v)"
      for u v :: "'a union_find" and ps
      using that
    proof (induction ps arbitrary: v)
      case Nil
      then show ?case by simp
    next
      case (Cons p ps)
      obtain a b where p: "p = (a, b)" by (cases p)
      with Cons.prems have "a \<in> set (uf_ids v)" "b \<in> set (uf_ids v)" by auto
      from union_ok [OF Cons.prems(1) this] obtain w where
        "union v (a, b) = Some w" "uf_inv w" "uf_ids w = uf_ids v" by blast
      with Cons.IH [of w] Cons.prems p show ?case by simp
    qed
    from this [OF s(1) t(1)] s(2) assms(2) show ?thesis by simp
  qed
  from components_ok [OF t(2)] obtain cs where
    cs: "components t = Some cs" "is_partition_of cs ids"
      "\<And>x y. x \<in> set ids \<Longrightarrow> y \<in> set ids \<Longrightarrow> (\<exists>c \<in> set cs. x \<in> set c \<and> y \<in> set c) \<longleftrightarrow> same_set t x y"
    unfolding ids by blast
  have "same_set t x y \<longleftrightarrow> connected pairs x y" if "x \<in> set ids" for x y
  proof
    assume "same_set t x y"
    then have "(x, y) \<in> (Id_on (set ids) \<union> ?E)\<^sup>+" using t(4) by auto
    then have "(x, y) \<in> (Id_on (set ids) \<union> ?E)\<^sup>*" by (rule trancl_into_rtrancl)
    moreover have "(Id_on (set ids) \<union> ?E)\<^sup>* \<subseteq> ?E\<^sup>*" by (rule rtrancl_subset_rtrancl) auto
    ultimately show "connected pairs x y" by (auto simp: connected_def)
  next
    assume "connected pairs x y"
    then have "(x, y) \<in> ?E\<^sup>*" by (simp add: connected_def)
    then have "x = y \<or> (x, y) \<in> ?E\<^sup>+" by (metis rtranclD)
    moreover have "?E\<^sup>+ \<subseteq> (Id_on (set ids) \<union> ?E)\<^sup>+" by (rule trancl_mono_subset) auto
    moreover have "x = y \<Longrightarrow> (x, y) \<in> (Id_on (set ids) \<union> ?E)\<^sup>+" using that by auto
    ultimately have "(x, y) \<in> (Id_on (set ids) \<union> ?E)\<^sup>+" by auto
    then show "same_set t x y" using t(4) by auto
  qed
  with cs t(1) show ?thesis by (auto simp: provisional_def)
qed

text \<open>
  C24. The provisional clustering is exactly the connected components: from any batch of
  ids and any accepted pairs between them, the unions and the grouping return; every id is
  in exactly one component, and two ids share a component if and only if a chain of
  accepted pairs leads from one to the other.
\<close>

theorem components_are_connected_components:
  assumes "distinct ids" and "set pairs \<subseteq> set ids \<times> set ids"
  shows "\<exists>cs. provisional ids pairs = Some cs \<and> is_partition_of cs ids \<and>
    (\<forall>x \<in> set ids. \<forall>y \<in> set ids. (\<exists>c \<in> set cs. x \<in> set c \<and> y \<in> set c) \<longleftrightarrow> connected pairs x y)"
  using assms by (rule provisional_ok)

theorem components_are_connected_components_witness:
  "\<exists>cs. provisional [''a'', ''b'', ''c''] [(''a'', ''b'')] = Some cs \<and>
     (\<exists>c \<in> set cs. ''a'' \<in> set c \<and> ''b'' \<in> set c) \<and> is_partition_of cs [''a'', ''b'', ''c'']"
proof -
  have "distinct [''a'', ''b'', ''c'']"
    "set [(''a'', ''b'')] \<subseteq> set [''a'', ''b'', ''c''] \<times> set [''a'', ''b'', ''c'']" by simp_all
  from components_are_connected_components [OF this] obtain cs where
    cs: "provisional [''a'', ''b'', ''c''] [(''a'', ''b'')] = Some cs"
      "is_partition_of cs [''a'', ''b'', ''c'']"
    and all: "\<forall>x \<in> set [''a'', ''b'', ''c'']. \<forall>y \<in> set [''a'', ''b'', ''c''].
      (\<exists>c \<in> set cs. x \<in> set c \<and> y \<in> set c) \<longleftrightarrow> connected [(''a'', ''b'')] x y" by blast
  have "connected [(''a'', ''b'')] ''a'' ''b''" by (auto simp: connected_def)
  moreover have "(\<exists>c \<in> set cs. ''a'' \<in> set c \<and> ''b'' \<in> set c) \<longleftrightarrow>
      connected [(''a'', ''b'')] ''a'' ''b''"
    by (rule all [THEN bspec, THEN bspec]) simp_all
  ultimately show ?thesis using cs by blast
qed

end
