(* ===== verification/Enums.thy ===== *)
theory Enums
  imports Prelude
begin

text \<open>
  The vocabularies of \<open>models/enums.py\<close> that several components share: the labels of graph
  nodes and the types of graph edges, with the strings they are stored under.
\<close>

datatype entity_type =
    COMPANY | PRODUCT | PERSON | TOPIC | TECHNOLOGY | REGION | EVENT | UNKNOWN_TYPE

fun entity_value :: "entity_type \<Rightarrow> string" where
  "entity_value COMPANY = ''Company''"
| "entity_value PRODUCT = ''Product''"
| "entity_value PERSON = ''Person''"
| "entity_value TOPIC = ''Topic''"
| "entity_value TECHNOLOGY = ''Technology''"
| "entity_value REGION = ''Region''"
| "entity_value EVENT = ''Event''"
| "entity_value UNKNOWN_TYPE = ''Unknown''"

datatype edge_type =
    MENTIONS | COMPETES_WITH | ACQUIRED | USES | COMPLAINS_ABOUT | LAUNCHED_BY | SAME_AS
  | DUPLICATE_OF | UNKNOWN_EDGE

fun edge_value :: "edge_type \<Rightarrow> string" where
  "edge_value MENTIONS = ''MENTIONS''"
| "edge_value COMPETES_WITH = ''COMPETES_WITH''"
| "edge_value ACQUIRED = ''ACQUIRED''"
| "edge_value USES = ''USES''"
| "edge_value COMPLAINS_ABOUT = ''COMPLAINS_ABOUT''"
| "edge_value LAUNCHED_BY = ''LAUNCHED_BY''"
| "edge_value SAME_AS = ''SAME_AS''"
| "edge_value DUPLICATE_OF = ''DUPLICATE_OF''"
| "edge_value UNKNOWN_EDGE = ''UNKNOWN''"

end
