(* ===== verification/Resolution.thy ===== *)
theory Resolution
  imports Union_Find Py_Text Enums "HOL-Library.AList"
begin

text \<open>
  \<open>graph/resolution/entity_resolution.py\<close> with the records of \<open>graph/resolution/blocking.py\<close>:
  from scored pairs to clusters, survivors, merge records and their reversal.

  The matcher is a function from two records and the blocking keys they share to a score,
  the index a pair of its candidate pairs and shared keys, so what is proved holds for
  every matcher and every index. The two calls into the standard library whose value only
  names things, \<open>sha256().hexdigest()\<close> and \<open>isoformat()\<close>, are parameters as well. A
  dictionary keyed by pairs is a function to options; a set is a list in sorted order where
  the code sorts it.
\<close>

section \<open>Records and scores\<close>

record resolution_record =
  res_id :: string
  res_type :: entity_type
  res_name :: string
  aliases :: "string list"
  identifiers :: "(string \<times> string) list"
  embedding :: "pyfloat list option"
  context_ids :: "string set"
  first_seen :: "instant option"
  last_seen :: "instant option"
  mention_count :: int
  merged_from :: "string list"

type_synonym pair = "string \<times> string"

definition pair_key :: "string \<Rightarrow> string \<Rightarrow> pair" where
  "pair_key l r = (if l \<le> r then (l, r) else (r, l))"

datatype match_decision = MERGE | REVIEW | DISTINCT

record match_score =
  combined :: pyfloat
  decision :: match_decision
  applied_rule :: "string option"

record 'key resolver =
  scorer :: "resolution_record \<Rightarrow> resolution_record \<Rightarrow> 'key list \<Rightarrow> match_score"
  sha256 :: "string \<Rightarrow> string"
  isoformat :: "instant \<Rightarrow> string"

record 'key blocking =
  candidate_pairs :: "pair list"
  shared_keys :: "string \<Rightarrow> string \<Rightarrow> 'key list"

section \<open>Survivor election\<close>

definition survivor_sort_key :: "resolution_record \<Rightarrow> int \<times> int \<times> int \<times> string" where
  "survivor_sort_key r =
     (case first_seen r of
        None \<Rightarrow> (1, 0, - mention_count r, res_id r)
      | Some t \<Rightarrow> (0, t, - mention_count r, res_id r))"

text \<open>\<open>min(xs, key=f)\<close>: the first of the least.\<close>

fun min_by :: "('a \<Rightarrow> 'b::linorder) \<Rightarrow> 'a \<Rightarrow> 'a list \<Rightarrow> 'a" where
  "min_by f x [] = x"
| "min_by f x (y # ys) = min_by f (if f y < f x then y else x) ys"

definition elect_survivor :: "resolution_record list \<Rightarrow> py_error + resolution_record" where
  "elect_survivor records =
     (case records of [] \<Rightarrow> Inl ValueError | r # rs \<Rightarrow> Inr (min_by survivor_sort_key r rs))"

section \<open>Refinement of a component\<close>

definition MIN_WITHIN_CLUSTER_LINKAGE :: pyfloat where
  "MIN_WITHIN_CLUSTER_LINKAGE = 60 / 100"

definition MAX_REFINEMENT_COMPONENT :: nat where
  "MAX_REFINEMENT_COMPONENT = 64"

type_synonym similarity = "pair \<Rightarrow> pyfloat option"

definition similarity_of :: "similarity \<Rightarrow> string \<Rightarrow> string \<Rightarrow> pyfloat" where
  "similarity_of sim a b = (case sim (pair_key a b) of None \<Rightarrow> 0 | Some s \<Rightarrow> s)"

definition average_linkage :: "string list \<Rightarrow> string list \<Rightarrow> similarity \<Rightarrow> pyfloat" where
  "average_linkage left right sim =
     (\<Sum>a \<leftarrow> left. \<Sum>b \<leftarrow> right. similarity_of sim a b) / of_nat (length left * length right)"

text \<open>\<open>round(x, 9)\<close>, half to even.\<close>

definition round_half_even :: "pyfloat \<Rightarrow> int" where
  "round_half_even x =
     (let f = \<lfloor>x\<rfloor>; d = x - of_int f in
      if d < 1 / 2 then f else if 1 / 2 < d then f + 1 else if even f then f else f + 1)"

definition round9 :: "pyfloat \<Rightarrow> pyfloat" where
  "round9 x = of_int (round_half_even (x * 10 ^ 9)) / 10 ^ 9"

definition join_clusters :: "string list \<Rightarrow> string list \<Rightarrow> string list" where
  "join_clusters c d = sort (c @ d)"

type_synonym join_key = "pyfloat \<times> string list"

text \<open>
  The scan for the best pair of sub-clusters: for every \<open>i < j\<close> in order, the pair replaces
  the best so far when its linkage reaches the floor and its key is smaller.
\<close>

definition index_pairs :: "nat \<Rightarrow> (nat \<times> nat) list" where
  "index_pairs n = concat (map (\<lambda>i. map (\<lambda>j. (i, j)) [Suc i ..< n]) [0 ..< n])"

definition consider_pair ::
  "similarity \<Rightarrow> pyfloat \<Rightarrow> string list list \<Rightarrow> (join_key \<times> nat \<times> nat) option \<Rightarrow> nat \<times> nat
     \<Rightarrow> (join_key \<times> nat \<times> nat) option" where
  "consider_pair sim least cs best ij =
     (let c = cs ! fst ij; d = cs ! snd ij; linkage = average_linkage c d sim in
      if linkage < least then best
      else
        let key = (- round9 linkage, sort (c @ d)) in
        case best of
          None \<Rightarrow> Some (key, ij)
        | Some (old, _) \<Rightarrow> if key < old then Some (key, ij) else best)"

definition best_pair :: "similarity \<Rightarrow> pyfloat \<Rightarrow> string list list \<Rightarrow> (nat \<times> nat) option" where
  "best_pair sim least cs =
     map_option snd (foldl (consider_pair sim least cs) None (index_pairs (length cs)))"

definition join_at :: "string list list \<Rightarrow> nat \<Rightarrow> nat \<Rightarrow> string list list" where
  "join_at cs i j =
     sort (map (\<lambda>k. cs ! k) (filter (\<lambda>k. k \<noteq> i \<and> k \<noteq> j) [0 ..< length cs])
           @ [join_clusters (cs ! i) (cs ! j)])"

lemma consider_pair_some:
  "consider_pair sim least cs best ij = Some (k, ij') \<Longrightarrow>
     (best = Some (k, ij')) \<or>
     (ij' = ij \<and> least \<le> average_linkage (cs ! fst ij) (cs ! snd ij) sim)"
  by (auto simp: consider_pair_def Let_def split: if_splits option.splits)

lemma best_pair_foldl:
  assumes "foldl (consider_pair sim least cs) best ps = Some (k, ij)"
  shows "best = Some (k, ij) \<or>
    (ij \<in> set ps \<and> least \<le> average_linkage (cs ! fst ij) (cs ! snd ij) sim)"
  using assms
proof (induction ps arbitrary: best)
  case Nil
  then show ?case by simp
next
  case (Cons p ps)
  from Cons.IH [of "consider_pair sim least cs best p"] Cons.prems
  show ?case using consider_pair_some [of sim least cs best p k ij] by auto
qed

lemma set_index_pairs: "set (index_pairs n) = {(i, j). i < j \<and> j < n}"
  by (auto simp: index_pairs_def image_iff intro: less_trans)

lemma best_pair_some:
  assumes "best_pair sim least cs = Some (i, j)"
  shows "i < j \<and> j < length cs \<and> least \<le> average_linkage (cs ! i) (cs ! j) sim"
proof -
  from assms obtain k where
    "foldl (consider_pair sim least cs) None (index_pairs (length cs)) = Some (k, (i, j))"
    by (auto simp: best_pair_def)
  from best_pair_foldl [OF this] show ?thesis by (auto simp: set_index_pairs)
qed

lemma two_removed: "i < j \<Longrightarrow> j < n \<Longrightarrow> length (filter (\<lambda>k. k \<noteq> i \<and> k \<noteq> j) [0 ..< n]) = n - 2"
proof -
  assume ij: "i < j" "j < n"
  have "length (filter (\<lambda>k. k \<noteq> i \<and> k \<noteq> j) [0 ..< n]) = card {k \<in> set [0 ..< n]. k \<noteq> i \<and> k \<noteq> j}"
    using distinct_card [of "filter (\<lambda>k. k \<noteq> i \<and> k \<noteq> j) [0 ..< n]"] by simp
  also have "{k \<in> set [0 ..< n]. k \<noteq> i \<and> k \<noteq> j} = {0 ..< n} - {i, j}" by auto
  also have "card \<dots> = n - 2" using ij by (subst card_Diff_subset) auto
  finally show ?thesis .
qed

lemma length_join_at: "i < j \<Longrightarrow> j < length cs \<Longrightarrow> length (join_at cs i j) = length cs - 1"
  using two_removed [of i j "length cs"] by (simp add: join_at_def)

function agglomerate :: "similarity \<Rightarrow> pyfloat \<Rightarrow> string list list \<Rightarrow> string list list" where
  "agglomerate sim least cs =
     (case best_pair sim least cs of
        None \<Rightarrow> cs
      | Some (i, j) \<Rightarrow> agglomerate sim least (join_at cs i j))"
  by pat_completeness auto
termination
proof (relation "measure (\<lambda>(sim, least, cs). length cs)")
  show "wf (measure (\<lambda>(sim, least, cs). length cs))" by simp
next
  fix sim :: similarity and least cs ij i j
  assume "best_pair sim least cs = Some ij" "(i, j) = ij"
  then have "i < j \<and> j < length cs" using best_pair_some by blast
  then show "((sim, least, join_at cs i j), sim, least, cs) \<in> measure (\<lambda>(sim, least, cs). length cs)"
    using length_join_at [of i j cs] by auto
qed

declare agglomerate.simps [simp del]

definition refine_component :: "string list \<Rightarrow> similarity \<Rightarrow> pyfloat \<Rightarrow> string list list" where
  "refine_component members sim least =
     sort (agglomerate sim least (map (\<lambda>m. [m]) (sort members)))"

section \<open>Merging\<close>

definition dict_update :: "(string \<times> string) list \<Rightarrow> (string \<times> string) list \<Rightarrow> (string \<times> string) list" where
  "dict_update d e = foldl (\<lambda>d kv. AList.update (fst kv) (snd kv) d) d e"

definition sorted_set :: "string list \<Rightarrow> string list" where
  "sorted_set xs = sort (remdups xs)"

fun first_some :: "('a \<Rightarrow> 'b option) \<Rightarrow> 'a list \<Rightarrow> 'b option" where
  "first_some f [] = None"
| "first_some f (x # xs) = (case f x of None \<Rightarrow> first_some f xs | Some y \<Rightarrow> Some y)"

definition known_type :: "resolution_record \<Rightarrow> entity_type option" where
  "known_type r = (if res_type r = UNKNOWN_TYPE then None else Some (res_type r))"

definition values_of :: "('a \<Rightarrow> 'b option) \<Rightarrow> 'a list \<Rightarrow> 'b list" where
  "values_of f xs = map the (filter (\<lambda>v. v \<noteq> None) (map f xs))"

definition merge_into :: "resolution_record \<Rightarrow> resolution_record list \<Rightarrow> resolution_record" where
  "merge_into survivor absorbed =
     (let members = survivor # absorbed;
          surface = py_strip (res_name survivor);
          by_id = sort_key res_id absorbed;
          firsts = values_of first_seen members;
          lasts = values_of last_seen members in
      survivor\<lparr>
        res_type := (case known_type survivor of
            Some t \<Rightarrow> t
          | None \<Rightarrow> (case first_some known_type by_id of None \<Rightarrow> UNKNOWN_TYPE | Some t \<Rightarrow> t)),
        aliases := sorted_set (filter (\<lambda>s. py_strip s \<noteq> [] \<and> py_strip s \<noteq> surface)
            (concat (map (\<lambda>m. res_name m # aliases m) members))),
        identifiers := foldl (\<lambda>d m. dict_update d (identifiers m)) [] (rev members),
        embedding := (case embedding survivor of
            Some v \<Rightarrow> Some v
          | None \<Rightarrow> first_some embedding by_id),
        context_ids := \<Union> (set (map context_ids members)),
        first_seen := (if firsts = [] then None else Some (Min (set firsts))),
        last_seen := (if lasts = [] then None else Some (Max (set lasts))),
        mention_count := sum_list (map mention_count members),
        merged_from := sorted_set (filter (\<lambda>i. i \<noteq> res_id survivor)
            (map res_id absorbed @ concat (map merged_from members)))\<rparr>)"

definition merge_id :: "'key resolver \<Rightarrow> string \<Rightarrow> string list \<Rightarrow> instant \<Rightarrow> string" where
  "merge_id rv canonical members decided =
     ''mrg_'' @ take 32 (sha256 rv (py_join ''|'' (canonical # sort members @ [isoformat rv decided])))"

section \<open>One cluster\<close>

record merge_record =
  m_id :: string
  canonical_id :: string
  absorbed_ids :: "string list"
  snapshots :: "resolution_record list"
  m_scores :: "match_score list"
  m_confidence :: pyfloat
  m_decided_by :: string
  m_decided_at :: instant

definition member_ids :: "merge_record \<Rightarrow> string list" where
  "member_ids m = canonical_id m # absorbed_ids m"

definition snapshot_for :: "merge_record \<Rightarrow> string \<Rightarrow> py_error + resolution_record" where
  "snapshot_for m i =
     (case filter (\<lambda>s. res_id s = i) (snapshots m) of [] \<Rightarrow> Inl KeyError | s # _ \<Rightarrow> Inr s)"

text \<open>The score of an edge is the pair's own, or none for a link within the cluster.\<close>

record same_as_edge =
  from_id :: string
  to_id :: string
  edge_merge :: string
  edge_confidence :: pyfloat
  observed_at :: instant
  edge_score :: "match_score option"
  edge_decided_by :: string

record resolved_cluster =
  survivor_id :: string
  cluster_ids :: "string list"
  canonical :: resolution_record
  weakest_link :: "pyfloat option"
  cluster_merge :: "merge_record option"

definition is_merge :: "resolved_cluster \<Rightarrow> bool" where
  "is_merge c \<longleftrightarrow> 1 < length (cluster_ids c)"

text \<open>The pairs \<open>(a, b)\<close> of a list with \<open>a\<close> before \<open>b\<close>.\<close>

fun internal_pairs :: "string list \<Rightarrow> pair list" where
  "internal_pairs [] = []"
| "internal_pairs (a # bs) = map (\<lambda>b. pair_key a b) bs @ internal_pairs bs"

fun lookup_all :: "(string \<Rightarrow> 'a option) \<Rightarrow> string list \<Rightarrow> py_error + 'a list" where
  "lookup_all f [] = Inr []"
| "lookup_all f (i # is) =
     (case f i of None \<Rightarrow> Inl KeyError | Some x \<Rightarrow> map_sum id (\<lambda>xs. x # xs) (lookup_all f is))"

definition build_edge ::
  "similarity \<Rightarrow> (pair \<Rightarrow> match_score option) \<Rightarrow> string \<Rightarrow> string \<Rightarrow> pyfloat \<Rightarrow> instant \<Rightarrow> string
     \<Rightarrow> resolution_record \<Rightarrow> same_as_edge" where
  "build_edge sim scores survivor mid weakest decided_at decided_by r =
     \<lparr>from_id = res_id r, to_id = survivor, edge_merge = mid,
      edge_confidence = (case sim (pair_key (res_id r) survivor) of None \<Rightarrow> weakest | Some s \<Rightarrow> s),
      observed_at = decided_at, edge_score = scores (pair_key (res_id r) survivor),
      edge_decided_by = decided_by\<rparr>"

definition build_cluster ::
  "'key resolver \<Rightarrow> string list \<Rightarrow> (string \<Rightarrow> resolution_record option) \<Rightarrow> similarity
     \<Rightarrow> (pair \<Rightarrow> match_score option) \<Rightarrow> instant \<Rightarrow> string
     \<Rightarrow> py_error + (resolved_cluster \<times> merge_record option \<times> same_as_edge list)" where
  "build_cluster rv ids by_id sim scores decided_at decided_by =
     and_then (lookup_all by_id ids) (\<lambda>members.
     and_then (elect_survivor members) (\<lambda>survivor.
       let sid = res_id survivor;
           absorbed = sort_key res_id (filter (\<lambda>r. res_id r \<noteq> sid) members) in
       if absorbed = []
       then Inr (\<lparr>survivor_id = sid, cluster_ids = [sid], canonical = survivor,
                  weakest_link = None, cluster_merge = None\<rparr>, None, [])
       else
         let internal = map (\<lambda>p. case sim p of None \<Rightarrow> 0 | Some s \<Rightarrow> s) (internal_pairs ids);
             weakest = (if internal = [] then 0 else Min (set internal));
             mid = merge_id rv sid (sort ids) decided_at;
             m = \<lparr>m_id = mid, canonical_id = sid, absorbed_ids = map res_id absorbed,
                  snapshots = sort_key res_id members,
                  m_scores = values_of scores (internal_pairs ids), m_confidence = weakest,
                  m_decided_by = decided_by, m_decided_at = decided_at\<rparr> in
         Inr (\<lparr>survivor_id = sid, cluster_ids = sort ids, canonical = merge_into survivor absorbed,
               weakest_link = Some weakest, cluster_merge = Some m\<rparr>,
              Some m,
              map (build_edge sim scores sid mid weakest decided_at decided_by) absorbed)))"

section \<open>The pass\<close>

record review_item =
  left_id :: string
  right_id :: string
  review_score :: match_score
  reason :: string

definition review_pair :: "review_item \<Rightarrow> pair" where
  "review_pair r = pair_key (left_id r) (right_id r)"

record scoring_state =
  similarity :: similarity
  accepted :: "pair list"
  review :: "review_item list"
  scores_by_pair :: "pair \<Rightarrow> match_score option"

definition score_candidate ::
  "'key resolver \<Rightarrow> 'key blocking \<Rightarrow> (string \<Rightarrow> resolution_record option) \<Rightarrow> pair set \<Rightarrow> pair set
     \<Rightarrow> scoring_state \<Rightarrow> pair \<Rightarrow> scoring_state" where
  "score_candidate rv index by_id forbidden required st p =
     (let q = pair_key (fst p) (snd p) in
      case (by_id (fst q), by_id (snd q)) of
        (Some l, Some r) \<Rightarrow>
          if q \<in> forbidden then st\<lparr>similarity := (similarity st)(q \<mapsto> 0)\<rparr>
          else
            let score = scorer rv l r (shared_keys index (fst q) (snd q));
                st1 = st\<lparr>scores_by_pair := (scores_by_pair st)(q \<mapsto> score),
                         similarity := (similarity st)(q \<mapsto> combined score)\<rparr> in
            if q \<in> required \<or> decision score = MERGE then st1\<lparr>accepted := accepted st1 @ [q]\<rparr>
            else if decision score = REVIEW
            then st1\<lparr>review := review st1 @
                   [\<lparr>left_id = fst q, right_id = snd q, review_score = score,
                     reason = (case applied_rule score of
                         None \<Rightarrow> ''score_band''
                       | Some r \<Rightarrow> if r = [] then ''score_band'' else r)\<rparr>]\<rparr>
            else st1
      | _ \<Rightarrow> st)"

definition force_link ::
  "(string \<Rightarrow> resolution_record option) \<Rightarrow> scoring_state \<Rightarrow> pair \<Rightarrow> scoring_state" where
  "force_link by_id st q =
     (if similarity st q \<noteq> None \<or> by_id (fst q) = None \<or> by_id (snd q) = None then st
      else st\<lparr>similarity := (similarity st)(q \<mapsto> 1), accepted := accepted st @ [q]\<rparr>)"

definition empty_scoring :: scoring_state where
  "empty_scoring = \<lparr>similarity = (\<lambda>_. None), accepted = [], review = [], scores_by_pair = (\<lambda>_. None)\<rparr>"

definition score_pairs ::
  "'key resolver \<Rightarrow> 'key blocking \<Rightarrow> (string \<Rightarrow> resolution_record option) \<Rightarrow> pair set \<Rightarrow> pair list
     \<Rightarrow> scoring_state" where
  "score_pairs rv index by_id forbidden required =
     foldl (force_link by_id)
       (foldl (score_candidate rv index by_id forbidden (set required)) empty_scoring
          (candidate_pairs index))
       required"

definition score_missing ::
  "'key resolver \<Rightarrow> (string \<Rightarrow> resolution_record option) \<Rightarrow> pair set \<Rightarrow> similarity \<Rightarrow> pair \<Rightarrow> similarity" where
  "score_missing rv by_id forbidden sim q =
     (if sim q \<noteq> None then sim
      else if q \<in> forbidden then sim(q \<mapsto> 0)
      else (case (by_id (fst q), by_id (snd q)) of
          (Some l, Some r) \<Rightarrow> sim(q \<mapsto> combined (scorer rv l r []))
        | _ \<Rightarrow> sim))"

definition score_missing_pairs ::
  "'key resolver \<Rightarrow> (string \<Rightarrow> resolution_record option) \<Rightarrow> pair set \<Rightarrow> similarity \<Rightarrow> string list
     \<Rightarrow> similarity" where
  "score_missing_pairs rv by_id forbidden sim component =
     foldl (score_missing rv by_id forbidden) sim (internal_pairs component)"

text \<open>
  \<open>owner\<close> is the position of the last sub-cluster that holds an id; the positions are
  united as the strings that print them.
\<close>

definition owner_of :: "string list list \<Rightarrow> string \<Rightarrow> nat option" where
  "owner_of refined i =
     (case filter (\<lambda>k. i \<in> set (refined ! k)) [0 ..< length refined] of [] \<Rightarrow> None | ks \<Rightarrow> Some (last ks))"

definition required_unions :: "string list list \<Rightarrow> pair list \<Rightarrow> (string \<times> string) list" where
  "required_unions refined required =
     concat (map (\<lambda>p. case (owner_of refined (fst p), owner_of refined (snd p)) of
         (Some l, Some r) \<Rightarrow> [(str_nat l, str_nat r)] | _ \<Rightarrow> []) required)"

fun group_members ::
  "string union_find \<Rightarrow> (string \<times> string list) list \<Rightarrow> (nat \<times> string list) list
     \<Rightarrow> (string \<times> string list) list option" where
  "group_members uf groups [] = Some groups"
| "group_members uf groups ((k, ms) # rest) =
     (case find_root uf (str_nat k) of
        None \<Rightarrow> None
      | Some (r, uf) \<Rightarrow> group_members uf (foldl (\<lambda>g m. add_member r m g) groups ms) rest)"

definition apply_required_links :: "string list list \<Rightarrow> pair list \<Rightarrow> string list list option" where
  "apply_required_links refined required =
     (if required = [] then Some refined
      else
        case union_all (new_union_find (map str_nat [0 ..< length refined]))
               (required_unions refined required) of
          None \<Rightarrow> None
        | Some uf \<Rightarrow>
            map_option (\<lambda>groups. sort (map (\<lambda>g. sort (snd g)) groups))
              (group_members uf [] (zip [0 ..< length refined] refined)))"

definition split_review_items ::
  "string list \<Rightarrow> string list list \<Rightarrow> (pair \<Rightarrow> match_score option) \<Rightarrow> review_item list" where
  "split_review_items component refined scores =
     concat (map (\<lambda>q. case scores q of
         None \<Rightarrow> []
       | Some s \<Rightarrow>
           if decision s = MERGE \<and> owner_of refined (fst q) \<noteq> owner_of refined (snd q)
           then [\<lparr>left_id = fst q, right_id = snd q, review_score = s, reason = ''split_by_linkage''\<rparr>]
           else []) (internal_pairs component))"

text \<open>One item for each pair: the first in order, or a split if there is one.\<close>

definition better_review :: "(pair \<Rightarrow> review_item option) \<Rightarrow> review_item \<Rightarrow> (pair \<Rightarrow> review_item option)" where
  "better_review best item =
     (if best (review_pair item) = None \<or> reason item = ''split_by_linkage''
      then best(review_pair item \<mapsto> item) else best)"

definition dedupe_reviews :: "review_item list \<Rightarrow> review_item list" where
  "dedupe_reviews items =
     (let ordered = sort_key (\<lambda>i. (review_pair i, reason i)) items;
          best = foldl better_review (\<lambda>_. None) ordered in
      values_of best (sort (remdups (map review_pair ordered))))"

record resolution_result =
  clusters :: "resolved_cluster list"
  merges :: "merge_record list"
  same_as_edges :: "same_as_edge list"
  review_items :: "review_item list"
  unrefined_components :: "string list list"

record pass_state =
  pass_similarity :: similarity
  pass_clusters :: "resolved_cluster list"
  pass_merges :: "merge_record list"
  pass_edges :: "same_as_edge list"
  pass_review :: "review_item list"
  pass_unrefined :: "string list list"

definition add_cluster ::
  "'key resolver \<Rightarrow> (string \<Rightarrow> resolution_record option) \<Rightarrow> (pair \<Rightarrow> match_score option) \<Rightarrow> instant
     \<Rightarrow> string \<Rightarrow> pass_state \<Rightarrow> string list \<Rightarrow> py_error + pass_state" where
  "add_cluster rv by_id scores decided_at decided_by st ids =
     map_sum id
       (\<lambda>(c, m, es). st\<lparr>pass_clusters := pass_clusters st @ [c],
          pass_merges := pass_merges st @ (case m of None \<Rightarrow> [] | Some m \<Rightarrow> [m]),
          pass_edges := pass_edges st @ es\<rparr>)
       (build_cluster rv ids by_id (pass_similarity st) scores decided_at decided_by)"

definition refine_and_link ::
  "'key resolver \<Rightarrow> (string \<Rightarrow> resolution_record option) \<Rightarrow> pair set \<Rightarrow> pair list \<Rightarrow> pyfloat
     \<Rightarrow> similarity \<Rightarrow> string list \<Rightarrow> (similarity \<times> string list list) option" where
  "refine_and_link rv by_id forbidden required least sim component =
     (if MAX_REFINEMENT_COMPONENT < length component then Some (sim, [component])
      else
        let sim1 = score_missing_pairs rv by_id forbidden sim component in
        map_option (\<lambda>refined. (sim1, refined))
          (apply_required_links (refine_component component sim1 least) required))"

definition resolve_component ::
  "'key resolver \<Rightarrow> (string \<Rightarrow> resolution_record option) \<Rightarrow> pair set \<Rightarrow> pair list \<Rightarrow> pyfloat
     \<Rightarrow> (pair \<Rightarrow> match_score option) \<Rightarrow> instant \<Rightarrow> string \<Rightarrow> pass_state \<Rightarrow> string list
     \<Rightarrow> py_error + pass_state" where
  "resolve_component rv by_id forbidden required least scores decided_at decided_by st component =
     (case refine_and_link rv by_id forbidden required least (pass_similarity st) component of
        None \<Rightarrow> Inl KeyError
      | Some (sim, refined) \<Rightarrow>
          map_sum id
            (\<lambda>st1. st1\<lparr>pass_review := pass_review st1 @
               (if 1 < length refined then split_review_items component refined scores else [])\<rparr>)
            (fold_res (add_cluster rv by_id scores decided_at decided_by)
               (st\<lparr>pass_similarity := sim,
                   pass_unrefined := pass_unrefined st @
                     (if MAX_REFINEMENT_COMPONENT < length component then [component] else [])\<rparr>)
               refined))"

definition pair_keys :: "pair list \<Rightarrow> pair list" where
  "pair_keys ps = map (\<lambda>p. pair_key (fst p) (snd p)) ps"

definition resolve ::
  "'key resolver \<Rightarrow> 'key blocking \<Rightarrow> resolution_record list \<Rightarrow> pair list \<Rightarrow> pair list \<Rightarrow> instant
     \<Rightarrow> string \<Rightarrow> pyfloat \<Rightarrow> py_error + resolution_result" where
  "resolve rv index records must_link must_not_link decided_at decided_by least =
     (let ordered = sort_key res_id records; ids = map res_id ordered in
      if \<not> distinct ids then Inl ValueError
      else
        let by_id = map_of (map (\<lambda>r. (res_id r, r)) ordered);
            forbidden = set (pair_keys must_not_link);
            required = sort (remdups (filter (\<lambda>p. p \<notin> forbidden) (pair_keys must_link)));
            sc = score_pairs rv index by_id forbidden required in
        case provisional ids (accepted sc) of
          None \<Rightarrow> Inl KeyError
        | Some comps \<Rightarrow>
            map_sum id
              (\<lambda>st. \<lparr>clusters = sort_key survivor_id (pass_clusters st),
                     merges = sort_key canonical_id (pass_merges st),
                     same_as_edges = sort_key (\<lambda>e. (to_id e, from_id e)) (pass_edges st),
                     review_items = dedupe_reviews
                       (sort_key (\<lambda>i. (review_pair i, reason i)) (review sc @ pass_review st)),
                     unrefined_components = pass_unrefined st\<rparr>)
              (fold_res
                 (resolve_component rv by_id forbidden required least (scores_by_pair sc)
                    decided_at decided_by)
                 \<lparr>pass_similarity = similarity sc, pass_clusters = [], pass_merges = [],
                  pass_edges = [], pass_review = [], pass_unrefined = []\<rparr>
                 comps))"

definition canonical_id_for :: "resolution_result \<Rightarrow> string \<Rightarrow> string option" where
  "canonical_id_for res i =
     (case filter (\<lambda>c. i \<in> set (cluster_ids c)) (clusters res) of
        [] \<Rightarrow> None | c # _ \<Rightarrow> Some (survivor_id c))"

definition merged_ids :: "resolution_result \<Rightarrow> string set" where
  "merged_ids res = set (concat (map absorbed_ids (merges res)))"

section \<open>Reversal\<close>

record unmerge_result =
  u_merge_id :: string
  restored :: "resolution_record list"
  u_canonical :: resolution_record
  retracted_edges :: "pair list"
  must_not_link :: "pair list"
  u_decided_by :: string
  u_decided_at :: instant

fun snapshots_for :: "merge_record \<Rightarrow> string list \<Rightarrow> py_error + resolution_record list" where
  "snapshots_for m [] = Inr []"
| "snapshots_for m (i # is) =
     and_then (snapshot_for m i) (\<lambda>s. map_sum id (\<lambda>ss. s # ss) (snapshots_for m is))"

definition unmerge ::
  "merge_record \<Rightarrow> string list option \<Rightarrow> instant \<Rightarrow> string \<Rightarrow> py_error + unmerge_result" where
  "unmerge m separate decided_at decided_by =
     (let absorbed = set (absorbed_ids m);
          targets = (case separate of None \<Rightarrow> absorbed | Some is \<Rightarrow> set is);
          ordered = sorted_set (case separate of None \<Rightarrow> absorbed_ids m | Some is \<Rightarrow> is);
          retained = sorted_set (filter (\<lambda>i. i \<notin> targets) (absorbed_ids m)) in
      if canonical_id m \<in> targets then Inl ValueError
      else if \<not> targets \<subseteq> absorbed then Inl ValueError
      else if targets = {} then Inl ValueError
      else
        and_then (snapshots_for m ordered) (\<lambda>rs.
        and_then (snapshot_for m (canonical_id m)) (\<lambda>survivor.
        and_then (snapshots_for m retained) (\<lambda>kept.
          Inr \<lparr>u_merge_id = m_id m, restored = rs,
               u_canonical = (if retained = [] then survivor else merge_into survivor kept),
               retracted_edges = sort (map (\<lambda>i. (i, canonical_id m)) ordered),
               must_not_link = sort (remdups (concat (map (\<lambda>t.
                 map (pair_key t) (canonical_id m # retained)) ordered))),
               u_decided_by = decided_by, u_decided_at = decided_at\<rparr>))))"

end
