(* ===== verification/Cluster_Laws.thy ===== *)
theory Cluster_Laws
  imports Resolution
begin

text \<open>
  The clustering of \<open>graph/resolution/entity_resolution.py\<close>: what refinement by average
  linkage leaves of a component, and that a pair required by a human ends in one cluster.
\<close>

section \<open>Refinement\<close>

lemma pair_key_sym: "pair_key a b = pair_key b a"
  by (auto simp: pair_key_def)

lemma average_linkage_sym: "average_linkage c d sim = average_linkage d c sim"
proof -
  have zero: "(\<Sum>a \<leftarrow> xs. 0 :: rat) = 0" for xs :: "string list"
    by (induction xs) simp_all
  have "(\<Sum>a \<leftarrow> c. \<Sum>b \<leftarrow> d. f a b) = (\<Sum>b \<leftarrow> d. \<Sum>a \<leftarrow> c. (f a b :: rat))" for f
    by (induction c) (simp_all add: zero sum_list_addf)
  moreover have "similarity_of sim a b = similarity_of sim b a" for a b
    by (simp add: similarity_of_def pair_key_sym)
  ultimately show ?thesis by (simp add: average_linkage_def mult.commute)
qed

lemma consider_pair_keeps: "best \<noteq> None \<Longrightarrow> consider_pair sim least cs best ij \<noteq> None"
  by (auto simp: consider_pair_def Let_def split: option.splits)

lemma consider_pairs_keeps: "best \<noteq> None \<Longrightarrow> foldl (consider_pair sim least cs) best ps \<noteq> None"
  by (induction ps arbitrary: best) (simp_all only: foldl.simps consider_pair_keeps not_False_eq_True)

lemma consider_pairs_none:
  "foldl (consider_pair sim least cs) best ps = None \<Longrightarrow> (i, j) \<in> set ps \<Longrightarrow>
     average_linkage (cs ! i) (cs ! j) sim < least"
proof (induction ps arbitrary: best)
  case Nil
  then show ?case by simp
next
  case (Cons p ps)
  show ?case
  proof (cases "(i, j) \<in> set ps")
    case True
    with Cons show ?thesis by simp
  next
    case False
    with Cons.prems have p: "p = (i, j)" by simp
    show ?thesis
    proof (rule ccontr)
      assume "\<not> average_linkage (cs ! i) (cs ! j) sim < least"
      then have "consider_pair sim least cs best p \<noteq> None"
        by (auto simp: consider_pair_def Let_def p split: option.splits)
      from consider_pairs_keeps [OF this, of sim least cs ps] Cons.prems(1) show False by simp
    qed
  qed
qed

lemma best_pair_none:
  assumes "best_pair sim least cs = None" and "i < j" and "j < length cs"
  shows "average_linkage (cs ! i) (cs ! j) sim < least"
proof (rule consider_pairs_none)
  show "foldl (consider_pair sim least cs) None (index_pairs (length cs)) = None"
    using assms(1) by (simp add: best_pair_def)
  show "(i, j) \<in> set (index_pairs (length cs))" using assms by (simp add: set_index_pairs)
qed

text \<open>
  A cluster holds together when it was built from single records by joins whose linkage
  reached the floor.
\<close>

inductive coherent :: "similarity \<Rightarrow> pyfloat \<Rightarrow> string list \<Rightarrow> bool" for sim least where
  single: "coherent sim least [m]"
| join: "coherent sim least c \<Longrightarrow> coherent sim least d \<Longrightarrow> least \<le> average_linkage c d sim \<Longrightarrow>
    coherent sim least (join_clusters c d)"

inductive_cases coherent_pairE: "coherent sim least [a, b]"

lemma concat_join_at:
  assumes "i < j" and "j < length cs"
  shows "mset (concat (join_at cs i j)) = mset (concat cs)"
proof -
  let ?rest = "filter (\<lambda>k. k \<noteq> i \<and> k \<noteq> j) [0 ..< length cs]"
  have "mset [0 ..< length cs] = mset (i # j # ?rest)"
  proof (rule set_eq_iff_mset_eq_distinct [THEN iffD1])
    show "distinct [0 ..< length cs]" by simp
    show "distinct (i # j # ?rest)" using assms by auto
    show "set [0 ..< length cs] = set (i # j # ?rest)" using assms by auto
  qed
  then have "mset (map (\<lambda>k. mset (cs ! k)) [0 ..< length cs]) =
      mset (map (\<lambda>k. mset (cs ! k)) (i # j # ?rest))"
    by (simp only: mset_map)
  then have "sum_mset (mset (map (\<lambda>k. mset (cs ! k)) [0 ..< length cs])) =
      sum_mset (mset (map (\<lambda>k. mset (cs ! k)) (i # j # ?rest)))" by (rule arg_cong)
  then have "sum_list (map (\<lambda>k. mset (cs ! k)) [0 ..< length cs]) =
      sum_list (map (\<lambda>k. mset (cs ! k)) (i # j # ?rest))"
    by (simp only: sum_mset_sum_list)
  moreover have "map (\<lambda>k. mset (cs ! k)) [0 ..< length cs] = map mset cs"
    by (rule nth_equalityI) simp_all
  ultimately have "mset (concat cs) = mset (cs ! i) + mset (cs ! j) +
      sum_list (map (\<lambda>k. mset (cs ! k)) ?rest)"
    by (simp add: mset_concat add.assoc)
  moreover have "mset (concat (join_at cs i j)) =
      sum_list (map (\<lambda>k. mset (cs ! k)) ?rest) + (mset (cs ! i) + mset (cs ! j))"
    unfolding join_at_def mset_concat_sort by (simp add: mset_concat comp_def join_clusters_def)
  ultimately show ?thesis by (simp add: ac_simps)
qed

lemma set_join_at:
  "c \<in> set (join_at cs i j) \<Longrightarrow> c \<in> set cs \<or> c = join_clusters (cs ! i) (cs ! j)"
  by (auto simp: join_at_def)

lemma agglomerate_none: "best_pair sim least cs = None \<Longrightarrow> agglomerate sim least cs = cs"
  by (simp add: agglomerate.simps [of sim least cs])

lemma agglomerate_some:
  "best_pair sim least cs = Some (i, j) \<Longrightarrow>
     agglomerate sim least cs = agglomerate sim least (join_at cs i j)"
  by (simp add: agglomerate.simps [of sim least cs])

text \<open>An invariant of the joins holds at the end, where no pair is left to join.\<close>

lemma agglomerate_inv:
  assumes "P cs"
    and step: "\<And>cs i j. P cs \<Longrightarrow> i < j \<Longrightarrow> j < length cs \<Longrightarrow>
      least \<le> average_linkage (cs ! i) (cs ! j) sim \<Longrightarrow> P (join_at cs i j)"
  shows "P (agglomerate sim least cs) \<and> best_pair sim least (agglomerate sim least cs) = None"
  using assms(1)
proof (induction "length cs" arbitrary: cs rule: less_induct)
  case less
  show ?case
  proof (cases "best_pair sim least cs")
    case None
    with less.prems show ?thesis by (simp add: agglomerate_none)
  next
    case (Some ij)
    obtain i j where ij: "ij = (i, j)" by (cases ij)
    from best_pair_some Some ij have b: "i < j" "j < length cs"
      "least \<le> average_linkage (cs ! i) (cs ! j) sim" by blast+
    then have "length (join_at cs i j) < length cs" using length_join_at [of i j cs] by simp
    from less.hyps [OF this step [OF less.prems b]] Some ij show ?thesis
      by (simp add: agglomerate_some)
  qed
qed

definition refine_inv :: "string list \<Rightarrow> similarity \<Rightarrow> pyfloat \<Rightarrow> string list list \<Rightarrow> bool" where
  "refine_inv members sim least cs \<longleftrightarrow>
     mset (concat cs) = mset members \<and> list_all (coherent sim least) cs \<and> sorted cs"

lemma sorted_singletons: "sorted xs \<Longrightarrow> sorted (map (\<lambda>m. [m]) (xs :: string list))"
  by (induction xs) auto

lemma refine_result:
  "refine_inv members sim least (refine_component members sim least) \<and>
   best_pair sim least (refine_component members sim least) = None"
proof -
  let ?start = "map (\<lambda>m. [m]) (sort members)"
  have "refine_inv members sim least ?start"
    by (auto simp: refine_inv_def sorted_singletons list_all_iff intro: coherent.single)
  then have "refine_inv members sim least (agglomerate sim least ?start) \<and>
      best_pair sim least (agglomerate sim least ?start) = None"
  proof (rule agglomerate_inv)
    fix cs i j
    assume cs: "refine_inv members sim least cs" and ij: "i < j" "j < length cs"
      and link: "least \<le> average_linkage (cs ! i) (cs ! j) sim"
    have "coherent sim least (cs ! i)" "coherent sim least (cs ! j)"
      using cs ij by (simp_all add: refine_inv_def list_all_length)
    then have "coherent sim least (join_clusters (cs ! i) (cs ! j))"
      using link by (rule coherent.join)
    then have "list_all (coherent sim least) (join_at cs i j)"
      using cs by (auto simp: refine_inv_def list_all_iff dest: set_join_at)
    moreover have "sorted (join_at cs i j)" by (simp add: join_at_def)
    ultimately show "refine_inv members sim least (join_at cs i j)"
      using cs concat_join_at [OF ij] by (simp add: refine_inv_def)
  qed
  moreover from this have "sort (agglomerate sim least ?start) = agglomerate sim least ?start"
    by (simp add: refine_inv_def sorted_sort_id)
  ultimately show ?thesis by (simp add: refine_component_def)
qed

text \<open>
  Refinement terminates and splits a component into clusters such that every record
  is in exactly one of them, every cluster was built by joins whose average linkage
  reached the floor, and no two clusters that are left could still be joined.
\<close>

theorem refinement_splits_by_linkage:
  "mset (concat (refine_component members sim least)) = mset members \<and>
   list_all (coherent sim least) (refine_component members sim least) \<and>
   sorted_wrt (\<lambda>c d. average_linkage c d sim < least) (refine_component members sim least)"
proof -
  let ?cs = "refine_component members sim least"
  from refine_result have r: "refine_inv members sim least ?cs" "best_pair sim least ?cs = None"
    by simp_all
  from best_pair_none [OF r(2)] have "sorted_wrt (\<lambda>c d. average_linkage c d sim < least) ?cs"
    by (simp add: sorted_wrt_iff_nth_less)
  with r(1) show ?thesis by (simp add: refine_inv_def)
qed

text \<open>The chain of the documentation: two strong links do not make three records one.\<close>

definition chain_similarity :: similarity where
  "chain_similarity p = map_of [((''a'', ''b''), 95 / 100), ((''b'', ''c''), 95 / 100),
     ((''a'', ''c''), 10 / 100)] p"

lemma chain_is_split:
  "refine_component [''c'', ''a'', ''b''] chain_similarity MIN_WITHIN_CLUSTER_LINKAGE =
     [[''a'', ''b''], [''c'']]"
  by code_simp

section \<open>Required links\<close>

definition pairs_of :: "('k \<times> 'v list) list \<Rightarrow> ('k \<times> 'v) set" where
  "pairs_of g = {(r, m). \<exists>ms. (r, ms) \<in> set g \<and> m \<in> set ms}"

definition add_pairs :: "('k \<times> 'v list) list \<Rightarrow> ('k \<times> 'v) list \<Rightarrow> ('k \<times> 'v list) list" where
  "add_pairs g ps = foldl (\<lambda>g p. add_member (fst p) (snd p) g) g ps"

lemma pairs_of_add_member: "pairs_of (add_member r x g) = insert (r, x) (pairs_of g)"
proof (induction r x g rule: add_member.induct)
  case (1 r x)
  then show ?case by (auto simp: pairs_of_def)
next
  case (2 r x q xs groups)
  have cons: "pairs_of ((q, ys) # g) = Pair q ` set ys \<union> pairs_of g" for q :: 'a and ys :: "'b list" and g
    by (auto simp: pairs_of_def)
  show ?case
  proof (cases "q = r")
    case True
    then show ?thesis by (simp add: cons)
  next
    case False
    with 2 show ?thesis by (simp add: cons)
  qed
qed

lemma nonempty_add_member:
  "list_all (\<lambda>g. snd g \<noteq> []) g \<Longrightarrow> list_all (\<lambda>g. snd g \<noteq> []) (add_member r x g)"
  by (induction r x g rule: add_member.induct) auto

lemma add_pairs_inv:
  "distinct (map fst (add_pairs [] ps)) \<and> pairs_of (add_pairs [] ps) = set ps \<and>
   mset (concat (map snd (add_pairs [] ps))) = mset (map snd ps) \<and>
   list_all (\<lambda>g. snd g \<noteq> []) (add_pairs [] ps)"
proof (induction ps rule: rev_induct)
  case Nil
  then show ?case by (simp add: add_pairs_def pairs_of_def)
next
  case (snoc p ps)
  have "add_pairs [] (ps @ [p]) = add_member (fst p) (snd p) (add_pairs [] ps)"
    by (simp add: add_pairs_def)
  with snoc show ?case
    by (simp only: distinct_add_member pairs_of_add_member mset_add_member nonempty_add_member) simp
qed

lemma add_pairs_append: "add_pairs (add_pairs g ps) qs = add_pairs g (ps @ qs)"
  by (simp add: add_pairs_def)

definition rooted :: "string union_find \<Rightarrow> (nat \<times> string list) list \<Rightarrow> (string \<times> string) list" where
  "rooted uf xs = concat (map (\<lambda>(k, ms). map (\<lambda>m. (rep uf (str_nat k), m)) ms) xs)"

lemma add_rooted: "foldl (\<lambda>g m. add_member r m g) g ms = add_pairs g (map (\<lambda>m. (r, m)) ms)"
  by (induction ms arbitrary: g) (simp_all add: add_pairs_def)

lemma group_members_fold:
  "uf_inv uf \<Longrightarrow> (\<And>k ms. (k, ms) \<in> set xs \<Longrightarrow> str_nat k \<in> set (uf_ids uf)) \<Longrightarrow>
     group_members uf groups xs = Some (add_pairs groups (rooted uf xs))"
proof (induction xs arbitrary: uf groups)
  case Nil
  then show ?case by (simp add: rooted_def add_pairs_def)
next
  case (Cons x xs)
  obtain k ms where x: "x = (k, ms)" by (cases x)
  have "str_nat k \<in> set (uf_ids uf)" using Cons.prems(2) [of k ms] x by simp
  from find_root_ok [OF Cons.prems(1) this] obtain r uf' where
    f: "find_root uf (str_nat k) = Some (r, uf')" "roots (parent uf) (str_nat k) r"
      "roots (parent uf') = roots (parent uf)" "uf_ids uf' = uf_ids uf" "uf_inv uf'" by blast
  have same: "rep uf' = rep uf" by (rule ext) (simp add: rep_def f(3))
  have "\<And>k ms. (k, ms) \<in> set xs \<Longrightarrow> str_nat k \<in> set (uf_ids uf')"
    using Cons.prems(2) f(4) by auto
  from Cons.IH [OF f(5) this] have
    "group_members uf' (add_pairs groups (map (\<lambda>m. (r, m)) ms)) xs =
       Some (add_pairs (add_pairs groups (map (\<lambda>m. (r, m)) ms)) (rooted uf' xs))" .
  moreover have "rooted uf' xs = rooted uf xs" by (simp add: rooted_def same)
  moreover have "rooted uf (x # xs) = map (\<lambda>m. (r, m)) ms @ rooted uf xs"
    by (simp add: rooted_def x rep_eq [OF f(2)])
  moreover have "group_members uf groups (x # xs) =
      group_members uf' (add_pairs groups (map (\<lambda>m. (r, m)) ms)) xs"
    unfolding x by (simp add: f(1) add_rooted)
  ultimately show ?case by (metis add_pairs_append)
qed

lemma rooted_zip:
  "(r, m) \<in> set (rooted uf (zip [0 ..< length refined] refined)) \<longleftrightarrow>
     (\<exists>k < length refined. m \<in> set (refined ! k) \<and> r = rep uf (str_nat k))"
proof -
  have "(r, m) \<in> set (rooted uf ps) \<longleftrightarrow> (\<exists>(k, ms) \<in> set ps. m \<in> set ms \<and> r = rep uf (str_nat k))" for ps
    by (induction ps) (auto simp: rooted_def)
  moreover have "set (zip [0 ..< length refined] refined) = {(k, refined ! k) | k. k < length refined}"
    by (auto simp: set_zip intro!: exI)
  ultimately show ?thesis by auto
qed

lemma snd_rooted_zip: "map snd (rooted uf (zip [0 ..< length refined] refined)) = concat refined"
proof -
  have "map snd (rooted uf (zip ks refined)) = concat refined" if "length ks = length refined" for ks
    using that by (induction ks refined rule: list_induct2) (simp_all add: rooted_def comp_def)
  then show ?thesis by simp
qed

lemma str_nat_inj: "str_nat a = str_nat b \<Longrightarrow> a = b"
  by (metis int_str_nat)

lemma owner_some:
  "i \<in> set (refined ! k) \<Longrightarrow> k < length refined \<Longrightarrow>
     \<exists>k'. owner_of refined i = Some k' \<and> k' < length refined \<and> i \<in> set (refined ! k')"
proof -
  assume a: "i \<in> set (refined ! k)" "k < length refined"
  let ?ks = "filter (\<lambda>k. i \<in> set (refined ! k)) [0 ..< length refined]"
  from a have ne: "?ks \<noteq> []" by (auto simp: filter_empty_conv)
  then have "last ?ks \<in> set ?ks" by (rule last_in_set)
  then have "last ?ks < length refined" "i \<in> set (refined ! last ?ks)" by auto
  moreover have "owner_of refined i = Some (last ?ks)"
    unfolding owner_of_def using ne by (cases ?ks) simp_all
  ultimately show ?thesis by blast
qed

lemma owner_bound: "owner_of refined i = Some k \<Longrightarrow> k < length refined"
proof -
  assume a: "owner_of refined i = Some k"
  let ?ks = "filter (\<lambda>k. i \<in> set (refined ! k)) [0 ..< length refined]"
  from a have "?ks \<noteq> []" "k = last ?ks" unfolding owner_of_def by (cases ?ks; simp)+
  then have "k \<in> set ?ks" using last_in_set by blast
  then show ?thesis by simp
qed

text \<open>
  Joining what the required links span loses no record, and brings the two sub-clusters of
  every required pair together.
\<close>

lemma required_links_ok:
  assumes "list_all (\<lambda>c. c \<noteq> []) refined"
  shows "\<exists>out. apply_required_links refined required = Some out \<and>
    mset (concat out) = mset (concat refined) \<and> list_all (\<lambda>c. c \<noteq> []) out \<and>
    (\<forall>l r a b. (l, r) \<in> set required \<longrightarrow> owner_of refined l = Some a \<longrightarrow> owner_of refined r = Some b \<longrightarrow>
       (\<exists>c \<in> set out. set (refined ! a) \<union> set (refined ! b) \<subseteq> set c))"
proof (cases "required = []")
  case True
  with assms show ?thesis by (simp add: apply_required_links_def)
next
  case False
  let ?ids = "map str_nat [0 ..< length refined]"
  let ?s = "new_union_find ?ids"
  let ?ps = "required_unions refined required"
  have "distinct ?ids" by (auto simp: distinct_map inj_on_def dest: str_nat_inj)
  with new_union_find_ok [of ?ids] have s: "uf_inv ?s" "uf_ids ?s = ?ids"
    by (simp_all add: ordered_unique_id)
  have "set ?ps \<subseteq> set ?ids \<times> set ?ids"
    by (auto simp: required_unions_def split: option.splits dest: owner_bound [OF sym] owner_bound)
  then have sub: "set ?ps \<subseteq> set (uf_ids ?s) \<times> set (uf_ids ?s)" unfolding s(2) .
  from disjoint.run_closure [OF s(1) sub] obtain uf where
    uf: "union_all ?s ?ps = Some uf" "uf_inv uf" "set (uf_ids uf) = set ?ids"
      "disjoint.classes uf = (disjoint.classes ?s \<union> (set ?ps \<union> (set ?ps)\<inverse>))\<^sup>+"
    unfolding union_all_run s(2) by blast
  let ?xs = "zip [0 ..< length refined] refined"
  let ?g = "add_pairs [] (rooted uf ?xs)"
  have mem: "(k, ms) \<in> set ?xs \<Longrightarrow> str_nat k \<in> set (uf_ids uf)" for k ms
    unfolding uf(3) by (auto simp: in_set_zip)
  note g = add_pairs_inv [of "rooted uf ?xs"]
  let ?out = "sort (map (\<lambda>g. sort (snd g)) ?g)"
  have out: "apply_required_links refined required = Some ?out"
    using False uf(1) group_members_fold [OF uf(2) mem, where groups = "[]"]
    by (simp add: apply_required_links_def)
  have "mset (concat ?out) = mset (concat (map (\<lambda>g. sort (snd g)) ?g))" by (rule mset_concat_sort)
  also have "\<dots> = mset (concat (map snd ?g))" by (simp add: mset_concat comp_def)
  also have "\<dots> = mset (concat refined)" using g snd_rooted_zip [of uf refined] by simp
  finally have ms: "mset (concat ?out) = mset (concat refined)" .
  have ne: "list_all (\<lambda>c. c \<noteq> []) ?out" using g by (auto simp: list_all_iff sort_nil_iff)
  have "\<exists>c \<in> set ?out. set (refined ! a) \<union> set (refined ! b) \<subseteq> set c"
    if lr: "(l, r) \<in> set required" "owner_of refined l = Some a" "owner_of refined r = Some b" for l r a b
  proof -
    have a: "a < length refined" "b < length refined" using lr owner_bound by blast+
    have "(str_nat a, str_nat b) \<in> set ?ps"
      using lr by (force simp: required_unions_def)
    then have "(str_nat a, str_nat b) \<in> disjoint.classes uf" unfolding uf(4) by auto
    then have "same_set uf (str_nat a) (str_nat b)" by simp
    moreover have "str_nat a \<in> set (uf_ids uf)" "str_nat b \<in> set (uf_ids uf)"
      unfolding uf(3) using a by simp_all
    ultimately have eq: "rep uf (str_nat a) = rep uf (str_nat b)" using rep_same [OF uf(2)] by blast
    let ?r = "rep uf (str_nat a)"
    have in_g: "(?r, m) \<in> pairs_of ?g" if "m \<in> set (refined ! a) \<union> set (refined ! b)" for m
    proof -
      have "(?r, m) \<in> set (rooted uf ?xs)" unfolding rooted_zip using that a eq by auto
      with g show ?thesis by blast
    qed
    have "refined ! a \<noteq> []" using assms a(1) by (simp add: list_all_length)
    then obtain m0 where "m0 \<in> set (refined ! a)" by (meson last_in_set)
    with in_g obtain ms where ms: "(?r, ms) \<in> set ?g" by (auto simp: pairs_of_def)
    have "m \<in> set ms" if "m \<in> set (refined ! a) \<union> set (refined ! b)" for m
    proof -
      from in_g [OF that] obtain ms' where "(?r, ms') \<in> set ?g" "m \<in> set ms'" by (auto simp: pairs_of_def)
      moreover from this ms g have "ms' = ms" using eq_key_imp_eq_value by metis
      ultimately show ?thesis by simp
    qed
    moreover have "sort ms \<in> set ?out" using ms by force
    ultimately show ?thesis by (intro bexI [of _ "sort ms"]) auto
  qed
  with out ms ne show ?thesis by blast
qed

end
