(* ===== verification/Resolution_Laws.thy ===== *)
theory Resolution_Laws
  imports Cluster_Laws
begin

text \<open>
  The pass of \<open>graph/resolution/entity_resolution.py\<close> as a whole: it returns on every
  batch, places every record in one cluster, keeps what a human required, and its merges
  can be reversed exactly.
\<close>

section \<open>One cluster\<close>

lemma min_by_least:
  "min_by f x ys \<in> set (x # ys) \<and> (\<forall>y \<in> set (x # ys). f (min_by f x ys) \<le> f y)"
proof (induction f x ys rule: min_by.induct)
  case (1 f x)
  then show ?case by simp
next
  case (2 f x y ys)
  then show ?case by (cases "f y < f x") (auto intro: order_trans dest: less_imp_le)
qed

lemma elect_survivor_ok:
  assumes "records \<noteq> []"
  obtains s where "elect_survivor records = Inr s" "s \<in> set records"
    "\<forall>r \<in> set records. survivor_sort_key s \<le> survivor_sort_key r"
proof -
  from assms obtain r rs where rs: "records = r # rs" by (cases records) auto
  from min_by_least [of survivor_sort_key r rs] show ?thesis
    by (intro that [of "min_by survivor_sort_key r rs"]) (simp_all add: elect_survivor_def rs)
qed

definition known_as :: "(string \<Rightarrow> resolution_record option) \<Rightarrow> string list \<Rightarrow> bool" where
  "known_as by_id ids \<longleftrightarrow> (\<forall>i \<in> set ids. \<exists>r. by_id i = Some r \<and> res_id r = i)"

definition record_of :: "(string \<Rightarrow> resolution_record option) \<Rightarrow> string \<Rightarrow> resolution_record" where
  "record_of by_id i = the (by_id i)"

lemma lookup_all_known: "known_as by_id ids \<Longrightarrow> lookup_all by_id ids = Inr (map (record_of by_id) ids)"
  by (induction ids) (auto simp: known_as_def record_of_def)

lemma res_id_record_of: "known_as by_id ids \<Longrightarrow> i \<in> set ids \<Longrightarrow> res_id (record_of by_id i) = i"
  by (auto simp: known_as_def record_of_def)

lemma map_res_id_record_of: "known_as by_id ids \<Longrightarrow> map (res_id \<circ> record_of by_id) ids = ids"
  by (rule map_idI) (simp add: res_id_record_of)

lemma merge_into_simps [simp]:
  "res_id (merge_into s rs) = res_id s"
  "mention_count (merge_into s rs) = sum_list (map mention_count (s # rs))"
  by (simp_all add: merge_into_def Let_def)

text \<open>What a cluster is for the batch: who survives it, and what it counts.\<close>

definition cluster_ok :: "(string \<Rightarrow> resolution_record option) \<Rightarrow> resolved_cluster \<Rightarrow> bool" where
  "cluster_ok by_id c \<longleftrightarrow>
     survivor_id c \<in> set (cluster_ids c) \<and> res_id (canonical c) = survivor_id c \<and>
     sorted (cluster_ids c) \<and>
     mention_count (canonical c) = (\<Sum>i \<leftarrow> cluster_ids c. mention_count (record_of by_id i)) \<and>
     (\<forall>i \<in> set (cluster_ids c).
        survivor_sort_key (record_of by_id (survivor_id c)) \<le> survivor_sort_key (record_of by_id i))"

text \<open>What its merge record holds: every member as it was.\<close>

definition merge_ok :: "(string \<Rightarrow> resolution_record option) \<Rightarrow> resolved_cluster \<Rightarrow> merge_record \<Rightarrow> bool" where
  "merge_ok by_id c m \<longleftrightarrow>
     canonical_id m = survivor_id c \<and> absorbed_ids m \<noteq> [] \<and> sorted (absorbed_ids m) \<and>
     distinct (member_ids m) \<and> mset (member_ids m) = mset (cluster_ids c) \<and>
     snapshots m = map (record_of by_id) (cluster_ids c) \<and>
     canonical c = merge_into (record_of by_id (canonical_id m)) (map (record_of by_id) (absorbed_ids m))"

lemma sum_list_mset_eq: "mset xs = mset ys \<Longrightarrow> sum_list (map f xs) = sum_list (map (f :: 'a \<Rightarrow> int) ys)"
  by (metis mset_map sum_mset_sum_list)

lemma sort_key_record_of:
  "known_as by_id ids \<Longrightarrow> sort_key res_id (map (record_of by_id) ids) = map (record_of by_id) (sort ids)"
proof -
  assume k: "known_as by_id ids"
  then have ks: "known_as by_id (sort ids)" by (simp add: known_as_def)
  have "inj_on res_id (set (map (record_of by_id) ids))"
    using k by (auto simp: inj_on_def res_id_record_of)
  moreover have "map res_id (map (record_of by_id) (sort ids)) = sort ids"
    using map_res_id_record_of [OF ks] by simp
  moreover have "mset (map (record_of by_id) (sort ids)) = mset (map (record_of by_id) ids)" by simp
  ultimately show ?thesis using sort_key_inj_key_eq [of "map (record_of by_id) ids" "map (record_of by_id) (sort ids)" res_id]
    by simp
qed

lemma build_cluster_ok:
  assumes known: "known_as by_id ids" and ids: "distinct ids" "ids \<noteq> []"
  shows "\<exists>c m es. build_cluster rv ids by_id sim scores t who = Inr (c, m, es) \<and>
    cluster_ok by_id c \<and> mset (cluster_ids c) = mset ids \<and>
    (case m of None \<Rightarrow> True | Some m \<Rightarrow> merge_ok by_id c m)"
proof -
  let ?ms = "map (record_of by_id) ids"
  have look: "lookup_all by_id ids = Inr ?ms" by (rule lookup_all_known [OF known])
  have "?ms \<noteq> []" using ids(2) by simp
  then obtain s where s: "elect_survivor ?ms = Inr s" "s \<in> set ?ms"
    "\<forall>r \<in> set ?ms. survivor_sort_key s \<le> survivor_sort_key r" by (rule elect_survivor_ok)
  from s(2) obtain sid where sid: "sid \<in> set ids" "s = record_of by_id sid" by auto
  have rs: "res_id s = sid" using sid res_id_record_of [OF known] by simp
  let ?rest = "filter (\<lambda>i. i \<noteq> sid) ids"
  have krest: "known_as by_id ?rest" using known by (simp add: known_as_def)
  have "filter (\<lambda>r. res_id r \<noteq> sid) ?ms = map (record_of by_id) ?rest"
    using res_id_record_of [OF known] by (simp add: filter_map comp_def cong: filter_cong)
  then have ab: "sort_key res_id (filter (\<lambda>r. res_id r \<noteq> sid) ?ms) = map (record_of by_id) (sort ?rest)"
    using sort_key_record_of [OF krest] by simp
  have ms: "mset (sid # sort ?rest) = mset ids"
  proof -
    have "mset (sid # ?rest) = mset ids"
    proof (rule set_eq_iff_mset_eq_distinct [THEN iffD1])
      show "distinct (sid # ?rest)" "distinct ids" using ids by simp_all
      show "set (sid # ?rest) = set ids" using sid by auto
    qed
    then show ?thesis by simp
  qed
  note sum = sum_list_mset_eq [OF ms, of "\<lambda>i. mention_count (record_of by_id i)"]
  show ?thesis
  proof (cases "sort ?rest = []")
    case True
    then have "mset ids = mset [sid]" using ms by simp
    then have one: "ids = [sid]" by simp
    show ?thesis using look s(1) rs sid
      by (simp add: one build_cluster_def cluster_ok_def)
  next
    case False
    have abs: "map (res_id \<circ> record_of by_id) (sort ?rest) = sort ?rest"
      using map_res_id_record_of [of by_id "sort ?rest"] krest by (simp add: known_as_def)
    have all: "(\<Sum>i \<leftarrow> sort ids. mention_count (record_of by_id i)) = (\<Sum>i \<leftarrow> ids. mention_count (record_of by_id i))"
      by (rule sum_list_mset_eq) simp
    have o: "mention_count \<circ> record_of by_id = (\<lambda>i. mention_count (record_of by_id i))" by (simp add: comp_def)
    have d: "distinct (sid # sort ?rest)" using ids by simp
    have keys: "\<forall>i \<in> set ids. survivor_sort_key s \<le> survivor_sort_key (record_of by_id i)"
      using s(3) by simp
    show ?thesis using False ms d sum all s(1) rs sid keys
      by (simp add: build_cluster_def look ab abs o Let_def cluster_ok_def merge_ok_def
          member_ids_def sort_key_record_of [OF known])
  qed
qed

section \<open>Reversal\<close>

lemma filter_res_id:
  "known_as by_id ids \<Longrightarrow> distinct ids \<Longrightarrow> i \<in> set ids \<Longrightarrow>
     filter (\<lambda>s. res_id s = i) (map (record_of by_id) ids) = [record_of by_id i]"
proof -
  assume a: "known_as by_id ids" "distinct ids" "i \<in> set ids"
  then have "filter (\<lambda>s. res_id s = i) (map (record_of by_id) ids) =
      map (record_of by_id) (filter (\<lambda>j. j = i) ids)"
    using res_id_record_of [OF a(1)] by (simp add: filter_map comp_def cong: filter_cong)
  moreover have "filter (\<lambda>j. j = i) ids = [i]"
    using a(2,3) by (induction ids) (auto simp: filter_empty_conv)
  ultimately show ?thesis by simp
qed

lemma snapshots_for_ok:
  "\<forall>i \<in> set is. snapshot_for m i = Inr (f i) \<Longrightarrow> snapshots_for m is = Inr (map f is)"
  by (induction "is") simp_all

lemma sorted_set_id: "sorted xs \<Longrightarrow> distinct xs \<Longrightarrow> sorted_set xs = xs"
  by (simp add: sorted_set_def sorted_sort_id)

lemma sorted_pairs: "sorted xs \<Longrightarrow> sorted (map (\<lambda>i. (i, c)) xs)"
  by (induction xs) auto

lemma set_sorted_set [simp]: "set (sorted_set xs) = set xs"
  by (simp add: sorted_set_def)

lemma distinct_sorted_set [simp]: "distinct (sorted_set xs)"
  by (simp add: sorted_set_def)

lemma set_products:
  "set (concat (map (\<lambda>a. map (f a) ys) xs)) = {f a b |a b. a \<in> set xs \<and> b \<in> set ys}"
  by auto

text \<open>Detaching some of the members of a merge that \<open>build_cluster\<close> recorded.\<close>

definition kept_ids :: "merge_record \<Rightarrow> string list option \<Rightarrow> string list" where
  "kept_ids m separate =
     sorted_set (filter (\<lambda>i. case separate of None \<Rightarrow> False | Some S \<Rightarrow> i \<notin> set S) (absorbed_ids m))"

definition detached_ids :: "merge_record \<Rightarrow> string list option \<Rightarrow> string list" where
  "detached_ids m separate = sorted_set (case separate of None \<Rightarrow> absorbed_ids m | Some S \<Rightarrow> S)"

lemma unmerge_ok:
  assumes m: "merge_ok by_id c m" and known: "known_as by_id (cluster_ids c)"
    and s: "\<And>S. separate = Some S \<Longrightarrow> S \<noteq> [] \<and> set S \<subseteq> set (absorbed_ids m)"
  shows "unmerge m separate t who = Inr
    \<lparr>u_merge_id = m_id m, restored = map (record_of by_id) (detached_ids m separate),
     u_canonical = (let survivor = record_of by_id (canonical_id m) in
       if kept_ids m separate = [] then survivor
       else merge_into survivor (map (record_of by_id) (kept_ids m separate))),
     retracted_edges = map (\<lambda>i. (i, canonical_id m)) (detached_ids m separate),
     must_not_link = sort (remdups (concat (map (\<lambda>t. map (pair_key t)
       (canonical_id m # kept_ids m separate)) (detached_ids m separate)))),
     u_decided_by = who, u_decided_at = t\<rparr>"
proof -
  have d: "distinct (cluster_ids c)" and sub: "set (member_ids m) = set (cluster_ids c)"
    using m mset_eq_imp_distinct_iff mset_eq_setD unfolding merge_ok_def by metis+
  have snap: "snapshot_for m i = Inr (record_of by_id i)" if "i \<in> set (member_ids m)" for i
    using filter_res_id [OF known d, of i] that m sub by (simp add: snapshot_for_def merge_ok_def)
  have "set (detached_ids m separate) \<subseteq> set (absorbed_ids m)"
    using s by (auto simp: detached_ids_def split: option.splits)
  then have out: "snapshots_for m (detached_ids m separate) = Inr (map (record_of by_id) (detached_ids m separate))"
    by (intro snapshots_for_ok ballI snap) (auto simp: member_ids_def)
  have kept: "snapshots_for m (kept_ids m separate) = Inr (map (record_of by_id) (kept_ids m separate))"
    by (intro snapshots_for_ok ballI snap) (auto simp: member_ids_def kept_ids_def)
  have sorted: "sort (map (\<lambda>i. (i, canonical_id m)) (detached_ids m separate)) =
      map (\<lambda>i. (i, canonical_id m)) (detached_ids m separate)"
    by (intro sorted_sort_id sorted_pairs) (simp add: detached_ids_def sorted_set_def)
  have "canonical_id m \<notin> set (absorbed_ids m)" "absorbed_ids m \<noteq> []"
    using m by (auto simp: merge_ok_def member_ids_def)
  moreover have "snapshot_for m (canonical_id m) = Inr (record_of by_id (canonical_id m))"
    by (rule snap) (simp add: member_ids_def)
  ultimately show ?thesis
  proof (cases separate)
    case None
    then show ?thesis using out kept sorted \<open>canonical_id m \<notin> _\<close> \<open>absorbed_ids m \<noteq> []\<close>
        \<open>snapshot_for m (canonical_id m) = _\<close>
      by (simp add: unmerge_def Let_def detached_ids_def kept_ids_def)
  next
    case (Some S)
    with s have S: "S \<noteq> []" "set S \<subseteq> set (absorbed_ids m)" by auto
    then show ?thesis using Some out kept sorted \<open>canonical_id m \<notin> _\<close>
        \<open>snapshot_for m (canonical_id m) = _\<close>
      by (auto simp: unmerge_def Let_def detached_ids_def kept_ids_def)
  qed
qed

lemma build_cluster_Inr:
  assumes "build_cluster rv ids by_id sim scores t who = Inr (c, Some m, es)"
    and "known_as by_id ids" and "distinct ids"
  shows "merge_ok by_id c m" and "mset (cluster_ids c) = mset ids" and "cluster_ok by_id c"
proof -
  have "ids \<noteq> []" using assms(1) by (auto simp: build_cluster_def elect_survivor_def)
  from build_cluster_ok [OF assms(2,3) this, of rv sim scores t who] assms(1)
  show "merge_ok by_id c m" "mset (cluster_ids c) = mset ids" "cluster_ok by_id c" by auto
qed

lemma known_as_mset: "mset xs = mset ys \<Longrightarrow> known_as by_id xs \<longleftrightarrow> known_as by_id ys"
  unfolding known_as_def by (metis mset_eq_setD)

text \<open>
  Reversing a merge restores every record exactly as it entered the batch: what is
  restored, with the canonical record, is the members of the cluster, and the canonical id
  stays the survivor's.
\<close>

lemma unmerge_restores:
  assumes "build_cluster rv ids by_id sim scores t who = Inr (c, Some m, es)"
    and "known_as by_id ids" and "distinct ids"
  shows "\<exists>u. unmerge m None t' who' = Inr u \<and> res_id (u_canonical u) = survivor_id c \<and>
    mset (u_canonical u # restored u) = mset (map (record_of by_id) ids)"
proof -
  note b = build_cluster_Inr [OF assms]
  from unmerge_ok [OF b(1), of None t' who'] known_as_mset [OF b(2)] assms(2)
  obtain u where u: "unmerge m None t' who' = Inr u"
    "u_canonical u = record_of by_id (canonical_id m)"
    "restored u = map (record_of by_id) (detached_ids m None)"
    by (auto simp: kept_ids_def sorted_set_def)
  have "detached_ids m None = absorbed_ids m"
    using b(1) by (simp add: detached_ids_def merge_ok_def member_ids_def sorted_set_id)
  then have "u_canonical u # restored u = map (record_of by_id) (member_ids m)"
    by (simp add: u member_ids_def)
  moreover have "mset (member_ids m) = mset ids" using b by (simp add: merge_ok_def)
  ultimately have "mset (u_canonical u # restored u) = mset (map (record_of by_id) ids)"
    by (metis mset_map)
  moreover have "res_id (u_canonical u) = survivor_id c"
  proof -
    have "canonical_id m \<in> set ids" using \<open>mset (member_ids m) = _\<close> mset_eq_setD
      unfolding member_ids_def by (metis list.set_intros(1))
    then show ?thesis using res_id_record_of [OF assms(2)] b(1) u(2) by (simp add: merge_ok_def)
  qed
  ultimately show ?thesis using u(1) by blast
qed

text \<open>
  Detaching some members of a merge restores exactly those, keeps the other members
  and the canonical id together, conserves the mentions, and forbids every pair of a
  detached and a kept member and no other.
\<close>

theorem unmerge_separates:
  assumes "build_cluster rv ids by_id sim scores t who = Inr (c, Some m, es)"
    and "known_as by_id ids" and "distinct ids"
    and "S \<noteq> []" and "set S \<subseteq> set ids - {survivor_id c}"
  shows "\<exists>u. unmerge m (Some S) t' who' = Inr u \<and> res_id (u_canonical u) = survivor_id c \<and>
    set (restored u) = record_of by_id ` set S \<and>
    mention_count (u_canonical u) + (\<Sum>r \<leftarrow> restored u. mention_count r) = mention_count (canonical c) \<and>
    set (must_not_link u) = {pair_key a b |a b. a \<in> set S \<and> b \<in> set ids - set S}"
proof -
  note b = build_cluster_Inr [OF assms(1-3)]
  have mem: "mset (member_ids m) = mset ids" using b by (simp add: merge_ok_def)
  then have smem: "insert (survivor_id c) (set (absorbed_ids m)) = set ids"
    using b(1) mset_eq_setD [OF mem] by (simp add: merge_ok_def member_ids_def)
  have cid: "canonical_id m = survivor_id c" using b(1) by (simp add: merge_ok_def)
  let ?out = "detached_ids m (Some S)" and ?in = "kept_ids m (Some S)"
  have S: "set S \<subseteq> set (absorbed_ids m)" using assms(5) smem by auto
  with unmerge_ok [OF b(1), of "Some S" t' who'] known_as_mset [OF b(2)] assms(2,4)
  obtain u where u: "unmerge m (Some S) t' who' = Inr u"
    "u_canonical u = (let survivor = record_of by_id (canonical_id m) in
       if ?in = [] then survivor else merge_into survivor (map (record_of by_id) ?in))"
    "restored u = map (record_of by_id) ?out"
    "must_not_link u = sort (remdups (concat (map (\<lambda>t. map (pair_key t) (canonical_id m # ?in)) ?out)))"
    by auto
  have dm: "distinct (canonical_id m # absorbed_ids m)"
    using b(1) unfolding merge_ok_def member_ids_def by (elim conjE)
  have sets: "set ?out = set S" "set ?in = set (absorbed_ids m) - set S" "distinct ?out" "distinct ?in"
    by (auto simp: detached_ids_def kept_ids_def)
  have "mset (canonical_id m # ?in @ ?out) = mset ids"
    unfolding mem [symmetric] member_ids_def
    using dm sets S by (intro set_eq_iff_mset_eq_distinct [THEN iffD1]) auto
  note count = sum_list_mset_eq [OF this, of "\<lambda>i. mention_count (record_of by_id i)"]
  have "mention_count (canonical c) = (\<Sum>i \<leftarrow> ids. mention_count (record_of by_id i))"
    using b(3) sum_list_mset_eq [OF b(2)] by (simp add: cluster_ok_def)
  with count have "mention_count (u_canonical u) + (\<Sum>r \<leftarrow> restored u. mention_count r) =
      mention_count (canonical c)"
    by (cases "?in = []") (simp_all add: u Let_def comp_def)
  moreover have "res_id (u_canonical u) = survivor_id c"
    using res_id_record_of [OF assms(2), of "survivor_id c"] smem by (auto simp: u Let_def cid)
  moreover have "set (must_not_link u) = {pair_key a b |a b. a \<in> set S \<and> b \<in> set ids - set S}"
  proof -
    have "set (canonical_id m # ?in) = set ids - set S"
      using sets(2) assms(5) by (auto simp: cid smem [symmetric])
    then show ?thesis by (simp only: u(4) set_sort set_remdups set_products sets(1))
  qed
  ultimately show ?thesis using u(1,3) sets by auto
qed

section \<open>Scoring\<close>

text \<open>
  What scoring accepts lies within the batch, and a required pair that has been scored has
  been accepted.
\<close>

definition scored_ok ::
  "(string \<Rightarrow> resolution_record option) \<Rightarrow> pair set \<Rightarrow> scoring_state \<Rightarrow> bool" where
  "scored_ok by_id required st \<longleftrightarrow>
     set (accepted st) \<subseteq> dom by_id \<times> dom by_id \<and>
     (\<forall>q \<in> required. similarity st q \<noteq> None \<longrightarrow> q \<in> set (accepted st))"

lemma score_candidate_ok:
  "scored_ok by_id required st \<Longrightarrow> forbidden \<inter> required = {} \<Longrightarrow>
     scored_ok by_id required (score_candidate rv index by_id forbidden required st p)"
  by (cases "pair_key (fst p) (snd p)")
    (auto simp: scored_ok_def score_candidate_def Let_def split: option.splits)

lemma force_link_ok:
  "scored_ok by_id required st \<Longrightarrow> scored_ok by_id required (force_link by_id st q)"
  by (cases q) (auto simp: scored_ok_def force_link_def)

lemma force_link_accepts:
  "scored_ok by_id required st \<Longrightarrow> q \<in> required \<Longrightarrow> fst q \<in> dom by_id \<Longrightarrow> snd q \<in> dom by_id \<Longrightarrow>
     q \<in> set (accepted (force_link by_id st q))"
  by (auto simp: scored_ok_def force_link_def)

lemma force_link_keeps: "q \<in> set (accepted st) \<Longrightarrow> q \<in> set (accepted (force_link by_id st p))"
  by (auto simp: force_link_def)

lemma force_links_keep:
  "q \<in> set (accepted st) \<Longrightarrow> q \<in> set (accepted (foldl (force_link by_id) st ps))"
  by (induction ps arbitrary: st) (simp_all add: force_link_keeps)

lemma force_links_ok:
  "scored_ok by_id required st \<Longrightarrow> set ps \<subseteq> required \<Longrightarrow>
     scored_ok by_id required (foldl (force_link by_id) st ps) \<and>
     (\<forall>q \<in> set ps. fst q \<in> dom by_id \<and> snd q \<in> dom by_id \<longrightarrow>
        q \<in> set (accepted (foldl (force_link by_id) st ps)))"
proof (induction ps arbitrary: st)
  case Nil
  then show ?case by simp
next
  case (Cons p ps)
  from Cons.IH [OF force_link_ok [OF Cons.prems(1)], of p] Cons.prems(2)
    force_link_accepts [OF Cons.prems(1), of p] force_links_keep [of p "force_link by_id st p" by_id ps]
  show ?case by auto
qed

lemma score_pairs_ok:
  assumes "forbidden \<inter> set required = {}"
  shows "set (accepted (score_pairs rv index by_id forbidden required)) \<subseteq> dom by_id \<times> dom by_id"
    and "q \<in> set required \<Longrightarrow> fst q \<in> dom by_id \<Longrightarrow> snd q \<in> dom by_id \<Longrightarrow>
      q \<in> set (accepted (score_pairs rv index by_id forbidden required))"
proof -
  have start: "scored_ok by_id (set required) empty_scoring"
    by (simp add: scored_ok_def empty_scoring_def)
  have "scored_ok by_id (set required) st \<Longrightarrow>
      scored_ok by_id (set required) (foldl (score_candidate rv index by_id forbidden (set required)) st ps)"
    for st ps
    by (induction ps arbitrary: st) (simp_all add: score_candidate_ok assms)
  from force_links_ok [OF this [OF start], of required "candidate_pairs index"]
  have "scored_ok by_id (set required) (score_pairs rv index by_id forbidden required)"
    "\<forall>q \<in> set required. fst q \<in> dom by_id \<and> snd q \<in> dom by_id \<longrightarrow>
       q \<in> set (accepted (score_pairs rv index by_id forbidden required))"
    by (simp_all add: score_pairs_def)
  then show "set (accepted (score_pairs rv index by_id forbidden required)) \<subseteq> dom by_id \<times> dom by_id"
    and "q \<in> set required \<Longrightarrow> fst q \<in> dom by_id \<Longrightarrow> snd q \<in> dom by_id \<Longrightarrow>
      q \<in> set (accepted (score_pairs rv index by_id forbidden required))"
    by (simp_all add: scored_ok_def)
qed

section \<open>The pass\<close>

text \<open>What the loops over clusters and over components keep.\<close>

definition good_ids :: "(string \<Rightarrow> resolution_record option) \<Rightarrow> string list \<Rightarrow> bool" where
  "good_ids by_id ids \<longleftrightarrow> known_as by_id ids \<and> distinct ids \<and> ids \<noteq> []"

definition clustered ::
  "(string \<Rightarrow> resolution_record option) \<Rightarrow> pass_state \<Rightarrow> string list list \<Rightarrow> pass_state \<Rightarrow> bool" where
  "clustered by_id st0 idss st \<longleftrightarrow>
     (\<exists>cs. pass_clusters st = pass_clusters st0 @ cs \<and>
        list_all2 (\<lambda>c ids. cluster_ok by_id c \<and> mset (cluster_ids c) = mset ids) cs idss \<and>
        set (pass_merges st) \<subseteq> set (pass_merges st0) \<union> {m. \<exists>c \<in> set cs. merge_ok by_id c m})"

definition adding_inv ::
  "(string \<Rightarrow> resolution_record option) \<Rightarrow> pass_state \<Rightarrow> string list list \<Rightarrow> pass_state \<Rightarrow> string list list \<Rightarrow> bool" where
  "adding_inv by_id st0 done st rest \<longleftrightarrow> clustered by_id st0 done st \<and> list_all (good_ids by_id) rest"

interpretation adding: result_loop
  "add_cluster rv by_id scores t who" "adding_inv by_id st0" for rv by_id scores t who st0
proof
  fix "done" st x rest
  assume "adding_inv by_id st0 done st (x # rest)"
  then have inv: "clustered by_id st0 done st" and x: "good_ids by_id x"
    and rest: "list_all (good_ids by_id) rest" by (simp_all add: adding_inv_def)
  from x build_cluster_ok [of by_id x rv "pass_similarity st" scores t who] obtain c m es where
    b: "build_cluster rv x by_id (pass_similarity st) scores t who = Inr (c, m, es)"
      "cluster_ok by_id c" "mset (cluster_ids c) = mset x"
      "case m of None \<Rightarrow> True | Some m \<Rightarrow> merge_ok by_id c m"
    by (auto simp: good_ids_def)
  from inv obtain cs where cs: "pass_clusters st = pass_clusters st0 @ cs"
    "list_all2 (\<lambda>c ids. cluster_ok by_id c \<and> mset (cluster_ids c) = mset ids) cs done"
    "set (pass_merges st) \<subseteq> set (pass_merges st0) \<union> {m. \<exists>c \<in> set cs. merge_ok by_id c m}"
    by (auto simp: clustered_def)
  let ?t = "st\<lparr>pass_clusters := pass_clusters st @ [c],
    pass_merges := pass_merges st @ (case m of None \<Rightarrow> [] | Some m \<Rightarrow> [m]), pass_edges := pass_edges st @ es\<rparr>"
  have "clustered by_id st0 (done @ [x]) ?t"
    unfolding clustered_def using cs b(2-4)
    by (intro exI [of _ "cs @ [c]"]) (auto intro: list_all2_appendI split: option.splits)
  then have "adding_inv by_id st0 (done @ [x]) ?t rest" using rest by (simp add: adding_inv_def)
  then show "\<exists>t'. add_cluster rv by_id scores t who st x = Inr t' \<and> adding_inv by_id st0 (done @ [x]) t' rest"
    by (simp add: add_cluster_def b(1))
qed

lemma coherent_nonempty: "coherent sim least c \<Longrightarrow> c \<noteq> []"
  by (induction rule: coherent.induct) (auto simp: join_clusters_def sort_nil_iff)

lemma refine_and_link_ok:
  assumes "part \<noteq> []"
  shows "\<exists>sim' refined. refine_and_link rv by_id forbidden required least sim part = Some (sim', refined) \<and>
    mset (concat refined) = mset part \<and> list_all (\<lambda>c. c \<noteq> []) refined \<and>
    (\<forall>l r. (l, r) \<in> set required \<longrightarrow> l \<in> set part \<longrightarrow> r \<in> set part \<longrightarrow>
       (\<exists>c \<in> set refined. l \<in> set c \<and> r \<in> set c))"
proof (cases "MAX_REFINEMENT_COMPONENT < length part")
  case True
  with assms show ?thesis by (simp add: refine_and_link_def)
next
  case False
  let ?sim = "score_missing_pairs rv by_id forbidden sim part"
  let ?refined = "refine_component part ?sim least"
  from refine_result [of part ?sim least] have ms: "mset (concat ?refined) = mset part"
    and ne: "list_all (\<lambda>c. c \<noteq> []) ?refined"
    by (auto simp: refine_inv_def list_all_iff dest: coherent_nonempty)
  from required_links_ok [OF ne, of required] obtain out where
    out: "apply_required_links ?refined required = Some out"
      "mset (concat out) = mset (concat ?refined)" "list_all (\<lambda>c. c \<noteq> []) out"
      "\<And>l r a b. (l, r) \<in> set required \<Longrightarrow> owner_of ?refined l = Some a \<Longrightarrow>
         owner_of ?refined r = Some b \<Longrightarrow> \<exists>c \<in> set out. set (?refined ! a) \<union> set (?refined ! b) \<subseteq> set c"
    by blast
  have owner: "\<exists>k. owner_of ?refined i = Some k \<and> i \<in> set (?refined ! k)" if "i \<in> set part" for i
  proof -
    from that mset_eq_setD [OF ms] have "i \<in> set (concat ?refined)" by simp
    then obtain c where "c \<in> set ?refined" "i \<in> set c" by auto
    then obtain k where "k < length ?refined" "i \<in> set (?refined ! k)" by (metis in_set_conv_nth)
    with owner_some show ?thesis by blast
  qed
  have "\<exists>c \<in> set out. l \<in> set c \<and> r \<in> set c"
    if lr: "(l, r) \<in> set required" "l \<in> set part" "r \<in> set part" for l r
  proof -
    from owner [OF lr(2)] owner [OF lr(3)] obtain a b where
      ab: "owner_of ?refined l = Some a" "l \<in> set (?refined ! a)"
        "owner_of ?refined r = Some b" "r \<in> set (?refined ! b)" by blast
    from out(4) [OF lr(1) ab(1,3)] ab(2,4) show ?thesis by blast
  qed
  with False out(1-3) ms show ?thesis by (simp add: refine_and_link_def Let_def)
qed

definition together :: "resolved_cluster list \<Rightarrow> string \<Rightarrow> string \<Rightarrow> bool" where
  "together cs l r \<longleftrightarrow> (\<exists>c \<in> set cs. l \<in> set (cluster_ids c) \<and> r \<in> set (cluster_ids c))"

definition resolving_inv ::
  "(string \<Rightarrow> resolution_record option) \<Rightarrow> pair list \<Rightarrow> string list list \<Rightarrow> pass_state \<Rightarrow> string list list \<Rightarrow> bool" where
  "resolving_inv by_id required done st rest \<longleftrightarrow>
     mset (concat (map cluster_ids (pass_clusters st))) = mset (concat done) \<and>
     list_all (cluster_ok by_id) (pass_clusters st) \<and>
     (\<forall>m \<in> set (pass_merges st). \<exists>c \<in> set (pass_clusters st). merge_ok by_id c m) \<and>
     (\<forall>l r part. (l, r) \<in> set required \<longrightarrow> part \<in> set done \<longrightarrow> l \<in> set part \<longrightarrow> r \<in> set part \<longrightarrow>
        together (pass_clusters st) l r) \<and>
     list_all (good_ids by_id) rest"

lemma list_all2_bex: "list_all2 P xs ys \<Longrightarrow> y \<in> set ys \<Longrightarrow> \<exists>x \<in> set xs. P x y"
  by (induction rule: list_all2_induct) auto

lemma clustered_mset:
  "list_all2 (\<lambda>c ids. P c \<and> mset (cluster_ids c) = mset ids) cs idss \<Longrightarrow>
     mset (concat (map cluster_ids cs)) = mset (concat idss)"
  by (induction rule: list_all2_induct) simp_all

lemma good_parts:
  assumes "good_ids by_id part" and "mset (concat refined) = mset part" and "list_all (\<lambda>c. c \<noteq> []) refined"
  shows "list_all (good_ids by_id) refined"
proof -
  have "distinct (concat refined)"
    using assms(1,2) mset_eq_imp_distinct_iff unfolding good_ids_def by metis
  then have "distinct c" if "c \<in> set refined" for c using that by (auto simp: distinct_concat_iff)
  moreover have "set c \<subseteq> set part" if "c \<in> set refined" for c
    using that mset_eq_setD [OF assms(2)] by auto
  ultimately show ?thesis using assms(1,3) by (fastforce simp: list_all_iff good_ids_def known_as_def)
qed

interpretation resolving: result_loop
  "resolve_component rv by_id forbidden required least scores t who" "resolving_inv by_id required"
  for rv by_id forbidden required least scores t who
proof
  fix "done" and st :: pass_state and part rest
  assume "resolving_inv by_id required done st (part # rest)"
  then have inv: "mset (concat (map cluster_ids (pass_clusters st))) = mset (concat done)"
    "list_all (cluster_ok by_id) (pass_clusters st)"
    "\<forall>m \<in> set (pass_merges st). \<exists>c \<in> set (pass_clusters st). merge_ok by_id c m"
    "\<And>l r part. (l, r) \<in> set required \<Longrightarrow> part \<in> set done \<Longrightarrow> l \<in> set part \<Longrightarrow> r \<in> set part \<Longrightarrow>
        together (pass_clusters st) l r"
    and part: "good_ids by_id part" and rest: "list_all (good_ids by_id) rest"
    by (auto simp: resolving_inv_def)
  from part refine_and_link_ok [of part rv by_id forbidden required least "pass_similarity st"]
  obtain sim refined where r:
    "refine_and_link rv by_id forbidden required least (pass_similarity st) part = Some (sim, refined)"
    "mset (concat refined) = mset part" "list_all (\<lambda>c. c \<noteq> []) refined"
    "\<And>l r. (l, r) \<in> set required \<Longrightarrow> l \<in> set part \<Longrightarrow> r \<in> set part \<Longrightarrow>
       \<exists>c \<in> set refined. l \<in> set c \<and> r \<in> set c"
    by (auto simp: good_ids_def)
  let ?st = "st\<lparr>pass_similarity := sim, pass_unrefined := pass_unrefined st @
    (if MAX_REFINEMENT_COMPONENT < length part then [part] else [])\<rparr>"
  have "adding_inv by_id ?st [] ?st refined"
    using good_parts [OF part r(2,3)] by (simp add: adding_inv_def clustered_def)
  from adding.loop_returns [OF this, of rv scores t who] obtain u where
    u: "fold_res (add_cluster rv by_id scores t who) ?st refined = Inr u" "clustered by_id ?st refined u"
    by (auto simp: adding_inv_def)
  then obtain cs where cs: "pass_clusters u = pass_clusters st @ cs"
    "list_all2 (\<lambda>c ids. cluster_ok by_id c \<and> mset (cluster_ids c) = mset ids) cs refined"
    "set (pass_merges u) \<subseteq> set (pass_merges st) \<union> {m. \<exists>c \<in> set cs. merge_ok by_id c m}"
    by (auto simp: clustered_def)
  let ?u = "u\<lparr>pass_review := pass_review u @
    (if 1 < length refined then split_review_items part refined scores else [])\<rparr>"
  have "mset (concat (map cluster_ids (pass_clusters ?u))) = mset (concat (done @ [part]))"
    using clustered_mset [OF cs(2)] inv(1) r(2) by (simp add: cs(1))
  moreover have "list_all (cluster_ok by_id) (pass_clusters ?u)"
    using cs(1,2) inv(2) by (auto simp: list_all_iff list_all2_conv_all_nth in_set_conv_nth)
  moreover have "\<forall>m \<in> set (pass_merges ?u). \<exists>c \<in> set (pass_clusters ?u). merge_ok by_id c m"
    using cs(1,3) inv(3) by auto
  moreover have "together (pass_clusters ?u) l r'"
    if lr: "(l, r') \<in> set required" "c \<in> set (done @ [part])" "l \<in> set c" "r' \<in> set c" for l r' c
  proof (cases "c \<in> set done")
    case True
    from inv(4) [OF lr(1) True lr(3,4)] show ?thesis by (auto simp: together_def cs(1))
  next
    case False
    with lr r(4) obtain ids where ids: "ids \<in> set refined" "l \<in> set ids" "r' \<in> set ids" by auto
    from list_all2_bex [OF cs(2) ids(1)] obtain c' where "c' \<in> set cs" "mset (cluster_ids c') = mset ids"
      by blast
    moreover from this ids mset_eq_setD have "l \<in> set (cluster_ids c')" "r' \<in> set (cluster_ids c')" by blast+
    ultimately show ?thesis by (auto simp: together_def cs(1))
  qed
  ultimately have "resolving_inv by_id required (done @ [part]) ?u rest"
    using rest unfolding resolving_inv_def by blast
  then show "\<exists>u. resolve_component rv by_id forbidden required least scores t who st part = Inr u \<and>
      resolving_inv by_id required (done @ [part]) u rest"
    by (simp add: resolve_component_def r(1) u(1))
qed

lemma map_of_records:
  assumes "distinct (map res_id rs)"
  shows "known_as (map_of (map (\<lambda>r. (res_id r, r)) rs)) (map res_id rs)"
    and "r \<in> set rs \<Longrightarrow> record_of (map_of (map (\<lambda>r. (res_id r, r)) rs)) (res_id r) = r"
    and "dom (map_of (map (\<lambda>r. (res_id r, r)) rs)) = res_id ` set rs"
proof -
  have at: "map_of (map (\<lambda>r. (res_id r, r)) rs) (res_id r) = Some r" if "r \<in> set rs" for r
    by (rule map_of_is_SomeI) (use assms that in \<open>auto simp: comp_def\<close>)
  then show "known_as (map_of (map (\<lambda>r. (res_id r, r)) rs)) (map res_id rs)"
    by (auto simp: known_as_def)
  from at show "r \<in> set rs \<Longrightarrow> record_of (map_of (map (\<lambda>r. (res_id r, r)) rs)) (res_id r) = r"
    by (simp add: record_of_def)
  show "dom (map_of (map (\<lambda>r. (res_id r, r)) rs)) = res_id ` set rs"
    by (force simp: dom_map_of_conv_image_fst)
qed

text \<open>What the pass guarantees of its result, whatever the matcher and the index.\<close>

definition resolved ::
  "resolution_record list \<Rightarrow> pair list \<Rightarrow> pair list \<Rightarrow> resolution_result \<Rightarrow> bool" where
  "resolved records links bans res \<longleftrightarrow>
     (let by_id = map_of (map (\<lambda>r. (res_id r, r)) (sort_key res_id records)) in
      mset (concat (map cluster_ids (clusters res))) = mset (map res_id records) \<and>
      list_all (cluster_ok by_id) (clusters res) \<and>
      (\<forall>m \<in> set (merges res). \<exists>c \<in> set (clusters res). merge_ok by_id c m) \<and>
      (\<forall>q \<in> set (pair_keys links) - set (pair_keys bans).
         fst q \<in> res_id ` set records \<longrightarrow> snd q \<in> res_id ` set records \<longrightarrow>
         together (clusters res) (fst q) (snd q)))"

lemma mset_concat_map_sort_key:
  "mset (concat (map f (sort_key k xs))) = mset (concat (map f xs))"
  by (simp add: mset_concat) (metis mset_map mset_sort sum_mset_sum_list)

lemma resolve_returns:
  assumes "distinct (map res_id records)"
  shows "\<exists>res. resolve rv index records links bans t who least = Inr res \<and>
    resolved records links bans res"
proof -
  let ?rs = "sort_key res_id records"
  let ?ids = "map res_id ?rs"
  let ?by_id = "map_of (map (\<lambda>r. (res_id r, r)) ?rs)"
  let ?forbidden = "set (pair_keys bans)"
  let ?required = "sort (remdups (filter (\<lambda>p. p \<notin> ?forbidden) (pair_keys links)))"
  let ?sc = "score_pairs rv index ?by_id ?forbidden ?required"
  have ids: "mset ?ids = mset (map res_id records)" by simp
  then have d: "distinct ?ids" using assms mset_eq_imp_distinct_iff by blast
  note by_id = map_of_records [OF d]
  have "?forbidden \<inter> set ?required = {}" by auto
  note sc = score_pairs_ok [OF this, where rv = rv and index = index and by_id = ?by_id]
  have "set (accepted ?sc) \<subseteq> set ?ids \<times> set ?ids" using sc(1) by_id(3) by simp
  from provisional_ok [OF d this] obtain parts where
    p: "provisional ?ids (accepted ?sc) = Some parts" "is_partition_of parts ?ids"
      "\<And>x y. x \<in> set ?ids \<Longrightarrow> y \<in> set ?ids \<Longrightarrow>
        (\<exists>c \<in> set parts. x \<in> set c \<and> y \<in> set c) \<longleftrightarrow> connected (accepted ?sc) x y" by blast
  have pm: "mset (concat parts) = mset ?ids" "list_all (\<lambda>c. c \<noteq> []) parts"
    using p(2) by (auto simp: is_partition_of_def list_all_iff)
  let ?st = "\<lparr>pass_similarity = similarity ?sc, pass_clusters = [], pass_merges = [],
    pass_edges = [], pass_review = [], pass_unrefined = []\<rparr> :: pass_state"
  have "list_all (good_ids ?by_id) parts"
  proof (cases "?ids = []")
    case True
    then have "parts = []" using pm by (cases parts) auto
    then show ?thesis by simp
  next
    case False
    with by_id(1) d have "good_ids ?by_id ?ids" by (simp add: good_ids_def)
    from good_parts [OF this pm] show ?thesis .
  qed
  then have "resolving_inv ?by_id ?required [] ?st parts" by (simp add: resolving_inv_def)
  from resolving.loop_returns [OF this, of rv ?forbidden least "scores_by_pair ?sc" t who] obtain u where
    u: "fold_res (resolve_component rv ?by_id ?forbidden ?required least (scores_by_pair ?sc) t who) ?st parts = Inr u"
      "resolving_inv ?by_id ?required parts u []" by auto
  let ?res = "\<lparr>clusters = sort_key survivor_id (pass_clusters u),
     merges = sort_key canonical_id (pass_merges u),
     same_as_edges = sort_key (\<lambda>e. (to_id e, from_id e)) (pass_edges u),
     review_items = dedupe_reviews
       (sort_key (\<lambda>i. (review_pair i, reason i)) (review ?sc @ pass_review u)),
     unrefined_components = pass_unrefined u\<rparr>"
  have r: "resolve rv index records links bans t who least = Inr ?res"
    using d p(1) u(1) by (simp add: resolve_def Let_def)
  have "mset (concat (map cluster_ids (clusters ?res))) = mset (map res_id records)"
    using u(2) pm(1) ids by (simp add: resolving_inv_def mset_concat_map_sort_key)
  moreover have "list_all (cluster_ok ?by_id) (clusters ?res)"
    using u(2) by (simp add: resolving_inv_def list_all_iff)
  moreover have "\<forall>m \<in> set (merges ?res). \<exists>c \<in> set (clusters ?res). merge_ok ?by_id c m"
    using u(2) by (simp add: resolving_inv_def)
  moreover have "together (clusters ?res) l r'"
    if q: "(l, r') \<in> set (pair_keys links)" "(l, r') \<notin> ?forbidden" "l \<in> res_id ` set records"
      "r' \<in> res_id ` set records" for l r'
  proof -
    from q have req: "(l, r') \<in> set ?required" by simp
    have "(l, r') \<in> set (accepted ?sc)" using sc(2) [OF req] q(3,4) by_id(3) by simp
    then have "connected (accepted ?sc) l r'" by (auto simp: connected_def)
    with p(3) [of l r'] q(3,4) obtain part where "part \<in> set parts" "l \<in> set part" "r' \<in> set part" by auto
    with u(2) req have "together (pass_clusters u) l r'" unfolding resolving_inv_def by blast
    then show ?thesis by (simp add: together_def)
  qed
  ultimately have "resolved records links bans ?res"
    unfolding resolved_def Let_def by auto
  with r show ?thesis by blast
qed

section \<open>What the pass promises\<close>

lemma resolve_raises: "\<not> distinct (map res_id records) \<Longrightarrow>
    resolve rv index records links bans t who least = Inl ValueError"
  using mset_eq_imp_distinct_iff [of "map res_id (sort_key res_id records)" "map res_id records"]
  by (simp add: resolve_def Let_def)

lemma resolve_Inr:
  assumes "resolve rv index records links bans t who least = Inr res"
  shows "resolved records links bans res" and "distinct (map res_id records)"
proof -
  show d: "distinct (map res_id records)"
    by (rule ccontr) (use assms in \<open>simp add: resolve_raises\<close>)
  from resolve_returns [OF d, of rv index links bans t who least] assms
  show "resolved records links bans res" by simp
qed

lemma sum_list_concat_mset:
  "mset (concat (map f cs)) = mset xs \<Longrightarrow> (\<Sum>c \<leftarrow> cs. \<Sum>i \<leftarrow> f c. g i) = (\<Sum>i \<leftarrow> xs. (g i :: int))"
proof -
  have "(\<Sum>c \<leftarrow> cs. \<Sum>i \<leftarrow> f c. g i) = (\<Sum>i \<leftarrow> concat (map f cs). g i)" by (induction cs) simp_all
  also assume "mset (concat (map f cs)) = mset xs"
  then have "(\<Sum>i \<leftarrow> concat (map f cs). g i) = (\<Sum>i \<leftarrow> xs. g i)" by (rule sum_list_mset_eq)
  finally show ?thesis .
qed

text \<open>
  C25. The pass returns on every batch without a repeated id, whatever the matcher, the
  index and the overrides, and loses nothing: every record is in exactly one cluster, a
  cluster is led by one of its records, and the mentions of the canonical records add up
  to the mentions of the batch.
\<close>

theorem resolve_loses_nothing:
  assumes "distinct (map res_id records)"
  shows "\<exists>res. resolve rv index records links bans t who least = Inr res \<and>
    mset (concat (map cluster_ids (clusters res))) = mset (map res_id records) \<and>
    (\<forall>c \<in> set (clusters res). survivor_id c \<in> set (cluster_ids c) \<and> res_id (canonical c) = survivor_id c) \<and>
    (\<Sum>c \<leftarrow> clusters res. mention_count (canonical c)) = (\<Sum>r \<leftarrow> records. mention_count r)"
proof -
  from resolve_returns [OF assms] obtain res where
    r: "resolve rv index records links bans t who least = Inr res" "resolved records links bans res" by blast
  let ?rs = "sort_key res_id records"
  let ?by_id = "map_of (map (\<lambda>r. (res_id r, r)) ?rs)"
  from r(2) have m: "mset (concat (map cluster_ids (clusters res))) = mset (map res_id records)"
    and ok: "list_all (cluster_ok ?by_id) (clusters res)" by (simp_all add: resolved_def Let_def)
  have "mset (map res_id ?rs) = mset (map res_id records)" by simp
  with assms have "distinct (map res_id ?rs)" using mset_eq_imp_distinct_iff by blast
  note rec = map_of_records(2) [OF this]
  have "(\<Sum>c \<leftarrow> clusters res. mention_count (canonical c)) =
      (\<Sum>c \<leftarrow> clusters res. \<Sum>i \<leftarrow> cluster_ids c. mention_count (record_of ?by_id i))"
    using ok by (intro arg_cong [where f = sum_list] map_cong) (auto simp: list_all_iff cluster_ok_def)
  also have "\<dots> = (\<Sum>i \<leftarrow> map res_id records. mention_count (record_of ?by_id i))"
    using m by (rule sum_list_concat_mset)
  also have "\<dots> = (\<Sum>r \<leftarrow> records. mention_count r)"
    using rec by (simp add: comp_def cong: map_cong)
  finally show ?thesis using r(1) m ok by (auto simp: list_all_iff cluster_ok_def)
qed

text \<open>
  The result does not depend on the order in which records, links and exclusions
  arrive: a batch in another order gives the identical result, or the same error.
\<close>

theorem resolve_ignores_order:
  assumes "mset records = mset records'" and "set links = set links'" and "set bans = set bans'"
  shows "resolve rv index records links bans t who least = resolve rv index records' links' bans' t who least"
proof (cases "distinct (map res_id records)")
  case True
  then have "inj_on res_id (set records)" by (simp add: distinct_map)
  then have rs: "sort_key res_id records = sort_key res_id records'" by (rule sort_key_perm [OF assms(1)])
  have bans: "set (pair_keys bans) = set (pair_keys bans')" using assms(3) by (simp add: pair_keys_def)
  have "set (pair_keys links) = set (pair_keys links')" using assms(2) by (simp add: pair_keys_def)
  then have "set (filter P (pair_keys links)) = set (filter P (pair_keys links'))" for P by simp
  then have "sort (remdups (filter P (pair_keys links))) = sort (remdups (filter P (pair_keys links')))" for P
    by (metis sorted_list_of_set_sort_remdups)
  then show ?thesis by (simp add: resolve_def Let_def rs bans)
next
  case False
  moreover have "mset (map res_id records) = mset (map res_id records')" using assms(1) by simp
  ultimately have "\<not> distinct (map res_id records')" using mset_eq_imp_distinct_iff by blast
  with False show ?thesis by (simp add: resolve_raises)
qed

lemma filter_block:
  "distinct (concat (map f cs)) \<Longrightarrow> c \<in> set cs \<Longrightarrow> i \<in> set (f c) \<Longrightarrow> filter (\<lambda>d. i \<in> set (f d)) cs = [c]"
proof (induction cs)
  case Nil
  then show ?case by simp
next
  case (Cons d cs)
  show ?case
  proof (cases "c \<in> set cs")
    case True
    with Cons.prems have "i \<notin> set (f d)" by auto
    with True Cons show ?thesis by simp
  next
    case False
    with Cons.prems have "c = d" by simp
    moreover have "filter (\<lambda>d. i \<in> set (f d)) cs = []" using Cons.prems \<open>c = d\<close>
      by (auto simp: filter_empty_conv)
    ultimately show ?thesis using Cons.prems(3) by simp
  qed
qed

text \<open>
  What a human linked stays linked: the two records of a required pair that is not
  excluded as well get the same canonical id, whatever the matcher says of them and
  whatever refinement makes of their component.
\<close>

theorem required_pair_shares_canonical:
  assumes "resolve rv index records links bans t who least = Inr res"
    and "(a, b) \<in> set links" and "pair_key a b \<notin> set (pair_keys bans)"
    and "{a, b} \<subseteq> res_id ` set records"
  shows "canonical_id_for res a \<noteq> None \<and> canonical_id_for res a = canonical_id_for res b"
proof -
  note r = resolve_Inr [OF assms(1)]
  have q: "pair_key a b \<in> set (pair_keys links) - set (pair_keys bans)"
    using assms(2,3) by (force simp: pair_keys_def)
  have both: "{fst (pair_key a b), snd (pair_key a b)} = {a, b}" by (auto simp: pair_key_def)
  with assms(4) have "fst (pair_key a b) \<in> res_id ` set records" "snd (pair_key a b) \<in> res_id ` set records"
    by blast+
  moreover have "\<forall>q \<in> set (pair_keys links) - set (pair_keys bans). fst q \<in> res_id ` set records \<longrightarrow>
      snd q \<in> res_id ` set records \<longrightarrow> together (clusters res) (fst q) (snd q)"
    using r(1) unfolding resolved_def Let_def by (elim conjE)
  ultimately have "together (clusters res) (fst (pair_key a b)) (snd (pair_key a b))"
    using q by simp
  then obtain c where c: "c \<in> set (clusters res)" "a \<in> set (cluster_ids c)" "b \<in> set (cluster_ids c)"
    using both unfolding together_def by (metis empty_iff insert_iff doubleton_eq_iff)
  have "distinct (concat (map cluster_ids (clusters res)))"
    using r mset_eq_imp_distinct_iff unfolding resolved_def Let_def by blast
  note block_of = filter_block [OF this]
  have only: "filter (\<lambda>c. i \<in> set (cluster_ids c)) (clusters res) = [c]"
    if "i \<in> set (cluster_ids c)" for i
    using c(1) that by (rule block_of)
  show ?thesis using only [OF c(2)] only [OF c(3)] by (simp add: canonical_id_for_def)
qed

text \<open>
  The survivor of a cluster is the record of the cluster first seen, then the one with
  the most mentions, then the least id; a record never seen comes last.
\<close>

theorem survivor_is_first_seen:
  assumes "resolve rv index records links bans t who least = Inr res" and "c \<in> set (clusters res)"
    and "r \<in> set records" and "res_id r \<in> set (cluster_ids c)"
  shows "\<exists>s \<in> set records. res_id s = survivor_id c \<and> survivor_sort_key s \<le> survivor_sort_key r"
proof -
  note r = resolve_Inr [OF assms(1)]
  let ?rs = "sort_key res_id records"
  let ?by_id = "map_of (map (\<lambda>r. (res_id r, r)) ?rs)"
  have "mset (map res_id ?rs) = mset (map res_id records)" by simp
  with r(2) have "distinct (map res_id ?rs)" using mset_eq_imp_distinct_iff by blast
  note rec = map_of_records(2) [OF this]
  from r(1) assms(2) have ok: "cluster_ok ?by_id c" by (simp add: resolved_def Let_def list_all_iff)
  have "set (concat (map cluster_ids (clusters res))) = res_id ` set records"
    using r(1) mset_eq_setD [of "concat (map cluster_ids (clusters res))" "map res_id records"]
    by (simp add: resolved_def Let_def)
  moreover have "survivor_id c \<in> set (concat (map cluster_ids (clusters res)))"
    using assms(2) ok by (auto simp: cluster_ok_def)
  ultimately have "survivor_id c \<in> res_id ` set records" by simp
  then obtain s where s: "s \<in> set records" "res_id s = survivor_id c" by auto
  with ok assms(4) rec [of s] rec [of r] assms(3) show ?thesis by (fastforce simp: cluster_ok_def)
qed

text \<open>
  Every merge of a pass can be reversed exactly: un-merging it returns the members of
  the merge as they were in the batch, unchanged, under the same canonical id.
\<close>

theorem unmerge_restores_batch:
  assumes "resolve rv index records links bans t who least = Inr res" and "m \<in> set (merges res)"
  shows "\<exists>u. unmerge m None t' who' = Inr u \<and> res_id (u_canonical u) = canonical_id m \<and>
    set (u_canonical u # restored u) \<subseteq> set records \<and>
    mset (map res_id (u_canonical u # restored u)) = mset (member_ids m)"
proof -
  note r = resolve_Inr [OF assms(1)]
  let ?rs = "sort_key res_id records"
  let ?by_id = "map_of (map (\<lambda>r. (res_id r, r)) ?rs)"
  have "mset (map res_id ?rs) = mset (map res_id records)" by simp
  with r(2) have "distinct (map res_id ?rs)" using mset_eq_imp_distinct_iff by blast
  note rec = map_of_records [OF this]
  from r(1) assms(2) obtain c where c: "c \<in> set (clusters res)" "merge_ok ?by_id c m"
    by (auto simp: resolved_def Let_def)
  have "set (concat (map cluster_ids (clusters res))) = res_id ` set records"
    using r(1) mset_eq_setD [of "concat (map cluster_ids (clusters res))" "map res_id records"]
    by (simp add: resolved_def Let_def)
  with c(1) have sub: "set (cluster_ids c) \<subseteq> res_id ` set records" by auto
  with rec(1) have known: "known_as ?by_id (cluster_ids c)" by (auto simp: known_as_def)
  have mem: "set (member_ids m) = set (cluster_ids c)"
    using c(2) mset_eq_setD by (auto simp: merge_ok_def)
  from unmerge_ok [OF c(2) known, of None t' who'] obtain u where
    u: "unmerge m None t' who' = Inr u" "u_canonical u = record_of ?by_id (canonical_id m)"
      "restored u = map (record_of ?by_id) (detached_ids m None)"
    by (auto simp: kept_ids_def sorted_set_def)
  have "detached_ids m None = absorbed_ids m"
    using c(2) by (simp add: detached_ids_def merge_ok_def member_ids_def sorted_set_id)
  then have all: "u_canonical u # restored u = map (record_of ?by_id) (member_ids m)"
    by (simp add: u member_ids_def)
  have kmem: "known_as ?by_id (member_ids m)" using known mem by (simp add: known_as_def)
  have "mset (map res_id (u_canonical u # restored u)) = mset (member_ids m)"
    using map_res_id_record_of [OF kmem] by (simp only: all map_map)
  moreover have "set (u_canonical u # restored u) \<subseteq> set records"
    unfolding all using sub mem rec(2) by fastforce
  moreover have "res_id (u_canonical u) = canonical_id m"
    using res_id_record_of [OF kmem] by (simp add: u member_ids_def)
  ultimately show ?thesis using u(1) by blast
qed

end
