(* ===== verification/Resolution_Examples.thy ===== *)
theory Resolution_Examples
  imports Resolution_Laws
begin

text \<open>
  Small batches: witnesses of the properties of the pass, and two batches on which the
  code does not keep what its documentation promises.
\<close>

definition mention :: "string \<Rightarrow> instant option \<Rightarrow> instant option \<Rightarrow> int \<Rightarrow> resolution_record" where
  "mention i seen gone n = \<lparr>res_id = i, res_type = COMPANY, res_name = i, aliases = [],
     identifiers = [], embedding = None, context_ids = {}, first_seen = seen, last_seen = gone,
     mention_count = n, merged_from = []\<rparr>"

definition scoring :: "pyfloat \<Rightarrow> match_decision \<Rightarrow> unit resolver" where
  "scoring x d = \<lparr>scorer = (\<lambda>l r ks. \<lparr>combined = x, decision = d, applied_rule = None\<rparr>),
     sha256 = id, isoformat = (\<lambda>_. [])\<rparr>"

definition all_pairs :: "string list \<Rightarrow> unit blocking" where
  "all_pairs is = \<lparr>candidate_pairs = internal_pairs is, shared_keys = (\<lambda>_ _. [])\<rparr>"

definition no_result :: resolution_result where
  "no_result = \<lparr>clusters = [], merges = [], same_as_edges = [], review_items = [], unrefined_components = []\<rparr>"

definition result_of :: "py_error + resolution_result \<Rightarrow> resolution_result" where
  "result_of r = (case r of Inl _ \<Rightarrow> no_result | Inr res \<Rightarrow> res)"

definition two :: "resolution_record list" where
  "two = [mention ''b'' (Some 5) (Some 6) 2, mention ''a'' None None 1]"

definition alike :: "unit resolver" where
  "alike = scoring (95 / 100) MERGE"

definition merged_two :: resolution_result where
  "merged_two = result_of (resolve alike (all_pairs [''a'', ''b'']) two [] [] 7 ''x'' MIN_WITHIN_CLUSTER_LINKAGE)"

lemma distinct_two: "distinct (map res_id two)"
  by code_simp

lemma merged_two_resolved:
  "resolve alike (all_pairs [''a'', ''b'']) two [] [] 7 ''x'' MIN_WITHIN_CLUSTER_LINKAGE = Inr merged_two"
  using resolve_returns [OF distinct_two, of alike "all_pairs [''a'', ''b'']" "[]" "[]" 7 "''x''" MIN_WITHIN_CLUSTER_LINKAGE]
  by (auto simp: merged_two_def result_of_def)

lemma merged_two_clusters:
  "map (\<lambda>c. (survivor_id c, cluster_ids c)) (clusters merged_two) = [(''b'', [''a'', ''b''])]"
  by code_simp

lemma merged_two_merges: "map canonical_id (merges merged_two) = [''b'']"
  by code_simp

theorem resolve_loses_nothing_witness:
  "\<exists>res. resolve alike (all_pairs [''a'', ''b'']) two [] [] 7 ''x'' MIN_WITHIN_CLUSTER_LINKAGE = Inr res \<and>
    (\<Sum>c \<leftarrow> clusters res. mention_count (canonical c)) = 3"
proof -
  have "(\<Sum>r \<leftarrow> two. mention_count r) = 3" by code_simp
  with resolve_loses_nothing [OF distinct_two, of alike "all_pairs [''a'', ''b'']" "[]" "[]" 7 "''x''"
      MIN_WITHIN_CLUSTER_LINKAGE] show ?thesis by auto
qed

theorem resolve_ignores_order_witness:
  "resolve alike (all_pairs [''a'', ''b'']) (rev two) [] [] 7 ''x'' MIN_WITHIN_CLUSTER_LINKAGE = Inr merged_two"
  using resolve_ignores_order [of two "rev two" "[]" "[]" "[]" "[]" alike "all_pairs [''a'', ''b'']" 7 "''x''"
      MIN_WITHIN_CLUSTER_LINKAGE] merged_two_resolved by simp

text \<open>A required link joins two records that the matcher finds distinct.\<close>

definition linked_two :: resolution_result where
  "linked_two = result_of (resolve (scoring 0 DISTINCT) (all_pairs []) two [(''b'', ''a'')] [] 7 ''x''
     MIN_WITHIN_CLUSTER_LINKAGE)"

theorem required_pair_shares_canonical_witness:
  "canonical_id_for linked_two ''b'' \<noteq> None \<and> canonical_id_for linked_two ''b'' = canonical_id_for linked_two ''a''"
proof (rule required_pair_shares_canonical)
  show "resolve (scoring 0 DISTINCT) (all_pairs []) two [(''b'', ''a'')] [] 7 ''x'' MIN_WITHIN_CLUSTER_LINKAGE =
      Inr linked_two"
    using resolve_returns [OF distinct_two, of "scoring 0 DISTINCT" "all_pairs []" "[(''b'', ''a'')]" "[]" 7 "''x''"
        MIN_WITHIN_CLUSTER_LINKAGE]
    by (auto simp: linked_two_def result_of_def)
  show "(''b'', ''a'') \<in> set [(''b'', ''a'')]" by simp
  show "pair_key ''b'' ''a'' \<notin> set (pair_keys [])" by (simp add: pair_keys_def)
  show "{''b'', ''a''} \<subseteq> res_id ` set two" by (simp add: two_def mention_def)
qed

theorem survivor_is_first_seen_witness:
  "\<exists>s \<in> set two. res_id s = ''b'' \<and> survivor_sort_key s \<le> survivor_sort_key (mention ''a'' None None 1)"
proof -
  from merged_two_clusters obtain c where c: "c \<in> set (clusters merged_two)" "survivor_id c = ''b''"
    "cluster_ids c = [''a'', ''b'']" by auto
  have "mention ''a'' None None 1 \<in> set two" "res_id (mention ''a'' None None 1) \<in> set (cluster_ids c)"
    by (simp_all add: two_def c mention_def)
  from survivor_is_first_seen [OF merged_two_resolved c(1) this] show ?thesis by (simp only: c)
qed

theorem unmerge_restores_batch_witness:
  "\<exists>m \<in> set (merges merged_two). \<exists>u. unmerge m None 9 ''y'' = Inr u \<and>
     res_id (u_canonical u) = ''b'' \<and> set (u_canonical u # restored u) \<subseteq> set two"
proof -
  from merged_two_merges obtain m where m: "m \<in> set (merges merged_two)" "canonical_id m = ''b''" by auto
  from unmerge_restores_batch [OF merged_two_resolved m(1), of 9 "''y''"] m show ?thesis by auto
qed

text \<open>Three records in one cluster, and one of them detached again.\<close>

definition three :: "resolution_record list" where
  "three = [mention ''a'' None None 1, mention ''b'' (Some 5) (Some 6) 2, mention ''c'' (Some 8) (Some 9) 4]"

definition by_three :: "string \<Rightarrow> resolution_record option" where
  "by_three = map_of (map (\<lambda>r. (res_id r, r)) three)"

definition built_three where
  "built_three = build_cluster alike [''a'', ''b'', ''c''] by_three (\<lambda>_. Some (9 / 10)) (\<lambda>_. None) 7 ''x''"

theorem unmerge_separates_witness:
  "case built_three of Inr (c, Some m, es) \<Rightarrow>
       \<exists>u. unmerge m (Some [''a'']) 9 ''y'' = Inr u \<and> res_id (u_canonical u) = ''b'' \<and>
         set (must_not_link u) = {pair_key x y |x y. x \<in> {''a''} \<and> y \<in> {''b'', ''c''}}
     | _ \<Rightarrow> False"
proof -
  have "case built_three of Inr (c, Some m, es) \<Rightarrow> survivor_id c = ''b'' | _ \<Rightarrow> False" by code_simp
  then obtain c m es where b: "built_three = Inr (c, Some m, es)" "survivor_id c = ''b''"
    by (auto split: sum.splits option.splits)
  have known: "known_as by_three [''a'', ''b'', ''c'']"
    by (simp add: known_as_def by_three_def three_def mention_def)
  from unmerge_separates [OF b(1) [unfolded built_three_def] known, of "[''a'']" 9 "''y''"] b
  obtain u where u: "unmerge m (Some [''a'']) 9 ''y'' = Inr u" "res_id (u_canonical u) = ''b''"
    "set (must_not_link u) = {pair_key x y |x y. x \<in> set [''a''] \<and> y \<in> set [''a'', ''b'', ''c''] - set [''a'']}"
    by auto
  have "set [''a'', ''b'', ''c''] - set [''a''] = {''b'', ''c''}" "set [''a''] = {''a''}" by auto
  from u(3) [unfolded this(1), unfolded this(2)] u(1,2) have "\<exists>u. unmerge m (Some [''a'']) 9 ''y'' = Inr u \<and>
      res_id (u_canonical u) = ''b'' \<and>
      set (must_not_link u) = {pair_key x y |x y. x \<in> {''a''} \<and> y \<in> {''b'', ''c''}}"
    by (intro exI conjI)
  then show ?thesis by (simp only: b(1) sum.case prod.case option.case)
qed

section \<open>Two promises that are not kept\<close>

text \<open>
  An excluded pair can be merged: two records that are both close to two others end in one
  cluster with them, since exclusion only sets the score of the pair to zero and the
  average over the other pairs exceeds the floor. So the exclusions that an un-merge
  returns do not keep the next pass from building the merge again.
\<close>

theorem excluded_pair_is_merged:
  "map cluster_ids (clusters (result_of
     (resolve alike (all_pairs [''a'', ''b'', ''c'', ''d''])
       (map (\<lambda>i. mention i None None 1) [''a'', ''b'', ''c'', ''d'']) [] [(''a'', ''b'')] 7 ''x''
       MIN_WITHIN_CLUSTER_LINKAGE))) = [[''a'', ''b'', ''c'', ''d'']]"
  by code_simp

text \<open>
  The window of a merged record can be inverted: from a record with a first sighting only
  and one with a last sighting only, each of them well formed, the merge takes both, and
  \<open>to_entity\<close> raises on the result.
\<close>

theorem merged_window_is_inverted:
  "let r = merge_into (mention ''a'' (Some 10) None 1) [mention ''b'' None (Some 5) 1] in
   first_seen r = Some 10 \<and> last_seen r = Some 5"
  by code_simp

end
