(* ===== verification/Graph_Schema.thy ===== *)
theory Graph_Schema
  imports Enums Py_Text "HOL-Library.AList"
begin

text \<open>
  \<open>graph/schema/nodes.py\<close> and \<open>graph/schema/edges.py\<close>: what a node label and an edge type
  may carry, the checks before a write, the orientation of symmetric edges and their keys.

  A property map of the source is the list of its items in insertion order; a value of a
  property is a Python object of one of the kinds the checks tell apart. Descriptions are
  left out. \<open>GraphSchemaError\<close> is a \<open>ValueError\<close>.
\<close>

section \<open>Property declarations\<close>

datatype pvalue =
    PNone | PStr string | PBool bool | PInt int | PFloat pyfloat | PTime instant
  | PList "pvalue list" | PTuple "pvalue list" | PMap "(string \<times> pvalue) list"

type_synonym pdict = "(string \<times> pvalue) list"

definition MAX_LIST_PROPERTY_LENGTH :: nat where
  "MAX_LIST_PROPERTY_LENGTH = 100"

definition SCHEMA_VERSION :: int where
  "SCHEMA_VERSION = 1"

definition is_alpha :: "char \<Rightarrow> bool" where
  "is_alpha c \<longleftrightarrow> (CHR ''a'' \<le> c \<and> c \<le> CHR ''z'') \<or> (CHR ''A'' \<le> c \<and> c \<le> CHR ''Z'')"

definition is_lower :: "char \<Rightarrow> bool" where
  "is_lower c \<longleftrightarrow> CHR ''a'' \<le> c \<and> c \<le> CHR ''z''"

text \<open>\<open>$\<close> also matches before a final line break, as it does in Python.\<close>

definition without_final_newline :: "string \<Rightarrow> string" where
  "without_final_newline s =
     (if s \<noteq> [] \<and> last s = CHR 0x0A then butlast s else s)"

definition label_text :: "string \<Rightarrow> bool" where
  "label_text s \<longleftrightarrow> s \<noteq> [] \<and> is_alpha (hd s) \<and> length s \<le> 64 \<and>
     list_all (\<lambda>c. is_alpha c \<or> is_digit c \<or> c = CHR ''_'') (tl s)"

definition label_pattern :: "string \<Rightarrow> bool" where
  "label_pattern s \<longleftrightarrow> label_text s \<or> label_text (without_final_newline s)"

definition property_text :: "string \<Rightarrow> bool" where
  "property_text s \<longleftrightarrow> s \<noteq> [] \<and> is_lower (hd s) \<and> length s \<le> 64 \<and>
     list_all (\<lambda>c. is_lower c \<or> is_digit c \<or> c = CHR ''_'') (tl s)"

definition property_pattern :: "string \<Rightarrow> bool" where
  "property_pattern s \<longleftrightarrow> property_text s \<or> property_text (without_final_newline s)"

definition validate_label :: "string \<Rightarrow> py_error + string" where
  "validate_label l = (if label_pattern l then Inr l else Inl ValueError)"

datatype property_type =
    STRING | STRING_LIST | INTEGER | FLOAT | FLOAT_LIST | BOOLEAN | DATETIME | POINT

definition is_list_type :: "property_type \<Rightarrow> bool" where
  "is_list_type t \<longleftrightarrow> t = STRING_LIST \<or> t = FLOAT_LIST"

datatype property_owner = CALLER | INGEST | ANALYTICS

record property_spec =
  p_name :: string
  p_type :: property_type
  p_required :: bool
  p_owner :: property_owner
  allowed_values :: "string list option"
  p_max_length :: nat
  p_accumulates :: "bool option"

text \<open>\<open>PropertySpec.__post_init__\<close>, which also fills in \<open>accumulates\<close>.\<close>

definition new_property_spec :: "property_spec \<Rightarrow> py_error + property_spec" where
  "new_property_spec p =
     (if p_accumulates p = Some True \<and> \<not> is_list_type (p_type p) then Inl ValueError
      else if \<not> property_pattern (p_name p) then Inl ValueError
      else if p_required p \<and> p_owner p \<noteq> CALLER then Inl ValueError
      else if allowed_values p \<noteq> None \<and> p_type p \<noteq> STRING then Inl ValueError
      else Inr (if p_accumulates p = None
                then p\<lparr>p_accumulates := Some (p_type p = STRING_LIST)\<rparr> else p))"

definition pdecl :: "string \<Rightarrow> property_type \<Rightarrow> property_spec" where
  "pdecl name t = \<lparr>p_name = name, p_type = t, p_required = False, p_owner = CALLER,
     allowed_values = None, p_max_length = MAX_LIST_PROPERTY_LENGTH,
     p_accumulates = Some (t = STRING_LIST)\<rparr>"

definition required :: "property_spec \<Rightarrow> property_spec" where
  "required p = p\<lparr>p_required := True\<rparr>"

definition owned :: "property_owner \<Rightarrow> property_spec \<Rightarrow> property_spec" where
  "owned w p = p\<lparr>p_owner := w\<rparr>"

definition one_of :: "string list \<Rightarrow> property_spec \<Rightarrow> property_spec" where
  "one_of vs p = p\<lparr>allowed_values := Some vs\<rparr>"

section \<open>Node labels\<close>

definition COMMON_PROPERTIES :: "property_spec list" where
  "COMMON_PROPERTIES =
     [required (pdecl ''id'' STRING),
      required (pdecl ''tenant_id'' STRING),
      required (pdecl ''canonical_name'' STRING),
      required (pdecl ''normalized_name'' STRING),
      pdecl ''aliases'' STRING_LIST,
      pdecl ''description'' STRING,
      (pdecl ''embedding'' FLOAT_LIST)\<lparr>p_accumulates := Some False\<rparr>,
      pdecl ''confidence'' FLOAT,
      pdecl ''merged_from'' STRING_LIST,
      owned INGEST (pdecl ''source_count'' INTEGER),
      owned INGEST (pdecl ''first_seen'' DATETIME),
      owned INGEST (pdecl ''last_seen'' DATETIME),
      owned INGEST (pdecl ''created_at'' DATETIME),
      owned INGEST (pdecl ''updated_at'' DATETIME),
      owned INGEST (pdecl ''schema_version'' INTEGER),
      owned INGEST (pdecl ''last_batch_id'' STRING),
      owned ANALYTICS (pdecl ''pagerank_score'' FLOAT),
      owned ANALYTICS (pdecl ''community_id'' STRING),
      owned ANALYTICS (pdecl ''computed_at'' DATETIME)]"

definition PRECISIONS :: "string list" where
  "PRECISIONS = [''day'', ''month'', ''quarter'', ''year'']"

definition company_properties :: "property_spec list" where
  "company_properties =
     [pdecl ''legal_name'' STRING, pdecl ''ticker'' STRING, pdecl ''exchange'' STRING,
      pdecl ''domain'' STRING, pdecl ''founded_year'' INTEGER,
      one_of [''1-10'', ''11-50'', ''51-200'', ''201-1000'', ''1001-10000'', ''10000+'']
        (pdecl ''employee_band'' STRING),
      one_of [''active'', ''acquired'', ''defunct''] (pdecl ''status'' STRING),
      pdecl ''industry_codes'' STRING_LIST]"

definition product_properties :: "property_spec list" where
  "product_properties =
     [pdecl ''category'' STRING, pdecl ''version'' STRING,
      one_of [''announced'', ''ga'', ''deprecated'', ''discontinued''] (pdecl ''lifecycle_state'' STRING),
      pdecl ''announced_at'' DATETIME, pdecl ''released_at'' DATETIME, pdecl ''pricing_model'' STRING]"

definition person_properties :: "property_spec list" where
  "person_properties =
     [pdecl ''given_name'' STRING, pdecl ''family_name'' STRING, pdecl ''role_title'' STRING,
      pdecl ''handles'' STRING_LIST, pdecl ''is_public_figure'' BOOLEAN]"

definition topic_properties :: "property_spec list" where
  "topic_properties =
     [pdecl ''slug'' STRING, pdecl ''parent_topic_id'' STRING, pdecl ''keywords'' STRING_LIST,
      pdecl ''is_emergent'' BOOLEAN, pdecl ''first_trended_at'' DATETIME]"

definition technology_properties :: "property_spec list" where
  "technology_properties =
     [one_of [''language'', ''framework'', ''protocol'', ''model'', ''infra''] (pdecl ''category'' STRING),
      one_of [''experimental'', ''emerging'', ''mainstream'', ''legacy''] (pdecl ''maturity'' STRING),
      pdecl ''vendor_company_id'' STRING]"

definition region_properties :: "property_spec list" where
  "region_properties =
     [pdecl ''iso_code'' STRING,
      one_of [''country'', ''state'', ''metro'', ''city''] (pdecl ''level'' STRING),
      pdecl ''parent_region_id'' STRING, pdecl ''centroid'' POINT]"

definition event_properties :: "property_spec list" where
  "event_properties =
     [one_of [''launch'', ''funding'', ''outage'', ''lawsuit'', ''conference'', ''layoff'', ''other'']
        (pdecl ''event_type'' STRING),
      pdecl ''occurred_at'' DATETIME, one_of PRECISIONS (pdecl ''occurred_at_precision'' STRING),
      pdecl ''region_id'' STRING, pdecl ''severity'' FLOAT]"

record node_spec =
  ns_type :: entity_type
  ns_properties :: "property_spec list"
  ns_indexed :: "string list"

definition new_node_spec ::
  "entity_type \<Rightarrow> property_spec list \<Rightarrow> string list \<Rightarrow> py_error + node_spec" where
  "new_node_spec t own indexed =
     (if t = UNKNOWN_TYPE then Inl ValueError
      else and_then (validate_label (entity_value t)) (\<lambda>_.
        let names = map p_name (COMMON_PROPERTIES @ own) in
        if \<not> distinct names then Inl ValueError
        else if \<not> set indexed \<subseteq> set names then Inl ValueError
        else Inr \<lparr>ns_type = t, ns_properties = COMMON_PROPERTIES @ own, ns_indexed = indexed\<rparr>))"

definition node_table :: "(entity_type \<times> property_spec list \<times> string list) list" where
  "node_table =
     [(COMPANY, company_properties, [''canonical_name'']),
      (PRODUCT, product_properties, [''canonical_name'']),
      (PERSON, person_properties, []),
      (TOPIC, topic_properties, [''canonical_name'']),
      (TECHNOLOGY, technology_properties, []),
      (REGION, region_properties, []),
      (EVENT, event_properties, [])]"

definition NODE_SPECS :: "(entity_type \<times> node_spec) list" where
  "NODE_SPECS = map (\<lambda>(t, own, ix).
     (t, \<lparr>ns_type = t, ns_properties = COMMON_PROPERTIES @ own, ns_indexed = ix\<rparr>)) node_table"

definition entity_labels :: "string list" where
  "entity_labels = map (entity_value \<circ> fst) NODE_SPECS"

definition find_node_spec :: "entity_type \<Rightarrow> py_error + node_spec" where
  "find_node_spec t = (case map_of NODE_SPECS t of None \<Rightarrow> Inl ValueError | Some s \<Rightarrow> Inr s)"

lemma node_specs_construct:
  "list_all (\<lambda>(t, own, ix). new_node_spec t own ix = Inr (the (map_of NODE_SPECS t)) \<and>
     list_all (\<lambda>p. new_property_spec p = Inr p) (COMMON_PROPERTIES @ own)) node_table"
  by code_simp

section \<open>Checks before a write\<close>

definition sequence :: "pvalue \<Rightarrow> pvalue list option" where
  "sequence v = (case v of PList xs \<Rightarrow> Some xs | PTuple xs \<Rightarrow> Some xs | _ \<Rightarrow> None)"

fun type_matches :: "property_type \<Rightarrow> pvalue \<Rightarrow> bool" where
  "type_matches STRING v = (case v of PStr _ \<Rightarrow> True | _ \<Rightarrow> False)"
| "type_matches BOOLEAN v = (case v of PBool _ \<Rightarrow> True | _ \<Rightarrow> False)"
| "type_matches INTEGER v = (case v of PInt _ \<Rightarrow> True | _ \<Rightarrow> False)"
| "type_matches FLOAT v = (case v of PInt _ \<Rightarrow> True | PFloat _ \<Rightarrow> True | _ \<Rightarrow> False)"
| "type_matches DATETIME v = (case v of PTime _ \<Rightarrow> True | _ \<Rightarrow> False)"
| "type_matches STRING_LIST v =
     (case sequence v of None \<Rightarrow> False
      | Some xs \<Rightarrow> list_all (\<lambda>x. case x of PStr _ \<Rightarrow> True | _ \<Rightarrow> False) xs)"
| "type_matches FLOAT_LIST v =
     (case sequence v of None \<Rightarrow> False
      | Some xs \<Rightarrow> list_all (\<lambda>x. case x of PInt _ \<Rightarrow> True | PFloat _ \<Rightarrow> True | _ \<Rightarrow> False) xs)"
| "type_matches POINT v =
     (case v of PMap d \<Rightarrow> {''x'', ''y''} \<subseteq> set (map fst d) \<or>
        {''latitude'', ''longitude''} \<subseteq> set (map fst d)
      | _ \<Rightarrow> False)"

definition value_allowed :: "string list option \<Rightarrow> pvalue \<Rightarrow> bool" where
  "value_allowed vs v \<longleftrightarrow>
     (case vs of None \<Rightarrow> True | Some vs \<Rightarrow> (case v of PStr s \<Rightarrow> s \<in> set vs | _ \<Rightarrow> False))"

definition check_property :: "pdict \<Rightarrow> property_spec \<Rightarrow> py_error + unit" where
  "check_property d p =
     (case map_of d (p_name p) of
        None \<Rightarrow> if p_required p then Inl ValueError else Inr ()
      | Some v \<Rightarrow>
          if p_owner p \<noteq> CALLER then Inl ValueError
          else if v = PNone then (if p_required p then Inl ValueError else Inr ())
          else if \<not> type_matches (p_type p) v then Inl ValueError
          else if \<not> value_allowed (allowed_values p) v then Inl ValueError
          else Inr ())"

definition validate_property_map :: "property_spec list \<Rightarrow> pdict \<Rightarrow> py_error + unit" where
  "validate_property_map ps d =
     (if \<not> set (map fst d) \<subseteq> set (map p_name ps) then Inl ValueError
      else fold_res (\<lambda>_ p. check_property d p) () ps)"

definition validate_node_properties :: "entity_type \<Rightarrow> pdict \<Rightarrow> py_error + unit" where
  "validate_node_properties t d =
     and_then (find_node_spec t) (\<lambda>s. validate_property_map (ns_properties s) d)"

section \<open>Edge types\<close>

definition SIGNAL_LABEL :: string where
  "SIGNAL_LABEL = ''Signal''"

datatype direction = DIRECTED | SYMMETRIC

datatype cardinality = ONE_TO_MANY | MANY_TO_ONE | MANY_TO_MANY

definition COMMON_EDGE_PROPERTIES :: "property_spec list" where
  "COMMON_EDGE_PROPERTIES =
     [required (pdecl ''edge_key'' STRING),
      required (pdecl ''tenant_id'' STRING),
      required (pdecl ''valid_from'' DATETIME),
      pdecl ''valid_to'' DATETIME,
      one_of PRECISIONS (pdecl ''valid_from_precision'' STRING),
      required (pdecl ''observed_at'' DATETIME),
      pdecl ''confidence'' FLOAT,
      pdecl ''extractor'' STRING,
      pdecl ''superseded_by'' STRING,
      (pdecl ''source_signal_ids'' STRING_LIST)\<lparr>p_max_length := 50\<rparr>,
      owned INGEST (pdecl ''evidence_count'' INTEGER),
      owned INGEST (pdecl ''last_batch_id'' STRING),
      owned INGEST (pdecl ''created_at'' DATETIME),
      owned INGEST (pdecl ''updated_at'' DATETIME),
      owned INGEST (pdecl ''schema_version'' INTEGER)]"

type_synonym endpoints = "(string \<times> string) list"

definition endpoint_pairs :: "string list \<Rightarrow> string list \<Rightarrow> endpoints" where
  "endpoint_pairs sources targets = List.product sources targets"

record edge_spec =
  es_type :: edge_type
  es_direction :: direction
  es_cardinality :: cardinality
  es_endpoints :: endpoints
  es_properties :: "property_spec list"

definition is_symmetric :: "edge_spec \<Rightarrow> bool" where
  "is_symmetric s \<longleftrightarrow> es_direction s = SYMMETRIC"

definition allows :: "edge_spec \<Rightarrow> string \<Rightarrow> string \<Rightarrow> bool" where
  "allows s source target \<longleftrightarrow> (source, target) \<in> set (es_endpoints s)"

text \<open>\<open>EdgeSpec.__post_init__\<close>, over the type's own properties.\<close>

definition new_edge_spec ::
  "edge_type \<Rightarrow> direction \<Rightarrow> cardinality \<Rightarrow> endpoints \<Rightarrow> property_spec list \<Rightarrow> py_error + edge_spec" where
  "new_edge_spec t dir many ends own =
     (if t = UNKNOWN_EDGE then Inl ValueError
      else and_then (validate_label (edge_value t)) (\<lambda>_.
        if ends = [] then Inl ValueError
        else if \<not> list_all (\<lambda>(a, b). {a, b} \<subseteq> set (SIGNAL_LABEL # entity_labels)) ends then Inl ValueError
        else if dir = SYMMETRIC \<and> \<not> list_all (\<lambda>(a, b). (b, a) \<in> set ends) ends then Inl ValueError
        else if \<not> distinct (map p_name (COMMON_EDGE_PROPERTIES @ own)) then Inl ValueError
        else Inr \<lparr>es_type = t, es_direction = dir, es_cardinality = many, es_endpoints = ends,
               es_properties = COMMON_EDGE_PROPERTIES @ own\<rparr>))"

definition mentions_properties :: "property_spec list" where
  "mentions_properties =
     [pdecl ''salience'' FLOAT, pdecl ''sentiment'' FLOAT, pdecl ''char_spans'' STRING_LIST,
      pdecl ''mention_text'' STRING]"

definition competes_with_properties :: "property_spec list" where
  "competes_with_properties =
     [pdecl ''market'' STRING, one_of [''stated'', ''inferred'', ''analyst''] (pdecl ''basis'' STRING),
      pdecl ''strength'' FLOAT]"

definition acquired_properties :: "property_spec list" where
  "acquired_properties =
     [pdecl ''announced_at'' DATETIME, pdecl ''closed_at'' DATETIME, pdecl ''price'' FLOAT,
      pdecl ''currency'' STRING, pdecl ''stake_pct'' FLOAT,
      one_of [''rumoured'', ''announced'', ''closed'', ''terminated''] (pdecl ''status'' STRING)]"

definition uses_properties :: "property_spec list" where
  "uses_properties =
     [one_of [''core'', ''optional'', ''evaluating''] (pdecl ''role'' STRING), pdecl ''since'' DATETIME,
      one_of [''mentioned'', ''documented'', ''verified''] (pdecl ''depth'' STRING)]"

definition complains_about_properties :: "property_spec list" where
  "complains_about_properties =
     [pdecl ''severity'' FLOAT, pdecl ''sentiment'' FLOAT, pdecl ''topic_id'' STRING,
      pdecl ''resolved'' BOOLEAN, pdecl ''signal_id'' STRING]"

definition launched_by_properties :: "property_spec list" where
  "launched_by_properties =
     [pdecl ''announced_at'' DATETIME, pdecl ''launched_at'' DATETIME, pdecl ''region_ids'' STRING_LIST,
      one_of [''ga'', ''beta'', ''preview''] (pdecl ''launch_type'' STRING)]"

definition same_as_properties :: "property_spec list" where
  "same_as_properties =
     [pdecl ''score'' FLOAT, pdecl ''decided_by'' STRING, pdecl ''must_not_link'' BOOLEAN]"

definition duplicate_of_properties :: "property_spec list" where
  "duplicate_of_properties =
     [pdecl ''similarity'' FLOAT, one_of [''exact'', ''simhash'', ''embedding''] (pdecl ''method'' STRING)]"

definition edge_table ::
  "(edge_type \<times> direction \<times> cardinality \<times> endpoints \<times> property_spec list) list" where
  "edge_table =
     [(MENTIONS, DIRECTED, MANY_TO_MANY, endpoint_pairs [SIGNAL_LABEL] entity_labels, mentions_properties),
      (COMPETES_WITH, SYMMETRIC, MANY_TO_MANY,
         endpoint_pairs [''Company'', ''Product''] [''Company'', ''Product''], competes_with_properties),
      (ACQUIRED, DIRECTED, ONE_TO_MANY, endpoint_pairs [''Company''] [''Company'', ''Product''],
         acquired_properties),
      (USES, DIRECTED, MANY_TO_MANY, endpoint_pairs [''Company'', ''Product''] [''Technology''],
         uses_properties),
      (COMPLAINS_ABOUT, DIRECTED, MANY_TO_MANY,
         endpoint_pairs [''Person'', SIGNAL_LABEL] [''Product'', ''Company'', ''Technology''],
         complains_about_properties),
      (LAUNCHED_BY, DIRECTED, MANY_TO_ONE,
         endpoint_pairs [''Product'', ''Event''] [''Company'', ''Person''], launched_by_properties),
      (SAME_AS, SYMMETRIC, MANY_TO_MANY, map (\<lambda>l. (l, l)) entity_labels, same_as_properties),
      (DUPLICATE_OF, DIRECTED, MANY_TO_ONE, [(SIGNAL_LABEL, SIGNAL_LABEL)], duplicate_of_properties)]"

definition EDGE_SPECS :: "(edge_type \<times> edge_spec) list" where
  "EDGE_SPECS = map (\<lambda>(t, dir, many, ends, own).
     (t, \<lparr>es_type = t, es_direction = dir, es_cardinality = many, es_endpoints = ends,
        es_properties = COMMON_EDGE_PROPERTIES @ own\<rparr>)) edge_table"

definition find_edge_spec :: "edge_type \<Rightarrow> py_error + edge_spec" where
  "find_edge_spec t = (case map_of EDGE_SPECS t of None \<Rightarrow> Inl ValueError | Some s \<Rightarrow> Inr s)"

lemma edge_specs_construct:
  "list_all (\<lambda>(t, dir, many, ends, own). new_edge_spec t dir many ends own = Inr (the (map_of EDGE_SPECS t)))
     edge_table"
  by code_simp

definition validate_endpoints :: "edge_type \<Rightarrow> string \<Rightarrow> string \<Rightarrow> py_error + unit" where
  "validate_endpoints t source target =
     and_then (find_edge_spec t) (\<lambda>s.
     and_then (validate_label source) (\<lambda>_.
     and_then (validate_label target) (\<lambda>_.
       if allows s source target then Inr () else Inl ValueError)))"

text \<open>An end of an edge: its id and the label of its node.\<close>

type_synonym edge_end = "string \<times> string"

definition orient :: "edge_type \<Rightarrow> edge_end \<Rightarrow> edge_end \<Rightarrow> py_error + (edge_end \<times> edge_end)" where
  "orient t source target =
     and_then (find_edge_spec t) (\<lambda>s.
       if is_symmetric s \<and> fst target < fst source then Inr (target, source) else Inr (source, target))"

text \<open>
  The two functions of the standard library behind a key: \<open>sha256(...).hexdigest()\<close> and the
  ISO form of an instant.
\<close>

record digests =
  hexdigest :: "string \<Rightarrow> string"
  iso_utc :: "instant \<Rightarrow> string"

definition edge_material :: "digests \<Rightarrow> edge_type \<Rightarrow> string \<Rightarrow> string \<Rightarrow> instant \<Rightarrow> string \<Rightarrow> string" where
  "edge_material dg t source_id target_id valid_from evidence_key =
     py_join [CHR 0x1F] [edge_value t, source_id, target_id, iso_utc dg valid_from, evidence_key]"

definition edge_key ::
  "digests \<Rightarrow> edge_type \<Rightarrow> string \<Rightarrow> string \<Rightarrow> instant \<Rightarrow> string \<Rightarrow> py_error + string" where
  "edge_key dg t source_id target_id valid_from evidence_key =
     and_then (find_edge_spec t) (\<lambda>s.
       Inr (take 32 (hexdigest dg (edge_material dg t source_id target_id valid_from evidence_key))))"

definition validate_edge_properties :: "edge_type \<Rightarrow> pdict \<Rightarrow> py_error + unit" where
  "validate_edge_properties t d =
     and_then (find_edge_spec t) (\<lambda>s.
     and_then (validate_property_map (es_properties s) d) (\<lambda>_.
       case (map_of d ''valid_from'', map_of d ''valid_to'') of
         (Some (PTime a), Some (PTime b)) \<Rightarrow> if b \<le> a then Inl ValueError else Inr ()
       | _ \<Rightarrow> Inr ()))"

end
