(* ===== verification/Graph_Writer.thy ===== *)
theory Graph_Writer
  imports Graph_Schema
begin

text \<open>
  \<open>graph/ingest/writer.py\<close>: the writes a caller hands in, their grouping into one ordered
  plan, the content hash of a batch, and the check of what the database reports.

  The transaction runner is a protocol of the source and an argument here. The text of a
  statement is not modelled; a statement names the fragment it was generated from, and
  \<open>Graph_Store\<close> gives the effect of the fragments.
\<close>

section \<open>Writes\<close>

definition dict_put :: "pdict \<Rightarrow> pdict \<Rightarrow> pdict" where
  "dict_put d e = foldl (\<lambda>d kv. AList.update (fst kv) (snd kv) d) d e"

record node_write =
  nw_type :: entity_type
  nw_id :: string
  nw_tenant :: string
  nw_canonical :: string
  nw_normalized :: string
  nw_observed :: instant
  nw_aliases :: "string list"
  nw_new :: int
  nw_props :: pdict

definition NODE_NAMED_FIELDS :: "string list" where
  "NODE_NAMED_FIELDS = [''id'', ''tenant_id'', ''canonical_name'', ''normalized_name'', ''aliases'']"

definition node_property_map :: "node_write \<Rightarrow> pdict" where
  "node_property_map n = dict_put
     [(''id'', PStr (nw_id n)), (''tenant_id'', PStr (nw_tenant n)),
      (''canonical_name'', PStr (nw_canonical n)), (''normalized_name'', PStr (nw_normalized n)),
      (''aliases'', PList (map PStr (nw_aliases n)))] (nw_props n)"

definition node_row :: "node_write \<Rightarrow> pdict" where
  "node_row n = dict_put (node_property_map n)
     [(''observed_at'', PTime (nw_observed n)), (''new_signal_count'', PInt (nw_new n))]"

definition new_node_write :: "node_write \<Rightarrow> py_error + node_write" where
  "new_node_write n =
     (if nw_new n < 0 then Inl ValueError
      else and_then (find_node_spec (nw_type n)) (\<lambda>_.
        if set (map fst (nw_props n)) \<inter> set NODE_NAMED_FIELDS \<noteq> {} then Inl ValueError
        else and_then (validate_node_properties (nw_type n) (node_property_map n)) (\<lambda>_. Inr n)))"

record signal_stub =
  ss_id :: string
  ss_tenant :: string
  ss_published :: instant
  ss_source :: string
  ss_platform :: string

definition signal_row :: "signal_stub \<Rightarrow> pdict" where
  "signal_row s =
     [(''id'', PStr (ss_id s)), (''tenant_id'', PStr (ss_tenant s)),
      (''published_at'', PTime (ss_published s)), (''source'', PStr (ss_source s)),
      (''platform'', PStr (ss_platform s))]"

record edge_write =
  ew_type :: edge_type
  ew_source_label :: string
  ew_source_id :: string
  ew_target_label :: string
  ew_target_id :: string
  ew_tenant :: string
  ew_valid_from :: instant
  ew_observed :: instant
  ew_valid_to :: "instant option"
  ew_confidence :: "pyfloat option"
  ew_extractor :: "string option"
  ew_source_signals :: "string list"
  ew_new :: int
  ew_evidence_key :: string
  ew_props :: pdict

definition EDGE_NAMED_FIELDS :: "string list" where
  "EDGE_NAMED_FIELDS = [''edge_key'', ''tenant_id'', ''valid_from'', ''valid_to'', ''observed_at'',
     ''confidence'', ''extractor'', ''source_signal_ids'']"

definition or_none :: "('a \<Rightarrow> pvalue) \<Rightarrow> 'a option \<Rightarrow> pvalue" where
  "or_none f x = (case x of None \<Rightarrow> PNone | Some y \<Rightarrow> f y)"

definition oriented :: "edge_write \<Rightarrow> py_error + (edge_end \<times> edge_end)" where
  "oriented e = orient (ew_type e) (ew_source_id e, ew_source_label e) (ew_target_id e, ew_target_label e)"

definition key_of :: "digests \<Rightarrow> edge_write \<Rightarrow> py_error + string" where
  "key_of dg e = and_then (oriented e) (\<lambda>(f, t).
     edge_key dg (ew_type e) (fst f) (fst t) (ew_valid_from e) (ew_evidence_key e))"

type_synonym edge_group = "edge_type \<times> string \<times> string"

definition group_of :: "edge_write \<Rightarrow> py_error + edge_group" where
  "group_of e = and_then (oriented e) (\<lambda>(f, t). Inr (ew_type e, snd f, snd t))"

definition edge_property_map :: "digests \<Rightarrow> edge_write \<Rightarrow> py_error + pdict" where
  "edge_property_map dg e = and_then (key_of dg e) (\<lambda>k. Inr (dict_put
     [(''edge_key'', PStr k), (''tenant_id'', PStr (ew_tenant e)),
      (''valid_from'', PTime (ew_valid_from e)), (''valid_to'', or_none PTime (ew_valid_to e)),
      (''observed_at'', PTime (ew_observed e)), (''confidence'', or_none PFloat (ew_confidence e)),
      (''extractor'', or_none PStr (ew_extractor e)),
      (''source_signal_ids'', PList (map PStr (ew_source_signals e)))] (ew_props e)))"

definition edge_row :: "digests \<Rightarrow> edge_write \<Rightarrow> py_error + pdict" where
  "edge_row dg e =
     and_then (oriented e) (\<lambda>(f, t).
     and_then (edge_property_map dg e) (\<lambda>d. Inr (dict_put d
       [(''from_id'', PStr (fst f)), (''to_id'', PStr (fst t)), (''new_evidence'', PInt (ew_new e))])))"

definition new_edge_write :: "digests \<Rightarrow> edge_write \<Rightarrow> py_error + edge_write" where
  "new_edge_write dg e =
     (if ew_new e < 0 then Inl ValueError
      else and_then (validate_endpoints (ew_type e) (ew_source_label e) (ew_target_label e)) (\<lambda>_.
        if set (map fst (ew_props e)) \<inter> set EDGE_NAMED_FIELDS \<noteq> {} then Inl ValueError
        else and_then (edge_property_map dg e) (\<lambda>d.
          and_then (validate_edge_properties (ew_type e) d) (\<lambda>_. Inr e))))"

datatype graph_write = Node_Write node_write | Signal_Stub signal_stub | Edge_Write edge_write

record graph_batch =
  b_nodes :: "node_write list"
  b_signals :: "signal_stub list"
  b_edges :: "edge_write list"

definition row_count :: "graph_batch \<Rightarrow> nat" where
  "row_count b = length (b_nodes b) + length (b_signals b) + length (b_edges b)"

definition add_write :: "graph_batch \<Rightarrow> graph_write \<Rightarrow> graph_batch" where
  "add_write b w = (case w of
       Node_Write n \<Rightarrow> b\<lparr>b_nodes := b_nodes b @ [n]\<rparr>
     | Signal_Stub s \<Rightarrow> b\<lparr>b_signals := b_signals b @ [s]\<rparr>
     | Edge_Write e \<Rightarrow> b\<lparr>b_edges := b_edges b @ [e]\<rparr>)"

definition batch_of :: "graph_write list \<Rightarrow> graph_batch" where
  "batch_of ws = foldl add_write \<lparr>b_nodes = [], b_signals = [], b_edges = []\<rparr> ws"

section \<open>Folding rows\<close>

definition as_int :: "pvalue option \<Rightarrow> int" where
  "as_int v = (case v of Some (PInt n) \<Rightarrow> n | Some (PBool b) \<Rightarrow> of_bool b | _ \<Rightarrow> 0)"

definition COUNTERS :: "string list" where
  "COUNTERS = [''new_signal_count'', ''new_evidence'']"

definition later :: "pvalue \<Rightarrow> pvalue \<Rightarrow> pvalue" where
  "later a b = (case (a, b) of (PTime x, PTime y) \<Rightarrow> PTime (max x y) | _ \<Rightarrow> b)"

text \<open>
  The generator that extends \<open>seen\<close> looks at \<open>seen\<close> as it grows, so a value repeated in the
  second list is added once.
\<close>

definition merged_value :: "string \<Rightarrow> pvalue option \<Rightarrow> pvalue \<Rightarrow> pvalue option" where
  "merged_value k old v =
     (if k \<in> set COUNTERS then Some (PInt (as_int old + as_int (Some v)))
      else case (old, v) of
        (Some (PList xs), PList ys) \<Rightarrow> Some (PList (add_unique xs ys))
      | _ \<Rightarrow>
          if k = ''observed_at'' \<and> old \<noteq> None \<and> old \<noteq> Some PNone \<and> v \<noteq> PNone
          then Some (later (the old) v)
          else if v \<noteq> PNone then Some v
          else old)"

definition merge_item :: "pdict \<Rightarrow> string \<times> pvalue \<Rightarrow> pdict" where
  "merge_item d kv =
     (case merged_value (fst kv) (map_of d (fst kv)) (snd kv) of
        None \<Rightarrow> d | Some v \<Rightarrow> AList.update (fst kv) v d)"

definition merge_rows :: "pdict \<Rightarrow> pdict \<Rightarrow> pdict" where
  "merge_rows first second = foldl merge_item first second"

text \<open>A dictionary of rows by a key, in insertion order.\<close>

type_synonym rows = "(string \<times> pdict) list"

definition put_row :: "rows \<Rightarrow> string \<Rightarrow> pdict \<Rightarrow> rows" where
  "put_row rs k row =
     AList.update k (case map_of rs k of None \<Rightarrow> row | Some old \<Rightarrow> merge_rows old row) rs"

section \<open>Grouping\<close>

definition node_rows :: "entity_type \<Rightarrow> node_write list \<Rightarrow> rows" where
  "node_rows t ns = foldl (\<lambda>rs n. put_row rs (nw_id n) (node_row n)) [] (filter (\<lambda>n. nw_type n = t) ns)"

definition group_nodes :: "node_write list \<Rightarrow> (entity_type \<times> pdict list) list" where
  "group_nodes ns =
     concat (map (\<lambda>t. let rs = node_rows t ns in
         if rs = [] then [] else [(t, map snd (sort_key fst rs))])
       (map fst NODE_SPECS))"

definition dedupe_signals :: "signal_stub list \<Rightarrow> pdict list" where
  "dedupe_signals ss =
     map snd (sort_key fst (foldl (\<lambda>rs s. AList.update (ss_id s) (signal_row s) rs) [] ss))"

definition put_edge ::
  "digests \<Rightarrow> (edge_group \<times> rows) list \<Rightarrow> edge_write \<Rightarrow> py_error + (edge_group \<times> rows) list" where
  "put_edge dg gs e =
     and_then (group_of e) (\<lambda>g.
     and_then (edge_row dg e) (\<lambda>row.
     and_then (key_of dg e) (\<lambda>k.
       let rs = (case map_of gs g of None \<Rightarrow> [] | Some rs \<Rightarrow> rs) in
       Inr (AList.update g (put_row rs k row) gs))))"

definition text_of :: "pvalue option \<Rightarrow> string" where
  "text_of v = (case v of Some (PStr s) \<Rightarrow> s | _ \<Rightarrow> [])"

definition row_ends :: "pdict \<Rightarrow> string \<times> string" where
  "row_ends row = (text_of (map_of row ''from_id''), text_of (map_of row ''to_id''))"

definition group_edges ::
  "digests \<Rightarrow> edge_write list \<Rightarrow> py_error + (edge_group \<times> pdict list) list" where
  "group_edges dg es =
     and_then (fold_res (put_edge dg) [] es) (\<lambda>gs.
       Inr (concat (map (\<lambda>t.
         map (\<lambda>(g, rs). (g, sort_key row_ends (map snd rs)))
           (sort_key (\<lambda>x. snd (fst x)) (filter (\<lambda>x. fst (fst x) = t) gs)))
         (map fst EDGE_SPECS))))"

section \<open>The content hash\<close>

definition str_int :: "int \<Rightarrow> string" where
  "str_int n = (if n < 0 then CHR ''-'' # str_nat (nat (- n)) else str_nat (nat n))"

definition fields :: "string list \<Rightarrow> string" where
  "fields xs = py_join [CHR 0x1F] xs"

definition node_part :: "node_write \<Rightarrow> string" where
  "node_part n = fields [''n'', entity_value (nw_type n), nw_id n, str_int (nw_new n)]"

definition signal_part :: "signal_stub \<Rightarrow> string" where
  "signal_part s = fields [''s'', ss_id s]"

definition edge_part :: "digests \<Rightarrow> edge_write \<Rightarrow> py_error + string" where
  "edge_part dg e = and_then (key_of dg e) (\<lambda>k. Inr (fields [''e'', k, str_int (ew_new e)]))"

fun map_res :: "('a \<Rightarrow> 'e + 'b) \<Rightarrow> 'a list \<Rightarrow> 'e + 'b list" where
  "map_res f [] = Inr []"
| "map_res f (x # xs) = and_then (f x) (\<lambda>y. and_then (map_res f xs) (\<lambda>ys. Inr (y # ys)))"

definition batch_id_for :: "digests \<Rightarrow> graph_batch \<Rightarrow> py_error + string" where
  "batch_id_for dg b =
     and_then (map_res (edge_part dg) (b_edges b)) (\<lambda>eps.
       let parts = map node_part (b_nodes b) @ map signal_part (b_signals b) @ eps in
       Inr (take 32 (hexdigest dg (py_join [CHR 0x1E] (sort parts)))))"

section \<open>The plan\<close>

datatype fragment =
    Merge_Nodes entity_type
  | Merge_Signals
  | Merge_Edges edge_type string string

record planned =
  p_fragment :: fragment
  p_rows :: "pdict list"
  p_batch :: "string option"
  p_schema :: "int option"

definition expected_rows :: "planned \<Rightarrow> nat" where
  "expected_rows p = length (p_rows p)"

record write_plan =
  wp_batch :: string
  wp_statements :: "planned list"

definition plan_edges ::
  "string \<Rightarrow> int \<Rightarrow> edge_group \<times> pdict list \<Rightarrow> py_error + planned" where
  "plan_edges bid version x =
     (case x of ((t, f, g), rs) \<Rightarrow>
        and_then (validate_endpoints t f g) (\<lambda>_.
          Inr \<lparr>p_fragment = Merge_Edges t f g, p_rows = rs, p_batch = Some bid, p_schema = Some version\<rparr>))"

definition plan :: "digests \<Rightarrow> int \<Rightarrow> graph_batch \<Rightarrow> py_error + write_plan" where
  "plan dg version b =
     and_then (batch_id_for dg b) (\<lambda>bid.
     let nodes = map (\<lambda>(t, rs). \<lparr>p_fragment = Merge_Nodes t, p_rows = rs, p_batch = Some bid,
           p_schema = Some version\<rparr>) (group_nodes (b_nodes b));
         srows = dedupe_signals (b_signals b);
         signals = (if srows = [] then [] else
           [\<lparr>p_fragment = Merge_Signals, p_rows = srows, p_batch = None, p_schema = None\<rparr>]) in
     and_then (group_edges dg (b_edges b)) (\<lambda>gs.
     and_then (map_res (plan_edges bid version) gs) (\<lambda>edges.
       Inr \<lparr>wp_batch = bid, wp_statements = nodes @ signals @ edges\<rparr>)))"

section \<open>Applying a batch\<close>

definition written_count :: "pdict list \<Rightarrow> int" where
  "written_count records =
     (case records of [] \<Rightarrow> 0
      | r # _ \<Rightarrow> (case map_of r ''written'' of
            Some (PInt n) \<Rightarrow> n | Some (PBool b) \<Rightarrow> of_bool b
          | Some (PFloat x) \<Rightarrow> (if 0 \<le> x then \<lfloor>x\<rfloor> else \<lceil>x\<rceil>) | _ \<Rightarrow> 0))"

record write_outcome =
  wo_batch :: string
  wo_nodes :: int
  wo_signals :: int
  wo_edges :: int
  wo_statements :: nat

definition is_node_fragment :: "fragment \<Rightarrow> bool" where
  "is_node_fragment f = (case f of Merge_Nodes _ \<Rightarrow> True | _ \<Rightarrow> False)"

definition is_edge_fragment :: "fragment \<Rightarrow> bool" where
  "is_edge_fragment f = (case f of Merge_Edges _ _ _ \<Rightarrow> True | _ \<Rightarrow> False)"

definition total_of :: "(fragment \<Rightarrow> bool) \<Rightarrow> planned list \<Rightarrow> int list \<Rightarrow> int" where
  "total_of P ps cs = (\<Sum>(p, c) \<leftarrow> zip ps cs. if P (p_fragment p) then c else 0)"

text \<open>\<open>GraphWriteError\<close> is a \<open>RuntimeError\<close>.\<close>

definition verify :: "planned list \<Rightarrow> int list \<Rightarrow> py_error + unit" where
  "verify ps cs =
     (if list_all (\<lambda>(p, c). c = int (expected_rows p)) (zip ps cs) then Inr () else Inl RuntimeError)"

type_synonym runner = "planned list \<Rightarrow> py_error + pdict list list"

definition apply_batch :: "digests \<Rightarrow> int \<Rightarrow> runner \<Rightarrow> graph_batch \<Rightarrow> py_error + write_outcome" where
  "apply_batch dg version run b =
     and_then (plan dg version b) (\<lambda>p.
       if wp_statements p = []
       then Inr \<lparr>wo_batch = wp_batch p, wo_nodes = 0, wo_signals = 0, wo_edges = 0, wo_statements = 0\<rparr>
       else
         and_then (run (wp_statements p)) (\<lambda>results.
           if length results \<noteq> length (wp_statements p) then Inl RuntimeError
           else
             let counts = map written_count results in
             and_then (verify (wp_statements p) counts) (\<lambda>_.
               Inr \<lparr>wo_batch = wp_batch p,
                 wo_nodes = total_of is_node_fragment (wp_statements p) counts,
                 wo_signals = total_of (\<lambda>f. f = Merge_Signals) (wp_statements p) counts,
                 wo_edges = total_of is_edge_fragment (wp_statements p) counts,
                 wo_statements = length (wp_statements p)\<rparr>)))"

text \<open>The lead in the message of a missing endpoint.\<close>

definition missing_endpoint_ids :: "graph_batch \<Rightarrow> edge_group \<Rightarrow> string set" where
  "missing_endpoint_ids b g =
     (\<Union>e \<in> {e \<in> set (b_edges b). group_of e = Inr g}.
        case oriented e of Inl _ \<Rightarrow> {} | Inr (f, t) \<Rightarrow> {fst f, fst t})
     - (nw_id ` set (b_nodes b) \<union> ss_id ` set (b_signals b))"

end
