(* ===== verification/Graph_Store.thy ===== *)
theory Graph_Store
  imports Graph_Writer
begin

text \<open>
  What the generated fragments do to the graph: the \<open>MERGE\<close> of \<open>graph/schema/nodes.py\<close> and
  \<open>graph/schema/edges.py\<close> and the signal stub of \<open>graph/ingest/writer.py\<close>, read as updates
  of a store, and a runner that executes a plan on it.

  A null of Cypher is an absent property. A node is found by its label and its id, an edge by its
  type, its two ends and its key. What \<open>datetime()\<close> reads while a statement runs is an argument: a
  function of the statement for a plan, the reading \<open>now\<close> for a fragment.
\<close>

record stored_node =
  sn_props :: "string \<Rightarrow> pvalue option"
  sn_count :: int
  sn_first :: "instant option"
  sn_last :: "instant option"
  sn_batch :: "string option"
  sn_schema :: "int option"
  sn_created :: "instant option"
  sn_updated :: "instant option"

record stored_edge =
  se_props :: "string \<Rightarrow> pvalue option"
  se_count :: int
  se_batch :: "string option"
  se_schema :: "int option"
  se_created :: "instant option"
  se_updated :: "instant option"

type_synonym node_ref = "string \<times> string"

record graph_store =
  gs_nodes :: "node_ref \<Rightarrow> stored_node option"
  gs_edges :: "edge_type \<times> node_ref \<times> node_ref \<times> string \<Rightarrow> stored_edge option"

definition column :: "pdict \<Rightarrow> string \<Rightarrow> pvalue option" where
  "column row k = (case map_of row k of Some PNone \<Rightarrow> None | v \<Rightarrow> v)"

definition items_of :: "pvalue option \<Rightarrow> pvalue list" where
  "items_of v = (case v of None \<Rightarrow> [] | Some v \<Rightarrow> (case sequence v of None \<Rightarrow> [] | Some xs \<Rightarrow> xs))"

text \<open>\<open>list_union_expression\<close>: without duplicates, in order, cut at the cap.\<close>

definition list_union :: "nat \<Rightarrow> pvalue option \<Rightarrow> pvalue option \<Rightarrow> pvalue option" where
  "list_union cap old new = Some (PList (take cap (ordered_unique (items_of old @ items_of new))))"

text \<open>\<open>_set_expression\<close>; the key of an edge is required and yet coalesced.\<close>

definition set_expression :: "property_spec \<Rightarrow> pvalue option \<Rightarrow> pvalue option \<Rightarrow> pvalue option" where
  "set_expression p old new =
     (if p_accumulates p = Some True then list_union (p_max_length p) old new
      else if p_required p \<and> p_name p \<noteq> ''edge_key'' then new
      else case new of None \<Rightarrow> old | Some v \<Rightarrow> Some v)"

definition caller_properties :: "property_spec list \<Rightarrow> property_spec list" where
  "caller_properties ps = filter (\<lambda>p. p_owner p = CALLER) ps"

definition set_properties ::
  "property_spec list \<Rightarrow> string list \<Rightarrow> pdict \<Rightarrow> (string \<Rightarrow> pvalue option) \<Rightarrow> (string \<Rightarrow> pvalue option)" where
  "set_properties ps except row old =
     (\<lambda>k. case find (\<lambda>p. p_name p = k \<and> k \<notin> set except) (caller_properties ps) of
        None \<Rightarrow> old k | Some p \<Rightarrow> set_expression p (old k) (column row k))"

section \<open>The fragment of a node\<close>

definition new_node :: "instant \<Rightarrow> string \<Rightarrow> stored_node" where
  "new_node now i = \<lparr>sn_props = [''id'' \<mapsto> PStr i], sn_count = 0, sn_first = None, sn_last = None,
     sn_batch = None, sn_schema = None, sn_created = Some now, sn_updated = None\<rparr>"

definition time_of :: "pvalue option \<Rightarrow> instant option" where
  "time_of v = (case v of Some (PTime t) \<Rightarrow> Some t | _ \<Rightarrow> None)"

definition earliest :: "instant option \<Rightarrow> instant option \<Rightarrow> instant option" where
  "earliest old new = (case (old, new) of
       (None, n) \<Rightarrow> n | (Some a, None) \<Rightarrow> Some a | (Some a, Some b) \<Rightarrow> Some (if b < a then b else a))"

definition latest :: "instant option \<Rightarrow> instant option \<Rightarrow> instant option" where
  "latest old new = (case (old, new) of
       (None, n) \<Rightarrow> n | (Some a, None) \<Rightarrow> Some a | (Some a, Some b) \<Rightarrow> Some (if a < b then b else a))"

definition node_fragment ::
  "instant \<Rightarrow> property_spec list \<Rightarrow> string option \<Rightarrow> int option \<Rightarrow> pdict \<Rightarrow> stored_node \<Rightarrow> stored_node" where
  "node_fragment now ps bid version row n =
     \<lparr>sn_props = set_properties ps [''id''] row (sn_props n),
      sn_count = sn_count n +
        (if sn_batch n = bid \<and> bid \<noteq> None then 0 else as_int (map_of row ''new_signal_count'')),
      sn_first = earliest (sn_first n) (time_of (map_of row ''observed_at'')),
      sn_last = latest (sn_last n) (time_of (map_of row ''observed_at'')),
      sn_batch = bid, sn_schema = version, sn_created = sn_created n, sn_updated = Some now\<rparr>"

definition merge_node ::
  "instant \<Rightarrow> string \<Rightarrow> property_spec list \<Rightarrow> string option \<Rightarrow> int option \<Rightarrow> graph_store \<Rightarrow> pdict \<Rightarrow> graph_store" where
  "merge_node now label ps bid version g row =
     (let i = text_of (map_of row ''id'');
          n = (case gs_nodes g (label, i) of None \<Rightarrow> new_node now i | Some n \<Rightarrow> n) in
      g\<lparr>gs_nodes := (gs_nodes g)((label, i) \<mapsto> node_fragment now ps bid version row n)\<rparr>)"

section \<open>The stub of a signal\<close>

definition merge_signal :: "instant \<Rightarrow> graph_store \<Rightarrow> pdict \<Rightarrow> graph_store" where
  "merge_signal now g row =
     (let i = text_of (map_of row ''id'');
          n = (case gs_nodes g (SIGNAL_LABEL, i) of None \<Rightarrow> new_node now i | Some n \<Rightarrow> n);
          props = (\<lambda>k. if k \<in> {''tenant_id'', ''published_at'', ''source'', ''platform''}
             then column row k else sn_props n k) in
      g\<lparr>gs_nodes := (gs_nodes g)((SIGNAL_LABEL, i) \<mapsto> n\<lparr>sn_props := props\<rparr>)\<rparr>)"

section \<open>The fragment of an edge\<close>

definition tenant_matches :: "graph_store \<Rightarrow> node_ref \<Rightarrow> pvalue option \<Rightarrow> bool" where
  "tenant_matches g r t \<longleftrightarrow>
     (case gs_nodes g r of None \<Rightarrow> False | Some n \<Rightarrow> t \<noteq> None \<and> sn_props n ''tenant_id'' = t)"

definition new_edge :: "instant \<Rightarrow> pdict \<Rightarrow> stored_edge" where
  "new_edge now row =
     \<lparr>se_props = (\<lambda>k. if k \<in> {''edge_key'', ''valid_from'', ''observed_at''} then column row k else None),
      se_count = 0, se_batch = None, se_schema = None, se_created = Some now, se_updated = None\<rparr>"

definition edge_fragment ::
  "instant \<Rightarrow> property_spec list \<Rightarrow> string option \<Rightarrow> int option \<Rightarrow> pdict \<Rightarrow> stored_edge \<Rightarrow> stored_edge" where
  "edge_fragment now ps bid version row e =
     \<lparr>se_props = set_properties ps [''edge_key'', ''valid_from'', ''observed_at''] row (se_props e),
      se_count = se_count e +
        (if se_batch e = bid \<and> bid \<noteq> None then 0 else as_int (map_of row ''new_evidence'')),
      se_batch = bid, se_schema = version, se_created = se_created e, se_updated = Some now\<rparr>"

definition merge_edge ::
  "instant \<Rightarrow> edge_type \<Rightarrow> string \<Rightarrow> string \<Rightarrow> property_spec list \<Rightarrow> string option \<Rightarrow> int option
     \<Rightarrow> graph_store \<times> nat \<Rightarrow> pdict \<Rightarrow> graph_store \<times> nat" where
  "merge_edge now t f l ps bid version st row =
     (let g = fst st; a = (f, text_of (map_of row ''from_id'')); b = (l, text_of (map_of row ''to_id''));
          tenant = column row ''tenant_id'' in
      if tenant_matches g a tenant \<and> tenant_matches g b tenant then
        let k = (t, a, b, text_of (map_of row ''edge_key''));
            e = (case gs_edges g k of None \<Rightarrow> new_edge now row | Some e \<Rightarrow> e) in
        (g\<lparr>gs_edges := (gs_edges g)(k \<mapsto> edge_fragment now ps bid version row e)\<rparr>, Suc (snd st))
      else st)"

section \<open>Running a plan\<close>

definition specs_of :: "py_error + 'a \<Rightarrow> ('a \<Rightarrow> property_spec list) \<Rightarrow> property_spec list" where
  "specs_of r f = (case r of Inl _ \<Rightarrow> [] | Inr s \<Rightarrow> f s)"

definition run_statement :: "(planned \<Rightarrow> instant) \<Rightarrow> graph_store \<Rightarrow> planned \<Rightarrow> graph_store \<times> nat" where
  "run_statement clock g p =
     (case p_fragment p of
        Merge_Nodes t \<Rightarrow>
          (foldl (merge_node (clock p) (entity_value t) (specs_of (find_node_spec t) ns_properties) (p_batch p) (p_schema p))
             g (p_rows p), length (p_rows p))
      | Merge_Signals \<Rightarrow> (foldl (merge_signal (clock p)) g (p_rows p), length (p_rows p))
      | Merge_Edges t f l \<Rightarrow>
          foldl (merge_edge (clock p) t f l (specs_of (find_edge_spec t) es_properties) (p_batch p) (p_schema p))
            (g, 0) (p_rows p))"

fun run_statements :: "(planned \<Rightarrow> instant) \<Rightarrow> graph_store \<Rightarrow> planned list \<Rightarrow> graph_store \<times> nat list" where
  "run_statements clock g [] = (g, [])"
| "run_statements clock g (p # ps) =
     (let (g1, n) = run_statement clock g p; (g2, ns) = run_statements clock g1 ps in (g2, n # ns))"

definition store_runner :: "(planned \<Rightarrow> instant) \<Rightarrow> graph_store \<Rightarrow> runner" where
  "store_runner clock g ps = Inr (map (\<lambda>n. [[(''written'', PInt (int n))]]) (snd (run_statements clock g ps)))"

text \<open>
  A write on the store: the transaction commits before the counts are read, so the store
  changes also when the check of the counts raises.
\<close>

definition write_batch ::
  "(planned \<Rightarrow> instant) \<Rightarrow> digests \<Rightarrow> int \<Rightarrow> graph_store \<Rightarrow> graph_batch \<Rightarrow> graph_store \<times> (py_error + write_outcome)" where
  "write_batch clock dg version g b =
     ((case plan dg version b of Inl _ \<Rightarrow> g | Inr p \<Rightarrow> fst (run_statements clock g (wp_statements p))),
      apply_batch dg version (store_runner clock g) b)"

definition empty_store :: graph_store where
  "empty_store = \<lparr>gs_nodes = (\<lambda>_. None), gs_edges = (\<lambda>_. None)\<rparr>"

end
