(* ===== verification/Batcher.thy ===== *)
theory Batcher
  imports Graph_Store
begin

text \<open>
  \<open>graph/ingest/batcher.py\<close>: the write buffer between the enrichment consumer and the graph
  writer.

  One asyncio loop runs the submitters, the flusher task and any explicit \<open>flush()\<close>; a step
  of the model is what runs between two \<open>await\<close>s. The fields of \<open>WriteBatcher\<close> are the fields
  of a state; the lock of a flush is \<open>flight\<close>, which holds the owner of the flush that runs, the
  number of rows it took and the attempts it made. The four last fields record what the
  batcher has promised and done: rows accepted, rows written, rows handed to the dead-letter sink,
  calls of \<open>on_pressure\<close>. Writer, sink and clock answer through the events; a flush that is
  cancelled from outside ends as its exception passes, a cancelled task does not come back.
\<close>

section \<open>Configuration\<close>

definition DEFAULT_MAX_BATCH_ROWS :: int where "DEFAULT_MAX_BATCH_ROWS = 500"
definition DEFAULT_MAX_AGE_SECONDS :: pyfloat where "DEFAULT_MAX_AGE_SECONDS = 2"
definition DEFAULT_CAPACITY_BATCHES :: int where "DEFAULT_CAPACITY_BATCHES = 2"
definition DEFAULT_MAX_ATTEMPTS :: int where "DEFAULT_MAX_ATTEMPTS = 3"
definition BACKOFF_BASE_SECONDS :: pyfloat where "BACKOFF_BASE_SECONDS = 1 / 2"
definition BACKOFF_CAP_SECONDS :: pyfloat where "BACKOFF_CAP_SECONDS = 30"

record batcher_config =
  max_batch_rows :: nat
  max_age_seconds :: pyfloat
  row_capacity :: nat
  max_attempts :: int
  has_sink :: bool

definition new_batcher_config ::
  "int \<Rightarrow> pyfloat \<Rightarrow> int \<Rightarrow> int \<Rightarrow> bool \<Rightarrow> py_error + batcher_config" where
  "new_batcher_config max_rows max_age capacity attempts sink =
     (if max_rows < 1 then Inl ValueError
      else if max_age \<le> 0 then Inl ValueError
      else if capacity < 1 then Inl ValueError
      else Inr \<lparr>max_batch_rows = nat max_rows, max_age_seconds = max_age,
        row_capacity = nat (max_rows * capacity), max_attempts = attempts, has_sink = sink\<rparr>)"

section \<open>State\<close>

datatype flush_owner = Flusher | Caller

record flush_flight =
  f_owner :: flush_owner
  f_rows :: nat
  f_attempt :: int

text \<open>Where the flusher task is: what it awaits.\<close>

datatype flusher =
    Not_Started
  | Deciding
  | Awaits_Row
  | Awaits_Until pyfloat
  | In_Flush
  | Backs_Off
  | Stopped

record batcher =
  buffer :: "graph_write list"
  deadline :: "pyfloat option"
  closing :: bool
  closed :: bool
  pressured :: bool
  wake :: bool
  flight :: "flush_flight option"
  task :: flusher
  clock :: pyfloat
  accepted :: "graph_write list"
  settled :: "(graph_write list \<times> bool) list"
  pressure_calls :: "bool list"

definition new_batcher :: batcher where
  "new_batcher = \<lparr>buffer = [], deadline = None, closing = False, closed = False, pressured = False,
     wake = False, flight = None, task = Not_Started, clock = 0, accepted = [], settled = [],
     pressure_calls = []\<rparr>"

definition set_pressure :: "bool \<Rightarrow> batcher \<Rightarrow> batcher" where
  "set_pressure p b =
     (if p = pressured b then b
      else b\<lparr>pressured := p, pressure_calls := pressure_calls b @ [p]\<rparr>)"

section \<open>Submitting\<close>

datatype submit_answer = Refused | Waits | Accepted

definition append_row :: "batcher_config \<Rightarrow> graph_write \<Rightarrow> batcher \<Rightarrow> batcher" where
  "append_row cfg w b =
     (let was_empty = (buffer b = []);
          b1 = b\<lparr>buffer := buffer b @ [w], accepted := accepted b @ [w]\<rparr>;
          b2 = (if was_empty then b1\<lparr>deadline := Some (clock b + max_age_seconds cfg)\<rparr> else b1) in
      if length (buffer b2) \<ge> max_batch_rows cfg \<or> was_empty then b2\<lparr>wake := True\<rparr> else b2)"

text \<open>\<open>submit\<close> up to its first \<open>await\<close>, and what a submitter does that is woken from the wait.\<close>

definition submit :: "batcher_config \<Rightarrow> graph_write \<Rightarrow> batcher \<Rightarrow> submit_answer \<times> batcher" where
  "submit cfg w b =
     (if closing b \<or> closed b then (Refused, b)
      else if length (buffer b) \<ge> row_capacity cfg then (Waits, set_pressure True b)
      else (Accepted, append_row cfg w b))"

definition submit_woken :: "batcher_config \<Rightarrow> graph_write \<Rightarrow> batcher \<Rightarrow> submit_answer \<times> batcher" where
  "submit_woken cfg w b =
     (if length (buffer b) \<ge> row_capacity cfg \<and> \<not> closing b then (Waits, b)
      else if closing b \<or> closed b then (Refused, b)
      else (Accepted, append_row cfg w b))"

section \<open>Flushing\<close>

definition flush_start :: "batcher_config \<Rightarrow> flush_owner \<Rightarrow> batcher \<Rightarrow> batcher" where
  "flush_start cfg owner b =
     b\<lparr>flight := Some \<lparr>f_owner = owner, f_rows = length (take (max_batch_rows cfg) (buffer b)), f_attempt = 1\<rparr>\<rparr>"

definition flight_batch :: "flush_flight \<Rightarrow> batcher \<Rightarrow> graph_batch" where
  "flight_batch f b = batch_of (take (f_rows f) (buffer b))"

definition retry_delay :: "int \<Rightarrow> pyfloat \<Rightarrow> pyfloat" where
  "retry_delay attempt r =
     min (BACKOFF_BASE_SECONDS * 2 ^ nat (attempt - 1)) BACKOFF_CAP_SECONDS * (1 / 2 + r)"

text \<open>What the writer, and after the last attempt the sink, answer to one attempt.\<close>

datatype apply_answer = Wrote | Raised | Cancelled

datatype flush_answer = Flushed | Dead_Lettered | Retries | Flush_Raises

definition release_flush :: "flusher \<Rightarrow> flush_flight \<Rightarrow> batcher \<Rightarrow> batcher" where
  "release_flush next f b =
     b\<lparr>flight := None, task := (if f_owner f = Flusher then next else task b)\<rparr>"

definition complete_flush :: "batcher_config \<Rightarrow> bool \<Rightarrow> flush_flight \<Rightarrow> batcher \<Rightarrow> batcher" where
  "complete_flush cfg written f b =
     (let rest = drop (f_rows f) (buffer b);
          b1 = (release_flush Deciding f b)\<lparr>buffer := rest,
            deadline := (if rest \<noteq> [] then Some (clock b + max_age_seconds cfg) else None),
            settled := settled b @ [(take (f_rows f) (buffer b), written)]\<rparr> in
      if length rest \<le> row_capacity cfg div 2 then set_pressure False b1 else b1)"

definition attempt_answer ::
  "batcher_config \<Rightarrow> apply_answer \<Rightarrow> bool \<Rightarrow> flush_flight \<Rightarrow> batcher \<Rightarrow> flush_answer \<times> batcher" where
  "attempt_answer cfg ans sink_ok f b =
     (case ans of
        Wrote \<Rightarrow> (Flushed, complete_flush cfg True f b)
      | Cancelled \<Rightarrow> (Flush_Raises, release_flush Stopped f b)
      | Raised \<Rightarrow>
          if f_attempt f < max_attempts cfg
          then (Retries, b\<lparr>flight := Some (f\<lparr>f_attempt := f_attempt f + 1\<rparr>)\<rparr>)
          else if \<not> has_sink cfg then (Flush_Raises, release_flush Backs_Off f b)
          else if sink_ok then (Dead_Lettered, complete_flush cfg False f b)
          else (Flush_Raises, release_flush Backs_Off f b))"

section \<open>The flusher task\<close>

definition flusher_decides :: "batcher_config \<Rightarrow> batcher \<Rightarrow> batcher" where
  "flusher_decides cfg b =
     (if closing b then b\<lparr>task := Stopped\<rparr>
      else if buffer b = [] then b\<lparr>task := Awaits_Row\<rparr>
      else
        let remaining = (case deadline b of None \<Rightarrow> 0 | Some d \<Rightarrow> d - clock b) in
        if remaining \<le> 0 \<or> length (buffer b) \<ge> max_batch_rows cfg then b\<lparr>task := In_Flush\<rparr>
        else b\<lparr>wake := False, task := Awaits_Until (clock b + remaining)\<rparr>)"

definition start :: "batcher \<Rightarrow> py_error + batcher" where
  "start b = (if task b \<noteq> Not_Started then Inr b
     else if closed b then Inl RuntimeError else Inr (b\<lparr>task := Deciding\<rparr>))"

text \<open>
  A task that awaits \<open>_wake\<close> goes on when the event is set; \<open>Awaits_Row\<close> clears it on the way.
  A timed wait ends by itself when its time has come.
\<close>

definition flusher_wakes :: "batcher \<Rightarrow> batcher" where
  "flusher_wakes b =
     (case task b of
        Awaits_Row \<Rightarrow> if wake b then b\<lparr>wake := False, task := Deciding\<rparr> else b
      | Awaits_Until u \<Rightarrow> if wake b \<or> u \<le> clock b then b\<lparr>task := Deciding\<rparr> else b
      | Backs_Off \<Rightarrow> b\<lparr>task := Deciding\<rparr>
      | _ \<Rightarrow> b)"

section \<open>Closing\<close>

definition close_start :: "batcher \<Rightarrow> batcher" where
  "close_start b = (if closed b then b else b\<lparr>closing := True, wake := True\<rparr>)"

definition close_end :: "batcher \<Rightarrow> batcher" where
  "close_end b = set_pressure False (b\<lparr>closed := True\<rparr>)"

section \<open>Steps\<close>

datatype batcher_event =
    Tick pyfloat
  | Start
  | Submit graph_write
  | Submit_Woken graph_write
  | Flush
  | Flusher_Decides
  | Flusher_Flushes
  | Flusher_Wakes
  | Answer apply_answer bool
  | Close_Start
  | Close_End

text \<open>
  A flush that finds the lock taken, or an event whose task is elsewhere, has to wait: the
  step changes nothing. \<open>aclose\<close> ends after its task has ended and its flushes have returned or raised.
\<close>

definition batcher_step :: "batcher_config \<Rightarrow> batcher \<Rightarrow> batcher_event \<Rightarrow> batcher" where
  "batcher_step cfg b e =
     (case e of
        Tick d \<Rightarrow> b\<lparr>clock := clock b + max 0 d\<rparr>
      | Start \<Rightarrow> (case start b of Inl _ \<Rightarrow> b | Inr b1 \<Rightarrow> b1)
      | Submit w \<Rightarrow> snd (submit cfg w b)
      | Submit_Woken w \<Rightarrow> snd (submit_woken cfg w b)
      | Flush \<Rightarrow> if flight b = None \<and> buffer b \<noteq> [] then flush_start cfg Caller b else b
      | Flusher_Decides \<Rightarrow> if task b = Deciding then flusher_decides cfg b else b
      | Flusher_Flushes \<Rightarrow>
          if task b = In_Flush \<and> flight b = None
          then (if buffer b = [] then b\<lparr>task := Deciding\<rparr> else flush_start cfg Flusher b) else b
      | Flusher_Wakes \<Rightarrow> flusher_wakes b
      | Answer ans sink_ok \<Rightarrow>
          (case flight b of None \<Rightarrow> b | Some f \<Rightarrow> snd (attempt_answer cfg ans sink_ok f b))
      | Close_Start \<Rightarrow> close_start b
      | Close_End \<Rightarrow> if closing b \<and> flight b = None \<and> task b \<in> {Not_Started, Stopped} then close_end b else b)"

definition batcher_run :: "batcher_config \<Rightarrow> batcher_event list \<Rightarrow> batcher" where
  "batcher_run cfg es = foldl (batcher_step cfg) new_batcher es"

section \<open>Draining\<close>

text \<open>
  The answers of the writer and of the sink in the order of the calls; the counter is the
  number of calls so far.
\<close>

type_synonym answers = "nat \<Rightarrow> apply_answer \<times> bool"

fun flush_attempts ::
  "batcher_config \<Rightarrow> answers \<Rightarrow> nat \<Rightarrow> nat \<Rightarrow> flush_flight \<Rightarrow> batcher \<Rightarrow> (py_error + flush_answer) \<times> nat \<times> batcher" where
  "flush_attempts cfg ans i 0 f b = (Inl RuntimeError, i, release_flush Backs_Off f b)"
| "flush_attempts cfg ans i (Suc fuel) f b =
     (case attempt_answer cfg (fst (ans i)) (snd (ans i)) f b of
        (Retries, b1) \<Rightarrow> flush_attempts cfg ans (Suc i) fuel (f\<lparr>f_attempt := f_attempt f + 1\<rparr>) b1
      | (Flush_Raises, b1) \<Rightarrow> (Inl RuntimeError, Suc i, b1)
      | (r, b1) \<Rightarrow> (Inr r, Suc i, b1))"

definition flush :: "batcher_config \<Rightarrow> answers \<Rightarrow> nat \<Rightarrow> batcher \<Rightarrow> (py_error + flush_answer option) \<times> nat \<times> batcher" where
  "flush cfg ans i b =
     (if buffer b = [] then (Inr None, i, b)
      else
        let b1 = flush_start cfg Caller b in
        (case flight b1 of None \<Rightarrow> (Inr None, i, b1)
         | Some f \<Rightarrow>
             (case flush_attempts cfg ans i (Suc (nat (max_attempts cfg))) f b1 of
                (Inl e, j, b2) \<Rightarrow> (Inl e, j, b2) | (Inr r, j, b2) \<Rightarrow> (Inr (Some r), j, b2))))"

fun drain :: "batcher_config \<Rightarrow> answers \<Rightarrow> nat \<Rightarrow> nat \<Rightarrow> batcher \<Rightarrow> (py_error + unit) \<times> batcher" where
  "drain cfg ans i 0 b = (if buffer b = [] then Inr () else Inl RuntimeError, b)"
| "drain cfg ans i (Suc fuel) b =
     (if buffer b = [] then (Inr (), b)
      else (case flush cfg ans i b of
              (Inl e, j, b1) \<Rightarrow> (Inl e, b1)
            | (Inr _, j, b1) \<Rightarrow> drain cfg ans j fuel b1))"

text \<open>\<open>aclose\<close> once its task has ended: the flushes, then the \<open>finally\<close> block.\<close>

definition aclose :: "batcher_config \<Rightarrow> answers \<Rightarrow> batcher \<Rightarrow> (py_error + unit) \<times> batcher" where
  "aclose cfg ans b =
     (if closed b then (Inr (), b)
      else (case drain cfg ans 0 (length (buffer b)) ((close_start b)\<lparr>task := Stopped\<rparr>) of
              (r, b1) \<Rightarrow> (r, close_end b1)))"

end
