(* ===== verification/Batcher_Laws.thy ===== *)
theory Batcher_Laws
  imports Batcher
begin

text \<open>
  The invariant of the batcher, kept by every step of every task in any interleaving, and
  what follows: accepted rows are settled in order or still buffered, the buffer is bounded,
  \<open>on_pressure\<close> fires on edges only, the flusher never sleeps past the age of a row, and closing
  drains.
\<close>

section \<open>The invariant\<close>

definition config_ok :: "batcher_config \<Rightarrow> bool" where
  "config_ok cfg \<longleftrightarrow> 1 \<le> max_batch_rows cfg \<and> 0 < max_age_seconds cfg \<and> max_batch_rows cfg \<le> row_capacity cfg"

lemma new_batcher_config_ok:
  assumes "new_batcher_config rows age capacity attempts sink = Inr cfg"
  shows "config_ok cfg \<and> has_sink cfg = sink \<and> max_attempts cfg = attempts \<and>
    max_age_seconds cfg = age \<and> int (row_capacity cfg) = rows * capacity"
proof -
  from assms have b: "1 \<le> rows" "0 < age" "1 \<le> capacity" and
    cfg: "cfg = \<lparr>max_batch_rows = nat rows, max_age_seconds = age, row_capacity = nat (rows * capacity),
      max_attempts = attempts, has_sink = sink\<rparr>"
    by (auto simp: new_batcher_config_def split: if_splits)
  have "rows * 1 \<le> rows * capacity" by (rule mult_left_mono) (use b in simp_all)
  then have "nat rows \<le> nat (rows * capacity)" by (simp add: nat_mono)
  with b show ?thesis by (simp add: cfg config_ok_def)
qed

definition alternating :: "nat \<Rightarrow> bool list" where
  "alternating n = map even [0..<n]"

lemma alternating_Suc: "alternating (Suc n) = alternating n @ [even n]"
  by (simp add: alternating_def)

definition rows_ok :: "batcher_config \<Rightarrow> batcher \<Rightarrow> bool" where
  "rows_ok cfg b \<longleftrightarrow> accepted b = concat (map fst (settled b)) @ buffer b \<and>
     length (buffer b) \<le> row_capacity cfg \<and>
     (\<forall>(rows, written) \<in> set (settled b). rows \<noteq> [] \<and> length rows \<le> max_batch_rows cfg \<and>
        (written \<or> has_sink cfg))"

definition flight_ok :: "batcher_config \<Rightarrow> batcher \<Rightarrow> bool" where
  "flight_ok cfg b \<longleftrightarrow> (\<forall>f. flight b = Some f \<longrightarrow>
     1 \<le> f_rows f \<and> f_rows f \<le> length (buffer b) \<and> f_rows f \<le> max_batch_rows cfg)"

definition pressure_ok :: "batcher \<Rightarrow> bool" where
  "pressure_ok b \<longleftrightarrow> pressure_calls b = alternating (length (pressure_calls b)) \<and>
     (pressured b \<longleftrightarrow> odd (length (pressure_calls b)))"

definition deadline_ok :: "batcher_config \<Rightarrow> batcher \<Rightarrow> bool" where
  "deadline_ok cfg b \<longleftrightarrow> (deadline b = None \<longleftrightarrow> buffer b = []) \<and>
     (\<forall>d. deadline b = Some d \<longrightarrow> d \<le> clock b + max_age_seconds cfg)"

definition wake_ok :: "batcher_config \<Rightarrow> batcher \<Rightarrow> bool" where
  "wake_ok cfg b \<longleftrightarrow> buffer b \<noteq> [] \<longrightarrow>
     (task b = Awaits_Row \<longrightarrow> wake b) \<and>
     (\<forall>u. task b = Awaits_Until u \<longrightarrow> wake b \<or>
        length (buffer b) < max_batch_rows cfg \<and> (\<forall>d. deadline b = Some d \<longrightarrow> u \<le> d))"

definition batcher_ok :: "batcher_config \<Rightarrow> batcher \<Rightarrow> bool" where
  "batcher_ok cfg b \<longleftrightarrow> rows_ok cfg b \<and> flight_ok cfg b \<and> pressure_ok b \<and> deadline_ok cfg b \<and> wake_ok cfg b"

lemmas batcher_inv = batcher_ok_def rows_ok_def flight_ok_def pressure_ok_def deadline_ok_def wake_ok_def

lemma batcher_okI:
  "rows_ok cfg b \<Longrightarrow> flight_ok cfg b \<Longrightarrow> pressure_ok b \<Longrightarrow> deadline_ok cfg b \<Longrightarrow> wake_ok cfg b \<Longrightarrow> batcher_ok cfg b"
  by (simp add: batcher_ok_def)

lemma batcher_okD:
  assumes "batcher_ok cfg b"
  shows "rows_ok cfg b" "flight_ok cfg b" "pressure_ok b" "deadline_ok cfg b" "wake_ok cfg b"
  using assms by (simp_all add: batcher_ok_def)

section \<open>Every operation keeps it\<close>

lemma set_pressure_fields [simp]:
  "buffer (set_pressure p b) = buffer b" "accepted (set_pressure p b) = accepted b"
  "settled (set_pressure p b) = settled b" "flight (set_pressure p b) = flight b"
  "deadline (set_pressure p b) = deadline b" "clock (set_pressure p b) = clock b"
  "task (set_pressure p b) = task b" "wake (set_pressure p b) = wake b"
  "closing (set_pressure p b) = closing b" "closed (set_pressure p b) = closed b"
  by (simp_all add: set_pressure_def)

lemma pressure_ok_set: "pressure_ok b \<Longrightarrow> pressure_ok (set_pressure p b)"
  by (auto simp: pressure_ok_def set_pressure_def alternating_Suc)

lemma set_pressure_ok: "batcher_ok cfg b \<Longrightarrow> batcher_ok cfg (set_pressure p b)"
  using pressure_ok_set [of b p]
  by (simp add: batcher_ok_def rows_ok_def flight_ok_def deadline_ok_def wake_ok_def)

lemma append_row_ok:
  assumes "batcher_ok cfg b" and "length (buffer b) < row_capacity cfg"
  shows "batcher_ok cfg (append_row cfg w b)"
proof (rule batcher_okI)
  note ok = batcher_okD [OF assms(1)]
  show "rows_ok cfg (append_row cfg w b)" using ok(1) assms(2)
    by (auto simp: rows_ok_def append_row_def Let_def)
  show "flight_ok cfg (append_row cfg w b)" using ok(2)
    by (auto simp: flight_ok_def append_row_def Let_def )
  show "pressure_ok (append_row cfg w b)" using ok(3)
    by (auto simp: pressure_ok_def append_row_def Let_def)
  show "deadline_ok cfg (append_row cfg w b)" using ok(4)
    by (auto simp: deadline_ok_def append_row_def Let_def)
  show "wake_ok cfg (append_row cfg w b)" using ok(5)
    by (auto simp: wake_ok_def append_row_def Let_def)
qed

lemma submit_ok: "batcher_ok cfg b \<Longrightarrow> batcher_ok cfg (snd (submit cfg w b))"
  by (auto simp: submit_def intro: append_row_ok set_pressure_ok)

lemma submit_woken_ok: "batcher_ok cfg b \<Longrightarrow> config_ok cfg \<Longrightarrow> batcher_ok cfg (snd (submit_woken cfg w b))"
  by (auto simp: submit_woken_def intro: append_row_ok)

lemma flush_start_ok:
  assumes "batcher_ok cfg b" and "config_ok cfg" and "buffer b \<noteq> []"
  shows "batcher_ok cfg (flush_start cfg o' b)"
proof (rule batcher_okI)
  note ok = batcher_okD [OF assms(1)]
  show "flight_ok cfg (flush_start cfg o' b)" using assms(2,3)
    by (auto simp: flight_ok_def flush_start_def config_ok_def Suc_le_eq)
qed (use batcher_okD [OF assms(1)] in
  \<open>simp_all add: flush_start_def rows_ok_def pressure_ok_def deadline_ok_def wake_ok_def\<close>)

lemma release_flush_ok:
  assumes "batcher_ok cfg b" and "next \<in> {Deciding, Backs_Off, Stopped}"
  shows "batcher_ok cfg (release_flush next f b)"
  by (rule batcher_okI) (use batcher_okD [OF assms(1)] assms(2) in
    \<open>auto simp: release_flush_def rows_ok_def flight_ok_def pressure_ok_def deadline_ok_def wake_ok_def\<close>)

lemma complete_flush_ok:
  assumes "batcher_ok cfg b" and "flight b = Some f" and "w \<or> has_sink cfg" and "config_ok cfg"
  shows "batcher_ok cfg (complete_flush cfg w f b)"
proof -
  let ?b = "(release_flush Deciding f b)\<lparr>buffer := drop (f_rows f) (buffer b),
      deadline := (if drop (f_rows f) (buffer b) \<noteq> [] then Some (clock b + max_age_seconds cfg) else None),
      settled := settled b @ [(take (f_rows f) (buffer b), w)]\<rparr>"
  note ok = batcher_okD [OF assms(1)]
  have fl: "1 \<le> f_rows f" "f_rows f \<le> length (buffer b)" "f_rows f \<le> max_batch_rows cfg"
    using ok(2) by (simp_all add: flight_ok_def assms(2))
  have "batcher_ok cfg ?b"
  proof (rule batcher_okI)
    show "rows_ok cfg ?b" using ok(1) fl assms(3) by (auto simp: rows_ok_def release_flush_def)
    show "flight_ok cfg ?b" by (simp add: flight_ok_def release_flush_def)
    show "pressure_ok ?b" using ok(3) by (simp add: pressure_ok_def release_flush_def)
    show "deadline_ok cfg ?b" by (simp add: deadline_ok_def release_flush_def)
    show "wake_ok cfg ?b" using ok(4,5) fl
      by (auto simp: wake_ok_def deadline_ok_def release_flush_def)
  qed
  then show ?thesis by (simp add: complete_flush_def Let_def set_pressure_ok)
qed

lemma attempt_answer_ok:
  assumes "batcher_ok cfg b" and "flight b = Some f" and "config_ok cfg"
  shows "batcher_ok cfg (snd (attempt_answer cfg ans s f b))"
proof -
  have "batcher_ok cfg (b\<lparr>flight := Some (f\<lparr>f_attempt := f_attempt f + 1\<rparr>)\<rparr>)"
    using assms(1,2) by (simp add: batcher_inv)
  with assms show ?thesis
    by (cases ans) (auto simp: attempt_answer_def intro!: complete_flush_ok release_flush_ok)
qed

lemma flusher_decides_ok: "batcher_ok cfg b \<Longrightarrow> batcher_ok cfg (flusher_decides cfg b)"
  by (cases "deadline b") (auto simp: flusher_decides_def Let_def batcher_inv)

lemma flusher_wakes_ok: "batcher_ok cfg b \<Longrightarrow> batcher_ok cfg (flusher_wakes b)"
  by (auto simp: flusher_wakes_def batcher_inv split: flusher.splits)

lemma close_end_ok: "batcher_ok cfg b \<Longrightarrow> batcher_ok cfg (close_end b)"
  unfolding close_end_def by (rule set_pressure_ok) (simp add: batcher_inv)

lemma close_start_ok: "batcher_ok cfg b \<Longrightarrow> batcher_ok cfg (close_start b)"
  by (auto simp: close_start_def batcher_inv)

lemma tick_ok: "batcher_ok cfg b \<Longrightarrow> 0 \<le> d \<Longrightarrow> batcher_ok cfg (b\<lparr>clock := clock b + d\<rparr>)"
  by (fastforce simp: batcher_inv)

lemma task_ok: "batcher_ok cfg b \<Longrightarrow> t \<in> {Deciding, Backs_Off, Stopped, In_Flush} \<Longrightarrow> batcher_ok cfg (b\<lparr>task := t\<rparr>)"
  by (auto simp: batcher_inv)

lemma batcher_step_ok:
  assumes "config_ok cfg" and "batcher_ok cfg b"
  shows "batcher_ok cfg (batcher_step cfg b e)"
proof (cases e)
  case (Tick d)
  with assms show ?thesis by (simp add: batcher_step_def tick_ok)
next
  case Start
  with assms show ?thesis by (simp add: batcher_step_def start_def task_ok)
next
  case (Answer a s)
  with assms show ?thesis by (simp add: batcher_step_def attempt_answer_ok split: option.splits)
qed (use assms in \<open>simp_all add: batcher_step_def submit_ok submit_woken_ok flush_start_ok
  flusher_decides_ok flusher_wakes_ok close_start_ok close_end_ok task_ok\<close>)

text \<open>The configuration is fixed when the batcher is built, so the machine runs over both.\<close>

definition configured_step :: "batcher_config \<times> batcher \<Rightarrow> batcher_event \<Rightarrow> batcher_config \<times> batcher" where
  "configured_step x e = (fst x, batcher_step (fst x) (snd x) e)"

interpretation batching: machine configured_step "\<lambda>x. config_ok (fst x) \<and> batcher_ok (fst x) (snd x)"
  by unfold_locales (simp add: configured_step_def batcher_step_ok)

lemma configured_run: "foldl configured_step (cfg, b) es = (cfg, foldl (batcher_step cfg) b es)"
  by (induction es arbitrary: b) (simp_all add: configured_step_def)

lemma new_batcher_ok: "batcher_ok cfg new_batcher"
  by (simp add: batcher_inv new_batcher_def alternating_def)

lemma batcher_run_ok:
  assumes "config_ok cfg"
  shows "batcher_ok cfg (batcher_run cfg es)"
  using batching.run_inv [of "(cfg, new_batcher)" es] assms new_batcher_ok
  by (simp add: configured_run batcher_run_def)

section \<open>No row is lost\<close>

text \<open>
  C32. Whatever the tasks do and however the writer, the sink and the clock answer, the rows a
  batcher has accepted are, in their order, the rows of the settled batches followed by those
  still buffered; a batch counts as settled without being written only where a sink took it,
  and the buffer never outgrows its capacity.
\<close>

theorem batcher_loses_nothing:
  assumes "new_batcher_config rows age capacity attempts sink = Inr cfg"
  shows "accepted (batcher_run cfg es) =
      concat (map fst (settled (batcher_run cfg es))) @ buffer (batcher_run cfg es) \<and>
    (\<forall>(batch, written) \<in> set (settled (batcher_run cfg es)). written \<or> sink) \<and>
    int (length (buffer (batcher_run cfg es))) \<le> rows * capacity"
proof -
  from new_batcher_config_ok [OF assms] have cfg: "config_ok cfg" "has_sink cfg = sink"
    "int (row_capacity cfg) = rows * capacity" by blast+
  from batcher_okD(1) [OF batcher_run_ok [OF cfg(1), of es]] cfg(2,3) show ?thesis
    by (auto simp: rows_ok_def)
qed

text \<open>
  \<open>on_pressure\<close> is called on edges only: its calls alternate, the first one says that the
  consumer is to pause, and the last one is the state the batcher reports.
\<close>

theorem pressure_on_edges_only:
  assumes "new_batcher_config rows age capacity attempts sink = Inr cfg"
  shows "pressure_calls (batcher_run cfg es) = map even [0..<length (pressure_calls (batcher_run cfg es))] \<and>
    (pressured (batcher_run cfg es) \<longleftrightarrow> odd (length (pressure_calls (batcher_run cfg es))))"
  using batcher_okD(3) [OF batcher_run_ok, of cfg es] new_batcher_config_ok [OF assms]
  by (simp add: pressure_ok_def alternating_def)

section \<open>The age timer\<close>

lemma due_flushes:
  assumes "deadline b = Some d" and "d \<le> clock b" and "buffer b \<noteq> []" and "\<not> closing b"
  shows "task (flusher_decides cfg b) = In_Flush"
  using assms by (simp add: flusher_decides_def)

definition may_flush :: "flusher \<Rightarrow> bool" where
  "may_flush t \<longleftrightarrow> t = Deciding \<or> t = Awaits_Row \<or> t = Backs_Off \<or> (\<exists>u. t = Awaits_Until u)"

lemma flusher_catches_up:
  assumes "config_ok cfg" and "batcher_ok cfg b" and "may_flush (task b)" and "buffer b \<noteq> []" and "\<not> closing b"
  shows "task (foldl (batcher_step cfg) b [Tick (max_age_seconds cfg), Flusher_Wakes, Flusher_Decides]) = In_Flush"
proof -
  let ?b1 = "b\<lparr>clock := clock b + max_age_seconds cfg\<rparr>"
  from assms(1) have "0 < max_age_seconds cfg" by (simp add: config_ok_def)
  then have s1: "batcher_step cfg b (Tick (max_age_seconds cfg)) = ?b1" by (simp add: batcher_step_def)
  from assms(2,4) obtain d where d: "deadline b = Some d" "d \<le> clock b + max_age_seconds cfg"
    by (auto simp: batcher_ok_def deadline_ok_def)
  have w: "task (flusher_wakes ?b1) = Deciding \<and> deadline (flusher_wakes ?b1) = Some d \<and>
      clock (flusher_wakes ?b1) = clock ?b1 \<and> buffer (flusher_wakes ?b1) = buffer b \<and>
      closing (flusher_wakes ?b1) = closing b"
    using assms(2-4) d by (fastforce simp: flusher_wakes_def may_flush_def batcher_ok_def wake_ok_def)
  then have "task (flusher_decides cfg (flusher_wakes ?b1)) = In_Flush"
    using d assms(4,5) by (intro due_flushes) simp_all
  with w show ?thesis by (simp only: foldl.simps s1) (simp add: batcher_step_def)
qed

text \<open>
  The buffer flushes on age: in every state the tasks can reach, when rows are buffered and the
  flusher waits -- for a row, for a deadline, or backing off after a failure -- it is woken and
  goes on to flush once \<open>max_age_seconds\<close> have passed. No wake-up is lost.
\<close>

theorem flusher_never_oversleeps:
  assumes "new_batcher_config rows age capacity attempts sink = Inr cfg"
    and "may_flush (task (batcher_run cfg es))" and "buffer (batcher_run cfg es) \<noteq> []"
    and "\<not> closing (batcher_run cfg es)"
  shows "task (batcher_run cfg (es @ [Tick age, Flusher_Wakes, Flusher_Decides])) = In_Flush"
proof -
  from new_batcher_config_ok [OF assms(1)] have cfg: "config_ok cfg" "max_age_seconds cfg = age" by blast+
  from flusher_catches_up [OF cfg(1) batcher_run_ok [OF cfg(1), of es] assms(2-4)] cfg(2) show ?thesis
    by (simp only: batcher_run_def foldl_append)
qed

section \<open>Closing drains\<close>

text \<open>A flush succeeds where the sink takes what the writer refuses, or the writer gives in.\<close>

definition gives_in :: "batcher_config \<Rightarrow> answers \<Rightarrow> bool" where
  "gives_in cfg ans \<longleftrightarrow> (\<forall>i. fst (ans i) \<noteq> Cancelled) \<and>
     (has_sink cfg \<and> (\<forall>i. snd (ans i)) \<or>
      (\<forall>i. \<exists>j < max 1 (nat (max_attempts cfg)). fst (ans (i + j)) = Wrote))"

lemma complete_flush_fields [simp]:
  "buffer (complete_flush cfg w f b) = drop (f_rows f) (buffer b)"
  "settled (complete_flush cfg w f b) = settled b @ [(take (f_rows f) (buffer b), w)]"
  "accepted (complete_flush cfg w f b) = accepted b"
  "closing (complete_flush cfg w f b) = closing b" "closed (complete_flush cfg w f b) = closed b"
  "flight (complete_flush cfg w f b) = None"
  by (simp_all add: complete_flush_def Let_def release_flush_def)

lemma flush_attempts_returns:
  assumes "\<forall>i. fst (ans i) \<noteq> Cancelled"
    and "has_sink cfg \<and> (\<forall>i. snd (ans i)) \<or>
      (\<exists>j. f_attempt f + int j \<le> max 1 (max_attempts cfg) \<and> fst (ans (i + j)) = Wrote)"
    and "1 \<le> f_attempt f" and "f_attempt f \<le> max 1 (max_attempts cfg)"
    and "max 1 (max_attempts cfg) - f_attempt f < int fuel"
    and "batcher_ok cfg b" and "flight b = Some f" and "config_ok cfg"
  shows "\<exists>r j b1. flush_attempts cfg ans i fuel f b = (Inr r, j, b1) \<and> batcher_ok cfg b1 \<and>
    buffer b1 = drop (f_rows f) (buffer b) \<and> closing b1 = closing b \<and> accepted b1 = accepted b"
  using assms(2-7)
proof (induction fuel arbitrary: i f b)
  case 0
  then show ?case by simp
next
  case (Suc fuel)
  let ?a = "attempt_answer cfg (fst (ans i)) (snd (ans i)) f b"
  have ok: "batcher_ok cfg (snd ?a)" using Suc.prems(5,6) assms(8) by (rule attempt_answer_ok)
  consider (wrote) "fst (ans i) = Wrote" | (again) "fst (ans i) = Raised" "f_attempt f < max_attempts cfg"
    | (last) "fst (ans i) = Raised" "\<not> f_attempt f < max_attempts cfg"
    using assms(1) by (cases "fst (ans i)") auto
  then show ?case
  proof cases
    case wrote
    then have "?a = (Flushed, complete_flush cfg True f b)" by (simp add: attempt_answer_def)
    with ok show ?thesis by simp
  next
    case again
    let ?f = "f\<lparr>f_attempt := f_attempt f + 1\<rparr>"
    let ?b = "b\<lparr>flight := Some ?f\<rparr>"
    have a: "?a = (Retries, ?b)" using again by (simp add: attempt_answer_def)
    have "has_sink cfg \<and> (\<forall>i. snd (ans i)) \<or>
        (\<exists>j. f_attempt ?f + int j \<le> max 1 (max_attempts cfg) \<and> fst (ans (Suc i + j)) = Wrote)"
    proof (rule disjE [OF Suc.prems(1)])
      assume "\<exists>j. f_attempt f + int j \<le> max 1 (max_attempts cfg) \<and> fst (ans (i + j)) = Wrote"
      then obtain j where j: "f_attempt f + int j \<le> max 1 (max_attempts cfg)" "fst (ans (i + j)) = Wrote" by blast
      with again(1) obtain j' where "j = Suc j'" by (cases j) auto
      with j show ?thesis by (intro disjI2 exI [of _ j']) simp
    qed blast
    from Suc.IH [OF this, of ?b] Suc.prems again a ok show ?thesis by auto
  next
    case last
    have "has_sink cfg \<and> snd (ans i)"
    proof (rule disjE [OF Suc.prems(1)])
      assume "\<exists>j. f_attempt f + int j \<le> max 1 (max_attempts cfg) \<and> fst (ans (i + j)) = Wrote"
      then obtain j where j: "f_attempt f + int j \<le> max 1 (max_attempts cfg)" "fst (ans (i + j)) = Wrote" by blast
      with last Suc.prems(2) have "j = 0" by linarith
      with j last(1) show ?thesis by simp
    qed blast
    with last have "?a = (Dead_Lettered, complete_flush cfg False f b)" by (simp add: attempt_answer_def)
    with ok show ?thesis by simp
  qed
qed

lemma flush_returns:
  assumes "gives_in cfg ans" and "batcher_ok cfg b" and "config_ok cfg" and "buffer b \<noteq> []"
  shows "\<exists>r j b1. flush cfg ans i b = (Inr r, j, b1) \<and> batcher_ok cfg b1 \<and>
    length (buffer b1) < length (buffer b) \<and> closing b1 = closing b \<and> accepted b1 = accepted b"
proof -
  let ?f = "\<lparr>f_owner = Caller, f_rows = length (take (max_batch_rows cfg) (buffer b)), f_attempt = 1\<rparr>"
  let ?b = "flush_start cfg Caller b"
  have fl: "flight ?b = Some ?f" by (simp add: flush_start_def)
  have "has_sink cfg \<and> (\<forall>i. snd (ans i)) \<or>
      (\<exists>j. f_attempt ?f + int j \<le> max 1 (max_attempts cfg) \<and> fst (ans (i + j)) = Wrote)"
  proof (cases "has_sink cfg \<and> (\<forall>i. snd (ans i))")
    case False
    with assms(1) obtain j where j: "j < max 1 (nat (max_attempts cfg))" "fst (ans (i + j)) = Wrote"
      unfolding gives_in_def by blast
    from j(1) have "1 + int j \<le> max 1 (max_attempts cfg)" by linarith
    with j(2) show ?thesis by auto
  qed simp
  moreover have "\<forall>i. fst (ans i) \<noteq> Cancelled" using assms(1) by (simp add: gives_in_def)
  moreover have "max 1 (max_attempts cfg) - f_attempt ?f < int (Suc (nat (max_attempts cfg)))" by simp
  moreover have "batcher_ok cfg ?b" using assms(2-4) by (rule flush_start_ok)
  ultimately obtain r j b1 where r: "flush_attempts cfg ans i (Suc (nat (max_attempts cfg))) ?f ?b = (Inr r, j, b1)"
    "batcher_ok cfg b1" "buffer b1 = drop (f_rows ?f) (buffer ?b)" "closing b1 = closing ?b" "accepted b1 = accepted ?b"
    using flush_attempts_returns [of ans cfg ?f i "Suc (nat (max_attempts cfg))" ?b] assms(3) fl by auto
  have "length (buffer b1) < length (buffer b)"
    using r(3) assms(3,4) by (auto simp: flush_start_def config_ok_def Suc_le_eq)
  moreover have "flush cfg ans i b = (Inr (Some r), j, b1)"
    using assms(4) by (simp add: flush_def Let_def fl r(1) del: flush_attempts.simps length_take)
  ultimately show ?thesis using r(2,4,5) by (simp add: flush_start_def)
qed

lemma drain_returns:
  assumes "gives_in cfg ans" and "config_ok cfg"
  shows "batcher_ok cfg b \<Longrightarrow> length (buffer b) \<le> fuel \<Longrightarrow>
    \<exists>b1. drain cfg ans i fuel b = (Inr (), b1) \<and> batcher_ok cfg b1 \<and> buffer b1 = [] \<and>
      closing b1 = closing b \<and> accepted b1 = accepted b"
proof (induction fuel arbitrary: i b)
  case 0
  then show ?case by simp
next
  case (Suc fuel)
  show ?case
  proof (cases "buffer b = []")
    case False
    from flush_returns [OF assms(1) Suc.prems(1) assms(2) False, of i] obtain r j b1 where
      f: "flush cfg ans i b = (Inr r, j, b1)" "batcher_ok cfg b1" "length (buffer b1) < length (buffer b)"
        "closing b1 = closing b" "accepted b1 = accepted b" by blast
    from f(3) Suc.prems(2) have "length (buffer b1) \<le> fuel" by simp
    from Suc.IH [OF f(2) this, of j] f False show ?thesis by auto
  qed (use Suc.prems in simp)
qed

text \<open>
  C33. Closing drains: once its task has ended, \<open>aclose\<close> on any state a batcher can reach returns
  with the buffer empty and every accepted row settled, in order, provided the writer accepts each batch within the
  allowed attempts or the sink takes what it refuses. It needs no more flushes than there are rows.
\<close>

theorem close_drains:
  assumes "new_batcher_config rows age capacity attempts sink = Inr cfg"
    and "gives_in cfg ans" and "\<not> closed (batcher_run cfg es)"
  shows "\<exists>b. aclose cfg ans (batcher_run cfg es) = (Inr (), b) \<and> buffer b = [] \<and> closed b \<and>
    accepted (batcher_run cfg es) = concat (map fst (settled b)) \<and> (\<forall>w. fst (submit cfg w b) = Refused)"
proof -
  from new_batcher_config_ok [OF assms(1)] have cfg: "config_ok cfg" by blast
  let ?b = "(close_start (batcher_run cfg es))\<lparr>task := Stopped\<rparr>"
  have "batcher_ok cfg ?b" using batcher_run_ok [OF cfg] by (simp add: close_start_ok task_ok)
  moreover have "length (buffer ?b) \<le> length (buffer (batcher_run cfg es))" by (simp add: close_start_def)
  ultimately obtain b1 where b1: "drain cfg ans 0 (length (buffer (batcher_run cfg es))) ?b = (Inr (), b1)"
    "batcher_ok cfg b1" "buffer b1 = []" "accepted b1 = accepted ?b" using drain_returns [OF assms(2) cfg] by blast
  then have "aclose cfg ans (batcher_run cfg es) = (Inr (), close_end b1)"
    using assms(3) by (simp add: aclose_def)
  moreover have "accepted (batcher_run cfg es) = concat (map fst (settled b1))"
    using b1(2-4) by (simp add: batcher_ok_def rows_ok_def close_start_def split: if_splits)
  ultimately show ?thesis using b1(3) by (simp add: close_end_def submit_def)
qed

end
