(* ===== verification/Writer_Laws.thy ===== *)
theory Writer_Laws
  imports Graph_Store
begin

text \<open>
  The graph writer: what a batch becomes, that its hash does not depend on the order of its
  rows, that a replayed batch changes nothing, and what the counters hold.
\<close>

section \<open>Updates at distinct keys\<close>

type_synonym ('k, 'v) point_update = "'k \<times> ('v option \<Rightarrow> 'v)"

definition put_at :: "('k \<Rightarrow> 'v option) \<Rightarrow> ('k, 'v) point_update \<Rightarrow> ('k \<Rightarrow> 'v option)" where
  "put_at m u = m(fst u \<mapsto> snd u (m (fst u)))"

definition put_all :: "('k \<Rightarrow> 'v option) \<Rightarrow> ('k, 'v) point_update list \<Rightarrow> ('k \<Rightarrow> 'v option)" where
  "put_all m us = foldl put_at m us"

lemma put_all_simps [simp]:
  "put_all m [] = m"
  "put_all m (u # us) = put_all (put_at m u) us"
  "put_all m (us @ vs) = put_all (put_all m us) vs"
  by (simp_all add: put_all_def)

lemma put_all_other: "k \<notin> fst ` set us \<Longrightarrow> put_all m us k = m k"
  by (induction us arbitrary: m) (auto simp: put_at_def)

lemma put_all_at: "distinct (map fst us) \<Longrightarrow> (k, f) \<in> set us \<Longrightarrow> put_all m us k = Some (f (m k))"
proof (induction us arbitrary: m)
  case Nil
  then show ?case by simp
next
  case (Cons u us)
  show ?case
  proof (cases "(k, f) \<in> set us")
    case True
    then have "k \<noteq> fst u" using Cons.prems(1) by (force simp: image_iff)
    then have "put_at m u k = m k" by (simp add: put_at_def)
    with Cons.IH [of "put_at m u"] Cons.prems(1) True show ?thesis by simp
  next
    case False
    with Cons.prems have u: "u = (k, f)" by simp
    with Cons.prems(1) have "k \<notin> fst ` set us" by simp
    then show ?thesis by (simp add: put_all_other put_at_def u)
  qed
qed

text \<open>
  A second list of updates repeats a first one when each, on what the first left, changes nothing that
  \<open>e\<close> reads.
\<close>

definition repeats :: "('v \<Rightarrow> 'w) \<Rightarrow> ('k, 'v) point_update \<Rightarrow> ('k, 'v) point_update \<Rightarrow> bool" where
  "repeats e u v \<longleftrightarrow> fst u = fst v \<and> (\<forall>x. e (snd v (Some (snd u x))) = e (snd u x))"

lemma repeated_keys: "list_all2 (repeats e) us vs \<Longrightarrow> map fst us = map fst vs"
  by (induction rule: list_all2_induct) (simp_all add: repeats_def)

lemma put_all_again:
  assumes "distinct (map fst us)" and "list_all2 (repeats e) us vs"
  shows "map_option e (put_all (put_all m us) vs k) = map_option e (put_all m us k)"
proof (cases "k \<in> fst ` set us")
  case True
  then obtain i where i: "i < length us" "fst (us ! i) = k" by (auto simp: in_set_conv_nth)
  from assms(2) i have v: "i < length vs" "repeats e (us ! i) (vs ! i)" by (auto simp: list_all2_conv_all_nth)
  have u: "(k, snd (us ! i)) \<in> set us" using i by (metis nth_mem prod.collapse)
  have w: "(k, snd (vs ! i)) \<in> set vs" using i(2) v by (metis nth_mem prod.collapse repeats_def)
  have d: "distinct (map fst vs)" using assms by (simp add: repeated_keys [symmetric])
  show ?thesis unfolding put_all_at [OF d w] put_all_at [OF assms(1) u] using v(2) by (simp add: repeats_def)
next
  case False
  moreover have "fst ` set vs = fst ` set us" using arg_cong [OF repeated_keys [OF assms(2)], of set] by simp
  ultimately show ?thesis by (simp add: put_all_other)
qed

lemma repeats_concat:
  "(\<And>p. p \<in> set ps \<Longrightarrow> list_all2 (repeats e) (f p) (g p)) \<Longrightarrow>
     list_all2 (repeats e) (concat (map f ps)) (concat (map g ps))"
  by (induction ps) (auto intro: list_all2_appendI)

section \<open>Rows\<close>

lemma map_of_update: "map_of (AList.update k v d) k' = (if k' = k then Some v else map_of d k')"
  by (simp add: update_conv')

lemma map_of_dict_put:
  "distinct (map fst e) \<Longrightarrow>
     map_of (dict_put d e) k = (case map_of e k of None \<Rightarrow> map_of d k | Some v \<Rightarrow> Some v)"
proof (induction e arbitrary: d)
  case Nil
  then show ?case by (simp add: dict_put_def)
next
  case (Cons kv e)
  have "dict_put d (kv # e) = dict_put (AList.update (fst kv) (snd kv) d) e" by (simp add: dict_put_def)
  moreover have "k = fst kv \<Longrightarrow> map_of e k = None"
    using Cons.prems by (simp add: map_of_eq_None_iff)
  ultimately show ?case using Cons.IH [of "AList.update (fst kv) (snd kv) d"] Cons.prems
    by (cases "k = fst kv") (simp_all add: map_of_update split: option.split prod.split)
qed

lemma keys_dict_put: "fst ` set (dict_put d e) = fst ` set d \<union> fst ` set e"
proof (induction e arbitrary: d)
  case Nil
  then show ?case by (simp add: dict_put_def)
next
  case (Cons kv e)
  have "dict_put d (kv # e) = dict_put (AList.update (fst kv) (snd kv) d) e" by (simp add: dict_put_def)
  with Cons.IH [of "AList.update (fst kv) (snd kv) d"] show ?case by (simp add: dom_update)
qed

lemma distinct_dict_put: "distinct (map fst d) \<Longrightarrow> distinct (map fst (dict_put d e))"
proof (induction e arbitrary: d)
  case Nil
  then show ?case by (simp add: dict_put_def)
next
  case (Cons kv e)
  have "dict_put d (kv # e) = dict_put (AList.update (fst kv) (snd kv) d) e" by (simp add: dict_put_def)
  with Cons.IH [of "AList.update (fst kv) (snd kv) d"] Cons.prems show ?case by (simp add: distinct_update)
qed

lemma map_of_dict_put_other: "k \<notin> fst ` set e \<Longrightarrow> map_of (dict_put d e) k = map_of d k"
proof (induction e arbitrary: d)
  case Nil
  then show ?case by (simp add: dict_put_def)
next
  case (Cons kv e)
  have "dict_put d (kv # e) = dict_put (AList.update (fst kv) (snd kv) d) e" by (simp add: dict_put_def)
  with Cons.IH [of "AList.update (fst kv) (snd kv) d"] Cons.prems show ?case by (simp add: map_of_update)
qed

text \<open>What a key holds after two rows are folded.\<close>

definition folded_value :: "string \<Rightarrow> pvalue option \<Rightarrow> pvalue option \<Rightarrow> pvalue option" where
  "folded_value k old new = (case new of None \<Rightarrow> old | Some v \<Rightarrow> merged_value k old v)"

lemma map_of_merge_item:
  "map_of (merge_item d kv) k = (if k = fst kv then merged_value k (map_of d k) (snd kv) else map_of d k)"
  by (cases "merged_value (fst kv) (map_of d (fst kv)) (snd kv)")
    (auto simp: merge_item_def map_of_update merged_value_def split: option.splits pvalue.splits if_splits)

lemma map_of_merge_rows:
  "distinct (map fst e) \<Longrightarrow> map_of (merge_rows d e) k = folded_value k (map_of d k) (map_of e k)"
proof (induction e arbitrary: d)
  case Nil
  then show ?case by (simp add: merge_rows_def folded_value_def)
next
  case (Cons kv e)
  have "merge_rows d (kv # e) = merge_rows (merge_item d kv) e" by (simp add: merge_rows_def)
  moreover have "k = fst kv \<Longrightarrow> map_of e k = None"
    using Cons.prems by (simp add: map_of_eq_None_iff)
  ultimately show ?case using Cons.IH [of "merge_item d kv"] Cons.prems
    by (cases "k = fst kv") (auto simp: map_of_merge_item folded_value_def)
qed

lemma distinct_merge_rows: "distinct (map fst d) \<Longrightarrow> distinct (map fst (merge_rows d e))"
proof (induction e arbitrary: d)
  case Nil
  then show ?case by (simp add: merge_rows_def)
next
  case (Cons kv e)
  have "merge_rows d (kv # e) = merge_rows (merge_item d kv) e" by (simp add: merge_rows_def)
  moreover have "distinct (map fst (merge_item d kv))"
    using Cons.prems by (auto simp: merge_item_def distinct_update split: option.splits)
  ultimately show ?case using Cons.IH by simp
qed

section \<open>Rows by key\<close>

definition folded_row :: "('n \<Rightarrow> pdict) \<Rightarrow> 'n list \<Rightarrow> pdict" where
  "folded_row row ns = (case ns of [] \<Rightarrow> [] | n # ms \<Rightarrow> foldl (\<lambda>d m. merge_rows d (row m)) (row n) ms)"

lemma folded_row_snoc: "ns \<noteq> [] \<Longrightarrow> folded_row row (ns @ [n]) = merge_rows (folded_row row ns) (row n)"
  by (cases ns) (simp_all add: folded_row_def)

lemma folded_row_single [simp]: "folded_row row [n] = row n"
  by (simp add: folded_row_def)

definition keyed_rows :: "('n \<Rightarrow> string) \<Rightarrow> ('n \<Rightarrow> pdict) \<Rightarrow> 'n list \<Rightarrow> rows" where
  "keyed_rows key row ns = foldl (\<lambda>rs n. put_row rs (key n) (row n)) [] ns"

lemma keyed_rows_snoc: "keyed_rows key row (ns @ [n]) = put_row (keyed_rows key row ns) (key n) (row n)"
  by (simp add: keyed_rows_def)

lemma map_of_keyed_rows:
  "map_of (keyed_rows key row ns) k =
     (let ms = filter (\<lambda>n. key n = k) ns in if ms = [] then None else Some (folded_row row ms))"
proof (induction ns rule: rev_induct)
  case Nil
  then show ?case by (simp add: keyed_rows_def)
next
  case (snoc n ns)
  show ?case
  proof (cases "k = key n")
    case True
    then show ?thesis using snoc
      by (cases "filter (\<lambda>n'. key n' = k) ns = []")
        (simp_all add: keyed_rows_snoc put_row_def map_of_update Let_def folded_row_snoc)
  next
    case False
    then show ?thesis using snoc by (auto simp: keyed_rows_snoc put_row_def map_of_update Let_def)
  qed
qed

lemma keyed_rows_keys:
  "distinct (map fst (keyed_rows key row ns)) \<and> fst ` set (keyed_rows key row ns) = key ` set ns"
proof (induction ns rule: rev_induct)
  case Nil
  then show ?case by (simp add: keyed_rows_def)
next
  case (snoc n ns)
  then show ?case by (simp add: keyed_rows_snoc put_row_def distinct_update dom_update)
qed

lemma keyed_rows_member:
  assumes "(k, d) \<in> set (keyed_rows key row ns)"
  shows "d = folded_row row (filter (\<lambda>n. key n = k) ns) \<and> filter (\<lambda>n. key n = k) ns \<noteq> []"
proof -
  have "map_of (keyed_rows key row ns) k = Some d"
    using keyed_rows_keys assms by (metis map_of_is_SomeI)
  then show ?thesis by (auto simp: map_of_keyed_rows Let_def split: if_splits)
qed

lemma folded_row_distinct:
  "ns \<noteq> [] \<Longrightarrow> \<forall>n \<in> set ns. distinct (map fst (row n)) \<Longrightarrow> distinct (map fst (folded_row row ns))"
proof (induction ns rule: rev_induct)
  case Nil
  then show ?case by simp
next
  case (snoc n ns)
  then show ?case by (cases "ns = []") (simp_all add: folded_row_snoc distinct_merge_rows)
qed

text \<open>Deltas add up; a text that all rows agree on stays.\<close>

lemma folded_row_count:
  assumes "c \<in> set COUNTERS"
  shows "ns \<noteq> [] \<Longrightarrow> \<forall>n \<in> set ns. distinct (map fst (row n)) \<and> map_of (row n) c = Some (PInt (delta n)) \<Longrightarrow>
    map_of (folded_row row ns) c = Some (PInt (\<Sum>n \<leftarrow> ns. delta n))"
proof (induction ns rule: rev_induct)
  case Nil
  then show ?case by simp
next
  case (snoc n ns)
  show ?case
  proof (cases "ns = []")
    case True
    with snoc.prems show ?thesis by simp
  next
    case False
    with snoc assms show ?thesis
      by (simp add: folded_row_snoc map_of_merge_rows folded_value_def merged_value_def as_int_def)
  qed
qed

lemma folded_row_text:
  assumes "c \<notin> set COUNTERS" and "c \<noteq> ''observed_at''"
  shows "ns \<noteq> [] \<Longrightarrow> \<forall>n \<in> set ns. distinct (map fst (row n)) \<and> map_of (row n) c = Some (PStr s) \<Longrightarrow>
    map_of (folded_row row ns) c = Some (PStr s)"
proof (induction ns rule: rev_induct)
  case Nil
  then show ?case by simp
next
  case (snoc n ns)
  show ?case
  proof (cases "ns = []")
    case True
    with snoc.prems show ?thesis by simp
  next
    case False
    with snoc assms show ?thesis
      by (simp add: folded_row_snoc map_of_merge_rows folded_value_def merged_value_def)
  qed
qed

section \<open>Node rows\<close>

definition constructed :: "node_write \<Rightarrow> bool" where
  "constructed n \<longleftrightarrow> new_node_write n = Inr n"

lemma distinct_node_row: "distinct (map fst (node_row n))"
  unfolding node_row_def node_property_map_def by (intro distinct_dict_put) simp

lemma node_row_count: "map_of (node_row n) ''new_signal_count'' = Some (PInt (nw_new n))"
  by (simp add: node_row_def map_of_dict_put)

lemma constructed_named: "constructed n \<Longrightarrow> fst ` set (nw_props n) \<inter> set NODE_NAMED_FIELDS = {}"
  by (cases "find_node_spec (nw_type n)") (simp_all add: constructed_def new_node_write_def split: if_splits)

lemma node_row_id: "constructed n \<Longrightarrow> map_of (node_row n) ''id'' = Some (PStr (nw_id n))"
proof -
  assume "constructed n"
  then have "fst ` set (nw_props n) \<inter> set NODE_NAMED_FIELDS = {}" by (rule constructed_named)
  moreover have "''id'' \<in> set NODE_NAMED_FIELDS" by (simp add: NODE_NAMED_FIELDS_def)
  ultimately have "''id'' \<notin> fst ` set (nw_props n)" by blast
  then show ?thesis by (simp add: node_row_def map_of_dict_put node_property_map_def map_of_dict_put_other)
qed

lemma node_rows_keyed: "node_rows t ns = keyed_rows nw_id node_row (filter (\<lambda>n. nw_type n = t) ns)"
  by (simp add: node_rows_def keyed_rows_def)

lemma node_rows_add_deltas_aux:
  assumes "\<forall>n \<in> set ns. new_node_write n = Inr n" and "(t, rs) \<in> set (group_nodes ns)"
  shows "sorted (map (\<lambda>r. text_of (map_of r ''id'')) rs) \<and> distinct (map (\<lambda>r. text_of (map_of r ''id'')) rs) \<and>
    set (map (\<lambda>r. text_of (map_of r ''id'')) rs) = {nw_id n |n. n \<in> set ns \<and> nw_type n = t} \<and>
    (\<forall>r \<in> set rs. as_int (map_of r ''new_signal_count'') =
       (\<Sum>n \<leftarrow> ns. if nw_type n = t \<and> nw_id n = text_of (map_of r ''id'') then nw_new n else 0))"
proof -
  let ?f = "\<lambda>r. text_of (map_of r ''id'')"
  let ?ms = "filter (\<lambda>n. nw_type n = t) ns"
  let ?kr = "keyed_rows nw_id node_row ?ms"
  have ok: "\<forall>n \<in> set ns. constructed n" using assms(1) by (simp add: constructed_def)
  from assms(2) have rs: "rs = map snd (sort_key fst ?kr)"
    by (auto simp: group_nodes_def node_rows_keyed Let_def split: if_splits)
  have fr: "\<exists>ks. ks = filter (\<lambda>n. nw_id n = k) ?ms \<and> ks \<noteq> [] \<and> d = folded_row node_row ks"
    if "(k, d) \<in> set ?kr" for k d using keyed_rows_member [OF that] by blast
  have id: "?f d = k" if kd: "(k, d) \<in> set ?kr" for k d
  proof -
    from fr [OF kd] have "map_of d ''id'' = Some (PStr k)"
      using ok by (auto intro!: folded_row_text simp: COUNTERS_def distinct_node_row node_row_id)
    then show ?thesis by (simp add: text_of_def)
  qed
  have ids: "map ?f rs = map fst (sort_key fst ?kr)"
    unfolding rs map_map by (rule map_cong) (auto simp: id)
  have keys: "distinct (map fst ?kr)" "fst ` set ?kr = nw_id ` set ?ms" using keyed_rows_keys by blast+
  have "mset (map fst (sort_key fst ?kr)) = mset (map fst ?kr)" by simp
  with keys(1) have d: "distinct (map fst (sort_key fst ?kr))" using mset_eq_imp_distinct_iff by blast
  have "as_int (map_of r ''new_signal_count'') =
      (\<Sum>n \<leftarrow> ns. if nw_type n = t \<and> nw_id n = ?f r then nw_new n else 0)" if r: "r \<in> set rs" for r
  proof -
    from r rs obtain k where k: "(k, r) \<in> set ?kr" by auto
    from fr [OF k] have "map_of r ''new_signal_count'' =
        Some (PInt (\<Sum>n \<leftarrow> filter (\<lambda>n. nw_id n = k) ?ms. nw_new n))"
      by (auto intro!: folded_row_count simp: COUNTERS_def distinct_node_row node_row_count)
    then have "as_int (map_of r ''new_signal_count'') = (\<Sum>n \<leftarrow> filter (\<lambda>n. nw_id n = k) ?ms. nw_new n)"
      by (simp add: as_int_def)
    also have "\<dots> = (\<Sum>n \<leftarrow> ns. if nw_type n = t \<and> nw_id n = k then nw_new n else 0)"
      by (induction ns) simp_all
    finally show ?thesis by (simp add: id [OF k])
  qed
  moreover have "set (map ?f rs) = {nw_id n |n. n \<in> set ns \<and> nw_type n = t}"
    unfolding ids using keys(2) by auto
  ultimately show ?thesis unfolding ids using d by simp
qed

text \<open>
  A batch writes each entity once per label and loses no delta: for every label the
  plan has one row for each id of the batch, in increasing order of the ids, and the count
  of a row is the sum of the counts of all writes for that entity.
\<close>

theorem node_rows_add_deltas:
  assumes "\<forall>n \<in> set ns. new_node_write n = Inr n" and "(t, rs) \<in> set (group_nodes ns)"
  shows "sorted (map (\<lambda>r. text_of (map_of r ''id'')) rs) \<and> distinct (map (\<lambda>r. text_of (map_of r ''id'')) rs) \<and>
    set (map (\<lambda>r. text_of (map_of r ''id'')) rs) = {nw_id n |n. n \<in> set ns \<and> nw_type n = t} \<and>
    (\<forall>r \<in> set rs. as_int (map_of r ''new_signal_count'') =
       (\<Sum>n \<leftarrow> ns. if nw_type n = t \<and> nw_id n = text_of (map_of r ''id'') then nw_new n else 0))"
  using assms by (rule node_rows_add_deltas_aux)

section \<open>The hash of a batch\<close>

lemma map_res_ok: "\<forall>x \<in> set xs. \<exists>y. f x = Inr y \<Longrightarrow> map_res f xs = Inr (map (projr \<circ> f) xs)"
  by (induction xs) auto

lemma map_res_bad:
  "\<exists>x \<in> set xs. \<exists>e. f x = Inl e \<Longrightarrow> \<forall>x \<in> set xs. \<forall>e. f x = Inl e \<longrightarrow> e = err \<Longrightarrow> map_res f xs = Inl err"
proof (induction xs)
  case Nil
  then show ?case by simp
next
  case (Cons x xs)
  show ?case
  proof (cases "f x")
    case (Inl e)
    with Cons.prems show ?thesis by simp
  next
    case (Inr y)
    with Cons show ?thesis by auto
  qed
qed

lemma find_edge_spec_error: "find_edge_spec t = Inl e \<Longrightarrow> e = ValueError"
  by (simp add: find_edge_spec_def split: option.splits)

lemma key_of_error: "key_of dg e = Inl x \<Longrightarrow> x = ValueError"
  by (cases "find_edge_spec (ew_type e)")
    (auto simp: key_of_def oriented_def orient_def edge_key_def dest: find_edge_spec_error split: if_splits)

lemma edge_part_error: "edge_part dg e = Inl x \<Longrightarrow> x = ValueError"
  by (cases "key_of dg e") (auto simp: edge_part_def dest: key_of_error)

text \<open>
  The id of a batch depends on what it writes and not on the order: two workers that
  are handed the same rows in different orders compute the same id.
\<close>

theorem batch_id_ignores_order:
  assumes "mset (b_nodes b) = mset (b_nodes c)" and "mset (b_signals b) = mset (b_signals c)"
    and "mset (b_edges b) = mset (b_edges c)"
  shows "batch_id_for dg b = batch_id_for dg c"
proof (cases "\<forall>e \<in> set (b_edges b). \<exists>p. edge_part dg e = Inr p")
  case True
  moreover have same: "set (b_edges b) = set (b_edges c)" using assms(3) by (rule mset_eq_setD)
  ultimately have parts: "map_res (edge_part dg) (b_edges b) = Inr (map (projr \<circ> edge_part dg) (b_edges b))"
    "map_res (edge_part dg) (b_edges c) = Inr (map (projr \<circ> edge_part dg) (b_edges c))"
    by (simp_all add: map_res_ok)
  let ?parts = "\<lambda>b. map node_part (b_nodes b) @ map signal_part (b_signals b) @
    map (projr \<circ> edge_part dg) (b_edges b)"
  have "mset (?parts b) = mset (?parts c)" using assms by simp
  then have "sort (?parts b) = sort (?parts c)" by (metis properties_for_sort mset_sort sorted_sort)
  then show ?thesis by (simp add: batch_id_for_def parts)
next
  case False
  then have bad: "\<exists>x \<in> set (b_edges b). \<exists>e. edge_part dg x = Inl e" by (metis sum.exhaust)
  have same: "set (b_edges b) = set (b_edges c)" using assms(3) by (rule mset_eq_setD)
  have "map_res (edge_part dg) (b_edges b) = Inl ValueError"
    using bad by (rule map_res_bad) (auto dest: edge_part_error)
  moreover have "map_res (edge_part dg) (b_edges c) = Inl ValueError"
    using bad unfolding same by (rule map_res_bad) (auto dest: edge_part_error)
  ultimately show ?thesis by (simp add: batch_id_for_def)
qed

section \<open>Edges\<close>

definition swapped :: "edge_write \<Rightarrow> edge_write" where
  "swapped e = e\<lparr>ew_source_label := ew_target_label e, ew_source_id := ew_target_id e,
     ew_target_label := ew_source_label e, ew_target_id := ew_source_id e\<rparr>"

text \<open>
  A symmetric fact has one edge: in whichever direction it was extracted, between two
  different records, it has the same orientation, the same key and the same group.
\<close>

theorem symmetric_edges_share_key:
  assumes "find_edge_spec (ew_type e) = Inr s" and "is_symmetric s" and "ew_source_id e \<noteq> ew_target_id e"
  shows "oriented (swapped e) = oriented e \<and> key_of dg (swapped e) = key_of dg e \<and>
    group_of (swapped e) = group_of e"
proof -
  have "oriented (swapped e) = oriented e"
    using assms by (auto simp: oriented_def orient_def swapped_def)
  then show ?thesis by (simp add: key_of_def group_of_def) (simp add: swapped_def)
qed

definition built :: "digests \<Rightarrow> edge_write \<Rightarrow> bool" where
  "built dg e \<longleftrightarrow> new_edge_write dg e = Inr e"

lemma validate_endpoints_Inr:
  "validate_endpoints t f l = Inr () \<longleftrightarrow>
     (\<exists>s. find_edge_spec t = Inr s \<and> label_pattern f \<and> label_pattern l \<and> allows s f l)"
  by (cases "find_edge_spec t") (auto simp: validate_endpoints_def validate_label_def)

lemma built_facts:
  assumes "built dg e"
  shows "\<exists>s. find_edge_spec (ew_type e) = Inr s \<and> allows s (ew_source_label e) (ew_target_label e)"
    and "label_pattern (ew_source_label e)" and "label_pattern (ew_target_label e)"
    and "fst ` set (ew_props e) \<inter> set EDGE_NAMED_FIELDS = {}"
proof -
  have "validate_endpoints (ew_type e) (ew_source_label e) (ew_target_label e) = Inr ()"
    using assms by (cases "validate_endpoints (ew_type e) (ew_source_label e) (ew_target_label e)")
      (simp_all add: built_def new_edge_write_def split: if_splits)
  moreover from this show "fst ` set (ew_props e) \<inter> set EDGE_NAMED_FIELDS = {}"
    using assms by (simp add: built_def new_edge_write_def split: if_splits)
  ultimately show "\<exists>s. find_edge_spec (ew_type e) = Inr s \<and> allows s (ew_source_label e) (ew_target_label e)"
    "label_pattern (ew_source_label e)" "label_pattern (ew_target_label e)"
    by (auto simp: validate_endpoints_Inr)
qed

lemma symmetric_closed:
  "list_all (\<lambda>(t, s). is_symmetric s \<longrightarrow> list_all (\<lambda>(a, b). (b, a) \<in> set (es_endpoints s)) (es_endpoints s))
     EDGE_SPECS"
  by code_simp

lemma find_edge_spec_member: "find_edge_spec t = Inr s \<Longrightarrow> (t, s) \<in> set EDGE_SPECS"
  by (auto simp: find_edge_spec_def split: option.splits dest: map_of_SomeD)

lemma built_oriented:
  assumes "built dg e"
  obtains f t where "oriented e = Inr (f, t)"
    "validate_endpoints (ew_type e) (snd f) (snd t) = Inr ()"
    "{f, t} = {(ew_source_id e, ew_source_label e), (ew_target_id e, ew_target_label e)}"
proof -
  from built_facts [OF assms] obtain s where s: "find_edge_spec (ew_type e) = Inr s"
    "allows s (ew_source_label e) (ew_target_label e)" "label_pattern (ew_source_label e)"
    "label_pattern (ew_target_label e)" by blast
  have sym: "is_symmetric s \<Longrightarrow> allows s (ew_target_label e) (ew_source_label e)"
    using symmetric_closed find_edge_spec_member [OF s(1)] s(2)
    by (fastforce simp: list_all_iff allows_def)
  show ?thesis
  proof (cases "is_symmetric s \<and> ew_target_id e < ew_source_id e")
    case True
    then show ?thesis using s sym
      by (intro that [of "(ew_target_id e, ew_target_label e)" "(ew_source_id e, ew_source_label e)"])
        (auto simp: oriented_def orient_def validate_endpoints_Inr)
  next
    case False
    then show ?thesis using s
      by (intro that [of "(ew_source_id e, ew_source_label e)" "(ew_target_id e, ew_target_label e)"])
        (auto simp: oriented_def orient_def validate_endpoints_Inr)
  qed
qed

definition the_key :: "digests \<Rightarrow> edge_write \<Rightarrow> string" where
  "the_key dg e = projr (key_of dg e)"

definition the_group :: "edge_write \<Rightarrow> edge_group" where
  "the_group e = projr (group_of e)"

definition the_row :: "digests \<Rightarrow> edge_write \<Rightarrow> pdict" where
  "the_row dg e = projr (edge_row dg e)"

lemma built_total:
  assumes "built dg e"
  shows "key_of dg e = Inr (the_key dg e)" and "group_of e = Inr (the_group e)"
    and "edge_row dg e = Inr (the_row dg e)"
    and "fst (the_group e) = ew_type e"
    and "validate_endpoints (fst (the_group e)) (fst (snd (the_group e))) (snd (snd (the_group e))) = Inr ()"
    and "distinct (map fst (the_row dg e))"
    and "map_of (the_row dg e) ''edge_key'' = Some (PStr (the_key dg e))"
    and "map_of (the_row dg e) ''new_evidence'' = Some (PInt (ew_new e))"
proof -
  obtain f t where o: "oriented e = Inr (f, t)" "validate_endpoints (ew_type e) (snd f) (snd t) = Inr ()"
    by (rule built_oriented [OF assms])
  from built_facts(1) [OF assms] obtain s where s: "find_edge_spec (ew_type e) = Inr s" by blast
  show k: "key_of dg e = Inr (the_key dg e)"
    by (simp add: the_key_def key_of_def o(1) edge_key_def s)
  show "group_of e = Inr (the_group e)" "fst (the_group e) = ew_type e"
    "validate_endpoints (fst (the_group e)) (fst (snd (the_group e))) (snd (snd (the_group e))) = Inr ()"
    using o by (simp_all add: the_group_def group_of_def)
  show r: "edge_row dg e = Inr (the_row dg e)"
    by (simp add: the_row_def edge_row_def edge_property_map_def o(1) k)
  have row: "the_row dg e = dict_put (dict_put
     [(''edge_key'', PStr (the_key dg e)), (''tenant_id'', PStr (ew_tenant e)),
      (''valid_from'', PTime (ew_valid_from e)), (''valid_to'', or_none PTime (ew_valid_to e)),
      (''observed_at'', PTime (ew_observed e)), (''confidence'', or_none PFloat (ew_confidence e)),
      (''extractor'', or_none PStr (ew_extractor e)),
      (''source_signal_ids'', PList (map PStr (ew_source_signals e)))] (ew_props e))
       [(''from_id'', PStr (fst f)), (''to_id'', PStr (fst t)), (''new_evidence'', PInt (ew_new e))]"
    using r by (simp add: edge_row_def edge_property_map_def o(1) k)
  show "distinct (map fst (the_row dg e))" unfolding row by (intro distinct_dict_put) simp
  have "''edge_key'' \<in> set EDGE_NAMED_FIELDS" by (simp add: EDGE_NAMED_FIELDS_def)
  with built_facts(4) [OF assms] have "''edge_key'' \<notin> fst ` set (ew_props e)" by blast
  then show "map_of (the_row dg e) ''edge_key'' = Some (PStr (the_key dg e))"
    by (simp add: row map_of_dict_put map_of_dict_put_other)
  show "map_of (the_row dg e) ''new_evidence'' = Some (PInt (ew_new e))"
    by (simp add: row map_of_dict_put)
qed

lemma put_edges:
  assumes "\<forall>e \<in> set es. built dg e"
  shows "\<exists>gs. fold_res (put_edge dg) [] es = Inr gs \<and> distinct (map fst gs) \<and> fst ` set gs = the_group ` set es \<and>
    (\<forall>g. map_of gs g = (let ms = filter (\<lambda>e. the_group e = g) es in
       if ms = [] then None else Some (keyed_rows (the_key dg) (the_row dg) ms)))"
  using assms
proof (induction es rule: rev_induct)
  case Nil
  then show ?case by simp
next
  case (snoc e es)
  then obtain gs where gs: "fold_res (put_edge dg) [] es = Inr gs" "distinct (map fst gs)"
    "fst ` set gs = the_group ` set es"
    "\<And>g. map_of gs g = (let ms = filter (\<lambda>e. the_group e = g) es in
       if ms = [] then None else Some (keyed_rows (the_key dg) (the_row dg) ms))" by auto
  let ?rs = "case map_of gs (the_group e) of None \<Rightarrow> [] | Some rs \<Rightarrow> rs"
  let ?gs = "AList.update (the_group e) (put_row ?rs (the_key dg e) (the_row dg e)) gs"
  have "built dg e" using snoc.prems by simp
  note b = built_total [OF this]
  have rs: "?rs = keyed_rows (the_key dg) (the_row dg) (filter (\<lambda>e'. the_group e' = the_group e) es)"
    by (cases "filter (\<lambda>e'. the_group e' = the_group e) es = []") (simp_all add: gs(4) keyed_rows_def)
  have "fold_res (put_edge dg) [] (es @ [e]) = Inr ?gs"
    by (simp add: fold_res_append gs(1) put_edge_def b Let_def)
  moreover have "distinct (map fst ?gs)" using gs(2) by (rule distinct_update)
  moreover have "fst ` set ?gs = the_group ` set (es @ [e])" using gs(3) by (simp add: dom_update)
  moreover have "map_of ?gs g = (let ms = filter (\<lambda>e. the_group e = g) (es @ [e]) in
       if ms = [] then None else Some (keyed_rows (the_key dg) (the_row dg) ms))" for g
  proof (cases "g = the_group e")
    case True
    then show ?thesis by (simp add: map_of_update rs keyed_rows_snoc)
  next
    case False
    then show ?thesis by (auto simp: map_of_update gs(4) Let_def)
  qed
  ultimately show ?case by blast
qed

text \<open>The rows of the edges of one group, as the plan has them.\<close>

definition edge_rows :: "digests \<Rightarrow> edge_write list \<Rightarrow> edge_group \<Rightarrow> pdict list" where
  "edge_rows dg es g =
     sort_key row_ends (map snd (keyed_rows (the_key dg) (the_row dg) (filter (\<lambda>e. the_group e = g) es)))"

lemma edge_spec_types: "distinct (map fst EDGE_SPECS)"
  by code_simp

lemma concat_by_type:
  assumes "distinct ts" and "distinct (map fst gs)"
  shows "distinct (concat (map (\<lambda>t. map fst (sort_key k (filter (\<lambda>x. h (fst x) = t) gs))) ts))"
  using assms(1)
proof (induction ts)
  case Nil
  then show ?case by simp
next
  case (Cons t ts)
  have "mset (map fst (sort_key k (filter (\<lambda>x. h (fst x) = t) gs))) = mset (map fst (filter (\<lambda>x. h (fst x) = t) gs))"
    by simp
  moreover have "distinct (map fst (filter (\<lambda>x. h (fst x) = t) gs))"
    using assms(2) by (rule distinct_map_filter)
  ultimately have "distinct (map fst (sort_key k (filter (\<lambda>x. h (fst x) = t) gs)))"
    using mset_eq_imp_distinct_iff by blast
  with Cons show ?case by auto
qed

lemma set_by_type:
  "set (concat (map (\<lambda>t. map fst (sort_key k (filter (\<lambda>x. h (fst x) = t) gs))) ts)) =
     {g \<in> fst ` set gs. h g \<in> set ts}"
proof (induction ts)
  case Nil
  then show ?case by simp
next
  case (Cons t ts)
  have "set (map fst (sort_key k (filter (\<lambda>x. h (fst x) = t) gs))) = {g \<in> fst ` set gs. h g = t}" by auto
  with Cons show ?case by auto
qed

lemma group_edges_ok:
  assumes "\<forall>e \<in> set es. built dg e"
  shows "\<exists>gs. group_edges dg es = Inr (map (\<lambda>g. (g, edge_rows dg es g)) gs) \<and>
    distinct gs \<and> set gs = the_group ` set es"
proof -
  from put_edges [OF assms] obtain m where m: "fold_res (put_edge dg) [] es = Inr m" "distinct (map fst m)"
    "fst ` set m = the_group ` set es"
    "\<And>g. map_of m g = (let ms = filter (\<lambda>e. the_group e = g) es in
       if ms = [] then None else Some (keyed_rows (the_key dg) (the_row dg) ms))" by blast
  have rs: "sort_key row_ends (map snd rs) = edge_rows dg es g" if "(g, rs) \<in> set m" for g rs
  proof -
    from m(2) that have "map_of m g = Some rs" by (rule map_of_is_SomeI)
    then have "rs = keyed_rows (the_key dg) (the_row dg) (filter (\<lambda>e. the_group e = g) es)"
      by (auto simp: m(4) Let_def split: if_splits)
    then show ?thesis by (simp add: edge_rows_def)
  qed
  let ?gs = "concat (map (\<lambda>t. map fst (sort_key (\<lambda>x. snd (fst x)) (filter (\<lambda>x. fst (fst x) = t) m)))
    (map fst EDGE_SPECS))"
  have part: "map (\<lambda>(g, rs). (g, sort_key row_ends (map snd rs))) (sort_key (\<lambda>x. snd (fst x)) (filter P m)) =
      map (\<lambda>g. (g, edge_rows dg es g)) (map fst (sort_key (\<lambda>x. snd (fst x)) (filter P m)))" for P
    by (auto simp: rs)
  have "group_edges dg es = Inr (map (\<lambda>g. (g, edge_rows dg es g)) ?gs)"
    by (simp add: group_edges_def m(1) part map_concat comp_def del: map_map) (simp add: comp_def)
  moreover have "distinct ?gs" using edge_spec_types m(2) by (rule concat_by_type)
  moreover have "set ?gs = the_group ` set es"
  proof -
    have "fst (the_group e) \<in> set (map fst EDGE_SPECS)" if "e \<in> set es" for e
    proof -
      from that assms have b: "built dg e" by blast
      from built_facts(1) [OF b] obtain s where "find_edge_spec (ew_type e) = Inr s" by blast
      from find_edge_spec_member [OF this] built_total(4) [OF b] show ?thesis by force
    qed
    then have "\<forall>g \<in> the_group ` set es. fst g \<in> set (map fst EDGE_SPECS)" by blast
    moreover have "set ?gs = {g \<in> fst ` set m. fst g \<in> set (map fst EDGE_SPECS)}"
      by (rule set_by_type)
    ultimately show ?thesis unfolding m(3) by blast
  qed
  ultimately show ?thesis by blast
qed

end
