(* ===== verification/Writer_Replay.thy ===== *)
theory Writer_Replay
  imports Writer_Laws
begin

text \<open>
  A batch on the graph: a plan always exists for writes that were constructed, it is a list
  of updates at distinct keys, and so applying the batch again changes nothing.
\<close>

section \<open>The shape of a plan\<close>

definition built_batch :: "digests \<Rightarrow> graph_batch \<Rightarrow> bool" where
  "built_batch dg b \<longleftrightarrow> (\<forall>n \<in> set (b_nodes b). new_node_write n = Inr n) \<and>
     (\<forall>e \<in> set (b_edges b). new_edge_write dg e = Inr e)"

definition node_statements :: "string \<Rightarrow> int \<Rightarrow> node_write list \<Rightarrow> planned list" where
  "node_statements bid v ns = map (\<lambda>(t, rs). \<lparr>p_fragment = Merge_Nodes t, p_rows = rs, p_batch = Some bid,
     p_schema = Some v\<rparr>) (group_nodes ns)"

definition signal_statements :: "signal_stub list \<Rightarrow> planned list" where
  "signal_statements ss = (if dedupe_signals ss = [] then [] else
     [\<lparr>p_fragment = Merge_Signals, p_rows = dedupe_signals ss, p_batch = None, p_schema = None\<rparr>])"

definition edge_statement :: "digests \<Rightarrow> string \<Rightarrow> int \<Rightarrow> edge_write list \<Rightarrow> edge_group \<Rightarrow> planned" where
  "edge_statement dg bid v es g = \<lparr>p_fragment = Merge_Edges (fst g) (fst (snd g)) (snd (snd g)),
     p_rows = edge_rows dg es g, p_batch = Some bid, p_schema = Some v\<rparr>"

lemma plan_shape:
  assumes "built_batch dg b"
  shows "\<exists>bid gs. batch_id_for dg b = Inr bid \<and> distinct gs \<and> set gs = the_group ` set (b_edges b) \<and>
    plan dg v b = Inr \<lparr>wp_batch = bid, wp_statements =
      node_statements bid v (b_nodes b) @ signal_statements (b_signals b) @
      map (edge_statement dg bid v (b_edges b)) gs\<rparr>"
proof -
  have es: "\<forall>e \<in> set (b_edges b). built dg e" using assms by (simp add: built_batch_def built_def)
  have "\<exists>p. edge_part dg e = Inr p" if "e \<in> set (b_edges b)" for e
    using es that built_total(1) [of dg e] by (simp add: edge_part_def)
  then obtain bid where bid: "batch_id_for dg b = Inr bid"
    by (auto simp: batch_id_for_def map_res_ok)
  from group_edges_ok [OF es] obtain gs where
    gs: "group_edges dg (b_edges b) = Inr (map (\<lambda>g. (g, edge_rows dg (b_edges b) g)) gs)"
      "distinct gs" "set gs = the_group ` set (b_edges b)" by blast
  have one: "plan_edges bid v (g, rs) = Inr \<lparr>p_fragment = Merge_Edges (fst g) (fst (snd g)) (snd (snd g)),
      p_rows = rs, p_batch = Some bid, p_schema = Some v\<rparr>" if "g \<in> set gs" for g rs
  proof -
    from that gs(3) es obtain e where e: "g = the_group e" "built dg e" by auto
    show ?thesis using built_total(5) [OF e(2)] by (cases g) (simp add: plan_edges_def e(1) [symmetric])
  qed
  have "map_res (plan_edges bid v) (map (\<lambda>g. (g, edge_rows dg (b_edges b) g)) gs) =
      Inr (map (edge_statement dg bid v (b_edges b)) gs)"
    using one by (subst map_res_ok) (auto simp: edge_statement_def)
  then have "plan dg v b = Inr \<lparr>wp_batch = bid, wp_statements =
      node_statements bid v (b_nodes b) @ signal_statements (b_signals b) @
      map (edge_statement dg bid v (b_edges b)) gs\<rparr>"
    by (simp add: plan_def bid gs(1) Let_def node_statements_def signal_statements_def)
  with bid gs(2,3) show ?thesis by blast
qed

section \<open>Statements as updates\<close>

definition node_update ::
  "instant \<Rightarrow> string \<Rightarrow> property_spec list \<Rightarrow> string option \<Rightarrow> int option \<Rightarrow> pdict \<Rightarrow> (node_ref, stored_node) point_update" where
  "node_update now label ps bid v row =
     (let i = text_of (map_of row ''id'') in
      ((label, i), \<lambda>x. node_fragment now ps bid v row (case x of None \<Rightarrow> new_node now i | Some n \<Rightarrow> n)))"

definition signal_update :: "instant \<Rightarrow> pdict \<Rightarrow> (node_ref, stored_node) point_update" where
  "signal_update now row =
     (let i = text_of (map_of row ''id'') in
      ((SIGNAL_LABEL, i), \<lambda>x. let n = (case x of None \<Rightarrow> new_node now i | Some n \<Rightarrow> n) in
        n\<lparr>sn_props := (\<lambda>k. if k \<in> {''tenant_id'', ''published_at'', ''source'', ''platform''}
           then column row k else sn_props n k)\<rparr>))"

definition node_updates :: "(planned \<Rightarrow> instant) \<Rightarrow> planned \<Rightarrow> (node_ref, stored_node) point_update list" where
  "node_updates clock p = (case p_fragment p of
       Merge_Nodes t \<Rightarrow> map (node_update (clock p) (entity_value t) (specs_of (find_node_spec t) ns_properties)
         (p_batch p) (p_schema p)) (p_rows p)
     | Merge_Signals \<Rightarrow> map (signal_update (clock p)) (p_rows p)
     | Merge_Edges t f l \<Rightarrow> [])"

type_synonym edge_ref = "edge_type \<times> node_ref \<times> node_ref \<times> string"

definition ends_of :: "string \<Rightarrow> string \<Rightarrow> pdict \<Rightarrow> node_ref \<times> node_ref" where
  "ends_of f l row = ((f, text_of (map_of row ''from_id'')), (l, text_of (map_of row ''to_id'')))"

definition edge_update ::
  "instant \<Rightarrow> edge_type \<Rightarrow> string \<Rightarrow> string \<Rightarrow> property_spec list \<Rightarrow> string option \<Rightarrow> int option \<Rightarrow> pdict
     \<Rightarrow> (edge_ref, stored_edge) point_update" where
  "edge_update now t f l ps bid v row =
     ((t, fst (ends_of f l row), snd (ends_of f l row), text_of (map_of row ''edge_key'')),
      \<lambda>x. edge_fragment now ps bid v row (case x of None \<Rightarrow> new_edge now row | Some e \<Rightarrow> e))"

definition both_present :: "graph_store \<Rightarrow> string \<Rightarrow> string \<Rightarrow> pdict \<Rightarrow> bool" where
  "both_present g f l row \<longleftrightarrow> tenant_matches g (fst (ends_of f l row)) (column row ''tenant_id'') \<and>
     tenant_matches g (snd (ends_of f l row)) (column row ''tenant_id'')"

definition edge_updates :: "(planned \<Rightarrow> instant) \<Rightarrow> graph_store \<Rightarrow> planned \<Rightarrow> (edge_ref, stored_edge) point_update list" where
  "edge_updates clock g p = (case p_fragment p of
       Merge_Edges t f l \<Rightarrow> map (edge_update (clock p) t f l (specs_of (find_edge_spec t) es_properties)
         (p_batch p) (p_schema p)) (filter (both_present g f l) (p_rows p))
     | _ \<Rightarrow> [])"

definition written_rows :: "graph_store \<Rightarrow> planned \<Rightarrow> nat" where
  "written_rows g p = (case p_fragment p of
       Merge_Edges t f l \<Rightarrow> length (filter (both_present g f l) (p_rows p)) | _ \<Rightarrow> length (p_rows p))"

lemma merge_nodes_put_all:
  "foldl (merge_node now label ps bid v) g rows =
     g\<lparr>gs_nodes := put_all (gs_nodes g) (map (node_update now label ps bid v) rows)\<rparr>"
  by (induction rows arbitrary: g) (simp_all add: merge_node_def node_update_def put_at_def Let_def)

lemma merge_signals_put_all:
  "foldl (merge_signal now) g rows = g\<lparr>gs_nodes := put_all (gs_nodes g) (map (signal_update now) rows)\<rparr>"
  by (induction rows arbitrary: g) (simp_all add: merge_signal_def signal_update_def put_at_def Let_def)

lemma both_present_nodes: "gs_nodes g = gs_nodes g' \<Longrightarrow> both_present g f l row = both_present g' f l row"
  by (simp add: both_present_def tenant_matches_def)

lemma merge_edges_put_all:
  "foldl (merge_edge now t f l ps bid v) (g, n) rows =
     (g\<lparr>gs_edges := put_all (gs_edges g) (map (edge_update now t f l ps bid v) (filter (both_present g f l) rows))\<rparr>,
      n + length (filter (both_present g f l) rows))"
proof (induction rows arbitrary: g n)
  case Nil
  then show ?case by simp
next
  case (Cons row rows)
  show ?case
  proof (cases "both_present g f l row")
    case True
    let ?g = "g\<lparr>gs_edges := put_at (gs_edges g) (edge_update now t f l ps bid v row)\<rparr>"
    have "merge_edge now t f l ps bid v (g, n) row = (?g, Suc n)"
      using True by (simp add: merge_edge_def both_present_def ends_of_def edge_update_def put_at_def Let_def)
    moreover have "both_present ?g f l = both_present g f l" by (rule ext) (simp add: both_present_nodes [of ?g g])
    ultimately show ?thesis using Cons.IH [of ?g "Suc n"] True by simp
  next
    case False
    then have "merge_edge now t f l ps bid v (g, n) row = (g, n)"
      by (auto simp: merge_edge_def both_present_def ends_of_def Let_def)
    with Cons.IH [of g n] False show ?thesis by simp
  qed
qed

lemma run_statement_updates:
  "run_statement clock g p =
     (g\<lparr>gs_nodes := put_all (gs_nodes g) (node_updates clock p), gs_edges := put_all (gs_edges g) (edge_updates clock g p)\<rparr>,
      written_rows g p)"
  by (cases "p_fragment p")
    (simp_all add: run_statement_def node_updates_def edge_updates_def written_rows_def
      merge_nodes_put_all merge_signals_put_all merge_edges_put_all)

definition all_node_updates :: "(planned \<Rightarrow> instant) \<Rightarrow> planned list \<Rightarrow> (node_ref, stored_node) point_update list" where
  "all_node_updates clock ps = concat (map (node_updates clock) ps)"

definition all_edge_updates :: "(planned \<Rightarrow> instant) \<Rightarrow> graph_store \<Rightarrow> planned list \<Rightarrow> (edge_ref, stored_edge) point_update list" where
  "all_edge_updates clock g ps = concat (map (edge_updates clock g) ps)"

lemma edge_updates_nodes: "gs_nodes g = gs_nodes g' \<Longrightarrow> edge_updates clock g p = edge_updates clock g' p"
  by (simp add: edge_updates_def both_present_nodes [of g g'] cong: fragment.case_cong filter_cong)

lemma written_rows_nodes: "gs_nodes g = gs_nodes g' \<Longrightarrow> written_rows g p = written_rows g' p"
  by (simp add: written_rows_def both_present_nodes [of g g'] cong: fragment.case_cong filter_cong)

text \<open>Statements on nodes, then statements on edges.\<close>

lemma run_node_statements:
  "list_all (\<lambda>p. \<not> is_edge_fragment (p_fragment p)) ps \<Longrightarrow>
     run_statements clock g ps = (g\<lparr>gs_nodes := put_all (gs_nodes g) (all_node_updates clock ps)\<rparr>, map (length \<circ> p_rows) ps)"
proof (induction ps arbitrary: g)
  case Nil
  then show ?case by (simp add: all_node_updates_def)
next
  case (Cons p ps)
  then have p: "edge_updates clock g p = []" "written_rows g p = length (p_rows p)"
    by (auto simp: is_edge_fragment_def edge_updates_def written_rows_def split: fragment.splits)
  with Cons show ?case by (simp add: run_statement_updates all_node_updates_def Let_def)
qed

lemma run_edge_statements:
  "list_all (\<lambda>p. is_edge_fragment (p_fragment p)) ps \<Longrightarrow>
     run_statements clock g ps = (g\<lparr>gs_edges := put_all (gs_edges g) (all_edge_updates clock g ps)\<rparr>, map (written_rows g) ps)"
proof (induction ps arbitrary: g)
  case Nil
  then show ?case by (simp add: all_edge_updates_def)
next
  case (Cons p ps)
  then have p: "node_updates clock p = []"
    by (auto simp: is_edge_fragment_def node_updates_def split: fragment.splits)
  let ?g = "g\<lparr>gs_edges := put_all (gs_edges g) (edge_updates clock g p)\<rparr>"
  have "edge_updates clock ?g = edge_updates clock g" by (rule ext) (rule edge_updates_nodes, simp)
  then have e: "all_edge_updates clock ?g ps = all_edge_updates clock g ps" by (simp add: all_edge_updates_def)
  have w: "written_rows ?g = written_rows g" by (rule ext) (rule written_rows_nodes, simp)
  from Cons.IH [of ?g] Cons.prems show ?case
    by (simp add: run_statement_updates p Let_def e w) (simp add: all_edge_updates_def)
qed

lemma run_statements_append:
  "run_statements clock g (ps @ qs) =
     (fst (run_statements clock (fst (run_statements clock g ps)) qs),
      snd (run_statements clock g ps) @ snd (run_statements clock (fst (run_statements clock g ps)) qs))"
  by (induction ps arbitrary: g) (simp_all add: Let_def split: prod.split)

section \<open>Applying a fragment twice\<close>

lemma take_add_unique:
  "set xs \<subseteq> set ys \<union> set zs \<Longrightarrow> take c (add_unique (add_unique ys zs) xs) = take c (add_unique ys zs)"
  by (subst add_unique_subset) auto

lemma add_unique_prefix: "\<exists>zs. add_unique ys xs = ys @ zs"
proof (induction ys xs rule: add_unique.induct)
  case (1 acc)
  then show ?case by simp
next
  case (2 acc x xs)
  then show ?case by (cases "x \<in> set acc") auto
qed

lemma add_unique_join: "add_unique acc (xs @ ys) = add_unique (add_unique acc xs) ys"
  by (induction acc xs rule: add_unique.induct) simp_all

text \<open>Cutting the union at a cap and uniting again does not bring anything back.\<close>

lemma capped_union_idem:
  fixes c :: nat
  defines "u xs ys \<equiv> take c (ordered_unique (xs @ ys))"
  shows "u (u xs ys) ys = u xs ys"
proof -
  let ?w = "ordered_unique (xs @ ys)"
  have d: "distinct (take c ?w)" by simp
  have eq: "ordered_unique (take c ?w @ ys) = add_unique (take c ?w) ys"
    using ordered_unique_id [OF d] by (simp add: ordered_unique_def add_unique_join)
  show ?thesis
  proof (cases "length ?w \<le> c")
    case True
    then have "take c ?w = ?w" by simp
    moreover have "add_unique ?w ys = ?w" by (rule add_unique_subset) simp
    ultimately show ?thesis unfolding u_def eq by simp
  next
    case False
    then have "length (take c ?w) = c" by simp
    moreover obtain zs where "add_unique (take c ?w) ys = take c ?w @ zs" using add_unique_prefix by blast
    ultimately show ?thesis unfolding u_def eq by simp
  qed
qed

lemma list_union_idem: "list_union c (list_union c old new) new = list_union c old new"
  using capped_union_idem [of c "items_of old" "items_of new"]
  by (simp add: list_union_def items_of_def [of "Some _"] sequence_def)

lemma set_expression_idem: "set_expression p (set_expression p old new) new = set_expression p old new"
  by (auto simp: set_expression_def list_union_idem split: option.split)

lemma set_properties_idem:
  "set_properties ps ex row (set_properties ps ex row old) = set_properties ps ex row old"
  by (rule ext) (simp add: set_properties_def set_expression_idem split: option.split)

lemma earliest_idem: "earliest (earliest old new) new = earliest old new"
  by (auto simp: earliest_def split: option.splits)

lemma latest_idem: "latest (latest old new) new = latest old new"
  by (auto simp: latest_def split: option.splits)

text \<open>A second fragment of one batch leaves all but the stamp of the write.\<close>

definition unstamped_node :: "stored_node \<Rightarrow> stored_node" where
  "unstamped_node n = n\<lparr>sn_updated := None\<rparr>"

definition unstamped_edge :: "stored_edge \<Rightarrow> stored_edge" where
  "unstamped_edge e = e\<lparr>se_updated := None\<rparr>"

lemma node_update_again:
  "repeats unstamped_node (node_update now l ps (Some bid) v row) (node_update again l ps (Some bid) v row)"
  by (simp add: repeats_def node_update_def Let_def node_fragment_def unstamped_node_def
      set_properties_idem earliest_idem latest_idem)

lemma signal_update_again: "repeats unstamped_node (signal_update now row) (signal_update again row)"
  by (simp add: repeats_def signal_update_def Let_def fun_eq_iff unstamped_node_def)

lemma edge_update_again:
  "repeats unstamped_edge (edge_update now t f l ps (Some bid) v row) (edge_update again t f l ps (Some bid) v row)"
  by (simp add: repeats_def edge_update_def edge_fragment_def unstamped_edge_def set_properties_idem)

section \<open>Distinct keys\<close>

definition row_id :: "pdict \<Rightarrow> string" where
  "row_id row = text_of (map_of row ''id'')"

lemma fst_node_update: "fst (node_update now l ps bid v row) = (l, row_id row)"
  by (simp add: node_update_def Let_def row_id_def)

lemma fst_signal_update: "fst (signal_update now row) = (SIGNAL_LABEL, row_id row)"
  by (simp add: signal_update_def Let_def row_id_def)

lemma node_labels: "distinct (SIGNAL_LABEL # map (entity_value \<circ> fst) NODE_SPECS)"
  by code_simp

lemma group_nodes_types:
  "distinct (map fst (group_nodes ns)) \<and> set (map fst (group_nodes ns)) \<subseteq> set (map fst NODE_SPECS)"
proof -
  have "distinct (map fst NODE_SPECS)" by code_simp
  moreover have "distinct ts \<Longrightarrow> distinct (map fst (concat (map (\<lambda>t. let rs = node_rows t ns in
         if rs = [] then [] else [(t, map snd (sort_key fst rs))]) ts))) \<and>
      set (map fst (concat (map (\<lambda>t. let rs = node_rows t ns in
         if rs = [] then [] else [(t, map snd (sort_key fst rs))]) ts))) \<subseteq> set ts" for ts
    by (induction ts) (auto simp: Let_def)
  ultimately show ?thesis unfolding group_nodes_def by blast
qed

lemma keyed_signals:
  "distinct (map fst (foldl (\<lambda>rs s. AList.update (ss_id s) (signal_row s) rs) [] ss)) \<and>
   (\<forall>(k, d) \<in> set (foldl (\<lambda>rs s. AList.update (ss_id s) (signal_row s) rs) [] ss). row_id d = k)"
proof (induction ss rule: rev_induct)
  case Nil
  then show ?case by simp
next
  case (snoc s ss)
  let ?m = "foldl (\<lambda>rs s. AList.update (ss_id s) (signal_row s) rs) [] ss"
  have id: "row_id (signal_row s) = ss_id s" by (simp add: row_id_def signal_row_def text_of_def)
  have "set (AList.update a b m) \<subseteq> insert (a, b) (set m)" for a b and m :: rows
    by (induction m) auto
  then have "row_id d = k" if "(k, d) \<in> set (AList.update (ss_id s) (signal_row s) ?m)" for k d
    using that snoc.IH id by blast
  moreover have "distinct (map fst (AList.update (ss_id s) (signal_row s) ?m))"
    using snoc.IH by (intro distinct_update) simp
  ultimately show ?case by (simp only: foldl_append foldl.simps) blast
qed

lemma signal_ids_distinct: "distinct (map row_id (dedupe_signals ss))"
proof -
  let ?m = "foldl (\<lambda>rs s. AList.update (ss_id s) (signal_row s) rs) [] ss"
  have m: "distinct (map fst ?m)" "\<forall>(k, d) \<in> set ?m. row_id d = k" using keyed_signals [of ss] by blast+
  have "(row_id \<circ> snd) x = fst x" if "x \<in> set (sort_key fst ?m)" for x
    using m(2) that by (cases x) (simp, blast)
  then have ids: "map row_id (dedupe_signals ss) = map fst (sort_key fst ?m)"
    unfolding dedupe_signals_def map_map by (rule map_cong [OF refl])
  have "mset (map fst (sort_key fst ?m)) = mset (map fst ?m)" by simp
  with m(1) have "distinct (map fst (sort_key fst ?m))" using mset_eq_imp_distinct_iff by blast
  then show ?thesis by (simp only: ids)
qed

lemma distinct_labelled:
  "distinct (map l xs) \<Longrightarrow> \<forall>x \<in> set xs. distinct (ids x) \<Longrightarrow>
     distinct (concat (map (\<lambda>x. map (Pair (l x)) (ids x)) xs))"
  by (induction xs) (auto simp: distinct_map inj_on_def)

lemma node_keys_distinct:
  assumes "\<forall>n \<in> set ns. new_node_write n = Inr n"
  shows "distinct (map fst (all_node_updates clock (node_statements bid v ns @ signal_statements ss)))"
proof -
  let ?keys = "concat (map (\<lambda>x. map (Pair (entity_value (fst x))) (map row_id (snd x))) (group_nodes ns))"
  have n: "map fst (all_node_updates clock (node_statements bid v ns)) = ?keys"
    by (auto simp: all_node_updates_def node_statements_def map_concat comp_def node_updates_def
        fst_node_update intro!: arg_cong [where f = concat] split: prod.split)
  have s: "map fst (all_node_updates clock (signal_statements ss)) = map (Pair SIGNAL_LABEL) (map row_id (dedupe_signals ss))"
    by (simp add: all_node_updates_def signal_statements_def node_updates_def comp_def fst_signal_update)
  have types: "distinct (map fst (group_nodes ns))" "set (map fst (group_nodes ns)) \<subseteq> set (map fst NODE_SPECS)"
    using group_nodes_types by blast+
  have inj: "inj_on entity_value (set (map fst NODE_SPECS))"
    using node_labels by (auto simp: distinct_map comp_def inj_on_def)
  have "distinct (map (entity_value \<circ> fst) (group_nodes ns))"
    using types inj by (metis comp_inj_on distinct_map inj_on_subset map_map set_map)
  moreover have "\<forall>x \<in> set (group_nodes ns). distinct (map row_id (snd x))"
  proof
    fix x assume "x \<in> set (group_nodes ns)"
    with node_rows_add_deltas_aux [OF assms, of "fst x" "snd x"] show "distinct (map row_id (snd x))"
      by (simp add: row_id_def [abs_def])
  qed
  ultimately have "distinct ?keys" using distinct_labelled [of "entity_value \<circ> fst" "group_nodes ns" "\<lambda>x. map row_id (snd x)"]
    by (simp add: comp_def)
  moreover have "distinct (map (Pair SIGNAL_LABEL) (map row_id (dedupe_signals ss)))"
    using signal_ids_distinct [of ss] by (simp add: distinct_map inj_on_def)
  moreover have "SIGNAL_LABEL \<notin> entity_value ` set (map fst (group_nodes ns))"
  proof
    assume "SIGNAL_LABEL \<in> entity_value ` set (map fst (group_nodes ns))"
    with types(2) have "SIGNAL_LABEL \<in> entity_value ` set (map fst NODE_SPECS)" by (rule image_mono [THEN subsetD])
    with node_labels show False by (simp add: comp_def image_image)
  qed
  then have "set ?keys \<inter> set (map (Pair SIGNAL_LABEL) (map row_id (dedupe_signals ss))) = {}" by auto
  ultimately have "distinct (?keys @ map (Pair SIGNAL_LABEL) (map row_id (dedupe_signals ss)))" by simp
  then show ?thesis by (simp only: n [symmetric] s [symmetric] all_node_updates_def map_append concat_append)
qed

section \<open>Replaying a batch\<close>

lemma edge_rows_keys:
  assumes "\<forall>e \<in> set es. built dg e"
  shows "distinct (map (\<lambda>r. text_of (map_of r ''edge_key'')) (edge_rows dg es g))"
proof -
  let ?ms = "filter (\<lambda>e. the_group e = g) es"
  let ?kr = "keyed_rows (the_key dg) (the_row dg) ?ms"
  have key: "text_of (map_of d ''edge_key'') = k" if kd: "(k, d) \<in> set ?kr" for k d
  proof -
    let ?ks = "filter (\<lambda>e. the_key dg e = k) ?ms"
    from keyed_rows_member [OF kd] have d: "d = folded_row (the_row dg) ?ks" "?ks \<noteq> []" by blast+
    have "map_of (folded_row (the_row dg) ?ks) ''edge_key'' = Some (PStr k)"
    proof (rule folded_row_text)
      show "\<forall>e \<in> set ?ks. distinct (map fst (the_row dg e)) \<and> map_of (the_row dg e) ''edge_key'' = Some (PStr k)"
        using assms built_total(6,7) by auto
    qed (use d in \<open>simp_all add: COUNTERS_def\<close>)
    then show ?thesis by (simp add: d(1) text_of_def)
  qed
  have "distinct (map fst ?kr)" using keyed_rows_keys by blast
  moreover have "map (\<lambda>r. text_of (map_of r ''edge_key'')) (map snd ?kr) = map fst ?kr"
    unfolding map_map by (rule map_cong) (auto simp: key)
  ultimately have "distinct (map (\<lambda>r. text_of (map_of r ''edge_key'')) (map snd ?kr))" by (simp only:)
  moreover have "mset (map (\<lambda>r. text_of (map_of r ''edge_key'')) (edge_rows dg es g)) =
      mset (map (\<lambda>r. text_of (map_of r ''edge_key'')) (map snd ?kr))"
    unfolding edge_rows_def mset_map mset_sort ..
  ultimately show ?thesis using mset_eq_imp_distinct_iff by blast
qed

lemma edge_keys_distinct:
  assumes "\<forall>e \<in> set es. built dg e" and "distinct gs"
  shows "distinct (map fst (all_edge_updates clock g (map (edge_statement dg bid v es) gs)))"
  using assms(2)
proof (induction gs)
  case Nil
  then show ?case by (simp add: all_edge_updates_def)
next
  case (Cons x gs)
  obtain t f l where x: "x = (t, f, l)" by (cases x)
  let ?rows = "\<lambda>x. filter (both_present g (fst (snd x)) (snd (snd x))) (edge_rows dg es x)"
  have refs: "set (map fst (edge_updates clock g (edge_statement dg bid v es y))) \<subseteq>
      {(fst y, (fst (snd y), i), (snd (snd y), j), k) |i j k. True}" for y
    by (auto simp: edge_updates_def edge_statement_def edge_update_def ends_of_def)
  have "distinct (map (\<lambda>r. text_of (map_of r ''edge_key'')) (?rows x))"
    using edge_rows_keys [OF assms(1)] by (rule distinct_map_filter)
  then have "distinct (map fst (edge_updates clock g (edge_statement dg bid v es x)))"
    by (auto simp: edge_updates_def edge_statement_def edge_update_def distinct_map inj_on_def comp_def)
  moreover have "set (map fst (edge_updates clock g (edge_statement dg bid v es x))) \<inter>
      set (map fst (all_edge_updates clock g (map (edge_statement dg bid v es) gs))) = {}"
  proof -
    have "r \<notin> set (map fst (edge_updates clock g (edge_statement dg bid v es x)))"
      if r: "r \<in> set (map fst (edge_updates clock g (edge_statement dg bid v es y)))" and "y \<in> set gs" for r y
    proof
      assume "r \<in> set (map fst (edge_updates clock g (edge_statement dg bid v es x)))"
      then have "r \<in> {(fst x, (fst (snd x), i), (snd (snd x), j), k) |i j k. True}" using refs by blast
      moreover have "r \<in> {(fst y, (fst (snd y), i), (snd (snd y), j), k) |i j k. True}" using r refs by blast
      ultimately have "x = y" by (simp add: prod_eq_iff)
      with \<open>y \<in> set gs\<close> Cons.prems show False by simp
    qed
    then show ?thesis by (fastforce simp: all_edge_updates_def)
  qed
  ultimately show ?case using Cons by (simp add: all_edge_updates_def)
qed

lemma node_statement_batch: "p \<in> set (node_statements bid v ns) \<Longrightarrow>
    \<exists>t rs. p = \<lparr>p_fragment = Merge_Nodes t, p_rows = rs, p_batch = Some bid, p_schema = Some v\<rparr>"
  by (auto simp: node_statements_def)

lemma node_updates_again:
  "list_all2 (repeats unstamped_node) (all_node_updates clock (node_statements bid v ns @ signal_statements ss))
     (all_node_updates again (node_statements bid v ns @ signal_statements ss))"
  unfolding all_node_updates_def
proof (rule repeats_concat)
  fix p assume "p \<in> set (node_statements bid v ns @ signal_statements ss)"
  then consider (node) "p \<in> set (node_statements bid v ns)" | (signal) "p \<in> set (signal_statements ss)" by auto
  then show "list_all2 (repeats unstamped_node) (node_updates clock p) (node_updates again p)"
  proof cases
    case node
    from node_statement_batch [OF this] obtain t rs where
      "p = \<lparr>p_fragment = Merge_Nodes t, p_rows = rs, p_batch = Some bid, p_schema = Some v\<rparr>" by blast
    then show ?thesis by (simp add: node_updates_def list_all2_map1 list_all2_map2 list_all2_same node_update_again)
  next
    case signal
    then show ?thesis
      by (simp add: signal_statements_def node_updates_def list_all2_map1 list_all2_map2 list_all2_same
          signal_update_again split: if_splits)
  qed
qed

lemma edge_updates_again:
  assumes "both_present g = both_present g'"
  shows "list_all2 (repeats unstamped_edge) (all_edge_updates clock g (map (edge_statement dg bid v es) gs))
     (all_edge_updates again g' (map (edge_statement dg bid v es) gs))"
  unfolding all_edge_updates_def
  by (rule repeats_concat)
    (auto simp: edge_updates_def edge_statement_def assms list_all2_map1 list_all2_map2 list_all2_same edge_update_again)

text \<open>Which rows of edges are written does not depend on the stamps.\<close>

lemma both_present_unstamped:
  assumes "\<And>r. map_option unstamped_node (gs_nodes g r) = map_option unstamped_node (gs_nodes g' r)"
  shows "both_present g = both_present g'"
proof -
  have "tenant_matches g r t = tenant_matches g' r t" for r t
    using assms [of r]
    by (cases "gs_nodes g r"; cases "gs_nodes g' r")
      (auto simp: tenant_matches_def unstamped_node_def dest: arg_cong [where f = sn_props])
  then show ?thesis by (intro ext) (simp add: both_present_def)
qed

text \<open>The whole transaction: the nodes, then the edges whose ends are there.\<close>

lemma run_plan:
  fixes g :: graph_store
  defines "ns \<equiv> \<lambda>bid v b. node_statements bid v (b_nodes b) @ signal_statements (b_signals b)"
  assumes "\<forall>p \<in> set eps. is_edge_fragment (p_fragment p)"
  shows "run_statements clock g (ns bid v b @ eps) =
    (let g1 = g\<lparr>gs_nodes := put_all (gs_nodes g) (all_node_updates clock (ns bid v b))\<rparr> in
     (g1\<lparr>gs_edges := put_all (gs_edges g) (all_edge_updates clock g1 eps)\<rparr>,
      map (length \<circ> p_rows) (ns bid v b) @ map (written_rows g1) eps))"
proof -
  have "list_all (\<lambda>p. \<not> is_edge_fragment (p_fragment p)) (ns bid v b)"
    by (auto simp: ns_def list_all_iff node_statements_def signal_statements_def is_edge_fragment_def)
  moreover have "list_all (\<lambda>p. is_edge_fragment (p_fragment p)) eps" using assms(2) by (simp add: list_all_iff)
  ultimately show ?thesis
    by (simp add: run_statements_append run_node_statements run_edge_statements Let_def)
qed

end
