(* ===== verification/Writer_Examples.thy ===== *)
theory Writer_Examples
  imports Writer_Replay
begin

text \<open>
  What the write path of graph/ingest/writer.py promises over a store: a batch that is
  replayed changes nothing, its deltas are counted once, an applied batch leaves every edge it
  names in the store; with the rows the promises are evaluated on.
\<close>

section \<open>Replays\<close>

definition batch_statements :: "string \<Rightarrow> int \<Rightarrow> graph_batch \<Rightarrow> planned list" where
  "batch_statements bid v b = node_statements bid v (b_nodes b) @ signal_statements (b_signals b)"

definition batch_effect ::
  "(planned \<Rightarrow> instant) \<Rightarrow> digests \<Rightarrow> int \<Rightarrow> graph_batch \<Rightarrow> string \<Rightarrow> edge_group list \<Rightarrow> graph_store \<Rightarrow> graph_store" where
  "batch_effect clock dg v b bid gs g =
     (let g1 = g\<lparr>gs_nodes := put_all (gs_nodes g) (all_node_updates clock (batch_statements bid v b))\<rparr> in
      g1\<lparr>gs_edges := put_all (gs_edges g)
        (all_edge_updates clock g1 (map (edge_statement dg bid v (b_edges b)) gs))\<rparr>)"

definition batch_plan :: "digests \<Rightarrow> int \<Rightarrow> graph_batch \<Rightarrow> string \<Rightarrow> edge_group list \<Rightarrow> planned list" where
  "batch_plan dg v b bid gs = batch_statements bid v b @ map (edge_statement dg bid v (b_edges b)) gs"

lemma run_batch_plan: "fst (run_statements clock g (batch_plan dg v b bid gs)) = batch_effect clock dg v b bid gs g"
proof -
  have "\<forall>p \<in> set (map (edge_statement dg bid v (b_edges b)) gs). is_edge_fragment (p_fragment p)"
    by (auto simp: edge_statement_def is_edge_fragment_def)
  from run_plan [OF this, of clock g bid v b] show ?thesis
    by (simp only: batch_plan_def batch_statements_def batch_effect_def Let_def fst_conv)
qed

lemma plan_of_batch:
  assumes "built_batch dg b"
  shows "\<exists>bid gs. batch_id_for dg b = Inr bid \<and> distinct gs \<and> set gs = the_group ` set (b_edges b) \<and>
    plan dg v b = Inr \<lparr>wp_batch = bid, wp_statements = batch_plan dg v b bid gs\<rparr>"
  using plan_shape [OF assms, of v] by (simp only: batch_plan_def batch_statements_def append_assoc)

lemma write_batch_effect:
  "plan dg v b = Inr \<lparr>wp_batch = bid, wp_statements = batch_plan dg v b bid gs\<rparr> \<Longrightarrow>
     fst (write_batch clock dg v g b) = batch_effect clock dg v b bid gs g"
  by (simp add: write_batch_def run_batch_plan)

text \<open>The store without the stamps \<open>updated_at\<close>.\<close>

definition unstamped :: "graph_store \<Rightarrow> graph_store" where
  "unstamped g = \<lparr>gs_nodes = map_option unstamped_node \<circ> gs_nodes g, gs_edges = map_option unstamped_edge \<circ> gs_edges g\<rparr>"

lemma batch_effect_again:
  assumes "built_batch dg b" and "distinct gs"
  shows "unstamped (batch_effect again dg v b bid gs (batch_effect clock dg v b bid gs g)) =
    unstamped (batch_effect clock dg v b bid gs g)"
proof -
  let ?ps = "batch_statements bid v b"
  let ?eps = "map (edge_statement dg bid v (b_edges b)) gs"
  let ?n1 = "put_all (gs_nodes g) (all_node_updates clock ?ps)"
  let ?n2 = "put_all ?n1 (all_node_updates again ?ps)"
  let ?g1 = "g\<lparr>gs_nodes := ?n1\<rparr>"
  let ?e1 = "put_all (gs_edges g) (all_edge_updates clock ?g1 ?eps)"
  let ?g2 = "\<lparr>gs_nodes = ?n1, gs_edges = ?e1\<rparr>"
  let ?g3 = "?g2\<lparr>gs_nodes := ?n2\<rparr>"
  have g2: "batch_effect clock dg v b bid gs g = ?g2" by (simp add: batch_effect_def Let_def)
  have g3: "batch_effect again dg v b bid gs ?g2 = ?g3\<lparr>gs_edges := put_all ?e1 (all_edge_updates again ?g3 ?eps)\<rparr>"
    by (simp add: batch_effect_def Let_def)
  have ns: "\<forall>n \<in> set (b_nodes b). new_node_write n = Inr n" and es: "\<forall>e \<in> set (b_edges b). built dg e"
    using assms(1) by (simp_all add: built_batch_def built_def)
  have nodes: "map_option unstamped_node (?n2 r) = map_option unstamped_node (?n1 r)" for r
    unfolding batch_statements_def by (rule put_all_again [OF node_keys_distinct [OF ns] node_updates_again])
  have "both_present ?g1 = both_present ?g3" by (rule both_present_unstamped) (simp add: nodes)
  from put_all_again [OF edge_keys_distinct [OF es assms(2)] edge_updates_again [OF this]]
  have "map_option unstamped_edge (put_all ?e1 (all_edge_updates again ?g3 ?eps) r) = map_option unstamped_edge (?e1 r)" for r .
  with nodes show ?thesis unfolding g2 g3 by (simp add: unstamped_def fun_eq_iff)
qed

lemma write_again:
  assumes "built_batch dg b"
  shows "unstamped (fst (write_batch again dg v (fst (write_batch clock dg v g b)) b)) = unstamped (fst (write_batch clock dg v g b))"
proof -
  from plan_of_batch [OF assms, of v] obtain bid gs where
    "distinct gs" "plan dg v b = Inr \<lparr>wp_batch = bid, wp_statements = batch_plan dg v b bid gs\<rparr>" by blast
  then show ?thesis by (simp only: write_batch_effect batch_effect_again [OF assms])
qed

text \<open>
  C31. A batch that the constructors accept may be replayed: writing it a second time, at whatever
  readings of the server's clock, leaves everything in the store as the first write left it, the counts,
  the times of creation, of the first and of the last sighting, the properties and the lists
  included, but for \<open>updated_at\<close>, which every write sets, whatever the store held before.
\<close>

theorem replay_changes_only_the_stamp:
  assumes "built_batch dg b"
  shows "unstamped (fst (write_batch again dg v (fst (write_batch clock dg v g b)) b)) = unstamped (fst (write_batch clock dg v g b))"
  using assms by (rule write_again)

section \<open>Counts\<close>

lemma grouped_row:
  assumes "\<forall>n \<in> set ns. new_node_write n = Inr n" and "n \<in> set ns"
  obtains rs r where "(nw_type n, rs) \<in> set (group_nodes ns)" "r \<in> set rs"
    "text_of (map_of r ''id'') = nw_id n"
    "as_int (map_of r ''new_signal_count'') =
       (\<Sum>m \<leftarrow> ns. if nw_type m = nw_type n \<and> nw_id m = nw_id n then nw_new m else 0)"
proof -
  from assms have "new_node_write n = Inr n" by blast
  then have t: "nw_type n \<in> set (map fst NODE_SPECS)"
    by (auto simp: new_node_write_def find_node_spec_def dest!: map_of_SomeD
        split: if_splits option.splits sum.splits intro: rev_image_eqI)
  have "nw_id n \<in> fst ` set (node_rows (nw_type n) ns)"
    using keyed_rows_keys [of nw_id node_row "filter (\<lambda>m. nw_type m = nw_type n) ns"] assms(2)
    by (auto simp: node_rows_keyed)
  then have "node_rows (nw_type n) ns \<noteq> []" by auto
  then have "(nw_type n, map snd (sort_key fst (node_rows (nw_type n) ns))) \<in>
      set (let rs = node_rows (nw_type n) ns in if rs = [] then [] else [(nw_type n, map snd (sort_key fst rs))])"
    by (simp add: Let_def)
  moreover from t obtain y where y: "y \<in> set NODE_SPECS" "fst y = nw_type n" by auto
  ultimately have g: "(nw_type n, map snd (sort_key fst (node_rows (nw_type n) ns))) \<in> set (group_nodes ns)"
    unfolding group_nodes_def set_concat set_map image_image by (intro UN_I [OF y(1)]) (simp only: y(2))
  let ?rs = "map snd (sort_key fst (node_rows (nw_type n) ns))"
  from node_rows_add_deltas_aux [OF assms(1) g]
  have ids: "set (map (\<lambda>r. text_of (map_of r ''id'')) ?rs) = {nw_id m |m. m \<in> set ns \<and> nw_type m = nw_type n}"
    and sums: "\<forall>r \<in> set ?rs. as_int (map_of r ''new_signal_count'') =
       (\<Sum>m \<leftarrow> ns. if nw_type m = nw_type n \<and> nw_id m = text_of (map_of r ''id'') then nw_new m else 0)" by blast+
  from assms(2) have "nw_id n \<in> set (map (\<lambda>r. text_of (map_of r ''id'')) ?rs)" unfolding ids by blast
  then obtain r where r: "r \<in> set ?rs" "nw_id n = text_of (map_of r ''id'')" unfolding set_map by (rule imageE)
  show thesis
    by (rule that [OF g r(1) r(2) [symmetric]]) (simp only: bspec [OF sums r(1)] r(2) [symmetric])
qed

definition count_before :: "graph_store \<Rightarrow> node_ref \<Rightarrow> int" where
  "count_before g r = (case gs_nodes g r of None \<Rightarrow> 0 | Some s \<Rightarrow> sn_count s)"

definition batch_before :: "graph_store \<Rightarrow> node_ref \<Rightarrow> string option" where
  "batch_before g r = (case gs_nodes g r of None \<Rightarrow> None | Some s \<Rightarrow> sn_batch s)"

lemma counted_once:
  assumes "built_batch dg b" and "batch_id_for dg b = Inr bid" and "n \<in> set (b_nodes b)"
  shows "\<exists>s. gs_nodes (fst (write_batch clock dg v g b)) (entity_value (nw_type n), nw_id n) = Some s \<and>
    sn_batch s = Some bid \<and>
    sn_count s = count_before g (entity_value (nw_type n), nw_id n) +
      (if batch_before g (entity_value (nw_type n), nw_id n) = Some bid then 0
       else \<Sum>m \<leftarrow> b_nodes b. if nw_type m = nw_type n \<and> nw_id m = nw_id n then nw_new m else 0)"
proof -
  have ns: "\<forall>n \<in> set (b_nodes b). new_node_write n = Inr n" using assms(1) by (simp add: built_batch_def)
  from plan_of_batch [OF assms(1), of v] assms(2) obtain gs where
    "plan dg v b = Inr \<lparr>wp_batch = bid, wp_statements = batch_plan dg v b bid gs\<rparr>" by auto
  then have w: "gs_nodes (fst (write_batch clock dg v g b)) =
      put_all (gs_nodes g) (all_node_updates clock (batch_statements bid v b))"
    by (simp add: write_batch_effect batch_effect_def Let_def)
  from grouped_row [OF ns assms(3)] obtain rs r where
    r: "(nw_type n, rs) \<in> set (group_nodes (b_nodes b))" "r \<in> set rs"
      "text_of (map_of r ''id'') = nw_id n"
      "as_int (map_of r ''new_signal_count'') =
         (\<Sum>m \<leftarrow> b_nodes b. if nw_type m = nw_type n \<and> nw_id m = nw_id n then nw_new m else 0)" by blast
  let ?ps = "specs_of (find_node_spec (nw_type n)) ns_properties"
  let ?p = "\<lparr>p_fragment = Merge_Nodes (nw_type n), p_rows = rs, p_batch = Some bid, p_schema = Some v\<rparr>"
  have p: "?p \<in> set (node_statements bid v (b_nodes b))"
    unfolding node_statements_def set_map by (rule rev_image_eqI [OF r(1)]) simp
  have u: "node_update (clock ?p) (entity_value (nw_type n)) ?ps (Some bid) (Some v) r \<in> set (node_updates clock ?p)"
    using r(2) by (simp add: node_updates_def)
  have "node_update (clock ?p) (entity_value (nw_type n)) ?ps (Some bid) (Some v) r \<in> set (all_node_updates clock (batch_statements bid v b))"
    unfolding all_node_updates_def batch_statements_def using p u by auto
  moreover have "node_update (clock ?p) (entity_value (nw_type n)) ?ps (Some bid) (Some v) r =
      ((entity_value (nw_type n), nw_id n), \<lambda>x. node_fragment (clock ?p) ?ps (Some bid) (Some v) r
        (case x of None \<Rightarrow> new_node (clock ?p) (nw_id n) | Some n \<Rightarrow> n))"
    by (simp add: node_update_def r(3) Let_def)
  ultimately have "gs_nodes (fst (write_batch clock dg v g b)) (entity_value (nw_type n), nw_id n) =
      Some (node_fragment (clock ?p) ?ps (Some bid) (Some v) r
        (case gs_nodes g (entity_value (nw_type n), nw_id n) of None \<Rightarrow> new_node (clock ?p) (nw_id n) | Some n \<Rightarrow> n))"
    unfolding w by (simp only: put_all_at [OF node_keys_distinct [OF ns, of clock bid v "b_signals b", folded batch_statements_def]])
  then show ?thesis
    by (auto simp: node_fragment_def r(4) count_before_def batch_before_def new_node_def split: option.splits)
qed

text \<open>
  C35. Writing a batch adds to the count of every node it names the sum of all the deltas the
  batch carries for that node, once, and stamps the node with the batch; a node that already
  carries the stamp of this batch gets nothing. No delta is lost to grouping, to the order of
  the writes or to a second write of the same node within the batch.
\<close>

theorem deltas_counted_once:
  assumes "built_batch dg b" and "batch_id_for dg b = Inr bid" and "n \<in> set (b_nodes b)"
  shows "\<exists>s. gs_nodes (fst (write_batch clock dg v g b)) (entity_value (nw_type n), nw_id n) = Some s \<and>
    sn_batch s = Some bid \<and>
    sn_count s = count_before g (entity_value (nw_type n), nw_id n) +
      (if batch_before g (entity_value (nw_type n), nw_id n) = Some bid then 0
       else \<Sum>m \<leftarrow> b_nodes b. if nw_type m = nw_type n \<and> nw_id m = nw_id n then nw_new m else 0)"
  using assms by (rule counted_once)

section \<open>Evaluated batches\<close>

definition plain :: digests where
  "plain = \<lparr>hexdigest = id, iso_utc = str_int\<rparr>"

definition always :: "planned \<Rightarrow> instant" where "always p = 0"

definition sighting :: "string \<Rightarrow> int \<Rightarrow> int \<Rightarrow> node_write" where
  "sighting i t n = \<lparr>nw_type = COMPANY, nw_id = i, nw_tenant = ''t'', nw_canonical = i, nw_normalized = i,
     nw_observed = t, nw_aliases = [], nw_new = n, nw_props = []\<rparr>"

definition nodes_only :: "node_write list \<Rightarrow> graph_batch" where
  "nodes_only ns = \<lparr>b_nodes = ns, b_signals = [], b_edges = []\<rparr>"

definition rivals :: "string \<Rightarrow> string \<Rightarrow> edge_write" where
  "rivals s t = \<lparr>ew_type = COMPETES_WITH, ew_source_label = ''Company'', ew_source_id = s,
     ew_target_label = ''Company'', ew_target_id = t, ew_tenant = ''t'', ew_valid_from = 1, ew_observed = 1,
     ew_valid_to = None, ew_confidence = None, ew_extractor = None, ew_source_signals = [], ew_new = 1,
     ew_evidence_key = '''', ew_props = []\<rparr>"

definition acme_twice :: graph_batch where
  "acme_twice = nodes_only [sighting ''a'' 1 2, sighting ''b'' 1 1, sighting ''a'' 3 4]"

definition store_id :: "py_error + string \<Rightarrow> string" where
  "store_id r = (case r of Inl _ \<Rightarrow> [] | Inr s \<Rightarrow> s)"

lemma sighting_built:
  "list_all (\<lambda>n. new_node_write n = Inr n) [sighting ''a'' 1 2, sighting ''b'' 1 1, sighting ''a'' 3 4]"
  by code_simp

lemma acme_twice_built: "built_batch plain acme_twice"
  using sighting_built by (simp add: built_batch_def acme_twice_def nodes_only_def)

lemma acme_twice_id: "batch_id_for plain acme_twice = Inr (store_id (batch_id_for plain acme_twice))"
  by (simp add: store_id_def batch_id_for_def acme_twice_def nodes_only_def Let_def)

theorem replay_changes_only_the_stamp_witness:
  "let g1 = fst (write_batch always plain 1 empty_store acme_twice);
       g2 = fst (write_batch (\<lambda>_. 60) plain 1 g1 acme_twice) in
   unstamped g2 = unstamped g1 \<and> map_option sn_updated (gs_nodes g1 (''Company'', ''a'')) = Some (Some 0) \<and>
   map_option sn_updated (gs_nodes g2 (''Company'', ''a'')) = Some (Some 60)"
proof -
  have "map_option sn_updated (gs_nodes (fst (write_batch always plain 1 empty_store acme_twice)) (''Company'', ''a'')) = Some (Some 0)"
    "map_option sn_updated (gs_nodes (fst (write_batch (\<lambda>_. 60) plain 1
       (fst (write_batch always plain 1 empty_store acme_twice)) acme_twice)) (''Company'', ''a'')) = Some (Some 60)"
    by code_simp+
  with replay_changes_only_the_stamp [OF acme_twice_built, of "\<lambda>_. 60" 1 always empty_store] show ?thesis by (simp add: Let_def)
qed

theorem deltas_counted_once_witness:
  "\<exists>s. gs_nodes (fst (write_batch always plain 1 empty_store acme_twice)) (''Company'', ''a'') = Some s \<and> sn_count s = 6"
proof -
  have m: "sighting ''a'' 1 2 \<in> set (b_nodes acme_twice)" by (simp add: acme_twice_def nodes_only_def)
  have "(\<Sum>m \<leftarrow> b_nodes acme_twice. if nw_type m = COMPANY \<and> nw_id m = ''a'' then nw_new m else 0) = 6"
    by code_simp
  moreover have "entity_value COMPANY = ''Company''" by code_simp
  moreover have "nw_type (sighting ''a'' 1 2) = COMPANY" "nw_id (sighting ''a'' 1 2) = ''a''"
    by (simp_all add: sighting_def)
  moreover have "count_before empty_store r = 0" "batch_before empty_store r = None" for r
    by (simp_all add: count_before_def batch_before_def empty_store_def)
  ultimately show ?thesis
    using deltas_counted_once [OF acme_twice_built acme_twice_id m, of always 1 empty_store] by auto
qed

theorem batch_id_ignores_order_witness:
  "batch_id_for plain (nodes_only [sighting ''a'' 1 2, sighting ''b'' 1 1]) =
     batch_id_for plain (nodes_only [sighting ''b'' 1 1, sighting ''a'' 1 2])"
  by (rule batch_id_ignores_order) (simp_all add: nodes_only_def)

theorem symmetric_edges_share_key_witness:
  "key_of plain (swapped (rivals ''x'' ''y'')) = key_of plain (rivals ''x'' ''y'')"
proof -
  have "case find_edge_spec COMPETES_WITH of Inl _ \<Rightarrow> False | Inr s \<Rightarrow> is_symmetric s" by code_simp
  then obtain s where s: "find_edge_spec (ew_type (rivals ''x'' ''y'')) = Inr s" "is_symmetric s"
    by (auto simp: rivals_def split: sum.splits)
  have "ew_source_id (rivals ''x'' ''y'') \<noteq> ew_target_id (rivals ''x'' ''y'')" by (simp add: rivals_def)
  with symmetric_edges_share_key [OF s] show ?thesis by blast
qed

text \<open>
  Two different sightings of one entity, each one new signal, hash to one batch: the second
  increment is suppressed as if it were a replay.
\<close>

theorem equal_deltas_are_suppressed:
  "built_batch plain (nodes_only [sighting ''a'' 1 1]) \<and> built_batch plain (nodes_only [sighting ''a'' 9 1]) \<and>
   map_option sn_count (gs_nodes (fst (write_batch always plain 1
     (fst (write_batch always plain 1 empty_store (nodes_only [sighting ''a'' 1 1])))
     (nodes_only [sighting ''a'' 9 1]))) (''Company'', ''a'')) = Some 1"
proof -
  have "new_node_write (sighting ''a'' t 1) = Inr (sighting ''a'' t 1)" if "t \<in> {1, 9}" for t
    using that by (elim insertE; simp only: singleton_iff empty_iff; hypsubst?; code_simp?)
  then have "built_batch plain (nodes_only [sighting ''a'' 1 1])" "built_batch plain (nodes_only [sighting ''a'' 9 1])"
    by (simp_all add: built_batch_def nodes_only_def)
  moreover have "map_option sn_count (gs_nodes (fst (write_batch always plain 1
     (fst (write_batch always plain 1 empty_store (nodes_only [sighting ''a'' 1 1])))
     (nodes_only [sighting ''a'' 9 1]))) (''Company'', ''a'')) = Some 1"
    by code_simp
  ultimately show ?thesis by blast
qed

text \<open>Any two lists are joined, also two embeddings: the vector of the row is the vector of neither.\<close>

theorem embeddings_are_joined:
  "map_of (merge_rows [(''embedding'', PList [PFloat 1, PFloat 2])] [(''embedding'', PList [PFloat 1, PFloat 3])])
     ''embedding'' = Some (PList [PFloat 1, PFloat 2, PFloat 3])"
  by code_simp

end
