(* ===== verification/Batcher_Examples.thy ===== *)
theory Batcher_Examples
  imports Batcher_Laws Writer_Examples
begin

text \<open>
  Evaluated runs of the batcher: witnesses of its laws, a row that outlives the age limit, and a
  failed write whose rows are counted again.
\<close>

definition small_batcher :: batcher_config where
  "small_batcher = \<lparr>max_batch_rows = 2, max_age_seconds = 2, row_capacity = 4, max_attempts = 2, has_sink = False\<rparr>"

lemma small_batcher_built: "new_batcher_config 2 2 2 2 False = Inr small_batcher"
  by (simp add: new_batcher_config_def small_batcher_def)

definition row_of :: "string \<Rightarrow> graph_write" where
  "row_of i = Node_Write (sighting i 1 1)"

definition one_row :: "batcher_event list" where
  "one_row = [Start, Flusher_Decides, Submit (row_of ''a'')]"

definition saturated :: "batcher_event list" where
  "saturated = map Submit [row_of ''a'', row_of ''b'', row_of ''c'', row_of ''d'', row_of ''e'']
     @ [Flush, Answer Raised False, Answer Wrote False, Submit_Woken (row_of ''e'')]"

theorem batcher_loses_nothing_witness:
  "accepted (batcher_run small_batcher saturated) =
    concat (map fst (settled (batcher_run small_batcher saturated))) @ buffer (batcher_run small_batcher saturated)"
  using batcher_loses_nothing [OF small_batcher_built] by blast

theorem pressure_on_edges_only_witness:
  "pressure_calls (batcher_run small_batcher saturated) =
     map even [0..<length (pressure_calls (batcher_run small_batcher saturated))]"
  using pressure_on_edges_only [OF small_batcher_built] by blast

lemma one_row_waits:
  "task (batcher_run small_batcher one_row) = Awaits_Row \<and> buffer (batcher_run small_batcher one_row) \<noteq> [] \<and>
   \<not> closing (batcher_run small_batcher one_row)"
  by (simp add: batcher_run_def one_row_def batcher_step_def start_def flusher_decides_def submit_def append_row_def
      new_batcher_def small_batcher_def Let_def)

theorem flusher_never_oversleeps_witness:
  "task (batcher_run small_batcher (one_row @ [Tick 2, Flusher_Wakes, Flusher_Decides])) = In_Flush"
  by (rule flusher_never_oversleeps [OF small_batcher_built]) (use one_row_waits in \<open>simp_all add: may_flush_def\<close>)

definition stubborn :: answers where
  "stubborn i = (if even i then Raised else Wrote, False)"

lemma stubborn_gives_in: "gives_in small_batcher stubborn"
proof -
  have "\<exists>j < 2. fst (stubborn (i + j)) = Wrote" for i
    by (rule exI [of _ "if even i then 1 else 0"]) (simp add: stubborn_def)
  moreover have "max 1 (nat (max_attempts small_batcher)) = 2" by (simp add: small_batcher_def)
  moreover have "fst (stubborn i) \<noteq> Cancelled" for i by (simp add: stubborn_def)
  ultimately show ?thesis unfolding gives_in_def by metis
qed

theorem close_drains_witness:
  "\<exists>b. aclose small_batcher stubborn (batcher_run small_batcher one_row) = (Inr (), b) \<and> buffer b = [] \<and>
    concat (map fst (settled b)) = [row_of ''a'']"
proof -
  have "\<not> closed (batcher_run small_batcher one_row)" "accepted (batcher_run small_batcher one_row) = [row_of ''a'']"
    by (simp_all add: batcher_run_def one_row_def batcher_step_def start_def flusher_decides_def submit_def
        append_row_def new_batcher_def small_batcher_def Let_def)
  with close_drains [OF small_batcher_built stubborn_gives_in, of one_row] show ?thesis by metis
qed

section \<open>The deadline after a flush\<close>

text \<open>
  Row c arrives at time 1 while the rows a and b are being written. Its age reaches the
  limit of 2 at time 3; the flush ends at 2, the deadline is set to 4, and at time 3 the
  flusher waits on.
\<close>

definition slow_flush :: "batcher_event list" where
  "slow_flush = [Start, Submit (row_of ''a''), Submit (row_of ''b''), Flusher_Decides, Flusher_Flushes, Tick 1,
     Submit (row_of ''c''), Tick 1, Answer Wrote False, Flusher_Decides, Flusher_Wakes, Flusher_Decides, Tick 1,
     Flusher_Wakes]"

theorem remaining_row_outlives_age:
  "let b = batcher_run small_batcher slow_flush in
   clock b = 3 \<and> buffer b = [row_of ''c''] \<and> task b = Awaits_Until 4"
  by (simp add: batcher_run_def slow_flush_def batcher_step_def start_def flusher_decides_def flusher_wakes_def
      submit_def append_row_def flush_start_def attempt_answer_def complete_flush_def release_flush_def
      set_pressure_def new_batcher_def small_batcher_def Let_def row_of_def sighting_def)

section \<open>A failed write that was committed\<close>

text \<open>
  The writer checks the counts after its transaction has committed. Without a sink the rows
  stay buffered, and the next flush takes more of them: another batch with another id, so the
  guard of the counters does not recognise the rows it has already counted.
\<close>

definition dangling :: graph_batch where
  "dangling = \<lparr>b_nodes = [sighting ''a'' 1 1], b_signals = [], b_edges = [rivals ''a'' ''z'']\<rparr>"

definition dangling_regrown :: graph_batch where
  "dangling_regrown = add_write dangling (row_of ''b'')"

definition backwards :: digests where
  "backwards = \<lparr>hexdigest = rev, iso_utc = str_int\<rparr>"

definition after_failure :: graph_store where
  "after_failure = fst (write_batch always backwards 1 empty_store dangling)"

lemma dangling_fails: "snd (write_batch always backwards 1 empty_store dangling) = Inl RuntimeError"
  by code_simp

lemma dangling_built: "built_batch backwards dangling" and regrown_built: "built_batch backwards dangling_regrown"
proof -
  have "new_node_write (sighting ''a'' 1 1) = Inr (sighting ''a'' 1 1)"
    "new_node_write (sighting ''b'' 1 1) = Inr (sighting ''b'' 1 1)"
    "new_edge_write backwards (rivals ''a'' ''z'') = Inr (rivals ''a'' ''z'')" by code_simp+
  then show "built_batch backwards dangling" "built_batch backwards dangling_regrown"
    by (simp_all add: built_batch_def dangling_def dangling_regrown_def add_write_def row_of_def)
qed

lemma other_batch:
  "\<exists>x y. batch_id_for backwards dangling = Inr x \<and> batch_id_for backwards dangling_regrown = Inr y \<and> x \<noteq> y"
proof -
  have "case (batch_id_for backwards dangling, batch_id_for backwards dangling_regrown) of
    (Inr x, Inr y) \<Rightarrow> x \<noteq> y | _ \<Rightarrow> False" by code_simp
  then show ?thesis by (auto split: sum.splits)
qed

lemma counts_of_a:
  "map_option sn_count (gs_nodes after_failure (''Company'', ''a'')) = Some 1 \<and>
   map_option sn_count (gs_nodes (fst (write_batch always backwards 1 after_failure dangling_regrown)) (''Company'', ''a'')) = Some 2"
proof -
  let ?n = "sighting ''a'' 1 1"
  from other_batch obtain x y where ids: "batch_id_for backwards dangling = Inr x"
    "batch_id_for backwards dangling_regrown = Inr y" "x \<noteq> y" by blast
  have n: "?n \<in> set (b_nodes dangling)" "?n \<in> set (b_nodes dangling_regrown)"
    by (simp_all add: dangling_def dangling_regrown_def add_write_def row_of_def)
  have sums: "(\<Sum>m \<leftarrow> b_nodes dangling. if nw_type m = nw_type ?n \<and> nw_id m = nw_id ?n then nw_new m else 0) = 1"
    "(\<Sum>m \<leftarrow> b_nodes dangling_regrown. if nw_type m = nw_type ?n \<and> nw_id m = nw_id ?n then nw_new m else 0) = 1"
    by code_simp+
  have ref: "(entity_value (nw_type ?n), nw_id ?n) = (''Company'', ''a'')" by code_simp
  have "count_before empty_store r = 0" "batch_before empty_store r = None" for r
    by (simp_all add: count_before_def batch_before_def empty_store_def)
  with counted_once [OF dangling_built ids(1) n(1), of always 1 empty_store] sums(1) ref
  have one: "count_before after_failure (''Company'', ''a'') = 1 \<and> batch_before after_failure (''Company'', ''a'') = Some x \<and>
      map_option sn_count (gs_nodes after_failure (''Company'', ''a'')) = Some 1"
    by (auto simp: after_failure_def count_before_def batch_before_def)
  with counted_once [OF regrown_built ids(2) n(2), of always 1 after_failure] sums(2) ref ids(3) show ?thesis by auto
qed

theorem failed_write_counts_again:
  "snd (write_batch always backwards 1 empty_store dangling) = Inl RuntimeError \<and>
   map_option sn_count (gs_nodes after_failure (''Company'', ''a'')) = Some 1 \<and>
   map_option sn_count (gs_nodes (fst (write_batch always backwards 1 after_failure dangling_regrown)) (''Company'', ''a'')) = Some 2"
  using dangling_fails counts_of_a by blast

end
