(* ===== verification/Schema_Laws.thy ===== *)
theory Schema_Laws
  imports Writer_Examples
begin

text \<open>
  What the checks of \<open>graph/schema/nodes.py\<close> promise of a property map, and that it survives
  the folding of rows in \<open>graph/ingest/writer.py\<close>: what reaches the store has the declared types.
\<close>

section \<open>A checked map is typed\<close>

definition well_typed :: "property_spec list \<Rightarrow> pdict \<Rightarrow> bool" where
  "well_typed ps d \<longleftrightarrow> (\<forall>p \<in> set ps. \<forall>v. map_of d (p_name p) = Some v \<longrightarrow>
     v = PNone \<or> type_matches (p_type p) v \<and> value_allowed (allowed_values p) v)"

definition well_formed :: "property_spec list \<Rightarrow> pdict \<Rightarrow> bool" where
  "well_formed ps d \<longleftrightarrow> well_typed ps d \<and> set (map fst d) \<subseteq> set (map p_name ps) \<and>
     (\<forall>p \<in> set ps. p_required p \<longrightarrow> map_of d (p_name p) \<noteq> None \<and> map_of d (p_name p) \<noteq> Some PNone) \<and>
     (\<forall>p \<in> set ps. p_owner p \<noteq> CALLER \<longrightarrow> map_of d (p_name p) = None)"

lemma check_all: "fold_res (\<lambda>_ p. f p) () ps = Inr u \<longleftrightarrow> (\<forall>p \<in> set ps. f p = Inr ())"
proof (induction ps)
  case (Cons p ps)
  then show ?case by (cases "f p") auto
qed simp

lemma check_property_iff:
  "check_property d p = Inr () \<longleftrightarrow>
     (p_required p \<longrightarrow> map_of d (p_name p) \<noteq> None \<and> map_of d (p_name p) \<noteq> Some PNone) \<and>
     (p_owner p \<noteq> CALLER \<longrightarrow> map_of d (p_name p) = None) \<and>
     (\<forall>v. map_of d (p_name p) = Some v \<longrightarrow> v = PNone \<or> type_matches (p_type p) v \<and> value_allowed (allowed_values p) v)"
  by (auto simp: check_property_def split: option.splits)

lemma validate_iff: "validate_property_map ps d = Inr () \<longleftrightarrow> well_formed ps d"
  unfolding validate_property_map_def well_formed_def well_typed_def
  by (cases "set (map fst d) \<subseteq> set (map p_name ps)") (simp_all add: check_all check_property_iff, blast)

text \<open>
  The check of a property map accepts exactly the well-formed maps: declared keys only,
  every required property present and not null, none that the caller does not own, and every
  other value null or of its declared type and within its vocabulary.
\<close>

theorem validation_is_exact:
  "validate_property_map ps d = Inr () \<longleftrightarrow>
     (\<forall>k \<in> fst ` set d. \<exists>p \<in> set ps. p_name p = k) \<and>
     (\<forall>p \<in> set ps.
        (p_required p \<longrightarrow> map_of d (p_name p) \<noteq> None \<and> map_of d (p_name p) \<noteq> Some PNone) \<and>
        (p_owner p \<noteq> CALLER \<longrightarrow> map_of d (p_name p) = None) \<and>
        (\<forall>v. map_of d (p_name p) = Some v \<longrightarrow>
           v = PNone \<or> type_matches (p_type p) v \<and> value_allowed (allowed_values p) v))"
proof -
  have "set (map fst d) \<subseteq> set (map p_name ps) \<longleftrightarrow> (\<forall>k \<in> fst ` set d. \<exists>p \<in> set ps. p_name p = k)"
    unfolding set_map subset_eq image_iff [of _ p_name] by metis
  then show ?thesis unfolding validate_iff well_formed_def well_typed_def by blast
qed

section \<open>Folding keeps types\<close>

lemma merged_value_typed:
  assumes "type_matches (p_type p) v \<and> value_allowed (allowed_values p) v \<or> v = PNone"
    and "\<And>o'. old = Some o' \<Longrightarrow> type_matches (p_type p) o' \<and> value_allowed (allowed_values p) o' \<or> o' = PNone"
    and "p_name p \<notin> set COUNTERS" and "merged_value (p_name p) old v = Some w"
  shows "type_matches (p_type p) w \<and> value_allowed (allowed_values p) w \<or> w = PNone"
proof (cases "\<exists>xs ys. old = Some (PList xs) \<and> v = PList ys")
  case True
  then obtain xs ys where l: "old = Some (PList xs)" "v = PList ys" by blast
  with assms(3,4) have w: "w = PList (add_unique xs ys)" by (simp add: merged_value_def)
  from assms(1) l(2) have v: "type_matches (p_type p) (PList ys)" "value_allowed (allowed_values p) (PList ys)" by simp_all
  from assms(2) [OF l(1)] have o': "type_matches (p_type p) (PList xs)" by simp
  from v(1) o' have "type_matches (p_type p) w"
    by (cases "p_type p") (auto simp: w list_all_iff sequence_def)
  moreover have "value_allowed (allowed_values p) w"
    using v(2) by (simp add: w value_allowed_def split: option.splits)
  ultimately show ?thesis by blast
next
  case False
  then have "merged_value (p_name p) old v =
      (if p_name p = ''observed_at'' \<and> old \<noteq> None \<and> old \<noteq> Some PNone \<and> v \<noteq> PNone then Some (later (the old) v)
       else if v \<noteq> PNone then Some v else old)"
    using assms(3) by (auto simp: merged_value_def split: option.splits pvalue.splits)
  with assms(4) have "w = later (the old) v \<and> old = Some (the old) \<and> v \<noteq> PNone \<or> w = v \<or> old = Some w"
    by (cases old; cases "p_name p = ''observed_at''"; cases "v = PNone") (simp_all split: if_splits)
  then consider "w = later (the old) v" "old = Some (the old)" "v \<noteq> PNone" | "w = v" | "old = Some w" by blast
  then show ?thesis
  proof cases
    case 1
    then have "w = v \<or> w = the old"
      by (cases "(the old, v)" rule: prod.exhaust) (auto simp: later_def max_def split: pvalue.splits)
    with 1 assms(1) assms(2) [of "the old"] show ?thesis by metis
  qed (use assms(1,2) in auto)
qed

lemma merge_rows_typed:
  assumes "well_typed ps d" and "well_typed ps e" and "distinct (map fst e)"
    and "\<forall>p \<in> set ps. p_name p \<notin> set COUNTERS"
  shows "well_typed ps (merge_rows d e)"
  unfolding well_typed_def
proof (intro ballI allI impI)
  fix p w
  assume p: "p \<in> set ps" and "map_of (merge_rows d e) (p_name p) = Some w"
  then have w: "folded_value (p_name p) (map_of d (p_name p)) (map_of e (p_name p)) = Some w"
    by (simp add: map_of_merge_rows [OF assms(3)])
  show "w = PNone \<or> type_matches (p_type p) w \<and> value_allowed (allowed_values p) w"
  proof (cases "map_of e (p_name p)")
    case None
    with w assms(1) p show ?thesis by (simp add: folded_value_def well_typed_def)
  next
    case (Some v)
    with w have m: "merged_value (p_name p) (map_of d (p_name p)) v = Some w" by (simp add: folded_value_def)
    have v: "type_matches (p_type p) v \<and> value_allowed (allowed_values p) v \<or> v = PNone"
      using assms(2) p Some by (auto simp: well_typed_def)
    have o': "type_matches (p_type p) o' \<and> value_allowed (allowed_values p) o' \<or> o' = PNone"
      if "map_of d (p_name p) = Some o'" for o' using assms(1) p that by (auto simp: well_typed_def)
    from assms(4) p have "p_name p \<notin> set COUNTERS" by blast
    from merged_value_typed [OF v o' this m] show ?thesis by blast
  qed
qed

lemma folded_row_typed:
  assumes "\<forall>p \<in> set ps. p_name p \<notin> set COUNTERS"
  shows "ns \<noteq> [] \<Longrightarrow> \<forall>n \<in> set ns. well_typed ps (row n) \<and> distinct (map fst (row n)) \<Longrightarrow>
    well_typed ps (folded_row row ns)"
proof (induction ns rule: rev_induct)
  case (snoc n ns)
  then show ?case
    by (cases "ns = []") (simp_all add: folded_row_snoc merge_rows_typed assms)
qed simp

lemma node_specs_typed:
  "list_all (\<lambda>(t, s). list_all (\<lambda>p. p_name p \<notin> set COUNTERS \<and>
     (p_name p = ''observed_at'' \<longrightarrow> p_type p = DATETIME \<and> allowed_values p = None)) (ns_properties s)) NODE_SPECS"
  by code_simp

lemma node_spec_properties:
  assumes "find_node_spec t = Inr s" and "p \<in> set (ns_properties s)"
  shows "p_name p \<notin> set COUNTERS" "p_name p = ''observed_at'' \<Longrightarrow> p_type p = DATETIME \<and> allowed_values p = None"
proof -
  from assms(1) have "(t, s) \<in> set NODE_SPECS"
    by (auto simp: find_node_spec_def dest: map_of_SomeD split: option.splits)
  from bspec [OF node_specs_typed [unfolded list_all_iff] this] assms(2)
  have "p_name p \<notin> set COUNTERS \<and> (p_name p = ''observed_at'' \<longrightarrow> p_type p = DATETIME \<and> allowed_values p = None)"
    by (simp only: prod.case) blast
  then show "p_name p \<notin> set COUNTERS" "p_name p = ''observed_at'' \<Longrightarrow> p_type p = DATETIME \<and> allowed_values p = None" by blast+
qed

lemma node_row_typed:
  assumes "new_node_write n = Inr n" and "find_node_spec (nw_type n) = Inr s"
  shows "well_typed (ns_properties s) (node_row n)"
proof -
  from assms have v: "well_typed (ns_properties s) (node_property_map n)"
    by (auto simp: new_node_write_def validate_node_properties_def validate_iff well_formed_def
        split: if_splits dest!: and_then_Inr_iff [THEN iffD1])
  have "map_of (node_row n) k = (if k = ''new_signal_count'' then Some (PInt (nw_new n))
      else if k = ''observed_at'' then Some (PTime (nw_observed n)) else map_of (node_property_map n) k)" for k
    by (simp add: node_row_def dict_put_def map_of_update)
  then show ?thesis using v node_spec_properties [OF assms(2)]
    by (auto simp: well_typed_def value_allowed_def COUNTERS_def split: if_splits)
qed

lemma node_rows_typed:
  assumes "\<forall>n \<in> set ns. new_node_write n = Inr n" and "(t, rs) \<in> set (group_nodes ns)"
    and "find_node_spec t = Inr s" and "r \<in> set rs"
  shows "well_typed (ns_properties s) r"
proof -
  let ?ms = "filter (\<lambda>n. nw_type n = t) ns"
  from assms(2) have "rs = map snd (sort_key fst (keyed_rows nw_id node_row ?ms))"
    by (auto simp: group_nodes_def node_rows_keyed Let_def split: if_splits)
  with assms(4) obtain k where k: "(k, r) \<in> set (keyed_rows nw_id node_row ?ms)" by auto
  let ?ks = "filter (\<lambda>n. nw_id n = k) ?ms"
  from keyed_rows_member [OF k] have r: "r = folded_row node_row ?ks" "?ks \<noteq> []" by blast+
  have c: "\<forall>p \<in> set (ns_properties s). p_name p \<notin> set COUNTERS"
    using node_spec_properties(1) [OF assms(3)] by blast
  have "\<forall>n \<in> set ?ks. well_typed (ns_properties s) (node_row n) \<and> distinct (map fst (node_row n))"
    using assms(1,3) by (auto simp: node_row_typed distinct_node_row constructed_def)
  from folded_row_typed [OF c r(2) this] show ?thesis by (simp add: r(1))
qed

text \<open>
  C34. Type soundness of node writes: in every row a plan carries for a label, however many
  writes were folded into it, a declared property is null or has its declared type and
  vocabulary.
\<close>

theorem planned_rows_are_typed:
  assumes "\<forall>n \<in> set ns. new_node_write n = Inr n" and "(t, rs) \<in> set (group_nodes ns)"
    and "find_node_spec t = Inr s" and "r \<in> set rs" and "p \<in> set (ns_properties s)"
    and "map_of r (p_name p) = Some v"
  shows "v = PNone \<or> type_matches (p_type p) v \<and> value_allowed (allowed_values p) v"
  using node_rows_typed [OF assms(1-4)] assms(5,6) by (simp add: well_typed_def)

section \<open>An evaluated plan\<close>

definition sightings :: "node_write list" where
  "sightings = [sighting ''a'' 1 2, sighting ''b'' 1 1, sighting ''a'' 3 4]"

definition company_rows :: "pdict list" where
  "company_rows = snd (hd (group_nodes sightings))"

definition company_spec :: node_spec where
  "company_spec = the (map_of NODE_SPECS COMPANY)"

definition aliases_property :: property_spec where
  "aliases_property = hd (filter (\<lambda>p. p_name p = ''aliases'') (ns_properties company_spec))"

theorem planned_rows_are_typed_witness:
  "type_matches (p_type aliases_property) (PList []) \<and> p_type aliases_property = STRING_LIST"
proof -
  have ns: "\<forall>n \<in> set sightings. new_node_write n = Inr n"
    using sighting_built by (simp add: sightings_def)
  have "group_nodes sightings \<noteq> [] \<and> fst (hd (group_nodes sightings)) = COMPANY" by code_simp
  then have g: "(COMPANY, company_rows) \<in> set (group_nodes sightings)"
    by (metis company_rows_def hd_in_set prod.collapse)
  have s: "find_node_spec COMPANY = Inr company_spec" by code_simp
  have "company_rows \<noteq> []" by code_simp
  then have r: "hd company_rows \<in> set company_rows" by simp
  have "filter (\<lambda>p. p_name p = ''aliases'') (ns_properties company_spec) \<noteq> []" by code_simp
  then have p: "aliases_property \<in> set (ns_properties company_spec)"
    unfolding aliases_property_def by (metis filter_is_subset hd_in_set subsetD)
  have v: "map_of (hd company_rows) (p_name aliases_property) = Some (PList [])" by code_simp
  have "p_type aliases_property = STRING_LIST" by code_simp
  with planned_rows_are_typed [OF ns g s r p v] show ?thesis by simp
qed

theorem validation_is_exact_witness:
  "validate_property_map (ns_properties company_spec) [] \<noteq> Inr ()"
proof -
  have "list_ex p_required (ns_properties company_spec)" by code_simp
  then obtain p where "p \<in> set (ns_properties company_spec)" "p_required p" unfolding list_ex_iff by blast
  with validation_is_exact [of "ns_properties company_spec" "[]"] show ?thesis by auto
qed

end
