(* ===== verification/Event_Schemas.thy ===== *)
theory Event_Schemas
  imports Graph_Writer "HOL-Library.Word"
begin

text \<open>
  \<open>services/events/schemas.py\<close> and \<open>services/events/topics.py\<close>: event types and their topics, the
  record a failed message is parked as, its base64 body, the envelope and its headers, the
  chain of class names of an exception.

  A byte is an 8-bit word. The base class of the models strips the texts it is given. The text codec and the JSON codec of the envelope are not modelled; a
  header value is the text it decodes to, or nothing where it does not decode.
\<close>

section \<open>Event types\<close>

definition EVENT_SCHEMA_VERSION :: int where "EVENT_SCHEMA_VERSION = 1"
definition MIN_READABLE_SCHEMA_VERSION :: int where "MIN_READABLE_SCHEMA_VERSION = 1"
definition MAX_CHAIN_DEPTH :: nat where "MAX_CHAIN_DEPTH = 8"
definition UNBOUND_CORRELATION_ID :: string where "UNBOUND_CORRELATION_ID = ''-''"

datatype event_type = RECORD_RAW | SIGNAL_ENRICHED | GRAPH_UPDATE | DLQ_FAILED | UNKNOWN_EVENT

definition EVENT_TYPES :: "event_type list" where
  "EVENT_TYPES = [RECORD_RAW, SIGNAL_ENRICHED, GRAPH_UPDATE, DLQ_FAILED, UNKNOWN_EVENT]"

fun event_value :: "event_type \<Rightarrow> string" where
  "event_value RECORD_RAW = ''record.raw''"
| "event_value SIGNAL_ENRICHED = ''signal.enriched''"
| "event_value GRAPH_UPDATE = ''graph.update''"
| "event_value DLQ_FAILED = ''dlq.failed''"
| "event_value UNKNOWN_EVENT = ''unknown''"

text \<open>The lookup of a \<open>TolerantStrEnum\<close>: exact, then folded, then the unknown member.\<close>

definition tolerant_lookup :: "('m \<Rightarrow> string) \<Rightarrow> 'm list \<Rightarrow> 'm \<Rightarrow> string \<Rightarrow> 'm" where
  "tolerant_lookup value_of members unknown s =
     (case find (\<lambda>m. value_of m = s) members of
        Some m \<Rightarrow> m
      | None \<Rightarrow>
          (case find (\<lambda>m. py_lower (value_of m) = py_lower (py_strip s)) members of
             Some m \<Rightarrow> m | None \<Rightarrow> unknown))"

definition parse_event_type :: "string \<Rightarrow> event_type" where
  "parse_event_type = tolerant_lookup event_value EVENT_TYPES UNKNOWN_EVENT"

section \<open>Topics\<close>

datatype topic_role = RAW_RECORDS | SIGNALS | GRAPH_UPDATES | DLQ

definition TOPIC_ROLES :: "topic_role list" where
  "TOPIC_ROLES = [RAW_RECORDS, SIGNALS, GRAPH_UPDATES, DLQ]"

record topic_settings =
  topic_raw_records :: string
  topic_signals :: string
  topic_graph_updates :: string
  topic_dlq :: string
  production_like :: bool

fun topic_name :: "topic_settings \<Rightarrow> topic_role \<Rightarrow> string" where
  "topic_name s RAW_RECORDS = topic_raw_records s"
| "topic_name s SIGNALS = topic_signals s"
| "topic_name s GRAPH_UPDATES = topic_graph_updates s"
| "topic_name s DLQ = topic_dlq s"

definition role_for_topic :: "topic_settings \<Rightarrow> string \<Rightarrow> topic_role option" where
  "role_for_topic s name = find (\<lambda>r. topic_name s r = name) TOPIC_ROLES"

definition EVENT_ROLE :: "(event_type \<times> topic_role) list" where
  "EVENT_ROLE = [(RECORD_RAW, RAW_RECORDS), (SIGNAL_ENRICHED, SIGNALS), (GRAPH_UPDATE, GRAPH_UPDATES),
     (DLQ_FAILED, DLQ)]"

definition role_for_event :: "event_type \<Rightarrow> py_error + topic_role" where
  "role_for_event t = (case map_of EVENT_ROLE t of None \<Rightarrow> Inl ValueError | Some r \<Rightarrow> Inr r)"

fun DEFAULT_PARTITIONS :: "topic_role \<Rightarrow> nat" where
  "DEFAULT_PARTITIONS RAW_RECORDS = 6"
| "DEFAULT_PARTITIONS SIGNALS = 6"
| "DEFAULT_PARTITIONS GRAPH_UPDATES = 3"
| "DEFAULT_PARTITIONS DLQ = 1"

fun RETENTION_DAYS :: "topic_role \<Rightarrow> nat" where
  "RETENTION_DAYS RAW_RECORDS = 7"
| "RETENTION_DAYS SIGNALS = 7"
| "RETENTION_DAYS GRAPH_UPDATES = 3"
| "RETENTION_DAYS DLQ = 30"

record topic_spec =
  ts_role :: topic_role
  ts_name :: string
  ts_partitions :: nat
  ts_replication :: nat
  ts_retention_days :: nat

definition topic_spec_of :: "topic_settings \<Rightarrow> topic_role \<Rightarrow> topic_spec" where
  "topic_spec_of s r = \<lparr>ts_role = r, ts_name = topic_name s r, ts_partitions = DEFAULT_PARTITIONS r,
     ts_replication = (if production_like s then 3 else 1), ts_retention_days = RETENTION_DAYS r\<rparr>"

definition retention_ms :: "topic_spec \<Rightarrow> nat" where
  "retention_ms t = ts_retention_days t * 86400 * 1000"

definition broker_config :: "topic_spec \<Rightarrow> (string \<times> string) list" where
  "broker_config t = [(''retention.ms'', str_nat (retention_ms t)), (''cleanup.policy'', ''delete'')]"

definition all_topic_specs :: "topic_settings \<Rightarrow> topic_spec list" where
  "all_topic_specs s = map (topic_spec_of s) TOPIC_ROLES"

definition partition_key_for_signal :: "string \<Rightarrow> py_error + string" where
  "partition_key_for_signal s = (if s = [] then Inl ValueError else Inr s)"

section \<open>Base64\<close>

type_synonym byte = "8 word"

definition B64_ALPHABET :: string where
  "B64_ALPHABET = ''ABCDEFGHIJKLMNOPQRSTUVWXYZabcdefghijklmnopqrstuvwxyz0123456789+/''"

definition b64_char :: "nat \<Rightarrow> char" where
  "b64_char n = B64_ALPHABET ! n"

definition b64_value :: "char \<Rightarrow> nat option" where
  "b64_value c = map_of (zip B64_ALPHABET [0..<64]) c"

definition PAD :: char where "PAD = CHR ''=''"

fun b64encode :: "byte list \<Rightarrow> string" where
  "b64encode [] = []"
| "b64encode [a] = [b64_char (unat a div 4), b64_char (unat a mod 4 * 16), PAD, PAD]"
| "b64encode [a, b] =
     [b64_char (unat a div 4), b64_char (unat a mod 4 * 16 + unat b div 16),
      b64_char (unat b mod 16 * 4), PAD]"
| "b64encode (a # b # c # bs) =
     b64_char (unat a div 4) # b64_char (unat a mod 4 * 16 + unat b div 16)
       # b64_char (unat b mod 16 * 4 + unat c div 64) # b64_char (unat c mod 64) # b64encode bs"

text \<open>\<open>b64decode(..., validate=True)\<close>: a foreign character, data after the padding or an incomplete group raises.\<close>

fun b64decode :: "string \<Rightarrow> byte list option" where
  "b64decode [] = Some []"
| "b64decode (w # x # y # z # cs) =
     (case (b64_value w, b64_value x) of
        (Some i, Some j) \<Rightarrow>
          (if y = PAD then
             (if z = PAD \<and> cs = [] then Some [of_nat (i * 4 + j div 16)] else None)
           else (case b64_value y of
             None \<Rightarrow> None
           | Some k \<Rightarrow>
               if z = PAD then
                 (if cs = [] then Some [of_nat (i * 4 + j div 16), of_nat (j mod 16 * 16 + k div 4)] else None)
               else (case b64_value z of
                 None \<Rightarrow> None
               | Some l \<Rightarrow> (case b64decode cs of
                   None \<Rightarrow> None
                 | Some bs \<Rightarrow> Some (of_nat (i * 4 + j div 16) # of_nat (j mod 16 * 16 + k div 4)
                       # of_nat (k mod 4 * 64 + l) # bs)))))
      | _ \<Rightarrow> None)"
| "b64decode _ = None"

section \<open>The chain of an exception\<close>

text \<open>Exceptions are objects: a cause or a context may lead back into the chain.\<close>

record py_exception =
  ex_name :: string
  ex_cause :: "nat option"
  ex_context :: "nat option"
  ex_suppress :: bool

type_synonym exceptions = "nat \<Rightarrow> py_exception"

definition next_exception :: "py_exception \<Rightarrow> nat option" where
  "next_exception e =
     (if ex_cause e \<noteq> None then ex_cause e
      else if \<not> ex_suppress e then ex_context e
      else None)"

fun chain_from :: "exceptions \<Rightarrow> nat \<Rightarrow> nat list \<Rightarrow> nat option \<Rightarrow> string list" where
  "chain_from heap 0 seen current = []"
| "chain_from heap (Suc room) seen None = []"
| "chain_from heap (Suc room) seen (Some i) =
     (if i \<in> set seen then []
      else ex_name (heap i) # chain_from heap room (i # seen) (next_exception (heap i)))"

definition exception_chain :: "exceptions \<Rightarrow> nat \<Rightarrow> string list" where
  "exception_chain heap i = chain_from heap MAX_CHAIN_DEPTH [] (Some i)"

section \<open>The envelope\<close>

record envelope =
  en_event_id :: string
  en_event_type :: event_type
  en_schema_version :: int
  en_occurred_at :: instant
  en_correlation_id :: string
  en_tenant_id :: "string option"
  en_producer :: string
  en_payload :: pdict

definition wrap_envelope ::
  "string \<Rightarrow> instant \<Rightarrow> event_type \<Rightarrow> pdict \<Rightarrow> string \<Rightarrow> string option \<Rightarrow> string option \<Rightarrow> envelope" where
  "wrap_envelope fresh_id now t payload producer correlation tenant =
     \<lparr>en_event_id = fresh_id, en_event_type = t, en_schema_version = EVENT_SCHEMA_VERSION, en_occurred_at = now,
      en_correlation_id = (case correlation of None \<Rightarrow> UNBOUND_CORRELATION_ID
        | Some c \<Rightarrow> if c = [] then UNBOUND_CORRELATION_ID else py_strip c),
      en_tenant_id = map_option py_strip tenant, en_producer = py_strip producer, en_payload = payload\<rparr>"

definition is_readable :: "envelope \<Rightarrow> bool" where
  "is_readable e \<longleftrightarrow> MIN_READABLE_SCHEMA_VERSION \<le> en_schema_version e \<and> en_schema_version e \<le> EVENT_SCHEMA_VERSION"

text \<open>The validation of a payload class is an argument; \<open>EventDecodeError\<close> is a \<open>ValueError\<close>.\<close>

definition payload_as :: "event_type \<Rightarrow> (pdict \<Rightarrow> 'a option) \<Rightarrow> envelope \<Rightarrow> py_error + 'a" where
  "payload_as t validate e =
     (if en_event_type e \<noteq> t then Inl ValueError
      else case validate (en_payload e) of None \<Rightarrow> Inl ValueError | Some p \<Rightarrow> Inr p)"

definition to_headers :: "envelope \<Rightarrow> (string \<times> string) list" where
  "to_headers e =
     [(''os-event-id'', en_event_id e), (''os-event-type'', event_value (en_event_type e)),
      (''os-schema-version'', str_int (en_schema_version e)), (''os-correlation-id'', en_correlation_id e),
      (''os-producer'', en_producer e)]
     @ (case en_tenant_id e of None \<Rightarrow> [] | Some t \<Rightarrow> [(''os-tenant-id'', t)])"

definition header_value :: "(string \<times> string option) list \<Rightarrow> string \<Rightarrow> string option" where
  "header_value hs name = (case find (\<lambda>h. fst h = name) hs of None \<Rightarrow> None | Some h \<Rightarrow> snd h)"

section \<open>The record of a failed message\<close>

record dlq_event =
  dq_topic :: string
  dq_partition :: "int option"
  dq_offset :: "int option"
  dq_key :: "string option"
  dq_event_id :: "string option"
  dq_event_type :: event_type
  dq_group :: string
  dq_attempts :: int
  dq_error_chain :: "string list"
  dq_failed_at :: instant
  dq_body_b64 :: string

definition dlq_body :: "dlq_event \<Rightarrow> py_error + byte list" where
  "dlq_body d = (case b64decode (dq_body_b64 d) of None \<Rightarrow> Inl ValueError | Some bs \<Rightarrow> Inr bs)"

text \<open>\<open>attempts\<close> is declared \<open>ge=1\<close>, so building a record with fewer raises.\<close>

definition from_failure ::
  "string \<Rightarrow> byte list \<Rightarrow> string list \<Rightarrow> string \<Rightarrow> int \<Rightarrow> int option \<Rightarrow> int option \<Rightarrow> string option \<Rightarrow> envelope option
     \<Rightarrow> instant \<Rightarrow> py_error + dlq_event" where
  "from_failure topic body chain consumer attempts part off key env now =
     (if attempts < 1 then Inl ValueError
      else Inr \<lparr>dq_topic = py_strip topic, dq_partition = part, dq_offset = off,
        dq_key = map_option py_strip key,
        dq_event_id = map_option en_event_id env,
        dq_event_type = (case env of None \<Rightarrow> UNKNOWN_EVENT | Some e \<Rightarrow> en_event_type e),
        dq_group = py_strip consumer, dq_attempts = attempts, dq_error_chain = map py_strip chain, dq_failed_at = now,
        dq_body_b64 = b64encode body\<rparr>)"

definition opt_value :: "('a \<Rightarrow> pvalue) \<Rightarrow> 'a option \<Rightarrow> pvalue" where
  "opt_value f x = (case x of None \<Rightarrow> PNone | Some y \<Rightarrow> f y)"

text \<open>\<open>model_dump(mode='json')\<close>: the fields by name, a time as its text.\<close>

definition dump_dlq_event :: "(instant \<Rightarrow> string) \<Rightarrow> dlq_event \<Rightarrow> pdict" where
  "dump_dlq_event stamp d =
     [(''original_topic'', PStr (dq_topic d)), (''original_partition'', opt_value PInt (dq_partition d)),
      (''original_offset'', opt_value PInt (dq_offset d)), (''original_key'', opt_value PStr (dq_key d)),
      (''original_event_id'', opt_value PStr (dq_event_id d)),
      (''original_event_type'', PStr (event_value (dq_event_type d))),
      (''consumer_group'', PStr (dq_group d)), (''attempts'', PInt (dq_attempts d)),
      (''error_chain'', PList (map PStr (dq_error_chain d))), (''failed_at'', PStr (stamp (dq_failed_at d))),
      (''body_b64'', PStr (dq_body_b64 d))]"

definition dump_envelope :: "(instant \<Rightarrow> string) \<Rightarrow> envelope \<Rightarrow> pdict" where
  "dump_envelope stamp e =
     [(''event_id'', PStr (en_event_id e)), (''event_type'', PStr (event_value (en_event_type e))),
      (''schema_version'', PInt (en_schema_version e)), (''occurred_at'', PStr (stamp (en_occurred_at e))),
      (''correlation_id'', PStr (en_correlation_id e)), (''tenant_id'', opt_value PStr (en_tenant_id e)),
      (''producer'', PStr (en_producer e)), (''payload'', PMap (en_payload e))]"

end
