(* ===== verification/Dead_Letters.thy ===== *)
theory Dead_Letters
  imports Event_Schemas "HOL-Library.Sublist"
begin

text \<open>
  \<open>workers/dlq.py\<close>: what an operator sees of the dead letters and what a replay does. The
  reader of the queue and the producer answer through arguments.
\<close>

section \<open>Classes of failures\<close>

definition MAX_REPLAY_ATTEMPTS :: int where "MAX_REPLAY_ATTEMPTS = 3"
definition REPLAY_COUNT_HEADER :: string where "REPLAY_COUNT_HEADER = ''x-omnisense-replay-count''"
definition DEFAULT_INSPECT_LIMIT :: nat where "DEFAULT_INSPECT_LIMIT = 100"

datatype failure_class = DEPENDENCY | VALIDATION | POISON | TIMEOUT | UNKNOWN_FAILURE

definition FAILURE_CLASSES :: "failure_class list" where
  "FAILURE_CLASSES = [DEPENDENCY, VALIDATION, POISON, TIMEOUT, UNKNOWN_FAILURE]"

definition class_replayable :: "failure_class \<Rightarrow> bool" where
  "class_replayable c \<longleftrightarrow> c = DEPENDENCY \<or> c = TIMEOUT"

definition DEPENDENCY_MARKERS :: "string list" where
  "DEPENDENCY_MARKERS = [''connection'', ''unavailable'', ''refused'', ''unreachable'', ''no route'',
     ''temporarily'', ''serviceunavailable'', ''operationalerror'']"

definition VALIDATION_MARKERS :: "string list" where
  "VALIDATION_MARKERS = [''validationerror'', ''validation error'', ''field required'', ''extra inputs'',
     ''unable to parse'', ''invalid'']"

definition TIMEOUT_MARKERS :: "string list" where
  "TIMEOUT_MARKERS = [''timeout'', ''timed out'', ''deadline'']"

definition text_or_empty :: "string option \<Rightarrow> string" where
  "text_or_empty s = (case s of None \<Rightarrow> [] | Some t \<Rightarrow> t)"

definition mentions :: "string list \<Rightarrow> string \<Rightarrow> bool" where
  "mentions markers s \<longleftrightarrow> list_ex (\<lambda>m. sublist m s) markers"

definition classify_failure :: "string option \<Rightarrow> string option \<Rightarrow> failure_class" where
  "classify_failure error_type error_message =
     (let haystack = py_lower (text_or_empty error_type @ '' '' @ text_or_empty error_message) in
      if py_strip haystack = [] then UNKNOWN_FAILURE
      else if mentions DEPENDENCY_MARKERS haystack then DEPENDENCY
      else if mentions VALIDATION_MARKERS haystack then VALIDATION
      else if mentions TIMEOUT_MARKERS haystack then TIMEOUT
      else POISON)"

section \<open>Entries\<close>

record dlq_entry =
  de_message :: string
  de_topic :: string
  de_correlation :: "string option"
  de_error_type :: "string option"
  de_error_message :: "string option"
  de_failed_at :: instant
  de_attempts :: int
  de_replays :: int
  de_payload :: pdict

definition failure_class_of :: "dlq_entry \<Rightarrow> failure_class" where
  "failure_class_of e = classify_failure (de_error_type e) (de_error_message e)"

definition is_replayable :: "dlq_entry \<Rightarrow> bool" where
  "is_replayable e \<longleftrightarrow> class_replayable (failure_class_of e) \<and> de_replays e < MAX_REPLAY_ATTEMPTS"

datatype refusal = Replayed_Out int | Fails_Identically failure_class

definition refusal_reason :: "dlq_entry \<Rightarrow> refusal option" where
  "refusal_reason e =
     (if de_replays e \<ge> MAX_REPLAY_ATTEMPTS then Some (Replayed_Out (de_replays e))
      else if \<not> class_replayable (failure_class_of e) then Some (Fails_Identically (failure_class_of e))
      else None)"

section \<open>Reading a record\<close>

definition truthy :: "pvalue \<Rightarrow> bool" where
  "truthy v = (case v of PNone \<Rightarrow> False | PStr s \<Rightarrow> s \<noteq> [] | PBool b \<Rightarrow> b | PInt n \<Rightarrow> n \<noteq> 0 | PFloat x \<Rightarrow> x \<noteq> 0
     | PTime _ \<Rightarrow> True | PList xs \<Rightarrow> xs \<noteq> [] | PTuple xs \<Rightarrow> xs \<noteq> [] | PMap d \<Rightarrow> d \<noteq> [])"

definition get_value :: "pdict \<Rightarrow> string \<Rightarrow> pvalue" where
  "get_value d k = (case map_of d k of None \<Rightarrow> PNone | Some v \<Rightarrow> v)"

definition get_either :: "pdict \<Rightarrow> string \<Rightarrow> string \<Rightarrow> pvalue" where
  "get_either d k l = (if truthy (get_value d k) then get_value d k else get_value d l)"

definition str_or_none :: "pvalue \<Rightarrow> string option" where
  "str_or_none v = (case v of PStr s \<Rightarrow> if s = [] then None else Some s | _ \<Rightarrow> None)"

definition int_or :: "pvalue \<Rightarrow> int \<Rightarrow> int" where
  "int_or v d = (case v of PInt n \<Rightarrow> n | _ \<Rightarrow> d)"

definition time_or :: "pvalue \<Rightarrow> instant \<Rightarrow> instant" where
  "time_or v d = (case v of PTime t \<Rightarrow> t | _ \<Rightarrow> d)"

definition map_or_empty :: "pvalue \<Rightarrow> pdict" where
  "map_or_empty v = (case v of PMap d \<Rightarrow> d | _ \<Rightarrow> [])"

definition entry_from :: "instant \<Rightarrow> pdict \<Rightarrow> dlq_entry option" where
  "entry_from now d =
     (case (get_either d ''message_id'' ''id'', get_either d ''original_topic'' ''topic'') of
        (PStr m, PStr t) \<Rightarrow> Some \<lparr>de_message = m, de_topic = t,
          de_correlation = str_or_none (get_value d ''correlation_id''),
          de_error_type = str_or_none (get_value d ''error_type''),
          de_error_message = str_or_none (get_value d ''error_message''),
          de_failed_at = time_or (get_value d ''failed_at'') now,
          de_attempts = int_or (get_value d ''attempts'') 0,
          de_replays = int_or (get_value d ''replay_count'') 0,
          de_payload = map_or_empty (get_value d ''payload'')\<rparr>
      | _ \<Rightarrow> None)"

section \<open>Inspecting\<close>

text \<open>\<open>sorted(..., reverse=True)\<close> keeps the order of equal keys.\<close>

definition newest_first :: "dlq_entry list \<Rightarrow> dlq_entry list" where
  "newest_first es = sort_key (\<lambda>e. - de_failed_at e) es"

definition recent :: "instant \<Rightarrow> nat \<Rightarrow> failure_class option \<Rightarrow> pdict list \<Rightarrow> dlq_entry list" where
  "recent now limit wanted raw =
     (let entries = List.map_filter (entry_from now) raw;
          kept = (case wanted of None \<Rightarrow> entries | Some c \<Rightarrow> filter (\<lambda>e. failure_class_of e = c) entries) in
      take limit (newest_first kept))"

record dlq_summary =
  sm_counts :: "failure_class \<Rightarrow> nat"
  sm_total :: nat
  sm_replayable :: nat

definition summarize :: "instant \<Rightarrow> pdict list \<Rightarrow> dlq_summary" where
  "summarize now raw =
     (let entries = recent now 1000 None raw in
      \<lparr>sm_counts = (\<lambda>c. length (filter (\<lambda>e. failure_class_of e = c) entries)), sm_total = length entries,
       sm_replayable = length (filter is_replayable entries)\<rparr>)"

section \<open>Replaying\<close>

record replay_publish =
  rp_topic :: string
  rp_payload :: pdict
  rp_correlation :: "string option"
  rp_headers :: "(string \<times> string) list"

definition publish_of :: "dlq_entry \<Rightarrow> replay_publish" where
  "publish_of e = \<lparr>rp_topic = de_topic e, rp_payload = de_payload e, rp_correlation = de_correlation e,
     rp_headers = [(REPLAY_COUNT_HEADER, str_int (de_replays e + 1))]\<rparr>"

record replay_outcome =
  considered :: nat
  replayed :: nat
  refused :: nat
  failed :: nat
  refusals :: "(string \<times> refusal) list"

record replay_state =
  outcome :: replay_outcome
  attempted :: "replay_publish list"

text \<open>\<open>sends p\<close>: the producer takes the publish \<open>p\<close>.\<close>

definition replay_entry ::
  "bool \<Rightarrow> (replay_publish \<Rightarrow> bool) \<Rightarrow> replay_state \<Rightarrow> dlq_entry \<Rightarrow> replay_state" where
  "replay_entry dry_run sends s e =
     (let o1 = (outcome s)\<lparr>considered := considered (outcome s) + 1\<rparr> in
      case refusal_reason e of
        Some r \<Rightarrow> s\<lparr>outcome := o1\<lparr>refused := refused o1 + 1, refusals := refusals o1 @ [(de_message e, r)]\<rparr>\<rparr>
      | None \<Rightarrow>
          if dry_run then s\<lparr>outcome := o1\<lparr>replayed := replayed o1 + 1\<rparr>\<rparr>
          else
            let s1 = s\<lparr>attempted := attempted s @ [publish_of e]\<rparr> in
            if sends (publish_of e) then s1\<lparr>outcome := o1\<lparr>replayed := replayed o1 + 1\<rparr>\<rparr>
            else s1\<lparr>outcome := o1\<lparr>failed := failed o1 + 1\<rparr>\<rparr>)"

definition no_replays :: replay_state where
  "no_replays = \<lparr>outcome = \<lparr>considered = 0, replayed = 0, refused = 0, failed = 0, refusals = []\<rparr>, attempted = []\<rparr>"

definition replay :: "bool \<Rightarrow> (replay_publish \<Rightarrow> bool) \<Rightarrow> dlq_entry list \<Rightarrow> replay_state" where
  "replay dry_run sends es =
     (let s = foldl (replay_entry dry_run sends) no_replays es in
      s\<lparr>outcome := (outcome s)\<lparr>refusals := take 50 (refusals (outcome s))\<rparr>\<rparr>)"

definition had_effect :: "replay_outcome \<Rightarrow> bool" where
  "had_effect r \<longleftrightarrow> replayed r > 0"

definition dlq_topic_role :: topic_role where
  "dlq_topic_role = DLQ"

end
