(* ===== verification/Event_Laws.thy ===== *)
theory Event_Laws
  imports Dead_Letters
begin

text \<open>
  Laws of the event records and of the dead letters: a parked body is recovered byte for byte,
  topics and event types are routed without collision, the chain of an exception is finite, a
  replay accounts for every entry and never passes its cap, and no record the consumer parks can
  be read by the inspector.
\<close>

section \<open>Base64\<close>

lemma b64_chars: "list_all (\<lambda>n. b64_value (b64_char n) = Some n \<and> b64_char n \<noteq> PAD) [0..<64]"
  by code_simp

lemma b64_value_char:
  assumes "n < 64"
  shows "b64_value (b64_char n) = Some n" "b64_char n \<noteq> PAD"
  using b64_chars assms by (simp_all add: list_all_iff)

lemma byte_bound: "unat (a :: byte) < 256"
  using unsigned_less [where ?'a = nat, of a] by simp

lemma sextet_bounds:
  fixes a b c :: byte
  shows "unat a div 4 < 64" "unat a mod 4 * 16 + unat b div 16 < 64" "unat b mod 16 * 4 + unat c div 64 < 64"
    "unat c mod 64 < 64" "unat a mod 4 * 16 < 64" "unat b mod 16 * 4 < 64"
  using byte_bound [of a] byte_bound [of b] byte_bound [of c] by linarith+

lemma join_bytes:
  fixes a b c :: byte
  shows "unat a div 4 * 4 + (unat a mod 4 * 16 + unat b div 16) div 16 = unat a"
    "(unat a mod 4 * 16 + unat b div 16) mod 16 * 16 + (unat b mod 16 * 4 + unat c div 64) div 4 = unat b"
    "(unat b mod 16 * 4 + unat c div 64) mod 4 * 64 + unat c mod 64 = unat c"
    "unat a div 4 * 4 + unat a mod 4 * 16 div 16 = unat a"
    "(unat a mod 4 * 16 + unat b div 16) mod 16 * 16 + unat b mod 16 * 4 div 4 = unat b"
proof -
  have m: "unat a div 4 * 4 + unat a mod 4 = unat a" "unat b div 16 * 16 + unat b mod 16 = unat b"
    "unat c div 64 * 64 + unat c mod 64 = unat c" by simp_all
  have s: "unat b div 16 < 16" "unat c div 64 < 4"
    using byte_bound [of b] byte_bound [of c] by linarith+
  have "(unat a mod 4 * 16 + unat b div 16) div 16 = unat a mod 4"
    "(unat a mod 4 * 16 + unat b div 16) mod 16 = unat b div 16" using s(1) by simp_all
  moreover have "(unat b mod 16 * 4 + unat c div 64) div 4 = unat b mod 16"
    "(unat b mod 16 * 4 + unat c div 64) mod 4 = unat c div 64" using s(2) by simp_all
  ultimately show "unat a div 4 * 4 + (unat a mod 4 * 16 + unat b div 16) div 16 = unat a"
    "(unat a mod 4 * 16 + unat b div 16) mod 16 * 16 + (unat b mod 16 * 4 + unat c div 64) div 4 = unat b"
    "(unat b mod 16 * 4 + unat c div 64) mod 4 * 64 + unat c mod 64 = unat c"
    "unat a div 4 * 4 + unat a mod 4 * 16 div 16 = unat a"
    "(unat a mod 4 * 16 + unat b div 16) mod 16 * 16 + unat b mod 16 * 4 div 4 = unat b"
    using m by simp_all
qed

lemma b64_round_trip: "b64decode (b64encode bs) = Some bs"
proof (induction bs rule: b64encode.induct)
  case 1
  show ?case by simp
next
  case (2 a)
  show ?case by (simp add: b64_value_char sextet_bounds join_bytes del: of_nat_add of_nat_mult)
next
  case (3 a b)
  note j = join_bytes(1) [of a b] join_bytes(5) [of a b]
  have "b64decode (b64encode [a, b]) =
      Some [of_nat (unat a div 4 * 4 + (unat a mod 4 * 16 + unat b div 16) div 16),
        of_nat ((unat a mod 4 * 16 + unat b div 16) mod 16 * 16 + unat b mod 16 * 4 div 4)]"
    by (simp only: b64encode.simps b64decode.simps)
      (simp add: b64_value_char sextet_bounds del: of_nat_add of_nat_mult)
  then show ?case unfolding j by simp
next
  case (4 a b c bs)
  note j = join_bytes(1) [of a b] join_bytes(2) [of a b c] join_bytes(3) [of b c]
  have "b64decode (b64encode (a # b # c # bs)) =
      Some (of_nat (unat a div 4 * 4 + (unat a mod 4 * 16 + unat b div 16) div 16)
        # of_nat ((unat a mod 4 * 16 + unat b div 16) mod 16 * 16 + (unat b mod 16 * 4 + unat c div 64) div 4)
        # of_nat ((unat b mod 16 * 4 + unat c div 64) mod 4 * 64 + unat c mod 64) # bs)"
    by (simp only: b64encode.simps b64decode.simps 4)
      (simp add: b64_value_char sextet_bounds del: of_nat_add of_nat_mult)
  then show ?case unfolding j by simp
qed

lemma b64_length: "length (b64encode bs) = (length bs + 2) div 3 * 4"
proof (induction bs rule: b64encode.induct)
  case (4 a b c bs)
  have "(length (a # b # c # bs) + 2) div 3 = Suc ((length bs + 2) div 3)" by simp
  with 4 show ?case by simp
qed simp_all

text \<open>
  C36. The bytes of a failed message survive parking: whatever they are, the record built from
  them gives back exactly these bytes, in a text a third longer, rounded up to groups of four.
\<close>

theorem parked_body_survives:
  assumes "from_failure topic body chain consumer attempts part off key env now = Inr d"
  shows "dlq_body d = Inr body \<and> length (dq_body_b64 d) = (length body + 2) div 3 * 4 \<and>
    list_all (\<lambda>c. c = PAD \<or> c \<in> set B64_ALPHABET) (dq_body_b64 d)"
proof -
  from assms have d: "dq_body_b64 d = b64encode body" by (auto simp: from_failure_def split: if_splits)
  have "b64_char n \<in> set B64_ALPHABET" if "n < 64" for n
    using that unfolding b64_char_def by (intro nth_mem) (simp add: B64_ALPHABET_def)
  then have "list_all (\<lambda>c. c = PAD \<or> c \<in> set B64_ALPHABET) (b64encode body)"
    by (induction body rule: b64encode.induct) (simp_all add: sextet_bounds)
  with d show ?thesis by (simp add: dlq_body_def b64_round_trip b64_length)
qed

section \<open>Topics\<close>

lemma role_of_name:
  assumes "distinct (map (topic_name s) TOPIC_ROLES)"
  shows "role_for_topic s (topic_name s r) = Some r"
  using assms by (cases r) (auto simp: role_for_topic_def TOPIC_ROLES_def)

text \<open>
  Where the four topics of a deployment have different names, the topic an event is published
  to determines its role, every event type but the unknown one has its own topic, and every
  topic this deployment owns is provisioned.
\<close>

theorem routing_is_injective:
  assumes "distinct (map (topic_name s) TOPIC_ROLES)"
    and "role_for_event t = Inr r" and "role_for_event u = Inr q"
  shows "role_for_topic s (topic_name s r) = Some r \<and> (topic_name s r = topic_name s q \<longleftrightarrow> t = u) \<and>
    topic_name s r \<in> ts_name ` set (all_topic_specs s)"
proof -
  have "topic_name s r = topic_name s q \<longleftrightarrow> r = q" using role_of_name [OF assms(1)] by (metis option.inject)
  moreover have "r = q \<longleftrightarrow> t = u" using assms(2,3)
    by (cases t; cases u) (auto simp: role_for_event_def EVENT_ROLE_def)
  moreover have "r \<in> set TOPIC_ROLES" by (cases r) (simp_all add: TOPIC_ROLES_def)
  ultimately show ?thesis using role_of_name [OF assms(1)]
    by (force simp: all_topic_specs_def topic_spec_of_def)
qed

lemma event_values_distinct: "distinct (map event_value EVENT_TYPES)"
  by code_simp

lemma parse_event_value: "parse_event_type (event_value t) = t"
proof -
  have "list_all (\<lambda>t. parse_event_type (event_value t) = t) EVENT_TYPES" by code_simp
  moreover have "t \<in> set EVENT_TYPES" by (cases t) (simp_all add: EVENT_TYPES_def)
  ultimately show ?thesis by (simp only: list_all_iff)
qed

section \<open>Exceptions\<close>

fun linked :: "exceptions \<Rightarrow> nat list \<Rightarrow> bool" where
  "linked heap (i # j # is) \<longleftrightarrow> next_exception (heap i) = Some j \<and> linked heap (j # is)"
| "linked heap _ \<longleftrightarrow> True"

lemma chain_from_ids:
  "\<exists>ids. chain_from heap room seen current = map (ex_name \<circ> heap) ids \<and> distinct ids \<and>
     set ids \<inter> set seen = {} \<and> length ids \<le> room \<and> linked heap ids \<and>
     (\<forall>i. current = Some i \<and> i \<notin> set seen \<and> 0 < room \<longrightarrow> ids \<noteq> [] \<and> hd ids = i) \<and>
     (current = None \<longrightarrow> ids = []) \<and> (\<forall>i js. ids = i # js \<longrightarrow> current = Some i)"
proof (induction room arbitrary: seen current)
  case 0
  show ?case by (rule exI [of _ "[]"]) simp
next
  case (Suc room)
  show ?case
  proof (cases "\<exists>i. current = Some i \<and> i \<notin> set seen")
    case False
    then have "chain_from heap (Suc room) seen current = []" by (cases current) auto
    with False show ?thesis by (intro exI [of _ "[]"]) auto
  next
    case True
    then obtain i where i: "current = Some i" "i \<notin> set seen" by blast
    from Suc.IH [of "i # seen" "next_exception (heap i)"] obtain ids where
      ids: "chain_from heap room (i # seen) (next_exception (heap i)) = map (ex_name \<circ> heap) ids" "distinct ids"
        "set ids \<inter> set (i # seen) = {}" "length ids \<le> room" "linked heap ids"
        "\<forall>j js. ids = j # js \<longrightarrow> next_exception (heap i) = Some j" by blast
    then have "linked heap (i # ids)" by (cases ids) auto
    with i ids show ?thesis by (intro exI [of _ "i # ids"]) auto
  qed
qed

text \<open>
  The chain of an exception is finite however its causes and contexts are knotted: it is the names
  of at most eight different exceptions, the first the one given, each the cause or context of
  the one before.
\<close>

theorem exception_chain_is_finite:
  "\<exists>ids. exception_chain heap i = map (ex_name \<circ> heap) (i # ids) \<and> distinct (i # ids) \<and>
     length (i # ids) \<le> 8 \<and> linked heap (i # ids)"
proof -
  from chain_from_ids [of heap MAX_CHAIN_DEPTH "[]" "Some i"] obtain ids where
    ids: "chain_from heap MAX_CHAIN_DEPTH [] (Some i) = map (ex_name \<circ> heap) ids" "distinct ids"
      "length ids \<le> MAX_CHAIN_DEPTH" "linked heap ids" "ids \<noteq> []" "hd ids = i"
    by (auto simp: MAX_CHAIN_DEPTH_def)
  then obtain js where "ids = i # js" by (cases ids) auto
  with ids show ?thesis by (intro exI [of _ js]) (simp add: exception_chain_def MAX_CHAIN_DEPTH_def)
qed

section \<open>Replays\<close>

lemma refusal_iff: "refusal_reason e = None \<longleftrightarrow> is_replayable e"
  by (auto simp: refusal_reason_def is_replayable_def)

definition replay_inv :: "bool \<Rightarrow> (replay_publish \<Rightarrow> bool) \<Rightarrow> dlq_entry list \<Rightarrow> replay_state \<Rightarrow> bool" where
  "replay_inv dry_run sends es s \<longleftrightarrow>
     considered (outcome s) = length es \<and>
     refused (outcome s) = length (filter (\<lambda>e. \<not> is_replayable e) es) \<and>
     replayed (outcome s) = length (filter (\<lambda>e. is_replayable e \<and> (dry_run \<or> sends (publish_of e))) es) \<and>
     failed (outcome s) = length (filter (\<lambda>e. is_replayable e \<and> \<not> dry_run \<and> \<not> sends (publish_of e)) es) \<and>
     attempted s = (if dry_run then [] else map publish_of (filter is_replayable es)) \<and>
     map fst (refusals (outcome s)) = map de_message (filter (\<lambda>e. \<not> is_replayable e) es)"

lemma replay_inv_step:
  "replay_inv dry_run sends es s \<Longrightarrow> replay_inv dry_run sends (es @ [e]) (replay_entry dry_run sends s e)"
  using refusal_iff [of e]
  by (cases "refusal_reason e") (auto simp: replay_inv_def replay_entry_def Let_def)

lemma replay_inv_fold: "replay_inv dry_run sends es (foldl (replay_entry dry_run sends) no_replays es)"
proof (induction es rule: rev_induct)
  case Nil
  show ?case by (simp add: replay_inv_def no_replays_def)
next
  case (snoc e es)
  from replay_inv_step [OF this] show ?case by simp
qed

lemma filter_split: "length (filter P xs) = length (filter (\<lambda>x. P x \<and> Q x) xs) + length (filter (\<lambda>x. P x \<and> \<not> Q x) xs)"
  by (induction xs) auto

text \<open>
  A replay accounts for every entry: considered are all, each is replayed, refused or failed;
  the producer is asked exactly for the replayable entries, in order, with their own topic,
  payload and correlation id and a replay count one higher; a dry run asks for nothing.
\<close>

theorem replay_accounts_for_all:
  "let r = replay dry_run sends es in
   considered (outcome r) = length es \<and>
   considered (outcome r) = replayed (outcome r) + refused (outcome r) + failed (outcome r) \<and>
   attempted r = (if dry_run then [] else map publish_of (filter is_replayable es)) \<and>
   map fst (refusals (outcome r)) = take 50 (map de_message (filter (\<lambda>e. \<not> is_replayable e) es)) \<and>
   (\<forall>p \<in> set (attempted r). \<exists>e \<in> set es. p = publish_of e \<and> de_replays e < MAX_REPLAY_ATTEMPTS \<and>
      class_replayable (failure_class_of e))"
proof -
  let ?s = "foldl (replay_entry dry_run sends) no_replays es"
  have inv: "replay_inv dry_run sends es ?s" by (rule replay_inv_fold)
  have "length es = length (filter is_replayable es) + length (filter (\<lambda>e. \<not> is_replayable e) es)"
    by (simp add: sum_length_filter_compl)
  moreover have "length (filter is_replayable es) =
      length (filter (\<lambda>e. is_replayable e \<and> (dry_run \<or> sends (publish_of e))) es) +
      length (filter (\<lambda>e. is_replayable e \<and> \<not> dry_run \<and> \<not> sends (publish_of e)) es)"
    using filter_split [of is_replayable es "\<lambda>e. dry_run \<or> sends (publish_of e)"] by simp
  ultimately show ?thesis using inv
    by (auto simp: replay_inv_def replay_def Let_def is_replayable_def simp flip: take_map split: if_splits)
qed

section \<open>The summary\<close>

lemma count_by_class:
  "(\<Sum>c \<leftarrow> FAILURE_CLASSES. length (filter (\<lambda>e. failure_class_of e = c) es)) = length es"
proof (induction es)
  case Nil
  show ?case by (simp add: FAILURE_CLASSES_def)
next
  case (Cons e es)
  then show ?case by (cases "failure_class_of e") (simp_all add: FAILURE_CLASSES_def)
qed

text \<open>
  The inspector lists at most as many entries as asked for, newest first, all from readable
  records of the wanted class; in a summary the counts of the classes add up to the total, and only the
  dependency failures and the timeouts are counted as replayable.
\<close>

theorem inspection_is_consistent:
  "length (recent now limit wanted raw) \<le> limit \<and>
   sorted (map (\<lambda>e. - de_failed_at e) (recent now limit wanted raw)) \<and>
   (\<forall>e \<in> set (recent now limit wanted raw). (\<exists>d \<in> set raw. entry_from now d = Some e) \<and>
      (\<forall>c. wanted = Some c \<longrightarrow> failure_class_of e = c)) \<and>
   (\<Sum>c \<leftarrow> FAILURE_CLASSES. sm_counts (summarize now raw) c) = sm_total (summarize now raw) \<and>
   sm_replayable (summarize now raw) \<le> sm_counts (summarize now raw) DEPENDENCY + sm_counts (summarize now raw) TIMEOUT"
proof -
  have "length (filter is_replayable es) \<le> length (filter (\<lambda>e. failure_class_of e = DEPENDENCY) es) +
      length (filter (\<lambda>e. failure_class_of e = TIMEOUT) es)" for es
    by (induction es) (auto simp: is_replayable_def class_replayable_def)
  then have "sm_replayable (summarize now raw) \<le> sm_counts (summarize now raw) DEPENDENCY + sm_counts (summarize now raw) TIMEOUT"
    by (simp add: summarize_def Let_def)
  moreover have "sorted (map (\<lambda>e. - de_failed_at e) (recent now limit wanted raw))"
    by (simp add: recent_def Let_def newest_first_def sorted_wrt_take flip: take_map)
  moreover have "length (recent now limit wanted raw) \<le> limit" by (simp add: recent_def Let_def)
  moreover have "(\<Sum>c \<leftarrow> FAILURE_CLASSES. sm_counts (summarize now raw) c) = sm_total (summarize now raw)"
    using count_by_class by (simp add: summarize_def Let_def)
  moreover have "\<forall>e \<in> set (recent now limit wanted raw). (\<exists>d \<in> set raw. entry_from now d = Some e) \<and>
      (\<forall>c. wanted = Some c \<longrightarrow> failure_class_of e = c)"
    by (auto simp: recent_def newest_first_def Let_def List.map_filter_def split: option.splits dest!: in_set_takeD)
      (metis option.sel)+
  ultimately show ?thesis by blast
qed

section \<open>Records the inspector cannot read\<close>

text \<open>
  No record that the consumer parks is readable for the tools of the dead-letter queue:
  neither the event nor its envelope has a field named \<open>message_id\<close> or \<open>id\<close>, so \<open>_entry_from\<close>
  gives nothing, the list of recent entries is empty and a replay of it does nothing.
\<close>

theorem parked_records_are_unreadable:
  "entry_from now (dump_dlq_event stamp d) = None \<and> entry_from now (dump_envelope stamp e) = None \<and>
   recent now limit wanted (map (dump_dlq_event stamp) ds @ map (dump_envelope stamp) envs) = []"
proof -
  have d: "entry_from now (dump_dlq_event stamp d) = None" for d
    by (simp add: entry_from_def dump_dlq_event_def get_either_def get_value_def truthy_def)
  moreover have e: "entry_from now (dump_envelope stamp e) = None" for e
    by (simp add: entry_from_def dump_envelope_def get_either_def get_value_def truthy_def)
  moreover have "List.map_filter (entry_from now) (map (dump_dlq_event stamp) ds @ map (dump_envelope stamp) envs) = []"
    by (simp add: List.map_filter_def d e comp_def)
  ultimately show ?thesis by (simp add: recent_def newest_first_def Let_def split: option.splits)
qed

text \<open>
  A replay count travels in a header, but an entry reads its count from the record: the count of
  a message that fails again starts from nothing and the cap is never reached.
\<close>

theorem replay_count_is_not_read_back:
  "map_of d ''replay_count'' = None \<Longrightarrow> entry_from now d = Some e \<Longrightarrow> de_replays e = 0"
  by (auto simp: entry_from_def get_value_def int_or_def split: pvalue.splits)

section \<open>Instances\<close>

text \<open>Evaluated records, topics and replays.\<close>

definition broken_body :: "byte list" where
  "broken_body = [0, 255, 16, 61]"

definition parked :: "py_error + dlq_event" where
  "parked = from_failure ''raw'' broken_body [''ValueError''] ''workers'' 3 (Some 0) (Some 17) None None 5"

theorem parked_body_survives_witness:
  "\<exists>d. parked = Inr d \<and> dlq_body d = Inr [0, 255, 16, 61] \<and> length (dq_body_b64 d) = 8"
proof -
  obtain d where d: "parked = Inr d" by (simp add: parked_def from_failure_def)
  then have "from_failure ''raw'' broken_body [''ValueError''] ''workers'' 3 (Some 0) (Some 17) None None 5 = Inr d"
    by (simp add: parked_def)
  from parked_body_survives [OF this] d show ?thesis by (intro exI [of _ d]) (simp add: broken_body_def)
qed

definition local_topics :: topic_settings where
  "local_topics = \<lparr>topic_raw_records = ''omnisense.records.raw'', topic_signals = ''omnisense.signals.enriched'',
     topic_graph_updates = ''omnisense.graph.updates'', topic_dlq = ''omnisense.dlq'', production_like = False\<rparr>"

theorem routing_is_injective_witness:
  "role_for_topic local_topics (topic_name local_topics SIGNALS) = Some SIGNALS \<and>
   topic_name local_topics SIGNALS \<noteq> topic_name local_topics DLQ"
proof -
  have d: "distinct (map (topic_name local_topics) TOPIC_ROLES)" by code_simp
  have r: "role_for_event SIGNAL_ENRICHED = Inr SIGNALS" "role_for_event DLQ_FAILED = Inr DLQ"
    by (simp_all add: role_for_event_def EVENT_ROLE_def)
  from routing_is_injective [OF d r] show ?thesis by simp
qed

definition letter :: "string \<Rightarrow> string \<Rightarrow> int \<Rightarrow> dlq_entry" where
  "letter i err n = \<lparr>de_message = i, de_topic = ''t'', de_correlation = None, de_error_type = Some err,
     de_error_message = None, de_failed_at = 1, de_attempts = 3, de_replays = n, de_payload = []\<rparr>"

definition letters :: "dlq_entry list" where
  "letters = [letter ''a'' ''ConnectionError'' 0, letter ''b'' ''KeyError'' 0, letter ''c'' ''TimeoutError'' 3,
     letter ''d'' ''TimeoutError'' 2]"

theorem replay_accounts_for_all_witness:
  "map rp_headers (attempted (replay False (\<lambda>_. True) letters)) =
     [[(''x-omnisense-replay-count'', ''1'')], [(''x-omnisense-replay-count'', ''3'')]]"
proof -
  have "map rp_headers (map publish_of (filter is_replayable letters)) =
     [[(''x-omnisense-replay-count'', ''1'')], [(''x-omnisense-replay-count'', ''3'')]]" by code_simp
  with replay_accounts_for_all [of False "\<lambda>_. True" letters] show ?thesis by (simp add: Let_def)
qed

definition stored_letter :: "string \<Rightarrow> instant \<Rightarrow> pdict" where
  "stored_letter i t = [(''message_id'', PStr i), (''topic'', PStr ''t''), (''failed_at'', PTime t),
     (''error_type'', PStr ''TimeoutError'')]"

theorem inspection_is_consistent_witness:
  "\<forall>e \<in> set (recent 9 2 None [stored_letter ''a'' 1, [], stored_letter ''b'' 2]). de_topic e = ''t''"
proof
  fix e assume e: "e \<in> set (recent 9 2 None [stored_letter ''a'' 1, [], stored_letter ''b'' 2])"
  from inspection_is_consistent [of 9 2 None "[stored_letter ''a'' 1, [], stored_letter ''b'' 2]"]
  have "\<forall>e \<in> set (recent 9 2 None [stored_letter ''a'' 1, [], stored_letter ''b'' 2]).
      \<exists>d \<in> set [stored_letter ''a'' 1, [], stored_letter ''b'' 2]. entry_from 9 d = Some e" by blast
  with e obtain d where "d \<in> set [stored_letter ''a'' 1, [], stored_letter ''b'' 2]" "entry_from 9 d = Some e" by blast
  then show "de_topic e = ''t''"
    by (auto simp: stored_letter_def entry_from_def get_either_def get_value_def truthy_def)
qed

end
