(* ===== verification/Scheduler.thy ===== *)
theory Scheduler
  imports Graph_Schema
begin

text \<open>
  \<open>workers/scheduler.py\<close>: when a connector next runs, the claim of what is due, a tick.

  The class of the table's rows is imported inside the methods, from \<open>models/orm/signal.py\<close>. That module
  does not define it, so every claim raises: \<open>row_class_defined\<close> is false. What the methods mean to do is
  modelled with the class present, over the columns the statements name; no class of the repository
  stands behind \<open>schedule_row\<close>.

  A moment is a rational number of seconds. The table of schedules is a list of rows; the rows
  another replica holds locked are an argument of a claim, as are the jitters drawn and the
  answers of the dispatcher. The order of rows that are due at the same moment is the
  database's: the order of the list.
\<close>

definition DEFAULT_TICK_SECONDS :: pyfloat where "DEFAULT_TICK_SECONDS = 30"
definition MAX_BACKOFF_SECONDS :: pyfloat where "MAX_BACKOFF_SECONDS = 6 * 60 * 60"
definition JITTER_FRACTION :: pyfloat where "JITTER_FRACTION = 1 / 10"
definition MAX_DISPATCH_PER_TICK :: nat where "MAX_DISPATCH_PER_TICK = 10"

section \<open>The next run\<close>

definition backed_off :: "pyfloat \<Rightarrow> int \<Rightarrow> pyfloat" where
  "backed_off interval failures =
     (if failures > 0 then min (interval * 2 ^ nat (min failures 16)) MAX_BACKOFF_SECONDS else interval)"

definition next_run_at :: "pyfloat \<Rightarrow> int \<Rightarrow> pyfloat \<Rightarrow> pyfloat \<Rightarrow> py_error + pyfloat" where
  "next_run_at interval failures now jitter =
     (if interval \<le> 0 then Inl ValueError
      else Inr (now + max 1 (backed_off interval failures * (1 + jitter))))"

section \<open>The decision\<close>

datatype schedule_reason = Disabled | In_Flight | Never_Run | Not_Due pyfloat | Due

record schedule_decision =
  sd_slug :: string
  sd_should_run :: bool
  sd_reason :: schedule_reason
  sd_next :: "pyfloat option"

definition decide :: "string \<Rightarrow> bool \<Rightarrow> pyfloat option \<Rightarrow> bool \<Rightarrow> pyfloat \<Rightarrow> schedule_decision" where
  "decide slug enabled next_due running moment =
     (if \<not> enabled then \<lparr>sd_slug = slug, sd_should_run = False, sd_reason = Disabled, sd_next = None\<rparr>
      else if running then \<lparr>sd_slug = slug, sd_should_run = False, sd_reason = In_Flight, sd_next = None\<rparr>
      else case next_due of
        None \<Rightarrow> \<lparr>sd_slug = slug, sd_should_run = True, sd_reason = Never_Run, sd_next = Some moment\<rparr>
      | Some d \<Rightarrow>
          if d > moment then \<lparr>sd_slug = slug, sd_should_run = False, sd_reason = Not_Due d, sd_next = Some d\<rparr>
          else \<lparr>sd_slug = slug, sd_should_run = True, sd_reason = Due, sd_next = Some moment\<rparr>)"

section \<open>Claiming\<close>

text \<open>Whether \<open>from models.orm.signal import ConnectorScheduleRow\<close> finds the name: the module has no such class.\<close>

definition row_class_defined :: bool where "row_class_defined = False"

record schedule_row =
  sr_slug :: string
  sr_enabled :: bool
  sr_next :: "pyfloat option"
  sr_interval :: pyfloat
  sr_failures :: "int option"
  sr_dispatched :: "pyfloat option"
  sr_last_error :: "pyfloat option"

type_synonym schedule = "schedule_row list"

text \<open>A comparison with a null is not true.\<close>

definition is_due :: "pyfloat \<Rightarrow> schedule_row \<Rightarrow> bool" where
  "is_due now r \<longleftrightarrow> sr_enabled r \<and> (case sr_next r of None \<Rightarrow> False | Some d \<Rightarrow> d \<le> now)"

definition due_at :: "schedule_row \<Rightarrow> pyfloat" where
  "due_at r = (case sr_next r of None \<Rightarrow> 0 | Some d \<Rightarrow> d)"

text \<open>Locked rows are skipped before the limit counts.\<close>

definition selected :: "string set \<Rightarrow> nat \<Rightarrow> pyfloat \<Rightarrow> schedule \<Rightarrow> schedule_row list" where
  "selected locked limit now rows =
     take limit (sort_key due_at (filter (\<lambda>r. is_due now r \<and> sr_slug r \<notin> locked) rows))"

definition failures_of :: "schedule_row \<Rightarrow> int" where
  "failures_of r = (case sr_failures r of None \<Rightarrow> 0 | Some n \<Rightarrow> n)"

definition set_row :: "string \<Rightarrow> (schedule_row \<Rightarrow> schedule_row) \<Rightarrow> schedule \<Rightarrow> schedule" where
  "set_row slug f rows = map (\<lambda>r. if sr_slug r = slug then f r else r) rows"

definition claim_row ::
  "pyfloat \<Rightarrow> (string \<Rightarrow> pyfloat) \<Rightarrow> schedule \<times> string list \<Rightarrow> schedule_row \<Rightarrow> py_error + schedule \<times> string list" where
  "claim_row now jitter st r =
     and_then (next_run_at (sr_interval r) (failures_of r) now (jitter (sr_slug r))) (\<lambda>t.
       Inr (set_row (sr_slug r) (\<lambda>q. q\<lparr>sr_next := Some t, sr_dispatched := Some now\<rparr>) (fst st), snd st @ [sr_slug r]))"

definition claim_due ::
  "bool \<Rightarrow> string set \<Rightarrow> nat \<Rightarrow> pyfloat \<Rightarrow> (string \<Rightarrow> pyfloat) \<Rightarrow> schedule \<Rightarrow> py_error + schedule \<times> string list" where
  "claim_due importable locked limit now jitter rows =
     (if \<not> importable then Inl ImportError
      else fold_res (claim_row now jitter) (rows, []) (selected locked limit now rows))"

section \<open>A tick\<close>

definition write_failures :: "string \<Rightarrow> bool \<Rightarrow> pyfloat \<Rightarrow> schedule \<Rightarrow> schedule" where
  "write_failures slug reset now rows =
     set_row slug (\<lambda>r. r\<lparr>sr_failures := (if reset then Some 0 else map_option (\<lambda>n. n + 1) (sr_failures r)),
       sr_last_error := (if reset then None else Some now)\<rparr>) rows"

definition update_failures :: "bool \<Rightarrow> string \<Rightarrow> bool \<Rightarrow> pyfloat \<Rightarrow> schedule \<Rightarrow> py_error + schedule" where
  "update_failures importable slug reset now rows =
     (if \<not> importable then Inl ImportError else Inr (write_failures slug reset now rows))"

definition dispatch_one ::
  "bool \<Rightarrow> pyfloat \<Rightarrow> (string \<Rightarrow> bool) \<Rightarrow> schedule \<times> nat \<Rightarrow> string \<Rightarrow> py_error + schedule \<times> nat" where
  "dispatch_one importable now accepts st slug =
     and_then (update_failures importable slug (accepts slug) now (fst st))
       (\<lambda>rows. Inr (rows, if accepts slug then snd st + 1 else snd st))"

text \<open>
  A claim that raises aborts its transaction and the tick: the table stays as it was. The import raises in the
  claim before it can in the loop.
\<close>

definition tick ::
  "bool \<Rightarrow> string set \<Rightarrow> nat \<Rightarrow> pyfloat \<Rightarrow> (string \<Rightarrow> pyfloat) \<Rightarrow> (string \<Rightarrow> bool) \<Rightarrow> schedule \<Rightarrow> schedule \<times> (py_error + string list)" where
  "tick importable locked limit now jitter accepts rows =
     (case claim_due importable locked limit now jitter rows of
        Inl e \<Rightarrow> (rows, Inl e)
      | Inr (claimed, slugs) \<Rightarrow>
          (case fold_res (dispatch_one importable now accepts) (claimed, 0) slugs of
             Inl e \<Rightarrow> (claimed, Inl e)
           | Inr (after, n) \<Rightarrow> (after, Inr slugs)))"

end
