(* ===== verification/Scheduler_Laws.thy ===== *)
theory Scheduler_Laws
  imports Scheduler
begin

text \<open>
  Laws of the scheduler: the bounds of the next run, what a claim does to the table, that no two
  claims of a connector come closer than its shortest interval whatever the replicas do, that
  the connectors due longest are claimed first, and how the decision and the claim agree.
\<close>

section \<open>Bounds\<close>

lemma backed_off_bounds:
  assumes "0 < interval"
  shows "min interval MAX_BACKOFF_SECONDS \<le> backed_off interval n \<and> backed_off interval n \<le> max interval MAX_BACKOFF_SECONDS"
proof -
  have "interval * 1 \<le> interval * 2 ^ nat (min n 16)" by (rule mult_left_mono) (use assms in simp_all)
  then show ?thesis by (auto simp: backed_off_def)
qed

lemma backed_off_pos: "0 < interval \<Longrightarrow> 0 < backed_off interval n"
  using backed_off_bounds [of interval n] by (auto simp: MAX_BACKOFF_SECONDS_def)

text \<open>
  A connector's next run lies at least a second ahead and within ten percent of its backed-off
  interval; that interval is the configured one without failures, doubles with each of the first
  sixteen failures, and never exceeds six hours after one.
\<close>

theorem next_run_bounds:
  assumes "next_run_at interval failures now jitter = Inr t"
    and "- JITTER_FRACTION \<le> jitter" and "jitter \<le> JITTER_FRACTION"
  shows "now + 1 \<le> t \<and> now + backed_off interval failures * 9 / 10 \<le> t \<and>
    t \<le> now + max 1 (backed_off interval failures * 11 / 10) \<and>
    (failures \<le> 0 \<longrightarrow> backed_off interval failures = interval) \<and>
    (0 < failures \<longrightarrow> backed_off interval failures \<le> MAX_BACKOFF_SECONDS) \<and>
    (0 < failures \<and> failures \<le> 16 \<and> interval * 2 ^ nat failures \<le> MAX_BACKOFF_SECONDS \<longrightarrow>
       backed_off interval failures = interval * 2 ^ nat failures)"
proof -
  from assms(1) have i: "0 < interval" and
    t: "t = now + max 1 (backed_off interval failures * (1 + jitter))"
    by (auto simp: next_run_at_def split: if_splits)
  let ?b = "backed_off interval failures"
  have b: "0 < ?b" by (rule backed_off_pos [OF i])
  have j: "9 / 10 \<le> 1 + jitter" "1 + jitter \<le> 11 / 10" using assms(2,3) by (simp_all add: JITTER_FRACTION_def)
  have "?b * (9 / 10) \<le> ?b * (1 + jitter)" by (rule mult_left_mono [OF j(1)]) (use b in simp)
  moreover have "?b * (1 + jitter) \<le> ?b * (11 / 10)" by (rule mult_left_mono [OF j(2)]) (use b in simp)
  ultimately have "now + 1 \<le> t" "now + ?b * 9 / 10 \<le> t" "t \<le> now + max 1 (?b * 11 / 10)"
    unfolding t by linarith+
  moreover have "failures \<le> 0 \<longrightarrow> ?b = interval" "0 < failures \<longrightarrow> ?b \<le> MAX_BACKOFF_SECONDS"
    "0 < failures \<and> failures \<le> 16 \<and> interval * 2 ^ nat failures \<le> MAX_BACKOFF_SECONDS \<longrightarrow> ?b = interval * 2 ^ nat failures"
    by (simp_all add: backed_off_def)
  ultimately show ?thesis by blast
qed

section \<open>What a claim does\<close>

definition moved :: "pyfloat \<Rightarrow> (string \<Rightarrow> pyfloat) \<Rightarrow> schedule_row \<Rightarrow> schedule_row" where
  "moved now jitter r = r\<lparr>sr_next := Some (now + max 1 (backed_off (sr_interval r) (failures_of r) * (1 + jitter (sr_slug r)))),
     sr_dispatched := Some now\<rparr>"

lemma moved_slug [simp]: "sr_slug (moved now jitter r) = sr_slug r"
  by (simp add: moved_def)

lemma claim_fold:
  assumes "\<forall>s \<in> set sel. 0 < sr_interval s" and "distinct (map sr_slug sel)"
    and "\<forall>s \<in> set sel. \<forall>r \<in> set rows. sr_slug r = sr_slug s \<longrightarrow> r = s"
  shows "fold_res (claim_row now jitter) (rows, slugs) sel =
    Inr (map (\<lambda>r. if sr_slug r \<in> sr_slug ` set sel then moved now jitter r else r) rows, slugs @ map sr_slug sel)"
  using assms
proof (induction sel arbitrary: rows slugs)
  case Nil
  then show ?case by simp
next
  case (Cons s sel)
  let ?f = "\<lambda>r. if sr_slug r = sr_slug s then moved now jitter r else r"
  have t: "next_run_at (sr_interval s) (failures_of s) now (jitter (sr_slug s)) =
      Inr (now + max 1 (backed_off (sr_interval s) (failures_of s) * (1 + jitter (sr_slug s))))"
    using Cons.prems(1) by (simp add: next_run_at_def)
  have "set_row (sr_slug s) (\<lambda>q. q\<lparr>sr_next := Some (now + max 1 (backed_off (sr_interval s) (failures_of s) * (1 + jitter (sr_slug s)))),
      sr_dispatched := Some now\<rparr>) rows = map ?f rows"
    using Cons.prems(3) by (auto simp: set_row_def moved_def)
  then have step: "claim_row now jitter (rows, slugs) s = Inr (map ?f rows, slugs @ [sr_slug s])"
    by (simp add: claim_row_def t)
  have "\<forall>s' \<in> set sel. \<forall>r \<in> set (map ?f rows). sr_slug r = sr_slug s' \<longrightarrow> r = s'"
    using Cons.prems(2,3) by (auto split: if_splits)
  moreover have "\<forall>s \<in> set sel. 0 < sr_interval s" "distinct (map sr_slug sel)" using Cons.prems(1,2) by simp_all
  ultimately have "fold_res (claim_row now jitter) (map ?f rows, slugs @ [sr_slug s]) sel =
      Inr (map (\<lambda>r. if sr_slug r \<in> sr_slug ` set sel then moved now jitter r else r) (map ?f rows),
        (slugs @ [sr_slug s]) @ map sr_slug sel)" by (intro Cons.IH)
  moreover have "sr_slug s \<notin> sr_slug ` set sel" using Cons.prems(2) by (auto simp: image_iff)
  then have "map (\<lambda>r. if sr_slug r \<in> sr_slug ` set sel then moved now jitter r else r) (map ?f rows) =
      map (\<lambda>r. if sr_slug r \<in> sr_slug ` set (s # sel) then moved now jitter r else r) rows" by auto
  ultimately show ?case by (simp add: step)
qed

definition schedule_ok :: "schedule \<Rightarrow> bool" where
  "schedule_ok rows \<longleftrightarrow> distinct (map sr_slug rows) \<and> (\<forall>r \<in> set rows. 0 < sr_interval r)"

lemma same_slug: "schedule_ok rows \<Longrightarrow> r \<in> set rows \<Longrightarrow> s \<in> set rows \<Longrightarrow> sr_slug r = sr_slug s \<Longrightarrow> r = s"
  by (simp add: schedule_ok_def distinct_map inj_on_def)

lemma selected_member:
  "s \<in> set (selected locked limit now rows) \<Longrightarrow> s \<in> set rows \<and> is_due now s \<and> sr_slug s \<notin> locked"
  by (auto simp: selected_def dest: in_set_takeD)

lemma selected_distinct:
  assumes "schedule_ok rows"
  shows "distinct (map sr_slug (selected locked limit now rows))"
proof -
  let ?due = "filter (\<lambda>r. is_due now r \<and> sr_slug r \<notin> locked) rows"
  have "mset (map sr_slug (sort_key due_at ?due)) = mset (map sr_slug ?due)" by simp
  moreover have "distinct (map sr_slug ?due)" using assms by (simp add: schedule_ok_def distinct_map_filter)
  ultimately have "distinct (map sr_slug (sort_key due_at ?due))" using mset_eq_imp_distinct_iff by blast
  then show ?thesis by (simp add: selected_def take_map [symmetric])
qed

lemma claim_due_result:
  assumes "schedule_ok rows"
  shows "claim_due True locked limit now jitter rows =
    (let sel = selected locked limit now rows in
     Inr (map (\<lambda>r. if sr_slug r \<in> sr_slug ` set sel then moved now jitter r else r) rows, map sr_slug sel))"
proof -
  let ?sel = "selected locked limit now rows"
  have "\<forall>s \<in> set ?sel. 0 < sr_interval s"
    using assms by (auto simp: schedule_ok_def dest!: selected_member)
  moreover have "\<forall>s \<in> set ?sel. \<forall>r \<in> set rows. sr_slug r = sr_slug s \<longrightarrow> r = s"
    using same_slug [OF assms] selected_member by blast
  ultimately show ?thesis
    using claim_fold [OF _ selected_distinct [OF assms], of locked limit now rows now jitter "[]"]
    by (simp add: claim_due_def Let_def)
qed

section \<open>Claims come apart\<close>

definition small_jitter :: "(string \<Rightarrow> pyfloat) \<Rightarrow> bool" where
  "small_jitter jitter \<longleftrightarrow> (\<forall>s. - JITTER_FRACTION \<le> jitter s \<and> jitter s \<le> JITTER_FRACTION)"

definition shortest_gap :: "schedule_row \<Rightarrow> pyfloat" where
  "shortest_gap r = max 1 (min (sr_interval r) MAX_BACKOFF_SECONDS * 9 / 10)"

text \<open>A row that was dispatched is due again no sooner than its shortest interval later.\<close>

definition spaced :: "schedule_row \<Rightarrow> bool" where
  "spaced r \<longleftrightarrow> (\<forall>c. sr_dispatched r = Some c \<longrightarrow> (\<exists>d. sr_next r = Some d \<and> c + shortest_gap r \<le> d))"

lemma moved_spaced:
  assumes "0 < sr_interval r" and "small_jitter jitter"
  shows "spaced (moved now jitter r)"
proof -
  let ?b = "backed_off (sr_interval r) (failures_of r)"
  have "min (sr_interval r) MAX_BACKOFF_SECONDS \<le> ?b" "0 < ?b"
    using backed_off_bounds backed_off_pos assms(1) by blast+
  moreover have "- (1 / 10) \<le> jitter (sr_slug r)"
    using assms(2) unfolding small_jitter_def JITTER_FRACTION_def by blast
  then have "9 / 10 \<le> 1 + jitter (sr_slug r)" by linarith
  then have "?b * (9 / 10) \<le> ?b * (1 + jitter (sr_slug r))" by (rule mult_left_mono) (use \<open>0 < ?b\<close> in simp)
  ultimately have "shortest_gap r \<le> max 1 (?b * (1 + jitter (sr_slug r)))"
    unfolding shortest_gap_def by linarith
  then show ?thesis by (simp add: spaced_def moved_def shortest_gap_def)
qed

datatype scheduler_event =
    Claim "string set" nat pyfloat "string \<Rightarrow> pyfloat"
  | Record string bool pyfloat

definition scheduler_step :: "schedule \<Rightarrow> scheduler_event \<Rightarrow> schedule" where
  "scheduler_step rows e =
     (case e of
        Claim locked limit now jitter \<Rightarrow>
          (case claim_due True locked limit now jitter rows of Inl _ \<Rightarrow> rows | Inr (claimed, _) \<Rightarrow> claimed)
      | Record slug reset now \<Rightarrow> write_failures slug reset now rows)"

definition drawn_small :: "scheduler_event \<Rightarrow> bool" where
  "drawn_small e = (case e of Claim _ _ _ jitter \<Rightarrow> small_jitter jitter | Record _ _ _ \<Rightarrow> True)"

definition spaced_schedule :: "schedule \<Rightarrow> bool" where
  "spaced_schedule rows \<longleftrightarrow> schedule_ok rows \<and> (\<forall>r \<in> set rows. spaced r)"

lemma claim_keeps_rows:
  assumes "schedule_ok rows"
  shows "schedule_ok (map (\<lambda>r. if P r then moved now jitter r else r) rows)"
proof -
  have "map sr_slug (map (\<lambda>r. if P r then moved now jitter r else r) rows) = map sr_slug rows" by simp
  with assms show ?thesis by (auto simp: schedule_ok_def moved_def simp del: map_map)
qed

lemma scheduler_step_spaced:
  assumes "spaced_schedule rows" and "drawn_small e"
  shows "spaced_schedule (scheduler_step rows e)"
proof (cases e)
  case (Claim locked limit now jitter)
  have ok: "schedule_ok rows" using assms(1) by (simp add: spaced_schedule_def)
  have "small_jitter jitter" using assms(2) by (simp add: drawn_small_def Claim)
  with assms(1) show ?thesis
    by (auto simp: scheduler_step_def Claim claim_due_result [OF ok] Let_def spaced_schedule_def
        intro!: claim_keeps_rows moved_spaced) (simp add: schedule_ok_def)
next
  case (Record slug reset now)
  let ?rows = "write_failures slug reset now rows"
  have "map sr_slug ?rows = map sr_slug rows" by (simp add: write_failures_def set_row_def)
  moreover have "\<forall>r \<in> set ?rows. 0 < sr_interval r \<and> spaced r"
    using assms(1) by (auto simp: spaced_schedule_def schedule_ok_def write_failures_def set_row_def spaced_def shortest_gap_def)
  ultimately show ?thesis using assms(1)
    by (simp add: Record scheduler_step_def spaced_schedule_def schedule_ok_def)
qed

definition guarded_step :: "schedule \<Rightarrow> scheduler_event \<Rightarrow> schedule" where
  "guarded_step rows e = (if drawn_small e then scheduler_step rows e else rows)"

interpretation scheduling: machine guarded_step spaced_schedule
  by unfold_locales (simp add: guarded_step_def scheduler_step_spaced)

lemma guarded_run: "list_all drawn_small es \<Longrightarrow> foldl guarded_step rows es = foldl scheduler_step rows es"
  by (induction es arbitrary: rows) (simp_all add: guarded_step_def)

text \<open>
  What the claim is for: with the class of the rows present, from a schedule of distinct connectors with
  positive intervals none of which was dispatched, after any interleaving of claims and recorded outcomes,
  by any number of replicas with any locks and jitters within a tenth, a row that was claimed at one
  moment is not selected again before nine tenths of its interval, or of six hours, have passed,
  and never within a second.
\<close>

theorem claims_keep_their_distance:
  assumes "schedule_ok rows" and "\<forall>r \<in> set rows. sr_dispatched r = None" and "list_all drawn_small es"
    and "r \<in> set (selected locked limit now (foldl scheduler_step rows es))" and "sr_dispatched r = Some before"
  shows "before + max 1 (min (sr_interval r) MAX_BACKOFF_SECONDS * 9 / 10) \<le> now"
proof -
  have "spaced_schedule rows" using assms(1,2) by (simp add: spaced_schedule_def spaced_def)
  from scheduling.run_inv [OF this, of es] have "spaced_schedule (foldl scheduler_step rows es)"
    by (simp add: guarded_run [OF assms(3)])
  with selected_member [OF assms(4)] have "spaced r" "is_due now r" by (auto simp: spaced_schedule_def)
  with assms(5) show ?thesis by (auto simp: spaced_def is_due_def shortest_gap_def)
qed

section \<open>Who is claimed\<close>

lemma take_sorted_first:
  assumes "x \<in> set xs" and "x \<notin> set (take n (sort_key f xs))" and "y \<in> set (take n (sort_key f xs))"
  shows "f y \<le> f x"
proof -
  have "x \<in> set (drop n (sort_key f xs))"
    using assms(1,2) by (metis Un_iff append_take_drop_id set_append set_sort)
  moreover have "sorted (map f (take n (sort_key f xs) @ drop n (sort_key f xs)))" by simp
  ultimately show ?thesis using assms(3) by (auto simp: sorted_append simp del: append_take_drop_id)
qed

text \<open>
  The connectors waiting longest go first: a claim takes at most its limit, only rows that are
  enabled, due and not locked, and a due row it leaves behind is due no earlier than any
  it took; with room to spare it leaves none behind.
\<close>

theorem claim_is_fair:
  assumes "schedule_ok rows" and "claim_due True locked limit now jitter rows = Inr (claimed, slugs)"
  shows "length slugs \<le> limit \<and> distinct slugs \<and>
    (\<forall>r \<in> set rows. sr_slug r \<in> set slugs \<longrightarrow> is_due now r \<and> sr_slug r \<notin> locked) \<and>
    (\<forall>r \<in> set rows. is_due now r \<and> sr_slug r \<notin> locked \<and> sr_slug r \<notin> set slugs \<longrightarrow>
       length slugs = limit \<and> (\<forall>s \<in> set rows. sr_slug s \<in> set slugs \<longrightarrow> due_at s \<le> due_at r)) \<and>
    (\<forall>r \<in> set claimed. sr_slug r \<in> set slugs \<longrightarrow> \<not> is_due now r)"
proof -
  let ?due = "filter (\<lambda>r. is_due now r \<and> sr_slug r \<notin> locked) rows"
  let ?sel = "selected locked limit now rows"
  from assms have slugs: "slugs = map sr_slug ?sel"
    and claimed: "claimed = map (\<lambda>r. if sr_slug r \<in> sr_slug ` set ?sel then moved now jitter r else r) rows"
    by (simp_all add: claim_due_result Let_def)
  have mem: "r \<in> set ?sel" if "r \<in> set rows" "sr_slug r \<in> set slugs" for r
  proof -
    from that(2) obtain s where s: "s \<in> set ?sel" "sr_slug r = sr_slug s" by (auto simp: slugs)
    with selected_member have "s \<in> set rows" by blast
    with same_slug [OF assms(1) that(1)] s show ?thesis by blast
  qed
  have first: "length slugs = limit \<and> (\<forall>s \<in> set rows. sr_slug s \<in> set slugs \<longrightarrow> due_at s \<le> due_at r)"
    if r: "r \<in> set rows" "is_due now r" "sr_slug r \<notin> locked" "sr_slug r \<notin> set slugs" for r
  proof -
    have d: "r \<in> set ?due" using r by simp
    have n: "r \<notin> set (take limit (sort_key due_at ?due))" using r(4) by (auto simp: slugs selected_def)
    have "\<not> length (sort_key due_at ?due) \<le> limit"
    proof
      assume "length (sort_key due_at ?due) \<le> limit"
      then have "take limit (sort_key due_at ?due) = sort_key due_at ?due" by (rule take_all)
      with n d show False by simp
    qed
    then have "length slugs = limit" by (simp add: slugs selected_def)
    moreover have "due_at s \<le> due_at r" if "s \<in> set rows" "sr_slug s \<in> set slugs" for s
      using take_sorted_first [OF d n] mem [OF that] by (simp add: selected_def)
    ultimately show ?thesis by blast
  qed
  have "\<not> is_due now (moved now jitter r)" for r by (simp add: is_due_def moved_def not_le)
  then have "\<forall>r \<in> set claimed. sr_slug r \<in> set slugs \<longrightarrow> \<not> is_due now r"
    unfolding claimed slugs by (auto split: if_splits)
  moreover have "length slugs \<le> limit" by (simp add: slugs selected_def)
  moreover have "distinct slugs" using selected_distinct [OF assms(1)] by (simp add: slugs)
  moreover have "\<forall>r \<in> set rows. sr_slug r \<in> set slugs \<longrightarrow> is_due now r \<and> sr_slug r \<notin> locked"
    using mem selected_member by blast
  ultimately show ?thesis using first by blast
qed

text \<open>
  The policy and the claim agree on every connector that has run and is not running: the
  decision is to run exactly where the claim may take the row. A row that has never been
  given a time the decision would run and the claim never takes.
\<close>

theorem decision_matches_claim:
  "sr_next r \<noteq> None \<Longrightarrow>
     sd_should_run (decide (sr_slug r) (sr_enabled r) (sr_next r) False now) \<longleftrightarrow> is_due now r"
  by (cases "sr_next r"; cases "sr_enabled r") (simp_all add: decide_def is_due_def)

theorem never_run_is_never_claimed:
  "sr_next r = None \<Longrightarrow> sr_enabled r \<Longrightarrow>
     sd_should_run (decide (sr_slug r) (sr_enabled r) (sr_next r) False now) \<and> \<not> is_due now r"
  by (simp add: decide_def is_due_def)

text \<open>The claim does not ask whether a sync is still in flight; the decision does.\<close>

theorem claim_ignores_running:
  "is_due now r \<Longrightarrow> \<not> sd_should_run (decide (sr_slug r) (sr_enabled r) (sr_next r) True now)"
  by (simp add: decide_def is_due_def)

text \<open>The cap of six hours holds also where the interval is longer: then a failure hurries the connector.\<close>

theorem failure_hurries_slow_connector:
  assumes "MAX_BACKOFF_SECONDS < interval" and "0 < failures" and "- JITTER_FRACTION \<le> jitter"
  shows "\<exists>t u. next_run_at interval failures now jitter = Inr t \<and> next_run_at interval 0 now jitter = Inr u \<and> t < u"
proof -
  have i: "0 < interval" using assms(1) by (simp add: MAX_BACKOFF_SECONDS_def)
  have "interval * 1 \<le> interval * 2 ^ nat (min failures 16)" by (rule mult_left_mono) (use i in simp_all)
  with assms(1,2) have b: "backed_off interval failures = MAX_BACKOFF_SECONDS" by (simp add: backed_off_def)
  have j: "0 < 1 + jitter" "9 / 10 \<le> 1 + jitter" using assms(3) by (simp_all add: JITTER_FRACTION_def)
  have "MAX_BACKOFF_SECONDS * (1 + jitter) < interval * (1 + jitter)" using assms(1) j(1) by (rule mult_strict_right_mono)
  moreover have "MAX_BACKOFF_SECONDS * (9 / 10) \<le> MAX_BACKOFF_SECONDS * (1 + jitter)"
    by (rule mult_left_mono [OF j(2)]) (simp add: MAX_BACKOFF_SECONDS_def)
  then have "1 \<le> MAX_BACKOFF_SECONDS * (1 + jitter)" by (simp add: MAX_BACKOFF_SECONDS_def)
  ultimately show ?thesis using i b by (simp add: next_run_at_def backed_off_def)
qed

text \<open>One row whose interval is not positive stops every connector while it is among those due.\<close>

theorem bad_interval_stops_tick:
  assumes "r \<in> set (selected locked limit now rows)" and "sr_interval r \<le> 0"
  shows "tick True locked limit now jitter accepts rows = (rows, Inl ValueError)"
proof -
  have "fold_res (claim_row now jitter) st sel = Inl ValueError" if "r \<in> set sel" for st sel
    using that
  proof (induction sel arbitrary: st)
    case (Cons s sel)
    show ?case
    proof (cases "sr_interval s \<le> 0")
      case True
      then show ?thesis by (simp add: claim_row_def next_run_at_def)
    next
      case False
      with Cons.prems assms(2) have "r \<in> set sel" by auto
      with False Cons.IH show ?thesis by (simp add: claim_row_def next_run_at_def)
    qed
  qed simp
  from this [OF assms(1)] show ?thesis by (simp add: tick_def claim_due_def)
qed

text \<open>The class of the rows is not there: every tick raises before it opens a transaction, and nothing is ever dispatched.\<close>

theorem every_tick_raises:
  "tick row_class_defined locked limit now jitter accepts rows = (rows, Inl ImportError)"
  by (simp add: tick_def claim_due_def row_class_defined_def)

section \<open>Instances\<close>

text \<open>A schedule of two connectors, its claims, and the witnesses of the laws.\<close>

definition connector :: "string \<Rightarrow> pyfloat \<Rightarrow> pyfloat \<Rightarrow> schedule_row" where
  "connector s due interval = \<lparr>sr_slug = s, sr_enabled = True, sr_next = Some due, sr_interval = interval,
     sr_failures = None, sr_dispatched = None, sr_last_error = None\<rparr>"

definition two_connectors :: schedule where
  "two_connectors = [connector ''rss'' 20 900, connector ''hn'' 10 60]"

definition no_jitter :: "string \<Rightarrow> pyfloat" where
  "no_jitter s = 0"

definition claimed_row :: schedule_row where
  "claimed_row = (connector ''hn'' 10 60)\<lparr>sr_next := Some 90, sr_dispatched := Some 30\<rparr>"

lemma two_connectors_ok: "schedule_ok two_connectors"
  by (simp add: schedule_ok_def two_connectors_def connector_def)

theorem next_run_bounds_witness:
  "\<exists>t. next_run_at 60 2 0 (1 / 20) = Inr t \<and> 216 \<le> t \<and> t \<le> 264"
proof -
  have "next_run_at 60 2 0 (1 / 20) = Inr 252" by code_simp
  moreover have "backed_off 60 2 = 240" by code_simp
  ultimately show ?thesis using next_run_bounds [of 60 2 0 "1 / 20" 252] by (simp add: JITTER_FRACTION_def)
qed

theorem claims_keep_their_distance_witness:
  "(30 :: pyfloat) + max 1 (min 60 MAX_BACKOFF_SECONDS * 9 / 10) \<le> 90"
proof -
  let ?es = "[Claim {} 1 30 no_jitter]"
  have run: "foldl scheduler_step two_connectors ?es = [connector ''rss'' 20 900, claimed_row]" by code_simp
  have sel: "claimed_row \<in> set (selected {''rss''} 10 90 [connector ''rss'' 20 900, claimed_row])" by code_simp
  have "list_all drawn_small ?es" by (simp add: drawn_small_def small_jitter_def no_jitter_def JITTER_FRACTION_def)
  from claims_keep_their_distance [OF two_connectors_ok _ this, of claimed_row "{''rss''}" 10 90 30] run sel
  show ?thesis by (simp add: two_connectors_def claimed_row_def connector_def)
qed

theorem claim_is_fair_witness:
  "\<exists>claimed. claim_due True {} 1 30 no_jitter two_connectors = Inr (claimed, [''hn'']) \<and>
     due_at (connector ''hn'' 10 60) \<le> due_at (connector ''rss'' 20 900)"
proof -
  have c: "claim_due True {} 1 30 no_jitter two_connectors = Inr ([connector ''rss'' 20 900, claimed_row], [''hn''])"
    by code_simp
  have "is_due 30 (connector ''rss'' 20 900)" by code_simp
  moreover have m: "connector ''rss'' 20 900 \<in> set two_connectors" "connector ''hn'' 10 60 \<in> set two_connectors"
    "sr_slug (connector ''rss'' 20 900) = ''rss''" "sr_slug (connector ''hn'' 10 60) = ''hn''"
    by (simp_all add: two_connectors_def connector_def)
  ultimately have "\<forall>s \<in> set two_connectors. sr_slug s \<in> set [''hn''] \<longrightarrow> due_at s \<le> due_at (connector ''rss'' 20 900)"
    using claim_is_fair [OF two_connectors_ok c] by simp
  then have "due_at (connector ''hn'' 10 60) \<le> due_at (connector ''rss'' 20 900)" using m by simp
  with c show ?thesis by blast
qed

theorem decision_matches_claim_witness:
  "sd_should_run (decide ''hn'' True (Some 10) False 30) \<longleftrightarrow> is_due 30 (connector ''hn'' 10 60)"
  using decision_matches_claim [of "connector ''hn'' 10 60" 30] by (simp add: connector_def)

end
