(* ===== verification/Model_Router.thy ===== *)
theory Model_Router
  imports Graph_Schema
begin

text \<open>
  \<open>services/llm/router.py\<close> and \<open>services/llm/cache.py\<close>: the tiers of models, the token budget of a
  run, shedding under overload, and the cache of completions, with the responses of
  \<open>services/llm/provider.py\<close>.

  A provider is a function from the tier that is called to its answer: within one dispatch
  every tier is called at most once. Redis and the hash of a request are arguments.
\<close>

section \<open>Responses and failures\<close>

record llm_response =
  lr_text :: string
  lr_model :: string
  lr_input :: int
  lr_output :: int
  lr_cached :: int
  lr_stop :: "string option"

definition billable_tokens :: "llm_response \<Rightarrow> int" where
  "billable_tokens r = lr_input r + lr_output r"

definition total_tokens :: "llm_response \<Rightarrow> int" where
  "total_tokens r = lr_input r + lr_output r + lr_cached r"

definition truncated :: "llm_response \<Rightarrow> bool" where
  "truncated r \<longleftrightarrow> lr_stop r = Some ''max_tokens''"

datatype llm_failure =
    LLM_Schema_Error
  | LLM_Rate_Limited
  | LLM_Timeout
  | LLM_Error "int option"
  | Other_Failure

definition OVERLOAD_STATUSES :: "int list" where
  "OVERLOAD_STATUSES = [429, 500, 502, 503, 504, 529]"

definition is_overload :: "llm_failure \<Rightarrow> bool" where
  "is_overload e = (case e of
       LLM_Schema_Error \<Rightarrow> False | LLM_Rate_Limited \<Rightarrow> True | LLM_Timeout \<Rightarrow> True
     | LLM_Error s \<Rightarrow> (case s of None \<Rightarrow> False | Some n \<Rightarrow> n \<in> set OVERLOAD_STATUSES)
     | Other_Failure \<Rightarrow> False)"

section \<open>Tiers and the budget\<close>

datatype model_tier = Planner_Tier | Worker_Tier | Fast_Tier

fun shed_ladder :: "model_tier \<Rightarrow> model_tier option" where
  "shed_ladder Planner_Tier = Some Worker_Tier"
| "shed_ladder Worker_Tier = Some Fast_Tier"
| "shed_ladder Fast_Tier = None"

definition DEFAULT_PRESSURE_FRACTION :: pyfloat where
  "DEFAULT_PRESSURE_FRACTION = 15 / 100"

datatype shed_reason = Overload | Budget_Pressure

record shed_event =
  sh_requested :: model_tier
  sh_served :: model_tier
  sh_reason :: shed_reason

record run_budget =
  token_limit :: int
  spent :: int
  unmetered_calls :: int
  shed_events :: "shed_event list"

definition new_budget :: "int \<Rightarrow> run_budget" where
  "new_budget n = \<lparr>token_limit = n, spent = 0, unmetered_calls = 0, shed_events = []\<rparr>"

definition remaining_tokens :: "run_budget \<Rightarrow> int" where
  "remaining_tokens b = max 0 (token_limit b - spent b)"

definition exhausted :: "run_budget \<Rightarrow> bool" where
  "exhausted b \<longleftrightarrow> spent b \<ge> token_limit b"

definition remaining_fraction :: "run_budget \<Rightarrow> pyfloat" where
  "remaining_fraction b = (if token_limit b > 0 then of_int (remaining_tokens b) / of_int (token_limit b) else 0)"

definition degraded :: "run_budget \<Rightarrow> bool" where
  "degraded b \<longleftrightarrow> shed_events b \<noteq> []"

definition charge :: "llm_response \<Rightarrow> run_budget \<Rightarrow> run_budget" where
  "charge r b = b\<lparr>spent := spent b + billable_tokens r\<rparr>"

definition record_unmetered :: "run_budget \<Rightarrow> run_budget" where
  "record_unmetered b = b\<lparr>unmetered_calls := unmetered_calls b + 1\<rparr>"

definition record_shed :: "model_tier \<Rightarrow> model_tier \<Rightarrow> shed_reason \<Rightarrow> run_budget \<Rightarrow> run_budget" where
  "record_shed requested served why b =
     b\<lparr>shed_events := shed_events b @ [\<lparr>sh_requested = requested, sh_served = served, sh_reason = why\<rparr>]\<rparr>"

section \<open>Dispatching\<close>

text \<open>An answer carries its usage, where the provider reports it; a free-text completion always does.\<close>

datatype 'r call_answer = Answers 'r "llm_response option" | Fails llm_failure

datatype dispatch_error = Token_Budget_Exceeded | Call_Failed llm_failure

type_synonym 'r provider = "model_tier \<Rightarrow> 'r call_answer"

definition charged :: "llm_response option \<Rightarrow> run_budget option \<Rightarrow> run_budget option" where
  "charged usage b = map_option (case usage of None \<Rightarrow> record_unmetered | Some r \<Rightarrow> charge r) b"

record 'r dispatched =
  result :: "dispatch_error + 'r"
  budget_after :: "run_budget option"
  tiers_called :: "model_tier list"

fun rank :: "model_tier \<Rightarrow> nat" where
  "rank Planner_Tier = 2"
| "rank Worker_Tier = 1"
| "rank Fast_Tier = 0"

lemma shed_ladder_rank: "shed_ladder t = Some u \<Longrightarrow> rank u < rank t"
  by (cases t) auto

function walk_ladder ::
  "'r provider \<Rightarrow> model_tier \<Rightarrow> model_tier \<Rightarrow> run_budget option \<Rightarrow> model_tier list \<Rightarrow> 'r dispatched" where
  "walk_ladder call requested current b tried =
     (case call current of
        Answers r usage \<Rightarrow> \<lparr>result = Inr r, budget_after = charged usage b, tiers_called = tried @ [current]\<rparr>
      | Fails e \<Rightarrow>
          if \<not> is_overload e
          then \<lparr>result = Inl (Call_Failed e), budget_after = b, tiers_called = tried @ [current]\<rparr>
          else (case shed_ladder current of
              None \<Rightarrow> \<lparr>result = Inl (Call_Failed e), budget_after = b, tiers_called = tried @ [current]\<rparr>
            | Some next \<Rightarrow>
                walk_ladder call requested next (map_option (record_shed requested next Overload) b)
                  (tried @ [current])))"
  by pat_completeness auto

termination
  by (relation "measure (\<lambda>(call, requested, current, b, tried). rank current)") (auto dest: shed_ladder_rank)

declare walk_ladder.simps [simp del]

definition under_pressure :: "pyfloat \<Rightarrow> model_tier \<Rightarrow> run_budget option \<Rightarrow> model_tier \<times> run_budget option" where
  "under_pressure fraction tier b =
     (case b of
        None \<Rightarrow> (tier, b)
      | Some bud \<Rightarrow>
          if fraction \<le> 0 then (tier, b)
          else if remaining_fraction bud > fraction then (tier, b)
          else (case shed_ladder tier of
              None \<Rightarrow> (tier, b)
            | Some cheaper \<Rightarrow> (cheaper, Some (record_shed tier cheaper Budget_Pressure bud))))"

definition dispatch :: "pyfloat \<Rightarrow> 'r provider \<Rightarrow> model_tier \<Rightarrow> run_budget option \<Rightarrow> 'r dispatched" where
  "dispatch fraction call tier b =
     (if (case b of None \<Rightarrow> False | Some bud \<Rightarrow> exhausted bud)
      then \<lparr>result = Inl Token_Budget_Exceeded, budget_after = b, tiers_called = []\<rparr>
      else (case under_pressure fraction tier b of
              (current, b1) \<Rightarrow> walk_ladder call tier current b1 []))"

text \<open>\<open>complete\<close> charges every answer; \<open>structured\<close> charges where the provider is metered.\<close>

definition complete_call :: "(model_tier \<Rightarrow> llm_failure + llm_response) \<Rightarrow> llm_response provider" where
  "complete_call p t = (case p t of Inl e \<Rightarrow> Fails e | Inr r \<Rightarrow> Answers r (Some r))"

definition structured_call ::
  "bool \<Rightarrow> (model_tier \<Rightarrow> llm_failure + ('v \<times> llm_response)) \<Rightarrow> 'v provider" where
  "structured_call metered p t =
     (case p t of Inl e \<Rightarrow> Fails e | Inr (v, usage) \<Rightarrow> Answers v (if metered then Some usage else None))"

section \<open>The cache\<close>

definition CACHE_PREFIX :: string where "CACHE_PREFIX = ''llm:c1:''"

record cache_request =
  cr_prompt :: string
  cr_model :: string
  cr_system :: "string option"
  cr_schema :: "string option"
  cr_params :: "(string \<times> string) list"

text \<open>\<open>sort_keys=True\<close>: the parameters as a set of items; absent and empty ones are the same.\<close>

definition cache_material :: "cache_request \<Rightarrow> cache_request" where
  "cache_material q = q\<lparr>cr_params := sort_key fst (cr_params q)\<rparr>"

definition completion_cache_key :: "(cache_request \<Rightarrow> string) \<Rightarrow> cache_request \<Rightarrow> string" where
  "completion_cache_key sha q = CACHE_PREFIX @ sha (cache_material q)"

definition as_payload :: "llm_response \<Rightarrow> pdict" where
  "as_payload r =
     [(''text'', PStr (lr_text r)), (''model'', PStr (lr_model r)),
      (''stop_reason'', (case lr_stop r of None \<Rightarrow> PNone | Some s \<Rightarrow> PStr s)),
      (''input_tokens'', PInt (lr_input r)), (''output_tokens'', PInt (lr_output r)),
      (''cached_tokens'', PInt (lr_cached r))]"

definition payload_int :: "pvalue option \<Rightarrow> int" where
  "payload_int v = (case v of Some (PInt n) \<Rightarrow> n | _ \<Rightarrow> 0)"

definition payload_text :: "pvalue option \<Rightarrow> string" where
  "payload_text v = (case v of Some (PStr s) \<Rightarrow> s | _ \<Rightarrow> [])"

definition as_response :: "pdict \<Rightarrow> llm_response" where
  "as_response d =
     \<lparr>lr_text = payload_text (map_of d ''text''), lr_model = payload_text (map_of d ''model''), lr_input = 0,
      lr_output = 0,
      lr_cached = payload_int (map_of d ''input_tokens'') + payload_int (map_of d ''output_tokens'')
        + payload_int (map_of d ''cached_tokens''),
      lr_stop = (case map_of d ''stop_reason'' of Some (PStr s) \<Rightarrow> Some s | _ \<Rightarrow> None)\<rparr>"

text \<open>What Redis holds under a key: a payload this module wrote, or bytes it cannot read.\<close>

datatype stored = Payload pdict | Unreadable

type_synonym redis = "string \<Rightarrow> stored option"

definition cache_get :: "(cache_request \<Rightarrow> string) \<Rightarrow> bool \<Rightarrow> bool \<Rightarrow> redis \<Rightarrow> cache_request \<Rightarrow> llm_response option" where
  "cache_get sha enabled up db q =
     (if \<not> enabled then None
      else if \<not> up then None
      else (case db (completion_cache_key sha q) of
              None \<Rightarrow> None | Some Unreadable \<Rightarrow> None | Some (Payload d) \<Rightarrow> Some (as_response d)))"

definition cache_set ::
  "(cache_request \<Rightarrow> string) \<Rightarrow> bool \<Rightarrow> bool \<Rightarrow> llm_response \<Rightarrow> cache_request \<Rightarrow> redis \<Rightarrow> bool \<times> redis" where
  "cache_set sha enabled up r q db =
     (if \<not> enabled then (False, db)
      else if lr_stop r = Some ''max_tokens'' then (False, db)
      else if \<not> up then (False, db)
      else (True, db(completion_cache_key sha q \<mapsto> Payload (as_payload r))))"

end
