(* ===== verification/Model_Router_Laws.thy ===== *)
theory Model_Router_Laws
  imports Model_Router
begin

text \<open>
  Laws of the model router: how a dispatch walks the ladder, that every downgrade is recorded, by how much a run
  may pass its token budget, and what the completion cache may return.
\<close>

section \<open>The walk\<close>

definition tier_overloaded :: "'r provider \<Rightarrow> model_tier \<Rightarrow> bool" where
  "tier_overloaded call t \<longleftrightarrow> (\<exists>e. call t = Fails e \<and> is_overload e)"

fun steps_down :: "model_tier list \<Rightarrow> bool" where
  "steps_down (t # u # ts) \<longleftrightarrow> shed_ladder t = Some u \<and> steps_down (u # ts)"
| "steps_down _ \<longleftrightarrow> True"

definition sheds :: "model_tier \<Rightarrow> shed_reason \<Rightarrow> model_tier list \<Rightarrow> shed_event list" where
  "sheds requested why ts = map (\<lambda>t. \<lparr>sh_requested = requested, sh_served = t, sh_reason = why\<rparr>) ts"

definition add_sheds :: "shed_event list \<Rightarrow> run_budget option \<Rightarrow> run_budget option" where
  "add_sheds es b = map_option (\<lambda>bud. bud\<lparr>shed_events := shed_events bud @ es\<rparr>) b"

text \<open>What a walk from a tier came to: the tiers below it that it called.\<close>

definition walked :: "'r provider \<Rightarrow> model_tier \<Rightarrow> model_tier \<Rightarrow> run_budget option \<Rightarrow> model_tier list \<Rightarrow> 'r dispatched
    \<Rightarrow> model_tier list \<Rightarrow> bool" where
  "walked call requested current b tried d lower \<longleftrightarrow>
     tiers_called d = tried @ current # lower \<and> steps_down (current # lower) \<and>
     (\<forall>t \<in> set (butlast (current # lower)). tier_overloaded call t) \<and>
     (case call (last (current # lower)) of
        Answers r usage \<Rightarrow> result d = Inr r \<and>
          budget_after d = charged usage (add_sheds (sheds requested Overload lower) b)
      | Fails e \<Rightarrow> result d = Inl (Call_Failed e) \<and> (is_overload e \<longrightarrow> last (current # lower) = Fast_Tier) \<and>
          budget_after d = add_sheds (sheds requested Overload lower) b)"

lemma add_sheds_simps [simp]:
  "add_sheds [] b = b"
  "add_sheds es (add_sheds fs b) = add_sheds (fs @ es) b"
  "map_option (record_shed r t why) b = add_sheds (sheds r why [t]) b"
  by (cases b; simp add: add_sheds_def record_shed_def sheds_def)+

lemma sheds_Cons: "sheds r why (t # ts) = sheds r why [t] @ sheds r why ts"
  by (simp add: sheds_def)

lemma walk_ladder_walked: "\<exists>lower. walked call requested current b tried (walk_ladder call requested current b tried) lower"
proof (induction call requested current b tried rule: walk_ladder.induct)
  case (1 call requested current b tried)
  show ?case
  proof (cases "call current")
    case (Answers r usage)
    then show ?thesis by (intro exI [of _ "[]"]) (simp add: walked_def walk_ladder.simps [of call] sheds_def)
  next
    case (Fails e)
    show ?thesis
    proof (cases "is_overload e \<and> shed_ladder current \<noteq> None")
      case True
      then obtain t where t: "shed_ladder current = Some t" by blast
      from 1 [OF Fails _ t] True obtain lower where
        l: "walked call requested t (map_option (record_shed requested t Overload) b) (tried @ [current])
          (walk_ladder call requested t (map_option (record_shed requested t Overload) b) (tried @ [current])) lower"
        by blast
      have w: "walk_ladder call requested current b tried =
          walk_ladder call requested t (map_option (record_shed requested t Overload) b) (tried @ [current])"
        using True by (simp add: walk_ladder.simps [of call requested current] Fails t)
      have "tier_overloaded call current" using Fails True by (auto simp: tier_overloaded_def)
      moreover have "last (current # t # lower) = last (t # lower)"
        "butlast (current # t # lower) = current # butlast (t # lower)" by simp_all
      ultimately show ?thesis using l t
        by (intro exI [of _ "t # lower"])
          (simp add: w walked_def sheds_Cons [of requested Overload t lower] del: last.simps butlast.simps
            split: call_answer.splits)
    next
      case False
      then have "\<not> is_overload e \<or> current = Fast_Tier" by (cases current) auto
      with Fails False show ?thesis
        by (intro exI [of _ "[]"]) (auto simp: walked_def walk_ladder.simps [of call] sheds_def split: option.splits)
    qed
  qed
qed

lemma steps_down_length: "steps_down ts \<Longrightarrow> ts \<noteq> [] \<Longrightarrow> length ts \<le> Suc (rank (hd ts))"
proof (induction ts rule: steps_down.induct)
  case (1 t u ts)
  then have "length (u # ts) \<le> Suc (rank u)" "rank u < rank t" using shed_ladder_rank by auto
  then show ?case by simp
qed simp_all

lemma dispatch_cases:
  "(\<exists>bud. b = Some bud \<and> exhausted bud) \<and> dispatch f call tier b = \<lparr>result = Inl Token_Budget_Exceeded, budget_after = b, tiers_called = []\<rparr> \<or>
   \<not> (\<exists>bud. b = Some bud \<and> exhausted bud) \<and>
     (\<exists>current lower. walked call tier current (add_sheds (if current = tier then [] else sheds tier Budget_Pressure [current]) b) []
        (dispatch f call tier b) lower \<and> (current = tier \<or> shed_ladder tier = Some current))"
proof (cases "\<exists>bud. b = Some bud \<and> exhausted bud")
  case True
  then show ?thesis by (auto simp: dispatch_def)
next
  case False
  obtain current b1 where u: "under_pressure f tier b = (current, b1)" by force
  then have c: "(current = tier \<and> b1 = b) \<or> (shed_ladder tier = Some current \<and> current \<noteq> tier \<and>
      b1 = add_sheds (sheds tier Budget_Pressure [current]) b)"
    by (cases tier) (auto simp: under_pressure_def record_shed_def add_sheds_def sheds_def split: option.splits if_splits)
  have d: "dispatch f call tier b = walk_ladder call tier current b1 []"
    using False by (auto simp: dispatch_def u split: option.splits)
  from walk_ladder_walked [of call tier current b1 "[]"] obtain lower where
    "walked call tier current b1 [] (dispatch f call tier b) lower" by (auto simp: d)
  with False c show ?thesis by auto
qed

lemma dispatch_elim:
  obtains (nothing_left) bud where "b = Some bud" "exhausted bud"
      "dispatch f call tier b = \<lparr>result = Inl Token_Budget_Exceeded, budget_after = b, tiers_called = []\<rparr>"
    | (ladder) current lower where "\<nexists>bud. b = Some bud \<and> exhausted bud"
      "walked call tier current (add_sheds (if current = tier then [] else sheds tier Budget_Pressure [current]) b) []
         (dispatch f call tier b) lower" "current = tier \<or> shed_ladder tier = Some current"
  using dispatch_cases [of b f call tier] by blast

text \<open>
  A dispatch sheds the tier and not the work: it calls at most three models, each one rung
  below the one before, goes down only from a model that was overloaded, and ends with the
  answer of the last it called or with that model's own error, an overload only from the
  lowest tier. It makes no call exactly when the budget of the run is exhausted.
\<close>

theorem dispatch_walks_the_ladder:
  "case dispatch f call tier b of d \<Rightarrow>
     (tiers_called d = [] \<and> result d = Inl Token_Budget_Exceeded \<and> budget_after d = b \<and> (\<exists>bud. b = Some bud \<and> exhausted bud)) \<or>
     (tiers_called d \<noteq> [] \<and> \<not> (\<exists>bud. b = Some bud \<and> exhausted bud) \<and> length (tiers_called d) \<le> 3 \<and>
      steps_down (tiers_called d) \<and> (\<forall>t \<in> set (butlast (tiers_called d)). tier_overloaded call t) \<and>
      (case call (last (tiers_called d)) of
         Answers r usage \<Rightarrow> result d = Inr r
       | Fails e \<Rightarrow> result d = Inl (Call_Failed e) \<and> (is_overload e \<longrightarrow> last (tiers_called d) = Fast_Tier)))"
proof (cases rule: dispatch_elim [of b f call tier])
  case (nothing_left bud)
  then show ?thesis by simp
next
  let ?d = "dispatch f call tier b"
  case (ladder current lower)
  note ne = ladder(1) and w = ladder(2)
  from w have t: "tiers_called ?d = current # lower" "steps_down (current # lower)" by (simp_all add: walked_def)
  have "length (current # lower) \<le> Suc (rank current)" using steps_down_length [OF t(2)] by simp
  moreover have "rank current \<le> 2" by (cases current) simp_all
  ultimately have "length (current # lower) \<le> 3" by simp
  with ne w t show ?thesis by (simp add: walked_def del: last.simps butlast.simps split: call_answer.splits)
qed

text \<open>
  Degradation is recorded, never silent: when a run is given an answer, the downgrades added to
  its budget are exactly the tiers below the requested one that were tried, in order, each
  against the requested tier, and the last one served.
\<close>

theorem answers_below_are_recorded:
  assumes "result (dispatch f call tier (Some bud)) = Inr r"
  shows "\<exists>bud' new. budget_after (dispatch f call tier (Some bud)) = Some bud' \<and>
    shed_events bud' = shed_events bud @ new \<and> (\<forall>e \<in> set new. sh_requested e = tier) \<and>
    map sh_served new = filter (\<lambda>t. t \<noteq> tier) (tiers_called (dispatch f call tier (Some bud))) \<and>
    (new \<noteq> [] \<longleftrightarrow> last (tiers_called (dispatch f call tier (Some bud))) \<noteq> tier)"
proof -
  let ?d = "dispatch f call tier (Some bud)"
  from assms obtain current lower where
    w: "walked call tier current (add_sheds (if current = tier then [] else sheds tier Budget_Pressure [current]) (Some bud)) [] ?d lower"
    and c: "current = tier \<or> shed_ladder tier = Some current"
    by (cases rule: dispatch_elim [of "Some bud" f call tier]) auto
  let ?new = "(if current = tier then [] else sheds tier Budget_Pressure [current]) @ sheds tier Overload lower"
  from w assms obtain q usage where a: "call (last (current # lower)) = Answers q usage"
    by (auto simp: walked_def simp del: last.simps butlast.simps split: call_answer.splits)
  have sd: "steps_down (current # lower)" "tiers_called ?d = current # lower" using w by (simp_all add: walked_def)
  have b: "budget_after ?d = charged usage (add_sheds ?new (Some bud))" using w by (simp add: walked_def a del: last.simps butlast.simps)
  then obtain bud' where bud': "budget_after ?d = Some bud'" "shed_events bud' = shed_events bud @ ?new"
    by (cases usage) (auto simp: charged_def add_sheds_def charge_def record_unmetered_def)
  have below: "rank t < rank current" if "t \<in> set lower" for t
    using sd(1) that
  proof (induction lower arbitrary: current)
    case (Cons u us)
    then have "shed_ladder current = Some u" "steps_down (u # us)" by simp_all
    with Cons show ?case using shed_ladder_rank [of current u] by (cases "t = u") fastforce+
  qed simp
  have cr: "rank current \<le> rank tier" using c shed_ladder_rank by force
  have lo: "\<forall>t \<in> set lower. t \<noteq> tier" using below cr by force
  have "map sh_served ?new = filter (\<lambda>t. t \<noteq> tier) (current # lower)"
    using lo by (auto simp: sheds_def comp_def)
  moreover have "\<forall>e \<in> set ?new. sh_requested e = tier" by (auto simp: sheds_def)
  moreover have "?new \<noteq> [] \<longleftrightarrow> last (current # lower) \<noteq> tier"
    using lo by (cases lower rule: rev_cases) (auto simp: sheds_def)
  ultimately show ?thesis using bud' sd(2) by (intro exI [of _ bud'] exI [of _ ?new]) simp
qed

section \<open>The budget\<close>

definition next_budget :: "pyfloat \<Rightarrow> run_budget \<Rightarrow> model_tier \<times> 'r provider \<Rightarrow> run_budget" where
  "next_budget f bud x = (case budget_after (dispatch f (snd x) (fst x) (Some bud)) of None \<Rightarrow> bud | Some b \<Rightarrow> b)"

definition costs_at_most :: "int \<Rightarrow> 'r provider \<Rightarrow> bool" where
  "costs_at_most c call \<longleftrightarrow> (\<forall>t r u. call t = Answers r (Some u) \<longrightarrow> 0 \<le> billable_tokens u \<and> billable_tokens u \<le> c)"

lemma next_budget_spent:
  assumes "costs_at_most c (snd x)" and "0 \<le> c"
  shows "token_limit (next_budget f bud x) = token_limit bud \<and> spent bud \<le> spent (next_budget f bud x) \<and>
    (if exhausted bud then next_budget f bud x = bud else spent (next_budget f bud x) \<le> spent bud + c)"
proof -
  obtain tier call where x: "x = (tier, call)" by force
  let ?d = "dispatch f call tier (Some bud)"
  show ?thesis
  proof (cases rule: dispatch_elim [of "Some bud" f call tier])
    case (nothing_left bud')
    then show ?thesis by (simp add: next_budget_def x)
  next
    case (ladder current lower)
    note ne = ladder(1) and w = ladder(2)
    let ?new = "(if current = tier then [] else sheds tier Budget_Pressure [current]) @ sheds tier Overload lower"
    have "\<exists>u. (u = None \<or> (\<exists>r v. u = Some v \<and> call (last (current # lower)) = Answers r u)) \<and>
        (budget_after ?d = charged u (add_sheds ?new (Some bud)) \<or> budget_after ?d = add_sheds ?new (Some bud))"
    proof (cases "call (last (current # lower))")
      case (Answers r u)
      with w have "budget_after ?d = charged u (add_sheds ?new (Some bud))"
        by (simp add: walked_def del: last.simps butlast.simps)
      with Answers show ?thesis by (cases u) (auto simp del: last.simps)
    next
      case (Fails e)
      with w have "budget_after ?d = add_sheds ?new (Some bud)"
        by (simp add: walked_def del: last.simps butlast.simps)
      then show ?thesis by blast
    qed
    then obtain u where u: "u = None \<or> (\<exists>r v. u = Some v \<and> call (last (current # lower)) = Answers r u)"
      "budget_after ?d = charged u (add_sheds ?new (Some bud)) \<or> budget_after ?d = add_sheds ?new (Some bud)" by blast
    from u(1) assms have "\<forall>v. u = Some v \<longrightarrow> 0 \<le> billable_tokens v \<and> billable_tokens v \<le> c"
      by (auto simp: costs_at_most_def x)
    with u(2) ne assms(2) show ?thesis
      by (cases u) (auto simp: next_budget_def x charged_def add_sheds_def charge_def record_unmetered_def)
  qed
qed

text \<open>
  C37. The budget guard: over any sequence of dispatches of a run, whatever the provider answers, the
  tokens spent never pass the limit by as much as the cost of one call, and once they have reached it no
  further model is called and nothing changes.
\<close>

theorem budget_overshoots_by_one_call:
  assumes "\<forall>x \<in> set calls. costs_at_most c (snd x)" and "0 \<le> c" and "0 < limit"
  shows "spent (foldl (next_budget f) (new_budget limit) calls) < limit + max 1 c \<and>
    (limit \<le> spent (foldl (next_budget f) (new_budget limit) calls) \<longrightarrow>
       dispatch f call tier (Some (foldl (next_budget f) (new_budget limit) calls)) =
         \<lparr>result = Inl Token_Budget_Exceeded, budget_after = Some (foldl (next_budget f) (new_budget limit) calls),
          tiers_called = []\<rparr>)"
proof -
  let ?ok = "\<lambda>b. token_limit b = limit \<and> spent b < limit + max 1 c"
  have "?ok (foldl (next_budget f) b calls)" if "?ok b" "\<forall>x \<in> set calls. costs_at_most c (snd x)" for b
    using that
  proof (induction calls arbitrary: b)
    case (Cons x calls)
    have "?ok (next_budget f b x)"
      using next_budget_spent [of c x f b] Cons.prems assms(2) by (auto simp: exhausted_def split: if_splits)
    with Cons show ?case by simp
  qed simp
  from this [of "new_budget limit"] assms have ok: "?ok (foldl (next_budget f) (new_budget limit) calls)"
    by (simp add: new_budget_def)
  then show ?thesis by (simp add: dispatch_def exhausted_def)
qed

text \<open>A run whose only dispatch failed on every tier counts as degraded: nothing was answered at all.\<close>

theorem failed_dispatch_counts_as_degraded:
  "let d = dispatch 0 (\<lambda>_. Fails LLM_Timeout) Planner_Tier (Some (new_budget 100)) in
   result d = Inl (Call_Failed LLM_Timeout) \<and> map_option degraded (budget_after d) = Some True"
  by (simp add: dispatch_def under_pressure_def walk_ladder.simps is_overload_def record_shed_def new_budget_def
      exhausted_def degraded_def Let_def add_sheds_def sheds_def)

section \<open>The cache\<close>

datatype cache_step = Cache_Set llm_response cache_request bool | Evict string

definition cache_step :: "(cache_request \<Rightarrow> string) \<Rightarrow> bool \<Rightarrow> redis \<Rightarrow> cache_step \<Rightarrow> redis" where
  "cache_step sha enabled db s = (case s of
       Cache_Set r q up \<Rightarrow> snd (cache_set sha enabled up r q db) | Evict k \<Rightarrow> db(k := None))"

lemma cache_step_cases:
  "cache_step sha enabled db s k = db k \<or> cache_step sha enabled db s k = None \<or>
   (\<exists>r q up. s = Cache_Set r q up \<and> k = completion_cache_key sha q \<and>
      cache_step sha enabled db s k = Some (Payload (as_payload r)) \<and> \<not> truncated r)"
  by (cases s) (simp_all add: cache_step_def cache_set_def truncated_def)

lemma cache_holds:
  assumes "foldl (cache_step sha enabled) (\<lambda>_. None) ss k = Some v"
  shows "\<exists>r q up. Cache_Set r q up \<in> set ss \<and> k = completion_cache_key sha q \<and> v = Payload (as_payload r) \<and> \<not> truncated r"
  using assms
proof (induction ss rule: rev_induct)
  case (snoc s ss)
  let ?db = "foldl (cache_step sha enabled) (\<lambda>_. None) ss"
  show ?case
  proof (cases "?db k = Some v")
    case True
    with snoc.IH obtain r q up where "Cache_Set r q up \<in> set ss" "k = completion_cache_key sha q"
      "v = Payload (as_payload r)" "\<not> truncated r" by blast
    then show ?thesis by auto
  next
    case False
    moreover from snoc.prems have "cache_step sha enabled ?db s k = Some v" by simp
    ultimately obtain r q up where "s = Cache_Set r q up" "k = completion_cache_key sha q"
      "v = Payload (as_payload r)" "\<not> truncated r"
      using cache_step_cases [of sha enabled ?db s k] by auto
    then show ?thesis by auto
  qed
qed simp

lemma response_of_payload:
  "as_response (as_payload r) = r\<lparr>lr_input := 0, lr_output := 0, lr_cached := total_tokens r\<rparr>"
  by (simp add: as_response_def as_payload_def payload_text_def payload_int_def total_tokens_def split: option.splits)

text \<open>
  Whatever was stored and evicted before, a hit is the answer to the same question: it was
  stored under the same prompt, system, model, schema and parameters, it is not truncated, it
  has the text and the size of the answer stored, and it costs nothing. The hash is
  assumed not to collide on these requests, as the code relies on SHA-256 not to.
\<close>

theorem cache_hits_are_exact_and_free:
  assumes "\<forall>r p w. Cache_Set r p w \<in> set ss \<longrightarrow> sha (cache_material p) = sha (cache_material q) \<longrightarrow>
      cache_material p = cache_material q"
    and "cache_get sha enabled up (foldl (cache_step sha enabled) (\<lambda>_. None) ss) q = Some hit"
  shows "\<exists>r p w. Cache_Set r p w \<in> set ss \<and> cache_material p = cache_material q \<and> \<not> truncated r \<and>
    lr_text hit = lr_text r \<and> lr_model hit = lr_model r \<and> lr_stop hit = lr_stop r \<and>
    billable_tokens hit = 0 \<and> total_tokens hit = total_tokens r"
proof -
  from assms(2) obtain d where d: "foldl (cache_step sha enabled) (\<lambda>_. None) ss (completion_cache_key sha q) = Some (Payload d)"
    "hit = as_response d" by (auto simp: cache_get_def split: if_splits option.splits stored.splits)
  from cache_holds [OF d(1)] obtain r p w where r: "Cache_Set r p w \<in> set ss"
    "completion_cache_key sha q = completion_cache_key sha p" "Payload d = Payload (as_payload r)" "\<not> truncated r" by blast
  from r(2) have "sha (cache_material p) = sha (cache_material q)" by (simp add: completion_cache_key_def)
  with assms(1) r(1) have "cache_material p = cache_material q" by blast
  with r d(2) show ?thesis
    by (intro exI [of _ r] exI [of _ p] exI [of _ w])
      (simp add: response_of_payload billable_tokens_def total_tokens_def)
qed

section \<open>Instances\<close>

text \<open>Evaluated dispatches and a cached answer.\<close>

definition answer :: "int \<Rightarrow> llm_response" where
  "answer n = \<lparr>lr_text = ''yes'', lr_model = ''m'', lr_input = n, lr_output = 10, lr_cached = 5, lr_stop = None\<rparr>"

definition busy_planner :: "llm_response provider" where
  "busy_planner = complete_call (\<lambda>t. if t = Planner_Tier then Inl LLM_Rate_Limited else Inr (answer 60))"

lemma busy_planner_answers [simp]:
  "busy_planner Planner_Tier = Fails LLM_Rate_Limited"
  "busy_planner Worker_Tier = Answers (answer 60) (Some (answer 60))"
  by (simp_all add: busy_planner_def complete_call_def)

lemma busy_planner_dispatch:
  "dispatch DEFAULT_PRESSURE_FRACTION busy_planner Planner_Tier (Some (new_budget 100)) =
     \<lparr>result = Inr (answer 60),
      budget_after = Some \<lparr>token_limit = 100, spent = 70, unmetered_calls = 0,
        shed_events = [\<lparr>sh_requested = Planner_Tier, sh_served = Worker_Tier, sh_reason = Overload\<rparr>]\<rparr>,
      tiers_called = [Planner_Tier, Worker_Tier]\<rparr>"
  by (simp add: dispatch_def under_pressure_def exhausted_def new_budget_def remaining_fraction_def remaining_tokens_def
      walk_ladder.simps [of busy_planner] DEFAULT_PRESSURE_FRACTION_def is_overload_def charged_def charge_def
      record_shed_def billable_tokens_def answer_def add_sheds_def sheds_def)

theorem dispatch_walks_the_ladder_witness:
  "steps_down [Planner_Tier, Worker_Tier] \<and> tier_overloaded busy_planner Planner_Tier"
  using dispatch_walks_the_ladder [of DEFAULT_PRESSURE_FRACTION busy_planner Planner_Tier "Some (new_budget 100)"]
  by (simp add: busy_planner_dispatch)

theorem answers_below_are_recorded_witness:
  "\<exists>bud' new. budget_after (dispatch DEFAULT_PRESSURE_FRACTION busy_planner Planner_Tier (Some (new_budget 100))) = Some bud' \<and>
     shed_events bud' = new \<and> map sh_served new = [Worker_Tier]"
proof -
  have "result (dispatch DEFAULT_PRESSURE_FRACTION busy_planner Planner_Tier (Some (new_budget 100))) = Inr (answer 60)"
    by (simp add: busy_planner_dispatch)
  from answers_below_are_recorded [OF this] show ?thesis by (simp add: busy_planner_dispatch)
qed

theorem budget_overshoots_by_one_call_witness:
  "spent (foldl (next_budget DEFAULT_PRESSURE_FRACTION) (new_budget 100) [(Planner_Tier, busy_planner), (Worker_Tier, busy_planner),
      (Fast_Tier, busy_planner)]) < 170"
proof -
  have "\<forall>x \<in> set [(Planner_Tier, busy_planner), (Worker_Tier, busy_planner), (Fast_Tier, busy_planner)].
      costs_at_most 70 (snd x)"
    by (auto simp: costs_at_most_def busy_planner_def complete_call_def answer_def billable_tokens_def split: if_splits)
  from budget_overshoots_by_one_call [OF this, of 100 DEFAULT_PRESSURE_FRACTION, THEN conjunct1] show ?thesis by simp
qed

definition question :: "string \<Rightarrow> cache_request" where
  "question m = \<lparr>cr_prompt = ''p'', cr_model = m, cr_system = None, cr_schema = None, cr_params = []\<rparr>"

theorem cache_hits_are_exact_and_free_witness:
  "\<exists>hit. cache_get cr_model True True
      (foldl (cache_step cr_model True) (\<lambda>_. None) [Cache_Set (answer 60) (question ''big'') True]) (question ''big'') = Some hit \<and>
    lr_text hit = ''yes'' \<and> billable_tokens hit = 0 \<and> total_tokens hit = 75"
proof -
  let ?ss = "[Cache_Set (answer 60) (question ''big'') True]"
  obtain hit where h: "cache_get cr_model True True (foldl (cache_step cr_model True) (\<lambda>_. None) ?ss) (question ''big'') = Some hit"
    by (auto simp: cache_get_def cache_step_def cache_set_def answer_def)
  have "\<forall>r p w. Cache_Set r p w \<in> set ?ss \<longrightarrow> cr_model (cache_material p) = cr_model (cache_material (question ''big'')) \<longrightarrow>
      cache_material p = cache_material (question ''big'')" by simp
  from cache_hits_are_exact_and_free [OF this h] obtain r p w where
    r: "Cache_Set r p w \<in> set ?ss" "lr_text hit = lr_text r" "billable_tokens hit = 0" "total_tokens hit = total_tokens r"
    by blast
  then have "lr_text hit = ''yes''" "total_tokens hit = 75" by (simp_all add: answer_def total_tokens_def)
  with r(3) h show ?thesis by blast
qed

end
