(* ===== verification/Blocking.thy ===== *)
theory Blocking
  imports Resolution
begin

text \<open>
  \<open>graph/resolution/blocking.py\<close> on ASCII names: normalisation, the phonetic skeleton, the
  blocking keys of a record and the inverted index over them. The hyperplanes of the
  embedding keys are drawn from a seeded generator of the standard library and are an
  argument, as is the square root.
\<close>

section \<open>Names\<close>

definition LEGAL_SUFFIX_TOKENS :: "string list" where
  "LEGAL_SUFFIX_TOKENS = [''inc'', ''incorporated'', ''corp'', ''corporation'', ''co'', ''company'', ''llc'', ''lc'',
     ''llp'', ''lp'', ''ltd'', ''limited'', ''plc'', ''gmbh'', ''mbh'', ''ag'', ''sa'', ''sas'', ''sarl'', ''srl'', ''spa'',
     ''bv'', ''nv'', ''ab'', ''as'', ''oy'', ''oyj'', ''kk'', ''pty'', ''pte'', ''kft'', ''zrt'', ''doo'', ''dba'']"

definition LEADING_ARTICLES :: "string list" where
  "LEADING_ARTICLES = [''the'']"

definition GENERIC_TOKENS :: "string list" where
  "GENERIC_TOKENS = [''ai'', ''analytics'', ''app'', ''apps'', ''cloud'', ''data'', ''digital'', ''global'', ''group'',
     ''holdings'', ''international'', ''labs'', ''media'', ''network'', ''networks'', ''online'', ''platform'',
     ''services'', ''software'', ''solutions'', ''systems'', ''tech'', ''technologies'', ''technology'', ''ventures'']"

definition NAME_PREFIX_LENGTH :: nat where "NAME_PREFIX_LENGTH = 4"
definition MIN_PHONETIC_TOKEN_LENGTH :: nat where "MIN_PHONETIC_TOKEN_LENGTH = 4"
definition DEFAULT_MAX_BLOCK_SIZE :: nat where "DEFAULT_MAX_BLOCK_SIZE = 200"
definition LSH_BANDS :: nat where "LSH_BANDS = 4"
definition LSH_BITS_PER_BAND :: nat where "LSH_BITS_PER_BAND = 8"

definition is_apostrophe :: "char \<Rightarrow> bool" where
  "is_apostrophe c \<longleftrightarrow> c = CHR 0x27 \<or> c = CHR 0x60"

definition expand_ampersand :: "string \<Rightarrow> string" where
  "expand_ampersand s = concat (map (\<lambda>c. if c = CHR ''&'' then '' and '' else [c]) s)"

definition cleaned_name :: "string \<Rightarrow> string" where
  "cleaned_name raw = map (\<lambda>c. if is_alnum c then c else CHR '' '')
     (filter (\<lambda>c. \<not> is_apostrophe c) (py_lower (expand_ampersand raw)))"

definition normal_tokens :: "string list \<Rightarrow> string list" where
  "normal_tokens tokens =
     (let rest = (case tokens of t # u # ts \<Rightarrow> if t \<in> set LEADING_ARTICLES then u # ts else tokens | _ \<Rightarrow> tokens);
          kept = filter (\<lambda>t. t \<notin> set LEGAL_SUFFIX_TOKENS) rest in
      if kept = [] then rest else kept)"

definition normalize_name :: "string \<Rightarrow> string" where
  "normalize_name raw = py_join '' '' (normal_tokens (py_split (cleaned_name raw)))"

definition name_tokens :: "string \<Rightarrow> string list" where
  "name_tokens raw = py_split (normalize_name raw)"

section \<open>Sounds\<close>

definition upper_char :: "char \<Rightarrow> char" where
  "upper_char c = (if 97 \<le> (of_char c :: nat) \<and> (of_char c :: nat) \<le> 122
     then char_of ((of_char c :: nat) - 32) else c)"

definition is_upper :: "char \<Rightarrow> bool" where
  "is_upper c \<longleftrightarrow> 65 \<le> (of_char c :: nat) \<and> (of_char c :: nat) \<le> 90"

definition VOWELS :: string where "VOWELS = ''AEIOU''"

definition at_char :: "string \<Rightarrow> char set \<Rightarrow> bool" where
  "at_char s cs \<longleftrightarrow> (case s of [] \<Rightarrow> False | c # _ \<Rightarrow> c \<in> cs)"

definition vowel_at :: "string \<Rightarrow> bool" where
  "vowel_at s \<longleftrightarrow> at_char s (set VOWELS)"

definition prev_in :: "char option \<Rightarrow> char set \<Rightarrow> bool" where
  "prev_in p cs \<longleftrightarrow> (case p of None \<Rightarrow> False | Some c \<Rightarrow> c \<in> cs)"

definition initial_cluster :: "string \<Rightarrow> string" where
  "initial_cluster w =
     (if take 2 w \<in> {''AE'', ''GN'', ''KN'', ''PN'', ''WR''} then drop 1 w
      else if take 1 w = ''X'' then CHR ''S'' # drop 1 w
      else if take 2 w = ''WH'' then CHR ''W'' # drop 1 w
      else w)"

text \<open>One consonant: the character before it, and what follows it.\<close>

definition consonant_code :: "char option \<Rightarrow> char \<Rightarrow> string \<Rightarrow> string" where
  "consonant_code p c rest =
     (let nxt = (\<lambda>cs. at_char rest cs); nxt2 = (\<lambda>cs. at_char (drop 1 rest) cs) in
      if c = CHR ''B'' then (if rest = [] \<and> p = Some (CHR ''M'') then [] else ''B'')
      else if c = CHR ''C'' then
        (if nxt {CHR ''H''} \<or> nxt {CHR ''I''} \<and> nxt2 {CHR ''A''} then ''X''
         else if nxt {CHR ''I'', CHR ''E'', CHR ''Y''} then ''S'' else ''K'')
      else if c = CHR ''D'' then
        (if nxt {CHR ''G''} \<and> nxt2 {CHR ''E'', CHR ''Y'', CHR ''I''} then ''J'' else ''T'')
      else if c = CHR ''G'' then
        (if nxt {CHR ''H''} \<and> \<not> nxt2 (set VOWELS) then []
         else if nxt {CHR ''N''} then []
         else if nxt {CHR ''I'', CHR ''E'', CHR ''Y''} then ''J'' else ''K'')
      else if c = CHR ''H'' then
        (if prev_in p (set VOWELS) \<and> \<not> nxt (set VOWELS) then []
         else if prev_in p {CHR ''C'', CHR ''S'', CHR ''P'', CHR ''T'', CHR ''G''} then [] else ''H'')
      else if c = CHR ''K'' then (if p = Some (CHR ''C'') then [] else ''K'')
      else if c = CHR ''P'' then (if nxt {CHR ''H''} then ''F'' else ''P'')
      else if c = CHR ''Q'' then ''K''
      else if c = CHR ''S'' then
        (if nxt {CHR ''H''} \<or> nxt {CHR ''I''} \<and> nxt2 {CHR ''O'', CHR ''A''} then ''X'' else ''S'')
      else if c = CHR ''T'' then
        (if nxt {CHR ''I''} \<and> nxt2 {CHR ''O'', CHR ''A''} then ''X''
         else if nxt {CHR ''H''} then ''0''
         else if \<not> (nxt {CHR ''C''} \<and> nxt2 {CHR ''H''}) then ''T'' else [])
      else if c = CHR ''V'' then ''F''
      else if c = CHR ''W'' \<or> c = CHR ''Y'' then (if nxt (set VOWELS) then [c] else [])
      else if c = CHR ''X'' then ''KS''
      else if c = CHR ''Z'' then ''S''
      else [c])"

fun skeleton :: "char option \<Rightarrow> string \<Rightarrow> string" where
  "skeleton p [] = []"
| "skeleton p (c # rest) =
     (if p = Some c \<and> c \<noteq> CHR ''C'' then []
      else if c \<in> set VOWELS then (if p = None then [c] else [])
      else consonant_code p c rest) @ skeleton (Some c) rest"

definition phonetic_code :: "string \<Rightarrow> string" where
  "phonetic_code token = skeleton None (initial_cluster (filter is_upper (map upper_char token)))"

section \<open>Records\<close>

definition add_surface :: "(string \<times> string) list \<Rightarrow> string \<Rightarrow> (string \<times> string) list" where
  "add_surface seen s =
     (let n = normalize_name s in
      if n \<noteq> [] \<and> map_of seen n = None then seen @ [(n, s)] else seen)"

definition surfaces :: "resolution_record \<Rightarrow> string list" where
  "surfaces r = map snd (foldl add_surface [] (res_name r # aliases r))"

definition normalized_surfaces :: "resolution_record \<Rightarrow> string set" where
  "normalized_surfaces r = normalize_name ` set (filter (\<lambda>s. py_strip s \<noteq> []) (res_name r # aliases r))"

section \<open>Keys\<close>

datatype block_kind = IDENTIFIER | EXACT | ALIAS | TOKEN_SET | PREFIX | PHONETIC | EMBEDDING_LSH

fun kind_value :: "block_kind \<Rightarrow> string" where
  "kind_value IDENTIFIER = ''ident''"
| "kind_value EXACT = ''exact''"
| "kind_value ALIAS = ''alias''"
| "kind_value TOKEN_SET = ''tokens''"
| "kind_value PREFIX = ''prefix''"
| "kind_value PHONETIC = ''phon''"
| "kind_value EMBEDDING_LSH = ''lsh''"

definition LOW_PRECISION_KINDS :: "block_kind list" where
  "LOW_PRECISION_KINDS = [PREFIX, PHONETIC, EMBEDDING_LSH]"

type_synonym blocking_key = "block_kind \<times> string"

text \<open>The bits of one band, the first the highest, as eight binary digits.\<close>

definition dot_product :: "pyfloat list \<Rightarrow> pyfloat list \<Rightarrow> pyfloat" where
  "dot_product xs ys = sum_list (map2 (*) xs ys)"

definition band_bits :: "pyfloat list list \<Rightarrow> nat \<Rightarrow> pyfloat list \<Rightarrow> string" where
  "band_bits planes band v =
     map (\<lambda>i. if dot_product (planes ! (band * LSH_BITS_PER_BAND + i)) v \<ge> 0 then CHR ''1'' else CHR ''0'')
       [0..<LSH_BITS_PER_BAND]"

definition lsh_keys :: "(nat \<Rightarrow> pyfloat list list) \<Rightarrow> pyfloat list option \<Rightarrow> blocking_key list" where
  "lsh_keys hyperplanes e =
     (case e of
        None \<Rightarrow> []
      | Some v \<Rightarrow>
          if v = [] \<or> list_all (\<lambda>x. x = 0) v then []
          else map (\<lambda>b. (EMBEDDING_LSH, str_nat b @ '':'' @ band_bits (hyperplanes (length v)) b v)) [0..<LSH_BANDS])"

definition identifier_keys :: "resolution_record \<Rightarrow> blocking_key list" where
  "identifier_keys r =
     map (\<lambda>(k, v). (IDENTIFIER, k @ ''='' @ v)) (filter (\<lambda>(k, v). v \<noteq> []) (sort_key fst (identifiers r)))"

definition name_keys :: "resolution_record \<Rightarrow> blocking_key list" where
  "name_keys r =
     (let n = normalize_name (res_name r); collapsed = filter (\<lambda>c. c \<noteq> CHR '' '') n;
          tokens = name_tokens (res_name r); whole = concat (map phonetic_code tokens) in
      if n = [] then []
      else [(EXACT, n)]
        @ (if length collapsed \<ge> 2 then [(PREFIX, take NAME_PREFIX_LENGTH collapsed)] else [])
        @ (if length tokens > 1 then [(TOKEN_SET, py_join '' '' (sort tokens))] else [])
        @ (if whole \<noteq> [] then [(PHONETIC, whole)] else [])
        @ map (\<lambda>t. (PHONETIC, phonetic_code t))
            (filter (\<lambda>t. \<not> (length t < MIN_PHONETIC_TOKEN_LENGTH \<or> t \<in> set GENERIC_TOKENS)
                \<and> phonetic_code t \<noteq> [] \<and> phonetic_code t \<noteq> whole) (sort (remdups tokens))))"

definition alias_keys :: "resolution_record \<Rightarrow> blocking_key list" where
  "alias_keys r = map (Pair ALIAS) (filter (\<lambda>n. n \<noteq> []) (map normalize_name (surfaces r)))"

definition blocking_keys :: "(nat \<Rightarrow> pyfloat list list) \<Rightarrow> resolution_record \<Rightarrow> blocking_key list" where
  "blocking_keys hyperplanes r =
     ordered_unique (identifier_keys r @ name_keys r @ alias_keys r @ lsh_keys hyperplanes (embedding r))"

section \<open>The index\<close>

record blocking_index =
  by_key :: "(blocking_key \<times> string list) list"
  indexed :: "(string \<times> resolution_record) list"
  max_block_size :: "nat option"
  oversized_blocks :: "(blocking_key \<times> nat) list"

definition new_index :: "nat option \<Rightarrow> blocking_index" where
  "new_index cap = \<lparr>by_key = [], indexed = [], max_block_size = cap, oversized_blocks = []\<rparr>"

definition bucket :: "(blocking_key \<times> string list) list \<Rightarrow> blocking_key \<Rightarrow> string list" where
  "bucket d k = (case map_of d k of None \<Rightarrow> [] | Some ids \<Rightarrow> ids)"

definition drop_from :: "string \<Rightarrow> (blocking_key \<times> string list) list \<Rightarrow> blocking_key \<Rightarrow> (blocking_key \<times> string list) list" where
  "drop_from i d k =
     (case map_of d k of
        None \<Rightarrow> d
      | Some ids \<Rightarrow>
          let left = filter (\<lambda>j. j \<noteq> i) ids in
          if left = [] then AList.delete k d else AList.update k left d)"

definition remove_record :: "(resolution_record \<Rightarrow> blocking_key list) \<Rightarrow> string \<Rightarrow> blocking_index \<Rightarrow> blocking_index" where
  "remove_record keys i x =
     (case map_of (indexed x) i of
        None \<Rightarrow> x
      | Some r \<Rightarrow> x\<lparr>indexed := AList.delete i (indexed x), by_key := foldl (drop_from i) (by_key x) (keys r)\<rparr>)"

definition put_in :: "string \<Rightarrow> (blocking_key \<times> string list) list \<Rightarrow> blocking_key \<Rightarrow> (blocking_key \<times> string list) list" where
  "put_in i d k = AList.update k (bucket d k @ [i]) d"

definition add_record :: "(resolution_record \<Rightarrow> blocking_key list) \<Rightarrow> resolution_record \<Rightarrow> blocking_index \<Rightarrow> blocking_index" where
  "add_record keys r x =
     (let x1 = (if map_of (indexed x) (res_id r) \<noteq> None then remove_record keys (res_id r) x else x) in
      x1\<lparr>indexed := AList.update (res_id r) r (indexed x1), by_key := foldl (put_in (res_id r)) (by_key x1) (keys r)\<rparr>)"

definition block :: "blocking_index \<Rightarrow> blocking_key \<Rightarrow> string list" where
  "block x k = sort (bucket (by_key x) k)"

definition candidates_for :: "(resolution_record \<Rightarrow> blocking_key list) \<Rightarrow> resolution_record \<Rightarrow> blocking_index \<Rightarrow> string list" where
  "candidates_for keys r x =
     sort (remdups (filter (\<lambda>i. i \<noteq> res_id r) (concat (map (bucket (by_key x)) (keys r)))))"

definition shared_blocking_keys :: "(resolution_record \<Rightarrow> blocking_key list) \<Rightarrow> string \<Rightarrow> string \<Rightarrow> blocking_index \<Rightarrow> blocking_key list" where
  "shared_blocking_keys keys i j x =
     (case (map_of (indexed x) i, map_of (indexed x) j) of
        (Some l, Some r) \<Rightarrow>
          sort_key (\<lambda>k. (kind_value (fst k), snd k)) (filter (\<lambda>k. k \<in> set (keys r)) (remdups (keys l)))
      | _ \<Rightarrow> [])"

definition is_oversized :: "nat option \<Rightarrow> blocking_key \<Rightarrow> nat \<Rightarrow> bool" where
  "is_oversized cap k n \<longleftrightarrow>
     (case cap of None \<Rightarrow> False | Some c \<Rightarrow> fst k \<in> set LOW_PRECISION_KINDS \<and> n > c)"

fun pairs_of :: "string list \<Rightarrow> pair list" where
  "pairs_of [] = []"
| "pairs_of (i # is) = map (Pair i) is @ pairs_of is"

definition index_candidates :: "blocking_index \<Rightarrow> pair list \<times> blocking_index" where
  "index_candidates x =
     (let usable = filter (\<lambda>(k, ids). length ids \<ge> 2 \<and> \<not> is_oversized (max_block_size x) k (length ids)) (by_key x);
          big = filter (\<lambda>(k, ids). length ids \<ge> 2 \<and> is_oversized (max_block_size x) k (length ids)) (by_key x) in
      (sort (remdups (concat (map (\<lambda>(k, ids). pairs_of (sort ids)) usable))),
       x\<lparr>oversized_blocks := map (\<lambda>(k, ids). (k, length ids)) big\<rparr>))"

record blocking_stats =
  bs_records :: nat
  bs_keys :: nat
  bs_blocks :: nat
  bs_largest :: nat
  bs_candidates :: nat
  bs_skipped_blocks :: nat
  bs_skipped_pairs :: nat

definition index_stats :: "blocking_index \<Rightarrow> blocking_stats" where
  "index_stats x =
     (let (ps, y) = index_candidates x in
      \<lparr>bs_records = length (indexed y), bs_keys = length (by_key y),
       bs_blocks = length (filter (\<lambda>(k, ids). length ids > 1) (by_key y)),
       bs_largest = foldl max 0 (map (length \<circ> snd) (by_key y)), bs_candidates = length ps,
       bs_skipped_blocks = length (oversized_blocks y),
       bs_skipped_pairs = (\<Sum>(k, n) \<leftarrow> oversized_blocks y. n * (n - 1) div 2)\<rparr>)"

section \<open>Cosine\<close>

definition cosine_similarity :: "(pyfloat \<Rightarrow> pyfloat) \<Rightarrow> pyfloat list \<Rightarrow> pyfloat list \<Rightarrow> pyfloat option" where
  "cosine_similarity sqrt_of l r =
     (if length l \<noteq> length r \<or> l = [] then None
      else if dot_product l l \<le> 0 \<or> dot_product r r \<le> 0 then None
      else Some (dot_product l r / sqrt_of (dot_product l l * dot_product r r)))"

end
