(* ===== verification/Matcher.thy ===== *)
theory Matcher
  imports Blocking
begin

text \<open>
  \<open>graph/resolution/matcher.py\<close>: the four features of a pair, the rules that override them, the
  combined score and its band, the memo of a pass. The string measures of the package
  \<open>rapidfuzz\<close> and the square root are arguments. The prose of a feature's detail is left out,
  what it says is kept.
\<close>

section \<open>Weights and thresholds\<close>

definition MATCH_WEIGHTS :: "(string \<times> pyfloat) list" where
  "MATCH_WEIGHTS = [(''name'', 35 / 100), (''alias'', 20 / 100), (''embedding'', 25 / 100), (''context'', 20 / 100)]"

definition BLEND_TOKEN_SET :: pyfloat where "BLEND_TOKEN_SET = 40 / 100"
definition BLEND_TOKEN_SORT :: pyfloat where "BLEND_TOKEN_SORT = 25 / 100"
definition BLEND_JARO_WINKLER :: pyfloat where "BLEND_JARO_WINKLER = 15 / 100"
definition BLEND_COVERAGE :: pyfloat where "BLEND_COVERAGE = 20 / 100"
definition TOKEN_MATCH_RATIO :: pyfloat where "TOKEN_MATCH_RATIO = 85"
definition EXTRA_TOKEN_PENALTY :: pyfloat where "EXTRA_TOKEN_PENALTY = 1 / 2"
definition AUTO_MERGE_THRESHOLD :: pyfloat where "AUTO_MERGE_THRESHOLD = 92 / 100"
definition REVIEW_THRESHOLD :: pyfloat where "REVIEW_THRESHOLD = 75 / 100"
definition NAME_EVIDENCE_FLOOR :: pyfloat where "NAME_EVIDENCE_FLOOR = 55 / 100"
definition MAX_ALIAS_COMPARISONS :: nat where "MAX_ALIAS_COMPARISONS = 64"

section \<open>Features\<close>

record measures =
  ratio :: "string \<Rightarrow> string \<Rightarrow> pyfloat"
  token_set_ratio :: "string \<Rightarrow> string \<Rightarrow> pyfloat"
  token_sort_ratio :: "string \<Rightarrow> string \<Rightarrow> pyfloat"
  jaro_winkler :: "string \<Rightarrow> string \<Rightarrow> pyfloat"
  square_root :: "pyfloat \<Rightarrow> pyfloat"

datatype detail =
    Blended
  | No_alias_declared
  | No_surfaces
  | Exact_surface string
  | No_surface_pair
  | No_alias_evidence pyfloat nat
  | Best_of nat
  | Vector_missing
  | Dimension_mismatch nat nat
  | Zero_magnitude
  | Cosine
  | Context_empty
  | Context_disjoint
  | Context_shared nat nat

record feature_score =
  f_name :: string
  f_value :: "pyfloat option"
  f_weight :: pyfloat
  f_detail :: detail

record explained_score = match_score +
  e_left :: string
  e_right :: string
  e_features :: "feature_score list"

definition default_weight :: "string \<Rightarrow> pyfloat" where
  "default_weight n = (case map_of MATCH_WEIGHTS n of None \<Rightarrow> 0 | Some w \<Rightarrow> w)"

definition clamp01 :: "pyfloat \<Rightarrow> pyfloat" where
  "clamp01 x = max 0 (min 1 x)"

definition covered :: "measures \<Rightarrow> string list \<Rightarrow> string list \<Rightarrow> nat" where
  "covered ms source target =
     length (filter (\<lambda>t. list_ex (\<lambda>u. ratio ms t u \<ge> TOKEN_MATCH_RATIO) target) source)"

definition token_coverage :: "measures \<Rightarrow> string list \<Rightarrow> string list \<Rightarrow> pyfloat" where
  "token_coverage ms left right =
     (if left = [] \<or> right = [] then 0
      else of_nat (covered ms left right + covered ms right left) / of_nat (length left + length right))"

definition name_similarity :: "measures \<Rightarrow> string \<Rightarrow> string \<Rightarrow> pyfloat option" where
  "name_similarity ms left right =
     (let l = normalize_name left; r = normalize_name right in
      if l = [] \<or> r = [] then None
      else if l = r then Some 1
      else
        let coverage = token_coverage ms (name_tokens left) (name_tokens right);
            blend = BLEND_TOKEN_SET * token_set_ratio ms l r / 100 + BLEND_TOKEN_SORT * token_sort_ratio ms l r / 100
              + BLEND_JARO_WINKLER * jaro_winkler ms l r + BLEND_COVERAGE * coverage;
            penalty = 1 - EXTRA_TOKEN_PENALTY * (1 - coverage) in
        Some (clamp01 (blend * penalty)))"

definition name_feature :: "measures \<Rightarrow> pyfloat \<Rightarrow> resolution_record \<Rightarrow> resolution_record \<Rightarrow> feature_score" where
  "name_feature ms w l r =
     \<lparr>f_name = ''name'', f_value = name_similarity ms (res_name l) (res_name r), f_weight = w, f_detail = Blended\<rparr>"

definition feature_of :: "string \<Rightarrow> pyfloat option \<Rightarrow> detail \<Rightarrow> feature_score" where
  "feature_of n v d = \<lparr>f_name = n, f_value = v, f_weight = default_weight n, f_detail = d\<rparr>"

text \<open>
  The surfaces of a record normalised, in sorted order. The two loops over them skip the pair of
  the canonical names and stop after a fixed number of comparisons.
\<close>

definition sorted_surfaces :: "resolution_record \<Rightarrow> string list" where
  "sorted_surfaces r =
     sort (remdups (map normalize_name (filter (\<lambda>s. py_strip s \<noteq> []) (res_name r # aliases r))))"

definition surface_pairs :: "string list \<Rightarrow> string list \<Rightarrow> string \<Rightarrow> string \<Rightarrow> (string \<times> string) list" where
  "surface_pairs ls rs lc rc =
     take MAX_ALIAS_COMPARISONS (filter (\<lambda>p. p \<noteq> (lc, rc)) (List.product ls rs))"

definition better_similarity :: "pyfloat \<Rightarrow> pyfloat option \<Rightarrow> pyfloat" where
  "better_similarity best s = (case s of None \<Rightarrow> best | Some v \<Rightarrow> if v > best then v else best)"

definition best_similarity :: "measures \<Rightarrow> (string \<times> string) list \<Rightarrow> pyfloat" where
  "best_similarity ms ps = foldl better_similarity 0 (map (\<lambda>(l, r). name_similarity ms l r) ps)"

definition alias_feature :: "measures \<Rightarrow> resolution_record \<Rightarrow> resolution_record \<Rightarrow> feature_score" where
  "alias_feature ms l r =
     (if aliases l = [] \<and> aliases r = [] then feature_of ''alias'' None No_alias_declared
      else
        let ls = sorted_surfaces l; rs = sorted_surfaces r in
        if ls = [] \<or> rs = [] then feature_of ''alias'' None No_surfaces
        else
          let lc = normalize_name (res_name l); rc = normalize_name (res_name r);
              shared = filter (\<lambda>s. s \<in> set rs \<and> \<not> (lc = rc \<and> s = lc)) ls in
          case shared of
            hit # _ \<Rightarrow> feature_of ''alias'' (Some 1) (Exact_surface hit)
          | [] \<Rightarrow>
              let ps = surface_pairs ls rs lc rc; best = best_similarity ms ps in
              if ps = [] then feature_of ''alias'' None No_surface_pair
              else if best < REVIEW_THRESHOLD then feature_of ''alias'' None (No_alias_evidence best (length ps))
              else feature_of ''alias'' (Some best) (Best_of (length ps)))"

definition cosine_similarity :: "measures \<Rightarrow> pyfloat list \<Rightarrow> pyfloat list \<Rightarrow> pyfloat option" where
  "cosine_similarity ms xs ys =
     (if length xs \<noteq> length ys \<or> xs = [] then None
      else
        let dot = dot_product xs ys; ln = dot_product xs xs; rn = dot_product ys ys in
        if ln \<le> 0 \<or> rn \<le> 0 then None else Some (dot / square_root ms (ln * rn)))"

definition embedding_feature :: "measures \<Rightarrow> resolution_record \<Rightarrow> resolution_record \<Rightarrow> feature_score" where
  "embedding_feature ms l r =
     (case (embedding l, embedding r) of
        (Some x, Some y) \<Rightarrow>
          if length x \<noteq> length y then feature_of ''embedding'' None (Dimension_mismatch (length x) (length y))
          else (case cosine_similarity ms x y of
              None \<Rightarrow> feature_of ''embedding'' None Zero_magnitude
            | Some c \<Rightarrow> feature_of ''embedding'' (Some (clamp01 c)) Cosine)
      | _ \<Rightarrow> feature_of ''embedding'' None Vector_missing)"

definition context_feature :: "resolution_record \<Rightarrow> resolution_record \<Rightarrow> feature_score" where
  "context_feature l r =
     (let shared = card (context_ids l \<inter> context_ids r); joined = card (context_ids l \<union> context_ids r) in
      if context_ids l = {} \<or> context_ids r = {} then feature_of ''context'' None Context_empty
      else if shared = 0 then feature_of ''context'' None Context_disjoint
      else feature_of ''context'' (Some (of_nat shared / of_nat joined)) (Context_shared shared joined))"

section \<open>Rules\<close>

definition type_conflict :: "resolution_record \<Rightarrow> resolution_record \<Rightarrow> bool" where
  "type_conflict l r \<longleftrightarrow> res_type l \<noteq> res_type r \<and> UNKNOWN_TYPE \<notin> {res_type l, res_type r}"

definition is_handle :: "string \<Rightarrow> bool" where
  "is_handle k \<longleftrightarrow> take 7 k = ''handle:''"

definition strong_identifiers :: "resolution_record \<Rightarrow> resolution_record \<Rightarrow> string list" where
  "strong_identifiers l r =
     sort (remdups (filter (\<lambda>k. map_of (identifiers r) k \<noteq> None \<and> \<not> is_handle k) (map fst (identifiers l))))"

definition identifier_verdict :: "resolution_record \<Rightarrow> resolution_record \<Rightarrow> (bool \<times> string) option" where
  "identifier_verdict l r =
     (let strong = strong_identifiers l r in
      case filter (\<lambda>k. map_of (identifiers l) k \<noteq> map_of (identifiers r) k) strong of
        k # _ \<Rightarrow> Some (False, ''identifier_conflict:'' @ k)
      | [] \<Rightarrow> (case strong of k # _ \<Rightarrow> Some (True, ''identifier_match:'' @ k) | [] \<Rightarrow> None))"

section \<open>Scoring\<close>

record match_scorer =
  weights :: "(string \<times> pyfloat) list"
  auto_merge :: pyfloat
  review_from :: pyfloat
  memo :: "(pair \<times> explained_score) list"

definition new_scorer :: "(string \<times> pyfloat) list \<Rightarrow> pyfloat \<Rightarrow> pyfloat \<Rightarrow> py_error + match_scorer" where
  "new_scorer ws auto lower =
     (if lower > auto then Inl ValueError
      else Inr \<lparr>weights = (if ws = [] then MATCH_WEIGHTS else ws), auto_merge = auto, review_from = lower, memo = []\<rparr>)"

definition comparisons :: "match_scorer \<Rightarrow> nat" where
  "comparisons m = length (memo m)"

definition add_feature :: "(string \<times> pyfloat) list \<Rightarrow> pyfloat \<times> pyfloat \<Rightarrow> feature_score \<Rightarrow> pyfloat \<times> pyfloat" where
  "add_feature ws nd f =
     (case f_value f of
        None \<Rightarrow> nd
      | Some v \<Rightarrow>
          let w = (case map_of ws (f_name f) of None \<Rightarrow> f_weight f | Some w \<Rightarrow> w) in
          (fst nd + w * v, snd nd + w))"

definition combine :: "(string \<times> pyfloat) list \<Rightarrow> feature_score list \<Rightarrow> pyfloat option" where
  "combine ws fs =
     (let (n, d) = foldl (add_feature ws) (0, 0) fs in if d \<le> 0 then None else Some (n / d))"

definition band :: "match_scorer \<Rightarrow> pyfloat \<Rightarrow> match_decision" where
  "band m x = (if x \<ge> auto_merge m then MERGE else if x \<ge> review_from m then REVIEW else DISTINCT)"

definition exact_alias_hit :: "feature_score \<Rightarrow> bool" where
  "exact_alias_hit f \<longleftrightarrow> f_value f = Some 1 \<and> (case f_detail f of Exact_surface _ \<Rightarrow> True | _ \<Rightarrow> False)"

definition shared_handle :: "blocking_key list \<Rightarrow> bool" where
  "shared_handle ks \<longleftrightarrow> list_ex (\<lambda>k. fst k = IDENTIFIER \<and> is_handle (snd k)) ks"

definition weak_name :: "pyfloat option \<Rightarrow> bool" where
  "weak_name v \<longleftrightarrow> (case v of None \<Rightarrow> True | Some x \<Rightarrow> x < NAME_EVIDENCE_FLOOR)"

definition decide_score :: "match_scorer \<Rightarrow> pyfloat option \<Rightarrow> feature_score \<Rightarrow> blocking_key list \<Rightarrow> pyfloat
    \<Rightarrow> match_decision \<times> string option" where
  "decide_score m name alias ks x =
     (let d = band m x in
      if d = MERGE \<and> weak_name name \<and> \<not> exact_alias_hit alias \<and> \<not> shared_handle ks
      then (REVIEW, Some ''name_evidence_floor'')
      else if d = DISTINCT \<and> exact_alias_hit alias then (REVIEW, Some ''exact_alias_hit'')
      else (d, None))"

definition features_of :: "measures \<Rightarrow> pyfloat \<Rightarrow> resolution_record \<Rightarrow> resolution_record \<Rightarrow> feature_score list" where
  "features_of ms w l r = [name_feature ms w l r, alias_feature ms l r, embedding_feature ms l r, context_feature l r]"

definition scored :: "resolution_record \<Rightarrow> resolution_record \<Rightarrow> feature_score list \<Rightarrow> pyfloat \<Rightarrow> match_decision
    \<Rightarrow> string option \<Rightarrow> explained_score" where
  "scored l r fs x d rule =
     \<lparr>combined = x, decision = d, applied_rule = rule, e_left = res_id l, e_right = res_id r, e_features = fs\<rparr>"

definition type_rule :: "resolution_record \<Rightarrow> resolution_record \<Rightarrow> string" where
  "type_rule l r = ''type_conflict:'' @ entity_value (res_type l) @ ''!='' @ entity_value (res_type r)"

definition compute_score :: "measures \<Rightarrow> match_scorer \<Rightarrow> resolution_record \<Rightarrow> resolution_record \<Rightarrow> blocking_key list
    \<Rightarrow> py_error + explained_score" where
  "compute_score ms m l r ks =
     (case map_of (weights m) ''name'' of
        None \<Rightarrow> Inl KeyError
      | Some w \<Rightarrow>
          let fs = features_of ms w l r in
          Inr (if type_conflict l r then scored l r fs 0 DISTINCT (Some (type_rule l r))
            else case identifier_verdict l r of
                Some (same, rule) \<Rightarrow>
                  scored l r fs (if same then 1 else 0) (if same then MERGE else DISTINCT) (Some rule)
              | None \<Rightarrow>
                  (case combine (weights m) fs of
                     None \<Rightarrow> scored l r fs 0 DISTINCT (Some ''no_comparable_features'')
                   | Some x \<Rightarrow>
                       let (d, rule) = decide_score m (f_value (fs ! 0)) (fs ! 1) ks x in scored l r fs x d rule)))"

definition score_pair_memo :: "measures \<Rightarrow> resolution_record \<Rightarrow> resolution_record \<Rightarrow> blocking_key list \<Rightarrow> match_scorer
    \<Rightarrow> (py_error + explained_score) \<times> match_scorer" where
  "score_pair_memo ms l r ks m =
     (let key = pair_key (res_id l) (res_id r) in
      case map_of (memo m) key of
        Some s \<Rightarrow> (Inr s, m)
      | None \<Rightarrow>
          (case compute_score ms m l r ks of
             Inl e \<Rightarrow> (Inl e, m)
           | Inr s \<Rightarrow> (Inr s, m\<lparr>memo := memo m @ [(key, s)]\<rparr>)))"

definition default_scorer :: match_scorer where
  "default_scorer = \<lparr>weights = MATCH_WEIGHTS, auto_merge = AUTO_MERGE_THRESHOLD, review_from = REVIEW_THRESHOLD, memo = []\<rparr>"

definition score_pair :: "measures \<Rightarrow> resolution_record \<Rightarrow> resolution_record \<Rightarrow> blocking_key list \<Rightarrow> py_error + explained_score" where
  "score_pair ms l r ks = fst (score_pair_memo ms l r ks default_scorer)"

definition value_of :: "explained_score \<Rightarrow> string \<Rightarrow> pyfloat option" where
  "value_of s n = (case filter (\<lambda>f. f_name f = n) (e_features s) of [] \<Rightarrow> None | f # _ \<Rightarrow> f_value f)"

end
