(* ===== verification/Matcher_Laws.thy ===== *)
theory Matcher_Laws
  imports Matcher
begin

text \<open>
  Laws of the matcher: every number it returns lies in the unit interval whatever the string
  measures answer, what a recommendation to merge rests on, what cannot merge, that a feature
  without a value is neutral, and that the memo of a pass is transparent.
\<close>

section \<open>The unit interval\<close>

definition in_unit :: "pyfloat \<Rightarrow> bool" where
  "in_unit x \<longleftrightarrow> 0 \<le> x \<and> x \<le> 1"

definition unit_feature :: "feature_score \<Rightarrow> bool" where
  "unit_feature f \<longleftrightarrow> (\<forall>v. f_value f = Some v \<longrightarrow> in_unit v)"

named_theorems units \<open>values in the unit interval\<close>

lemma clamp01_unit [units]: "in_unit (clamp01 x)"
  by (simp add: in_unit_def clamp01_def)

lemma one_unit [units]: "in_unit 1"
  by (simp add: in_unit_def)

lemma zero_unit [units]: "in_unit 0"
  by (simp add: in_unit_def)

lemma name_similarity_unit: "name_similarity ms l r = Some v \<Longrightarrow> in_unit v"
  by (auto simp: name_similarity_def Let_def units split: if_splits)

lemma best_similarity_unit: "in_unit (best_similarity ms ps)"
proof -
  have "in_unit b \<Longrightarrow> in_unit (foldl better_similarity b (map (\<lambda>(l, r). name_similarity ms l r) ps))" for b
  proof (induction ps arbitrary: b)
    case (Cons p ps)
    have "in_unit (better_similarity b (name_similarity ms (fst p) (snd p)))"
      using Cons.prems name_similarity_unit by (auto simp: better_similarity_def split: option.splits)
    from Cons.IH [OF this] show ?case by (simp add: case_prod_unfold)
  qed simp
  then show ?thesis by (simp add: best_similarity_def units)
qed

lemma feature_of_unit [simp]: "unit_feature (feature_of n v d) \<longleftrightarrow> (\<forall>x. v = Some x \<longrightarrow> in_unit x)"
  by (simp add: unit_feature_def feature_of_def)

lemma alias_feature_unit [units]: "unit_feature (alias_feature ms l r)"
  by (simp add: alias_feature_def Let_def units best_similarity_unit split: list.splits)

lemma embedding_feature_unit [units]: "unit_feature (embedding_feature ms l r)"
  by (simp add: embedding_feature_def units split: option.splits)

lemma context_feature_unit [units]:
  assumes "finite (context_ids l)" and "finite (context_ids r)"
  shows "unit_feature (context_feature l r)"
proof -
  have "card (context_ids l \<inter> context_ids r) \<le> card (context_ids l \<union> context_ids r)"
    using assms by (intro card_mono) auto
  then show ?thesis by (simp add: context_feature_def Let_def in_unit_def divide_le_eq)
qed

lemma name_feature_unit [units]: "unit_feature (name_feature ms w l r)"
  using name_similarity_unit by (auto simp: name_feature_def unit_feature_def)

definition weight_in :: "(string \<times> pyfloat) list \<Rightarrow> feature_score \<Rightarrow> pyfloat" where
  "weight_in ws f = (case map_of ws (f_name f) of None \<Rightarrow> f_weight f | Some w \<Rightarrow> w)"

lemma add_feature_simps:
  "f_value f = None \<Longrightarrow> add_feature ws nd f = nd"
  "f_value f = Some v \<Longrightarrow> add_feature ws nd f = (fst nd + weight_in ws f * v, snd nd + weight_in ws f)"
  by (simp_all add: add_feature_def weight_in_def Let_def)

lemma combine_bounds:
  assumes "0 \<le> fst nd" and "fst nd \<le> snd nd"
    and "list_all (\<lambda>f. 0 \<le> weight_in ws f \<and> unit_feature f) fs"
  shows "0 \<le> fst (foldl (add_feature ws) nd fs) \<and> fst (foldl (add_feature ws) nd fs) \<le> snd (foldl (add_feature ws) nd fs)"
  using assms
proof (induction fs arbitrary: nd)
  case (Cons f fs)
  have "0 \<le> fst (add_feature ws nd f) \<and> fst (add_feature ws nd f) \<le> snd (add_feature ws nd f)"
  proof (cases "f_value f")
    case (Some v)
    then have "0 \<le> v" "v \<le> 1" "0 \<le> weight_in ws f" using Cons.prems(3) by (auto simp: unit_feature_def in_unit_def)
    then have "0 \<le> weight_in ws f * v" "weight_in ws f * v \<le> weight_in ws f" by (simp_all add: mult_left_le)
    with Cons.prems(1,2) show ?thesis by (simp add: add_feature_simps(2) [OF Some])
  qed (use Cons.prems in \<open>simp add: add_feature_simps(1)\<close>)
  with Cons show ?case by simp
qed simp

lemma combine_unit:
  assumes "combine ws fs = Some x" and "list_all (\<lambda>f. 0 \<le> weight_in ws f \<and> unit_feature f) fs"
  shows "in_unit x"
proof -
  obtain n d where nd: "foldl (add_feature ws) (0, 0) fs = (n, d)" by fastforce
  from combine_bounds [of "(0, 0)" ws fs] assms(2) nd have "0 \<le> n" "n \<le> d" by simp_all
  with assms(1) nd show ?thesis by (auto simp: combine_def in_unit_def divide_le_eq split: if_splits)
qed

lemma compute_features:
  assumes "compute_score ms m l r ks = Inr s"
  shows "\<exists>w. map_of (weights m) ''name'' = Some w \<and> e_features s = features_of ms w l r"
  using assms by (auto simp: compute_score_def Let_def scored_def split: option.splits if_splits prod.splits)

definition plain_weights :: "(string \<times> pyfloat) list \<Rightarrow> bool" where
  "plain_weights ws \<longleftrightarrow> list_all (\<lambda>(n, w). 0 \<le> w) ws"

lemma plain_weight_in: "plain_weights ws \<Longrightarrow> 0 \<le> f_weight f \<Longrightarrow> 0 \<le> weight_in ws f"
  unfolding plain_weights_def weight_in_def list_all_iff by (auto split: option.splits dest!: map_of_SomeD)

lemma features_ok:
  assumes "plain_weights ws" and "map_of ws ''name'' = Some w" and "finite (context_ids l)" and "finite (context_ids r)"
  shows "list_all (\<lambda>f. 0 \<le> weight_in ws f \<and> unit_feature f) (features_of ms w l r)"
proof -
  have d: "0 \<le> default_weight n" for n by (simp add: default_weight_def MATCH_WEIGHTS_def)
  have "0 \<le> f_weight (feature_of n v d)" for n v d by (simp add: feature_of_def d)
  then have "0 \<le> f_weight (alias_feature ms l r)" "0 \<le> f_weight (embedding_feature ms l r)" "0 \<le> f_weight (context_feature l r)"
    by (simp_all add: alias_feature_def embedding_feature_def context_feature_def Let_def split: list.splits option.splits)
  moreover have "0 \<le> f_weight (name_feature ms w l r)"
    using assms(1,2) by (auto simp: name_feature_def plain_weights_def list_all_iff dest!: map_of_SomeD)
  ultimately show ?thesis using assms by (simp add: features_of_def plain_weight_in units)
qed

text \<open>
  Whatever the string measures and the square root answer, the score of a pair and every
  feature that has a value lie in the unit interval.
\<close>

theorem scores_are_normalised:
  assumes "compute_score ms m l r ks = Inr s" and "plain_weights (weights m)"
    and "finite (context_ids l)" and "finite (context_ids r)"
  shows "in_unit (combined s) \<and> list_all unit_feature (e_features s)"
proof -
  obtain w where w: "map_of (weights m) ''name'' = Some w" "e_features s = features_of ms w l r"
    using compute_features [OF assms(1)] by blast
  note ok = features_ok [OF assms(2) w(1) assms(3,4), of ms]
  have "in_unit (combined s)"
    using assms(1) w(1) combine_unit [OF _ ok]
    by (auto simp: compute_score_def Let_def scored_def units split: option.splits if_splits prod.splits)
  with ok w(2) show ?thesis by (simp add: list_all_iff)
qed

section \<open>What a merge rests on\<close>

lemma identifier_verdict_match:
  "identifier_verdict l r = Some (True, rule) \<longleftrightarrow>
     (\<forall>k \<in> set (strong_identifiers l r). map_of (identifiers l) k = map_of (identifiers r) k) \<and>
     (\<exists>k ks. strong_identifiers l r = k # ks \<and> rule = ''identifier_match:'' @ k)"
  by (auto simp: identifier_verdict_def Let_def filter_empty_conv split: list.splits)

lemma identifier_verdict_conflict:
  assumes "k \<in> set (strong_identifiers l r)" and "map_of (identifiers l) k \<noteq> map_of (identifiers r) k"
  shows "\<exists>rule. identifier_verdict l r = Some (False, rule)"
proof -
  have "filter (\<lambda>k. map_of (identifiers l) k \<noteq> map_of (identifiers r) k) (strong_identifiers l r) \<noteq> []"
    using assms by (simp add: filter_empty_conv) blast
  then show ?thesis by (auto simp: identifier_verdict_def Let_def neq_Nil_conv)
qed

lemma identifier_verdict_none: "identifier_verdict l r = None \<longleftrightarrow> strong_identifiers l r = []"
  by (auto simp: identifier_verdict_def Let_def split: list.splits)

lemma merge_evidence:
  assumes "compute_score ms m l r ks = Inr s" and "decision s = MERGE"
  shows "\<not> type_conflict l r \<and>
    (if strong_identifiers l r = []
     then auto_merge m \<le> combined s \<and>
       ((\<exists>v. name_similarity ms (res_name l) (res_name r) = Some v \<and> NAME_EVIDENCE_FLOOR \<le> v) \<or>
        exact_alias_hit (alias_feature ms l r) \<or> shared_handle ks)
     else \<forall>k \<in> set (strong_identifiers l r). map_of (identifiers l) k = map_of (identifiers r) k)"
proof -
  from assms(1) obtain w where w: "map_of (weights m) ''name'' = Some w"
    by (auto simp: compute_score_def split: option.splits)
  have t: "\<not> type_conflict l r" using assms w by (auto simp: compute_score_def Let_def scored_def)
  show ?thesis
  proof (cases "identifier_verdict l r")
    case None
    then have none: "strong_identifiers l r = []" by (simp add: identifier_verdict_none)
    from assms w t None obtain x where x: "combine (weights m) (features_of ms w l r) = Some x"
      by (auto simp: compute_score_def Let_def scored_def split: option.splits)
    have f: "f_value (features_of ms w l r ! 0) = name_similarity ms (res_name l) (res_name r)"
      "features_of ms w l r ! 1 = alias_feature ms l r" by (simp_all add: features_of_def name_feature_def)
    from assms w t None x f have "combined s = x"
      "fst (decide_score m (name_similarity ms (res_name l) (res_name r)) (alias_feature ms l r) ks x) = MERGE"
      by (auto simp: compute_score_def Let_def scored_def split: prod.splits)
    with t none show ?thesis
      by (auto simp: decide_score_def Let_def band_def weak_name_def not_less split: if_splits option.splits)
  next
    case (Some v)
    obtain same rule where v: "v = (same, rule)" by fastforce
    with assms w t Some have same by (auto simp: compute_score_def Let_def scored_def split: if_splits)
    with v Some t show ?thesis unfolding identifier_verdict_match [of l r rule] by (auto simp: identifier_verdict_match)
  qed
qed

text \<open>
  A recommendation to merge always rests on evidence of identity: the labels are compatible, and
  either the two share a strong identifier and agree on every one they share, or they share none, the
  score reaches the threshold, and the names are similar, a declared surface is shared exactly,
  or a platform handle is.
\<close>

theorem merge_needs_evidence:
  assumes "compute_score ms m l r ks = Inr s" and "decision s = MERGE"
  shows "\<not> type_conflict l r \<and>
    (if strong_identifiers l r = []
     then auto_merge m \<le> combined s \<and>
       ((\<exists>v. name_similarity ms (res_name l) (res_name r) = Some v \<and> NAME_EVIDENCE_FLOOR \<le> v) \<or>
        exact_alias_hit (alias_feature ms l r) \<or> shared_handle ks)
     else \<forall>k \<in> set (strong_identifiers l r). map_of (identifiers l) k = map_of (identifiers r) k)"
  using assms by (rule merge_evidence)

text \<open>
  What cannot merge does not: with conflicting labels, or a conflict on any shared strong
  identifier, a pair is distinct with score zero however alike the two are in everything else.
\<close>

theorem conflicts_are_distinct:
  assumes "map_of (weights m) ''name'' \<noteq> None"
    and "type_conflict l r \<or> (\<exists>k \<in> set (strong_identifiers l r). map_of (identifiers l) k \<noteq> map_of (identifiers r) k)"
  shows "\<exists>s. compute_score ms m l r ks = Inr s \<and> decision s = DISTINCT \<and> combined s = 0"
proof (cases "type_conflict l r")
  case False
  with assms(2) obtain k where "k \<in> set (strong_identifiers l r)" "map_of (identifiers l) k \<noteq> map_of (identifiers r) k" by blast
  from identifier_verdict_conflict [OF this] obtain rule where "identifier_verdict l r = Some (False, rule)" by blast
  with assms(1) False show ?thesis by (auto simp: compute_score_def Let_def scored_def)
qed (use assms(1) in \<open>auto simp: compute_score_def Let_def scored_def\<close>)

section \<open>Missing features\<close>

lemma combine_skips_missing: "foldl (add_feature ws) nd fs = foldl (add_feature ws) nd (filter (\<lambda>f. f_value f \<noteq> None) fs)"
  by (induction fs arbitrary: nd) (auto simp: add_feature_simps)

text \<open>
  What could not be measured is neutral: the combined score is that of the features that have a
  value, and two records that could be compared by name only, with one name in two writings,
  score exactly one.
\<close>

theorem missing_features_are_neutral:
  "combine ws fs = combine ws (filter (\<lambda>f. f_value f \<noteq> None) fs) \<and>
   (0 < weight_in ws f \<longrightarrow> f_value f = Some 1 \<longrightarrow> filter (\<lambda>f. f_value f \<noteq> None) fs = [f] \<longrightarrow> combine ws fs = Some 1)"
proof -
  have "combine ws fs = combine ws (filter (\<lambda>f. f_value f \<noteq> None) fs)"
    unfolding combine_def by (subst combine_skips_missing) (rule refl)
  then show ?thesis by (simp add: combine_def add_feature_simps(2))
qed

section \<open>The memo\<close>

type_synonym request = "resolution_record \<times> resolution_record \<times> blocking_key list"

definition request_key :: "request \<Rightarrow> pair" where
  "request_key q = pair_key (res_id (fst q)) (res_id (fst (snd q)))"

fun score_all :: "measures \<Rightarrow> match_scorer \<Rightarrow> request list \<Rightarrow> (py_error + explained_score) list \<times> match_scorer" where
  "score_all ms m [] = ([], m)"
| "score_all ms m ((l, r, ks) # qs) =
     (let (s, m1) = score_pair_memo ms l r ks m; (ss, m2) = score_all ms m1 qs in (s # ss, m2))"

definition memo_agrees :: "measures \<Rightarrow> match_scorer \<Rightarrow> request list \<Rightarrow> bool" where
  "memo_agrees ms m qs \<longleftrightarrow>
     (\<forall>q \<in> set qs. \<forall>s. map_of (memo m) (request_key q) = Some s \<longrightarrow>
        compute_score ms m (fst q) (fst (snd q)) (snd (snd q)) = Inr s)"

lemma band_memo [simp]: "band (m\<lparr>memo := x\<rparr>) = band m"
  by (rule ext) (simp add: band_def)

lemma decide_score_memo [simp]: "decide_score (m\<lparr>memo := x\<rparr>) = decide_score m"
  by (intro ext) (simp add: decide_score_def)

lemma weights_memo: "weights (m\<lparr>memo := x\<rparr>) = weights m"
  by simp

lemma compute_score_memo [simp]: "compute_score ms (m\<lparr>memo := x\<rparr>) = compute_score ms m"
  unfolding compute_score_def decide_score_memo weights_memo by (rule refl)

lemma score_pair_memo_computes:
  assumes "memo_agrees ms m (q # qs)" and "\<forall>q' \<in> set qs. request_key q' = request_key q \<longrightarrow> q' = q"
    and "score_pair_memo ms (fst q) (fst (snd q)) (snd (snd q)) m = (s, m1)"
  shows "s = compute_score ms m (fst q) (fst (snd q)) (snd (snd q)) \<and> memo_agrees ms m1 qs \<and>
    compute_score ms m1 = compute_score ms m"
proof (cases "map_of (memo m) (request_key q)")
  case (Some s')
  with assms show ?thesis by (simp add: score_pair_memo_def request_key_def [symmetric] memo_agrees_def)
next
  case None
  show ?thesis
  proof (cases "compute_score ms m (fst q) (fst (snd q)) (snd (snd q))")
    case (Inl e)
    with None assms show ?thesis by (simp add: score_pair_memo_def request_key_def [symmetric] memo_agrees_def)
  next
    case (Inr r)
    with None assms(3) have s: "s = Inr r" "m1 = m\<lparr>memo := memo m @ [(request_key q, r)]\<rparr>"
      by (simp_all add: score_pair_memo_def request_key_def [symmetric])
    have "compute_score ms m (fst q') (fst (snd q')) (snd (snd q')) = Inr t"
      if "q' \<in> set qs" "map_of (memo m1) (request_key q') = Some t" for q' t
    proof (cases "request_key q' = request_key q")
      case True
      with that assms(2) have "q' = q" by blast
      with that(2) s None Inr show ?thesis by (simp add: map_add_def)
    next
      case False
      with that s have "map_of (memo m) (request_key q') = Some t" by (simp add: map_add_def split: option.splits if_splits)
      with that(1) assms(1) show ?thesis by (simp add: memo_agrees_def)
    qed
    with s Inr show ?thesis by (simp add: memo_agrees_def)
  qed
qed

lemma score_all_computes:
  assumes "memo_agrees ms m qs" and "\<forall>q \<in> set qs. \<forall>q' \<in> set qs. request_key q' = request_key q \<longrightarrow> q' = q"
  shows "fst (score_all ms m qs) = map (\<lambda>(l, r, ks). compute_score ms m l r ks) qs"
  using assms
proof (induction qs arbitrary: m)
  case (Cons q qs)
  obtain l r ks where q: "q = (l, r, ks)" by (cases q) auto
  obtain s m1 where step: "score_pair_memo ms l r ks m = (s, m1)" by fastforce
  have "\<forall>q' \<in> set qs. request_key q' = request_key q \<longrightarrow> q' = q" using Cons.prems(2) by simp
  from score_pair_memo_computes [OF Cons.prems(1) this, of s m1] step
  have one: "s = compute_score ms m l r ks" "memo_agrees ms m1 qs" "compute_score ms m1 = compute_score ms m"
    unfolding q fst_conv snd_conv by blast+
  have "fst (score_all ms m (q # qs)) = s # fst (score_all ms m1 qs)" by (simp add: q step split_beta)
  also have "fst (score_all ms m1 qs) = map (\<lambda>(l, r, ks). compute_score ms m1 l r ks) qs"
    using Cons.prems(2) by (intro Cons.IH one(2)) simp
  finally show ?case unfolding one(1,3) q list.map prod.case .
qed simp

text \<open>
  The memo is transparent as long as a pass asks for each pair with the same records, in the same
  orientation and with the same shared keys: every answer of a sequence of requests is the score that
  would be computed afresh.
\<close>

theorem memo_is_transparent:
  assumes "memo m = []" and "\<forall>q \<in> set qs. \<forall>q' \<in> set qs. request_key q' = request_key q \<longrightarrow> q' = q"
  shows "fst (score_all ms m qs) = map (\<lambda>(l, r, ks). compute_score ms m l r ks) qs"
  by (rule score_all_computes [OF _ assms(2)]) (simp add: memo_agrees_def assms(1))

end
