(* ===== verification/Blocking_Laws.thy ===== *)
theory Blocking_Laws
  imports Blocking
begin

text \<open>
  Laws of the blocking index: what it holds after any sequence of additions and removals, that
  its candidate pairs are exactly the pairs that meet in a usable block, and what the size cap can
  lose.
\<close>

section \<open>The inverted index\<close>

type_synonym keying = "resolution_record \<Rightarrow> blocking_key list"

text \<open>The buckets hold exactly the indexed records, each once, under exactly their keys.\<close>

definition no_empty :: "(blocking_key \<times> string list) list \<Rightarrow> bool" where
  "no_empty d \<longleftrightarrow> (\<forall>k. map_of d k \<noteq> Some [])"

definition inverts :: "keying \<Rightarrow> (string \<times> resolution_record) list \<Rightarrow> (blocking_key \<times> string list) list \<Rightarrow> bool" where
  "inverts keys recs d \<longleftrightarrow>
     no_empty d \<and> (\<forall>k. distinct (bucket d k) \<and>
        set (bucket d k) = {i. \<exists>r. map_of recs i = Some r \<and> k \<in> set (keys r)})"

definition index_ok :: "keying \<Rightarrow> blocking_index \<Rightarrow> bool" where
  "index_ok keys x \<longleftrightarrow>
     distinct (map fst (indexed x)) \<and> (\<forall>i r. map_of (indexed x) i = Some r \<longrightarrow> res_id r = i) \<and>
     distinct (map fst (by_key x)) \<and> inverts keys (indexed x) (by_key x)"

lemma index_okD:
  assumes "index_ok keys x"
  shows "distinct (bucket (by_key x) k)"
    and "set (bucket (by_key x) k) = {i. \<exists>r. map_of (indexed x) i = Some r \<and> k \<in> set (keys r)}"
    and "no_empty (by_key x)" and "distinct (map fst (by_key x))"
  using assms unfolding index_ok_def inverts_def by blast+

lemma bucket_put: "bucket (put_in i d k) l = (if l = k then bucket d k @ [i] else bucket d l)"
  by (simp add: bucket_def put_in_def update_conv')

lemma buckets_put: "distinct ks \<Longrightarrow> bucket (foldl (put_in i) d ks) l = bucket d l @ (if l \<in> set ks then [i] else [])"
  by (induction ks arbitrary: d) (auto simp: bucket_put)

lemma put_keeps: "distinct (map fst d) \<Longrightarrow> distinct (map fst (foldl (put_in i) d ks))"
  by (induction ks arbitrary: d) (simp_all add: put_in_def distinct_update)

lemma put_nonempty: "no_empty d \<Longrightarrow> no_empty (put_in i d k)"
  unfolding no_empty_def put_in_def update_conv' by (simp del: split_paired_All)

lemma puts_nonempty: "no_empty d \<Longrightarrow> no_empty (foldl (put_in i) d ks)"
  by (induction ks arbitrary: d) (simp_all add: put_nonempty)

lemma bucket_drop: "bucket (drop_from i d k) l = (if l = k then filter (\<lambda>j. j \<noteq> i) (bucket d l) else bucket d l)"
  by (auto simp: bucket_def drop_from_def Let_def update_conv' delete_conv' split: option.splits)

lemma buckets_drop:
  "bucket (foldl (drop_from i) d ks) l = (if l \<in> set ks then filter (\<lambda>j. j \<noteq> i) (bucket d l) else bucket d l)"
  by (induction ks arbitrary: d) (auto simp: bucket_drop)

lemma drop_keeps: "distinct (map fst d) \<Longrightarrow> distinct (map fst (foldl (drop_from i) d ks))"
  by (induction ks arbitrary: d) (auto simp: drop_from_def Let_def distinct_update distinct_delete split: option.splits)

lemma drop_nonempty: "no_empty d \<Longrightarrow> no_empty (drop_from i d k)"
  unfolding no_empty_def drop_from_def Let_def
  by (simp add: update_conv' delete_conv' del: split_paired_All split: option.splits)

lemma drops_nonempty: "no_empty d \<Longrightarrow> no_empty (foldl (drop_from i) d ks)"
  by (induction ks arbitrary: d) (simp_all add: drop_nonempty)

lemma remove_record_ok:
  assumes "index_ok keys x"
  shows "index_ok keys (remove_record keys i x) \<and> map_of (indexed (remove_record keys i x)) = (map_of (indexed x))(i := None) \<and>
    max_block_size (remove_record keys i x) = max_block_size x"
proof (cases "map_of (indexed x) i")
  case None
  then have "(map_of (indexed x))(i := None) = map_of (indexed x)" by auto
  with None assms show ?thesis by (simp add: remove_record_def)
next
  case (Some r)
  note inv = index_okD [OF assms]
  have b: "bucket (foldl (drop_from i) (by_key x) (keys r)) k = filter (\<lambda>j. j \<noteq> i) (bucket (by_key x) k)" for k
  proof (cases "k \<in> set (keys r)")
    case False
    then have "i \<notin> set (bucket (by_key x) k)" using inv(2) Some by auto
    then have "filter (\<lambda>j. j \<noteq> i) (bucket (by_key x) k) = bucket (by_key x) k" by (intro filter_True) auto
    with False show ?thesis by (simp add: buckets_drop)
  qed (simp add: buckets_drop)
  have "inverts keys (AList.delete i (indexed x)) (foldl (drop_from i) (by_key x) (keys r))"
    unfolding inverts_def
  proof (intro allI conjI)
    show "no_empty (foldl (drop_from i) (by_key x) (keys r))" using inv(3) by (rule drops_nonempty)
  next
    fix k
    show "distinct (bucket (foldl (drop_from i) (by_key x) (keys r)) k)" using inv(1) by (simp add: b)
    show "set (bucket (foldl (drop_from i) (by_key x) (keys r)) k) =
        {j. \<exists>r. map_of (AList.delete i (indexed x)) j = Some r \<and> k \<in> set (keys r)}"
      by (auto simp: b inv(2) delete_conv')
  qed
  then show ?thesis using assms Some
    by (simp add: remove_record_def index_ok_def distinct_delete drop_keeps delete_conv')
qed

lemma add_record_ok:
  assumes "index_ok keys x" and "distinct (keys r)"
  shows "index_ok keys (add_record keys r x) \<and> map_of (indexed (add_record keys r x)) = (map_of (indexed x))(res_id r \<mapsto> r) \<and>
    max_block_size (add_record keys r x) = max_block_size x"
proof -
  let ?i = "res_id r"
  define y where "y = (if map_of (indexed x) ?i \<noteq> None then remove_record keys ?i x else x)"
  have y: "index_ok keys y" "map_of (indexed y) = (map_of (indexed x))(?i := None)" "max_block_size y = max_block_size x"
    using assms(1) remove_record_ok [OF assms(1), of ?i] by (auto simp: y_def)
  note inv = index_okD [OF y(1)]
  have new: "?i \<notin> set (bucket (by_key y) k)" for k using inv(2) y(2) by simp
  have eq: "add_record keys r x = y\<lparr>indexed := AList.update ?i r (indexed y),
      by_key := foldl (put_in ?i) (by_key y) (keys r)\<rparr>"
    by (simp add: add_record_def y_def Let_def)
  have inverted: "inverts keys (AList.update ?i r (indexed y)) (foldl (put_in ?i) (by_key y) (keys r))"
    unfolding inverts_def
  proof (intro allI conjI)
    show "no_empty (foldl (put_in ?i) (by_key y) (keys r))" using inv(3) by (rule puts_nonempty)
  next
    fix k
    show "distinct (bucket (foldl (put_in ?i) (by_key y) (keys r)) k)"
      using inv(1) new by (simp add: buckets_put [OF assms(2)])
    show "set (bucket (foldl (put_in ?i) (by_key y) (keys r)) k) =
        {j. \<exists>q. map_of (AList.update ?i r (indexed y)) j = Some q \<and> k \<in> set (keys q)}"
      using y(2) by (auto simp: buckets_put [OF assms(2)] inv(2) update_conv')
  qed
  have m: "map_of (AList.update ?i r (indexed y)) = (map_of (indexed x))(?i \<mapsto> r)"
    by (simp add: update_conv' y(2))
  have d1: "distinct (map fst (AList.update ?i r (indexed y)))"
    using y(1) by (simp add: index_ok_def distinct_update)
  have ids: "res_id q = i" if "map_of (AList.update ?i r (indexed y)) i = Some q" for i q
    using y(1) that by (auto simp: index_ok_def update_conv' split: if_splits)
  have d2: "distinct (map fst (foldl (put_in ?i) (by_key y) (keys r)))" using index_okD(4) [OF y(1)] by (rule put_keeps)
  let ?z = "y\<lparr>indexed := AList.update ?i r (indexed y), by_key := foldl (put_in ?i) (by_key y) (keys r)\<rparr>"
  have sel: "indexed ?z = AList.update ?i r (indexed y)" "by_key ?z = foldl (put_in ?i) (by_key y) (keys r)"
    "max_block_size ?z = max_block_size y" by simp_all
  show ?thesis unfolding eq index_ok_def sel using ids by (intro conjI allI impI d1 d2 m inverted y(3)) blast
qed

datatype index_event = Add resolution_record | Remove string

definition index_step :: "keying \<Rightarrow> blocking_index \<Rightarrow> index_event \<Rightarrow> blocking_index" where
  "index_step keys x e = (case e of Add r \<Rightarrow> add_record keys r x | Remove i \<Rightarrow> remove_record keys i x)"

text \<open>What the events leave: the last record added under an id, unless it was removed since.\<close>

fun left_records :: "(string \<Rightarrow> resolution_record option) \<Rightarrow> index_event list \<Rightarrow> string \<Rightarrow> resolution_record option" where
  "left_records m [] = m"
| "left_records m (Add r # es) = left_records (m(res_id r \<mapsto> r)) es"
| "left_records m (Remove i # es) = left_records (m(i := None)) es"

definition dedup_keys :: "keying \<Rightarrow> keying" where
  "dedup_keys keys r = ordered_unique (keys r)"

lemma index_step_ok:
  assumes "index_ok keys x" and "\<forall>r. distinct (keys r)"
  shows "index_ok keys (index_step keys x e)"
  using assms add_record_ok remove_record_ok by (cases e) (simp_all add: index_step_def)

interpretation indexing: machine "index_step (dedup_keys keys)" "index_ok (dedup_keys keys)"
  by unfold_locales (rule index_step_ok; simp add: dedup_keys_def)

lemma index_run:
  assumes "index_ok keys x" and "\<forall>r. distinct (keys r)"
  shows "index_ok keys (foldl (index_step keys) x es) \<and>
    map_of (indexed (foldl (index_step keys) x es)) = left_records (map_of (indexed x)) es \<and>
    max_block_size (foldl (index_step keys) x es) = max_block_size x"
  using assms
proof (induction es arbitrary: x)
  case (Cons e es)
  show ?case
  proof (cases e)
    case (Add r)
    note step = add_record_ok [OF Cons.prems(1) spec [OF Cons.prems(2)], of r]
    from Cons.IH [OF conjunct1 [OF step] Cons.prems(2)] step Add
    show ?thesis by (simp add: index_step_def del: fun_upd_apply)
  next
    case (Remove i)
    note step = remove_record_ok [OF Cons.prems(1), of i]
    from Cons.IH [OF conjunct1 [OF step] Cons.prems(2)] step Remove
    show ?thesis by (simp add: index_step_def del: fun_upd_apply)
  qed
qed simp

lemma new_index_ok: "index_ok keys (new_index cap)"
  by (simp add: index_ok_def inverts_def no_empty_def new_index_def bucket_def)

definition index_after :: "keying \<Rightarrow> nat option \<Rightarrow> index_event list \<Rightarrow> blocking_index" where
  "index_after keys cap es = foldl (index_step keys) (new_index cap) es"

lemma index_after_ok:
  assumes "\<forall>r. distinct (keys r)"
  shows "index_ok keys (index_after keys cap es)"
    and "map_of (indexed (index_after keys cap es)) = left_records Map.empty es"
    and "max_block_size (index_after keys cap es) = cap"
  using index_run [OF new_index_ok assms, of cap es] by (simp_all add: index_after_def new_index_def)

section \<open>Candidate pairs\<close>

lemma pairs_of_sorted:
  "sorted is \<Longrightarrow> distinct is \<Longrightarrow> set (pairs_of is) = {(i, j). i \<in> set is \<and> j \<in> set is \<and> i < j}"
  by (induction "is") (auto simp: less_le)

lemma sorted_bucket_pairs:
  "distinct ids \<Longrightarrow> set (pairs_of (sort ids)) = {(i, j). i \<in> set ids \<and> j \<in> set ids \<and> i < j}"
  by (simp add: pairs_of_sorted)

definition block_size :: "keying \<Rightarrow> (string \<Rightarrow> resolution_record option) \<Rightarrow> blocking_key \<Rightarrow> nat" where
  "block_size keys m k = card {i. \<exists>r. m i = Some r \<and> k \<in> set (keys r)}"

lemma bucket_size:
  assumes "index_ok keys x"
  shows "length (bucket (by_key x) k) = block_size keys (map_of (indexed x)) k"
  unfolding block_size_def index_okD(2) [OF assms, symmetric] using distinct_card [OF index_okD(1) [OF assms]] by simp

lemma two_in_block: "i \<in> set xs \<Longrightarrow> j \<in> set xs \<Longrightarrow> i < (j :: string) \<Longrightarrow> 2 \<le> length xs"
  by (cases xs; cases "tl xs") auto

lemma index_candidates_set:
  assumes "index_ok keys x"
  shows "set (fst (index_candidates x)) =
    {(i, j). i < j \<and> (\<exists>l r k. map_of (indexed x) i = Some l \<and> map_of (indexed x) j = Some r \<and>
       k \<in> set (keys l) \<and> k \<in> set (keys r) \<and>
       \<not> is_oversized (max_block_size x) k (block_size keys (map_of (indexed x)) k))}"
proof -
  note inv = index_okD(1,2) [OF assms]
  note d = index_okD(4) [OF assms]
  have mem: "(k, ids) \<in> set (by_key x) \<Longrightarrow> ids = bucket (by_key x) k" for k ids
    using d by (simp add: bucket_def)
  have have_bucket: "(k, bucket (by_key x) k) \<in> set (by_key x)" if "bucket (by_key x) k \<noteq> []" for k
    using that by (auto simp: bucket_def split: option.splits dest: map_of_SomeD)
  have "(i, j) \<in> set (fst (index_candidates x)) \<longleftrightarrow>
      (\<exists>k. i < j \<and> i \<in> set (bucket (by_key x) k) \<and> j \<in> set (bucket (by_key x) k) \<and>
        \<not> is_oversized (max_block_size x) k (length (bucket (by_key x) k)))" for i j
  proof
    assume "(i, j) \<in> set (fst (index_candidates x))"
    then obtain k ids where k: "(k, ids) \<in> set (by_key x)" "\<not> is_oversized (max_block_size x) k (length ids)"
      "(i, j) \<in> set (pairs_of (sort ids))" by (auto simp: index_candidates_def Let_def)
    from mem [OF k(1)] k(2,3) inv(1) [of k]
    show "\<exists>k. i < j \<and> i \<in> set (bucket (by_key x) k) \<and> j \<in> set (bucket (by_key x) k) \<and>
        \<not> is_oversized (max_block_size x) k (length (bucket (by_key x) k))"
      by (intro exI [of _ k]) (simp add: sorted_bucket_pairs)
  next
    assume "\<exists>k. i < j \<and> i \<in> set (bucket (by_key x) k) \<and> j \<in> set (bucket (by_key x) k) \<and>
        \<not> is_oversized (max_block_size x) k (length (bucket (by_key x) k))"
    then obtain k where k: "i < j" "i \<in> set (bucket (by_key x) k)" "j \<in> set (bucket (by_key x) k)"
      "\<not> is_oversized (max_block_size x) k (length (bucket (by_key x) k))" by blast
    have "(k, bucket (by_key x) k) \<in> set (by_key x)" using k(2) by (intro have_bucket) auto
    moreover have "2 \<le> length (bucket (by_key x) k)" using k(1-3) two_in_block by blast
    moreover have "(i, j) \<in> set (pairs_of (sort (bucket (by_key x) k)))"
      using k(1-3) by (simp add: sorted_bucket_pairs [OF inv(1)])
    ultimately show "(i, j) \<in> set (fst (index_candidates x))"
      using k(4) unfolding index_candidates_def Let_def fst_conv set_sort set_remdups set_concat set_map set_filter
      by (intro UnionI [of "set (pairs_of (sort (bucket (by_key x) k)))"] image_eqI [of _ _ "pairs_of (sort (bucket (by_key x) k))"]
          image_eqI [of _ _ "(k, bucket (by_key x) k)"]) (simp_all only: mem_Collect_eq case_prod_conv simp_thms)
  qed
  then have e: "((i, j) \<in> set (fst (index_candidates x))) =
      (i < j \<and> (\<exists>l r k. map_of (indexed x) i = Some l \<and> map_of (indexed x) j = Some r \<and>
       k \<in> set (keys l) \<and> k \<in> set (keys r) \<and>
       \<not> is_oversized (max_block_size x) k (block_size keys (map_of (indexed x)) k)))" for i j
    unfolding bucket_size [OF assms] inv(2) by blast
  show ?thesis by (rule set_eqI) (simp only: split_paired_all e mem_Collect_eq case_prod_conv)
qed

text \<open>
  C27. After any additions and removals, re-additions of an id included, the batch pass is given
  exactly the pairs of records still indexed that share a blocking key whose block the size cap
  admits, each once, in sorted order; a block counts the records that are indexed, so what was
  indexed before and in which order does not matter.
\<close>

theorem candidates_are_exact:
  "sorted (fst (index_candidates (index_after (blocking_keys planes) cap es))) \<and>
   distinct (fst (index_candidates (index_after (blocking_keys planes) cap es))) \<and>
   set (fst (index_candidates (index_after (blocking_keys planes) cap es))) =
     {(i, j). i < j \<and> (\<exists>l r k. left_records Map.empty es i = Some l \<and> left_records Map.empty es j = Some r \<and>
        k \<in> set (blocking_keys planes l) \<and> k \<in> set (blocking_keys planes r) \<and>
        \<not> is_oversized cap k (block_size (blocking_keys planes) (left_records Map.empty es) k))}"
proof -
  let ?x = "index_after (blocking_keys planes) cap es"
  have keys: "\<forall>r. distinct (blocking_keys planes r)" by (simp add: blocking_keys_def)
  note x = index_after_ok [OF keys, of cap es]
  have "sorted (fst (index_candidates ?x))" "distinct (fst (index_candidates ?x))"
    by (simp_all add: index_candidates_def Let_def)
  with index_candidates_set [OF x(1)] show ?thesis unfolding x(2,3) by blast
qed

text \<open>
  The size cap costs recall only where it may: two records that share an identifier, a
  normalised name, an alias or a token set are candidates however many records share it, and
  without a cap so is every pair with a common key.
\<close>

theorem precise_blocks_are_never_lost:
  assumes "left_records Map.empty es i = Some l" and "left_records Map.empty es j = Some r" and "i < j"
    and "k \<in> set (blocking_keys planes l)" and "k \<in> set (blocking_keys planes r)"
    and "cap = None \<or> fst k \<in> {IDENTIFIER, EXACT, ALIAS, TOKEN_SET}"
  shows "(i, j) \<in> set (fst (index_candidates (index_after (blocking_keys planes) cap es)))"
proof -
  have keys: "\<forall>r. distinct (blocking_keys planes r)" by (simp add: blocking_keys_def)
  note x = index_after_ok [OF keys, of cap es]
  have "\<not> is_oversized cap k n" for n
    using assms(6) by (auto simp: is_oversized_def LOW_PRECISION_KINDS_def split: option.splits)
  with assms(1-5) show ?thesis unfolding index_candidates_set [OF x(1)] x(2,3) by blast
qed

section \<open>One name, one block\<close>

text \<open>Two surfaces that normalise alike, and are not empty, meet under the alias family.\<close>

lemma add_surface_names: "fst ` set (add_surface seen s) = fst ` set seen \<union> {n \<in> {normalize_name s}. n \<noteq> []}"
  by (cases "normalize_name s = []"; cases "map_of seen (normalize_name s)")
    (auto simp: add_surface_def Let_def dest: map_of_SomeD intro: rev_image_eqI)

lemma add_surface_keeps:
  "\<forall>p \<in> set seen. normalize_name (snd p) = fst p \<Longrightarrow> p \<in> set (add_surface seen s) \<Longrightarrow> normalize_name (snd p) = fst p"
  unfolding add_surface_def Let_def by (simp split: if_splits) (elim disjE; simp)

lemma surfaces_fold:
  "fst ` set (foldl add_surface seen ss) = fst ` set seen \<union> {n \<in> normalize_name ` set ss. n \<noteq> []}"
  by (induction ss arbitrary: seen) (auto simp: add_surface_names)

lemma surfaces_named:
  "\<forall>p \<in> set seen. normalize_name (snd p) = fst p \<Longrightarrow>
   \<forall>p \<in> set (foldl add_surface seen ss). normalize_name (snd p) = fst p"
proof (induction ss arbitrary: seen)
  case (Cons s ss)
  have "\<forall>p \<in> set (add_surface seen s). normalize_name (snd p) = fst p" using add_surface_keeps [OF Cons.prems] by blast
  from Cons.IH [OF this] show ?case by simp
qed simp

lemma normalized_surface_names: "normalize_name ` set (surfaces r) = {n \<in> normalize_name ` set (res_name r # aliases r). n \<noteq> []}"
proof -
  let ?ss = "res_name r # aliases r"
  have "normalize_name ` set (surfaces r) = (\<lambda>p. normalize_name (snd p)) ` set (foldl add_surface [] ?ss)"
    unfolding surfaces_def by (simp only: set_map image_image)
  also have "\<dots> = fst ` set (foldl add_surface [] ?ss)"
  proof (rule image_cong [OF refl])
    fix p assume p: "p \<in> set (foldl add_surface [] ?ss)"
    show "normalize_name (snd p) = fst p" by (rule bspec [OF surfaces_named p]) simp
  qed
  finally show ?thesis unfolding surfaces_fold list.set(1) image_empty Un_empty_left .
qed

lemma alias_key_of_surface:
  assumes "s \<in> set (res_name r # aliases r)" and "normalize_name s \<noteq> []"
  shows "(ALIAS, normalize_name s) \<in> set (blocking_keys planes r)"
proof -
  have "normalize_name s \<in> normalize_name ` set (surfaces r)"
    unfolding normalized_surface_names using assms by blast
  with assms(2) show ?thesis by (auto simp: blocking_keys_def alias_keys_def)
qed

text \<open>
  Writings of one name always meet: two indexed records of which any name or alias of the one
  normalises to the same text as a name or alias of the other are a candidate pair, whatever
  the cap.
\<close>

theorem shared_surface_is_candidate:
  assumes "left_records Map.empty es i = Some l" and "left_records Map.empty es j = Some r" and "i < j"
    and "s \<in> set (res_name l # aliases l)" and "t \<in> set (res_name r # aliases r)"
    and "normalize_name s = normalize_name t" and "normalize_name s \<noteq> []"
  shows "(i, j) \<in> set (fst (index_candidates (index_after (blocking_keys planes) cap es)))"
proof -
  have keys: "\<forall>r. distinct (blocking_keys planes r)" by (simp add: blocking_keys_def)
  note x = index_after_ok [OF keys, of cap es]
  have "\<not> is_oversized cap (ALIAS, normalize_name s) n" for n
    by (auto simp: is_oversized_def LOW_PRECISION_KINDS_def split: option.splits)
  moreover have "(ALIAS, normalize_name s) \<in> set (blocking_keys planes l)" by (rule alias_key_of_surface [OF assms(4,7)])
  moreover have "(ALIAS, normalize_name s) \<in> set (blocking_keys planes r)"
    using alias_key_of_surface [OF assms(5)] assms(6,7) by metis
  ultimately show ?thesis using assms(1-3) unfolding index_candidates_set [OF x(1)] x(2,3) by blast
qed

section \<open>Two rules that do not do what they say\<close>

text \<open>The branch for an initial WH puts the W back before the H: the word does not change.\<close>

theorem initial_WH_is_kept: "take 2 w = ''WH'' \<Longrightarrow> initial_cluster w = w"
  by (cases w; cases "tl w") (auto simp: initial_cluster_def)

theorem white_sounds_unlike_wite: "phonetic_code ''white'' = ''HT'' \<and> phonetic_code ''wite'' = ''WT''"
  by code_simp

text \<open>A corporate form in front of an article hides it: normalising twice is not normalising once.\<close>

theorem normalisation_is_not_idempotent:
  "normalize_name ''Inc. The Foo'' = ''the foo'' \<and> normalize_name (normalize_name ''Inc. The Foo'') = ''foo''"
  by code_simp

end
