(* ===== verification/Matched_Pass.thy ===== *)
theory Matched_Pass
  imports Matcher_Laws Blocking_Laws Resolution_Laws
begin

text \<open>
  The pass of \<open>graph/resolution/entity_resolution.py\<close> over the matcher and the blocking index that
  it builds when it is given none: what a cluster of such a pass rests on.
\<close>

section \<open>The pass as it is called\<close>

definition matched_score :: "measures \<Rightarrow> resolution_record \<Rightarrow> resolution_record \<Rightarrow> blocking_key list \<Rightarrow> match_score" where
  "matched_score ms l r ks = match_score.truncate (projr (compute_score ms default_scorer l r ks))"

definition matched_resolver :: "measures \<Rightarrow> (string \<Rightarrow> string) \<Rightarrow> (instant \<Rightarrow> string) \<Rightarrow> blocking_key resolver" where
  "matched_resolver ms digest iso_date = \<lparr>scorer = matched_score ms, sha256 = digest, isoformat = iso_date\<rparr>"

definition index_view :: "keying \<Rightarrow> blocking_index \<Rightarrow> blocking_key blocking" where
  "index_view keys x = \<lparr>candidate_pairs = fst (index_candidates x), shared_keys = (\<lambda>i j. shared_blocking_keys keys i j x)\<rparr>"

definition index_all :: "keying \<Rightarrow> nat option \<Rightarrow> resolution_record list \<Rightarrow> blocking_index" where
  "index_all keys cap rs = foldl (\<lambda>x r. add_record keys r x) (new_index cap) rs"

definition resolve_batch ::
  "measures \<Rightarrow> (nat \<Rightarrow> pyfloat list list) \<Rightarrow> (string \<Rightarrow> string) \<Rightarrow> (instant \<Rightarrow> string) \<Rightarrow> nat option
     \<Rightarrow> resolution_record list \<Rightarrow> pair list \<Rightarrow> pair list \<Rightarrow> instant \<Rightarrow> string \<Rightarrow> py_error + resolution_result" where
  "resolve_batch ms planes digest iso_date cap records links bans decided_at decided_by =
     resolve (matched_resolver ms digest iso_date)
       (index_view (blocking_keys planes) (index_all (blocking_keys planes) cap (sort_key res_id records)))
       records links bans decided_at decided_by MIN_WITHIN_CLUSTER_LINKAGE"

section \<open>What the scoring accepts\<close>

lemma score_candidates_accept:
  assumes "q \<in> set (accepted (foldl (score_candidate rv index by_id forbidden required) st ps))" and "q \<notin> set (accepted st)"
  shows "q \<notin> forbidden \<and> (\<exists>l r. by_id (fst q) = Some l \<and> by_id (snd q) = Some r \<and>
    (q \<in> required \<or> q \<in> set (pair_keys ps) \<and> decision (scorer rv l r (shared_keys index (fst q) (snd q))) = MERGE))"
  using assms
proof (induction ps arbitrary: st)
  case (Cons p ps)
  let ?st = "score_candidate rv index by_id forbidden required st p"
  show ?case
  proof (cases "q \<in> set (accepted ?st)")
    case True
    with Cons.prems(2) show ?thesis
      by (auto simp: score_candidate_def Let_def pair_keys_def split: option.splits if_splits)
  next
    case False
    from Cons.prems(1) have "q \<in> set (accepted (foldl (score_candidate rv index by_id forbidden required) ?st ps))" by simp
    from Cons.IH [OF this False] show ?thesis by (auto simp: pair_keys_def)
  qed
qed simp

lemma force_links_accept:
  assumes "q \<in> set (accepted (foldl (force_link by_id) st ps))" and "q \<notin> set (accepted st)"
  shows "q \<in> set ps \<and> by_id (fst q) \<noteq> None \<and> by_id (snd q) \<noteq> None"
  using assms
proof (induction ps arbitrary: st)
  case (Cons p ps)
  show ?case
  proof (cases "q \<in> set (accepted (force_link by_id st p))")
    case True
    with Cons.prems(2) show ?thesis by (auto simp: force_link_def split: if_splits)
  next
    case False
    with Cons.IH [of "force_link by_id st p"] Cons.prems(1) show ?thesis by simp
  qed
qed simp

lemma score_pairs_accept:
  assumes "q \<in> set (accepted (score_pairs rv index by_id forbidden required))" and "forbidden \<inter> set required = {}"
  shows "q \<notin> forbidden \<and> (\<exists>l r. by_id (fst q) = Some l \<and> by_id (snd q) = Some r \<and>
    (q \<in> set required \<or> q \<in> set (pair_keys (candidate_pairs index)) \<and>
       decision (scorer rv l r (shared_keys index (fst q) (snd q))) = MERGE))"
proof (cases "q \<in> set (accepted (foldl (score_candidate rv index by_id forbidden (set required)) empty_scoring (candidate_pairs index)))")
  case True
  from score_candidates_accept [OF this] show ?thesis by (simp add: empty_scoring_def)
next
  case False
  from force_links_accept [OF assms(1) [unfolded score_pairs_def] False] assms(2) show ?thesis by auto
qed

section \<open>Clusters stay inside components\<close>

definition inside :: "string list list \<Rightarrow> resolved_cluster list \<Rightarrow> bool" where
  "inside parts cs \<longleftrightarrow> (\<forall>c \<in> set cs. \<exists>p \<in> set parts. set (cluster_ids c) \<subseteq> set p)"

definition staying_inv ::
  "(string \<Rightarrow> resolution_record option) \<Rightarrow> string list list \<Rightarrow> pass_state \<Rightarrow> string list list \<Rightarrow> bool" where
  "staying_inv by_id done st rest \<longleftrightarrow> inside done (pass_clusters st) \<and> list_all (good_ids by_id) rest"

lemma list_all2_parts:
  "list_all2 (\<lambda>c ids. P c \<and> mset (cluster_ids c) = mset ids) cs idss \<Longrightarrow> c \<in> set cs \<Longrightarrow>
   \<exists>ids \<in> set idss. set (cluster_ids c) = set ids"
  by (induction rule: list_all2_induct) (auto dest: mset_eq_setD)

interpretation staying: result_loop
  "resolve_component rv by_id forbidden required least scores t who" "staying_inv by_id"
  for rv by_id forbidden required least scores t who
proof
  fix "done" and st :: pass_state and part rest
  assume "staying_inv by_id done st (part # rest)"
  then have inv: "inside done (pass_clusters st)" and part: "good_ids by_id part" and rest: "list_all (good_ids by_id) rest"
    by (auto simp: staying_inv_def)
  from part refine_and_link_ok [of part rv by_id forbidden required least "pass_similarity st"]
  obtain sim refined where r:
    "refine_and_link rv by_id forbidden required least (pass_similarity st) part = Some (sim, refined)"
    "mset (concat refined) = mset part" "list_all (\<lambda>c. c \<noteq> []) refined" by (auto simp: good_ids_def)
  let ?st = "st\<lparr>pass_similarity := sim, pass_unrefined := pass_unrefined st @
    (if MAX_REFINEMENT_COMPONENT < length part then [part] else [])\<rparr>"
  have "adding_inv by_id ?st [] ?st refined"
    using good_parts [OF part r(2,3)] by (simp add: adding_inv_def clustered_def)
  from adding.loop_returns [OF this, of rv scores t who] obtain u where
    u: "fold_res (add_cluster rv by_id scores t who) ?st refined = Inr u" "clustered by_id ?st refined u"
    by (auto simp: adding_inv_def)
  then obtain cs where cs: "pass_clusters u = pass_clusters st @ cs"
    "list_all2 (\<lambda>c ids. cluster_ok by_id c \<and> mset (cluster_ids c) = mset ids) cs refined" by (auto simp: clustered_def)
  have "set (cluster_ids c) \<subseteq> set part" if "c \<in> set cs" for c
    using list_all2_parts [OF cs(2) that] mset_eq_setD [OF r(2)] by auto
  then have "inside (done @ [part]) (pass_clusters u)" using inv unfolding inside_def cs(1) by auto
  with rest show "\<exists>u. resolve_component rv by_id forbidden required least scores t who st part = Inr u \<and>
      staying_inv by_id (done @ [part]) u rest"
    by (auto simp: resolve_component_def r(1) u(1) staying_inv_def)
qed

text \<open>The links a pass honours: those required and not forbidden.\<close>

definition honoured :: "pair list \<Rightarrow> pair list \<Rightarrow> pair list" where
  "honoured links bans = sort (remdups (filter (\<lambda>p. p \<notin> set (pair_keys bans)) (pair_keys links)))"

lemma clusters_connected:
  assumes "resolve rv index records links bans t who least = Inr res" and "c \<in> set (clusters res)"
    and "a \<in> set (cluster_ids c)" and "b \<in> set (cluster_ids c)"
  shows "connected (accepted (score_pairs rv index (map_of (map (\<lambda>r. (res_id r, r)) (sort_key res_id records)))
    (set (pair_keys bans)) (honoured links bans))) a b"
proof -
  let ?rs = "sort_key res_id records"
  let ?ids = "map res_id ?rs"
  let ?by_id = "map_of (map (\<lambda>r. (res_id r, r)) ?rs)"
  let ?sc = "score_pairs rv index ?by_id (set (pair_keys bans)) (honoured links bans)"
  have "mset ?ids = mset (map res_id records)" by simp
  then have d: "distinct ?ids" using resolve_Inr(2) [OF assms(1)] mset_eq_imp_distinct_iff by blast
  note by_id = map_of_records [OF d]
  have "set (accepted ?sc) \<subseteq> set ?ids \<times> set ?ids"
    using score_pairs_ok(1) [of "set (pair_keys bans)" "honoured links bans" rv index ?by_id] by_id(3) by (auto simp: honoured_def)
  from provisional_ok [OF d this] obtain parts where
    p: "provisional ?ids (accepted ?sc) = Some parts" "is_partition_of parts ?ids"
      "\<And>x y. x \<in> set ?ids \<Longrightarrow> y \<in> set ?ids \<Longrightarrow>
        (\<exists>c \<in> set parts. x \<in> set c \<and> y \<in> set c) \<longleftrightarrow> connected (accepted ?sc) x y" by blast
  have pm: "mset (concat parts) = mset ?ids" "list_all (\<lambda>c. c \<noteq> []) parts"
    using p(2) by (auto simp: is_partition_of_def list_all_iff)
  have good: "list_all (good_ids ?by_id) parts"
  proof (cases "?ids = []")
    case True
    then have "parts = []" using pm by (cases parts) auto
    then show ?thesis by simp
  next
    case False
    with by_id(1) d have "good_ids ?by_id ?ids" by (simp add: good_ids_def)
    from good_parts [OF this pm] show ?thesis .
  qed
  let ?st = "\<lparr>pass_similarity = similarity ?sc, pass_clusters = [], pass_merges = [],
    pass_edges = [], pass_review = [], pass_unrefined = []\<rparr> :: pass_state"
  from good have "staying_inv ?by_id [] ?st parts" by (simp add: staying_inv_def inside_def)
  from staying.loop_returns [OF this, of rv "set (pair_keys bans)" "honoured links bans" least "scores_by_pair ?sc" t who] obtain u where
    u: "fold_res (resolve_component rv ?by_id (set (pair_keys bans)) (honoured links bans) least (scores_by_pair ?sc) t who) ?st parts = Inr u"
      "inside parts (pass_clusters u)" by (auto simp: staying_inv_def)
  have "set (clusters res) = set (pass_clusters u)"
    using assms(1) d p(1) u(1) by (auto simp: resolve_def Let_def honoured_def)
  with u(2) assms(2) obtain q where q: "q \<in> set parts" "set (cluster_ids c) \<subseteq> set q" unfolding inside_def by blast
  moreover have "set q \<subseteq> set ?ids" using q(1) mset_eq_setD [OF pm(1)] by auto
  ultimately show ?thesis using p(3) [of a b] assms(3,4) by blast
qed

section \<open>What a cluster rests on\<close>

definition compared :: "measures \<Rightarrow> resolution_record \<Rightarrow> resolution_record \<Rightarrow> blocking_key list \<Rightarrow> bool" where
  "compared ms l r ks \<longleftrightarrow> \<not> type_conflict l r \<and>
    (if strong_identifiers l r = []
     then (\<exists>v. name_similarity ms (res_name l) (res_name r) = Some v \<and> NAME_EVIDENCE_FLOOR \<le> v) \<or>
        exact_alias_hit (alias_feature ms l r) \<or> shared_handle ks
     else \<forall>k \<in> set (strong_identifiers l r). map_of (identifiers l) k = map_of (identifiers r) k)"

text \<open>
  The evidence of one link: two records of the batch whose pair nobody forbade and somebody required, or
  that the index proposed and the matcher found alike.
\<close>

definition linked :: "measures \<Rightarrow> blocking_key blocking \<Rightarrow> resolution_record list \<Rightarrow> pair list \<Rightarrow> pair list \<Rightarrow> pair \<Rightarrow> bool" where
  "linked ms index records links bans q \<longleftrightarrow>
     q \<notin> set (pair_keys bans) \<and>
     (\<exists>l \<in> set records. \<exists>r \<in> set records. res_id l = fst q \<and> res_id r = snd q \<and>
        (q \<in> set (pair_keys links) \<or>
         q \<in> set (pair_keys (candidate_pairs index)) \<and> compared ms l r (shared_keys index (fst q) (snd q))))"

lemma default_computes: "\<exists>s. compute_score ms default_scorer l r ks = Inr s"
  by (auto simp: compute_score_def default_scorer_def MATCH_WEIGHTS_def Let_def)

lemma matched_merge:
  assumes "decision (matched_score ms l r ks) = MERGE"
  shows "compared ms l r ks"
proof -
  obtain s where s: "compute_score ms default_scorer l r ks = Inr s" using default_computes by blast
  with assms have "decision s = MERGE" by (simp add: matched_score_def match_score.defs)
  from merge_evidence [OF s this] show ?thesis by (simp add: compared_def split: if_splits)
qed

text \<open>
  C26. A cluster rests on evidence from end to end: whatever the index holds and whatever was
  required and forbidden, any two ids of a cluster are joined by a chain of pairs of records of
  the batch, none of them forbidden, each of which is a required link or a candidate pair
  that the matcher with its default weights and thresholds accepts: two records with compatible
  labels that agree on every strong identifier they share or, sharing none, have
  similar names, an exact shared surface or a shared handle.
\<close>

theorem clusters_rest_on_evidence:
  assumes "resolve (matched_resolver ms digest iso_date) index records links bans t who least = Inr res"
    and "c \<in> set (clusters res)" and "a \<in> set (cluster_ids c)" and "b \<in> set (cluster_ids c)"
  shows "(a, b) \<in> ({q. linked ms index records links bans q} \<union> {q. linked ms index records links bans q}\<inverse>)\<^sup>*"
proof -
  let ?by_id = "map_of (map (\<lambda>r. (res_id r, r)) (sort_key res_id records))"
  let ?sc = "score_pairs (matched_resolver ms digest iso_date) index ?by_id (set (pair_keys bans)) (honoured links bans)"
  have "linked ms index records links bans q" if "q \<in> set (accepted ?sc)" for q
  proof -
    have "set (pair_keys bans) \<inter> set (honoured links bans) = {}" by (auto simp: honoured_def)
    from score_pairs_accept [OF that this] obtain l r where
      q: "q \<notin> set (pair_keys bans)" "?by_id (fst q) = Some l" "?by_id (snd q) = Some r"
        "q \<in> set (honoured links bans) \<or> q \<in> set (pair_keys (candidate_pairs index)) \<and>
           decision (matched_score ms l r (shared_keys index (fst q) (snd q))) = MERGE"
      by (auto simp: matched_resolver_def)
    have "l \<in> set records \<and> res_id l = fst q" "r \<in> set records \<and> res_id r = snd q"
      using map_of_SomeD [OF q(2)] map_of_SomeD [OF q(3)] by auto
    with q(1,4) matched_merge [of ms l r "shared_keys index (fst q) (snd q)"] show ?thesis
      unfolding linked_def honoured_def set_sort set_remdups set_filter by blast
  qed
  then have "(set (accepted ?sc) \<union> (set (accepted ?sc))\<inverse>)\<^sup>* \<subseteq>
    ({q. linked ms index records links bans q} \<union> {q. linked ms index records links bans q}\<inverse>)\<^sup>*"
    by (intro rtrancl_mono) blast
  with clusters_connected [OF assms] show ?thesis unfolding connected_def by blast
qed

section \<open>The matcher matters on the batch only\<close>

lemma scorers_agree:
  assumes "\<And>l r ks. l \<in> ran by_id \<Longrightarrow> r \<in> ran by_id \<Longrightarrow> scorer rv l r ks = scorer rv' l r ks"
  shows "score_candidate rv index by_id = score_candidate rv' index by_id"
    and "score_missing rv by_id = score_missing rv' by_id"
proof -
  have eq: "by_id i = Some l \<Longrightarrow> by_id j = Some r \<Longrightarrow> scorer rv l r ks = scorer rv' l r ks" for i j l r ks
    by (rule assms) (auto intro: ranI)
  show "score_candidate rv index by_id = score_candidate rv' index by_id"
    by (intro ext) (auto simp: score_candidate_def Let_def eq split: option.splits)
  show "score_missing rv by_id = score_missing rv' by_id"
    by (intro ext) (auto simp: score_missing_def eq split: option.splits)
qed

lemma resolve_reads_batch:
  assumes "\<And>l r ks. l \<in> set records \<Longrightarrow> r \<in> set records \<Longrightarrow> scorer rv l r ks = scorer rv' l r ks"
    and "sha256 rv = sha256 rv'" and "isoformat rv = isoformat rv'"
  shows "resolve rv index records links bans t who least = resolve rv' index records links bans t who least"
proof -
  let ?by_id = "map_of (map (\<lambda>r. (res_id r, r)) (sort_key res_id records))"
  have "ran ?by_id \<subseteq> set records" using map_of_SomeD by (fastforce simp: ran_def)
  then have "\<And>l r ks. l \<in> ran ?by_id \<Longrightarrow> r \<in> ran ?by_id \<Longrightarrow> scorer rv l r ks = scorer rv' l r ks"
    using assms(1) by blast
  note agree = scorers_agree [OF this]
  have "merge_id rv = merge_id rv'" by (intro ext) (simp add: merge_id_def assms(2,3))
  then have "build_cluster rv = build_cluster rv'" by (intro ext) (simp only: build_cluster_def)
  then have "add_cluster rv = add_cluster rv'" by (intro ext) (simp only: add_cluster_def)
  moreover have "refine_and_link rv ?by_id = refine_and_link rv' ?by_id"
    by (intro ext) (simp only: refine_and_link_def score_missing_pairs_def agree(2))
  ultimately have "resolve_component rv ?by_id = resolve_component rv' ?by_id"
    by (intro ext) (simp only: resolve_component_def)
  then show ?thesis by (simp only: resolve_def score_pairs_def agree(1) Let_def)
qed

end
