(* ===== verification/Blocking_Examples.thy ===== *)
theory Blocking_Examples
  imports Matched_Pass
begin

text \<open>
  Witnesses of the laws of blocking and matching on small batches, and the places where they do
  not keep what their documentation promises.
\<close>

definition named :: "string \<Rightarrow> entity_type \<Rightarrow> string \<Rightarrow> string list \<Rightarrow> string set \<Rightarrow> resolution_record" where
  "named i ty n as ctx = \<lparr>res_id = i, res_type = ty, res_name = n, aliases = as, identifiers = [], embedding = None,
     context_ids = ctx, first_seen = None, last_seen = None, mention_count = 1, merged_from = []\<rparr>"

definition crude :: measures where
  "crude = \<lparr>ratio = (\<lambda>x y. if x = y then 100 else 0), token_set_ratio = (\<lambda>x y. if x = y then 100 else 0),
     token_sort_ratio = (\<lambda>x y. if x = y then 100 else 0), jaro_winkler = (\<lambda>x y. if x = y then 1 else 0),
     square_root = id\<rparr>"

definition no_planes :: "nat \<Rightarrow> pyfloat list list" where "no_planes n = []"

definition acme1 :: resolution_record where "acme1 = named ''a'' COMPANY ''Acme Corp.'' [] {''x''}"
definition acme2 :: resolution_record where "acme2 = named ''b'' COMPANY ''The ACME'' [''Roadrunner Inc''] {''x''}"

section \<open>Blocking\<close>

lemma acme_keys:
  "(EXACT, ''acme'') \<in> set (blocking_keys no_planes acme1)" "(EXACT, ''acme'') \<in> set (blocking_keys no_planes acme2)"
  by code_simp+

lemma acme_left: "left_records Map.empty [Add acme1, Add acme2] ''a'' = Some acme1"
  "left_records Map.empty [Add acme1, Add acme2] ''b'' = Some acme2"
  by (simp_all add: acme1_def acme2_def named_def)

theorem precise_blocks_are_never_lost_witness:
  "(''a'', ''b'') \<in> set (fst (index_candidates (index_after (blocking_keys no_planes) (Some 1) [Add acme1, Add acme2])))"
  by (rule precise_blocks_are_never_lost [OF acme_left _ acme_keys]) (simp_all add: less_char_def)

theorem shared_surface_is_candidate_witness:
  "(''a'', ''b'') \<in> set (fst (index_candidates (index_after (blocking_keys no_planes) None [Add acme1, Add acme2])))"
proof (rule shared_surface_is_candidate [OF acme_left])
  show "(''a'' :: string) < ''b''" by code_simp
  show "''Acme Corp.'' \<in> set (res_name acme1 # aliases acme1)" "''The ACME'' \<in> set (res_name acme2 # aliases acme2)"
    by (simp_all add: acme1_def acme2_def named_def)
  show "normalize_name ''Acme Corp.'' = normalize_name ''The ACME''" "normalize_name ''Acme Corp.'' \<noteq> []" by code_simp+
qed

section \<open>Matching\<close>

definition acme_score :: explained_score where
  "acme_score = projr (compute_score crude default_scorer acme1 acme2 [])"

lemma acme_scored: "compute_score crude default_scorer acme1 acme2 [] = Inr acme_score"
  unfolding acme_score_def using default_computes [of crude acme1 acme2 "[]"] by auto

lemma acme_merged: "decision acme_score = MERGE"
  by code_simp

theorem scores_are_normalised_witness:
  "in_unit (combined acme_score) \<and> list_all unit_feature (e_features acme_score)"
proof (rule scores_are_normalised [OF acme_scored])
  show "plain_weights (weights default_scorer)" by code_simp
qed (simp_all add: acme1_def acme2_def named_def)

theorem merge_needs_evidence_witness:
  "decision acme_score = MERGE \<and> AUTO_MERGE_THRESHOLD \<le> combined acme_score"
proof -
  have "strong_identifiers acme1 acme2 = []" by code_simp
  with merge_needs_evidence [OF acme_scored acme_merged] acme_merged show ?thesis by (simp add: default_scorer_def)
qed

theorem conflicts_are_distinct_witness:
  "\<exists>s. compute_score crude default_scorer acme1 (named ''p'' PRODUCT ''Acme'' [] {}) [] = Inr s \<and>
     decision s = DISTINCT \<and> combined s = 0"
  by (rule conflicts_are_distinct)
    (simp_all add: default_scorer_def MATCH_WEIGHTS_def type_conflict_def acme1_def named_def)

theorem missing_features_are_neutral_witness:
  "combine MATCH_WEIGHTS [name_feature crude 1 acme1 acme2, alias_feature crude acme1 acme1] = Some 1"
proof -
  have "0 < weight_in MATCH_WEIGHTS (name_feature crude 1 acme1 acme2)"
    "f_value (name_feature crude 1 acme1 acme2) = Some 1"
    "filter (\<lambda>f. f_value f \<noteq> None) [name_feature crude 1 acme1 acme2, alias_feature crude acme1 acme1] =
       [name_feature crude 1 acme1 acme2]" by code_simp+
  with missing_features_are_neutral [of MATCH_WEIGHTS "[name_feature crude 1 acme1 acme2, alias_feature crude acme1 acme1]"
      "name_feature crude 1 acme1 acme2"] show ?thesis by blast
qed

theorem memo_is_transparent_witness:
  "fst (score_all crude default_scorer [(acme1, acme2, []), (acme1, acme2, [])]) = [Inr acme_score, Inr acme_score]"
  using memo_is_transparent [of default_scorer "[(acme1, acme2, []), (acme1, acme2, [])]" crude]
  by (simp add: default_scorer_def [THEN arg_cong, of memo] acme_scored)

section \<open>Instances\<close>

text \<open>
  A pass over the matcher and the index, the witness of its theorem, and four places where the
  code of blocking and matching does not do what its documentation says.
\<close>

section \<open>A pass\<close>

text \<open>What the matcher says of mentions of one name: nothing speaks against the pair but its labels.\<close>

definition label_score :: "resolution_record \<Rightarrow> resolution_record \<Rightarrow> blocking_key list \<Rightarrow> match_score" where
  "label_score l r ks =
     (if type_conflict l r then \<lparr>combined = 0, decision = DISTINCT, applied_rule = Some (type_rule l r)\<rparr>
      else \<lparr>combined = 1, decision = MERGE, applied_rule = None\<rparr>)"

definition mention_of :: "string \<Rightarrow> entity_type \<Rightarrow> resolution_record" where
  "mention_of i ty = named i ty ''Stripe'' [] {}"

lemma stripe_name: "normalize_name ''Stripe'' = ''stripe''"
  by code_simp

lemma score_mentions: "matched_score ms (mention_of i a) (mention_of j b) ks = label_score (mention_of i a) (mention_of j b) ks"
proof -
  have n: "name_similarity ms ''Stripe'' ''Stripe'' = Some 1" by (simp add: name_similarity_def stripe_name)
  have "features_of ms w (mention_of i a) (mention_of j b) =
      [\<lparr>f_name = ''name'', f_value = Some 1, f_weight = w, f_detail = Blended\<rparr>,
       feature_of ''alias'' None No_alias_declared, feature_of ''embedding'' None Vector_missing,
       feature_of ''context'' None Context_empty]" for w
    by (simp add: features_of_def name_feature_def n mention_of_def named_def alias_feature_def embedding_feature_def context_feature_def)
  moreover have "identifier_verdict (mention_of i a) (mention_of j b) = None"
    by (simp add: identifier_verdict_def strong_identifiers_def mention_of_def named_def)
  ultimately show ?thesis
    by (simp add: Let_def matched_score_def compute_score_def default_scorer_def MATCH_WEIGHTS_def label_score_def combine_def
        add_feature_def feature_of_def decide_score_def band_def weak_name_def AUTO_MERGE_THRESHOLD_def
        NAME_EVIDENCE_FLOOR_def scored_def match_score.defs)
qed

definition by_label :: "blocking_key resolver" where
  "by_label = \<lparr>scorer = label_score, sha256 = id, isoformat = (\<lambda>_. [])\<rparr>"

definition unkeyed :: "string list \<Rightarrow> blocking_key blocking" where
  "unkeyed is = \<lparr>candidate_pairs = internal_pairs is, shared_keys = (\<lambda>_ _. [])\<rparr>"

definition clusters_of :: "py_error + resolution_result \<Rightarrow> resolved_cluster list" where
  "clusters_of r = (case r of Inl _ \<Rightarrow> [] | Inr res \<Rightarrow> clusters res)"

definition mentions_pass :: "measures \<Rightarrow> resolution_record list \<Rightarrow> py_error + resolution_result" where
  "mentions_pass ms rs =
     resolve (matched_resolver ms id (\<lambda>_. [])) (unkeyed (map res_id rs)) rs [] [] 0 ''x'' MIN_WITHIN_CLUSTER_LINKAGE"

lemma mentions_pass_labels:
  assumes "set rs \<subseteq> {mention_of i ty |i ty. True}"
  shows "mentions_pass ms rs = resolve by_label (unkeyed (map res_id rs)) rs [] [] 0 ''x'' MIN_WITHIN_CLUSTER_LINKAGE"
  unfolding mentions_pass_def
proof (rule resolve_reads_batch)
  fix l r ks assume "l \<in> set rs" "r \<in> set rs"
  with assms obtain i j a b where "l = mention_of i a" "r = mention_of j b" by blast
  then show "scorer (matched_resolver ms id (\<lambda>_. [])) l r ks = scorer by_label l r ks"
    by (simp add: matched_resolver_def by_label_def score_mentions)
qed (simp_all add: matched_resolver_def by_label_def)

lemma cluster_found:
  assumes "map cluster_ids (clusters_of p) = [is]"
  shows "\<exists>res c. p = Inr res \<and> c \<in> set (clusters res) \<and> cluster_ids c = is"
  using assms by (cases p) (auto simp: clusters_of_def map_eq_Cons_conv)

definition pair_batch :: "resolution_record list" where
  "pair_batch = [mention_of ''b'' COMPANY, mention_of ''a'' COMPANY]"

lemma pair_clusters:
  "map cluster_ids (clusters_of (resolve by_label (unkeyed (map res_id pair_batch)) pair_batch [] [] 0 ''x''
     MIN_WITHIN_CLUSTER_LINKAGE)) = [[''a'', ''b'']]"
  by code_simp

theorem clusters_rest_on_evidence_witness:
  "(''a'', ''b'') \<in> ({q. linked crude (unkeyed (map res_id pair_batch)) pair_batch [] [] q} \<union>
     {q. linked crude (unkeyed (map res_id pair_batch)) pair_batch [] [] q}\<inverse>)\<^sup>*"
proof -
  have "set pair_batch \<subseteq> {mention_of i ty |i ty. True}" by (auto simp: pair_batch_def)
  note p = mentions_pass_labels [OF this, of crude]
  from cluster_found [OF pair_clusters] obtain res c where
    "mentions_pass crude pair_batch = Inr res" and c: "c \<in> set (clusters res)" "cluster_ids c = [''a'', ''b'']"
    unfolding p by blast
  from clusters_rest_on_evidence [OF this(1) [unfolded mentions_pass_def] c(1), of "''a''" "''b''"] c(2) show ?thesis by simp
qed

section \<open>A company and a product in one cluster\<close>

text \<open>
  The labels of a pair may not conflict, the labels of a cluster may: two records whose label is
  unknown are each like both, and the average linkage of three to the fourth is two thirds.
\<close>

definition mixed_batch :: "resolution_record list" where
  "mixed_batch = [mention_of ''a'' COMPANY, mention_of ''b'' UNKNOWN_TYPE, mention_of ''c'' UNKNOWN_TYPE,
     mention_of ''d'' PRODUCT]"

lemma mixed_clusters:
  "map cluster_ids (clusters_of (resolve by_label (unkeyed (map res_id mixed_batch)) mixed_batch [] [] 0 ''x''
     MIN_WITHIN_CLUSTER_LINKAGE)) = [[''a'', ''b'', ''c'', ''d'']]"
  by code_simp

theorem conflicting_labels_share_a_cluster:
  "type_conflict (mention_of ''a'' COMPANY) (mention_of ''d'' PRODUCT) \<and>
   (\<exists>res. mentions_pass ms mixed_batch = Inr res \<and>
      (\<exists>c \<in> set (clusters res). ''a'' \<in> set (cluster_ids c) \<and> ''d'' \<in> set (cluster_ids c)))"
proof -
  have "set mixed_batch \<subseteq> {mention_of i ty |i ty. True}" by (auto simp: mixed_batch_def)
  note p = mentions_pass_labels [OF this, of ms]
  from cluster_found [OF mixed_clusters] obtain res c where
    "mentions_pass ms mixed_batch = Inr res" "c \<in> set (clusters res)" "cluster_ids c = [''a'', ''b'', ''c'', ''d'']"
    unfolding p by blast
  then show ?thesis by (intro conjI exI [of _ res] bexI [of _ c])
      (simp_all add: mention_of_def named_def type_conflict_def)
qed

section \<open>Evidence that counts against\<close>

text \<open>
  One shared entity of ten sinks a pair with one name: without any shared context it merges, with
  some it is not even reviewed.
\<close>

theorem shared_context_sinks_identical_names:
  "map_sum id decision (score_pair crude (named ''a'' COMPANY ''Acme'' [] {''1'', ''2''})
     (named ''b'' COMPANY ''Acme'' [] {''3'', ''4''}) []) = Inr MERGE \<and>
   map_sum id decision (score_pair crude (named ''a'' COMPANY ''Acme'' [] {''1'', ''2'', ''3'', ''4'', ''5'', ''6''})
     (named ''b'' COMPANY ''Acme'' [] {''1'', ''7'', ''8'', ''9'', ''0''}) []) = Inr DISTINCT"
  by code_simp

text \<open>Aliases of punctuation normalise to nothing, and nothing is an exact hit of nothing.\<close>

theorem punctuation_is_an_exact_alias_hit:
  "exact_alias_hit (alias_feature crude (named ''a'' COMPANY ''Acme'' [''...''] {}) (named ''b'' COMPANY ''Zeta'' [''!!''] {}))"
  by code_simp

text \<open>The memo is keyed by the ids alone: a handle that is shared only at the second call is not seen.\<close>

definition near1 :: resolution_record where
  "near1 = (named ''a'' COMPANY ''Acme'' [] {})\<lparr>embedding := Some [1]\<rparr>"
definition near2 :: resolution_record where
  "near2 = (named ''b'' COMPANY ''Zeta'' [] {})\<lparr>embedding := Some [1]\<rparr>"
definition half_scorer :: match_scorer where
  "half_scorer = default_scorer\<lparr>auto_merge := 1 / 3, review_from := 1 / 4\<rparr>"

theorem memo_ignores_shared_keys:
  "map (map_sum id decision) (fst (score_all crude half_scorer
     [(near1, near2, []), (near1, near2, [(IDENTIFIER, ''handle:x=y'')])])) = [Inr REVIEW, Inr REVIEW] \<and>
   map_sum id decision (compute_score crude half_scorer near1 near2 [(IDENTIFIER, ''handle:x=y'')]) = Inr MERGE"
  by code_simp

end
