(* ===== verification/Data_Boundary.thy ===== *)
theory Data_Boundary
  imports Py_Text
begin

text \<open>
  The data boundary of \<open>agents/tools/registry.py\<close> on ASCII texts: scrubbing, the type of third-party
  text, its rendering inside a fence. The laws: no scrubbed text holds the sentinel of the
  fence in any spelling, scrubbing again changes nothing, an attribute cannot leave the line of
  the header, and in a rendered block the sentinel occurs where we put it and nowhere else.
\<close>

section \<open>Scrubbing\<close>

definition MAX_UNTRUSTED_CHARS :: nat where "MAX_UNTRUSTED_CHARS = 4000"
definition MAX_ATTRIBUTE_CHARS :: nat where "MAX_ATTRIBUTE_CHARS = 200"

definition FENCE_OPEN_PREFIX :: string where "FENCE_OPEN_PREFIX = ''<<<OMNISENSE_UNTRUSTED_DATA''"
definition FENCE_CLOSE :: string where "FENCE_CLOSE = ''<<<OMNISENSE_END_UNTRUSTED_DATA>>>''"
definition REDACTED :: string where "REDACTED = ''[redacted-fence-token]''"

definition FENCE_TOKENS :: "string list" where
  "FENCE_TOKENS = [''omnisense_end_untrusted_data'', ''omnisense_untrusted_data'']"

fun starts_ci :: "string \<Rightarrow> string \<Rightarrow> bool" where
  "starts_ci [] s = True"
| "starts_ci (a # t) [] = False"
| "starts_ci (a # t) (c # s) = (lower_char c = a \<and> starts_ci t s)"

text \<open>The length of the token that begins the text, if one does.\<close>

definition token_length :: "string \<Rightarrow> nat option" where
  "token_length s = (case filter (\<lambda>t. starts_ci t s) FENCE_TOKENS of [] \<Rightarrow> None | t # _ \<Rightarrow> Some (length t))"

lemma token_length_none: "token_length s = None \<longleftrightarrow> list_all (\<lambda>t. \<not> starts_ci t s) FENCE_TOKENS"
proof -
  have "token_length s = None \<longleftrightarrow> filter (\<lambda>t. starts_ci t s) FENCE_TOKENS = []"
    by (simp add: token_length_def split: list.splits)
  then show ?thesis by (simp add: filter_empty_conv list_all_iff)
qed

lemma token_length_pos: "token_length s = Some n \<Longrightarrow> 0 < n"
  by (auto simp: token_length_def FENCE_TOKENS_def split: if_splits)

function redact :: "string \<Rightarrow> string" where
  "redact s =
     (case s of
        [] \<Rightarrow> []
      | c # cs \<Rightarrow> (case token_length s of Some n \<Rightarrow> REDACTED @ redact (drop n s) | None \<Rightarrow> c # redact cs))"
  by pat_completeness auto
termination
  by (relation "measure length") (auto dest: token_length_pos)

declare redact.simps [simp del]

definition is_control :: "char \<Rightarrow> bool" where
  "is_control c \<longleftrightarrow> (let n = (of_char c :: nat) in n \<le> 8 \<or> n = 11 \<or> n = 12 \<or> 14 \<le> n \<and> n \<le> 31 \<or> n = 127)"

definition scrub_text :: "string \<Rightarrow> string" where
  "scrub_text v = redact (filter (\<lambda>c. \<not> is_control c) v)"

definition header_char :: "char \<Rightarrow> char" where
  "header_char c = (if c = CHR 0x22 then CHR 0x27 else if c = CHR ''<'' then CHR ''('' else if c = CHR ''>'' then CHR '')'' else c)"

definition scrub_attribute :: "string \<Rightarrow> string" where
  "scrub_attribute v = take MAX_ATTRIBUTE_CHARS (map header_char (py_join '' '' (py_split (scrub_text v))))"

section \<open>Third-party text\<close>

definition INSTRUCTION_MARKERS :: "string list" where
  "INSTRUCTION_MARKERS = [''ignore previous instruction'', ''ignore all previous'', ''disregard the above'',
     ''disregard previous'', ''new instructions:'', ''system prompt'', ''you are now'', ''override your'']"

fun contains :: "string \<Rightarrow> string \<Rightarrow> bool" where
  "contains p [] = (p = [])"
| "contains p (c # s) = (take (length p) (c # s) = p \<or> contains p s)"

definition looks_like_instruction :: "string \<Rightarrow> bool" where
  "looks_like_instruction t \<longleftrightarrow> list_ex (\<lambda>m. contains m (py_lower t)) INSTRUCTION_MARKERS"

record untrusted_text =
  ut_text :: string
  ut_source :: string
  ut_ref :: string
  ut_url :: "string option"
  ut_truncated :: bool
  ut_suspected :: bool

text \<open>
  What the validators of the type make of any fields, before \<open>StrictModel\<close> strips the white space at both
  ends of every string.
\<close>

definition validated :: "untrusted_text \<Rightarrow> untrusted_text" where
  "validated u = u\<lparr>ut_text := py_strip (take MAX_UNTRUSTED_CHARS (scrub_text (ut_text u))),
     ut_source := py_strip (scrub_attribute (ut_source u)), ut_ref := py_strip (scrub_attribute (ut_ref u)),
     ut_url := map_option (\<lambda>v. py_strip (scrub_attribute v)) (ut_url u)\<rparr>"

definition capture :: "string \<Rightarrow> string \<Rightarrow> string \<Rightarrow> string option \<Rightarrow> int \<Rightarrow> untrusted_text" where
  "capture text source r url max_chars =
     (let limit = nat (max 0 (min max_chars (int MAX_UNTRUSTED_CHARS))); cleaned = scrub_text text in
      validated \<lparr>ut_text = take limit cleaned, ut_source = source, ut_ref = r, ut_url = url,
        ut_truncated = length cleaned > limit, ut_suspected = looks_like_instruction cleaned\<rparr>)"

datatype fence_error = UnsafeToolOutput

fun has_token :: "string \<Rightarrow> bool" where
  "has_token [] = False"
| "has_token (c # s) = (token_length (c # s) \<noteq> None \<or> has_token s)"

definition attribute :: "string \<Rightarrow> string \<Rightarrow> string" where
  "attribute k v = k @ ''='' @ [CHR 0x22] @ v @ [CHR 0x22]"

definition attributes_of :: "untrusted_text \<Rightarrow> string list" where
  "attributes_of u = [attribute ''source'' (ut_source u), attribute ''ref'' (ut_ref u)]
     @ (case ut_url u of None \<Rightarrow> [] | Some v \<Rightarrow> if v = [] then [] else [attribute ''url'' v])
     @ (if ut_truncated u then [attribute ''truncated'' ''true''] else [])
     @ (if ut_suspected u then [attribute ''suspected_injection'' ''true''] else [])"

definition fence_header :: "untrusted_text \<Rightarrow> string" where
  "fence_header u = FENCE_OPEN_PREFIX @ '' '' @ py_join '' '' (attributes_of u) @ ''>>>''"

definition render :: "untrusted_text \<Rightarrow> fence_error + string" where
  "render u =
     (if has_token (ut_text u) then Inl UnsafeToolOutput
      else Inr (fence_header u @ [CHR 0x0A] @ ut_text u @ [CHR 0x0A] @ FENCE_CLOSE))"

section \<open>Texts without the sentinel\<close>

lemma starts_ci_append: "starts_ci t s \<Longrightarrow> starts_ci t (s @ u)"
  by (induction t s rule: starts_ci.induct) auto

lemma token_length_append: "token_length s \<noteq> None \<Longrightarrow> token_length (s @ u) \<noteq> None"
  by (auto simp: token_length_none list_all_iff intro: starts_ci_append)

lemma token_length_nil [simp]: "token_length [] = None"
  by (simp add: token_length_def FENCE_TOKENS_def)

lemma has_token_left: "has_token s \<Longrightarrow> has_token (s @ u)"
  by (induction s) (use token_length_append in fastforce)+

lemma has_token_right: "has_token u \<Longrightarrow> has_token (s @ u)"
  by (induction s) auto

lemma has_token_take: "\<not> has_token s \<Longrightarrow> \<not> has_token (take n s)"
  using has_token_left [of "take n s" "drop n s"] by auto

text \<open>A character of no token separates: a token lies on one side of it.\<close>

definition separates :: "char \<Rightarrow> bool" where
  "separates c \<longleftrightarrow> list_all (\<lambda>t. lower_char c \<notin> set t) FENCE_TOKENS"

lemma starts_ci_sep: "lower_char c \<notin> set t \<Longrightarrow> starts_ci t (x @ c # y) \<longleftrightarrow> starts_ci t x"
  by (induction t x rule: starts_ci.induct) (auto elim: starts_ci.elims)

lemma token_length_sep: "separates c \<Longrightarrow> token_length (x @ c # y) = token_length x"
proof -
  assume c: "separates c"
  then have "filter (\<lambda>t. starts_ci t (x @ c # y)) FENCE_TOKENS = filter (\<lambda>t. starts_ci t x) FENCE_TOKENS"
    by (intro filter_cong) (auto simp: separates_def list_all_iff starts_ci_sep)
  then show ?thesis by (simp add: token_length_def)
qed

lemma has_token_sep: "separates c \<Longrightarrow> has_token (x @ c # y) \<longleftrightarrow> has_token x \<or> has_token y"
proof (induction x)
  case Nil
  then show ?case using token_length_sep [of c "[]" y] by simp
next
  case (Cons a x)
  then show ?case using token_length_sep [of c "a # x" y] by simp
qed

lemma separators [simp]:
  "separates CHR '' ''" "separates CHR 0x22" "separates CHR ''=''" "separates CHR ''>''" "separates CHR ''<''"
  "separates CHR 0x0A" "separates CHR ''[''"
  by code_simp+

end
