(* ===== verification/Boundary_Laws.thy ===== *)
theory Boundary_Laws
  imports Data_Boundary
begin

text \<open>
  Laws of the data boundary of \<open>agents/tools/registry.py\<close>: scrubbed texts are free of the fence
  sentinel, one pass is enough, an attribute stays inside the header line, and whatever
  a provider sends, the fence of a rendered block cannot be forged or closed from within.
\<close>

section \<open>Scrubbing\<close>

text \<open>The text that replaces a token begins with a bracket, which no token holds.\<close>

lemma starts_ci_redact: "CHR ''['' \<notin> set t \<Longrightarrow> starts_ci t (redact s) \<Longrightarrow> starts_ci t s"
proof (induction t arbitrary: s)
  case (Cons a t)
  show ?case
  proof (cases s)
    case s: (Cons c cs)
    show ?thesis
    proof (cases "token_length s")
      case None
      then have "redact s = c # redact cs" by (simp add: s redact.simps [of "c # cs"])
      with Cons.prems Cons.IH [of cs] show ?thesis by (simp add: s)
    next
      case (Some n)
      then have "redact s = CHR ''['' # tl REDACTED @ redact (drop n s)"
        by (simp add: s redact.simps [of "c # cs"] REDACTED_def)
      moreover have "lower_char CHR ''['' = CHR ''[''" by code_simp
      ultimately show ?thesis using Cons.prems by simp
    qed
  qed (use Cons.prems in \<open>simp add: redact.simps\<close>)
qed simp

lemma tokens_bracket: "t \<in> set FENCE_TOKENS \<Longrightarrow> CHR ''['' \<notin> set t"
  by (auto simp: FENCE_TOKENS_def)

lemma token_length_redact:
  assumes "token_length (c # cs) = None"
  shows "token_length (c # redact cs) = None"
proof -
  have "\<not> starts_ci t (c # redact cs)" if t: "t \<in> set FENCE_TOKENS" for t
  proof
    assume s: "starts_ci t (c # redact cs)"
    from t obtain a t' where t': "t = a # t'" by (auto simp: FENCE_TOKENS_def)
    with s have "lower_char c = a" "starts_ci t' (redact cs)" by auto
    moreover have "CHR ''['' \<notin> set t'" using tokens_bracket [OF t] t' by simp
    ultimately have "starts_ci t' cs" using starts_ci_redact [of t' cs] by simp
    with \<open>lower_char c = a\<close> t' have "starts_ci t (c # cs)" by simp
    with assms t show False by (auto simp: token_length_none list_all_iff)
  qed
  then show ?thesis by (auto simp: token_length_none list_all_iff)
qed

lemma redacted_clean: "has_token (REDACTED @ s) \<longleftrightarrow> has_token s"
proof -
  have e: "REDACTED @ s = ''[redacted-fence-token'' @ CHR '']'' # s" by (simp add: REDACTED_def)
  have "separates CHR '']''" "\<not> has_token ''[redacted-fence-token''" by code_simp+
  then show ?thesis unfolding e using has_token_sep by blast
qed

lemma redact_clean: "\<not> has_token (redact s)"
proof (induction s rule: redact.induct)
  case (1 s)
  show ?case
  proof (cases s)
    case (Cons c cs)
    show ?thesis
    proof (cases "token_length s")
      case None
      with 1(1) [OF Cons None] token_length_redact [of c cs] show ?thesis by (simp add: Cons redact.simps [of "c # cs"])
    next
      case (Some n)
      with 1(2) [OF Cons Some] show ?thesis by (simp add: Cons redact.simps [of "c # cs"] redacted_clean)
    qed
  qed (simp add: redact.simps)
qed

lemma redact_id: "\<not> has_token s \<Longrightarrow> redact s = s"
  by (induction s) (simp_all add: redact.simps)

lemma redact_chars: "list_all P REDACTED \<Longrightarrow> list_all P s \<Longrightarrow> list_all P (redact s)"
proof (induction s rule: redact.induct)
  case (1 s)
  show ?case
  proof (cases s)
    case (Cons c cs)
    have d: "list_all P (drop n s)" for n using 1(4) by (auto simp: list_all_iff dest: in_set_dropD)
    show ?thesis
    proof (cases "token_length s")
      case None
      with 1(1) [OF Cons None 1(3)] 1(4) show ?thesis by (simp add: Cons redact.simps [of "c # cs"])
    next
      case (Some n)
      with 1(2) [OF Cons Some 1(3) d] 1(3) show ?thesis by (simp add: Cons redact.simps [of "c # cs"])
    qed
  qed (simp add: redact.simps)
qed

lemma scrub_clean: "\<not> has_token (scrub_text v)"
  by (simp add: scrub_text_def redact_clean)

lemma scrub_no_control: "list_all (\<lambda>c. \<not> is_control c) (scrub_text v)"
  unfolding scrub_text_def
  by (rule redact_chars) (code_simp, simp add: list_all_iff)

text \<open>
  Scrubbing reaches its goal in one pass: what it returns holds no control character and no
  spelling of the fence sentinel, even where dropping a control character or replacing a
  token brings its neighbours together, and scrubbing again changes nothing.
\<close>

theorem scrubbing_is_final:
  "\<not> has_token (scrub_text v) \<and> list_all (\<lambda>c. \<not> is_control c) (scrub_text v) \<and> scrub_text (scrub_text v) = scrub_text v"
proof -
  have "filter (\<lambda>c. \<not> is_control c) (scrub_text v) = scrub_text v"
    using scrub_no_control [of v] by (auto simp: list_all_iff intro: filter_True)
  then have "scrub_text (scrub_text v) = redact (scrub_text v)" by (simp only: scrub_text_def [of "scrub_text v"])
  then show ?thesis using scrub_clean scrub_no_control redact_id by simp
qed

section \<open>Attributes\<close>

lemma split_clean: "\<not> has_token (w @ s) \<Longrightarrow> list_all (\<lambda>p. \<not> has_token p) (split_go w s)"
proof (induction w s rule: split_go.induct)
  case (2 w c cs)
  have "\<not> has_token w" "\<not> has_token cs"
    using 2(4) has_token_left [of w "c # cs"] has_token_right [of cs "w @ [c]"] by auto
  with 2 show ?case by auto
qed simp

lemma join_clean: "list_all (\<lambda>p. \<not> has_token p) ps \<Longrightarrow> \<not> has_token (py_join '' '' ps)"
  by (induction "'' ''" ps rule: py_join.induct) (simp_all add: has_token_sep)

lemma starts_ci_map:
  "\<forall>c. \<forall>a \<in> set t. lower_char (f c) = a \<longleftrightarrow> lower_char c = a \<Longrightarrow> starts_ci t (map f s) = starts_ci t s"
  by (induction t s rule: starts_ci.induct) auto

lemma header_char_tokens: "\<forall>a \<in> set (concat FENCE_TOKENS). lower_char (header_char c) = a \<longleftrightarrow> lower_char c = a"
proof -
  have "list_all (\<lambda>a. a \<notin> {CHR 0x22, CHR ''<'', CHR ''>'', CHR 0x27, CHR ''('', CHR '')''}) (concat FENCE_TOKENS)" by code_simp
  moreover have "lower_char CHR 0x22 = CHR 0x22" "lower_char CHR ''<'' = CHR ''<''" "lower_char CHR ''>'' = CHR ''>''"
    "lower_char CHR 0x27 = CHR 0x27" "lower_char CHR ''('' = CHR ''(''" "lower_char CHR '')'' = CHR '')''" by code_simp+
  ultimately show ?thesis unfolding header_char_def list_all_iff by (cases "c \<in> {CHR 0x22, CHR ''<'', CHR ''>''}") auto
qed

lemma token_length_header: "token_length (map header_char s) = token_length s"
proof -
  have "starts_ci t (map header_char s) = starts_ci t s" if "t \<in> set FENCE_TOKENS" for t
    using that header_char_tokens by (intro starts_ci_map) auto
  then show ?thesis unfolding token_length_def by (metis (no_types, lifting) filter_cong)
qed

lemma has_token_header: "has_token (map header_char s) = has_token s"
proof (induction s)
  case (Cons c s)
  then show ?case using token_length_header [of "c # s"] by simp
qed simp

lemma scrub_attribute_clean: "\<not> has_token (scrub_attribute v)"
proof -
  have "list_all (\<lambda>p. \<not> has_token p) (py_split (scrub_text v))"
    unfolding py_split_def by (rule split_clean) (simp add: scrub_clean)
  then show ?thesis unfolding scrub_attribute_def by (intro has_token_take) (simp add: has_token_header join_clean)
qed

lemma split_go_chars: "list_all P w \<Longrightarrow> list_all P s \<Longrightarrow> list_all (list_all P) (split_go w s)"
  by (induction w s rule: split_go.induct) auto

lemma join_chars: "P CHR '' '' \<Longrightarrow> list_all (list_all P) ps \<Longrightarrow> list_all P (py_join '' '' ps)"
  by (induction "'' ''" ps rule: py_join.induct) simp_all

lemma list_all_take: "list_all P xs \<Longrightarrow> list_all P (take n xs)"
  by (meson in_set_takeD list_all_iff)

text \<open>
  Provenance stays inside the header: whatever a provider puts into a source, a reference or a URL,
  the attribute made of it holds no quote, no angle bracket, no line break and no
  sentinel, and at most two hundred characters.
\<close>

theorem attribute_stays_in_header:
  "list_all (\<lambda>c. c \<notin> {CHR 0x22, CHR ''<'', CHR ''>''} \<and> (is_space c \<longrightarrow> c = CHR '' '')) (scrub_attribute v) \<and>
   \<not> has_token (scrub_attribute v) \<and> length (scrub_attribute v) \<le> MAX_ATTRIBUTE_CHARS"
proof -
  have w: "list_all (list_all (\<lambda>c. \<not> is_space c)) (py_split (scrub_text v))"
    using py_split_words [of "scrub_text v"] by (simp add: list_all_iff is_word_def)
  have "list_all (list_all (\<lambda>c. is_space c \<longrightarrow> c = CHR '' '')) (py_split (scrub_text v))"
    using w by (auto simp: list_all_iff)
  then have j: "list_all (\<lambda>c. is_space c \<longrightarrow> c = CHR '' '') (py_join '' '' (py_split (scrub_text v)))" by (intro join_chars) simp_all
  have sp: "\<not> is_space CHR 0x27" "\<not> is_space CHR ''(''" "\<not> is_space CHR '')''" by code_simp+
  have "list_all (\<lambda>c. c \<notin> {CHR 0x22, CHR ''<'', CHR ''>''} \<and> (is_space c \<longrightarrow> c = CHR '' ''))
      (map header_char (py_join '' '' (py_split (scrub_text v))))"
    using j sp by (auto simp: list_all_iff header_char_def)
  then have "list_all (\<lambda>c. c \<notin> {CHR 0x22, CHR ''<'', CHR ''>''} \<and> (is_space c \<longrightarrow> c = CHR '' '')) (scrub_attribute v)"
    unfolding scrub_attribute_def by (rule list_all_take)
  then show ?thesis using scrub_attribute_clean by (simp add: scrub_attribute_def)
qed

section \<open>The fence\<close>

fun tokens_from :: "nat \<Rightarrow> string \<Rightarrow> nat list" where
  "tokens_from i [] = []"
| "tokens_from i (c # s) = (if token_length (c # s) \<noteq> None then [i] else []) @ tokens_from (Suc i) s"

text \<open>Where the sentinel begins in a text, in any spelling.\<close>

definition token_positions :: "string \<Rightarrow> nat list" where
  "token_positions s = tokens_from 0 s"

lemma tokens_from_sep:
  "separates c \<Longrightarrow> tokens_from i (x @ c # y) = tokens_from i x @ tokens_from (i + length x + 1) y"
proof (induction x arbitrary: i)
  case Nil
  then show ?case using token_length_sep [of c "[]" y] by simp
next
  case (Cons a x)
  then show ?case using token_length_sep [of c "a # x" y] by simp
qed

lemma tokens_from_clean: "tokens_from i s = [] \<longleftrightarrow> \<not> has_token s"
  by (induction s arbitrary: i) auto

definition unforgeable :: "untrusted_text \<Rightarrow> bool" where
  "unforgeable u \<longleftrightarrow> \<not> has_token (ut_text u) \<and> \<not> has_token (ut_source u) \<and> \<not> has_token (ut_ref u) \<and>
     (\<forall>v. ut_url u = Some v \<longrightarrow> \<not> has_token v)"

lemma has_token_drop: "\<not> has_token s \<Longrightarrow> \<not> has_token (drop n s)"
proof (induction n arbitrary: s)
  case (Suc n)
  then show ?case by (cases s) auto
qed simp

text \<open>Stripping takes away at the ends only.\<close>

lemma strip_part: "\<exists>i j. py_strip s = take i (drop j s)"
proof -
  have "\<exists>i. rev (dropWhile is_space (rev t)) = take i t" for t
    by (metis dropWhile_eq_drop rev_drop rev_rev_ident length_rev)
  moreover have "\<exists>j. dropWhile is_space s = drop j s" using dropWhile_eq_drop by blast
  ultimately show ?thesis unfolding py_strip_def by metis
qed

lemma has_token_strip: "\<not> has_token s \<Longrightarrow> \<not> has_token (py_strip s)"
  using strip_part [of s] has_token_take has_token_drop by metis

lemma validated_unforgeable: "unforgeable (validated u)"
  using scrub_attribute_clean by (auto simp: unforgeable_def validated_def has_token_strip has_token_take scrub_clean)

lemma attribute_clean: "\<not> has_token k \<Longrightarrow> \<not> has_token v \<Longrightarrow> \<not> has_token (attribute k v)"
proof -
  assume "\<not> has_token k" "\<not> has_token v"
  moreover have "attribute k v = k @ CHR ''='' # ([] @ CHR 0x22 # (v @ CHR 0x22 # []))" by (simp add: attribute_def)
  ultimately show ?thesis by (simp only: has_token_sep separators has_token.simps simp_thms)
qed

lemma names_clean:
  "list_all (\<lambda>k. \<not> has_token k) [''source'', ''ref'', ''url'', ''truncated'', ''suspected_injection'', ''true'']"
  by code_simp

lemma attributes_clean:
  assumes "unforgeable u"
  shows "list_all (\<lambda>p. \<not> has_token p) (attributes_of u)"
proof -
  note n = names_clean [unfolded list.pred_inject]
  have t: "\<not> has_token (attribute ''truncated'' ''true'')" "\<not> has_token (attribute ''suspected_injection'' ''true'')"
    by (intro attribute_clean; use n in blast)+
  have "\<not> has_token (attribute ''source'' (ut_source u))" "\<not> has_token (attribute ''ref'' (ut_ref u))"
    by (intro attribute_clean; use n assms unforgeable_def in blast)+
  moreover have "\<not> has_token (attribute ''url'' v)" if "ut_url u = Some v" for v
    by (rule attribute_clean) (use n assms that unforgeable_def in blast)+
  ultimately show ?thesis using t
    by (auto simp: attributes_of_def simp del: has_token.simps split: option.splits)
qed

lemma tokens_from_shift: "tokens_from i s = map (\<lambda>j. i + j) (tokens_from 0 s)"
proof -
  have "tokens_from (i + k) s = map (\<lambda>j. i + j) (tokens_from k s)" for k
    by (induction s arbitrary: k) (simp_all flip: add_Suc_right)
  from this [of 0] show ?thesis by simp
qed

lemma tokens_open: "tokens_from i FENCE_OPEN_PREFIX = [i + 3]" "tokens_from i FENCE_CLOSE = [i + 3]"
proof -
  have "tokens_from 0 FENCE_OPEN_PREFIX = [3]" "tokens_from 0 FENCE_CLOSE = [3]" by code_simp+
  then show "tokens_from i FENCE_OPEN_PREFIX = [i + 3]" "tokens_from i FENCE_CLOSE = [i + 3]"
    using tokens_from_shift [of i FENCE_OPEN_PREFIX] tokens_from_shift [of i FENCE_CLOSE] by simp_all
qed

lemma header_tokens:
  assumes "unforgeable u"
  shows "tokens_from i (fence_header u) = [i + 3]"
proof -
  have "\<not> has_token (py_join '' '' (attributes_of u) @ ''>>>'')"
    using join_clean [OF attributes_clean [OF assms]] has_token_sep [of "CHR ''>''" "py_join '' '' (attributes_of u)" "''>>''"]
      has_token_sep [of "CHR ''>''" "[]" "''>''"] has_token_sep [of "CHR ''>''" "[]" "[]"] by simp
  then show ?thesis
    using tokens_from_sep [of "CHR '' ''" i FENCE_OPEN_PREFIX "py_join '' '' (attributes_of u) @ ''>>>''"]
    by (simp add: fence_header_def tokens_open tokens_from_clean)
qed

lemma render_tokens:
  assumes "unforgeable u"
  shows "\<exists>r. render u = Inr r \<and> token_positions r = [3, length r - length FENCE_CLOSE + 3] \<and>
    (\<exists>h. r = h @ FENCE_CLOSE)"
proof -
  let ?nl = "CHR 0x0A"
  let ?r = "fence_header u @ [?nl] @ ut_text u @ [?nl] @ FENCE_CLOSE"
  have "tokens_from 0 (fence_header u @ ?nl # ut_text u @ ?nl # FENCE_CLOSE) =
      [3, length (fence_header u) + length (ut_text u) + 2 + 3]"
    using assms tokens_from_clean [of _ "ut_text u"]
    by (simp add: tokens_from_sep header_tokens tokens_open unforgeable_def)
  then have "token_positions ?r = [3, length ?r - length FENCE_CLOSE + 3]" by (simp add: token_positions_def)
  moreover have "render u = Inr ?r" using assms by (simp add: render_def unforgeable_def)
  moreover have "?r = (fence_header u @ [?nl] @ ut_text u @ [?nl]) @ FENCE_CLOSE" by simp
  ultimately show ?thesis by blast
qed

text \<open>
  C18. A fence cannot be forged or closed from within: whatever text and provenance a
  provider sends, the block rendered for it exists, and the sentinel occurs in it exactly
  twice in any spelling, in the opening delimiter we write and in the closing one that ends
  the block.
\<close>

theorem fence_cannot_be_forged:
  "\<exists>b. render (capture t src r url max_chars) = Inr b \<and>
     token_positions b = [3, length b - length FENCE_CLOSE + 3] \<and> (\<exists>h. b = h @ FENCE_CLOSE)"
  unfolding capture_def Let_def by (rule render_tokens [OF validated_unforgeable])

text \<open>
  What is captured is what is kept: the text of a captured block is the scrubbed text cut at the
  smaller of the two caps and stripped, and the block says whether anything was cut.
\<close>

theorem capture_is_honest:
  "ut_text (capture t src r url max_chars) = py_strip (take (nat (max 0 (min max_chars 4000))) (scrub_text t)) \<and>
   (ut_truncated (capture t src r url max_chars) \<longleftrightarrow>
      take (nat (max 0 (min max_chars 4000))) (scrub_text t) \<noteq> scrub_text t)"
proof -
  let ?n = "nat (max 0 (min max_chars 4000))"
  have c: "\<not> has_token (take ?n (scrub_text t))" by (rule has_token_take [OF scrub_clean])
  have "list_all (\<lambda>c. \<not> is_control c) (take ?n (scrub_text t))"
    using scrub_no_control [of t] by (auto simp: list_all_iff dest: in_set_takeD)
  then have "scrub_text (take ?n (scrub_text t)) = take ?n (scrub_text t)"
    using redact_id [OF c] by (simp add: scrub_text_def [of "take ?n (scrub_text t)"] list_all_iff)
  moreover have "?n \<le> 4000" by simp
  ultimately show ?thesis
    by (simp add: capture_def validated_def MAX_UNTRUSTED_CHARS_def Let_def min_def not_le)
qed

end
