(* ===== verification/Memory_Laws.thy ===== *)
theory Memory_Laws
  imports Working_Memory Boundary_Laws
begin

text \<open>
  Laws of working memory: no reference is lost between the tiers, an assembly fails on the framing
  alone, the summariser is believed only about what it was asked, and the fences in front of
  the model are those of the blocks that were placed.
\<close>

section \<open>Placing and listing\<close>

lemma place_span_step:
  "place_span a (f, ov, sp) s =
     (if ov \<noteq> [] \<or> sp + rendered_tokens s > a then (f, ov @ [s], sp) else (f @ [s], ov, sp + rendered_tokens s))"
  by (simp add: place_span_def Let_def)

lemma place_spans:
  "foldl (place_span a) (f, ov, sp) ss = (f', ov', sp') \<Longrightarrow> sp = (\<Sum>s \<leftarrow> f. rendered_tokens s) \<Longrightarrow> sp \<le> a \<Longrightarrow>
     f' @ ov' = f @ ov @ ss \<and> sp' = (\<Sum>s \<leftarrow> f'. rendered_tokens s) \<and> sp' \<le> a \<or> ov \<noteq> [] \<and> f' = f \<and> ov' = ov @ ss \<and> sp' = sp"
proof (induction ss arbitrary: f ov sp)
  case (Cons s ss)
  show ?case
  proof (cases "ov \<noteq> [] \<or> sp + rendered_tokens s > a")
    case True
    then have "foldl (place_span a) (f, ov @ [s], sp) ss = (f', ov', sp')" using Cons.prems(1) by (simp only: foldl_Cons place_span_step if_True)
    from Cons.IH [OF this Cons.prems(2,3)] True Cons.prems(2,3) show ?thesis by auto
  next
    case False
    then have "foldl (place_span a) (f @ [s], [], sp + rendered_tokens s) ss = (f', ov', sp')" "ov = []"
      using Cons.prems(1) by (simp_all add: place_span_step)
    from Cons.IH [OF this(1)] False Cons.prems(2) this(2) show ?thesis by auto
  qed
qed auto

lemma place_all:
  assumes "foldl (place_span a) ([], [], 0) ss = (f, ov, sp)" and "0 \<le> a"
  shows "f @ ov = ss" and "(\<Sum>s \<leftarrow> f. rendered_tokens s) \<le> a" and "sp = (\<Sum>s \<leftarrow> f. rendered_tokens s)"
  using place_spans [OF assms(1)] assms(2) by auto

text \<open>The walk over the third tier splits it in two, each part in the order of the walk.\<close>

lemma list_references:
  "\<exists>listed omitted. rs_listed (foldl (list_reference n) st ss) = rs_listed st @ listed
     \<and> rs_omitted (foldl (list_reference n) st ss) = rs_omitted st @ omitted
     \<and> map span_ref ss \<in> shuffles listed omitted"
proof (induction ss arbitrary: st)
  case (Cons s ss)
  obtain l om where ih: "rs_listed (foldl (list_reference n) st (s # ss)) = rs_listed (list_reference n st s) @ l"
    "rs_omitted (foldl (list_reference n) st (s # ss)) = rs_omitted (list_reference n st s) @ om"
    "map span_ref ss \<in> shuffles l om" using Cons.IH [of "list_reference n st s"] by auto
  consider (out) "list_reference n st s = st\<lparr>rs_omitted := rs_omitted st @ [span_ref s]\<rparr>"
    | (into) "rs_listed (list_reference n st s) = rs_listed st @ [span_ref s]" "rs_omitted (list_reference n st s) = rs_omitted st"
  proof (cases "rs_used st + int (length (reference_line s)) + 1 > n")
    case True
    then show thesis by (intro out) (simp add: list_reference_def Let_def)
  next
    case False
    then show thesis by (intro into) (simp_all add: list_reference_def Let_def)
  qed
  then show ?case
  proof cases
    case out
    have "map span_ref (s # ss) \<in> shuffles l (span_ref s # om)" using ih(3) by (cases l) (auto simp: Cons_in_shuffles_iff)
    with ih out show ?thesis by (intro exI [of _ l] exI [of _ "span_ref s # om"]) simp
  next
    case into
    have "map span_ref (s # ss) \<in> shuffles (span_ref s # l) om" using ih(3) by (cases om) (auto simp: Cons_in_shuffles_iff)
    with ih into show ?thesis by (intro exI [of _ "span_ref s # l"] exI [of _ om]) simp
  qed
qed auto

lemma listed_lines:
  "length (rs_lines st) = length (rs_listed st) \<Longrightarrow>
   length (rs_lines (foldl (list_reference n) st ss)) = length (rs_listed (foldl (list_reference n) st ss))"
  by (induction ss arbitrary: st) (simp_all add: list_reference_def Let_def)

lemma reference_tier_refs:
  assumes "render_reference_tier ss n = (t, listed, omitted)"
  shows "map span_ref ss \<in> shuffles listed omitted"
proof -
  let ?init = "\<lparr>rs_lines = [], rs_listed = [], rs_omitted = [], rs_used = 0\<rparr>"
  let ?st = "foldl (list_reference (n * int CHARS_PER_TOKEN - int (length REFERENCE_NOTICE))) ?init ss"
  have m: "map span_ref ss \<in> shuffles (rs_listed ?st) (rs_omitted ?st)"
    using list_references [of _ ?init ss] by auto
  have "rs_lines ?st = [] \<Longrightarrow> rs_listed ?st = []" using listed_lines [of ?init "n * int CHARS_PER_TOKEN - int (length REFERENCE_NOTICE)" ss] by simp
  with m assms show ?thesis
    by (auto simp: render_reference_tier_def Let_def split: if_splits)
qed

lemma summarise_refs:
  assumes "summarise sm ss n = Inr (t, summarised, deferred)"
  shows "\<exists>k. summarised = map span_ref (take k ss) \<and> deferred = drop k ss"
proof (cases "summarised = [] \<and> deferred = ss")
  case True
  then show ?thesis by (intro exI [of _ 0]) simp
next
  case False
  let ?k = "nat (max 0 ((n * int CHARS_PER_TOKEN - int (length SUMMARY_NOTICE) * 2) div (FENCE_OVERHEAD_CHARS + MIN_SUMMARY_CHARS)))"
  from assms False obtain al where
    "(case abstracted sm (take ?k ss) al of Inl e \<Rightarrow> Inl e | Inr section \<Rightarrow> Inr (section, map span_ref (take ?k ss), drop ?k ss)) =
       Inr (t, summarised, deferred)"
    unfolding summarise_def Let_def by (metis Inr_inject Pair_inject)
  then have "summarised = map span_ref (take ?k ss)" "deferred = drop ?k ss" by (auto split: sum.splits)
  then show ?thesis by blast
qed

lemma degrade_refs:
  assumes "degrade sm ss n = Inr (sections, summarised, listed, omitted)"
  shows "\<exists>k. summarised = map span_ref (take k ss) \<and> map span_ref (drop k ss) \<in> shuffles listed omitted"
proof (cases "ss = []")
  case False
  let ?n = "n - min (reference_tier_tokens ss) (max 0 (n div 2))"
  from assms False obtain t deferred left l where s: "summarise sm ss ?n = Inr (t, summarised, deferred)"
    and r: "render_reference_tier deferred left = (l, listed, omitted)"
    by (cases "summarise sm ss ?n") (auto simp: degrade_def Let_def split: prod.splits)
  from summarise_refs [OF s] reference_tier_refs [OF r] show ?thesis by blast
qed (use assms in \<open>simp add: degrade_def\<close>)

text \<open>What a successful assembly computed.\<close>

lemma assembleE:
  assumes "assemble sm m = Inr c"
  obtains full ov sp evidence sections where
    "foldl (place_span (working_tokens (stm_budget m) - estimate_tokens (pinned_text m))) ([], [], 0) (ranked m) = (full, ov, sp)"
    "estimate_tokens (pinned_text m) \<le> working_tokens (stm_budget m)"
    "fenced_section DATA_HANDLING_NOTICE (map payload full) = Inr evidence"
    "degrade sm ov (working_tokens (stm_budget m) - estimate_tokens (pinned_text m) - sp) =
       Inr (sections, summarised_refs c, reference_only_refs c, omitted_refs c)"
    "ac_text c = paragraphs ([pinned_text m, evidence] @ sections)" "included_refs c = map span_ref full"
    "estimated_tokens c = estimate_tokens (ac_text c)"
proof -
  obtain full ov sp where p: "foldl (place_span (working_tokens (stm_budget m) - estimate_tokens (pinned_text m))) ([], [], 0) (ranked m) =
      (full, ov, sp)" by (metis prod_cases3)
  from assms p obtain evidence sections where
    "fenced_section DATA_HANDLING_NOTICE (map payload full) = Inr evidence"
    "degrade sm ov (working_tokens (stm_budget m) - estimate_tokens (pinned_text m) - sp) =
       Inr (sections, summarised_refs c, reference_only_refs c, omitted_refs c)"
    "ac_text c = paragraphs ([pinned_text m, evidence] @ sections)" "included_refs c = map span_ref full"
    "estimated_tokens c = estimate_tokens (ac_text c)"
    "estimate_tokens (pinned_text m) \<le> working_tokens (stm_budget m)"
    by (auto simp: assemble_def Let_def split: if_splits sum.splits prod.splits)
  with p show ?thesis by (intro that) auto
qed

text \<open>
  C21. Compaction loses no reference: the spans that reach the model in full and those that are
  summarised are together the best ranked, in their order; the others, in their order, are dealt
  out to the list of references and to what is reported as omitted, each to exactly one of them,
  and both keep the order of priority. A short reference of a low rank may be listed where a
  longer one above it was omitted. What is shown in full was charged within the budget that the
  framing leaves.
\<close>

theorem no_reference_is_lost:
  assumes "assemble sm m = Inr c"
  shows "\<exists>k. included_refs c @ summarised_refs c = take k (map span_ref (ranked m)) \<and>
    drop k (map span_ref (ranked m)) \<in> shuffles (reference_only_refs c) (omitted_refs c) \<and>
    estimate_tokens (pinned_text m) + (\<Sum>s \<leftarrow> take (length (included_refs c)) (ranked m). rendered_tokens s)
      \<le> working_tokens (stm_budget m)"
proof -
  from assms obtain full ov sp evidence sections where
    p: "foldl (place_span (working_tokens (stm_budget m) - estimate_tokens (pinned_text m))) ([], [], 0) (ranked m) = (full, ov, sp)"
    "estimate_tokens (pinned_text m) \<le> working_tokens (stm_budget m)"
    and d: "degrade sm ov (working_tokens (stm_budget m) - estimate_tokens (pinned_text m) - sp) =
       Inr (sections, summarised_refs c, reference_only_refs c, omitted_refs c)"
    and i: "included_refs c = map span_ref full" by (rule assembleE) blast
  have a: "0 \<le> working_tokens (stm_budget m) - estimate_tokens (pinned_text m)" using p(2) by simp
  note pl = place_all [OF p(1) a]
  from degrade_refs [OF d] obtain k where k: "summarised_refs c = map span_ref (take k ov)"
    "map span_ref (drop k ov) \<in> shuffles (reference_only_refs c) (omitted_refs c)" by blast
  have r: "map span_ref (ranked m) = map span_ref full @ map span_ref ov" using pl(1) by (metis map_append)
  have f: "take (length (included_refs c)) (ranked m) = full" unfolding pl(1) [symmetric] i by simp
  show ?thesis unfolding f r
    by (intro exI [of _ "length full + k"] conjI) (use i k pl(2) in \<open>simp_all add: take_map drop_map\<close>)
qed

section \<open>When assembling fails\<close>

lemma render_all_ok: "list_all (\<lambda>u. \<not> has_token (ut_text u)) us \<Longrightarrow> \<exists>ts. render_all us = Inr ts"
  by (induction us) (auto simp: render_def)

lemma fenced_ok: "list_all (\<lambda>u. \<not> has_token (ut_text u)) us \<Longrightarrow> \<exists>t. fenced_section n us = Inr t"
  using render_all_ok [of us] by (auto simp: fenced_section_def)

lemma abstract_unforgeable: "unforgeable (abstract_block f n s)"
  by (simp add: abstract_block_def capture_def Let_def validated_unforgeable)

lemma summarise_ok:
  assumes "\<forall>us n. sm us n \<noteq> None"
  shows "\<exists>x. summarise sm ss n = Inr x"
proof -
  have "list_all (\<lambda>u. \<not> has_token (ut_text u)) (map (abstract_block f k) xs)" for f k xs
    using abstract_unforgeable by (auto simp: list_all_iff unforgeable_def)
  then have "\<exists>t. fenced_section SUMMARY_NOTICE (map (abstract_block f k) xs) = Inr t" for f k xs by (rule fenced_ok)
  then have "\<exists>t. abstracted sm xs k = Inr t" for xs k
    using assms by (auto simp: abstracted_def split: option.splits)
  then obtain h where h: "\<And>xs k. abstracted sm xs k = Inr (h xs k)" by metis
  show ?thesis unfolding summarise_def Let_def h sum.case by auto
qed

lemma degrade_ok:
  assumes "\<forall>us n. sm us n \<noteq> None"
  shows "\<exists>x. degrade sm ss n = Inr x"
proof -
  obtain g where g: "\<And>ss n. summarise sm ss n = Inr (g ss n)" using summarise_ok [OF assms] by metis
  show ?thesis unfolding degrade_def Let_def g sum.case by (auto split: prod.splits)
qed

text \<open>
  C23. An assembly fails exactly when the framing alone does not fit the working budget: no amount
  of evidence, no abstract of a summariser that answers, and no text of a provider makes it
  raise.
\<close>

theorem assembly_fails_on_framing_only:
  assumes "\<forall>us n. sm us n \<noteq> None" and "list_all (\<lambda>s. unforgeable (payload s)) (stm_spans m)"
  shows "(\<exists>c. assemble sm m = Inr c) \<longleftrightarrow> estimate_tokens (pinned_text m) \<le> working_tokens (stm_budget m)"
proof
  assume "estimate_tokens (pinned_text m) \<le> working_tokens (stm_budget m)"
  then have a: "0 \<le> working_tokens (stm_budget m) - estimate_tokens (pinned_text m)" by simp
  obtain full ov sp where p: "foldl (place_span (working_tokens (stm_budget m) - estimate_tokens (pinned_text m))) ([], [], 0) (ranked m) =
      (full, ov, sp)" by (metis prod_cases3)
  have "set (full @ ov) = set (stm_spans m)" unfolding place_all(1) [OF p a] by (simp add: ranked_def)
  then have "set full \<subseteq> set (stm_spans m)" by auto
  with assms(2) have "list_all (\<lambda>u. \<not> has_token (ut_text u)) (map payload full)" by (auto simp: list_all_iff unforgeable_def)
  from fenced_ok [OF this] obtain t where t: "fenced_section DATA_HANDLING_NOTICE (map payload full) = Inr t" by blast
  obtain g where g: "\<And>ss n. degrade sm ss n = Inr (g ss n)" using degrade_ok [OF assms(1)] by metis
  show "\<exists>c. assemble sm m = Inr c"
    unfolding assemble_def Let_def p prod.case t sum.case g using a by (simp add: case_prod_unfold)
qed (auto elim: assembleE)

section \<open>What the summariser is believed\<close>

definition restrict_answer :: "summariser \<Rightarrow> summariser" where
  "restrict_answer sm us n = map_option (\<lambda>f. f |` (ut_ref ` set us)) (sm us n)"

lemma abstract_restrict:
  "s \<in> set ss \<Longrightarrow> abstract_block (f |` (ut_ref ` set (map payload ss))) n s = abstract_block f n s"
  by (simp add: abstract_block_def span_ref_def restrict_map_def)

lemma abstracted_restrict: "abstracted (restrict_answer sm) xs k = abstracted sm xs k"
proof (cases "sm (map payload xs) k")
  case (Some f)
  have "map (abstract_block (f |` (ut_ref ` set (map payload xs))) k) xs = map (abstract_block f k) xs"
    by (rule map_cong [OF refl]) (rule abstract_restrict)
  then show ?thesis unfolding abstracted_def restrict_answer_def Some option.map option.case by (rule arg_cong)
qed (simp add: abstracted_def restrict_answer_def)

lemma summarise_restrict: "summarise (restrict_answer sm) ss n = summarise sm ss n"
  by (simp only: summarise_def abstracted_restrict)

text \<open>
  The summariser is believed only about what it was asked: whatever it answers for other
  references, the context that is assembled is the same as without them.
\<close>

theorem unasked_abstracts_are_ignored: "assemble (restrict_answer sm) m = assemble sm m"
proof -
  have "degrade (restrict_answer sm) = degrade sm" by (intro ext) (simp only: degrade_def summarise_restrict)
  then show ?thesis by (simp only: assemble_def)
qed

section \<open>The fences of a context\<close>

definition tokens_in :: "string \<Rightarrow> nat" where
  "tokens_in s = length (token_positions s)"

lemma tokens_in_shift: "length (tokens_from i s) = tokens_in s"
  using tokens_from_shift [of i s] by (simp add: tokens_in_def token_positions_def)

lemma tokens_in_clean: "\<not> has_token s \<Longrightarrow> tokens_in s = 0"
  by (simp add: tokens_in_def token_positions_def tokens_from_clean)

lemma tokens_in_sep: "separates c \<Longrightarrow> tokens_in (x @ c # y) = tokens_in x + tokens_in y"
  using tokens_from_sep [of c 0 x y] tokens_in_shift by (simp add: tokens_in_def token_positions_def)

lemma tokens_in_lines: "tokens_in (py_join [CHR 0x0A] ts) = (\<Sum>t \<leftarrow> ts. tokens_in t)"
proof (induction "[CHR 0x0A]" ts rule: py_join.induct)
  case 1
  then show ?case by (simp add: tokens_in_clean)
next
  case (3 w v ws)
  have "tokens_in (py_join [CHR 0x0A] (w # v # ws)) = tokens_in w + tokens_in (py_join [CHR 0x0A] (v # ws))"
    using tokens_in_sep [of "CHR 0x0A" w "py_join [CHR 0x0A] (v # ws)"] by simp
  with 3 show ?case by simp
qed simp

lemma tokens_in_break: "tokens_in (x @ CHR 0x0A # CHR 0x0A # y) = tokens_in x + tokens_in y"
  using tokens_in_sep [of "CHR 0x0A" x "CHR 0x0A # y"] tokens_in_sep [of "CHR 0x0A" "[]" y]
  by (simp add: tokens_in_clean)

lemma tokens_in_blocks: "tokens_in (py_join [CHR 0x0A, CHR 0x0A] ts) = (\<Sum>t \<leftarrow> ts. tokens_in t)"
proof (induction "[CHR 0x0A, CHR 0x0A]" ts rule: py_join.induct)
  case 1
  then show ?case by (simp add: tokens_in_clean)
next
  case (3 w v ws)
  then show ?case using tokens_in_break [of w "py_join [CHR 0x0A, CHR 0x0A] (v # ws)"] by simp
qed simp

lemma tokens_in_paragraphs: "tokens_in (paragraphs ts) = (\<Sum>t \<leftarrow> ts. tokens_in t)"
proof -
  have "(\<Sum>t \<leftarrow> filter (\<lambda>s. s \<noteq> []) ts. tokens_in t) = (\<Sum>t \<leftarrow> ts. tokens_in t)"
    by (induction ts) (auto simp: tokens_in_clean)
  then show ?thesis by (simp add: paragraphs_def tokens_in_blocks)
qed

lemma notices_clean: "\<not> has_token SUMMARY_NOTICE" "\<not> has_token REFERENCE_NOTICE" "\<not> has_token DATA_HANDLING_NOTICE"
  by code_simp+

lemma tokens_in_render: "unforgeable u \<Longrightarrow> render u = Inr t \<Longrightarrow> tokens_in t = 2"
  using render_tokens [of u] by (auto simp: tokens_in_def)

lemma tokens_in_render_all:
  "list_all unforgeable us \<Longrightarrow> render_all us = Inr ts \<Longrightarrow> (\<Sum>t \<leftarrow> ts. tokens_in t) = 2 * length us"
  by (induction us arbitrary: ts) (auto simp: tokens_in_render split: sum.splits)

lemma tokens_in_section:
  assumes "list_all unforgeable us" and "\<not> has_token notice" and "fenced_section notice us = Inr t"
  shows "tokens_in t = 2 * length us"
proof (cases "us = []")
  case True
  with assms(3) show ?thesis by (simp add: fenced_section_def tokens_in_clean)
next
  case False
  with assms(3) obtain ts where ts: "render_all us = Inr ts"
    "t = notice @ CHR 0x0A # CHR 0x0A # (py_join [CHR 0x0A] ts @ CHR 0x0A # CHR 0x0A # notice)"
    by (auto simp: fenced_section_def split: sum.splits)
  have "(\<Sum>t \<leftarrow> ts. tokens_in t) = 2 * length us" by (rule tokens_in_render_all [OF assms(1) ts(1)])
  then show ?thesis unfolding ts(2) tokens_in_break tokens_in_lines by (simp add: tokens_in_clean [OF assms(2)])
qed

lemma digits_clean: "list_all (\<lambda>c. is_digit c \<or> c = CHR ''.'' \<or> c = CHR ''-'') s \<Longrightarrow> \<not> has_token s"
proof (induction s)
  case (Cons c s)
  have "lower_char c \<notin> {CHR ''o''}"
    using Cons.prems by (auto simp: lower_char_def is_digit_def)
  then have "token_length (c # s) = None" by (auto simp: token_length_none FENCE_TOKENS_def)
  with Cons show ?case by simp
qed simp

lemma fixed3_clean: "\<not> has_token (fixed3 x)"
proof (rule digits_clean)
  let ?n = "nat (round_half_even (\<bar>x\<bar> * 1000))"
  have "list_all is_digit (str_nat (?n div 1000))" using all_digits_str_nat by (auto simp: all_digits_def)
  moreover have "list_all is_digit (three_digits (?n mod 1000))" by (simp add: three_digits_def)
  ultimately show "list_all (\<lambda>c. is_digit c \<or> c = CHR ''.'' \<or> c = CHR ''-'') (fixed3 x)"
    by (auto simp: fixed3_def Let_def list_all_iff)
qed

lemma reference_line_clean:
  assumes "unforgeable (payload s)"
  shows "\<not> has_token (reference_line s)"
proof -
  have l: "reference_line s = ''- ref'' @ CHR ''='' # (span_ref s @ CHR '' '' # (''source'' @ CHR ''='' #
      (ut_source (payload s) @ CHR '' '' # (''relevance'' @ CHR ''='' # fixed3 (priority s)))))"
    by (simp add: reference_line_def)
  have "\<not> has_token ''- ref''" "\<not> has_token ''source''" "\<not> has_token ''relevance''" by code_simp+
  moreover have "\<not> has_token (span_ref s)" "\<not> has_token (ut_source (payload s))"
    using assms by (simp_all add: unforgeable_def span_ref_def)
  ultimately show ?thesis using fixed3_clean [of "priority s"]
    unfolding l by (simp only: has_token_sep separators simp_thms)
qed

lemma lines_clean: "list_all (\<lambda>t. \<not> has_token t) ts \<Longrightarrow> (\<Sum>t \<leftarrow> ts. tokens_in t) = 0"
  by (induction ts) (simp_all add: tokens_in_clean)

lemma listed_clean:
  "list_all (\<lambda>s. unforgeable (payload s)) ss \<Longrightarrow> list_all (\<lambda>t. \<not> has_token t) (rs_lines st) \<Longrightarrow>
   list_all (\<lambda>t. \<not> has_token t) (rs_lines (foldl (list_reference n) st ss))"
  by (induction ss arbitrary: st) (simp_all add: list_reference_def Let_def reference_line_clean)

lemma reference_tier_clean:
  assumes "render_reference_tier ss n = (t, listed, omitted)" and "list_all (\<lambda>s. unforgeable (payload s)) ss"
  shows "tokens_in t = 0"
proof -
  let ?st = "foldl (list_reference (n * int CHARS_PER_TOKEN - int (length REFERENCE_NOTICE)))
    \<lparr>rs_lines = [], rs_listed = [], rs_omitted = [], rs_used = 0\<rparr> ss"
  have "list_all (\<lambda>t. \<not> has_token t) (rs_lines ?st)" by (rule listed_clean [OF assms(2)]) simp
  then have "tokens_in (REFERENCE_NOTICE @ CHR 0x0A # py_join [CHR 0x0A] (rs_lines ?st)) = 0"
    by (simp add: tokens_in_sep tokens_in_lines lines_clean tokens_in_clean notices_clean)
  moreover have "t = [] \<or> t = REFERENCE_NOTICE @ CHR 0x0A # py_join [CHR 0x0A] (rs_lines ?st)"
    using assms(1) by (auto simp: render_reference_tier_def Let_def split: if_splits)
  moreover have "tokens_in [] = 0" by (simp add: tokens_in_clean)
  ultimately show ?thesis by metis
qed

lemma summarise_tokens:
  assumes "summarise sm ss n = Inr (t, summarised, deferred)"
  shows "tokens_in t = 2 * length summarised"
proof (cases "t = [] \<and> summarised = []")
  case False
  let ?k = "nat (max 0 ((n * int CHARS_PER_TOKEN - int (length SUMMARY_NOTICE) * 2) div (FENCE_OVERHEAD_CHARS + MIN_SUMMARY_CHARS)))"
  from assms False obtain al where
    "(case abstracted sm (take ?k ss) al of Inl e \<Rightarrow> Inl e | Inr section \<Rightarrow> Inr (section, map span_ref (take ?k ss), drop ?k ss)) =
       Inr (t, summarised, deferred)"
    unfolding summarise_def Let_def by (metis Inr_inject Pair_inject)
  then obtain f where f: "fenced_section SUMMARY_NOTICE (map (abstract_block f al) (take ?k ss)) = Inr t"
    and s: "summarised = map span_ref (take ?k ss)" by (auto simp: abstracted_def split: sum.splits option.splits)
  have "list_all unforgeable (map (abstract_block f al) (take ?k ss))" by (simp add: list_all_iff abstract_unforgeable)
  from tokens_in_section [OF this notices_clean(1) f] s show ?thesis by simp
qed (simp add: tokens_in_clean)

lemma degrade_tokens:
  assumes "degrade sm ss n = Inr (sections, summarised, listed, omitted)" and "list_all (\<lambda>s. unforgeable (payload s)) ss"
  shows "(\<Sum>t \<leftarrow> sections. tokens_in t) = 2 * length summarised"
proof (cases "ss = []")
  case False
  let ?n = "n - min (reference_tier_tokens ss) (max 0 (n div 2))"
  from assms(1) False obtain t deferred left l where s: "summarise sm ss ?n = Inr (t, summarised, deferred)"
    and r: "render_reference_tier deferred left = (l, listed, omitted)" and sec: "sections = [t, l]"
    by (cases "summarise sm ss ?n") (auto simp: degrade_def Let_def split: prod.splits)
  from summarise_refs [OF s] obtain k where "deferred = drop k ss" by blast
  with assms(2) have "list_all (\<lambda>s. unforgeable (payload s)) deferred" by (auto simp: list_all_iff dest: in_set_dropD)
  from reference_tier_clean [OF r this] summarise_tokens [OF s] show ?thesis by (simp add: sec)
qed (use assms(1) in \<open>simp add: degrade_def tokens_in_clean\<close>)

text \<open>
  C22. The fences in front of the model are those of the blocks that were placed: in every assembled
  context the sentinel occurs twice, in any spelling, for each span in full and each
  abstract, so no passage, no provenance and no answer of the summariser opens or closes a
  block of its own.
\<close>

theorem context_holds_only_our_fences:
  assumes "assemble sm m = Inr c" and "list_all (\<lambda>s. unforgeable (payload s)) (stm_spans m)"
    and "\<not> has_token (pinned_text m)"
  shows "length (token_positions (ac_text c)) = 2 * (length (included_refs c) + length (summarised_refs c))"
proof -
  from assms(1) obtain full ov sp evidence sections where
    p: "foldl (place_span (working_tokens (stm_budget m) - estimate_tokens (pinned_text m))) ([], [], 0) (ranked m) = (full, ov, sp)"
    "estimate_tokens (pinned_text m) \<le> working_tokens (stm_budget m)"
    and f: "fenced_section DATA_HANDLING_NOTICE (map payload full) = Inr evidence"
    and d: "degrade sm ov (working_tokens (stm_budget m) - estimate_tokens (pinned_text m) - sp) =
       Inr (sections, summarised_refs c, reference_only_refs c, omitted_refs c)"
    and t: "ac_text c = paragraphs ([pinned_text m, evidence] @ sections)" and i: "included_refs c = map span_ref full"
    by (rule assembleE) blast
  have a: "0 \<le> working_tokens (stm_budget m) - estimate_tokens (pinned_text m)" using p(2) by simp
  have "set (full @ ov) = set (stm_spans m)" unfolding place_all(1) [OF p(1) a] by (simp add: ranked_def)
  with assms(2) have u: "list_all unforgeable (map payload full)" "list_all (\<lambda>s. unforgeable (payload s)) ov"
    by (auto simp: list_all_iff)
  have "tokens_in (ac_text c) = tokens_in (pinned_text m) + tokens_in evidence + (\<Sum>t \<leftarrow> sections. tokens_in t)"
    unfolding t tokens_in_paragraphs by simp
  then show ?thesis
    using tokens_in_section [OF u(1) notices_clean(3) f] degrade_tokens [OF d u(2)] tokens_in_clean [OF assms(3)] i
    by (simp add: tokens_in_def)
qed

section \<open>Instances\<close>

text \<open>
  Witnesses of the laws of working memory, and two contexts that do not keep what the code promises of
  budgets.
\<close>

definition jot :: "string \<Rightarrow> pyfloat \<Rightarrow> working_span" where
  "jot r p = \<lparr>payload = \<lparr>ut_text = ''abc'', ut_source = ''s'', ut_ref = r, ut_url = None, ut_truncated = False,
     ut_suspected = False\<rparr>, priority = p\<rparr>"

definition tight :: context_budget where
  "tight = \<lparr>max_context_tokens = 100, reserved_output_tokens = 0, reserved_overhead_tokens = 0\<rparr>"

definition silent :: summariser where "silent us n = Some (\<lambda>_. None)"

definition three_notes :: short_term_memory where
  "three_notes = add_span (jot ''c'' 1) (add_span (jot ''b'' 3) (add_span (jot ''a'' 2) (new_memory tight)))"

definition three_view :: "assembled_context \<Rightarrow> string list \<times> string list \<times> bool" where
  "three_view c = (included_refs c, omitted_refs c, working_tokens tight < estimated_tokens c)"

lemma three_assembled:
  "map_sum id three_view (assemble silent three_notes) = Inr ([''b'', ''a''], [''c''], True)"
  by code_simp

lemma notes_unforgeable: "list_all (\<lambda>s. unforgeable (payload s)) (stm_spans three_notes)"
  by (simp add: three_notes_def add_span_def new_memory_def jot_def unforgeable_def token_length_def FENCE_TOKENS_def lower_char_def)

lemma notes_pinned: "pinned_text three_notes = []"
  by (simp add: three_notes_def add_span_def new_memory_def pinned_text_def)

lemma three_context: "\<exists>c. assemble silent three_notes = Inr c \<and> three_view c = ([''b'', ''a''], [''c''], True)"
  using three_assembled by (cases "assemble silent three_notes") simp_all

theorem no_reference_is_lost_witness:
  "\<exists>c k. assemble silent three_notes = Inr c \<and>
     included_refs c @ summarised_refs c = take k (map span_ref (ranked three_notes)) \<and>
     drop k (map span_ref (ranked three_notes)) \<in> shuffles (reference_only_refs c) (omitted_refs c)"
proof -
  from three_context obtain c where "assemble silent three_notes = Inr c" by blast
  with no_reference_is_lost [OF this] show ?thesis by blast
qed

theorem assembly_fails_on_framing_only_witness:
  "\<not> (\<exists>c. assemble silent \<lparr>stm_budget = tight\<lparr>max_context_tokens := 1\<rparr>, stm_pinned = [''task''], stm_spans = stm_spans three_notes\<rparr> = Inr c)"
proof -
  let ?m = "\<lparr>stm_budget = tight\<lparr>max_context_tokens := 1\<rparr>, stm_pinned = [''task''], stm_spans = stm_spans three_notes\<rparr>"
  have "\<forall>us n. silent us n \<noteq> None" by (simp add: silent_def)
  moreover have "list_all (\<lambda>s. unforgeable (payload s)) (stm_spans ?m)" using notes_unforgeable by simp
  moreover have "\<not> estimate_tokens (pinned_text ?m) \<le> working_tokens (stm_budget ?m)" by code_simp
  ultimately show ?thesis using assembly_fails_on_framing_only by blast
qed

theorem context_holds_only_our_fences_witness:
  "\<exists>c. assemble silent three_notes = Inr c \<and> length (token_positions (ac_text c)) = 2 * (2 + length (summarised_refs c))"
proof -
  from three_context obtain c where c: "assemble silent three_notes = Inr c" "included_refs c = [''b'', ''a'']"
    by (auto simp: three_view_def)
  have "\<not> has_token (pinned_text three_notes)" by (simp add: notes_pinned)
  from context_holds_only_our_fences [OF c(1) notes_unforgeable this] c show ?thesis by (intro exI [of _ c]) simp
qed

section \<open>Budgets that are not kept\<close>

text \<open>
  The notice before and after the evidence is not charged: two short passages fill a budget of
  ninety-two tokens, and the context they make is estimated above it.
\<close>

theorem notices_are_not_charged:
  "\<exists>c. assemble silent three_notes = Inr c \<and> working_tokens (stm_budget three_notes) < estimated_tokens c"
  using three_context by (auto simp: three_view_def three_notes_def add_span_def new_memory_def)

text \<open>
  A span is charged thirty tokens for its fence; with provenance as long as the cap on attributes
  allows, the fence alone costs more than a hundred and forty.
\<close>

definition wide :: working_span where
  "wide = (jot (replicate 200 CHR ''r'') 1)\<lparr>payload := (payload (jot (replicate 200 CHR ''r'') 1))
     \<lparr>ut_source := replicate 200 CHR ''s'', ut_url := Some (replicate 200 CHR ''u'')\<rparr>\<rparr>"

theorem long_headers_are_not_charged:
  "\<exists>t. render (payload wide) = Inr t \<and> rendered_tokens wide = 31 \<and> 140 + rendered_tokens wide < estimate_tokens t"
proof -
  have clean: "\<not> has_token ''abc''" by code_simp
  have len: "length (replicate 200 c) = 200" for c :: char by simp
  have "rendered_tokens wide = 31"
    by (simp add: rendered_tokens_def wide_def jot_def estimate_tokens_def estimate_length_def FENCE_OVERHEAD_CHARS_def CHARS_PER_TOKEN_def)
  moreover have "estimate_tokens (fence_header (payload wide) @ [CHR 0x0A] @ ''abc'' @ [CHR 0x0A] @ FENCE_CLOSE) > 171"
    by (simp add: wide_def jot_def estimate_tokens_def estimate_length_def CHARS_PER_TOKEN_def fence_header_def attributes_of_def
        attribute_def FENCE_OPEN_PREFIX_def FENCE_CLOSE_def)
  moreover have "render (payload wide) = Inr (fence_header (payload wide) @ [CHR 0x0A] @ ''abc'' @ [CHR 0x0A] @ FENCE_CLOSE)"
    using clean by (simp add: render_def wide_def jot_def)
  ultimately show ?thesis by auto
qed

end
