(* ===== verification/Tool_Registry.thy ===== *)
theory Tool_Registry
  imports Router Data_Boundary
begin

text \<open>
  The tool registry of \<open>agents/tools/registry.py\<close>: names, allowlists, resolution, invocation with its
  checks in their order, the ceiling on a result, widening by MCP tools, the default
  composition. What a tool is beyond its name (its argument model, its handler, its output model) is
  an argument, as is the serialisation that sizes a result. An invocation also returns the calls
  of handlers it made.
\<close>

section \<open>Results and their ceiling\<close>

definition DEFAULT_MAX_TOOL_RESULT_BYTES :: nat where "DEFAULT_MAX_TOOL_RESULT_BYTES = 32768"

text \<open>\<open>items\<close> is the list named by \<open>ITEMS_FIELD\<close>, if the model names one.\<close>

record ('i, 'o) bounded_result =
  br_items :: "'i list option"
  br_fields :: 'o
  br_truncated :: bool
  br_dropped :: nat

definition shrink :: "('i, 'o) bounded_result \<Rightarrow> ('i, 'o) bounded_result option" where
  "shrink b =
     (case br_items b of
        None \<Rightarrow> None
      | Some [] \<Rightarrow> None
      | Some (x # xs) \<Rightarrow>
          Some (b\<lparr>br_items := Some (butlast (x # xs)), br_dropped := br_dropped b + 1, br_truncated := True\<rparr>))"

function shrink_until :: "(('i, 'o) bounded_result \<Rightarrow> nat) \<Rightarrow> nat \<Rightarrow> ('i, 'o) bounded_result \<Rightarrow> bool
    \<Rightarrow> ('i, 'o) bounded_result \<times> bool" where
  "shrink_until size_of limit b shrunk =
     (if size_of b > limit then (case shrink b of None \<Rightarrow> (b, shrunk) | Some b' \<Rightarrow> shrink_until size_of limit b' True)
      else (b, shrunk))"
  by pat_completeness auto
termination
  by (relation "measure (\<lambda>(_, _, b, _). case br_items b of None \<Rightarrow> 0 | Some xs \<Rightarrow> length xs)")
    (auto simp: shrink_def split: option.splits list.splits)

declare shrink_until.simps [simp del]

section \<open>Tools\<close>

datatype ('out, 'e) handler_answer =
    Returns 'out
  | Raises_omnisense 'e
  | Raises_other bool

datatype 'e invoke_error =
    Tool_not_allowed "string list"
  | Invalid_arguments
  | Handler_failed bool
  | Wrong_shape
  | Cannot_shrink nat
  | Passed_on 'e

record ('raw, 'arg, 'out, 'e) tool_spec =
  spec_name :: string
  parse_input :: "'raw \<Rightarrow> 'arg option"
  handler :: "'arg \<Rightarrow> ('out, 'e) handler_answer"
  output_ok :: "'out \<Rightarrow> bool"
  max_bytes :: nat

definition enforce_size :: "('out \<Rightarrow> nat) \<Rightarrow> nat \<Rightarrow> 'out \<Rightarrow> bool \<Rightarrow> 'e invoke_error + 'out \<times> bool \<times> nat" where
  "enforce_size size_of limit out shrunk =
     (if size_of out > limit then Inl (Cannot_shrink (size_of out)) else Inr (out, shrunk, size_of out))"

fun wire_chars :: "string \<Rightarrow> string" where
  "wire_chars [] = []"
| "wire_chars (c # s) = (if c = CHR '':'' then ''__'' else [c]) @ wire_chars s"

definition wire_name :: "('raw, 'arg, 'out, 'e) tool_spec \<Rightarrow> string" where
  "wire_name s = wire_chars (spec_name s)"

fun unwire :: "string \<Rightarrow> string" where
  "unwire (c # d # s) =
     (if c = CHR ''_'' \<and> d = CHR ''_'' then CHR '':'' # unwire s else c # unwire (d # s))"
| "unwire s = s"

section \<open>MCP names\<close>

definition MCP_PREFIX :: string where "MCP_PREFIX = ''mcp:''"

definition mcp_tool_name :: "string \<Rightarrow> string \<Rightarrow> py_error + string" where
  "mcp_tool_name server tool =
     (if server = [] \<or> tool = [] then Inl ValueError
      else if CHR '':'' \<in> set server \<or> CHR '':'' \<in> set tool then Inl ValueError
      else Inr (MCP_PREFIX @ server @ '':'' @ tool))"

text \<open>\<open>str.partition\<close> at the first colon.\<close>

definition before_colon :: "string \<Rightarrow> string" where
  "before_colon s = takeWhile (\<lambda>c. c \<noteq> CHR '':'') s"

definition after_colon :: "string \<Rightarrow> string" where
  "after_colon s = drop 1 (dropWhile (\<lambda>c. c \<noteq> CHR '':'') s)"

definition parse_mcp_tool_name :: "string \<Rightarrow> py_error + string \<times> string" where
  "parse_mcp_tool_name name =
     (if take 4 name \<noteq> MCP_PREFIX then Inl ValueError
      else
        let server = before_colon (drop 4 name); tool = after_colon (drop 4 name) in
        if server = [] \<or> tool = [] then Inl ValueError else Inr (server, tool))"

section \<open>The registry\<close>

type_synonym allowlist = "(agent_name \<times> string list) list"

definition AGENT_TOOL_ALLOWLIST :: allowlist where
  "AGENT_TOOL_ALLOWLIST =
     [(Planner_Agent, [''search_entities'', ''list_available'']),
      (Collector_Agent, [''list_available'', ''fetch'', ''sync_status'']),
      (Retriever_Agent, [''hybrid_search'', ''fetch_passage'', ''rerank'', ''resolve_citation'', ''neighbours'']),
      (Insight_Agent, [''fetch_passage'', ''find_paths'']),
      (Strategy_Agent, [''hybrid_search'', ''aggregate'']),
      (Critic_Agent, [''fetch_passage'', ''resolve_citation'']),
      (Report_Agent, [''fetch_passage'', ''resolve_citation'']),
      (Unknown_Agent, [])]"

datatype registry_error = Duplicate_tool string | Unregistered agent_name "string list" | Bad_mcp_name py_error

record ('raw, 'arg, 'out, 'e) tool_registry =
  reg_specs :: "(string \<times> ('raw, 'arg, 'out, 'e) tool_spec) list"
  reg_allow :: allowlist

definition add_spec ::
  "(string \<times> ('raw, 'arg, 'out, 'e) tool_spec) list \<Rightarrow> ('raw, 'arg, 'out, 'e) tool_spec
     \<Rightarrow> registry_error + (string \<times> ('raw, 'arg, 'out, 'e) tool_spec) list" where
  "add_spec d s =
     (if map_of d (spec_name s) \<noteq> None then Inl (Duplicate_tool (spec_name s)) else Inr (d @ [(spec_name s, s)]))"

definition check_allowed ::
  "(string \<times> ('raw, 'arg, 'out, 'e) tool_spec) list \<Rightarrow> unit \<Rightarrow> agent_name \<times> string list \<Rightarrow> registry_error + unit" where
  "check_allowed d u entry =
     (let missing = sort (filter (\<lambda>n. map_of d n = None) (snd entry)) in
      if missing \<noteq> [] then Inl (Unregistered (fst entry) missing) else Inr ())"

definition new_registry ::
  "('raw, 'arg, 'out, 'e) tool_spec list \<Rightarrow> allowlist \<Rightarrow> registry_error + ('raw, 'arg, 'out, 'e) tool_registry" where
  "new_registry specs allow =
     and_then (fold_res add_spec [] specs) (\<lambda>d.
     and_then (fold_res (check_allowed d) () allow) (\<lambda>_.
       Inr \<lparr>reg_specs = d, reg_allow = allow\<rparr>))"

definition names :: "('raw, 'arg, 'out, 'e) tool_registry \<Rightarrow> string list" where
  "names r = sort (map fst (reg_specs r))"

definition allowed_for :: "('raw, 'arg, 'out, 'e) tool_registry \<Rightarrow> agent_name \<Rightarrow> string list" where
  "allowed_for r a = (case map_of (reg_allow r) a of None \<Rightarrow> [] | Some ns \<Rightarrow> ns)"

definition resolve_tool :: "('raw, 'arg, 'out, 'e) tool_registry \<Rightarrow> string \<Rightarrow> ('raw, 'arg, 'out, 'e) tool_spec option" where
  "resolve_tool r name =
     (case map_of (reg_specs r) name of
        Some s \<Rightarrow> Some s
      | None \<Rightarrow> if contains ''__'' name then map_of (reg_specs r) (unwire name) else None)"

definition is_allowed :: "('raw, 'arg, 'out, 'e) tool_registry \<Rightarrow> agent_name \<Rightarrow> string \<Rightarrow> bool" where
  "is_allowed r a name =
     (case resolve_tool r name of None \<Rightarrow> False | Some s \<Rightarrow> spec_name s \<in> set (allowed_for r a))"

definition tools_for :: "('raw, 'arg, 'out, 'e) tool_registry \<Rightarrow> agent_name \<Rightarrow> ('raw, 'arg, 'out, 'e) tool_spec list" where
  "tools_for r a = List.map_filter (map_of (reg_specs r)) (sort (remdups (allowed_for r a)))"

definition require_allowed ::
  "('raw, 'arg, 'out, 'e) tool_registry \<Rightarrow> agent_name \<Rightarrow> string \<Rightarrow> 'e invoke_error + ('raw, 'arg, 'out, 'e) tool_spec" where
  "require_allowed r a name =
     (case resolve_tool r name of
        None \<Rightarrow> Inl (Tool_not_allowed (sort (remdups (allowed_for r a))))
      | Some s \<Rightarrow>
          if spec_name s \<in> set (allowed_for r a) then Inr s
          else Inl (Tool_not_allowed (sort (remdups (allowed_for r a)))))"

record 'out tool_result =
  tr_tool :: string
  tr_agent :: agent_name
  tr_data :: 'out
  tr_bytes :: nat
  tr_shrunk :: bool

definition finish_result ::
  "(('i, 'o) bounded_result \<Rightarrow> nat) \<Rightarrow> agent_name \<Rightarrow> ('raw, 'arg, ('i, 'o) bounded_result, 'e) tool_spec
     \<Rightarrow> ('i, 'o) bounded_result \<Rightarrow> 'e invoke_error + ('i, 'o) bounded_result tool_result" where
  "finish_result size_of a s out =
     (if \<not> output_ok s out then Inl Wrong_shape
      else
        let (b, shrunk) = shrink_until size_of (max_bytes s) out False in
        and_then (enforce_size size_of (max_bytes s) b shrunk) (\<lambda>(b, shrunk, n).
          Inr \<lparr>tr_tool = spec_name s, tr_agent = a, tr_data = b, tr_bytes = n, tr_shrunk = shrunk\<rparr>))"

definition invoke ::
  "(('i, 'o) bounded_result \<Rightarrow> nat) \<Rightarrow> ('raw, 'arg, ('i, 'o) bounded_result, 'e) tool_registry \<Rightarrow> agent_name \<Rightarrow> string
     \<Rightarrow> 'raw \<Rightarrow> ('e invoke_error + ('i, 'o) bounded_result tool_result) \<times> (string \<times> 'arg) list" where
  "invoke size_of r a tool raw =
     (case require_allowed r a tool of
        Inl e \<Rightarrow> (Inl e, [])
      | Inr s \<Rightarrow>
          (case parse_input s raw of
             None \<Rightarrow> (Inl Invalid_arguments, [])
           | Some arg \<Rightarrow>
               (case handler s arg of
                  Raises_omnisense e \<Rightarrow> Inl (Passed_on e)
                | Raises_other transient \<Rightarrow> Inl (Handler_failed transient)
                | Returns out \<Rightarrow> finish_result size_of a s out,
                [(spec_name s, arg)])))"

section \<open>Widening and composition\<close>

definition grant :: "allowlist \<Rightarrow> agent_name \<times> string list \<Rightarrow> allowlist" where
  "grant d entry =
     (case map_of d (fst entry) of
        None \<Rightarrow> d @ [entry]
      | Some ns \<Rightarrow> map (\<lambda>(a, ms). if a = fst entry then (a, ns @ snd entry) else (a, ms)) d)"

definition check_mcp :: "unit \<Rightarrow> ('raw, 'arg, 'out, 'e) tool_spec \<Rightarrow> registry_error + unit" where
  "check_mcp u s = (case parse_mcp_tool_name (spec_name s) of Inl e \<Rightarrow> Inl (Bad_mcp_name e) | Inr _ \<Rightarrow> Inr ())"

definition with_mcp_tools ::
  "('raw, 'arg, 'out, 'e) tool_registry \<Rightarrow> ('raw, 'arg, 'out, 'e) tool_spec list \<Rightarrow> allowlist
     \<Rightarrow> registry_error + ('raw, 'arg, 'out, 'e) tool_registry" where
  "with_mcp_tools r specs grants =
     and_then (fold_res check_mcp () specs) (\<lambda>_.
       new_registry (map snd (reg_specs r) @ specs) (foldl grant (reg_allow r) grants))"

definition build_default_registry ::
  "('raw, 'arg, 'out, 'e) tool_spec list \<Rightarrow> allowlist \<Rightarrow> registry_error + ('raw, 'arg, 'out, 'e) tool_registry" where
  "build_default_registry specs allow =
     new_registry specs (map (\<lambda>(a, ns). (a, filter (\<lambda>n. n \<in> spec_name ` set specs) ns)) allow)"

end
