(* ===== verification/Registry_Laws.thy ===== *)
theory Registry_Laws
  imports Tool_Registry Boundary_Laws
begin

text \<open>
  Laws of the tool registry: nothing runs that the allowlist of the agent does not name, a
  denial looks at the allowlist alone, a result fits its ceiling and is cut no further than
  it must be, widening adds what was granted and nothing else, names survive the wire unless they
  hold the separator of the wire.
\<close>

section \<open>The ceiling\<close>

definition with_items :: "('i, 'o) bounded_result \<Rightarrow> 'i list \<Rightarrow> nat \<Rightarrow> ('i, 'o) bounded_result" where
  "with_items b xs k = b\<lparr>br_items := Some (take (length xs - k) xs), br_dropped := br_dropped b + k,
     br_truncated := br_truncated b \<or> 0 < k\<rparr>"

lemma shrink_with_items:
  "br_items b = Some xs \<Longrightarrow> xs \<noteq> [] \<Longrightarrow> shrink b = Some (with_items b xs 1)"
  by (cases xs) (simp_all add: shrink_def with_items_def butlast_conv_take)

lemma with_items_zero: "br_items b = Some xs \<Longrightarrow> with_items b xs 0 = b"
  by (simp add: with_items_def)

lemma with_items_step:
  assumes "br_items b = Some xs" and "k < length xs"
  shows "with_items (with_items b xs 1) (butlast xs) k = with_items b xs (Suc k)"
  using assms by (simp add: with_items_def butlast_conv_take min_def)

lemma shrink_until_longest:
  assumes "br_items b = Some xs"
  shows "(\<exists>k \<le> length xs. shrink_until size_of limit b shrunk = (with_items b xs k, shrunk \<or> 0 < k) \<and>
      size_of (with_items b xs k) \<le> limit \<and> (\<forall>j < k. limit < size_of (with_items b xs j))) \<or>
    (\<exists>b' s. shrink_until size_of limit b shrunk = (b', s) \<and> limit < size_of b' \<and>
      (\<forall>j \<le> length xs. limit < size_of (with_items b xs j)))"
  using assms
proof (induction "length xs" arbitrary: b xs shrunk)
  case 0
  then show ?case
    by (cases "limit < size_of b") (auto simp: shrink_until.simps [of _ _ b] shrink_def with_items_zero)
next
  case (Suc n)
  show ?case
  proof (cases "limit < size_of b")
    case False
    with Suc.prems show ?thesis by (intro disjI1 exI [of _ 0]) (simp add: shrink_until.simps [of _ _ b] with_items_zero)
  next
    case True
    let ?b = "with_items b xs 1"
    from Suc.hyps(2) have xs: "xs \<noteq> []" by auto
    with True Suc.prems have step: "shrink_until size_of limit b shrunk = shrink_until size_of limit ?b True"
      by (simp add: shrink_until.simps [of _ _ b] shrink_with_items)
    have zero: "limit < size_of (with_items b xs 0)" using True by (simp add: with_items_zero [OF Suc.prems])
    have n: "n = length (butlast xs)" using Suc.hyps(2) by simp
    have items: "br_items ?b = Some (butlast xs)" by (simp add: with_items_def butlast_conv_take)
    have succ: "with_items ?b (butlast xs) k = with_items b xs (Suc k)" if "k \<le> n" for k
      by (rule with_items_step [OF Suc.prems]) (use that Suc.hyps(2) in simp)
    from Suc.hyps(1) [OF n items, of True] show ?thesis
    proof (elim disjE exE conjE)
      fix k assume k: "k \<le> length (butlast xs)"
        "shrink_until size_of limit ?b True = (with_items ?b (butlast xs) k, True \<or> 0 < k)"
        "size_of (with_items ?b (butlast xs) k) \<le> limit" "\<forall>j < k. limit < size_of (with_items ?b (butlast xs) j)"
      have "\<forall>j < Suc k. limit < size_of (with_items b xs j)"
        using k(1,4) zero succ n by (auto simp: less_Suc_eq_0_disj)
      with k step succ [of k] n Suc.hyps(2) show ?thesis
        by (intro disjI1 exI [of _ "Suc k"]) simp
    next
      fix b' s assume b': "shrink_until size_of limit ?b True = (b', s)" "limit < size_of b'"
        "\<forall>j \<le> length (butlast xs). limit < size_of (with_items ?b (butlast xs) j)"
      have "limit < size_of (with_items b xs j)" if "j \<le> length xs" for j
        using that b'(3) zero succ n Suc.hyps(2) by (cases j) auto
      with b' step show ?thesis by auto
    qed
  qed
qed

text \<open>
  C20. The ceiling cuts no more than it must: a result whose list may be shortened is given back with
  the longest beginning of it that fits, with every dropped item counted, and is refused only
  when it does not fit with an empty list either.
\<close>

theorem ceiling_cuts_no_more_than_needed:
  assumes "br_items out = Some xs" and "output_ok s out"
  shows "(\<exists>k \<le> length xs. size_of (with_items out xs k) \<le> max_bytes s \<and>
        (\<forall>j < k. max_bytes s < size_of (with_items out xs j)) \<and>
        finish_result size_of a s out = Inr \<lparr>tr_tool = spec_name s, tr_agent = a, tr_data = with_items out xs k,
          tr_bytes = size_of (with_items out xs k), tr_shrunk = (0 < k)\<rparr>) \<or>
    (\<exists>n. (\<forall>j \<le> length xs. max_bytes s < size_of (with_items out xs j)) \<and>
        finish_result size_of a s out = Inl (Cannot_shrink n))"
  using shrink_until_longest [OF assms(1), of size_of "max_bytes s" False]
proof (elim disjE exE conjE)
  fix k assume "k \<le> length xs" "shrink_until size_of (max_bytes s) out False = (with_items out xs k, False \<or> 0 < k)"
    "size_of (with_items out xs k) \<le> max_bytes s" "\<forall>j < k. max_bytes s < size_of (with_items out xs j)"
  with assms(2) show ?thesis by (intro disjI1 exI [of _ k]) (simp add: finish_result_def enforce_size_def)
next
  fix b' sh assume "shrink_until size_of (max_bytes s) out False = (b', sh)" "max_bytes s < size_of b'"
    "\<forall>j \<le> length xs. max_bytes s < size_of (with_items out xs j)"
  with assms(2) show ?thesis by (intro disjI2 exI [of _ "size_of b'"]) (simp add: finish_result_def enforce_size_def)
qed

section \<open>Registries\<close>

definition registered :: "(string \<times> ('raw, 'arg, 'out, 'e) tool_spec) list \<Rightarrow> bool" where
  "registered d \<longleftrightarrow> distinct (map fst d) \<and> list_all (\<lambda>(n, s). spec_name s = n) d"

lemma add_spec_Inr: "add_spec d s = Inr d' \<longleftrightarrow> map_of d (spec_name s) = None \<and> d' = d @ [(spec_name s, s)]"
  by (simp add: add_spec_def eq_commute)

lemma add_specs:
  "fold_res add_spec d specs = Inr d' \<Longrightarrow> registered d \<Longrightarrow>
     registered d' \<and> d' = d @ map (\<lambda>s. (spec_name s, s)) specs"
proof (induction specs arbitrary: d)
  case (Cons s specs)
  from Cons.prems(1) have s: "map_of d (spec_name s) = None" and
    rest: "fold_res add_spec (d @ [(spec_name s, s)]) specs = Inr d'"
    by (simp_all add: res_simps add_spec_Inr)
  then have "registered (d @ [(spec_name s, s)])"
    using Cons.prems(2) by (auto simp: registered_def map_of_eq_None_iff)
  from Cons.IH [OF rest this] show ?case by auto
qed simp

lemma add_specs_ok:
  "distinct (map fst d @ map spec_name specs) \<Longrightarrow> \<exists>d'. fold_res add_spec d specs = Inr d'"
proof (induction specs arbitrary: d)
  case (Cons s specs)
  then have "add_spec d s = Inr (d @ [(spec_name s, s)])" by (auto simp: add_spec_Inr map_of_eq_None_iff)
  moreover from Cons.prems have "distinct (map fst (d @ [(spec_name s, s)]) @ map spec_name specs)" by auto
  ultimately show ?case using Cons.IH [of "d @ [(spec_name s, s)]"] by simp
qed simp

lemma sort_empty_iff: "sort xs = [] \<longleftrightarrow> xs = []"
  by (metis set_empty set_sort)

lemma check_Inr: "check_allowed d u e = Inr v \<longleftrightarrow> set (snd e) \<subseteq> fst ` set d"
  by (auto simp: check_allowed_def Let_def map_of_eq_None_iff filter_empty_conv sort_empty_iff)

lemma checks_ok:
  "fold_res (check_allowed d) u allow = Inr v \<longleftrightarrow> (\<forall>e \<in> set allow. set (snd e) \<subseteq> fst ` set d)"
  by (induction allow arbitrary: u) (simp_all add: res_simps check_Inr)

lemma new_registry_ok:
  assumes "new_registry specs allow = Inr r"
  shows "registered (reg_specs r) \<and> reg_specs r = map (\<lambda>s. (spec_name s, s)) specs \<and> reg_allow r = allow \<and>
    (\<forall>e \<in> set allow. set (snd e) \<subseteq> spec_name ` set specs)"
proof -
  from assms obtain d u where d: "fold_res add_spec [] specs = Inr d" "fold_res (check_allowed d) () allow = Inr u"
    "r = \<lparr>reg_specs = d, reg_allow = allow\<rparr>" by (auto simp: new_registry_def res_simps)
  have "registered ([] :: (string \<times> ('a, 'b, 'c, 'd) tool_spec) list)" by (simp add: registered_def)
  note s = add_specs [OF d(1) this]
  have names: "fst ` set d = spec_name ` set specs" using s by (simp add: image_image)
  from d(2) have "\<forall>e \<in> set allow. set (snd e) \<subseteq> spec_name ` set specs" unfolding checks_ok names .
  moreover have "registered (reg_specs r)" using s unfolding d(3) tool_registry.simps by blast
  moreover have "reg_specs r = map (\<lambda>s. (spec_name s, s)) specs" "reg_allow r = allow" using s unfolding d(3) by simp_all
  ultimately show ?thesis by blast
qed

lemma registered_name: "registered d \<Longrightarrow> map_of d n = Some s \<Longrightarrow> spec_name s = n"
  by (auto simp: registered_def list_all_iff dest!: map_of_SomeD)

lemma invoke_runs_allowed:
  assumes "new_registry specs allow = Inr r"
  shows "length (snd (invoke size_of r a tool raw)) \<le> 1 \<and>
    list_all (\<lambda>(n, arg). n \<in> set (allowed_for r a) \<and> (\<exists>s \<in> set specs. spec_name s = n \<and> parse_input s raw = Some arg))
      (snd (invoke size_of r a tool raw)) \<and>
    (\<not> is_allowed r a tool \<longrightarrow>
       invoke size_of r a tool raw = (Inl (Tool_not_allowed (sort (remdups (allowed_for r a)))), []))"
proof -
  note ok = new_registry_ok [OF assms]
  have "s \<in> set specs" if "resolve_tool r tool = Some s" for s
    using that ok by (auto simp: resolve_tool_def split: option.splits if_splits dest!: map_of_SomeD)
  then show ?thesis
    by (auto simp: invoke_def require_allowed_def is_allowed_def split: option.splits)
qed

text \<open>
  C19. Deny by default: whatever an agent asks of a registry, every handler that runs is that
  of one registered tool which the allowlist of the agent names, with arguments its own model
  accepted, and runs at most once; a request outside the list runs nothing.
\<close>

theorem only_allowed_tools_run:
  assumes "new_registry specs allow = Inr r"
  shows "length (snd (invoke size_of r a tool raw)) \<le> 1 \<and>
    list_all (\<lambda>(n, arg). n \<in> set (allowed_for r a) \<and> (\<exists>s \<in> set specs. spec_name s = n \<and> parse_input s raw = Some arg))
      (snd (invoke size_of r a tool raw)) \<and>
    (\<not> is_allowed r a tool \<longrightarrow>
       invoke size_of r a tool raw = (Inl (Tool_not_allowed (sort (remdups (allowed_for r a)))), []))"
  using assms by (rule invoke_runs_allowed)

section \<open>Widening\<close>

lemma grant_lookup:
  "map_of (grant d e) a = (if a = fst e then Some ((case map_of d a of None \<Rightarrow> [] | Some ns \<Rightarrow> ns) @ snd e) else map_of d a)"
proof (cases "map_of d (fst e)")
  case None
  then show ?thesis by (cases e) (auto simp: grant_def map_add_def split: option.splits)
next
  case (Some ns)
  have "map_of (map (\<lambda>(b, ms). if b = fst e then (b, ns @ snd e) else (b, ms)) d) a =
      (if a = fst e then map_option (\<lambda>_. ns @ snd e) (map_of d a) else map_of d a)"
    by (induction d) auto
  with Some show ?thesis by (simp add: grant_def)
qed

definition granted :: "allowlist \<Rightarrow> agent_name \<Rightarrow> string set" where
  "granted gs a = (\<Union>(b, ns) \<in> set gs. if b = a then set ns else {})"

definition listed :: "allowlist \<Rightarrow> agent_name \<Rightarrow> string set" where
  "listed d a = (case map_of d a of None \<Rightarrow> {} | Some ns \<Rightarrow> set ns)"

lemma grants_lookup: "listed (foldl grant d gs) a = listed d a \<union> granted gs a"
proof (induction gs arbitrary: d)
  case (Cons g gs)
  have "listed (grant d g) a = listed d a \<union> (if fst g = a then set (snd g) else {})"
    by (auto simp: listed_def grant_lookup split: option.splits)
  with Cons.IH [of "grant d g"] show ?case by (auto simp: granted_def case_prod_unfold)
qed (simp add: granted_def)

lemma allowed_listed: "set (allowed_for r a) = listed (reg_allow r) a"
  by (simp add: allowed_for_def listed_def split: option.splits)

lemma mcp_checked: "fold_res check_mcp u specs = Inr v \<Longrightarrow> s \<in> set specs \<Longrightarrow> take 4 (spec_name s) = MCP_PREFIX"
  by (induction specs arbitrary: u)
    (auto simp: check_mcp_def parse_mcp_tool_name_def Let_def split: if_splits sum.splits)

text \<open>
  Widening is explicit: a registry widened by MCP tools keeps every tool it had, adds only
  names of the MCP name space, and every agent may call what it could before and what the
  grants name for it, and nothing else.
\<close>

theorem widening_is_explicit:
  assumes "with_mcp_tools r specs grants = Inr r'" and "new_registry base allow = Inr r"
  shows "set (allowed_for r' a) = set (allowed_for r a) \<union> granted grants a \<and>
    set (map snd (reg_specs r')) = set base \<union> set specs \<and>
    (\<forall>s \<in> set specs. take 4 (spec_name s) = MCP_PREFIX \<and> s \<notin> set base)"
proof -
  from assms(1) obtain u where c: "fold_res check_mcp () specs = Inr u"
    and n: "new_registry (map snd (reg_specs r) @ specs) (foldl grant (reg_allow r) grants) = Inr r'"
    by (auto simp: with_mcp_tools_def res_simps)
  note ok = new_registry_ok [OF n] and ok0 = new_registry_ok [OF assms(2)]
  have base: "map snd (reg_specs r) = base" using ok0 by (simp add: comp_def)
  have "distinct (map fst (reg_specs r'))" using ok unfolding registered_def by blast
  moreover have "map fst (reg_specs r') = map spec_name (base @ specs)" using ok base by (simp add: comp_def)
  ultimately have d: "distinct (map spec_name (base @ specs))" by simp
  have "s \<notin> set base" if "s \<in> set specs" for s using d that by (force simp: distinct_map)
  moreover have "set (map snd (reg_specs r')) = set base \<union> set specs" using ok base by (simp add: image_image)
  moreover have "set (allowed_for r' a) = set (allowed_for r a) \<union> granted grants a"
    using ok by (simp add: allowed_listed grants_lookup)
  ultimately show ?thesis using mcp_checked [OF c] by blast
qed

text \<open>The default composition always succeeds on tools with different names.\<close>

theorem default_registry_is_total:
  assumes "distinct (map spec_name specs)"
  shows "\<exists>r. build_default_registry specs allow = Inr r \<and>
    (\<forall>a. set (allowed_for r a) = listed allow a \<inter> spec_name ` set specs)"
proof -
  let ?trim = "map (\<lambda>(a, ns). (a, filter (\<lambda>n. n \<in> spec_name ` set specs) ns)) allow"
  from add_specs_ok [of "[]" specs] assms obtain d where d: "fold_res add_spec [] specs = Inr d" by auto
  have "registered ([] :: (string \<times> ('a, 'b, 'c, 'd) tool_spec) list)" by (simp add: registered_def)
  from add_specs [OF d this] have "fst ` set d = spec_name ` set specs" by (simp add: image_image)
  then have "fold_res (check_allowed d) () ?trim = Inr ()" unfolding checks_ok by auto
  with d have r: "build_default_registry specs allow = Inr \<lparr>reg_specs = d, reg_allow = ?trim\<rparr>"
    by (simp add: build_default_registry_def new_registry_def)
  have "listed ?trim a = listed allow a \<inter> spec_name ` set specs" for a
    unfolding listed_def by (induction allow) auto
  with r show ?thesis by (simp add: allowed_listed)
qed

section \<open>Names\<close>

text \<open>A name that holds no doubled underscore, and none before a colon.\<close>

fun wireable :: "string \<Rightarrow> bool" where
  "wireable (c # d # s) = ((c = CHR ''_'' \<longrightarrow> d \<noteq> CHR ''_'' \<and> d \<noteq> CHR '':'') \<and> wireable (d # s))"
| "wireable s = True"

lemma unwire_wire: "wireable s \<Longrightarrow> unwire (wire_chars s) = s"
proof (induction s rule: wireable.induct)
  case (1 c d s)
  then show ?case
    by (cases "c = CHR '':''"; cases "d = CHR '':''") auto
qed simp_all

lemma contains_right: "contains p s \<Longrightarrow> contains p (t @ s)"
  by (induction t) auto

lemma wire_contains: "CHR '':'' \<in> set s \<Longrightarrow> contains ''__'' (wire_chars s)"
  by (induction s) (auto intro: contains_right)

text \<open>
  The names of tools survive the wire: a registered tool is found under its wire name,
  provided no tool is registered under that very name, and no underscore of its own doubles up
  with another or meets a colon.
\<close>

theorem wire_names_resolve:
  assumes "map_of (reg_specs r) (spec_name s) = Some s" and "wireable (spec_name s)" and "CHR '':'' \<in> set (spec_name s)"
    and "map_of (reg_specs r) (wire_name s) = None"
  shows "resolve_tool r (wire_name s) = Some s"
  using assms wire_contains [OF assms(3)] unwire_wire [OF assms(2)] by (simp add: resolve_tool_def wire_name_def)

text \<open>
  MCP names round trip: a name made of a server and a tool is taken apart into the same two.
\<close>

theorem mcp_names_round_trip:
  assumes "mcp_tool_name server tool = Inr n"
  shows "parse_mcp_tool_name n = Inr (server, tool)"
proof -
  from assms have n: "n = MCP_PREFIX @ server @ CHR '':'' # tool" and ok: "server \<noteq> []" "tool \<noteq> []" "CHR '':'' \<notin> set server"
    by (auto simp: mcp_tool_name_def split: if_splits)
  have "before_colon (server @ CHR '':'' # tool) = server" "after_colon (server @ CHR '':'' # tool) = tool"
    using ok(3) unfolding before_colon_def after_colon_def
    by (subst takeWhile_append2, auto) (subst dropWhile_append2, auto)
  with ok(1,2) show ?thesis by (simp add: n parse_mcp_tool_name_def MCP_PREFIX_def)
qed

section \<open>Instances\<close>

text \<open>
  Witnesses of the laws of the tool registry on small registries, and two names that the wire
  confuses.
\<close>

type_synonym sample_tool = "(nat, nat, (nat, unit) bounded_result, unit) tool_spec"
type_synonym sample_registry = "(nat, nat, (nat, unit) bounded_result, unit) tool_registry"

definition tool_named :: "string \<Rightarrow> sample_tool" where
  "tool_named n = \<lparr>spec_name = n, parse_input = (\<lambda>k. if k < 10 then Some k else None),
     handler = (\<lambda>k. Returns \<lparr>br_items = Some [0..<k], br_fields = (), br_truncated = False, br_dropped = 0\<rparr>),
     output_ok = (\<lambda>_. True), max_bytes = 3\<rparr>"

definition item_count :: "(nat, unit) bounded_result \<Rightarrow> nat" where
  "item_count b = (case br_items b of None \<Rightarrow> 0 | Some xs \<Rightarrow> length xs)"

definition sample_specs :: "sample_tool list" where
  "sample_specs = map tool_named [''fetch_passage'', ''find_paths'']"

definition sample_allow :: allowlist where
  "sample_allow = [(Insight_Agent, [''fetch_passage'', ''find_paths'']), (Critic_Agent, [''fetch_passage''])]"

definition sample :: sample_registry where
  "sample = \<lparr>reg_specs = map (\<lambda>s. (spec_name s, s)) sample_specs, reg_allow = sample_allow\<rparr>"

lemma sample_built: "new_registry sample_specs sample_allow = Inr sample"
  by (simp add: new_registry_def sample_specs_def sample_allow_def sample_def add_spec_def tool_named_def check_allowed_def)

theorem only_allowed_tools_run_witness:
  "invoke item_count sample Critic_Agent ''find_paths'' 5 = (Inl (Tool_not_allowed [''fetch_passage'']), [])"
proof -
  have "\<not> is_allowed sample Critic_Agent ''find_paths''"
    by (simp add: is_allowed_def resolve_tool_def sample_def sample_specs_def sample_allow_def tool_named_def allowed_for_def)
  with only_allowed_tools_run [OF sample_built, of item_count Critic_Agent "''find_paths''" 5]
  show ?thesis by (simp add: sample_def sample_allow_def allowed_for_def)
qed

theorem ceiling_cuts_no_more_than_needed_witness:
  "finish_result item_count Insight_Agent (tool_named ''find_paths'')
     \<lparr>br_items = Some [7, 8, 9, 10, 11], br_fields = (), br_truncated = False, br_dropped = 0\<rparr> =
   Inr \<lparr>tr_tool = ''find_paths'', tr_agent = Insight_Agent,
     tr_data = \<lparr>br_items = Some [7, 8, 9], br_fields = (), br_truncated = True, br_dropped = 2\<rparr>,
     tr_bytes = 3, tr_shrunk = True\<rparr>"
proof -
  let ?out = "\<lparr>br_items = Some [7, 8, 9, 10, 11 :: nat], br_fields = (), br_truncated = False, br_dropped = 0\<rparr>"
  have size: "item_count (with_items ?out [7, 8, 9, 10, 11] k) = 5 - k" for k
    by (simp add: item_count_def with_items_def)
  have items: "br_items ?out = Some [7, 8, 9, 10, 11]" by simp
  have ok: "output_ok (tool_named ''find_paths'') ?out" by (simp add: tool_named_def)
  have n: "max_bytes (tool_named ''find_paths'') = 3" "spec_name (tool_named ''find_paths'') = ''find_paths''"
    by (simp_all add: tool_named_def)
  show ?thesis using ceiling_cuts_no_more_than_needed [OF items ok, of item_count Insight_Agent] unfolding size n
  proof (elim disjE exE conjE)
    fix k assume "5 - k \<le> 3" "\<forall>j < k. 3 < 5 - j"
      and r: "finish_result item_count Insight_Agent (tool_named ''find_paths'') ?out = Inr \<lparr>tr_tool = ''find_paths'', tr_agent = Insight_Agent,
        tr_data = with_items ?out [7, 8, 9, 10, 11] k, tr_bytes = 5 - k, tr_shrunk = (0 < k)\<rparr>"
    have "k = 2"
    proof (rule ccontr)
      assume "k \<noteq> 2"
      then consider "k < 2" | "2 < k" by linarith
      then show False using \<open>5 - k \<le> 3\<close> \<open>\<forall>j < k. 3 < 5 - j\<close> [rule_format, of 2] by cases auto
    qed
    with r show ?thesis by (simp add: with_items_def)
  next
    assume "\<forall>j \<le> length [7, 8, 9, 10, 11 :: nat]. 3 < 5 - j"
    from this [rule_format, of 5] show ?thesis by simp
  qed
qed

definition widened :: sample_registry where
  "widened = \<lparr>reg_specs = map (\<lambda>s. (spec_name s, s)) (sample_specs @ [tool_named ''mcp:files:read'']),
     reg_allow = [(Insight_Agent, [''fetch_passage'', ''find_paths'']), (Critic_Agent, [''fetch_passage'', ''mcp:files:read''])]\<rparr>"

lemma sample_widened:
  "with_mcp_tools sample [tool_named ''mcp:files:read''] [(Critic_Agent, [''mcp:files:read''])] = Inr widened"
proof -
  have "parse_mcp_tool_name ''mcp:files:read'' = Inr (''files'', ''read'')" by code_simp
  then show ?thesis
    by (simp add: with_mcp_tools_def check_mcp_def new_registry_def sample_def sample_specs_def sample_allow_def
        grant_def add_spec_def tool_named_def check_allowed_def widened_def)
qed

theorem widening_is_explicit_witness:
  "set (allowed_for widened Critic_Agent) = {''fetch_passage'', ''mcp:files:read''} \<and>
   set (allowed_for widened Insight_Agent) = {''fetch_passage'', ''find_paths''}"
proof -
  note w = widening_is_explicit [OF sample_widened sample_built]
  from w [of Critic_Agent] w [of Insight_Agent] show ?thesis
    by (simp add: granted_def sample_def sample_allow_def allowed_for_def insert_commute)
qed

theorem wire_names_resolve_witness: "resolve_tool widened ''mcp__files__read'' = Some (tool_named ''mcp:files:read'')"
proof -
  have n: "spec_name (tool_named ''mcp:files:read'') = ''mcp:files:read''" by (simp add: tool_named_def)
  have w: "wire_name (tool_named ''mcp:files:read'') = ''mcp__files__read''" by (simp add: wire_name_def n)
  have "map_of (reg_specs widened) ''mcp:files:read'' = Some (tool_named ''mcp:files:read'')"
    "map_of (reg_specs widened) ''mcp__files__read'' = None"
    by (simp_all add: widened_def sample_specs_def n) (simp_all add: tool_named_def)
  moreover have "wireable ''mcp:files:read''" by code_simp
  ultimately show ?thesis using wire_names_resolve [of widened "tool_named ''mcp:files:read''"] n w by simp
qed

theorem mcp_names_round_trip_witness: "parse_mcp_tool_name ''mcp:files:read'' = Inr (''files'', ''read'')"
  by (rule mcp_names_round_trip) (simp add: mcp_tool_name_def MCP_PREFIX_def)

theorem default_registry_is_total_witness:
  "\<exists>r. build_default_registry sample_specs AGENT_TOOL_ALLOWLIST = Inr r \<and> set (allowed_for r Critic_Agent) = {''fetch_passage''}"
proof -
  have "distinct (map spec_name sample_specs)" by (simp add: sample_specs_def tool_named_def)
  from default_registry_is_total [OF this, of AGENT_TOOL_ALLOWLIST] obtain r where
    "build_default_registry sample_specs AGENT_TOOL_ALLOWLIST = Inr r"
    "set (allowed_for r Critic_Agent) = listed AGENT_TOOL_ALLOWLIST Critic_Agent \<inter> spec_name ` set sample_specs" by blast
  moreover have "listed AGENT_TOOL_ALLOWLIST Critic_Agent = {''fetch_passage'', ''resolve_citation''}"
    by (simp add: listed_def AGENT_TOOL_ALLOWLIST_def)
  moreover have "spec_name ` set sample_specs = {''fetch_passage'', ''find_paths''}" by (simp add: sample_specs_def tool_named_def)
  ultimately show ?thesis by auto
qed

section \<open>Two tools with one wire name\<close>

text \<open>
  Both names are legal, an agent that may call both asks for the first under its wire name, and the
  second runs.
\<close>

definition confused :: sample_registry where
  "confused = \<lparr>reg_specs = map (\<lambda>n. (n, tool_named n)) [''mcp:a_:b'', ''mcp:a:_b''],
     reg_allow = [(Critic_Agent, [''mcp:a_:b'', ''mcp:a:_b''])]\<rparr>"

theorem wire_runs_another_tool:
  "mcp_tool_name ''a_'' ''b'' = Inr ''mcp:a_:b'' \<and> mcp_tool_name ''a'' ''_b'' = Inr ''mcp:a:_b'' \<and>
   new_registry [tool_named ''mcp:a_:b'', tool_named ''mcp:a:_b''] (reg_allow confused) = Inr confused \<and>
   snd (invoke item_count confused Critic_Agent (wire_name (tool_named ''mcp:a_:b'')) 1) = [(''mcp:a:_b'', 1)]"
proof -
  have "unwire (wire_chars ''mcp:a_:b'') = ''mcp:a:_b''" "contains ''__'' (wire_chars ''mcp:a_:b'')"
    "wire_chars ''mcp:a_:b'' = ''mcp__a___b''" by code_simp+
  then show ?thesis
    by (simp add: mcp_tool_name_def MCP_PREFIX_def new_registry_def add_spec_def check_allowed_def confused_def tool_named_def
        invoke_def require_allowed_def resolve_tool_def wire_name_def allowed_for_def)
qed

text \<open>A tool whose own name holds a doubled underscore is not found under its wire name.\<close>

theorem doubled_underscore_is_unreachable:
  "resolve_tool \<lparr>reg_specs = [(''mcp:a:read__all'', tool_named ''mcp:a:read__all'')], reg_allow = []\<rparr>
     (wire_name (tool_named ''mcp:a:read__all'')) = None"
proof -
  have "unwire (wire_chars ''mcp:a:read__all'') = ''mcp:a:read:all''" "wire_chars ''mcp:a:read__all'' = ''mcp__a__read__all''"
    by code_simp+
  then show ?thesis by (simp add: resolve_tool_def wire_name_def tool_named_def)
qed

text \<open>A name of four parts is no name of an MCP tool, and is parsed as one.\<close>

theorem parser_accepts_no_name:
  "parse_mcp_tool_name ''mcp:a:b:c'' = Inr (''a'', ''b:c'') \<and> mcp_tool_name ''a'' ''b:c'' = Inl ValueError"
  by code_simp

end
