(* ===== verification/Fingerprints.thy ===== *)
theory Fingerprints
  imports Union_Find Py_Text "HOL-Library.Word"
begin

unbundle bit_operations_syntax

text \<open>
  \<open>connectors/dedup/hashing.py\<close>: fingerprints of content and the clustering of near-duplicates. The digests of
  \<open>hashlib\<close> are arguments: \<open>digest8\<close> is BLAKE2b of eight bytes, read as a word, and \<open>sha\<close> the hexadecimal
  SHA-256. A fingerprint is a Python integer, checked where the code checks it. Text is ASCII, on
  which NFKC and the zero-width characters are idle; the two regular expressions of \<open>canonicalize\<close>
  and the parser of URLs are arguments. Iterating over a set of strings has an order
  that is salted for each interpreter: \<open>listing\<close> is that order.
\<close>

section \<open>Canonical text\<close>

definition TRACKING_PARAM_PREFIXES :: "string list" where
  "TRACKING_PARAM_PREFIXES = [''utm_'']"

definition TRACKING_PARAMS :: "string list" where
  "TRACKING_PARAMS = [''fbclid'', ''gclid'', ''gbraid'', ''wbraid'', ''msclkid'', ''yclid'', ''igshid'',
     ''mc_cid'', ''mc_eid'', ''_hsenc'', ''_hsmi'']"

definition MAX_TAIL_STRIPS :: nat where "MAX_TAIL_STRIPS = 3"

definition is_tracking_param :: "string \<Rightarrow> bool" where
  "is_tracking_param key \<longleftrightarrow>
     (let lowered = py_lower key in
      lowered \<in> set TRACKING_PARAMS \<or> list_ex (\<lambda>p. take (length p) lowered = p) TRACKING_PARAM_PREFIXES)"

record url_parts =
  up_scheme :: string
  up_netloc :: string
  up_path :: string
  up_query :: string
  up_fragment :: string

text \<open>\<open>urllib.parse\<close>: splitting may raise, the others always return.\<close>

record url_library =
  urlsplit :: "string \<Rightarrow> url_parts option"
  parse_qsl :: "string \<Rightarrow> (string \<times> string) list"
  urlencode :: "(string \<times> string) list \<Rightarrow> string"
  urlunsplit :: "url_parts \<Rightarrow> string"

definition canonical_url :: "url_library \<Rightarrow> string \<Rightarrow> string" where
  "canonical_url lib url =
     (case urlsplit lib url of
        None \<Rightarrow> url
      | Some parts \<Rightarrow>
          urlunsplit lib \<lparr>up_scheme = py_lower (up_scheme parts), up_netloc = py_lower (up_netloc parts),
            up_path = up_path parts,
            up_query = urlencode lib (filter (\<lambda>kv. \<not> is_tracking_param (fst kv)) (parse_qsl lib (up_query parts))),
            up_fragment = []\<rparr>)"

text \<open>\<open>sub_urls f t\<close> rewrites every URL of a text by a function, \<open>sub_tail\<close> drops a trailing affordance.\<close>

record text_rules =
  sub_urls :: "(string \<Rightarrow> string) \<Rightarrow> string \<Rightarrow> string"
  sub_tail :: "string \<Rightarrow> string"
  url_lib :: url_library

fun strip_tails :: "text_rules \<Rightarrow> nat \<Rightarrow> string \<Rightarrow> string" where
  "strip_tails rules 0 t = t"
| "strip_tails rules (Suc n) t =
     (let stripped = py_strip (sub_tail rules t) in if stripped = t then t else strip_tails rules n stripped)"

definition canonicalize :: "text_rules \<Rightarrow> string \<Rightarrow> string" where
  "canonicalize rules t =
     strip_tails rules MAX_TAIL_STRIPS
       (py_join '' '' (py_split (py_lower (sub_urls rules (canonical_url (url_lib rules)) t))))"

definition content_sha256 :: "(string \<Rightarrow> string) \<Rightarrow> text_rules \<Rightarrow> string \<Rightarrow> string" where
  "content_sha256 sha rules t = sha (canonicalize rules t)"

definition identity_key :: "string \<Rightarrow> string \<Rightarrow> string" where
  "identity_key slug signal_id = ''os:dedup:id:'' @ slug @ '':'' @ signal_id"

definition content_key :: "(string \<Rightarrow> string) \<Rightarrow> text_rules \<Rightarrow> string \<Rightarrow> string \<Rightarrow> string" where
  "content_key sha rules slug t = ''os:dedup:sha:'' @ slug @ '':'' @ content_sha256 sha rules t"

section \<open>Tokens and shingles\<close>

definition token_char :: "char \<Rightarrow> bool" where
  "token_char c \<longleftrightarrow> is_alnum c \<or> c = CHR ''_''"

fun token_runs :: "string \<Rightarrow> string \<Rightarrow> string list" where
  "token_runs w [] = (if w = [] then [] else [w])"
| "token_runs w (c # cs) =
     (if token_char c then token_runs (w @ [c]) cs
      else (if w = [] then token_runs [] cs else w # token_runs [] cs))"

definition tokenize :: "string \<Rightarrow> string list" where
  "tokenize t = token_runs [] t"

definition SHINGLE_SEP :: string where "SHINGLE_SEP = [CHR 0x1F]"

definition shingles :: "string list \<Rightarrow> int \<Rightarrow> py_error + string list" where
  "shingles tokens grams =
     (if grams < 1 then Inl ValueError
      else if tokens = [] then Inr []
      else if int (length tokens) < grams then Inr tokens
      else Inr (map (\<lambda>i. py_join SHINGLE_SEP (take (nat grams) (drop i tokens))) [0 ..< length tokens - nat grams + 1]))"

section \<open>SimHash\<close>

definition SIMHASH_BITS :: nat where "SIMHASH_BITS = 64"
definition SIMHASH_DISTANCE_THRESHOLD :: int where "SIMHASH_DISTANCE_THRESHOLD = 3"
definition SIMHASH_LSH_BANDS :: int where "SIMHASH_LSH_BANDS = 4"
definition DEFAULT_SHINGLE_SIZE :: int where "DEFAULT_SHINGLE_SIZE = 3"

type_synonym digest8 = "string \<Rightarrow> 64 word"

definition feature_hash64 :: "digest8 \<Rightarrow> string \<Rightarrow> int" where
  "feature_hash64 d f = uint (d f)"

text \<open>\<open>Counter\<close>: each feature with its frequency, in the order of first occurrence.\<close>

definition counter :: "string list \<Rightarrow> (string \<times> nat) list" where
  "counter xs = map (\<lambda>x. (x, count_list xs x)) (ordered_unique xs)"

definition vote :: "digest8 \<Rightarrow> int list \<Rightarrow> string \<times> nat \<Rightarrow> int list" where
  "vote d columns fw =
     map (\<lambda>b. if bit (feature_hash64 d (fst fw)) b then columns ! b + int (snd fw) else columns ! b - int (snd fw))
       [0 ..< SIMHASH_BITS]"

definition set_bits_of :: "int list \<Rightarrow> int" where
  "set_bits_of columns =
     foldl (\<lambda>fp b. if columns ! b > 0 then fp OR push_bit b 1 else fp) 0 [0 ..< SIMHASH_BITS]"

definition simhash_features :: "digest8 \<Rightarrow> string list \<Rightarrow> int" where
  "simhash_features d features =
     (if counter features = [] then 0
      else set_bits_of (foldl (vote d) (replicate SIMHASH_BITS 0) (counter features)))"

definition simhash64 :: "digest8 \<Rightarrow> text_rules \<Rightarrow> string \<Rightarrow> int \<Rightarrow> py_error + int" where
  "simhash64 d rules t grams =
     and_then (shingles (tokenize (canonicalize rules t)) grams) (\<lambda>features. Inr (simhash_features d features))"

definition in_width :: "int \<Rightarrow> bool" where
  "in_width v \<longleftrightarrow> 0 \<le> v \<and> v < push_bit SIMHASH_BITS 1"

definition bit_count :: "int \<Rightarrow> nat" where
  "bit_count v = length (filter (bit v) [0 ..< SIMHASH_BITS])"

definition hamming :: "int \<Rightarrow> int \<Rightarrow> py_error + nat" where
  "hamming a b = (if \<not> in_width a \<or> \<not> in_width b then Inl ValueError else Inr (bit_count (a XOR b)))"

definition is_near_duplicate :: "int \<Rightarrow> int \<Rightarrow> int \<Rightarrow> py_error + bool" where
  "is_near_duplicate a b threshold =
     (if threshold < 0 \<or> threshold > int SIMHASH_BITS then Inl ValueError
      else if a = 0 \<or> b = 0 then Inr False
      else and_then (hamming a b) (\<lambda>h. Inr (int h \<le> threshold)))"

section \<open>Bands\<close>

definition hex_char :: "nat \<Rightarrow> char" where
  "hex_char n = (if n < 10 then digit_char n else char_of (87 + n))"

definition hex_digits :: "nat \<Rightarrow> int \<Rightarrow> string" where
  "hex_digits n v = map (\<lambda>i. hex_char (nat (v div 16 ^ i mod 16))) (rev [0 ..< n])"

definition band_width :: "int \<Rightarrow> py_error + int" where
  "band_width bands =
     (if bands < 1 \<or> int SIMHASH_BITS mod bands \<noteq> 0 then Inl ValueError
      else let width = int SIMHASH_BITS div bands in
        if width mod 4 \<noteq> 0 then Inl ValueError else Inr width)"

definition band_of :: "nat \<Rightarrow> int \<Rightarrow> nat \<Rightarrow> int" where
  "band_of width fp index = drop_bit (index * width) fp AND (push_bit width 1 - 1)"

definition band_key :: "nat \<Rightarrow> int \<Rightarrow> nat \<Rightarrow> string" where
  "band_key width fp index =
     ''os:dedup:sim:'' @ str_nat index @ '':'' @ hex_digits (width div 4) (band_of width fp index)"

definition simhash_band_keys :: "int \<Rightarrow> int \<Rightarrow> py_error + string list" where
  "simhash_band_keys fp bands =
     and_then (band_width bands) (\<lambda>width. Inr (map (band_key (nat width) fp) [0 ..< nat bands]))"

section \<open>MinHash\<close>

definition MINHASH_PERMUTATIONS :: nat where "MINHASH_PERMUTATIONS = 128"
definition MINHASH_LSH_BANDS :: int where "MINHASH_LSH_BANDS = 16"

definition MINHASH_PRIME :: int where "MINHASH_PRIME = push_bit 61 1 - 1"

text \<open>\<open>to_bytes(n, "big")\<close>, a character for a byte.\<close>

definition big_bytes :: "nat \<Rightarrow> int \<Rightarrow> string" where
  "big_bytes n v = map (\<lambda>i. char_of (nat (v div 256 ^ i mod 256))) (rev [0 ..< n])"

definition coefficients :: "digest8 \<Rightarrow> nat \<Rightarrow> int \<times> int" where
  "coefficients d index =
     (let seed = big_bytes 4 (int index);
          a = feature_hash64 d (CHR ''a'' # seed) mod MINHASH_PRIME;
          b = feature_hash64 d (CHR ''b'' # seed) mod MINHASH_PRIME in
      (if a = 0 then 1 else a, b))"

definition permutations :: "digest8 \<Rightarrow> nat \<Rightarrow> (int \<times> int) list" where
  "permutations d perms = map (coefficients d) [0 ..< perms]"

definition minhash_features :: "digest8 \<Rightarrow> nat \<Rightarrow> string list \<Rightarrow> int list" where
  "minhash_features d perms features =
     (let hashes = (\<lambda>f. feature_hash64 d f mod MINHASH_PRIME) ` set features in
      if features = [] then []
      else map (\<lambda>(a, b). Min ((\<lambda>h. (a * h + b) mod MINHASH_PRIME) ` hashes)) (permutations d perms))"

definition minhash :: "digest8 \<Rightarrow> text_rules \<Rightarrow> string \<Rightarrow> nat \<Rightarrow> int \<Rightarrow> py_error + int list" where
  "minhash d rules t perms grams =
     and_then (shingles (tokenize (canonicalize rules t)) grams) (\<lambda>features. Inr (minhash_features d perms features))"

definition jaccard :: "int list \<Rightarrow> int list \<Rightarrow> py_error + pyfloat" where
  "jaccard a b =
     (if a = [] \<or> b = [] then Inr 0
      else if length a \<noteq> length b then Inl ValueError
      else Inr (of_nat (length (filter (\<lambda>(x, y). x = y) (zip a b))) / of_nat (length a)))"

text \<open>A value of more than eight bytes raises \<open>OverflowError\<close>, which no signature holds.\<close>

definition minhash_band_keys :: "digest8 \<Rightarrow> int list \<Rightarrow> int \<Rightarrow> py_error + string list" where
  "minhash_band_keys d signature bands =
     (if signature = [] then Inr []
      else if bands < 1 \<or> int (length signature) mod bands \<noteq> 0 then Inl ValueError
      else if \<not> list_all in_width signature then Inl ValueError
      else let rows = length signature div nat bands in
        Inr (map (\<lambda>index. ''os:dedup:mh:'' @ str_nat index @ '':'' @
            hex_digits 16 (uint (d (concat (map (big_bytes 8) (take rows (drop (index * rows) signature)))))))
          [0 ..< nat bands]))"

section \<open>The candidate index\<close>

type_synonym banded_index = "(string \<times> string list) list"

fun bucket_add :: "string \<Rightarrow> banded_index \<Rightarrow> string \<Rightarrow> banded_index" where
  "bucket_add m [] key = [(key, [m])]"
| "bucket_add m ((k, ms) # bs) key =
     (if k = key then (k, add_unique ms [m]) # bs else (k, ms) # bucket_add m bs key)"

definition index_add :: "banded_index \<Rightarrow> string \<Rightarrow> string list \<Rightarrow> banded_index" where
  "index_add index m keys = foldl (bucket_add m) index keys"

definition bucket :: "banded_index \<Rightarrow> string \<Rightarrow> string list" where
  "bucket index key = (case map_of index key of None \<Rightarrow> [] | Some ms \<Rightarrow> ms)"

definition index_candidates :: "banded_index \<Rightarrow> string list \<Rightarrow> string option \<Rightarrow> string list" where
  "index_candidates index keys exclude =
     filter (\<lambda>m. Some m \<noteq> exclude) (foldl (\<lambda>found key. add_unique found (bucket index key)) [] keys)"

definition index_size :: "banded_index \<Rightarrow> nat" where
  "index_size index = length index"

section \<open>Clusters\<close>

record cluster_member =
  signal_id :: string
  happened :: instant
  fingerprint :: int
  member_confidence :: pyfloat
  member_platform :: "string option"

definition new_member :: "cluster_member \<Rightarrow> py_error + cluster_member" where
  "new_member m =
     (if signal_id m = [] then Inl ValueError
      else if \<not> in_width (fingerprint m) then Inl ValueError
      else if \<not> (0 \<le> member_confidence m \<and> member_confidence m \<le> 1) then Inl ValueError
      else Inr m)"

record cluster_assignment =
  as_signal_id :: string
  as_cluster_id :: string
  duplicate_of :: "string option"

definition is_canonical :: "cluster_assignment \<Rightarrow> bool" where
  "is_canonical a \<longleftrightarrow> duplicate_of a = None"

definition cluster_id_for :: "(string \<Rightarrow> string) \<Rightarrow> string \<Rightarrow> py_error + string" where
  "cluster_id_for sha cid = (if cid = [] then Inl ValueError else Inr (''dc_'' @ take 12 (sha cid)))"

definition election_key :: "cluster_member \<Rightarrow> instant \<times> pyfloat \<times> string" where
  "election_key m = (happened m, - member_confidence m, signal_id m)"

fun least_member :: "cluster_member \<Rightarrow> cluster_member list \<Rightarrow> cluster_member" where
  "least_member m [] = m"
| "least_member m (x # xs) = least_member (if election_key x < election_key m then x else m) xs"

definition elect_canonical :: "cluster_member list \<Rightarrow> py_error + cluster_member" where
  "elect_canonical ms = (case ms of [] \<Rightarrow> Inl ValueError | m # ms \<Rightarrow> Inr (least_member m ms))"

record cluster =
  cluster_id :: string
  canonical_id :: string
  members :: "cluster_member list"

definition is_singleton :: "cluster \<Rightarrow> bool" where
  "is_singleton c \<longleftrightarrow> length (members c) = 1"

definition duplicates :: "cluster \<Rightarrow> cluster_member list" where
  "duplicates c = filter (\<lambda>m. signal_id m \<noteq> canonical_id c) (members c)"

definition distinct_platforms :: "cluster \<Rightarrow> string list" where
  "distinct_platforms c =
     sort (ordered_unique (concat (map (\<lambda>m. case member_platform m of None \<Rightarrow> [] | Some p \<Rightarrow> if p = [] then [] else [p])
       (members c))))"

definition assignments :: "cluster \<Rightarrow> cluster_assignment list" where
  "assignments c =
     map (\<lambda>m. \<lparr>as_signal_id = signal_id m, as_cluster_id = cluster_id c,
         duplicate_of = (if signal_id m = canonical_id c then None else Some (canonical_id c))\<rparr>) (members c)"

text \<open>A run stops with an exception, or \<open>Stuck\<close> in a \<open>find\<close> that misses its node or does not end.\<close>

datatype cluster_stop = Raised py_error | Stuck

definition raised :: "py_error + 'a \<Rightarrow> cluster_stop + 'a" where
  "raised r = (case r of Inl e \<Rightarrow> Inl (Raised e) | Inr x \<Rightarrow> Inr x)"

definition found :: "'a option \<Rightarrow> cluster_stop + 'a" where
  "found r = (case r of None \<Rightarrow> Inl Stuck | Some x \<Rightarrow> Inr x)"

type_synonym parents = "string \<Rightarrow> string option"

definition find_node :: "nat \<Rightarrow> parents \<Rightarrow> string \<Rightarrow> (string \<times> parents) option" where
  "find_node n par x = map_option (\<lambda>r. (r, compress n r par x)) (root_of n par x)"

definition attach :: "string \<Rightarrow> string \<Rightarrow> parents \<Rightarrow> parents" where
  "attach l r par = (if l = r then par else if r < l then par(l \<mapsto> r) else par(r \<mapsto> l))"

definition unite_nodes :: "nat \<Rightarrow> parents \<Rightarrow> string \<Rightarrow> string \<Rightarrow> parents option" where
  "unite_nodes n par left right =
     (case find_node n par left of
        None \<Rightarrow> None
      | Some (l, par) \<Rightarrow>
          (case find_node n par right of None \<Rightarrow> None | Some (r, par) \<Rightarrow> Some (attach l r par)))"

definition join_candidate :: "nat \<Rightarrow> (string \<Rightarrow> cluster_member option) \<Rightarrow> int \<Rightarrow> cluster_member
    \<Rightarrow> parents \<Rightarrow> string \<Rightarrow> cluster_stop + parents" where
  "join_candidate n by_id threshold m par c =
     and_then (found (by_id c)) (\<lambda>other.
     and_then (raised (is_near_duplicate (fingerprint m) (fingerprint other) threshold)) (\<lambda>near.
     if near then found (unite_nodes n par (signal_id m) c) else Inr par))"

definition place_member :: "(string list \<Rightarrow> string list) \<Rightarrow> nat \<Rightarrow> (string \<Rightarrow> cluster_member option) \<Rightarrow> int \<Rightarrow> int
    \<Rightarrow> parents \<times> banded_index \<Rightarrow> cluster_member \<Rightarrow> cluster_stop + parents \<times> banded_index" where
  "place_member listing n by_id threshold bands st m =
     (if fingerprint m = 0 then Inr st
      else and_then (raised (simhash_band_keys (fingerprint m) bands)) (\<lambda>keys.
        and_then (fold_res (join_candidate n by_id threshold m) (fst st)
          (listing (index_candidates (snd st) keys (Some (signal_id m))))) (\<lambda>par.
        Inr (par, index_add (snd st) (signal_id m) keys))))"

fun group_members :: "nat \<Rightarrow> parents \<Rightarrow> (string \<times> cluster_member list) list \<Rightarrow> cluster_member list
    \<Rightarrow> (string \<times> cluster_member list) list option" where
  "group_members n par groups [] = Some groups"
| "group_members n par groups (m # ms) =
     (case find_node n par (signal_id m) of
        None \<Rightarrow> None
      | Some (r, par) \<Rightarrow> group_members n par (add_member r m groups) ms)"

definition make_cluster :: "(string \<Rightarrow> string) \<Rightarrow> cluster_member list \<Rightarrow> py_error + cluster" where
  "make_cluster sha grp =
     (let ordered = sort_key election_key grp; c = signal_id (hd ordered) in
      and_then (cluster_id_for sha c) (\<lambda>i. Inr \<lparr>cluster_id = i, canonical_id = c, members = ordered\<rparr>))"

definition make_clusters :: "(string \<Rightarrow> string) \<Rightarrow> cluster_member list list \<Rightarrow> py_error + cluster list" where
  "make_clusters sha groups =
     and_then (fold_res (\<lambda>cs g. and_then (make_cluster sha g) (\<lambda>c. Inr (cs @ [c]))) [] groups)
       (\<lambda>cs. Inr (sort_key (\<lambda>c. election_key (hd (members c))) cs))"

definition assign_clusters :: "(string \<Rightarrow> string) \<Rightarrow> (string list \<Rightarrow> string list) \<Rightarrow> int \<Rightarrow> int
    \<Rightarrow> cluster_member list \<Rightarrow> cluster_stop + cluster list" where
  "assign_clusters sha listing threshold bands ms =
     (if threshold \<ge> bands then Inl (Raised ValueError)
      else and_then (raised (band_width bands)) (\<lambda>_.
        if \<not> distinct (map signal_id ms) then Inl (Raised ValueError)
        else
          let n = length ms; by_id = map_of (map (\<lambda>m. (signal_id m, m)) ms) in
          and_then (fold_res (place_member listing n by_id threshold bands)
              (\<lambda>x. if x \<in> set (map signal_id ms) then Some x else None, []) ms) (\<lambda>st.
          and_then (found (group_members n (fst st) [] ms)) (\<lambda>groups.
          raised (make_clusters sha (map snd groups))))))"

end
