(* ===== verification/Fingerprint_Laws.thy ===== *)
theory Fingerprint_Laws
  imports Fingerprints
begin

text \<open>
  What a fingerprint is and what the bands find: SimHash is a majority vote of the shingles that few edits
  disturb little, two fingerprints nearer than the number of bands share a key, and a MinHash
  signature depends on the set of shingles.
\<close>

section \<open>The vote\<close>

definition ballot :: "digest8 \<Rightarrow> nat \<Rightarrow> string \<Rightarrow> int" where
  "ballot d b f = (if bit (feature_hash64 d f) b then 1 else - 1)"

definition tally :: "digest8 \<Rightarrow> nat \<Rightarrow> string list \<Rightarrow> int" where
  "tally d b features = (\<Sum>f \<leftarrow> features. ballot d b f)"

lemma bit_push_one: "bit (2 ^ b :: int) n \<longleftrightarrow> n = b"
  by (auto simp: bit_exp_iff)

lemma set_bits_fold:
  "bit (foldl (\<lambda>fp b. if columns ! b > 0 then fp OR push_bit b 1 else fp) (fp :: int) bs) n \<longleftrightarrow>
     bit fp n \<or> n \<in> set bs \<and> columns ! n > (0 :: int)"
proof (induction bs arbitrary: fp)
  case (Cons b bs)
  show ?case unfolding foldl_Cons Cons.IH by (cases "columns ! b > 0") (auto simp: bit_or_iff bit_push_one)
qed simp

lemma bit_set_bits_of: "bit (set_bits_of columns) n \<longleftrightarrow> n < SIMHASH_BITS \<and> columns ! n > 0"
  by (auto simp: set_bits_of_def set_bits_fold)

lemma vote_nth:
  "b < SIMHASH_BITS \<Longrightarrow> vote d columns (f, w) ! b = columns ! b + int w * ballot d b f"
  by (simp add: vote_def ballot_def)

lemma votes_nth:
  "b < SIMHASH_BITS \<Longrightarrow>
     foldl (vote d) columns fws ! b = columns ! b + (\<Sum>(f, w) \<leftarrow> fws. int w * ballot d b f)"
  by (induction fws arbitrary: columns) (auto simp: vote_nth)

lemma sum_count_list:
  fixes g :: "'a \<Rightarrow> int"
  assumes "finite A" and "set xs \<subseteq> A"
  shows "(\<Sum>x \<in> A. int (count_list xs x) * g x) = (\<Sum>x \<leftarrow> xs. g x)"
  using assms(2)
proof (induction xs)
  case (Cons y ys)
  have "(\<Sum>x \<in> A. int (count_list (y # ys) x) * g x) =
      (\<Sum>x \<in> A. (if y = x then g x else 0) + int (count_list ys x) * g x)"
    by (rule sum.cong) (auto simp: algebra_simps)
  then show ?case using Cons assms(1) by (simp add: sum.distrib)
qed simp

lemma counter_tally: "(\<Sum>(f, w) \<leftarrow> counter xs. int w * ballot d b f) = tally d b xs"
proof -
  have "(\<Sum>(f, w) \<leftarrow> counter xs. int w * ballot d b f) =
      (\<Sum>f \<leftarrow> ordered_unique xs. int (count_list xs f) * ballot d b f)"
    by (simp add: counter_def comp_def)
  also have "\<dots> = (\<Sum>f \<in> set xs. int (count_list xs f) * ballot d b f)"
    by (simp add: sum_list_distinct_conv_sum_set)
  finally show ?thesis by (simp add: sum_count_list tally_def)
qed

lemma ordered_unique_nil: "ordered_unique xs = [] \<longleftrightarrow> xs = []"
  by (metis set_empty set_ordered_unique)

lemma bit_simhash_features:
  "bit (simhash_features d features) b \<longleftrightarrow> b < SIMHASH_BITS \<and> 0 < tally d b features"
proof (cases "features = []")
  case True
  then show ?thesis by (simp add: simhash_features_def counter_def ordered_unique_nil tally_def)
next
  case False
  then have "counter features \<noteq> []" by (simp add: counter_def ordered_unique_nil)
  then have "bit (simhash_features d features) b \<longleftrightarrow>
      b < SIMHASH_BITS \<and> 0 < foldl (vote d) (replicate SIMHASH_BITS 0) (counter features) ! b"
    by (simp add: simhash_features_def bit_set_bits_of)
  then show ?thesis by (auto simp: votes_nth counter_tally)
qed

lemma in_width_iff: "in_width v \<longleftrightarrow> take_bit SIMHASH_BITS v = v"
  by (auto simp: in_width_def push_bit_eq_mult take_bit_int_eq_self_iff)

lemma in_width_bits: "(\<And>b. bit v b \<Longrightarrow> b < SIMHASH_BITS) \<Longrightarrow> in_width v"
  unfolding in_width_iff by (rule bit_eqI) (auto simp: bit_take_bit_iff)

lemma simhash_in_width: "in_width (simhash_features d features)"
  by (rule in_width_bits) (simp add: bit_simhash_features)

text \<open>
  A fingerprint is the majority vote of the shingles: it has sixty-four bits, and bit \<open>b\<close> is
  set if and only if more of the shingles, counted with their repetitions, hash to a digest
  with that bit than to one without it. So it does not depend on the order of the shingles, and a
  tie gives a zero. It holds for every digest and every shingle size the code accepts.
\<close>

theorem simhash_is_a_majority_vote:
  "simhash64 d rules t k =
     (case shingles (tokenize (canonicalize rules t)) k of
        Inl e \<Rightarrow> Inl e
      | Inr fs \<Rightarrow> Inr (simhash_features d fs)) \<and>
   in_width (simhash_features d fs) \<and>
   (bit (simhash_features d fs) b \<longleftrightarrow>
      b < 64 \<and> length (filter (\<lambda>f. \<not> bit (feature_hash64 d f) b) fs) < length (filter (\<lambda>f. bit (feature_hash64 d f) b) fs))"
proof -
  have "tally d b fs = int (length (filter (\<lambda>f. bit (feature_hash64 d f) b) fs)) -
      int (length (filter (\<lambda>f. \<not> bit (feature_hash64 d f) b) fs))"
    by (induction fs) (simp_all add: tally_def ballot_def)
  then show ?thesis
    by (auto simp: bit_simhash_features simhash_in_width SIMHASH_BITS_def simhash64_def split: sum.splits)
qed

section \<open>Edits\<close>

lemma tally_mset: "tally d b xs = (\<Sum>f \<in># mset xs. ballot d b f)"
  by (simp add: tally_def sum_mset_sum_list [symmetric] flip: mset_map)

lemma ballots_bounded: "\<bar>\<Sum>f \<in># M. ballot d b f\<bar> \<le> int (size M)"
proof (induction M)
  case (add x M)
  then show ?case by (cases "bit (feature_hash64 d x) b") (simp_all add: ballot_def)
qed simp

lemma tally_shift:
  "\<bar>tally d b xs - tally d b ys\<bar> \<le> int (size (mset xs - mset ys)) + int (size (mset ys - mset xs))"
proof -
  have split: "mset us = (mset us - mset vs) + (mset us \<inter># mset vs)" for us vs :: "string list"
    by (metis add.commute multiset_inter_commute inter_mset_def diff_intersect_left_idem
      subset_mset.inf_le1 subset_mset.add_diff_inverse)
  have "tally d b us = (\<Sum>f \<in># mset us - mset vs. ballot d b f) + (\<Sum>f \<in># mset us \<inter># mset vs. ballot d b f)" for us vs
    unfolding tally_mset by (subst split [of us vs]) (simp del: add_diff_cancel)
  from this [of xs ys] this [of ys xs] have "tally d b xs - tally d b ys =
      (\<Sum>f \<in># mset xs - mset ys. ballot d b f) - (\<Sum>f \<in># mset ys - mset xs. ballot d b f)"
    by (simp add: subset_mset.inf.commute)
  then show ?thesis
    using ballots_bounded [of d b "mset xs - mset ys"] ballots_bounded [of d b "mset ys - mset xs"] by linarith
qed

text \<open>
  Few edits disturb a fingerprint little: where two texts differ by the shingles \<open>xs\<close> has and \<open>ys\<close>
  does not and those \<open>ys\<close> has and \<open>xs\<close> does not, a bit of the fingerprint may change only if the vote
  on it was at most as close as the number of these. A bit with a wider margin stays.
\<close>

theorem edits_flip_close_votes_only:
  assumes "bit (simhash_features d xs) b \<noteq> bit (simhash_features d ys) b"
  shows "\<bar>tally d b xs\<bar> \<le> int (size (mset xs - mset ys) + size (mset ys - mset xs))"
  using assms tally_shift [of d b xs ys] by (auto simp: bit_simhash_features abs_if split: if_splits)

section \<open>Bands\<close>

lemma hex_char_inj: "m < 16 \<Longrightarrow> n < 16 \<Longrightarrow> hex_char m = hex_char n \<Longrightarrow> m = n"
proof -
  assume *: "m < 16" "n < 16" "hex_char m = hex_char n"
  have v: "of_char (hex_char k) = (if k < 10 then 48 + k else 87 + k)" if "k < 16" for k :: nat
    using that by (auto simp: hex_char_def of_char_digit)
  from *(3) have "(of_char (hex_char m) :: nat) = of_char (hex_char n)" by simp
  then show ?thesis using *(1,2) by (simp add: v split: if_splits)
qed

lemma hex_digits_eq: "hex_digits n u = hex_digits n v \<longleftrightarrow> u mod 16 ^ n = v mod 16 ^ n"
proof (induction n)
  case (Suc n)
  have step: "hex_digits (Suc n) w = hex_char (nat (w div 16 ^ n mod 16)) # hex_digits n w" for w
    by (simp add: hex_digits_def)
  have expand: "w mod 16 ^ Suc n = 16 ^ n * (w div 16 ^ n mod 16) + w mod 16 ^ n" for w :: int
    by (metis mult.commute power_Suc zero_le_numeral zero_le_power zmod_zmult2_eq)
  have digit: "hex_char (nat (u div 16 ^ n mod 16)) = hex_char (nat (v div 16 ^ n mod 16)) \<longleftrightarrow>
      u div 16 ^ n mod 16 = v div 16 ^ n mod 16"
    using hex_char_inj [of "nat (u div 16 ^ n mod 16)" "nat (v div 16 ^ n mod 16)"] by (auto simp: nat_less_iff)
  show ?case
  proof
    assume "hex_digits (Suc n) u = hex_digits (Suc n) v"
    with Suc digit show "u mod 16 ^ Suc n = v mod 16 ^ Suc n" unfolding expand by (simp add: step)
  next
    assume eq: "u mod 16 ^ Suc n = v mod 16 ^ Suc n"
    have "u mod 16 ^ n = v mod 16 ^ n"
      using arg_cong [OF eq, of "\<lambda>w. w mod 16 ^ n"] by (simp add: mod_mod_cancel)
    moreover from this eq have "u div 16 ^ n mod 16 = v div 16 ^ n mod 16" unfolding expand by simp
    ultimately show "hex_digits (Suc n) u = hex_digits (Suc n) v" using Suc by (simp add: step)
  qed
qed (simp add: hex_digits_def)

lemma str_nat_prefix:
  assumes "str_nat i @ CHR '':'' # u = str_nat j @ CHR '':'' # v"
  shows "i = j \<and> u = v"
proof -
  have "takeWhile is_digit (str_nat k @ CHR '':'' # w) = str_nat k" for k w
    using all_digits_str_nat [of k] by (simp add: all_digits_def list_all_iff takeWhile_append2 is_digit_def)
  with assms have "str_nat i = str_nat j" by metis
  then have "i = j" by (metis int_str_nat)
  with assms show ?thesis by simp
qed

lemma band_of_bits:
  "band_of w a i = band_of w b i \<longleftrightarrow> (\<forall>k < w. bit a (i * w + k) = bit b (i * w + k))"
proof -
  have "band_of w v i = take_bit w (drop_bit (i * w) v)" for v
    by (simp add: band_of_def take_bit_eq_mask mask_eq_exp_minus_1 push_bit_eq_mult)
  then show ?thesis by (auto simp: bit_eq_iff bit_take_bit_iff bit_drop_bit_eq)
qed

lemma band_key_eq:
  assumes "4 dvd w"
  shows "band_key w a i = band_key w b j \<longleftrightarrow> i = j \<and> band_of w a i = band_of w b i"
proof -
  obtain n where n: "w = 4 * n" using assms by (auto simp: dvd_def)
  have "band_of w v k mod 16 ^ (w div 4) = band_of w v k" for v k
  proof -
    have "(16 :: int) ^ n = 2 ^ w" unfolding n by (simp add: power_mult)
    then show ?thesis using n
      by (simp add: band_of_def take_bit_eq_mask [symmetric] mask_eq_exp_minus_1 [symmetric] push_bit_eq_mult take_bit_eq_mod)
  qed
  then show ?thesis unfolding band_key_def
    by (auto simp: hex_digits_eq dest!: str_nat_prefix)
qed

lemma band_widthE:
  assumes "band_width bands = Inr w"
  shows "0 < w \<and> 4 dvd nat w \<and> nat bands * nat w = SIMHASH_BITS \<and> 0 < bands"
proof -
  from assms have b: "1 \<le> bands" "bands dvd int SIMHASH_BITS" "w = int SIMHASH_BITS div bands" "4 dvd w"
    by (auto simp: band_width_def Let_def dvd_eq_mod_eq_0 split: if_splits)
  then have p: "bands * w = int SIMHASH_BITS" by simp
  then have pos: "0 < w" using b(1) by (simp add: SIMHASH_BITS_def) (smt (verit) mult_nonneg_nonpos)
  moreover have "nat bands * nat w = SIMHASH_BITS" using p b(1) pos by (metis nat_int nat_mult_distrib zero_le_one order_trans)
  moreover have "4 dvd nat w" using b(4) pos by (simp flip: int_dvd_int_iff)
  ultimately show ?thesis using b(1) by simp
qed

lemma bit_count_xor: "bit_count (a XOR b) = card {k. k < SIMHASH_BITS \<and> bit a k \<noteq> bit b k}"
proof -
  have "bit_count (a XOR b) = length (filter (\<lambda>k. bit a k \<noteq> bit b k) [0 ..< SIMHASH_BITS])"
    unfolding bit_count_def by (rule arg_cong [where f = length], rule filter_cong) (auto simp: bit_xor_iff)
  also have "\<dots> = card (set (filter (\<lambda>k. bit a k \<noteq> bit b k) [0 ..< SIMHASH_BITS]))"
    by (rule distinct_card [symmetric]) simp
  also have "set (filter (\<lambda>k. bit a k \<noteq> bit b k) [0 ..< SIMHASH_BITS]) = {k. k < SIMHASH_BITS \<and> bit a k \<noteq> bit b k}"
    by auto
  finally show ?thesis .
qed

text \<open>The pigeonhole: fewer differing bits than bands leave a band untouched.\<close>

lemma untouched_band:
  assumes "m * w = SIMHASH_BITS" and "bit_count (a XOR b) < m"
  shows "\<exists>i < m. band_of w a i = band_of w b i"
proof (rule ccontr)
  assume "\<not> ?thesis"
  then have "\<forall>i < m. \<exists>k < w. bit a (i * w + k) \<noteq> bit b (i * w + k)" by (auto simp: band_of_bits)
  then obtain f where f: "\<And>i. i < m \<Longrightarrow> f i < w \<and> bit a (i * w + f i) \<noteq> bit b (i * w + f i)" by metis
  let ?g = "\<lambda>i. i * w + f i"
  have "inj_on ?g {..< m}"
  proof (rule inj_onI)
    fix i j assume ij: "i \<in> {..< m}" "j \<in> {..< m}" "?g i = ?g j"
    have g: "?g k div w = k" if "k < m" for k
    proof -
      from f [OF that] have "f k < w" by blast
      then show ?thesis by simp
    qed
    have "i = ?g i div w" using ij(1) g [of i] by simp
    also have "\<dots> = ?g j div w" using ij(3) by (rule arg_cong)
    also have "\<dots> = j" using ij(2) g [of j] by simp
    finally show "i = j" .
  qed
  moreover have "?g ` {..< m} \<subseteq> {k. k < SIMHASH_BITS \<and> bit a k \<noteq> bit b k}"
  proof (rule image_subsetI)
    fix i assume "i \<in> {..< m}"
    then have i: "i < m" by simp
    have "?g i < (i + 1) * w" using f [OF i] by simp
    also have "\<dots> \<le> m * w" using i by (intro mult_le_mono1) simp
    finally have "?g i < SIMHASH_BITS" using assms(1) by simp
    with f [OF i] show "?g i \<in> {k. k < SIMHASH_BITS \<and> bit a k \<noteq> bit b k}" by simp
  qed
  moreover have "finite {k. k < SIMHASH_BITS \<and> bit a k \<noteq> bit b k}" by simp
  ultimately have "card {..< m} \<le> card {k. k < SIMHASH_BITS \<and> bit a k \<noteq> bit b k}" by (rule card_inj_on_le)
  then have "m \<le> card {k. k < SIMHASH_BITS \<and> bit a k \<noteq> bit b k}" by simp
  with assms(2) show False by (simp add: bit_count_xor)
qed

lemma near_shares_key:
  assumes "band_width bands = Inr w" and "is_near_duplicate a b threshold = Inr True" and "threshold < bands"
  shows "\<exists>k. k \<in> set (map (band_key (nat w) a) [0 ..< nat bands]) \<and> k \<in> set (map (band_key (nat w) b) [0 ..< nat bands])"
proof -
  from band_widthE [OF assms(1)] have w: "4 dvd nat w" "nat bands * nat w = SIMHASH_BITS" "0 < bands" by simp_all
  from assms(2) have "int (bit_count (a XOR b)) \<le> threshold"
    by (auto simp: is_near_duplicate_def hamming_def split: if_splits)
  with assms(3) have "bit_count (a XOR b) < nat bands" by simp
  from untouched_band [OF w(2) this] obtain i where i: "i < nat bands" "band_of (nat w) a i = band_of (nat w) b i" by blast
  then have "band_key (nat w) a i = band_key (nat w) b i" by (simp add: band_key_eq [OF w(1)])
  with i(1) show ?thesis by (intro exI [of _ "band_key (nat w) a i"]) (simp add: image_iff, metis atLeastLessThan_iff zero_le)
qed

text \<open>
  C30. Banded lookup misses no pair: with any banding the code accepts, two fingerprints that are
  near-duplicates at a threshold below the number of bands share a band key; and two
  fingerprints share a key only if one of their bands is equal, bit by bit.
\<close>

theorem banding_misses_nothing:
  assumes "simhash_band_keys a bands = Inr ka" and "simhash_band_keys b bands = Inr kb" and "threshold < bands"
  shows "(is_near_duplicate a b threshold = Inr True \<longrightarrow> set ka \<inter> set kb \<noteq> {}) \<and>
    (set ka \<inter> set kb \<noteq> {} \<longleftrightarrow>
      (\<exists>w i. band_width bands = Inr w \<and> i < nat bands \<and>
        (\<forall>k < nat w. bit a (i * nat w + k) = bit b (i * nat w + k))))"
proof -
  from assms(1) obtain w where w: "band_width bands = Inr w" "ka = map (band_key (nat w) a) [0 ..< nat bands]"
    by (cases "band_width bands") (auto simp: simhash_band_keys_def)
  with assms(2) have kb: "kb = map (band_key (nat w) b) [0 ..< nat bands]" by (simp add: simhash_band_keys_def)
  from band_widthE [OF w(1)] have d: "4 dvd nat w" by simp
  have "set ka \<inter> set kb \<noteq> {} \<longleftrightarrow> (\<exists>i < nat bands. band_of (nat w) a i = band_of (nat w) b i)"
    unfolding w(2) kb by (auto simp: band_key_eq [OF d] disjoint_iff image_iff Bex_def)
  moreover have "is_near_duplicate a b threshold = Inr True \<longrightarrow> set ka \<inter> set kb \<noteq> {}"
    using near_shares_key [OF w(1) _ assms(3), of a b] unfolding w(2) kb by blast
  ultimately show ?thesis by (auto simp: w(1) band_of_bits)
qed

section \<open>MinHash\<close>

lemma minhash_set: "set xs = set ys \<Longrightarrow> minhash_features d n xs = minhash_features d n ys"
proof -
  assume s: "set xs = set ys"
  then have "xs = [] \<longleftrightarrow> ys = []" by (metis set_empty)
  with s show ?thesis unfolding minhash_features_def by (simp only:)
qed

lemma jaccard_ok:
  assumes "length a = length b"
  shows "\<exists>j. jaccard a b = Inr j \<and> jaccard b a = Inr j \<and> 0 \<le> j \<and> j \<le> 1 \<and> (j = 1 \<longleftrightarrow> a = b \<and> a \<noteq> [])"
proof (cases "a = []")
  case True
  then show ?thesis using assms by (simp add: jaccard_def)
next
  case False
  then have b: "b \<noteq> []" using assms by auto
  let ?n = "length (filter (\<lambda>(x, y). x = y) (zip a b))"
  have sym: "length (filter (\<lambda>(x, y). x = y) (zip b a)) = ?n"
    using assms by (induction a b rule: list_induct2) auto
  have le: "?n \<le> length a" by (rule order_trans [OF length_filter_le]) simp
  have "?n = length a \<longleftrightarrow> a = b"
  proof
    assume "?n = length a"
    then have "length (filter (\<lambda>p. \<not> (case p of (x, y) \<Rightarrow> x = y)) (zip a b)) = 0"
      using assms sum_length_filter_compl [of "\<lambda>(x, y). x = y" "zip a b"] by (simp del: length_0_conv)
    then have eq: "x = y" if "(x, y) \<in> set (zip a b)" for x y using that by (auto simp: filter_empty_conv)
    show "a = b"
    proof (rule nth_equalityI)
      fix i assume "i < length a"
      then have "(a ! i, b ! i) \<in> set (zip a b)" using assms by (metis length_zip min.idem nth_mem nth_zip)
      then show "a ! i = b ! i" by (rule eq)
    qed (rule assms)
  next
    assume "a = b"
    moreover have "length (filter (\<lambda>(x, y). x = y) (zip a a)) = length a" by (induction a) simp_all
    ultimately show "?n = length a" by simp
  qed
  then have "length a = ?n \<longleftrightarrow> a = b" by (rule subst [OF eq_commute])
  moreover have "0 < length a" using False by simp
  ultimately show ?thesis using False b assms sym le
    by (intro exI [of _ "of_nat ?n / of_nat (length a)"]) (simp add: jaccard_def divide_le_eq_1 del: length_greater_0_conv)
qed

text \<open>
  The estimate of similarity is one: texts with the same set of shingles, whatever their
  order and repetition, have the same signature, and any two signatures of one length are compared
  without an error, symmetrically, to a number in the unit interval that is one exactly for equal
  signatures that are not empty.
\<close>

theorem minhash_compares_sets:
  "(set xs = set ys \<longrightarrow> minhash_features d n xs = minhash_features d n ys) \<and>
   (length a = length b \<longrightarrow>
      (\<exists>j. jaccard a b = Inr j \<and> jaccard b a = Inr j \<and> 0 \<le> j \<and> j \<le> 1 \<and> (j = 1 \<longleftrightarrow> a = b \<and> a \<noteq> [])))"
  using minhash_set jaccard_ok by blast

end
