(* ===== verification/Near_Duplicates.thy ===== *)
theory Near_Duplicates
  imports Fingerprint_Laws
begin

text \<open>
  The clustering of \<open>connectors/dedup/hashing.py\<close>. Its parents refine the disjoint sets of
  \<open>Union_Find\<close>, an instance of the interface \<open>partition\<close>, whatever the order in which a set of
  candidates is walked; the reference is the comparison of every pair.
\<close>

section \<open>Parents as disjoint sets\<close>

definition as_uf :: "string list \<Rightarrow> parents \<Rightarrow> string union_find" where
  "as_uf ids par = \<lparr>uf_ids = ids, parent = par, set_size = (\<lambda>_. 1)\<rparr>"

lemma as_uf_sel [simp]: "uf_ids (as_uf ids par) = ids" "parent (as_uf ids par) = par"
  by (simp_all add: as_uf_def)

lemma find_root_node:
  "find_root (as_uf ids par) x = map_option (\<lambda>(r, p). (r, as_uf ids p)) (find_node (length ids) par x)"
  by (simp add: find_root_def find_node_def as_uf_def split: option.splits)

lemma attach_link: "l \<noteq> r \<Longrightarrow> attach l r par = parent (link l r (as_uf ids par))"
  by (simp add: attach_def link_def as_uf_def Let_def)

lemma unite_union: "unite_nodes (length ids) par a b = map_option parent (union (as_uf ids par) (a, b))"
  by (auto simp: unite_nodes_def union_def find_root_node attach_def attach_link [of _ _ _ ids] split: option.splits)
    (auto simp: attach_def attach_link [of _ _ _ ids, symmetric])

lemma inv_parent: "uf_ids u = ids \<Longrightarrow> uf_inv (as_uf ids (parent u)) = uf_inv u"
  by (simp add: uf_inv_def)

lemma same_parent: "same_set (as_uf ids (parent u)) = same_set u"
  by (intro ext) (simp add: same_set_def)

type_synonym chains = "string list \<times> parents"

abbreviation chain_ok :: "chains \<Rightarrow> bool" where
  "chain_ok s \<equiv> uf_inv (as_uf (fst s) (snd s))"

abbreviation chained_to :: "chains \<Rightarrow> string \<Rightarrow> string \<Rightarrow> bool" where
  "chained_to s \<equiv> same_set (as_uf (fst s) (snd s))"

abbreviation chain :: "chains \<Rightarrow> string \<times> string \<Rightarrow> chains option" where
  "chain s p \<equiv> map_option (Pair (fst s)) (unite_nodes (length (fst s)) (snd s) (fst p) (snd p))"

interpretation chained: partition chain_ok "\<lambda>s. set (fst s)" chained_to chain
proof unfold_locales
  fix s :: chains
  assume "chain_ok s"
  from same_set_equiv [OF this] show "equiv (set (fst s)) {(x, y). chained_to s x y}" by simp
next
  fix s :: chains and a b
  assume ok: "chain_ok s" and "a \<in> set (fst s)" "b \<in> set (fst s)"
  then have "a \<in> set (uf_ids (as_uf (fst s) (snd s)))" "b \<in> set (uf_ids (as_uf (fst s) (snd s)))" by simp_all
  from union_ok [OF ok this] obtain u where
    u: "union (as_uf (fst s) (snd s)) (a, b) = Some u" "uf_inv u" "uf_ids u = fst s"
    "\<forall>x y. same_set u x y \<longleftrightarrow> chained_to s x y \<or> (chained_to s x a \<and> chained_to s b y) \<or> (chained_to s x b \<and> chained_to s a y)"
    by auto
  then show "\<exists>t. chain s (a, b) = Some t \<and> chain_ok t \<and> set (fst t) = set (fst s) \<and>
      (\<forall>x y. chained_to t x y \<longleftrightarrow> chained_to s x y \<or> (chained_to s x a \<and> chained_to s b y) \<or> (chained_to s x b \<and> chained_to s a y))"
    by (intro exI [of _ "(fst s, parent u)"]) (simp add: unite_union inv_parent same_parent)
qed

section \<open>Near pairs\<close>

definition near :: "int \<Rightarrow> cluster_member \<Rightarrow> cluster_member \<Rightarrow> bool" where
  "near threshold m x \<longleftrightarrow> is_near_duplicate (fingerprint m) (fingerprint x) threshold = Inr True"

text \<open>The reference: every pair of members, compared.\<close>

definition near_pairs :: "int \<Rightarrow> cluster_member list \<Rightarrow> (string \<times> string) list" where
  "near_pairs threshold ms =
     concat (map (\<lambda>m. map (\<lambda>x. (signal_id m, signal_id x)) (filter (near threshold m) ms)) ms)"

lemma set_near_pairs:
  "set (near_pairs t ms) = {(signal_id m, signal_id x) | m x. m \<in> set ms \<and> x \<in> set ms \<and> near t m x}"
  by (auto simp: near_pairs_def)

lemma near_decided:
  "0 \<le> t \<Longrightarrow> t \<le> 64 \<Longrightarrow> in_width (fingerprint m) \<Longrightarrow> in_width (fingerprint x) \<Longrightarrow>
     is_near_duplicate (fingerprint m) (fingerprint x) t = Inr (near t m x)"
  by (auto simp: near_def is_near_duplicate_def hamming_def SIMHASH_BITS_def)

lemma near_sym: "near t m x = near t x m"
  by (auto simp: near_def is_near_duplicate_def hamming_def xor.commute)

lemma near_nonzero: "near t m x \<Longrightarrow> fingerprint m \<noteq> 0 \<and> fingerprint x \<noteq> 0"
  by (auto simp: near_def is_near_duplicate_def split: if_splits)

lemma near_sym_set: "(set (near_pairs t ms))\<inverse> = set (near_pairs t ms)"
  unfolding set_near_pairs using near_sym by blast

section \<open>The index\<close>

lemma bucket_simps: "bucket [] k = []" "bucket ((q, ms) # bs) k = (if k = q then ms else bucket bs k)"
  by (simp_all add: bucket_def)

lemma bucket_bucket_add: "set (bucket (bucket_add m index key) k) = set (bucket index k) \<union> (if k = key then {m} else {})"
proof (induction m index key rule: bucket_add.induct)
  case (2 m q ms bs key)
  then show ?case by (cases "q = key"; cases "k = q") (auto simp: bucket_simps)
qed (simp add: bucket_simps)

lemma list_from_image: "set xs \<subseteq> f ` A \<Longrightarrow> \<exists>ys. xs = map f ys \<and> set ys \<subseteq> A"
proof (induction xs)
  case (Cons x xs)
  then obtain a ys where "x = f a" "a \<in> A" "xs = map f ys" "set ys \<subseteq> A" by auto
  then show ?case by (intro exI [of _ "a # ys"]) simp
qed simp

lemma bucket_index_add: "set (bucket (index_add index m keys) k) = set (bucket index k) \<union> (if k \<in> set keys then {m} else {})"
  by (induction keys arbitrary: index) (auto simp: index_add_def bucket_bucket_add)

lemma set_candidates:
  "set (index_candidates index keys (Some m)) = (\<Union>k \<in> set keys. set (bucket index k)) - {m}"
proof -
  have "set (foldl (\<lambda>found key. add_unique found (bucket index key)) f keys) = set f \<union> (\<Union>k \<in> set keys. set (bucket index k))" for f
    by (induction keys arbitrary: f) auto
  then show ?thesis by (auto simp: index_candidates_def)
qed

section \<open>The loop over the members\<close>

definition batch_ok :: "(string list \<Rightarrow> string list) \<Rightarrow> int \<Rightarrow> int \<Rightarrow> int \<Rightarrow> cluster_member list \<Rightarrow> bool" where
  "batch_ok listing threshold bands w ms \<longleftrightarrow>
     (\<forall>xs. set (listing xs) = set xs) \<and> 0 \<le> threshold \<and> threshold < bands \<and> band_width bands = Inr w \<and>
     distinct (map signal_id ms) \<and> list_all (\<lambda>m. new_member m = Inr m) ms"

lemma batchD:
  assumes "batch_ok listing t bands w ms"
  shows "set (listing xs) = set xs" "0 \<le> t" "t < bands" "t \<le> 64" "band_width bands = Inr w" "distinct (map signal_id ms)"
    and "m \<in> set ms \<Longrightarrow> in_width (fingerprint m) \<and> signal_id m \<noteq> []"
proof -
  from assms have b: "t < bands" "band_width bands = Inr w" by (simp_all add: batch_ok_def)
  from band_widthE [OF b(2)] have "nat bands * nat w = 64" "0 < nat w" by (auto simp: SIMHASH_BITS_def)
  then have "nat bands \<le> 64" by (metis One_nat_def Suc_leI mult.right_neutral mult_le_mono2)
  with b show "t \<le> 64" by linarith
qed (use assms in \<open>auto simp: batch_ok_def list_all_iff new_member_def split: if_splits\<close>)

abbreviation member_table :: "cluster_member list \<Rightarrow> string \<Rightarrow> cluster_member option" where
  "member_table ms \<equiv> map_of (map (\<lambda>m. (signal_id m, m)) ms)"

lemma member_table_at: "distinct (map signal_id ms) \<Longrightarrow> m \<in> set ms \<Longrightarrow> member_table ms (signal_id m) = Some m"
  by (intro map_of_is_SomeI) (auto simp: comp_def)

lemma same_id: "distinct (map signal_id ms) \<Longrightarrow> m \<in> set ms \<Longrightarrow> x \<in> set ms \<Longrightarrow> signal_id m = signal_id x \<Longrightarrow> m = x"
  by (simp add: distinct_map inj_on_def)

lemma join_candidates:
  assumes b: "batch_ok listing t bands w ms" and m: "m \<in> set ms"
  shows "set ys \<subseteq> set ms \<Longrightarrow>
    fold_res (join_candidate (length ids) (member_table ms) t m) par (map signal_id ys) =
    found (map_option snd (chained.run (ids, par) (map (\<lambda>y. (signal_id m, signal_id y)) (filter (near t m) ys))))"
proof (induction ys arbitrary: par)
  case Nil
  then show ?case by (simp add: found_def)
next
  case (Cons y ys)
  then have y: "y \<in> set ms" by simp
  have step: "join_candidate (length ids) (member_table ms) t m par (signal_id y) =
      (if near t m y then found (unite_nodes (length ids) par (signal_id m) (signal_id y)) else Inr par)"
    using batchD [OF b] m y
    by (simp add: join_candidate_def member_table_at found_def near_decided raised_def)
  show ?case
  proof (cases "near t m y")
    case False
    with Cons show ?thesis by (simp add: step)
  next
    case True
    show ?thesis
    proof (cases "unite_nodes (length ids) par (signal_id m) (signal_id y)")
      case None
      with True show ?thesis by (simp add: step found_def)
    next
      case (Some p)
      with True Cons show ?thesis by (simp add: step found_def)
    qed
  qed
qed

definition member_keys :: "int \<Rightarrow> int \<Rightarrow> cluster_member \<Rightarrow> string list" where
  "member_keys w bands c = map (band_key (nat w) (fingerprint c)) [0 ..< nat bands]"

definition indexed :: "int \<Rightarrow> int \<Rightarrow> cluster_member list \<Rightarrow> banded_index \<Rightarrow> bool" where
  "indexed w bands ds index \<longleftrightarrow>
     (\<forall>k. set (bucket index k) = signal_id ` {c \<in> set ds. fingerprint c \<noteq> 0 \<and> k \<in> set (member_keys w bands c)})"

definition placed :: "string list \<Rightarrow> int \<Rightarrow> int \<Rightarrow> int \<Rightarrow> cluster_member list \<Rightarrow> parents \<times> banded_index \<Rightarrow> bool" where
  "placed ids t w bands ds st \<longleftrightarrow>
     chain_ok (ids, fst st) \<and> indexed w bands ds (snd st) \<and>
     {(x, y). chained_to (ids, fst st) x y} = (Id_on (set ids) \<union> set (near_pairs t ds))\<^sup>+"

lemma indexed_add:
  assumes "indexed w bands ds index" and "fingerprint m \<noteq> 0"
  shows "indexed w bands (ds @ [m]) (index_add index (signal_id m) (member_keys w bands m))"
  using assms by (auto simp: indexed_def bucket_index_add)

lemma near_pairs_snoc:
  assumes "near t m m \<Longrightarrow> signal_id m \<in> A"
  shows "Id_on A \<union> set (near_pairs t (ds @ [m])) =
    Id_on A \<union> set (near_pairs t ds) \<union>
      ((\<lambda>y. (signal_id m, signal_id y)) ` {y \<in> set ds. near t m y} \<union> ((\<lambda>y. (signal_id m, signal_id y)) ` {y \<in> set ds. near t m y})\<inverse>)"
proof -
  let ?E = "(\<lambda>y. (signal_id m, signal_id y)) ` {y \<in> set ds. near t m y}"
  have "set (near_pairs t (ds @ [m])) = set (near_pairs t ds) \<union> ?E \<union>
      {(signal_id y, signal_id m) | y. y \<in> set ds \<and> near t y m} \<union> {(signal_id m, signal_id m) | y. near t m m}"
    unfolding set_near_pairs by auto
  moreover have "{(signal_id y, signal_id m) | y. y \<in> set ds \<and> near t y m} = ?E\<inverse>"
    using near_sym by blast
  ultimately show ?thesis using assms by auto
qed

lemma place_member_ok:
  assumes b: "batch_ok listing t bands w ms" and ids: "ids = map signal_id ms"
    and split: "set ds \<subseteq> set ms" "m \<in> set ms" "m \<notin> set ds"
    and st: "placed ids t w bands ds st"
  shows "\<exists>st'. place_member listing (length ids) (member_table ms) t bands st m = Inr st' \<and> placed ids t w bands (ds @ [m]) st'"
proof (cases "fingerprint m = 0")
  case True
  then have "set (near_pairs t (ds @ [m])) = set (near_pairs t ds)"
    unfolding set_near_pairs using near_nonzero by auto
  moreover have "indexed w bands (ds @ [m]) (snd st)"
    using st True by (simp add: placed_def indexed_def) (auto simp: image_iff)
  ultimately show ?thesis using st True by (simp add: place_member_def placed_def)
next
  case False
  note bd = batchD [OF b]
  let ?key = "member_keys w bands"
  let ?cands = "index_candidates (snd st) (?key m) (Some (signal_id m))"
  have keys: "simhash_band_keys (fingerprint m) bands = Inr (?key m)" by (simp add: simhash_band_keys_def bd(5) member_keys_def)
  have mem: "set ?cands = signal_id ` {c \<in> set ds. fingerprint c \<noteq> 0 \<and> set (?key c) \<inter> set (?key m) \<noteq> {}}"
  proof -
    have idx: "set (bucket (snd st) k) = signal_id ` {c \<in> set ds. fingerprint c \<noteq> 0 \<and> k \<in> set (?key c)}" for k
      using st by (simp add: placed_def indexed_def)
    have all: "(\<Union>k \<in> K. signal_id ` {c \<in> set ds. fingerprint c \<noteq> 0 \<and> k \<in> set (?key c)}) =
        signal_id ` {c \<in> set ds. fingerprint c \<noteq> 0 \<and> set (?key c) \<inter> K \<noteq> {}}" for K by blast
    have "signal_id m \<notin> signal_id ` set ds"
    proof
      assume "signal_id m \<in> signal_id ` set ds"
      then obtain c where "c \<in> set ds" "signal_id m = signal_id c" by blast
      with same_id [OF bd(6) split(2)] split show False by blast
    qed
    then have "signal_id m \<notin> signal_id ` {c \<in> set ds. fingerprint c \<noteq> 0 \<and> set (?key c) \<inter> set (?key m) \<noteq> {}}" by blast
    then show ?thesis unfolding set_candidates idx all by (rule Diff_insert0 [where B = "{}", simplified])
  qed
  then have "set (listing ?cands) \<subseteq> signal_id ` set ds" unfolding bd(1) by blast
  then obtain ys where ys: "listing ?cands = map signal_id ys" "set ys \<subseteq> set ds"
    using list_from_image by blast
  have near_in: "{y \<in> set ys. near t m y} = {y \<in> set ds. near t m y}"
  proof -
    have "y \<in> set ys" if y: "y \<in> set ds" "near t m y" for y
    proof -
      from y(2) have "near t y m" by (subst near_sym)
      then have "is_near_duplicate (fingerprint y) (fingerprint m) t = Inr True" by (simp only: near_def)
      from near_shares_key [OF bd(5) this bd(3)] have "set (?key y) \<inter> set (?key m) \<noteq> {}"
        unfolding member_keys_def by blast
      with y near_nonzero have "signal_id y \<in> set ?cands" unfolding mem by blast
      then have "signal_id y \<in> set (map signal_id ys)" unfolding ys(1) [symmetric] bd(1) .
      then obtain z where "z \<in> set ys" "signal_id z = signal_id y" by auto
      moreover from this ys(2) y(1) split(1) have "z = y" using same_id [OF bd(6)] by blast
      ultimately show ?thesis by simp
    qed
    with ys(2) show ?thesis by blast
  qed
  let ?ps = "map (\<lambda>y. (signal_id m, signal_id y)) (filter (near t m) ys)"
  have "chain_ok (ids, fst st)" using st by (simp add: placed_def)
  moreover have "set ?ps \<subseteq> set (fst (ids, fst st)) \<times> set (fst (ids, fst st))"
    using ids split ys(2) by auto
  ultimately obtain s where s: "chained.run (ids, fst st) ?ps = Some s" "chain_ok s" "set (fst s) = set ids"
      "{(x, y). chained_to s x y} = ({(x, y). chained_to (ids, fst st) x y} \<union> (set ?ps \<union> (set ?ps)\<inverse>))\<^sup>+"
    using chained.run_closure [of "(ids, fst st)" ?ps] by auto
  have first: "fst s = ids"
  proof -
    have "chained.run v qs = Some u \<Longrightarrow> fst u = fst v" for v u qs
      by (induction qs arbitrary: v) (auto split: option.splits)
    from this [OF s(1)] show ?thesis by simp
  qed
  have pairs: "set ?ps = (\<lambda>y. (signal_id m, signal_id y)) ` {y \<in> set ds. near t m y}"
    unfolding near_in [symmetric] by auto
  have "{(x, y). chained_to (ids, snd s) x y} =
      ((Id_on (set ids) \<union> set (near_pairs t ds))\<^sup>+ \<union> (set ?ps \<union> (set ?ps)\<inverse>))\<^sup>+"
    using s(4) st first by (metis placed_def prod.collapse fst_conv)
  also have "\<dots> = (Id_on (set ids) \<union> set (near_pairs t ds) \<union> (set ?ps \<union> (set ?ps)\<inverse>))\<^sup>+"
    by (rule chained.trancl_absorb)
  also have "\<dots> = (Id_on (set ids) \<union> set (near_pairs t (ds @ [m])))\<^sup>+"
    unfolding pairs using near_pairs_snoc [of t m "set ids" ds] ids split(2) by simp
  finally have cls: "{(x, y). chained_to (ids, snd s) x y} = (Id_on (set ids) \<union> set (near_pairs t (ds @ [m])))\<^sup>+" .
  have "fold_res (join_candidate (length ids) (member_table ms) t m) (fst st) (listing ?cands) = Inr (snd s)"
    unfolding ys(1) using join_candidates [OF b split(2), of ys ids "fst st"] ys(2) split(1) s(1)
    by (simp add: found_def)
  then have "place_member listing (length ids) (member_table ms) t bands st m =
      Inr (snd s, index_add (snd st) (signal_id m) (?key m))"
    using False by (simp add: place_member_def keys raised_def)
  moreover have "placed ids t w bands (ds @ [m]) (snd s, index_add (snd st) (signal_id m) (?key m))"
    using cls s(2) first indexed_add [OF _ False] st by (simp add: placed_def)
  ultimately show ?thesis by blast
qed

lemma place_members_ok:
  assumes b: "batch_ok listing t bands w ms" and ids: "ids = map signal_id ms"
  shows "ms = ds @ es \<Longrightarrow> placed ids t w bands ds st \<Longrightarrow>
    \<exists>st'. fold_res (place_member listing (length ids) (member_table ms) t bands) st es = Inr st' \<and> placed ids t w bands ms st'"
proof (induction es arbitrary: ds st)
  case Nil
  then show ?case by simp
next
  case (Cons m es)
  have "distinct ms" using batchD(6) [OF b] by (simp add: distinct_map)
  with Cons.prems(1) have "set ds \<subseteq> set ms" "m \<in> set ms" "m \<notin> set ds" by auto
  from place_member_ok [OF b ids this Cons.prems(2)] obtain st' where
    st': "place_member listing (length ids) (member_table ms) t bands st m = Inr st'" "placed ids t w bands (ds @ [m]) st'" by blast
  from Cons.IH [OF _ st'(2)] Cons.prems(1) st'(1) show ?case by simp
qed

section \<open>Groups\<close>

lemma grouped_fold:
  "chain_ok (ids, par) \<Longrightarrow> set (map signal_id ms) \<subseteq> set ids \<Longrightarrow>
     group_members (length ids) par g ms =
       Some (foldl (\<lambda>g m. add_member (rep (as_uf ids par) (signal_id m)) m g) g ms)"
proof (induction ms arbitrary: par g)
  case Nil
  then show ?case by simp
next
  case (Cons m ms)
  then have inv: "uf_inv (as_uf ids par)" and "signal_id m \<in> set (uf_ids (as_uf ids par))" by simp_all
  from find_root_ok [OF this] obtain r u where
    f: "find_root (as_uf ids par) (signal_id m) = Some (r, u)" "roots par (signal_id m) r"
      "roots (parent u) = roots par" "uf_ids u = ids" "uf_inv u" by auto
  then obtain p where p: "find_node (length ids) par (signal_id m) = Some (r, p)" "u = as_uf ids p"
    by (auto simp: find_root_node)
  have "rep (as_uf ids p) = rep (as_uf ids par)" using f(3) p(2) by (intro ext) (simp add: Union_Find.rep_def)
  moreover have "rep (as_uf ids par) (signal_id m) = r" using f(2) by (intro rep_eq) simp
  ultimately show ?case using Cons.IH [of p] Cons.prems f(5) p by simp
qed

lemma group_key: "groups_inv f xs g \<Longrightarrow> p \<in> set g \<Longrightarrow> x \<in> set (snd p) \<Longrightarrow> f x = fst p"
  by (cases p) (auto simp: groups_inv_def)

lemma groups_classes:
  assumes g: "groups_inv f xs g" and x: "x \<in> set xs" and y: "y \<in> set xs"
  shows "(\<exists>ms \<in> set (map snd g). x \<in> set ms \<and> y \<in> set ms) \<longleftrightarrow> f x = f y"
proof
  assume "\<exists>ms \<in> set (map snd g). x \<in> set ms \<and> y \<in> set ms"
  then obtain p where "p \<in> set g" "x \<in> set (snd p)" "y \<in> set (snd p)" by auto
  then show "f x = f y" using group_key [OF g] by simp
next
  assume eq: "f x = f y"
  have "set (concat (map snd g)) = set xs" using g unfolding groups_inv_def by (metis set_mset_mset)
  then have "z \<in> set xs \<Longrightarrow> \<exists>p \<in> set g. z \<in> set (snd p)" for z by (intro in_concat_snd) (simp only:)
  with x y obtain p q where pq: "p \<in> set g" "x \<in> set (snd p)" "q \<in> set g" "y \<in> set (snd q)" by blast
  with eq group_key [OF g] have "fst p = fst q" by metis
  moreover have "inj_on fst (set g)" using g by (simp add: groups_inv_def distinct_map)
  ultimately have "p = q" using pq by (auto dest: inj_onD)
  with pq show "\<exists>ms \<in> set (map snd g). x \<in> set ms \<and> y \<in> set ms" by auto
qed

definition cluster_of :: "(string \<Rightarrow> string) \<Rightarrow> cluster_member list \<Rightarrow> cluster" where
  "cluster_of sha g =
     (let ordered = sort_key election_key g; c = signal_id (hd ordered) in
      \<lparr>cluster_id = ''dc_'' @ take 12 (sha c), canonical_id = c, members = ordered\<rparr>)"

lemma sort_key_nil: "sort_key f xs = [] \<longleftrightarrow> xs = []"
  by (metis length_0_conv length_sort)

lemma hd_sort_key: "xs \<noteq> [] \<Longrightarrow> hd (sort_key f xs) \<in> set xs"
  by (metis hd_in_set set_sort sort_key_nil)

lemma make_cluster_of:
  assumes "g \<noteq> []" and "\<forall>m \<in> set g. signal_id m \<noteq> []"
  shows "make_cluster sha g = Inr (cluster_of sha g)"
  using hd_sort_key [OF assms(1), of election_key] assms(2)
  by (auto simp: make_cluster_def cluster_of_def cluster_id_for_def Let_def)

lemma make_clusters_of:
  assumes "\<forall>g \<in> set gs. g \<noteq> [] \<and> (\<forall>m \<in> set g. signal_id m \<noteq> [])"
  shows "make_clusters sha gs = Inr (sort_key (\<lambda>c. election_key (hd (members c))) (map (cluster_of sha) gs))"
proof -
  have "fold_res (\<lambda>cs g. and_then (make_cluster sha g) (\<lambda>c. Inr (cs @ [c]))) acc gs = Inr (acc @ map (cluster_of sha) gs)" for acc
    using assms by (induction gs arbitrary: acc) (auto simp: make_cluster_of)
  then show ?thesis by (simp add: make_clusters_def)
qed

section \<open>The clusters\<close>

text \<open>What a run computes, as the sorted clusters of a grouping of the batch by its near pairs.\<close>

definition near_grouping :: "int \<Rightarrow> cluster_member list \<Rightarrow> cluster_member list list \<Rightarrow> bool" where
  "near_grouping t ms gs \<longleftrightarrow>
     mset (concat gs) = mset ms \<and> [] \<notin> set gs \<and>
     (\<forall>x \<in> set ms. \<forall>y \<in> set ms. (\<exists>g \<in> set gs. x \<in> set g \<and> y \<in> set g) \<longleftrightarrow>
        connected (near_pairs t ms) (signal_id x) (signal_id y))"

lemma closure_connected:
  assumes "x \<in> A" and "y \<in> A"
  shows "(x, y) \<in> (Id_on A \<union> set (near_pairs t ms))\<^sup>+ \<longleftrightarrow> connected (near_pairs t ms) x y"
proof -
  let ?E = "set (near_pairs t ms)"
  have c: "connected (near_pairs t ms) x y \<longleftrightarrow> (x, y) \<in> ?E\<^sup>*" by (simp add: connected_def near_sym_set)
  show ?thesis unfolding c
  proof
    assume "(x, y) \<in> (Id_on A \<union> ?E)\<^sup>+"
    then have "(x, y) \<in> (Id_on A \<union> ?E)\<^sup>*" by (rule trancl_into_rtrancl)
    moreover have "(Id_on A \<union> ?E)\<^sup>* \<subseteq> ?E\<^sup>*" by (rule rtrancl_subset_rtrancl) auto
    ultimately show "(x, y) \<in> ?E\<^sup>*" by blast
  next
    assume "(x, y) \<in> ?E\<^sup>*"
    then have "x = y \<or> (x, y) \<in> ?E\<^sup>+" by (metis rtranclD)
    moreover have "?E\<^sup>+ \<subseteq> (Id_on A \<union> ?E)\<^sup>+" by (rule trancl_mono_subset) auto
    moreover have "x = y \<Longrightarrow> (x, y) \<in> (Id_on A \<union> ?E)\<^sup>+" using assms by auto
    ultimately show "(x, y) \<in> (Id_on A \<union> ?E)\<^sup>+" by blast
  qed
qed

lemma start_placed: "distinct ids \<Longrightarrow> placed ids t w bands [] (\<lambda>x. if x \<in> set ids then Some x else None, [])"
proof -
  assume d: "distinct ids"
  have s: "same_set (as_uf ids (parent (new_union_find ids))) = same_set (new_union_find ids)" by (rule same_parent)
  have "uf_inv (as_uf ids (parent (new_union_find ids)))"
    using new_union_find_ok [of ids] ordered_unique_id [OF d] by (subst inv_parent) auto
  moreover have "{(x, y). same_set (new_union_find ids) x y} = Id_on (set ids)" using new_union_find_ok [of ids] by auto
  moreover have "parent (new_union_find ids) = (\<lambda>x. if x \<in> set ids then Some x else None)" by (simp add: new_union_find_def)
  moreover have "(Id_on (set ids))\<^sup>+ = Id_on (set ids)" by (rule trancl_id) (auto simp: trans_def)
  ultimately show ?thesis using s
    by (simp add: placed_def indexed_def bucket_simps near_pairs_def del: as_uf_sel)
qed

lemma assign_grouping:
  assumes b: "batch_ok listing t bands w ms"
  shows "\<exists>gs. assign_clusters sha listing t bands ms =
      Inr (sort_key (\<lambda>c. election_key (hd (members c))) (map (cluster_of sha) gs)) \<and> near_grouping t ms gs"
proof -
  note bd = batchD [OF b]
  let ?ids = "map signal_id ms"
  from place_members_ok [OF b refl _ start_placed [OF bd(6)], of ms] obtain par index where
    st: "fold_res (place_member listing (length ?ids) (member_table ms) t bands)
        (\<lambda>x. if x \<in> set ?ids then Some x else None, []) ms = Inr (par, index)" "placed ?ids t w bands ms (par, index)"
    by auto
  let ?f = "\<lambda>m. rep (as_uf ?ids par) (signal_id m)"
  let ?g = "foldl (\<lambda>g m. add_member (?f m) m g) [] ms"
  have ok: "chain_ok (?ids, par)" using st(2) by (simp add: placed_def)
  from grouped_fold [OF ok, of ms "[]"] have g: "group_members (length ?ids) par [] ms = Some ?g" by simp
  have inv: "groups_inv ?f ms ?g" by (rule groups_inv_fold)
  have parts: "mset (concat (map snd ?g)) = mset ms" "[] \<notin> set (map snd ?g)"
    using inv by (auto simp: groups_inv_def)
  have "g \<noteq> [] \<and> (\<forall>m \<in> set g. signal_id m \<noteq> [])" if "g \<in> set (map snd ?g)" for g
  proof -
    have "set g \<subseteq> set (concat (map snd ?g))" using that by (simp only: set_concat) blast
    also have "\<dots> = set ms" using parts(1) by (rule mset_eq_setD)
    finally have sub: "set g \<subseteq> set ms" .
    have "g \<noteq> []" using that parts(2) by metis
    with sub bd(7) show ?thesis by blast
  qed
  then have mk: "make_clusters sha (map snd ?g) =
      Inr (sort_key (\<lambda>c. election_key (hd (members c))) (map (cluster_of sha) (map snd ?g)))"
    by (intro make_clusters_of) blast
  have "near_grouping t ms (map snd ?g)"
  proof -
    have "(\<exists>g \<in> set (map snd ?g). x \<in> set g \<and> y \<in> set g) \<longleftrightarrow> connected (near_pairs t ms) (signal_id x) (signal_id y)"
      if xy: "x \<in> set ms" "y \<in> set ms" for x y
    proof -
      have i: "signal_id x \<in> set ?ids" "signal_id y \<in> set ?ids" using xy by simp_all
      have "?f x = ?f y \<longleftrightarrow> same_set (as_uf ?ids par) (signal_id x) (signal_id y)"
        using ok i by (intro rep_same) simp_all
      also have "\<dots> \<longleftrightarrow> (signal_id x, signal_id y) \<in> {(x, y). chained_to (?ids, par) x y}" by simp
      also have "\<dots> \<longleftrightarrow> connected (near_pairs t ms) (signal_id x) (signal_id y)"
        using st(2) closure_connected [OF i, of t ms] unfolding placed_def by (simp only: fst_conv)
      finally show ?thesis using groups_classes [OF inv xy] by simp
    qed
    with parts show ?thesis by (simp add: near_grouping_def)
  qed
  moreover have "assign_clusters sha listing t bands ms =
      Inr (sort_key (\<lambda>c. election_key (hd (members c))) (map (cluster_of sha) (map snd ?g)))"
    using st(1) g mk bd by (simp add: assign_clusters_def raised_def found_def)
  ultimately show ?thesis by blast
qed

end
