(* ===== verification/Near_Duplicate_Laws.thy ===== *)
theory Near_Duplicate_Laws
  imports Near_Duplicates
begin

text \<open>
  What clustering promises: the classes of the near pairs and nothing else, every member
  kept, one canonical member each, and a result that depends on the set of members alone. With the inputs
  it refuses and a batch on which the laws are applied.
\<close>

section \<open>Groups as sets\<close>

lemma grouping_distinct:
  assumes "near_grouping t ms gs" and "distinct ms"
  shows "distinct (concat gs)" "set (concat gs) = set ms"
proof -
  have m: "mset (concat gs) = mset ms" using assms(1) by (simp only: near_grouping_def)
  show "distinct (concat gs)" using mset_eq_imp_distinct_iff [OF m] assms(2) by simp
  show "set (concat gs) = set ms" using m by (rule mset_eq_setD)
qed

lemma group_unique:
  assumes "near_grouping t ms gs" and "distinct ms" and "g \<in> set gs" "h \<in> set gs" and "x \<in> set g" "x \<in> set h"
  shows "g = h"
  using grouping_distinct(1) [OF assms(1,2)] assms(3-) by (auto simp: distinct_concat_iff)

lemma group_class:
  assumes g: "near_grouping t ms gs" and d: "distinct ms" and "h \<in> set gs" and "x \<in> set h"
  shows "set h = {y \<in> set ms. connected (near_pairs t ms) (signal_id x) (signal_id y)}"
proof -
  have sub: "set k \<subseteq> set ms" if "k \<in> set gs" for k using grouping_distinct(2) [OF g d] that by auto
  then have x: "x \<in> set ms" using assms(3,4) by blast
  have rel: "(\<exists>k \<in> set gs. x \<in> set k \<and> y \<in> set k) \<longleftrightarrow> connected (near_pairs t ms) (signal_id x) (signal_id y)"
    if "y \<in> set ms" for y using g x that by (simp add: near_grouping_def)
  have "y \<in> set h \<longleftrightarrow> y \<in> set ms \<and> (\<exists>k \<in> set gs. x \<in> set k \<and> y \<in> set k)" for y
    using sub group_unique [OF g d] assms(3,4) by blast
  with rel show ?thesis by blast
qed

lemma election_key_inj: "distinct (map signal_id ms) \<Longrightarrow> inj_on election_key (set ms)"
  by (auto simp: inj_on_def election_key_def intro: same_id)

lemma sort_key_set:
  assumes "inj_on f (set xs)" and "set xs = set ys" and "distinct xs" and "distinct ys"
  shows "sort_key f xs = sort_key f ys"
proof (rule map_sorted_distinct_set_unique [of f])
  show "inj_on f (set (sort_key f xs) \<union> set (sort_key f ys))" using assms(1,2) by simp
  show "distinct (map f (sort_key f xs))" "distinct (map f (sort_key f ys))"
    using assms by (simp_all add: distinct_map)
qed (use assms(2) in simp_all)

lemma mset_concat_perm:
  assumes "mset xs = mset ys"
  shows "mset (concat (map f xs)) = mset (concat (map f ys))"
proof -
  have "mset (map mset (map f xs)) = mset (map mset (map f ys))" using assms by simp
  then have "sum_mset (mset (map mset (map f xs))) = sum_mset (mset (map mset (map f ys)))" by (rule arg_cong)
  then show ?thesis by (simp only: mset_concat sum_mset_sum_list)
qed

lemma grouping_agree:
  assumes g: "near_grouping t ms gs" and g': "near_grouping t ms' gs'" and same: "mset ms = mset ms'"
    and d: "distinct (map signal_id ms)"
  shows "cluster_of sha ` set gs \<subseteq> cluster_of sha ` set gs'"
proof (rule image_subsetI)
  fix h assume h: "h \<in> set gs"
  have dm: "distinct ms" using d by (simp add: distinct_map)
  have dm': "distinct ms'" using dm mset_eq_imp_distinct_iff [OF same] by simp
  have sets: "set ms = set ms'" using same by (rule mset_eq_setD)
  have "h \<noteq> []" using g h by (auto simp: near_grouping_def)
  then obtain x where x: "x \<in> set h" by (cases h) auto
  with h have "x \<in> set (concat gs)" by auto
  then have "x \<in> set (concat gs')" using grouping_distinct(2) [OF g dm] grouping_distinct(2) [OF g' dm'] sets by (simp only:)
  then obtain h' where h': "h' \<in> set gs'" "x \<in> set h'" by auto
  have "set (near_pairs t ms) = set (near_pairs t ms')" unfolding set_near_pairs sets ..
  then have "set h = set h'"
    using group_class [OF g dm h x] group_class [OF g' dm' h'] sets by (simp add: connected_def)
  moreover have "distinct h" "distinct h'"
    using grouping_distinct(1) [OF g dm] grouping_distinct(1) [OF g' dm'] h h'(1) by (auto simp: distinct_concat_iff)
  moreover have "inj_on election_key (set h)"
  proof (rule inj_on_subset [OF election_key_inj [OF d]])
    show "set h \<subseteq> set ms" using grouping_distinct(2) [OF g dm] h by auto
  qed
  ultimately have "sort_key election_key h = sort_key election_key h'" by (intro sort_key_set)
  then have "cluster_of sha h = cluster_of sha h'" by (simp add: cluster_of_def)
  with h'(1) show "cluster_of sha h \<in> cluster_of sha ` set gs'" by blast
qed

abbreviation first_key :: "cluster \<Rightarrow> instant \<times> pyfloat \<times> string" where
  "first_key c \<equiv> election_key (hd (members c))"

lemma first_key_inj:
  assumes g: "near_grouping t ms gs" and d: "distinct (map signal_id ms)"
  shows "inj_on first_key (cluster_of sha ` set gs)" "distinct (map (cluster_of sha) gs)"
proof -
  have dm: "distinct ms" using d by (simp add: distinct_map)
  have hd: "hd (members (cluster_of sha h)) \<in> set h" if "h \<in> set gs" for h
    using that g hd_sort_key [of h election_key] by (auto simp: cluster_of_def near_grouping_def Let_def)
  have eq: "h = k" if hk: "h \<in> set gs" "k \<in> set gs" and "first_key (cluster_of sha h) = first_key (cluster_of sha k)" for h k
  proof -
    have "hd (members (cluster_of sha h)) \<in> set ms" "hd (members (cluster_of sha k)) \<in> set ms"
      using hd hk grouping_distinct(2) [OF g dm] by auto
    with that(3) have "hd (members (cluster_of sha h)) = hd (members (cluster_of sha k))"
      using election_key_inj [OF d] by (auto dest: inj_onD)
    with hd hk show ?thesis using group_unique [OF g dm hk] by metis
  qed
  then show "inj_on first_key (cluster_of sha ` set gs)" by (auto simp: inj_on_def)
  have "distinct (removeAll [] gs)" using grouping_distinct(1) [OF g dm] by (simp add: distinct_concat_iff)
  moreover have "removeAll [] gs = gs" using g by (simp add: near_grouping_def)
  moreover have "inj_on (cluster_of sha) (set gs)" by (rule inj_onI) (metis eq)
  ultimately show "distinct (map (cluster_of sha) gs)" by (simp add: distinct_map)
qed

section \<open>The laws\<close>

text \<open>
  C28. Clusters are the classes of the near-duplicate relation: for valid members with distinct ids, a threshold
  below the number of bands and any order of walking a set, clustering returns, and two members share
  a cluster if and only if a chain of pairs, each within the threshold when compared directly, leads
  from one to the other. The banded index changes nothing against comparing every pair.
\<close>

theorem clusters_are_chains_of_near_pairs:
  assumes "batch_ok listing t bands w ms"
  shows "\<exists>cs. assign_clusters sha listing t bands ms = Inr cs \<and>
    (\<forall>x \<in> set ms. \<forall>y \<in> set ms. (\<exists>c \<in> set cs. x \<in> set (members c) \<and> y \<in> set (members c)) \<longleftrightarrow>
      connected (near_pairs t ms) (signal_id x) (signal_id y))"
proof -
  from assign_grouping [OF assms, of sha] obtain gs where
    gs: "assign_clusters sha listing t bands ms = Inr (sort_key first_key (map (cluster_of sha) gs))" "near_grouping t ms gs" by blast
  have "(\<exists>c \<in> set (sort_key first_key (map (cluster_of sha) gs)). x \<in> set (members c) \<and> y \<in> set (members c)) \<longleftrightarrow>
      (\<exists>g \<in> set gs. x \<in> set g \<and> y \<in> set g)" for x y
    by (simp add: cluster_of_def Let_def)
  with gs show ?thesis by (simp add: near_grouping_def)
qed

text \<open>
  C38. Nothing is discarded: the members of the clusters together are the members given, each once;
  every cluster is ordered by the election, named after its canonical member, which is the elected one; and
  its assignments name every member, point all but the canonical one at it, and agree on the cluster.
\<close>

theorem clustering_discards_nothing:
  assumes "batch_ok listing t bands w ms" and "assign_clusters sha listing t bands ms = Inr cs"
  shows "mset (concat (map members cs)) = mset ms \<and>
    (\<forall>c \<in> set cs. members c \<noteq> [] \<and> sorted (map election_key (members c)) \<and>
      canonical_id c = signal_id (hd (members c)) \<and> elect_canonical (members c) = Inr (hd (members c)) \<and>
      map as_signal_id (assignments c) = map signal_id (members c) \<and>
      (\<forall>a \<in> set (assignments c). as_cluster_id a = cluster_id c \<and>
        (is_canonical a \<longleftrightarrow> as_signal_id a = canonical_id c) \<and>
        (\<not> is_canonical a \<longrightarrow> duplicate_of a = Some (canonical_id c))))"
proof -
  from assign_grouping [OF assms(1), of sha] assms(2) obtain gs where
    gs: "cs = sort_key first_key (map (cluster_of sha) gs)" "near_grouping t ms gs" by auto
  have "mset (concat (map members cs)) = mset (concat (map members (map (cluster_of sha) gs)))"
    unfolding gs(1) by (rule mset_concat_perm) simp
  also have "\<dots> = mset (concat gs)"
    by (induction gs) (simp_all add: cluster_of_def Let_def)
  finally have all: "mset (concat (map members cs)) = mset ms" using gs(2) by (simp add: near_grouping_def)
  have least: "sorted (map election_key (m # xs)) \<Longrightarrow> least_member m xs = m" for m xs
    by (induction xs) (auto simp: not_less)
  have elect: "elect_canonical xs = Inr (hd xs)" if "xs \<noteq> []" "sorted (map election_key xs)" for xs
    using that least by (cases xs) (auto simp: elect_canonical_def)
  have "members c \<noteq> [] \<and> sorted (map election_key (members c)) \<and> canonical_id c = signal_id (hd (members c))"
    if "c \<in> set cs" for c
    using that gs by (auto simp: cluster_of_def Let_def near_grouping_def sort_key_nil)
  with all elect show ?thesis
    by (auto simp: assignments_def is_canonical_def comp_def)
qed

text \<open>
  C29. The result is a function of the set of members: the same members in another order, with another
  order of walking sets, such as another interpreter has, give the same clusters in the same order.
\<close>

theorem clusters_ignore_order:
  assumes "batch_ok listing t bands w ms" and "\<And>xs. set (listing' xs) = set xs" and "mset ms' = mset ms"
  shows "assign_clusters sha listing' t bands ms' = assign_clusters sha listing t bands ms"
proof -
  have sets: "set ms' = set ms" using assms(3) by (rule mset_eq_setD)
  have d: "distinct (map signal_id ms)" using assms(1) by (simp add: batch_ok_def)
  have "distinct (map signal_id ms')"
    using d assms(3) by (metis mset_eq_imp_distinct_iff mset_map)
  then have b': "batch_ok listing' t bands w ms'" using assms(1,2) sets by (simp add: batch_ok_def list_all_iff)
  from assign_grouping [OF assms(1), of sha] obtain gs where
    gs: "assign_clusters sha listing t bands ms = Inr (sort_key first_key (map (cluster_of sha) gs))" "near_grouping t ms gs" by blast
  from assign_grouping [OF b', of sha] obtain gs' where
    gs': "assign_clusters sha listing' t bands ms' = Inr (sort_key first_key (map (cluster_of sha) gs'))" "near_grouping t ms' gs'" by blast
  have "set (map (cluster_of sha) gs) = set (map (cluster_of sha) gs')"
    using grouping_agree [OF gs(2) gs'(2) assms(3) [symmetric] d, of sha] grouping_agree [OF gs'(2) gs(2) assms(3) b' [unfolded batch_ok_def, THEN conjunct2, THEN conjunct2, THEN conjunct2, THEN conjunct2, THEN conjunct1], of sha]
    by (simp add: subset_antisym)
  then have "sort_key first_key (map (cluster_of sha) gs) = sort_key first_key (map (cluster_of sha) gs')"
    using first_key_inj [OF gs(2) d, of sha] first_key_inj(2) [OF gs'(2) \<open>distinct (map signal_id ms')\<close>, of sha]
    by (intro sort_key_set) simp_all
  with gs(1) gs'(1) show ?thesis by simp
qed

lemma divisor_16: "(n :: nat) dvd 16 \<Longrightarrow> n \<in> {1, 2, 4, 8, 16}"
proof -
  assume n: "n dvd 16"
  have "list_all (\<lambda>k :: nat. k dvd 16 \<longrightarrow> k \<in> {1, 2, 4, 8, 16}) [0 ..< 17]" by code_simp
  moreover have "n \<le> 16" using n by (rule dvd_imp_le) simp
  then have "n \<in> set [0 ..< 17]" by simp
  ultimately show ?thesis using n unfolding list_all_iff by blast
qed

lemma band_width_iff: "(\<exists>w. band_width bands = Inr w) \<longleftrightarrow> bands \<in> {1, 2, 4, 8, 16}"
proof
  assume "\<exists>w. band_width bands = Inr w"
  then obtain w where "band_width bands = Inr w" by blast
  from band_widthE [OF this] have e: "nat bands * nat w = 64" "4 dvd nat w" "0 < bands" by (simp_all add: SIMHASH_BITS_def)
  then obtain k where k: "nat bands * (4 * k) = 64" by (auto simp: dvd_def)
  then have nk: "nat bands * k = 16" by (simp add: mult.commute)
  then have "nat bands dvd 16" by (metis dvd_triv_left)
  then have "nat bands \<in> {1, 2, 4, 8, 16}" by (rule divisor_16)
  with e(3) show "bands \<in> {1, 2, 4, 8, 16}" by auto
qed (auto simp: band_width_def SIMHASH_BITS_def)

text \<open>
  What clustering refuses: a threshold that the bands cannot cover, a number of bands that does not
  split the fingerprint into whole hexadecimal digits, and an id given twice; each with an exception and
  before any member is compared. The bands it accepts are one, two, four, eight and sixteen.
\<close>

theorem clustering_refuses:
  assumes "t \<ge> bands \<or> bands \<notin> {1, 2, 4, 8, 16} \<or> \<not> distinct (map signal_id ms)"
  shows "assign_clusters sha listing t bands ms = Inl (Raised ValueError)"
proof (cases "t \<ge> bands")
  case True
  then show ?thesis by (simp add: assign_clusters_def)
next
  case False
  show ?thesis
  proof (cases "band_width bands")
    case (Inl e)
    then have "e = ValueError" by (auto simp: band_width_def Let_def split: if_splits)
    with False Inl show ?thesis by (simp add: assign_clusters_def raised_def)
  next
    case (Inr w)
    with band_width_iff [of bands] False assms have "\<not> distinct (map signal_id ms)" by blast
    with False Inr show ?thesis by (simp add: assign_clusters_def raised_def)
  qed
qed

section \<open>Instances\<close>

text \<open>
  A batch of five: two copies of a story, a rewrite of the second, an unrelated one and a post without text,
  on which the laws are applied. And the limits of the code: what as many bits as bands do,
  that a chain joins the ends of a drift, and a key that is not canonical.
\<close>

definition story :: "string \<Rightarrow> instant \<Rightarrow> int \<Rightarrow> cluster_member" where
  "story i t fp = \<lparr>signal_id = i, happened = t, fingerprint = fp, member_confidence = 1 / 2, member_platform = None\<rparr>"

definition wire :: "cluster_member list" where
  "wire = [story ''b'' 20 255, story ''a'' 10 248, story ''c'' 30 4095, story ''d'' 5 1099511627520, story ''e'' 1 0]"

lemma wire_batch: "batch_ok id 3 4 16 wire"
  by (simp add: batch_ok_def wire_def story_def new_member_def in_width_def band_width_def SIMHASH_BITS_def)

lemma wire_near: "near 3 (story ''b'' 20 255) (story ''a'' 10 248)"
  by (simp only: near_def) code_simp

theorem clusters_are_chains_of_near_pairs_witness:
  "\<exists>cs. assign_clusters id id 3 4 wire = Inr cs \<and>
     (\<exists>c \<in> set cs. story ''b'' 20 255 \<in> set (members c) \<and> story ''a'' 10 248 \<in> set (members c))"
proof -
  from clusters_are_chains_of_near_pairs [OF wire_batch, of id] obtain cs where
    cs: "assign_clusters id id 3 4 wire = Inr cs"
    and rel: "\<forall>x \<in> set wire. \<forall>y \<in> set wire. (\<exists>c \<in> set cs. x \<in> set (members c) \<and> y \<in> set (members c)) \<longleftrightarrow>
      connected (near_pairs 3 wire) (signal_id x) (signal_id y)" by blast
  have "(''b'', ''a'') \<in> set (near_pairs 3 wire)"
  proof -
    have "story ''b'' 20 255 \<in> set wire" "story ''a'' 10 248 \<in> set wire" by (simp_all add: wire_def)
    moreover have "signal_id (story ''b'' 20 255) = ''b''" "signal_id (story ''a'' 10 248) = ''a''" by (simp_all add: story_def)
    ultimately show ?thesis unfolding set_near_pairs using wire_near by (intro CollectI) metis
  qed
  then have "connected (near_pairs 3 wire) ''b'' ''a''" by (auto simp: connected_def)
  moreover have "story ''b'' 20 255 \<in> set wire" "story ''a'' 10 248 \<in> set wire" by (simp_all add: wire_def)
  then have "(\<exists>c \<in> set cs. story ''b'' 20 255 \<in> set (members c) \<and> story ''a'' 10 248 \<in> set (members c)) \<longleftrightarrow>
      connected (near_pairs 3 wire) (signal_id (story ''b'' 20 255)) (signal_id (story ''a'' 10 248))"
    using rel by blast
  moreover have "signal_id (story i t fp) = i" for i t fp by (simp add: story_def)
  ultimately show ?thesis using cs by simp
qed

lemma wire_clusters:
  "map_sum id (map (\<lambda>c. (canonical_id c, map signal_id (members c)))) (assign_clusters id id 3 4 wire) =
     Inr [(''e'', [''e'']), (''d'', [''d'']), (''a'', [''a'', ''b'']), (''c'', [''c''])]"
  by code_simp

theorem clustering_discards_nothing_witness:
  "\<exists>cs. assign_clusters id id 3 4 wire = Inr cs \<and> mset (concat (map members cs)) = mset wire"
proof -
  from wire_clusters obtain cs where cs: "assign_clusters id id 3 4 wire = Inr cs"
    by (cases "assign_clusters id id 3 4 wire") auto
  from clustering_discards_nothing [OF wire_batch cs] cs show ?thesis by blast
qed

theorem clusters_ignore_order_witness:
  "assign_clusters id rev 3 4 (rev wire) = assign_clusters id id 3 4 wire"
  by (rule clusters_ignore_order [OF wire_batch]) simp_all

theorem clustering_refuses_witness:
  "assign_clusters id id 4 4 wire = Inl (Raised ValueError) \<and> assign_clusters id id 3 5 wire = Inl (Raised ValueError) \<and>
   assign_clusters id id 3 4 (wire @ wire) = Inl (Raised ValueError)"
proof -
  have "\<not> distinct (map signal_id (wire @ wire))" by (simp add: wire_def)
  then show ?thesis
    using clustering_refuses [of 4 4 wire id id] clustering_refuses [of 5 3 wire id id]
      clustering_refuses [of 4 3 "wire @ wire" id id] by simp
qed

theorem edits_flip_close_votes_only_witness:
  "\<bar>tally (\<lambda>f. if f = ''y'' then 1 else 0) 0 [''x'']\<bar> \<le> 2"
proof -
  let ?d = "\<lambda>f. if f = ''y'' then 1 else 0 :: 64 word"
  have "bit (simhash_features ?d [''x'']) 0 \<noteq> bit (simhash_features ?d [''y'']) 0"
    by (simp add: bit_simhash_features tally_def ballot_def feature_hash64_def SIMHASH_BITS_def)
  from edits_flip_close_votes_only [OF this] show ?thesis by simp
qed

theorem banding_misses_nothing_witness:
  "\<exists>ka kb. simhash_band_keys 255 4 = Inr ka \<and> simhash_band_keys 248 4 = Inr kb \<and> set ka \<inter> set kb \<noteq> {}"
proof -
  have k: "simhash_band_keys 255 4 = Inr (map (band_key 16 255) [0 ..< 4])"
    "simhash_band_keys 248 4 = Inr (map (band_key 16 248) [0 ..< 4])"
    by (simp_all add: simhash_band_keys_def band_width_def SIMHASH_BITS_def)
  from wire_near have "is_near_duplicate 255 248 3 = Inr True" by (simp add: near_def story_def)
  moreover have "(3 :: int) < 4" by simp
  ultimately show ?thesis using banding_misses_nothing [OF k, of 3] k by blast
qed

text \<open>As many differing bits as bands may touch every band: at four the pair shares no key.\<close>

theorem four_bits_touch_four_bands:
  "is_near_duplicate 844437815230467 562958543486978 4 = Inr True \<and>
   (\<forall>k \<in> set (map (band_key 16 844437815230467) [0 ..< 4]). k \<notin> set (map (band_key 16 562958543486978) [0 ..< 4]))"
  by code_simp

text \<open>A drift of three bits at a time: the ends of the chain are six bits apart and in one cluster.\<close>

theorem chains_join_their_ends:
  "is_near_duplicate 4095 511 3 = Inr True \<and> is_near_duplicate 511 63 3 = Inr True \<and>
   is_near_duplicate 4095 63 3 = Inr False \<and>
   map_sum id (map (\<lambda>c. map signal_id (members c)))
     (assign_clusters id id 3 4 [story ''a'' 1 4095, story ''b'' 2 511, story ''c'' 3 63]) = Inr [[''a'', ''b'', ''c'']]"
  by code_simp

end
