(* ===== verification/Dedup_Store.thy ===== *)
theory Dedup_Store
  imports Prelude "HOL-Library.AList"
begin

text \<open>
  \<open>connectors/dedup/store.py\<close>: the seen-set over Redis and its twin in memory. The client
  of Redis is an argument, the protocol \<open>RedisClient\<close>: three commands over a state of its own,
  \<open>None\<close> where a command raises. A moment is the first and the last reading of the clock of an
  operation. What Redis promises about the three commands is \<open>redis_like\<close>, which allows keys to vanish at any time
  and a command that raised to have been carried out.
\<close>

type_synonym moment = "pyfloat \<times> pyfloat"

definition SEEN_VALUE :: string where "SEEN_VALUE = ''1''"
definition DEFAULT_DEDUP_TTL_SECONDS :: int where "DEFAULT_DEDUP_TTL_SECONDS = 604800"

record 'c redis_client =
  redis_set :: "moment \<Rightarrow> string \<Rightarrow> string \<Rightarrow> int option \<Rightarrow> bool \<Rightarrow> 'c \<Rightarrow> bool option \<times> 'c"
  redis_exists :: "moment \<Rightarrow> string \<Rightarrow> 'c \<Rightarrow> int option \<times> 'c"
  redis_delete :: "moment \<Rightarrow> string \<Rightarrow> 'c \<Rightarrow> int option \<times> 'c"

section \<open>Over Redis\<close>

record 'c redis_store =
  rs_client :: "'c redis_client"
  default_ttl_seconds :: int

definition new_redis_store :: "'c redis_client \<Rightarrow> int \<Rightarrow> py_error + 'c redis_store" where
  "new_redis_store client ttl =
     (if ttl \<le> 0 then Inl ValueError else Inr \<lparr>rs_client = client, default_ttl_seconds = ttl\<rparr>)"

definition redis_seen :: "'c redis_store \<Rightarrow> moment \<Rightarrow> string \<Rightarrow> 'c \<Rightarrow> bool \<times> 'c" where
  "redis_seen st t key c =
     (case redis_exists (rs_client st) t key c of (None, c) \<Rightarrow> (False, c) | (Some n, c) \<Rightarrow> (n > 0, c))"

definition redis_mark :: "'c redis_store \<Rightarrow> moment \<Rightarrow> string \<Rightarrow> int \<Rightarrow> 'c \<Rightarrow> 'c" where
  "redis_mark st t key ttl c =
     (if ttl \<le> 0 then c else snd (redis_set (rs_client st) t key SEEN_VALUE (Some ttl) True c))"

definition redis_claim :: "'c redis_store \<Rightarrow> moment \<Rightarrow> string \<Rightarrow> int option \<Rightarrow> 'c \<Rightarrow> bool \<times> 'c" where
  "redis_claim st t key ttl_seconds c =
     (let ttl = (case ttl_seconds of None \<Rightarrow> default_ttl_seconds st | Some n \<Rightarrow> n) in
      if ttl \<le> 0 then (True, c)
      else (case redis_set (rs_client st) t key SEEN_VALUE (Some ttl) True c of
          (None, c) \<Rightarrow> (True, c)
        | (Some stored, c) \<Rightarrow> (stored, c)))"

definition redis_forget :: "'c redis_store \<Rightarrow> moment \<Rightarrow> string \<Rightarrow> 'c \<Rightarrow> bool \<times> 'c" where
  "redis_forget st t key c =
     (case redis_delete (rs_client st) t key c of (None, c) \<Rightarrow> (False, c) | (Some n, c) \<Rightarrow> (n > 0, c))"

section \<open>In memory\<close>

type_synonym deadlines = "(string \<times> pyfloat) list"

definition key_live :: "moment \<Rightarrow> string \<Rightarrow> deadlines \<Rightarrow> bool \<times> deadlines" where
  "key_live t key m =
     (case map_of m key of
        None \<Rightarrow> (False, m)
      | Some deadline \<Rightarrow> if deadline \<le> fst t then (False, AList.delete key m) else (True, m))"

definition mem_seen :: "moment \<Rightarrow> string \<Rightarrow> deadlines \<Rightarrow> bool \<times> deadlines" where
  "mem_seen t key m = key_live t key m"

definition mem_mark :: "moment \<Rightarrow> string \<Rightarrow> int \<Rightarrow> deadlines \<Rightarrow> deadlines" where
  "mem_mark t key ttl m =
     (if ttl \<le> 0 then m
      else (case key_live t key m of
          (True, m) \<Rightarrow> m
        | (False, m) \<Rightarrow> AList.update key (snd t + of_int ttl) m))"

definition mem_claim :: "moment \<Rightarrow> string \<Rightarrow> int option \<Rightarrow> deadlines \<Rightarrow> bool \<times> deadlines" where
  "mem_claim t key ttl_seconds m =
     (let ttl = (case ttl_seconds of None \<Rightarrow> DEFAULT_DEDUP_TTL_SECONDS | Some n \<Rightarrow> n) in
      if ttl \<le> 0 then (True, m)
      else (case key_live t key m of
          (True, m) \<Rightarrow> (False, m)
        | (False, m) \<Rightarrow> (True, AList.update key (snd t + of_int ttl) m)))"

definition mem_forget :: "moment \<Rightarrow> string \<Rightarrow> deadlines \<Rightarrow> bool \<times> deadlines" where
  "mem_forget t key m = (map_of m key \<noteq> None, AList.delete key m)"

text \<open>\<open>len\<close>: the keys are counted in turn, which evicts those that have expired.\<close>

fun live_count :: "moment \<Rightarrow> string list \<Rightarrow> deadlines \<Rightarrow> nat \<times> deadlines" where
  "live_count t [] m = (0, m)"
| "live_count t (key # keys) m =
     (let (b, m) = key_live t key m; (n, m) = live_count t keys m in ((if b then Suc n else n), m))"

definition mem_len :: "moment \<Rightarrow> deadlines \<Rightarrow> nat \<times> deadlines" where
  "mem_len t m = live_count t (map fst m) m"

section \<open>One operation\<close>

datatype dedup_op = Seen string | Mark string int | Claim string "int option" | Forget string

fun op_key :: "dedup_op \<Rightarrow> string" where
  "op_key (Seen k) = k"
| "op_key (Mark k ttl) = k"
| "op_key (Claim k ttl) = k"
| "op_key (Forget k) = k"

text \<open>The retention an operation writes its key with.\<close>

fun op_ttl :: "int \<Rightarrow> dedup_op \<Rightarrow> int option" where
  "op_ttl dflt (Mark k ttl) = Some ttl"
| "op_ttl dflt (Claim k None) = Some dflt"
| "op_ttl dflt (Claim k (Some ttl)) = Some ttl"
| "op_ttl dflt _ = None"

text \<open>The answer that keeps a record from being emitted.\<close>

fun says_duplicate :: "dedup_op \<Rightarrow> bool \<Rightarrow> bool" where
  "says_duplicate (Seen k) b = b"
| "says_duplicate (Claim k ttl) b = (\<not> b)"
| "says_duplicate _ b = False"

fun redis_step :: "'c redis_store \<Rightarrow> moment \<Rightarrow> dedup_op \<Rightarrow> 'c \<Rightarrow> bool \<times> 'c" where
  "redis_step st t (Seen k) c = redis_seen st t k c"
| "redis_step st t (Mark k ttl) c = (False, redis_mark st t k ttl c)"
| "redis_step st t (Claim k ttl) c = redis_claim st t k ttl c"
| "redis_step st t (Forget k) c = redis_forget st t k c"

fun mem_step :: "moment \<Rightarrow> dedup_op \<Rightarrow> deadlines \<Rightarrow> bool \<times> deadlines" where
  "mem_step t (Seen k) m = mem_seen t k m"
| "mem_step t (Mark k ttl) m = (False, mem_mark t k ttl m)"
| "mem_step t (Claim k ttl) m = mem_claim t k ttl m"
| "mem_step t (Forget k) m = mem_forget t k m"

text \<open>A script of operations with their moments, and what each answered.\<close>

fun dedup_run :: "(moment \<Rightarrow> dedup_op \<Rightarrow> 's \<Rightarrow> bool \<times> 's) \<Rightarrow> 's \<Rightarrow> (moment \<times> dedup_op) list \<Rightarrow> bool list \<times> 's" where
  "dedup_run step s [] = ([], s)"
| "dedup_run step s ((t, op) # ops) =
     (let (b, s) = step t op s; (bs, s) = dedup_run step s ops in (b # bs, s))"

section \<open>What Redis promises\<close>

text \<open>
  \<open>dl c k\<close> is when the key \<open>k\<close> expires. \<open>SET\<close> with \<open>EX\<close> and \<open>NX\<close> writes no other key, leaves a live one as it is
  and says so; \<open>EXISTS\<close> counts a live key; \<open>DEL\<close> that was answered has removed its key. Any of
  them may raise, and any key may be gone.
\<close>

definition redis_like :: "'c redis_client \<Rightarrow> ('c \<Rightarrow> string \<Rightarrow> pyfloat option) \<Rightarrow> bool" where
  "redis_like cl dl \<longleftrightarrow>
     (\<forall>t k v ttl c a c'. redis_set cl t k v (Some ttl) True c = (a, c') \<longrightarrow>
        (\<forall>j d. dl c' j = Some d \<longrightarrow> dl c j = Some d \<or> j = k \<and> d \<le> snd t + of_int ttl) \<and>
        (a = Some False \<longrightarrow> (\<exists>d. dl c k = Some d \<and> fst t < d))) \<and>
     (\<forall>t k c a c'. redis_exists cl t k c = (a, c') \<longrightarrow>
        (\<forall>j d. dl c' j = Some d \<longrightarrow> dl c j = Some d) \<and>
        (\<forall>n. a = Some n \<longrightarrow> n > 0 \<longrightarrow> (\<exists>d. dl c k = Some d \<and> fst t < d))) \<and>
     (\<forall>t k c a c'. redis_delete cl t k c = (a, c') \<longrightarrow>
        (\<forall>j d. dl c' j = Some d \<longrightarrow> dl c j = Some d) \<and> (a \<noteq> None \<longrightarrow> dl c' k = None))"

end
