(* ===== verification/Dedup_Laws.thy ===== *)
theory Dedup_Laws
  imports Dedup_Store
begin

text \<open>
  The contract of a dedup store as two interfaces. \<open>seen_set\<close>: an answer that suppresses a record has a
  reason, so failing open never loses one. \<open>reliable_seen_set\<close>: nothing is lost before its time, so of
  several claims on a key one is granted in each window. The store over Redis gives the first
  whatever fails and is evicted, its twin in memory gives both.
\<close>

section \<open>Suppression has a reason\<close>

text \<open>
  What happened is a list of moments, operations and answers, the latest last. A key was remembered at \<open>t\<close>
  if it was written with a retention that had not run out, and not forgotten since.
\<close>

type_synonym happened = "(moment \<times> dedup_op \<times> bool) list"

definition remembered :: "int \<Rightarrow> happened \<Rightarrow> string \<Rightarrow> pyfloat \<Rightarrow> bool" where
  "remembered dflt h k d \<longleftrightarrow>
     (\<exists>h1 s op b h2 ttl. h = h1 @ (s, op, b) # h2 \<and> op_key op = k \<and> op_ttl dflt op = Some ttl \<and> 0 < ttl \<and>
        d \<le> snd s + of_int ttl \<and> (\<forall>u. (u, Forget k, True) \<notin> set h2))"

definition what_happened :: "(moment \<times> dedup_op) list \<Rightarrow> bool list \<Rightarrow> happened" where
  "what_happened ops bs = map2 (\<lambda>(t, op) b. (t, op, b)) ops bs"

lemma remembered_snoc:
  "remembered dflt h k d \<Longrightarrow> e \<noteq> (fst e, Forget k, True) \<Longrightarrow> remembered dflt (h @ [e]) k d"
  unfolding remembered_def
proof (elim exE conjE)
  fix h1 s op b h2 ttl
  assume *: "h = h1 @ (s, op, b) # h2" "op_key op = k" "op_ttl dflt op = Some ttl" "0 < ttl"
    "d \<le> snd s + of_int ttl" "\<forall>u. (u, Forget k, True) \<notin> set h2" and e: "e \<noteq> (fst e, Forget k, True)"
  from e have "\<forall>u. (u, Forget k, True) \<notin> set (h2 @ [e])" using *(6) by auto
  with * show "\<exists>h1 s op b h2 ttl. h @ [e] = h1 @ (s, op, b) # h2 \<and> op_key op = k \<and> op_ttl dflt op = Some ttl \<and> 0 < ttl \<and>
      d \<le> snd s + of_int ttl \<and> (\<forall>u. (u, Forget k, True) \<notin> set h2)"
    by (intro exI [of _ h1] exI [of _ s] exI [of _ op] exI [of _ b] exI [of _ "h2 @ [e]"] exI [of _ ttl]) simp
qed

lemma remembered_new:
  "op_ttl dflt op = Some ttl \<Longrightarrow> 0 < ttl \<Longrightarrow> d \<le> snd t + of_int ttl \<Longrightarrow> remembered dflt (h @ [(t, op, b)]) (op_key op) d"
  unfolding remembered_def
  by (intro exI [of _ h] exI [of _ t] exI [of _ op] exI [of _ b] exI [of _ "[]"] exI [of _ ttl]) simp

locale seen_set =
  fixes step :: "moment \<Rightarrow> dedup_op \<Rightarrow> 's \<Rightarrow> bool \<times> 's"
    and dl :: "'s \<Rightarrow> string \<Rightarrow> pyfloat option"
    and dflt :: int
  assumes written: "step t op s = (b, s') \<Longrightarrow> dl s' k = Some d \<Longrightarrow>
      dl s k = Some d \<or> k = op_key op \<and> (\<exists>ttl. op_ttl dflt op = Some ttl \<and> 0 < ttl \<and> d \<le> snd t + of_int ttl)"
    and suppressed: "step t op s = (b, s') \<Longrightarrow> says_duplicate op b \<Longrightarrow> \<exists>d. dl s (op_key op) = Some d \<and> fst t < d"
    and forgotten: "step t (Forget k) s = (True, s') \<Longrightarrow> dl s' k = None"
begin

lemma step_remembers:
  assumes inv: "\<And>k d. dl s k = Some d \<Longrightarrow> remembered dflt h k d" and st: "step t op s = (b, s')"
    and d: "dl s' k = Some d"
  shows "remembered dflt (h @ [(t, op, b)]) k d"
proof (cases "(t, op, b) = (t, Forget k, True)")
  case True
  with st d forgotten show ?thesis by fastforce
next
  case False
  from written [OF st d] show ?thesis
  proof
    assume "dl s k = Some d"
    with inv False show ?thesis by (intro remembered_snoc) auto
  next
    assume "k = op_key op \<and> (\<exists>ttl. op_ttl dflt op = Some ttl \<and> 0 < ttl \<and> d \<le> snd t + of_int ttl)"
    with remembered_new show ?thesis by blast
  qed
qed

lemma no_false_duplicate:
  assumes "\<And>k d. dl s k = Some d \<Longrightarrow> remembered dflt h k d"
    and "dedup_run step s ops = (bs, s')" and "i < length ops" and "ops ! i = (t, op)" and "says_duplicate op (bs ! i)"
  shows "\<exists>d. fst t < d \<and> remembered dflt (h @ what_happened (take i ops) (take i bs)) (op_key op) d"
  using assms
proof (induction ops arbitrary: s h bs i)
  case Nil
  then show ?case by simp
next
  case (Cons o1 ops)
  obtain t1 op1 where o1: "o1 = (t1, op1)" by (cases o1)
  obtain b1 s1 where st: "step t1 op1 s = (b1, s1)" by (cases "step t1 op1 s")
  with Cons.prems(2) o1 obtain bs1 where bs: "bs = b1 # bs1" "dedup_run step s1 ops = (bs1, s')"
    by (auto split: prod.splits)
  show ?case
  proof (cases i)
    case 0
    with Cons.prems(4,5) o1 bs(1) have "op1 = op" "t1 = t" "says_duplicate op b1" by simp_all
    with suppressed [of t op s b1 s1] st obtain d where d: "dl s (op_key op) = Some d" "fst t < d" by blast
    with Cons.prems(1) 0 show ?thesis by (auto simp: what_happened_def)
  next
    case (Suc j)
    have inv: "dl s1 k = Some d \<Longrightarrow> remembered dflt (h @ [(t1, op1, b1)]) k d" for k d
      using step_remembers [OF Cons.prems(1) st] .
    have "\<exists>d. fst t < d \<and> remembered dflt ((h @ [(t1, op1, b1)]) @ what_happened (take j ops) (take j bs1)) (op_key op) d"
      by (rule Cons.IH [OF inv bs(2)]) (use Cons.prems(3-5) Suc bs(1) in simp_all)
    then show ?thesis by (simp add: Suc o1 bs(1) what_happened_def)
  qed
qed

end

section \<open>One claim in a window\<close>

definition orderly :: "moment \<Rightarrow> bool" where
  "orderly t \<longleftrightarrow> fst t \<le> snd t"

locale reliable_seen_set = seen_set +
  assumes kept: "orderly t \<Longrightarrow> step t op s = (b, s') \<Longrightarrow> dl s k = Some d \<Longrightarrow> snd t < d \<Longrightarrow> op \<noteq> Forget k \<Longrightarrow> dl s' k = Some d"
    and granted: "orderly t \<Longrightarrow> step t (Claim k ttl) s = (True, s') \<Longrightarrow> op_ttl dflt (Claim k ttl) = Some n \<Longrightarrow> 0 < n \<Longrightarrow>
      \<exists>d. dl s' k = Some d \<and> fst t + of_int n \<le> d"
    and refused: "orderly t \<Longrightarrow> step t (Claim k ttl) s = (True, s') \<Longrightarrow> op_ttl dflt (Claim k ttl) = Some n \<Longrightarrow> 0 < n \<Longrightarrow>
      dl s k = Some d \<Longrightarrow> d \<le> snd t"
begin

lemma kept_over:
  "dedup_run step s ops = (bs, s') \<Longrightarrow> dl s k = Some d \<Longrightarrow>
     \<forall>(t, op) \<in> set ops. orderly t \<and> snd t < d \<and> op \<noteq> Forget k \<Longrightarrow> dl s' k = Some d"
proof (induction ops arbitrary: s bs)
  case (Cons o1 ops)
  obtain t1 op1 where o1: "o1 = (t1, op1)" by (cases o1)
  obtain b1 s1 where st: "step t1 op1 s = (b1, s1)" by (cases "step t1 op1 s")
  with Cons.prems(1) o1 obtain bs1 where "dedup_run step s1 ops = (bs1, s')" by (auto split: prod.splits)
  moreover have "dl s1 k = Some d" using kept [OF _ st Cons.prems(2)] Cons.prems(3) o1 by simp
  ultimately show ?case using Cons.IH Cons.prems(3) by simp
qed simp

lemma one_claim_in_a_window:
  assumes order: "orderly t1" "orderly t2" and c1: "step t1 (Claim k ttl1) s = (True, s1)" "op_ttl dflt (Claim k ttl1) = Some n1" "0 < n1"
    and mid: "dedup_run step s1 ops = (bs, s2)" "\<forall>(t, op) \<in> set ops. orderly t \<and> snd t \<le> snd t2 \<and> op \<noteq> Forget k"
    and c2: "step t2 (Claim k ttl2) s2 = (True, s3)" "op_ttl dflt (Claim k ttl2) = Some n2" "0 < n2"
  shows "fst t1 + of_int n1 \<le> snd t2"
proof (rule ccontr)
  assume late: "\<not> fst t1 + of_int n1 \<le> snd t2"
  from granted [OF order(1) c1] obtain d where d: "dl s1 k = Some d" "fst t1 + of_int n1 \<le> d" by blast
  with late have "snd t2 < d" by simp
  with mid(2) have "\<forall>(t, op) \<in> set ops. orderly t \<and> snd t < d \<and> op \<noteq> Forget k" by fastforce
  from kept_over [OF mid(1) d(1) this] have "dl s2 k = Some d" .
  from refused [OF order(2) c2 this] \<open>snd t2 < d\<close> show False by simp
qed

end

section \<open>The store in memory\<close>

lemma map_of_delete: "map_of (AList.delete k m) j = (if j = k then None else map_of m j)"
  by (simp add: delete_conv)

lemma key_live_cases:
  "key_live t k m = (b, m') \<Longrightarrow>
     (b \<longleftrightarrow> (\<exists>d. map_of m k = Some d \<and> fst t < d)) \<and> (b \<longrightarrow> m' = m) \<and>
     (\<forall>j. map_of m' j = (if j = k \<and> \<not> b then None else map_of m j))"
  by (auto simp: key_live_def map_of_delete not_le split: option.splits if_splits)

interpretation memory: seen_set mem_step map_of DEFAULT_DEDUP_TTL_SECONDS
proof unfold_locales
  fix t op and s :: deadlines and b s' k d
  assume "mem_step t op s = (b, s')" "map_of s' k = Some d"
  then show "map_of s k = Some d \<or> k = op_key op \<and>
      (\<exists>ttl. op_ttl DEFAULT_DEDUP_TTL_SECONDS op = Some ttl \<and> 0 < ttl \<and> d \<le> snd t + of_int ttl)"
    by (cases op)
      (auto simp: mem_seen_def mem_mark_def mem_claim_def mem_forget_def update_conv map_of_delete
        split: prod.splits bool.splits if_splits option.splits dest!: key_live_cases)
next
  fix t op and s :: deadlines and b s'
  assume "mem_step t op s = (b, s')" "says_duplicate op b"
  then show "\<exists>d. map_of s (op_key op) = Some d \<and> fst t < d"
    by (cases op) (auto simp: mem_seen_def mem_claim_def Let_def split: prod.splits bool.splits if_splits dest!: key_live_cases)
next
  fix t k and s s' :: deadlines
  assume "mem_step t (Forget k) s = (True, s')"
  then show "map_of s' k = None" by (auto simp: mem_forget_def map_of_delete)
qed

lemma live_kept:
  assumes "key_live t j m = (b, m')" and "map_of m k = Some d" and "fst t < d"
  shows "map_of m' k = Some d"
  using key_live_cases [OF assms(1)] assms(2,3) by auto

lemma memory_kept:
  assumes "orderly t" and "mem_step t op m = (b, m')" and "map_of m k = Some d" and "snd t < d" and "op \<noteq> Forget k"
  shows "map_of m' k = Some d"
proof -
  have live: "key_live t k m \<noteq> (False, n)" "key_live t j m = (c, n) \<Longrightarrow> map_of n k = Some d" for j c n
    using key_live_cases [of t k m False n] key_live_cases [of t j m c n] assms(1,3,4) by (auto simp: orderly_def)
  have keep: "map_of (AList.update j e n) k = Some d" if "key_live t j m = (False, n)" for j e n
    using live(1) live(2) [OF that] that by (cases "j = k") (auto simp: update_conv)
  show ?thesis
  proof (cases op)
    case (Seen j)
    with assms(2) live(2) show ?thesis by (simp add: mem_seen_def)
  next
    case (Mark j ttl)
    with assms(2,3) live(2) keep show ?thesis by (auto simp: mem_mark_def split: prod.splits bool.splits if_splits)
  next
    case (Claim j ttl)
    with assms(2,3) live(2) keep show ?thesis by (auto simp: mem_claim_def Let_def split: prod.splits bool.splits if_splits)
  next
    case (Forget j)
    with assms(2,3,5) show ?thesis by (auto simp: mem_forget_def map_of_delete)
  qed
qed

interpretation memory: reliable_seen_set mem_step map_of DEFAULT_DEDUP_TTL_SECONDS
proof unfold_locales
  fix t op and s :: deadlines and b s' k d
  assume "orderly t" "mem_step t op s = (b, s')" "map_of s k = Some d" "snd t < d" "op \<noteq> Forget k"
  then show "map_of s' k = Some d" by (rule memory_kept)
next
  fix t k ttl and s s' :: deadlines and n
  assume "orderly t" "mem_step t (Claim k ttl) s = (True, s')" "op_ttl DEFAULT_DEDUP_TTL_SECONDS (Claim k ttl) = Some n" "0 < n"
  then show "\<exists>d. map_of s' k = Some d \<and> fst t + of_int n \<le> d"
    by (cases ttl) (auto simp: mem_claim_def update_conv orderly_def Let_def split: prod.splits bool.splits)
next
  fix t k ttl and s s' :: deadlines and n d
  assume "orderly t" "mem_step t (Claim k ttl) s = (True, s')" "op_ttl DEFAULT_DEDUP_TTL_SECONDS (Claim k ttl) = Some n" "0 < n"
    "map_of s k = Some d"
  then show "d \<le> snd t"
    by (cases ttl) (auto simp: mem_claim_def orderly_def Let_def split: prod.splits bool.splits dest!: key_live_cases)
qed

section \<open>The store over Redis\<close>

locale redis_backed =
  fixes cl :: "'c redis_client" and expiry :: "'c \<Rightarrow> string \<Rightarrow> pyfloat option" and ttl0 :: int
  assumes like: "redis_like cl expiry"
begin

abbreviation store :: "'c redis_store" where
  "store \<equiv> \<lparr>rs_client = cl, default_ttl_seconds = ttl0\<rparr>"

lemma set_like:
  "redis_set cl t k v (Some ttl) True c = (a, c') \<Longrightarrow>
     (\<forall>j d. expiry c' j = Some d \<longrightarrow> expiry c j = Some d \<or> j = k \<and> d \<le> snd t + of_int ttl) \<and>
     (a = Some False \<longrightarrow> (\<exists>d. expiry c k = Some d \<and> fst t < d))"
  by (rule like [unfolded redis_like_def, THEN conjunct1, THEN spec, THEN spec, THEN spec, THEN spec, THEN spec, THEN spec, THEN spec, THEN mp])

lemma exists_like:
  "redis_exists cl t k c = (a, c') \<Longrightarrow>
     (\<forall>j d. expiry c' j = Some d \<longrightarrow> expiry c j = Some d) \<and>
     (\<forall>n. a = Some n \<longrightarrow> n > 0 \<longrightarrow> (\<exists>d. expiry c k = Some d \<and> fst t < d))"
  by (rule like [unfolded redis_like_def, THEN conjunct2, THEN conjunct1, THEN spec, THEN spec, THEN spec, THEN spec, THEN spec, THEN mp])

lemma delete_like:
  "redis_delete cl t k c = (a, c') \<Longrightarrow>
     (\<forall>j d. expiry c' j = Some d \<longrightarrow> expiry c j = Some d) \<and> (a \<noteq> None \<longrightarrow> expiry c' k = None)"
  by (rule like [unfolded redis_like_def, THEN conjunct2, THEN conjunct2, THEN spec, THEN spec, THEN spec, THEN spec, THEN spec, THEN mp])

sublocale seen_set "redis_step store" expiry ttl0
proof unfold_locales
  fix t op c b c' k d
  assume "redis_step store t op c = (b, c')" "expiry c' k = Some d"
  then show "expiry c k = Some d \<or> k = op_key op \<and>
      (\<exists>ttl. op_ttl ttl0 op = Some ttl \<and> 0 < ttl \<and> d \<le> snd t + of_int ttl)"
  proof (cases op)
    case (Seen j)
    then show ?thesis using \<open>redis_step store t op c = (b, c')\<close> \<open>expiry c' k = Some d\<close>
      by (auto simp: redis_seen_def split: prod.splits option.splits dest!: exists_like)
  next
    case (Mark j ttl)
    obtain a c1 where r: "redis_set cl t j SEEN_VALUE (Some ttl) True c = (a, c1)" by fastforce
    from set_like [OF this] show ?thesis using Mark r \<open>redis_step store t op c = (b, c')\<close> \<open>expiry c' k = Some d\<close>
      by (auto simp: redis_mark_def split: if_splits)
  next
    case (Claim j ttl)
    obtain n where n: "op_ttl ttl0 op = Some n" "n = (case ttl of None \<Rightarrow> ttl0 | Some n \<Rightarrow> n)"
      using Claim by (cases ttl) auto
    obtain a c1 where r: "redis_set cl t j SEEN_VALUE (Some n) True c = (a, c1)" by fastforce
    from set_like [OF this] show ?thesis using Claim r n \<open>redis_step store t op c = (b, c')\<close> \<open>expiry c' k = Some d\<close>
      by (auto simp: redis_claim_def Let_def split: if_splits option.splits)
  next
    case (Forget j)
    then show ?thesis using \<open>redis_step store t op c = (b, c')\<close> \<open>expiry c' k = Some d\<close>
      by (auto simp: redis_forget_def split: prod.splits option.splits dest!: delete_like)
  qed
next
  fix t op c b c'
  assume "redis_step store t op c = (b, c')" "says_duplicate op b"
  then show "\<exists>d. expiry c (op_key op) = Some d \<and> fst t < d"
  proof (cases op)
    case (Claim j ttl)
    obtain n where n: "n = (case ttl of None \<Rightarrow> ttl0 | Some n \<Rightarrow> n)" by blast
    obtain a c1 where r: "redis_set cl t j SEEN_VALUE (Some n) True c = (a, c1)" by fastforce
    from set_like [OF this] show ?thesis using Claim r n \<open>redis_step store t op c = (b, c')\<close> \<open>says_duplicate op b\<close>
      by (auto simp: redis_claim_def Let_def split: if_splits option.splits)
  qed (auto simp: redis_seen_def split: prod.splits option.splits dest!: exists_like)
next
  fix t k c c'
  assume "redis_step store t (Forget k) c = (True, c')"
  then show "expiry c' k = None" by (auto simp: redis_forget_def split: prod.splits option.splits dest!: delete_like)
qed

lemma backed_seen_set: "seen_set (redis_step store) expiry ttl0"
  by unfold_locales

end

text \<open>
  What a Redis promises that answers and loses nothing: every \<open>SET\<close> is answered, a key lives until it
  expires or is deleted, and a \<open>SET\<close> with \<open>NX\<close> that wrote had found no live key and wrote one that
  lives for its retention.
\<close>

definition redis_steady :: "'c redis_client \<Rightarrow> ('c \<Rightarrow> string \<Rightarrow> pyfloat option) \<Rightarrow> bool" where
  "redis_steady cl dl \<longleftrightarrow>
     (\<forall>t k v ttl c a c'. orderly t \<longrightarrow> redis_set cl t k v (Some ttl) True c = (a, c') \<longrightarrow>
        a \<noteq> None \<and> (\<forall>j d. dl c j = Some d \<longrightarrow> snd t < d \<longrightarrow> dl c' j = Some d) \<and>
        (a = Some True \<longrightarrow> (\<forall>d. dl c k = Some d \<longrightarrow> d \<le> snd t) \<and> (\<exists>d. dl c' k = Some d \<and> fst t + of_int ttl \<le> d))) \<and>
     (\<forall>t k c a c'. orderly t \<longrightarrow> redis_exists cl t k c = (a, c') \<longrightarrow>
        (\<forall>j d. dl c j = Some d \<longrightarrow> snd t < d \<longrightarrow> dl c' j = Some d)) \<and>
     (\<forall>t k c a c'. orderly t \<longrightarrow> redis_delete cl t k c = (a, c') \<longrightarrow>
        (\<forall>j d. dl c j = Some d \<longrightarrow> snd t < d \<longrightarrow> j \<noteq> k \<longrightarrow> dl c' j = Some d))"

lemma steady_setD:
  assumes "redis_steady cl dl" and "orderly t" and "redis_set cl t k v (Some ttl) True c = (a, c')"
  shows "a \<noteq> None" and "dl c j = Some d \<Longrightarrow> snd t < d \<Longrightarrow> dl c' j = Some d"
    and "a = Some True \<Longrightarrow> dl c k = Some d \<Longrightarrow> d \<le> snd t"
    and "a = Some True \<Longrightarrow> \<exists>d. dl c' k = Some d \<and> fst t + of_int ttl \<le> d"
  using assms unfolding redis_steady_def by (elim conjE; metis (no_types, lifting))+

lemma steady_keepD:
  assumes "redis_steady cl dl" and "orderly t" and "dl c j = Some d" and "snd t < d"
  shows "redis_exists cl t k c = (a, c') \<Longrightarrow> dl c' j = Some d"
    and "redis_delete cl t k c = (b, c'') \<Longrightarrow> j \<noteq> k \<Longrightarrow> dl c'' j = Some d"
  using assms unfolding redis_steady_def by (elim conjE; metis (no_types, lifting))+

locale steady_redis = redis_backed +
  assumes steady: "redis_steady cl expiry"
begin

sublocale reliable_seen_set "redis_step store" expiry ttl0
proof unfold_locales
  fix t op c b c' k d
  assume o: "orderly t" and st: "redis_step store t op c = (b, c')" and d: "expiry c k = Some d" "snd t < d" and f: "op \<noteq> Forget k"
  note keep = steady_setD(2) [OF steady o _ d] steady_keepD(1) [OF steady o d] steady_keepD(2) [OF steady o d]
  show "expiry c' k = Some d"
  proof (cases op)
    case (Seen j)
    with st keep(2) show ?thesis by (auto simp: redis_seen_def split: prod.splits option.splits)
  next
    case (Mark j ttl)
    obtain a c1 where r: "redis_set cl t j SEEN_VALUE (Some ttl) True c = (a, c1)" by fastforce
    from keep(1) [OF this] Mark r st d(1) show ?thesis by (auto simp: redis_mark_def split: if_splits)
  next
    case (Claim j ttl)
    obtain n where n: "n = (case ttl of None \<Rightarrow> ttl0 | Some n \<Rightarrow> n)" by blast
    obtain a c1 where r: "redis_set cl t j SEEN_VALUE (Some n) True c = (a, c1)" by fastforce
    from keep(1) [OF this] Claim r n st d(1) show ?thesis
      by (auto simp: redis_claim_def Let_def split: if_splits option.splits)
  next
    case (Forget j)
    with st keep(3) f show ?thesis by (auto simp: redis_forget_def split: prod.splits option.splits)
  qed
next
  fix t k ttl c c' n
  assume o: "orderly t" and st: "redis_step store t (Claim k ttl) c = (True, c')" and n: "op_ttl ttl0 (Claim k ttl) = Some n" "0 < n"
  from n have m: "(case ttl of None \<Rightarrow> ttl0 | Some n \<Rightarrow> n) = n" by (cases ttl) auto
  obtain a c1 where r: "redis_set cl t k SEEN_VALUE (Some n) True c = (a, c1)" by fastforce
  with st m n(2) steady_setD(1) [OF steady o r] have "a = Some True" "c1 = c'"
    by (auto simp: redis_claim_def Let_def split: option.splits)
  with steady_setD(4) [OF steady o r] show "\<exists>d. expiry c' k = Some d \<and> fst t + of_int n \<le> d" by simp
next
  fix t k ttl c c' n d
  assume o: "orderly t" and st: "redis_step store t (Claim k ttl) c = (True, c')" and n: "op_ttl ttl0 (Claim k ttl) = Some n" "0 < n"
    and d: "expiry c k = Some d"
  from n have m: "(case ttl of None \<Rightarrow> ttl0 | Some n \<Rightarrow> n) = n" by (cases ttl) auto
  obtain a c1 where r: "redis_set cl t k SEEN_VALUE (Some n) True c = (a, c1)" by fastforce
  with st m n(2) steady_setD(1) [OF steady o r] have "a = Some True"
    by (auto simp: redis_claim_def Let_def split: option.splits)
  from steady_setD(3) [OF steady o r this d] show "d \<le> snd t" .
qed

lemma steady_reliable: "reliable_seen_set (redis_step store) expiry ttl0"
  by unfold_locales

end

text \<open>The twin in memory, taken for the server: its three operations as the commands of a client.\<close>

definition twin_client :: "deadlines redis_client" where
  "twin_client =
     \<lparr>redis_set = (\<lambda>t k v ex nx m. case ex of
          None \<Rightarrow> (None, m)
        | Some ttl \<Rightarrow> (case key_live t k m of
              (True, m) \<Rightarrow> (Some False, m)
            | (False, m) \<Rightarrow> (Some True, AList.update k (snd t + of_int ttl) m))),
      redis_exists = (\<lambda>t k m. case mem_seen t k m of (b, m) \<Rightarrow> (Some (if b then 1 else 0), m)),
      redis_delete = (\<lambda>t k m. case mem_forget t k m of (b, m) \<Rightarrow> (Some (if b then 1 else 0), m))\<rparr>"

lemma twin_like: "redis_like twin_client map_of"
  unfolding redis_like_def
  by (auto simp: twin_client_def mem_seen_def mem_forget_def update_conv map_of_delete
      split: prod.splits bool.splits if_splits dest!: key_live_cases)

lemma twin_steady: "redis_steady twin_client map_of"
  unfolding redis_steady_def
  by (auto simp: twin_client_def mem_seen_def mem_forget_def update_conv map_of_delete orderly_def
      split: prod.splits bool.splits if_splits dest!: key_live_cases)

interpretation twin: steady_redis twin_client map_of DEFAULT_DEDUP_TTL_SECONDS
  by unfold_locales (rule twin_like, rule twin_steady)

section \<open>The laws\<close>

text \<open>
  C13. Deduplication never drops an observation without a reason: in any script of operations, from any
  number of workers, on a store over any client that keeps what Redis promises, where every command may
  raise, a command that raised may have been carried out, and keys may vanish at any time, whenever
  an answer says duplicate, an earlier operation wrote that very key with a positive
  retention that had not run out, and it was not removed since.
\<close>

theorem dedup_fails_open:
  assumes "redis_like cl expiry" and "new_redis_store cl ttl0 = Inr st" and "\<And>k. expiry c k = None"
    and "dedup_run (redis_step st) c ops = (bs, c')" and "i < length ops" and "ops ! i = (t, op)" and "says_duplicate op (bs ! i)"
  shows "\<exists>d. fst t < d \<and> remembered ttl0 (what_happened (take i ops) (take i bs)) (op_key op) d"
proof -
  have rb: "redis_backed cl expiry" by (rule redis_backed.intro) (rule assms(1))
  have st: "st = \<lparr>rs_client = cl, default_ttl_seconds = ttl0\<rparr>" using assms(2) by (auto simp: new_redis_store_def split: if_splits)
  have ss: "seen_set (redis_step st) expiry ttl0"
    unfolding st by (rule redis_backed.backed_seen_set [OF rb])
  show ?thesis using seen_set.no_false_duplicate [OF ss, of c "[]" ops bs c' i t op] assms(3-) by simp
qed

text \<open>
  Of two granted claims on a key with positive retentions, with anything but a removal of the key in
  between, on a clock that does not run backwards, the later ends no earlier than the retention of the
  first has run out.
\<close>

definition one_per_window :: "(moment \<Rightarrow> dedup_op \<Rightarrow> 's \<Rightarrow> bool \<times> 's) \<Rightarrow> int \<Rightarrow> bool" where
  "one_per_window step dflt \<longleftrightarrow>
     (\<forall>k s t1 ttl1 n1 s1 ops bs s2 t2 ttl2 n2 s3.
        step t1 (Claim k ttl1) s = (True, s1) \<longrightarrow> op_ttl dflt (Claim k ttl1) = Some n1 \<longrightarrow> 0 < n1 \<longrightarrow>
        dedup_run step s1 ops = (bs, s2) \<longrightarrow>
        step t2 (Claim k ttl2) s2 = (True, s3) \<longrightarrow> op_ttl dflt (Claim k ttl2) = Some n2 \<longrightarrow> 0 < n2 \<longrightarrow>
        orderly t1 \<longrightarrow> list_all (\<lambda>(t, op). orderly t \<and> snd t \<le> snd t2 \<and> op \<noteq> Forget k) ops \<longrightarrow> orderly t2 \<longrightarrow>
        fst t1 + of_int n1 \<le> snd t2)"

lemma reliable_one_per_window:
  assumes "reliable_seen_set step dl dflt"
  shows "one_per_window step dflt"
  unfolding one_per_window_def list_all_iff
  by (intro allI impI) (rule reliable_seen_set.one_claim_in_a_window [OF assms])

text \<open>
  C17. A claim is given once in each window of its retention, by the store in memory, and by the store over
  Redis as long as Redis answers its \<open>SET\<close>s and loses no key before its time: of two claims on a
  key that are granted with positive retentions, in any script of operations of any workers that does not
  remove the key in between, on a clock that does not run backwards, the later ends no earlier
  than the retention of the first has run out. A Redis that fails or evicts grants more: that
  store fails open (\<open>dedup_fails_open\<close>).
\<close>

theorem one_claim_per_window:
  assumes "redis_like cl expiry" and "redis_steady cl expiry" and "new_redis_store cl ttl0 = Inr st"
  shows "one_per_window mem_step DEFAULT_DEDUP_TTL_SECONDS \<and> one_per_window (redis_step st) ttl0"
proof -
  have st: "st = \<lparr>rs_client = cl, default_ttl_seconds = ttl0\<rparr>" using assms(3) by (auto simp: new_redis_store_def split: if_splits)
  have "steady_redis cl expiry"
    by (intro steady_redis.intro redis_backed.intro steady_redis_axioms.intro) (rule assms(1), rule assms(2))
  from steady_redis.steady_reliable [OF this] have r: "reliable_seen_set (redis_step st) expiry ttl0" unfolding st .
  show ?thesis
    using reliable_one_per_window [OF memory.reliable_seen_set_axioms] reliable_one_per_window [OF r] by simp
qed

section \<open>Instances\<close>

text \<open>
  Scripts on which the laws of the dedup stores are applied, and the race the documentation of
  \<open>claim\<close> warns of: two workers that ask first and mark later both go ahead.
\<close>

definition twin_store :: "deadlines redis_store" where
  "twin_store = \<lparr>rs_client = twin_client, default_ttl_seconds = 60\<rparr>"

definition poll_twice :: "(moment \<times> dedup_op) list" where
  "poll_twice = [((0, 0), Mark ''k'' 60), ((30, 30), Seen ''k''), ((90, 90), Seen ''k'')]"

lemma poll_twice_run: "fst (dedup_run (redis_step twin_store) [] poll_twice) = [False, True, False]"
  by code_simp

theorem dedup_fails_open_witness:
  "\<exists>d. 30 < d \<and> remembered 60 [((0, 0), Mark ''k'' 60, False)] ''k'' d"
proof -
  obtain bs m where r: "dedup_run (redis_step twin_store) [] poll_twice = (bs, m)" by fastforce
  with poll_twice_run have bs: "bs = [False, True, False]" by simp
  have st: "new_redis_store twin_client 60 = Inr twin_store" by (simp add: new_redis_store_def twin_store_def)
  have "\<exists>d. fst (30 :: pyfloat, 30 :: pyfloat) < d \<and>
      remembered 60 (what_happened (take 1 poll_twice) (take 1 bs)) (op_key (Seen ''k'')) d"
    by (rule dedup_fails_open [OF twin_like st _ r]) (simp_all add: poll_twice_def bs)
  then show ?thesis by (simp add: poll_twice_def bs what_happened_def)
qed

definition three_claims :: "(moment \<times> dedup_op) list" where
  "three_claims = [((0, 0), Claim ''k'' (Some 60)), ((30, 30), Claim ''k'' None), ((70, 70), Claim ''k'' None)]"

theorem one_claim_per_window_witness:
  "fst (dedup_run (redis_step twin_store) [] three_claims) = [True, False, True] \<and>
   one_per_window (redis_step twin_store) 60 \<and> fst (0 :: pyfloat, 0 :: pyfloat) + of_int 60 \<le> snd (70 :: pyfloat, 70 :: pyfloat)"
proof (intro conjI)
  show "fst (dedup_run (redis_step twin_store) [] three_claims) = [True, False, True]" by code_simp
  have "new_redis_store twin_client 60 = Inr twin_store" by (simp add: new_redis_store_def twin_store_def)
  with one_claim_per_window [OF twin_like twin_steady] show w: "one_per_window (redis_step twin_store) 60" by blast
  have "redis_step twin_store (0, 0) (Claim ''k'' (Some 60)) [] = (True, [(''k'', 60)])"
    "dedup_run (redis_step twin_store) [(''k'', 60)] [((30, 30), Claim ''k'' None)] = ([False], [(''k'', 60)])"
    "redis_step twin_store (70, 70) (Claim ''k'' None) [(''k'', 60)] = (True, [(''k'', 130)])" by code_simp+
  with w [unfolded one_per_window_def, rule_format, of "(0, 0)" "''k''" "Some 60" "[]" "[(''k'', 60)]" 60
      "[((30, 30), Claim ''k'' None)]" "[False]" "[(''k'', 60)]" "(70, 70)" None "[(''k'', 130)]" 60]
  show "fst (0 :: pyfloat, 0 :: pyfloat) + of_int 60 \<le> snd (70 :: pyfloat, 70 :: pyfloat)" by (simp add: orderly_def)
qed

theorem asking_first_races:
  "fst (dedup_run mem_step [] [((0, 0), Seen ''k''), ((1, 1), Seen ''k''), ((2, 2), Mark ''k'' 60), ((3, 3), Mark ''k'' 60)])
     = [False, False, False, False] \<and>
   fst (dedup_run mem_step [] [((0, 0), Claim ''k'' None), ((1, 1), Claim ''k'' None)]) = [True, False]"
  by code_simp

text \<open>A store that refuses a retention that is not positive treats one given to an operation as no deduplication.\<close>

theorem no_retention_no_suppression:
  "new_redis_store cl 0 = Inl ValueError \<and>
   redis_claim st t k (Some 0) c = (True, c) \<and> redis_mark st t k 0 c = c"
  by (simp add: new_redis_store_def redis_claim_def redis_mark_def)

end
