(* ===== verification/Connector_Run.thy ===== *)
theory Connector_Run
  imports Rate_Limiter Backoff Dedup_Store Py_Text
begin

text \<open>
  \<open>connectors/base.py\<close> with the run state of \<open>connectors/protocol.py\<close>: what every connector does with a page. The
  methods a subclass supplies and the ports of the context are functions of an environment that see
  the number of calls made so far, so they may answer anything. A failure is an anticipated
  error of the source, or a \<open>Defect\<close>: any other exception. The world keeps
  the state of the dedup store and the number of calls.
\<close>

section \<open>The cursor\<close>

record cursor =
  cursor_version :: int
  watermark :: "instant option"
  page_token :: "string option"
  checkpoint :: "(string \<times> string) list"

definition CURSOR_VERSION :: int where "CURSOR_VERSION = 1"

definition empty_cursor :: cursor where
  "empty_cursor = \<lparr>cursor_version = CURSOR_VERSION, watermark = None, page_token = None, checkpoint = []\<rparr>"

definition cursor_is_empty :: "cursor \<Rightarrow> bool" where
  "cursor_is_empty c \<longleftrightarrow> watermark c = None \<and> page_token c = None \<and> checkpoint c = []"

definition is_readable :: "cursor \<Rightarrow> bool" where
  "is_readable c \<longleftrightarrow> cursor_version c = CURSOR_VERSION"

definition merged :: "(string \<times> string) list \<Rightarrow> (string \<times> string) list \<Rightarrow> (string \<times> string) list" where
  "merged old new = foldl (\<lambda>d (k, v). AList.update k v d) old new"

definition advanced_to :: "instant option \<Rightarrow> string option \<Rightarrow> (string \<times> string) list \<Rightarrow> cursor \<Rightarrow> cursor" where
  "advanced_to w token extra c =
     \<lparr>cursor_version = CURSOR_VERSION,
      watermark = (case w of None \<Rightarrow> watermark c
        | Some t \<Rightarrow> (case watermark c of None \<Rightarrow> Some t | Some u \<Rightarrow> if t > u then Some t else Some u)),
      page_token = token, checkpoint = merged (checkpoint c) extra\<rparr>"

section \<open>Records\<close>

record raw_record =
  native_id :: string
  rr_payload :: string
  fetched_at :: instant
  raw_bytes :: "string option"
  content_type :: string
  source_url :: "string option"
  request_fingerprint :: "string option"

record signal =
  sig_id :: string
  sig_platform :: string
  sig_text :: string
  sig_url :: "string option"
  lineage_native_id :: string
  lineage_slug :: string
  lineage_version :: string
  lineage_run_id :: string
  lineage_fingerprint :: "string option"

record fetch_page =
  page_records :: "raw_record list"
  page_cursor :: cursor
  raw_headers :: "(string \<times> string) list"

record dedup_keys =
  dk_identity :: string
  dk_content :: "string option"

record run_stats =
  st_fetched :: int
  st_emitted :: int
  st_dropped :: int
  st_duplicates :: int
  st_dlq :: int
  st_pages :: int

definition zero_stats :: run_stats where
  "zero_stats = \<lparr>st_fetched = 0, st_emitted = 0, st_dropped = 0, st_duplicates = 0, st_dlq = 0, st_pages = 0\<rparr>"

record emitted_batch =
  batch_records :: "(raw_record \<times> signal) list"
  batch_cursor :: cursor
  batch_stats :: run_stats

datatype failure = Source connector_error | Defect

section \<open>What a subclass and the context supply\<close>

record sync_context =
  ctx_slug :: string
  account_id :: string
  run_id :: string
  backfill :: bool
  max_pages :: "int option"
  max_records :: "int option"
  dedup_ttl_seconds :: int
  overlap_seconds :: int

datatype normalized = Normalized signal | Dropped | Unmappable | Norm_Fails failure

text \<open>A step of the asynchronous generator \<open>fetch\<close>; the end of the list is its end.\<close>

datatype fetch_step = Fetched fetch_page | Fetch_Fails failure

record 'd dedup_port =
  port_seen :: "nat \<Rightarrow> string \<Rightarrow> 'd \<Rightarrow> bool \<times> 'd"
  port_mark :: "nat \<Rightarrow> string \<Rightarrow> int \<Rightarrow> 'd \<Rightarrow> 'd"

record 'd connector_env =
  authenticate_at :: "nat \<Rightarrow> failure option"
  fetch_at :: "nat \<Rightarrow> cursor \<Rightarrow> fetch_step list"
  normalize_at :: "nat \<Rightarrow> raw_record \<Rightarrow> normalized"
  dedup_keys_of :: "signal \<Rightarrow> dedup_keys"
  dedup_of :: "'d dedup_port option"
  observe_at :: "(nat \<Rightarrow> rate_limit_hint \<Rightarrow> failure option) option"
  hint_of :: "(string \<times> string) list \<Rightarrow> rate_limit_hint option"

record 'd run_world =
  dedup_state :: 'd
  calls :: nat

definition called :: "('d, 'a) run_world_scheme \<Rightarrow> ('d, 'a) run_world_scheme" where
  "called w = w\<lparr>calls := calls w + 1\<rparr>"

section \<open>Defaults a subclass may override\<close>

definition rate_limit_keys :: "sync_context \<Rightarrow> string list" where
  "rate_limit_keys ctx =
     [''os:rl:'' @ ctx_slug ctx, ''os:rl:'' @ ctx_slug ctx @ '':'' @ account_id ctx] @
     (if backfill ctx then [''os:rl:'' @ ctx_slug ctx @ '':backfill''] else [])"

text \<open>\<open>netloc\<close> is the host that \<open>urlsplit\<close> finds.\<close>

definition host_rate_limit_key :: "(string \<Rightarrow> string) \<Rightarrow> string option \<Rightarrow> string option" where
  "host_rate_limit_key netloc url =
     (case url of
        None \<Rightarrow> None
      | Some u \<Rightarrow> if u = [] then None
          else let host = py_lower (netloc u) in if host = [] then None else Some (''os:rl:host:'' @ host))"

text \<open>\<open>int\<close>, \<open>float\<close> and \<open>parsedate_to_datetime\<close> of the standard library, \<open>None\<close> where they raise.\<close>

record header_library =
  hl_int :: "string \<Rightarrow> int option"
  hl_float :: "string \<Rightarrow> pyfloat option"
  hl_date :: "string \<Rightarrow> pyfloat option"

definition parse_retry_after :: "header_library \<Rightarrow> pyfloat \<Rightarrow> string option \<Rightarrow> pyfloat option" where
  "parse_retry_after lib wall value =
     (case value of
        None \<Rightarrow> None
      | Some v \<Rightarrow>
          if v = [] then None
          else (case hl_float lib v of
              Some x \<Rightarrow> Some (max 0 x)
            | None \<Rightarrow> map_option (\<lambda>d. max 0 (d - wall)) (hl_date lib v)))"

text \<open>The headers under lowered names, the last of equal names winning.\<close>

definition header :: "(string \<times> string) list \<Rightarrow> string \<Rightarrow> string option" where
  "header hs name = map_of (rev (map (\<lambda>(k, v). (py_lower k, v)) hs)) name"

definition as_number :: "(string \<Rightarrow> 'n option) \<Rightarrow> string option \<Rightarrow> 'n option" where
  "as_number parse value = (case value of None \<Rightarrow> None | Some v \<Rightarrow> parse v)"

definition parse_rate_limit :: "header_library \<Rightarrow> pyfloat \<Rightarrow> (string \<times> string) list \<Rightarrow> rate_limit_hint option" where
  "parse_rate_limit lib wall hs =
     (let hint = \<lparr>remaining = as_number (hl_int lib) (header hs ''x-ratelimit-remaining''),
            reset_at = as_number (hl_float lib) (header hs ''x-ratelimit-reset''),
            retry_after_seconds = parse_retry_after lib wall (header hs ''retry-after'')\<rparr>;
          limit = as_number (hl_int lib) (header hs ''x-ratelimit-limit'') in
      if remaining hint = None \<and> limit = None \<and> reset_at hint = None \<and> retry_after_seconds hint = None
      then None else Some hint)"

definition base_dedup_keys :: "(string \<Rightarrow> string) \<Rightarrow> string \<Rightarrow> signal \<Rightarrow> dedup_keys" where
  "base_dedup_keys sha slug s =
     (let content = py_strip (sig_text s) in
      \<lparr>dk_identity = ''os:dedup:id:'' @ slug @ '':'' @ sig_id s,
       dk_content = (if content \<noteq> [] then Some (''os:dedup:sha:'' @ slug @ '':'' @ sha content) else None)\<rparr>)"

section \<open>One page\<close>

fun seen_any :: "'d dedup_port \<Rightarrow> string option list \<Rightarrow> ('d, 'a) run_world_scheme \<Rightarrow> bool \<times> ('d, 'a) run_world_scheme" where
  "seen_any port [] w = (False, w)"
| "seen_any port (None # ks) w = seen_any port ks w"
| "seen_any port (Some k # ks) w =
     (case port_seen port (calls w) k (dedup_state w) of
        (b, d) \<Rightarrow> let w = called (w\<lparr>dedup_state := d\<rparr>) in if b then (True, w) else seen_any port ks w)"

fun mark_all :: "'d dedup_port \<Rightarrow> int \<Rightarrow> string option list \<Rightarrow> ('d, 'a) run_world_scheme \<Rightarrow> ('d, 'a) run_world_scheme" where
  "mark_all port ttl [] w = w"
| "mark_all port ttl (None # ks) w = mark_all port ttl ks w"
| "mark_all port ttl (Some k # ks) w =
     mark_all port ttl ks (called (w\<lparr>dedup_state := port_mark port (calls w) k ttl (dedup_state w)\<rparr>))"

definition is_duplicate :: "'d connector_env \<Rightarrow> sync_context \<Rightarrow> signal \<Rightarrow> ('d, 'a) run_world_scheme \<Rightarrow> bool \<times> ('d, 'a) run_world_scheme" where
  "is_duplicate env ctx s w =
     (case dedup_of env of
        None \<Rightarrow> (False, w)
      | Some port \<Rightarrow>
          let keys = dedup_keys_of env s; ks = [Some (dk_identity keys), dk_content keys] in
          (case seen_any port ks w of
             (True, w) \<Rightarrow> (True, w)
           | (False, w) \<Rightarrow> (False, mark_all port (dedup_ttl_seconds ctx) ks w)))"

fun normalize_and_dedup :: "'d connector_env \<Rightarrow> sync_context \<Rightarrow> raw_record list \<Rightarrow> (raw_record \<times> signal) list \<Rightarrow> run_stats
    \<Rightarrow> ('d, 'a) run_world_scheme \<Rightarrow> (failure + (raw_record \<times> signal) list \<times> run_stats) \<times> ('d, 'a) run_world_scheme" where
  "normalize_and_dedup env ctx [] emitted st w = (Inr (emitted, st), w)"
| "normalize_and_dedup env ctx (r # rs) emitted st w =
     (case normalize_at env (calls w) r of
        Unmappable \<Rightarrow> normalize_and_dedup env ctx rs emitted (st\<lparr>st_dlq := st_dlq st + 1\<rparr>) (called w)
      | Norm_Fails f \<Rightarrow> (Inl f, called w)
      | Dropped \<Rightarrow> normalize_and_dedup env ctx rs emitted (st\<lparr>st_dropped := st_dropped st + 1\<rparr>) (called w)
      | Normalized s \<Rightarrow>
          (case is_duplicate env ctx s (called w) of
             (True, w) \<Rightarrow> normalize_and_dedup env ctx rs emitted (st\<lparr>st_duplicates := st_duplicates st + 1\<rparr>) w
           | (False, w) \<Rightarrow> normalize_and_dedup env ctx rs (emitted @ [(r, s)]) (st\<lparr>st_emitted := st_emitted st + 1\<rparr>) w))"

definition observe_headers :: "'d connector_env \<Rightarrow> fetch_page \<Rightarrow> ('d, 'a) run_world_scheme \<Rightarrow> failure option \<times> ('d, 'a) run_world_scheme" where
  "observe_headers env page w =
     (if raw_headers page = [] then (None, w)
      else (case hint_of env (raw_headers page) of
          None \<Rightarrow> (None, w)
        | Some hint \<Rightarrow> (case observe_at env of
              None \<Rightarrow> (None, w)
            | Some ask \<Rightarrow> (ask (calls w) hint, called w))))"

definition watermark_floor :: "cursor option \<Rightarrow> instant option" where
  "watermark_floor c = (case c of None \<Rightarrow> None | Some c \<Rightarrow> if is_readable c then watermark c else None)"

definition guard_watermark :: "cursor \<Rightarrow> instant option \<Rightarrow> cursor" where
  "guard_watermark c fl =
     (case fl of
        None \<Rightarrow> c
      | Some t \<Rightarrow> (case watermark c of
            Some u \<Rightarrow> if u \<ge> t then c else c\<lparr>watermark := Some t\<rparr>
          | None \<Rightarrow> c\<lparr>watermark := Some t\<rparr>))"

text \<open>A second is a million microseconds.\<close>

definition shift_back :: "instant \<Rightarrow> int \<Rightarrow> instant" where
  "shift_back t seconds = t - seconds * 1000000"

definition effective_start :: "sync_context \<Rightarrow> cursor option \<Rightarrow> cursor" where
  "effective_start ctx c =
     (case c of
        None \<Rightarrow> empty_cursor
      | Some c \<Rightarrow>
          if cursor_is_empty c then empty_cursor
          else if \<not> is_readable c then empty_cursor
          else (case watermark c of
              None \<Rightarrow> c
            | Some t \<Rightarrow> c\<lparr>watermark := Some (shift_back t (overlap_seconds ctx))\<rparr>))"

text \<open>The body of the loop of \<open>run\<close> up to its \<open>yield\<close>.\<close>

definition page_batch :: "'d connector_env \<Rightarrow> sync_context \<Rightarrow> instant option \<Rightarrow> fetch_page \<Rightarrow> run_stats
    \<Rightarrow> ('d, 'a) run_world_scheme \<Rightarrow> (failure + emitted_batch) \<times> ('d, 'a) run_world_scheme" where
  "page_batch env ctx fl page st w =
     (let st = st\<lparr>st_pages := st_pages st + 1, st_fetched := st_fetched st + int (length (page_records page))\<rparr> in
      case observe_headers env page w of
        (Some f, w) \<Rightarrow> (Inl f, w)
      | (None, w) \<Rightarrow>
          (case normalize_and_dedup env ctx (page_records page) [] st w of
             (Inl f, w) \<Rightarrow> (Inl f, w)
           | (Inr (emitted, st), w) \<Rightarrow>
               (Inr \<lparr>batch_records = emitted, batch_cursor = guard_watermark (page_cursor page) fl, batch_stats = st\<rparr>, w)))"

definition budget_exhausted :: "sync_context \<Rightarrow> run_stats \<Rightarrow> bool" where
  "budget_exhausted ctx st \<longleftrightarrow>
     (case max_pages ctx of None \<Rightarrow> False | Some n \<Rightarrow> st_pages st \<ge> n) \<or>
     (case max_records ctx of None \<Rightarrow> False | Some n \<Rightarrow> st_emitted st \<ge> n)"

end
