(* ===== verification/Connector_Runtime.thy ===== *)
theory Connector_Runtime
  imports Connector_Run
begin

text \<open>
  \<open>services/connector_service.py\<close>: the runtime that makes the output of a connector durable. The object
  store, the broker, the tables and the clock are functions of an environment that see the number of calls made
  so far and may fail each time. The world keeps the table of cursors, the table of accounts, the breaker
  and a journal, the latest last: what the connector handed over, what became durable, what was committed.
\<close>

section \<open>Keys and rows\<close>

type_synonym cursor_key = "string \<times> string \<times> string"

text \<open>\<open>dumps\<close> is the canonical JSON of the parameters and the mode, \<open>sha\<close> the hexadecimal digest.\<close>

definition sync_params_hash :: "(string \<Rightarrow> string) \<Rightarrow> ('p \<Rightarrow> bool \<Rightarrow> string) \<Rightarrow> 'p \<Rightarrow> bool \<Rightarrow> string" where
  "sync_params_hash sha dumps params mode = sha (dumps params mode)"

definition key_row_id :: "(string \<Rightarrow> string) \<Rightarrow> cursor_key \<Rightarrow> string" where
  "key_row_id sha k = (case k of (slug, account, h) \<Rightarrow> ''cur_'' @ take 40 (sha (slug @ '':'' @ account @ '':'' @ h)))"

definition for_context :: "(string \<Rightarrow> string) \<Rightarrow> ('p \<Rightarrow> bool \<Rightarrow> string) \<Rightarrow> 'p \<Rightarrow> sync_context \<Rightarrow> cursor_key" where
  "for_context sha dumps params ctx = (ctx_slug ctx, account_id ctx, sync_params_hash sha dumps params (backfill ctx))"

record cursor_row =
  row_page_token :: "string option"
  row_checkpoint :: "(string \<times> string) list"
  row_version :: int
  row_watermark :: "instant option"

definition cursor_of_row :: "cursor_row \<Rightarrow> cursor" where
  "cursor_of_row r = \<lparr>cursor_version = row_version r, watermark = row_watermark r, page_token = row_page_token r,
     checkpoint = row_checkpoint r\<rparr>"

definition row_of_cursor :: "cursor \<Rightarrow> cursor_row" where
  "row_of_cursor c = \<lparr>row_page_token = page_token c, row_checkpoint = checkpoint c, row_version = cursor_version c,
     row_watermark = watermark c\<rparr>"

record account_row =
  needs_reauth :: bool
  last_error :: "connector_error option"
  account_failures :: int
  next_sync_at :: "pyfloat option"

definition rate_limit_buckets :: "rate_limit_policy \<Rightarrow> string \<Rightarrow> string \<Rightarrow> bool \<Rightarrow> (string \<times> (py_error + bucket_policy)) list" where
  "rate_limit_buckets policy slug account mode =
     [(''os:rl:'' @ slug, from_rate_limit_policy policy mode),
      (''os:rl:'' @ slug @ '':'' @ account, from_rate_limit_policy policy mode),
      (''os:rl:'' @ slug @ '':backfill'', from_rate_limit_policy policy True)]"

section \<open>The journal\<close>

record raw_event =
  ev_platform :: string
  ev_native_id :: string
  ev_slug :: string
  ev_version :: string
  ev_run_id :: string
  ev_fetched_at :: instant
  ev_object_key :: "string option"
  ev_sha256 :: "string option"
  ev_raw_bytes :: int
  ev_content_type :: string
  ev_source_url :: "string option"
  ev_fingerprint :: "string option"

datatype journal_entry =
    Yielded emitted_batch
  | Acked raw_record signal raw_event
  | Parked raw_record signal
  | Committed cursor_key cursor

record stored_object =
  so_key :: string
  so_sha256 :: string
  so_size :: int

text \<open>
  The object store stores, defers (\<open>ExternalServiceError\<close>, \<open>DependencyUnavailableError\<close>), refuses the payload
  (\<open>PermanentError\<close>, \<open>ValueError\<close>), or fails in another way.
\<close>

datatype archived = Stored stored_object | Deferred | Unarchivable | Archive_Fails failure

record 'd runtime_env = "'d connector_env" +
  archive_at :: "nat \<Rightarrow> string \<Rightarrow> instant \<Rightarrow> string \<Rightarrow> archived"
  publish_at :: "nat \<Rightarrow> raw_event \<Rightarrow> failure option"
  publish_dlq_at :: "nat \<Rightarrow> signal \<Rightarrow> string \<Rightarrow> failure option"
  table_at :: "nat \<Rightarrow> failure option"
  payload_dumps :: "string \<Rightarrow> string"
  has_accounts :: bool
  error_attr :: "connector_error \<Rightarrow> string \<Rightarrow> raw_number option"
  pace :: "unit page_env"
  policy :: backoff_policy

record 'd runtime_world = "'d run_world" +
  journal :: "journal_entry list"
  cursors :: "cursor_key \<Rightarrow> cursor_row option"
  accounts :: "string \<Rightarrow> account_row option"
  rt_breaker :: breaker

definition write_down :: "journal_entry \<Rightarrow> 'd runtime_world \<Rightarrow> 'd runtime_world" where
  "write_down e w = w\<lparr>journal := journal w @ [e]\<rparr>"

section \<open>The state of a run\<close>

record run_state =
  rn_cursor :: cursor
  rn_emitted :: int
  totals :: run_stats
  attempt_stats :: run_stats

definition begin_attempt :: "run_state \<Rightarrow> run_state" where
  "begin_attempt st = st\<lparr>attempt_stats := zero_stats\<rparr>"

definition absorb :: "run_stats \<Rightarrow> run_state \<Rightarrow> run_state" where
  "absorb s st =
     (let t = totals st; a = attempt_stats st in
      st\<lparr>totals := t\<lparr>st_fetched := st_fetched t + (st_fetched s - st_fetched a),
            st_dropped := st_dropped t + (st_dropped s - st_dropped a),
            st_duplicates := st_duplicates t + (st_duplicates s - st_duplicates a),
            st_dlq := st_dlq t + (st_dlq s - st_dlq a),
            st_pages := st_pages t + (st_pages s - st_pages a)\<rparr>,
         attempt_stats := s\<rparr>)"

section \<open>One batch\<close>

definition py_or :: "string option \<Rightarrow> string option \<Rightarrow> string option" where
  "py_or a b = (case a of None \<Rightarrow> b | Some s \<Rightarrow> if s = [] then b else a)"

definition event_of :: "raw_record \<Rightarrow> signal \<Rightarrow> string \<Rightarrow> stored_object option \<Rightarrow> raw_event" where
  "event_of r s raw stored =
     \<lparr>ev_platform = sig_platform s, ev_native_id = lineage_native_id s, ev_slug = lineage_slug s,
      ev_version = lineage_version s, ev_run_id = lineage_run_id s, ev_fetched_at = fetched_at r,
      ev_object_key = map_option so_key stored, ev_sha256 = map_option so_sha256 stored,
      ev_raw_bytes = (case stored of None \<Rightarrow> int (length raw) | Some o' \<Rightarrow> so_size o'),
      ev_content_type = content_type r, ev_source_url = py_or (source_url r) (sig_url s),
      ev_fingerprint = py_or (request_fingerprint r) (lineage_fingerprint s)\<rparr>"

definition to_dlq :: "'d runtime_env \<Rightarrow> raw_record \<Rightarrow> signal \<Rightarrow> string \<Rightarrow> run_state \<times> 'd runtime_world
    \<Rightarrow> failure option \<times> run_state \<times> 'd runtime_world" where
  "to_dlq env r s raw sw =
     (case sw of (st, w) \<Rightarrow>
        let st = st\<lparr>totals := (totals st)\<lparr>st_dlq := st_dlq (totals st) + 1\<rparr>\<rparr> in
        (case publish_dlq_at env (calls w) s raw of
           Some f \<Rightarrow> (Some f, st, called w)
         | None \<Rightarrow> (None, st, write_down (Parked r s) (called w))))"

type_synonym pending = "raw_record \<times> signal \<times> raw_event"

definition archive_record :: "'d runtime_env \<Rightarrow> raw_record \<Rightarrow> signal \<Rightarrow> run_state \<times> 'd runtime_world
    \<Rightarrow> (failure + pending option) \<times> run_state \<times> 'd runtime_world" where
  "archive_record env r s sw =
     (case sw of (st, w) \<Rightarrow>
        let raw = (case raw_bytes r of Some b \<Rightarrow> b | None \<Rightarrow> payload_dumps env (rr_payload r)) in
        (case archive_at env (calls w) (sig_platform s) (fetched_at r) raw of
           Stored o' \<Rightarrow> (Inr (Some (r, s, event_of r s raw (Some o'))), st, called w)
         | Deferred \<Rightarrow> (Inr (Some (r, s, event_of r s raw None)), st, called w)
         | Archive_Fails f \<Rightarrow> (Inl f, st, called w)
         | Unarchivable \<Rightarrow>
             (case to_dlq env r s raw (st, called w) of
                (Some f, sw) \<Rightarrow> (Inl f, sw)
              | (None, sw) \<Rightarrow> (Inr None, sw))))"

fun archive_all :: "'d runtime_env \<Rightarrow> (raw_record \<times> signal) list \<Rightarrow> pending list \<Rightarrow> run_state \<times> 'd runtime_world
    \<Rightarrow> (failure + pending list) \<times> run_state \<times> 'd runtime_world" where
  "archive_all env [] events sw = (Inr events, sw)"
| "archive_all env ((r, s) # rs) events sw =
     (case archive_record env r s sw of
        (Inl f, sw) \<Rightarrow> (Inl f, sw)
      | (Inr None, sw) \<Rightarrow> archive_all env rs events sw
      | (Inr (Some e), sw) \<Rightarrow> archive_all env rs (events @ [e]) sw)"

fun publish_all :: "'d runtime_env \<Rightarrow> pending list \<Rightarrow> run_state \<times> 'd runtime_world
    \<Rightarrow> failure option \<times> run_state \<times> 'd runtime_world" where
  "publish_all env [] sw = (None, sw)"
| "publish_all env ((r, s, e) # es) (st, w) =
     (case publish_at env (calls w) e of
        Some f \<Rightarrow> (Some f, st, called w)
      | None \<Rightarrow> publish_all env es (st\<lparr>rn_emitted := rn_emitted st + 1\<rparr>, write_down (Acked r s e) (called w)))"

definition advances :: "cursor \<Rightarrow> cursor \<Rightarrow> bool" where
  "advances candidate committed \<longleftrightarrow>
     (case watermark committed of
        None \<Rightarrow> True
      | Some t \<Rightarrow> (case watermark candidate of None \<Rightarrow> False | Some u \<Rightarrow> u \<ge> t))"

definition store_commit :: "'d runtime_env \<Rightarrow> cursor_key \<Rightarrow> cursor \<Rightarrow> 'd runtime_world \<Rightarrow> failure option \<times> 'd runtime_world" where
  "store_commit env key c w =
     (case table_at env (calls w) of
        Some f \<Rightarrow> (Some f, called w)
      | None \<Rightarrow> (None, write_down (Committed key c) ((called w)\<lparr>cursors := (cursors w)(key \<mapsto> row_of_cursor c)\<rparr>)))"

definition commit_cursor :: "'d runtime_env \<Rightarrow> cursor_key \<Rightarrow> cursor \<Rightarrow> run_state \<times> 'd runtime_world
    \<Rightarrow> failure option \<times> run_state \<times> 'd runtime_world" where
  "commit_cursor env key c sw =
     (case sw of (st, w) \<Rightarrow>
        if \<not> advances c (rn_cursor st) then (None, st, w)
        else (case store_commit env key c w of
            (Some f, w) \<Rightarrow> (Some f, st, w)
          | (None, w) \<Rightarrow> (None, st\<lparr>rn_cursor := c\<rparr>, w)))"

definition persist_batch :: "'d runtime_env \<Rightarrow> cursor_key \<Rightarrow> emitted_batch \<Rightarrow> run_state \<times> 'd runtime_world
    \<Rightarrow> failure option \<times> run_state \<times> 'd runtime_world" where
  "persist_batch env key b sw =
     (case archive_all env (batch_records b) [] sw of
        (Inl f, sw) \<Rightarrow> (Some f, sw)
      | (Inr events, sw) \<Rightarrow>
          (case publish_all env events sw of
             (Some f, sw) \<Rightarrow> (Some f, sw)
           | (None, sw) \<Rightarrow> commit_cursor env key (batch_cursor b) sw))"

section \<open>One attempt\<close>

fun drain_steps :: "'d runtime_env \<Rightarrow> sync_context \<Rightarrow> cursor_key \<Rightarrow> instant option \<Rightarrow> fetch_step list \<Rightarrow> run_stats
    \<Rightarrow> run_state \<times> 'd runtime_world \<Rightarrow> failure option \<times> run_state \<times> 'd runtime_world" where
  "drain_steps env ctx key fl [] s sw = (None, sw)"
| "drain_steps env ctx key fl (Fetch_Fails f # steps) s sw = (Some f, sw)"
| "drain_steps env ctx key fl (Fetched p # steps) s (st, w) =
     (case page_batch (connector_env.truncate env) ctx fl p s w of
        (Inl f, w) \<Rightarrow> (Some f, st, w)
      | (Inr b, w) \<Rightarrow>
          (case persist_batch env key b (absorb (batch_stats b) st, write_down (Yielded b) w) of
             (Some f, sw) \<Rightarrow> (Some f, sw)
           | (None, sw) \<Rightarrow>
               if budget_exhausted ctx (batch_stats b) then (None, sw)
               else drain_steps env ctx key fl steps (batch_stats b) sw))"

definition drain_source :: "'d runtime_env \<Rightarrow> sync_context \<Rightarrow> cursor_key \<Rightarrow> run_state \<times> 'd runtime_world
    \<Rightarrow> failure option \<times> run_state \<times> 'd runtime_world" where
  "drain_source env ctx key sw =
     (case sw of (st, w) \<Rightarrow>
        let st = begin_attempt st; fl = watermark_floor (Some (rn_cursor st)); start = effective_start ctx (Some (rn_cursor st)) in
        (case authenticate_at env (calls w) of
           Some f \<Rightarrow> (Some f, st, called w)
         | None \<Rightarrow> drain_steps env ctx key fl (fetch_at env (calls (called w)) start) zero_stats (st, called (called w))))"

section \<open>The retries\<close>

definition error_class :: "connector_error \<Rightarrow> error_kind" where
  "error_class e = (if kind e = Circuit_Open then Quota else kind e)"

text \<open>The operation \<open>run\<close> hands to \<open>retry_page\<close>, and the loop around it.\<close>

definition drain_op :: "'d runtime_env \<Rightarrow> sync_context \<Rightarrow> cursor_key \<Rightarrow> nat \<Rightarrow> run_state \<times> 'd runtime_world
    \<Rightarrow> unit op_result \<times> run_state \<times> 'd runtime_world" where
  "drain_op env ctx key k sw =
     (case drain_source env ctx key sw of
        (None, sw) \<Rightarrow> (Returned (), sw)
      | (Some Defect, sw) \<Rightarrow> (Crashed, sw)
      | (Some (Source e), sw) \<Rightarrow> (Raised e, sw))"

fun page_failure :: "unit page_result \<Rightarrow> failure option" where
  "page_failure (Page u) = None"
| "page_failure (Page_Error e) = Some (Source e)"
| "page_failure Page_Crash = Some Defect"

definition retry_drain :: "'d runtime_env \<Rightarrow> sync_context \<Rightarrow> cursor_key \<Rightarrow> pacing \<Rightarrow> run_state \<times> 'd runtime_world
    \<Rightarrow> failure option \<times> pacing \<times> run_state \<times> 'd runtime_world" where
  "retry_drain env ctx key c sw =
     (case retry_with (policy env) (pace env) (drain_op env ctx key) c sw of
        (res, c, sw) \<Rightarrow> (page_failure res, c, sw))"

section \<open>The end of a run\<close>

record sync_result =
  sr_fetched :: int
  sr_emitted :: int
  sr_dropped :: int
  sr_duplicates :: int
  sr_dlq :: int
  sr_pages :: int
  sr_cursor :: cursor
  sr_error :: "connector_error option"

definition succeeded :: "sync_result \<Rightarrow> bool" where
  "succeeded r \<longleftrightarrow> sr_error r = None"

definition is_partial :: "sync_result \<Rightarrow> bool" where
  "is_partial r \<longleftrightarrow> (case sr_error r of None \<Rightarrow> False | Some e \<Rightarrow> error_class e = Quota) \<and> sr_emitted r > 0"

definition result_of :: "run_state \<Rightarrow> connector_error option \<Rightarrow> sync_result" where
  "result_of st e =
     \<lparr>sr_fetched = st_fetched (totals st), sr_emitted = rn_emitted st, sr_dropped = st_dropped (totals st),
      sr_duplicates = st_duplicates (totals st), sr_dlq = st_dlq (totals st), sr_pages = st_pages (totals st),
      sr_cursor = rn_cursor st, sr_error = e\<rparr>"

definition positive :: "raw_number option \<Rightarrow> pyfloat option" where
  "positive v = (case v of Some (Number x) \<Rightarrow> if x > 0 then Some x else None | _ \<Rightarrow> None)"

definition resume_at :: "'d runtime_env \<Rightarrow> pyfloat \<Rightarrow> connector_error \<Rightarrow> pyfloat option" where
  "resume_at env wall e =
     (case positive (error_attr env e ''reset_at'') of
        Some t \<Rightarrow> Some t
      | None \<Rightarrow>
          (case positive (error_attr env e ''opens_until'') of
             Some t \<Rightarrow> Some t
           | None \<Rightarrow>
               map_option (\<lambda>d. wall + d)
                 (positive (case attr_retry_after e of None \<Rightarrow> details_retry_after e | Some v \<Rightarrow> Some v))))"

text \<open>A row that is missing is left alone; a write that fails raises.\<close>

definition account_write :: "'d runtime_env \<Rightarrow> string \<Rightarrow> (account_row \<Rightarrow> account_row) \<Rightarrow> 'd runtime_world
    \<Rightarrow> failure option \<times> 'd runtime_world" where
  "account_write env aid f w =
     (case table_at env (calls w) of
        Some e \<Rightarrow> (Some e, called w)
      | None \<Rightarrow> (None, (called w)\<lparr>accounts := (case accounts w aid of None \<Rightarrow> accounts w | Some row \<Rightarrow> (accounts w)(aid \<mapsto> f row))\<rparr>))"

definition flag_needs_reauth :: "'d runtime_env \<Rightarrow> sync_context \<Rightarrow> connector_error \<Rightarrow> 'd runtime_world
    \<Rightarrow> failure option \<times> 'd runtime_world" where
  "flag_needs_reauth env ctx e w =
     (if \<not> has_accounts env then (None, w)
      else account_write env (account_id ctx)
        (\<lambda>row. row\<lparr>needs_reauth := True, last_error := Some e, account_failures := account_failures row + 1\<rparr>) w)"

definition checkpoint_cursor :: "'d runtime_env \<Rightarrow> cursor_key \<Rightarrow> run_state \<Rightarrow> 'd runtime_world \<Rightarrow> failure option \<times> 'd runtime_world" where
  "checkpoint_cursor env key st w =
     (if cursor_is_empty (rn_cursor st) then (None, w) else store_commit env key (rn_cursor st) w)"

definition reschedule :: "'d runtime_env \<Rightarrow> sync_context \<Rightarrow> pyfloat \<Rightarrow> connector_error \<Rightarrow> 'd runtime_world
    \<Rightarrow> failure option \<times> 'd runtime_world" where
  "reschedule env ctx wall e w =
     (case resume_at env wall e of
        None \<Rightarrow> (None, w)
      | Some t \<Rightarrow> if \<not> has_accounts env then (None, w)
          else account_write env (account_id ctx) (\<lambda>row. row\<lparr>next_sync_at := Some t\<rparr>) w)"

definition handle_failure :: "'d runtime_env \<Rightarrow> sync_context \<Rightarrow> cursor_key \<Rightarrow> pyfloat \<Rightarrow> connector_error \<Rightarrow> run_state
    \<Rightarrow> 'd runtime_world \<Rightarrow> (failure + sync_result) \<times> 'd runtime_world" where
  "handle_failure env ctx key wall e st w =
     (let (f, w) =
        (if error_class e = Auth then flag_needs_reauth env ctx e w
         else if error_class e = Quota then
           (case checkpoint_cursor env key st w of
              (Some f, w) \<Rightarrow> (Some f, w)
            | (None, w) \<Rightarrow> reschedule env ctx wall e w)
         else (None, w)) in
      (case f of Some f \<Rightarrow> Inl f | None \<Rightarrow> Inr (result_of st (Some e)), w))"

definition breaker_key :: "sync_context \<Rightarrow> string" where
  "breaker_key ctx = ctx_slug ctx @ '':'' @ account_id ctx"

text \<open>What follows the drain: the breaker is told of an error of the source, not of a defect.\<close>

definition finish_run :: "'d runtime_env \<Rightarrow> sync_context \<Rightarrow> cursor_key \<Rightarrow> failure option \<times> pacing \<times> run_state \<times> 'd runtime_world
    \<Rightarrow> (failure + sync_result) \<times> 'd runtime_world" where
  "finish_run env ctx key res =
     (case res of (f, c, st, w) \<Rightarrow>
        (case f of
           None \<Rightarrow> (Inr (result_of st None), w\<lparr>rt_breaker := record_success (rt_breaker w) (breaker_key ctx)\<rparr>)
         | Some Defect \<Rightarrow> (Inl Defect, w)
         | Some (Source e) \<Rightarrow>
             handle_failure env ctx key (wall_clock (pace env) (now c)) e st
               (w\<lparr>rt_breaker := snd (record_failure (rt_breaker w) (wall_clock (pace env) (now c)) (breaker_key ctx))\<rparr>)))"

definition start_state :: "cursor \<Rightarrow> run_state" where
  "start_state c = \<lparr>rn_cursor = c, rn_emitted = 0, totals = zero_stats, attempt_stats = zero_stats\<rparr>"

definition run_connector :: "'d runtime_env \<Rightarrow> sync_context \<Rightarrow> cursor_key \<Rightarrow> pyfloat \<Rightarrow> 'd runtime_world
    \<Rightarrow> (failure + sync_result) \<times> 'd runtime_world" where
  "run_connector env ctx key start w =
     (case table_at env (calls w) of
        Some f \<Rightarrow> (Inl f, called w)
      | None \<Rightarrow>
          let st = start_state (case cursors w key of None \<Rightarrow> empty_cursor | Some r \<Rightarrow> cursor_of_row r); w = called w in
          (case check (rt_breaker w) (wall_clock (pace env) start) (breaker_key ctx) of
             Inl e \<Rightarrow> handle_failure env ctx key (wall_clock (pace env) start) e st w
           | Inr b \<Rightarrow>
               finish_run env ctx key (retry_drain env ctx key \<lparr>started = start, now = start, attempts = 0, slept = []\<rparr>
                 (st, w\<lparr>rt_breaker := b\<rparr>))))"

end
