(* ===== verification/Runtime_Laws.thy ===== *)
theory Runtime_Laws
  imports Connector_Runtime Dedup_Laws Backoff_Laws
begin

text \<open>
  What the ingestion runtime promises, for every connector, broker, store, table and clock: a cursor moves
  only past a batch whose records are settled, the watermark of an account never moves back, what is reported as
  emitted is what the broker acknowledged, every record of a page is accounted for, and the retries keep
  the policy of \<open>retry_page\<close>.
\<close>

section \<open>One page\<close>

definition accounted :: "run_stats \<Rightarrow> int" where
  "accounted st = st_emitted st + st_dropped st + st_duplicates st + st_dlq st"

lemma normalize_accounts:
  "normalize_and_dedup env ctx rs acc st w = (Inr (emitted, st'), w') \<Longrightarrow>
     accounted st' = accounted st + int (length rs) \<and> st_pages st' = st_pages st \<and> st_fetched st' = st_fetched st \<and>
     (\<exists>new. emitted = acc @ new \<and> set (map fst new) \<subseteq> set rs \<and> st_emitted st' = st_emitted st + int (length new))"
proof (induction env ctx rs acc st w rule: normalize_and_dedup.induct)
  case (1 env ctx acc st w)
  then show ?case by simp
next
  case (2 env ctx r rs acc st w)
  show ?case
  proof (cases "normalize_at env (calls w) r")
    case (Normalized s)
    obtain b w1 where d: "is_duplicate env ctx s (called w) = (b, w1)" by fastforce
    show ?thesis
    proof (cases b)
      case True
      with d have t: "is_duplicate env ctx s (called w) = (True, w1)" by simp
      have "normalize_and_dedup env ctx rs acc (st\<lparr>st_duplicates := st_duplicates st + 1\<rparr>) w1 = (Inr (emitted, st'), w')"
        using 2(5) Normalized t by simp
      from 2(1) [OF Normalized t [symmetric] refl this] obtain new where "emitted = acc @ new" "set (map fst new) \<subseteq> set rs"
        "accounted st' = accounted (st\<lparr>st_duplicates := st_duplicates st + 1\<rparr>) + int (length rs)" "st_pages st' = st_pages st"
        "st_fetched st' = st_fetched st" "st_emitted st' = st_emitted st + int (length new)" by auto
      then show ?thesis by (intro conjI exI [of _ new]) (auto simp: accounted_def)
    next
      case False
      with d have t: "is_duplicate env ctx s (called w) = (False, w1)" by simp
      have "normalize_and_dedup env ctx rs (acc @ [(r, s)]) (st\<lparr>st_emitted := st_emitted st + 1\<rparr>) w1 = (Inr (emitted, st'), w')"
        using 2(5) Normalized t by simp
      from 2(2) [OF Normalized t [symmetric] refl this] obtain new where "emitted = (acc @ [(r, s)]) @ new" "set (map fst new) \<subseteq> set rs"
        "accounted st' = accounted (st\<lparr>st_emitted := st_emitted st + 1\<rparr>) + int (length rs)" "st_pages st' = st_pages st"
        "st_fetched st' = st_fetched st" "st_emitted st' = st_emitted st + 1 + int (length new)" by auto
      then show ?thesis by (intro conjI exI [of _ "(r, s) # new"]) (auto simp: accounted_def)
    qed
  next
    case Dropped
    with 2(5) have "normalize_and_dedup env ctx rs acc (st\<lparr>st_dropped := st_dropped st + 1\<rparr>) (called w) = (Inr (emitted, st'), w')" by simp
    from 2(3) [OF Dropped this] obtain new where "emitted = acc @ new" "set (map fst new) \<subseteq> set rs"
      "accounted st' = accounted (st\<lparr>st_dropped := st_dropped st + 1\<rparr>) + int (length rs)" "st_pages st' = st_pages st"
      "st_fetched st' = st_fetched st" "st_emitted st' = st_emitted st + int (length new)" by auto
    then show ?thesis by (intro conjI exI [of _ new]) (auto simp: accounted_def)
  next
    case Unmappable
    with 2(5) have "normalize_and_dedup env ctx rs acc (st\<lparr>st_dlq := st_dlq st + 1\<rparr>) (called w) = (Inr (emitted, st'), w')" by simp
    from 2(4) [OF Unmappable this] obtain new where "emitted = acc @ new" "set (map fst new) \<subseteq> set rs"
      "accounted st' = accounted (st\<lparr>st_dlq := st_dlq st + 1\<rparr>) + int (length rs)" "st_pages st' = st_pages st"
      "st_fetched st' = st_fetched st" "st_emitted st' = st_emitted st + int (length new)" by auto
    then show ?thesis by (intro conjI exI [of _ new]) (auto simp: accounted_def)
  next
    case (Norm_Fails f)
    with 2 show ?thesis by simp
  qed
qed

lemma page_batchE:
  assumes "page_batch env ctx fl p st w = (Inr b, w')"
  shows "accounted (batch_stats b) = accounted st + int (length (page_records p)) \<and>
    st_pages (batch_stats b) = st_pages st + 1 \<and> st_fetched (batch_stats b) = st_fetched st + int (length (page_records p)) \<and>
    set (map fst (batch_records b)) \<subseteq> set (page_records p) \<and>
    st_emitted (batch_stats b) = st_emitted st + int (length (batch_records b)) \<and>
    batch_cursor b = guard_watermark (page_cursor p) fl"
proof -
  from assms obtain em st' w1 where
    n: "normalize_and_dedup env ctx (page_records p) [] (st\<lparr>st_pages := st_pages st + 1,
          st_fetched := st_fetched st + int (length (page_records p))\<rparr>) w1 = (Inr (em, st'), w')"
    and b: "b = \<lparr>batch_records = em, batch_cursor = guard_watermark (page_cursor p) fl, batch_stats = st'\<rparr>"
    by (auto simp: page_batch_def Let_def split: prod.splits option.splits sum.splits)
  from normalize_accounts [OF n] b show ?thesis by (auto simp: accounted_def)
qed

text \<open>
  C16. No record of a page disappears from the books: whenever a batch is yielded, the records fetched so far in the attempt are
  those emitted, dropped, found to be duplicates and counted for the dead-letter queue, together; the
  batch holds records of its page only; and its watermark is not below the one the run started from.
\<close>

theorem pages_balance:
  assumes "page_batch env ctx fl p st w = (Inr b, w')" and "accounted st = st_fetched st"
  shows "accounted (batch_stats b) = st_fetched (batch_stats b) \<and>
    st_fetched (batch_stats b) = st_fetched st + int (length (page_records p)) \<and>
    set (map fst (batch_records b)) \<subseteq> set (page_records p) \<and>
    (\<forall>t. fl = Some t \<longrightarrow> (\<exists>u. watermark (batch_cursor b) = Some u \<and> t \<le> u))"
  using page_batchE [OF assms(1)] assms(2) by (auto simp: guard_watermark_def split: option.splits)

section \<open>One batch\<close>

text \<open>What an operation may add to the journal: entries that satisfy a predicate, in front of nothing else.\<close>

definition adds :: "(journal_entry list \<Rightarrow> bool) \<Rightarrow> 'd runtime_world \<Rightarrow> 'd runtime_world \<Rightarrow> bool" where
  "adds P w w' \<longleftrightarrow> (\<exists>J. journal w' = journal w @ J \<and> P J)"

fun settles :: "journal_entry \<Rightarrow> (raw_record \<times> signal) option" where
  "settles (Acked r s e) = Some (r, s)"
| "settles (Parked r s) = Some (r, s)"
| "settles _ = None"

fun is_acked :: "journal_entry \<Rightarrow> bool" where
  "is_acked (Acked r s e) = True"
| "is_acked _ = False"

definition acks :: "journal_entry list \<Rightarrow> int" where
  "acks J = int (length (filter is_acked J))"

lemma acks_append [simp]: "acks (J @ K) = acks J + acks K" "acks [] = 0"
  by (simp_all add: acks_def)

lemma journal_called [simp]: "journal (called w) = journal w" "cursors (called w) = cursors w"
  by (simp_all add: called_def)

lemma journal_write [simp]: "journal (write_down e w) = journal w @ [e]" "cursors (write_down e w) = cursors w"
  by (simp_all add: write_down_def)

lemma archive_record_adds:
  assumes "archive_record env r s (st, w) = (res, st', w')"
  shows "cursors w' = cursors w \<and> rn_cursor st' = rn_cursor st \<and> rn_emitted st' = rn_emitted st \<and>
    (case res of
       Inl f \<Rightarrow> journal w' = journal w
     | Inr None \<Rightarrow> journal w' = journal w @ [Parked r s]
     | Inr (Some (r', s', e)) \<Rightarrow> journal w' = journal w \<and> r' = r \<and> s' = s)"
  using assms
  by (auto simp: archive_record_def to_dlq_def Let_def split: archived.splits option.splits prod.splits if_splits)

lemma archive_all_adds:
  "archive_all env rs acc (st, w) = (res, st', w') \<Longrightarrow>
     cursors w' = cursors w \<and> rn_cursor st' = rn_cursor st \<and> rn_emitted st' = rn_emitted st \<and>
     (\<exists>J. journal w' = journal w @ J \<and> list_all (\<lambda>e. settles e \<noteq> None \<and> \<not> is_acked e) J \<and>
       (\<forall>events. res = Inr events \<longrightarrow>
          (\<exists>new. events = acc @ new \<and> (\<forall>x \<in> set rs. Some x \<in> settles ` set J \<or> x \<in> (\<lambda>(r, s, e). (r, s)) ` set new))))"
proof (induction rs arbitrary: acc st w)
  case Nil
  then show ?case by (intro conjI exI [of _ "[]"]) auto
next
  case (Cons x rs)
  obtain r s where x: "x = (r, s)" by (cases x)
  obtain res1 st1 w1 where a: "archive_record env r s (st, w) = (res1, st1, w1)" by (cases "archive_record env r s (st, w)") auto
  note step = archive_record_adds [OF a]
  show ?case
  proof (cases res1)
    case (Inl f)
    with Cons.prems a step x show ?thesis by (intro conjI exI [of _ "[]"]) auto
  next
    case (Inr o1)
    show ?thesis
    proof (cases o1)
      case None
      with Inr Cons.prems a x have "archive_all env rs acc (st1, w1) = (res, st', w')" by simp
      from Cons.IH [OF this] obtain J where
        J: "cursors w' = cursors w1" "rn_cursor st' = rn_cursor st1" "rn_emitted st' = rn_emitted st1" "journal w' = journal w1 @ J"
          "list_all (\<lambda>e. settles e \<noteq> None \<and> \<not> is_acked e) J"
        and new: "\<And>events. res = Inr events \<Longrightarrow>
          \<exists>new. events = acc @ new \<and> (\<forall>x \<in> set rs. Some x \<in> settles ` set J \<or> x \<in> (\<lambda>(r, s, e). (r, s)) ` set new)" by blast
      from step Inr None have s1: "journal w1 = journal w @ [Parked r s]" "cursors w1 = cursors w" "rn_cursor st1 = rn_cursor st"
        "rn_emitted st1 = rn_emitted st" by simp_all
      have "\<exists>new. events = acc @ new \<and>
          (\<forall>y \<in> set (x # rs). Some y \<in> settles ` set (Parked r s # J) \<or> y \<in> (\<lambda>(r, s, e). (r, s)) ` set new)" if "res = Inr events" for events
        using new [OF that] x by auto
      with J s1 show ?thesis by (intro conjI exI [of _ "Parked r s # J"]) simp_all
    next
      case (Some p)
      obtain e where p: "p = (r, s, e)" using step Inr Some by (cases p) auto
      with Inr Some Cons.prems a x have "archive_all env rs (acc @ [(r, s, e)]) (st1, w1) = (res, st', w')" by simp
      from Cons.IH [OF this] obtain J where
        J: "cursors w' = cursors w1" "rn_cursor st' = rn_cursor st1" "rn_emitted st' = rn_emitted st1" "journal w' = journal w1 @ J"
          "list_all (\<lambda>e. settles e \<noteq> None \<and> \<not> is_acked e) J"
        and new: "\<And>events. res = Inr events \<Longrightarrow>
          \<exists>new. events = (acc @ [(r, s, e)]) @ new \<and> (\<forall>x \<in> set rs. Some x \<in> settles ` set J \<or> x \<in> (\<lambda>(r, s, e). (r, s)) ` set new)" by blast
      from step Inr Some p have s1: "journal w1 = journal w" "cursors w1 = cursors w" "rn_cursor st1 = rn_cursor st"
        "rn_emitted st1 = rn_emitted st" by simp_all
      have "\<exists>new. events = acc @ new \<and>
          (\<forall>y \<in> set (x # rs). Some y \<in> settles ` set J \<or> y \<in> (\<lambda>(r, s, e). (r, s)) ` set new)" if "res = Inr events" for events
      proof -
        from new [OF that] obtain n where n: "events = (acc @ [(r, s, e)]) @ n"
          "\<forall>x \<in> set rs. Some x \<in> settles ` set J \<or> x \<in> (\<lambda>(r, s, e). (r, s)) ` set n" by blast
        then show ?thesis using x by (intro exI [of _ "(r, s, e) # n"]) auto
      qed
      with J s1 show ?thesis by (intro conjI exI [of _ J]) simp_all
    qed
  qed
qed

lemma publish_all_adds:
  "publish_all env es (st, w) = (f, st', w') \<Longrightarrow>
     cursors w' = cursors w \<and> rn_cursor st' = rn_cursor st \<and>
     (\<exists>J. journal w' = journal w @ J \<and> list_all is_acked J \<and> rn_emitted st' = rn_emitted st + acks J \<and>
       (f = None \<longrightarrow> (\<forall>(r, s, e) \<in> set es. Acked r s e \<in> set J)))"
proof (induction env es "(st, w)" arbitrary: st w rule: publish_all.induct)
  case (1 env st w)
  then show ?case by simp
next
  case (2 env r s e es st w)
  show ?case
  proof (cases "publish_at env (calls w) e")
    case (Some g)
    with 2(2) show ?thesis by (intro conjI exI [of _ "[]"]) auto
  next
    case None
    with 2(2) have "publish_all env es (st\<lparr>rn_emitted := rn_emitted st + 1\<rparr>, write_down (Acked r s e) (called w)) = (f, st', w')" by simp
    from 2(1) [OF None this] obtain J where J: "cursors w' = cursors w" "rn_cursor st' = rn_cursor st"
      "journal w' = (journal w @ [Acked r s e]) @ J" "list_all is_acked J" "rn_emitted st' = rn_emitted st + 1 + acks J"
      "f = None \<longrightarrow> (\<forall>(r, s, e) \<in> set es. Acked r s e \<in> set J)" by auto
    then show ?thesis by (intro conjI exI [of _ "Acked r s e # J"]) (auto simp: acks_def)
  qed
qed

lemma acked_settles: "is_acked e \<Longrightarrow> settles e \<noteq> None"
  by (cases e) simp_all

lemma persist_batch_adds:
  assumes "persist_batch env key b (st, w) = (f, st', w')"
  shows "\<exists>J. list_all (\<lambda>e. settles e \<noteq> None) J \<and> rn_emitted st' = rn_emitted st + acks J \<and>
    (journal w' = journal w @ J \<and> cursors w' = cursors w \<and> rn_cursor st' = rn_cursor st \<or>
     f = None \<and> journal w' = journal w @ J @ [Committed key (batch_cursor b)] \<and>
       cursors w' = (cursors w)(key \<mapsto> row_of_cursor (batch_cursor b)) \<and> rn_cursor st' = batch_cursor b \<and>
       advances (batch_cursor b) (rn_cursor st) \<and>
       (\<forall>x \<in> set (batch_records b). Some x \<in> settles ` set J))"
proof -
  obtain res st1 w1 where a: "archive_all env (batch_records b) [] (st, w) = (res, st1, w1)"
    by (cases "archive_all env (batch_records b) [] (st, w)") auto
  from archive_all_adds [OF a] obtain J1 where J1: "cursors w1 = cursors w" "rn_cursor st1 = rn_cursor st" "rn_emitted st1 = rn_emitted st"
    "journal w1 = journal w @ J1" "list_all (\<lambda>e. settles e \<noteq> None \<and> \<not> is_acked e) J1"
    and new: "\<And>events. res = Inr events \<Longrightarrow>
      \<forall>x \<in> set (batch_records b). Some x \<in> settles ` set J1 \<or> x \<in> (\<lambda>(r, s, e). (r, s)) ` set events" by force
  have s1: "list_all (\<lambda>e. settles e \<noteq> None) J1" "acks J1 = 0"
    using J1(5) by (auto simp: list_all_iff acks_def filter_empty_conv)
  show ?thesis
  proof (cases res)
    case (Inl g)
    with assms a J1 s1 show ?thesis by (intro exI [of _ J1]) (simp add: persist_batch_def)
  next
    case (Inr events)
    obtain g st2 w2 where p: "publish_all env events (st1, w1) = (g, st2, w2)"
      by (cases "publish_all env events (st1, w1)") auto
    from publish_all_adds [OF p] obtain J2 where J2: "cursors w2 = cursors w1" "rn_cursor st2 = rn_cursor st1"
      "journal w2 = journal w1 @ J2" "list_all is_acked J2" "rn_emitted st2 = rn_emitted st1 + acks J2"
      "g = None \<longrightarrow> (\<forall>(r, s, e) \<in> set events. Acked r s e \<in> set J2)" by blast
    have s2: "list_all (\<lambda>e. settles e \<noteq> None) (J1 @ J2)" using s1(1) J2(4) acked_settles by (auto simp: list_all_iff)
    show ?thesis
    proof (cases g)
      case (Some h)
      with assms a Inr p J1 J2 s1 s2 show ?thesis by (intro exI [of _ "J1 @ J2"]) (simp add: persist_batch_def)
    next
      case None
      have all: "\<forall>x \<in> set (batch_records b). Some x \<in> settles ` set (J1 @ J2)"
      proof
        fix x assume "x \<in> set (batch_records b)"
        with new [OF Inr] consider "Some x \<in> settles ` set J1" | r s e where "(r, s, e) \<in> set events" "x = (r, s)" by fastforce
        then show "Some x \<in> settles ` set (J1 @ J2)"
        proof cases
          case 1
          then show ?thesis by auto
        next
          case 2
          with J2(6) None have "Acked r s e \<in> set J2" by fastforce
          with 2(2) have "Some x = settles (Acked r s e)" "Acked r s e \<in> set (J1 @ J2)" by simp_all
          then show ?thesis by (rule image_eqI)
        qed
      qed
      have c: "commit_cursor env key (batch_cursor b) (st2, w2) = (f, st', w')"
        using assms a Inr p None by (simp add: persist_batch_def)
      show ?thesis
      proof (cases "advances (batch_cursor b) (rn_cursor st2) \<and> table_at env (calls w2) = None")
        case True
        with c J1 J2 s1 s2 all show ?thesis
          by (intro exI [of _ "J1 @ J2"]) (auto simp: commit_cursor_def store_commit_def)
      next
        case False
        with c J1 J2 s1 s2 show ?thesis
          by (intro exI [of _ "J1 @ J2"]) (auto simp: commit_cursor_def store_commit_def split: if_splits option.splits)
      qed
    qed
  qed
qed

end
