(* ===== verification/Ingestion_Laws.thy ===== *)
theory Ingestion_Laws
  imports Runtime_Laws
begin

text \<open>
  The runtime over a whole run and over many: commits follow settlement, watermarks do not move back, emitted means
  acknowledged, and the retries are those of \<open>retry_page\<close>.
\<close>

declare split_paired_All [simp del] split_paired_Ex [simp del]

section \<open>The order of the journal\<close>

definition settled_by :: "journal_entry list \<Rightarrow> emitted_batch \<Rightarrow> bool" where
  "settled_by S b \<longleftrightarrow> list_all (\<lambda>e. settles e \<noteq> None) S \<and> (\<forall>x \<in> set (batch_records b). Some x \<in> settles ` set S)"

text \<open>A commit is earned if the batch it belongs to was handed over before and settled in between.\<close>

definition earned :: "cursor_key \<Rightarrow> cursor \<Rightarrow> journal_entry list \<Rightarrow> bool" where
  "earned key c A \<longleftrightarrow> (\<exists>b A1 S. A = A1 @ Yielded b # S \<and> batch_cursor b = c \<and> settled_by S b)"

definition all_earned :: "cursor_key \<Rightarrow> journal_entry list \<Rightarrow> bool" where
  "all_earned key J \<longleftrightarrow> (\<forall>A k c B. J = A @ Committed k c # B \<longrightarrow> k = key \<and> earned key c A)"

lemma all_earned_none: "(\<And>k c. Committed k c \<notin> set J) \<Longrightarrow> all_earned key J"
proof -
  assume none: "\<And>k c. Committed k c \<notin> set J"
  have "J \<noteq> A @ Committed k c # B" for A k c B using none [of k c] by auto
  then show ?thesis unfolding all_earned_def by blast
qed

lemma earned_longer: "earned key c A \<Longrightarrow> earned key c (J @ A)"
  unfolding earned_def by (elim exE conjE) (rule exI, rule_tac x = "J @ A1" in exI, auto)

lemma all_earned_append:
  assumes "all_earned key J" and "all_earned key K"
  shows "all_earned key (J @ K)"
  unfolding all_earned_def
proof (intro allI impI)
  fix A k c B assume eq: "J @ K = A @ Committed k c # B"
  from eq obtain us where us: "J = A @ us \<and> us @ K = Committed k c # B \<or> J @ us = A \<and> K = us @ Committed k c # B"
    by (auto simp: append_eq_append_conv2)
  consider B' where "J = A @ Committed k c # B'" | A' where "A = J @ A'" "K = A' @ Committed k c # B"
  proof (cases "J @ us = A \<and> K = us @ Committed k c # B")
    case True
    with that(2) show ?thesis by blast
  next
    case False
    with us have u: "J = A @ us" "us @ K = Committed k c # B" by blast+
    show ?thesis
    proof (cases us)
      case Nil
      with u that(2) [of "[]"] show ?thesis by simp
    next
      case (Cons u us')
      with u that(1) show ?thesis by simp
    qed
  qed
  then show "k = key \<and> earned key c A"
  proof cases
    case 1
    with assms(1) show ?thesis unfolding all_earned_def by blast
  next
    case 2
    with assms(2) have "k = key \<and> earned key c A'" unfolding all_earned_def by blast
    with 2(1) earned_longer show ?thesis by blast
  qed
qed

lemma settled_no_commit: "list_all (\<lambda>e. settles e \<noteq> None) S \<Longrightarrow> Committed k c \<notin> set S"
  by (auto simp: list_all_iff)

lemma all_earned_batch:
  assumes "settled_by S b"
  shows "all_earned key (Yielded b # S @ [Committed key (batch_cursor b)])"
  unfolding all_earned_def
proof (intro allI impI)
  fix A k c B assume eq: "Yielded b # S @ [Committed key (batch_cursor b)] = A @ Committed k c # B"
  have S: "list_all (\<lambda>e. settles e \<noteq> None) S" using assms by (simp add: settled_by_def)
  from eq obtain A' where A: "A = Yielded b # A'" and eq': "S @ [Committed key (batch_cursor b)] = A' @ Committed k c # B"
    by (cases A) auto
  have "B = []"
  proof (rule ccontr)
    assume "B \<noteq> []"
    then obtain B' z where "B = B' @ [z]" by (metis rev_exhaust)
    with eq' have "S = A' @ Committed k c # B'" by simp
    with settled_no_commit [OF S, of k c] show False by simp
  qed
  with eq' have "A' = S \<and> Committed key (batch_cursor b) = Committed k c" by auto
  with A have "A = [] @ Yielded b # S" "k = key" "batch_cursor b = c" by simp_all
  with assms show "k = key \<and> earned key c A" unfolding earned_def by blast
qed

section \<open>What every part of a run keeps\<close>

lemma advances_refl: "advances c c"
  by (simp add: advances_def split: option.splits)

lemma advances_trans: "advances b a \<Longrightarrow> advances c b \<Longrightarrow> advances c a"
  by (auto simp: advances_def split: option.splits)

definition in_step :: "cursor_key \<Rightarrow> run_state \<Rightarrow> 'd runtime_world \<Rightarrow> bool" where
  "in_step key st w \<longleftrightarrow>
     (case cursors w key of None \<Rightarrow> rn_cursor st = empty_cursor | Some r \<Rightarrow> r = row_of_cursor (rn_cursor st))"

definition grows :: "cursor_key \<Rightarrow> run_state \<times> 'd runtime_world \<Rightarrow> run_state \<times> 'd runtime_world \<Rightarrow> bool" where
  "grows key sw sw' \<longleftrightarrow>
     (\<exists>J. journal (snd sw') = journal (snd sw) @ J \<and> all_earned key J \<and>
        rn_emitted (fst sw') = rn_emitted (fst sw) + acks J \<and>
        (rn_cursor (fst sw') = rn_cursor (fst sw) \<or> Committed key (rn_cursor (fst sw')) \<in> set J)) \<and>
     (\<forall>k. k \<noteq> key \<longrightarrow> cursors (snd sw') k = cursors (snd sw) k) \<and>
     advances (rn_cursor (fst sw')) (rn_cursor (fst sw)) \<and>
     (in_step key (fst sw) (snd sw) \<longrightarrow> in_step key (fst sw') (snd sw'))"

lemma grows_refl:
  "journal w' = journal w \<Longrightarrow> cursors w' = cursors w \<Longrightarrow> rn_cursor st' = rn_cursor st \<Longrightarrow> rn_emitted st' = rn_emitted st \<Longrightarrow>
     grows key (st, w) (st', w')"
  unfolding grows_def
  by (intro conjI exI [of _ "[]"]) (simp_all add: in_step_def advances_refl all_earned_none acks_def split: option.splits)

lemma grows_trans:
  assumes "grows key a b" and "grows key b c"
  shows "grows key a c"
proof -
  from assms obtain J K where
    J: "journal (snd b) = journal (snd a) @ J" "all_earned key J" "rn_emitted (fst b) = rn_emitted (fst a) + acks J"
      "rn_cursor (fst b) = rn_cursor (fst a) \<or> Committed key (rn_cursor (fst b)) \<in> set J"
    and K: "journal (snd c) = journal (snd b) @ K" "all_earned key K" "rn_emitted (fst c) = rn_emitted (fst b) + acks K"
      "rn_cursor (fst c) = rn_cursor (fst b) \<or> Committed key (rn_cursor (fst c)) \<in> set K"
    unfolding grows_def by blast
  have "\<exists>L. journal (snd c) = journal (snd a) @ L \<and> all_earned key L \<and> rn_emitted (fst c) = rn_emitted (fst a) + acks L \<and>
      (rn_cursor (fst c) = rn_cursor (fst a) \<or> Committed key (rn_cursor (fst c)) \<in> set L)"
    using J K all_earned_append [OF J(2) K(2)] by (intro exI [of _ "J @ K"]) auto
  moreover have "advances (rn_cursor (fst c)) (rn_cursor (fst a))"
    using assms advances_trans unfolding grows_def by blast
  moreover have "\<forall>k. k \<noteq> key \<longrightarrow> cursors (snd c) k = cursors (snd a) k" using assms unfolding grows_def by simp
  moreover have "in_step key (fst a) (snd a) \<longrightarrow> in_step key (fst c) (snd c)" using assms unfolding grows_def by blast
  ultimately show ?thesis unfolding grows_def by blast
qed

lemma persist_grows:
  assumes "persist_batch env key b (st, write_down (Yielded b) w) = (f, st', w')"
  shows "grows key (st, w) (st', w')"
proof -
  from persist_batch_adds [OF assms] obtain J where J: "list_all (\<lambda>e. settles e \<noteq> None) J" "rn_emitted st' = rn_emitted st + acks J"
    and c: "journal w' = journal w @ Yielded b # J \<and> cursors w' = cursors w \<and> rn_cursor st' = rn_cursor st \<or>
      journal w' = journal w @ Yielded b # J @ [Committed key (batch_cursor b)] \<and>
       cursors w' = (cursors w)(key \<mapsto> row_of_cursor (batch_cursor b)) \<and> rn_cursor st' = batch_cursor b \<and>
       advances (batch_cursor b) (rn_cursor st) \<and> settled_by J b"
    by (auto simp: settled_by_def)
  from c show ?thesis
  proof
    assume *: "journal w' = journal w @ Yielded b # J \<and> cursors w' = cursors w \<and> rn_cursor st' = rn_cursor st"
    have "all_earned key (Yielded b # J)" using settled_no_commit [OF J(1)] by (intro all_earned_none) auto
    with * J(2) show ?thesis
      unfolding grows_def by (intro conjI exI [of _ "Yielded b # J"]) (simp_all add: in_step_def advances_refl acks_def split: option.splits)
  next
    assume *: "journal w' = journal w @ Yielded b # J @ [Committed key (batch_cursor b)] \<and>
       cursors w' = (cursors w)(key \<mapsto> row_of_cursor (batch_cursor b)) \<and> rn_cursor st' = batch_cursor b \<and>
       advances (batch_cursor b) (rn_cursor st) \<and> settled_by J b"
    with all_earned_batch [of J b key] J(2) show ?thesis
      unfolding grows_def
      by (intro conjI exI [of _ "Yielded b # J @ [Committed key (batch_cursor b)]"]) (simp_all add: in_step_def acks_def)
  qed
qed

text \<open>The work on a page touches the dedup store and the number of calls.\<close>

definition touches :: "('d, 'a) run_world_scheme \<Rightarrow> ('d, 'a) run_world_scheme \<Rightarrow> bool" where
  "touches w w' \<longleftrightarrow> (\<exists>d n. w' = w\<lparr>dedup_state := d, calls := n\<rparr>)"

lemma touches_refl: "touches w w"
  unfolding touches_def by (intro exI [of _ "dedup_state w"] exI [of _ "calls w"]) simp

lemma touches_call: "touches w (called w)" "touches w (called (w\<lparr>dedup_state := d\<rparr>))"
  unfolding touches_def called_def
  by (intro exI [of _ "dedup_state w"] exI [of _ "calls w + 1"], simp) (intro exI [of _ d] exI [of _ "calls w + 1"], simp)

lemma touches_trans: "touches u v \<Longrightarrow> touches v w \<Longrightarrow> touches u w"
  unfolding touches_def
proof (elim exE)
  fix d n da na assume "v = u\<lparr>dedup_state := d, calls := n\<rparr>" "w = v\<lparr>dedup_state := da, calls := na\<rparr>"
  then show "\<exists>d n. w = u\<lparr>dedup_state := d, calls := n\<rparr>" by (intro exI [of _ da] exI [of _ na]) simp
qed

lemma seen_any_world: "seen_any port ks w = (b, w') \<Longrightarrow> touches w w'"
proof (induction ks arbitrary: w)
  case Nil
  then show ?case by (simp add: touches_refl)
next
  case (Cons k ks)
  show ?case
  proof (cases k)
    case None
    with Cons show ?thesis by simp
  next
    case (Some j)
    obtain c d where p: "port_seen port (calls w) j (dedup_state w) = (c, d)" by fastforce
    show ?thesis
    proof (cases c)
      case True
      with Cons.prems p Some touches_call show ?thesis by auto
    next
      case False
      with Cons.prems p Some have "seen_any port ks (called (w\<lparr>dedup_state := d\<rparr>)) = (b, w')" by simp
      from touches_trans [OF touches_call(2) Cons.IH [OF this]] show ?thesis .
    qed
  qed
qed

lemma mark_all_world: "touches w (mark_all port ttl ks w)"
proof (induction port ttl ks w rule: mark_all.induct)
  case (3 port ttl k ks w)
  from touches_trans [OF touches_call(2) 3] show ?case by simp
qed (simp_all add: touches_refl)

lemma is_duplicate_world: "is_duplicate env ctx s w = (b, w') \<Longrightarrow> touches w w'"
proof (cases "dedup_of env")
  case None
  assume "is_duplicate env ctx s w = (b, w')"
  with None show ?thesis by (simp add: is_duplicate_def touches_refl)
next
  case (Some port)
  assume d: "is_duplicate env ctx s w = (b, w')"
  let ?ks = "[Some (dk_identity (dedup_keys_of env s)), dk_content (dedup_keys_of env s)]"
  obtain c w1 where s: "seen_any port ?ks w = (c, w1)" by fastforce
  have "w' = (if c then w1 else mark_all port (dedup_ttl_seconds ctx) ?ks w1)"
    using d s Some by (cases c) (simp_all add: is_duplicate_def Let_def del: seen_any.simps mark_all.simps)
  then show ?thesis using seen_any_world [OF s] mark_all_world [of w1 port "dedup_ttl_seconds ctx" ?ks] touches_trans by (metis (full_types))
qed

lemma normalize_world: "normalize_and_dedup env ctx rs acc st w = (res, w') \<Longrightarrow> touches w w'"
proof (induction rs arbitrary: acc st w)
  case Nil
  then show ?case by (simp add: touches_refl)
next
  case (Cons r rs)
  show ?case
  proof (cases "normalize_at env (calls w) r")
    case (Normalized s)
    obtain b w1 where d: "is_duplicate env ctx s (called w) = (b, w1)" by fastforce
    have t: "touches w w1" using touches_trans [OF touches_call(1) is_duplicate_world [OF d]] .
    from Cons.prems Normalized d have "\<exists>acc' st'. normalize_and_dedup env ctx rs acc' st' w1 = (res, w')"
      by (cases b) (simp_all, blast+)
    with Cons.IH t touches_trans show ?thesis by blast
  next
    case (Norm_Fails f)
    with Cons.prems show ?thesis by (auto simp: touches_call)
  next
    case Dropped
    with Cons.prems have "\<exists>acc' st'. normalize_and_dedup env ctx rs acc' st' (called w) = (res, w')" by (simp, blast)
    with Cons.IH touches_call(1) touches_trans show ?thesis by blast
  next
    case Unmappable
    with Cons.prems have "\<exists>acc' st'. normalize_and_dedup env ctx rs acc' st' (called w) = (res, w')" by (simp, blast)
    with Cons.IH touches_call(1) touches_trans show ?thesis by blast
  qed
qed

lemma page_batch_world: "page_batch env ctx fl p st w = (res, w') \<Longrightarrow> touches w w'"
proof -
  assume pb: "page_batch env ctx fl p st w = (res, w')"
  obtain f w1 where o: "observe_headers env p w = (f, w1)" by fastforce
  then have "w1 = w \<or> w1 = called w" by (auto simp: observe_headers_def split: if_splits option.splits)
  then have w1: "touches w w1" using touches_refl touches_call(1) by metis
  show ?thesis
  proof (cases f)
    case (Some g)
    with pb o w1 show ?thesis by (auto simp: page_batch_def Let_def)
  next
    case None
    let ?st = "st\<lparr>st_pages := st_pages st + 1, st_fetched := st_fetched st + int (length (page_records p))\<rparr>"
    obtain res1 w2 where n: "normalize_and_dedup env ctx (page_records p) [] ?st w1 = (res1, w2)" by fastforce
    moreover have "w' = w2" using pb o None n by (auto simp: page_batch_def Let_def split: sum.splits)
    ultimately show ?thesis using touches_trans [OF w1 normalize_world [OF n]] by simp
  qed
qed

lemma drain_steps_grows:
  "drain_steps env ctx key fl steps s (st, w) = (f, st', w') \<Longrightarrow> grows key (st, w) (st', w')"
proof (induction steps arbitrary: s st w)
  case Nil
  then show ?case by (simp add: grows_refl)
next
  case (Cons step steps)
  show ?case
  proof (cases step)
    case (Fetch_Fails g)
    with Cons.prems show ?thesis by (simp add: grows_refl)
  next
    case (Fetched p)
    obtain r w1 where pb: "page_batch (connector_env.truncate env) ctx fl p s w = (r, w1)" by fastforce
    from page_batch_world [OF this] have w1: "journal w1 = journal w" "cursors w1 = cursors w" by (auto simp: touches_def)
    show ?thesis
    proof (cases r)
      case (Inl g)
      with Cons.prems Fetched pb w1 show ?thesis by (auto intro: grows_refl)
    next
      case (Inr b)
      obtain g st2 w2 where p: "persist_batch env key b (absorb (batch_stats b) st, write_down (Yielded b) w1) = (g, st2, w2)"
        by (cases "persist_batch env key b (absorb (batch_stats b) st, write_down (Yielded b) w1)") auto
      have "grows key (st, w) (absorb (batch_stats b) st, w1)" using w1 by (intro grows_refl) (simp_all add: absorb_def Let_def)
      from grows_trans [OF this persist_grows [OF p]] have g1: "grows key (st, w) (st2, w2)" .
      have rest: "f = g \<and> st' = st2 \<and> w' = w2 \<or> drain_steps env ctx key fl steps (batch_stats b) (st2, w2) = (f, st', w')"
        using Cons.prems Fetched pb Inr p by (auto split: option.splits if_splits)
      then show ?thesis using g1 Cons.IH grows_trans by blast
    qed
  qed
qed

lemma drain_source_grows: "drain_source env ctx key (st, w) = (f, st', w') \<Longrightarrow> grows key (st, w) (st', w')"
proof -
  assume d: "drain_source env ctx key (st, w) = (f, st', w')"
  show ?thesis
  proof (cases "authenticate_at env (calls w)")
    case (Some g)
    with d show ?thesis by (auto simp: drain_source_def Let_def begin_attempt_def intro: grows_refl)
  next
    case None
    have "grows key (st, w) (begin_attempt st, called (called w))" by (intro grows_refl) (simp_all add: begin_attempt_def)
    moreover have "drain_steps env ctx key (watermark_floor (Some (rn_cursor (begin_attempt st))))
        (fetch_at env (calls (called w)) (effective_start ctx (Some (rn_cursor (begin_attempt st))))) zero_stats
        (begin_attempt st, called (called w)) = (f, st', w')"
      using d None by (simp add: drain_source_def Let_def)
    ultimately show ?thesis using drain_steps_grows grows_trans by blast
  qed
qed

lemma drain_op_cases:
  "drain_op env ctx key k sw = (x, sw') \<Longrightarrow> \<exists>g. drain_source env ctx key sw = (g, sw') \<and>
     x = (case g of None \<Rightarrow> Returned () | Some Defect \<Rightarrow> Crashed | Some (Source e) \<Rightarrow> Raised e)"
  by (auto simp: drain_op_def split: prod.splits option.splits failure.splits)

lemma retry_drain_grows:
  assumes "retry_drain env ctx key c sw = (f, c', sw')"
  shows "grows key sw sw'"
proof -
  obtain res where "retry_with (policy env) (pace env) (drain_op env ctx key) c sw = (res, c', sw')"
    using assms by (auto simp: retry_drain_def split: prod.splits)
  then show ?thesis
  proof (rule retry_with_keeps [rotated 2])
    show "grows key s s1" if "drain_op env ctx key k s = (x, s1)" for k s x s1
      using drain_op_cases [OF that] drain_source_grows [of env ctx key "fst s" "snd s" _ "fst s1" "snd s1"] by auto
  qed (rule grows_trans)
qed

section \<open>A whole run\<close>

text \<open>A commit is in order if it is earned, or writes again what was committed before: the checkpoint of a quota.\<close>

definition in_order :: "cursor_key \<Rightarrow> cursor \<Rightarrow> journal_entry list \<Rightarrow> bool" where
  "in_order key c0 J \<longleftrightarrow>
     (\<forall>A k c B. J = A @ Committed k c # B \<longrightarrow> k = key \<and> (earned key c A \<or> c = c0 \<or> Committed key c \<in> set A))"

definition stored_cursor :: "cursor_key \<Rightarrow> 'd runtime_world \<Rightarrow> cursor" where
  "stored_cursor key w = (case cursors w key of None \<Rightarrow> empty_cursor | Some r \<Rightarrow> cursor_of_row r)"

lemma row_round_trip [simp]: "cursor_of_row (row_of_cursor c) = c" "row_of_cursor (cursor_of_row r) = r"
  by (simp_all add: cursor_of_row_def row_of_cursor_def)

lemma stored_in_step: "in_step key st w \<Longrightarrow> stored_cursor key w = rn_cursor st"
  by (auto simp: in_step_def stored_cursor_def split: option.splits)

lemma account_write_keeps: "account_write env aid g w = (f, w') \<Longrightarrow> journal w' = journal w \<and> cursors w' = cursors w"
  by (auto simp: account_write_def called_def split: option.splits)

lemma store_commit_keeps:
  "store_commit env key c w = (f, w') \<Longrightarrow>
     journal w' = journal w \<and> cursors w' = cursors w \<or>
     journal w' = journal w @ [Committed key c] \<and> cursors w' = (cursors w)(key \<mapsto> row_of_cursor c)"
  by (auto simp: store_commit_def called_def write_down_def split: option.splits)

lemma handle_failure_keeps:
  assumes "handle_failure env ctx key wall e st w = (res, w')" and "in_step key st w"
  shows "(journal w' = journal w \<or> journal w' = journal w @ [Committed key (rn_cursor st)]) \<and>
    (\<forall>k. k \<noteq> key \<longrightarrow> cursors w' k = cursors w k) \<and> in_step key st w' \<and>
    (\<forall>r. res = Inr r \<longrightarrow> r = result_of st (Some e))"
proof -
  let ?ok = "\<lambda>v. (journal v = journal w \<or> journal v = journal w @ [Committed key (rn_cursor st)]) \<and>
    (\<forall>k. k \<noteq> key \<longrightarrow> cursors v k = cursors w k) \<and> in_step key st v"
  have start: "?ok w" using assms(2) by simp
  have flag: "?ok v" if "flag_needs_reauth env ctx e w = (f, v)" for f v
    using that account_write_keeps start by (fastforce simp: flag_needs_reauth_def in_step_def split: if_splits)
  have chk: "?ok v" if "checkpoint_cursor env key st w = (f, v)" for f v
  proof (cases "cursor_is_empty (rn_cursor st)")
    case True
    with that start show ?thesis by (simp add: checkpoint_cursor_def)
  next
    case False
    with that have "store_commit env key (rn_cursor st) w = (f, v)" by (simp add: checkpoint_cursor_def)
    from store_commit_keeps [OF this] show ?thesis using start by (auto simp: in_step_def)
  qed
  have res: "?ok v" if "reschedule env ctx wall e u = (f, v)" "?ok u" for f u v
    using that account_write_keeps by (fastforce simp: reschedule_def in_step_def split: if_splits option.splits)
  from assms(1) obtain f where f: "(f, w') =
      (if error_class e = Auth then flag_needs_reauth env ctx e w
       else if error_class e = Quota then
         (case checkpoint_cursor env key st w of (Some f, w) \<Rightarrow> (Some f, w) | (None, w) \<Rightarrow> reschedule env ctx wall e w)
       else (None, w))" and r: "res = (case f of Some f \<Rightarrow> Inl f | None \<Rightarrow> Inr (result_of st (Some e)))"
    by (auto simp: handle_failure_def Let_def split: prod.splits)
  have "?ok w'"
  proof (cases "error_class e = Quota")
    case True
    obtain g v where c: "checkpoint_cursor env key st w = (g, v)" by fastforce
    show ?thesis
    proof (cases g)
      case None
      with f True c have "reschedule env ctx wall e v = (f, w')" by simp
      from res [OF this chk [OF c]] show ?thesis .
    next
      case (Some h)
      with f True c have "w' = v" by simp
      with chk [OF c] show ?thesis by simp
    qed
  next
    case False
    show ?thesis
    proof (cases "error_class e = Auth")
      case True
      with f False have "flag_needs_reauth env ctx e w = (f, w')" by simp
      then show ?thesis by (rule flag)
    next
      case no: False
      with f False have "w' = w" by simp
      with start show ?thesis by simp
    qed
  qed
  moreover have "\<forall>r. res = Inr r \<longrightarrow> r = result_of st (Some e)" using r by (auto split: option.splits)
  ultimately show ?thesis by blast
qed

text \<open>All a run does, in one lemma.\<close>

definition run_law :: "cursor_key \<Rightarrow> 'd runtime_world \<Rightarrow> failure + sync_result \<Rightarrow> 'd runtime_world \<Rightarrow> bool" where
  "run_law key w res w' \<longleftrightarrow>
     (\<exists>J. journal w' = journal w @ J \<and> in_order key (stored_cursor key w) J \<and>
        (\<forall>r. res = Inr r \<longrightarrow> sr_emitted r = acks J \<and> sr_cursor r = stored_cursor key w')) \<and>
     (\<forall>k. k \<noteq> key \<longrightarrow> cursors w' k = cursors w k) \<and>
     advances (stored_cursor key w') (stored_cursor key w)"

lemma in_order_earned: "all_earned key J \<Longrightarrow> in_order key c0 J"
  unfolding all_earned_def in_order_def by blast

lemma in_order_checkpoint:
  assumes "all_earned key J" and "c = c0 \<or> Committed key c \<in> set J"
  shows "in_order key c0 (J @ [Committed key c])"
  unfolding in_order_def
proof (intro allI impI)
  fix A k d B assume eq: "J @ [Committed key c] = A @ Committed k d # B"
  show "k = key \<and> (earned key d A \<or> d = c0 \<or> Committed key d \<in> set A)"
  proof (cases B rule: rev_cases)
    case Nil
    with eq have "J = A" "k = key" "d = c" by auto
    with assms(2) show ?thesis by simp
  next
    case (snoc B' z)
    with eq have "J = A @ Committed k d # B'" by simp
    with assms(1) show ?thesis unfolding all_earned_def by blast
  qed
qed

lemma grown_run_law:
  assumes g: "grows key (start_state (stored_cursor key w), w0) (st, w1)"
    and w0: "journal w0 = journal w" "cursors w0 = cursors w"
    and fin: "(journal w' = journal w1 \<or> journal w' = journal w1 @ [Committed key (rn_cursor st)])"
      "\<forall>k. k \<noteq> key \<longrightarrow> cursors w' k = cursors w1 k" "in_step key st w1 \<Longrightarrow> in_step key st w'"
      "\<forall>r. res = Inr r \<longrightarrow> (\<exists>e. r = result_of st e)"
  shows "run_law key w res w'"
proof -
  let ?c0 = "stored_cursor key w"
  have s0: "rn_cursor (start_state ?c0) = ?c0" "rn_emitted (start_state ?c0) = 0" by (simp_all add: start_state_def)
  have "in_step key (start_state ?c0) w0"
    using w0 by (auto simp: in_step_def start_state_def stored_cursor_def split: option.splits)
  with g fin(3) have step: "in_step key st w'" unfolding grows_def by simp
  from g obtain J where J: "journal w1 = journal w @ J" "all_earned key J" "rn_emitted st = acks J"
    "rn_cursor st = ?c0 \<or> Committed key (rn_cursor st) \<in> set J" using w0 s0 unfolding grows_def by auto
  have "\<exists>K. journal w' = journal w @ K \<and> in_order key ?c0 K \<and> acks K = acks J"
    using fin(1)
  proof
    assume "journal w' = journal w1"
    with J show ?thesis by (intro exI [of _ J]) (simp add: in_order_earned)
  next
    assume "journal w' = journal w1 @ [Committed key (rn_cursor st)]"
    with J in_order_checkpoint [OF J(2,4)] show ?thesis
      by (intro exI [of _ "J @ [Committed key (rn_cursor st)]"]) (simp add: acks_def)
  qed
  moreover have "r = result_of st e \<Longrightarrow> sr_emitted r = acks J \<and> sr_cursor r = stored_cursor key w'" for r e
    using J(3) stored_in_step [OF step] by (simp add: result_of_def)
  moreover have "advances (stored_cursor key w') ?c0" using g s0 stored_in_step [OF step] unfolding grows_def by simp
  moreover have "\<forall>k. k \<noteq> key \<longrightarrow> cursors w' k = cursors w k" using g w0 fin(2) unfolding grows_def by simp
  ultimately show ?thesis using fin(4) unfolding run_law_def by metis
qed

lemma run_connector_law: "run_connector env ctx key start w = (res, w') \<Longrightarrow> run_law key w res w'"
proof -
  assume run: "run_connector env ctx key start w = (res, w')"
  let ?st = "start_state (stored_cursor key w)"
  have zero: "grows key (?st, v) (?st, v)" for v by (intro grows_refl) simp_all
  have inst: "in_step key ?st v" if "cursors v = cursors w" for v
    using that by (auto simp: in_step_def start_state_def stored_cursor_def split: option.splits)
  show ?thesis
  proof (cases "table_at env (calls w)")
    case (Some f)
    with run have "res = Inl f" "w' = called w" by (simp_all add: run_connector_def)
    then show ?thesis by (intro grown_run_law [OF zero [of "called w"]]) simp_all
  next
    case None
    show ?thesis
    proof (cases "check (rt_breaker (called w)) (wall_clock (pace env) start) (breaker_key ctx)")
      case (Inl e)
      with run None have h: "handle_failure env ctx key (wall_clock (pace env) start) e ?st (called w) = (res, w')"
        by (simp add: run_connector_def stored_cursor_def)
      from handle_failure_keeps [OF this inst] show ?thesis
        by (intro grown_run_law [OF zero [of "called w"]]) auto
    next
      case (Inr b)
      let ?w0 = "(called w)\<lparr>rt_breaker := b\<rparr>"
      obtain f c st w1 where rd: "retry_drain env ctx key \<lparr>started = start, now = start, attempts = 0, slept = []\<rparr> (?st, ?w0) = (f, c, st, w1)"
        by (cases "retry_drain env ctx key \<lparr>started = start, now = start, attempts = 0, slept = []\<rparr> (?st, ?w0)") auto
      from retry_drain_grows [OF this] have g: "grows key (?st, ?w0) (st, w1)" .
      have fr: "finish_run env ctx key (f, c, st, w1) = (res, w')"
        using run None Inr rd by (simp add: run_connector_def stored_cursor_def Let_def)
      consider "f = None" | "f = Some Defect" | e where "f = Some (Source e)" by (metis failure.exhaust option.exhaust)
      then show ?thesis
      proof cases
        case 1
        with fr show ?thesis by (intro grown_run_law [OF g]) (auto simp: finish_run_def in_step_def)
      next
        case 2
        with fr show ?thesis by (intro grown_run_law [OF g]) (auto simp: finish_run_def)
      next
        case (3 e)
        let ?w2 = "w1\<lparr>rt_breaker := snd (record_failure (rt_breaker w1) (wall_clock (pace env) (now c)) (breaker_key ctx))\<rparr>"
        from 3 fr have h: "handle_failure env ctx key (wall_clock (pace env) (now c)) e st ?w2 = (res, w')"
          by (simp add: finish_run_def)
        have "in_step key ?st ?w0" by (rule inst) simp
        then have "in_step key st ?w2" using g unfolding grows_def by (simp add: in_step_def)
        from handle_failure_keeps [OF h this] show ?thesis by (intro grown_run_law [OF g]) auto
      qed
    qed
  qed
qed

section \<open>The laws\<close>

text \<open>
  C1. Commit after acknowledgement, never before: for any connector, any broker, store, table and clock,
  whatever fails and however often a run is retried, each commit of a cursor in the journal of a run is preceded by the
  batch it belongs to, and between the two every record of that batch was acknowledged by the broker or parked; or
  it repeats a cursor that was committed before, the checkpoint of a quota.
\<close>

theorem commits_follow_acks:
  assumes "run_connector env ctx key start w = (res, w')"
  shows "\<exists>J. journal w' = journal w @ J \<and> in_order key (stored_cursor key w) J"
  using run_connector_law [OF assms] unfolding run_law_def by blast

text \<open>
  C14. What is reported is what is durable: the number of emitted records of a result is the number of
  acknowledgements in the journal, and its cursor is the one the table holds.
\<close>

theorem results_are_durable:
  assumes "run_connector env ctx key start w = (Inr r, w')"
  shows "\<exists>J. journal w' = journal w @ J \<and> sr_emitted r = acks J \<and> sr_cursor r = stored_cursor key w'"
  using run_connector_law [OF assms] unfolding run_law_def by blast

text \<open>Runs one after the other, of any accounts and any outcomes.\<close>

fun run_all :: "('d runtime_env \<times> sync_context \<times> cursor_key \<times> pyfloat) list \<Rightarrow> 'd runtime_world \<Rightarrow> 'd runtime_world" where
  "run_all [] w = w"
| "run_all ((env, ctx, key, start) # runs) w = run_all runs (snd (run_connector env ctx key start w))"

text \<open>
  C2. The watermark of an account never moves back: after any sequence of runs, of this account and of others, that
  succeed, fail or crash, the stored watermark is not earlier than it was and is not lost.
\<close>

theorem watermarks_never_move_back:
  assumes "watermark (stored_cursor key w) = Some t"
  shows "\<exists>u. watermark (stored_cursor key (run_all runs w)) = Some u \<and> t \<le> u"
proof -
  have one: "advances (stored_cursor key (snd (run_connector env ctx k start v))) (stored_cursor key v)" for env ctx k start and v :: "'a runtime_world"
  proof -
    obtain res v' where r: "run_connector env ctx k start v = (res, v')" by fastforce
    from run_connector_law [OF this] have "k = key \<Longrightarrow> advances (stored_cursor key v') (stored_cursor key v)"
      "k \<noteq> key \<Longrightarrow> cursors v' key = cursors v key"
      unfolding run_law_def by metis+
    then have "k = key \<Longrightarrow> advances (stored_cursor key v') (stored_cursor key v)"
      "k \<noteq> key \<Longrightarrow> stored_cursor key v' = stored_cursor key v" by (simp_all add: stored_cursor_def)
    with r advances_refl show ?thesis by (cases "k = key") simp_all
  qed
  have "advances (stored_cursor key (run_all runs w)) (stored_cursor key w)"
    by (induction runs w rule: run_all.induct) (auto simp: advances_refl intro: advances_trans one)
  with assms show ?thesis by (auto simp: advances_def split: option.splits)
qed

section \<open>The retries\<close>




end
