(* ===== verification/Ingestion_Examples.thy ===== *)
theory Ingestion_Examples
  imports Ingestion_Laws Fingerprints
begin

text \<open>
  A small connector with the store of \<open>Dedup_Store\<close> in memory: runs on which the laws are applied, and
  four places where the runtime and its documentation part. The store is asked and marked before a batch is
  handed over, so a batch that is not settled is suppressed when it is fetched again.
\<close>

definition post :: "string \<Rightarrow> raw_record" where
  "post i = \<lparr>native_id = i, rr_payload = i, fetched_at = 0, raw_bytes = None, content_type = ''application/json'',
     source_url = None, request_fingerprint = None\<rparr>"

definition post_signal :: "string \<Rightarrow> signal" where
  "post_signal i = \<lparr>sig_id = i, sig_platform = ''hn'', sig_text = i, sig_url = None, lineage_native_id = i, lineage_slug = ''hn'',
     lineage_version = ''1'', lineage_run_id = ''r'', lineage_fingerprint = None\<rparr>"

definition page_at :: "string list \<Rightarrow> instant \<Rightarrow> fetch_page" where
  "page_at ids t = \<lparr>page_records = map post ids, page_cursor = empty_cursor\<lparr>watermark := Some t\<rparr>, raw_headers = []\<rparr>"

definition hn :: sync_context where
  "hn = \<lparr>ctx_slug = ''hn'', account_id = ''a'', run_id = ''r'', backfill = False, max_pages = Some 9, max_records = None,
     dedup_ttl_seconds = 604800, overlap_seconds = 300\<rparr>"

definition hn_key :: cursor_key where "hn_key = (''hn'', ''a'', ''h'')"

definition clocked :: "nat \<Rightarrow> moment" where "clocked n = (of_nat n, of_nat n)"

definition mem_port :: "deadlines dedup_port" where
  "mem_port = \<lparr>port_seen = (\<lambda>n k m. mem_seen (clocked n) k m), port_mark = (\<lambda>n k ttl m. mem_mark (clocked n) k ttl m)\<rparr>"

definition still :: "unit page_env" where
  "still = \<lparr>operation = (\<lambda>_. Crashed), op_seconds = (\<lambda>_. 0), draw = (\<lambda>_. 0), overshoot = (\<lambda>_. 0), wall_clock = id\<rparr>"

definition source_of :: "fetch_step list \<Rightarrow> deadlines runtime_env" where
  "source_of steps =
     \<lparr>authenticate_at = (\<lambda>_. None), fetch_at = (\<lambda>_ _. steps), normalize_at = (\<lambda>_ r. Normalized (post_signal (native_id r))),
      dedup_keys_of = base_dedup_keys id ''hn'', dedup_of = Some mem_port, observe_at = None, hint_of = (\<lambda>_. None),
      archive_at = (\<lambda>_ _ _ raw. Stored \<lparr>so_key = raw, so_sha256 = raw, so_size = int (length raw)\<rparr>),
      publish_at = (\<lambda>_ _. None), publish_dlq_at = (\<lambda>_ _ _. None), table_at = (\<lambda>_. None), payload_dumps = id,
      has_accounts = True, error_attr = (\<lambda>_ _. None), pace = still, policy = DEFAULT_POLICY\<rparr>"

definition fresh :: "deadlines runtime_world" where
  "fresh = \<lparr>dedup_state = [], calls = 0, journal = [], cursors = (\<lambda>_. None), accounts = (\<lambda>_. None),
     rt_breaker = \<lparr>failure_threshold = 5, open_seconds = 600, circuits = (\<lambda>_. None)\<rparr>\<rparr>"

definition outcome :: "(failure + sync_result) \<times> deadlines runtime_world \<Rightarrow> (failure + int \<times> int) \<times> int \<times> nat \<times> instant option" where
  "outcome rw =
     (map_sum id (\<lambda>r. (sr_emitted r, sr_duplicates r)) (fst rw), acks (journal (snd rw)),
      length (filter (\<lambda>e. case e of Committed k c \<Rightarrow> True | _ \<Rightarrow> False) (journal (snd rw))),
      watermark (stored_cursor hn_key (snd rw)))"

definition one_page :: "deadlines runtime_env" where "one_page = source_of [Fetched (page_at [''x'', ''y''] 100)]"

lemma good_run: "outcome (run_connector one_page hn hn_key 0 fresh) = (Inr (2, 0), 2, 1, Some 100)"
  by code_simp

section \<open>Witnesses\<close>

theorem commits_follow_acks_witness:
  "\<exists>J. journal (snd (run_connector one_page hn hn_key 0 fresh)) = J \<and> in_order hn_key empty_cursor J \<and> acks J = 2"
proof -
  obtain res w where r: "run_connector one_page hn hn_key 0 fresh = (res, w)" by fastforce
  from commits_follow_acks [OF r] obtain J where "journal w = journal fresh @ J" "in_order hn_key (stored_cursor hn_key fresh) J" by blast
  moreover have "acks (journal w) = 2" using good_run by (simp add: outcome_def r)
  ultimately show ?thesis using r by (simp add: fresh_def stored_cursor_def)
qed

theorem results_are_durable_witness:
  "\<exists>r w. run_connector one_page hn hn_key 0 fresh = (Inr r, w) \<and> sr_emitted r = acks (journal w)"
proof -
  obtain res w where run: "run_connector one_page hn hn_key 0 fresh = (res, w)" by fastforce
  with good_run obtain r where r: "res = Inr r" by (cases res) (auto simp: outcome_def)
  from results_are_durable [OF run [unfolded r]] run r show ?thesis by (auto simp: fresh_def)
qed

definition before :: "deadlines runtime_world" where
  "before = snd (run_connector one_page hn hn_key 0 fresh)"

theorem watermarks_never_move_back_witness:
  "\<exists>u. watermark (stored_cursor hn_key (run_all [(source_of [Fetched (page_at [''z''] 50)], hn, hn_key, 0)] before)) = Some u \<and> 100 \<le> u"
proof (rule watermarks_never_move_back)
  show "watermark (stored_cursor hn_key before) = Some 100" using good_run by (simp add: outcome_def before_def)
qed

theorem pages_balance_witness:
  "\<exists>b w. page_batch (connector_env.truncate one_page) hn (Some 7) (page_at [''x'', ''x''] 5) zero_stats fresh = (Inr b, w) \<and>
     accounted (batch_stats b) = 2"
proof -
  let ?run = "page_batch (connector_env.truncate one_page) hn (Some 7) (page_at [''x'', ''x''] 5) zero_stats fresh"
  have "(case fst ?run of Inl f \<Rightarrow> False | Inr b \<Rightarrow> True)" by code_simp
  then obtain b w where run: "?run = (Inr b, w)" by (cases "?run") (auto split: sum.splits)
  have "accounted zero_stats = st_fetched zero_stats" by (simp add: accounted_def zero_stats_def)
  from pages_balance [OF run this] have "accounted (batch_stats b) = 2" by (simp add: page_at_def zero_stats_def)
  with run show ?thesis by blast
qed

section \<open>Records that are lost\<close>

text \<open>
  The broker is down for the first run, which crashes with the cursor where it was, as it should. The next run fetches the
  same page, finds both records seen, emits nothing and commits the cursor past them: they were never published.
\<close>

definition broker_down :: "deadlines runtime_env" where
  "broker_down = one_page\<lparr>publish_at := (\<lambda>_ _. Some Defect)\<rparr>"

theorem failed_publish_loses_the_page:
  "outcome (run_connector broker_down hn hn_key 0 fresh) = (Inl Defect, 0, 0, None) \<and>
   outcome (run_connector one_page hn hn_key 0 (snd (run_connector broker_down hn hn_key 0 fresh))) = (Inr (0, 2), 0, 1, Some 100)"
  by code_simp

text \<open>Without the store the replay is what the documentation says: the page is published by the second run.\<close>

theorem replay_without_store_keeps_the_page:
  "outcome (run_connector (one_page\<lparr>dedup_of := None\<rparr>) hn hn_key 0
     (snd (run_connector (broker_down\<lparr>dedup_of := None\<rparr>) hn hn_key 0 fresh))) = (Inr (2, 0), 2, 1, Some 100)"
  by code_simp

text \<open>
  The same within one run: the second record of a page fails for a moment, the runtime fetches the page again, and the
  first record, marked but not handed over, is taken for a duplicate.
\<close>

definition hiccup :: "deadlines runtime_env" where
  "hiccup = one_page\<lparr>normalize_at := (\<lambda>n r. if native_id r = ''y'' \<and> n < 10
     then Norm_Fails (Source \<lparr>kind = Transient, attr_retry_after = None, details_retry_after = None\<rparr>)
     else Normalized (post_signal (native_id r)))\<rparr>"

theorem retried_page_loses_a_record:
  "outcome (run_connector hiccup hn hn_key 0 fresh) = (Inr (1, 1), 1, 1, Some 100)"
  by code_simp


text \<open>A record that cannot be mapped is counted for the dead-letter queue; nothing is parked, and the cursor passes it.\<close>

theorem unmappable_record_goes_nowhere:
  "let rw = run_connector (one_page\<lparr>normalize_at := (\<lambda>_ _. Unmappable)\<rparr>) hn hn_key 0 fresh in
   outcome rw = (Inr (0, 0), 0, 1, Some 100) \<and> map_sum id sr_dlq (fst rw) = Inr 2 \<and>
   list_all (\<lambda>e. settles e = None) (journal (snd rw))"
  by code_simp

section \<open>Commits that are refused\<close>

text \<open>
  A cursor of a newer shape is to mean a bounded re-sync; but its watermark still stands in the way of every
  commit, so the re-sync starts from nothing in every run until one of them catches up.
\<close>

definition newer :: "deadlines runtime_world" where
  "newer = fresh\<lparr>cursors := (\<lambda>_. Some \<lparr>row_page_token = None, row_checkpoint = [], row_version = 2, row_watermark = Some 1000\<rparr>)\<rparr>"

theorem resync_makes_no_progress:
  "outcome (run_connector one_page hn hn_key 0 newer) = (Inr (2, 0), 2, 0, Some 1000) \<and>
   cursors (snd (run_connector one_page hn hn_key 0 newer)) hn_key = cursors newer hn_key"
  by code_simp

text \<open>A refusal does not mean that the clamp of \<open>run\<close> was bypassed: pages whose watermarks fall are enough.\<close>

theorem falling_pages_are_refused:
  "outcome (run_connector (source_of [Fetched (page_at [''x''] 100), Fetched (page_at [''y''] 50)]) hn hn_key 0 fresh)
     = (Inr (2, 0), 2, 1, Some 100)"
  by code_simp

text \<open>
  The key of exact content that connectors use is not the one of \<open>connectors/dedup/hashing.py\<close>: it is taken
  over the text as it is, so a copy that differs in case is not suppressed.
\<close>

definition plain_rules :: text_rules where
  "plain_rules = \<lparr>sub_urls = (\<lambda>f t. t), sub_tail = id,
     url_lib = \<lparr>urlsplit = (\<lambda>_. None), parse_qsl = (\<lambda>_. []), urlencode = (\<lambda>_. []), urlunsplit = (\<lambda>_. [])\<rparr>\<rparr>"

theorem content_keys_differ:
  "content_key id plain_rules ''hn'' ''Big  News'' = content_key id plain_rules ''hn'' ''big news'' \<and>
   dk_content (base_dedup_keys id ''hn'' (post_signal ''Big  News'')) \<noteq> dk_content (base_dedup_keys id ''hn'' (post_signal ''big news'')) \<and>
   dk_content (base_dedup_keys id ''hn'' (post_signal ''Big  News'')) \<noteq> Some (content_key id plain_rules ''hn'' ''Big  News'')"
  by code_simp

end
