(* ===== verification/Spec2Isabelle.thy ===== *)
theory Spec2Isabelle
  imports Merge_Order Graph_Run Consumer_Examples Backoff_Laws Limiter_Examples
    Fusion_Laws Chunk_Ids Splitter_Laws Metrics_Laws Hybrid Resolution_Examples
    Batcher_Examples Schema_Laws Event_Laws Scheduler_Laws
    Model_Router_Laws Blocking_Examples Memory_Laws Registry_Laws
    Near_Duplicate_Laws Dedup_Laws Ingestion_Examples
begin

text \<open>
  A verification library for OmniSense, a multi-agent intelligence platform written in
  Python. Connectors collect records from providers under rate limits, an event bus
  carries them to workers, a temporal knowledge graph stores what they assert, and a graph
  of agents investigates a question and ships a report. The library models the parts whose
  logic is the program's own; clients of databases, brokers and models are parameters.

  How the parts interact. A connector fetches a page inside \<open>retry_page\<close>, which asks the
  breaker of the account first and the limiter before each call; what it collected travels
  as events, which \<open>EventConsumer\<close> hands to a worker's handler; graph workers turn signals
  into assertions about edges and \<open>merge_assertions\<close> folds them into the validity
  intervals that as-of queries read; an investigation runs the agents over that graph,
  every transition decided by \<open>agents/router.py\<close> and every node wrapped by
  \<open>agents/graph.py\<close>.

  Theories and the code they model (paths under \<open>src/\<close>):

  \<^item> \<open>Prelude\<close>: numbers, instants, results of calls that may raise, ordered sets, ASCII
    strings, stable sorting by a key; the interfaces \<open>result_loop\<close> (a loop whose body may
    raise, with its invariant) and \<open>machine\<close> (a step function with its invariant).
  \<^item> \<open>Validity\<close>: \<open>graph/temporal/validity.py\<close>, instants, intervals, closing, the as-of
    predicate. A \<open>datetime\<close> is the number of microseconds since the epoch.
  \<^item> \<open>Merge\<close>, \<open>Merge_Laws\<close>, \<open>Merge_Order\<close>: \<open>merge_assertions\<close> of the same file. The state
    of the walk is the list of accumulators, the last first, and the conflicts so far.
    The laws are an inductive specification the walk refines, its invariant as an instance
    of \<open>result_loop\<close>, and what reordering and replaying a batch does.
  \<^item> \<open>Router\<close>: \<open>agents/router.py\<close> with the keys of \<open>agents/state.py\<close> it reads, the
    classification of \<open>agents/errors.py\<close> and the statuses of \<open>models/enums.py\<close>: the guard,
    the edges, the brakes of the critic loop, the terminal status.
  \<^item> \<open>Investigation_Graph\<close>: \<open>agents/graph.py\<close>, the node wrapper, the reducers and the
    wiring; \<open>run_graph\<close> is the loop of LangGraph over them, with fuel.
  \<^item> \<open>Agent_Nodes\<close>: the nodes of that graph. \<open>BaseAgent.__call__\<close> of \<open>agents/base.py\<close> with its ledger and
    its budget, the \<open>to_delta\<close> of the agents, Graph Expansion and \<open>build_nodes\<close> of
    \<open>agents/composition.py\<close>, over attempts that are arguments; what every such node keeps to.
  \<^item> \<open>Graph_Laws\<close>, \<open>Graph_Run\<close>: the interface \<open>guarded_edge\<close> and its
    seven instances; that every run of the built nodes returns, how it ends, how often it re-enters
    the critic loop; concrete runs, what the shipped critic cannot do, and the witnesses.
  \<^item> \<open>Event_Consumer\<close>, \<open>Consumer_Laws\<close>, \<open>Consumer_Examples\<close>: the fetch, handle, commit
    cycle of \<open>services/events/consumer.py\<close> in an environment that answers every call as it
    likes; that no message is lost in a cycle or over the life of a consumer, that a
    partition stops at its first unsettled message, what a cycle may ask for.
  \<^item> \<open>Backoff\<close>, \<open>Backoff_Laws\<close>: \<open>connectors/ratelimit/backoff.py\<close>, the
    delays, the budget of a page, the circuit breaker as an instance of \<open>machine\<close>, and the
    retry loop over any operation, which a page and a whole run of the ingestion use.
  \<^item> \<open>Rate_Limiter\<close>, \<open>Limiter_Laws\<close>, \<open>Limiter_Examples\<close>:
    \<open>connectors/ratelimit/limiter.py\<close>, the three Lua scripts, the keys they leave with their time to
    live on Redis' clock, the limiter over Redis, its fallback; the interface \<open>paced_bucket\<close>, whose
    rate bound holds for the scripts and the expiring keys, and the laws of an acquire over several
    buckets, whose world keeps keys until they are written.

  \<^item> \<open>Py_Text\<close>: decimal numerals, \<open>rpartition\<close>, \<open>split\<close>, \<open>join\<close> and slices of strings.
  \<^item> \<open>Fusion\<close>, \<open>Fusion_Laws\<close>: \<open>retrieval/rerank/fusion.py\<close>, reciprocal
    rank fusion and the collapse of near-duplicates; that the score is the formula, each
    chunk is ranked once, the order of the backends does not matter.
  \<^item> \<open>Chunk_Ids\<close>: the chunk ids of \<open>retrieval/types.py\<close> and their round trip.
  \<^item> \<open>Splitter\<close>, \<open>Splitter_Laws\<close>: \<open>retrieval/chunking/splitter.py\<close>
    on ASCII texts; the spans of every stage, what the chunks cover, how long they get.
  \<^item> \<open>Metrics\<close>, \<open>Metrics_Laws\<close>: \<open>retrieval/evaluation/metrics.py\<close>, all within the unit
    interval.
  \<^item> \<open>Hybrid\<close>: \<open>retrieval/hybrid.py\<close> over backends, resolver, reranker and expander that
    are arguments, as they are protocols of the source; what a failing one costs.
  \<^item> \<open>Union_Find\<close>: \<open>_UnionFind\<close> of \<open>graph/resolution/entity_resolution.py\<close> as an instance
    of the interface \<open>partition\<close>: it computes connected components.
  \<^item> \<open>Resolution\<close>, \<open>Cluster_Laws\<close>, \<open>Resolution_Laws\<close>, \<open>Resolution_Examples\<close>: the
    rest of that file over any matcher and any index:
    scoring, refinement by average linkage, required links, election, merging, reversal.
  \<^item> \<open>Blocking\<close>, \<open>Blocking_Laws\<close>, \<open>Blocking_Examples\<close>: \<open>graph/resolution/blocking.py\<close> on
    ASCII names, an instance of \<open>machine\<close>: the candidates are exactly the pairs that meet in
    a block the size cap admits, after any additions and removals.
  \<^item> \<open>Matcher\<close>, \<open>Matcher_Laws\<close>: \<open>graph/resolution/matcher.py\<close> over string measures that are
    arguments; what a merge rests on, the unit interval, the memo. \<open>Matched_Pass\<close>: the pass
    over this matcher and this index, what a cluster rests on; its instances are in
    \<open>Blocking_Examples\<close>.
  \<^item> \<open>Enums\<close>, \<open>Graph_Schema\<close>: the labels of \<open>models/enums.py\<close>, the declarations and
    checks of \<open>graph/schema/nodes.py\<close> and \<open>graph/schema/edges.py\<close>, every property table
    included; keys and orientation of edges over a digest that is an argument.
  \<^item> \<open>Graph_Writer\<close>, \<open>Graph_Store\<close>: \<open>graph/ingest/writer.py\<close>, from writes to the plan of a
    transaction, and what the Cypher fragments the schema generates do to a store, \<open>created_at\<close> and
    \<open>updated_at\<close> included: the readings of the database's clock are an argument.
  \<^item> \<open>Writer_Laws\<close>, \<open>Writer_Replay\<close>, \<open>Writer_Examples\<close>: statements as point updates with
    distinct keys; deltas are summed, counted once, and a replay changes nothing but \<open>updated_at\<close>.
    \<open>Schema_Laws\<close>: the check of property maps is exact, planned rows keep the declared types.
  \<^item> \<open>Batcher\<close>, \<open>Batcher_Laws\<close>, \<open>Batcher_Examples\<close>: \<open>graph/ingest/batcher.py\<close> as steps
    between two awaits, in any interleaving of submitters, flusher, callers of \<open>flush\<close> and
    \<open>aclose\<close>, an instance of \<open>machine\<close>: no row is lost, no wake-up is lost, closing drains.
  \<^item> \<open>Event_Schemas\<close>, \<open>Dead_Letters\<close>, \<open>Event_Laws\<close>:
    \<open>services/events/schemas.py\<close>, \<open>services/events/topics.py\<close> and \<open>workers/dlq.py\<close>: topics,
    envelopes, the record of a failed message and its base64 body over bytes as words, the
    chain of an exception; classification, inspection and replay of dead letters.
  \<^item> \<open>Scheduler\<close>, \<open>Scheduler_Laws\<close>: \<open>workers/scheduler.py\<close>, the next
    run, the decision, the claim over a table that several replicas move, an instance of
    \<open>machine\<close>: every tick of the code raises, since the class it imports does not exist; with that class
    claims of a connector would keep their distance and the longest due go first.
  \<^item> \<open>Model_Router\<close>, \<open>Model_Router_Laws\<close>:
    \<open>services/llm/router.py\<close>, \<open>services/llm/cache.py\<close> and the response type of
    \<open>services/llm/provider.py\<close>: the walk down the tiers of models, the budget of a run,
    what a downgrade records, the cache of completions over any store and any digest.

  \<^item> \<open>Data_Boundary\<close>, \<open>Boundary_Laws\<close>: the data boundary of \<open>agents/tools/registry.py\<close>, third-party
    text scrubbed, captured and rendered inside a fence: the sentinel cannot be forged.
  \<^item> \<open>Tool_Registry\<close>, \<open>Registry_Laws\<close>: the registry of the same file: what
    runs on behalf of an agent, the ceiling on a result, widening, names on the wire.
  \<^item> \<open>Working_Memory\<close>, \<open>Memory_Laws\<close>: \<open>agents/memory/short_term.py\<close>, the
    context in front of a model: three tiers within a budget, no reference lost, no fence forged.

  \<^item> \<open>Fingerprints\<close>, \<open>Fingerprint_Laws\<close>: \<open>connectors/dedup/hashing.py\<close> over any digest: SimHash is a majority
    vote, the bands miss no pair. \<open>Near_Duplicates\<close>, \<open>Near_Duplicate_Laws\<close>: its clustering, an
    instance of \<open>partition\<close>, against the
    comparison of every pair; independent of every order.

  \<^item> \<open>Dedup_Store\<close>, \<open>Dedup_Laws\<close>: \<open>connectors/dedup/store.py\<close>, the seen-set over
    Redis and in memory, with the interfaces \<open>seen_set\<close> and \<open>reliable_seen_set\<close>: nothing is suppressed
    without a reason; one claim is granted in a window, in memory and over a Redis that answers and
    loses no key early.
  \<^item> \<open>Connector_Run\<close>, \<open>Connector_Runtime\<close>: \<open>connectors/base.py\<close> and
    \<open>services/connector_service.py\<close>, from a page of raw records to acknowledged events and a
    committed cursor, with a journal of what was handed over, acknowledged, parked and
    committed. \<open>Runtime_Laws\<close>, \<open>Ingestion_Laws\<close>, \<open>Ingestion_Examples\<close>: commits follow
    acknowledgements, watermarks do not move back, and four places where records are lost or
    progress is refused.

  Conventions. A Python \<open>int\<close> is \<open>int\<close> or, where it is a count, \<open>nat\<close>; a \<open>float\<close> is an
  exact rational, so rounding is not modelled. An exception is a value: \<open>Inl\<close> of an error,
  \<open>None\<close>, or a constructor of an outcome. A dictionary is a function to options, or the
  list of its items where its order is read. Log lines and the texts of errors are left
  out. Effects go through an environment that is a function argument, so a theorem about
  every environment covers every handler, broker, clock and moment of cancellation.

  Bounds and fuel. \<open>run_graph\<close> has fuel for the visits of a run; \<open>investigate_returns\<close>
  shows that the steps left plus three suffice. \<open>acquire\<close> has fuel for its passes over the
  keys; \<open>acquire_returns\<close> shows that two hundred for each second of the timeout suffice.
  \<open>drain\<close> has fuel for its flushes; \<open>close_drains\<close> shows that the number of rows suffices.
  \<open>retry_with\<close>, of which \<open>retry_loop\<close> and \<open>retry_drain\<close> are instances, and the cycle of the consumer
  terminate by a measure or by structure.

  Clocks. A clock that is read is an argument. Where a law needs one that does not run backwards
  (\<open>mono\<close>, \<open>forward\<close>, \<open>healthy\<close>, \<open>orderly\<close>), or clocks of several machines that agree on an order or up to a
  spread, its statement says so.

  What the laws showed. Where the code and its documentation part, or the code does not do what it is
  for, a theorem states it, most of them next to the laws of the component. Those that cost most: a failed
  publish loses its page, since records are marked as seen before they are handed over
  (\<open>failed_publish_loses_the_page\<close>, \<open>retried_page_loses_a_record\<close>); records that cannot be mapped go
  nowhere (\<open>unmappable_record_goes_nowhere\<close>); a re-sync makes no progress (\<open>resync_makes_no_progress\<close>); the
  final critic pass is skipped and the critic loop never taken (\<open>final_pass_is_skipped\<close>,
  \<open>shipped_critic_never_sends_back\<close>); the scheduler claims nothing (\<open>every_tick_raises\<close>); parked records
  cannot be read by the tools of the dead-letter queue (\<open>parked_records_are_unreadable\<close>); a truncated
  time to live lifts the rate limit (\<open>tiny_ttl_grants_everything\<close>), a denied or returned token lifts a park
  (\<open>denied_acquire_lifts_park\<close>, \<open>release_cuts_the_park\<close>); a half-open circuit lets every caller
  through (\<open>half_open_admits_all\<close>); equal deltas of two sightings are taken for a replay
  (\<open>equal_deltas_are_suppressed\<close>), and a write that failed is counted again
  (\<open>failed_write_counts_again\<close>).

  Not modelled: what an agent does between its input and its output, which are model calls and an
  argument of its node; the clients of Kafka, Redis, Postgres, Neo4j, Qdrant, OpenSearch and the model
  providers; the HTTP interface, the command line and the user interface; parsing of provider
  payloads. Known simplifications: texts are ASCII; two flushes of the batcher do not wait for one
  another on its lock, and exceptions of the consumer while it builds the record of a failed message
  or seeks are not modelled. Left for extensions of the library: the schema migrator, the
  connector registry and the pipeline of the signal engine.
\<close>

end
